(* ===== verification/Prelude.thy ===== *)
theory Prelude
  imports Complex_Main "HOL-Library.List_Lexorder" "HOL-Library.Char_ord"
begin

section \<open>Prelude: exceptions, results and helpers shared by every component\<close>

text \<open>
  The Python exceptions that the modelled code raises, the result type of a function that
  may raise, the dynamically typed values stored in metadata dictionaries, and small
  generic lemmas. Exception messages are f-strings for humans and are reduced to a short
  tag that tells the raise statements of one function apart.
\<close>

named_theorems py_defs \<open>definitions unfolded to evaluate a model on a concrete input\<close>

datatype exn =
    ValueError string
  | RuntimeError string
  | AssertionError string
  | KeyError string
  | IndexError
  | TypeError string
  | PermissionError string
  | InvalidOperation          \<comment> \<open>\<open>decimal.InvalidOperation\<close>\<close>
  | ZeroDivision
  | IllegalTransition string string \<comment> \<open>machine name and trigger\<close>
  | KernelFault string
  | OtherException string

type_synonym 'a result = "exn + 'a"

definition bind_result :: "'a result \<Rightarrow> ('a \<Rightarrow> 'b result) \<Rightarrow> 'b result" where
  "bind_result r f = (case r of Inl e \<Rightarrow> Inl e | Inr x \<Rightarrow> f x)"

lemma bind_result_simps [simp]:
  "bind_result (Inl e) f = Inl e"
  "bind_result (Inr x) f = f x"
  by (simp_all add: bind_result_def)

lemma bind_result_Inr_iff:
  "bind_result r f = Inr y \<longleftrightarrow> (\<exists>x. r = Inr x \<and> f x = Inr y)"
  by (cases r) auto

text \<open>Scalars whose type is only known at run time.\<close>

datatype pyval = PNone | PBool bool | PInt int | PFloat rat | PStr string

text \<open>Python's floats with their special values, and the values of \<open>dict[str, Any]\<close>
  metadata; insertion order is kept.\<close>

datatype pyfloat = Fin rat | NaN | PosInf | NegInf

datatype meta = MNone | MBool bool | MInt int | MFloat pyfloat | MStr string | MList "meta list" | MDict "(string \<times> meta) list"

type_synonym metadata = "(string \<times> meta) list"

text \<open>Names of the model's scalar types: nanoseconds and share counts are Python's
  unbounded integers.\<close>

type_synonym ns = int
type_synonym symbol = string
type_synonym strategy = string

subsection \<open>Signs\<close>

definition same_sign :: "int \<Rightarrow> int \<Rightarrow> bool" where
  "same_sign a b \<longleftrightarrow> (0 < a \<and> 0 < b) \<or> (a < 0 \<and> b < 0)"

lemma same_sign_sgn: "same_sign a b \<longleftrightarrow> a \<noteq> 0 \<and> sgn a = sgn b"
  by (auto simp: same_sign_def sgn_if)

lemma same_sign_refl [simp]: "same_sign a a \<longleftrightarrow> a \<noteq> 0"
  by (auto simp: same_sign_def)

lemma same_sign_commute: "same_sign a b = same_sign b a"
  by (auto simp: same_sign_def)

lemma same_sign_zero [simp]: "\<not> same_sign 0 a" "\<not> same_sign a 0"
  by (auto simp: same_sign_def)

subsection \<open>Association lists as insertion-ordered dictionaries\<close>

text \<open>
  \<open>d[k] = v\<close> on a Python dictionary keeps the position of an existing key and appends a new
  one; \<open>d.pop(k, None)\<close> drops the key. Iteration follows the list.
\<close>

fun dict_set :: "'k \<Rightarrow> 'v \<Rightarrow> ('k \<times> 'v) list \<Rightarrow> ('k \<times> 'v) list" where
  "dict_set k v [] = [(k, v)]"
| "dict_set k v ((k', v') # d) = (if k = k' then (k, v) # d else (k', v') # dict_set k v d)"

definition dict_pop :: "'k \<Rightarrow> ('k \<times> 'v) list \<Rightarrow> ('k \<times> 'v) list" where
  "dict_pop k d = filter (\<lambda>p. fst p \<noteq> k) d"

lemma map_of_dict_set [simp]: "map_of (dict_set k v d) = (map_of d)(k \<mapsto> v)"
  by (induction d) auto

lemma set_fst_dict_set [simp]: "fst ` set (dict_set k v d) = insert k (fst ` set d)"
  by (induction k v d rule: dict_set.induct) auto

lemma distinct_dict_set [simp]:
  "distinct (map fst (dict_set k v d)) = distinct (map fst d)"
proof (induction d)
  case (Cons p d)
  have "set (map fst (dict_set k v d)) = insert k (set (map fst d))"
    by simp
  then show ?case using Cons by (cases p) auto
qed simp

lemma dict_set_same: "map_of d k = Some v \<Longrightarrow> dict_set k v d = d"
  by (induction d) (auto split: if_splits)

lemma map_fst_dict_set: "map_of d k \<noteq> None \<Longrightarrow> map fst (dict_set k v d) = map fst d"
  by (induction d) (auto split: if_splits)

lemma set_dict_set_cases: "p \<in> set (dict_set k v d) \<Longrightarrow> p = (k, v) \<or> p \<in> set d"
  by (induction d) (auto split: if_splits)

lemma set_dict_pop: "p \<in> set (dict_pop k d) \<longleftrightarrow> p \<in> set d \<and> fst p \<noteq> k"
  by (induction d) (auto simp: dict_pop_def)

lemma map_of_dict_pop [simp]: "map_of (dict_pop k d) = (map_of d)(k := None)"
  unfolding dict_pop_def by (induction d) (auto simp: fun_eq_iff)

lemma set_fst_dict_pop [simp]: "fst ` set (dict_pop k d) = fst ` set d - {k}"
  unfolding dict_pop_def by auto

lemma distinct_dict_pop [simp]: "distinct (map fst d) \<Longrightarrow> distinct (map fst (dict_pop k d))"
  unfolding dict_pop_def by (simp add: distinct_map_filter)

subsection \<open>Lists kept as bounded ring buffers\<close>

text \<open>\<open>collections.deque(maxlen=n)\<close>: an append beyond \<open>n\<close> elements drops the oldest.\<close>

definition push_bounded :: "nat option \<Rightarrow> 'a \<Rightarrow> 'a list \<Rightarrow> 'a list" where
  "push_bounded mx x h =
     (case mx of None \<Rightarrow> h @ [x]
      | Some n \<Rightarrow> drop (length (h @ [x]) - n) (h @ [x]))"

lemma push_bounded_length: "mx = Some n \<Longrightarrow> length (push_bounded mx x h) \<le> n"
  by (simp add: push_bounded_def)

lemma push_bounded_last: "mx \<noteq> Some 0 \<Longrightarrow>
  push_bounded mx x h \<noteq> [] \<and> last (push_bounded mx x h) = x"
  by (auto simp: push_bounded_def split: option.splits)

lemma push_bounded_suffix: "\<exists>ys. h @ [x] = ys @ push_bounded mx x h"
proof (cases mx)
  case None
  then show ?thesis by (simp add: push_bounded_def)
next
  case (Some n)
  then show ?thesis unfolding push_bounded_def
    by (metis append_take_drop_id option.simps(5))
qed

subsection \<open>Sums over lists\<close>

lemma sum_list_replicate_zero [simp]: "sum_list (replicate n (0::'a::comm_monoid_add)) = 0"
  by (induction n) auto

lemma sum_list_map_add:
  "sum_list (map (\<lambda>x. f x + g x) xs) = sum_list (map f xs) + (sum_list (map g xs)::'a::comm_monoid_add)"
  by (induction xs) (auto simp: algebra_simps)

lemma sum_list_const_mult:
  "sum_list (map (\<lambda>x. c * f x) xs) = (c::'a::semiring_0) * sum_list (map f xs)"
  by (induction xs) (auto simp: algebra_simps)

lemma sum_list_nonneg_int: "(\<And>x. x \<in> set xs \<Longrightarrow> 0 \<le> (x::int)) \<Longrightarrow> 0 \<le> sum_list xs"
  by (induction xs) auto

end
