(* ===== verification/Numerics.thy ===== *)
theory Numerics
  imports Prelude "HOL-Library.Log_Nat"
begin

section \<open>Decimal and binary64 arithmetic as rounded rational arithmetic\<close>

text \<open>
  Prices, fees and profits are \<open>decimal.Decimal\<close> under the default context (28 significant
  digits, ROUND_HALF_EVEN); probabilities, weights and scores are IEEE binary64
  floats (53 significant bits, ties to even). Both are the exact rational result of an
  operation rounded to a fixed number of significant digits of a base, which is what
  \<open>round_sig\<close> computes. Exponent limits (Decimal's Emax/Emin of 999999, binary64 overflow
  and subnormals), NaN and the infinities are outside the model.
\<close>

type_synonym decimal = rat
type_synonym float64 = rat

definition half_even :: "rat \<Rightarrow> int" where
  "half_even y =
     (let f = \<lfloor>y\<rfloor>; r = y - of_int f
      in if r < 1/2 then f else if 1/2 < r then f + 1 else if even f then f else f + 1)"

definition mag_exp :: "nat \<Rightarrow> rat \<Rightarrow> int" where
  \<comment> \<open>the exponent \<open>e\<close> with \<open>b^(e-1) \<le> a < b^e\<close>, for \<open>0 < a\<close>\<close>
  "mag_exp b a =
     (if 1 \<le> a then int (floorlog b (nat \<lfloor>a\<rfloor>))
      else 1 - int (floorlog b (nat (\<lceil>1 / a\<rceil> - 1))))"

definition round_sig :: "nat \<Rightarrow> nat \<Rightarrow> rat \<Rightarrow> rat" where
  "round_sig b p x =
     (if x = 0 then 0
      else let s = (of_nat b :: rat) powi (mag_exp b \<bar>x\<bar> - int p)
           in of_int (half_even (x / s)) * s)"

abbreviation dec_round :: "rat \<Rightarrow> decimal" where
  "dec_round \<equiv> round_sig 10 28"

abbreviation fl_round :: "rat \<Rightarrow> float64" where
  "fl_round \<equiv> round_sig 2 53"

definition dec_add :: "decimal \<Rightarrow> decimal \<Rightarrow> decimal" where "dec_add a b = dec_round (a + b)"
definition dec_sub :: "decimal \<Rightarrow> decimal \<Rightarrow> decimal" where "dec_sub a b = dec_round (a - b)"
definition dec_mul :: "decimal \<Rightarrow> decimal \<Rightarrow> decimal" where "dec_mul a b = dec_round (a * b)"
definition dec_div :: "decimal \<Rightarrow> decimal \<Rightarrow> decimal" where "dec_div a b = dec_round (a / b)"

definition fl_add :: "float64 \<Rightarrow> float64 \<Rightarrow> float64" where "fl_add a b = fl_round (a + b)"
definition fl_sub :: "float64 \<Rightarrow> float64 \<Rightarrow> float64" where "fl_sub a b = fl_round (a - b)"
definition fl_mul :: "float64 \<Rightarrow> float64 \<Rightarrow> float64" where "fl_mul a b = fl_round (a * b)"
definition fl_div :: "float64 \<Rightarrow> float64 \<Rightarrow> float64" where "fl_div a b = fl_round (a / b)"

text \<open>\<open>Decimal.quantize\<close> to \<open>n\<close> decimal places: the integer rounding is the context's or
  the one given, and a coefficient of more than 28 digits raises.\<close>

definition quantize :: "(rat \<Rightarrow> int) \<Rightarrow> nat \<Rightarrow> decimal \<Rightarrow> decimal result" where
  "quantize rnd n x =
     (let c = rnd (x * 10 ^ n)
      in if \<bar>c\<bar> < 10 ^ 28 then Inr (of_int c / 10 ^ n) else Inl InvalidOperation)"

subsection \<open>Rounding to an integer\<close>

lemma half_even_of_int [simp]: "half_even (of_int k) = k"
  by (simp add: half_even_def)

lemma half_even_close: "\<bar>of_int (half_even y) - y\<bar> \<le> 1/2"
proof -
  have "of_int \<lfloor>y\<rfloor> \<le> y" "y < of_int \<lfloor>y\<rfloor> + 1" by linarith+
  then show ?thesis by (auto simp: half_even_def Let_def)
qed

lemma half_even_le: "of_int k \<le> y \<Longrightarrow> k \<le> half_even y"
proof -
  assume "of_int k \<le> y"
  then have "k \<le> \<lfloor>y\<rfloor>" by (simp add: le_floor_iff)
  then show ?thesis by (auto simp: half_even_def Let_def)
qed

lemma half_even_ge: "y \<le> of_int k \<Longrightarrow> half_even y \<le> k"
proof -
  assume y: "y \<le> of_int k"
  have "\<lfloor>y\<rfloor> \<le> k" using y by linarith
  moreover have "\<lfloor>y\<rfloor> = k \<Longrightarrow> y = of_int k" using y by linarith
  ultimately show ?thesis by (force simp: half_even_def Let_def)
qed

lemma half_even_minus: "half_even (- y) = - half_even y"
proof (cases "y = of_int \<lfloor>y\<rfloor>")
  case True
  then obtain k where "y = of_int k" by blast
  then show ?thesis using half_even_of_int [of k] half_even_of_int [of "- k"] by simp
next
  case False
  then have f: "\<lfloor>- y\<rfloor> = - \<lfloor>y\<rfloor> - 1" by linarith
  show ?thesis unfolding half_even_def Let_def f by auto
qed

lemma half_even_mono: "y \<le> z \<Longrightarrow> half_even y \<le> half_even z"
proof -
  assume yz: "y \<le> z"
  consider "\<lfloor>y\<rfloor> = \<lfloor>z\<rfloor>" | "\<lfloor>y\<rfloor> + 1 \<le> \<lfloor>z\<rfloor>"
    using floor_mono [OF yz] by linarith
  then show ?thesis
  proof cases
    case 1
    then show ?thesis using yz by (auto simp: half_even_def Let_def)
  next
    case 2
    have "half_even y \<le> \<lfloor>y\<rfloor> + 1" by (rule half_even_ge) linarith
    also have "\<dots> \<le> \<lfloor>z\<rfloor>" using 2 by simp
    also have "\<dots> \<le> half_even z" by (rule half_even_le) simp
    finally show ?thesis .
  qed
qed

subsection \<open>Rounding to significant digits\<close>

lemma mag_exp_bounds:
  assumes b: "1 < b" and a: "0 < a"
  shows "(of_nat b :: rat) powi (mag_exp b a - 1) \<le> a"
    and "a < (of_nat b :: rat) powi (mag_exp b a)"
proof -
  have "(of_nat b :: rat) powi (mag_exp b a - 1) \<le> a \<and> a < (of_nat b :: rat) powi (mag_exp b a)"
  proof (cases "1 \<le> a")
    case True
    define n where "n = nat \<lfloor>a\<rfloor>"
    have n: "0 < n" "of_nat n \<le> a" "a < of_nat n + 1"
      using True unfolding n_def by (simp_all add: of_nat_nat) linarith
    have fl: "b ^ (floorlog b n - 1) \<le> n" "n < b ^ floorlog b n"
      using floorlog_bounds [OF n(1) b] by auto
    have pos: "0 < floorlog b n"
      using n(1) b by (simp add: floorlog_def)
    have e: "mag_exp b a = int (floorlog b n)" "mag_exp b a - 1 = int (floorlog b n - 1)"
      using True pos by (simp_all add: mag_exp_def n_def)
    have "(of_nat b :: rat) ^ (floorlog b n - 1) \<le> of_nat n"
      using fl(1) by (metis of_nat_le_iff of_nat_power)
    moreover have "(of_nat (n + 1) :: rat) \<le> of_nat (b ^ floorlog b n)"
      using fl(2) by (simp only: of_nat_le_iff)
    ultimately have "(of_nat b :: rat) ^ (floorlog b n - 1) \<le> a"
      "a < (of_nat b :: rat) ^ floorlog b n"
      using n(2,3) by (linarith, simp)
    then show ?thesis unfolding e(2) unfolding e(1) power_int_of_nat by simp
  next
    case False
    define m where "m = nat (\<lceil>1 / a\<rceil> - 1)"
    have "1 < 1 / a" using False a by simp
    then have m: "0 < m" "of_nat m < 1 / a" "1 / a \<le> of_nat m + 1"
      unfolding m_def by (simp_all add: of_nat_nat) linarith+
    have fl: "b ^ (floorlog b m - 1) \<le> m" "m < b ^ floorlog b m"
      using floorlog_bounds [OF m(1) b] by auto
    have pos: "0 < floorlog b m"
      using m(1) b by (simp add: floorlog_def)
    have e: "mag_exp b a = - int (floorlog b m - 1)" "mag_exp b a - 1 = - int (floorlog b m)"
      using False pos by (simp_all add: mag_exp_def m_def)
    have "(of_nat b :: rat) ^ (floorlog b m - 1) \<le> of_nat m"
      using fl(1) by (metis of_nat_le_iff of_nat_power)
    then have lo: "(of_nat b :: rat) ^ (floorlog b m - 1) < 1 / a"
      using m(2) by (rule le_less_trans)
    have "(of_nat (m + 1) :: rat) \<le> of_nat (b ^ floorlog b m)"
      using fl(2) by (simp only: of_nat_le_iff)
    then have hi: "1 / a \<le> (of_nat b :: rat) ^ floorlog b m"
      using m(3) by simp
    show ?thesis
      using lo hi a b unfolding e(2) unfolding e(1)
      by (simp add: power_int_minus field_simps)
  qed
  then show "(of_nat b :: rat) powi (mag_exp b a - 1) \<le> a"
    and "a < (of_nat b :: rat) powi (mag_exp b a)" by simp_all
qed

lemma round_sig_zero [simp]: "round_sig b p 0 = 0"
  by (simp add: round_sig_def)

text \<open>A number of at most \<open>p\<close> significant digits is not changed.\<close>

lemma round_sig_exact:
  assumes b: "1 < b" and m: "\<bar>m\<bar> < int b ^ p" and x: "x = of_int m * (of_nat b :: rat) powi q"
  shows "round_sig b p x = x"
proof (cases "x = 0")
  case False
  define e where "e = mag_exp b \<bar>x\<bar>"
  have B: "(1::rat) < of_nat b" using b by simp
  have "(of_nat b :: rat) powi (e - 1) \<le> \<bar>x\<bar>"
    using mag_exp_bounds(1) [OF b, of "\<bar>x\<bar>"] False by (simp add: e_def)
  also have "\<bar>x\<bar> < of_nat b ^ p * (of_nat b :: rat) powi q"
  proof -
    have "(of_int \<bar>m\<bar> :: rat) < of_int (int b ^ p)" using m by (simp only: of_int_less_iff)
    then show ?thesis using B by (simp add: x abs_mult)
  qed
  also have "\<dots> = (of_nat b :: rat) powi (int p + q)"
    using B by (simp add: power_int_add)
  finally have "e - 1 < int p + q"
    using B power_int_increasing [of "int p + q" "e - 1" "of_nat b :: rat"] by linarith
  then have q: "q - (e - int p) = int (nat (q - (e - int p)))" by simp
  have "x / (of_nat b :: rat) powi (e - int p) = of_int m * (of_nat b :: rat) powi (q - (e - int p))"
    using B by (simp add: x power_int_diff)
  also have "\<dots> = of_int (m * int b ^ nat (q - (e - int p)))"
    using q by (metis (no_types, lifting) of_int_mult of_int_of_nat_eq of_int_power power_int_of_nat)
  finally have "x / (of_nat b :: rat) powi (e - int p) = of_int (m * int b ^ nat (q - (e - int p)))" .
  then have "of_int (half_even (x / (of_nat b :: rat) powi (e - int p)))
      = x / (of_nat b :: rat) powi (e - int p)"
    by (metis half_even_of_int)
  then show ?thesis
    using False B by (simp add: round_sig_def e_def Let_def)
qed simp

text \<open>Rounding moves a number by at most half a unit of its last digit, keeps it in its
  own decade, keeps its sign, and is monotone.\<close>

lemma round_sig_minus: "round_sig b p (- x) = - round_sig b p x"
  by (simp add: round_sig_def Let_def half_even_minus)

lemma round_sig_scale:
  assumes b: "1 < b" and x: "0 < x"
  shows "0 < (of_nat b :: rat) powi (mag_exp b x - int p)"
    and "(of_nat b :: rat) powi (mag_exp b x) = of_nat b ^ p * (of_nat b :: rat) powi (mag_exp b x - int p)"
    and "0 < p \<Longrightarrow> (of_nat b :: rat) powi (mag_exp b x - 1)
        = of_nat b ^ (p - 1) * (of_nat b :: rat) powi (mag_exp b x - int p)"
  using b by (simp_all add: power_int_diff field_simps power_int_add power_eq_if [of _ p])

lemma round_sig_decade:
  assumes b: "1 < b" and p: "0 < p" and x: "0 < x"
  shows "(of_nat b :: rat) powi (mag_exp b x - 1) \<le> round_sig b p x"
    and "round_sig b p x \<le> (of_nat b :: rat) powi (mag_exp b x)"
proof -
  define s where "s = (of_nat b :: rat) powi (mag_exp b x - int p)"
  have s: "0 < s" using round_sig_scale(1) [OF b x] by (simp add: s_def)
  have r: "round_sig b p x = of_int (half_even (x / s)) * s"
    using x by (simp add: round_sig_def s_def Let_def)
  have "of_int (int b ^ (p - 1)) \<le> x / s"
    using mag_exp_bounds(1) [OF b x] round_sig_scale(3) [OF b x p] s
    by (simp add: s_def [symmetric] pos_le_divide_eq)
  then have "int b ^ (p - 1) \<le> half_even (x / s)" by (rule half_even_le)
  then have "of_int (int b ^ (p - 1)) \<le> (of_int (half_even (x / s)) :: rat)"
    by (simp only: of_int_le_iff)
  then show "(of_nat b :: rat) powi (mag_exp b x - 1) \<le> round_sig b p x"
    using round_sig_scale(3) [OF b x p] s by (simp add: s_def [symmetric] r mult_right_mono)
  have "x / s \<le> of_int (int b ^ p)"
    using mag_exp_bounds(2) [OF b x] round_sig_scale(2) [OF b x, of p] s
    by (simp add: s_def [symmetric] pos_divide_le_eq)
  then have "half_even (x / s) \<le> int b ^ p" by (rule half_even_ge)
  then have "(of_int (half_even (x / s)) :: rat) \<le> of_int (int b ^ p)"
    by (simp only: of_int_le_iff)
  then show "round_sig b p x \<le> (of_nat b :: rat) powi (mag_exp b x)"
    using round_sig_scale(2) [OF b x, of p] s by (simp add: s_def [symmetric] r mult_right_mono)
qed

lemma round_sig_pos: "1 < b \<Longrightarrow> 0 < p \<Longrightarrow> 0 < x \<Longrightarrow> 0 < round_sig b p x"
  by (rule less_le_trans [OF _ round_sig_decade(1)]) simp_all

lemma round_sig_neg: "1 < b \<Longrightarrow> 0 < p \<Longrightarrow> x < 0 \<Longrightarrow> round_sig b p x < 0"
  using round_sig_pos [of b p "- x"] by (simp add: round_sig_minus)

lemma round_sig_sign:
  assumes "1 < b" and "0 < p"
  shows "0 < round_sig b p x \<longleftrightarrow> 0 < x" and "round_sig b p x < 0 \<longleftrightarrow> x < 0"
    and "round_sig b p x = 0 \<longleftrightarrow> x = 0"
  using round_sig_pos [OF assms, of x] round_sig_neg [OF assms, of x]
  by (cases x "0 :: rat" rule: linorder_cases; force)+

lemma mag_exp_mono:
  assumes b: "1 < b" and "0 < x" and "x \<le> y"
  shows "mag_exp b x \<le> mag_exp b y"
proof -
  have B: "(1::rat) < of_nat b" using b by simp
  have "(of_nat b :: rat) powi (mag_exp b x - 1) \<le> x" "y < (of_nat b :: rat) powi mag_exp b y"
    using mag_exp_bounds [OF b] assms by auto
  then have "(of_nat b :: rat) powi (mag_exp b x - 1) < (of_nat b :: rat) powi mag_exp b y"
    using assms by linarith
  then show ?thesis
    using B power_int_increasing [of "mag_exp b y" "mag_exp b x - 1" "of_nat b :: rat"] by linarith
qed

lemma round_sig_mono_pos:
  assumes b: "1 < b" and p: "0 < p" and x: "0 < x" and xy: "x \<le> y"
  shows "round_sig b p x \<le> round_sig b p y"
proof (cases "mag_exp b x = mag_exp b y")
  case True
  define s where "s = (of_nat b :: rat) powi (mag_exp b x - int p)"
  have s: "0 < s" using round_sig_scale(1) [OF b x] by (simp add: s_def)
  have "x / s \<le> y / s" using xy s by (simp add: divide_right_mono)
  then have "half_even (x / s) \<le> half_even (y / s)" by (rule half_even_mono)
  then show ?thesis using x xy s True by (simp add: round_sig_def s_def Let_def)
next
  case False
  then have "mag_exp b x \<le> mag_exp b y - 1" using mag_exp_mono [OF b x xy] by simp
  then have "(of_nat b :: rat) powi (mag_exp b x) \<le> (of_nat b :: rat) powi (mag_exp b y - 1)"
    using b by (intro power_int_increasing) auto
  then show ?thesis
    using round_sig_decade(2) [OF b p x] round_sig_decade(1) [OF b p, of y] x xy by linarith
qed

lemma round_sig_mono:
  assumes b: "1 < b" and p: "0 < p" and xy: "x \<le> y"
  shows "round_sig b p x \<le> round_sig b p y"
proof -
  consider "0 < x" | "x \<le> 0" "0 \<le> y" | "y < 0" by linarith
  then show ?thesis
  proof cases
    case 1
    then show ?thesis by (rule round_sig_mono_pos [OF b p _ xy])
  next
    case 2
    then show ?thesis using round_sig_sign [OF b p, of x] round_sig_sign [OF b p, of y] by linarith
  next
    case 3
    then show ?thesis
      using round_sig_mono_pos [OF b p, of "- y" "- x"] xy by (simp add: round_sig_minus)
  qed
qed

text \<open>A rounded number is not rounded again.\<close>

lemma round_sig_idem_pos:
  assumes b: "1 < b" and p: "0 < p" and x: "0 < x"
  shows "round_sig b p (round_sig b p x) = round_sig b p x"
proof -
  define s where "s = (of_nat b :: rat) powi (mag_exp b x - int p)"
  define k where "k = half_even (x / s)"
  have s: "0 < s" using round_sig_scale(1) [OF b x] by (simp add: s_def)
  have r: "round_sig b p x = of_int k * s"
    using x by (simp add: round_sig_def s_def k_def Let_def)
  have "of_int (int b ^ (p - 1)) \<le> x / s"
    using mag_exp_bounds(1) [OF b x] round_sig_scale(3) [OF b x p] s
    by (simp add: s_def [symmetric] pos_le_divide_eq)
  then have "int b ^ (p - 1) \<le> k" unfolding k_def by (rule half_even_le)
  then have k0: "0 \<le> k" by (rule order_trans [rotated]) simp
  have "x / s \<le> of_int (int b ^ p)"
    using mag_exp_bounds(2) [OF b x] round_sig_scale(2) [OF b x, of p] s
    by (simp add: s_def [symmetric] pos_divide_le_eq)
  then have k1: "k \<le> int b ^ p" unfolding k_def by (rule half_even_ge)
  show ?thesis
  proof (cases "k = int b ^ p")
    case False
    then show ?thesis
      using round_sig_exact [OF b _ r [unfolded s_def]] k0 k1 by simp
  next
    case True
    have "round_sig b p x = of_int 1 * (of_nat b :: rat) powi (mag_exp b x)"
      using round_sig_scale(2) [OF b x, of p] by (simp add: r True s_def)
    moreover have "\<bar>1\<bar> < int b ^ p" using b p by simp
    ultimately show ?thesis using round_sig_exact [OF b] by blast
  qed
qed

lemma round_sig_idem:
  assumes "1 < b" and "0 < p"
  shows "round_sig b p (round_sig b p x) = round_sig b p x"
  using round_sig_idem_pos [OF assms, of x] round_sig_idem_pos [OF assms, of "- x"]
  by (cases x "0 :: rat" rule: linorder_cases) (simp_all add: round_sig_minus)

lemma round_sig_between:
  assumes "1 < b" and "0 < p" and "round_sig b p y = y"
  shows "y \<le> x \<Longrightarrow> y \<le> round_sig b p x" and "x \<le> y \<Longrightarrow> round_sig b p x \<le> y"
  using round_sig_mono [OF assms(1,2), of y x] round_sig_mono [OF assms(1,2), of x y] assms(3) by simp_all

lemma round_sig_error:
  assumes b: "1 < b" and p: "0 < p"
  shows "\<bar>round_sig b p x - x\<bar> * (2 * of_nat b ^ (p - 1)) \<le> \<bar>x\<bar>"
proof (cases "x = 0")
  case False
  define s where "s = (of_nat b :: rat) powi (mag_exp b \<bar>x\<bar> - int p)"
  have s: "0 < s" using round_sig_scale(1) [OF b, of "\<bar>x\<bar>"] False by (simp add: s_def)
  have "round_sig b p x - x = (of_int (half_even (x / s)) - x / s) * s"
    using False s by (simp add: round_sig_def s_def [symmetric] Let_def left_diff_distrib)
  then have "\<bar>round_sig b p x - x\<bar> \<le> 1/2 * s"
    using half_even_close [of "x / s"] s by (simp add: abs_mult mult_right_mono)
  then have "\<bar>round_sig b p x - x\<bar> * (2 * of_nat b ^ (p - 1)) \<le> 1/2 * s * (2 * of_nat b ^ (p - 1))"
    by (rule mult_right_mono) simp
  also have "\<dots> = (of_nat b :: rat) powi (mag_exp b \<bar>x\<bar> - 1)"
    using round_sig_scale(3) [OF b _ p, of "\<bar>x\<bar>"] False by (simp add: s_def)
  also have "\<dots> \<le> \<bar>x\<bar>" using mag_exp_bounds(1) [OF b, of "\<bar>x\<bar>"] False by simp
  finally show ?thesis .
qed simp

lemma round_sig_abs_le:
  assumes "1 < b" and "0 < p" and "round_sig b p y = y" and "\<bar>x\<bar> \<le> y"
  shows "\<bar>round_sig b p x\<bar> \<le> y"
proof -
  have "round_sig b p (- y) = - y" using assms(3) by (simp add: round_sig_minus)
  then show ?thesis
    using round_sig_between [OF assms(1,2), of y x] round_sig_between [OF assms(1,2), of "- y" x] assms(3,4)
    by (simp add: abs_le_iff)
qed

text \<open>The relative error of a float operation, on non-negative values.\<close>

lemma fl_bounds:
  assumes "0 \<le> x"
  shows "x * (1 - 1 / 2 ^ 53) \<le> fl_round x" and "fl_round x \<le> x * (1 + 1 / 2 ^ 53)"
proof -
  have "\<bar>fl_round x - x\<bar> * 2 ^ 53 \<le> x" using round_sig_error [of 2 53 x] assms by simp
  then have "\<bar>fl_round x - x\<bar> \<le> x / 2 ^ 53" by (simp only: pos_le_divide_eq zero_less_power zero_less_numeral)
  then show "x * (1 - 1 / 2 ^ 53) \<le> fl_round x" and "fl_round x \<le> x * (1 + 1 / 2 ^ 53)"
    unfolding right_diff_distrib distrib_left mult_1_right times_divide_eq_right by linarith+
qed

lemma fl_of_int_exact: "\<bar>m\<bar> < 2 ^ 53 \<Longrightarrow> fl_round (of_int m) = of_int m"
  by (rule round_sig_exact [of 2 m 53 _ 0]) simp_all

subsection \<open>Exact decimals\<close>

text \<open>A decimal with at most \<open>k\<close> places and at most 28 digits in all; arithmetic whose exact
  result is such a number is exact.\<close>

definition dec_exact :: "nat \<Rightarrow> decimal \<Rightarrow> bool" where
  "dec_exact k x \<longleftrightarrow> x * 10 ^ k = of_int \<lfloor>x * 10 ^ k\<rfloor> \<and> \<bar>x * 10 ^ k\<bar> < 10 ^ 28"

lemma dec_round_exact: "dec_exact k x \<Longrightarrow> dec_round x = x"
proof -
  assume "dec_exact k x"
  then have m: "x * 10 ^ k = of_int \<lfloor>x * 10 ^ k\<rfloor>" and "\<bar>x * 10 ^ k\<bar> < 10 ^ 28"
    unfolding dec_exact_def by blast+
  then have "of_int \<bar>\<lfloor>x * 10 ^ k\<rfloor>\<bar> < (of_int (10 ^ 28) :: rat)" by simp
  then have "\<bar>\<lfloor>x * 10 ^ k\<rfloor>\<bar> < int 10 ^ 28" by (simp only: of_int_less_iff) simp
  moreover have "x = of_int \<lfloor>x * 10 ^ k\<rfloor> * (of_nat 10 :: rat) powi (- int k)"
    using m by (simp add: power_int_minus field_simps)
  ultimately show ?thesis by (intro round_sig_exact) simp_all
qed

lemma dec_exact_intI: "x * 10 ^ k = of_int m \<Longrightarrow> \<bar>m\<bar> < 10 ^ 28 \<Longrightarrow> dec_exact k x"
proof -
  assume x: "x * 10 ^ k = of_int m" and m: "\<bar>m\<bar> < 10 ^ 28"
  have "(of_int \<bar>m\<bar> :: rat) < of_int (10 ^ 28)" using m by (simp only: of_int_less_iff)
  then show ?thesis by (simp add: dec_exact_def x)
qed

subsection \<open>Grids of fixed precision\<close>

text \<open>Values with at most \<open>k\<close> decimal places are closed under the ledger's operations, and
  the operations are exact as long as the result keeps 28 digits.\<close>

definition on_grid :: "nat \<Rightarrow> decimal \<Rightarrow> bool" where
  "on_grid k x \<longleftrightarrow> x * 10 ^ k = of_int \<lfloor>x * 10 ^ k\<rfloor>"

lemma on_gridI: "x * 10 ^ k = of_int m \<Longrightarrow> on_grid k x"
  by (simp add: on_grid_def)

lemma on_gridE: "on_grid k x \<Longrightarrow> (\<And>m. x * 10 ^ k = of_int m \<Longrightarrow> P) \<Longrightarrow> P"
  by (auto simp: on_grid_def)

lemma on_grid_zero [simp, intro]: "on_grid k 0"
  by (simp add: on_grid_def)

lemma on_grid_add [intro]: "on_grid k x \<Longrightarrow> on_grid k y \<Longrightarrow> on_grid k (x + y)"
  by (elim on_gridE, rule on_gridI [of _ _ "_ + _"]) (simp add: distrib_right)

lemma on_grid_diff [intro]: "on_grid k x \<Longrightarrow> on_grid k y \<Longrightarrow> on_grid k (x - y)"
  by (elim on_gridE, rule on_gridI [of _ _ "_ - _"]) (simp add: left_diff_distrib)

lemma on_grid_mult_int [intro]: "on_grid k x \<Longrightarrow> on_grid k (x * of_int n)"
proof (elim on_gridE)
  fix m assume "x * 10 ^ k = of_int m"
  then have "x * of_int n * 10 ^ k = of_int (m * n)" by (simp add: mult.assoc mult.commute)
  then show ?thesis by (rule on_gridI)
qed

lemma on_grid_finer: "on_grid n x \<Longrightarrow> n \<le> k \<Longrightarrow> on_grid k x"
proof (elim on_gridE)
  fix m assume m: "x * 10 ^ n = of_int m" and "n \<le> k"
  then obtain d where "k = n + d" using le_Suc_ex by blast
  then have "x * 10 ^ k = x * 10 ^ n * 10 ^ d" by (simp only: power_add mult.assoc)
  also have "\<dots> = of_int (m * 10 ^ d)" by (simp add: m)
  finally show "on_grid k x" by (rule on_gridI)
qed

lemma dec_round_grid: "on_grid k x \<Longrightarrow> \<bar>x\<bar> * 10 ^ k < 10 ^ 28 \<Longrightarrow> dec_round x = x"
  by (rule dec_round_exact [of k]) (simp add: dec_exact_def on_grid_def abs_mult)

end
