(* ===== verification/Quantity_Book.thy ===== *)
theory Quantity_Book
  imports Prelude
begin

section \<open>The contract of a book of signed quantities\<close>

text \<open>
  What the exit authors, the fill attribution and the reconciliation rely on when they read a
  position book: a fill moves the quantity of its own key by its signed amount and leaves
  every other key alone. The FIFO ledger, the average-cost store, the per-strategy slices and
  the aggregate view are its instances.
\<close>

locale quantity_book =
  fixes qty :: "'st \<Rightarrow> 'k \<Rightarrow> int"
    and fill :: "'st \<Rightarrow> 'k \<Rightarrow> int \<Rightarrow> 'x \<Rightarrow> 'st"
  assumes fill_qty: "qty (fill st k d x) k' = (if k' = k then qty st k + d else qty st k')"
begin

lemma fill_same: "qty (fill st k d x) k = qty st k + d"
  by (simp add: fill_qty)

lemma fill_other: "k' \<noteq> k \<Longrightarrow> qty (fill st k d x) k' = qty st k'"
  by (simp add: fill_qty)

text \<open>After any run of fills the quantity is the initial one plus the key's own fills.\<close>

lemma run_qty:
  "qty (fold (\<lambda>(k, d, x) st. fill st k d x) fs st) k'
    = qty st k' + (\<Sum>(k, d, x)\<leftarrow>fs. if k = k' then d else 0)"
  by (induction fs arbitrary: st) (auto simp: fill_qty)

text \<open>Selling what is held, in one fill or in parts, ends flat and touches nothing else.\<close>

lemma flatten:
  assumes "(\<Sum>(k, d, x)\<leftarrow>fs. d) = - qty st k'" and "\<forall>(k, d, x) \<in> set fs. k = k'"
  shows "qty (fold (\<lambda>(k, d, x) st. fill st k d x) fs st) k' = 0"
    and "k'' \<noteq> k' \<Longrightarrow> qty (fold (\<lambda>(k, d, x) st. fill st k d x) fs st) k'' = qty st k''"
proof -
  have same: "(\<Sum>(k, d, x)\<leftarrow>fs. if k = k' then d else 0) = (\<Sum>(k, d, x)\<leftarrow>fs. d)"
    using assms(2) by (induction fs) auto
  then show "qty (fold (\<lambda>(k, d, x) st. fill st k d x) fs st) k' = 0"
    using assms(1) by (simp add: run_qty)
  assume "k'' \<noteq> k'"
  then have "(\<Sum>(k, d, x)\<leftarrow>fs. if k = k'' then d else 0) = 0"
    using assms(2) by (induction fs) auto
  then show "qty (fold (\<lambda>(k, d, x) st. fill st k d x) fs st) k'' = qty st k''"
    by (simp add: run_qty)
qed

text \<open>A fill towards zero that does not exceed the position never grows it and never flips it.\<close>

lemma reduce_only:
  assumes "\<bar>d\<bar> \<le> \<bar>qty st k\<bar>" and "d = 0 \<or> sgn d = - sgn (qty st k)"
  shows "\<bar>qty (fill st k d x) k\<bar> = \<bar>qty st k\<bar> - \<bar>d\<bar>"
    and "qty (fill st k d x) k = 0 \<or> sgn (qty (fill st k d x) k) = sgn (qty st k)"
proof -
  consider "d = 0" | "0 < d" "qty st k < 0" | "d < 0" "0 < qty st k"
    using assms(2) by (cases d "0::int" rule: linorder_cases) (auto simp: sgn_if split: if_splits)
  then show "\<bar>qty (fill st k d x) k\<bar> = \<bar>qty st k\<bar> - \<bar>d\<bar>"
    and "qty (fill st k d x) k = 0 \<or> sgn (qty (fill st k d x) k) = sgn (qty st k)"
    using assms(1) by (cases; simp add: fill_same sgn_if)+
qed

end

end
