(* ===== verification/Lot_Ledger.thy ===== *)
theory Lot_Ledger
  imports Numerics Quantity_Book
begin

section \<open>The FIFO open-lot ledger (core/lot\_ledger.py)\<close>

text \<open>
  Per symbol a list of open lots, oldest first, and the FIFO realized profit. A fill on the
  side of the book appends a lot; a fill against it consumes lots from the front, realizing
  profit per matched share, and a residual that crosses zero opens a lot on the other side.
  The dictionaries are insertion-ordered association lists.
\<close>

record lot =
  lot_quantity :: int
  lot_price :: decimal
  lot_opened_at :: ns
  lot_strategy :: strategy
  lot_intent :: string

record lot_ledger =
  ll_book :: "(symbol \<times> lot list) list"
  ll_realized :: "(symbol \<times> decimal) list"

definition empty_lot_ledger :: lot_ledger where
  "empty_lot_ledger = \<lparr>ll_book = [], ll_realized = []\<rparr>"

definition ledger_lots :: "lot_ledger \<Rightarrow> symbol \<Rightarrow> lot list" where
  "ledger_lots L s = (case map_of (ll_book L) s of Some ls \<Rightarrow> ls | None \<Rightarrow> [])"

definition lots_net :: "lot list \<Rightarrow> int" where
  "lots_net ls = sum_list (map lot_quantity ls)"

fun consume :: "decimal \<Rightarrow> lot list \<Rightarrow> int \<Rightarrow> decimal \<Rightarrow> lot list \<times> int \<times> decimal" where
  \<comment> \<open>the \<open>while\<close> loop: (open lots, still to reduce, realized)\<close>
  "consume price [] r acc = ([], r, acc)"
| "consume price (front # ls) r acc =
     (if r = 0 \<or> same_sign (lot_quantity front) r then (front # ls, r, acc)
      else
        let matched = min \<bar>lot_quantity front\<bar> \<bar>r\<bar>;
            acc' = dec_add acc
              (if 0 < lot_quantity front
               then dec_mul (dec_sub price (lot_price front)) (of_int matched)
               else dec_mul (dec_sub (lot_price front) price) (of_int matched))
        in if \<bar>lot_quantity front\<bar> \<le> \<bar>r\<bar>
           then consume price ls (r + lot_quantity front) acc'
           else (front\<lparr>lot_quantity := lot_quantity front + r\<rparr> # ls, 0, acc'))"

definition apply_fill ::
  "lot_ledger \<Rightarrow> symbol \<Rightarrow> int \<Rightarrow> decimal \<Rightarrow> ns \<Rightarrow> strategy \<Rightarrow> string \<Rightarrow> lot_ledger" where
  "apply_fill L s signed_qty price ts sid intent =
     (if signed_qty = 0 then L
      else
        let lots = ledger_lots L s;
            net = lots_net lots;
            new_lot = (\<lambda>q. \<lparr>lot_quantity = q, lot_price = price, lot_opened_at = ts,
                            lot_strategy = sid, lot_intent = intent\<rparr>)
        in if net = 0 \<or> same_sign net signed_qty
           then L\<lparr>ll_book := dict_set s (lots @ [new_lot signed_qty]) (ll_book L)\<rparr>
           else
             let (lots', to_reduce, realized) = consume price lots signed_qty 0;
                 R = (if realized \<noteq> 0
                      then dict_set s (dec_add (case map_of (ll_realized L) s of Some x \<Rightarrow> x | None \<Rightarrow> 0)
                                               realized) (ll_realized L)
                      else ll_realized L)
             in L\<lparr>ll_book := dict_set s
                     (if to_reduce \<noteq> 0 then lots' @ [new_lot to_reduce] else lots') (ll_book L),
                  ll_realized := R\<rparr>)"

definition open_lot_count :: "lot_ledger \<Rightarrow> symbol \<Rightarrow> nat" where
  "open_lot_count L s = length (ledger_lots L s)"

definition net_quantity :: "lot_ledger \<Rightarrow> symbol \<Rightarrow> int" where
  "net_quantity L s = lots_net (ledger_lots L s)"

definition oldest_open_age_ns :: "lot_ledger \<Rightarrow> symbol \<Rightarrow> ns \<Rightarrow> ns option" where
  "oldest_open_age_ns L s now =
     (case ledger_lots L s of [] \<Rightarrow> None | l # _ \<Rightarrow> Some (now - lot_opened_at l))"

definition realized_pnl_fifo :: "lot_ledger \<Rightarrow> symbol \<Rightarrow> decimal" where
  "realized_pnl_fifo L s = (case map_of (ll_realized L) s of Some x \<Rightarrow> x | None \<Rightarrow> 0)"

definition ledger_symbols :: "lot_ledger \<Rightarrow> symbol list" where
  "ledger_symbols L = map fst (filter (\<lambda>(s, ls). ls \<noteq> []) (ll_book L))"

lemmas ledger_defs = apply_fill_def ledger_lots_def lots_net_def open_lot_count_def
  net_quantity_def oldest_open_age_ns_def realized_pnl_fifo_def empty_lot_ledger_def

subsection \<open>One book: sides, shares in FIFO order\<close>

text \<open>All lots of a book are on one side: \<open>side_ok d ls\<close> with \<open>d = 1\<close> long, \<open>d = -1\<close> short.\<close>

definition side_ok :: "int \<Rightarrow> lot list \<Rightarrow> bool" where
  "side_ok d ls \<longleftrightarrow> (\<forall>l \<in> set ls. lot_quantity l \<noteq> 0 \<and> sgn (lot_quantity l) = d)"

definition book_ok :: "lot list \<Rightarrow> bool" where
  "book_ok ls \<longleftrightarrow> side_ok 1 ls \<or> side_ok (-1) ls"

text \<open>The abstract book: one element per open share, in the order a FIFO close takes them.\<close>

definition lot_units :: "lot \<Rightarrow> (decimal \<times> ns \<times> strategy \<times> string) list" where
  "lot_units l = replicate (nat \<bar>lot_quantity l\<bar>)
     (lot_price l, lot_opened_at l, lot_strategy l, lot_intent l)"

definition units :: "lot list \<Rightarrow> (decimal \<times> ns \<times> strategy \<times> string) list" where
  "units ls = concat (map lot_units ls)"

lemma units_simps [simp]:
  "units [] = []"
  "units (l # ls) = lot_units l @ units ls"
  "units (ls @ ls') = units ls @ units ls'"
  "length (lot_units l) = nat \<bar>lot_quantity l\<bar>"
  by (simp_all add: units_def lot_units_def)

lemma side_ok_simps [simp]:
  "side_ok d []"
  "side_ok d (l # ls) \<longleftrightarrow> lot_quantity l \<noteq> 0 \<and> sgn (lot_quantity l) = d \<and> side_ok d ls"
  "side_ok d (ls @ ls') \<longleftrightarrow> side_ok d ls \<and> side_ok d ls'"
  by (auto simp: side_ok_def)

lemma lots_net_simps [simp]:
  "lots_net [] = 0"
  "lots_net (l # ls) = lot_quantity l + lots_net ls"
  "lots_net (ls @ ls') = lots_net ls + lots_net ls'"
  by (simp_all add: lots_net_def)

lemma side_ok_net: "side_ok d ls \<Longrightarrow> lots_net ls = d * int (length (units ls))"
proof (induction ls)
  case (Cons l ls)
  then have "lot_quantity l = d * \<bar>lot_quantity l\<bar>" by (auto simp: mult_sgn_abs)
  then show ?case using Cons by (simp add: distrib_left)
qed simp

lemma units_nonempty: "side_ok d ls \<Longrightarrow> units ls = [] \<longleftrightarrow> ls = []"
  by (cases ls) (auto simp: lot_units_def)

lemma consume_net:
  "consume price ls r acc = (ls', r', acc') \<Longrightarrow> lots_net ls' + r' = lots_net ls + r"
  by (induction price ls r acc rule: consume.induct) (auto simp: Let_def split: if_splits)

lemma consume_zero: "consume price ls 0 acc = (ls, 0, acc)"
  by (cases ls) simp_all

lemma opposite_signs:
  fixes a r :: int
  assumes "sgn a = d" and "sgn r = - d" and "a \<noteq> 0"
  shows "\<bar>r\<bar> < \<bar>a\<bar> \<Longrightarrow> \<bar>a + r\<bar> = \<bar>a\<bar> - \<bar>r\<bar> \<and> sgn (a + r) = d"
    and "\<bar>a\<bar> \<le> \<bar>r\<bar> \<Longrightarrow> \<bar>r + a\<bar> = \<bar>r\<bar> - \<bar>a\<bar>"
    and "\<bar>a\<bar> \<le> \<bar>r\<bar> \<Longrightarrow> r + a \<noteq> 0 \<Longrightarrow> sgn (r + a) = - d"
    and "\<not> same_sign a r"
proof -
  consider (long) "0 < a" "r < 0" "d = 1" | (short) "a < 0" "0 < r" "d = - 1"
    using assms by (cases "0 < a"; cases "0 < r"; cases "r = 0") auto
  note sides = this
  show "\<bar>r\<bar> < \<bar>a\<bar> \<Longrightarrow> \<bar>a + r\<bar> = \<bar>a\<bar> - \<bar>r\<bar> \<and> sgn (a + r) = d" by (cases rule: sides) auto
  show "\<bar>a\<bar> \<le> \<bar>r\<bar> \<Longrightarrow> \<bar>r + a\<bar> = \<bar>r\<bar> - \<bar>a\<bar>" by (cases rule: sides) auto
  show "\<bar>a\<bar> \<le> \<bar>r\<bar> \<Longrightarrow> r + a \<noteq> 0 \<Longrightarrow> sgn (r + a) = - d" by (cases rule: sides) auto
  show "\<not> same_sign a r" by (cases rule: sides) (auto simp: same_sign_def)
qed

lemma consume_fifo:
  assumes "consume price ls r acc = (ls', r', acc')" and "side_ok d ls" and "d \<in> {1, -1}"
    and "r \<noteq> 0" and "sgn r = - d"
  shows "side_ok d ls' \<and> units ls' = drop (nat \<bar>r\<bar>) (units ls)
    \<and> \<bar>r'\<bar> = int (nat \<bar>r\<bar> - length (units ls)) \<and> (r' \<noteq> 0 \<longrightarrow> sgn r' = - d \<and> ls' = [])"
  using assms
proof (induction ls arbitrary: r acc)
  case Nil
  then show ?case by auto
next
  case (Cons front ls)
  have front: "sgn (lot_quantity front) = d" "lot_quantity front \<noteq> 0" "side_ok d ls"
    using Cons.prems by simp_all
  note signs = opposite_signs[OF front(1) Cons.prems(5) front(2)]
  have opp: "\<not> same_sign (lot_quantity front) r" by (rule signs(4))
  show ?case
  proof (cases "\<bar>lot_quantity front\<bar> \<le> \<bar>r\<bar>")
    case False
    then have "ls' = front\<lparr>lot_quantity := lot_quantity front + r\<rparr> # ls" "r' = 0"
      using Cons.prems(1,4) opp by (simp_all add: Let_def)
    then show ?thesis using signs(1) False front Cons.prems(4)
      by (auto simp: lot_units_def drop_replicate nat_diff_distrib)
  next
    case True
    obtain acc2 where rec: "consume price ls (r + lot_quantity front) acc2 = (ls', r', acc')"
      using Cons.prems(1,4) opp True by (simp add: Let_def)
    have zero: "r + lot_quantity front = 0 \<Longrightarrow> ls' = ls \<and> r' = 0"
      using rec by (simp add: consume_zero)
    have len: "nat \<bar>r\<bar> = nat \<bar>lot_quantity front\<bar> + nat \<bar>r + lot_quantity front\<bar>"
      using signs(2)[OF True] True by arith
    show ?thesis
    proof (cases "r + lot_quantity front = 0")
      case z: True
      then show ?thesis using zero[OF z] len front by (simp add: drop_append)
    next
      case nz: False
      from Cons.IH[OF rec front(3) Cons.prems(3) nz signs(3)[OF True nz]] show ?thesis
        by (simp add: len)
    qed
  qed
qed

subsection \<open>Realized profit\<close>

text \<open>One matched lot contributes \<open>matched\<close> times the signed price difference, exactly, while
  prices lie on a grid of \<open>k\<close> places and the running total keeps 28 digits.\<close>

lemma matched_profit_exact:
  assumes grid: "on_grid k price" "on_grid k p" "on_grid k acc"
    and bound: "\<bar>price\<bar> \<le> B" "\<bar>p\<bar> \<le> B" "(\<bar>acc\<bar> + 2 * B * of_int m) * 10 ^ k < 10 ^ 28" and m: "1 \<le> m"
  shows "dec_add acc (dec_mul (dec_sub price p) (of_int m)) = acc + (price - p) * of_int m"
    and "\<bar>acc + (price - p) * of_int m\<bar> \<le> \<bar>acc\<bar> + 2 * B * of_int m"
proof -
  have mrat: "(1::rat) \<le> of_int m" using m by simp
  have B: "0 \<le> B" using bound(1) by linarith
  have d: "\<bar>price - p\<bar> \<le> 2 * B" using bound by linarith
  have dm: "\<bar>(price - p) * of_int m\<bar> \<le> 2 * B * of_int m"
    using d mrat by (simp add: abs_mult mult_right_mono)
  show total: "\<bar>acc + (price - p) * of_int m\<bar> \<le> \<bar>acc\<bar> + 2 * B * of_int m" using dm by linarith
  have "2 * B * 1 \<le> 2 * B * of_int m" using mrat B by (intro mult_left_mono) simp_all
  then have "\<bar>price - p\<bar> \<le> \<bar>acc\<bar> + 2 * B * of_int m" using d by linarith
  then have "\<bar>price - p\<bar> * 10 ^ k < 10 ^ 28"
    using bound(3) by (meson le_less_trans mult_right_mono zero_le_numeral zero_le_power)
  then have 1: "dec_round (price - p) = price - p" using grid by (intro dec_round_grid) auto
  have "\<bar>(price - p) * of_int m\<bar> \<le> \<bar>acc\<bar> + 2 * B * of_int m" using dm by linarith
  then have "\<bar>(price - p) * of_int m\<bar> * 10 ^ k < 10 ^ 28"
    using bound(3) by (meson le_less_trans mult_right_mono zero_le_numeral zero_le_power)
  then have 2: "dec_round ((price - p) * of_int m) = (price - p) * of_int m"
    using grid by (intro dec_round_grid) auto
  have "\<bar>acc + (price - p) * of_int m\<bar> * 10 ^ k < 10 ^ 28"
    using bound(3) total by (meson le_less_trans mult_right_mono zero_le_numeral zero_le_power)
  then have 3: "dec_round (acc + (price - p) * of_int m) = acc + (price - p) * of_int m"
    using grid by (intro dec_round_grid) auto
  show "dec_add acc (dec_mul (dec_sub price p) (of_int m)) = acc + (price - p) * of_int m"
    using 1 2 3 by (simp add: dec_add_def dec_mul_def dec_sub_def)
qed

definition profit :: "decimal \<Rightarrow> int \<Rightarrow> (decimal \<times> ns \<times> strategy \<times> string) list \<Rightarrow> decimal" where
  "profit price d us = (\<Sum>u\<leftarrow>us. of_int d * (price - fst u))"

lemma profit_simps [simp]:
  "profit price d [] = 0"
  "profit price d (us @ vs) = profit price d us + profit price d vs"
  by (simp_all add: profit_def)

lemma profit_replicate [simp]:
  "profit price d (replicate n u) = of_nat n * (of_int d * (price - fst u))"
  by (simp add: profit_def sum_list_replicate)

lemma profit_bound:
  assumes "on_grid k price" "\<forall>l \<in> set ls. on_grid k (lot_price l) \<and> \<bar>lot_price l\<bar> \<le> B"
    and "\<bar>price\<bar> \<le> B" "d \<in> {1, -1}"
  shows "\<bar>profit price d (take n (units ls))\<bar> \<le> 2 * B * of_nat n \<and> on_grid k (profit price d (take n (units ls)))"
proof -
  have each: "\<bar>of_int d * (price - fst u)\<bar> \<le> 2 * B \<and> on_grid k (of_int d * (price - fst u))"
    if "u \<in> set (units ls)" for u
  proof -
    have "on_grid k (fst u)" "\<bar>fst u\<bar> \<le> B"
      using that assms(2) by (auto simp: units_def lot_units_def)
    moreover from this have "on_grid k ((price - fst u) * of_int d)" using assms(1) by blast
    ultimately show ?thesis using assms(3,4) by (auto simp: abs_mult mult.commute)
  qed
  have "\<bar>profit price d us\<bar> \<le> 2 * B * of_nat (length us) \<and> on_grid k (profit price d us)"
    if "set us \<subseteq> set (units ls)" for us
    using that
  proof (induction us)
    case (Cons u us)
    then show ?case using each[of u]
      by (auto simp: profit_def distrib_left intro!: on_grid_add order_trans[OF abs_triangle_ineq])
  qed (simp add: profit_def)
  from this[of "take n (units ls)"] have
    "\<bar>profit price d (take n (units ls))\<bar> \<le> 2 * B * of_nat (min (length (units ls)) n)
     \<and> on_grid k (profit price d (take n (units ls)))"
    by (simp add: set_take_subset)
  moreover have "2 * B * of_nat (min (length (units ls)) n) \<le> 2 * B * of_nat n"
    using assms(3) by (intro mult_left_mono) (simp_all add: order_trans[OF abs_ge_zero])
  ultimately show ?thesis by linarith
qed

lemma consume_profit:
  assumes "consume price ls r acc = (ls', r', acc')" and "side_ok d ls" and "d \<in> {1, -1}"
    and "r \<noteq> 0" and "sgn r = - d"
    and "on_grid k price" "on_grid k acc" "\<forall>l \<in> set ls. on_grid k (lot_price l) \<and> \<bar>lot_price l\<bar> \<le> B"
    and "\<bar>price\<bar> \<le> B" "(\<bar>acc\<bar> + 2 * B * of_int \<bar>r\<bar>) * 10 ^ k < 10 ^ 28"
  shows "acc' = acc + profit price d (take (nat \<bar>r\<bar>) (units ls))"
  using assms
proof (induction ls arbitrary: r acc)
  case Nil
  then show ?case by auto
next
  case (Cons front ls)
  have front: "sgn (lot_quantity front) = d" "lot_quantity front \<noteq> 0" "side_ok d ls"
    using Cons.prems(2) by simp_all
  note signs = opposite_signs[OF front(1) Cons.prems(5) front(2)]
  define m where "m = min \<bar>lot_quantity front\<bar> \<bar>r\<bar>"
  define acc1 where "acc1 = acc + of_int d * (price - lot_price front) * of_int m"
  have m: "1 \<le> m" "m \<le> \<bar>r\<bar>" using front Cons.prems(4) by (auto simp: m_def)
  have B: "0 \<le> B" using Cons.prems(9) by linarith
  have "(\<bar>acc\<bar> + 2 * B * of_int m) * 10 ^ k \<le> (\<bar>acc\<bar> + 2 * B * of_int \<bar>r\<bar>) * 10 ^ k"
    using m B by (intro mult_right_mono add_left_mono mult_left_mono) (simp_all only: of_int_le_iff, simp_all)
  then have bm: "(\<bar>acc\<bar> + 2 * B * of_int m) * 10 ^ k < 10 ^ 28" using Cons.prems(10) by linarith
  have grid: "on_grid k (lot_price front)" "\<bar>lot_price front\<bar> \<le> B" using Cons.prems(8) by auto
  note buy = matched_profit_exact[OF Cons.prems(6) grid(1) Cons.prems(7) Cons.prems(9) grid(2) bm m(1)]
  note sell = matched_profit_exact[OF grid(1) Cons.prems(6) Cons.prems(7) grid(2) Cons.prems(9) bm m(1)]
  have step: "dec_add acc
      (if 0 < lot_quantity front then dec_mul (dec_sub price (lot_price front)) (of_int m)
       else dec_mul (dec_sub (lot_price front) price) (of_int m)) = acc1"
    and size: "\<bar>acc1\<bar> \<le> \<bar>acc\<bar> + 2 * B * of_int m"
    using buy sell front Cons.prems(3) by (auto simp: acc1_def sgn_if split: if_splits)
  have run: "consume price (front # ls) r acc =
      (if \<bar>lot_quantity front\<bar> \<le> \<bar>r\<bar> then consume price ls (r + lot_quantity front) acc1
       else (front\<lparr>lot_quantity := lot_quantity front + r\<rparr> # ls, 0, acc1))"
    by (simp only: consume.simps Let_def m_def[symmetric] step signs(4) Cons.prems(4) simp_thms if_False)
  show ?case
  proof (cases "\<bar>lot_quantity front\<bar> \<le> \<bar>r\<bar>")
    case False
    then have "m = \<bar>r\<bar>" "nat \<bar>r\<bar> \<le> nat \<bar>lot_quantity front\<bar>" by (simp_all add: m_def)
    moreover have "acc' = acc1" using run Cons.prems(1) False by simp
    ultimately show ?thesis by (simp add: lot_units_def acc1_def mult.commute)
  next
    case True
    have m_front: "m = \<bar>lot_quantity front\<bar>" using True by (simp add: m_def)
    have rest: "consume price ls (r + lot_quantity front) acc1 = (ls', r', acc')"
      using run True Cons.prems(1) by simp
    have units: "profit price d (take (nat \<bar>r\<bar>) (units (front # ls)))
        = of_int m * (of_int d * (price - lot_price front))
          + profit price d (take (nat \<bar>r + lot_quantity front\<bar>) (units ls))"
      using signs(2)[OF True] True by (simp add: lot_units_def m_front nat_diff_distrib)
    show ?thesis
    proof (cases "r + lot_quantity front = 0")
      case True
      then show ?thesis using rest units by (simp add: consume_zero acc1_def mult.commute)
    next
      case nz: False
      have "\<bar>acc1\<bar> + 2 * B * of_int \<bar>r + lot_quantity front\<bar> \<le> \<bar>acc\<bar> + 2 * B * of_int \<bar>r\<bar>"
        using size unfolding signs(2)[OF True] m_front by (simp add: right_diff_distrib)
      then have "(\<bar>acc1\<bar> + 2 * B * of_int \<bar>r + lot_quantity front\<bar>) * 10 ^ k < 10 ^ 28"
        using Cons.prems(10) by (meson le_less_trans mult_right_mono zero_le_numeral zero_le_power)
      moreover have "on_grid k acc1"
        unfolding acc1_def mult.commute[of "of_int d"] mult.assoc of_int_mult[symmetric]
        using Cons.prems(6,7) grid by blast
      ultimately have "acc' = acc1 + profit price d (take (nat \<bar>r + lot_quantity front\<bar>) (units ls))"
        using Cons.IH[OF rest front(3) Cons.prems(3) nz signs(3)[OF True nz] Cons.prems(6)]
          Cons.prems(8,9) by simp
      then show ?thesis using units by (simp add: acc1_def mult.commute)
    qed
  qed
qed

subsection \<open>The ledger\<close>

lemma lots_other: "s' \<noteq> s \<Longrightarrow> ledger_lots (apply_fill L s q price ts sid it) s' = ledger_lots L s'"
  by (simp add: apply_fill_def ledger_lots_def Let_def split: prod.splits)

lemma apply_fill_extend:
  assumes "q \<noteq> 0" and "lots_net (ledger_lots L s) = 0 \<or> same_sign (lots_net (ledger_lots L s)) q"
  shows "ledger_lots (apply_fill L s q price ts sid it) s
      = ledger_lots L s @ [\<lparr>lot_quantity = q, lot_price = price, lot_opened_at = ts,
                            lot_strategy = sid, lot_intent = it\<rparr>]"
    and "realized_pnl_fifo (apply_fill L s q price ts sid it) s = realized_pnl_fifo L s"
  using assms by (simp_all add: apply_fill_def Let_def ledger_lots_def[of "ll_book_update _ _"] realized_pnl_fifo_def)

lemma apply_fill_reduce:
  assumes "q \<noteq> 0" and "lots_net (ledger_lots L s) \<noteq> 0" and "\<not> same_sign (lots_net (ledger_lots L s)) q"
    and "consume price (ledger_lots L s) q 0 = (ls', r', acc')"
  shows "ledger_lots (apply_fill L s q price ts sid it) s
      = ls' @ (if r' = 0 then [] else [\<lparr>lot_quantity = r', lot_price = price, lot_opened_at = ts,
                                        lot_strategy = sid, lot_intent = it\<rparr>])"
    and "realized_pnl_fifo (apply_fill L s q price ts sid it) s
      = (if acc' = 0 then realized_pnl_fifo L s else dec_add (realized_pnl_fifo L s) acc')"
  using assms
  by (simp_all add: apply_fill_def Let_def ledger_lots_def[of "ll_book_update _ _"] realized_pnl_fifo_def
      ledger_lots_def[of "ll_realized_update _ _"])

lemma side_ok_sgn: "side_ok d ls \<Longrightarrow> ls \<noteq> [] \<Longrightarrow> d \<in> {1, -1} \<Longrightarrow> lots_net ls \<noteq> 0 \<and> sgn (lots_net ls) = d"
  using side_ok_net[of d ls] units_nonempty[of d ls] by (auto simp: sgn_mult)

lemma book_side:
  assumes "book_ok ls" and "lots_net ls \<noteq> 0" and "\<not> same_sign (lots_net ls) q" and "q \<noteq> 0"
  obtains d where "side_ok d ls" "d \<in> {1, -1}" "sgn q = - d"
proof -
  obtain d where d: "side_ok d ls" "d \<in> {1, -1}" using assms(1) by (auto simp: book_ok_def)
  moreover have "sgn (lots_net ls) = d" using side_ok_sgn[OF d(1) _ d(2)] assms(2) by (cases ls) auto
  then have "sgn q = - d" using assms(2-4) d(2) by (auto simp: same_sign_sgn sgn_if split: if_splits)
  ultimately show thesis using that by blast
qed

definition left_of :: "lot list \<Rightarrow> lot list \<Rightarrow> bool" where
  \<comment> \<open>what consuming from the front leaves: later lots untouched, behind at most one shortened lot\<close>
  "left_of ls kept \<longleftrightarrow> (\<exists>n. kept = drop n ls \<or> n < length ls \<and> (\<exists>x. 0 < \<bar>x\<bar> \<and> \<bar>x\<bar> < \<bar>lot_quantity (ls ! n)\<bar>
     \<and> sgn x = sgn (lot_quantity (ls ! n)) \<and> kept = (ls ! n)\<lparr>lot_quantity := x\<rparr> # drop (Suc n) ls))"

lemma left_of_Cons: "left_of ls kept \<Longrightarrow> left_of (l # ls) kept"
  unfolding left_of_def by (elim exE, rule_tac x = "Suc n" in exI) simp

lemma consume_left:
  assumes "consume price ls r acc = (ls', r', acc')" "side_ok d ls" "r = 0 \<or> sgn r = - d"
  shows "left_of ls ls'"
  using assms
proof (induction ls arbitrary: r acc)
  case Nil
  then show ?case by (simp add: left_of_def)
next
  case (Cons front ls)
  show ?case
  proof (cases "r = 0 \<or> same_sign (lot_quantity front) r")
    case True
    then show ?thesis using Cons.prems(1) by (auto simp: left_of_def intro: exI[of _ 0])
  next
    case False
    then have r: "r \<noteq> 0" "sgn r = - sgn (lot_quantity front)" "sgn (lot_quantity front) = d" using Cons.prems by auto
    show ?thesis
    proof (cases "\<bar>lot_quantity front\<bar> \<le> \<bar>r\<bar>")
      case True
      obtain acc2 where rec: "consume price ls (r + lot_quantity front) acc2 = (ls', r', acc')"
        using Cons.prems(1) False True by (simp add: Let_def)
      have "r + lot_quantity front = 0 \<or> sgn (r + lot_quantity front) = - d" using True r by (auto simp: sgn_if split: if_splits)
      then show ?thesis using Cons.IH[OF rec] Cons.prems(2) left_of_Cons by simp
    next
      case partial: False
      then have "ls' = front\<lparr>lot_quantity := lot_quantity front + r\<rparr> # ls" using Cons.prems(1) False by (simp add: Let_def)
      moreover have "0 < \<bar>lot_quantity front + r\<bar>" "\<bar>lot_quantity front + r\<bar> < \<bar>lot_quantity front\<bar>"
        "sgn (lot_quantity front + r) = sgn (lot_quantity front)" using partial r by (auto simp: sgn_if split: if_splits)
      ultimately show ?thesis unfolding left_of_def by (intro exI[of _ 0] disjI2) auto
    qed
  qed
qed

text \<open>C7: Fills consume lots first in, first out. On a one-sided book a nonzero fill keeps the book one-sided and
  moves the net by its signed shares. On the side of the book it appends one lot and touches no
  other. Against the book it takes the oldest shares: up to the net, what stays is the later lots
  untouched behind at most one shortened lot, and beyond the net the book is one new lot of the
  rest. Other symbols are untouched.\<close>

theorem apply_fill_fifo:
  assumes "book_ok (ledger_lots L s)" and "q \<noteq> 0"
  shows "let ls = ledger_lots L s; us = units ls; L' = apply_fill L s q price ts sid it; u = (price, ts, sid, it);
      opened = (\<lambda>x. \<lparr>lot_quantity = x, lot_price = price, lot_opened_at = ts, lot_strategy = sid, lot_intent = it\<rparr>)
    in book_ok (ledger_lots L' s)
       \<and> net_quantity L' s = net_quantity L s + q
       \<and> units (ledger_lots L' s) =
           (if net_quantity L s = 0 \<or> same_sign (net_quantity L s) q
            then us @ replicate (nat \<bar>q\<bar>) u
            else drop (nat \<bar>q\<bar>) us @ replicate (nat \<bar>q\<bar> - length us) u)
       \<and> (if net_quantity L s = 0 \<or> same_sign (net_quantity L s) q then ledger_lots L' s = ls @ [opened q]
          else if \<bar>net_quantity L s\<bar> < \<bar>q\<bar> then ledger_lots L' s = [opened (net_quantity L s + q)]
          else left_of ls (ledger_lots L' s))
       \<and> (\<forall>s'. s' \<noteq> s \<longrightarrow> ledger_lots L' s' = ledger_lots L s')"
proof (cases "net_quantity L s = 0 \<or> same_sign (net_quantity L s) q")
  case True
  obtain d where d: "side_ok d (ledger_lots L s)" "d \<in> {1, -1}"
    using assms(1) by (auto simp: book_ok_def)
  have "ledger_lots L s = [] \<or> sgn q = d"
    using True side_ok_sgn[OF d(1) _ d(2)]
    by (cases "ledger_lots L s = []") (auto simp: net_quantity_def same_sign_sgn)
  then have "book_ok (ledger_lots (apply_fill L s q price ts sid it) s)"
    using True d assms(2) by (auto simp: book_ok_def net_quantity_def apply_fill_extend sgn_if)
  then show ?thesis using True assms(2)
    by (simp add: Let_def net_quantity_def apply_fill_extend lots_other lot_units_def)
next
  case False
  obtain d where d: "side_ok d (ledger_lots L s)" "d \<in> {1, -1}" "sgn q = - d"
    using book_side[OF assms(1)] False assms(2) by (auto simp: net_quantity_def)
  obtain ls' r' acc' where c: "consume price (ledger_lots L s) q 0 = (ls', r', acc')"
    by (metis prod_cases3)
  note res = consume_fifo[OF c d(1,2) assms(2) d(3)]
  note lots = apply_fill_reduce(1)[OF assms(2) _ _ c]
  have net: "lots_net ls' + r' = lots_net (ledger_lots L s) + q" by (rule consume_net[OF c])
  have lots: "ledger_lots (apply_fill L s q price ts sid it) s
      = ls' @ (if r' = 0 then [] else [\<lparr>lot_quantity = r', lot_price = price, lot_opened_at = ts,
                                        lot_strategy = sid, lot_intent = it\<rparr>])"
    by (rule lots) (use False in \<open>auto simp: net_quantity_def\<close>)
  have "book_ok (ledger_lots (apply_fill L s q price ts sid it) s)"
    using res d(2) unfolding lots by (auto simp: book_ok_def)
  moreover have "units (ledger_lots (apply_fill L s q price ts sid it) s)
      = drop (nat \<bar>q\<bar>) (units (ledger_lots L s))
        @ replicate (nat \<bar>q\<bar> - length (units (ledger_lots L s))) (price, ts, sid, it)"
    using res unfolding lots by (auto simp: lot_units_def)
  moreover have "net_quantity (apply_fill L s q price ts sid it) s = net_quantity L s + q"
    using net unfolding net_quantity_def lots by auto
  moreover have "\<bar>net_quantity L s\<bar> = int (length (units (ledger_lots L s)))"
    using side_ok_net[OF d(1)] d(2) by (auto simp: net_quantity_def)
  then have "r' \<noteq> 0 \<longleftrightarrow> \<bar>net_quantity L s\<bar> < \<bar>q\<bar>" "r' \<noteq> 0 \<Longrightarrow> ls' = [] \<and> r' = net_quantity L s + q" "left_of (ledger_lots L s) ls'"
    using res net consume_left[OF c d(1)] d(3) by (auto simp: net_quantity_def)
  then have "if \<bar>net_quantity L s\<bar> < \<bar>q\<bar>
      then ledger_lots (apply_fill L s q price ts sid it) s = [\<lparr>lot_quantity = net_quantity L s + q, lot_price = price,
        lot_opened_at = ts, lot_strategy = sid, lot_intent = it\<rparr>]
      else left_of (ledger_lots L s) (ledger_lots (apply_fill L s q price ts sid it) s)"
    unfolding lots by auto
  ultimately show ?thesis using False by (simp add: Let_def lots_other)
qed

lemma apply_fill_fifo_witness:
  "let L = apply_fill (apply_fill empty_lot_ledger ''A'' 3 10 1 ''s'' '''') ''A'' 2 12 2 ''t'' '''';
       L' = apply_fill L ''A'' (-4) 15 3 ''s'' ''''
   in book_ok (ledger_lots L' ''A'') \<and> net_quantity L' ''A'' = 1
      \<and> units (ledger_lots L' ''A'') = [(12, 2, ''t'', '''')]"
proof -
  define L where "L = apply_fill (apply_fill empty_lot_ledger ''A'' 3 10 1 ''s'' '''') ''A'' 2 12 2 ''t'' ''''"
  have lots: "ledger_lots L ''A'' = [\<lparr>lot_quantity = 3, lot_price = 10, lot_opened_at = 1,
        lot_strategy = ''s'', lot_intent = ''''\<rparr>, \<lparr>lot_quantity = 2, lot_price = 12,
        lot_opened_at = 2, lot_strategy = ''t'', lot_intent = ''''\<rparr>]"
    by (simp add: L_def ledger_defs same_sign_def)
  have "book_ok (ledger_lots L ''A'')" by (simp add: lots book_ok_def)
  from apply_fill_fifo[OF this, of "-4" 15 3 "''s''" "''''"] show ?thesis
    unfolding L_def[symmetric] Let_def
    by (simp add: lots net_quantity_def lot_units_def same_sign_def eval_nat_numeral)
qed

text \<open>The net quantity of a book follows its fills, whatever the lots are.\<close>

lemma net_quantity_fill:
  "net_quantity (apply_fill L s q price ts sid it) s'
    = (if s' = s then net_quantity L s + q else net_quantity L s')"
proof (cases "s' = s")
  case True
  obtain ls' r' acc' where c: "consume price (ledger_lots L s) q 0 = (ls', r', acc')"
    by (metis prod_cases3)
  consider "q = 0" | "q \<noteq> 0" "lots_net (ledger_lots L s) = 0 \<or> same_sign (lots_net (ledger_lots L s)) q"
    | "q \<noteq> 0" "lots_net (ledger_lots L s) \<noteq> 0" "\<not> same_sign (lots_net (ledger_lots L s)) q"
    by blast
  then show ?thesis
  proof cases
    case 1
    then show ?thesis using True by (simp add: apply_fill_def)
  next
    case 2
    then show ?thesis using True by (simp add: net_quantity_def apply_fill_extend)
  next
    case 3
    then show ?thesis using True consume_net[OF c] apply_fill_reduce(1)[OF 3 c]
      by (simp add: net_quantity_def split: if_splits)
  qed
qed (simp add: net_quantity_def lots_other)

interpretation ledger_book: quantity_book net_quantity
  "\<lambda>L s q (price, ts, sid, it). apply_fill L s q price ts sid it"
  by unfold_locales (auto simp: net_quantity_fill)

text \<open>The realized profit is FIFO. When prices lie on a grid of \<open>k\<close> places and the
  amounts keep 28 digits, a fill against the book adds to the symbol's realized profit
  exactly the sum, over the shares it takes from the front of the queue, of the difference
  between the fill price and that share's own entry price (with the opposite sign on a short
  book); the decimal arithmetic loses nothing.\<close>

theorem realized_pnl_exact:
  assumes side: "side_ok d (ledger_lots L s)" "d \<in> {1, -1}" "ledger_lots L s \<noteq> []" "sgn q = - d"
    and grid: "on_grid k price" "on_grid k (realized_pnl_fifo L s)"
      "\<forall>l \<in> set (ledger_lots L s). on_grid k (lot_price l) \<and> \<bar>lot_price l\<bar> \<le> B"
    and bound: "\<bar>price\<bar> \<le> B" "(\<bar>realized_pnl_fifo L s\<bar> + 2 * B * of_int \<bar>q\<bar>) * 10 ^ k < 10 ^ 28"
  shows "realized_pnl_fifo (apply_fill L s q price ts sid it) s
    = realized_pnl_fifo L s + profit price d (take (nat \<bar>q\<bar>) (units (ledger_lots L s)))"
proof -
  have q: "q \<noteq> 0" using side(2,4) by auto
  have net: "lots_net (ledger_lots L s) \<noteq> 0" "\<not> same_sign (lots_net (ledger_lots L s)) q"
    using side_ok_sgn[OF side(1,3,2)] side(2,4) by (auto simp: same_sign_sgn)
  obtain ls' r' acc' where c: "consume price (ledger_lots L s) q 0 = (ls', r', acc')"
    by (metis prod_cases3)
  have "(\<bar>0\<bar> + 2 * B * of_int \<bar>q\<bar>) * 10 ^ k \<le> (\<bar>realized_pnl_fifo L s\<bar> + 2 * B * of_int \<bar>q\<bar>) * 10 ^ k"
    by (intro mult_right_mono) simp_all
  then have small: "(\<bar>0\<bar> + 2 * B * of_int \<bar>q\<bar>) * 10 ^ k < 10 ^ 28" using bound(2) by linarith
  have acc: "acc' = profit price d (take (nat \<bar>q\<bar>) (units (ledger_lots L s)))"
    using consume_profit[OF c side(1,2) q side(4) grid(1) on_grid_zero grid(3) bound(1) small] by simp
  have a: "\<bar>acc'\<bar> \<le> 2 * B * of_int \<bar>q\<bar>" "on_grid k acc'"
    using profit_bound[OF grid(1) grid(3) bound(1) side(2), of "nat \<bar>q\<bar>"] unfolding acc by simp_all
  then have "\<bar>realized_pnl_fifo L s + acc'\<bar> \<le> \<bar>realized_pnl_fifo L s\<bar> + 2 * B * of_int \<bar>q\<bar>" by linarith
  then have "\<bar>realized_pnl_fifo L s + acc'\<bar> * 10 ^ k \<le> (\<bar>realized_pnl_fifo L s\<bar> + 2 * B * of_int \<bar>q\<bar>) * 10 ^ k"
    by (rule mult_right_mono) simp
  then have "\<bar>realized_pnl_fifo L s + acc'\<bar> * 10 ^ k < 10 ^ 28" using bound(2) by linarith
  then have "dec_add (realized_pnl_fifo L s) acc' = realized_pnl_fifo L s + acc'"
    unfolding dec_add_def using grid(2) a by (intro dec_round_grid[of k]) auto
  then show ?thesis using apply_fill_reduce(2)[OF q net c, of ts sid it] acc by simp
qed

lemma realized_pnl_exact_witness:
  "let L = apply_fill (apply_fill empty_lot_ledger ''A'' 3 10 1 ''s'' '''') ''A'' 2 12 2 ''t'' ''''
   in realized_pnl_fifo (apply_fill L ''A'' (-4) (153/10) 3 ''s'' '''') ''A'' = 192/10"
proof -
  define L where "L = apply_fill (apply_fill empty_lot_ledger ''A'' 3 10 1 ''s'' '''') ''A'' 2 12 2 ''t'' ''''"
  have lots: "ledger_lots L ''A'' = [\<lparr>lot_quantity = 3, lot_price = 10, lot_opened_at = 1,
        lot_strategy = ''s'', lot_intent = ''''\<rparr>, \<lparr>lot_quantity = 2, lot_price = 12,
        lot_opened_at = 2, lot_strategy = ''t'', lot_intent = ''''\<rparr>]"
    and zero: "realized_pnl_fifo L ''A'' = 0"
    by (simp_all add: L_def ledger_defs same_sign_def)
  have "on_grid 2 (153/10)" by (rule on_gridI[of _ _ 1530]) simp
  moreover have "on_grid 2 10" by (rule on_gridI[of _ _ 1000]) simp
  moreover have "on_grid 2 12" by (rule on_gridI[of _ _ 1200]) simp
  ultimately show ?thesis
    using realized_pnl_exact[of 1 L "''A''" "-4" 2 "153/10" 100 3 "''s''" "''''"]
    unfolding L_def[symmetric] Let_def
    by (simp add: lots zero lot_units_def profit_def eval_nat_numeral)
qed

end
