(* ===== verification/Position_Store.thy ===== *)
theory Position_Store
  imports Lot_Ledger
begin

section \<open>The average-cost position stores (portfolio/memory\_position\_store.py,
  portfolio/strategy\_position\_store.py)\<close>

text \<open>
  \<open>MemoryPositionStore\<close>: per symbol the signed quantity, the average entry price, realized and
  unrealized profit and fees; the latest marks; and the start of the current open episode.
  \<open>StrategyPositionStore\<close>: one such book per strategy and an aggregate view over them.
  Python's objects are values here: an operation returns the new store, and where the code
  also returns the position, the position is read from the new store.
\<close>

record position =
  pos_symbol :: symbol
  pos_quantity :: int
  pos_avg :: decimal
  pos_realized :: decimal
  pos_unrealized :: decimal
  pos_fees :: decimal

definition flat_position :: "symbol \<Rightarrow> position" where
  "flat_position s = \<lparr>pos_symbol = s, pos_quantity = 0, pos_avg = 0, pos_realized = 0,
                      pos_unrealized = 0, pos_fees = 0\<rparr>"

record position_store =
  ps_positions :: "(symbol \<times> position) list"
  ps_marks :: "(symbol \<times> decimal) list"
  ps_bids :: "(symbol \<times> decimal) list"
  ps_asks :: "(symbol \<times> decimal) list"
  ps_opened :: "(symbol \<times> ns) list"

definition ps_new :: position_store where
  "ps_new = \<lparr>ps_positions = [], ps_marks = [], ps_bids = [], ps_asks = [], ps_opened = []\<rparr>"

definition ps_reset :: "position_store \<Rightarrow> position_store" where
  "ps_reset st = st\<lparr>ps_positions := [], ps_marks := [], ps_bids := [], ps_asks := [], ps_opened := []\<rparr>"

definition ps_get :: "position_store \<Rightarrow> symbol \<Rightarrow> position" where
  "ps_get st s = (case map_of (ps_positions st) s of None \<Rightarrow> flat_position s | Some p \<Rightarrow> p)"

definition dec_or :: "decimal option \<Rightarrow> decimal option \<Rightarrow> decimal option" where
  \<comment> \<open>Python's \<open>a or b\<close> on \<open>Decimal | None\<close>: zero is falsy\<close>
  "dec_or a b = (case a of Some x \<Rightarrow> if x \<noteq> 0 then Some x else b | None \<Rightarrow> b)"

definition liquidation_mark :: "position_store \<Rightarrow> position \<Rightarrow> decimal option" where
  "liquidation_mark st p =
     (if 0 < pos_quantity p
      then dec_or (map_of (ps_bids st) (pos_symbol p)) (map_of (ps_marks st) (pos_symbol p))
      else dec_or (map_of (ps_asks st) (pos_symbol p)) (map_of (ps_marks st) (pos_symbol p)))"

definition recompute_unrealized :: "position_store \<Rightarrow> position \<Rightarrow> position" where
  "recompute_unrealized st p =
     (if pos_quantity p = 0 then p\<lparr>pos_unrealized := 0\<rparr>
      else case liquidation_mark st p of
          None \<Rightarrow> p\<lparr>pos_unrealized := 0\<rparr>
        | Some mark \<Rightarrow> p\<lparr>pos_unrealized :=
            dec_mul (dec_sub mark (pos_avg p)) (of_int (pos_quantity p))\<rparr>)"

definition track_episode ::
  "(symbol \<times> ns) list \<Rightarrow> symbol \<Rightarrow> int \<Rightarrow> int \<Rightarrow> ns option \<Rightarrow> (symbol \<times> ns) list" where
  "track_episode opened s old_qty new_qty ts =
     (case ts of None \<Rightarrow> opened
      | Some t \<Rightarrow>
          if new_qty = 0 then dict_pop s opened
          else if old_qty = 0 \<or> \<not> same_sign old_qty new_qty then dict_set s t opened
          else opened)"

definition book_fill :: "position \<Rightarrow> int \<Rightarrow> decimal \<Rightarrow> position" where
  \<comment> \<open>average price and realized profit; \<open>pos_quantity\<close> is still the old quantity\<close>
  "book_fill p d price =
     (let old = pos_quantity p; new = old + d in
      if old = 0 then p\<lparr>pos_avg := price\<rparr>
      else if same_sign old d
      then let total_cost = dec_add (dec_mul (pos_avg p) (of_int \<bar>old\<bar>)) (dec_mul price (of_int \<bar>d\<bar>))
           in p\<lparr>pos_avg := (if new \<noteq> 0 then dec_div total_cost (of_int \<bar>new\<bar>) else 0)\<rparr>
      else
        let closed = min \<bar>d\<bar> \<bar>old\<bar>;
            pnl = (if 0 < old then dec_mul (dec_sub price (pos_avg p)) (of_int closed)
                   else dec_mul (dec_sub (pos_avg p) price) (of_int closed));
            p1 = p\<lparr>pos_realized := dec_add (pos_realized p) pnl\<rparr>
        in if \<bar>old\<bar> < \<bar>d\<bar> then p1\<lparr>pos_avg := price\<rparr> else p1)"

definition ps_update ::
  "position_store \<Rightarrow> symbol \<Rightarrow> int \<Rightarrow> decimal \<Rightarrow> decimal \<Rightarrow> ns option \<Rightarrow> position_store" where
  "ps_update st s d price fees ts =
     (let p0 = ps_get st s;
          new = pos_quantity p0 + d;
          st1 = st\<lparr>ps_opened := track_episode (ps_opened st) s (pos_quantity p0) new ts\<rparr>;
          p1 = (book_fill p0 d price)\<lparr>pos_quantity := new\<rparr>;
          p2 = p1\<lparr>pos_fees := dec_add (pos_fees p1) fees\<rparr>;
          p3 = (if new = 0 then p2\<lparr>pos_avg := 0\<rparr> else p2);
          p4 = recompute_unrealized st1 p3
      in st1\<lparr>ps_positions := dict_set s p4 (ps_positions st1)\<rparr>)"

definition ps_update_mark ::
  "position_store \<Rightarrow> symbol \<Rightarrow> decimal \<Rightarrow> decimal option \<Rightarrow> decimal option \<Rightarrow> position_store" where
  "ps_update_mark st s mark bid ask =
     (if mark \<le> 0 then st
      else
        let quote = (\<lambda>q book. case q of Some x \<Rightarrow> if 0 < x then dict_set s x book else dict_pop s book
                                    | None \<Rightarrow> dict_pop s book);
            st1 = st\<lparr>ps_marks := dict_set s mark (ps_marks st),
                     ps_bids := quote bid (ps_bids st), ps_asks := quote ask (ps_asks st)\<rparr>
        in case map_of (ps_positions st1) s of
             None \<Rightarrow> st1
           | Some p \<Rightarrow> st1\<lparr>ps_positions := dict_set s (recompute_unrealized st1 p) (ps_positions st1)\<rparr>)"

definition ps_debit_fees :: "position_store \<Rightarrow> symbol \<Rightarrow> decimal \<Rightarrow> position_store" where
  "ps_debit_fees st s fees =
     (if fees = 0 then st
      else let p = ps_get st s
           in st\<lparr>ps_positions := dict_set s (p\<lparr>pos_fees := dec_add (pos_fees p) fees\<rparr>) (ps_positions st)\<rparr>)"

definition ps_opened_at_ns :: "position_store \<Rightarrow> symbol \<Rightarrow> ns option" where
  "ps_opened_at_ns st s =
     (case map_of (ps_opened st) s of
        None \<Rightarrow> None
      | Some ts \<Rightarrow> (case map_of (ps_positions st) s of
            None \<Rightarrow> None
          | Some p \<Rightarrow> if pos_quantity p = 0 then None else Some ts))"

definition ps_latest_mark :: "position_store \<Rightarrow> symbol \<Rightarrow> decimal option" where
  "ps_latest_mark st s = map_of (ps_marks st) s"

definition ps_total_exposure :: "position_store \<Rightarrow> decimal" where
  "ps_total_exposure st =
     fold (\<lambda>(_, p) total.
        if pos_quantity p = 0 then total
        else dec_add total (dec_mul (of_int \<bar>pos_quantity p\<bar>)
               (case map_of (ps_marks st) (pos_symbol p) of Some m \<Rightarrow> m | None \<Rightarrow> pos_avg p)))
      (ps_positions st) 0"

subsection \<open>Per-strategy books\<close>

record strategy_store =
  ss_stores :: "(strategy \<times> position_store) list"

definition ss_new :: strategy_store where
  "ss_new = \<lparr>ss_stores = []\<rparr>"

definition ss_reset :: "strategy_store \<Rightarrow> strategy_store" where
  "ss_reset S = S\<lparr>ss_stores := []\<rparr>"

definition ss_get_store :: "strategy_store \<Rightarrow> strategy \<Rightarrow> position_store \<times> strategy_store" where
  \<comment> \<open>\<open>_get_store\<close> materialises the book of an unseen strategy\<close>
  "ss_get_store S sid =
     (case map_of (ss_stores S) sid of
        Some st \<Rightarrow> (st, S)
      | None \<Rightarrow> (ps_new, S\<lparr>ss_stores := dict_set sid ps_new (ss_stores S)\<rparr>))"

definition ss_get :: "strategy_store \<Rightarrow> strategy \<Rightarrow> symbol \<Rightarrow> position \<times> strategy_store" where
  "ss_get S sid s = (case ss_get_store S sid of (st, S') \<Rightarrow> (ps_get st s, S'))"

definition ss_opened_at_ns :: "strategy_store \<Rightarrow> strategy \<Rightarrow> symbol \<Rightarrow> ns option" where
  "ss_opened_at_ns S sid s =
     (case map_of (ss_stores S) sid of Some st \<Rightarrow> ps_opened_at_ns st s | None \<Rightarrow> None)"

definition ss_update ::
  "strategy_store \<Rightarrow> strategy \<Rightarrow> symbol \<Rightarrow> int \<Rightarrow> decimal \<Rightarrow> decimal \<Rightarrow> ns option \<Rightarrow> strategy_store" where
  "ss_update S sid s d price fees ts =
     (case ss_get_store S sid of (st, S') \<Rightarrow>
        S'\<lparr>ss_stores := dict_set sid (ps_update st s d price fees ts) (ss_stores S')\<rparr>)"

definition ss_debit_fees :: "strategy_store \<Rightarrow> strategy \<Rightarrow> symbol \<Rightarrow> decimal \<Rightarrow> strategy_store" where
  "ss_debit_fees S sid s fees =
     (case ss_get_store S sid of (st, S') \<Rightarrow>
        S'\<lparr>ss_stores := dict_set sid (ps_debit_fees st s fees) (ss_stores S')\<rparr>)"

definition ss_update_mark ::
  "strategy_store \<Rightarrow> symbol \<Rightarrow> decimal \<Rightarrow> decimal option \<Rightarrow> decimal option \<Rightarrow> strategy_store" where
  "ss_update_mark S s mark bid ask =
     (if mark \<le> 0 then S
      else S\<lparr>ss_stores := map (\<lambda>(sid, st). (sid, ps_update_mark st s mark bid ask)) (ss_stores S)\<rparr>)"

definition aggregate_step ::
  "symbol \<Rightarrow> strategy \<times> position_store \<Rightarrow> int \<times> decimal \<times> decimal \<times> decimal \<times> decimal
    \<Rightarrow> int \<times> decimal \<times> decimal \<times> decimal \<times> decimal" where
  \<comment> \<open>one iteration: (total quantity, signed cost, realized, unrealized, fees)\<close>
  "aggregate_step s = (\<lambda>(_, st) (qty, cost, realized, unrealized, fees).
     let p = ps_get st s;
         realized = dec_add realized (pos_realized p);
         unrealized = dec_add unrealized (pos_unrealized p);
         fees = dec_add fees (pos_fees p)
     in if pos_quantity p \<noteq> 0
        then (qty + pos_quantity p,
              dec_add cost (dec_mul (pos_avg p) (of_int (pos_quantity p))), realized, unrealized, fees)
        else (qty, cost, realized, unrealized, fees))"

definition ss_get_aggregate :: "strategy_store \<Rightarrow> symbol \<Rightarrow> position" where
  "ss_get_aggregate S s =
     (let (qty, cost, realized, unrealized, fees) = fold (aggregate_step s) (ss_stores S) (0, 0, 0, 0, 0)
      in \<lparr>pos_symbol = s, pos_quantity = qty,
          pos_avg = (if qty \<noteq> 0 then dec_div cost (of_int qty) else 0),
          pos_realized = realized, pos_unrealized = unrealized, pos_fees = fees\<rparr>)"

definition ss_all_aggregate_positions :: "strategy_store \<Rightarrow> (symbol \<times> position) list" where
  "ss_all_aggregate_positions S =
     map (\<lambda>s. (s, ss_get_aggregate S s))
       (sort (remdups (concat (map (\<lambda>(_, st). map fst (ps_positions st)) (ss_stores S)))))"

definition ss_total_exposure :: "strategy_store \<Rightarrow> decimal" where
  "ss_total_exposure S = fold (\<lambda>(_, st) total. dec_add total (ps_total_exposure st)) (ss_stores S) 0"

definition ss_strategy_sum :: "(position \<Rightarrow> decimal) \<Rightarrow> strategy_store \<Rightarrow> strategy \<Rightarrow> decimal" where
  "ss_strategy_sum field S sid =
     (case map_of (ss_stores S) sid of
        Some st \<Rightarrow> fold (\<lambda>(_, p) total. dec_add total (field p)) (ps_positions st) 0
      | None \<Rightarrow> 0)"

definition ss_get_strategy_exposure :: "strategy_store \<Rightarrow> strategy \<Rightarrow> decimal" where
  "ss_get_strategy_exposure S sid =
     (case map_of (ss_stores S) sid of Some st \<Rightarrow> ps_total_exposure st | None \<Rightarrow> 0)"

definition ss_get_strategy_realized_pnl :: "strategy_store \<Rightarrow> strategy \<Rightarrow> decimal" where
  "ss_get_strategy_realized_pnl = ss_strategy_sum pos_realized"

definition ss_get_strategy_cumulative_fees :: "strategy_store \<Rightarrow> strategy \<Rightarrow> decimal" where
  "ss_get_strategy_cumulative_fees = ss_strategy_sum pos_fees"

definition ss_get_strategy_unrealized_pnl :: "strategy_store \<Rightarrow> strategy \<Rightarrow> decimal" where
  "ss_get_strategy_unrealized_pnl = ss_strategy_sum pos_unrealized"

definition ss_strategy_ids :: "strategy_store \<Rightarrow> strategy set" where
  "ss_strategy_ids S = set (map fst (ss_stores S))"

definition ss_open_positions :: "strategy_store \<Rightarrow> strategy \<Rightarrow> (symbol \<times> position) list" where
  "ss_open_positions S sid =
     (case map_of (ss_stores S) sid of
        None \<Rightarrow> []
      | Some st \<Rightarrow> filter (\<lambda>(_, p). pos_quantity p \<noteq> 0) (ps_positions st))"

lemmas ps_defs = ps_get_def ps_update_def ps_update_mark_def ps_debit_fees_def ps_opened_at_ns_def
  ps_new_def flat_position_def book_fill_def track_episode_def recompute_unrealized_def
  liquidation_mark_def dec_or_def

lemmas ss_defs = ss_get_store_def ss_get_def ss_update_def ss_debit_fees_def ss_update_mark_def
  ss_opened_at_ns_def ss_new_def

subsection \<open>Operations on one symbol\<close>

lemma book_fill_simps [simp]:
  "pos_symbol (book_fill p d price) = pos_symbol p"
  "pos_quantity (book_fill p d price) = pos_quantity p"
  "pos_fees (book_fill p d price) = pos_fees p"
  by (simp_all add: book_fill_def Let_def)

lemma recompute_simps [simp]:
  "pos_symbol (recompute_unrealized st p) = pos_symbol p"
  "pos_quantity (recompute_unrealized st p) = pos_quantity p"
  "pos_avg (recompute_unrealized st p) = pos_avg p"
  "pos_realized (recompute_unrealized st p) = pos_realized p"
  "pos_fees (recompute_unrealized st p) = pos_fees p"
  "recompute_unrealized (st\<lparr>ps_opened := opened\<rparr>) p = recompute_unrealized st p"
  "recompute_unrealized (st\<lparr>ps_positions := ps\<rparr>) p = recompute_unrealized st p"
  "recompute_unrealized st (p\<lparr>pos_fees := f\<rparr>) = (recompute_unrealized st p)\<lparr>pos_fees := f\<rparr>"
  "recompute_unrealized st (recompute_unrealized st p) = recompute_unrealized st p"
  by (simp_all add: recompute_unrealized_def liquidation_mark_def split: option.splits)

lemma ps_get_set [simp]:
  "ps_get (st\<lparr>ps_positions := dict_set s p ps\<rparr>) s' = (if s' = s then p else ps_get (st\<lparr>ps_positions := ps\<rparr>) s')"
  by (simp add: ps_get_def)

lemma ps_get_frame [simp]:
  "ps_get (st\<lparr>ps_opened := opened\<rparr>) s = ps_get st s"
  "ps_get (st\<lparr>ps_positions := ps_positions st\<rparr>) s = ps_get st s"
  "ps_get (st\<lparr>ps_positions := ps_positions st, ps_opened := opened\<rparr>) s = ps_get st s"
  by (simp_all add: ps_get_def)

lemma ps_update_fields:
  "pos_quantity (ps_get (ps_update st s d price fees ts) s) = pos_quantity (ps_get st s) + d"
  "pos_realized (ps_get (ps_update st s d price fees ts) s) = pos_realized (book_fill (ps_get st s) d price)"
  "pos_fees (ps_get (ps_update st s d price fees ts) s) = dec_add (pos_fees (ps_get st s)) fees"
  "pos_avg (ps_get (ps_update st s d price fees ts) s)
    = (if pos_quantity (ps_get st s) + d = 0 then 0 else pos_avg (book_fill (ps_get st s) d price))"
  "s' \<noteq> s \<Longrightarrow> ps_get (ps_update st s d price fees ts) s' = ps_get st s'"
  by (simp_all add: ps_update_def Let_def ps_get_def)

lemma ps_opened_update:
  "ps_opened (ps_update st s d price fees ts)
    = track_episode (ps_opened st) s (pos_quantity (ps_get st s)) (pos_quantity (ps_get st s) + d) ts"
  by (simp add: ps_update_def Let_def)

interpretation net_book: quantity_book "\<lambda>st s. pos_quantity (ps_get st s)"
  "\<lambda>st s d (price, fees, ts). ps_update st s d price fees ts"
  by unfold_locales (auto simp: ps_update_fields)

subsection \<open>Per-strategy slices and the aggregate\<close>

definition slice_qty :: "strategy_store \<Rightarrow> strategy \<times> symbol \<Rightarrow> int" where
  "slice_qty S k = pos_quantity (fst (ss_get S (fst k) (snd k)))"

lemma ss_get_value:
  "fst (ss_get S sid s) = (case map_of (ss_stores S) sid of Some st \<Rightarrow> ps_get st s | None \<Rightarrow> flat_position s)"
  by (simp add: ss_get_def ss_get_store_def ps_get_def ps_new_def split: option.splits)

lemma ss_get_update:
  "fst (ss_get (ss_update S sid s d price fees ts) sid' s')
    = (if sid' = sid
       then ps_get (ps_update (fst (ss_get_store S sid)) s d price fees ts) s'
       else fst (ss_get S sid' s'))"
  by (simp add: ss_get_value ss_update_def ss_get_store_def split: option.splits)

lemma ss_get_store_value: "ps_get (fst (ss_get_store S sid)) s = fst (ss_get S sid s)"
  by (simp add: ss_get_def split: prod.splits)

interpretation slice_book: quantity_book slice_qty
  "\<lambda>S (sid, s) d (price, fees, ts). ss_update S sid s d price fees ts"
proof unfold_locales
  fix S :: strategy_store and k k' :: "strategy \<times> symbol" and d :: int
    and x :: "decimal \<times> decimal \<times> ns option"
  obtain sid s price fees ts where [simp]: "k = (sid, s)" "x = (price, fees, ts)"
    by (metis prod_cases3 surj_pair)
  show "slice_qty ((\<lambda>(sid, s) d (price, fees, ts). ss_update S sid s d price fees ts) k d x) k'
      = (if k' = k then slice_qty S k + d else slice_qty S k')"
    by (cases k') (auto simp: slice_qty_def ss_get_update ps_update_fields ss_get_store_value)
qed

lemma aggregate_quantity:
  "pos_quantity (ss_get_aggregate S s) = (\<Sum>(sid, st)\<leftarrow>ss_stores S. pos_quantity (ps_get st s))"
proof -
  have "fst (fold (aggregate_step s) ds acc) = fst acc + (\<Sum>(sid, st)\<leftarrow>ds. pos_quantity (ps_get st s))"
    for ds acc
    by (induction ds arbitrary: acc) (auto simp: aggregate_step_def Let_def split: prod.splits)
  from this[of "ss_stores S" "(0, 0, 0, 0, 0)"] show ?thesis
    by (cases "fold (aggregate_step s) (ss_stores S) (0, 0, 0, 0, 0)") (simp add: ss_get_aggregate_def)
qed

lemma sum_dict_set:
  "distinct (map fst ds) \<Longrightarrow>
    (\<Sum>(k, v)\<leftarrow>dict_set k0 v0 ds. f v) =
      (\<Sum>(k, v)\<leftarrow>ds. f v) + f v0 - (case map_of ds k0 of Some v \<Rightarrow> f v | None \<Rightarrow> (0::'a::ab_group_add))"
proof (induction ds)
  case (Cons p ds)
  have "k0 \<notin> set (map fst ds) \<Longrightarrow> map_of ds k0 = None" by (simp add: map_of_eq_None_iff)
  then show ?case using Cons by (cases p) (auto simp: algebra_simps)
qed simp

lemma ss_update_distinct:
  "distinct (map fst (ss_stores S)) \<Longrightarrow> distinct (map fst (ss_stores (ss_update S sid s d price fees ts)))"
  by (simp add: ss_update_def ss_get_store_def split: option.splits)

lemma aggregate_update:
  assumes "distinct (map fst (ss_stores S))"
  shows "pos_quantity (ss_get_aggregate (ss_update S sid s d price fees ts) s')
    = (if s' = s then pos_quantity (ss_get_aggregate S s) + d else pos_quantity (ss_get_aggregate S s'))"
proof (cases "map_of (ss_stores S) sid")
  case None
  let ?st = "ps_update ps_new s d price fees ts"
  have "ss_stores (ss_update S sid s d price fees ts) = dict_set sid ?st (dict_set sid ps_new (ss_stores S))"
    using None by (simp add: ss_update_def ss_get_store_def)
  moreover have "dict_set sid ?st (dict_set sid ps_new ds) = dict_set sid ?st ds" for ds
    by (induction ds) auto
  ultimately show ?thesis
    using assms None by (simp add: aggregate_quantity sum_dict_set ps_update_fields)
     (simp add: ps_get_def ps_new_def flat_position_def ps_update_fields)
next
  case (Some st)
  then show ?thesis using assms
    by (simp add: aggregate_quantity sum_dict_set ss_update_def ss_get_store_def ps_update_fields)
qed

subsection \<open>Runs of a book\<close>

datatype ps_op =
    FillOp symbol int decimal decimal "ns option"
  | MarkOp symbol decimal "decimal option" "decimal option"
  | FeesOp symbol decimal
  | ResetOp

fun ps_step :: "ps_op \<Rightarrow> position_store \<Rightarrow> position_store" where
  "ps_step (FillOp s d price fees ts) st = ps_update st s d price fees ts"
| "ps_step (MarkOp s mark bid ask) st = ps_update_mark st s mark bid ask"
| "ps_step (FeesOp s fees) st = ps_debit_fees st s fees"
| "ps_step ResetOp st = ps_reset st"

definition ps_run :: "ps_op list \<Rightarrow> position_store" where
  "ps_run ops = fold ps_step ops ps_new"

lemma ps_run_snoc: "ps_run (ops @ [op]) = ps_step op (ps_run ops)"
  by (simp add: ps_run_def)

lemma ps_run_Nil [simp]: "ps_run [] = ps_new"
  by (simp add: ps_run_def)

lemma ps_reset_new: "ps_reset st = ps_new"
  by (simp add: ps_reset_def ps_new_def)

definition position_fresh :: "position_store \<Rightarrow> symbol \<Rightarrow> position \<Rightarrow> bool" where
  "position_fresh st s p \<longleftrightarrow> pos_symbol p = s \<and> recompute_unrealized st p = p
    \<and> (pos_quantity p = 0 \<longrightarrow> pos_avg p = 0)"

definition ps_fresh :: "position_store \<Rightarrow> bool" where
  "ps_fresh st \<longleftrightarrow> (\<forall>s. position_fresh st s (ps_get st s))"

lemma position_fresh_flat: "position_fresh st s (flat_position s)"
  by (simp add: position_fresh_def flat_position_def recompute_unrealized_def)

lemma ps_fresh_new: "ps_fresh ps_new"
  by (simp add: ps_fresh_def ps_get_def ps_new_def position_fresh_flat)

lemma ps_fresh_update: "ps_fresh st \<Longrightarrow> ps_fresh (ps_update st s d price fees ts)"
  by (auto simp: ps_fresh_def ps_update_def Let_def position_fresh_def)

lemma ps_fresh_debit: "ps_fresh st \<Longrightarrow> ps_fresh (ps_debit_fees st s fees)"
  by (auto simp: ps_fresh_def ps_debit_fees_def Let_def position_fresh_def)

lemma recompute_other_mark:
  assumes "pos_symbol p \<noteq> s"
  shows "recompute_unrealized (ps_update_mark st s mark bid ask) p = recompute_unrealized st p"
  using assms
  by (auto simp: ps_update_mark_def Let_def recompute_unrealized_def liquidation_mark_def
      split: option.splits)

lemma ps_get_mark:
  "ps_get (ps_update_mark st s mark bid ask) s'
    = (if s' = s \<and> 0 < mark \<and> map_of (ps_positions st) s \<noteq> None
       then recompute_unrealized (ps_update_mark st s mark bid ask) (ps_get st s)
       else ps_get st s')"
  by (auto simp: ps_update_mark_def Let_def ps_get_def split: option.splits)

lemma ps_fresh_mark: "ps_fresh st \<Longrightarrow> ps_fresh (ps_update_mark st s mark bid ask)"
proof -
  assume fresh: "ps_fresh st"
  have "position_fresh (ps_update_mark st s mark bid ask) s' (ps_get (ps_update_mark st s mark bid ask) s')" for s'
  proof (cases "s' = s")
    case False
    then have "pos_symbol (ps_get st s') \<noteq> s" using fresh by (simp add: ps_fresh_def position_fresh_def)
    then show ?thesis using False fresh
      by (simp add: ps_get_mark position_fresh_def ps_fresh_def recompute_other_mark)
  next
    case True
    consider "mark \<le> 0" | "map_of (ps_positions st) s = None" | "0 < mark" "map_of (ps_positions st) s \<noteq> None"
      by linarith
    then show ?thesis
    proof cases
      case 1
      then show ?thesis using fresh by (simp add: ps_update_mark_def ps_fresh_def)
    next
      case 2
      then show ?thesis using True by (simp add: ps_get_mark) (simp add: ps_get_def position_fresh_flat)
    next
      case 3
      then show ?thesis using True fresh
        by (simp add: ps_get_mark position_fresh_def ps_fresh_def)
    qed
  qed
  then show ?thesis by (simp add: ps_fresh_def)
qed

lemma ps_fresh_run: "ps_fresh (ps_run ops)"
proof (induction ops rule: rev_induct)
  case (snoc op ops)
  then show ?case
    by (cases op) (simp_all add: ps_run_snoc ps_fresh_update ps_fresh_mark ps_fresh_debit
        ps_fresh_new ps_reset_new)
qed (simp add: ps_fresh_new)

text \<open>Marking to market is never stale. After any run of fills, marks, fee debits and
  resets, a flat symbol has no average price and no unrealized profit, and an open one is
  valued at the side it would be liquidated on: a long at the last bid, a short at the last
  ask, either at the mid when that side has no quote, and at zero before the first mark.\<close>

theorem unrealized_always_current:
  "let st = ps_run ops; p = ps_get st s; q = pos_quantity p;
       marked = (\<lambda>m. case m of None \<Rightarrow> 0 | Some m \<Rightarrow> dec_mul (dec_sub m (pos_avg p)) (of_int q))
   in pos_symbol p = s
      \<and> (q = 0 \<longrightarrow> pos_avg p = 0 \<and> pos_unrealized p = 0)
      \<and> (0 < q \<longrightarrow> pos_unrealized p = marked (dec_or (map_of (ps_bids st) s) (map_of (ps_marks st) s)))
      \<and> (q < 0 \<longrightarrow> pos_unrealized p = marked (dec_or (map_of (ps_asks st) s) (map_of (ps_marks st) s)))"
proof -
  have fresh: "position_fresh (ps_run ops) s (ps_get (ps_run ops) s)"
    using ps_fresh_run by (simp add: ps_fresh_def)
  then have "pos_unrealized (ps_get (ps_run ops) s)
      = pos_unrealized (recompute_unrealized (ps_run ops) (ps_get (ps_run ops) s))"
    and sym: "pos_symbol (ps_get (ps_run ops) s) = s"
    by (simp_all add: position_fresh_def)
  then show ?thesis using fresh unfolding Let_def position_fresh_def
    by (auto simp: recompute_unrealized_def liquidation_mark_def split: option.splits)
qed

lemma unrealized_always_current_witness:
  "let st = ps_run [MarkOp ''A'' 10 (Some 9) (Some 11), FillOp ''A'' 5 11 0 (Some 1)]
   in pos_unrealized (ps_get st ''A'') = -10"
proof -
  let ?ops = "[MarkOp ''A'' 10 (Some 9) (Some 11), FillOp ''A'' 5 11 0 (Some 1)]"
  have q: "pos_quantity (ps_get (ps_run ?ops) ''A'') = 5" "pos_avg (ps_get (ps_run ?ops) ''A'') = 11"
    "map_of (ps_bids (ps_run ?ops)) ''A'' = Some 9"
    by (simp_all add: ps_run_def ps_defs Let_def)
  have "dec_mul (dec_sub 9 11) 5 = -10" by code_simp
  then show ?thesis
    using unrealized_always_current[of ?ops "''A''"] by (simp add: q Let_def dec_or_def)
qed

subsection \<open>The three books agree\<close>

text \<open>A fill: strategy, symbol, signed quantity, price, fees, time.\<close>

type_synonym fill = "strategy \<times> symbol \<times> int \<times> decimal \<times> decimal \<times> ns"

definition fill_books :: "fill \<Rightarrow> lot_ledger \<times> position_store \<times> strategy_store
    \<Rightarrow> lot_ledger \<times> position_store \<times> strategy_store" where
  "fill_books = (\<lambda>(sid, s, d, price, fees, t) (L, st, S).
     (apply_fill L s d price t sid '''', ps_update st s d price fees (Some t),
      ss_update S sid s d price fees (Some t)))"

definition books :: "fill list \<Rightarrow> lot_ledger \<times> position_store \<times> strategy_store" where
  "books fs = fold fill_books fs (empty_lot_ledger, ps_new, ss_new)"

lemma books_snoc: "books (fs @ [f]) = fill_books f (books fs)"
  by (simp add: books_def)

lemma books_invariant:
  "case books fs of (L, st, S) \<Rightarrow>
     distinct (map fst (ss_stores S))
     \<and> (\<forall>s. net_quantity L s = (\<Sum>(sid, s', d, _)\<leftarrow>fs. if s' = s then d else 0)
          \<and> pos_quantity (ps_get st s) = (\<Sum>(sid, s', d, _)\<leftarrow>fs. if s' = s then d else 0)
          \<and> pos_quantity (ss_get_aggregate S s) = (\<Sum>(sid, s', d, _)\<leftarrow>fs. if s' = s then d else 0)
          \<and> (\<forall>sid. slice_qty S (sid, s) = (\<Sum>(sid', s', d, _)\<leftarrow>fs. if s' = s \<and> sid' = sid then d else 0)))"
proof (induction fs rule: rev_induct)
  case Nil
  have "slice_qty ss_new (sid, s) = 0" for sid s
    by (simp add: slice_qty_def ss_get_value ss_new_def flat_position_def)
  then show ?case
    by (simp add: books_def net_quantity_def empty_lot_ledger_def ledger_lots_def ps_get_def ps_new_def
        flat_position_def aggregate_quantity ss_new_def)
next
  case (snoc f fs)
  obtain L st S where b: "books fs = (L, st, S)" by (metis prod_cases3)
  obtain sid s d price fees t where f: "f = (sid, s, d, price, fees, t)" by (metis prod_cases6)
  show ?case
    using snoc.IH slice_book.fill_qty[of S "(sid, s)" d "(price, fees, Some t)"]
    by (auto simp: books_snoc b f fill_books_def ss_update_distinct net_quantity_fill
        ps_update_fields aggregate_update net_book.fill_qty[of st s d "(price, fees, Some t)", simplified])
qed

text \<open>C8: The books reconcile. After the same fills the FIFO ledger's net quantity, the
  symbol-net store and the aggregate view over the strategy slices are one number, the sum of
  the symbol's signed fills, and a strategy's slice is the sum of its own fills only.\<close>

theorem books_agree:
  "case books fs of (L, st, S) \<Rightarrow>
     net_quantity L s = pos_quantity (ps_get st s)
     \<and> pos_quantity (ss_get_aggregate S s) = pos_quantity (ps_get st s)
     \<and> pos_quantity (ps_get st s) = (\<Sum>(sid, s', d, _)\<leftarrow>fs. if s' = s then d else 0)
     \<and> pos_quantity (fst (ss_get S sid s)) = (\<Sum>(sid', s', d, _)\<leftarrow>fs. if s' = s \<and> sid' = sid then d else 0)"
  using books_invariant[of fs] by (auto simp: slice_qty_def split: prod.splits)

subsection \<open>Open episodes\<close>

text \<open>The timestamped fills of a symbol since the last reset, and their total.\<close>

fun fills_step :: "symbol \<Rightarrow> ps_op \<Rightarrow> (int \<times> ns) list \<Rightarrow> (int \<times> ns) list" where
  "fills_step s (FillOp s' d price fees (Some t)) fs = (if s' = s then fs @ [(d, t)] else fs)"
| "fills_step s ResetOp fs = []"
| "fills_step s _ fs = fs"

definition fills_of :: "symbol \<Rightarrow> ps_op list \<Rightarrow> (int \<times> ns) list" where
  "fills_of s ops = fold (fills_step s) ops []"

definition held :: "(int \<times> ns) list \<Rightarrow> int" where
  "held fs = (\<Sum>(d, t)\<leftarrow>fs. d)"

lemma held_simps [simp]: "held [] = 0" "held (fs @ [(d, t)]) = held fs + d"
  by (simp_all add: held_def)

definition starts_episode :: "(int \<times> ns) list \<Rightarrow> ns \<Rightarrow> bool" where
  \<comment> \<open>the fill at \<open>t\<close> took the book from flat or the other side to the side it is still on\<close>
  "starts_episode fs t \<longleftrightarrow> (\<exists>pre d post. fs = pre @ (d, t) # post
     \<and> (held pre = 0 \<or> \<not> same_sign (held pre) (held fs))
     \<and> (\<forall>k \<le> length post. same_sign (held (pre @ (d, t) # take k post)) (held fs)))"

lemma same_sign_trans: "same_sign a b \<Longrightarrow> same_sign b c \<Longrightarrow> same_sign a c"
  by (auto simp: same_sign_def)

lemma starts_episode_new:
  assumes "held fs + d \<noteq> 0" and "held fs = 0 \<or> \<not> same_sign (held fs) (held fs + d)"
  shows "starts_episode (fs @ [(d, t)]) t"
  unfolding starts_episode_def
  by (rule exI[of _ fs], rule exI[of _ d], rule exI[of _ "[]"]) (use assms in simp)

lemma starts_episode_keep:
  assumes "starts_episode fs t" and "same_sign (held fs) (held fs + d)"
  shows "starts_episode (fs @ [(d, t')]) t"
proof -
  obtain pre d0 post where fs: "fs = pre @ (d0, t) # post"
    and pre: "held pre = 0 \<or> \<not> same_sign (held pre) (held fs)"
    and all: "\<forall>k \<le> length post. same_sign (held (pre @ (d0, t) # take k post)) (held fs)"
    using assms(1) unfolding starts_episode_def by blast
  have "held pre = 0 \<or> \<not> same_sign (held pre) (held fs + d)"
    using pre assms(2) by (auto simp: same_sign_def)
  moreover have "same_sign (held (pre @ (d0, t) # take k (post @ [(d, t')]))) (held fs + d)"
    if "k \<le> length (post @ [(d, t')])" for k
  proof (cases "k \<le> length post")
    case True
    then show ?thesis using all same_sign_trans assms(2) by simp blast
  next
    case False
    then have "held (pre @ (d0, t) # take k (post @ [(d, t')])) = held fs + d"
      using that held_simps(2)[of "pre @ (d0, t) # post" d t'] by (simp add: fs)
    then show ?thesis using assms(2) by (auto simp: same_sign_def)
  qed
  moreover have "fs @ [(d, t')] = pre @ (d0, t) # (post @ [(d, t')])" by (simp add: fs)
  ultimately show ?thesis unfolding starts_episode_def held_simps by blast
qed

lemma mark_frame:
  "ps_opened (ps_update_mark st s mark bid ask) = ps_opened st"
  "pos_quantity (ps_get (ps_update_mark st s mark bid ask) s') = pos_quantity (ps_get st s')"
  by (simp add: ps_update_mark_def Let_def split: option.splits) (simp add: ps_get_mark)

lemma debit_frame:
  "ps_opened (ps_debit_fees st s fees) = ps_opened st"
  "pos_quantity (ps_get (ps_debit_fees st s fees) s') = pos_quantity (ps_get st s')"
  by (simp add: ps_debit_fees_def Let_def) (auto simp: ps_debit_fees_def Let_def ps_get_def)

lemma episode_invariant:
  assumes "\<forall>s d p f. FillOp s d p f None \<notin> set ops"
  shows "pos_quantity (ps_get (ps_run ops) s) = held (fills_of s ops)
    \<and> (if held (fills_of s ops) = 0 then map_of (ps_opened (ps_run ops)) s = None
       else \<exists>t. map_of (ps_opened (ps_run ops)) s = Some t \<and> starts_episode (fills_of s ops) t)"
  using assms
proof (induction ops rule: rev_induct)
  case Nil
  then show ?case by (simp add: fills_of_def ps_get_def ps_new_def flat_position_def)
next
  case (snoc op ops)
  have ih: "pos_quantity (ps_get (ps_run ops) s) = held (fills_of s ops)"
    "if held (fills_of s ops) = 0 then map_of (ps_opened (ps_run ops)) s = None
     else \<exists>t. map_of (ps_opened (ps_run ops)) s = Some t \<and> starts_episode (fills_of s ops) t"
    using snoc by auto
  have snoc_fills: "fills_of s (ops @ [op]) = fills_step s op (fills_of s ops)"
    by (simp add: fills_of_def)
  show ?case
  proof (cases op)
    case (FillOp s' d price fees ts)
    then obtain t where ts: "ts = Some t" using snoc.prems by (cases ts) auto
    let ?q = "held (fills_of s ops)"
    show ?thesis
    proof (cases "s' = s")
      case False
      then have "fills_of s (ops @ [op]) = fills_of s ops" unfolding snoc_fills by (simp add: FillOp ts)
      then show ?thesis using ih False
        by (simp add: ps_run_snoc FillOp ts ps_update_fields ps_opened_update track_episode_def)
    next
      case True
      have opened: "map_of (ps_opened (ps_run (ops @ [op]))) s
          = (if ?q + d = 0 then None
             else if ?q = 0 \<or> \<not> same_sign ?q (?q + d) then Some t
             else map_of (ps_opened (ps_run ops)) s)"
        using True ih(1) by (simp add: ps_run_snoc FillOp ts ps_opened_update track_episode_def)
      have fills: "fills_of s (ops @ [op]) = fills_of s ops @ [(d, t)]"
        unfolding snoc_fills using True by (simp add: FillOp ts)
      have qty: "pos_quantity (ps_get (ps_run (ops @ [op])) s) = ?q + d"
        using True ih(1) by (simp add: ps_run_snoc FillOp ts ps_update_fields)
      show ?thesis unfolding opened fills qty
        using ih(2) starts_episode_new[of "fills_of s ops" d t] starts_episode_keep
        by (auto split: if_splits)
    qed
  next
    case (MarkOp s' m b a)
    then show ?thesis using ih by (simp add: snoc_fills[unfolded MarkOp] ps_run_snoc mark_frame)
  next
    case (FeesOp s' f)
    then show ?thesis using ih by (simp add: snoc_fills[unfolded FeesOp] ps_run_snoc debit_frame)
  next
    case ResetOp
    then show ?thesis
      by (simp add: snoc_fills[unfolded ResetOp] ps_run_snoc ps_reset_new ps_get_def ps_new_def flat_position_def)
  qed
qed

text \<open>The open-episode clock. When every fill carries its time, a symbol has a start time
  exactly when it is open, and that time is the time of the fill that took the book from flat
  (or from the other side) to the side it has stayed on ever since: extending or reducing
  keeps it, flattening clears it, crossing zero restarts it.\<close>

theorem opened_at_is_episode_start:
  assumes "\<forall>s d p f. FillOp s d p f None \<notin> set ops"
  shows "case ps_opened_at_ns (ps_run ops) s of
      None \<Rightarrow> held (fills_of s ops) = 0
    | Some t \<Rightarrow> held (fills_of s ops) \<noteq> 0 \<and> starts_episode (fills_of s ops) t"
proof -
  have "map_of (ps_positions (ps_run ops)) s \<noteq> None" if "pos_quantity (ps_get (ps_run ops) s) \<noteq> 0"
    using that by (auto simp: ps_get_def flat_position_def split: option.splits)
  then show ?thesis using episode_invariant[OF assms, of s]
    by (auto simp: ps_opened_at_ns_def ps_get_def split: option.splits if_splits)
qed

lemma opened_at_is_episode_start_witness:
  "ps_opened_at_ns (ps_run [FillOp ''A'' 5 10 0 (Some 1), FillOp ''A'' (-8) 11 0 (Some 2),
     FillOp ''A'' (-1) 11 0 (Some 3)]) ''A'' = Some 2
   \<and> starts_episode [(5, 1), (-8, 2), (-1, 3)] 2"
proof -
  let ?ops = "[FillOp ''A'' 5 10 0 (Some 1), FillOp ''A'' (-8) 11 0 (Some 2), FillOp ''A'' (-1) 11 0 (Some 3)]"
  have o: "ps_opened_at_ns (ps_run ?ops) ''A'' = Some 2"
    by (simp add: ps_run_def ps_defs Let_def same_sign_def)
  have "fills_of ''A'' ?ops = [(5, 1), (-8, 2), (-1, 3)]" by (simp add: fills_of_def)
  then show ?thesis using opened_at_is_episode_start[of ?ops "''A''"] o by simp
qed

text \<open>A fill that carries no time leaves the clock alone, so after an untimed close an untimed
  reopening shows the start of the earlier episode.\<close>

lemma stale_episode:
  "ps_opened_at_ns (ps_run [FillOp ''A'' 5 10 0 (Some 1), FillOp ''A'' (-5) 11 0 None,
     FillOp ''A'' 3 12 0 None]) ''A'' = Some 1"
  by (simp add: ps_run_def ps_defs Let_def same_sign_def)

subsection \<open>Realized profit of the average-cost book\<close>

lemma realized_rounded: "dec_round (pos_realized (ps_get (ps_run ops) s)) = pos_realized (ps_get (ps_run ops) s)"
proof (induction ops rule: rev_induct)
  case Nil
  then show ?case by (simp add: ps_get_def ps_new_def flat_position_def)
next
  case (snoc op ops)
  have idem: "dec_round (dec_round x) = dec_round x" for x by (rule round_sig_idem) simp_all
  show ?case
  proof (cases op)
    case (FillOp s' d price fees ts)
    then show ?thesis using snoc
      by (cases "s' = s") (auto simp: ps_run_snoc ps_update_fields book_fill_def Let_def dec_add_def idem)
  next
    case (MarkOp s' m b a)
    then show ?thesis using snoc by (auto simp: ps_run_snoc ps_get_mark)
  next
    case (FeesOp s' f)
    then show ?thesis using snoc
      by (auto simp: ps_run_snoc ps_debit_fees_def Let_def ps_get_def)
  next
    case ResetOp
    then show ?thesis by (simp add: ps_run_snoc ps_reset_new ps_get_def ps_new_def flat_position_def)
  qed
qed

lemma dec_sign:
  "0 \<le> x \<Longrightarrow> 0 \<le> dec_round x" "x \<le> 0 \<Longrightarrow> dec_round x \<le> 0"
  using round_sig_sign[of 10 28 x] by linarith+

lemma realized_step:
  assumes "dec_round r = r"
  shows "0 \<le> x \<Longrightarrow> r \<le> dec_add r x" "x \<le> 0 \<Longrightarrow> dec_add r x \<le> r"
  using round_sig_between[of 10 28 r "r + x"] assms by (simp_all add: dec_add_def)

lemma pnl_sign:
  assumes "0 \<le> m"
  shows "b \<le> a \<Longrightarrow> 0 \<le> dec_mul (dec_sub a b) (of_int m)" "a \<le> b \<Longrightarrow> dec_mul (dec_sub a b) (of_int m) \<le> 0"
  using assms dec_sign[of "a - b"] by (auto simp: dec_mul_def dec_sub_def intro!: dec_sign mult_nonneg_nonneg mult_nonpos_nonneg)

text \<open>Profit is realized by reductions only, in the direction of the price. In every
  reachable book a fill that opens or extends leaves the realized profit untouched; a fill
  against the position raises it when the price is at or beyond the average price in the
  position's favour and lowers it otherwise, rounding included. A reduction keeps the average
  price, a close clears it, and a crossing through zero restarts it at the fill price.\<close>

theorem realized_follows_price:
  "let p = ps_get (ps_run ops) s; q = pos_quantity p;
       p' = ps_get (ps_update (ps_run ops) s d price fees ts) s
   in pos_quantity p' = q + d
      \<and> (q = 0 \<or> same_sign q d \<longrightarrow> pos_realized p' = pos_realized p)
      \<and> (q \<noteq> 0 \<and> \<not> same_sign q d \<longrightarrow>
           (0 \<le> of_int (sgn q) * (price - pos_avg p) \<longrightarrow> pos_realized p \<le> pos_realized p')
         \<and> (of_int (sgn q) * (price - pos_avg p) \<le> 0 \<longrightarrow> pos_realized p' \<le> pos_realized p)
         \<and> pos_avg p' = (if \<bar>d\<bar> < \<bar>q\<bar> then pos_avg p else if q + d = 0 then 0 else price))"
proof -
  let ?p = "ps_get (ps_run ops) s" and ?p' = "ps_get (ps_update (ps_run ops) s d price fees ts) s"
  let ?q = "pos_quantity ?p"
  have keep: "?q = 0 \<or> same_sign ?q d \<longrightarrow> pos_realized ?p' = pos_realized ?p"
    by (simp add: ps_update_fields book_fill_def Let_def)
  have moves: "(0 \<le> of_int (sgn ?q) * (price - pos_avg ?p) \<longrightarrow> pos_realized ?p \<le> pos_realized ?p')
      \<and> (of_int (sgn ?q) * (price - pos_avg ?p) \<le> 0 \<longrightarrow> pos_realized ?p' \<le> pos_realized ?p)"
    if against: "?q \<noteq> 0" "\<not> same_sign ?q d"
  proof -
    define c where "c = min \<bar>d\<bar> \<bar>?q\<bar>"
    have "pos_realized ?p' = dec_add (pos_realized ?p)
        (if 0 < ?q then dec_mul (dec_sub price (pos_avg ?p)) (of_int c)
         else dec_mul (dec_sub (pos_avg ?p) price) (of_int c))"
      using against by (simp add: ps_update_fields book_fill_def Let_def c_def)
    then show ?thesis
      using realized_step[OF realized_rounded] pnl_sign[of c] against(1)
      by (auto simp: c_def sgn_if)
  qed
  have avg: "pos_avg ?p' = (if \<bar>d\<bar> < \<bar>?q\<bar> then pos_avg ?p else if ?q + d = 0 then 0 else price)"
    if against: "?q \<noteq> 0" "\<not> same_sign ?q d"
  proof -
    have "?q + d = 0 \<Longrightarrow> \<not> \<bar>d\<bar> < \<bar>?q\<bar>" "\<bar>d\<bar> = \<bar>?q\<bar> \<Longrightarrow> ?q + d = 0"
      using against by (auto simp: same_sign_def abs_if split: if_splits)
    then show ?thesis using against by (auto simp: ps_update_fields book_fill_def Let_def)
  qed
  show ?thesis using keep moves avg by (simp add: Let_def ps_update_fields(1))
qed

lemma realized_follows_price_witness:
  "let st = ps_run [FillOp ''A'' 5 10 0 (Some 1)]; p' = ps_get (ps_update st ''A'' (-2) 12 0 (Some 2)) ''A''
   in 0 \<le> pos_realized p' \<and> pos_avg p' = 10"
proof -
  let ?ops = "[FillOp ''A'' 5 10 0 (Some 1)]"
  have "pos_quantity (ps_get (ps_run ?ops) ''A'') = 5" "pos_avg (ps_get (ps_run ?ops) ''A'') = 10"
    "pos_realized (ps_get (ps_run ?ops) ''A'') = 0"
    by (simp_all add: ps_run_def ps_defs Let_def)
  then show ?thesis
    using realized_follows_price[of ?ops "''A''" "-2" 12 0 "Some 2"] by (simp add: Let_def same_sign_def)
qed

end
