(* ===== verification/Events.thy ===== *)
theory Events
  imports Numerics
begin

section \<open>Typed events (core/events.py)\<close>

text \<open>
  The frozen dataclasses that cross layer boundaries, each a record extending the base event
  with the source's fields in the source's order, and their enumerations. Unit metadata of
  the fields is not modelled; a dictionary field is a list of pairs in insertion order; a
  field that may be infinite (\<open>discriminability\<close>) is \<open>None\<close> for infinity. The events of the
  feature and composition layers, which no modelled component reads, are left out.
\<close>

datatype side = BUY | SELL
datatype order_type = MARKET | LIMIT
datatype order_ack_status = ACK_ACKNOWLEDGED | ACK_PARTIALLY_FILLED | ACK_FILLED | ACK_CANCELLED | ACK_REJECTED | ACK_EXPIRED
datatype signal_direction = LONG | SHORT | FLAT
datatype risk_action = ALLOW | SCALE_DOWN | REJECT | FORCE_FLATTEN
datatype alert_severity = INFO | WARNING | CRITICAL | EMERGENCY
datatype trend_mechanism = KYLE_INFO | INVENTORY | HAWKES_SELF_EXCITE | LIQUIDITY_STRESS | SCHEDULED_FLOW

record event =
  ev_timestamp :: ns
  ev_correlation :: string
  ev_sequence :: int
  ev_source_layer :: string
  ev_schema_version :: int

record nbbo_quote = event +
  nq_symbol :: symbol
  nq_bid :: decimal
  nq_ask :: decimal
  nq_bid_size :: int
  nq_ask_size :: int
  nq_bid_exchange :: int
  nq_ask_exchange :: int
  nq_exchange_timestamp :: ns
  nq_conditions :: "int list"
  nq_indicators :: "int list"
  nq_sequence_number :: int
  nq_tape :: int
  nq_participant_timestamp :: "ns option"
  nq_trf_timestamp :: "ns option"
  nq_received :: "ns option"

record trade = event +
  td_symbol :: symbol
  td_price :: decimal
  td_size :: int
  td_exchange :: int
  td_trade_id :: string
  td_exchange_timestamp :: ns
  td_conditions :: "int list"
  td_decimal_size :: "string option"
  td_sequence_number :: int
  td_tape :: int
  td_trf_id :: "int option"
  td_trf_timestamp :: "ns option"
  td_participant_timestamp :: "ns option"
  td_correction :: "int option"
  td_received :: "ns option"

record symbol_halted = event +
  sh_symbol :: symbol
  sh_halted :: bool
  sh_reason :: string
  sh_blackout_until :: ns

record regime_state = event +
  rs_symbol :: symbol
  rs_engine :: string
  rs_state_names :: "string list"
  rs_posteriors :: "float64 list"
  rs_dominant_state :: int
  rs_dominant_name :: string
  rs_horizon_seconds :: int
  rs_entropy_nats :: float64
  rs_calibrated :: bool
  rs_discriminability :: "float64 option"

record signal = event +
  sg_symbol :: symbol
  sg_strategy :: strategy
  sg_direction :: signal_direction
  sg_strength :: float64
  sg_edge_bps :: float64
  sg_disclosed_cost_bps :: float64
  sg_disclosed_margin :: float64
  sg_metadata :: metadata
  sg_layer :: string
  sg_horizon_seconds :: int
  sg_gate_state :: string
  sg_consumed_features :: "string list"
  sg_mechanism :: "trend_mechanism option"
  sg_half_life_seconds :: int

record risk_verdict = event +
  rv_symbol :: symbol
  rv_action :: risk_action
  rv_reason :: string
  rv_scaling_factor :: float64

record order_request = event +
  or_order_id :: string
  or_symbol :: symbol
  or_side :: side
  or_order_type :: order_type
  or_quantity :: int
  or_limit_price :: "decimal option"
  or_strategy :: strategy
  or_is_short :: bool
  or_is_moc :: bool
  or_g12_cost_bps :: float64
  or_reason :: string

record de_risk_requirement = event +
  dr_order_id :: string
  dr_symbol :: symbol
  dr_side :: side
  dr_quantity :: int
  dr_strategy :: strategy
  dr_reason :: string

record order_ack = event +
  oa_order_id :: string
  oa_symbol :: symbol
  oa_status :: order_ack_status
  oa_filled_quantity :: int
  oa_fill_price :: "decimal option"
  oa_fees :: decimal
  oa_cost_bps :: decimal
  oa_reason :: string
  oa_request_sequence :: "int option"

record position_update = event +
  pu_symbol :: symbol
  pu_quantity :: int
  pu_avg_price :: decimal
  pu_realized :: decimal
  pu_unrealized :: decimal
  pu_fees :: decimal
  pu_cost_bps :: decimal

record state_transition = event +
  st_machine :: string
  st_from :: string
  st_to :: string
  st_trigger :: string
  st_metadata :: metadata

record alert = event +
  al_severity :: alert_severity
  al_layer :: string
  al_name :: string
  al_message :: string
  al_context :: metadata

record kill_switch_activation = event +
  ks_reason :: string
  ks_activated_by :: string

record safety_state_change = event +
  sc_symbol :: symbol
  sc_strategy :: strategy
  sc_safe :: bool
  sc_reason :: string
  sc_mechanism :: "trend_mechanism option"
  sc_gate_state :: string
  sc_consumed_features :: "string list"
  sc_half_life_seconds :: int
  sc_disclosed_cost_bps :: float64
  sc_disclosed_margin :: float64

record regime_hazard_spike = event +
  hz_symbol :: symbol
  hz_engine :: string
  hz_departing_state :: string
  hz_posterior_prev :: float64
  hz_posterior_now :: float64
  hz_incoming_state :: "string option"
  hz_score :: float64

record horizon_tick = event +
  ht_horizon_seconds :: int
  ht_boundary_index :: int
  ht_session_id :: string
  ht_scope :: string
  ht_boundary_timestamp :: ns
  ht_symbol :: "symbol option"
  ht_boundary_ts :: ns

definition schema_version :: int where
  "schema_version = 1"

definition exit_only_mechanisms :: "trend_mechanism set" where
  "exit_only_mechanisms = {LIQUIDITY_STRESS}"

text \<open>\<open>HorizonTick.asof\_timestamp\_ns\<close>: the boundary, or the event time when the boundary is unset.\<close>

definition asof_timestamp :: "horizon_tick \<Rightarrow> ns" where
  "asof_timestamp t = (if ht_boundary_timestamp t \<noteq> 0 then ht_boundary_timestamp t else ev_timestamp t)"

text \<open>What a market data source yields: the two events that are persisted and replayed.\<close>

datatype market_event = Quote_Event nbbo_quote | Trade_Event trade

end
