(* ===== verification/Fill_Attribution.thy ===== *)
theory Fill_Attribution
  imports Position_Store Events
begin

section \<open>Fill attribution (core/fill\_attribution.py, portfolio/fill\_attribution.py)\<close>

text \<open>
  A fill of a net order is split over the strategies behind it: whole shares by the
  largest-remainder method on float weights, fees to the cent with the residue on the last
  share. The ledger keeps the allocation made so far for every order, so that partial fills
  add up to one fill of their total.
\<close>

record alpha_contribution =
  ac_strategy :: strategy
  ac_signed_quantity :: int
  ac_proportion :: float64

record attribution_record =
  at_order_id :: string
  at_symbol :: symbol
  at_net_side :: side
  at_net_quantity :: int
  at_contributions :: "alpha_contribution list"

subsection \<open>The largest-remainder split\<close>

definition int_trunc :: "float64 \<Rightarrow> int" where
  \<comment> \<open>\<open>int(x)\<close> drops the fraction\<close>
  "int_trunc x = (if 0 \<le> x then \<lfloor>x\<rfloor> else \<lceil>x\<rceil>)"

definition fsum :: "float64 list \<Rightarrow> float64" where
  \<comment> \<open>\<open>math.fsum\<close>: the exact sum, rounded once\<close>
  "fsum xs = fl_round (sum_list xs)"

definition even_split :: "int \<Rightarrow> nat \<Rightarrow> int list" where
  "even_split tot n =
     (let base = tot div int n; remainder = tot - base * int n
      in map (\<lambda>i. base + (if int i < remainder then 1 else 0)) [0..<n])"

definition exact_shares :: "int \<Rightarrow> float64 list \<Rightarrow> float64 \<Rightarrow> float64 list" where
  "exact_shares tot ws total_weight =
     map (\<lambda>w. fl_div (fl_mul (fl_round (of_int tot)) \<bar>w\<bar>) total_weight) ws"

fun hand_out :: "nat list \<Rightarrow> nat \<Rightarrow> int list \<Rightarrow> int list result" where
  \<comment> \<open>\<open>for i in range(deficit): floors[indices[i]] += 1\<close>\<close>
  "hand_out idx 0 floors = Inr floors"
| "hand_out [] (Suc d) floors = Inl IndexError"
| "hand_out (i # idx) (Suc d) floors = hand_out idx d (floors[i := floors ! i + 1])"

definition largest_remainder_split :: "int \<Rightarrow> float64 list \<Rightarrow> int list result" where
  "largest_remainder_split tot ws =
     (let n = length ws in
      if n = 0 then Inr []
      else
        let total_weight = fsum (map abs ws) in
        if total_weight \<le> 0 then Inr (even_split tot n)
        else
          let exact = exact_shares tot ws total_weight;
              floors = map int_trunc exact;
              remainders = map2 (\<lambda>e f. fl_sub e (fl_round (of_int f))) exact floors;
              deficit = tot - sum_list floors;
              indices = sort_key (\<lambda>i. - (remainders ! i)) [0..<n]
          in hand_out indices (nat deficit) floors)"

subsection \<open>Fees\<close>

fun fee_loop :: "decimal \<Rightarrow> int \<Rightarrow> nat \<Rightarrow> int list \<Rightarrow> decimal list \<times> decimal \<times> nat option
    \<Rightarrow> (decimal list \<times> decimal \<times> nat option) result" where
  \<comment> \<open>state: (out, remainder, last non-zero index)\<close>
  "fee_loop total_fees total_allocated idx [] st = Inr st"
| "fee_loop total_fees total_allocated idx (alloc # allocs) (out, remainder, last_nonzero) =
     (if alloc \<le> 0 then fee_loop total_fees total_allocated (Suc idx) allocs (out, remainder, last_nonzero)
      else bind_result
        (quantize half_even 2 (dec_div (dec_mul total_fees (of_int alloc)) (of_int total_allocated)))
        (\<lambda>share. fee_loop total_fees total_allocated (Suc idx) allocs
           (out[idx := share], dec_sub remainder share, Some idx)))"

definition split_fees :: "decimal \<Rightarrow> int list \<Rightarrow> decimal list result" where
  "split_fees total_fees allocations =
     (let out = replicate (length allocations) 0;
          total_allocated = sum_list (filter (\<lambda>a. 0 < a) allocations)
      in if total_allocated \<le> 0 then Inr out
         else bind_result (fee_loop total_fees total_allocated 0 allocations (out, total_fees, None))
           (\<lambda>(out, remainder, last_nonzero).
              case last_nonzero of
                Some i \<Rightarrow> if remainder \<noteq> 0 then Inr (out[i := dec_add (out ! i) remainder]) else Inr out
              | None \<Rightarrow> Inr out))"

subsection \<open>The ledger\<close>

record fill_ledger =
  fal_records :: "(string \<times> attribution_record) list"
  fal_cumulative :: "(string \<times> int list) list"

definition fill_ledger_new :: fill_ledger where
  "fill_ledger_new = \<lparr>fal_records = [], fal_cumulative = []\<rparr>"

definition fal_reset :: "fill_ledger \<Rightarrow> fill_ledger" where
  "fal_reset F = F\<lparr>fal_records := [], fal_cumulative := []\<rparr>"

definition fal_record :: "fill_ledger \<Rightarrow> attribution_record \<Rightarrow> fill_ledger" where
  "fal_record F r = F\<lparr>fal_records := dict_set (at_order_id r) r (fal_records F)\<rparr>"

definition fal_pop :: "fill_ledger \<Rightarrow> string \<Rightarrow> fill_ledger" where
  "fal_pop F oid = F\<lparr>fal_records := dict_pop oid (fal_records F), fal_cumulative := dict_pop oid (fal_cumulative F)\<rparr>"

type_synonym leg = "strategy \<times> symbol \<times> int \<times> decimal \<times> decimal"

definition contribution_sign :: "attribution_record \<Rightarrow> alpha_contribution \<Rightarrow> int" where
  "contribution_sign r c =
     (let sign = (if at_net_side r = BUY then 1 else - 1)
      in if 0 \<le> ac_signed_quantity c then sign else - sign)"

definition build_legs ::
  "attribution_record \<Rightarrow> int list \<Rightarrow> decimal list \<Rightarrow> decimal \<Rightarrow> leg list" where
  "build_legs r allocs fees price =
     concat (map2 (\<lambda>(c, q) fee.
        if q = 0 then [] else [(ac_strategy c, at_symbol r, contribution_sign r c * q, price, fee)])
        (zip (at_contributions r) allocs) fees)"

definition allocate_fill ::
  "fill_ledger \<Rightarrow> string \<Rightarrow> int \<Rightarrow> decimal \<Rightarrow> decimal \<Rightarrow> bool \<Rightarrow> (leg list \<times> fill_ledger) result" where
  "allocate_fill F oid filled price total_fees is_final =
     (case map_of (fal_records F) oid of
        None \<Rightarrow> Inr ([], F)
      | Some r \<Rightarrow>
          if at_contributions r = [] then Inr ([], if is_final then fal_pop F oid else F)
          else
            let prev_cum = (case map_of (fal_cumulative F) oid of
                              Some c \<Rightarrow> c | None \<Rightarrow> replicate (length (at_contributions r)) 0)
            in bind_result
                 (largest_remainder_split (sum_list prev_cum + filled) (map ac_proportion (at_contributions r)))
                 (\<lambda>new_cum.
                    if length new_cum \<noteq> length prev_cum then Inl (ValueError ''zip'')
                    else
                      let allocations = map2 (\<lambda>n p. n - p) new_cum prev_cum
                      in bind_result (split_fees total_fees allocations)
                           (\<lambda>fees. Inr (build_legs r allocations fees price,
                              if is_final then fal_pop F oid
                              else F\<lparr>fal_cumulative := dict_set oid new_cum (fal_cumulative F)\<rparr>))))"

subsection \<open>Handing out the leftover units\<close>

lemma hand_out_ok:
  assumes "d \<le> length idx" "distinct idx" "set idx \<subseteq> {..<length floors}"
  shows "hand_out idx d floors
    = Inr (map (\<lambda>i. floors ! i + (if i \<in> set (take d idx) then 1 else 0)) [0..<length floors])"
  using assms
proof (induction idx d floors rule: hand_out.induct)
  case (1 idx floors)
  then show ?case by (simp add: map_nth)
next
  case (3 i idx d floors)
  have "i < length floors" "i \<notin> set (take d idx)"
    using 3 by (auto dest: in_set_takeD)
  then show ?case using 3 by (auto simp: nth_list_update)
qed simp

lemma sum_list_indicator:
  assumes "distinct js" "set js \<subseteq> {..<n}"
  shows "sum_list (map (\<lambda>i. f i + (if i \<in> set js then 1 else 0)) [0..<n])
    = sum_list (map f [0..<n]) + int (length js)"
proof -
  have "sum_list (map (\<lambda>i. if i \<in> set js then 1 else 0) [0..<n]) = (\<Sum>i<n. if i \<in> set js then 1 else (0::int))"
    by (simp add: interv_sum_list_conv_sum_set_nat atLeast0LessThan)
  also have "\<dots> = int (card (set js))"
    using assms(2) by (simp add: sum.If_cases Int_absorb1)
  finally show ?thesis using distinct_card[OF assms(1)] by (simp add: sum_list_map_add)
qed

definition floors_of :: "int \<Rightarrow> float64 list \<Rightarrow> int list" where
  "floors_of tot ws = map int_trunc (exact_shares tot ws (fsum (map abs ws)))"

definition leftover_order :: "int \<Rightarrow> float64 list \<Rightarrow> nat list" where
  "leftover_order tot ws = sort_key (\<lambda>i. - (map2 (\<lambda>e f. fl_sub e (fl_round (of_int f)))
     (exact_shares tot ws (fsum (map abs ws))) (floors_of tot ws) ! i)) [0..<length ws]"

text \<open>When the leftover is between zero and one unit per weight, the split succeeds, its sum is
  the total, and every entry is its floor or, for the first weights of the leftover order,
  one more.\<close>

lemma split_run:
  assumes "ws \<noteq> []" "0 < fsum (map abs ws)"
    and "sum_list (floors_of tot ws) \<le> tot" "tot - sum_list (floors_of tot ws) \<le> int (length ws)"
  shows "largest_remainder_split tot ws = Inr (map (\<lambda>i. floors_of tot ws ! i
      + (if i \<in> set (take (nat (tot - sum_list (floors_of tot ws))) (leftover_order tot ws)) then 1 else 0)) [0..<length ws])"
proof -
  let ?d = "nat (tot - sum_list (floors_of tot ws))"
  have len: "length (floors_of tot ws) = length ws" by (simp add: floors_of_def exact_shares_def)
  have idx: "distinct (leftover_order tot ws)" "set (leftover_order tot ws) \<subseteq> {..<length (floors_of tot ws)}"
    by (auto simp: leftover_order_def len)
  have d: "?d \<le> length (leftover_order tot ws)"
    using assms(3,4) by (simp add: leftover_order_def)
  have "largest_remainder_split tot ws = hand_out (leftover_order tot ws) ?d (floors_of tot ws)"
    using assms(1,2) by (simp add: largest_remainder_split_def Let_def floors_of_def leftover_order_def)
  then show ?thesis using hand_out_ok[OF d idx] len by simp
qed

lemma split_from_deficit:
  assumes "ws \<noteq> []" "0 < fsum (map abs ws)"
    and "sum_list (floors_of tot ws) \<le> tot" "tot - sum_list (floors_of tot ws) \<le> int (length ws)"
  obtains xs where "largest_remainder_split tot ws = Inr xs" "length xs = length ws" "sum_list xs = tot"
    "\<forall>i < length ws. xs ! i = floors_of tot ws ! i
      + (if i \<in> set (take (nat (tot - sum_list (floors_of tot ws))) (leftover_order tot ws)) then 1 else 0)"
proof -
  let ?d = "nat (tot - sum_list (floors_of tot ws))" and ?idx = "leftover_order tot ws"
  have len: "length (floors_of tot ws) = length ws" by (simp add: floors_of_def exact_shares_def)
  have idx: "distinct ?idx" "set ?idx = {..<length ws}" "length ?idx = length ws"
    by (simp_all add: leftover_order_def lessThan_atLeast0)
  let ?xs = "map (\<lambda>i. floors_of tot ws ! i + (if i \<in> set (take ?d ?idx) then 1 else 0)) [0..<length ws]"
  have "sum_list ?xs = sum_list (map ((!) (floors_of tot ws)) [0..<length ws]) + int (length (take ?d ?idx))"
    using idx by (intro sum_list_indicator) (auto dest: in_set_takeD)
  moreover have "int (length (take ?d ?idx)) = tot - sum_list (floors_of tot ws)"
    using assms(3,4) by (simp add: idx(3))
  ultimately have "sum_list ?xs = tot"
    using len map_nth[of "floors_of tot ws"] by simp
  then show thesis using that[of ?xs] split_run[OF assms] by simp
qed

lemma even_split_ok:
  assumes "0 < n"
  shows "length (even_split tot n) = n" "sum_list (even_split tot n) = tot"
proof -
  define r where "r = nat (tot - tot div int n * int n)"
  have mod: "tot - tot div int n * int n = tot mod int n" by (simp add: minus_div_mult_eq_mod)
  have r: "r \<le> n" "int r = tot mod int n"
    using assms less_imp_le[OF pos_mod_bound[of "int n" tot]] by (simp_all add: r_def mod nat_le_iff)
  have "even_split tot n = map (\<lambda>i. tot div int n + (if i \<in> set [0..<r] then 1 else 0)) [0..<n]"
    using r by (auto simp: even_split_def Let_def mod)
  moreover have "sum_list (map (\<lambda>i. tot div int n + (if i \<in> set [0..<r] then 1 else 0)) [0..<n])
      = sum_list (map (\<lambda>i. tot div int n) [0..<n]) + int (length [0..<r])"
    using r by (intro sum_list_indicator) auto
  moreover have "sum_list (map (\<lambda>i. tot div int n) [0..<n]) = int n * (tot div int n)"
    by (simp add: map_replicate_const sum_list_replicate)
  ultimately show "length (even_split tot n) = n" "sum_list (even_split tot n) = tot"
    using r(2) by simp_all
qed

subsection \<open>Float weights: bounds on the exact shares\<close>

text \<open>The three roundings of one share (product, weight sum, quotient) change it by less than
  four units in the 53rd binary place.\<close>

lemma share_error:
  assumes "0 \<le> tot" "tot < 2 ^ 53" "0 \<le> w" "0 < W"
  defines "share \<equiv> of_int tot * w / W"
  shows "share * (1 - 4 / 2 ^ 53) \<le> fl_div (fl_mul (fl_round (of_int tot)) w) (fl_round W)"
    and "fl_div (fl_mul (fl_round (of_int tot)) w) (fl_round W) \<le> share * (1 + 4 / 2 ^ 53)"
proof -
  define p where "p = of_int tot * w"
  define a where "a = fl_round p / fl_round W"
  have p0: "0 \<le> p" using assms by (simp add: p_def)
  have W0: "0 < fl_round W" using assms(4) by (simp add: round_sig_pos)
  have run: "fl_div (fl_mul (fl_round (of_int tot)) w) (fl_round W) = fl_round a"
    using assms(1,2) by (simp add: fl_div_def fl_mul_def fl_of_int_exact a_def p_def)
  have P: "p * (1 - 1 / 2 ^ 53) \<le> fl_round p" "fl_round p \<le> p * (1 + 1 / 2 ^ 53)"
    by (rule fl_bounds[OF p0])+
  have Wb: "W * (1 - 1 / 2 ^ 53) \<le> fl_round W" "fl_round W \<le> W * (1 + 1 / 2 ^ 53)"
    by (rule fl_bounds[OF less_imp_le[OF assms(4)]])+
  have fp0: "0 \<le> fl_round p" by (rule order_trans[OF mult_nonneg_nonneg P(1)]) (use p0 in simp_all)
  have a0: "0 \<le> a" using fp0 W0 by (simp add: a_def)
  have A: "a * (1 - 1 / 2 ^ 53) \<le> fl_round a" "fl_round a \<le> a * (1 + 1 / 2 ^ 53)"
    by (rule fl_bounds[OF a0])+
  have "a \<le> p * (1 + 1 / 2 ^ 53) / (W * (1 - 1 / 2 ^ 53))"
    unfolding a_def using P(2) Wb(1) assms(4) fp0 by (intro frac_le) simp_all
  also have "\<dots> = share * ((1 + 1 / 2 ^ 53) / (1 - 1 / 2 ^ 53))"
    by (simp add: share_def p_def)
  finally have up: "a \<le> share * ((1 + 1 / 2 ^ 53) / (1 - 1 / 2 ^ 53))" .
  have "share * ((1 - 1 / 2 ^ 53) / (1 + 1 / 2 ^ 53)) = p * (1 - 1 / 2 ^ 53) / (W * (1 + 1 / 2 ^ 53))"
    by (simp add: share_def p_def)
  also have "\<dots> \<le> a"
    unfolding a_def using P(1) Wb(2) W0 p0 fp0 by (intro frac_le) simp_all
  finally have low: "share * ((1 - 1 / 2 ^ 53) / (1 + 1 / 2 ^ 53)) \<le> a" .
  have s0: "0 \<le> share" using assms by (simp add: share_def)
  have "fl_round a \<le> share * ((1 + 1 / 2 ^ 53) / (1 - 1 / 2 ^ 53)) * (1 + 1 / 2 ^ 53)"
    using A(2) mult_right_mono[OF up, of "1 + 1 / 2 ^ 53"] by simp
  also have "\<dots> = share * ((1 + 1 / 2 ^ 53) / (1 - 1 / 2 ^ 53) * (1 + 1 / 2 ^ 53))" by (simp only: mult.assoc)
  also have "\<dots> \<le> share * (1 + 4 / 2 ^ 53)" by (rule mult_left_mono[OF _ s0]) simp
  finally show "fl_div (fl_mul (fl_round (of_int tot)) w) (fl_round W) \<le> share * (1 + 4 / 2 ^ 53)"
    by (simp only: run)
  have "share * (1 - 4 / 2 ^ 53) \<le> share * ((1 - 1 / 2 ^ 53) / (1 + 1 / 2 ^ 53) * (1 - 1 / 2 ^ 53))"
    by (rule mult_left_mono[OF _ s0]) simp
  also have "\<dots> = share * ((1 - 1 / 2 ^ 53) / (1 + 1 / 2 ^ 53)) * (1 - 1 / 2 ^ 53)" by (simp only: mult.assoc)
  also have "\<dots> \<le> fl_round a"
    using A(1) mult_right_mono[OF low, of "1 - 1 / 2 ^ 53"] by simp
  finally show "share * (1 - 4 / 2 ^ 53) \<le> fl_div (fl_mul (fl_round (of_int tot)) w) (fl_round W)"
    by (simp only: run)
qed

lemma floor_sums:
  assumes "\<forall>x \<in> set xs. (0::rat) \<le> x"
  shows "of_int (sum_list (map int_trunc xs)) \<le> sum_list xs
    \<and> sum_list xs - of_nat (length xs) \<le> of_int (sum_list (map int_trunc xs))"
  using assms
proof (induction xs)
  case (Cons x xs)
  have f: "of_int \<lfloor>x\<rfloor> \<le> x" "x - 1 \<le> of_int \<lfloor>x\<rfloor>" by linarith+
  have i: "of_int (sum_list (map int_trunc (x # xs))) = (of_int \<lfloor>x\<rfloor> + of_int (sum_list (map int_trunc xs)) :: rat)"
    using Cons.prems by (simp add: int_trunc_def)
  have n: "(of_nat (length (x # xs)) :: rat) = 1 + of_nat (length xs)" by simp
  have ih: "of_int (sum_list (map int_trunc xs)) \<le> sum_list xs"
    "sum_list xs - of_nat (length xs) \<le> of_int (sum_list (map int_trunc xs))"
    using Cons by simp_all
  show ?case using ih f unfolding i n sum_list.Cons by linarith
qed simp

definition weight_total :: "float64 list \<Rightarrow> rat" where
  "weight_total ws = (\<Sum>w\<leftarrow>ws. \<bar>w\<bar>)"

lemma fsum_weights: "fsum (map abs ws) = fl_round (weight_total ws)"
  by (simp add: fsum_def weight_total_def)

lemma weight_total_nonneg: "0 \<le> weight_total ws"
  unfolding weight_total_def by (induction ws) auto

lemma exact_shares_bounds:
  assumes "0 \<le> tot" "tot < 2 ^ 53" "0 < weight_total ws" "i < length ws"
  shows "of_int tot * \<bar>ws ! i\<bar> / weight_total ws * (1 - 4 / 2 ^ 53) \<le> exact_shares tot ws (fsum (map abs ws)) ! i"
    and "exact_shares tot ws (fsum (map abs ws)) ! i \<le> of_int tot * \<bar>ws ! i\<bar> / weight_total ws * (1 + 4 / 2 ^ 53)"
    and "0 \<le> exact_shares tot ws (fsum (map abs ws)) ! i"
proof -
  show low: "of_int tot * \<bar>ws ! i\<bar> / weight_total ws * (1 - 4 / 2 ^ 53) \<le> exact_shares tot ws (fsum (map abs ws)) ! i"
    and "exact_shares tot ws (fsum (map abs ws)) ! i \<le> of_int tot * \<bar>ws ! i\<bar> / weight_total ws * (1 + 4 / 2 ^ 53)"
    using share_error[OF assms(1,2) abs_ge_zero assms(3), of "ws ! i"] assms(4)
    by (simp_all only: exact_shares_def fsum_weights nth_map)
  have "0 \<le> of_int tot * \<bar>ws ! i\<bar> / weight_total ws * (1 - 4 / 2 ^ 53)"
    using assms by simp
  then show "0 \<le> exact_shares tot ws (fsum (map abs ws)) ! i" using low by (rule order_trans)
qed

lemma shares_sum:
  assumes "0 < weight_total ws"
  shows "(\<Sum>w\<leftarrow>ws. of_int tot * \<bar>w\<bar> / weight_total ws * c) = of_int tot * c"
proof -
  have "(\<Sum>w\<leftarrow>ws. of_int tot * \<bar>w\<bar> / weight_total ws * c) = (\<Sum>w\<leftarrow>ws. (of_int tot * c / weight_total ws) * \<bar>w\<bar>)"
    by (simp add: mult.commute mult.left_commute)
  also have "\<dots> = of_int tot * c / weight_total ws * weight_total ws"
    by (simp only: sum_list_const_mult weight_total_def)
  finally show ?thesis using assms by simp
qed

lemma deficit_bounds:
  assumes "0 \<le> tot" "tot \<le> 2 ^ 48" "0 < weight_total ws"
  shows "sum_list (floors_of tot ws) \<le> tot" "tot - sum_list (floors_of tot ws) \<le> int (length ws)"
proof -
  let ?e = "exact_shares tot ws (fsum (map abs ws))"
  have t53: "tot < 2 ^ 53" using assms(2) by simp
  have len: "length ?e = length ws" by (simp add: exact_shares_def)
  note b = exact_shares_bounds[OF assms(1) t53 assms(3)]
  have nonneg: "\<forall>x \<in> set ?e. 0 \<le> x" using b(3) len by (auto simp: in_set_conv_nth)
  have "sum_list ?e \<le> (\<Sum>w\<leftarrow>ws. of_int tot * \<bar>w\<bar> / weight_total ws * (1 + 4 / 2 ^ 53))"
    by (rule sum_list_mono2) (use b(2) len in simp_all)
  then have up: "sum_list ?e \<le> of_int tot * (1 + 4 / 2 ^ 53)" unfolding shares_sum[OF assms(3)] .
  have "(\<Sum>w\<leftarrow>ws. of_int tot * \<bar>w\<bar> / weight_total ws * (1 - 4 / 2 ^ 53)) \<le> sum_list ?e"
    by (rule sum_list_mono2) (use b(1) len in simp_all)
  then have low: "of_int tot * (1 - 4 / 2 ^ 53) \<le> sum_list ?e" unfolding shares_sum[OF assms(3)] .
  have t: "(of_int tot :: rat) \<le> 2 ^ 48" using assms(2) by (metis of_int_le_iff of_int_numeral of_int_power)
  have "(of_int (sum_list (floors_of tot ws)) :: rat) < of_int tot + 1"
    using floor_sums[OF nonneg] up t by (simp add: floors_of_def field_simps)
  then have "(of_int (sum_list (floors_of tot ws)) :: rat) < of_int (tot + 1)" by simp
  then show "sum_list (floors_of tot ws) \<le> tot" by (simp only: of_int_less_iff)
  have "(of_int tot :: rat) - of_nat (length ws) - 1 < of_int (sum_list (floors_of tot ws))"
    using floor_sums[OF nonneg] low t by (simp add: floors_of_def len field_simps)
  then have "(of_int (tot - int (length ws) - 1) :: rat) < of_int (sum_list (floors_of tot ws))" by simp
  then have "tot - int (length ws) - 1 < sum_list (floors_of tot ws)" by (simp only: of_int_less_iff)
  then show "tot - sum_list (floors_of tot ws) \<le> int (length ws)" by simp
qed

lemma largest_remainder_split_bounds:
  assumes "0 \<le> tot" "tot \<le> 2 ^ 48" "ws \<noteq> []"
  shows "\<exists>xs. largest_remainder_split tot ws = Inr xs \<and> length xs = length ws \<and> sum_list xs = tot
    \<and> (\<forall>x \<in> set xs. 0 \<le> x)
    \<and> (0 < weight_total ws \<longrightarrow> (\<forall>i < length ws.
         \<bar>of_int (xs ! i) - of_int tot * \<bar>ws ! i\<bar> / weight_total ws\<bar> \<le> 1 + of_int tot * 4 / 2 ^ 53))"
proof (cases "weight_total ws = 0")
  case True
  have "largest_remainder_split tot ws = Inr (even_split tot (length ws))"
    using assms(3) True by (simp add: largest_remainder_split_def Let_def fsum_weights)
  moreover have "0 < length ws" using assms(3) by simp
  moreover have "\<forall>x \<in> set (even_split tot (length ws)). 0 \<le> x"
    using assms(1,3) by (auto simp: even_split_def Let_def pos_imp_zdiv_nonneg_iff)
  ultimately show ?thesis using even_split_ok[of "length ws" tot] True by auto
next
  case False
  then have W: "0 < weight_total ws" using weight_total_nonneg[of ws] by simp
  have f: "0 < fsum (map abs ws)" using W by (simp add: fsum_weights round_sig_pos)
  note def_b = deficit_bounds[OF assms(1,2) W]
  obtain xs where xs: "largest_remainder_split tot ws = Inr xs" "length xs = length ws" "sum_list xs = tot"
    "\<forall>i < length ws. floors_of tot ws ! i \<le> xs ! i \<and> xs ! i \<le> floors_of tot ws ! i + 1"
  proof (rule split_from_deficit[OF assms(3) f def_b])
    fix xs assume xs: "largest_remainder_split tot ws = Inr xs" "length xs = length ws" "sum_list xs = tot"
      "\<forall>i < length ws. xs ! i = floors_of tot ws ! i
        + (if i \<in> set (take (nat (tot - sum_list (floors_of tot ws))) (leftover_order tot ws)) then 1 else 0)"
    have "\<forall>i < length ws. floors_of tot ws ! i \<le> xs ! i \<and> xs ! i \<le> floors_of tot ws ! i + 1"
      using xs(4) by simp
    then show thesis by (rule that[OF xs(1-3)])
  qed
  have t53: "tot < 2 ^ 53" using assms(2) by simp
  have each: "0 \<le> xs ! i \<and> \<bar>of_int (xs ! i) - of_int tot * \<bar>ws ! i\<bar> / weight_total ws\<bar> \<le> 1 + of_int tot * 4 / 2 ^ 53"
    if i: "i < length ws" for i
  proof -
    let ?e = "exact_shares tot ws (fsum (map abs ws)) ! i" and ?s = "of_int tot * \<bar>ws ! i\<bar> / weight_total ws"
    note b = exact_shares_bounds[OF assms(1) t53 W i]
    have fl: "floors_of tot ws ! i = \<lfloor>?e\<rfloor>"
      using i b(3) by (simp add: floors_of_def exact_shares_def int_trunc_def)
    have r: "\<lfloor>?e\<rfloor> \<le> xs ! i" "xs ! i \<le> \<lfloor>?e\<rfloor> + 1" using xs(4) i fl by auto
    have "of_int \<lfloor>?e\<rfloor> \<le> (of_int (xs ! i) :: rat)" "(of_int (xs ! i) :: rat) \<le> of_int (\<lfloor>?e\<rfloor> + 1)"
      using r by (simp_all only: of_int_le_iff)
    then have d: "\<bar>of_int (xs ! i) - ?e\<bar> \<le> 1" by (simp add: abs_le_iff) linarith
    have "\<bar>ws ! i\<bar> \<le> weight_total ws"
      unfolding weight_total_def using i by (intro member_le_sum_list) auto
    then have "of_int tot * \<bar>ws ! i\<bar> \<le> of_int tot * weight_total ws"
      using assms(1) by (intro mult_left_mono) simp_all
    then have "?s \<le> of_int tot" using W by (simp add: pos_divide_le_eq)
    then have "\<bar>?e - ?s\<bar> \<le> of_int tot * 4 / 2 ^ 53"
    proof -
      have "?s * (4 / 2 ^ 53) \<le> of_int tot * (4 / 2 ^ 53)"
        using \<open>?s \<le> of_int tot\<close> by (rule mult_right_mono) simp
      moreover have "?s - ?s * (4 / 2 ^ 53) \<le> ?e" "?e \<le> ?s + ?s * (4 / 2 ^ 53)"
        using b(1,2) by (simp_all only: right_diff_distrib distrib_left mult_1_right)
      ultimately show ?thesis unfolding abs_le_iff times_divide_eq_right[symmetric] by linarith
    qed
    moreover have "0 \<le> \<lfloor>?e\<rfloor>" using b(3) by simp
    ultimately show ?thesis using d r by linarith
  qed
  then have "\<forall>x \<in> set xs. 0 \<le> x" using xs(2) by (auto simp: in_set_conv_nth)
  then show ?thesis using xs each by blast
qed

text \<open>C6: The largest-remainder split never loses or invents a share. For every list of
  float weights and a total between 0 and \<open>2 ^ 48\<close> the split returns (no index is out of
  range), with one entry per weight; the entries sum to the total exactly although every share
  is computed in binary floating point, none is negative, and each is within one share, plus the
  accumulated rounding, of its exact proportion.\<close>

theorem largest_remainder_split_exact:
  assumes "0 \<le> tot" "tot \<le> 2 ^ 48" "ws \<noteq> []"
  shows "\<exists>xs. largest_remainder_split tot ws = Inr xs \<and> length xs = length ws \<and> sum_list xs = tot
    \<and> (\<forall>x \<in> set xs. 0 \<le> x)
    \<and> (0 < weight_total ws \<longrightarrow> (\<forall>i < length ws.
         \<bar>of_int (xs ! i) - of_int tot * \<bar>ws ! i\<bar> / weight_total ws\<bar> \<le> 1 + of_int tot * 4 / 2 ^ 53))"
  using assms by (rule largest_remainder_split_bounds)

subsection \<open>Fees add up\<close>

lemma quantize_half_even:
  assumes "\<bar>x\<bar> * 10 ^ n + 1 < 10 ^ 28"
  obtains y where "quantize half_even n x = Inr y" "on_grid n y" "\<bar>y - x\<bar> * 10 ^ n \<le> 1 / 2"
proof -
  define c where "c = half_even (x * 10 ^ n)"
  have close: "\<bar>of_int c - x * 10 ^ n\<bar> \<le> 1 / 2" unfolding c_def by (rule half_even_close)
  moreover have "\<bar>x * 10 ^ n\<bar> = \<bar>x\<bar> * 10 ^ n" by (simp add: abs_mult)
  ultimately have "\<bar>(of_int c :: rat)\<bar> < 10 ^ 28" using assms by linarith
  then have "of_int \<bar>c\<bar> < (of_int (10 ^ 28) :: rat)" by simp
  then have "\<bar>c\<bar> < 10 ^ 28" by (simp only: of_int_less_iff)
  then have "quantize half_even n x = Inr (of_int c / 10 ^ n)" by (simp add: quantize_def c_def)
  moreover have "on_grid n (of_int c / 10 ^ n)" by (rule on_gridI[of _ _ c]) simp
  moreover have "\<bar>of_int c / 10 ^ n - x\<bar> * 10 ^ n = \<bar>(of_int c / 10 ^ n - x) * 10 ^ n\<bar>"
    by (simp add: abs_mult)
  then have "\<bar>of_int c / 10 ^ n - x\<bar> * 10 ^ n = \<bar>of_int c - x * 10 ^ n\<bar>"
    by (simp add: left_diff_distrib)
  ultimately show thesis using close that by simp
qed



text \<open>One share: it exists, lies on the cent grid and is no larger than the fee and half a cent.\<close>

lemma fee_share:
  assumes "on_grid k T" "2 \<le> k" "(\<bar>T\<bar> + 1) * of_int (ta + 2) * 10 ^ k < 10 ^ 28" "0 < a" "a \<le> ta"
  obtains y where "quantize half_even 2 (dec_div (dec_mul T (of_int a)) (of_int ta)) = Inr y"
    "on_grid k y" "\<bar>y\<bar> \<le> \<bar>T\<bar> + 1"
proof -
  have ta: "(1 :: rat) \<le> of_int ta" "(of_int a :: rat) \<le> of_int ta" "(0 :: rat) < of_int a" using assms(4,5) by simp_all
  have k: "(100 :: rat) \<le> 10 ^ k" using power_increasing[OF assms(2), of "10 :: rat"] by simp
  have "\<bar>T\<bar> * of_int a \<le> (\<bar>T\<bar> + 1) * of_int (ta + 2)" using ta by (intro mult_mono) simp_all
  then have "\<bar>T * of_int a\<bar> * 10 ^ k \<le> (\<bar>T\<bar> + 1) * of_int (ta + 2) * 10 ^ k"
    using ta by (intro mult_right_mono) (simp_all add: abs_mult)
  then have "\<bar>T * of_int a\<bar> * 10 ^ k < 10 ^ 28" using assms(3) by linarith
  then have prod: "dec_mul T (of_int a) = T * of_int a"
    unfolding dec_mul_def using assms(1) by (intro dec_round_grid[of k]) auto
  have "(\<bar>T\<bar> + 1) * 1 \<le> (\<bar>T\<bar> + 1) * of_int (ta + 2)" using ta by (intro mult_left_mono) simp_all
  then have T1: "(\<bar>T\<bar> + 1) * 10 ^ k < 10 ^ 28"
    using assms(3) mult_right_mono[of "\<bar>T\<bar> + 1" "(\<bar>T\<bar> + 1) * of_int (ta + 2)" "10 ^ k"] by simp
  then have "\<bar>T\<bar> * 10 ^ k < 10 ^ 28" using k by (simp add: distrib_right)
  then have T: "dec_round T = T" using assms(1) by (intro dec_round_grid[of k])
  define x where "x = dec_div (dec_mul T (of_int a)) (of_int ta)"
  have "\<bar>T * of_int a / of_int ta\<bar> \<le> \<bar>T\<bar>"
    using ta by (simp add: abs_mult pos_divide_le_eq mult_left_mono)
  moreover have "dec_round \<bar>T\<bar> = \<bar>T\<bar>" using T by (simp add: abs_if round_sig_minus)
  ultimately have x: "\<bar>x\<bar> \<le> \<bar>T\<bar>"
    unfolding x_def dec_div_def prod by (intro round_sig_abs_le) simp_all
  then have "\<bar>x\<bar> * 10 ^ 2 \<le> \<bar>T\<bar> * 10 ^ 2" by (rule mult_right_mono) simp
  moreover have "\<bar>T\<bar> * 10 ^ 2 + 1 \<le> (\<bar>T\<bar> + 1) * 10 ^ 2" by (simp add: distrib_right)
  moreover have "(\<bar>T\<bar> + 1) * 10 ^ 2 \<le> (\<bar>T\<bar> + 1) * 10 ^ k" using k by (intro mult_left_mono) simp_all
  ultimately have "\<bar>x\<bar> * 10 ^ 2 + 1 < 10 ^ 28" using T1 by linarith
  from quantize_half_even[OF this] obtain y where y: "quantize half_even 2 x = Inr y" "on_grid 2 y"
    "\<bar>y - x\<bar> * 10 ^ 2 \<le> 1 / 2" by blast
  have "\<bar>y - x\<bar> \<le> 1" using y(3) by simp
  then have "\<bar>y - x\<bar> + \<bar>x\<bar> \<le> 1 + \<bar>T\<bar>" using x by (rule add_mono)
  then have "\<bar>y\<bar> \<le> \<bar>T\<bar> + 1" using abs_triangle_ineq[of "y - x" x] by simp
  then show thesis using that y(1) on_grid_finer[OF y(2) assms(2)] by (simp add: x_def)
qed

definition fee_state_ok ::
  "nat \<Rightarrow> decimal \<Rightarrow> int \<Rightarrow> nat \<Rightarrow> int \<Rightarrow> decimal list \<times> decimal \<times> nat option \<Rightarrow> bool" where
  "fee_state_ok k T n idx m st = (case st of (out, remainder, last_nonzero) \<Rightarrow>
     int (length out) = n \<and> sum_list out + remainder = T \<and> on_grid k remainder
     \<and> (\<forall>x \<in> set out. on_grid k x \<and> \<bar>x\<bar> \<le> \<bar>T\<bar> + 1)
     \<and> (\<forall>i. idx \<le> i \<and> i < length out \<longrightarrow> out ! i = 0)
     \<and> \<bar>remainder\<bar> \<le> (\<bar>T\<bar> + 1) * of_int (m + 1)
     \<and> (case last_nonzero of None \<Rightarrow> m = 0 | Some i \<Rightarrow> i < length out))"

lemma sum_list_update_rat:
  fixes xs :: "rat list"
  shows "i < length xs \<Longrightarrow> sum_list (xs[i := y]) = sum_list xs - xs ! i + y"
  by (induction xs arbitrary: i) (auto simp: nth_Cons split: nat.splits)

lemma fee_state_step:
  assumes "fee_state_ok k T n idx m (out, r, l)" "int idx < n" "0 < a" "0 \<le> m"
    and y: "on_grid k y" "\<bar>y\<bar> \<le> \<bar>T\<bar> + 1"
    and bound: "(\<bar>T\<bar> + 1) * of_int (m + a + 1) * 10 ^ k < 10 ^ 28"
  shows "fee_state_ok k T n (Suc idx) (m + a) (out[idx := y], dec_sub r y, Some idx)"
proof -
  have r: "on_grid k r" "\<bar>r\<bar> \<le> (\<bar>T\<bar> + 1) * of_int (m + 1)" and idx: "idx < length out" "out ! idx = 0"
    and sum: "sum_list out + r = T"
    using assms(1,2) by (auto simp: fee_state_ok_def)
  have "(\<bar>T\<bar> + 1) * (of_int (m + 1) + 1) \<le> (\<bar>T\<bar> + 1) * of_int (m + a + 1)"
    using assms(3) by (intro mult_left_mono) simp_all
  moreover have "(\<bar>T\<bar> + 1) * (of_int (m + 1) + 1) = (\<bar>T\<bar> + 1) * of_int (m + 1) + (\<bar>T\<bar> + 1)"
    by (simp add: distrib_left)
  ultimately have size: "\<bar>r - y\<bar> \<le> (\<bar>T\<bar> + 1) * of_int (m + a + 1)"
    using abs_triangle_ineq4[of r y] r(2) y(2) by (simp only:)
  then have "\<bar>r - y\<bar> * 10 ^ k \<le> (\<bar>T\<bar> + 1) * of_int (m + a + 1) * 10 ^ k" by (rule mult_right_mono) simp
  then have "\<bar>r - y\<bar> * 10 ^ k < 10 ^ 28" using bound by (rule le_less_trans)
  then have exact: "dec_sub r y = r - y"
    unfolding dec_sub_def using r(1) y(1) by (intro dec_round_grid[of k]) auto
  show ?thesis
    using assms(1,3,4) idx sum r(1) y size
    by (auto simp: fee_state_ok_def exact sum_list_update_rat nth_list_update
        dest!: subsetD[OF set_update_subset_insert])
qed

lemma fee_loop_ok:
  assumes "on_grid k T" "2 \<le> k" "(\<bar>T\<bar> + 1) * of_int (ta + 2) * 10 ^ k < 10 ^ 28"
    and "fee_state_ok k T n idx m st" "int idx + int (length allocs) = n" "0 \<le> m"
    and "m + sum_list (filter (\<lambda>a. 0 < a) allocs) = ta"
  shows "\<exists>st'. fee_loop T ta idx allocs st = Inr st' \<and> fee_state_ok k T n (idx + length allocs) ta st'"
  using assms(4-)
proof (induction allocs arbitrary: idx m st)
  case Nil
  then show ?case by (cases st) auto
next
  case (Cons a allocs)
  obtain out r l where st: "st = (out, r, l)" by (metis prod_cases3)
  show ?case
  proof (cases "a \<le> 0")
    case True
    then have run: "fee_loop T ta idx (a # allocs) st = fee_loop T ta (Suc idx) allocs st" by (simp add: st)
    have "fee_state_ok k T n (Suc idx) m st" using Cons.prems(1) by (auto simp: st fee_state_ok_def)
    then show ?thesis using Cons.IH[of "Suc idx" m st] Cons.prems True by (simp add: run)
  next
    case False
    have nonneg: "0 \<le> sum_list (filter (\<lambda>a. 0 < a) allocs)" by (rule sum_list_nonneg_int) auto
    have m: "m + a \<le> ta" using Cons.prems(4) False nonneg by simp
    then obtain y where y: "quantize half_even 2 (dec_div (dec_mul T (of_int a)) (of_int ta)) = Inr y"
      "on_grid k y" "\<bar>y\<bar> \<le> \<bar>T\<bar> + 1"
      using fee_share[OF assms(1-3), of a] False Cons.prems(3) by auto
    have "(\<bar>T\<bar> + 1) * of_int (m + a + 1) * 10 ^ k \<le> (\<bar>T\<bar> + 1) * of_int (ta + 2) * 10 ^ k"
      using m by (intro mult_right_mono mult_left_mono) simp_all
    then have bound: "(\<bar>T\<bar> + 1) * of_int (m + a + 1) * 10 ^ k < 10 ^ 28" using assms(3) by linarith
    have "fee_state_ok k T n (Suc idx) (m + a) (out[idx := y], dec_sub r y, Some idx)"
      using Cons.prems False y by (intro fee_state_step[OF _ _ _ _ _ _ bound]) (simp_all add: st)
    then show ?thesis
      using Cons.IH[of "Suc idx" "m + a"] Cons.prems False y(1) by (simp add: st)
  qed
qed

text \<open>Fees reconcile to the cent. For a fee on a grid of at least two places whose digits
  fit the decimal context, and allocations of which some is positive, the shares exist and
  their sum is exactly the fee: what rounding each share to the cent loses goes to the last
  non-zero allocation.\<close>

theorem split_fees_sum_exact:
  assumes "on_grid k T" "2 \<le> k" "0 < sum_list (filter (\<lambda>a. 0 < a) allocs)"
    and "(\<bar>T\<bar> + 1) * of_int (sum_list (filter (\<lambda>a. 0 < a) allocs) + 2) * 10 ^ k < 10 ^ 28"
  shows "\<exists>fees. split_fees T allocs = Inr fees \<and> length fees = length allocs \<and> sum_list fees = T"
proof -
  let ?ta = "sum_list (filter (\<lambda>a. 0 < a) allocs)" and ?c = "\<bar>T\<bar> + 1"
  have init: "fee_state_ok k T (int (length allocs)) 0 0 (replicate (length allocs) 0, T, None)"
    using assms(1) by (simp add: fee_state_ok_def)
  obtain out r l where loop: "fee_loop T ?ta 0 allocs (replicate (length allocs) 0, T, None) = Inr (out, r, l)"
    and ok: "fee_state_ok k T (int (length allocs)) (length allocs) ?ta (out, r, l)"
    using fee_loop_ok[OF assms(1,2,4) init, of allocs] by auto
  obtain i where i: "l = Some i" "i < length out"
    using ok assms(3) by (auto simp: fee_state_ok_def split: option.splits)
  have out: "length out = length allocs" "sum_list out + r = T" "on_grid k r" "on_grid k (out ! i)"
    "\<bar>out ! i\<bar> \<le> ?c" "\<bar>r\<bar> \<le> ?c * of_int (?ta + 1)"
    using ok i by (auto simp: fee_state_ok_def)
  have "?c * of_int (?ta + 2) = ?c * of_int (?ta + 1) + ?c" by (simp add: distrib_left)
  then have "\<bar>out ! i + r\<bar> \<le> ?c * of_int (?ta + 2)"
    using abs_triangle_ineq[of "out ! i" r] out(5,6) by (simp only:)
  then have "\<bar>out ! i + r\<bar> * 10 ^ k \<le> ?c * of_int (?ta + 2) * 10 ^ k" by (rule mult_right_mono) simp
  then have "\<bar>out ! i + r\<bar> * 10 ^ k < 10 ^ 28" using assms(4) by (rule le_less_trans)
  then have exact: "dec_add (out ! i) r = out ! i + r"
    unfolding dec_add_def using out(3,4) by (intro dec_round_grid[of k]) auto
  have "sum_list (out[i := out ! i + r]) = T"
    using out(2) i(2) by (simp add: sum_list_update_rat)
  then show ?thesis
    using assms(3) loop out(1,2) i exact by (cases "r = 0") (simp_all add: split_fees_def Let_def)
qed

lemma split_fees_witness: "\<exists>fees. split_fees 1 [1, 0, 1, 1] = Inr fees \<and> sum_list fees = 1"
  using split_fees_sum_exact[of 2 1 "[1, 0, 1, 1]"] on_gridI[of 1 2 100] by auto

lemma largest_remainder_witness:
  "\<exists>xs. largest_remainder_split 100 [1/3, 1/3, 1/3] = Inr xs \<and> sum_list xs = 100"
  using largest_remainder_split_exact[of 100 "[1/3, 1/3, 1/3]"] by auto

subsection \<open>Partial fills add up to one fill\<close>

text \<open>The shares a strategy receives in a list of legs.\<close>

definition leg_sum :: "strategy \<Rightarrow> leg list \<Rightarrow> int" where
  "leg_sum sid legs = (\<Sum>(sid', s, q, p, f)\<leftarrow>legs. if sid' = sid then q else 0)"

lemma leg_sum_simps [simp]:
  "leg_sum sid [] = 0"
  "leg_sum sid (legs @ legs') = leg_sum sid legs + leg_sum sid legs'"
  by (simp_all add: leg_sum_def)

lemma leg_sum_build:
  assumes "length allocs = length cs" "length cs = length fees"
    and "distinct (map ac_strategy cs)" "i < length cs"
  shows "leg_sum (ac_strategy (cs ! i)) (concat (map2 (\<lambda>(c, q) fee.
        if q = 0 then [] else [(ac_strategy c, s, sg c * q, price, fee)]) (zip cs allocs) fees))
    = sg (cs ! i) * allocs ! i"
proof -
  have none: "leg_sum sid (concat (map2 (\<lambda>(c, q) fee.
        if q = 0 then [] else [(ac_strategy c, s, sg c * q, price, fee)]) (zip cs allocs) fees)) = 0"
    if "sid \<notin> ac_strategy ` set cs" "length allocs = length cs" "length cs = length fees" for sid cs allocs fees
    using that(2,3,1) by (induction allocs cs fees rule: list_induct3) (auto simp: leg_sum_def)
  show ?thesis using assms
  proof (induction allocs cs fees arbitrary: i rule: list_induct3)
    case (Cons a as c cs f fs)
    then show ?case
      using none[of "ac_strategy c" cs as fs] by (cases i) (auto simp: leg_sum_def)
  qed simp
qed

fun partial_fills :: "fill_ledger \<Rightarrow> string \<Rightarrow> (int \<times> decimal \<times> decimal) list \<Rightarrow> (leg list \<times> fill_ledger) result" where
  "partial_fills F oid [] = Inr ([], F)"
| "partial_fills F oid ((q, price, fee) # fs) =
     bind_result (allocate_fill F oid q price fee False)
       (\<lambda>(legs, F1). bind_result (partial_fills F1 oid fs) (\<lambda>(legs', F2). Inr (legs @ legs', F2)))"

definition fees_fit :: "nat \<Rightarrow> decimal \<Rightarrow> bool" where
  \<comment> \<open>at most \<open>k\<close> places, and small enough for exact splitting over up to \<open>2 ^ 48\<close> shares\<close>
  "fees_fit k fee \<longleftrightarrow> 2 \<le> k \<and> on_grid k fee \<and> (\<bar>fee\<bar> + 1) * of_int (2 ^ 48 + 2) * 10 ^ k < 10 ^ 28"

lemma split_fees_succeeds:
  assumes "fees_fit k fee" "sum_list (filter (\<lambda>a. 0 < a) allocs) \<le> 2 ^ 48"
  obtains fees where "split_fees fee allocs = Inr fees" "length fees = length allocs"
proof (cases "0 < sum_list (filter (\<lambda>a. 0 < a) allocs)")
  case True
  have "(\<bar>fee\<bar> + 1) * of_int (sum_list (filter (\<lambda>a. 0 < a) allocs) + 2) * 10 ^ k
      \<le> (\<bar>fee\<bar> + 1) * of_int (2 ^ 48 + 2) * 10 ^ k"
    using assms(2) by (intro mult_right_mono mult_left_mono) (simp_all only: of_int_le_iff, simp_all)
  then have "(\<bar>fee\<bar> + 1) * of_int (sum_list (filter (\<lambda>a. 0 < a) allocs) + 2) * 10 ^ k < 10 ^ 28"
    using assms(1) by (auto simp only: fees_fit_def intro: le_less_trans)
  then show thesis using split_fees_sum_exact[of k fee allocs] True assms(1) that by (auto simp: fees_fit_def)
next
  case False
  then show thesis using that by (simp add: split_fees_def Let_def)
qed

lemma positive_part_le:
  assumes "length ns = length ps" "\<forall>n \<in> set ns. 0 \<le> n" "\<forall>p \<in> set ps. (0::int) \<le> p"
  shows "sum_list (filter (\<lambda>a. 0 < a) (map2 (\<lambda>n p. n - p) ns ps)) \<le> sum_list ns"
  using assms
proof (induction ns ps rule: list_induct2)
  case (Cons n ns p ps)
  then show ?case by (cases "0 < n - p") auto
qed simp

lemma sum_list_map2_diff:
  "length ns = length ps \<Longrightarrow> sum_list (map2 (\<lambda>n p. n - p) ns ps) = sum_list ns - (sum_list ps :: int)"
  by (induction ns ps rule: list_induct2) auto

definition cumulative :: "fill_ledger \<Rightarrow> string \<Rightarrow> attribution_record \<Rightarrow> int list" where
  "cumulative F oid r = (case map_of (fal_cumulative F) oid of
     Some c \<Rightarrow> c | None \<Rightarrow> replicate (length (at_contributions r)) 0)"

lemma allocate_partial:
  assumes r: "map_of (fal_records F) oid = Some r" "at_contributions r \<noteq> []"
      "distinct (map ac_strategy (at_contributions r))"
    and cum: "length (cumulative F oid r) = length (at_contributions r)" "\<forall>p \<in> set (cumulative F oid r). 0 \<le> p"
    and q: "0 \<le> q" "sum_list (cumulative F oid r) + q \<le> 2 ^ 48"
    and fee: "fees_fit k fee"
  obtains legs F' where "allocate_fill F oid q price fee False = Inr (legs, F')"
    "fal_records F' = fal_records F"
    "length (cumulative F' oid r) = length (at_contributions r)" "\<forall>p \<in> set (cumulative F' oid r). 0 \<le> p"
    "sum_list (cumulative F' oid r) = sum_list (cumulative F oid r) + q"
    "largest_remainder_split (sum_list (cumulative F oid r) + q) (map ac_proportion (at_contributions r))
      = Inr (cumulative F' oid r)"
    "\<forall>i < length (at_contributions r). leg_sum (ac_strategy (at_contributions r ! i)) legs
      = contribution_sign r (at_contributions r ! i) * (cumulative F' oid r ! i - cumulative F oid r ! i)"
proof -
  let ?cs = "at_contributions r" and ?p = "cumulative F oid r"
  have "0 \<le> sum_list ?p" using cum(2) by (intro sum_list_nonneg_int) auto
  then obtain xs where xs: "largest_remainder_split (sum_list ?p + q) (map ac_proportion ?cs) = Inr xs"
    "length xs = length ?cs" "sum_list xs = sum_list ?p + q" "\<forall>x \<in> set xs. 0 \<le> x"
    using largest_remainder_split_bounds[of "sum_list ?p + q" "map ac_proportion ?cs"] q r(2) by auto
  let ?a = "map2 (\<lambda>n p. n - p) xs ?p"
  have "sum_list (filter (\<lambda>a. 0 < a) ?a) \<le> 2 ^ 48"
    using positive_part_le[of xs ?p] xs cum q by simp
  then obtain fees where fees: "split_fees fee ?a = Inr fees" "length fees = length ?a"
    using split_fees_succeeds[OF fee] by blast
  let ?F = "F\<lparr>fal_cumulative := dict_set oid xs (fal_cumulative F)\<rparr>"
  have run: "allocate_fill F oid q price fee False = Inr (build_legs r ?a fees price, ?F)"
    by (simp only: allocate_fill_def r option.simps Let_def cumulative_def[symmetric] xs(1,2) cum(1)
        bind_result_simps fees(1) if_False simp_thms)
  have new: "cumulative ?F oid r = xs" by (simp add: cumulative_def)
  have "leg_sum (ac_strategy (?cs ! i)) (build_legs r ?a fees price) = contribution_sign r (?cs ! i) * (xs ! i - ?p ! i)"
    if i: "i < length ?cs" for i
  proof -
    have len: "length ?a = length ?cs" "length ?cs = length fees" using xs(2) cum(1) fees(2) by simp_all
    have "?a ! i = xs ! i - ?p ! i" using i xs(2) cum(1) by simp
    then show ?thesis
      using leg_sum_build[OF len r(3) i, of "at_symbol r" "contribution_sign r" price]
      unfolding build_legs_def by (simp only:)
  qed
  then show thesis using that[OF run] new xs by simp
qed

lemma partial_fills_run:
  assumes r: "map_of (fal_records F) oid = Some r" "at_contributions r \<noteq> []"
      "distinct (map ac_strategy (at_contributions r))"
    and cum: "length (cumulative F oid r) = length (at_contributions r)" "\<forall>p \<in> set (cumulative F oid r). 0 \<le> p"
    and fs: "\<forall>(q, price, fee) \<in> set fs. 0 \<le> q \<and> fees_fit k fee"
      "sum_list (cumulative F oid r) + (\<Sum>x\<leftarrow>fs. fst x) \<le> 2 ^ 48"
    and start: "largest_remainder_split (sum_list (cumulative F oid r)) (map ac_proportion (at_contributions r))
      = Inr (cumulative F oid r) \<or> fs \<noteq> []"
  shows "\<exists>legs F'. partial_fills F oid fs = Inr (legs, F')
    \<and> largest_remainder_split (sum_list (cumulative F oid r) + (\<Sum>x\<leftarrow>fs. fst x))
        (map ac_proportion (at_contributions r)) = Inr (cumulative F' oid r)
    \<and> (\<forall>i < length (at_contributions r). leg_sum (ac_strategy (at_contributions r ! i)) legs
        = contribution_sign r (at_contributions r ! i) * (cumulative F' oid r ! i - cumulative F oid r ! i))"
  using assms
proof (induction fs arbitrary: F)
  case Nil
  then show ?case by simp
next
  case (Cons f fs)
  obtain q price fee where f: "f = (q, price, fee)" by (metis prod_cases3)
  have rest: "0 \<le> (\<Sum>x\<leftarrow>fs. fst x)"
    using Cons.prems(6) by (intro sum_list_nonneg_int) auto
  have q: "0 \<le> q" "sum_list (cumulative F oid r) + q \<le> 2 ^ 48" "fees_fit k fee"
    using Cons.prems(6,7) rest by (auto simp: f)
  obtain legs F1 where one: "allocate_fill F oid q price fee False = Inr (legs, F1)"
      "fal_records F1 = fal_records F"
      "length (cumulative F1 oid r) = length (at_contributions r)" "\<forall>p \<in> set (cumulative F1 oid r). 0 \<le> p"
      "sum_list (cumulative F1 oid r) = sum_list (cumulative F oid r) + q"
      "largest_remainder_split (sum_list (cumulative F oid r) + q) (map ac_proportion (at_contributions r))
        = Inr (cumulative F1 oid r)"
      "\<forall>i < length (at_contributions r). leg_sum (ac_strategy (at_contributions r ! i)) legs
        = contribution_sign r (at_contributions r ! i) * (cumulative F1 oid r ! i - cumulative F oid r ! i)"
    using allocate_partial[OF Cons.prems(1-5) q] by metis
  have "\<exists>legs' F2. partial_fills F1 oid fs = Inr (legs', F2)
    \<and> largest_remainder_split (sum_list (cumulative F1 oid r) + (\<Sum>x\<leftarrow>fs. fst x))
        (map ac_proportion (at_contributions r)) = Inr (cumulative F2 oid r)
    \<and> (\<forall>i < length (at_contributions r). leg_sum (ac_strategy (at_contributions r ! i)) legs'
        = contribution_sign r (at_contributions r ! i) * (cumulative F2 oid r ! i - cumulative F1 oid r ! i))"
    using Cons.prems(6,7) one(2-6)
    by (intro Cons.IH) (auto simp: Cons.prems(1-3) f)
  then obtain legs' F2 where two: "partial_fills F1 oid fs = Inr (legs', F2)"
      "largest_remainder_split (sum_list (cumulative F1 oid r) + (\<Sum>x\<leftarrow>fs. fst x))
        (map ac_proportion (at_contributions r)) = Inr (cumulative F2 oid r)"
      "\<forall>i < length (at_contributions r). leg_sum (ac_strategy (at_contributions r ! i)) legs'
        = contribution_sign r (at_contributions r ! i) * (cumulative F2 oid r ! i - cumulative F1 oid r ! i)"
    by blast
  have "partial_fills F oid (f # fs) = Inr (legs @ legs', F2)" by (simp add: f one(1) two(1))
  moreover have "\<forall>i < length (at_contributions r). leg_sum (ac_strategy (at_contributions r ! i)) (legs @ legs')
        = contribution_sign r (at_contributions r ! i) * (cumulative F2 oid r ! i - cumulative F oid r ! i)"
    using one(7) two(3) by (simp add: right_diff_distrib)
  moreover have "sum_list (cumulative F1 oid r) + (\<Sum>x\<leftarrow>fs. fst x)
      = sum_list (cumulative F oid r) + (\<Sum>x\<leftarrow>f # fs. fst x)"
    by (simp add: one(5) f)
  ultimately show ?case using two(2) by (auto simp: add.assoc)
qed

text \<open>Partial fills are order-neutral to attribution. For an order whose record was just
  made, any sequence of partial fills with non-negative quantities (together at most
  \<open>2 ^ 48\<close> shares) and fees that fit the decimal context is allocated without an exception, and
  what each strategy has received after the last one is what a single fill of the total would
  have given it.\<close>

theorem partial_fills_equal_one_fill:
  assumes r: "map_of (fal_records F) oid = Some r" "map_of (fal_cumulative F) oid = None"
      "at_contributions r \<noteq> []" "distinct (map ac_strategy (at_contributions r))"
    and fs: "fs \<noteq> []" "\<forall>(q, price, fee) \<in> set fs. 0 \<le> q \<and> fees_fit k fee" "(\<Sum>x\<leftarrow>fs. fst x) \<le> 2 ^ 48"
  shows "\<exists>legs F' xs. partial_fills F oid fs = Inr (legs, F')
    \<and> largest_remainder_split (\<Sum>x\<leftarrow>fs. fst x) (map ac_proportion (at_contributions r)) = Inr xs
    \<and> (\<forall>i < length (at_contributions r). leg_sum (ac_strategy (at_contributions r ! i)) legs
        = contribution_sign r (at_contributions r ! i) * xs ! i)"
proof -
  have c: "cumulative F oid r = replicate (length (at_contributions r)) 0"
    using r(2) by (simp add: cumulative_def)
  show ?thesis using partial_fills_run[OF r(1,3,4) _ _ fs(2)] fs(1,3) by (auto simp: c)
qed

definition sample_record :: attribution_record where
  "sample_record = \<lparr>at_order_id = ''o'', at_symbol = ''A'', at_net_side = SELL, at_net_quantity = 7,
     at_contributions = [\<lparr>ac_strategy = ''s'', ac_signed_quantity = 4, ac_proportion = 1/2\<rparr>,
                         \<lparr>ac_strategy = ''t'', ac_signed_quantity = 3, ac_proportion = 1/4\<rparr>]\<rparr>"

lemma partial_fills_witness:
  "\<exists>legs F' xs. partial_fills (fal_record fill_ledger_new sample_record) ''o'' [(2, 10, 1), (5, 11, 0)] = Inr (legs, F')
     \<and> largest_remainder_split 7 [1/2, 1/4] = Inr xs \<and> leg_sum ''s'' legs = - (xs ! 0)"
proof -
  have fit: "fees_fit 2 1" "fees_fit 2 0"
    using on_gridI[of 1 2 100] by (simp_all add: fees_fit_def)
  show ?thesis
    using partial_fills_equal_one_fill[of "fal_record fill_ledger_new sample_record" "''o''" sample_record
        "[(2, 10, 1), (5, 11, 0)]" 2] fit
    by (force simp: fal_record_def fill_ledger_new_def sample_record_def contribution_sign_def)
qed

text \<open>One partial fill can still book a strategy against its own side: with proportions 3:3:1 the
  third strategy holds two of the first ten shares and one of the first eleven.\<close>

lemma alabama_shares:
  "exact_shares 10 [3/8, 3/8, 1/8] (7/8)
    = [4825285315039817 / 1125899906842624, 4825285315039817 / 1125899906842624, 6433713753386423 / 4503599627370496]"
  "exact_shares 11 [3/8, 3/8, 1/8] (7/8)
    = [5307813846543799 / 1125899906842624, 5307813846543799 / 1125899906842624, 7077085128725065 / 4503599627370496]"
  "fsum [3/8, 3/8, 1/8] = 7/8" "fl_round 1 = 1" "fl_round 4 = 4"
  by code_simp+

lemma alabama_remainders:
  "fl_sub (4825285315039817 / 1125899906842624) 4 = 321685687669321 / 1125899906842624"
  "fl_sub (6433713753386423 / 4503599627370496) 1 = 1930114126015927 / 4503599627370496"
  "fl_sub (5307813846543799 / 1125899906842624) 4 = 804214219173303 / 1125899906842624"
  "fl_sub (7077085128725065 / 4503599627370496) 1 = 2573485501354569 / 4503599627370496"
  "int_trunc (4825285315039817 / 1125899906842624) = 4" "int_trunc (6433713753386423 / 4503599627370496) = 1"
  "int_trunc (5307813846543799 / 1125899906842624) = 4" "int_trunc (7077085128725065 / 4503599627370496) = 1"
  by code_simp+

lemma partial_fill_can_be_negative:
  "largest_remainder_split 10 [3/8, 3/8, 1/8] = Inr [4, 4, 2]"
  "largest_remainder_split 11 [3/8, 3/8, 1/8] = Inr [5, 5, 1]"
  unfolding largest_remainder_split_def Let_def
  by (simp_all add: alabama_shares alabama_remainders upt_conv_Cons)
    (simp add: numeral_2_eq_2)

end
