(* ===== verification/State_Machine.thy ===== *)
theory State_Machine
  imports Prelude
begin

section \<open>The generic state machine framework (core/state\_machine.py)\<close>

text \<open>
  A machine holds its name, its initial and current state, the frozen transition table,
  the audit history (unbounded, or a ring buffer of \<open>history_limit\<close> records) and the
  registered callbacks. The enum of states is a type of class \<open>enum\<close>, whose \<open>enum\<close> list is
  the member order. A record carries the enum members themselves where the code stores
  their names. A callback acts on the world \<open>'w\<close> outside the machine (the ledger, the bus)
  and may raise: it returns the changed world and the exception, since effects before the
  exception stay. The clock's reading is an argument. The wall-time sink is not modelled.
\<close>

record 's transition_record =
  tr_machine :: string
  tr_from :: 's
  tr_to :: 's
  tr_trigger :: string
  tr_timestamp :: ns
  tr_correlation :: string
  tr_metadata :: metadata

type_synonym ('s, 'w) callback = "'s transition_record \<Rightarrow> 'w \<Rightarrow> 'w \<times> exn option"

record ('s, 'w) machine =
  sm_name :: string
  sm_initial :: 's
  sm_state :: 's
  sm_transitions :: "'s \<Rightarrow> 's set option"
  sm_limit :: "nat option"
  sm_history :: "'s transition_record list"
  sm_callbacks :: "('s, 'w) callback list"

definition new_machine ::
  "string \<Rightarrow> 's::enum \<Rightarrow> ('s \<Rightarrow> 's set option) \<Rightarrow> int option \<Rightarrow> ('s, 'w) machine result" where
  "new_machine name init table limit =
     (if (case limit of Some l \<Rightarrow> l < 1 | None \<Rightarrow> False) then Inl (ValueError ''history_limit'')
      else if filter (\<lambda>m. table m = None) (enum_class.enum :: 's list) \<noteq> []
      then Inl (ValueError ''transition table incomplete'')
      else Inr \<lparr>sm_name = name, sm_initial = init, sm_state = init, sm_transitions = table,
                sm_limit = map_option nat limit, sm_history = [], sm_callbacks = []\<rparr>)"

definition on_transition :: "('s, 'w) callback \<Rightarrow> ('s, 'w) machine \<Rightarrow> ('s, 'w) machine" where
  "on_transition cb m = m\<lparr>sm_callbacks := sm_callbacks m @ [cb]\<rparr>"

definition can_transition :: "('s, 'w) machine \<Rightarrow> 's \<Rightarrow> bool" where
  "can_transition m target =
     (case sm_transitions m (sm_state m) of None \<Rightarrow> False | Some allowed \<Rightarrow> target \<in> allowed)"

fun run_callbacks :: "('s, 'w) callback list \<Rightarrow> 's transition_record \<Rightarrow> 'w \<Rightarrow> 'w \<times> exn option" where
  "run_callbacks [] r w = (w, None)"
| "run_callbacks (cb # cbs) r w =
     (case cb r w of (w', Some e) \<Rightarrow> (w', Some e) | (w', None) \<Rightarrow> run_callbacks cbs r w')"

definition commit :: "'s transition_record \<Rightarrow> 's \<Rightarrow> ('s, 'w) machine \<Rightarrow> ('s, 'w) machine" where
  "commit r target m =
     m\<lparr>sm_history := push_bounded (sm_limit m) r (sm_history m), sm_state := target\<rparr>"

definition new_record ::
  "('s, 'w) machine \<Rightarrow> 's \<Rightarrow> string \<Rightarrow> string \<Rightarrow> metadata \<Rightarrow> ns \<Rightarrow> 's transition_record" where
  "new_record m target trigger cid meta now =
     \<lparr>tr_machine = sm_name m, tr_from = sm_state m, tr_to = target, tr_trigger = trigger,
      tr_timestamp = now, tr_correlation = cid, tr_metadata = meta\<rparr>"

lemma new_record_simps [simp]:
  "tr_machine (new_record m t trigger cid meta now) = sm_name m"
  "tr_from (new_record m t trigger cid meta now) = sm_state m"
  "tr_to (new_record m t trigger cid meta now) = t"
  "tr_trigger (new_record m t trigger cid meta now) = trigger"
  "tr_timestamp (new_record m t trigger cid meta now) = now"
  "tr_correlation (new_record m t trigger cid meta now) = cid"
  "tr_metadata (new_record m t trigger cid meta now) = meta"
  by (simp_all add: new_record_def)

text \<open>Callbacks first; the history and the state pointer only move when none raised.\<close>

definition announce ::
  "('s, 'w) machine \<Rightarrow> 's transition_record \<Rightarrow> 'w
   \<Rightarrow> 's transition_record result \<times> ('s, 'w) machine \<times> 'w" where
  "announce m r w =
     (case run_callbacks (sm_callbacks m) r w of
        (w', Some e) \<Rightarrow> (Inl e, m, w')
      | (w', None) \<Rightarrow> (Inr r, commit r (tr_to r) m, w'))"

definition transition ::
  "('s, 'w) machine \<Rightarrow> 's \<Rightarrow> string \<Rightarrow> string \<Rightarrow> metadata option \<Rightarrow> ns \<Rightarrow> 'w
   \<Rightarrow> 's transition_record result \<times> ('s, 'w) machine \<times> 'w" where
  "transition m target trigger cid meta now w =
     (if \<not> can_transition m target then (Inl (IllegalTransition (sm_name m) trigger), m, w)
      else announce m (new_record m target trigger cid
             (case meta of Some d \<Rightarrow> d | None \<Rightarrow> []) now) w)"

definition sm_reset ::
  "('s, 'w) machine \<Rightarrow> string \<Rightarrow> string \<Rightarrow> ns \<Rightarrow> 'w
   \<Rightarrow> 's transition_record result \<times> ('s, 'w) machine \<times> 'w" where
  "sm_reset m trigger cid now w =
     announce m (new_record m (sm_initial m) trigger cid [(''type'', MStr ''reset'')] now) w"

definition assert_state :: "('s, 'w) machine \<Rightarrow> 's \<Rightarrow> unit result" where
  "assert_state m expected =
     (if sm_state m \<noteq> expected then Inl (AssertionError ''state'') else Inr ())"

lemmas machine_defs = new_record_def announce_def on_transition_def can_transition_def commit_def
  transition_def sm_reset_def assert_state_def push_bounded_def

subsection \<open>Runs of operations\<close>

datatype 's sm_op =
    Transition 's string string "metadata option" ns
  | Reset string string ns

fun sm_step :: "'s sm_op \<Rightarrow> ('s, 'w) machine \<times> 'w \<Rightarrow> ('s, 'w) machine \<times> 'w" where
  "sm_step (Transition t trig cid meta now) (m, w) = snd (transition m t trig cid meta now w)"
| "sm_step (Reset trig cid now) (m, w) = snd (sm_reset m trig cid now w)"

definition sm_run :: "'s sm_op list \<Rightarrow> ('s, 'w) machine \<times> 'w \<Rightarrow> ('s, 'w) machine \<times> 'w" where
  "sm_run ops mw = fold sm_step ops mw"

text \<open>One operation either leaves the machine alone or commits one record.\<close>

lemma announce_cases:
  "(\<exists>e w'. announce m r w = (Inl e, m, w'))
   \<or> (\<exists>w'. announce m r w = (Inr r, commit r (tr_to r) m, w'))"
  unfolding announce_def
  by (cases "run_callbacks (sm_callbacks m) r w"; cases "snd (run_callbacks (sm_callbacks m) r w)")
    auto

lemma commit_simps [simp]:
  "sm_name (commit r t m) = sm_name m"
  "sm_initial (commit r t m) = sm_initial m"
  "sm_state (commit r t m) = t"
  "sm_transitions (commit r t m) = sm_transitions m"
  "sm_limit (commit r t m) = sm_limit m"
  "sm_history (commit r t m) = push_bounded (sm_limit m) r (sm_history m)"
  "sm_callbacks (commit r t m) = sm_callbacks m"
  by (simp_all add: commit_def)

text \<open>The table's edges, and what is reachable along them.\<close>

definition edge :: "('s \<Rightarrow> 's set option) \<Rightarrow> 's \<Rightarrow> 's \<Rightarrow> bool" where
  "edge table s t \<longleftrightarrow> (\<exists>A. table s = Some A \<and> t \<in> A)"

lemma can_transition_edge: "can_transition m t \<longleftrightarrow> edge (sm_transitions m) (sm_state m) t"
  by (auto simp: can_transition_def edge_def split: option.splits)

definition legal_record :: "('s, 'w) machine \<Rightarrow> 's transition_record \<Rightarrow> bool" where
  "legal_record m r \<longleftrightarrow> tr_machine r = sm_name m \<and>
     (edge (sm_transitions m) (tr_from r) (tr_to r)
      \<or> (tr_to r = sm_initial m \<and> tr_metadata r = [(''type'', MStr ''reset'')]))"

definition chained :: "'s transition_record list \<Rightarrow> bool" where
  "chained h \<longleftrightarrow> (\<forall>i. Suc i < length h \<longrightarrow> tr_to (h ! i) = tr_from (h ! Suc i))"

text \<open>The audit trail: every record is a table edge or a reset, consecutive records meet,
  the last record ends in the current state, and a ring buffer keeps its bound.\<close>

definition audit_ok :: "('s, 'w) machine \<Rightarrow> bool" where
  "audit_ok m \<longleftrightarrow>
     list_all (legal_record m) (sm_history m) \<and> chained (sm_history m)
     \<and> (sm_history m \<noteq> [] \<longrightarrow> tr_to (last (sm_history m)) = sm_state m)
     \<and> (case sm_limit m of None \<Rightarrow> True | Some n \<Rightarrow> 0 < n \<and> length (sm_history m) \<le> n)"

lemma chained_drop: "chained h \<Longrightarrow> chained (drop k h)"
  by (auto simp: chained_def)

lemma chained_snoc:
  "chained h \<Longrightarrow> (h \<noteq> [] \<longrightarrow> tr_to (last h) = tr_from r) \<Longrightarrow> chained (h @ [r])"
  by (cases "h = []")
    (auto simp: chained_def nth_append last_conv_nth less_Suc_eq dest!: sym [of "Suc _"])

lemma push_bounded_drop: "\<exists>k. push_bounded mx r h = drop k (h @ [r])"
  by (cases mx) (auto simp: push_bounded_def simp del: drop_append intro: exI [of _ 0])

lemma legal_record_commit [simp]: "legal_record (commit r t m) = legal_record m"
  by (auto simp: legal_record_def fun_eq_iff)

lemma audit_ok_commit:
  assumes m: "audit_ok m" and r: "legal_record m r" "tr_from r = sm_state m" "tr_to r = t"
  shows "audit_ok (commit r t m)"
proof -
  define h where "h = sm_history m @ [r]"
  obtain k where k: "push_bounded (sm_limit m) r (sm_history m) = drop k h"
    using push_bounded_drop [of "sm_limit m" r "sm_history m"] unfolding h_def by blast
  have "list_all (legal_record m) h" "chained h"
    using m r by (auto simp: audit_ok_def h_def intro!: chained_snoc)
  then have "list_all (legal_record m) (drop k h)" "chained (drop k h)"
    by (auto simp: chained_drop list_all_iff dest: in_set_dropD)
  moreover have "sm_limit m \<noteq> Some 0" using m by (auto simp: audit_ok_def)
  ultimately show ?thesis
    using m r push_bounded_last [of "sm_limit m" r "sm_history m"]
      push_bounded_length [of "sm_limit m" _ r "sm_history m"]
    by (auto simp: audit_ok_def k split: option.splits)
qed

lemma audit_ok_announce:
  "audit_ok m \<Longrightarrow> legal_record m r \<Longrightarrow> tr_from r = sm_state m \<Longrightarrow>
   audit_ok (fst (snd (announce m r w)))"
  using announce_cases [of m r w] by (auto intro!: audit_ok_commit)

lemma audit_ok_step: "audit_ok m \<Longrightarrow> audit_ok (fst (sm_step op (m, w)))"
  by (cases op)
    (auto simp: transition_def sm_reset_def can_transition_edge legal_record_def
      intro!: audit_ok_announce)

lemma sm_run_Nil [simp]: "sm_run [] mw = mw"
  by (simp add: sm_run_def)

lemma sm_run_Cons [simp]: "sm_run (op # ops) mw = sm_run ops (sm_step op mw)"
  by (simp add: sm_run_def)

lemma audit_ok_run: "audit_ok (fst mw) \<Longrightarrow> audit_ok (fst (sm_run ops mw))"
proof (induction ops arbitrary: mw)
  case (Cons op ops)
  then show ?case using audit_ok_step [of "fst mw" op "snd mw"] by simp
qed simp

lemma new_machine_Inr_iff:
  "new_machine name init table limit = Inr m \<longleftrightarrow>
     (case limit of Some l \<Rightarrow> 1 \<le> l | None \<Rightarrow> True) \<and> (\<forall>s. table s \<noteq> None) \<and>
     m = \<lparr>sm_name = name, sm_initial = init, sm_state = init, sm_transitions = table,
          sm_limit = map_option nat limit, sm_history = [], sm_callbacks = []\<rparr>"
  by (auto simp: new_machine_def filter_empty_conv UNIV_enum [symmetric] not_less
      split: option.splits if_splits)

subsection \<open>Properties\<close>

text \<open>a transition request either raises and leaves the machine exactly as it was, or
  returns the record of a table edge from the old state to the requested one, and the
  machine is then in that state with the record as the newest of its history.\<close>

theorem transition_commits_or_changes_nothing:
  assumes "sm_limit m \<noteq> Some 0"
  shows "case transition m t trig cid meta now w of (res, m', w') \<Rightarrow>
     (case res of
        Inl e \<Rightarrow> m' = m
      | Inr r \<Rightarrow> edge (sm_transitions m) (sm_state m) t \<and> tr_from r = sm_state m \<and> tr_to r = t
          \<and> sm_state m' = t \<and> sm_history m' \<noteq> [] \<and> last (sm_history m') = r
          \<and> sm_transitions m' = sm_transitions m)"
proof (cases "can_transition m t")
  case True
  then show ?thesis
    using announce_cases [of m "new_record m t trig cid (case meta of Some d \<Rightarrow> d | None \<Rightarrow> []) now" w]
    by (auto simp: transition_def can_transition_edge push_bounded_last [OF assms])
qed (simp add: transition_def)

definition example_machine :: "(bool, nat) machine" where
  "example_machine =
     \<lparr>sm_name = ''m'', sm_initial = False, sm_state = False,
      sm_transitions = (\<lambda>s. if s then Some {} else Some {True}), sm_limit = Some 2,
      sm_history = [], sm_callbacks = [\<lambda>r w. (Suc w, if w = 5 then Some IndexError else None)]\<rparr>"

theorem transition_commits_witness:
  "(case transition example_machine True ''t'' ''c'' None 7 0 of (res, m', w') \<Rightarrow>
      sm_state m' = True \<and> w' = 1)
   \<and> (case transition example_machine True ''t'' ''c'' None 7 5 of (res, m', w') \<Rightarrow>
      res = Inl IndexError \<and> m' = example_machine \<and> w' = 6)"
  using transition_commits_or_changes_nothing [of example_machine True "''t''" "''c''" None 7 0]
    transition_commits_or_changes_nothing [of example_machine True "''t''" "''c''" None 7 5]
  by (simp add: example_machine_def machine_defs)

text \<open>the audit trail of every machine the constructor accepts: after any sequence of
  transition requests and resets, with callbacks that may raise, every kept record is a table
  edge or a reset, consecutive records meet, the newest ends in the current state, and a ring
  buffer never exceeds its bound.\<close>

theorem audit_trail_ok:
  assumes "new_machine name init table limit = Inr m"
  shows "audit_ok (fst (sm_run ops (m\<lparr>sm_callbacks := cbs\<rparr>, w)))"
proof -
  have "audit_ok (m\<lparr>sm_callbacks := cbs\<rparr>)"
    using assms by (auto simp: new_machine_Inr_iff audit_ok_def chained_def split: option.splits)
  then show ?thesis by (intro audit_ok_run) simp
qed

theorem audit_trail_witness:
  "\<exists>m :: (bool, nat) machine.
     new_machine ''m'' False (\<lambda>s. Some {\<not> s}) (Some 1) = Inr m
     \<and> audit_ok (fst (sm_run [Transition True ''a'' ''c'' None 1, Transition False ''b'' ''c'' None 2,
          Reset ''r'' ''c'' 3] (m\<lparr>sm_callbacks := []\<rparr>, 0)))
     \<and> length (sm_history (fst (sm_run [Transition True ''a'' ''c'' None 1,
          Transition False ''b'' ''c'' None 2] (m, 0)))) = 1"
proof -
  obtain m :: "(bool, nat) machine" where m: "new_machine ''m'' False (\<lambda>s. Some {\<not> s}) (Some 1) = Inr m"
    by (simp add: new_machine_Inr_iff)
  show ?thesis
  proof (intro exI [of _ m] conjI m audit_trail_ok [OF m])
    show "length (sm_history (fst (sm_run [Transition True ''a'' ''c'' None 1,
          Transition False ''b'' ''c'' None 2] (m, 0)))) = 1"
      using m by (auto simp: new_machine_Inr_iff machine_defs)
  qed
qed

end
