(* ===== verification/Machines.thy ===== *)
theory Machines
  imports State_Machine
begin

section \<open>The system's transition tables\<close>

text \<open>
  The order lifecycle (core/order\_state.py), risk escalation (core/escalation.py), the macro
  and micro machines (kernel/macro.py, kernel/micro.py) and per-stream data health
  (ingestion/data\_integrity.py): the enum, the table and the constructor of each. The lemmas
  hold for the table of any machine (locales \<open>complete_table\<close> and \<open>ranked_table\<close>) and are
  used through their interpretations on these tables.
\<close>

subsection \<open>What a complete table guarantees\<close>

fun walk :: "('s \<Rightarrow> 's set option) \<Rightarrow> 's list \<Rightarrow> bool" where
  "walk table [] = True"
| "walk table [s] = True"
| "walk table (s # t # ss) = (edge table s t \<and> walk table (t # ss))"

fun is_transition :: "'s sm_op \<Rightarrow> bool" where
  "is_transition (Transition t trig cid meta now) = True"
| "is_transition (Reset trig cid now) = False"

definition reachable_from :: "('s \<Rightarrow> 's set option) \<Rightarrow> 's \<Rightarrow> 's \<Rightarrow> bool" where
  "reachable_from table = (edge table)\<^sup>*\<^sup>*"

lemma announce_frame [simp]:
  "sm_transitions (fst (snd (announce m r w))) = sm_transitions m"
  "sm_name (fst (snd (announce m r w))) = sm_name m"
  "sm_initial (fst (snd (announce m r w))) = sm_initial m"
  "sm_limit (fst (snd (announce m r w))) = sm_limit m"
  "sm_callbacks (fst (snd (announce m r w))) = sm_callbacks m"
  using announce_cases [of m r w] by auto

lemma sm_step_frame [simp]:
  "sm_transitions (fst (sm_step op (m, w))) = sm_transitions m"
  "sm_name (fst (sm_step op (m, w))) = sm_name m"
  "sm_initial (fst (sm_step op (m, w))) = sm_initial m"
  "sm_limit (fst (sm_step op (m, w))) = sm_limit m"
  "sm_callbacks (fst (sm_step op (m, w))) = sm_callbacks m"
  by (cases op; simp add: transition_def sm_reset_def)+

lemma sm_step_transition:
  assumes "is_transition op"
  shows "fst (sm_step op (m, w)) = m \<or>
    (\<exists>r. edge (sm_transitions m) (sm_state m) (tr_to r) \<and> tr_from r = sm_state m
         \<and> fst (sm_step op (m, w)) = commit r (tr_to r) m)"
proof (cases op)
  case (Transition t trig cid meta now)
  then show ?thesis
    using announce_cases [of m "new_record m t trig cid
        (case meta of Some d \<Rightarrow> d | None \<Rightarrow> []) now" w]
    by (cases "edge (sm_transitions m) (sm_state m) t")
      (auto simp: transition_def can_transition_edge intro!: exI [of _ "new_record m t trig cid
        (case meta of Some d \<Rightarrow> d | None \<Rightarrow> []) now"])
qed (use assms in simp)

locale complete_table =
  fixes table :: "'s::enum \<Rightarrow> 's set option"
  assumes complete: "table s \<noteq> None"
begin

lemma builds: "\<exists>m :: ('s, 'w) machine. new_machine name init table None = Inr m
    \<and> sm_state m = init \<and> sm_history m = [] \<and> sm_transitions m = table \<and> audit_ok m"
  by (simp add: new_machine_Inr_iff complete audit_ok_def chained_def)

lemma builds_limited: "1 \<le> l \<Longrightarrow> \<exists>m :: ('s, 'w) machine. new_machine name init table (Some l) = Inr m
    \<and> sm_state m = init \<and> sm_history m = [] \<and> sm_transitions m = table \<and> audit_ok m"
  by (simp add: new_machine_Inr_iff complete audit_ok_def chained_def)

lemma run_reachable:
  assumes "sm_transitions (fst mw) = table" and "list_all is_transition ops"
  shows "reachable_from table (sm_state (fst mw)) (sm_state (fst (sm_run ops mw)))"
  using assms
proof (induction ops arbitrary: mw)
  case Nil
  then show ?case by (simp add: reachable_from_def)
next
  case (Cons op ops)
  obtain m w where mw: "mw = (m, w)" by (cases mw)
  have "sm_state (fst (sm_step op (m, w))) = sm_state m
      \<or> edge table (sm_state m) (sm_state (fst (sm_step op (m, w))))"
    using sm_step_transition [of op m w] Cons.prems by (auto simp: mw)
  moreover have "reachable_from table (sm_state (fst (sm_step op (m, w))))
      (sm_state (fst (sm_run ops (sm_step op (m, w)))))"
    using Cons.prems by (intro Cons.IH) (simp_all add: mw)
  ultimately show ?case
    by (auto simp: mw reachable_from_def intro: converse_rtranclp_into_rtranclp)
qed

lemma absorbing:
  assumes "sm_transitions (fst mw) = table" and "list_all is_transition ops"
    and "table (sm_state (fst mw)) = Some {}"
  shows "sm_state (fst (sm_run ops mw)) = sm_state (fst mw)"
proof -
  have "\<not> edge table (sm_state (fst mw)) t" for t using assms(3) by (simp add: edge_def)
  then show ?thesis
    using run_reachable [OF assms(1,2)] by (auto simp: reachable_from_def elim: converse_rtranclpE)
qed

end

text \<open>
  A rank that every edge raises, except the edges out of the states \<open>free\<close>: between two
  visits to a free state the machine takes a bounded number of steps, and the rank never
  falls without leaving a free state.
\<close>

locale ranked_table = complete_table table for table :: "'s::enum \<Rightarrow> 's set option" +
  fixes rank :: "'s \<Rightarrow> nat" and free :: "'s \<Rightarrow> bool" and top :: nat
  assumes ranked: "edge table s t \<Longrightarrow> \<not> free s \<Longrightarrow> rank s < rank t"
    and rank_top: "rank s \<le> top"
begin

lemma walk_bound:
  "walk table (s # ss) \<Longrightarrow> \<forall>t \<in> set (butlast (s # ss)). \<not> free t \<Longrightarrow> rank s + length ss \<le> top"
proof (induction ss arbitrary: s)
  case Nil
  then show ?case by (simp add: rank_top)
next
  case (Cons t ss)
  then have "rank s < rank t" "rank t + length ss \<le> top" by (auto intro: ranked)
  then show ?case by simp
qed

end

subsection \<open>Order lifecycle\<close>

datatype order_state =
    CREATED
  | SUBMITTED
  | ACKNOWLEDGED
  | PARTIALLY_FILLED
  | FILLED
  | CANCEL_REQUESTED
  | CANCELLED
  | REJECTED
  | EXPIRED

instantiation order_state :: enum
begin
definition "enum_class.enum = [CREATED, SUBMITTED, ACKNOWLEDGED, PARTIALLY_FILLED, FILLED, CANCEL_REQUESTED, CANCELLED, REJECTED, EXPIRED]"
definition "enum_class.enum_all P \<longleftrightarrow> list_all P [CREATED, SUBMITTED, ACKNOWLEDGED, PARTIALLY_FILLED, FILLED, CANCEL_REQUESTED, CANCELLED, REJECTED, EXPIRED]"
definition "enum_class.enum_ex P \<longleftrightarrow> list_ex P [CREATED, SUBMITTED, ACKNOWLEDGED, PARTIALLY_FILLED, FILLED, CANCEL_REQUESTED, CANCELLED, REJECTED, EXPIRED]"
instance proof
  show univ: "UNIV = set (enum_class.enum :: order_state list)"
    unfolding enum_order_state_def using order_state.exhaust by auto
  show "distinct (enum_class.enum :: order_state list)" unfolding enum_order_state_def by simp
  show "enum_class.enum_all P \<longleftrightarrow> Ball UNIV P" for P :: "order_state \<Rightarrow> bool"
    unfolding enum_all_order_state_def univ enum_order_state_def by simp
  show "enum_class.enum_ex P \<longleftrightarrow> Bex UNIV P" for P :: "order_state \<Rightarrow> bool"
    unfolding enum_ex_order_state_def univ enum_order_state_def by simp
qed
end

fun order_transitions :: "order_state \<Rightarrow> order_state set option" where
  "order_transitions CREATED = Some {SUBMITTED}"
| "order_transitions SUBMITTED = Some {ACKNOWLEDGED, REJECTED}"
| "order_transitions ACKNOWLEDGED = Some {PARTIALLY_FILLED, FILLED, CANCEL_REQUESTED, CANCELLED, EXPIRED, REJECTED}"
| "order_transitions PARTIALLY_FILLED = Some {PARTIALLY_FILLED, FILLED, CANCEL_REQUESTED, CANCELLED, EXPIRED}"
| "order_transitions CANCEL_REQUESTED = Some {CANCELLED, FILLED}"
| "order_transitions FILLED = Some {}"
| "order_transitions CANCELLED = Some {}"
| "order_transitions REJECTED = Some {}"
| "order_transitions EXPIRED = Some {}"

definition create_order_state_machine :: "string \<Rightarrow> (order_state, 'w) machine result" where
  "create_order_state_machine order_id =
     new_machine (''order:'' @ order_id) CREATED order_transitions None"

subsection \<open>Risk escalation\<close>

datatype risk_level =
    NORMAL
  | WARNING
  | BREACH_DETECTED
  | FORCED_FLATTEN
  | LOCKED

instantiation risk_level :: enum
begin
definition "enum_class.enum = [NORMAL, WARNING, BREACH_DETECTED, FORCED_FLATTEN, LOCKED]"
definition "enum_class.enum_all P \<longleftrightarrow> list_all P [NORMAL, WARNING, BREACH_DETECTED, FORCED_FLATTEN, LOCKED]"
definition "enum_class.enum_ex P \<longleftrightarrow> list_ex P [NORMAL, WARNING, BREACH_DETECTED, FORCED_FLATTEN, LOCKED]"
instance proof
  show univ: "UNIV = set (enum_class.enum :: risk_level list)"
    unfolding enum_risk_level_def using risk_level.exhaust by auto
  show "distinct (enum_class.enum :: risk_level list)" unfolding enum_risk_level_def by simp
  show "enum_class.enum_all P \<longleftrightarrow> Ball UNIV P" for P :: "risk_level \<Rightarrow> bool"
    unfolding enum_all_risk_level_def univ enum_risk_level_def by simp
  show "enum_class.enum_ex P \<longleftrightarrow> Bex UNIV P" for P :: "risk_level \<Rightarrow> bool"
    unfolding enum_ex_risk_level_def univ enum_risk_level_def by simp
qed
end

fun risk_transitions :: "risk_level \<Rightarrow> risk_level set option" where
  "risk_transitions NORMAL = Some {WARNING}"
| "risk_transitions WARNING = Some {BREACH_DETECTED}"
| "risk_transitions BREACH_DETECTED = Some {FORCED_FLATTEN}"
| "risk_transitions FORCED_FLATTEN = Some {LOCKED}"
| "risk_transitions LOCKED = Some {NORMAL}"

definition create_risk_escalation_machine :: "(risk_level, 'w) machine result" where
  "create_risk_escalation_machine = new_machine ''risk_escalation'' NORMAL risk_transitions None"

subsection \<open>Macro states\<close>

datatype macro_state =
    INIT
  | DATA_SYNC
  | READY
  | BACKTEST_MODE
  | PAPER_TRADING_MODE
  | DEGRADED
  | RISK_LOCKDOWN
  | SHUTDOWN

instantiation macro_state :: enum
begin
definition "enum_class.enum = [INIT, DATA_SYNC, READY, BACKTEST_MODE, PAPER_TRADING_MODE, DEGRADED, RISK_LOCKDOWN, SHUTDOWN]"
definition "enum_class.enum_all P \<longleftrightarrow> list_all P [INIT, DATA_SYNC, READY, BACKTEST_MODE, PAPER_TRADING_MODE, DEGRADED, RISK_LOCKDOWN, SHUTDOWN]"
definition "enum_class.enum_ex P \<longleftrightarrow> list_ex P [INIT, DATA_SYNC, READY, BACKTEST_MODE, PAPER_TRADING_MODE, DEGRADED, RISK_LOCKDOWN, SHUTDOWN]"
instance proof
  show univ: "UNIV = set (enum_class.enum :: macro_state list)"
    unfolding enum_macro_state_def using macro_state.exhaust by auto
  show "distinct (enum_class.enum :: macro_state list)" unfolding enum_macro_state_def by simp
  show "enum_class.enum_all P \<longleftrightarrow> Ball UNIV P" for P :: "macro_state \<Rightarrow> bool"
    unfolding enum_all_macro_state_def univ enum_macro_state_def by simp
  show "enum_class.enum_ex P \<longleftrightarrow> Bex UNIV P" for P :: "macro_state \<Rightarrow> bool"
    unfolding enum_ex_macro_state_def univ enum_macro_state_def by simp
qed
end

fun macro_transitions :: "macro_state \<Rightarrow> macro_state set option" where
  "macro_transitions INIT = Some {DATA_SYNC, SHUTDOWN}"
| "macro_transitions DATA_SYNC = Some {READY, DEGRADED}"
| "macro_transitions READY = Some {BACKTEST_MODE, PAPER_TRADING_MODE, SHUTDOWN}"
| "macro_transitions BACKTEST_MODE = Some {READY, DEGRADED}"
| "macro_transitions PAPER_TRADING_MODE = Some {READY, RISK_LOCKDOWN, DEGRADED}"
| "macro_transitions DEGRADED = Some {READY, SHUTDOWN}"
| "macro_transitions RISK_LOCKDOWN = Some {READY, SHUTDOWN}"
| "macro_transitions SHUTDOWN = Some {}"

definition trading_modes :: "macro_state set" where
  "trading_modes = {BACKTEST_MODE, PAPER_TRADING_MODE}"

definition create_macro_state_machine :: "(macro_state, 'w) machine result" where
  "create_macro_state_machine = new_machine ''global_stack'' INIT macro_transitions (Some 64)"

subsection \<open>Micro states\<close>

datatype micro_state =
    WAITING_FOR_MARKET_EVENT
  | MARKET_EVENT_RECEIVED
  | STATE_UPDATE
  | SENSOR_UPDATE
  | HORIZON_CHECK
  | HORIZON_AGGREGATE
  | SIGNAL_GATE
  | CROSS_SECTIONAL
  | FEATURE_COMPUTE
  | SIGNAL_EVALUATE
  | RISK_CHECK
  | ORDER_DECISION
  | ORDER_SUBMIT
  | ORDER_ACK
  | POSITION_UPDATE
  | LOG_AND_METRICS

instantiation micro_state :: enum
begin
definition "enum_class.enum = [WAITING_FOR_MARKET_EVENT, MARKET_EVENT_RECEIVED, STATE_UPDATE, SENSOR_UPDATE, HORIZON_CHECK, HORIZON_AGGREGATE, SIGNAL_GATE, CROSS_SECTIONAL, FEATURE_COMPUTE, SIGNAL_EVALUATE, RISK_CHECK, ORDER_DECISION, ORDER_SUBMIT, ORDER_ACK, POSITION_UPDATE, LOG_AND_METRICS]"
definition "enum_class.enum_all P \<longleftrightarrow> list_all P [WAITING_FOR_MARKET_EVENT, MARKET_EVENT_RECEIVED, STATE_UPDATE, SENSOR_UPDATE, HORIZON_CHECK, HORIZON_AGGREGATE, SIGNAL_GATE, CROSS_SECTIONAL, FEATURE_COMPUTE, SIGNAL_EVALUATE, RISK_CHECK, ORDER_DECISION, ORDER_SUBMIT, ORDER_ACK, POSITION_UPDATE, LOG_AND_METRICS]"
definition "enum_class.enum_ex P \<longleftrightarrow> list_ex P [WAITING_FOR_MARKET_EVENT, MARKET_EVENT_RECEIVED, STATE_UPDATE, SENSOR_UPDATE, HORIZON_CHECK, HORIZON_AGGREGATE, SIGNAL_GATE, CROSS_SECTIONAL, FEATURE_COMPUTE, SIGNAL_EVALUATE, RISK_CHECK, ORDER_DECISION, ORDER_SUBMIT, ORDER_ACK, POSITION_UPDATE, LOG_AND_METRICS]"
instance proof
  show univ: "UNIV = set (enum_class.enum :: micro_state list)"
    unfolding enum_micro_state_def using micro_state.exhaust by auto
  show "distinct (enum_class.enum :: micro_state list)" unfolding enum_micro_state_def by simp
  show "enum_class.enum_all P \<longleftrightarrow> Ball UNIV P" for P :: "micro_state \<Rightarrow> bool"
    unfolding enum_all_micro_state_def univ enum_micro_state_def by simp
  show "enum_class.enum_ex P \<longleftrightarrow> Bex UNIV P" for P :: "micro_state \<Rightarrow> bool"
    unfolding enum_ex_micro_state_def univ enum_micro_state_def by simp
qed
end

fun micro_transitions :: "micro_state \<Rightarrow> micro_state set option" where
  "micro_transitions WAITING_FOR_MARKET_EVENT = Some {MARKET_EVENT_RECEIVED}"
| "micro_transitions MARKET_EVENT_RECEIVED = Some {STATE_UPDATE}"
| "micro_transitions STATE_UPDATE = Some {SENSOR_UPDATE, FEATURE_COMPUTE}"
| "micro_transitions SENSOR_UPDATE = Some {HORIZON_CHECK}"
| "micro_transitions HORIZON_CHECK = Some {HORIZON_AGGREGATE, FEATURE_COMPUTE}"
| "micro_transitions HORIZON_AGGREGATE = Some {SIGNAL_GATE, CROSS_SECTIONAL, FEATURE_COMPUTE}"
| "micro_transitions SIGNAL_GATE = Some {CROSS_SECTIONAL, FEATURE_COMPUTE}"
| "micro_transitions CROSS_SECTIONAL = Some {FEATURE_COMPUTE, RISK_CHECK}"
| "micro_transitions FEATURE_COMPUTE = Some {SIGNAL_EVALUATE}"
| "micro_transitions SIGNAL_EVALUATE = Some {RISK_CHECK, LOG_AND_METRICS}"
| "micro_transitions RISK_CHECK = Some {ORDER_DECISION, LOG_AND_METRICS}"
| "micro_transitions ORDER_DECISION = Some {ORDER_SUBMIT, LOG_AND_METRICS}"
| "micro_transitions ORDER_SUBMIT = Some {ORDER_ACK}"
| "micro_transitions ORDER_ACK = Some {POSITION_UPDATE}"
| "micro_transitions POSITION_UPDATE = Some {LOG_AND_METRICS}"
| "micro_transitions LOG_AND_METRICS = Some {WAITING_FOR_MARKET_EVENT, RISK_CHECK, FEATURE_COMPUTE}"

definition create_micro_state_machine :: "(micro_state, 'w) machine result" where
  "create_micro_state_machine =
     new_machine ''tick_pipeline'' WAITING_FOR_MARKET_EVENT micro_transitions (Some 256)"

subsection \<open>Data health\<close>

datatype data_health =
    HEALTHY
  | GAP_DETECTED
  | HALTED
  | CORRUPTED

instantiation data_health :: enum
begin
definition "enum_class.enum = [HEALTHY, GAP_DETECTED, HALTED, CORRUPTED]"
definition "enum_class.enum_all P \<longleftrightarrow> list_all P [HEALTHY, GAP_DETECTED, HALTED, CORRUPTED]"
definition "enum_class.enum_ex P \<longleftrightarrow> list_ex P [HEALTHY, GAP_DETECTED, HALTED, CORRUPTED]"
instance proof
  show univ: "UNIV = set (enum_class.enum :: data_health list)"
    unfolding enum_data_health_def using data_health.exhaust by auto
  show "distinct (enum_class.enum :: data_health list)" unfolding enum_data_health_def by simp
  show "enum_class.enum_all P \<longleftrightarrow> Ball UNIV P" for P :: "data_health \<Rightarrow> bool"
    unfolding enum_all_data_health_def univ enum_data_health_def by simp
  show "enum_class.enum_ex P \<longleftrightarrow> Bex UNIV P" for P :: "data_health \<Rightarrow> bool"
    unfolding enum_ex_data_health_def univ enum_data_health_def by simp
qed
end

fun data_transitions :: "data_health \<Rightarrow> data_health set option" where
  "data_transitions HEALTHY = Some {GAP_DETECTED, HALTED, CORRUPTED}"
| "data_transitions GAP_DETECTED = Some {HEALTHY, HALTED, CORRUPTED}"
| "data_transitions HALTED = Some {HEALTHY, CORRUPTED}"
| "data_transitions CORRUPTED = Some {}"

definition create_data_integrity_machine ::
  "string \<Rightarrow> string option \<Rightarrow> (data_health, 'w) machine result" where
  "create_data_integrity_machine symbol channel =
     (let label = (case channel of
                     Some c \<Rightarrow> (if c \<noteq> [] then symbol @ '':'' @ c else symbol)
                   | None \<Rightarrow> symbol)
      in new_machine (''data_integrity:'' @ label) HEALTHY data_transitions None)"

subsection \<open>Interpretations\<close>

fun micro_rank :: "micro_state \<Rightarrow> nat" where
  "micro_rank WAITING_FOR_MARKET_EVENT = 0"
| "micro_rank MARKET_EVENT_RECEIVED = 1"
| "micro_rank STATE_UPDATE = 2"
| "micro_rank SENSOR_UPDATE = 3"
| "micro_rank HORIZON_CHECK = 4"
| "micro_rank HORIZON_AGGREGATE = 5"
| "micro_rank SIGNAL_GATE = 6"
| "micro_rank CROSS_SECTIONAL = 7"
| "micro_rank FEATURE_COMPUTE = 8"
| "micro_rank SIGNAL_EVALUATE = 9"
| "micro_rank RISK_CHECK = 10"
| "micro_rank ORDER_DECISION = 11"
| "micro_rank ORDER_SUBMIT = 12"
| "micro_rank ORDER_ACK = 13"
| "micro_rank POSITION_UPDATE = 14"
| "micro_rank LOG_AND_METRICS = 15"

fun risk_rank :: "risk_level \<Rightarrow> nat" where
  "risk_rank NORMAL = 0"
| "risk_rank WARNING = 1"
| "risk_rank BREACH_DETECTED = 2"
| "risk_rank FORCED_FLATTEN = 3"
| "risk_rank LOCKED = 4"

fun order_rank :: "order_state \<Rightarrow> nat" where
  "order_rank CREATED = 0"
| "order_rank SUBMITTED = 1"
| "order_rank ACKNOWLEDGED = 2"
| "order_rank PARTIALLY_FILLED = 3"
| "order_rank CANCEL_REQUESTED = 4"
| "order_rank s = 5"

interpretation order_table: ranked_table order_transitions order_rank
  "\<lambda>s. s = PARTIALLY_FILLED" 5
proof
  show "order_transitions s \<noteq> None" for s by (cases s) auto
  show "edge order_transitions s t \<Longrightarrow> s \<noteq> PARTIALLY_FILLED \<Longrightarrow> order_rank s < order_rank t" for s t
    by (cases s) (auto simp: edge_def)
  show "order_rank s \<le> 5" for s by (cases s) auto
qed

interpretation risk_table: ranked_table risk_transitions risk_rank "\<lambda>s. s = LOCKED" 4
proof
  show "risk_transitions s \<noteq> None" for s by (cases s) auto
  show "edge risk_transitions s t \<Longrightarrow> s \<noteq> LOCKED \<Longrightarrow> risk_rank s < risk_rank t" for s t
    by (cases s) (auto simp: edge_def)
  show "risk_rank s \<le> 4" for s by (cases s) auto
qed

interpretation micro_table: ranked_table micro_transitions micro_rank
  "\<lambda>s. s = LOG_AND_METRICS" 15
proof
  show "micro_transitions s \<noteq> None" for s by (cases s) auto
  show "edge micro_transitions s t \<Longrightarrow> s \<noteq> LOG_AND_METRICS \<Longrightarrow> micro_rank s < micro_rank t" for s t
    by (cases s) (auto simp: edge_def)
  show "micro_rank s \<le> 15" for s by (cases s) auto
qed

interpretation macro_table: complete_table macro_transitions
proof
  show "macro_transitions s \<noteq> None" for s by (cases s) auto
qed

interpretation data_table: complete_table data_transitions
proof
  show "data_transitions s \<noteq> None" for s by (cases s) auto
qed

subsection \<open>Properties\<close>

lemmas create_defs = create_order_state_machine_def create_risk_escalation_machine_def
  create_macro_state_machine_def create_micro_state_machine_def new_machine_Inr_iff

lemma sm_run_frame:
  "sm_transitions (fst (sm_run ops mw)) = sm_transitions (fst mw)
   \<and> sm_initial (fst (sm_run ops mw)) = sm_initial (fst mw)"
proof (induction ops arbitrary: mw)
  case (Cons op ops)
  then show ?case by (cases mw) simp
qed simp

lemma machine_audit:
  assumes "new_machine name init table limit = Inr m"
  shows "audit_ok (fst (sm_run ops (m, w)))" and "sm_transitions (fst (sm_run ops (m, w))) = table"
    and "sm_initial (fst (sm_run ops (m, w))) = init"
proof -
  have "audit_ok m" using assms
    by (auto simp: new_machine_Inr_iff audit_ok_def chained_def split: option.splits)
  then show "audit_ok (fst (sm_run ops (m, w)))" by (intro audit_ok_run) simp
  show "sm_transitions (fst (sm_run ops (m, w))) = table"
    and "sm_initial (fst (sm_run ops (m, w))) = init"
    using assms sm_run_frame [of ops "(m, w)"] by (auto simp: new_machine_Inr_iff)
qed

lemma history_edge:
  assumes "audit_ok m" and "i < length (sm_history m)" and "tr_to (sm_history m ! i) \<noteq> sm_initial m"
  shows "edge (sm_transitions m) (tr_from (sm_history m ! i)) (tr_to (sm_history m ! i))"
  using assms by (auto simp: audit_ok_def legal_record_def list_all_length)

lemma micro_edge_into:
  "edge micro_transitions s ORDER_SUBMIT \<longleftrightarrow> s = ORDER_DECISION"
  "edge micro_transitions s ORDER_DECISION \<longleftrightarrow> s = RISK_CHECK"
  by (cases s; simp add: edge_def)+

text \<open>C1: whatever transitions and resets the orchestrator requests of the tick pipeline, an
  order submission in its history is directly preceded by the order decision, and that
  decision was entered from the risk check.\<close>

theorem submit_only_after_risk_check:
  fixes m :: "(micro_state, 'w) machine"
  assumes "create_micro_state_machine = Inr m"
    and "h = sm_history (fst (sm_run ops (m, w)))"
    and "Suc i < length h" and "tr_to (h ! Suc i) = ORDER_SUBMIT"
  shows "tr_from (h ! Suc i) = ORDER_DECISION \<and> tr_to (h ! i) = ORDER_DECISION
    \<and> tr_from (h ! i) = RISK_CHECK"
proof -
  define m' where "m' = fst (sm_run ops (m, w))"
  have m': "audit_ok m'" "sm_transitions m' = micro_transitions"
    "sm_initial m' = WAITING_FOR_MARKET_EVENT"
    using machine_audit [OF assms(1) [unfolded create_micro_state_machine_def]] by (simp_all add: m'_def)
  have h: "h = sm_history m'" by (simp add: assms(2) m'_def)
  have 1: "tr_from (h ! Suc i) = ORDER_DECISION"
    using history_edge [OF m'(1), of "Suc i"] assms(3,4) m' by (simp add: h micro_edge_into)
  moreover have "tr_to (h ! i) = tr_from (h ! Suc i)"
    using m'(1) assms(3) by (simp add: audit_ok_def chained_def h)
  moreover have "tr_from (h ! i) = RISK_CHECK"
    using history_edge [OF m'(1), of i] assms(3) m' calculation by (simp add: h micro_edge_into)
  ultimately show ?thesis by simp
qed

definition go :: "'s \<Rightarrow> 's sm_op" where
  "go t = Transition t [] [] None 0"

definition tick_ops :: "micro_state sm_op list" where
  "tick_ops = map go [MARKET_EVENT_RECEIVED, STATE_UPDATE, FEATURE_COMPUTE, SIGNAL_EVALUATE,
     RISK_CHECK, ORDER_DECISION, ORDER_SUBMIT]"

theorem submit_only_after_risk_check_witness:
  "\<exists>m :: (micro_state, unit) machine. create_micro_state_machine = Inr m \<and>
     (let h = sm_history (fst (sm_run tick_ops (m, ()))) in
        length h = 7 \<and> tr_to (h ! Suc 5) = ORDER_SUBMIT \<and> tr_from (h ! 5) = RISK_CHECK)"
proof -
  obtain m :: "(micro_state, unit) machine" where m: "create_micro_state_machine = Inr m"
    using micro_table.builds_limited [of 256] by (auto simp: create_micro_state_machine_def)
  define h where "h = sm_history (fst (sm_run tick_ops (m, ())))"
  have h: "length h = 7 \<and> tr_to (h ! Suc 5) = ORDER_SUBMIT"
    using m unfolding create_defs
    by (simp add: h_def machine_defs tick_ops_def go_def edge_def)
  then have "tr_from (h ! 5) = RISK_CHECK"
    using submit_only_after_risk_check [OF m h_def, of 5] by simp
  with h show ?thesis using m by (auto simp: Let_def h_def)
qed

text \<open>the tick pipeline cannot run on without reaching its logging state: a walk along
  the micro table that does not leave LOG\_AND\_METRICS has at most 15 steps, and a walk that
  starts waiting for a market event can take the 13 steps of the full pipeline.\<close>

theorem micro_pipeline_bounded:
  assumes "walk micro_transitions (s # ss)" and "LOG_AND_METRICS \<notin> set (butlast (s # ss))"
  shows "length ss + micro_rank s \<le> 15"
proof -
  have "\<forall>t \<in> set (butlast (s # ss)). t \<noteq> LOG_AND_METRICS" using assms(2) by blast
  then show ?thesis using micro_table.walk_bound [OF assms(1)] by simp
qed

theorem micro_pipeline_bounded_witness:
  "walk micro_transitions [WAITING_FOR_MARKET_EVENT, MARKET_EVENT_RECEIVED, STATE_UPDATE,
     SENSOR_UPDATE, HORIZON_CHECK, HORIZON_AGGREGATE, SIGNAL_GATE, CROSS_SECTIONAL, RISK_CHECK,
     ORDER_DECISION, ORDER_SUBMIT, ORDER_ACK, POSITION_UPDATE, LOG_AND_METRICS]
   \<and> length [MARKET_EVENT_RECEIVED, STATE_UPDATE] + micro_rank WAITING_FOR_MARKET_EVENT \<le> 15"
  using micro_pipeline_bounded [of WAITING_FOR_MARKET_EVENT "[MARKET_EVENT_RECEIVED, STATE_UPDATE]"]
  by (simp add: edge_def)

subsubsection \<open>Order lifecycle\<close>

lemma order_edge_cases:
  "edge order_transitions s t \<Longrightarrow> s \<noteq> CREATED \<Longrightarrow> s \<noteq> SUBMITTED \<Longrightarrow> order_rank s \<ge> 2 \<and> order_rank t \<ge> 2"
  "edge order_transitions CREATED t \<longleftrightarrow> t = SUBMITTED"
  "edge order_transitions SUBMITTED t \<longleftrightarrow> t = ACKNOWLEDGED \<or> t = REJECTED"
  by (cases s; cases t; auto simp: edge_def)+

definition order_terminal :: "order_state \<Rightarrow> bool" where
  "order_terminal s \<longleftrightarrow> s \<in> {FILLED, CANCELLED, REJECTED, EXPIRED}"

lemma order_terminal_iff: "order_terminal s \<longleftrightarrow> order_transitions s = Some {}"
  by (cases s) (auto simp: order_terminal_def)

definition acked :: "(order_state, 'w) machine \<Rightarrow> bool" where
  "acked m \<longleftrightarrow> sm_limit m = None \<and> sm_transitions m = order_transitions \<and>
     (sm_state m \<notin> {CREATED, SUBMITTED, REJECTED} \<longrightarrow> ACKNOWLEDGED \<in> tr_to ` set (sm_history m))"

lemma acked_step: "acked m \<Longrightarrow> is_transition op \<Longrightarrow> acked (fst (sm_step op (m, w)))"
proof -
  assume m: "acked m" and op: "is_transition op"
  have "acked (commit r (tr_to r) m)"
    if "edge (sm_transitions m) (sm_state m) (tr_to r)" for r
    using m that by (cases "sm_state m"; cases "tr_to r"; auto simp: acked_def edge_def push_bounded_def)
  then show ?thesis using sm_step_transition [OF op, of m w] m by auto
qed

lemma acked_run: "acked (fst mw) \<Longrightarrow> list_all is_transition ops \<Longrightarrow> acked (fst (sm_run ops mw))"
proof (induction ops arbitrary: mw)
  case (Cons op ops)
  then show ?case using acked_step [of "fst mw" op "snd mw"] by simp
qed simp

text \<open>an order that was ever filled, partially filled, cancelled, expired or asked to be
  cancelled was acknowledged first, and once it is in a terminal state no further transition
  request moves it.\<close>

theorem order_lifecycle_safe:
  fixes m :: "(order_state, 'w) machine"
  assumes "create_order_state_machine oid = Inr m" and "list_all is_transition ops"
    and "list_all is_transition later" and "mw = sm_run ops (m, w)"
    and "sm_state (fst mw) \<notin> {CREATED, SUBMITTED, REJECTED}"
  shows "ACKNOWLEDGED \<in> tr_to ` set (sm_history (fst mw))
    \<and> (order_terminal (sm_state (fst mw)) \<longrightarrow> sm_state (fst (sm_run later mw)) = sm_state (fst mw))"
proof -
  have "acked m" using assms(1) by (auto simp: create_defs acked_def)
  then have "acked (fst mw)" using assms acked_run [of "(m, w)"] by simp
  then show ?thesis
    using assms order_table.absorbing [of mw later] by (auto simp: acked_def order_terminal_iff)
qed

theorem order_lifecycle_safe_witness:
  "\<exists>m :: (order_state, unit) machine. create_order_state_machine ''o1'' = Inr m \<and>
     (let mw = sm_run (map go [SUBMITTED, ACKNOWLEDGED, PARTIALLY_FILLED, FILLED]) (m, ()) in
        sm_state (fst mw) = FILLED \<and> ACKNOWLEDGED \<in> tr_to ` set (sm_history (fst mw))
        \<and> sm_state (fst (sm_run (map go [CANCELLED, SUBMITTED]) mw)) = FILLED)"
proof -
  obtain m :: "(order_state, unit) machine" where m: "create_order_state_machine ''o1'' = Inr m"
    using order_table.builds by (auto simp: create_order_state_machine_def)
  define mw where "mw = sm_run (map go [SUBMITTED, ACKNOWLEDGED, PARTIALLY_FILLED, FILLED]) (m, ())"
  have filled: "sm_state (fst mw) = FILLED"
    using m unfolding create_defs by (simp add: mw_def machine_defs go_def)
  then show ?thesis
    using m order_lifecycle_safe [OF m, of "map go [SUBMITTED, ACKNOWLEDGED, PARTIALLY_FILLED, FILLED]"
        "map go [CANCELLED, SUBMITTED]" mw "()"]
    by (auto simp: Let_def mw_def go_def order_terminal_def)
qed

subsubsection \<open>Risk escalation and macro states\<close>

fun requests :: "'s sm_op \<Rightarrow> 's set" where
  "requests (Transition t trig cid meta now) = {t}"
| "requests (Reset trig cid now) = {}"

lemma transition_requested:
  assumes "is_transition op"
  shows "fst (sm_step op (m, w)) = m \<or>
    (\<exists>r. edge (sm_transitions m) (sm_state m) (tr_to r) \<and> tr_to r \<in> requests op
         \<and> fst (sm_step op (m, w)) = commit r (tr_to r) m)"
proof (cases op)
  case (Transition t trig cid meta now)
  then show ?thesis
    using announce_cases [of m "new_record m t trig cid
        (case meta of Some d \<Rightarrow> d | None \<Rightarrow> []) now" w]
    by (cases "edge (sm_transitions m) (sm_state m) t")
      (auto simp: transition_def can_transition_edge intro!: exI [of _ "new_record m t trig cid
        (case meta of Some d \<Rightarrow> d | None \<Rightarrow> []) now"])
qed (use assms in simp)

text \<open>risk escalation only tightens: from any level, transition requests that never ask
  for NORMAL cannot lower the level, and the only level from which a request for NORMAL is
  granted is LOCKED.\<close>

theorem risk_only_tightens:
  assumes "sm_transitions (fst mw) = risk_transitions" and "list_all is_transition ops"
    and "\<forall>op \<in> set ops. NORMAL \<notin> requests op"
  shows "risk_rank (sm_state (fst mw)) \<le> risk_rank (sm_state (fst (sm_run ops mw)))
    \<and> (can_transition (fst (sm_run ops mw)) NORMAL \<longleftrightarrow> sm_state (fst (sm_run ops mw)) = LOCKED)"
  using assms
proof (induction ops arbitrary: mw)
  case Nil
  then show ?case by (cases "sm_state (fst mw)") (auto simp: can_transition_def)
next
  case (Cons op ops)
  obtain m w where mw: "mw = (m, w)" by (cases mw)
  have op: "is_transition op" "NORMAL \<notin> requests op" "sm_transitions m = risk_transitions"
    using Cons.prems by (simp_all add: mw)
  have "edge risk_transitions (sm_state m) t \<Longrightarrow> t \<noteq> NORMAL \<Longrightarrow> risk_rank (sm_state m) \<le> risk_rank t" for t
    by (cases "sm_state m") (auto simp: edge_def)
  then have "risk_rank (sm_state m) \<le> risk_rank (sm_state (fst (sm_step op (m, w))))"
    using transition_requested [OF op(1), of m w] op(2,3) by fastforce
  moreover have "risk_rank (sm_state (fst (sm_step op (m, w))))
      \<le> risk_rank (sm_state (fst (sm_run ops (sm_step op (m, w)))))
    \<and> (can_transition (fst (sm_run ops (sm_step op (m, w)))) NORMAL
        \<longleftrightarrow> sm_state (fst (sm_run ops (sm_step op (m, w)))) = LOCKED)"
    using Cons.prems by (intro Cons.IH) (simp_all add: mw)
  ultimately show ?case by (simp add: mw)
qed

theorem risk_only_tightens_witness:
  "\<exists>m :: (risk_level, unit) machine. create_risk_escalation_machine = Inr m \<and>
     (let m' = fst (sm_run (map go [WARNING, BREACH_DETECTED]) (m, ())) in
        risk_rank (sm_state m') = 2 \<and> \<not> can_transition m' NORMAL)"
proof -
  obtain m :: "(risk_level, unit) machine" where m: "create_risk_escalation_machine = Inr m"
    using risk_table.builds by (auto simp: create_risk_escalation_machine_def)
  then have t: "sm_transitions m = risk_transitions" unfolding create_defs by simp
  have s: "sm_state (fst (sm_run (map go [WARNING, BREACH_DETECTED]) (m, ()))) = BREACH_DETECTED"
    using m unfolding create_defs by (simp add: machine_defs go_def)
  show ?thesis
    using risk_only_tightens [of "(m, ())" "map go [WARNING, BREACH_DETECTED]"] m s t
    by (auto simp: Let_def go_def)
qed

lemma macro_edge_into:
  "edge macro_transitions s RISK_LOCKDOWN \<longleftrightarrow> s = PAPER_TRADING_MODE"
  "t \<in> trading_modes \<Longrightarrow> edge macro_transitions s t \<longleftrightarrow> s = READY"
  by (cases s; auto simp: edge_def trading_modes_def)+

lemma macro_to_ready: "s \<noteq> SHUTDOWN \<Longrightarrow> reachable_from macro_transitions s READY"
proof -
  have e: "edge macro_transitions x READY" if "x \<notin> {INIT, READY, SHUTDOWN}" for x
    using that by (cases x) (auto simp: edge_def)
  have r: "reachable_from macro_transitions x READY" if "edge macro_transitions x READY" for x
    using that by (simp add: reachable_from_def)
  have "edge macro_transitions INIT DATA_SYNC" by (simp add: edge_def)
  moreover have "reachable_from macro_transitions DATA_SYNC READY" by (rule r, rule e) simp
  ultimately have i: "reachable_from macro_transitions INIT READY"
    unfolding reachable_from_def by (rule converse_rtranclp_into_rtranclp)
  assume "s \<noteq> SHUTDOWN"
  then consider "s = INIT" | "s = READY" | "s \<notin> {INIT, READY, SHUTDOWN}" by blast
  then show ?thesis
  proof cases
    case 3
    then show ?thesis by (intro r e)
  qed (use i in \<open>simp_all add: reachable_from_def\<close>)
qed

text \<open>the macro machine: in every audit trail a record that enters RISK\_LOCKDOWN starts in
  paper trading (a backtest can never be locked down) and a record that enters a trading mode
  starts in READY; and the READY hub stays reachable from every state but SHUTDOWN.\<close>

theorem macro_discipline:
  fixes m :: "(macro_state, 'w) machine"
  assumes "create_macro_state_machine = Inr m" and "h = sm_history (fst (sm_run ops (m, w)))"
    and "i < length h"
  shows "(tr_to (h ! i) = RISK_LOCKDOWN \<longrightarrow> tr_from (h ! i) = PAPER_TRADING_MODE)
    \<and> (tr_to (h ! i) \<in> trading_modes \<longrightarrow> tr_from (h ! i) = READY)
    \<and> (tr_to (h ! i) \<noteq> SHUTDOWN \<longrightarrow> reachable_from macro_transitions (tr_to (h ! i)) READY)"
proof -
  have m': "audit_ok (fst (sm_run ops (m, w)))"
    "sm_transitions (fst (sm_run ops (m, w))) = macro_transitions"
    "sm_initial (fst (sm_run ops (m, w))) = INIT"
    using machine_audit [OF assms(1) [unfolded create_macro_state_machine_def]] by simp_all
  have e: "tr_to (h ! i) \<noteq> INIT \<Longrightarrow> edge macro_transitions (tr_from (h ! i)) (tr_to (h ! i))"
    using history_edge [OF m'(1), of i] assms(2,3) m' by simp
  moreover have "INIT \<notin> trading_modes" by (simp add: trading_modes_def)
  ultimately show ?thesis using macro_to_ready macro_edge_into
    by (cases "tr_to (h ! i)") (auto simp: trading_modes_def)
qed

theorem macro_discipline_witness:
  "\<exists>m :: (macro_state, unit) machine. create_macro_state_machine = Inr m \<and>
     (let h = sm_history (fst (sm_run (map go [DATA_SYNC, READY, PAPER_TRADING_MODE, RISK_LOCKDOWN]) (m, ())))
      in length h = 4 \<and> tr_to (h ! 3) = RISK_LOCKDOWN \<and> tr_from (h ! 3) = PAPER_TRADING_MODE)"
proof -
  obtain m :: "(macro_state, unit) machine" where m: "create_macro_state_machine = Inr m"
    using macro_table.builds_limited [of 64] by (auto simp: create_macro_state_machine_def)
  define h where "h = sm_history (fst (sm_run (map go [DATA_SYNC, READY, PAPER_TRADING_MODE, RISK_LOCKDOWN]) (m, ())))"
  have h: "length h = 4 \<and> tr_to (h ! 3) = RISK_LOCKDOWN"
    using m unfolding create_defs by (simp add: h_def machine_defs go_def edge_def)
  then have "tr_from (h ! 3) = PAPER_TRADING_MODE"
    using macro_discipline [OF m h_def, of 3] by simp
  with h show ?thesis using m by (auto simp: Let_def h_def)
qed

end
