(* ===== verification/Kernel_State.thy ===== *)
theory Kernel_State
  imports Fill_Attribution Machines
begin

section \<open>The order book-keeping of the kernel (kernel/orchestrator.py)\<close>

text \<open>
  The part of the orchestrator's state that orders and fills touch, the output log, and the
  operations that track an order, apply a broker acknowledgement to its state machine and
  drop terminal orders. Publishing an event appends it to the log (what subscribers do with
  it is the bus's business); every kernel event draws one number from the sequence. The
  order router is a parameter: its state is \<open>'r\<close> and its three operations are functions.
  Free-text messages and alert contexts are left out; log statements are not modelled.
\<close>

subsection \<open>Actions: state and exceptions\<close>

text \<open>An action returns a value or raises, and keeps the state changes made before the raise.\<close>

type_synonym ('s, 'a) act = "'s \<Rightarrow> 'a result \<times> 's"

definition ok :: "'a \<Rightarrow> ('s, 'a) act" where
  "ok x s = (Inr x, s)"

definition raise :: "exn \<Rightarrow> ('s, 'a) act" where
  "raise e s = (Inl e, s)"

definition andThen :: "('s, 'a) act \<Rightarrow> ('a \<Rightarrow> ('s, 'b) act) \<Rightarrow> ('s, 'b) act" where
  "andThen f g s = (case f s of (Inl e, s') \<Rightarrow> (Inl e, s') | (Inr x, s') \<Rightarrow> g x s')"

definition modify :: "('s \<Rightarrow> 's) \<Rightarrow> ('s, unit) act" where
  "modify f s = (Inr (), f s)"

definition catch :: "('s, 'a) act \<Rightarrow> (exn \<Rightarrow> ('s, 'a) act) \<Rightarrow> ('s, 'a) act" where
  "catch f h s = (case f s of (Inl e, s') \<Rightarrow> h e s' | (Inr x, s') \<Rightarrow> (Inr x, s'))"

fun each :: "('x \<Rightarrow> ('s, unit) act) \<Rightarrow> 'x list \<Rightarrow> ('s, unit) act" where
  "each f [] = ok ()"
| "each f (x # xs) = andThen (f x) (\<lambda>_. each f xs)"

lemmas act_defs = ok_def raise_def andThen_def modify_def catch_def

lemma andThen_simps [simp]:
  "andThen (ok x) g = g x"
  "andThen (raise e) g = raise e"
  "andThen (modify f) g s = g () (f s)"
  by (simp_all add: act_defs fun_eq_iff)

lemma andThen_run:
  "f s = (Inr x, s') \<Longrightarrow> andThen f g s = g x s'"
  "f s = (Inl e, s') \<Longrightarrow> andThen f g s = (Inl e, s')"
  by (simp_all add: andThen_def)

subsection \<open>Outputs\<close>

record trade_record =
  tj_order_id :: string
  tj_symbol :: symbol
  tj_strategy :: strategy
  tj_side :: side
  tj_requested :: int
  tj_filled :: int
  tj_price :: decimal
  tj_signal_ts :: ns
  tj_submit_ts :: ns
  tj_fill_ts :: ns
  tj_cost_bps :: decimal
  tj_fees :: decimal
  tj_realized :: decimal
  tj_correlation :: string
  tj_intent :: string
  tj_mechanism :: "trend_mechanism option"
  tj_half_life :: int
  tj_regime :: string
  tj_metadata :: "(string \<times> string) list"

datatype kernel_out =
    OutAlert alert_severity string string int \<comment> \<open>severity, name, correlation, sequence\<close>
  | OutOrderTransition "order_state transition_record" int
  | OutRiskTransition "risk_level transition_record" int
  | OutMacroTransition "macro_state transition_record" int
  | OutMicroTransition "micro_state transition_record" int
  | OutAck order_ack
  | OutOrder order_request
  | OutVerdict risk_action string
  | OutPosition position_update
  | OutKill string string int \<comment> \<open>reason, activated by, sequence\<close>

record kernel_log =
  kl_seq :: int
  kl_out :: "kernel_out list"

definition publish :: "kernel_out \<Rightarrow> kernel_log \<Rightarrow> kernel_log" where
  "publish e l = l\<lparr>kl_out := kl_out l @ [e]\<rparr>"

definition next_seq :: "kernel_log \<Rightarrow> int \<times> kernel_log" where
  "next_seq l = (kl_seq l, l\<lparr>kl_seq := kl_seq l + 1\<rparr>)"

definition publish_numbered :: "(int \<Rightarrow> kernel_out) \<Rightarrow> kernel_log \<Rightarrow> kernel_log" where
  "publish_numbered f l = (case next_seq l of (n, l') \<Rightarrow> publish (f n) l')"

text \<open>\<open>\_emit\_state\_transition\<close>, registered on every machine the kernel owns.\<close>

definition emit_state_transition :: "('x \<Rightarrow> int \<Rightarrow> kernel_out) \<Rightarrow> 'x \<Rightarrow> kernel_log \<Rightarrow> kernel_log \<times> exn option" where
  "emit_state_transition out r l = (publish_numbered (out r) l, None)"

subsection \<open>State\<close>

type_synonym active_order = "(order_state, kernel_log) machine \<times> side \<times> order_request"

record 'r kernel =
  k_now :: ns
  k_log :: kernel_log
  k_active :: "(string \<times> active_order) list"
  k_intents :: "(string \<times> string) list"
  k_announced :: "(string \<times> int) list"
  k_fallback :: "(string \<times> (symbol \<times> side \<times> int)) list"
  k_filled :: "(string \<times> int) list"
  k_deferred :: "order_ack list"
  k_positions :: position_store
  k_lots :: lot_ledger
  k_slices :: "strategy_store option"
  k_fill_ledger :: "fill_ledger option"
  k_streak :: "(strategy \<times> int) list"
  k_kill :: "bool option"
  k_traded :: "(strategy \<times> symbol) list"
  k_hazard_ids :: "string list"
  k_pdt :: "(symbol \<times> int \<times> int \<times> ns) list"
  k_journal :: "trade_record list option"
  k_mechanism :: "((strategy \<times> symbol) \<times> (trend_mechanism option \<times> int)) list"
  k_risk :: "(risk_level, kernel_log) machine"
  k_macro :: "(macro_state, kernel_log) machine"
  k_micro :: "(micro_state, kernel_log) machine"
  k_router :: 'r

type_synonym ('r, 'a) kact = "('r kernel, 'a) act"

definition alert :: "alert_severity \<Rightarrow> string \<Rightarrow> string \<Rightarrow> ('r, unit) kact" where
  "alert severity name cid = modify (\<lambda>k. k\<lparr>k_log := publish_numbered (OutAlert severity name cid) (k_log k)\<rparr>)"

definition publish_event :: "kernel_out \<Rightarrow> ('r, unit) kact" where
  "publish_event e = modify (\<lambda>k. k\<lparr>k_log := publish e (k_log k)\<rparr>)"

definition terminal_order_states :: "order_state set" where
  "terminal_order_states = {FILLED, CANCELLED, REJECTED, EXPIRED}"

definition new_kernel ::
  "ns \<Rightarrow> 'r \<Rightarrow> position_store \<Rightarrow> strategy_store option \<Rightarrow> fill_ledger option \<Rightarrow> bool option
    \<Rightarrow> trade_record list option \<Rightarrow> 'r kernel result" where
  "new_kernel now router positions slices ledger kill journal =
     bind_result create_macro_state_machine (\<lambda>macro.
     bind_result create_micro_state_machine (\<lambda>micro.
     bind_result create_risk_escalation_machine (\<lambda>risk.
       Inr \<lparr>k_now = now, k_log = \<lparr>kl_seq = 0, kl_out = []\<rparr>, k_active = [], k_intents = [], k_announced = [],
            k_fallback = [], k_filled = [], k_deferred = [], k_positions = positions, k_lots = empty_lot_ledger,
            k_slices = slices, k_fill_ledger = ledger, k_streak = [], k_kill = kill, k_traded = [],
            k_hazard_ids = [], k_pdt = [], k_journal = journal, k_mechanism = [],
            k_risk = on_transition (emit_state_transition OutRiskTransition) risk,
            k_macro = on_transition (emit_state_transition OutMacroTransition) macro,
            k_micro = on_transition (emit_state_transition OutMicroTransition) micro,
            k_router = router\<rparr>)))"

subsection \<open>Order state machines\<close>

definition order_transition :: "string \<Rightarrow> order_state \<Rightarrow> string \<Rightarrow> string \<Rightarrow> ('r, unit) kact" where
  \<comment> \<open>\<open>sm.transition(...)\<close> on the machine of an active order\<close>
  "order_transition oid target trigger cid k =
     (case map_of (k_active k) oid of
        None \<Rightarrow> (Inr (), k)
      | Some (sm, side, order) \<Rightarrow>
          (case transition sm target trigger cid None (k_now k) (k_log k) of
             (r, sm', l') \<Rightarrow>
               (map_sum id (\<lambda>_. ()) r,
                k\<lparr>k_active := dict_set oid (sm', side, order) (k_active k), k_log := l'\<rparr>)))"

definition order_machine_state :: "'r kernel \<Rightarrow> string \<Rightarrow> order_state option" where
  "order_machine_state k oid = map_option (\<lambda>(sm, _, _). sm_state sm) (map_of (k_active k) oid)"

definition order_can :: "'r kernel \<Rightarrow> string \<Rightarrow> order_state \<Rightarrow> bool" where
  "order_can k oid target =
     (case map_of (k_active k) oid of None \<Rightarrow> False | Some (sm, _, _) \<Rightarrow> can_transition sm target)"

definition transition_order :: "string \<Rightarrow> order_state \<Rightarrow> string \<Rightarrow> string \<Rightarrow> ('r, unit) kact" where
  "transition_order = order_transition"

definition order_if :: "string \<Rightarrow> order_state \<Rightarrow> string \<Rightarrow> string \<Rightarrow> ('r, unit) kact \<Rightarrow> ('r, unit) kact" where
  \<comment> \<open>\<open>if sm.can_transition(t): sm.transition(t, ...) else: ...\<close>\<close>
  "order_if oid target trigger cid otherwise k =
     (if order_can k oid target then order_transition oid target trigger cid k else otherwise k)"

definition self_attributed_reasons :: "string set" where
  "self_attributed_reasons =
     {''SAFETY_FAIL_CLOSED'', ''DECOUPLING_REVOKED'', ''MAX_HOLD_AFTER_SAFE_OFF'', ''SESSION_FLATTEN''}"

definition risk_forced_reasons :: "string set" where
  "risk_forced_reasons =
     {''HAZARD_SPIKE'', ''HARD_EXIT_AGE'', ''SAFETY_FAIL_CLOSED'', ''DECOUPLING_REVOKED'',
      ''MAX_HOLD_AFTER_SAFE_OFF'', ''SESSION_FLATTEN'', ''STOP_EXIT'', ''SESSION_FLAT''}"

definition slice_scoped_reasons :: "string set" where
  "slice_scoped_reasons =
     {''SAFETY_FAIL_CLOSED'', ''DECOUPLING_REVOKED'', ''HARD_EXIT_AGE'', ''MAX_HOLD_AFTER_SAFE_OFF'',
      ''SESSION_FLATTEN''}"

definition order_owns_one_slice :: "order_request \<Rightarrow> bool" where
  "order_owns_one_slice o' =
     (if or_strategy o' = '''' then False
      else if or_reason o' \<in> self_attributed_reasons then True
      else or_reason o' \<notin> risk_forced_reasons)"

definition record_fill_attribution :: "string \<Rightarrow> side \<Rightarrow> order_request \<Rightarrow> 'r kernel \<Rightarrow> 'r kernel" where
  "record_fill_attribution oid side o' k =
     (case k_fill_ledger k of
        None \<Rightarrow> k
      | Some F \<Rightarrow>
          if \<not> order_owns_one_slice o' then k
          else k\<lparr>k_fill_ledger := Some (fal_record F
             \<lparr>at_order_id = oid, at_symbol = or_symbol o', at_net_side = side,
              at_net_quantity = or_quantity o',
              at_contributions = [\<lparr>ac_strategy = or_strategy o',
                                   ac_signed_quantity = or_quantity o', ac_proportion = 1\<rparr>]\<rparr>)\<rparr>)"

definition track_order :: "string \<Rightarrow> side \<Rightarrow> order_request \<Rightarrow> string \<Rightarrow> ('r, unit) kact" where
  "track_order oid side o' trading_intent k =
     (case create_order_state_machine oid of
        Inl e \<Rightarrow> (Inl e, k)
      | Inr sm \<Rightarrow>
          let sm' = on_transition (emit_state_transition OutOrderTransition) sm;
              k1 = k\<lparr>k_active := dict_set oid (sm', side, o') (k_active k)\<rparr>;
              k2 = (if trading_intent \<noteq> '''' then k1\<lparr>k_intents := dict_set oid trading_intent (k_intents k1)\<rparr> else k1)
          in (Inr (), record_fill_attribution oid side o' k2))"

definition prune_terminal_orders :: "'r kernel \<Rightarrow> 'r kernel" where
  "prune_terminal_orders k =
     (let terminal = map fst (filter (\<lambda>(oid, (sm, _, _)). sm_state sm \<in> terminal_order_states) (k_active k))
      in fold (\<lambda>oid k. k\<lparr>k_active := dict_pop oid (k_active k), k_intents := dict_pop oid (k_intents k),
                         k_announced := dict_pop oid (k_announced k)\<rparr>) terminal k)"

definition has_pending_order_for_symbol :: "'r kernel \<Rightarrow> symbol \<Rightarrow> bool" where
  "has_pending_order_for_symbol k s =
     list_ex (\<lambda>(_, (sm, _, o')). or_symbol o' = s \<and> sm_state sm \<notin> terminal_order_states) (k_active k)"

definition has_pending_exit_for_symbol :: "'r kernel \<Rightarrow> symbol \<Rightarrow> bool" where
  "has_pending_exit_for_symbol k s =
     (let q = pos_quantity (ps_get (k_positions k) s) in
      if q = 0 then False
      else list_ex (\<lambda>(_, (sm, side, o')). or_symbol o' = s \<and> sm_state sm \<notin> terminal_order_states
             \<and> side = (if 0 < q then SELL else BUY)) (k_active k))"

subsection \<open>Acknowledgements\<close>

definition emit_ack_drop_alert :: "order_ack \<Rightarrow> ('r, unit) kact" where
  "emit_ack_drop_alert a = alert alert_severity.WARNING ''ack_inapplicable_to_order_state'' (ev_correlation a)"

definition apply_ack_to_order :: "order_ack \<Rightarrow> ('r, unit) kact" where
  "apply_ack_to_order a k =
     (let oid = oa_order_id a; cid = ev_correlation a; st = oa_status a in
      case map_of (k_active k) oid of
        None \<Rightarrow> alert alert_severity.WARNING ''ack_for_unknown_order'' cid k
      | Some (sm, _, _) \<Rightarrow>
          if st = ACK_REJECTED
          then order_if oid REJECTED (''broker_reject:'' @ oa_reason a) cid (emit_ack_drop_alert a) k
          else if st = ACK_ACKNOWLEDGED
          then (if sm_state sm = SUBMITTED then order_transition oid ACKNOWLEDGED ''broker_ack'' cid k
                else (Inr (), k))
          else andThen
            (if sm_state sm = SUBMITTED then order_transition oid ACKNOWLEDGED ''broker_ack'' cid else ok ())
            (\<lambda>_ k.
               if st = ACK_FILLED
               then (if order_machine_state k oid = Some FILLED
                     then alert alert_severity.WARNING ''duplicate_terminal_fill_ack'' cid k
                     else order_if oid FILLED ''fill_complete'' cid (emit_ack_drop_alert a) k)
               else if st = ACK_PARTIALLY_FILLED
               then order_if oid PARTIALLY_FILLED ''partial_fill'' cid (emit_ack_drop_alert a) k
               else if st = ACK_CANCELLED
               then order_if oid CANCELLED ''broker_cancel'' cid (emit_ack_drop_alert a) k
               else order_if oid EXPIRED ''order_expired'' cid (emit_ack_drop_alert a) k) k)"

definition publish_and_apply_order_acks :: "order_ack list \<Rightarrow> ('r, unit) kact" where
  "publish_and_apply_order_acks acks =
     each (\<lambda>a. andThen (publish_event (OutAck a)) (\<lambda>_. apply_ack_to_order a)) acks"

definition reject_order_after_submit_failure :: "order_request \<Rightarrow> string \<Rightarrow> ('r, unit) kact" where
  \<comment> \<open>the second argument is the exception's type name\<close>
  "reject_order_after_submit_failure o' exc_type =
     andThen (alert alert_severity.WARNING ''order_submit_failed'' (ev_correlation o'))
       (\<lambda>_ k. if map_of (k_active k) (or_order_id o') = None then (Inr (), k)
              else andThen (order_if (or_order_id o') REJECTED (''submit_failed:'' @ exc_type) (ev_correlation o') (ok ()))
                     (\<lambda>_. modify prune_terminal_orders) k)"

definition force_order_terminal_after_pipeline_error ::
  "order_request \<Rightarrow> string \<Rightarrow> string \<Rightarrow> ('r, unit) kact" where
  "force_order_terminal_after_pipeline_error o' exc_type ctxt =
     andThen (alert alert_severity.WARNING ''order_pipeline_exception'' (ev_correlation o'))
       (\<lambda>_ k.
          let oid = or_order_id o'; cid = ev_correlation o';
              trigger = ctxt @ ''_pipeline_abort:'' @ exc_type;
              go = (\<lambda>t. andThen (order_transition oid t trigger cid) (\<lambda>_. modify prune_terminal_orders) k)
          in case order_machine_state k oid of
               None \<Rightarrow> (Inr (), k)
             | Some s \<Rightarrow>
                 if s \<in> terminal_order_states then (Inr (), prune_terminal_orders k)
                 else if order_can k oid REJECTED then go REJECTED
                 else if order_can k oid CANCELLED then go CANCELLED
                 else if order_can k oid EXPIRED then go EXPIRED
                 else (Inr (), k))"

subsection \<open>Active orders follow the order table\<close>

definition machine_ok :: "(order_state, kernel_log) machine \<Rightarrow> bool" where
  "machine_ok sm \<longleftrightarrow> sm_transitions sm = order_transitions
     \<and> sm_callbacks sm = [emit_state_transition OutOrderTransition]"

definition active_ok :: "'r kernel \<Rightarrow> bool" where
  "active_ok k \<longleftrightarrow> (\<forall>oid sm side o'. map_of (k_active k) oid = Some (sm, side, o') \<longrightarrow> machine_ok sm)"

definition allowed :: "order_state \<Rightarrow> order_state \<Rightarrow> bool" where
  "allowed s t \<longleftrightarrow> t \<in> the (order_transitions s)"

lemma allowed_simps [simp]:
  "allowed CREATED t \<longleftrightarrow> t \<in> the (order_transitions CREATED)"
  "allowed SUBMITTED t \<longleftrightarrow> t \<in> the (order_transitions SUBMITTED)"
  "allowed ACKNOWLEDGED t \<longleftrightarrow> t \<in> the (order_transitions ACKNOWLEDGED)"
  "allowed PARTIALLY_FILLED t \<longleftrightarrow> t \<in> the (order_transitions PARTIALLY_FILLED)"
  "allowed CANCEL_REQUESTED t \<longleftrightarrow> t \<in> the (order_transitions CANCEL_REQUESTED)"
  "\<not> allowed FILLED t" "\<not> allowed CANCELLED t" "\<not> allowed REJECTED t" "\<not> allowed EXPIRED t"
  by (simp_all add: allowed_def)

lemma terminal_not_allowed: "s \<in> terminal_order_states \<longleftrightarrow> (\<forall>t. \<not> allowed s t)"
  by (cases s) (auto simp: terminal_order_states_def allowed_def)

lemma machine_can: "machine_ok sm \<Longrightarrow> can_transition sm t \<longleftrightarrow> allowed (sm_state sm) t"
  by (cases "sm_state sm") (simp_all add: machine_ok_def can_transition_def allowed_def)

lemma machine_ok_commit [simp]: "machine_ok (commit r t sm) = machine_ok sm"
  by (simp add: machine_ok_def)

text \<open>One request on an active order: granted exactly along the table, logged, and it touches
  nothing but that order's machine and the log.\<close>

definition moved :: "string \<Rightarrow> order_state \<Rightarrow> string \<Rightarrow> string \<Rightarrow> 'r kernel \<Rightarrow> 'r kernel" where
  "moved oid t trigger cid k =
     (case map_of (k_active k) oid of
        None \<Rightarrow> k
      | Some (sm, side, o') \<Rightarrow>
          let r = new_record sm t trigger cid [] (k_now k)
          in k\<lparr>k_active := dict_set oid (commit r t sm, side, o') (k_active k),
               k_log := publish_numbered (OutOrderTransition r) (k_log k)\<rparr>)"

lemma order_transition_run:
  assumes "active_ok k" "order_machine_state k oid = Some s"
  shows "order_transition oid t trigger cid k =
    (if allowed s t then (Inr (), moved oid t trigger cid k)
     else (Inl (IllegalTransition (case map_of (k_active k) oid of Some (sm, _, _) \<Rightarrow> sm_name sm | None \<Rightarrow> '''') trigger), k))"
proof -
  obtain sm side o' where o: "map_of (k_active k) oid = Some (sm, side, o')" "sm_state sm = s"
    using assms(2) by (auto simp: order_machine_state_def)
  have ok: "machine_ok sm" using assms(1) o(1) by (auto simp: active_ok_def)
  show ?thesis
  proof (cases "allowed s t")
    case True
    then show ?thesis using o ok machine_can[OF ok, of t]
      by (simp add: order_transition_def transition_def announce_def machine_ok_def emit_state_transition_def
          moved_def Let_def)
  next
    case False
    then show ?thesis using o machine_can[OF ok, of t]
      by (simp add: order_transition_def transition_def dict_set_same)
  qed
qed

lemma order_machine_moved:
  "order_machine_state (moved oid t trigger cid k) oid' =
    (if oid' = oid then map_option (\<lambda>_. t) (order_machine_state k oid) else order_machine_state k oid')"
  by (auto simp: moved_def order_machine_state_def Let_def split: option.splits)

lemma active_ok_moved: "active_ok k \<Longrightarrow> active_ok (moved oid t trigger cid k)"
  by (auto simp: active_ok_def moved_def Let_def split: option.splits if_splits)

lemma order_can_run:
  "active_ok k \<Longrightarrow> order_machine_state k oid = Some s \<Longrightarrow> order_can k oid t = allowed s t"
  by (auto simp: order_machine_state_def order_can_def active_ok_def machine_can split: option.splits)

lemma order_if_run:
  assumes "active_ok k" "order_machine_state k oid = Some s"
  shows "order_if oid t trigger cid alt k = (if allowed s t then (Inr (), moved oid t trigger cid k) else alt k)"
  using order_transition_run[OF assms] order_can_run[OF assms] by (simp add: order_if_def)

subsection \<open>What an acknowledgement does to its order\<close>

text \<open>The abstract order: an acknowledgement first confirms a submitted order, then moves it to
  the reported status when the table has that edge; otherwise it changes nothing.\<close>

fun ack_target :: "order_ack_status \<Rightarrow> order_state" where
  "ack_target ACK_ACKNOWLEDGED = ACKNOWLEDGED"
| "ack_target ACK_PARTIALLY_FILLED = PARTIALLY_FILLED"
| "ack_target ACK_FILLED = FILLED"
| "ack_target ACK_CANCELLED = CANCELLED"
| "ack_target ACK_REJECTED = REJECTED"
| "ack_target ACK_EXPIRED = EXPIRED"

definition ack_result :: "order_ack_status \<Rightarrow> order_state \<Rightarrow> order_state" where
  "ack_result st s =
     (let s1 = (if s = SUBMITTED \<and> st \<noteq> ACK_REJECTED then ACKNOWLEDGED else s)
      in if st \<noteq> ACK_ACKNOWLEDGED \<and> allowed s1 (ack_target st) then ack_target st else s1)"

lemma ack_result_terminal: "s \<in> terminal_order_states \<Longrightarrow> ack_result st s = s"
  by (auto simp: ack_result_def terminal_order_states_def)

text \<open>\<open>touches oid k k'\<close>: \<open>k'\<close> differs from \<open>k\<close> in the machine of \<open>oid\<close> and the log only.\<close>

definition touches :: "string \<Rightarrow> 'r kernel \<Rightarrow> 'r kernel \<Rightarrow> bool" where
  "touches oid k k' \<longleftrightarrow> active_ok k' \<and> (\<forall>oid'. oid' \<noteq> oid \<longrightarrow> map_of (k_active k') oid' = map_of (k_active k) oid')
     \<and> map fst (k_active k') = map fst (k_active k)
     \<and> (\<forall>oid'. map_option snd (map_of (k_active k') oid') = map_option snd (map_of (k_active k) oid'))
     \<and> (\<exists>A L. k' = k\<lparr>k_active := A, k_log := L\<rparr>)"

lemma frame_log: "\<exists>A L. k\<lparr>k_log := l\<rparr> = k\<lparr>k_active := A, k_log := L\<rparr>"
  by (rule exI[of _ "k_active k"], rule exI[of _ l]) simp

lemma touches_log: "active_ok k \<Longrightarrow> touches oid k (k\<lparr>k_log := l\<rparr>)"
  using frame_log[of l k] by (auto simp: touches_def active_ok_def)

lemma touches_refl: "active_ok k \<Longrightarrow> touches oid k k"
  using touches_log[of k oid "k_log k"] by simp

lemma touches_trans: "touches oid k k1 \<Longrightarrow> touches oid k1 k2 \<Longrightarrow> touches oid k k2"
proof -
  assume k1: "touches oid k k1" and k2: "touches oid k1 k2"
  obtain A L where "k1 = k\<lparr>k_active := A, k_log := L\<rparr>" using k1 unfolding touches_def by blast
  moreover obtain A' L' where "k2 = k1\<lparr>k_active := A', k_log := L'\<rparr>" using k2 unfolding touches_def by blast
  ultimately have "k2 = k\<lparr>k_active := A', k_log := L'\<rparr>" by simp
  then show ?thesis using k1 k2 unfolding touches_def by auto
qed

lemma touches_moved: "active_ok k \<Longrightarrow> touches oid k (moved oid t trigger cid k)"
proof -
  assume k: "active_ok k"
  have "\<exists>A L. moved oid t trigger cid k = k\<lparr>k_active := A, k_log := L\<rparr>"
    using frame_log[of "k_log k" k]
    by (cases "map_of (k_active k) oid") (auto simp: moved_def Let_def)
  then show ?thesis using active_ok_moved[OF k, of oid t trigger cid]
    unfolding touches_def
    by (auto simp: moved_def Let_def map_fst_dict_set split: option.splits)
qed

lemma order_machine_log [simp]: "order_machine_state (k\<lparr>k_log := l\<rparr>) oid = order_machine_state k oid"
  by (simp add: order_machine_state_def)

lemma apply_ack_known:
  assumes "active_ok k" "order_machine_state k (oa_order_id a) = Some s"
  shows "\<exists>k'. apply_ack_to_order a k = (Inr (), k') \<and> touches (oa_order_id a) k k'
    \<and> order_machine_state k' (oa_order_id a) = Some (ack_result (oa_status a) s)"
proof -
  let ?oid = "oa_order_id a" and ?cid = "ev_correlation a"
  obtain sm side o' where o: "map_of (k_active k) ?oid = Some (sm, side, o')" "sm_state sm = s"
    using assms(2) by (auto simp: order_machine_state_def)
  have alert: "alert sev name ?cid k1 = (Inr (), k1\<lparr>k_log := publish_numbered (OutAlert sev name ?cid) (k_log k1)\<rparr>)"
    for sev name and k1 :: "'a kernel"
    by (simp add: alert_def modify_def)
  have step: "\<exists>k'. order_if ?oid t trigger ?cid (emit_ack_drop_alert a) k1 = (Inr (), k') \<and> touches ?oid k1 k'
      \<and> order_machine_state k' ?oid = Some (if allowed s1 t then t else s1)"
    if "active_ok k1" "order_machine_state k1 ?oid = Some s1" for k1 :: "'a kernel" and s1 t trigger
    using order_if_run[OF that] touches_moved[OF that(1)] touches_log[OF that(1)] that(2)
    by (simp add: emit_ack_drop_alert_def alert order_machine_moved)
  define k1 where "k1 = (if s = SUBMITTED \<and> oa_status a \<noteq> ACK_REJECTED then moved ?oid ACKNOWLEDGED ''broker_ack'' ?cid k else k)"
  define s1 where "s1 = (if s = SUBMITTED \<and> oa_status a \<noteq> ACK_REJECTED then ACKNOWLEDGED else s)"
  have k1: "active_ok k1" "order_machine_state k1 ?oid = Some s1" "touches ?oid k k1"
    using assms touches_moved[OF assms(1)] touches_refl[OF assms(1)] active_ok_moved[OF assms(1)]
    by (auto simp: k1_def s1_def order_machine_moved)
  have confirm: "oa_status a \<noteq> ACK_REJECTED \<Longrightarrow> (if s = SUBMITTED then order_transition ?oid ACKNOWLEDGED ''broker_ack'' ?cid else ok ()) k = (Inr (), k1)"
    using order_transition_run[OF assms] by (simp add: k1_def ok_def)
  consider "oa_status a = ACK_REJECTED" | "oa_status a = ACK_ACKNOWLEDGED"
    | (filled) "oa_status a = ACK_FILLED" "s1 = FILLED"
    | (other) "oa_status a \<in> {ACK_FILLED, ACK_PARTIALLY_FILLED, ACK_CANCELLED, ACK_EXPIRED}"
      "oa_status a = ACK_FILLED \<longrightarrow> s1 \<noteq> FILLED"
    by (cases "oa_status a") auto
  then show ?thesis
  proof cases
    case 1
    then show ?thesis using step[OF assms, of REJECTED "''broker_reject:'' @ oa_reason a"] o
      by (auto simp: apply_ack_to_order_def ack_result_def)
  next
    case 2
    then show ?thesis using confirm k1 o
      by (auto simp: apply_ack_to_order_def ack_result_def s1_def ok_def)
  next
    case filled
    then show ?thesis
      using confirm k1(2) o touches_trans[OF k1(3) touches_log[OF k1(1)]]
      by (auto simp: apply_ack_to_order_def andThen_def alert ack_result_def s1_def)
  next
    case other
    obtain trigger where t: "apply_ack_to_order a k = order_if ?oid (ack_target (oa_status a)) trigger ?cid (emit_ack_drop_alert a) k1"
      using other confirm k1(2) o by (auto simp: apply_ack_to_order_def andThen_def)
    obtain k' where "order_if ?oid (ack_target (oa_status a)) trigger ?cid (emit_ack_drop_alert a) k1 = (Inr (), k')"
      "touches ?oid k1 k'" "order_machine_state k' ?oid = Some (if allowed s1 (ack_target (oa_status a)) then ack_target (oa_status a) else s1)"
      using step[OF k1(1,2)] by blast
    then show ?thesis using t touches_trans[OF k1(3)] other(1)
      by (auto simp: ack_result_def s1_def Let_def)
  qed
qed

lemma publish_event_run: "publish_event e k = (Inr (), k\<lparr>k_log := publish e (k_log k)\<rparr>)"
  by (simp add: publish_event_def modify_def)

lemma apply_ack_unknown:
  assumes "order_machine_state k (oa_order_id a) = None"
  shows "apply_ack_to_order a k
    = (Inr (), k\<lparr>k_log := publish_numbered (OutAlert alert_severity.WARNING ''ack_for_unknown_order'' (ev_correlation a)) (k_log k)\<rparr>)"
  using assms by (simp add: order_machine_state_def apply_ack_to_order_def alert_def modify_def)

lemma touches_state: "touches oid k k' \<Longrightarrow> oid' \<noteq> oid \<Longrightarrow> order_machine_state k' oid' = order_machine_state k oid'"
  by (simp add: touches_def order_machine_state_def)

text \<open>A batch touches machines and the log only.\<close>

definition batch_touches :: "'r kernel \<Rightarrow> 'r kernel \<Rightarrow> bool" where
  "batch_touches k k' \<longleftrightarrow> active_ok k' \<and> map fst (k_active k') = map fst (k_active k)
     \<and> (\<forall>oid. map_option snd (map_of (k_active k') oid) = map_option snd (map_of (k_active k) oid))
     \<and> (\<exists>A L. k' = k\<lparr>k_active := A, k_log := L\<rparr>)"

lemma touches_batch: "touches oid k k' \<Longrightarrow> batch_touches k k'"
  by (auto simp: touches_def batch_touches_def)

lemma batch_trans: "batch_touches k k1 \<Longrightarrow> batch_touches k1 k2 \<Longrightarrow> batch_touches k k2"
proof -
  assume k1: "batch_touches k k1" and k2: "batch_touches k1 k2"
  obtain A L where "k1 = k\<lparr>k_active := A, k_log := L\<rparr>" using k1 unfolding batch_touches_def by blast
  moreover obtain A' L' where "k2 = k1\<lparr>k_active := A', k_log := L'\<rparr>" using k2 unfolding batch_touches_def by blast
  ultimately have "k2 = k\<lparr>k_active := A', k_log := L'\<rparr>" by simp
  then show ?thesis using k1 k2 unfolding batch_touches_def by auto
qed

lemma one_ack:
  assumes "active_ok k"
  shows "\<exists>k'. andThen (publish_event (OutAck a)) (\<lambda>_. apply_ack_to_order a) k = (Inr (), k') \<and> batch_touches k k'
    \<and> (\<forall>oid. order_machine_state k' oid = map_option (if oid = oa_order_id a then ack_result (oa_status a) else id) (order_machine_state k oid))"
proof -
  let ?k = "k\<lparr>k_log := publish (OutAck a) (k_log k)\<rparr>"
  have t: "touches (oa_order_id a) k ?k" by (rule touches_log[OF assms])
  have k: "active_ok ?k" using assms by (simp add: active_ok_def)
  have run: "andThen (publish_event (OutAck a)) (\<lambda>_. apply_ack_to_order a) k = apply_ack_to_order a ?k"
    by (simp add: andThen_def publish_event_run)
  show ?thesis
  proof (cases "order_machine_state k (oa_order_id a)")
    case None
    then have "order_machine_state ?k (oa_order_id a) = None" by simp
    then show ?thesis unfolding run apply_ack_unknown[OF \<open>order_machine_state ?k (oa_order_id a) = None\<close>]
      using None batch_trans[OF touches_batch[OF t] touches_batch[OF touches_log[OF k]]]
      by (auto simp: option.map_id)
  next
    case (Some s)
    then have "order_machine_state ?k (oa_order_id a) = Some s" by simp
    from apply_ack_known[OF k this] obtain k' where "apply_ack_to_order a ?k = (Inr (), k')"
      "touches (oa_order_id a) ?k k'" "order_machine_state k' (oa_order_id a) = Some (ack_result (oa_status a) s)"
      by blast
    then show ?thesis unfolding run
      using Some touches_trans[OF t] touches_state by (fastforce simp: option.map_id intro: touches_batch)
  qed
qed

text \<open>C4: Acknowledgements drive orders along their life cycle and nothing else. Whatever acks a
  batch holds, in whatever order, with duplicates, late or for unknown orders, applying it
  never raises; it changes no order's side or request, no position and no ledger; and every
  order ends in the state that folding the abstract acknowledgement table over its own acks
  gives, so an order that was terminal stays where it was.\<close>

theorem acks_follow_order_table:
  assumes "active_ok k"
  shows "\<exists>k'. publish_and_apply_order_acks acks k = (Inr (), k')
    \<and> active_ok k' \<and> map fst (k_active k') = map fst (k_active k)
    \<and> (\<exists>A L. k' = k\<lparr>k_active := A, k_log := L\<rparr>)
    \<and> (\<forall>oid. map_option snd (map_of (k_active k') oid) = map_option snd (map_of (k_active k) oid)
        \<and> order_machine_state k' oid
          = map_option (fold ack_result (map oa_status (filter (\<lambda>a. oa_order_id a = oid) acks))) (order_machine_state k oid)
        \<and> (\<forall>s \<in> terminal_order_states. order_machine_state k oid = Some s \<longrightarrow> order_machine_state k' oid = Some s))"
proof -
  have "\<exists>k'. publish_and_apply_order_acks acks k = (Inr (), k') \<and> batch_touches k k'
    \<and> (\<forall>oid. order_machine_state k' oid
          = map_option (fold ack_result (map oa_status (filter (\<lambda>a. oa_order_id a = oid) acks))) (order_machine_state k oid))"
    using assms
  proof (induction acks arbitrary: k)
    case Nil
    then show ?case using touches_batch[OF touches_refl[OF Nil]]
      by (auto simp: publish_and_apply_order_acks_def ok_def option.map_ident)
  next
    case (Cons a acks)
    obtain k1 where one: "andThen (publish_event (OutAck a)) (\<lambda>_. apply_ack_to_order a) k = (Inr (), k1)" "batch_touches k k1"
      "\<forall>oid. order_machine_state k1 oid = map_option (if oid = oa_order_id a then ack_result (oa_status a) else id) (order_machine_state k oid)"
      using one_ack[OF Cons.prems] by blast
    have "active_ok k1" using one(2) by (simp add: batch_touches_def)
    from Cons.IH[OF this] obtain k2 where two: "publish_and_apply_order_acks acks k1 = (Inr (), k2)" "batch_touches k1 k2"
      "\<forall>oid. order_machine_state k2 oid
          = map_option (fold ack_result (map oa_status (filter (\<lambda>a. oa_order_id a = oid) acks))) (order_machine_state k1 oid)"
      by blast
    have "publish_and_apply_order_acks (a # acks) k = (Inr (), k2)"
      using one(1) two(1) by (simp add: publish_and_apply_order_acks_def andThen_def)
    moreover have "order_machine_state k2 oid
          = map_option (fold ack_result (map oa_status (filter (\<lambda>a. oa_order_id a = oid) (a # acks)))) (order_machine_state k oid)" for oid
      using one(3) two(3) by (cases "order_machine_state k oid") auto
    ultimately show ?case using batch_trans[OF one(2) two(2)] by blast
  qed
  then obtain k' where k': "publish_and_apply_order_acks acks k = (Inr (), k')" "batch_touches k k'"
    "\<forall>oid. order_machine_state k' oid
          = map_option (fold ack_result (map oa_status (filter (\<lambda>a. oa_order_id a = oid) acks))) (order_machine_state k oid)"
    by blast
  have fix_terminal: "s \<in> terminal_order_states \<Longrightarrow> fold ack_result sts s = s" for s sts
    by (induction sts) (simp_all add: ack_result_terminal)
  show ?thesis using k' by (intro exI[of _ k']) (auto simp: batch_touches_def fix_terminal)
qed

subsection \<open>Tracking and forced termination\<close>

lemma new_kernel_exists:
  "\<exists>k. new_kernel now router positions slices ledger kill journal = Inr k \<and> k_active k = [] \<and> k_positions k = positions
    \<and> k_slices k = slices \<and> k_fill_ledger k = ledger \<and> k_kill k = kill \<and> k_lots k = empty_lot_ledger
    \<and> k_risk k = on_transition (emit_state_transition OutRiskTransition) (projr create_risk_escalation_machine)
    \<and> k_macro k = on_transition (emit_state_transition OutMacroTransition) (projr create_macro_state_machine)
    \<and> k_fallback k = [] \<and> k_router k = router \<and> k_journal k = journal \<and> k_deferred k = [] \<and> k_hazard_ids k = []"
proof -
  obtain a where a: "(create_macro_state_machine :: (macro_state, kernel_log) machine result) = Inr a"
    using macro_table.builds_limited[of 64] by (auto simp: create_macro_state_machine_def)
  obtain b where b: "(create_micro_state_machine :: (micro_state, kernel_log) machine result) = Inr b"
    using micro_table.builds_limited[of 256] by (auto simp: create_micro_state_machine_def)
  obtain c where c: "(create_risk_escalation_machine :: (risk_level, kernel_log) machine result) = Inr c"
    using risk_table.builds by (auto simp: create_risk_escalation_machine_def)
  show ?thesis by (simp add: new_kernel_def a b c)
qed

lemma track_order_run:
  assumes "active_ok k"
  shows "\<exists>k' sm. track_order oid side o' intent k = (Inr (), k') \<and> active_ok k' \<and> machine_ok sm \<and> sm_state sm = CREATED
    \<and> k_active k' = dict_set oid (sm, side, o') (k_active k) \<and> k_positions k' = k_positions k
    \<and> k_slices k' = k_slices k \<and> k_router k' = k_router k \<and> k_log k' = k_log k \<and> k_lots k' = k_lots k"
proof -
  obtain sm where sm: "(create_order_state_machine oid :: (order_state, kernel_log) machine result) = Inr sm"
    using order_table.builds[of "''order:'' @ oid" CREATED] by (auto simp: create_order_state_machine_def)
  then have "sm_transitions sm = order_transitions" "sm_callbacks sm = []" "sm_state sm = CREATED"
    by (auto simp: create_order_state_machine_def new_machine_Inr_iff)
  then have "machine_ok (on_transition (emit_state_transition OutOrderTransition) sm)"
    "sm_state (on_transition (emit_state_transition OutOrderTransition) sm) = CREATED"
    by (simp_all add: machine_ok_def on_transition_def)
  then show ?thesis using assms
    by (auto simp: track_order_def sm Let_def record_fill_attribution_def active_ok_def split: option.splits)
qed

lemma prune_loop:
  "fold (\<lambda>oid k. k\<lparr>k_active := dict_pop oid (k_active k), k_intents := dict_pop oid (k_intents k),
                 k_announced := dict_pop oid (k_announced k)\<rparr>) oids k
    = k\<lparr>k_active := filter (\<lambda>p. fst p \<notin> set oids) (k_active k),
        k_intents := filter (\<lambda>p. fst p \<notin> set oids) (k_intents k),
        k_announced := filter (\<lambda>p. fst p \<notin> set oids) (k_announced k)\<rparr>"
  by (induction oids arbitrary: k) (auto simp: dict_pop_def conj_commute)

text \<open>Pruning drops exactly the terminal orders, when ids are distinct keys.\<close>

lemma filter_other_keys:
  assumes "distinct (map fst d)"
  shows "filter (\<lambda>p. fst p \<notin> set (map fst (filter P d))) d = filter (\<lambda>p. \<not> P p) d"
proof (rule filter_cong[OF refl])
  fix p assume p: "p \<in> set d"
  have "inj_on fst (set d)" using assms by (simp add: distinct_map)
  then show "(fst p \<notin> set (map fst (filter P d))) = (\<not> P p)"
    using p by (auto dest: inj_onD)
qed

lemma prune_active:
  assumes "distinct (map fst (k_active k))"
  shows "k_active (prune_terminal_orders k)
    = filter (\<lambda>p. \<not> (case p of (oid, (sm, _, _)) \<Rightarrow> sm_state sm \<in> terminal_order_states)) (k_active k)"
  unfolding prune_terminal_orders_def Let_def prune_loop using filter_other_keys[OF assms]
  by (simp add: case_prod_unfold)

lemma prune_frame:
  "k_positions (prune_terminal_orders k) = k_positions k" "k_slices (prune_terminal_orders k) = k_slices k"
  "k_lots (prune_terminal_orders k) = k_lots k" "k_fill_ledger (prune_terminal_orders k) = k_fill_ledger k"
  "k_log (prune_terminal_orders k) = k_log k" "k_router (prune_terminal_orders k) = k_router k"
  by (simp_all add: prune_terminal_orders_def Let_def prune_loop)

lemma map_of_filter_distinct:
  "distinct (map fst d) \<Longrightarrow> map_of (filter P d) x = (case map_of d x of Some v \<Rightarrow> if P (x, v) then Some v else None | None \<Rightarrow> None)"
  by (induction d) (auto simp: map_of_eq_None_iff split: option.splits)

lemma prune_lookup:
  assumes "distinct (map fst (k_active k))"
  shows "map_of (k_active (prune_terminal_orders k)) oid
    = (case map_of (k_active k) oid of
         None \<Rightarrow> None | Some (sm, r) \<Rightarrow> if sm_state sm \<in> terminal_order_states then None else Some (sm, r))"
  unfolding prune_active[OF assms] map_of_filter_distinct[OF assms]
  by (auto split: option.splits prod.splits)

text \<open>C5: A pipeline failure cannot strand a submitted order. After
  \<open>\_force\_order\_terminal\_after\_pipeline\_error\<close> the order is no longer active, whatever
  state it was in, unless it had never left CREATED (the only state with no edge to a
  terminal one that the routine tries); it never raises.\<close>

theorem pipeline_error_resolves_order:
  assumes "active_ok k" "distinct (map fst (k_active k))"
  shows "\<exists>k'. force_order_terminal_after_pipeline_error o' exc_type ctxt k = (Inr (), k')
    \<and> order_machine_state k' (or_order_id o')
      = (if order_machine_state k (or_order_id o') = Some CREATED then Some CREATED else None)"
proof -
  let ?oid = "or_order_id o'" and ?cid = "ev_correlation o'"
  define k1 where "k1 = k\<lparr>k_log := publish_numbered (OutAlert alert_severity.WARNING ''order_pipeline_exception'' ?cid) (k_log k)\<rparr>"
  have k1: "active_ok k1" "order_machine_state k1 oid = order_machine_state k oid" "distinct (map fst (k_active k1))" for oid
    using assms by (simp_all add: k1_def active_ok_def)
  have start: "andThen (alert alert_severity.WARNING ''order_pipeline_exception'' ?cid) f k = f () k1"
    for f :: "unit \<Rightarrow> ('a, unit) kact"
    by (simp add: alert_def k1_def)
  have gone: "order_machine_state (prune_terminal_orders k2) ?oid = None"
    if "order_machine_state k2 ?oid = Some s" "s \<in> terminal_order_states" "distinct (map fst (k_active k2))" for k2 :: "'a kernel" and s
  proof -
    note gone_asm = that
    obtain sm r where "map_of (k_active k2) ?oid = Some (sm, r)" "sm_state sm = s"
      using gone_asm(1) by (auto simp: order_machine_state_def)
    then show ?thesis using gone_asm(2) unfolding order_machine_state_def prune_lookup[OF gone_asm(3)] by simp
  qed
  have dm: "distinct (map fst (k_active (moved ?oid t trigger cid k1)))" for t trigger cid
    using touches_moved[OF k1(1), of ?oid t trigger cid] k1(3) by (simp add: touches_def)
  show ?thesis
  proof (cases "order_machine_state k ?oid")
    case None
    then show ?thesis by (simp add: force_order_terminal_after_pipeline_error_def start k1(2) Let_def)
  next
    case (Some s)
    have s1: "order_machine_state k1 ?oid = Some s" using Some k1(2) by simp
    have move: "\<exists>k'. andThen (order_transition ?oid t trigger ?cid) (\<lambda>_. modify prune_terminal_orders) k1 = (Inr (), k')
        \<and> order_machine_state k' ?oid = None"
      if "allowed s t" "t \<in> terminal_order_states" for t trigger
      using order_transition_run[OF k1(1) s1, of t trigger ?cid] that gone[OF _ that(2) dm] s1
      by (simp add: andThen_run modify_def order_machine_moved)
    show ?thesis
    proof (cases "s = CREATED \<or> s \<in> terminal_order_states")
      case True
      then show ?thesis using Some s1 gone[OF s1 _ k1(3)]
        by (auto simp: force_order_terminal_after_pipeline_error_def start Let_def terminal_order_states_def
            order_can_run[OF k1(1) s1])
    next
      case False
      then have "s \<in> {SUBMITTED, ACKNOWLEDGED, PARTIALLY_FILLED, CANCEL_REQUESTED}"
        by (cases s) (auto simp: terminal_order_states_def)
      then show ?thesis
        using Some s1 False move[of REJECTED] move[of CANCELLED] order_can_run[OF k1(1) s1]
        by (auto simp: force_order_terminal_after_pipeline_error_def start Let_def terminal_order_states_def)
    qed
  qed
qed

text \<open>A kernel with one tracked order in a chosen state, for the concrete runs.\<close>

definition sample_order :: order_request where
  "sample_order = \<lparr>ev_timestamp = 1, ev_correlation = ''c'', ev_sequence = 0, ev_source_layer = ''KERNEL'',
      ev_schema_version = schema_version,
      or_order_id = ''o1'', or_symbol = ''X'', or_side = BUY, or_order_type = MARKET, or_quantity = 10,
      or_limit_price = None, or_strategy = ''a'', or_is_short = False, or_is_moc = False, or_g12_cost_bps = 0,
      or_reason = ''''\<rparr>"

definition sample_ack :: "order_ack_status \<Rightarrow> int \<Rightarrow> order_ack" where
  "sample_ack st q = \<lparr>ev_timestamp = 1, ev_correlation = ''c'', ev_sequence = 0, ev_source_layer = ''KERNEL'',
      ev_schema_version = schema_version,
      oa_order_id = ''o1'', oa_symbol = ''X'', oa_status = st, oa_filled_quantity = q, oa_fill_price = Some 10,
      oa_fees = 0, oa_cost_bps = 0, oa_reason = '''', oa_request_sequence = None\<rparr>"

lemma sample_kernel:
  obtains k :: "unit kernel" and sm where "active_ok k" "k_active k = [(''o1'', (sm, BUY, sample_order))]" "sm_state sm = s"
    "k_positions k = ps_new" "k_slices k = Some ss_new" "k_fill_ledger k = None"
proof -
  obtain k0 :: "unit kernel" where k0: "k_active k0 = []" "k_positions k0 = ps_new" "k_slices k0 = Some ss_new" "k_fill_ledger k0 = None"
    using new_kernel_exists[of 0 "()" ps_new "Some ss_new" None "Some False" None] by blast
  then have "active_ok k0" by (simp add: active_ok_def)
  from track_order_run[OF this, of "''o1''" BUY sample_order "''''"] obtain k1 :: "unit kernel" and sm where k1: "machine_ok sm"
    "k_positions k1 = k_positions k0" "k_slices k1 = k_slices k0"
    by (elim exE conjE) (rule that)
  let ?k = "k1\<lparr>k_active := [(''o1'', (sm\<lparr>sm_state := s\<rparr>, BUY, sample_order))], k_fill_ledger := None\<rparr>"
  have "machine_ok (sm\<lparr>sm_state := s\<rparr>)" using k1(1) by (simp add: machine_ok_def)
  then have "active_ok ?k" by (simp add: active_ok_def)
  then show ?thesis using that[of ?k "sm\<lparr>sm_state := s\<rparr>"] k1 k0 by simp
qed

lemma acks_follow_order_table_witness:
  "\<exists>(k :: unit kernel) k'. order_machine_state k ''o1'' = Some SUBMITTED
    \<and> publish_and_apply_order_acks [sample_ack ACK_FILLED 10, sample_ack ACK_CANCELLED 0] k = (Inr (), k')
    \<and> order_machine_state k' ''o1'' = Some FILLED"
proof -
  obtain k :: "unit kernel" and sm where k: "active_ok k" "k_active k = [(''o1'', (sm, BUY, sample_order))]" "sm_state sm = SUBMITTED"
    by (rule sample_kernel)
  have s: "order_machine_state k ''o1'' = Some SUBMITTED" using k by (simp add: order_machine_state_def)
  let ?acks = "[sample_ack ACK_FILLED 10, sample_ack ACK_CANCELLED 0]"
  from acks_follow_order_table[OF k(1), of ?acks] obtain k' where k': "publish_and_apply_order_acks ?acks k = (Inr (), k')"
    "\<forall>oid. order_machine_state k' oid
      = map_option (fold ack_result (map oa_status (filter (\<lambda>a. oa_order_id a = oid) ?acks))) (order_machine_state k oid)"
    by blast
  have "order_machine_state k' ''o1'' = Some FILLED"
    using k'(2)[rule_format, of "''o1''"] s by (simp add: sample_ack_def ack_result_def)
  then show ?thesis using s k'(1) by blast
qed

lemma pipeline_error_witness:
  "\<exists>(k :: unit kernel) k'. order_machine_state k ''o1'' = Some ACKNOWLEDGED
    \<and> force_order_terminal_after_pipeline_error sample_order ''ValueError'' ''tick'' k = (Inr (), k')
    \<and> order_machine_state k' ''o1'' = None"
proof -
  obtain k :: "unit kernel" and sm where k: "active_ok k" "k_active k = [(''o1'', (sm, BUY, sample_order))]" "sm_state sm = ACKNOWLEDGED"
    by (rule sample_kernel)
  have s: "order_machine_state k ''o1'' = Some ACKNOWLEDGED" using k by (simp add: order_machine_state_def)
  have id: "or_order_id sample_order = ''o1''" by (simp add: sample_order_def)
  have "distinct (map fst (k_active k))" using k(2) by simp
  from pipeline_error_resolves_order[OF k(1) this, of sample_order "''ValueError''" "''tick''"] s
  obtain k' where "force_order_terminal_after_pipeline_error sample_order ''ValueError'' ''tick'' k = (Inr (), k')"
    "order_machine_state k' ''o1'' = None"
    unfolding id by auto
  then show ?thesis using s by blast
qed

end
