(* ===== verification/Cost_Model.thy ===== *)
theory Cost_Model
  imports Events
begin

section \<open>Transaction costs (core/cost\_model.py, execution/cost\_model.py, core/min\_cost\_policy.py)\<close>

text \<open>
  The default cost model of a simulated fill, the two estimators that price an order before it
  is sent, and the policy that picks the cheaper of a passive and an aggressive route. All of
  it is \<open>Decimal\<close> arithmetic rounded operation by operation; a cost in basis points handed to
  a gate is a float, and \<open>None\<close> stands for the infinite cost of an order that cannot fill.
\<close>

subsection \<open>Library functions the code calls\<close>

primrec isqrt_bits :: "nat \<Rightarrow> int \<Rightarrow> int \<Rightarrow> int" where
  "isqrt_bits 0 n r = r"
| "isqrt_bits (Suc b) n r = (let r' = r + 2 ^ b in isqrt_bits b n (if r' * r' \<le> n then r' else r))"

definition dec_sqrt :: "decimal \<Rightarrow> decimal result" where
  \<comment> \<open>\<open>Decimal.sqrt\<close>: the square root rounded to 28 digits; at most 56 digits are extracted\<close>
  "dec_sqrt x =
     (if x < 0 then Inl InvalidOperation
      else if x = 0 then Inr 0
      else let e = (mag_exp 10 x + 1) div 2;
               s = (10 :: rat) powi (e - 28);
               y = x / (s * s);
               r = isqrt_bits 100 \<lfloor>y\<rfloor> 0
           in Inr (of_int (if (of_int r + 1/2) * (of_int r + 1/2) < y then r + 1 else r) * s))"

definition repr_candidates :: "float64 \<Rightarrow> nat \<Rightarrow> decimal list" where
  \<comment> \<open>the \<open>p\<close>-digit decimals around \<open>x\<close> that read back as \<open>x\<close>\<close>
  "repr_candidates x p =
     (let s = (10 :: rat) powi (mag_exp 10 \<bar>x\<bar> - int p)
      in filter (\<lambda>c. fl_round c = x) [of_int \<lfloor>x / s\<rfloor> * s, of_int \<lceil>x / s\<rceil> * s])"

definition decimal_of_repr :: "float64 \<Rightarrow> decimal" where
  \<comment> \<open>\<open>Decimal(str(x))\<close>: the shortest decimal that reads back as \<open>x\<close>, the nearest one of that length\<close>
  "decimal_of_repr x =
     (if x = 0 then 0
      else case filter (\<lambda>cs. cs \<noteq> []) (map (repr_candidates x) [1..<18]) of
        [] \<Rightarrow> x
      | cs # _ \<Rightarrow> (case cs of [] \<Rightarrow> x | c # rest \<Rightarrow>
            fold (\<lambda>d best. if \<bar>d - x\<bar> < \<bar>best - x\<bar> then d else best) rest c))"

subsection \<open>The cost of one fill\<close>

datatype fill_type = TAKER | LEVEL | THROUGH

record cost_breakdown =
  cb_spread_cost :: decimal
  cb_commission :: decimal
  cb_total_fees :: decimal
  cb_cost_bps :: decimal
  cb_notional :: decimal
  cb_raw_cost_bps :: decimal

record cost_config =
  cc_min_spread_cost_bps :: decimal
  cc_commission_per_share :: decimal
  cc_taker_exchange_per_share :: decimal
  cc_maker_exchange_per_share :: decimal
  cc_min_commission :: decimal
  cc_max_commission_pct :: decimal
  cc_passive_adverse_bps :: decimal
  cc_through_fill_adverse_bps :: decimal
  cc_adverse_through_bps :: decimal
  cc_adverse_drain_bps :: decimal
  cc_sell_regulatory_bps :: decimal
  cc_finra_taf_per_share :: decimal
  cc_finra_taf_max_per_order :: decimal
  cc_stress :: decimal
  cc_htb_annual_bps :: decimal
  cc_stop_slippage_half_spreads :: decimal
  cc_min_commission_per_share_only :: bool
  cc_spread_floor_taker_only :: bool

definition default_cost_config :: cost_config where
  "default_cost_config = \<lparr>cc_min_spread_cost_bps = 0, cc_commission_per_share = 35 / 10000,
     cc_taker_exchange_per_share = 3 / 1000, cc_maker_exchange_per_share = 0, cc_min_commission = 35 / 100,
     cc_max_commission_pct = 1, cc_passive_adverse_bps = 2, cc_through_fill_adverse_bps = 5,
     cc_adverse_through_bps = 5, cc_adverse_drain_bps = 2, cc_sell_regulatory_bps = 1 / 2,
     cc_finra_taf_per_share = 166 / 1000000, cc_finra_taf_max_per_order = 83 / 10, cc_stress = 1,
     cc_htb_annual_bps = 0, cc_stop_slippage_half_spreads = 2, cc_min_commission_per_share_only = True,
     cc_spread_floor_taker_only = True\<rparr>"

definition stressed_spread_cost :: "cost_config \<Rightarrow> decimal \<Rightarrow> int \<Rightarrow> decimal \<Rightarrow> decimal" where
  "stressed_spread_cost cfg notional quantity half_spread =
     max (dec_mul (dec_mul half_spread (of_int quantity)) (cc_stress cfg))
         (dec_div (dec_mul (dec_mul notional (cc_min_spread_cost_bps cfg)) (cc_stress cfg)) 10000)"

definition fill_commission :: "cost_config \<Rightarrow> decimal \<Rightarrow> int \<Rightarrow> bool \<Rightarrow> decimal" where
  "fill_commission cfg notional quantity is_taker =
     (let stressed = dec_mul (cc_commission_per_share cfg) (cc_stress cfg);
          exchange = (if is_taker then dec_mul (cc_taker_exchange_per_share cfg) (cc_stress cfg)
                      else cc_maker_exchange_per_share cfg);
          per_share = dec_mul stressed (of_int quantity);
          exchange_fees = dec_mul exchange (of_int quantity);
          cap = dec_div (dec_mul notional (cc_max_commission_pct cfg)) 100
      in if cc_min_commission_per_share_only cfg
         then (let floored = max per_share (cc_min_commission cfg);
                   capped = (if 0 < notional then min floored cap else floored)
               in dec_add capped exchange_fees)
         else (let floored = max (dec_add per_share exchange_fees) (cc_min_commission cfg)
               in if 0 < notional then min floored cap else floored))"

definition adverse_rates :: "cost_config \<Rightarrow> decimal \<times> decimal" where
  \<comment> \<open>the through-fill and the level-fill rate; a legacy field counts when only it was set\<close>
  "adverse_rates cfg =
     (let dflt = default_cost_config in
      (if cc_through_fill_adverse_bps cfg = cc_through_fill_adverse_bps dflt
          \<and> cc_adverse_through_bps cfg \<noteq> cc_adverse_through_bps dflt
       then cc_adverse_through_bps cfg else cc_through_fill_adverse_bps cfg,
       if cc_passive_adverse_bps cfg = cc_passive_adverse_bps dflt
          \<and> cc_adverse_drain_bps cfg \<noteq> cc_adverse_drain_bps dflt
       then cc_adverse_drain_bps cfg else cc_passive_adverse_bps cfg))"

definition adverse_selection_cost :: "cost_config \<Rightarrow> int \<Rightarrow> decimal \<Rightarrow> fill_type \<Rightarrow> decimal option \<Rightarrow> decimal" where
  "adverse_selection_cost cfg quantity fill_price ft adverse_price =
     (case adverse_rates cfg of (through, level) \<Rightarrow>
        let bps = (if ft = THROUGH then through else level);
            basis = (case adverse_price of Some p \<Rightarrow> p | None \<Rightarrow> fill_price)
        in dec_div (dec_mul (dec_mul (dec_mul basis (of_int quantity)) bps) (cc_stress cfg)) 10000)"

definition sell_regulatory_cost :: "cost_config \<Rightarrow> decimal \<Rightarrow> int \<Rightarrow> decimal" where
  "sell_regulatory_cost cfg notional quantity =
     (let sec = dec_div (dec_mul (dec_mul notional (cc_sell_regulatory_bps cfg)) (cc_stress cfg)) 10000;
          taf = dec_mul (dec_mul (cc_finra_taf_per_share cfg) (cc_stress cfg)) (of_int quantity);
          capped = (if 0 < cc_finra_taf_max_per_order cfg then min taf (cc_finra_taf_max_per_order cfg) else taf)
      in if 0 < cc_finra_taf_per_share cfg then dec_add sec capped else sec)"

definition borrow_cost :: "cost_config \<Rightarrow> decimal \<Rightarrow> decimal" where
  "borrow_cost cfg notional =
     dec_div (dec_div (dec_mul (dec_mul notional (cc_htb_annual_bps cfg)) (cc_stress cfg)) 360) 10000"

definition fill_fees :: "cost_config \<Rightarrow> side \<Rightarrow> int \<Rightarrow> decimal \<Rightarrow> decimal \<Rightarrow> bool \<Rightarrow> bool \<Rightarrow> fill_type \<Rightarrow> decimal option
    \<Rightarrow> decimal \<times> decimal \<times> decimal" where
  \<comment> \<open>spread cost, commission and total, before quantizing; for a positive quantity\<close>
  "fill_fees cfg sd quantity fill_price half_spread is_taker is_short ft adverse_price =
     (let notional = dec_mul fill_price (of_int quantity);
          spread = (if is_taker \<or> \<not> cc_spread_floor_taker_only cfg
                    then stressed_spread_cost cfg notional quantity half_spread else 0);
          commission = fill_commission cfg notional quantity is_taker;
          adverse = (if is_taker then 0 else adverse_selection_cost cfg quantity fill_price ft adverse_price);
          regulatory = (if sd = SELL then sell_regulatory_cost cfg notional quantity else 0);
          htb = (if is_short \<and> sd = SELL \<and> 0 < cc_htb_annual_bps cfg then borrow_cost cfg notional else 0)
      in (spread, commission, dec_add (dec_add (dec_add (dec_add spread commission) adverse) regulatory) htb))"

definition cost_bps_of :: "decimal \<Rightarrow> decimal \<Rightarrow> decimal" where
  "cost_bps_of fees notional = (if 0 < notional then dec_mul (dec_div fees notional) 10000 else 0)"

abbreviation cents :: "decimal \<Rightarrow> decimal result" where
  "cents \<equiv> quantize half_even 2"

definition quantized_breakdown :: "decimal \<Rightarrow> decimal \<Rightarrow> decimal \<Rightarrow> decimal \<Rightarrow> cost_breakdown result" where
  "quantized_breakdown spread commission fees notional =
     bind_result (cents spread) (\<lambda>s. bind_result (cents commission) (\<lambda>c. bind_result (cents fees) (\<lambda>f.
     bind_result (cents (cost_bps_of fees notional)) (\<lambda>b. bind_result (cents notional) (\<lambda>n.
       Inr \<lparr>cb_spread_cost = s, cb_commission = c, cb_total_fees = f, cb_cost_bps = b, cb_notional = n,
            cb_raw_cost_bps = cost_bps_of fees notional\<rparr>)))))"

type_synonym cost_fn =
  "symbol \<Rightarrow> side \<Rightarrow> int \<Rightarrow> decimal \<Rightarrow> decimal \<Rightarrow> bool \<Rightarrow> bool \<Rightarrow> fill_type option \<Rightarrow> decimal option \<Rightarrow> bool \<Rightarrow> cost_breakdown result"

definition default_fill_type :: "bool \<Rightarrow> bool \<Rightarrow> fill_type" where
  "default_fill_type is_taker is_through = (if is_taker then TAKER else if is_through then THROUGH else LEVEL)"

definition compute_cost :: "cost_config \<Rightarrow> cost_fn" where
  "compute_cost cfg s sd quantity fill_price half_spread is_taker is_short ft adverse_price is_through =
     (let notional = dec_mul fill_price (of_int quantity);
          kind = (case ft of Some f \<Rightarrow> f | None \<Rightarrow> default_fill_type is_taker is_through)
      in if quantity \<le> 0
         then Inr \<lparr>cb_spread_cost = 0, cb_commission = 0, cb_total_fees = 0, cb_cost_bps = 0,
                   cb_notional = notional, cb_raw_cost_bps = 0\<rparr>
         else case fill_fees cfg sd quantity fill_price half_spread is_taker is_short kind adverse_price of
           (spread, commission, fees) \<Rightarrow> quantized_breakdown spread commission fees notional)"

definition zero_cost :: cost_fn where
  "zero_cost s sd quantity fill_price half_spread is_taker is_short ft adverse_price is_through =
     Inr \<lparr>cb_spread_cost = 0, cb_commission = 0, cb_total_fees = 0, cb_cost_bps = 0,
          cb_notional = dec_mul fill_price (of_int quantity), cb_raw_cost_bps = 0\<rparr>"

subsection \<open>Pricing an order before it is sent\<close>

definition within_l1_premium :: "int \<Rightarrow> int \<Rightarrow> decimal \<Rightarrow> decimal \<Rightarrow> decimal \<Rightarrow> decimal result" where
  "within_l1_premium quantity depth half_spread factor permanent =
     (if depth \<le> 0 \<or> quantity \<le> 0 then Inr 0
      else if factor \<le> 0 \<and> permanent \<le> 0 then Inr 0
      else let participation = dec_div (of_int quantity) (of_int depth);
               capped = (if participation < 1 then participation else 1);
               temporary = dec_mul (dec_mul factor capped) half_spread
           in bind_result (dec_sqrt participation)
                (\<lambda>root. Inr (dec_add temporary (dec_mul (dec_mul permanent root) half_spread))))"

record impact_config =
  ic_market_impact :: decimal
  ic_max_half_spreads :: decimal
  ic_within_l1 :: decimal
  ic_permanent :: decimal

definition fees_to_bps :: "decimal \<Rightarrow> decimal \<Rightarrow> float64 option" where
  "fees_to_bps fees notional = Some (if notional \<le> 0 then 0 else fl_round (dec_mul (dec_div fees notional) 10000))"

definition estimate_aggressive_taker_cost_bps ::
  "cost_fn \<Rightarrow> symbol \<Rightarrow> side \<Rightarrow> int \<Rightarrow> decimal \<Rightarrow> decimal \<Rightarrow> int \<Rightarrow> impact_config \<Rightarrow> bool \<Rightarrow> float64 option result" where
  "estimate_aggressive_taker_cost_bps model s sd quantity mid half_spread depth ic is_short =
     (if quantity \<le> 0 \<or> depth \<le> 0 then Inr None
      else bind_result (within_l1_premium quantity depth half_spread (ic_within_l1 ic) (ic_permanent ic)) (\<lambda>premium.
        let taker = (\<lambda>q. model s sd q mid half_spread True is_short None None False);
            notional = dec_mul mid (of_int quantity);
            within_cost = dec_mul premium (of_int quantity)
        in if quantity \<le> depth
           then bind_result (taker quantity) (\<lambda>b.
                  if premium \<le> 0 then Inr (Some (fl_round (cb_raw_cost_bps b)))
                  else Inr (fees_to_bps (dec_add (cb_total_fees b) within_cost) notional))
           else let excess = quantity - depth;
                    raw = dec_mul (dec_div (dec_mul (ic_market_impact ic) (of_int excess)) (of_int depth)) half_spread;
                    impact = min raw (dec_mul (ic_max_half_spreads ic) half_spread);
                    impact_cost = dec_mul impact (of_int excess)
                in bind_result (taker depth) (\<lambda>b1. bind_result (taker excess) (\<lambda>b2.
                     Inr (fees_to_bps
                       (dec_add (dec_add (dec_add (cb_total_fees b1) (cb_total_fees b2)) impact_cost) within_cost)
                       notional)))))"

fun opposite :: "side \<Rightarrow> side" where
  "opposite BUY = SELL"
| "opposite SELL = BUY"

definition leg_bps :: "cost_fn \<Rightarrow> symbol \<Rightarrow> int \<Rightarrow> decimal \<Rightarrow> decimal \<Rightarrow> (int \<times> int \<times> impact_config) option
    \<Rightarrow> side \<Rightarrow> bool \<Rightarrow> bool \<Rightarrow> bool \<Rightarrow> float64 option result" where
  \<comment> \<open>\<open>_leg_bps\<close>; the depths and impact settings are there when all of them were given\<close>
  "leg_bps model s quantity mid half_spread depths sd is_taker is_short through =
     (case depths of
        Some (bid_size, ask_size, ic) \<Rightarrow>
          if is_taker
          then estimate_aggressive_taker_cost_bps model s sd quantity mid half_spread
                 (if sd = BUY then ask_size else bid_size) ic is_short
          else bind_result (model s sd quantity mid half_spread is_taker is_short
                 (if through then Some THROUGH else None) None through) (\<lambda>b. Inr (Some (fl_round (cb_cost_bps b))))
      | None \<Rightarrow> bind_result (model s sd quantity mid half_spread is_taker is_short
                 (if through then Some THROUGH else None) None through) (\<lambda>b. Inr (Some (fl_round (cb_cost_bps b)))))"

fun bps_add :: "float64 option \<Rightarrow> float64 option \<Rightarrow> float64 option" where
  "bps_add (Some a) (Some b) = Some (fl_add a b)"
| "bps_add _ _ = None"

definition estimate_round_trip_cost_bps ::
  "cost_fn \<Rightarrow> symbol \<Rightarrow> side \<Rightarrow> int \<Rightarrow> decimal \<Rightarrow> decimal \<Rightarrow> bool \<Rightarrow> bool \<Rightarrow> bool option
    \<Rightarrow> (int \<times> int \<times> impact_config) option \<Rightarrow> bool \<Rightarrow> bool \<Rightarrow> float64 option result" where
  "estimate_round_trip_cost_bps model s entry_side quantity mid half_spread is_taker is_short_entry is_taker_exit
     depths through_entry through_exit =
     (let taker_exit = (case is_taker_exit of Some b \<Rightarrow> b | None \<Rightarrow> is_taker)
      in bind_result (leg_bps model s quantity mid half_spread depths entry_side is_taker
                        (is_short_entry \<and> entry_side = SELL) through_entry) (\<lambda>a.
         bind_result (leg_bps model s quantity mid half_spread depths (opposite entry_side) taker_exit False through_exit) (\<lambda>b.
           Inr (bps_add a b))))"

subsection \<open>Passive or aggressive\<close>

record min_cost_config =
  mp_bias_bps :: decimal
  mp_small_order_shares :: int
  mp_min_half_spread :: decimal
  mp_allow_passive_short :: bool
  mp_impact :: impact_config
  mp_non_fill_probability :: decimal

definition forced_aggressive :: "min_cost_config \<Rightarrow> side \<Rightarrow> int \<Rightarrow> decimal \<Rightarrow> bool \<Rightarrow> bool \<Rightarrow> bool" where
  "forced_aggressive cfg sd quantity half_spread is_short force \<longleftrightarrow>
     force \<or> quantity \<le> 0
     \<or> (0 < mp_small_order_shares cfg \<and> quantity < mp_small_order_shares cfg)
     \<or> (0 < mp_min_half_spread cfg \<and> half_spread < mp_min_half_spread cfg)
     \<or> (is_short \<and> sd = SELL \<and> \<not> mp_allow_passive_short cfg)"

definition min_cost_decide ::
  "cost_fn \<Rightarrow> min_cost_config \<Rightarrow> symbol \<Rightarrow> side \<Rightarrow> int \<Rightarrow> decimal \<Rightarrow> decimal \<Rightarrow> bool \<Rightarrow> bool
    \<Rightarrow> (int \<times> int) option \<Rightarrow> float64 \<Rightarrow> bool result" where
  \<comment> \<open>\<open>True\<close> is \<open>"passive"\<close>\<close>
  "min_cost_decide model cfg s sd quantity mid half_spread is_short force depths edge_bps =
     (if forced_aggressive cfg sd quantity half_spread is_short force then Inr False
      else bind_result (model s sd quantity mid 0 False is_short None None False) (\<lambda>passive.
        bind_result
          (case depths of
             Some (bid_size, ask_size) \<Rightarrow>
               bind_result (estimate_aggressive_taker_cost_bps model s sd quantity mid half_spread
                    (if sd = BUY then ask_size else bid_size) (mp_impact cfg) is_short)
                 (\<lambda>x. Inr (map_option decimal_of_repr x))
           | None \<Rightarrow> bind_result (model s sd quantity mid half_spread True is_short None None False)
                 (\<lambda>b. Inr (Some (cb_raw_cost_bps b))))
          (\<lambda>aggressive.
             let opportunity = dec_mul (mp_non_fill_probability cfg) (decimal_of_repr edge_bps);
                 passive_bps = dec_add (dec_sub (cb_raw_cost_bps passive) (mp_bias_bps cfg)) opportunity
             in Inr (case aggressive of None \<Rightarrow> True | Some a \<Rightarrow> passive_bps < a))))"

subsection \<open>Stress never makes a fill cheaper\<close>

text \<open>Every decimal operation is monotone, so the bounds survive the rounding.\<close>

lemma dec_mono:
  "a \<le> b \<Longrightarrow> dec_round a \<le> dec_round b"
  by (rule round_sig_mono) simp_all

lemma dec_nonneg: "0 \<le> a \<Longrightarrow> 0 \<le> dec_round a"
  using dec_mono[of 0 a] by simp

lemma dec_add_mono: "a \<le> a' \<Longrightarrow> b \<le> b' \<Longrightarrow> dec_add a b \<le> dec_add a' b'"
  unfolding dec_add_def by (intro dec_mono add_mono)

lemma dec_mul_mono: "a \<le> a' \<Longrightarrow> b \<le> b' \<Longrightarrow> 0 \<le> a' \<Longrightarrow> 0 \<le> b \<Longrightarrow> dec_mul a b \<le> dec_mul a' b'"
  unfolding dec_mul_def by (intro dec_mono mult_mono)

lemma dec_div_mono: "a \<le> a' \<Longrightarrow> 0 \<le> b \<Longrightarrow> dec_div a b \<le> dec_div a' b"
  unfolding dec_div_def by (intro dec_mono divide_right_mono)

lemma dec_mul_nonneg: "0 \<le> a \<Longrightarrow> 0 \<le> b \<Longrightarrow> 0 \<le> dec_mul a b"
  unfolding dec_mul_def by (intro dec_nonneg mult_nonneg_nonneg)

lemma dec_div_nonneg: "0 \<le> a \<Longrightarrow> 0 \<le> b \<Longrightarrow> 0 \<le> dec_div a b"
  unfolding dec_div_def by (intro dec_nonneg divide_nonneg_nonneg)

lemmas dec_monos = dec_add_mono dec_mul_mono dec_div_mono dec_mul_nonneg dec_div_nonneg max.mono min.mono

lemma cents_mono: "cents a = Inr x \<Longrightarrow> cents b = Inr y \<Longrightarrow> a \<le> b \<Longrightarrow> x \<le> y"
proof -
  assume q: "cents a = Inr x" "cents b = Inr y" and "a \<le> b"
  then have "half_even (a * 10 ^ 2) \<le> half_even (b * 10 ^ 2)" by (intro half_even_mono mult_right_mono) simp_all
  moreover have "x = of_int (half_even (a * 10 ^ 2)) / 10 ^ 2" "y = of_int (half_even (b * 10 ^ 2)) / 10 ^ 2"
    using q by (simp_all only: quantize_def Let_def sum.inject sum.distinct split: if_split_asm)
  ultimately show "x \<le> y" by (simp add: divide_right_mono)
qed

definition charges_nonneg :: "cost_config \<Rightarrow> bool" where
  \<comment> \<open>only the maker's exchange fee may be a rebate\<close>
  "charges_nonneg cfg \<longleftrightarrow> 0 \<le> cc_min_spread_cost_bps cfg \<and> 0 \<le> cc_commission_per_share cfg
     \<and> 0 \<le> cc_taker_exchange_per_share cfg \<and> 0 \<le> cc_passive_adverse_bps cfg \<and> 0 \<le> cc_through_fill_adverse_bps cfg
     \<and> 0 \<le> cc_adverse_through_bps cfg \<and> 0 \<le> cc_adverse_drain_bps cfg \<and> 0 \<le> cc_sell_regulatory_bps cfg
     \<and> 0 \<le> cc_finra_taf_per_share cfg \<and> 0 \<le> cc_htb_annual_bps cfg"

lemma fees_stress_mono:
  assumes cfg: "charges_nonneg cfg" and s: "0 \<le> s" "s \<le> s'" and q: "0 < q" and p: "0 \<le> p" "0 \<le> h"
    and a: "\<And>x. adv = Some x \<Longrightarrow> 0 \<le> x"
  shows "snd (snd (fill_fees (cfg\<lparr>cc_stress := s\<rparr>) sd q p h tk sh ft adv))
       \<le> snd (snd (fill_fees (cfg\<lparr>cc_stress := s'\<rparr>) sd q p h tk sh ft adv))"
    (is "?fees s \<le> ?fees s'")
proof -
  have q': "(0::rat) \<le> of_int q" using q by simp
  have n: "0 \<le> dec_mul p (of_int q)" by (intro dec_mul_nonneg p q')
  have s': "0 \<le> s'" using s by simp
  have basis: "0 \<le> (case adv of Some p \<Rightarrow> p | None \<Rightarrow> p)" using a p by (simp split: option.split)
  note bounds = n s s' q' p basis cfg[unfolded charges_nonneg_def]
  have spread: "stressed_spread_cost (cfg\<lparr>cc_stress := s\<rparr>) (dec_mul p (of_int q)) q h
      \<le> stressed_spread_cost (cfg\<lparr>cc_stress := s'\<rparr>) (dec_mul p (of_int q)) q h"
    using bounds by (auto simp: stressed_spread_cost_def simp del: max.bounded_iff min.bounded_iff intro!: dec_monos)
  have commission: "fill_commission (cfg\<lparr>cc_stress := s\<rparr>) (dec_mul p (of_int q)) q tk
      \<le> fill_commission (cfg\<lparr>cc_stress := s'\<rparr>) (dec_mul p (of_int q)) q tk"
    using bounds by (auto simp: fill_commission_def Let_def simp del: max.bounded_iff min.bounded_iff intro!: dec_monos)
  have adverse: "adverse_selection_cost (cfg\<lparr>cc_stress := s\<rparr>) q p ft adv \<le> adverse_selection_cost (cfg\<lparr>cc_stress := s'\<rparr>) q p ft adv"
    using bounds by (auto simp: adverse_selection_cost_def adverse_rates_def Let_def simp del: max.bounded_iff min.bounded_iff intro!: dec_monos)
  have regulatory: "sell_regulatory_cost (cfg\<lparr>cc_stress := s\<rparr>) (dec_mul p (of_int q)) q
      \<le> sell_regulatory_cost (cfg\<lparr>cc_stress := s'\<rparr>) (dec_mul p (of_int q)) q"
    using bounds by (auto simp: sell_regulatory_cost_def Let_def simp del: max.bounded_iff min.bounded_iff intro!: dec_monos)
  have borrow: "borrow_cost (cfg\<lparr>cc_stress := s\<rparr>) (dec_mul p (of_int q)) \<le> borrow_cost (cfg\<lparr>cc_stress := s'\<rparr>) (dec_mul p (of_int q))"
    using bounds by (auto simp: borrow_cost_def intro!: dec_monos)
  show ?thesis using spread commission adverse regulatory borrow
    by (auto simp: fill_fees_def Let_def intro!: dec_add_mono)
qed

lemma cost_bps_mono: "a \<le> b \<Longrightarrow> cost_bps_of a n \<le> cost_bps_of b n"
  unfolding cost_bps_of_def by (simp add: dec_mul_def dec_div_mono dec_mono)

lemma breakdown_fields:
  assumes "compute_cost cfg s sd q p h tk sh ft adv th = Inr b" and "0 < q"
  defines "fees \<equiv> snd (snd (fill_fees cfg sd q p h tk sh (case ft of Some f \<Rightarrow> f | None \<Rightarrow> default_fill_type tk th) adv))"
    and "n \<equiv> dec_mul p (of_int q)"
  shows "cents fees = Inr (cb_total_fees b)" "cents (cost_bps_of fees n) = Inr (cb_cost_bps b)" "cb_raw_cost_bps b = cost_bps_of fees n"
  using assms(1,2)
  by (auto simp: compute_cost_def Let_def quantized_breakdown_def bind_result_Inr_iff fees_def n_def split: prod.splits)

text \<open>Stress testing is conservative. With non-negative charges (the maker's exchange fee may
  still be a rebate), raising the stress multiplier never lowers the fees nor the cost in basis
  points that the cost model charges a fill, taker or maker, buy or sell, short or not, in spite
  of the floors, the caps and the rounding to cents.\<close>

theorem stress_never_cheaper:
  assumes "charges_nonneg cfg" and "0 \<le> s" and "s \<le> s'" and "0 \<le> p" and "0 \<le> h" and "\<And>x. adv = Some x \<Longrightarrow> 0 \<le> x"
    and "compute_cost (cfg\<lparr>cc_stress := s\<rparr>) symb sd q p h tk sh ft adv th = Inr b"
    and "compute_cost (cfg\<lparr>cc_stress := s'\<rparr>) symb sd q p h tk sh ft adv th = Inr b'"
  shows "cb_total_fees b \<le> cb_total_fees b' \<and> cb_cost_bps b \<le> cb_cost_bps b' \<and> cb_raw_cost_bps b \<le> cb_raw_cost_bps b'"
proof (cases "0 < q")
  case True
  let ?ft = "case ft of Some f \<Rightarrow> f | None \<Rightarrow> default_fill_type tk th"
  note fees = fees_stress_mono[OF assms(1-3) True assms(4,5,6), where sd = sd and tk = tk and sh = sh and ft = ?ft]
  note fields = breakdown_fields[OF assms(7) True] breakdown_fields[OF assms(8) True]
  show ?thesis
    using cents_mono[OF fields(1) fields(4) fees] cents_mono[OF fields(2) fields(5) cost_bps_mono[OF fees]]
      cost_bps_mono[OF fees] fields(3,6) by auto
qed (use assms(7,8) in \<open>simp add: compute_cost_def\<close>)

lemma cents_succeeds: "\<bar>x\<bar> \<le> 10 ^ 20 \<Longrightarrow> \<exists>y. cents x = Inr y"
proof -
  assume "\<bar>x\<bar> \<le> 10 ^ 20"
  then have "x * 10 ^ 2 \<le> of_int (10 ^ 22)" "of_int (- (10 ^ 22)) \<le> x * 10 ^ 2" by (auto simp: abs_le_iff)
  from half_even_ge[OF this(1)] half_even_le[OF this(2)]
  have "\<bar>half_even (x * 10 ^ 2)\<bar> < 10 ^ 28" by (simp only: abs_less_iff) simp
  then show ?thesis unfolding quantize_def Let_def by (simp only: if_True) blast
qed

lemma dec_exact_ten:
  "x * 10 ^ 10 = of_int \<lfloor>x * 10 ^ 10\<rfloor> \<Longrightarrow> \<bar>x\<bar> * 10 ^ 10 < 10 ^ 28 \<Longrightarrow> dec_round x = x"
  using dec_round_grid[of 10 x] by (simp add: on_grid_def)

lemma sample_fees:
  assumes "s = 1 \<or> s = 2"
  shows "fill_fees (default_cost_config\<lparr>cc_stress := s\<rparr>) SELL 100 50 (1/100) True False TAKER None
    = (s, 65 / 100 * s, 19166 / 10000 * s)"
proof -
  let ?c = "default_cost_config\<lparr>cc_stress := s\<rparr>"
  note evals = dec_add_def dec_mul_def dec_div_def dec_exact_ten default_cost_config_def
  have spread: "stressed_spread_cost ?c 5000 100 (1/100) = s"
    using assms by (elim disjE) (simp_all add: stressed_spread_cost_def evals)
  have commission: "fill_commission ?c 5000 100 True = 65 / 100 * s"
    using assms by (elim disjE) (simp_all add: fill_commission_def evals)
  have regulatory: "sell_regulatory_cost ?c 5000 100 = 2666 / 10000 * s"
    using assms by (elim disjE) (simp_all add: sell_regulatory_cost_def evals)
  have notional: "dec_mul 50 (of_int 100) = 5000" by (simp add: evals)
  have htb: "cc_htb_annual_bps ?c = 0" by (simp add: default_cost_config_def)
  note parts = spread commission regulatory notional htb
  have "dec_add (dec_add (dec_add (dec_add s (65 / 100 * s)) 0) (2666 / 10000 * s)) 0 = 19166 / 10000 * s"
    using assms by (elim disjE) (simp_all add: dec_add_def dec_exact_ten)
  then show ?thesis unfolding fill_fees_def Let_def parts by (simp only: if_True if_False parts simp_thms)
qed

lemma cost_bps_small:
  assumes "\<bar>x\<bar> \<le> 1000"
  shows "\<bar>cost_bps_of x 5000\<bar> \<le> 10 ^ 5"
proof -
  have "\<bar>dec_div x 5000\<bar> \<le> 1" unfolding dec_div_def using assms by (intro round_sig_abs_le) (simp_all add: dec_exact_ten abs_divide)
  then have "\<bar>dec_mul (dec_div x 5000) 10000\<bar> \<le> 10 ^ 5"
    unfolding dec_mul_def by (intro round_sig_abs_le) (simp_all add: dec_exact_ten abs_mult)
  then show ?thesis unfolding cost_bps_of_def by simp
qed

lemma stress_never_cheaper_witness:
  "\<exists>b b'. compute_cost (default_cost_config\<lparr>cc_stress := 1\<rparr>) ''X'' SELL 100 50 (1/100) True False None None False = Inr b
    \<and> compute_cost (default_cost_config\<lparr>cc_stress := 2\<rparr>) ''X'' SELL 100 50 (1/100) True False None None False = Inr b'
    \<and> cb_total_fees b \<le> cb_total_fees b'"
proof -
  let ?c = "\<lambda>s. compute_cost (default_cost_config\<lparr>cc_stress := s\<rparr>) ''X'' SELL 100 50 (1/100) True False None None False"
  have "\<exists>b. ?c s = Inr b" if s: "s = 1 \<or> s = 2" for s
  proof -
    have n: "dec_mul 50 (of_int 100) = 5000" by (simp add: dec_mul_def dec_exact_ten)
    have "\<bar>s\<bar> \<le> 10 ^ 20" "\<bar>65 / 100 * s\<bar> \<le> 10 ^ 20" "\<bar>19166 / 10000 * s\<bar> \<le> 10 ^ 20" "\<bar>cost_bps_of (19166 / 10000 * s) 5000\<bar> \<le> 10 ^ 20"
      "\<bar>5000 :: rat\<bar> \<le> 10 ^ 20"
      using s by (auto intro!: cost_bps_small[THEN order_trans])
    from this[THEN cents_succeeds] show ?thesis
      by (auto simp: Let_def compute_cost_def default_fill_type_def n[simplified] sample_fees[OF s] quantized_breakdown_def)
  qed
  then obtain b b' where "?c 1 = Inr b" "?c 2 = Inr b'" by blast
  moreover from this have "cb_total_fees b \<le> cb_total_fees b'"
    using stress_never_cheaper[of default_cost_config 1 2 50 "1/100" None] by (simp add: charges_nonneg_def default_cost_config_def)
  ultimately show ?thesis by blast
qed

end
