(* ===== verification/Market_Fill.thy ===== *)
theory Market_Fill
  imports Kernel_State Cost_Model
begin

section \<open>Simulated aggressive fills (execution/tick\_size.py, execution/market\_fill.py)\<close>

text \<open>
  How a backtest prices an order that takes liquidity: the tick grid and the direction in which a
  price is snapped to it, the impact premiums, the clamp to the order's limit, and the
  acknowledgements of a fill against the displayed depth. What the two simulated routers share
  (pending acknowledgements, their numbering, the submitted ids) is the record \<open>order_desk\<close>,
  which the routers extend; a routine that may raise is an action on it and keeps what it had
  appended before the raise. The clock reading of a call is an argument.
\<close>

subsection \<open>The tick grid\<close>

definition tick_places :: "decimal \<Rightarrow> nat" where
  \<comment> \<open>decimal places of \<open>tick_size\<close>: a cent from one dollar up, a hundredth of a cent below\<close>
  "tick_places p = (if 1 \<le> p then 2 else 4)"

definition snap_fill_price :: "side \<Rightarrow> decimal \<Rightarrow> decimal result" where
  "snap_fill_price sd p = quantize (if sd = BUY then ceiling else floor) (tick_places p) p"

definition snap_limit_price :: "side \<Rightarrow> decimal \<Rightarrow> decimal result" where
  "snap_limit_price sd p = quantize (if sd = BUY then floor else ceiling) (tick_places p) p"

definition is_on_tick_grid :: "decimal \<Rightarrow> bool result" where
  "is_on_tick_grid p = bind_result (quantize half_even (tick_places p) p) (\<lambda>r. Inr (p = r))"

subsection \<open>Pricing a fill\<close>

record fill_config =
  fc_cost :: cost_fn
  fc_market_impact :: decimal
  fc_max_impact :: decimal
  fc_stop_slippage :: decimal
  fc_within_l1 :: decimal
  fc_permanent :: decimal
  fc_depletion :: decimal

definition panic_reasons :: "string set" where
  \<comment> \<open>\<open>STOP_EXIT_REASONS\<close> of the fill helpers\<close>
  "panic_reasons = {''STOP_EXIT'', ''HARD_EXIT_AGE'', ''HAZARD_SPIKE'', ''FORCE_FLATTEN''}"

definition clamp_fill_price_to_limit :: "side \<Rightarrow> decimal \<Rightarrow> decimal option \<Rightarrow> decimal" where
  "clamp_fill_price_to_limit sd p limit_px =
     (case limit_px of None \<Rightarrow> p | Some l \<Rightarrow> if sd = BUY then min p l else max p l)"

definition apply_premium :: "side \<Rightarrow> decimal \<Rightarrow> decimal \<Rightarrow> decimal" where
  "apply_premium sd cross premium =
     (if premium \<le> 0 then cross
      else if sd = BUY then dec_add cross premium
      else max (dec_sub cross premium) (1/100))"

definition fill_price_of :: "side \<Rightarrow> decimal \<Rightarrow> decimal \<Rightarrow> decimal option \<Rightarrow> decimal result" where
  "fill_price_of sd cross premium limit_px =
     bind_result (snap_fill_price sd (apply_premium sd cross premium))
       (\<lambda>p. Inr (clamp_fill_price_to_limit sd p limit_px))"

definition touch :: "side \<Rightarrow> nbbo_quote \<Rightarrow> decimal" where
  "touch sd q = (if sd = BUY then nq_ask q else nq_bid q)"

definition touch_size :: "side \<Rightarrow> nbbo_quote \<Rightarrow> int" where
  "touch_size sd q = (if sd = BUY then nq_ask_size q else nq_bid_size q)"

definition raw_half_spread :: "nbbo_quote \<Rightarrow> decimal" where
  "raw_half_spread q = dec_div (dec_sub (nq_ask q) (nq_bid q)) 2"

definition fee_half_spread :: "fill_config \<Rightarrow> order_request \<Rightarrow> nbbo_quote \<Rightarrow> decimal" where
  "fee_half_spread cfg o' q =
     (if or_reason o' \<in> panic_reasons \<and> 1 < fc_stop_slippage cfg
      then dec_mul (raw_half_spread q) (dec_sub (fc_stop_slippage cfg) 1) else 0)"

definition truncate_rat :: "rat \<Rightarrow> int" where
  \<comment> \<open>\<open>int()\<close> rounds toward zero\<close>
  "truncate_rat x = (if x < 0 then \<lceil>x\<rceil> else \<lfloor>x\<rfloor>)"

definition available_depth :: "fill_config \<Rightarrow> order_request \<Rightarrow> nbbo_quote \<Rightarrow> int" where
  "available_depth cfg o' q =
     (let l1 = touch_size (or_side o') q in
      if or_reason o' \<in> panic_reasons \<and> 1 < fc_depletion cfg
      then max 1 (truncate_rat (dec_div (of_int l1) (fc_depletion cfg))) else l1)"

definition excess_impact :: "fill_config \<Rightarrow> int \<Rightarrow> int \<Rightarrow> decimal \<Rightarrow> decimal result" where
  \<comment> \<open>the capped premium of the quantity beyond the displayed depth\<close>
  "excess_impact cfg excess depth half =
     (let scaled = dec_mul (fc_market_impact cfg) (of_int excess)
      in if depth = 0 then Inl (if scaled = 0 then InvalidOperation else ZeroDivision)
         else Inr (min (dec_mul (dec_div scaled (of_int depth)) half) (dec_mul (fc_max_impact cfg) half)))"

subsection \<open>The desk of a simulated router\<close>

record order_desk =
  od_pending :: "order_ack list"
  od_ack_seq :: int
  od_submitted :: "string set"

definition router_ack ::
  "ns \<Rightarrow> int \<Rightarrow> order_request \<Rightarrow> order_ack_status \<Rightarrow> int \<Rightarrow> decimal option \<Rightarrow> decimal \<Rightarrow> decimal \<Rightarrow> string \<Rightarrow> order_ack" where
  "router_ack ts n o' st qty px fees bps reason =
     \<lparr>ev_timestamp = ts, ev_correlation = ev_correlation o', ev_sequence = n, ev_source_layer = ''UNKNOWN'',
      ev_schema_version = schema_version, oa_order_id = or_order_id o', oa_symbol = or_symbol o', oa_status = st,
      oa_filled_quantity = qty, oa_fill_price = px, oa_fees = fees, oa_cost_bps = bps, oa_reason = reason,
      oa_request_sequence = Some (ev_sequence o')\<rparr>"

definition push_ack :: "(int \<Rightarrow> order_ack) \<Rightarrow> 'z order_desk_scheme \<Rightarrow> 'z order_desk_scheme" where
  "push_ack mk d = d\<lparr>od_pending := od_pending d @ [mk (od_ack_seq d)], od_ack_seq := od_ack_seq d + 1\<rparr>"

definition append_reject_ack ::
  "ns \<Rightarrow> order_request \<Rightarrow> string \<Rightarrow> bool \<Rightarrow> 'z order_desk_scheme \<Rightarrow> 'z order_desk_scheme" where
  "append_reject_ack ts o' reason release d =
     (let d1 = push_ack (\<lambda>n. router_ack ts n o' ACK_REJECTED 0 None 0 0 reason) d
      in if release then d1\<lparr>od_submitted := od_submitted d1 - {or_order_id o'}\<rparr> else d1)"

definition lift_result :: "'a result \<Rightarrow> ('s, 'a) act" where
  "lift_result r s = (r, s)"

definition taker_cost :: "fill_config \<Rightarrow> order_request \<Rightarrow> nbbo_quote \<Rightarrow> int \<Rightarrow> decimal \<Rightarrow> cost_breakdown result" where
  "taker_cost cfg o' q qty px =
     fc_cost cfg (or_symbol o') (or_side o') qty px (fee_half_spread cfg o' q) True (or_is_short o') None None False"

definition push_fill ::
  "ns \<Rightarrow> order_request \<Rightarrow> order_ack_status \<Rightarrow> int \<Rightarrow> decimal \<Rightarrow> cost_breakdown \<Rightarrow> 'z order_desk_scheme \<Rightarrow> 'z order_desk_scheme" where
  "push_fill ts o' st qty px c = push_ack (\<lambda>n. router_ack ts n o' st qty (Some px) (cb_total_fees c) (cb_cost_bps c) '''')"

definition snapped_limit :: "order_request \<Rightarrow> decimal option result" where
  "snapped_limit o' =
     (case or_limit_price o' of
        None \<Rightarrow> Inr None
      | Some l \<Rightarrow> bind_result (snap_fill_price (or_side o') l) (\<lambda>p. Inr (Some p)))"

definition append_excess_fill ::
  "fill_config \<Rightarrow> order_request \<Rightarrow> nbbo_quote \<Rightarrow> ns \<Rightarrow> int \<Rightarrow> decimal option \<Rightarrow> decimal \<Rightarrow> ('z order_desk_scheme, unit) act" where
  \<comment> \<open>the quantity beyond the depth, at a price moved by the impact\<close>
  "append_excess_fill cfg o' q ts depth limit_px premium =
     (let sd = or_side o'; excess = or_quantity o' - depth in
      andThen (lift_result (excess_impact cfg excess depth (raw_half_spread q))) (\<lambda>impact.
      andThen (lift_result (fill_price_of sd (touch sd q) (dec_add premium impact) limit_px)) (\<lambda>px.
      andThen (lift_result (taker_cost cfg o' q excess px)) (\<lambda>c.
      modify (push_fill (ts + 1) o' ACK_FILLED excess px c)))))"

definition append_market_fill_acks ::
  "fill_config \<Rightarrow> order_request \<Rightarrow> nbbo_quote \<Rightarrow> ns \<Rightarrow> ('z order_desk_scheme, unit) act" where
  "append_market_fill_acks cfg o' q ts =
     andThen (lift_result (snapped_limit o')) (\<lambda>limit_px.
       let sd = or_side o'; depth = available_depth cfg o' q; qty = or_quantity o' in
       andThen (lift_result (within_l1_premium qty depth (raw_half_spread q) (fc_within_l1 cfg) (fc_permanent cfg))) (\<lambda>premium.
       andThen (lift_result (fill_price_of sd (touch sd q) premium limit_px)) (\<lambda>px.
       if depth < qty
       then andThen (lift_result (taker_cost cfg o' q depth px)) (\<lambda>c.
            andThen (modify (push_fill ts o' ACK_PARTIALLY_FILLED depth px c)) (\<lambda>_.
            append_excess_fill cfg o' q ts depth limit_px premium))
       else andThen (lift_result (taker_cost cfg o' q qty px)) (\<lambda>c.
            modify (push_fill ts o' ACK_FILLED qty px c)))))"

subsection \<open>Prices of fills\<close>

definition taker_price_ok :: "side \<Rightarrow> decimal \<Rightarrow> decimal option \<Rightarrow> decimal \<Rightarrow> bool" where
  \<comment> \<open>a valid tick, never beyond the limit, and no better than the touch unless it is the limit\<close>
  "taker_price_ok sd cross limit_px p \<longleftrightarrow> is_on_tick_grid p = Inr True
     \<and> (case limit_px of None \<Rightarrow> True | Some l \<Rightarrow> if sd = BUY then p \<le> l else l \<le> p)
     \<and> (limit_px = Some p \<or> (if sd = BUY then cross \<le> p else p \<le> cross))"

definition no_better :: "side \<Rightarrow> decimal \<Rightarrow> decimal \<Rightarrow> bool" where
  \<comment> \<open>the first price is at most as good for the taker as the second\<close>
  "no_better sd p r \<longleftrightarrow> (if sd = BUY then r \<le> p else p \<le> r)"

lemma quantize_ok: "\<bar>rnd (x * 10 ^ n)\<bar> < 10 ^ 28 \<Longrightarrow> quantize rnd n x = Inr (of_int (rnd (x * 10 ^ n)) / 10 ^ n)"
  by (simp add: quantize_def)

lemma quantize_InrD: "quantize rnd n x = Inr y \<Longrightarrow> y = of_int (rnd (x * 10 ^ n)) / 10 ^ n \<and> \<bar>rnd (x * 10 ^ n)\<bar> < 10 ^ 28"
  by (simp add: quantize_def Let_def split: if_splits)

lemma tick_of_snap:
  assumes "snap_fill_price sd p = Inr r"
  shows "tick_places r = tick_places p \<or> (tick_places p = 4 \<and> r = 1)"
proof (cases "1 \<le> p")
  case True
  then have "(100::rat) \<le> p * 100" by simp
  then have "(100::int) \<le> \<lfloor>p * 100\<rfloor>" "(100::int) \<le> \<lceil>p * 100\<rceil>" by linarith+
  then have "(100::rat) \<le> of_int \<lfloor>p * 100\<rfloor>" "(100::rat) \<le> of_int \<lceil>p * 100\<rceil>" by linarith+
  then show ?thesis using assms True
    by (auto simp: snap_fill_price_def tick_places_def dest!: quantize_InrD split: if_splits)
next
  case False
  then have "p * 10000 < 10000" by simp
  then have "\<lfloor>p * 10000\<rfloor> < 10000" "\<lceil>p * 10000\<rceil> \<le> 10000" by linarith+
  then have "(of_int \<lfloor>p * 10000\<rfloor> :: rat) < 10000" "\<lceil>p * 10000\<rceil> = 10000 \<or> (of_int \<lceil>p * 10000\<rceil> :: rat) < 10000" by linarith+
  then show ?thesis using assms False
    by (auto simp: snap_fill_price_def tick_places_def dest!: quantize_InrD split: if_splits)
qed

lemma snap_on_grid:
  assumes "snap_fill_price sd p = Inr r"
  shows "is_on_tick_grid r = Inr True"
proof -
  define rnd :: "rat \<Rightarrow> int" where "rnd = (if sd = BUY then ceiling else floor)"
  have r: "r = of_int (rnd (p * 10 ^ tick_places p)) / 10 ^ tick_places p" "\<bar>rnd (p * 10 ^ tick_places p)\<bar> < 10 ^ 28"
    using quantize_InrD[OF assms[unfolded snap_fill_price_def]] unfolding rnd_def by blast+
  have "\<exists>k. r * 10 ^ tick_places r = of_int k \<and> \<bar>k\<bar> < 10 ^ 28"
    using tick_of_snap[OF assms]
  proof
    assume "tick_places r = tick_places p"
    then show ?thesis using r by (auto intro!: exI[of _ "rnd (p * 10 ^ tick_places p)"])
  next
    assume "tick_places p = 4 \<and> r = 1"
    then show ?thesis by (auto simp: tick_places_def intro!: exI[of _ 100])
  qed
  then obtain k where k: "r * 10 ^ tick_places r = of_int k" "\<bar>k\<bar> < 10 ^ 28" by blast
  then have "of_int k / 10 ^ tick_places r = r" by (simp add: field_simps)
  then show ?thesis using k by (simp add: is_on_tick_grid_def quantize_def)
qed

lemma snap_against_taker: "snap_fill_price sd p = Inr r \<Longrightarrow> no_better sd r p"
  using le_of_int_ceiling[of "p * 10 ^ tick_places p"] of_int_floor_le[of "p * 10 ^ tick_places p"]
  by (auto simp: snap_fill_price_def no_better_def field_simps dest!: quantize_InrD split: if_splits)

lemma snap_mono:
  assumes "no_better sd p r" "snap_fill_price sd p = Inr p'" "snap_fill_price sd r = Inr r'"
  shows "no_better sd p' r'"
proof (cases "tick_places p = tick_places r")
  case True
  have "\<lceil>a * 10 ^ n\<rceil> \<le> \<lceil>b * 10 ^ n\<rceil>" "\<lfloor>a * 10 ^ n\<rfloor> \<le> \<lfloor>b * 10 ^ n\<rfloor>" if "a \<le> b" for a b :: rat and n
    using that by (intro ceiling_mono floor_mono; simp)+
  then show ?thesis using assms True
    by (auto simp: snap_fill_price_def no_better_def divide_right_mono dest!: quantize_InrD split: if_splits)
next
  case False
  have lo: "no_better sd p' p" "no_better sd r' r" using assms(2,3) by (auto intro: snap_against_taker)
  have "tick_places p = tick_places p' \<or> p' = 1" "tick_places r = tick_places r' \<or> r' = 1"
    using tick_of_snap[OF assms(2)] tick_of_snap[OF assms(3)] by auto
  then show ?thesis using False lo assms(1) by (auto simp: no_better_def tick_places_def split: if_splits)
qed

lemma premium_against_taker:
  assumes "dec_round cross = cross" "1/100 \<le> cross \<or> sd = BUY"
  shows "no_better sd (apply_premium sd cross premium) cross"
proof -
  have "dec_round (cross - premium) \<le> dec_round cross" "dec_round cross \<le> dec_round (cross + premium)" if "0 < premium"
    using that by (auto intro!: round_sig_mono)
  then show ?thesis using assms by (auto simp: no_better_def apply_premium_def dec_add_def dec_sub_def)
qed

lemma premium_mono:
  assumes "dec_round cross = cross" "1/100 \<le> cross \<or> sd = BUY" "a \<le> b"
  shows "no_better sd (apply_premium sd cross b) (apply_premium sd cross a)"
proof (cases "a \<le> 0")
  case True
  then have "apply_premium sd cross a = cross" by (simp add: apply_premium_def)
  then show ?thesis using premium_against_taker[OF assms(1,2)] by simp
next
  case False
  have "dec_round (cross - b) \<le> dec_round (cross - a)" "dec_round (cross + a) \<le> dec_round (cross + b)"
    using assms(3) by (auto intro!: round_sig_mono)
  then show ?thesis using False assms(3) by (auto simp: no_better_def apply_premium_def dec_add_def dec_sub_def)
qed

lemma snap_returns:
  assumes "\<bar>p\<bar> \<le> 10 ^ 13"
  shows "\<exists>r. snap_fill_price sd p = Inr r \<and> \<bar>r\<bar> \<le> 10 ^ 13 + 1"
proof -
  define n :: nat where "n = tick_places p"
  define c where "c = (if sd = BUY then \<lceil>p * 10 ^ n\<rceil> else \<lfloor>p * 10 ^ n\<rfloor>)"
  have n: "(100 :: rat) \<le> 10 ^ n" "(10 :: rat) ^ n \<le> 10000" by (simp_all add: n_def tick_places_def)
  have c: "\<bar>of_int c - p * 10 ^ n\<bar> \<le> 1" unfolding c_def by (auto simp: abs_le_iff) linarith+
  have "\<bar>p\<bar> * 10 ^ n \<le> 10 ^ 13 * 10000" by (intro mult_mono assms n(2)) simp_all
  then have "\<bar>p * 10 ^ n\<bar> \<le> (10 ^ 17 :: rat)" by (simp add: abs_mult)
  then have "\<bar>of_int c\<bar> \<le> (of_int (10 ^ 17 + 1) :: rat)" using c by (simp only: of_int_add of_int_power) simp
  then have "\<bar>c\<bar> \<le> 10 ^ 17 + 1" by linarith
  then have small: "\<bar>c\<bar> < 10 ^ 28" by simp
  have "of_int c / 10 ^ n - p = (of_int c - p * 10 ^ n) / 10 ^ n" by (simp add: diff_divide_distrib)
  then have "\<bar>of_int c / 10 ^ n - p\<bar> = \<bar>of_int c - p * 10 ^ n\<bar> / 10 ^ n" by (simp add: abs_divide)
  also have "\<dots> \<le> 1 / 10 ^ n" using c by (intro divide_right_mono) simp_all
  also have "\<dots> \<le> 1" by simp
  finally have "\<bar>of_int c / 10 ^ n :: rat\<bar> \<le> 10 ^ 13 + 1" using assms by linarith
  moreover have "snap_fill_price sd p = Inr (of_int c / 10 ^ n)"
    using quantize_ok[of ceiling p n] quantize_ok[of floor p n] small
    by (auto simp: snap_fill_price_def n_def[symmetric] c_def split: if_splits)
  ultimately show ?thesis by blast
qed

definition sane_quote :: "nbbo_quote \<Rightarrow> bool" where
  \<comment> \<open>uncrossed, at least a cent, below a trillion, prices of at most 28 digits\<close>
  "sane_quote q \<longleftrightarrow> 1/100 \<le> nq_bid q \<and> nq_bid q < nq_ask q \<and> nq_ask q \<le> 10 ^ 12
     \<and> dec_round (nq_bid q) = nq_bid q \<and> dec_round (nq_ask q) = nq_ask q"

lemma sane_touch:
  assumes "sane_quote q"
  shows "dec_round (touch sd q) = touch sd q" "1/100 \<le> touch sd q" "touch sd q \<le> 10 ^ 12"
  using assms by (auto simp: sane_quote_def touch_def)

lemma premium_bounded:
  assumes "dec_round cross = cross" "1/100 \<le> cross" "cross \<le> 10 ^ 12" "premium \<le> 10 ^ 12"
  shows "\<bar>apply_premium sd cross premium\<bar> \<le> 10 ^ 13"
proof -
  have "dec_round (cross + premium) \<le> dec_round (10 ^ 13)" using assms by (intro round_sig_mono) simp_all
  moreover have "dec_round (10 ^ 13) = (10 ^ 13 :: rat)" by (rule dec_round_grid[of 0]) (simp_all add: on_grid_def)
  moreover have "0 \<le> dec_round (cross + premium)" if "0 < premium" using that assms by (intro dec_nonneg) simp
  moreover have "dec_round (cross - premium) \<le> dec_round cross" if "0 < premium" using that by (intro round_sig_mono) simp_all
  ultimately show ?thesis using assms by (auto simp: apply_premium_def dec_add_def dec_sub_def max_def)
qed

lemma clamp_sound:
  assumes "is_on_tick_grid p = Inr True" "no_better sd p cross" "\<And>l. limit_px = Some l \<Longrightarrow> is_on_tick_grid l = Inr True"
  shows "taker_price_ok sd cross limit_px (clamp_fill_price_to_limit sd p limit_px)"
  using assms
  by (cases limit_px; cases sd) (auto simp: taker_price_ok_def clamp_fill_price_to_limit_def no_better_def min_def max_def)

lemma fill_price_sound:
  assumes q: "sane_quote q" and prem: "premium \<le> 10 ^ 12"
    and lim: "\<And>l. limit_px = Some l \<Longrightarrow> is_on_tick_grid l = Inr True \<and> \<bar>l\<bar> \<le> 10 ^ 13 + 1"
  shows "\<exists>p. fill_price_of sd (touch sd q) premium limit_px = Inr p \<and> \<bar>p\<bar> \<le> 10 ^ 13 + 1 \<and> taker_price_ok sd (touch sd q) limit_px p"
proof -
  note t = sane_touch[OF q, of sd]
  obtain r where r: "snap_fill_price sd (apply_premium sd (touch sd q) premium) = Inr r" "\<bar>r\<bar> \<le> 10 ^ 13 + 1"
    using snap_returns[OF premium_bounded[OF t prem]] by blast
  have "no_better sd r (touch sd q)"
    using snap_against_taker[OF r(1)] premium_against_taker[OF t(1), of sd premium] t(2)
    by (auto simp: no_better_def split: if_splits)
  then have "taker_price_ok sd (touch sd q) limit_px (clamp_fill_price_to_limit sd r limit_px)"
    using lim snap_on_grid[OF r(1)] by (intro clamp_sound) auto
  moreover have "\<bar>clamp_fill_price_to_limit sd r limit_px\<bar> \<le> 10 ^ 13 + 1"
    using r(2) lim by (cases limit_px) (auto simp: clamp_fill_price_to_limit_def min_def max_def)
  ultimately show ?thesis using r(1) by (auto simp: fill_price_of_def)
qed

lemma fill_price_mono:
  assumes q: "sane_quote q" and "a \<le> b"
    and "fill_price_of sd (touch sd q) a limit_px = Inr p" "fill_price_of sd (touch sd q) b limit_px = Inr r"
  shows "no_better sd r p"
proof -
  note t = sane_touch[OF q, of sd]
  obtain p' r' where s: "snap_fill_price sd (apply_premium sd (touch sd q) a) = Inr p'"
    "snap_fill_price sd (apply_premium sd (touch sd q) b) = Inr r'"
    "p = clamp_fill_price_to_limit sd p' limit_px" "r = clamp_fill_price_to_limit sd r' limit_px"
    using assms(3,4) by (auto simp: fill_price_of_def bind_result_Inr_iff)
  have "no_better sd r' p'"
    using premium_mono[OF t(1) _ assms(2)] t(2) s(1,2) by (intro snap_mono[OF _ s(2,1)]) simp
  then show ?thesis unfolding s(3,4)
    by (cases limit_px) (auto simp: no_better_def clamp_fill_price_to_limit_def split: if_splits)
qed

lemma snapped_limit_sound:
  assumes "\<And>l. or_limit_price o' = Some l \<Longrightarrow> \<bar>l\<bar> \<le> 10 ^ 13"
  shows "\<exists>limit_px. snapped_limit o' = Inr limit_px \<and> (\<forall>l. limit_px = Some l \<longrightarrow> is_on_tick_grid l = Inr True \<and> \<bar>l\<bar> \<le> 10 ^ 13 + 1)"
proof (cases "or_limit_price o'")
  case (Some l)
  then obtain r where "snap_fill_price (or_side o') l = Inr r" "\<bar>r\<bar> \<le> 10 ^ 13 + 1" using snap_returns assms by blast
  then show ?thesis using Some snap_on_grid by (auto simp: snapped_limit_def)
qed (simp add: snapped_limit_def)

subsection \<open>The acknowledgements of a fill\<close>

definition priceable :: "fill_config \<Rightarrow> order_request \<Rightarrow> nbbo_quote \<Rightarrow> bool" where
  \<comment> \<open>a sane quote and premiums far below the range of the decimal context\<close>
  "priceable cfg o' q \<longleftrightarrow> sane_quote q \<and> 0 \<le> fc_market_impact cfg \<and> 0 \<le> fc_max_impact cfg
     \<and> dec_mul (fc_max_impact cfg) (raw_half_spread q) \<le> 10 ^ 11
     \<and> (case within_l1_premium (or_quantity o') (available_depth cfg o' q) (raw_half_spread q) (fc_within_l1 cfg) (fc_permanent cfg) of
          Inr p \<Rightarrow> p \<le> 10 ^ 11 | Inl _ \<Rightarrow> True)
     \<and> (case or_limit_price o' of Some l \<Rightarrow> \<bar>l\<bar> \<le> 10 ^ 13 | None \<Rightarrow> True)"

definition cost_returns :: "fill_config \<Rightarrow> order_request \<Rightarrow> nbbo_quote \<Rightarrow> bool" where
  "cost_returns cfg o' q \<longleftrightarrow>
     (\<forall>n p. 0 < n \<and> n \<le> or_quantity o' \<and> \<bar>p\<bar> \<le> 10 ^ 13 + 1 \<longrightarrow> (\<exists>c. taker_cost cfg o' q n p = Inr c))"

definition fill_of :: "order_request \<Rightarrow> decimal option \<Rightarrow> decimal \<Rightarrow> order_ack \<Rightarrow> bool" where
  \<comment> \<open>a fill of this order at an admissible price\<close>
  "fill_of o' limit_px cross a \<longleftrightarrow> oa_order_id a = or_order_id o' \<and> oa_symbol a = or_symbol o'
     \<and> 0 < oa_filled_quantity a
     \<and> (case oa_fill_price a of None \<Rightarrow> False | Some p \<Rightarrow> taker_price_ok (or_side o') cross limit_px p)"

definition fill_report :: "order_request \<Rightarrow> decimal option \<Rightarrow> decimal \<Rightarrow> ns \<Rightarrow> order_ack list \<Rightarrow> bool" where
  \<comment> \<open>one final fill, or a partial one and then the rest a nanosecond later at a price no better\<close>
  "fill_report o' limit_px cross ts fills \<longleftrightarrow>
     list_all (fill_of o' limit_px cross) fills
     \<and> sum_list (map oa_filled_quantity fills) = or_quantity o'
     \<and> (map oa_status fills = [ACK_FILLED] \<and> map ev_timestamp fills = [ts]
        \<or> map oa_status fills = [ACK_PARTIALLY_FILLED, ACK_FILLED] \<and> map ev_timestamp fills = [ts, ts + 1]
          \<and> no_better (or_side o') (the (oa_fill_price (fills ! 1))) (the (oa_fill_price (fills ! 0))))"

definition append_acks :: "order_ack list \<Rightarrow> 'z order_desk_scheme \<Rightarrow> 'z order_desk_scheme" where
  "append_acks as d = d\<lparr>od_pending := od_pending d @ as, od_ack_seq := od_ack_seq d + int (length as)\<rparr>"

lemma half_spread_nonneg: "sane_quote q \<Longrightarrow> 0 \<le> raw_half_spread q"
  by (auto simp: sane_quote_def raw_half_spread_def dec_sub_def dec_div_def intro!: dec_nonneg)

lemma dec_sqrt_returns: "0 \<le> x \<Longrightarrow> \<exists>y. dec_sqrt x = Inr y"
  by (simp add: dec_sqrt_def Let_def)

lemma within_premium_returns:
  "\<exists>p. within_l1_premium qty depth half f g = Inr p \<and> dec_round p = p"
proof -
  have "\<exists>y. dec_sqrt (dec_div (of_int qty) (of_int depth)) = Inr y" if "0 < qty" "0 < depth"
    using that by (intro dec_sqrt_returns) (simp add: dec_div_nonneg)
  then show ?thesis by (auto simp: within_l1_premium_def Let_def dec_add_def round_sig_idem)
qed

lemma depth_positive:
  assumes "0 < touch_size (or_side o') q"
  shows "0 < available_depth cfg o' q"
  using assms by (simp add: available_depth_def Let_def less_max_iff_disj)

lemma excess_impact_sound:
  assumes "priceable cfg o' q" "0 < depth" "0 < excess"
  shows "\<exists>i. excess_impact cfg excess depth (raw_half_spread q) = Inr i \<and> 0 \<le> i \<and> i \<le> 10 ^ 11"
proof -
  have nn: "0 \<le> fc_market_impact cfg" "0 \<le> fc_max_impact cfg" "0 \<le> raw_half_spread q"
    "dec_mul (fc_max_impact cfg) (raw_half_spread q) \<le> 10 ^ 11"
    using assms(1) half_spread_nonneg by (auto simp: priceable_def)
  define i where "i = min (dec_mul (dec_div (dec_mul (fc_market_impact cfg) (of_int excess)) (of_int depth)) (raw_half_spread q))
    (dec_mul (fc_max_impact cfg) (raw_half_spread q))"
  have "0 \<le> i" unfolding i_def using nn assms(2,3) by (intro min.boundedI dec_mul_nonneg dec_div_nonneg) simp_all
  moreover have "i \<le> 10 ^ 11" using nn(4) by (simp add: i_def min.coboundedI2)
  moreover have "excess_impact cfg excess depth (raw_half_spread q) = Inr i"
    using assms(2) by (simp add: excess_impact_def Let_def i_def)
  ultimately show ?thesis by blast
qed

lemma push_fill_appends:
  "push_fill ts o' st n p c d
     = append_acks [router_ack ts (od_ack_seq d) o' st n (Some p) (cb_total_fees c) (cb_cost_bps c) ''''] d"
  by (simp add: push_fill_def push_ack_def append_acks_def)

lemma append_acks_append [simp]: "append_acks bs (append_acks as d) = append_acks (as @ bs) d"
  by (simp add: append_acks_def)

lemma lift_then: "andThen (lift_result (Inr x)) f s = f x s"
  by (simp add: andThen_def lift_result_def)

lemma lift_then_raise: "andThen (lift_result (Inl e)) f s = (Inl e, s)"
  by (simp add: andThen_def lift_result_def)

lemma router_ack_fields [simp]:
  "oa_status (router_ack ts n o' st qty px fees bps r) = st"
  "oa_order_id (router_ack ts n o' st qty px fees bps r) = or_order_id o'"
  "oa_symbol (router_ack ts n o' st qty px fees bps r) = or_symbol o'"
  "oa_filled_quantity (router_ack ts n o' st qty px fees bps r) = qty"
  "oa_fill_price (router_ack ts n o' st qty px fees bps r) = px"
  "ev_timestamp (router_ack ts n o' st qty px fees bps r) = ts"
  "ev_sequence (router_ack ts n o' st qty px fees bps r) = n"
  by (simp_all add: router_ack_def)

lemma premium_total:
  assumes "dec_round premium = premium" "premium \<le> 10 ^ 11" "0 \<le> i" "i \<le> 10 ^ 11"
  shows "dec_add premium i \<le> 10 ^ 12" "premium \<le> dec_add premium i"
proof -
  have "dec_round (premium + i) \<le> dec_round (10 ^ 12)" using assms by (intro round_sig_mono) simp_all
  moreover have "dec_round (10 ^ 12) = (10 ^ 12 :: rat)" by (rule dec_round_grid[of 0]) (simp_all add: on_grid_def)
  ultimately show "dec_add premium i \<le> 10 ^ 12" by (simp add: dec_add_def)
  have "dec_round premium \<le> dec_round (premium + i)" using assms(3) by (intro round_sig_mono) simp_all
  then show "premium \<le> dec_add premium i" using assms(1) by (simp add: dec_add_def)
qed

lemma cost_returnsD:
  "cost_returns cfg o' q \<Longrightarrow> 0 < n \<Longrightarrow> n \<le> or_quantity o' \<Longrightarrow> \<bar>p\<bar> \<le> 10 ^ 13 + 1 \<Longrightarrow> \<exists>c. taker_cost cfg o' q n p = Inr c"
  unfolding cost_returns_def by blast

lemma single_fill_run:
  assumes "snapped_limit o' = Inr limit_px" "\<not> available_depth cfg o' q < or_quantity o'"
    and "within_l1_premium (or_quantity o') (available_depth cfg o' q) (raw_half_spread q) (fc_within_l1 cfg) (fc_permanent cfg) = Inr premium"
    and "fill_price_of (or_side o') (touch (or_side o') q) premium limit_px = Inr px"
    and "taker_cost cfg o' q (or_quantity o') px = Inr c"
  shows "append_market_fill_acks cfg o' q ts d
    = (Inr (), append_acks [router_ack ts (od_ack_seq d) o' ACK_FILLED (or_quantity o') (Some px) (cb_total_fees c) (cb_cost_bps c) ''''] d)"
  unfolding append_market_fill_acks_def Let_def lift_then assms(1) assms(3) assms(4) if_not_P[OF assms(2)] assms(5) modify_def push_fill_appends ..

lemma walked_fill_run:
  assumes "snapped_limit o' = Inr limit_px" "available_depth cfg o' q < or_quantity o'"
    and "within_l1_premium (or_quantity o') (available_depth cfg o' q) (raw_half_spread q) (fc_within_l1 cfg) (fc_permanent cfg) = Inr premium"
    and "fill_price_of (or_side o') (touch (or_side o') q) premium limit_px = Inr px"
    and "taker_cost cfg o' q (available_depth cfg o' q) px = Inr c1"
    and "excess_impact cfg (or_quantity o' - available_depth cfg o' q) (available_depth cfg o' q) (raw_half_spread q) = Inr i"
    and "fill_price_of (or_side o') (touch (or_side o') q) (dec_add premium i) limit_px = Inr px2"
    and "taker_cost cfg o' q (or_quantity o' - available_depth cfg o' q) px2 = Inr c2"
  shows "append_market_fill_acks cfg o' q ts d
    = (Inr (), append_acks
        [router_ack ts (od_ack_seq d) o' ACK_PARTIALLY_FILLED (available_depth cfg o' q) (Some px) (cb_total_fees c1) (cb_cost_bps c1) '''',
         router_ack (ts + 1) (od_ack_seq d + 1) o' ACK_FILLED (or_quantity o' - available_depth cfg o' q) (Some px2)
           (cb_total_fees c2) (cb_cost_bps c2) ''''] d)"
proof -
  have s: "od_ack_seq (append_acks [a] d) = od_ack_seq d + 1" for a by (simp add: append_acks_def)
  show ?thesis
    unfolding append_market_fill_acks_def append_excess_fill_def Let_def lift_then assms(1) assms(3) assms(4) if_P[OF assms(2)] assms(5)
      andThen_simps(3) push_fill_appends
    unfolding lift_then assms(6-8) modify_def push_fill_appends append_acks_append s append_Cons append_Nil ..
qed

lemma market_fill_completes:
  assumes pr: "priceable cfg o' q" and qty: "0 < or_quantity o'" "0 < touch_size (or_side o') q" and cost: "cost_returns cfg o' q"
  shows "\<exists>limit_px fills. snapped_limit o' = Inr limit_px
    \<and> append_market_fill_acks cfg o' q ts d = (Inr (), append_acks fills d)
    \<and> fill_report o' limit_px (touch (or_side o') q) ts fills"
proof -
  note q = conjunct1[OF pr[unfolded priceable_def]]
  note depth = depth_positive[OF qty(2), of cfg]
  obtain limit_px where lim: "snapped_limit o' = Inr limit_px"
    "\<And>l. limit_px = Some l \<Longrightarrow> is_on_tick_grid l = Inr True \<and> \<bar>l\<bar> \<le> 10 ^ 13 + 1"
    using snapped_limit_sound[of o'] pr by (auto simp: priceable_def split: option.splits)
  obtain premium where prem: "within_l1_premium (or_quantity o') (available_depth cfg o' q) (raw_half_spread q)
      (fc_within_l1 cfg) (fc_permanent cfg) = Inr premium" "dec_round premium = premium"
    using within_premium_returns by blast
  have small: "premium \<le> 10 ^ 11" using pr prem(1) by (simp add: priceable_def)
  have "premium \<le> 10 ^ 12" using small by simp
  from fill_price_sound[OF q this lim(2)]
  obtain px where px: "fill_price_of (or_side o') (touch (or_side o') q) premium limit_px = Inr px" "\<bar>px\<bar> \<le> 10 ^ 13 + 1"
    "taker_price_ok (or_side o') (touch (or_side o') q) limit_px px" by blast
  show ?thesis
  proof (cases "available_depth cfg o' q < or_quantity o'")
    case False
    obtain c where c: "taker_cost cfg o' q (or_quantity o') px = Inr c"
      using cost_returnsD[OF cost qty(1) order_refl px(2)] by blast
    note run = single_fill_run[OF lim(1) False prem(1) px(1) c, of ts d]
    show ?thesis
      by (rule exI[of _ limit_px], rule exI, intro conjI, rule lim(1), rule run)
        (use qty(1) px(3) in \<open>simp add: fill_report_def fill_of_def\<close>)
  next
    case True
    then have excess: "0 < or_quantity o' - available_depth cfg o' q" "or_quantity o' - available_depth cfg o' q \<le> or_quantity o'"
      using depth by simp_all
    obtain i where i: "excess_impact cfg (or_quantity o' - available_depth cfg o' q) (available_depth cfg o' q) (raw_half_spread q) = Inr i"
      "0 \<le> i" "i \<le> 10 ^ 11"
      using excess_impact_sound[OF pr depth excess(1)] by blast
    note sum = premium_total[OF prem(2) small i(2,3)]
    from fill_price_sound[OF q sum(1) lim(2)]
    obtain px2 where p2: "fill_price_of (or_side o') (touch (or_side o') q) (dec_add premium i) limit_px = Inr px2"
      "\<bar>px2\<bar> \<le> 10 ^ 13 + 1" "taker_price_ok (or_side o') (touch (or_side o') q) limit_px px2" by blast
    obtain c1 where c1: "taker_cost cfg o' q (available_depth cfg o' q) px = Inr c1"
      using cost_returnsD[OF cost depth less_imp_le[OF True] px(2)] by blast
    obtain c2 where c2: "taker_cost cfg o' q (or_quantity o' - available_depth cfg o' q) px2 = Inr c2"
      using cost_returnsD[OF cost excess p2(2)] by blast
    note run = walked_fill_run[OF lim(1) True prem(1) px(1) c1 i(1) p2(1) c2, of ts d]
    show ?thesis
      by (rule exI[of _ limit_px], rule exI, intro conjI, rule lim(1), rule run)
        (use True depth px(3) p2(3) fill_price_mono[OF q sum(2) px(1) p2(1)] in \<open>simp add: fill_report_def fill_of_def\<close>)
  qed
qed

text \<open>C23: Simulated taker fills are complete and honest. On an uncrossed quote with displayed size, whatever
  impact, slippage and depletion parameters price the order, the routine returns and appends one
  fill for the whole order, or a partial fill of the depth and a second fill of the rest a
  nanosecond later at a price no better; the quantities are positive and add up to the order's, and
  every price is a valid tick, never beyond the snapped limit, and no better than the touch
  unless it is that limit.\<close>

theorem market_fill_sound:
  assumes pr: "priceable cfg o' q" and qty: "0 < or_quantity o'" "0 < touch_size (or_side o') q" and cost: "cost_returns cfg o' q"
  shows "\<exists>limit_px fills. snapped_limit o' = Inr limit_px
    \<and> append_market_fill_acks cfg o' q ts d = (Inr (), append_acks fills d)
    \<and> fill_report o' limit_px (touch (or_side o') q) ts fills"
  by (rule market_fill_completes[OF assms])

definition sample_market_quote :: nbbo_quote where
  "sample_market_quote = \<lparr>ev_timestamp = 10, ev_correlation = ''c'', ev_sequence = 1, ev_source_layer = ''INGESTION'',
     ev_schema_version = 1, nq_symbol = ''A'', nq_bid = 9998/100, nq_ask = 10002/100, nq_bid_size = 400, nq_ask_size = 300,
     nq_bid_exchange = 0, nq_ask_exchange = 0, nq_exchange_timestamp = 10, nq_conditions = [], nq_indicators = [],
     nq_sequence_number = 1, nq_tape = 0, nq_participant_timestamp = None, nq_trf_timestamp = None, nq_received = None\<rparr>"

definition sample_fill_config :: fill_config where
  "sample_fill_config = \<lparr>fc_cost = zero_cost, fc_market_impact = 1/2, fc_max_impact = 10, fc_stop_slippage = 2,
     fc_within_l1 = 0, fc_permanent = 0, fc_depletion = 1\<rparr>"

definition sample_buy :: order_request where
  "sample_buy = \<lparr>ev_timestamp = 10, ev_correlation = ''c'', ev_sequence = 7, ev_source_layer = ''KERNEL'', ev_schema_version = 1,
     or_order_id = ''o1'', or_symbol = ''A'', or_side = BUY, or_order_type = MARKET, or_quantity = 500, or_limit_price = None,
     or_strategy = ''s'', or_is_short = False, or_is_moc = False, or_g12_cost_bps = 0, or_reason = ''''\<rparr>"

definition empty_desk :: order_desk where
  "empty_desk = \<lparr>od_pending = [], od_ack_seq = 0, od_submitted = {}\<rparr>"

lemma sample_quote_sane: "sane_quote sample_market_quote"
  by (simp add: sane_quote_def sample_market_quote_def dec_exact_ten)

lemma sample_half: "raw_half_spread sample_market_quote = 2/100"
  by (simp add: raw_half_spread_def sample_market_quote_def dec_sub_def dec_div_def dec_exact_ten)

lemma sample_priceable: "priceable sample_fill_config sample_buy sample_market_quote"
  using sample_quote_sane unfolding priceable_def sample_half
  by (simp add: sample_fill_config_def sample_buy_def within_l1_premium_def dec_mul_def dec_exact_ten)

lemma sample_cost: "cost_returns sample_fill_config sample_buy sample_market_quote"
  by (simp add: cost_returns_def taker_cost_def sample_fill_config_def zero_cost_def)

lemma market_fill_witness:
  "\<exists>fills. append_market_fill_acks sample_fill_config sample_buy sample_market_quote 10 empty_desk = (Inr (), append_acks fills empty_desk)
    \<and> sum_list (map oa_filled_quantity fills) = 500"
proof -
  have "0 < or_quantity sample_buy" "0 < touch_size (or_side sample_buy) sample_market_quote"
    by (simp_all add: sample_buy_def touch_size_def sample_market_quote_def)
  from market_fill_sound[OF sample_priceable this sample_cost, of 10 empty_desk] show ?thesis
    by (auto simp: fill_report_def sample_buy_def)
qed

text \<open>The limit itself is snapped as a fill price is, against the taker: a buy limit off the tick grid is
  raised to the next tick, so that a fill may cost more than the order's limit.\<close>

lemma limit_snapped_through:
  "snapped_limit (sample_buy\<lparr>or_limit_price := Some (100001/1000)\<rparr>) = Inr (Some (10001/100))"
proof -
  have "\<lceil>100001 / 10 :: rat\<rceil> = 10001" by (rule ceiling_unique) simp_all
  then show ?thesis by (simp add: snapped_limit_def sample_buy_def snap_fill_price_def tick_places_def quantize_def)
qed

end
