(* ===== verification/Trading_Calendar.thy ===== *)
theory Trading_Calendar
  imports Events
begin

section \<open>Sessions and the day-trading rule (core/trading\_session.py, execution/trading\_session.py,
  execution/regulatory/pdt\_constraint.py)\<close>

text \<open>
  The bounds of a trading session and their resolution for the day of an event, the window
  before the close in which the book is flattened, the refusal of entries outside regular
  hours, and the counter of same-day round trips with its minimum-equity gate. A date is its
  ordinal number, day 0 a Monday. The time-zone database is outside the repository: the date of
  an instant in New York and the instant of a clock time there are the fields of a calendar.
\<close>

subsection \<open>Session bounds\<close>

record calendar =
  ny_date :: "ns \<Rightarrow> int"
  ny_clock :: "int \<Rightarrow> string \<Rightarrow> ns"

record session_bounds =
  sb_date :: int
  sb_open :: ns
  sb_close :: ns
  sb_holiday :: bool
  sb_early_close :: bool
  sb_no_entry_seconds :: int
  sb_open_et :: string
  sb_close_et :: string
  sb_early_close_et :: string
  sb_holiday_dates :: "int list"
  sb_early_dates :: "int list"

definition covers_ns :: "calendar \<Rightarrow> session_bounds \<Rightarrow> ns \<Rightarrow> bool" where
  "covers_ns cal b ts \<longleftrightarrow> ny_date cal ts = sb_date b"

definition resolve_for_timestamp :: "calendar \<Rightarrow> session_bounds \<Rightarrow> ns \<Rightarrow> session_bounds" where
  "resolve_for_timestamp cal b ts =
     (let d = ny_date cal ts in
      if d = sb_date b then b
      else let early = sb_early_close b \<or> d \<in> set (sb_early_dates b);
               holiday = sb_holiday b \<or> d \<in> set (sb_holiday_dates b);
               close_et = (if early then sb_early_close_et b else sb_close_et b)
           in b\<lparr>sb_date := d, sb_open := ny_clock cal d (sb_open_et b), sb_close := ny_clock cal d close_et,
                sb_holiday := holiday, sb_early_close := early\<rparr>)"

definition no_entry_before_ns :: "session_bounds \<Rightarrow> ns" where
  "no_entry_before_ns b = sb_open b + sb_no_entry_seconds b * 1000000000"

definition session_flatten_deadline_ns :: "calendar \<Rightarrow> session_bounds option \<Rightarrow> bool \<Rightarrow> int \<Rightarrow> ns \<Rightarrow> ns option" where
  "session_flatten_deadline_ns cal bounds enabled before at_ns =
     (case bounds of
        None \<Rightarrow> None
      | Some b \<Rightarrow> if \<not> enabled then None else Some (sb_close (resolve_for_timestamp cal b at_ns) - before * 1000000000))"

definition in_session_flatten_window :: "calendar \<Rightarrow> session_bounds option \<Rightarrow> bool \<Rightarrow> int \<Rightarrow> ns \<Rightarrow> bool" where
  "in_session_flatten_window cal bounds enabled before at_ns =
     (case session_flatten_deadline_ns cal bounds enabled before at_ns of None \<Rightarrow> False | Some d \<Rightarrow> d \<le> at_ns)"

definition resolve_trading_session_bounds ::
  "calendar \<Rightarrow> int \<Rightarrow> string \<Rightarrow> string \<Rightarrow> bool \<Rightarrow> string \<Rightarrow> bool \<Rightarrow> int \<Rightarrow> int list \<Rightarrow> int list \<Rightarrow> session_bounds" where
  "resolve_trading_session_bounds cal d open_et close_et early early_et holiday no_entry early_dates holiday_dates =
     (let early' = early \<or> d \<in> set early_dates; holiday' = holiday \<or> d \<in> set holiday_dates
      in \<lparr>sb_date = d, sb_open = ny_clock cal d open_et,
          sb_close = ny_clock cal d (if early' then early_et else close_et), sb_holiday = holiday',
          sb_early_close = early', sb_no_entry_seconds = no_entry, sb_open_et = open_et, sb_close_et = close_et,
          sb_early_close_et = early_et, sb_holiday_dates = holiday_dates, sb_early_dates = early_dates\<rparr>)"

definition opens_or_increases_signed :: "int \<Rightarrow> int \<Rightarrow> bool" where
  "opens_or_increases_signed current post \<longleftrightarrow>
     \<bar>current\<bar> < \<bar>post\<bar> \<or> (current \<noteq> 0 \<and> post \<noteq> 0 \<and> (0 < current) \<noteq> (0 < post))"

definition should_suppress_entry :: "calendar \<Rightarrow> ns \<Rightarrow> session_bounds \<Rightarrow> bool \<Rightarrow> string option" where
  \<comment> \<open>the reason token of a suppressed entry\<close>
  "should_suppress_entry cal ts b opens =
     (if \<not> opens then None
      else let e = resolve_for_timestamp cal b ts in
        if \<not> covers_ns cal e ts then Some ''RTH_ENTRY_SUPPRESSED''
        else if sb_holiday e then Some ''MARKET_HOLIDAY''
        else if ts < no_entry_before_ns e then Some ''RTH_ENTRY_SUPPRESSED''
        else if sb_close e \<le> ts then Some ''RTH_ENTRY_SUPPRESSED''
        else None)"

lemma resolved_covers: "covers_ns cal (resolve_for_timestamp cal b ts) ts"
  by (simp add: covers_ns_def resolve_for_timestamp_def Let_def)

lemma holiday_is_sticky:
  \<comment> \<open>the flag of the day the bounds were built for is carried to every other day\<close>
  "sb_holiday b \<Longrightarrow> sb_holiday (resolve_for_timestamp cal b ts)"
  by (simp add: resolve_for_timestamp_def Let_def)

lemma early_close_is_sticky: "sb_early_close b \<Longrightarrow> sb_early_close (resolve_for_timestamp cal b ts)"
  by (simp add: resolve_for_timestamp_def Let_def)

subsection \<open>Business days\<close>

definition weekday :: "int \<Rightarrow> int" where
  "weekday d = d mod 7"

definition business_days_between :: "int \<Rightarrow> int \<Rightarrow> int" where
  "business_days_between a b =
     (if b \<le> a then 0
      else let days = b - a; weeks = days div 7; remainder = days mod 7
           in fold (\<lambda>offset n. if (weekday a + offset) mod 7 < 5 then n + 1 else n) [1 .. remainder] (weeks * 5))"

subsection \<open>Round trips\<close>

datatype account_type = MARGIN_25K | MARGIN_UNDER_25K | CASH

record pdt_config =
  pdc_account_type :: account_type
  pdc_min_equity :: decimal
  pdc_threshold :: int
  pdc_window_days :: int

record pdt =
  pd_config :: pdt_config
  pd_open_date :: "((string \<times> symbol) \<times> int) list"
  pd_round_trips :: "(string \<times> int list) list"

definition pdt_new :: "pdt_config \<Rightarrow> pdt" where
  "pdt_new c = \<lparr>pd_config = c, pd_open_date = [], pd_round_trips = []\<rparr>"

definition trips_of :: "string \<Rightarrow> pdt \<Rightarrow> int list" where
  "trips_of account p = (case map_of (pd_round_trips p) account of Some ds \<Rightarrow> ds | None \<Rightarrow> [])"

definition pdt_prune :: "string \<Rightarrow> int \<Rightarrow> pdt \<Rightarrow> pdt" where
  "pdt_prune account today p =
     (if trips_of account p = [] then p
      else p\<lparr>pd_round_trips := dict_set account (filter (\<lambda>d. today - d \<le> 14) (trips_of account p)) (pd_round_trips p)\<rparr>)"

definition pdt_open_date :: "string \<times> symbol \<Rightarrow> int \<Rightarrow> int \<Rightarrow> int \<Rightarrow> pdt \<Rightarrow> ((string \<times> symbol) \<times> int) list" where
  "pdt_open_date key prev new day p =
     (if prev = 0 then (if new \<noteq> 0 then dict_set key day (pd_open_date p) else pd_open_date p)
      else if new = 0 then dict_pop key (pd_open_date p)
      else if (0 < prev) \<noteq> (0 < new) then dict_set key day (pd_open_date p)
      else if \<bar>new\<bar> < \<bar>prev\<bar> then pd_open_date p
      else (if map_of (pd_open_date p) key = None then dict_set key day (pd_open_date p) else pd_open_date p))"

definition closed_today :: "string \<times> symbol \<Rightarrow> int \<Rightarrow> int \<Rightarrow> int \<Rightarrow> pdt \<Rightarrow> bool" where
  "closed_today key prev new day p \<longleftrightarrow>
     prev \<noteq> 0 \<and> (new = 0 \<or> (0 < prev) \<noteq> (0 < new) \<or> \<bar>new\<bar> < \<bar>prev\<bar>) \<and> map_of (pd_open_date p) key = Some day"

definition pdt_record_fill :: "calendar \<Rightarrow> string \<Rightarrow> symbol \<Rightarrow> int \<Rightarrow> int \<Rightarrow> ns \<Rightarrow> pdt \<Rightarrow> pdt" where
  "pdt_record_fill cal account s prev new ts p =
     (let day = ny_date cal ts; key = (account, s);
          p1 = p\<lparr>pd_open_date := pdt_open_date key prev new day p\<rparr>
      in if closed_today key prev new day p
         then pdt_prune account day
                (p1\<lparr>pd_round_trips := dict_set account (trips_of account p1 @ [day]) (pd_round_trips p1)\<rparr>)
         else p1)"

definition round_trip_count :: "calendar \<Rightarrow> string \<Rightarrow> ns \<Rightarrow> pdt \<Rightarrow> int" where
  "round_trip_count cal account now p =
     int (length (filter (\<lambda>d. business_days_between d (ny_date cal now) < pdc_window_days (pd_config p)
        \<and> 0 \<le> business_days_between d (ny_date cal now)) (trips_of account p)))"

definition is_flagged :: "calendar \<Rightarrow> string \<Rightarrow> ns \<Rightarrow> pdt \<Rightarrow> bool" where
  "is_flagged cal account now p \<longleftrightarrow> pdc_threshold (pd_config p) \<le> round_trip_count cal account now p"

definition pdt_should_suppress_entry :: "calendar \<Rightarrow> string \<Rightarrow> decimal \<Rightarrow> ns \<Rightarrow> pdt \<Rightarrow> bool" where
  "pdt_should_suppress_entry cal account equity now p \<longleftrightarrow>
     pdc_account_type (pd_config p) = MARGIN_25K \<and> \<not> pdc_min_equity (pd_config p) \<le> equity \<and> is_flagged cal account now p"

subsection \<open>The formula counts weekdays\<close>

definition weekdays_after :: "int \<Rightarrow> nat \<Rightarrow> nat" where
  "weekdays_after a n = card {d. a < d \<and> d \<le> a + int n \<and> weekday d < 5}"

lemma weekdays_after_0 [simp]: "weekdays_after a 0 = 0"
proof -
  have "{d. a < d \<and> d \<le> a + int 0 \<and> weekday d < 5} = {}" by auto
  then show ?thesis unfolding weekdays_after_def by (simp only: card.empty)
qed

lemma weekdays_after_Suc [simp]: "weekdays_after a (Suc n) = weekdays_after a n + (if (a + int n + 1) mod 7 < 5 then 1 else 0)"
proof -
  let ?S = "{d. a < d \<and> d \<le> a + int n \<and> weekday d < 5}"
  have f: "finite ?S" by (rule finite_subset[of _ "{a..a + int n}"]) auto
  have "{d. a < d \<and> d \<le> a + int (Suc n) \<and> weekday d < 5}
      = (if (a + int n + 1) mod 7 < 5 then insert (a + int n + 1) ?S else ?S)"
    by (auto simp: weekday_def) (metis add.assoc add.commute int_one_le_iff_zero_less linorder_not_le order_antisym_conv zle_add1_eq_le)+
  then show ?thesis using f by (simp add: weekdays_after_def)
qed

lemma weekdays_week: "weekdays_after a (n + 7) = weekdays_after a n + 5"
proof -
  define r where "r = (a + int n) mod 7"
  have step: "weekdays_after a (n + Suc k) = weekdays_after a (n + k) + (if (r + (int k + 1)) mod 7 < 5 then 1 else 0)" for k
  proof -
    have "(a + int (n + k) + 1) mod 7 = (r + (int k + 1)) mod 7"
      unfolding r_def mod_add_left_eq by (simp add: add.assoc)
    then show ?thesis by simp
  qed
  have "r \<in> {0, 1, 2, 3, 4, 5, 6}" unfolding r_def by simp presburger
  then show ?thesis
    using step[of 0] step[of 1] step[of 2] step[of 3] step[of 4] step[of 5] step[of 6]
    by (elim insertE emptyE) (simp_all add: numeral_eq_Suc del: weekdays_after_Suc)
qed

lemma weekdays_weeks: "weekdays_after a (r + 7 * w) = weekdays_after a r + 5 * w"
proof (induction w)
  case (Suc w)
  have "weekdays_after a (r + 7 * Suc w) = weekdays_after a ((r + 7 * w) + 7)" by (simp add: algebra_simps)
  then show ?case using Suc by (simp add: weekdays_week del: weekdays_after_Suc)
qed simp

lemma remainder_loop:
  "fold (\<lambda>offset n. if (weekday a + offset) mod 7 < 5 then n + 1 else n) [1 .. int r] k = k + int (weekdays_after a r)"
proof (induction r arbitrary: k)
  case (Suc r)
  have "[1 .. int (Suc r)] = [1 .. int r] @ [int r + 1]" by (simp add: upto_rec2)
  moreover have "(weekday a + (int r + 1)) mod 7 = (a + int r + 1) mod 7" by (simp only: weekday_def mod_add_left_eq add.assoc)
  ultimately show ?case using Suc by simp
qed simp

text \<open>The day counter of the pattern-day-trader window, which divides the span into weeks and
  walks the remaining days, is the number of weekdays after the first date up to and including
  the second, whatever the two dates.\<close>

theorem business_days_exact:
  "business_days_between a b = int (card {d. a < d \<and> d \<le> b \<and> weekday d < 5})"
proof (cases "b \<le> a")
  case True
  then have "{d. a < d \<and> d \<le> b \<and> weekday d < 5} = {}" by auto
  then show ?thesis using True unfolding business_days_between_def by (simp only: if_True card.empty of_nat_0)
next
  case False
  define r w where "r = nat ((b - a) mod 7)" and "w = nat ((b - a) div 7)"
  have rw: "int r = (b - a) mod 7" "int w = (b - a) div 7"
    using False by (simp_all add: r_def w_def pos_imp_zdiv_nonneg_iff)
  then have b: "b = a + int (r + 7 * w)" using mult_div_mod_eq[of 7 "b - a"] by simp
  have "card {d. a < d \<and> d \<le> b \<and> weekday d < 5} = weekdays_after a (r + 7 * w)"
    by (simp add: weekdays_after_def b)
  also have "\<dots> = weekdays_after a r + 5 * w" by (rule weekdays_weeks)
  finally show ?thesis
    using False remainder_loop[of a r] by (simp add: business_days_between_def Let_def rw[symmetric])
qed

subsection \<open>Pruning loses nothing\<close>

type_synonym pdt_fill = "string \<times> symbol \<times> int \<times> int \<times> ns"

definition record_fills :: "calendar \<Rightarrow> pdt_fill list \<Rightarrow> pdt \<Rightarrow> pdt" where
  "record_fills cal = fold (\<lambda>(account, s, prev, new, ts). pdt_record_fill cal account s prev new ts)"

definition record_fill_full :: "calendar \<Rightarrow> pdt_fill \<Rightarrow> pdt \<Rightarrow> pdt" where
  \<comment> \<open>the specification: every round trip is kept\<close>
  "record_fill_full cal = (\<lambda>(account, s, prev, new, ts) p.
     let day = ny_date cal ts; key = (account, s); p1 = p\<lparr>pd_open_date := pdt_open_date key prev new day p\<rparr>
     in if closed_today key prev new day p
        then p1\<lparr>pd_round_trips := dict_set account (trips_of account p1 @ [day]) (pd_round_trips p1)\<rparr> else p1)"

definition fill_day :: "calendar \<Rightarrow> pdt_fill \<Rightarrow> int" where
  "fill_day cal f = (case f of (_, _, _, _, ts) \<Rightarrow> ny_date cal ts)"

definition same_recent :: "int \<Rightarrow> pdt \<Rightarrow> pdt \<Rightarrow> bool" where
  "same_recent day p q \<longleftrightarrow> pd_config p = pd_config q \<and> pd_open_date p = pd_open_date q \<and>
     (\<forall>later\<ge>day. \<forall>account. filter (\<lambda>d. later - d \<le> 14) (trips_of account p) = filter (\<lambda>d. later - d \<le> 14) (trips_of account q))"

lemma trips_of_simps [simp]:
  "trips_of a (p\<lparr>pd_open_date := x\<rparr>) = trips_of a p"
  "trips_of a (p\<lparr>pd_round_trips := dict_set b ds t\<rparr>) = (if a = b then ds else trips_of a (p\<lparr>pd_round_trips := t\<rparr>))"
  "trips_of a (p\<lparr>pd_round_trips := pd_round_trips p\<rparr>) = trips_of a p"
  by (auto simp: trips_of_def)

lemma trips_of_prune: "trips_of a (pdt_prune b day p) = (if a = b then filter (\<lambda>d. day - d \<le> 14) (trips_of a p) else trips_of a p)"
  by (auto simp: pdt_prune_def)

lemma prune_fields [simp]: "pd_config (pdt_prune b day p) = pd_config p" "pd_open_date (pdt_prune b day p) = pd_open_date p"
  by (simp_all add: pdt_prune_def)

lemma filter_recent: "day \<le> later \<Longrightarrow> filter (\<lambda>d. later - d \<le> 14) (filter (\<lambda>d. day - d \<le> 14) ds) = filter (\<lambda>d. later - d \<le> (14::int)) ds"
  by (induction ds) auto

lemma record_same_recent:
  assumes "same_recent d p q" "d \<le> fill_day cal f"
  shows "same_recent (fill_day cal f) (record_fills cal [f] p) (record_fill_full cal f q)"
proof -
  obtain account s prev new ts where f: "f = (account, s, prev, new, ts)" by (cases f) auto
  have trips: "filter (\<lambda>x. later - x \<le> 14) (trips_of a p) = filter (\<lambda>x. later - x \<le> 14) (trips_of a q)"
    if "ny_date cal ts \<le> later" for later a
    using assms that by (simp add: same_recent_def fill_day_def f)
  have same: "pd_config p = pd_config q" "pd_open_date p = pd_open_date q" using assms(1) by (simp_all add: same_recent_def)
  have "closed_today k prev new day p = closed_today k prev new day q" "pdt_open_date k prev new day p = pdt_open_date k prev new day q" for k day
    using same by (simp_all add: closed_today_def pdt_open_date_def)
  then show ?thesis using trips same
    by (auto simp: same_recent_def record_fills_def record_fill_full_def pdt_record_fill_def Let_def f fill_day_def
        trips_of_prune filter_recent simp del: filter_filter)
qed

lemma records_same_recent:
  "same_recent d p q \<Longrightarrow> sorted (map (fill_day cal) fs) \<Longrightarrow> \<forall>f\<in>set fs. d \<le> fill_day cal f \<and> fill_day cal f \<le> e \<Longrightarrow> d \<le> e
    \<Longrightarrow> same_recent e (record_fills cal fs p) (fold (record_fill_full cal) fs q)"
proof (induction fs arbitrary: d p q)
  case Nil
  then show ?case by (auto simp: same_recent_def record_fills_def)
next
  case (Cons f fs)
  have "same_recent (fill_day cal f) (record_fills cal [f] p) (record_fill_full cal f q)"
    by (rule record_same_recent[OF Cons.prems(1)]) (use Cons.prems(3) in simp)
  from Cons.IH[OF this] Cons.prems show ?case by (simp add: record_fills_def)
qed

lemma recent_enough: "business_days_between d today < 10 \<Longrightarrow> today - d \<le> 14"
proof (rule ccontr)
  assume few: "business_days_between d today < 10" and "\<not> today - d \<le> 14"
  then have far: "15 \<le> today - d" by simp
  have "weekdays_after d (0 + 7 * 2) = 10" unfolding weekdays_weeks by simp
  moreover have "card {x. d < x \<and> x \<le> d + int (0 + 7 * 2) \<and> weekday x < 5} \<le> card {x. d < x \<and> x \<le> today \<and> weekday x < 5}"
    by (rule card_mono) (use far in \<open>auto intro: finite_subset[of _ "{d..today}"]\<close>)
  ultimately show False using few unfolding business_days_exact weekdays_after_def by simp
qed

text \<open>Take any history of fills in time order on any accounts and symbols, and any later instant.
  With a window of at most ten business days, the tracker that forgets round trips older than two
  calendar weeks gives every account the round-trip count of a tracker that keeps them all.
  So an entry is refused exactly when the account is of the margin type, its equity is below the
  floor, and the full record holds at least the configured number of same-day round trips whose
  dates lie less than the window's number of weekdays before that instant's date.\<close>

theorem pruned_gate_exact:
  assumes order: "sorted (map (fill_day cal) fs)" "\<forall>f\<in>set fs. fill_day cal f \<le> ny_date cal now"
    and window: "pdc_window_days c \<le> 10"
  shows "pdt_should_suppress_entry cal account equity now (record_fills cal fs (pdt_new c)) \<longleftrightarrow>
     pdc_account_type c = MARGIN_25K \<and> equity < pdc_min_equity c \<and>
     pdc_threshold c \<le> int (length (filter (\<lambda>d. int (card {x. d < x \<and> x \<le> ny_date cal now \<and> weekday x < 5}) < pdc_window_days c)
        (trips_of account (fold (record_fill_full cal) fs (pdt_new c)))))"
proof -
  define d where "d = Min (insert (ny_date cal now) (set (map (fill_day cal) fs)))"
  have d: "d \<le> ny_date cal now" "\<forall>f\<in>set fs. d \<le> fill_day cal f" unfolding d_def by simp_all
  have "same_recent d (pdt_new c) (pdt_new c)" by (simp add: same_recent_def)
  from records_same_recent[OF this order(1), of "ny_date cal now"] d order(2)
  have same: "same_recent (ny_date cal now) (record_fills cal fs (pdt_new c)) (fold (record_fill_full cal) fs (pdt_new c))" by simp
  have config: "pd_config (fold (record_fill_full cal) fs p) = pd_config p" for p
    by (induction fs arbitrary: p) (auto simp: record_fill_full_def Let_def split: prod.split)
  let ?in = "\<lambda>x. business_days_between x (ny_date cal now) < pdc_window_days c"
  have nonneg: "0 \<le> business_days_between x y" for x y unfolding business_days_exact by simp
  have "filter ?in ds = filter ?in (filter (\<lambda>x. ny_date cal now - x \<le> 14) ds)" for ds
    using recent_enough window by (induction ds) (fastforce)+
  then have "filter ?in (trips_of account (record_fills cal fs (pdt_new c)))
      = filter ?in (trips_of account (fold (record_fill_full cal) fs (pdt_new c)))"
    using same unfolding same_recent_def by (metis order_refl)
  moreover have "pd_config (record_fills cal fs (pdt_new c)) = c"
    using same config[of "pdt_new c"] by (simp add: same_recent_def pdt_new_def)
  ultimately show ?thesis
    by (simp add: pdt_should_suppress_entry_def is_flagged_def round_trip_count_def nonneg not_le business_days_exact[symmetric])
qed

definition sample_calendar :: calendar where
  "sample_calendar = \<lparr>ny_date = (\<lambda>ts. ts div 100), ny_clock = (\<lambda>d _. d * 100)\<rparr>"

definition sample_pdt_config :: pdt_config where
  "sample_pdt_config = \<lparr>pdc_account_type = MARGIN_25K, pdc_min_equity = 25000, pdc_threshold = 1, pdc_window_days = 5\<rparr>"

theorem pruned_gate_exact_witness:
  "pdt_should_suppress_entry sample_calendar ''m'' 100 7 (record_fills sample_calendar [(''m'', ''X'', 0, 5, 1), (''m'', ''X'', 5, 0, 2)] (pdt_new sample_pdt_config))"
proof -
  let ?fs = "[(''m'', ''X'', 0, 5, 1), (''m'', ''X'', 5, 0, 2)] :: pdt_fill list"
  have ordered: "sorted (map (fill_day sample_calendar) ?fs)" "\<forall>f\<in>set ?fs. fill_day sample_calendar f \<le> ny_date sample_calendar 7"
    by (simp_all add: fill_day_def sample_calendar_def)
  have c: "pdc_window_days sample_pdt_config \<le> 10" by (simp add: sample_pdt_config_def)
  have trips: "trips_of ''m'' (fold (record_fill_full sample_calendar) ?fs (pdt_new sample_pdt_config)) = [0]" by code_simp
  have "{x::int. 0 < x \<and> x \<le> 0 \<and> weekday x < 5} = {}" by auto
  then have "card {x::int. 0 < x \<and> x \<le> 0 \<and> weekday x < 5} = 0" by (simp only: card.empty)
  then show ?thesis unfolding pruned_gate_exact[OF ordered c] trips
    by (simp add: sample_pdt_config_def sample_calendar_def)
qed

end
