(* ===== verification/Whole_Shares.thy ===== *)
theory Whole_Shares
  imports Fill_Attribution
begin

section \<open>Splitting over whole-number holdings (core/fill\_attribution.py)\<close>

text \<open>
  When a fill is split over the slices' own share counts the weights are integers. The only
  rounding is then the last division, so the floors are the exact ones and only a weight
  with a fractional share can receive a leftover unit: no entry exceeds its exact share
  rounded up, and a fill no larger than the holdings never takes more than a slice holds.
\<close>

lemma fl_floor_of_quotient:
  fixes a b :: int
  assumes "0 \<le> a" "a < 2 ^ 53" "0 < b"
  shows "\<lfloor>fl_div (of_int a) (of_int b)\<rfloor> = a div b"
    and "fl_div (of_int a) (of_int b) = of_int (a div b) \<longleftrightarrow> b dvd a"
proof -
  define q where "q = a div b"
  have ab: "a = q * b + a mod b" by (simp add: q_def)
  have m: "0 \<le> a mod b" "a mod b < b" using assms(3) by simp_all
  have q: "0 \<le> q" "q \<le> a"
    using assms zdiv_mono2[of a 1 b] by (simp_all add: q_def pos_imp_zdiv_nonneg_iff)
  have q53: "\<bar>q\<bar> < 2 ^ 53" using q assms(2) by simp
  have b: "(0 :: rat) < of_int b" using assms(3) by simp
  have "q * b \<le> a" using ab m(1) by linarith
  then have "(of_int (q * b) :: rat) \<le> of_int a" by (simp only: of_int_le_iff)
  then have low: "of_int q \<le> (of_int a / of_int b :: rat)"
    using b by (simp add: pos_le_divide_eq)
  have low': "of_int q \<le> fl_div (of_int a) (of_int b)"
    unfolding fl_div_def using low fl_of_int_exact[OF q53] by (intro round_sig_between(1)) simp_all
  have "0 \<le> (of_int a / of_int b :: rat)" using assms b by simp
  from fl_bounds(2)[OF this] have "fl_div (of_int a) (of_int b) * (2 ^ 53 * of_int b) \<le> of_int a * (2 ^ 53 + 1)"
    using b by (simp add: fl_div_def field_simps)
  moreover have "of_int a * (2 ^ 53 + 1) < (of_int (q + 1) * (2 ^ 53 * of_int b) :: rat)"
  proof -
    have "(q + 1) * b = q * b + b" by (simp add: distrib_right)
    then have "a + 1 \<le> (q + 1) * b" using ab m by linarith
    then have "(a + 1) * 2 ^ 53 \<le> (q + 1) * b * 2 ^ 53" by (rule mult_right_mono) simp
    moreover have "a * (2 ^ 53 + 1) = a * 2 ^ 53 + a" "(a + 1) * 2 ^ 53 = a * 2 ^ 53 + 2 ^ 53"
      by (simp_all add: distrib_right distrib_left)
    ultimately have "a * (2 ^ 53 + 1) < (q + 1) * (2 ^ 53 * b)"
      using assms(2) unfolding mult.commute[of "2 ^ 53" b] mult.assoc[symmetric] by linarith
    then have "(of_int (a * (2 ^ 53 + 1)) :: rat) < of_int ((q + 1) * (2 ^ 53 * b))" by (simp only: of_int_less_iff)
    then show ?thesis by simp
  qed
  ultimately have "fl_div (of_int a) (of_int b) * (2 ^ 53 * of_int b) < of_int (q + 1) * (2 ^ 53 * of_int b)"
    by (rule le_less_trans)
  then have high: "fl_div (of_int a) (of_int b) < of_int (q + 1)"
    using mult_less_cancel_right_pos[of "2 ^ 53 * of_int b :: rat"] b by simp
  show "\<lfloor>fl_div (of_int a) (of_int b)\<rfloor> = a div b"
    using low' high unfolding q_def[symmetric] by (simp add: floor_unique)
  show "fl_div (of_int a) (of_int b) = of_int (a div b) \<longleftrightarrow> b dvd a"
  proof
    assume "b dvd a"
    then have "a div b * b = a" by simp
    then have "(of_int (a div b) * of_int b :: rat) = of_int a" by (simp only: of_int_mult[symmetric])
    then have "(of_int a / of_int b :: rat) = of_int q" using b by (simp add: q_def field_simps)
    then show "fl_div (of_int a) (of_int b) = of_int (a div b)"
      using fl_of_int_exact[OF q53] by (simp add: fl_div_def q_def)
  next
    assume eq: "fl_div (of_int a) (of_int b) = of_int (a div b)"
    have "of_int a * (2 ^ 53 - 1) \<le> of_int q * (2 ^ 53 * of_int b :: rat)"
      using fl_bounds(1)[OF \<open>0 \<le> (of_int a / of_int b :: rat)\<close>] b eq
      by (simp add: fl_div_def q_def field_simps)
    then have "(of_int (a * (2 ^ 53 - 1)) :: rat) \<le> of_int (q * (2 ^ 53 * b))" by simp
    then have le: "a * (2 ^ 53 - 1) \<le> q * (2 ^ 53 * b)" by (simp only: of_int_le_iff)
    show "b dvd a"
    proof (rule ccontr)
      assume "\<not> b dvd a"
      then have "a mod b \<noteq> 0" by (simp add: dvd_eq_mod_eq_0)
      then have "q * b + 1 \<le> a" using ab m by linarith
      then have "(q * b + 1) * 2 ^ 53 \<le> a * 2 ^ 53" by (rule mult_right_mono) simp
      then have "q * (2 ^ 53 * b) + 2 ^ 53 \<le> a * 2 ^ 53" by (simp add: distrib_right mult.commute mult.left_commute)
      then show False using le assms(2) by (simp add: right_diff_distrib)
    qed
  qed
qed

lemma sorted_prefix_below:
  fixes f :: "'a \<Rightarrow> 'b::linorder"
  assumes "sorted (map f xs)" "d \<le> length (filter (\<lambda>x. f x < c) xs)" "x \<in> set (take d xs)"
  shows "f x < c"
  using assms
proof (induction xs arbitrary: d)
  case (Cons y ys)
  show ?case
  proof (cases "f y < c")
    case True
    then show ?thesis using Cons by (cases d) auto
  next
    case False
    then have "\<forall>z \<in> set ys. \<not> f z < c" using Cons.prems(1) by auto
    then show ?thesis using Cons.prems(2,3) False by simp
  qed
qed simp

lemma sum_mod_bound:
  assumes "0 < (b::int)"
  shows "sum_list (map (\<lambda>a. a mod b) as) \<le> (b - 1) * int (length (filter (\<lambda>a. \<not> b dvd a) as))"
proof (induction as)
  case (Cons a as)
  have "a mod b \<le> b - 1" using pos_mod_bound[OF assms, of a] by simp
  then show ?case using Cons by (auto simp: distrib_left dvd_eq_mod_eq_0)
qed simp

lemma sum_div_mod:
  "sum_list as = sum_list (map (\<lambda>a. a div b) as) * (b::int) + sum_list (map (\<lambda>a. a mod b) as)"
  by (induction as) (simp_all add: distrib_right algebra_simps)

text \<open>The leftover is as large as the number of fractional shares at most, and those come first.\<close>

lemma whole_deficit:
  fixes ws :: "int list"
  assumes ws: "\<forall>w \<in> set ws. 0 \<le> w" and b: "b = sum_list ws" "0 < b" and tot: "0 \<le> tot"
  defines "fs \<equiv> map (\<lambda>w. tot * w div b) ws"
  shows "0 \<le> tot - sum_list fs" "tot - sum_list fs \<le> int (length (filter (\<lambda>w. \<not> b dvd tot * w) ws))"
proof -
  let ?as = "map (\<lambda>w. tot * w) ws" and ?m = "int (length (filter (\<lambda>w. \<not> b dvd tot * w) ws))"
  have "sum_list ?as = tot * b" by (simp add: b(1) sum_list_const_mult)
  then have eq: "(tot - sum_list fs) * b = sum_list (map (\<lambda>a. a mod b) ?as)"
    using sum_div_mod[of ?as b] by (simp add: fs_def o_def left_diff_distrib)
  have "0 \<le> sum_list (map (\<lambda>a. a mod b) ?as)" using b(2) by (intro sum_list_nonneg_int) auto
  then have "0 \<le> (tot - sum_list fs) * b" using eq by simp
  then show "0 \<le> tot - sum_list fs" using b(2) by (simp add: zero_le_mult_iff)
  have "(tot - sum_list fs) * b \<le> (b - 1) * ?m"
    using sum_mod_bound[OF b(2), of ?as] eq by (simp add: filter_map o_def)
  also have "\<dots> \<le> ?m * b" using b(2) by (simp add: left_diff_distrib mult.commute)
  finally show "tot - sum_list fs \<le> ?m" using b(2) by simp
qed

lemma whole_split:
  fixes ws :: "int list"
  assumes ws: "\<forall>w \<in> set ws. 0 \<le> w" and b: "b = sum_list ws" "0 < b" "b < 2 ^ 53"
    and tot: "0 \<le> tot" "tot * b < 2 ^ 53"
  obtains xs where "largest_remainder_split tot (map of_int ws) = Inr xs" "length xs = length ws" "sum_list xs = tot"
    "\<forall>i < length ws. tot * ws ! i div b \<le> xs ! i
       \<and> xs ! i \<le> tot * ws ! i div b + (if b dvd tot * ws ! i then 0 else 1)"
proof -
  let ?ws = "map of_int ws :: float64 list"
  have wb: "w \<le> b" if "w \<in> set ws" for w
    using that ws unfolding b(1) by (intro member_le_sum_list) auto
  have small: "0 \<le> tot * w" "tot * w < 2 ^ 53" if "w \<in> set ws" for w
  proof -
    have "tot * w \<le> tot * b" using wb[OF that] tot(1) by (rule mult_left_mono)
    then show "tot * w < 2 ^ 53" using tot(2) by simp
    show "0 \<le> tot * w" using that ws tot(1) by simp
  qed
  have "tot * 1 \<le> tot * b" using b(2) tot(1) by (intro mult_left_mono) simp_all
  then have t53: "tot < 2 ^ 53" using tot(2) by simp
  have "sum_list ?ws = of_int b" unfolding b(1) by (induction ws) simp_all
  moreover have "map abs ?ws = ?ws" using ws by simp
  ultimately have "fsum (map abs ?ws) = fl_round (of_int b)" by (simp only: fsum_def)
  then have W: "fsum (map abs ?ws) = of_int b"
    using fl_of_int_exact[of b] b(2,3) by simp
  have shares: "exact_shares tot ?ws (fsum (map abs ?ws)) = map (\<lambda>w. fl_div (of_int (tot * w)) (of_int b)) ws"
    unfolding W exact_shares_def using ws small t53 tot(1)
    by (simp add: fl_mul_def fl_of_int_exact flip: of_int_mult)
  have floor_w: "int_trunc (fl_div (of_int (tot * w)) (of_int b)) = tot * w div b" if "w \<in> set ws" for w
  proof -
    have "0 \<le> (of_int (tot * w) / of_int b :: rat)"
      using small(1)[OF that] b(2) by (intro divide_nonneg_pos) (simp_all only: of_int_0_le_iff of_int_0_less_iff)
    then have "0 \<le> fl_div (of_int (tot * w)) (of_int b)"
      using round_sig_sign(2)[of 2 53 "of_int (tot * w) / of_int b"] unfolding fl_div_def by linarith
    then show ?thesis using fl_floor_of_quotient(1)[OF small[OF that] b(2)] by (simp add: int_trunc_def)
  qed
  have floors: "floors_of tot ?ws = map (\<lambda>w. tot * w div b) ws"
    unfolding floors_of_def shares using floor_w by simp
  note deficit = whole_deficit[OF ws b(1,2) tot(1), folded floors]
  let ?d = "nat (tot - sum_list (floors_of tot ?ws))" and ?idx = "leftover_order tot ?ws"
  define key where "key i = - (map2 (\<lambda>e f. fl_sub e (fl_round (of_int f)))
     (exact_shares tot ?ws (fsum (map abs ?ws))) (floors_of tot ?ws) ! i)" for i
  have key: "key i < 0 \<longleftrightarrow> \<not> b dvd tot * ws ! i" if i: "i < length ws" for i
  proof -
    let ?a = "tot * ws ! i" and ?q = "fl_div (of_int (tot * ws ! i)) (of_int b)"
    have w: "ws ! i \<in> set ws" using i by simp
    have f: "0 \<le> ?a div b" "?a div b \<le> ?a"
      using small[OF w] b(2) zdiv_mono2[of ?a 1 b] by (simp_all add: pos_imp_zdiv_nonneg_iff)
    then have ex: "fl_round (of_int (?a div b)) = of_int (?a div b)"
      using small(2)[OF w] by (intro fl_of_int_exact) simp
    have "key i = - fl_round (?q - of_int (?a div b))"
      unfolding key_def shares floors using i ex by (simp add: fl_sub_def)
    then have "key i < 0 \<longleftrightarrow> of_int (?a div b) < ?q"
      using round_sig_sign(1)[of 2 53 "?q - of_int (?a div b)"] by simp
    also have "\<dots> \<longleftrightarrow> of_int \<lfloor>?q\<rfloor> \<noteq> ?q"
      unfolding fl_floor_of_quotient(1)[OF small[OF w] b(2), symmetric] using of_int_floor_le[of ?q] by linarith
    finally show ?thesis
      using fl_floor_of_quotient[OF small[OF w] b(2)] by auto
  qed
  have idx: "?idx = sort_key key [0..<length ws]"
    unfolding leftover_order_def key_def by simp
  have count: "length (filter (\<lambda>i. key i < 0) ?idx) = length (filter (\<lambda>w. \<not> b dvd tot * w) ws)"
  proof -
    have "length (filter (\<lambda>i. key i < 0) ?idx) = length (filter (\<lambda>i. key i < 0) [0..<length ws])"
      unfolding idx by (simp add: filter_sort)
    also have "filter (\<lambda>i. key i < 0) [0..<length ws] = filter (\<lambda>i. \<not> b dvd tot * ws ! i) [0..<length ws]"
      using key by (auto intro!: filter_cong)
    also have "length \<dots> = length (filter (\<lambda>w. \<not> b dvd tot * w) (map ((!) ws) [0..<length ws]))"
      by (simp add: filter_map o_def)
    finally show ?thesis by (simp only: map_nth)
  qed
  have first: "\<not> b dvd tot * ws ! i" if "i \<in> set (take ?d ?idx)" for i
  proof -
    have "sorted (map key ?idx)" unfolding idx by simp
    moreover have "?d \<le> length (filter (\<lambda>i. key i < 0) ?idx)" using deficit unfolding count by simp
    ultimately have "key i < 0" by (rule sorted_prefix_below[OF _ _ that])
    moreover have "i < length ws" using in_set_takeD[OF that] unfolding idx by simp
    ultimately show ?thesis using key by blast
  qed
  have "length (filter (\<lambda>w. \<not> b dvd tot * w) ws) \<le> length ?ws" by simp
  then have d2: "tot - sum_list (floors_of tot ?ws) \<le> int (length ?ws)" using deficit(2) by linarith
  have ne: "?ws \<noteq> []" using b by auto
  have pos: "0 < fsum (map abs ?ws)" unfolding W using b(2) by simp
  have d1: "sum_list (floors_of tot ?ws) \<le> tot" using deficit(1) by simp
  obtain xs where xs: "largest_remainder_split tot ?ws = Inr xs" "length xs = length ?ws" "sum_list xs = tot"
    "\<forall>i < length ?ws. xs ! i = floors_of tot ?ws ! i + (if i \<in> set (take ?d ?idx) then 1 else 0)"
    by (rule split_from_deficit[OF ne pos d1 d2])
  have "\<forall>i < length ws. tot * ws ! i div b \<le> xs ! i
       \<and> xs ! i \<le> tot * ws ! i div b + (if b dvd tot * ws ! i then 0 else 1)"
    using xs(4) first by (auto simp: floors)
  then show thesis using that xs by simp
qed

text \<open>A fill no larger than the holdings takes from a slice at most what it holds.\<close>

lemma whole_split_within:
  fixes ws :: "int list"
  assumes ws: "\<forall>w \<in> set ws. 0 \<le> w" and b: "0 < sum_list ws" "sum_list ws < 2 ^ 53"
    and tot: "0 \<le> tot" "tot * sum_list ws < 2 ^ 53"
  obtains xs where "largest_remainder_split tot (map of_int ws) = Inr xs" "length xs = length ws" "sum_list xs = tot"
    "\<forall>i < length ws. 0 \<le> xs ! i \<and> (tot \<le> sum_list ws \<longrightarrow> xs ! i \<le> ws ! i)"
proof -
  let ?b = "sum_list ws"
  obtain xs where xs: "largest_remainder_split tot (map of_int ws) = Inr xs" "length xs = length ws" "sum_list xs = tot"
    "\<forall>i < length ws. tot * ws ! i div ?b \<le> xs ! i
       \<and> xs ! i \<le> tot * ws ! i div ?b + (if ?b dvd tot * ws ! i then 0 else 1)"
    by (rule whole_split[OF ws refl b tot])
  have "0 \<le> xs ! i \<and> (tot \<le> ?b \<longrightarrow> xs ! i \<le> ws ! i)" if i: "i < length ws" for i
  proof -
    have w: "0 \<le> ws ! i" using i ws by simp
    have "0 \<le> tot * ws ! i div ?b" using w tot(1) b(1) by (simp add: pos_imp_zdiv_nonneg_iff)
    moreover have "xs ! i \<le> ws ! i" if t: "tot \<le> ?b"
    proof -
      have le: "tot * ws ! i \<le> ?b * ws ! i" using t w by (rule mult_right_mono)
      have "tot * ws ! i div ?b + (if ?b dvd tot * ws ! i then 0 else 1) \<le> ws ! i"
      proof (cases "?b dvd tot * ws ! i")
        case True
        have "tot * ws ! i div ?b \<le> ?b * ws ! i div ?b" using le b(1) by (rule zdiv_mono1)
        then show ?thesis using True b(1) by simp
      next
        case False
        then have "tot * ws ! i \<noteq> ?b * ws ! i" by (metis dvd_triv_left)
        then have "tot * ws ! i < ?b * ws ! i" using le by linarith
        then have "tot * ws ! i < ws ! i * ?b" by (simp only: mult.commute)
        moreover have "tot * ws ! i div ?b * ?b \<le> tot * ws ! i"
          using div_mult_mod_eq[of "tot * ws ! i" ?b] pos_mod_sign[OF b(1), of "tot * ws ! i"] by linarith
        ultimately have "tot * ws ! i div ?b * ?b < ws ! i * ?b" by linarith
        then have "tot * ws ! i div ?b < ws ! i" using b(1) by simp
        then show ?thesis using False by simp
      qed
      then show ?thesis using xs(4) i by fastforce
    qed
    ultimately show ?thesis using xs(4) i by force
  qed
  then show thesis using that xs by blast
qed

end
