(* ===== verification/Fill_Reconciliation.thy ===== *)
theory Fill_Reconciliation
  imports Kernel_State Whole_Shares
begin

section \<open>Reconciling fills with the books (kernel/orchestrator.py, \_reconcile\_fills)\<close>

text \<open>
  The handler that books acknowledged fills: fee debits, the guards on malformed acks, the
  symbol-net store and the FIFO ledger, the attribution to strategy slices (by the fill
  ledger, by the order's single owner, or by the current slices), the cost-overrun streak
  with its kill-switch escalation, and the trade journal.
\<close>

record kernel_config =
  kc_alert_ratio :: float64
  kc_escalation_enabled :: bool
  kc_escalation_streak :: int
  kc_regime :: "(string list \<times> (symbol \<Rightarrow> float64 list)) option"
  kc_counts_pdt :: bool
  kc_derive_order_id :: "string \<Rightarrow> string"

type_synonym attributed = "strategy \<times> int \<times> decimal \<times> decimal"

text \<open>\<open>str(n)\<close> for an integer.\<close>

fun show_nat :: "nat \<Rightarrow> string" where
  "show_nat n = (if n < 10 then [char_of (48 + n)] else show_nat (n div 10) @ [char_of (48 + n mod 10)])"

declare show_nat.simps [simp del]

definition show_int :: "int \<Rightarrow> string" where
  "show_int i = (if i < 0 then ''-'' @ show_nat (nat (- i)) else show_nat (nat i))"

fun first_max :: "float64 list \<Rightarrow> nat \<Rightarrow> nat \<Rightarrow> nat" where
  \<comment> \<open>\<open>max(range(n), key=...)\<close>: the first index of the largest value\<close>
  "first_max ps best 0 = best"
| "first_max ps best (Suc m) =
     (let i = length ps - Suc m in first_max ps (if ps ! best < ps ! i then i else best) m)"

definition regime_label_for :: "kernel_config \<Rightarrow> symbol \<Rightarrow> string" where
  "regime_label_for cfg s =
     (case kc_regime cfg of
        None \<Rightarrow> ''''
      | Some (names, current_state) \<Rightarrow>
          let post = current_state s in
          if post = [] then ''''
          else if names = [] then ''''
          else let i = first_max post 0 (length post)
               in if i < length names then names ! i else '''')"

subsection \<open>Attribution\<close>

definition apply_leg ::
  "ns \<Rightarrow> strategy \<times> symbol \<times> int \<times> decimal \<times> decimal \<Rightarrow> strategy_store \<times> attributed list
    \<Rightarrow> strategy_store \<times> attributed list" where
  "apply_leg ts = (\<lambda>(sid, s, q, price, fee) (S, legs).
     let prev = pos_realized (fst (ss_get S sid s));
         S' = ss_update S sid s q price fee (Some ts)
     in (S', legs @ [(sid, q, fee, dec_sub (pos_realized (fst (ss_get S' sid s))) prev)]))"

definition apply_legs :: "ns \<Rightarrow> leg list \<Rightarrow> strategy_store \<Rightarrow> strategy_store \<times> attributed list" where
  "apply_legs ts legs S = fold (apply_leg ts) legs (S, [])"

definition slice_holders :: "strategy_store \<Rightarrow> symbol \<Rightarrow> int \<Rightarrow> (strategy \<times> int) list" where
  \<comment> \<open>slices that the fill can reduce, else all holders, in strategy order\<close>
  "slice_holders S s signed_qty =
     (let ids = sort (map fst (ss_stores S));
          qty = (\<lambda>sid. pos_quantity (fst (ss_get S sid s)));
          closable = map (\<lambda>sid. (sid, qty sid)) (filter (\<lambda>sid. qty sid * signed_qty < 0) ids)
      in if closable \<noteq> [] then closable
         else map (\<lambda>sid. (sid, qty sid)) (filter (\<lambda>sid. qty sid \<noteq> 0) ids))"

definition share_legs :: "symbol \<Rightarrow> int \<Rightarrow> decimal \<Rightarrow> (strategy \<times> int) list \<Rightarrow> int list \<Rightarrow> decimal list \<Rightarrow> leg list" where
  "share_legs s sign price holders qtys fees = concat (map2 (\<lambda>(sid, _) (q, fee).
     if q = 0 then [] else [(sid, s, sign * q, price, fee)]) holders (zip qtys fees))"

definition distribute_fill_to_strategies ::
  "strategy_store option \<Rightarrow> symbol \<Rightarrow> int \<Rightarrow> decimal \<Rightarrow> decimal \<Rightarrow> ns
    \<Rightarrow> (strategy_store option \<times> attributed list) result" where
  "distribute_fill_to_strategies slices s signed_qty price fees ts =
     (case slices of
        None \<Rightarrow> Inr (None, [])
      | Some S \<Rightarrow>
          if ss_stores S = [] then Inr (Some S, [])
          else
            let holders = slice_holders S s signed_qty in
            if holders = [] then Inr (Some S, [])
            else
              bind_result (largest_remainder_split \<bar>signed_qty\<bar> (map (\<lambda>(_, q). of_int \<bar>q\<bar>) holders))
                (\<lambda>qtys. bind_result (split_fees fees qtys)
                  (\<lambda>fee_list.
                    let sign = (if 0 < signed_qty then 1 else - 1);
                        (S', applied) = apply_legs ts (share_legs s sign price holders qtys fee_list) S
                    in Inr (Some S', applied))))"

definition attribute_fill ::
  "order_ack \<Rightarrow> order_request \<Rightarrow> int \<Rightarrow> decimal \<Rightarrow> ('r, attributed list) kact" where
  "attribute_fill a o' signed_qty price k =
     (case k_slices k of
        None \<Rightarrow> (Inr [], k)
      | Some S \<Rightarrow>
          let (allocs, F') =
                (case k_fill_ledger k of
                   None \<Rightarrow> ([], None)
                 | Some F \<Rightarrow>
                     (case allocate_fill F (oa_order_id a) (oa_filled_quantity a) price (oa_fees a)
                             (oa_status a = ACK_FILLED) of
                        Inl e \<Rightarrow> ([], Some F)
                      | Inr (legs, F1) \<Rightarrow> (legs, Some F1)));
              k1 = k\<lparr>k_fill_ledger := F'\<rparr>
          in if allocs \<noteq> []
             then (case apply_legs (ev_timestamp a) allocs S of
                     (S', attributed) \<Rightarrow> (Inr attributed, k1\<lparr>k_slices := Some S'\<rparr>))
             else if order_owns_one_slice o'
             then (case apply_leg (ev_timestamp a) (or_strategy o', oa_symbol a, signed_qty, price, oa_fees a) (S, []) of
                     (S', attributed) \<Rightarrow> (Inr attributed, k1\<lparr>k_slices := Some S'\<rparr>))
             else (case distribute_fill_to_strategies (Some S) (oa_symbol a) signed_qty price (oa_fees a) (ev_timestamp a) of
                     Inl e \<Rightarrow> (Inl e, k1)
                   | Inr (S', attributed) \<Rightarrow> (Inr attributed, k1\<lparr>k_slices := S'\<rparr>)))"

subsection \<open>Journal rows\<close>

record journal_leg =
  jl_strategy :: strategy
  jl_filled :: int
  jl_fees :: decimal
  jl_realized :: decimal
  jl_metadata :: "(string \<times> string) list"

definition trade_journal_legs ::
  "order_request \<Rightarrow> int \<Rightarrow> decimal \<Rightarrow> decimal \<Rightarrow> attributed list \<Rightarrow> int option \<Rightarrow> journal_leg list" where
  "trade_journal_legs o' filled fees realized attributed announced =
     (let base = [(''order_reason'', or_reason o'), (''order_source_layer'', ev_source_layer o')]
                 @ (case announced of None \<Rightarrow> [] | Some n \<Rightarrow> [(''forced_exit_announced_quantity'', show_int n)])
      in if attributed = []
         then [\<lparr>jl_strategy = or_strategy o', jl_filled = filled, jl_fees = fees, jl_realized = realized,
                jl_metadata = base\<rparr>]
         else
           let meta = (if order_owns_one_slice o' then base
                       else dict_set ''forced_exit_strategy_id'' (or_strategy o') base)
           in map (\<lambda>(sid, q, fee, r). \<lparr>jl_strategy = sid, jl_filled = \<bar>q\<bar>, jl_fees = fee, jl_realized = r,
                                       jl_metadata = meta\<rparr>) attributed)"

subsection \<open>One acknowledgement\<close>

definition publish_position :: "order_ack \<Rightarrow> string \<Rightarrow> position \<Rightarrow> kernel_log \<Rightarrow> kernel_log" where
  "publish_position a cid p = publish_numbered (\<lambda>n. OutPosition
     \<lparr>ev_timestamp = ev_timestamp a, ev_correlation = cid, ev_sequence = n, ev_source_layer = ''UNKNOWN'',
      ev_schema_version = schema_version, pu_symbol = oa_symbol a, pu_quantity = pos_quantity p,
      pu_avg_price = pos_avg p, pu_realized = pos_realized p, pu_unrealized = pos_unrealized p,
      pu_fees = pos_fees p, pu_cost_bps = oa_cost_bps a\<rparr>)"

definition debit_terminal_fees :: "string \<Rightarrow> order_ack \<Rightarrow> 'r kernel \<Rightarrow> 'r kernel" where
  "debit_terminal_fees cid a k =
     (if oa_status a \<in> {ACK_CANCELLED, ACK_EXPIRED} \<and> 0 < oa_fees a
      then
        let positions = ps_debit_fees (k_positions k) (oa_symbol a) (oa_fees a);
            slices = (case (k_slices k, map_of (k_active k) (oa_order_id a)) of
                (Some S, Some (_, _, o')) \<Rightarrow>
                  if or_strategy o' \<noteq> '''' then Some (ss_debit_fees S (or_strategy o') (oa_symbol a) (oa_fees a))
                  else Some S
              | (slices, _) \<Rightarrow> slices)
        in k\<lparr>k_positions := positions, k_slices := slices,
             k_log := publish_position a cid (ps_get positions (oa_symbol a)) (k_log k)\<rparr>
      else k)"

definition cost_overrun :: "kernel_config \<Rightarrow> string \<Rightarrow> order_ack \<Rightarrow> order_request \<Rightarrow> ('r, unit) kact" where
  "cost_overrun cfg cid a o' k =
     (let disclosed = or_g12_cost_bps o'; sid = or_strategy o' in
      if \<not> 0 < disclosed then (Inr (), k)
      else if \<not> fl_mul disclosed (kc_alert_ratio cfg) < fl_round (oa_cost_bps a)
      then (Inr (), k\<lparr>k_streak := dict_pop sid (k_streak k)\<rparr>)
      else
        let streak = (case map_of (k_streak k) sid of Some n \<Rightarrow> n | None \<Rightarrow> 0) + 1;
            k1 = k\<lparr>k_streak := dict_set sid streak (k_streak k)\<rparr>;
            escalate = kc_escalation_enabled cfg \<and> kc_escalation_streak cfg \<le> streak
        in andThen (alert (if escalate then CRITICAL else alert_severity.WARNING)
                      ''g12_realized_cost_exceeds_disclosure'' cid)
             (\<lambda>_. modify (\<lambda>k. if escalate \<and> k_kill k = Some False then k\<lparr>k_kill := Some True\<rparr> else k)) k1)"

definition journal_fill ::
  "kernel_config \<Rightarrow> order_ack \<Rightarrow> side \<Rightarrow> order_request \<Rightarrow> decimal \<Rightarrow> decimal \<Rightarrow> attributed list \<Rightarrow> 'r kernel \<Rightarrow> 'r kernel" where
  "journal_fill cfg a side o' price realized attributed k =
     (case k_journal k of
        None \<Rightarrow> k
      | Some rows \<Rightarrow>
          k\<lparr>k_journal := Some (rows @ map (\<lambda>leg.
              let (mech, hl) = (case map_of (k_mechanism k) (jl_strategy leg, oa_symbol a) of
                                  Some m \<Rightarrow> m | None \<Rightarrow> (None, 0))
              in \<lparr>tj_order_id = oa_order_id a, tj_symbol = oa_symbol a, tj_strategy = jl_strategy leg,
                  tj_side = side, tj_requested = or_quantity o', tj_filled = jl_filled leg, tj_price = price,
                  tj_signal_ts = ev_timestamp o', tj_submit_ts = ev_timestamp o', tj_fill_ts = ev_timestamp a,
                  tj_cost_bps = oa_cost_bps a, tj_fees = jl_fees leg, tj_realized = jl_realized leg,
                  tj_correlation = ev_correlation o',
                  tj_intent = (case map_of (k_intents k) (oa_order_id a) of Some i \<Rightarrow> i | None \<Rightarrow> ''''),
                  tj_mechanism = mech, tj_half_life = hl, tj_regime = regime_label_for cfg (oa_symbol a),
                  tj_metadata = jl_metadata leg\<rparr>)
            (trade_journal_legs o' (oa_filled_quantity a) (oa_fees a) realized attributed
               (map_of (k_announced k) (oa_order_id a))))\<rparr>)"

definition move_books :: "kernel_config \<Rightarrow> order_ack \<Rightarrow> decimal \<Rightarrow> int \<Rightarrow> order_request \<Rightarrow> 'r kernel \<Rightarrow> 'r kernel" where
  \<comment> \<open>the fallback counter, the symbol-net store, the FIFO ledger and the day-trade counter\<close>
  "move_books cfg a price signed_qty o' k =
     (let oid = oa_order_id a; s = oa_symbol a;
          filled = (if map_of (k_fallback k) oid = None then k_filled k
                    else dict_set oid ((case map_of (k_filled k) oid of Some n \<Rightarrow> n | None \<Rightarrow> 0)
                                       + oa_filled_quantity a) (k_filled k));
          prev = ps_get (k_positions k) s;
          positions = ps_update (k_positions k) s signed_qty price (oa_fees a) (Some (ev_timestamp a));
          lots = apply_fill (k_lots k) s signed_qty price (ev_timestamp a) (or_strategy o')
                   (case map_of (k_intents k) oid of Some i \<Rightarrow> i | None \<Rightarrow> '''');
          pdt = (if kc_counts_pdt cfg
                 then k_pdt k @ [(s, pos_quantity prev, pos_quantity (ps_get positions s), ev_timestamp a)]
                 else k_pdt k)
      in k\<lparr>k_filled := filled, k_positions := positions, k_lots := lots, k_pdt := pdt\<rparr>)"

definition report_fill ::
  "kernel_config \<Rightarrow> string \<Rightarrow> order_ack \<Rightarrow> decimal \<Rightarrow> side \<Rightarrow> order_request \<Rightarrow> position \<Rightarrow> position
    \<Rightarrow> attributed list \<Rightarrow> ('r, unit) kact" where
  "report_fill cfg cid a price side o' prev p attributed =
     andThen (modify (\<lambda>k. k\<lparr>k_log := publish_position a cid p (k_log k)\<rparr>))
       (\<lambda>_. andThen (cost_overrun cfg cid a o')
          (\<lambda>_. modify (\<lambda>k.
             let k2 = journal_fill cfg a side o' price (dec_sub (pos_realized p) (pos_realized prev)) attributed k
             in if or_strategy o' \<noteq> '''' then k2\<lparr>k_traded := List.insert (or_strategy o', oa_symbol a) (k_traded k2)\<rparr>
                else k2)))"

definition book_ack :: "kernel_config \<Rightarrow> string \<Rightarrow> order_ack \<Rightarrow> decimal \<Rightarrow> side \<Rightarrow> order_request \<Rightarrow> ('r, unit) kact" where
  "book_ack cfg cid a price side o' k =
     (let signed_qty = (if side = SELL then - oa_filled_quantity a else oa_filled_quantity a);
          k1 = move_books cfg a price signed_qty o' k
      in andThen (attribute_fill a o' signed_qty price)
           (report_fill cfg cid a price side o' (ps_get (k_positions k) (oa_symbol a))
              (ps_get (k_positions k1) (oa_symbol a))) k1)"

definition reconcile_ack :: "kernel_config \<Rightarrow> string \<Rightarrow> order_ack \<Rightarrow> ('r, unit) kact" where
  "reconcile_ack cfg cid a k =
     (let k1 = debit_terminal_fees cid a k in
      if oa_status a \<in> {ACK_FILLED, ACK_PARTIALLY_FILLED}
      then
        (case oa_fill_price a of
           None \<Rightarrow> alert alert_severity.WARNING ''fill_ack_missing_price_or_quantity'' cid k1
         | Some price \<Rightarrow>
             if oa_filled_quantity a \<le> 0
             then alert alert_severity.WARNING ''fill_ack_missing_price_or_quantity'' cid k1
             else (case map_of (k_active k1) (oa_order_id a) of
                     None \<Rightarrow> alert alert_severity.WARNING ''fill_for_unknown_order'' cid k1
                   | Some (_, side, o') \<Rightarrow> book_ack cfg cid a price side o' k1))
      else if oa_fill_price a \<noteq> None \<and> 0 < oa_filled_quantity a
      then alert alert_severity.WARNING ''fill_payload_inconsistent_with_ack_status'' cid k1
      else (Inr (), k1))"

definition reconcile_fills :: "kernel_config \<Rightarrow> order_ack list \<Rightarrow> string \<Rightarrow> ('r, unit) kact" where
  "reconcile_fills cfg acks cid =
     andThen (each (reconcile_ack cfg cid) acks) (\<lambda>_. modify prune_terminal_orders)"

subsection \<open>Legs move slices by their quantities\<close>

definition update_leg :: "ns \<Rightarrow> leg \<Rightarrow> strategy_store \<Rightarrow> strategy_store" where
  "update_leg ts = (\<lambda>(sid, s, q, price, fee) S. ss_update S sid s q price fee (Some ts))"

lemma apply_legs_store: "fst (apply_legs ts legs S) = fold (update_leg ts) legs S"
proof -
  have "fst (fold (apply_leg ts) legs acc) = fold (update_leg ts) legs (fst acc)" for acc
    by (induction legs arbitrary: acc) (auto simp: apply_leg_def update_leg_def Let_def split: prod.splits)
  then show ?thesis by (simp add: apply_legs_def)
qed

lemma apply_legs_quantities:
  "map (\<lambda>(sid, q, fee, r). (sid, q)) (snd (apply_legs ts legs S)) = map (\<lambda>(sid, s, q, price, fee). (sid, q)) legs"
proof -
  have "map (\<lambda>(sid, q, fee, r). (sid, q)) (snd (fold (apply_leg ts) legs acc))
      = map (\<lambda>(sid, q, fee, r). (sid, q)) (snd acc) @ map (\<lambda>(sid, s, q, price, fee). (sid, q)) legs" for acc
    by (induction legs arbitrary: acc) (auto simp: apply_leg_def Let_def split: prod.splits)
  then show ?thesis by (simp add: apply_legs_def)
qed

definition leg_total :: "strategy \<Rightarrow> symbol \<Rightarrow> leg list \<Rightarrow> int" where
  "leg_total sid s legs = (\<Sum>(sid', s', q, price, fee)\<leftarrow>legs. if sid' = sid \<and> s' = s then q else 0)"

lemma legs_slice: "slice_qty (fold (update_leg ts) legs S) (sid, s) = slice_qty S (sid, s) + leg_total sid s legs"
proof (induction legs arbitrary: S)
  case (Cons l legs)
  obtain sid' s' q price fee where l: "l = (sid', s', q, price, fee)" by (metis prod_cases5)
  show ?case
    using Cons slice_book.fill_qty[of S "(sid', s')" q "(price, fee, Some ts)" "(sid, s)"]
    by (auto simp: l update_leg_def leg_total_def)
qed (simp add: leg_total_def)

lemma legs_aggregate:
  "distinct (map fst (ss_stores S)) \<Longrightarrow>
    distinct (map fst (ss_stores (fold (update_leg ts) legs S))) \<and>
    pos_quantity (ss_get_aggregate (fold (update_leg ts) legs S) s)
      = pos_quantity (ss_get_aggregate S s) + (\<Sum>(sid, s', q, price, fee)\<leftarrow>legs. if s' = s then q else 0)"
proof (induction legs arbitrary: S)
  case (Cons l legs)
  obtain sid' s' q price fee where l: "l = (sid', s', q, price, fee)" by (metis prod_cases5)
  have "distinct (map fst (ss_stores (update_leg ts l S)))"
    using Cons.prems by (simp add: l update_leg_def ss_update_distinct)
  from Cons.IH[OF this] show ?case using Cons.prems
    by (auto simp: l update_leg_def aggregate_update)
qed simp

lemma share_legs_total:
  assumes "length qtys = length holders" "length holders = length fees" "distinct (map fst holders)"
  shows "leg_total sid s (share_legs s sign price holders qtys fees)
      = (case map_of (zip (map fst holders) qtys) sid of Some q \<Rightarrow> sign * q | None \<Rightarrow> 0)"
    and "s' \<noteq> s \<Longrightarrow> leg_total sid s' (share_legs s sign price holders qtys fees) = 0"
    and "(\<Sum>(sid, s', q, price, fee)\<leftarrow>share_legs s sign price holders qtys fees. if s' = s then q else 0) = sign * sum_list qtys"
    and "s' \<noteq> s \<Longrightarrow> (\<Sum>(sid, s'', q, price, fee)\<leftarrow>share_legs s sign price holders qtys fees. if s'' = s' then q else 0) = 0"
  using assms
proof (induction qtys holders fees rule: list_induct3)
  case Nil
  { case 1 show ?case by (simp add: share_legs_def leg_total_def)
  next case 2 show ?case by (simp add: share_legs_def leg_total_def)
  next case 3 show ?case by (simp add: share_legs_def)
  next case 4 show ?case by (simp add: share_legs_def) }
next
  case (Cons q qs h hs f fs)
  obtain sid0 q0 where h: "h = (sid0, q0)" by (cases h)
  have cons: "share_legs s sign price ((sid0, q0) # hs) (q # qs) (f # fs)
      = (if q = 0 then [] else [(sid0, s, sign * q, price, f)]) @ share_legs s sign price hs qs fs"
    by (simp add: share_legs_def)
  { case 1
    have none: "sid = sid0 \<Longrightarrow> map_of (zip (map fst hs) qs) sid = None"
      using 1 by (auto simp: h map_of_eq_None_iff dest: set_zip_leftD)
    show ?case using 1 Cons(3) none by (auto simp: cons h leg_total_def split: option.splits)
  next case 2 then show ?case using Cons(4) by (auto simp: cons h leg_total_def)
  next case 3 then show ?case using Cons(5) by (auto simp: cons h distrib_left)
  next case 4 then show ?case using Cons(6) by (auto simp: cons h) }
qed

subsection \<open>A reducing fill shrinks slices, never flips them\<close>

definition slice_q :: "strategy_store \<Rightarrow> symbol \<Rightarrow> strategy \<Rightarrow> int" where
  "slice_q S s sid = pos_quantity (fst (ss_get S sid s))"

definition closable_shares :: "strategy_store \<Rightarrow> symbol \<Rightarrow> int \<Rightarrow> int" where
  \<comment> \<open>the shares on the side a fill reduces, over all slices\<close>
  "closable_shares S s signed_qty =
     (\<Sum>sid\<leftarrow>map fst (ss_stores S). if slice_q S s sid * signed_qty < 0 then \<bar>slice_q S s sid\<bar> else 0)"

lemma sum_list_sort: "sum_list (map f (sort xs)) = (\<Sum>x\<leftarrow>xs. f x :: int)"
proof -
  have "sum_list (map f (insort x ys)) = f x + sum_list (map f ys)" for x ys
    by (induction ys) auto
  then show ?thesis by (induction xs) auto
qed

lemma sum_list_filter_if: "sum_list (map f (filter P xs)) = (\<Sum>x\<leftarrow>xs. if P x then f x else (0::int))"
  by (induction xs) auto

lemma slice_holders_closable:
  assumes "0 < closable_shares S s d"
  shows "slice_holders S s d
      = map (\<lambda>sid. (sid, slice_q S s sid)) (filter (\<lambda>sid. slice_q S s sid * d < 0) (sort (map fst (ss_stores S))))"
    and "(\<Sum>(sid, q)\<leftarrow>slice_holders S s d. \<bar>q\<bar>) = closable_shares S s d"
proof -
  have total: "(\<Sum>sid\<leftarrow>filter (\<lambda>sid. slice_q S s sid * d < 0) (sort (map fst (ss_stores S))). \<bar>slice_q S s sid\<bar>)
      = closable_shares S s d"
    unfolding sum_list_filter_if sum_list_sort closable_shares_def by simp
  then have "filter (\<lambda>sid. slice_q S s sid * d < 0) (sort (map fst (ss_stores S))) \<noteq> []"
    using assms by auto
  then show holders: "slice_holders S s d
      = map (\<lambda>sid. (sid, slice_q S s sid)) (filter (\<lambda>sid. slice_q S s sid * d < 0) (sort (map fst (ss_stores S))))"
    by (simp add: slice_holders_def Let_def slice_q_def)
  show "(\<Sum>(sid, q)\<leftarrow>slice_holders S s d. \<bar>q\<bar>) = closable_shares S s d"
    unfolding holders total[symmetric] by (simp add: o_def)
qed

lemma filter_positive_sum: "\<forall>x \<in> set xs. (0::int) \<le> x \<Longrightarrow> sum_list (filter (\<lambda>a. 0 < a) xs) = sum_list xs"
  by (induction xs) auto

lemma share_legs_symbol:
  "(sid, s', q, p, f) \<in> set (share_legs s sign price holders qtys fees) \<Longrightarrow> s' = s"
  by (auto simp: share_legs_def split: if_splits)

lemma between_zero:
  fixes q a :: int
  assumes "0 \<le> a" "a \<le> \<bar>q\<bar>" "q * d < 0"
  shows "\<bar>q + (if 0 < d then 1 else -1) * a\<bar> \<le> \<bar>q\<bar>
    \<and> (q + (if 0 < d then 1 else -1) * a = 0 \<or> sgn (q + (if 0 < d then 1 else -1) * a) = sgn q)"
  using assms by (cases "0 < q"; cases "0 < d") (auto simp: mult_less_0_iff sgn_if)

text \<open>C3: A fill of a symbol-net exit is shared out so that it only shrinks. When the fill is no
  larger than what the slices on the closable side hold together (and the numbers fit the
  float and decimal ranges), the split succeeds; every strategy's slice moves towards flat or
  stays, none grows, flips or is opened; slices on the other side and other symbols are not
  touched; and the aggregate over the slices moves by exactly the fill.\<close>

theorem reducing_fill_shrinks_slices:
  assumes distinct: "distinct (map fst (ss_stores S))"
    and size: "0 < closable_shares S s d" "\<bar>d\<bar> \<le> closable_shares S s d" "closable_shares S s d < 2 ^ 53"
      "\<bar>d\<bar> * closable_shares S s d < 2 ^ 53"
    and fees: "fees_fit g fees"
  shows "\<exists>S' applied. distribute_fill_to_strategies (Some S) s d price fees ts = Inr (Some S', applied)
    \<and> pos_quantity (ss_get_aggregate S' s) = pos_quantity (ss_get_aggregate S s) + d
    \<and> (\<Sum>(sid, q, fee, r)\<leftarrow>applied. q) = d
    \<and> (\<forall>sid. \<bar>slice_q S' s sid\<bar> \<le> \<bar>slice_q S s sid\<bar>
         \<and> (slice_q S' s sid = 0 \<or> sgn (slice_q S' s sid) = sgn (slice_q S s sid))
         \<and> (\<not> slice_q S s sid * d < 0 \<longrightarrow> slice_q S' s sid = slice_q S s sid)
         \<and> (\<forall>s'. s' \<noteq> s \<longrightarrow> slice_q S' s' sid = slice_q S s' sid))"
proof -
  let ?h = "slice_holders S s d" and ?ids = "filter (\<lambda>sid. slice_q S s sid * d < 0) (sort (map fst (ss_stores S)))"
  let ?ws = "map (\<lambda>(sid, q). \<bar>q\<bar>) ?h" and ?sign = "if 0 < d then 1 else - 1 :: int"
  note holders = slice_holders_closable[OF size(1)]
  have ws: "\<forall>w \<in> set ?ws. 0 \<le> w" "sum_list ?ws = closable_shares S s d" using holders(2) by auto
  have b: "0 < sum_list ?ws" "sum_list ?ws < 2 ^ 53" "\<bar>d\<bar> * sum_list ?ws < 2 ^ 53"
    using size unfolding ws(2) by simp_all
  obtain xs where xs: "largest_remainder_split \<bar>d\<bar> (map of_int ?ws) = Inr xs" "length xs = length ?ws" "sum_list xs = \<bar>d\<bar>"
    "\<forall>i < length ?ws. 0 \<le> xs ! i \<and> (\<bar>d\<bar> \<le> sum_list ?ws \<longrightarrow> xs ! i \<le> ?ws ! i)"
    by (rule whole_split_within[OF ws(1) b(1,2) abs_ge_zero b(3)])
  have pos: "sum_list (filter (\<lambda>a. 0 < a) xs) = \<bar>d\<bar>"
  proof -
    have "\<forall>x \<in> set xs. 0 \<le> x" using xs(2,4) by (metis in_set_conv_nth)
    then show ?thesis using filter_positive_sum xs(3) by simp
  qed
  have d48: "\<bar>d\<bar> \<le> 2 ^ 48"
  proof (rule ccontr)
    assume "\<not> \<bar>d\<bar> \<le> 2 ^ 48"
    then have "2 ^ 48 * 2 ^ 48 \<le> \<bar>d\<bar> * closable_shares S s d" using size(2) by (intro mult_mono) simp_all
    then show False using size(4) by simp
  qed
  obtain fl where fl: "split_fees fees xs = Inr fl" "length fl = length xs"
    using split_fees_succeeds[OF fees, of xs] pos d48 by auto
  let ?legs = "share_legs s ?sign price ?h xs fl"
  have lens: "length xs = length ?h" "length ?h = length fl" using xs(2) fl(2) by simp_all
  have ids: "map fst ?h = ?ids" unfolding holders(1) by (simp add: o_def)
  have dh: "distinct (map fst ?h)" unfolding ids using distinct by simp
  note totals = share_legs_total[OF lens dh]
  have ne: "?h \<noteq> []" "ss_stores S \<noteq> []" using b(1) size(1) by (auto simp: closable_shares_def)
  have w: "map (\<lambda>(_, q). of_int \<bar>q\<bar>) ?h = (map of_int ?ws :: float64 list)" by (simp add: o_def case_prod_unfold)
  have run: "distribute_fill_to_strategies (Some S) s d price fees ts
      = Inr (Some (fst (apply_legs ts ?legs S)), snd (apply_legs ts ?legs S))"
    unfolding distribute_fill_to_strategies_def Let_def
    by (simp only: option.simps if_False ne w xs(1) bind_result_simps fl(1)) (simp add: case_prod_unfold)
  define S' where "S' = fst (apply_legs ts ?legs S)"
  have S': "S' = fold (update_leg ts) ?legs S" by (simp add: S'_def apply_legs_store)
  have "(\<Sum>(sid, q, fee, r)\<leftarrow>snd (apply_legs ts ?legs S). q)
      = sum_list (map snd (map (\<lambda>(sid, q, fee, r). (sid, q)) (snd (apply_legs ts ?legs S))))"
    by (simp add: o_def case_prod_unfold)
  also have "\<dots> = (\<Sum>(sid, s', q, price, fee)\<leftarrow>?legs. q)"
    unfolding apply_legs_quantities by (simp add: o_def case_prod_unfold)
  also have "\<dots> = (\<Sum>(sid, s', q, price, fee)\<leftarrow>?legs. if s' = s then q else 0)"
    using share_legs_symbol by (intro arg_cong[where f = sum_list] map_cong) auto
  also have "\<dots> = ?sign * sum_list xs" by (rule totals(3))
  finally have applied: "(\<Sum>(sid, q, fee, r)\<leftarrow>snd (apply_legs ts ?legs S). q) = d"
    using xs(3) by auto
  have agg: "pos_quantity (ss_get_aggregate S' s) = pos_quantity (ss_get_aggregate S s) + d"
    unfolding S' using legs_aggregate[OF distinct, of ts ?legs s] totals(3) xs(3) by auto
  have slice: "slice_q S' s' sid = slice_q S s' sid + leg_total sid s' ?legs" for s' sid
    using legs_slice[of ts ?legs S sid s'] by (simp add: S' slice_q_def slice_qty_def)
  have each: "\<bar>slice_q S' s sid\<bar> \<le> \<bar>slice_q S s sid\<bar>
         \<and> (slice_q S' s sid = 0 \<or> sgn (slice_q S' s sid) = sgn (slice_q S s sid))
         \<and> (\<not> slice_q S s sid * d < 0 \<longrightarrow> slice_q S' s sid = slice_q S s sid)" for sid
  proof (cases "map_of (zip (map fst ?h) xs) sid")
    case None
    then show ?thesis unfolding slice totals(1) by simp
  next
    case (Some x)
    then obtain i where i: "i < length ?h" "fst (?h ! i) = sid" "xs ! i = x"
      using lens by (auto dest!: map_of_SomeD simp: in_set_zip)
    have "?ids ! i \<in> set ?ids" using i(1) ids by (intro nth_mem) (metis length_map)
    moreover have "?ids ! i = sid" using i(1,2) by (simp add: ids[symmetric])
    ultimately have neg: "slice_q S s sid * d < 0" by auto
    have "?h ! i = (sid, slice_q S s sid)"
      using i holders(1) by (metis (no_types, lifting) fst_conv length_map nth_map)
    then have "0 \<le> x" "x \<le> \<bar>slice_q S s sid\<bar>"
      using xs(4) i size(2) ws(2) by auto
    from between_zero[OF this neg] show ?thesis
      using neg unfolding slice totals(1) Some by simp
  qed
  show ?thesis unfolding run S'_def[symmetric]
    using applied agg each slice totals(2) by auto
qed

lemma reducing_fill_witness:
  "let S = ss_update (ss_update ss_new ''a'' ''X'' 70 10 0 (Some 1)) ''b'' ''X'' 30 10 0 (Some 1)
   in \<exists>S' applied. distribute_fill_to_strategies (Some S) ''X'' (- 50) 11 1 2 = Inr (Some S', applied)
      \<and> pos_quantity (ss_get_aggregate S' ''X'') = 50 \<and> \<bar>slice_q S' ''X'' ''a''\<bar> \<le> 70"
proof -
  let ?S = "ss_update (ss_update ss_new ''a'' ''X'' 70 10 0 (Some 1)) ''b'' ''X'' 30 10 0 (Some 1)"
  have q: "slice_q ?S ''X'' ''a'' = 70" "slice_q ?S ''X'' ''b'' = 30"
    unfolding slice_q_def ss_get_update ss_get_store_value ps_update_fields
    by (simp_all add: ss_get_update ss_get_store_value ps_update_fields ss_defs ps_defs)
  have ids: "map fst (ss_stores ?S) = [''a'', ''b'']" by (simp add: ss_defs)
  have c: "closable_shares ?S ''X'' (- 50) = 100" unfolding closable_shares_def ids by (simp add: q)
  have g: "pos_quantity (ss_get_aggregate ?S ''X'') = 100"
    by (subst aggregate_quantity) (simp add: ss_defs ps_update_fields ps_new_def flat_position_def ps_get_def ps_update_def Let_def)
  have f: "fees_fit 2 1" using on_gridI[of 1 2 100] by (simp add: fees_fit_def)
  have "distinct (map fst (ss_stores ?S))" unfolding ids by simp
  moreover have "0 < closable_shares ?S ''X'' (- 50)" "\<bar>- 50\<bar> \<le> closable_shares ?S ''X'' (- 50)"
    "closable_shares ?S ''X'' (- 50) < 2 ^ 53" "\<bar>- 50\<bar> * closable_shares ?S ''X'' (- 50) < 2 ^ 53"
    unfolding c by simp_all
  ultimately obtain S' applied where o: "distribute_fill_to_strategies (Some ?S) ''X'' (- 50) 11 1 2 = Inr (Some S', applied)"
    "pos_quantity (ss_get_aggregate S' ''X'') = 100 + - 50" "\<bar>slice_q S' ''X'' ''a''\<bar> \<le> \<bar>slice_q ?S ''X'' ''a''\<bar>"
    using reducing_fill_shrinks_slices[of ?S "''X''" "- 50" 2 1 11 2] f unfolding g by blast
  from o(2,3) have "pos_quantity (ss_get_aggregate S' ''X'') = 50 \<and> \<bar>slice_q S' ''X'' ''a''\<bar> \<le> 70"
    unfolding q by simp
  then show ?thesis unfolding Let_def using o(1) by blast
qed

end
