(* ===== verification/Fill_Books.thy ===== *)
theory Fill_Books
  imports Fill_Reconciliation
begin

section \<open>A batch of fills moves the books together\<close>

text \<open>
  What \<open>\_reconcile\_fills\<close> does to the symbol-net store, to the FIFO ledger and to the strategy
  slices when it is handed a batch of acknowledgements: the three move by the same shares.
\<close>

subsection \<open>The parts of one booking\<close>

lemma alert_run:
  "alert sev name cid k = (Inr (), k\<lparr>k_log := publish_numbered (OutAlert sev name cid) (k_log k)\<rparr>)"
  by (simp add: alert_def modify_def)

lemma attribute_fill_frame:
  "k_active (snd (attribute_fill a o' q price k)) = k_active k"
  "k_positions (snd (attribute_fill a o' q price k)) = k_positions k"
  "k_lots (snd (attribute_fill a o' q price k)) = k_lots k"
  "k_slices (snd (attribute_fill a o' q price k)) = None \<longleftrightarrow> k_slices k = None"
  by (auto simp: attribute_fill_def Let_def distribute_fill_to_strategies_def bind_result_def
      split: option.splits sum.splits prod.splits)

lemma attribute_fill_raises:
  "fst (attribute_fill a o' q price k) = Inl e \<Longrightarrow> \<not> order_owns_one_slice o' \<and> k_slices k \<noteq> None"
  by (auto simp: attribute_fill_def Let_def split: option.splits sum.splits prod.splits if_splits)

lemma cost_overrun_frame:
  "fst (cost_overrun cfg cid a o' k) = Inr ()"
  "k_active (snd (cost_overrun cfg cid a o' k)) = k_active k"
  "k_positions (snd (cost_overrun cfg cid a o' k)) = k_positions k"
  "k_lots (snd (cost_overrun cfg cid a o' k)) = k_lots k"
  "k_slices (snd (cost_overrun cfg cid a o' k)) = k_slices k"
  "k_fill_ledger (snd (cost_overrun cfg cid a o' k)) = k_fill_ledger k"
  by (simp_all add: cost_overrun_def Let_def andThen_def alert_run modify_def)

lemma journal_fill_frame:
  "k_active (journal_fill cfg a side o' price r legs k) = k_active k"
  "k_positions (journal_fill cfg a side o' price r legs k) = k_positions k"
  "k_lots (journal_fill cfg a side o' price r legs k) = k_lots k"
  "k_slices (journal_fill cfg a side o' price r legs k) = k_slices k"
  "k_fill_ledger (journal_fill cfg a side o' price r legs k) = k_fill_ledger k"
  by (simp_all add: journal_fill_def split: option.splits)

lemma debit_fields:
  "k_active (debit_terminal_fees cid a k) = k_active k" "k_lots (debit_terminal_fees cid a k) = k_lots k"
  "k_fill_ledger (debit_terminal_fees cid a k) = k_fill_ledger k"
  "pos_quantity (ps_get (k_positions (debit_terminal_fees cid a k)) s) = pos_quantity (ps_get (k_positions k) s)"
  "k_slices (debit_terminal_fees cid a k) = None \<longleftrightarrow> k_slices k = None"
  by (auto simp: debit_terminal_fees_def Let_def ps_debit_fees_def ps_get_def split: option.splits)

definition signed_fill :: "side \<Rightarrow> order_ack \<Rightarrow> int" where
  "signed_fill side a = (if side = SELL then - oa_filled_quantity a else oa_filled_quantity a)"

lemma andThen_parts: "andThen f g s = (case fst (f s) of Inl e \<Rightarrow> (Inl e, snd (f s)) | Inr x \<Rightarrow> g x (snd (f s)))"
  by (simp add: andThen_def split: prod.splits sum.splits)

lemma move_books_fields:
  "k_active (move_books cfg a price q o' k) = k_active k" "k_slices (move_books cfg a price q o' k) = k_slices k"
  "k_fill_ledger (move_books cfg a price q o' k) = k_fill_ledger k"
  "pos_quantity (ps_get (k_positions (move_books cfg a price q o' k)) s)
    = pos_quantity (ps_get (k_positions k) s) + (if s = oa_symbol a then q else 0)"
  "net_quantity (k_lots (move_books cfg a price q o' k)) s
    = net_quantity (k_lots k) s + (if s = oa_symbol a then q else 0)"
  by (simp_all add: move_books_def Let_def ps_update_fields net_quantity_fill)

lemma report_fill_frame:
  "fst (report_fill cfg cid a price side o' prev p legs k) = Inr ()"
  "k_active (snd (report_fill cfg cid a price side o' prev p legs k)) = k_active k"
  "k_positions (snd (report_fill cfg cid a price side o' prev p legs k)) = k_positions k"
  "k_lots (snd (report_fill cfg cid a price side o' prev p legs k)) = k_lots k"
  "k_slices (snd (report_fill cfg cid a price side o' prev p legs k)) = k_slices k"
  "k_fill_ledger (snd (report_fill cfg cid a price side o' prev p legs k)) = k_fill_ledger k"
  by (simp_all add: report_fill_def Let_def andThen_parts modify_def cost_overrun_frame journal_fill_frame)

lemma book_ack_parts:
  fixes k :: "'r kernel" and a :: order_ack and o' :: order_request and cfg price side
  defines "k1 \<equiv> move_books cfg a price (signed_fill side a) o' k"
  shows "fst (book_ack cfg cid a price side o' k)
      = map_sum id (\<lambda>_. ()) (fst (attribute_fill a o' (signed_fill side a) price k1))"
    "k_active (snd (book_ack cfg cid a price side o' k)) = k_active k"
    "k_positions (snd (book_ack cfg cid a price side o' k)) = k_positions k1"
    "k_lots (snd (book_ack cfg cid a price side o' k)) = k_lots k1"
    "k_slices (snd (book_ack cfg cid a price side o' k)) = k_slices (snd (attribute_fill a o' (signed_fill side a) price k1))"
    "k_fill_ledger (snd (book_ack cfg cid a price side o' k))
      = k_fill_ledger (snd (attribute_fill a o' (signed_fill side a) price k1))"
proof -
  have run: "book_ack cfg cid a price side o' k = andThen (attribute_fill a o' (signed_fill side a) price)
      (report_fill cfg cid a price side o' (ps_get (k_positions k) (oa_symbol a)) (ps_get (k_positions k1) (oa_symbol a))) k1"
    by (simp add: book_ack_def signed_fill_def k1_def Let_def)
  note frame = report_fill_frame attribute_fill_frame
  show "fst (book_ack cfg cid a price side o' k)
      = map_sum id (\<lambda>_. ()) (fst (attribute_fill a o' (signed_fill side a) price k1))"
    "k_active (snd (book_ack cfg cid a price side o' k)) = k_active k"
    "k_positions (snd (book_ack cfg cid a price side o' k)) = k_positions k1"
    "k_lots (snd (book_ack cfg cid a price side o' k)) = k_lots k1"
    "k_slices (snd (book_ack cfg cid a price side o' k)) = k_slices (snd (attribute_fill a o' (signed_fill side a) price k1))"
    "k_fill_ledger (snd (book_ack cfg cid a price side o' k))
      = k_fill_ledger (snd (attribute_fill a o' (signed_fill side a) price k1))"
    unfolding run andThen_parts by (auto simp: frame k1_def move_books_fields split: sum.splits)
qed

subsection \<open>One acknowledgement and a batch\<close>

definition bookable :: "'r kernel \<Rightarrow> order_ack \<Rightarrow> bool" where
  \<comment> \<open>a fill of a known order with a price and a positive quantity\<close>
  "bookable k a \<longleftrightarrow> oa_status a \<in> {ACK_FILLED, ACK_PARTIALLY_FILLED} \<and> oa_fill_price a \<noteq> None
     \<and> 0 < oa_filled_quantity a \<and> map_of (k_active k) (oa_order_id a) \<noteq> None"

definition booked_shares :: "'r kernel \<Rightarrow> symbol \<Rightarrow> order_ack \<Rightarrow> int" where
  "booked_shares k s a =
     (case map_of (k_active k) (oa_order_id a) of
        Some (_, side, _) \<Rightarrow> if bookable k a \<and> oa_symbol a = s then signed_fill side a else 0
      | None \<Rightarrow> 0)"

definition shared_order :: "'r kernel \<Rightarrow> string \<Rightarrow> bool" where
  "shared_order k oid \<longleftrightarrow> k_slices k \<noteq> None
     \<and> (case map_of (k_active k) oid of Some (_, _, o') \<Rightarrow> \<not> order_owns_one_slice o' | None \<Rightarrow> False)"

lemma reconcile_ack_books:
  shows "k_active (snd (reconcile_ack cfg cid a k)) = k_active k"
    and "pos_quantity (ps_get (k_positions (snd (reconcile_ack cfg cid a k))) s)
          = pos_quantity (ps_get (k_positions k) s) + booked_shares k s a"
    and "net_quantity (k_lots (snd (reconcile_ack cfg cid a k))) s = net_quantity (k_lots k) s + booked_shares k s a"
    and "k_slices (snd (reconcile_ack cfg cid a k)) = None \<longleftrightarrow> k_slices k = None"
    and "fst (reconcile_ack cfg cid a k) = Inr () \<or> (bookable k a \<and> shared_order k (oa_order_id a))"
proof -
  let ?k = "debit_terminal_fees cid a k"
  note parts = book_ack_parts move_books_fields debit_fields attribute_fill_frame
  show "k_active (snd (reconcile_ack cfg cid a k)) = k_active k"
    by (auto simp: reconcile_ack_def Let_def alert_run parts split: option.splits prod.splits)
  show "pos_quantity (ps_get (k_positions (snd (reconcile_ack cfg cid a k))) s)
          = pos_quantity (ps_get (k_positions k) s) + booked_shares k s a"
    by (auto simp: reconcile_ack_def Let_def alert_run parts booked_shares_def bookable_def split: option.splits prod.splits)
  show "net_quantity (k_lots (snd (reconcile_ack cfg cid a k))) s = net_quantity (k_lots k) s + booked_shares k s a"
    by (auto simp: reconcile_ack_def Let_def alert_run parts booked_shares_def bookable_def split: option.splits prod.splits)
  show "k_slices (snd (reconcile_ack cfg cid a k)) = None \<longleftrightarrow> k_slices k = None"
    by (auto simp: reconcile_ack_def Let_def alert_run parts split: option.splits prod.splits)
  have "fst (book_ack cfg cid a price side o' ?k) = Inr () \<or> (\<not> order_owns_one_slice o' \<and> k_slices k \<noteq> None)" for price side o'
    using attribute_fill_raises[of a o' "signed_fill side a" price "move_books cfg a price (signed_fill side a) o' ?k"]
    by (cases "fst (attribute_fill a o' (signed_fill side a) price (move_books cfg a price (signed_fill side a) o' ?k))")
      (auto simp: parts)
  then show "fst (reconcile_ack cfg cid a k) = Inr () \<or> (bookable k a \<and> shared_order k (oa_order_id a))"
    by (auto simp: reconcile_ack_def Let_def alert_run parts bookable_def shared_order_def split: option.splits prod.splits)
qed

lemma booked_frame:
  assumes "k_active k' = k_active k" "k_slices k' = None \<longleftrightarrow> k_slices k = None"
  shows "booked_shares k' = booked_shares k" "bookable k' = bookable k" "shared_order k' = shared_order k"
  using assms by (auto simp: booked_shares_def bookable_def shared_order_def fun_eq_iff split: option.splits)

definition books_moved :: "'r kernel \<Rightarrow> order_ack list \<Rightarrow> 'r kernel \<Rightarrow> bool" where
  \<comment> \<open>on every symbol both books moved by the booked shares of the acks\<close>
  "books_moved k acks k' \<longleftrightarrow> (\<forall>s.
     pos_quantity (ps_get (k_positions k') s) = pos_quantity (ps_get (k_positions k) s) + (\<Sum>a\<leftarrow>acks. booked_shares k s a)
     \<and> net_quantity (k_lots k') s = net_quantity (k_lots k) s + (\<Sum>a\<leftarrow>acks. booked_shares k s a))"

lemma reconcile_each:
  "\<exists>n \<le> length acks. \<exists>r k'. each (reconcile_ack cfg cid) acks k = (r, k') \<and> k_active k' = k_active k
    \<and> (k_slices k' = None \<longleftrightarrow> k_slices k = None)
    \<and> books_moved k (take n acks) k'
    \<and> (r = Inr () \<and> n = length acks
       \<or> (\<exists>a \<in> set (take n acks). bookable k a \<and> shared_order k (oa_order_id a)))"
proof (induction acks arbitrary: k)
  case Nil
  show ?case by (simp add: ok_def books_moved_def)
next
  case (Cons a acks)
  obtain r1 k1 where one: "reconcile_ack cfg cid a k = (r1, k1)" by (cases "reconcile_ack cfg cid a k")
  note books = reconcile_ack_books[of cfg cid a k, unfolded one, simplified]
  note frame = booked_frame[OF books(1,4)]
  show ?case
  proof (cases r1)
    case (Inl e)
    then have "each (reconcile_ack cfg cid) (a # acks) k = (Inl e, k1)" using one by (simp add: andThen_def)
    then show ?thesis using books Inl by (intro exI[of _ "Suc 0"]) (auto simp: books_moved_def)
  next
    case (Inr u)
    obtain n r k' where n: "n \<le> length acks" "each (reconcile_ack cfg cid) acks k1 = (r, k')" "k_active k' = k_active k1"
      "k_slices k' = None \<longleftrightarrow> k_slices k1 = None"
      "books_moved k1 (take n acks) k'"
      "r = Inr () \<and> n = length acks \<or> (\<exists>a \<in> set (take n acks). bookable k1 a \<and> shared_order k1 (oa_order_id a))"
      using Cons.IH[of k1] by (elim exE conjE) (rule that; assumption)
    have "each (reconcile_ack cfg cid) (a # acks) k = (r, k')" using one Inr n(2) by (simp add: andThen_def)
    moreover have "books_moved k (take (Suc n) (a # acks)) k'"
      using n(5) books(2,3) by (simp add: books_moved_def frame)
    moreover have "r = Inr () \<and> Suc n = length (a # acks)
        \<or> (\<exists>a \<in> set (take (Suc n) (a # acks)). bookable k a \<and> shared_order k (oa_order_id a))"
      using n(6) unfolding frame by auto
    ultimately show ?thesis using n(1,3,4) books(1,4)
      by (intro exI[of _ "Suc n"] exI[of _ r] exI[of _ k'] conjI) simp_all
  qed
qed

text \<open>Fills are booked exactly once per bookable acknowledgement, in the two books alike.
  For any batch, with malformed, foreign, duplicate or terminal acks mixed in, the symbol-net
  store and the FIFO ledger move by the same amount on every symbol: the signed shares of
  the acks that report a fill of a known order with a price and a positive quantity, and
  nothing else. The whole batch is booked, unless the split of an order that no single
  strategy owns raises; then the acks up to and including that one are booked.\<close>

theorem fills_book_once:
  "\<exists>n \<le> length acks. \<exists>r k'. reconcile_fills cfg acks cid k = (r, k')
    \<and> books_moved k (take n acks) k'
    \<and> (r = Inr () \<and> n = length acks
       \<or> (\<exists>a \<in> set (take n acks). bookable k a \<and> shared_order k (oa_order_id a)))"
proof -
  obtain n r k' where n: "n \<le> length acks" "each (reconcile_ack cfg cid) acks k = (r, k')"
      "books_moved k (take n acks) k'"
      "r = Inr () \<and> n = length acks \<or> (\<exists>a \<in> set (take n acks). bookable k a \<and> shared_order k (oa_order_id a))"
    using reconcile_each[of acks cfg cid k] by (elim exE conjE) (rule that; assumption)
  show ?thesis
  proof (cases r)
    case (Inl e)
    then have "reconcile_fills cfg acks cid k = (Inl e, k')" using n(2) by (simp add: reconcile_fills_def andThen_def)
    then show ?thesis using n Inl by blast
  next
    case (Inr u)
    then have "reconcile_fills cfg acks cid k = (Inr (), prune_terminal_orders k')"
      using n(2) by (simp add: reconcile_fills_def andThen_def modify_def)
    then show ?thesis using n Inr by (auto simp: books_moved_def prune_frame)
  qed
qed

subsection \<open>An order with one owner moves its owner's slice\<close>

lemma split_one: "0 \<le> t \<Longrightarrow> t \<le> 2 ^ 48 \<Longrightarrow> largest_remainder_split t [1] = Inr [t]"
  using largest_remainder_split_bounds[of t "[1]"] by (auto simp: length_Suc_conv)

definition own_record :: "attribution_record \<Rightarrow> string \<Rightarrow> side \<Rightarrow> order_request \<Rightarrow> bool" where
  "own_record r oid side o' \<longleftrightarrow> at_symbol r = or_symbol o' \<and> at_net_side r = side
     \<and> at_contributions r = [\<lparr>ac_strategy = or_strategy o', ac_signed_quantity = or_quantity o', ac_proportion = 1\<rparr>]"

definition own_ledger :: "fill_ledger option \<Rightarrow> string \<Rightarrow> side \<Rightarrow> order_request \<Rightarrow> int \<Rightarrow> bool" where
  \<comment> \<open>the order has no record left, or the record of its tracking, with at most so many shares handed out\<close>
  "own_ledger L oid side o' limit \<longleftrightarrow>
     (case L of None \<Rightarrow> True
      | Some F \<Rightarrow> (case map_of (fal_records F) oid of None \<Rightarrow> True
                    | Some r \<Rightarrow> own_record r oid side o' \<and> (\<exists>c. cumulative F oid r = [c] \<and> 0 \<le> c \<and> c \<le> limit)))"

lemma allocate_own:
  assumes r: "map_of (fal_records F) oid = Some r" "own_record r oid side o'" "cumulative F oid r = [c]" "0 \<le> or_quantity o'"
    and q: "0 \<le> c" "0 < q" "c + q \<le> 2 ^ 48" and fee: "fees_fit g fee"
  shows "\<exists>fee' F'. allocate_fill F oid q price fee fin
      = Inr ([(or_strategy o', or_symbol o', (if side = BUY then q else - q), price, fee')],
             if fin then fal_pop F oid else F\<lparr>fal_cumulative := dict_set oid [c + q] (fal_cumulative F)\<rparr>)"
proof -
  note cum = r(3)[unfolded cumulative_def]
  obtain fs where fs: "split_fees fee [q] = Inr fs" "length fs = 1"
    using split_fees_succeeds[OF fee, of "[q]"] q by auto
  then obtain fee' where "fs = [fee']" by (auto simp: length_Suc_conv)
  then show ?thesis
    using r(1,2,4) q fs split_one[of "c + q"] cum
    by (simp add: allocate_fill_def own_record_def Let_def build_legs_def contribution_sign_def)
qed

lemma ss_update_slice:
  "slice_q (ss_update S sid s q price fee t) s' sid' = slice_q S s' sid' + (if sid' = sid \<and> s' = s then q else 0)"
  using slice_book.fill_qty[of S "(sid, s)" q "(price, fee, t)" "(sid', s')"] by (auto simp: slice_q_def slice_qty_def)

lemma attribute_own:
  assumes own: "order_owns_one_slice o'" "oa_symbol a = or_symbol o'" "0 \<le> or_quantity o'" and S: "k_slices k = Some S"
    and L: "own_ledger (k_fill_ledger k) (oa_order_id a) side o' (limit - oa_filled_quantity a)" "limit \<le> 2 ^ 48"
    and q: "0 < oa_filled_quantity a" and fee: "fees_fit g (oa_fees a)"
  shows "\<exists>fee' r. fst (attribute_fill a o' (signed_fill side a) price k) = Inr [(or_strategy o', signed_fill side a, fee', r)]
    \<and> k_slices (snd (attribute_fill a o' (signed_fill side a) price k))
       = Some (ss_update S (or_strategy o') (oa_symbol a) (signed_fill side a) price fee' (Some (ev_timestamp a)))
    \<and> own_ledger (k_fill_ledger (snd (attribute_fill a o' (signed_fill side a) price k))) (oa_order_id a) side o' limit
    \<and> (\<forall>oid. oid \<noteq> oa_order_id a \<longrightarrow> own_ledger (k_fill_ledger (snd (attribute_fill a o' (signed_fill side a) price k))) oid = own_ledger (k_fill_ledger k) oid)"
proof (cases "\<exists>F r. k_fill_ledger k = Some F \<and> map_of (fal_records F) (oa_order_id a) = Some r")
  case True
  then obtain F r where F: "k_fill_ledger k = Some F" "map_of (fal_records F) (oa_order_id a) = Some r" by blast
  then obtain c where r: "own_record r (oa_order_id a) side o'" "cumulative F (oa_order_id a) r = [c]" "0 \<le> c"
    "c + oa_filled_quantity a \<le> limit"
    using L(1) by (auto simp: own_ledger_def)
  have "c + oa_filled_quantity a \<le> 2 ^ 48" using r(4) L(2) by linarith
  from allocate_own[OF F(2) r(1,2) own(3) r(3) q this fee, of price "oa_status a = ACK_FILLED"] obtain fee' where
    al: "allocate_fill F (oa_order_id a) (oa_filled_quantity a) price (oa_fees a) (oa_status a = ACK_FILLED)
      = Inr ([(or_strategy o', or_symbol o', signed_fill side a, price, fee')],
         if oa_status a = ACK_FILLED then fal_pop F (oa_order_id a)
         else F\<lparr>fal_cumulative := dict_set (oa_order_id a) [c + oa_filled_quantity a] (fal_cumulative F)\<rparr>)"
    by (cases side) (auto simp: signed_fill_def)
  show ?thesis using own(2) r q F
    by (auto simp: attribute_fill_def S F al apply_legs_def apply_leg_def Let_def own_ledger_def fun_eq_iff fal_pop_def cumulative_def
        split: option.splits)
next
  case False
  then have none: "k_fill_ledger k = None \<or> (\<exists>F. k_fill_ledger k = Some F \<and> map_of (fal_records F) (oa_order_id a) = None)"
    by (cases "k_fill_ledger k") auto
  then show ?thesis using own(1)
    by (auto simp: attribute_fill_def S apply_leg_def Let_def allocate_fill_def own_ledger_def)
qed

text \<open>Every active order is one strategy's own, its ack names its symbol, and the shares still to
  come fit the attribution record.\<close>

definition pending_shares :: "string \<Rightarrow> order_ack list \<Rightarrow> int" where
  "pending_shares oid acks = (\<Sum>a\<leftarrow>acks. if oa_order_id a = oid then \<bar>oa_filled_quantity a\<bar> else 0)"

lemma pending_nonneg: "0 \<le> pending_shares oid acks"
  unfolding pending_shares_def by (induction acks) auto

definition owned_orders :: "'r kernel \<Rightarrow> order_ack list \<Rightarrow> bool" where
  "owned_orders k acks \<longleftrightarrow> (\<forall>oid sm side o'. map_of (k_active k) oid = Some (sm, side, o') \<longrightarrow>
     order_owns_one_slice o' \<and> 0 \<le> or_quantity o'
     \<and> own_ledger (k_fill_ledger k) oid side o' (2 ^ 48 - pending_shares oid acks)
     \<and> (\<forall>a \<in> set acks. oa_order_id a = oid \<longrightarrow> oa_symbol a = or_symbol o'))"

definition slice_book_total :: "'r kernel \<Rightarrow> symbol \<Rightarrow> int" where
  "slice_book_total k s = (case k_slices k of None \<Rightarrow> 0 | Some S \<Rightarrow> pos_quantity (ss_get_aggregate S s))"

definition slices_distinct :: "'r kernel \<Rightarrow> bool" where
  "slices_distinct k \<longleftrightarrow> (case k_slices k of None \<Rightarrow> False | Some S \<Rightarrow> distinct (map fst (ss_stores S)))"

lemma own_ledger_mono: "own_ledger L oid side o' x \<Longrightarrow> x \<le> y \<Longrightarrow> own_ledger L oid side o' y"
  by (force simp: own_ledger_def split: option.splits)

lemma ss_debit_aggregate:
  assumes "distinct (map fst (ss_stores S))"
  shows "distinct (map fst (ss_stores (ss_debit_fees S sid s fees)))
    \<and> pos_quantity (ss_get_aggregate (ss_debit_fees S sid s fees) s') = pos_quantity (ss_get_aggregate S s')"
proof -
  have q: "pos_quantity (ps_get (ps_debit_fees st s fees) s') = pos_quantity (ps_get st s')" for st
    by (auto simp: ps_debit_fees_def Let_def ps_get_def split: option.splits)
  have again: "dict_set sid x (dict_set sid y ds) = dict_set sid x ds" for x y and ds :: "(strategy \<times> position_store) list"
    by (induction ds) auto
  show ?thesis using assms
    by (cases "map_of (ss_stores S) sid")
      (simp_all add: aggregate_quantity ss_debit_fees_def ss_get_store_def sum_dict_set again q,
       simp add: ps_get_def ps_new_def flat_position_def)
qed

lemma debit_slices:
  assumes "slices_distinct k"
  shows "slices_distinct (debit_terminal_fees cid a k)" "slice_book_total (debit_terminal_fees cid a k) s = slice_book_total k s"
  using assms ss_debit_aggregate
  by (auto simp: debit_terminal_fees_def Let_def slices_distinct_def slice_book_total_def split: option.splits)

lemma unbookable:
  assumes "\<not> bookable k a"
  shows "\<exists>l. reconcile_ack cfg cid a k = (Inr (), (debit_terminal_fees cid a k)\<lparr>k_log := l\<rparr>)"
proof -
  have same: "\<exists>l. x = x\<lparr>k_log := l\<rparr>" for x :: "'a kernel" by (rule exI[of _ "k_log x"]) simp
  show ?thesis
    using assms same
    by (cases "oa_fill_price a"; cases "map_of (k_active k) (oa_order_id a)")
      (auto simp: reconcile_ack_def Let_def alert_run bookable_def debit_fields)
qed

lemma reconcile_ack_owned:
  assumes own: "owned_orders k (a # acks)" and d: "slices_distinct k" and fee: "fees_fit g (oa_fees a)"
  shows "fst (reconcile_ack cfg cid a k) = Inr ()" "slices_distinct (snd (reconcile_ack cfg cid a k))"
    "slice_book_total (snd (reconcile_ack cfg cid a k)) s = slice_book_total k s + booked_shares k s a"
    "owned_orders (snd (reconcile_ack cfg cid a k)) acks"
proof -
  let ?k = "debit_terminal_fees cid a k" and ?r = "reconcile_ack cfg cid a k" and ?oid = "oa_order_id a"
  have quiet: "fst ?r = Inr () \<and> slices_distinct (snd ?r) \<and> slice_book_total (snd ?r) s = slice_book_total k s + booked_shares k s a
      \<and> k_fill_ledger (snd ?r) = k_fill_ledger k" if "\<not> bookable k a"
  proof -
    obtain l where "?r = (Inr (), ?k\<lparr>k_log := l\<rparr>)" using unbookable[OF \<open>\<not> bookable k a\<close>] by blast
    moreover have "booked_shares k s a = 0" using that by (simp add: booked_shares_def split: option.splits)
    ultimately show ?thesis using debit_slices[OF d]
      by (simp add: debit_fields slices_distinct_def slice_book_total_def)
  qed
  have less: "own_ledger L oid side o' (2 ^ 48 - pending_shares oid (a # acks)) \<Longrightarrow> own_ledger L oid side o' (2 ^ 48 - pending_shares oid acks)"
    for L oid side o' by (rule own_ledger_mono) (auto simp: pending_shares_def)
  have "fst ?r = Inr () \<and> slices_distinct (snd ?r) \<and> slice_book_total (snd ?r) s = slice_book_total k s + booked_shares k s a
      \<and> (\<forall>oid sm side o'. map_of (k_active k) oid = Some (sm, side, o') \<longrightarrow>
            own_ledger (k_fill_ledger (snd ?r)) oid side o' (2 ^ 48 - pending_shares oid acks))"
  proof (cases "bookable k a")
    case False
    then show ?thesis using quiet own less by (auto simp: owned_orders_def)
  next
    case True
    then obtain price sm side o' where a: "oa_status a \<in> {ACK_FILLED, ACK_PARTIALLY_FILLED}" "oa_fill_price a = Some price"
      "0 < oa_filled_quantity a" "map_of (k_active k) ?oid = Some (sm, side, o')"
      by (auto simp: bookable_def)
    have o': "order_owns_one_slice o'" "0 \<le> or_quantity o'" "oa_symbol a = or_symbol o'"
      "own_ledger (k_fill_ledger k) ?oid side o' (2 ^ 48 - pending_shares ?oid (a # acks))"
      using own a(4) by (auto simp: owned_orders_def)
    let ?k1 = "move_books cfg a price (signed_fill side a) o' ?k"
    have run: "?r = book_ack cfg cid a price side o' ?k"
      using a by (simp add: reconcile_ack_def Let_def debit_fields)
    obtain S where S: "k_slices ?k1 = Some S" "distinct (map fst (ss_stores S))"
      "pos_quantity (ss_get_aggregate S s) = slice_book_total k s"
      using debit_slices(1)[OF d, of cid a] debit_slices(2)[OF d, of cid a s]
      by (cases "k_slices ?k") (simp_all add: move_books_fields slices_distinct_def slice_book_total_def)
    let ?lim = "2 ^ 48 - pending_shares ?oid acks"
    have pn: "0 \<le> pending_shares ?oid acks" by (rule pending_nonneg)
    have lim: "?lim - oa_filled_quantity a = 2 ^ 48 - pending_shares ?oid (a # acks)" "?lim \<le> 2 ^ 48"
      using a(3) pn by (auto simp: pending_shares_def)
    have L: "own_ledger (k_fill_ledger ?k1) ?oid side o' (?lim - oa_filled_quantity a)"
      using o'(4) unfolding lim(1) by (simp add: move_books_fields debit_fields)
    obtain fee' r where at: "fst (attribute_fill a o' (signed_fill side a) price ?k1) = Inr [(or_strategy o', signed_fill side a, fee', r)]"
      "k_slices (snd (attribute_fill a o' (signed_fill side a) price ?k1))
         = Some (ss_update S (or_strategy o') (oa_symbol a) (signed_fill side a) price fee' (Some (ev_timestamp a)))"
      "own_ledger (k_fill_ledger (snd (attribute_fill a o' (signed_fill side a) price ?k1))) ?oid side o' ?lim"
      "\<forall>oid. oid \<noteq> ?oid \<longrightarrow> own_ledger (k_fill_ledger (snd (attribute_fill a o' (signed_fill side a) price ?k1))) oid
          = own_ledger (k_fill_ledger ?k1) oid"
      using attribute_own[OF o'(1,3,2) S(1) L lim(2) a(3) fee] by blast
    have frame: "own_ledger (k_fill_ledger (snd ?r)) oid sd o'' (2 ^ 48 - pending_shares oid acks)"
      if "map_of (k_active k) oid = Some (sm', sd, o'')" for oid sm' sd o''
    proof (cases "oid = ?oid")
      case True
      then show ?thesis using that a(4) at(3) by (simp add: run book_ack_parts)
    next
      case False
      then show ?thesis using at(4) that own less
        by (auto simp: run book_ack_parts move_books_fields debit_fields owned_orders_def)
    qed
    have "booked_shares k s a = (if oa_symbol a = s then signed_fill side a else 0)"
      using True a(4) by (simp add: booked_shares_def)
    then have "fst ?r = Inr () \<and> slices_distinct (snd ?r) \<and> slice_book_total (snd ?r) s = slice_book_total k s + booked_shares k s a"
      using at(1,2) S(2,3) aggregate_update[OF S(2)]
      by (auto simp: run book_ack_parts slices_distinct_def slice_book_total_def ss_update_distinct)
    then show ?thesis using frame by blast
  qed
  then show "fst ?r = Inr ()" "slices_distinct (snd ?r)" "slice_book_total (snd ?r) s = slice_book_total k s + booked_shares k s a"
    "owned_orders (snd ?r) acks"
    using own by (auto simp: owned_orders_def reconcile_ack_books(1))
qed

lemma reconcile_each_owned:
  assumes "owned_orders k acks" "slices_distinct k" "\<forall>a \<in> set acks. fees_fit g (oa_fees a)"
  shows "fst (each (reconcile_ack cfg cid) acks k) = Inr ()
    \<and> slice_book_total (snd (each (reconcile_ack cfg cid) acks k)) s = slice_book_total k s + (\<Sum>a\<leftarrow>acks. booked_shares k s a)
    \<and> pos_quantity (ps_get (k_positions (snd (each (reconcile_ack cfg cid) acks k))) s)
        = pos_quantity (ps_get (k_positions k) s) + (\<Sum>a\<leftarrow>acks. booked_shares k s a)"
  using assms
proof (induction acks arbitrary: k)
  case Nil
  then show ?case by (simp add: ok_def)
next
  case (Cons a acks)
  have fee: "fees_fit g (oa_fees a)" "\<forall>a \<in> set acks. fees_fit g (oa_fees a)" using Cons.prems(3) by auto
  obtain k1 where one: "reconcile_ack cfg cid a k = (Inr (), k1)"
    using reconcile_ack_owned(1)[OF Cons.prems(1,2) fee(1), of cfg cid] by (cases "reconcile_ack cfg cid a k") auto
  note own = reconcile_ack_owned(2-4)[OF Cons.prems(1,2) fee(1), of cfg cid, unfolded one snd_conv]
  note books = reconcile_ack_books[of cfg cid a k, unfolded one, simplified]
  note frame = booked_frame[OF books(1,4)]
  have run: "each (reconcile_ack cfg cid) (a # acks) k = each (reconcile_ack cfg cid) acks k1"
    using one by (simp add: andThen_def)
  show ?case unfolding run using Cons.IH[OF own(3,1) fee(2)] own(2) books(2) by (simp add: frame)
qed

text \<open>C2: The slice books stay in step with the symbol-net book. When every active order belongs to
  one strategy (signal exits, self-attributed exits), its acks name its symbol and the
  shares handed out stay below the ledger's exact range, a batch of fills is booked in full
  and the aggregate over the strategy slices moves by the same shares as the symbol-net
  position, on every symbol; so two books that agreed before the batch agree after it.\<close>

theorem slices_follow_net_book:
  assumes "owned_orders k acks" "slices_distinct k" "\<forall>a \<in> set acks. fees_fit g (oa_fees a)"
    and "\<forall>s. slice_book_total k s = pos_quantity (ps_get (k_positions k) s)"
  shows "\<exists>k'. reconcile_fills cfg acks cid k = (Inr (), k')
    \<and> (\<forall>s. slice_book_total k' s = pos_quantity (ps_get (k_positions k') s)
          \<and> pos_quantity (ps_get (k_positions k') s) = pos_quantity (ps_get (k_positions k) s) + (\<Sum>a\<leftarrow>acks. booked_shares k s a))"
proof -
  obtain k1 where k1: "each (reconcile_ack cfg cid) acks k = (Inr (), k1)"
    using reconcile_each_owned[OF assms(1-3), of cfg cid] by (cases "each (reconcile_ack cfg cid) acks k") auto
  have "slice_book_total k1 s = slice_book_total k s + (\<Sum>a\<leftarrow>acks. booked_shares k s a)"
    "pos_quantity (ps_get (k_positions k1) s) = pos_quantity (ps_get (k_positions k) s) + (\<Sum>a\<leftarrow>acks. booked_shares k s a)" for s
    using reconcile_each_owned[OF assms(1-3), of cfg cid s] by (simp_all add: k1)
  moreover have "reconcile_fills cfg acks cid k = (Inr (), prune_terminal_orders k1)"
    using k1 by (simp add: reconcile_fills_def andThen_def modify_def)
  ultimately show ?thesis using assms(4) by (auto simp: prune_frame slice_book_total_def)
qed

lemma repeated_fill_alerts:
  assumes "order_machine_state k (oa_order_id a) = Some FILLED" "oa_status a = ACK_FILLED"
  shows "andThen (publish_event (OutAck a)) (\<lambda>_. apply_ack_to_order a) k = (Inr (), k\<lparr>k_log :=
     publish_numbered (OutAlert alert_severity.WARNING ''duplicate_terminal_fill_ack'' (ev_correlation a)) (publish (OutAck a) (k_log k))\<rparr>)"
  using assms by (auto simp: andThen_def publish_event_run apply_ack_to_order_def order_machine_state_def Let_def ok_def alert_run)

text \<open>C18: A terminal fill that the broker repeats is booked twice. The order machine recognises
  the repeated FILLED acknowledgement and alerts that it ignores it, and the order's state is
  right; but the same batch then goes to the reconciliation, which books every bookable ack
  of an order that is still listed, so the position moves by twice the fill.\<close>

theorem duplicate_fill_booked_twice:
  assumes k: "active_ok k" "map_of (k_active k) (oa_order_id a) = Some (sm, side, o')" "sm_state sm = ACKNOWLEDGED"
    and a: "oa_status a = ACK_FILLED" "oa_fill_price a = Some price" "0 < oa_filled_quantity a"
    and own: "order_owns_one_slice o'"
  shows "\<exists>k1 k2 n. publish_and_apply_order_acks [a, a] k = (Inr (), k1) \<and> order_machine_state k1 (oa_order_id a) = Some FILLED
    \<and> last (kl_out (k_log k1)) = OutAlert alert_severity.WARNING ''duplicate_terminal_fill_ack'' (ev_correlation a) n
    \<and> reconcile_fills cfg [a, a] cid k1 = (Inr (), k2)
    \<and> pos_quantity (ps_get (k_positions k2) (oa_symbol a))
      = pos_quantity (ps_get (k_positions k) (oa_symbol a)) + 2 * signed_fill side a"
proof -
  have s: "order_machine_state k (oa_order_id a) = Some ACKNOWLEDGED" using k by (simp add: order_machine_state_def)
  obtain k0 where k0: "andThen (publish_event (OutAck a)) (\<lambda>_. apply_ack_to_order a) k = (Inr (), k0)" "batch_touches k k0"
    "order_machine_state k0 (oa_order_id a) = Some FILLED"
    using one_ack[OF k(1), of a] s a(1) by (fastforce simp: ack_result_def)
  obtain k1 where k1: "andThen (publish_event (OutAck a)) (\<lambda>_. apply_ack_to_order a) k0 = (Inr (), k1)" "batch_touches k0 k1"
    "order_machine_state k1 (oa_order_id a) = Some FILLED"
    using one_ack[of k0 a] k0(2,3) a(1) by (fastforce simp: ack_result_def batch_touches_def)
  have alerted: "\<exists>n. last (kl_out (k_log k1)) = OutAlert alert_severity.WARNING ''duplicate_terminal_fill_ack'' (ev_correlation a) n"
    using k1(1) repeated_fill_alerts[OF k0(3) a(1)] by (auto simp: publish_numbered_def next_seq_def publish_def)
  have run: "publish_and_apply_order_acks [a, a] k = (Inr (), k1)"
    using k0(1) k1(1) by (simp add: publish_and_apply_order_acks_def andThen_def ok_def)
  have bt: "batch_touches k k1" using batch_trans[OF k0(2) k1(2)] .
  then have "map_option snd (map_of (k_active k1) (oa_order_id a)) = Some (side, o')" and pos: "k_positions k1 = k_positions k"
    using k(2) unfolding batch_touches_def by auto
  then obtain sm1 where o1: "map_of (k_active k1) (oa_order_id a) = Some (sm1, side, o')" by auto
  have "\<not> shared_order k1 (oa_order_id a)" using o1 own by (simp add: shared_order_def)
  then obtain k' where each: "each (reconcile_ack cfg cid) [a, a] k1 = (Inr (), k')" "books_moved k1 [a, a] k'"
    using reconcile_each[of "[a, a]" cfg cid k1] by (auto dest: in_set_takeD)
  have "booked_shares k1 (oa_symbol a) a = signed_fill side a" using o1 a by (simp add: booked_shares_def bookable_def)
  then have "pos_quantity (ps_get (k_positions k') (oa_symbol a)) = pos_quantity (ps_get (k_positions k) (oa_symbol a)) + 2 * signed_fill side a"
    using each(2) pos by (simp add: books_moved_def)
  moreover have "reconcile_fills cfg [a, a] cid k1 = (Inr (), prune_terminal_orders k')"
    using each(1) by (simp add: reconcile_fills_def andThen_def modify_def)
  ultimately show ?thesis using run k1(3) prune_frame(1)[of k'] alerted by (metis (no_types, lifting))
qed

definition sample_config :: kernel_config where
  "sample_config = \<lparr>kc_alert_ratio = 2, kc_escalation_enabled = False, kc_escalation_streak = 3, kc_regime = None,
     kc_counts_pdt = False, kc_derive_order_id = (\<lambda>s. s)\<rparr>"

lemma sample_owned:
  assumes "k_active k = [(''o1'', (sm, BUY, sample_order))]" "k_fill_ledger k = None"
  shows "owned_orders k [sample_ack ACK_FILLED 10]"
  using assms
  by (auto simp: owned_orders_def order_owns_one_slice_def sample_order_def self_attributed_reasons_def risk_forced_reasons_def
      own_ledger_def sample_ack_def split: if_splits)

lemma slices_follow_net_book_witness:
  "\<exists>(k :: unit kernel) k'. pos_quantity (ps_get (k_positions k) ''X'') = 0
    \<and> reconcile_fills sample_config [sample_ack ACK_FILLED 10] ''c'' k = (Inr (), k')
    \<and> slice_book_total k' ''X'' = 10 \<and> pos_quantity (ps_get (k_positions k') ''X'') = 10"
proof -
  obtain k :: "unit kernel" and sm where k: "k_active k = [(''o1'', (sm, BUY, sample_order))]"
    "k_positions k = ps_new" "k_slices k = Some ss_new" "k_fill_ledger k = None"
    by (rule sample_kernel)
  let ?a = "sample_ack ACK_FILLED 10"
  have flat: "pos_quantity (ps_get (k_positions k) s) = 0" for s by (simp add: k(2) ps_get_def ps_new_def flat_position_def)
  have start: "slice_book_total k s = 0" for s
    by (simp add: slice_book_total_def k(3) aggregate_quantity ss_new_def)
  have "slices_distinct k" by (simp add: slices_distinct_def k(3) ss_new_def)
  moreover have "\<forall>a \<in> set [?a]. fees_fit 2 (oa_fees a)"
    using on_gridI[of 0 2 0] by (simp add: sample_ack_def fees_fit_def)
  ultimately obtain k' where k': "reconcile_fills sample_config [?a] ''c'' k = (Inr (), k')"
    "\<forall>s. slice_book_total k' s = pos_quantity (ps_get (k_positions k') s)
        \<and> pos_quantity (ps_get (k_positions k') s) = pos_quantity (ps_get (k_positions k) s) + (\<Sum>a\<leftarrow>[?a]. booked_shares k s a)"
    using slices_follow_net_book[OF sample_owned[OF k(1,4)], of 2 sample_config "''c''"] start flat by auto
  have "booked_shares k ''X'' ?a = 10"
    by (simp add: booked_shares_def bookable_def signed_fill_def sample_ack_def k(1))
  then have "slice_book_total k' ''X'' = 10 \<and> pos_quantity (ps_get (k_positions k') ''X'') = 10"
    using k'(2)[rule_format, of "''X''"] flat by simp
  then show ?thesis using k'(1) flat by blast
qed

lemma duplicate_fill_witness:
  "\<exists>(k :: unit kernel) k1 k2. publish_and_apply_order_acks [sample_ack ACK_FILLED 10, sample_ack ACK_FILLED 10] k = (Inr (), k1)
    \<and> reconcile_fills sample_config [sample_ack ACK_FILLED 10, sample_ack ACK_FILLED 10] ''c'' k1 = (Inr (), k2)
    \<and> pos_quantity (ps_get (k_positions k) ''X'') = 0 \<and> pos_quantity (ps_get (k_positions k2) ''X'') = 20"
proof -
  let ?a = "sample_ack ACK_FILLED 10"
  obtain k :: "unit kernel" and sm where k: "active_ok k" "k_active k = [(''o1'', (sm, BUY, sample_order))]"
    "sm_state sm = ACKNOWLEDGED" "k_positions k = ps_new"
    by (rule sample_kernel)
  have a: "oa_order_id ?a = ''o1''" "oa_symbol ?a = ''X''" "oa_status ?a = ACK_FILLED" "oa_fill_price ?a = Some 10"
    "oa_filled_quantity ?a = 10" by (simp_all add: sample_ack_def)
  have m: "map_of (k_active k) (oa_order_id ?a) = Some (sm, BUY, sample_order)" by (simp add: k(2) a(1))
  have own: "order_owns_one_slice sample_order"
    by (simp add: order_owns_one_slice_def sample_order_def self_attributed_reasons_def risk_forced_reasons_def)
  have flat: "pos_quantity (ps_get (k_positions k) ''X'') = 0" by (simp add: k(4) ps_get_def ps_new_def flat_position_def)
  show ?thesis
    using duplicate_fill_booked_twice[OF k(1) m k(3) a(3,4) _ own, of sample_config "''c''"] flat
    by (auto simp: a signed_fill_def)
qed

end
