(* ===== verification/Frames.thy ===== *)
theory Frames
  imports Fill_Books
begin

section \<open>Actions that keep a relation\<close>

text \<open>
  What every kernel operation owes its caller is a relation between the state before and
  after, whether it returns or raises. The contract is stated once for any reflexive and
  transitive relation and closed under the ways actions are composed; its instance says
  that a kernel step keeps the order table well formed, leaves the risk, macro and micro
  machines alone, and never releases the kill switch.
\<close>

definition keeps :: "('s \<Rightarrow> 's \<Rightarrow> bool) \<Rightarrow> ('s, 'a) act \<Rightarrow> bool" where
  "keeps R f \<longleftrightarrow> (\<forall>s. R s (snd (f s)))"

lemma keepsD: "keeps R f \<Longrightarrow> f s = (r, s') \<Longrightarrow> R s s'"
  by (metis keeps_def snd_conv)

locale framed =
  fixes R :: "'s \<Rightarrow> 's \<Rightarrow> bool"
  assumes stay: "R s s"
    and onward: "R s t \<Longrightarrow> R t u \<Longrightarrow> R s u"
begin

lemma ok_keeps: "keeps R (ok x)"
  by (simp add: keeps_def ok_def stay)

lemma raise_keeps: "keeps R (raise e)"
  by (simp add: keeps_def raise_def stay)

lemma return_keeps: "keeps R (\<lambda>s. (r s, s))"
  by (simp add: keeps_def stay)

lemma modify_keeps: "(\<And>s. R s (f s)) \<Longrightarrow> keeps R (modify f)"
  by (simp add: keeps_def modify_def)

lemma andThen_keeps:
  assumes f: "keeps R f" and g: "\<And>x. keeps R (g x)"
  shows "keeps R (andThen f g)"
  unfolding keeps_def
proof
  fix s
  obtain r t where run: "f s = (r, t)" by (cases "f s")
  have "R s t" by (rule keepsD[OF f run])
  then show "R s (snd (andThen f g s))"
    using g onward by (cases r) (auto simp: andThen_def run keeps_def)
qed

lemma catch_keeps:
  assumes f: "keeps R f" and h: "\<And>e. keeps R (h e)"
  shows "keeps R (catch f h)"
  unfolding keeps_def
proof
  fix s
  obtain r t where run: "f s = (r, t)" by (cases "f s")
  have "R s t" by (rule keepsD[OF f run])
  then show "R s (snd (catch f h s))"
    using h onward by (cases r) (auto simp: catch_def run keeps_def)
qed

lemma each_keeps: "(\<And>x. keeps R (f x)) \<Longrightarrow> keeps R (each f xs)"
  by (induction xs) (simp_all add: ok_keeps andThen_keeps)

lemma if_keeps: "keeps R f \<Longrightarrow> keeps R g \<Longrightarrow> keeps R (if b then f else g)"
  by simp

lemma branch: "R s (snd x) \<Longrightarrow> R s (snd y) \<Longrightarrow> R s (snd (if b then x else y))"
  by simp

text \<open>An operation given by its state argument keeps the relation if it does in every state.\<close>

lemma state_keeps: "(\<And>s. R s (snd (f s))) \<Longrightarrow> keeps R f"
  by (simp add: keeps_def)

lemma at_state: "keeps R f \<Longrightarrow> R s (snd (f s))"
  by (simp add: keeps_def)

lemma after: "R s t \<Longrightarrow> keeps R f \<Longrightarrow> R s (snd (f t))"
  using onward at_state by blast

lemmas keeps = ok_keeps raise_keeps return_keeps andThen_keeps catch_keeps each_keeps

end

subsection \<open>A kernel step\<close>

definition kernel_ok :: "'r kernel \<Rightarrow> bool" where
  "kernel_ok k \<longleftrightarrow> active_ok k \<and> distinct (map fst (k_active k))"

definition tightened :: "bool option \<Rightarrow> bool option \<Rightarrow> bool" where
  \<comment> \<open>a kill switch, where there is one, is left alone or activated\<close>
  "tightened a b \<longleftrightarrow> b = a \<or> (a \<noteq> None \<and> b = Some True)"

lemma tightened_simps [simp]: "tightened a a" "tightened a b \<Longrightarrow> tightened b c \<Longrightarrow> tightened a c"
  by (auto simp: tightened_def)

definition kernel_step :: "'r kernel \<Rightarrow> 'r kernel \<Rightarrow> bool" where
  "kernel_step k k' \<longleftrightarrow> (kernel_ok k \<longrightarrow> kernel_ok k' \<and> k_risk k' = k_risk k \<and> k_macro k' = k_macro k \<and> k_micro k' = k_micro k
     \<and> k_now k' = k_now k \<and> tightened (k_kill k) (k_kill k'))"

interpretation step: framed "kernel_step :: 'r kernel \<Rightarrow> 'r kernel \<Rightarrow> bool"
  by unfold_locales (auto simp: kernel_step_def intro: tightened_simps(2))

text \<open>Fields that a step may change freely.\<close>

lemma step_fields [simp]:
  "kernel_step k (k\<lparr>k_log := l\<rparr>)" "kernel_step k (k\<lparr>k_router := r\<rparr>)" "kernel_step k (k\<lparr>k_router := r, k_deferred := d\<rparr>)"
  "kernel_step k (k\<lparr>k_deferred := d, k_router := r\<rparr>)"
  "kernel_step k (k\<lparr>k_fallback := f, k_filled := q\<rparr>)" "kernel_step k (k\<lparr>k_announced := a\<rparr>)" "kernel_step k (k\<lparr>k_hazard_ids := h\<rparr>)"
  "kernel_step k (k\<lparr>k_positions := p, k_slices := S, k_log := l\<rparr>)" "kernel_step k (k\<lparr>k_slices := S, k_fill_ledger := F\<rparr>)"
  "kernel_step k (k\<lparr>k_filled := q, k_positions := p, k_lots := L, k_pdt := pd\<rparr>)" "kernel_step k (k\<lparr>k_fill_ledger := F\<rparr>)"
  "kernel_step k (k\<lparr>k_journal := j\<rparr>)" "kernel_step k (k\<lparr>k_traded := t\<rparr>)" "kernel_step k (k\<lparr>k_streak := st\<rparr>)"
  "kernel_step k (k\<lparr>k_intents := i\<rparr>)"
  by (simp_all add: kernel_step_def kernel_ok_def active_ok_def)

lemma touches_step: "touches oid k k' \<Longrightarrow> kernel_step k k'"
proof -
  assume t: "touches oid k k'"
  obtain A L where "k' = k\<lparr>k_active := A, k_log := L\<rparr>" using t unfolding touches_def by blast
  then show ?thesis using t by (simp add: kernel_step_def kernel_ok_def touches_def)
qed

lemma batch_step: "batch_touches k k' \<Longrightarrow> kernel_step k k'"
proof -
  assume t: "batch_touches k k'"
  obtain A L where "k' = k\<lparr>k_active := A, k_log := L\<rparr>" using t unfolding batch_touches_def by blast
  then show ?thesis using t by (simp add: kernel_step_def kernel_ok_def batch_touches_def)
qed

lemma alert_step: "keeps kernel_step (alert sev name cid)"
  by (simp add: keeps_def alert_run)

lemma publish_event_step: "keeps kernel_step (publish_event e)"
  by (simp add: keeps_def publish_event_run)

lemma order_transition_step: "keeps kernel_step (order_transition oid t trigger cid)"
proof (rule step.state_keeps)
  fix k :: "'a kernel"
  show "kernel_step k (snd (order_transition oid t trigger cid k))"
  proof (cases "kernel_ok k")
    case True
    then have a: "active_ok k" by (simp add: kernel_ok_def)
    show ?thesis
    proof (cases "order_machine_state k oid")
      case None
      then show ?thesis by (simp add: order_transition_def order_machine_state_def step.stay)
    next
      case (Some s)
      then show ?thesis using order_transition_run[OF a Some] touches_step[OF touches_moved[OF a]] by (simp add: step.stay)
    qed
  qed (simp add: kernel_step_def)
qed

lemma order_if_step: "keeps kernel_step alt \<Longrightarrow> keeps kernel_step (order_if oid t trigger cid alt)"
  by (rule step.state_keeps) (simp add: order_if_def step.at_state step.at_state[OF order_transition_step])

lemma track_order_step: "keeps kernel_step (track_order oid sd o' intent)"
proof (rule step.state_keeps)
  fix k :: "'a kernel"
  show "kernel_step k (snd (track_order oid sd o' intent k))"
  proof (cases "kernel_ok k")
    case True
    then have a: "active_ok k" by (simp add: kernel_ok_def)
    obtain sm where sm: "(create_order_state_machine oid :: (order_state, kernel_log) machine result) = Inr sm"
      using order_table.builds[of "''order:'' @ oid" CREATED] by (auto simp: create_order_state_machine_def)
    show ?thesis using track_order_run[OF a, of oid sd o' intent] True
      by (auto simp: kernel_step_def kernel_ok_def track_order_def sm Let_def record_fill_attribution_def split: option.splits)
  qed (simp add: kernel_step_def)
qed

lemma prune_step: "kernel_step k (prune_terminal_orders k)"
proof (cases "kernel_ok k")
  case True
  then have d: "distinct (map fst (k_active k))" by (simp add: kernel_ok_def)
  have "active_ok (prune_terminal_orders k)"
    using True unfolding active_ok_def prune_lookup[OF d] by (auto simp: kernel_ok_def active_ok_def split: option.splits if_splits)
  moreover have "distinct (map fst (k_active (prune_terminal_orders k)))"
    unfolding prune_active[OF d] using d by (simp add: distinct_map_filter)
  ultimately show ?thesis by (simp add: kernel_step_def kernel_ok_def prune_terminal_orders_def Let_def prune_loop)
qed (simp add: kernel_step_def)

lemma prune_act_step: "keeps kernel_step (modify prune_terminal_orders)"
  by (rule step.modify_keeps) (rule prune_step)

lemma apply_acks_step: "keeps kernel_step (publish_and_apply_order_acks acks)"
proof -
  have "keeps kernel_step (andThen (publish_event (OutAck a)) (\<lambda>_. apply_ack_to_order a) :: ('b, unit) kact)" for a
  proof (rule step.state_keeps)
    fix k :: "'b kernel"
    show "kernel_step k (snd (andThen (publish_event (OutAck a)) (\<lambda>_. apply_ack_to_order a) k))"
    proof (cases "kernel_ok k")
      case True
      then have "active_ok k" by (simp add: kernel_ok_def)
      from one_ack[OF this, of a] show ?thesis using batch_step by fastforce
    qed (simp add: kernel_step_def)
  qed
  then show ?thesis unfolding publish_and_apply_order_acks_def by (rule step.each_keeps)
qed

subsection \<open>Reconciliation is a kernel step\<close>

lemma attribute_fill_step: "keeps kernel_step (attribute_fill a o' q price)"
  by (rule step.state_keeps)
    (simp add: attribute_fill_def kernel_step_def kernel_ok_def active_ok_def Let_def split: option.splits sum.splits prod.splits)

lemma debit_step: "kernel_step k (debit_terminal_fees cid a k)"
  by (simp add: debit_terminal_fees_def Let_def step.stay)

lemma move_books_step: "kernel_step k (move_books cfg a price q o' k)"
  by (simp add: move_books_def Let_def)

lemma journal_step: "kernel_step k (journal_fill cfg a sd o' price r legs k)"
  by (simp add: journal_fill_def step.stay split: option.split)

lemma cost_overrun_step: "keeps kernel_step (cost_overrun cfg cid a o')"
  by (rule step.state_keeps)
    (simp add: cost_overrun_def Let_def andThen_def alert_run modify_def step.stay kernel_step_def kernel_ok_def active_ok_def, auto simp: tightened_def)

lemma report_fill_step: "keeps kernel_step (report_fill cfg cid a price sd o' prev p legs)"
  unfolding report_fill_def
proof (intro step.andThen_keeps step.modify_keeps cost_overrun_step)
  fix k :: "'a kernel"
  let ?k = "journal_fill cfg a sd o' price (dec_sub (pos_realized p) (pos_realized prev)) legs k"
  have "kernel_step k ?k" by (rule journal_step)
  moreover have "kernel_step ?k (?k\<lparr>k_traded := t\<rparr>)" for t by simp
  ultimately show "kernel_step k (let k2 = ?k in
      if or_strategy o' \<noteq> '''' then k2\<lparr>k_traded := List.insert (or_strategy o', oa_symbol a) (k_traded k2)\<rparr> else k2)"
    using step.onward by (simp only: Let_def split: if_split) blast
qed simp

lemma book_ack_step: "keeps kernel_step (book_ack cfg cid a price sd o')"
proof (rule step.state_keeps)
  fix k :: "'a kernel"
  show "kernel_step k (snd (book_ack cfg cid a price sd o' k))"
    unfolding book_ack_def Let_def
    by (rule step.after[OF move_books_step step.andThen_keeps[OF attribute_fill_step report_fill_step]])
qed

lemma reconcile_ack_step: "keeps kernel_step (reconcile_ack cfg cid a)"
proof (rule step.state_keeps)
  fix k :: "'a kernel"
  let ?k = "debit_terminal_fees cid a k"
  note run = step.after[OF debit_step]
  show "kernel_step k (snd (reconcile_ack cfg cid a k))"
    by (simp add: reconcile_ack_def Let_def run[OF alert_step] run[OF book_ack_step] debit_step split: option.split)
qed

lemma reconcile_fills_step: "keeps kernel_step (reconcile_fills cfg acks cid)"
  unfolding reconcile_fills_def by (intro step.keeps reconcile_ack_step prune_act_step)

end
