(* ===== verification/Forced_Exit.thy ===== *)
theory Forced_Exit
  imports Frames
begin

section \<open>Forced exits, escalation and session control (kernel/orchestrator.py, execution/order\_lifecycle.py)\<close>

text \<open>
  The paths on which the kernel talks to the order router: submission with its failure path,
  polling and deferral of acknowledgements, cancellation, the market fallback of a working
  exit, the de-risk handler with its clamp, the emergency flatten, risk escalation to
  lockdown, and the operator's commands. The router (the execution backend) is a record of
  three operations on its own state, each of which may raise. \<open>hashlib\<close> ids, the risk
  engine's verdict and the data-integrity check are parameters; metrics, log lines and the
  quote handed through to the router are left out.
\<close>

subsection \<open>The router\<close>

record 'r router =
  rt_submit :: "order_request \<Rightarrow> 'r \<Rightarrow> exn option \<times> 'r"
  rt_poll :: "'r \<Rightarrow> order_ack list result \<times> 'r"
  rt_cancel :: "(string \<Rightarrow> 'r \<Rightarrow> bool result \<times> 'r) option"
  rt_expire_moc :: "('r \<Rightarrow> 'r) option"

fun exn_name :: "exn \<Rightarrow> string" where
  \<comment> \<open>\<open>type(exc).__name__\<close>\<close>
  "exn_name (ValueError m) = ''ValueError''"
| "exn_name (RuntimeError m) = ''RuntimeError''"
| "exn_name (AssertionError m) = ''AssertionError''"
| "exn_name (KeyError m) = ''KeyError''"
| "exn_name IndexError = ''IndexError''"
| "exn_name (TypeError m) = ''TypeError''"
| "exn_name (PermissionError m) = ''PermissionError''"
| "exn_name InvalidOperation = ''InvalidOperation''"
| "exn_name ZeroDivision = ''ZeroDivisionError''"
| "exn_name (IllegalTransition m t) = ''IllegalTransition''"
| "exn_name (KernelFault m) = ''KernelFault''"
| "exn_name (OtherException m) = m"

definition poll_order_router_acks :: "'r router \<Rightarrow> string list option \<Rightarrow> ('r, order_ack list) kact" where
  "poll_order_router_acks rt expected k =
     (case rt_poll rt (k_router k) of
        (Inl e, r) \<Rightarrow> (Inl e, k\<lparr>k_router := r\<rparr>)
      | (Inr polled, r) \<Rightarrow>
          let all_acks = k_deferred k @ polled;
              k1 = k\<lparr>k_router := r, k_deferred := []\<rparr>
          in case expected of
               None \<Rightarrow> (Inr all_acks, k1)
             | Some ids \<Rightarrow>
                 (Inr (filter (\<lambda>a. oa_order_id a \<in> set ids) all_acks),
                  k1\<lparr>k_deferred := filter (\<lambda>a. oa_order_id a \<notin> set ids) all_acks\<rparr>))"

definition settle_router_acks :: "kernel_config \<Rightarrow> 'r router \<Rightarrow> string \<Rightarrow> string list option \<Rightarrow> ('r, order_ack list) kact" where
  "settle_router_acks cfg rt cid expected =
     andThen (poll_order_router_acks rt expected)
       (\<lambda>acks. andThen (publish_and_apply_order_acks acks)
          (\<lambda>_. andThen (reconcile_fills cfg acks cid) (\<lambda>_. ok acks)))"

definition submit_to_router :: "'r router \<Rightarrow> order_request \<Rightarrow> ('r, unit) kact" where
  "submit_to_router rt o' k =
     (case rt_submit rt o' (k_router k) of
        (None, r) \<Rightarrow> (Inr (), k\<lparr>k_router := r\<rparr>)
      | (Some e, r) \<Rightarrow> (Inl e, k\<lparr>k_router := r\<rparr>))"

definition submit_tracked_order :: "'r router \<Rightarrow> order_request \<Rightarrow> string \<Rightarrow> ('r, exn option) kact" where
  "submit_tracked_order rt o' trigger =
     andThen (transition_order (or_order_id o') SUBMITTED trigger (ev_correlation o'))
       (\<lambda>_. catch (andThen (submit_to_router rt o') (\<lambda>_. ok None))
              (\<lambda>e. andThen (reject_order_after_submit_failure o' (exn_name e)) (\<lambda>_. ok (Some e))))"

definition kernel_order ::
  "ns \<Rightarrow> string \<Rightarrow> int \<Rightarrow> string \<Rightarrow> symbol \<Rightarrow> side \<Rightarrow> int \<Rightarrow> strategy \<Rightarrow> string \<Rightarrow> order_request" where
  \<comment> \<open>a MARKET order authored by the kernel; the other fields keep their defaults\<close>
  "kernel_order now cid seq oid s sd qty strat reason =
     \<lparr>ev_timestamp = now, ev_correlation = cid, ev_sequence = seq, ev_source_layer = ''UNKNOWN'',
      ev_schema_version = schema_version, or_order_id = oid, or_symbol = s, or_side = sd,
      or_order_type = MARKET, or_quantity = qty, or_limit_price = None, or_strategy = strat,
      or_is_short = False, or_is_moc = False, or_g12_cost_bps = 0, or_reason = reason\<rparr>"

definition draw_seq :: "('r, int) kact" where
  "draw_seq k = (case next_seq (k_log k) of (n, l) \<Rightarrow> (Inr n, k\<lparr>k_log := l\<rparr>))"

subsection \<open>Working exits\<close>

definition submit_working_exit_fallback ::
  "kernel_config \<Rightarrow> 'r router \<Rightarrow> symbol \<Rightarrow> side \<Rightarrow> int \<Rightarrow> string \<Rightarrow> string \<Rightarrow> ('r, unit) kact" where
  "submit_working_exit_fallback cfg rt s sd qty parent cid =
     andThen draw_seq (\<lambda>seq k.
       let oid = kc_derive_order_id cfg (parent @ '':working_fallback'');
           o' = kernel_order (k_now k) cid seq oid s sd qty ''__working_exit_fallback__'' ''WORKING_EXIT_FALLBACK''
       in andThen (track_order oid sd o' ''EXIT'')
            (\<lambda>_. andThen (submit_tracked_order rt o' ''submitted'')
               (\<lambda>err. if err \<noteq> None then ok ()
                      else andThen (publish_event (OutOrder o'))
                             (\<lambda>_. alert alert_severity.INFO ''working_exit_market_fallback'' cid))) k)"

definition escalate_working_exit :: "kernel_config \<Rightarrow> 'r router \<Rightarrow> string \<Rightarrow> order_ack \<Rightarrow> ('r, unit) kact" where
  \<comment> \<open>the loop body of \<open>_escalate_unfilled_working_exits\<close>\<close>
  "escalate_working_exit cfg rt cid a k =
     (let oid = oa_order_id a in
      case map_of (k_fallback k) oid of
        None \<Rightarrow> (Inr (), k)
      | Some (s, sd, original) \<Rightarrow>
          if oa_status a \<notin> {ACK_FILLED, ACK_CANCELLED, ACK_EXPIRED} then (Inr (), k)
          else
            let filled = (case map_of (k_filled k) oid of Some n \<Rightarrow> n | None \<Rightarrow> 0);
                k1 = k\<lparr>k_fallback := dict_pop oid (k_fallback k), k_filled := dict_pop oid (k_filled k)\<rparr>;
                residual = original - filled
            in if oa_status a = ACK_FILLED then (Inr (), k1)
               else if residual < 1 then (Inr (), k1)
               else submit_working_exit_fallback cfg rt s sd residual oid cid k1)"

definition escalate_unfilled_working_exits :: "kernel_config \<Rightarrow> 'r router \<Rightarrow> order_ack list \<Rightarrow> string \<Rightarrow> ('r, unit) kact" where
  "escalate_unfilled_working_exits cfg rt acks cid k =
     (if k_fallback k = [] then (Inr (), k) else each (escalate_working_exit cfg rt cid) acks k)"

definition drain_async_fills :: "kernel_config \<Rightarrow> 'r router \<Rightarrow> string \<Rightarrow> ('r, unit) kact" where
  "drain_async_fills cfg rt cid =
     andThen (settle_router_acks cfg rt cid None)
       (\<lambda>acks. if acks \<noteq> [] then escalate_unfilled_working_exits cfg rt acks cid else ok ())"

subsection \<open>Cancellation\<close>

definition resting_ids :: "symbol \<Rightarrow> 'r kernel \<Rightarrow> string list" where
  "resting_ids s k = map fst (filter (\<lambda>(_, (sm, _, o')). or_symbol o' = s \<and> sm_state sm \<notin> terminal_order_states) (k_active k))"

definition router_cancel :: "(string \<Rightarrow> 'r \<Rightarrow> bool result \<times> 'r) \<Rightarrow> string \<Rightarrow> ('r, bool) kact" where
  "router_cancel cancel oid k = (case cancel oid (k_router k) of (res, r) \<Rightarrow> (res, k\<lparr>k_router := r\<rparr>))"

definition cancel_resting_for_symbol :: "kernel_config \<Rightarrow> 'r router \<Rightarrow> symbol \<Rightarrow> string \<Rightarrow> ('r, unit) kact" where
  "cancel_resting_for_symbol cfg rt s cid k =
     (case rt_cancel rt of
        None \<Rightarrow> (Inr (), k)
      | Some cancel \<Rightarrow>
          andThen (each (\<lambda>oid. andThen (router_cancel cancel oid) (\<lambda>_. ok ())) (resting_ids s k))
            (\<lambda>_ k1. andThen (settle_router_acks cfg rt cid (Some (resting_ids s k1))) (\<lambda>_. ok ()) k1) k)"

definition cancel_order :: "kernel_config \<Rightarrow> 'r router \<Rightarrow> string \<Rightarrow> string \<Rightarrow> ('r, bool) kact" where
  "cancel_order cfg rt oid reason k =
     (case map_of (k_active k) oid of
        None \<Rightarrow> (Inr False, k)
      | Some (sm, side, o') \<Rightarrow>
          if \<not> order_can k oid CANCEL_REQUESTED then (Inr False, k)
          else
            let cid = ev_correlation o' in
            andThen (order_transition oid CANCEL_REQUESTED (''cancel_requested:'' @ reason) cid)
              (\<lambda>_. case rt_cancel rt of
                 None \<Rightarrow>
                   andThen (alert alert_severity.WARNING ''cancel_order_router_unsupported'' cid)
                     (\<lambda>_. andThen (order_if oid CANCELLED ''cancel_router_unsupported_local_terminal'' cid (ok ()))
                        (\<lambda>_. andThen (modify prune_terminal_orders) (\<lambda>_. ok True)))
               | Some cancel \<Rightarrow>
                   andThen (router_cancel cancel oid)
                     (\<lambda>accepted. andThen (settle_router_acks cfg rt cid (Some [oid]))
                        (\<lambda>_. andThen (\<lambda>k. if \<not> accepted \<and> order_machine_state k oid = Some CANCEL_REQUESTED
                                          then order_if oid CANCELLED ''cancel_no_broker_ack_local_terminal'' cid (ok ()) k
                                          else (Inr (), k))
                           (\<lambda>_. andThen (modify prune_terminal_orders) (\<lambda>_. ok True))))) k)"

subsection \<open>De-risk requirements\<close>

definition closable_quantity :: "int \<Rightarrow> side \<Rightarrow> int" where
  "closable_quantity q sd = (if sd = SELL then max q 0 else max (- q) 0)"

definition is_forced_market_exit :: "order_request \<Rightarrow> bool" where
  "is_forced_market_exit o' \<longleftrightarrow> ev_source_layer o' = ''RISK'' \<and> or_reason o' \<in> risk_forced_reasons"

definition forced_exit_closable_quantity :: "'r kernel \<Rightarrow> order_request \<Rightarrow> int" where
  "forced_exit_closable_quantity k o' =
     (let net = pos_quantity (ps_get (k_positions k) (or_symbol o'));
          closable = closable_quantity net (or_side o');
          closable' = (case k_slices k of
              None \<Rightarrow> closable
            | Some S \<Rightarrow>
                if or_reason o' \<in> slice_scoped_reasons
                then max closable (closable_quantity (slice_q S (or_symbol o') (or_strategy o')) (or_side o'))
                else closable)
      in min (or_quantity o') closable')"

definition forced_exit_reduces :: "'r kernel \<Rightarrow> order_request \<Rightarrow> bool" where
  "forced_exit_reduces k o' \<longleftrightarrow> 0 < forced_exit_closable_quantity k o'"

definition has_pending_forced_exit_for_symbol :: "'r kernel \<Rightarrow> symbol \<Rightarrow> bool" where
  "has_pending_forced_exit_for_symbol k s =
     list_ex (\<lambda>(_, (sm, _, o')). or_symbol o' = s \<and> sm_state sm \<notin> terminal_order_states \<and> is_forced_market_exit o') (k_active k)"

definition order_request_from_derisk :: "de_risk_requirement \<Rightarrow> order_request" where
  "order_request_from_derisk d =
     \<lparr>ev_timestamp = ev_timestamp d, ev_correlation = ev_correlation d, ev_sequence = ev_sequence d,
      ev_source_layer = ev_source_layer d, ev_schema_version = schema_version,
      or_order_id = dr_order_id d, or_symbol = dr_symbol d, or_side = dr_side d,
      or_order_type = MARKET, or_quantity = dr_quantity d, or_limit_price = None, or_strategy = dr_strategy d,
      or_is_short = False, or_is_moc = False, or_g12_cost_bps = 0, or_reason = dr_reason d\<rparr>"

definition submit_clamped :: "kernel_config \<Rightarrow> 'r router \<Rightarrow> order_request \<Rightarrow> ('r, unit) kact" where
  \<comment> \<open>the tail of the handler, after any cancellation: re-clamp, track, submit, settle\<close>
  "submit_clamped cfg rt o' k =
     (let closable = forced_exit_closable_quantity k o' in
      if closable \<le> 0 then alert alert_severity.WARNING ''forced_exit_stood_down_after_cancel'' (ev_correlation o') k
      else
        let resize = (if closable < or_quantity o'
              then andThen (alert alert_severity.WARNING ''forced_exit_resized_after_cancel'' (ev_correlation o'))
                     (\<lambda>_. modify (\<lambda>k. k\<lparr>k_announced := dict_set (or_order_id o') (or_quantity o') (k_announced k)\<rparr>))
              else ok ());
            o1 = (if closable < or_quantity o' then o'\<lparr>or_quantity := closable\<rparr> else o')
        in andThen resize
             (\<lambda>_. andThen (track_order (or_order_id o1) (or_side o1) o1 '''')
                (\<lambda>_. andThen (submit_tracked_order rt o1 (or_reason o1))
                   (\<lambda>err. if err \<noteq> None then ok ()
                          else andThen (settle_router_acks cfg rt (ev_correlation o1) (Some [or_order_id o1])) (\<lambda>_. ok ())))) k)"

definition derisk_tail :: "kernel_config \<Rightarrow> 'r router \<Rightarrow> order_request \<Rightarrow> ('r, unit) kact" where
  \<comment> \<open>the resting-order guard, then the clamp\<close>
  "derisk_tail cfg rt o' k =
     (if \<not> has_pending_order_for_symbol k (or_symbol o') then submit_clamped cfg rt o' k
      else if has_pending_forced_exit_for_symbol k (or_symbol o') then (Inr (), k)
      else andThen (alert alert_severity.WARNING ''forced_exit_supersedes_pending_order'' (ev_correlation o'))
             (\<lambda>_. andThen (cancel_resting_for_symbol cfg rt (or_symbol o') (ev_correlation o')) (\<lambda>_. submit_clamped cfg rt o')) k)"

definition derisk_checked ::
  "kernel_config \<Rightarrow> 'r router \<Rightarrow> (order_request \<Rightarrow> position_store \<Rightarrow> risk_action \<times> string) \<Rightarrow> order_request \<Rightarrow> ('r, unit) kact" where
  \<comment> \<open>deduplication and the defensive risk check; \<open>check_order\<close> of the risk engine is a parameter\<close>
  "derisk_checked cfg rt check_order o' k =
     (if or_order_id o' \<in> set (k_hazard_ids k) then (Inr (), k)
      else
        let k1 = k\<lparr>k_hazard_ids := List.insert (or_order_id o') (k_hazard_ids k)\<rparr>;
            (action, why) = check_order o' (k_positions k1);
            k2 = (if action \<noteq> FORCE_FLATTEN then k1\<lparr>k_log := publish (OutVerdict action why) (k_log k1)\<rparr> else k1)
        in if action = REJECT \<and> \<not> forced_exit_reduces k1 o'
           then alert CRITICAL ''hazard_exit_nonreducing_reject_blocked'' (ev_correlation o') k2
           else andThen
             (if action = REJECT
              then alert alert_severity.WARNING ''hazard_exit_defensive_check_order_reject'' (ev_correlation o') else ok ())
             (\<lambda>_. derisk_tail cfg rt o') k2)"

definition on_bus_derisk_requirement ::
  "kernel_config \<Rightarrow> 'r router \<Rightarrow> (order_request \<Rightarrow> position_store \<Rightarrow> risk_action \<times> string) \<Rightarrow> de_risk_requirement \<Rightarrow> ('r, unit) kact" where
  "on_bus_derisk_requirement cfg rt check_order d =
     (if ev_source_layer d \<noteq> ''RISK'' then ok ()
      else andThen (publish_event (OutOrder (order_request_from_derisk d)))
             (\<lambda>_. derisk_checked cfg rt check_order (order_request_from_derisk d)))"

subsection \<open>Flattening and escalation\<close>

definition close_side :: "int \<Rightarrow> side" where
  "close_side q = (if 0 < q then SELL else BUY)"

fun ack_status_name :: "order_ack_status \<Rightarrow> string" where
  "ack_status_name ACK_ACKNOWLEDGED = ''ACKNOWLEDGED''"
| "ack_status_name ACK_PARTIALLY_FILLED = ''PARTIALLY_FILLED''"
| "ack_status_name ACK_FILLED = ''FILLED''"
| "ack_status_name ACK_CANCELLED = ''CANCELLED''"
| "ack_status_name ACK_REJECTED = ''REJECTED''"
| "ack_status_name ACK_EXPIRED = ''EXPIRED''"

definition non_fill_ack :: "string \<Rightarrow> order_ack \<Rightarrow> bool" where
  "non_fill_ack oid a \<longleftrightarrow> oa_order_id a = oid \<and> oa_filled_quantity a = 0 \<and> oa_status a \<in> {ACK_REJECTED, ACK_CANCELLED}"

definition flatten_body :: "kernel_config \<Rightarrow> 'r router \<Rightarrow> string \<Rightarrow> order_request \<Rightarrow> ('r, string option) kact" where
  \<comment> \<open>the try block of \<open>_emergency_flatten_all\<close>; a value is the symbol's failure\<close>
  "flatten_body cfg rt cid o' =
     (let oid = or_order_id o' in
      andThen (track_order oid (or_side o') o' '''')
        (\<lambda>_. andThen (submit_tracked_order rt o' ''emergency_flatten'')
           (\<lambda>err. case err of
               Some e \<Rightarrow> ok (Some (''submit_exception: '' @ exn_name e))
             | None \<Rightarrow> andThen (publish_event (OutOrder o'))
                 (\<lambda>_. andThen (settle_router_acks cfg rt cid (Some [oid]))
                    (\<lambda>acks. ok (case filter (non_fill_ack oid) acks of
                         [] \<Rightarrow> None
                       | a # _ \<Rightarrow> Some (ack_status_name (oa_status a) @ '': '' @
                                  (if oa_reason a = '''' then ''no reason'' else oa_reason a))))))))"

definition flatten_failed :: "order_request \<Rightarrow> exn \<Rightarrow> ('r, string option) kact" where
  \<comment> \<open>its except clause\<close>
  "flatten_failed o' e k =
     andThen
       (if map_of (k_active k) (or_order_id o') = None then ok ()
        else force_order_terminal_after_pipeline_error o' (exn_name e) ''emergency_flatten'')
       (\<lambda>_. ok (Some (''submit_exception: '' @ exn_name e))) k"

definition try_flatten :: "kernel_config \<Rightarrow> 'r router \<Rightarrow> string \<Rightarrow> order_request \<Rightarrow> ('r, string option) kact" where
  "try_flatten cfg rt cid o' = catch (flatten_body cfg rt cid o') (flatten_failed o')"

definition flatten_symbol :: "kernel_config \<Rightarrow> 'r router \<Rightarrow> string \<Rightarrow> symbol \<Rightarrow> ('r, string option) kact" where
  \<comment> \<open>the loop body of \<open>_emergency_flatten_all\<close>\<close>
  "flatten_symbol cfg rt cid s k =
     (let q = pos_quantity (ps_get (k_positions k) s) in
      if q = 0 then (Inr None, k)
      else andThen draw_seq (\<lambda>seq k.
        let oid = kc_derive_order_id cfg (''emergency_flatten:'' @ cid @ '':'' @ s @ '':'' @ show_int seq)
        in try_flatten cfg rt cid
             (kernel_order (k_now k) cid seq oid s (close_side q) \<bar>q\<bar> ''emergency_flatten'' ''FORCE_FLATTEN'') k) k)"

fun flatten_loop :: "kernel_config \<Rightarrow> 'r router \<Rightarrow> string \<Rightarrow> symbol list \<Rightarrow> (symbol \<times> string) list
    \<Rightarrow> ('r, (symbol \<times> string) list) kact" where
  "flatten_loop cfg rt cid [] failures = ok failures"
| "flatten_loop cfg rt cid (s # ss) failures =
     andThen (flatten_symbol cfg rt cid s)
       (\<lambda>f. flatten_loop cfg rt cid ss (case f of None \<Rightarrow> failures | Some why \<Rightarrow> dict_set s why failures))"

definition residual_positions :: "'r kernel \<Rightarrow> (symbol \<times> int) list" where
  "residual_positions k =
     map (\<lambda>(s, p). (s, pos_quantity p)) (filter (\<lambda>(s, p). pos_quantity p \<noteq> 0) (ps_positions (k_positions k)))"

definition emergency_flatten_all ::
  "kernel_config \<Rightarrow> 'r router \<Rightarrow> string \<Rightarrow> ('r, (symbol \<times> string) list \<times> (symbol \<times> int) list) kact" where
  "emergency_flatten_all cfg rt cid k =
     andThen (flatten_loop cfg rt cid (sort (map fst (ps_positions (k_positions k)))) [])
       (\<lambda>failures k.
          let residual = residual_positions k in
          andThen (if residual \<noteq> [] \<or> failures \<noteq> [] then alert CRITICAL ''emergency_flatten_incomplete'' cid else ok ())
            (\<lambda>_. ok (failures, residual)) k) k"

definition risk_transition :: "risk_level \<Rightarrow> string \<Rightarrow> string \<Rightarrow> ('r, unit) kact" where
  "risk_transition target trigger cid k =
     (case transition (k_risk k) target trigger cid None (k_now k) (k_log k) of
        (r, m, l) \<Rightarrow> (map_sum id (\<lambda>_. ()) r, k\<lparr>k_risk := m, k_log := l\<rparr>))"

definition macro_transition :: "macro_state \<Rightarrow> string \<Rightarrow> string \<Rightarrow> ('r, unit) kact" where
  "macro_transition target trigger cid k =
     (case transition (k_macro k) target trigger cid None (k_now k) (k_log k) of
        (r, m, l) \<Rightarrow> (map_sum id (\<lambda>_. ()) r, k\<lparr>k_macro := m, k_log := l\<rparr>))"

definition raise_level :: "risk_level \<Rightarrow> risk_level \<Rightarrow> string \<Rightarrow> string \<Rightarrow> risk_level \<Rightarrow> ('r, risk_level) kact" where
  \<comment> \<open>\<open>if level == here: transition to next; level = next\<close>\<close>
  "raise_level here next trigger cid level =
     (if level = here then andThen (risk_transition next trigger cid) (\<lambda>_. ok next) else ok level)"

definition escalate_risk :: "kernel_config \<Rightarrow> 'r router \<Rightarrow> string \<Rightarrow> ('r, unit) kact" where
  "escalate_risk cfg rt cid k =
     andThen (raise_level NORMAL WARNING ''risk_threshold_approaching'' cid (sm_state (k_risk k)))
       (\<lambda>l1. andThen (raise_level WARNING BREACH_DETECTED ''risk_breach_confirmed'' cid l1)
       (\<lambda>l2. andThen (raise_level BREACH_DETECTED FORCED_FLATTEN ''forced_flatten_initiated'' cid l2)
       (\<lambda>l3. andThen
          (if l3 = FORCED_FLATTEN
           then andThen (emergency_flatten_all cfg rt cid)
                  (\<lambda>(failures, residual). risk_transition LOCKED
                     (if failures = [] \<and> residual = [] then ''positions_zero_flatten_complete''
                      else ''emergency_flatten_incomplete_residual_exposure'') cid)
           else ok ())
       (\<lambda>_. andThen
          (modify (\<lambda>k. if k_kill k = None then k
                      else k\<lparr>k_kill := Some True,
                             k_log := publish_numbered (OutKill ''risk_escalation_lockdown'' ''orchestrator'') (k_log k)\<rparr>))
       (\<lambda>_. macro_transition RISK_LOCKDOWN ''RISK_BREACH'' cid))))) k"

definition force_flatten_symbol_on_degrade :: "kernel_config \<Rightarrow> 'r router \<Rightarrow> symbol \<Rightarrow> string \<Rightarrow> string \<Rightarrow> ('r, unit) kact" where
  "force_flatten_symbol_on_degrade cfg rt s cid reason k =
     (let q = pos_quantity (ps_get (k_positions k) s) in
      if q = 0 then (Inr (), k)
      else andThen draw_seq (\<lambda>seq k.
        let sd = close_side q;
            oid = kc_derive_order_id cfg (''degrade_flatten:'' @ reason @ '':'' @ s @ '':'' @ show_int seq);
            o' = kernel_order (k_now k) cid seq oid s sd \<bar>q\<bar> ''degrade_flatten'' reason
        in catch
             (andThen (track_order oid sd o' '''')
               (\<lambda>_. andThen (order_transition oid SUBMITTED (''degrade_flatten:'' @ reason) cid)
                  (\<lambda>_. andThen (submit_to_router rt o')
                     (\<lambda>_. andThen (publish_event (OutOrder o'))
                        (\<lambda>_. andThen (settle_router_acks cfg rt cid (Some [oid])) (\<lambda>_. ok ()))))))
             (\<lambda>e. alert CRITICAL ''degrade_flatten_failed'' cid) k) k)"

subsection \<open>Operator commands and shutdown\<close>

definition halt_session :: "('r, unit) kact" where
  \<comment> \<open>\<open>Orchestrator.halt\<close>; the buffered sized intents it also drops are not in the model\<close>
  "halt_session k =
     (if sm_state (k_macro k) \<in> trading_modes
      then andThen (macro_transition READY ''CMD_STOP'' '''')
             (\<lambda>_ k. case sm_reset (k_micro k) ''halt:operator_stop'' '''' (k_now k) (k_log k) of
                (r, m, l) \<Rightarrow> (map_sum id (\<lambda>_. ()) r, k\<lparr>k_micro := m, k_log := l\<rparr>)) k
      else (Inr (), k))"

definition recover_from_degraded :: "bool \<Rightarrow> ('r, bool) kact" where
  \<comment> \<open>the argument is what \<open>_verify_data_integrity\<close> returns\<close>
  "recover_from_degraded verified k =
     (case assert_state (k_macro k) DEGRADED of
        Inl e \<Rightarrow> (Inl e, k)
      | Inr _ \<Rightarrow>
          if k_kill k = Some True then (Inr False, k)
          else if verified then andThen (macro_transition READY ''RECOVERY_VALIDATED'' '''') (\<lambda>_. ok True) k
          else (Inr False, k))"

definition unlock_from_lockdown :: "string \<Rightarrow> ('r, unit) kact" where
  "unlock_from_lockdown audit_token k =
     (case assert_state (k_macro k) RISK_LOCKDOWN of
        Inl e \<Rightarrow> (Inl e, k)
      | Inr _ \<Rightarrow>
          if ps_total_exposure (k_positions k) \<noteq> 0 then (Inl (RuntimeError ''exposure''), k)
          else andThen (macro_transition READY (''FORCED_FLATTEN_COMPLETE:audit:'' @ audit_token) '''')
                 (\<lambda>_. andThen (risk_transition NORMAL (''human_override_audit:'' @ audit_token) '''')
                    (\<lambda>_. modify (\<lambda>k. if k_kill k = Some True then k\<lparr>k_kill := Some False\<rparr> else k))) k)"

definition reset_risk_escalation :: "string \<Rightarrow> ('r, unit) kact" where
  "reset_risk_escalation audit_token k =
     (let level = sm_state (k_risk k) in
      if level = NORMAL then (Inr (), k)
      else if level = LOCKED then (Inl (RuntimeError ''locked''), k)
      else if sm_state (k_macro k) \<in> trading_modes then (Inl (RuntimeError ''trading''), k)
      else if level = FORCED_FLATTEN \<and> ps_total_exposure (k_positions k) \<noteq> 0 then (Inl (RuntimeError ''exposure''), k)
      else (case sm_reset (k_risk k) (''human_risk_reset:'' @ audit_token) '''' (k_now k) (k_log k) of
              (r, m, l) \<Rightarrow> (map_sum id (\<lambda>_. ()) r, k\<lparr>k_risk := m, k_log := l\<rparr>)))"

definition resolve_cancel_requested :: "string \<Rightarrow> ('r, unit) kact" where
  "resolve_cancel_requested oid k =
     (case map_of (k_active k) oid of
        None \<Rightarrow> (Inr (), k)
      | Some (sm, _, o') \<Rightarrow>
          if sm_state sm \<noteq> CANCEL_REQUESTED then (Inr (), k)
          else order_if oid CANCELLED ''shutdown_resolve_cancel_requested'' (ev_correlation o') (ok ()) k)"

definition shutdown_kernel :: "kernel_config \<Rightarrow> 'r router \<Rightarrow> ('r, unit) kact" where
  \<comment> \<open>the feature-snapshot checkpoint and the metrics flush are left out\<close>
  "shutdown_kernel cfg rt =
     andThen (modify (\<lambda>k. case rt_expire_moc rt of None \<Rightarrow> k | Some expire \<Rightarrow> k\<lparr>k_router := expire (k_router k)\<rparr>))
       (\<lambda>_. andThen (drain_async_fills cfg rt ''shutdown'')
       (\<lambda>_. andThen (\<lambda>k. each resolve_cancel_requested (map fst (k_active k)) k)
       (\<lambda>_. andThen (modify prune_terminal_orders)
       (\<lambda>_. andThen (\<lambda>k. if list_ex (\<lambda>(_, (sm, _, _)). sm_state sm \<notin> terminal_order_states) (k_active k)
                         then alert alert_severity.WARNING ''pending_orders_at_shutdown'' '''' k else (Inr (), k))
       (\<lambda>_ k. if can_transition (k_macro k) SHUTDOWN
              then macro_transition SHUTDOWN ''CMD_SHUTDOWN'' ''orchestrator_shutdown'' k else (Inr (), k))))))"

subsection \<open>Every router path is a kernel step\<close>

lemma poll_step: "keeps kernel_step (poll_order_router_acks rt expected)"
  by (rule step.state_keeps) (simp add: poll_order_router_acks_def Let_def split: prod.split sum.split option.split)

lemma settle_step: "keeps kernel_step (settle_router_acks cfg rt cid expected)"
  unfolding settle_router_acks_def
  by (intro step.keeps poll_step apply_acks_step reconcile_fills_step)

lemma submit_router_step: "keeps kernel_step (submit_to_router rt o')"
  by (rule step.state_keeps) (simp add: submit_to_router_def split: prod.split option.split)

lemma reject_after_failure_step: "keeps kernel_step (reject_order_after_submit_failure o' e)"
  unfolding reject_order_after_submit_failure_def
proof (intro step.andThen_keeps alert_step step.state_keeps)
  fix k :: "'a kernel"
  show "kernel_step k (snd (if map_of (k_active k) (or_order_id o') = None then (Inr (), k)
      else andThen (order_if (or_order_id o') REJECTED (''submit_failed:'' @ e) (ev_correlation o') (ok ()))
             (\<lambda>_. modify prune_terminal_orders) k))"
    by (simp add: step.stay step.at_state[OF step.andThen_keeps[OF order_if_step[OF step.ok_keeps] prune_act_step]])
qed

lemma submit_tracked_step: "keeps kernel_step (submit_tracked_order rt o' trigger)"
  unfolding submit_tracked_order_def transition_order_def
  by (intro step.keeps order_transition_step submit_router_step reject_after_failure_step)

lemma force_terminal_step: "keeps kernel_step (force_order_terminal_after_pipeline_error o' e ctxt)"
  unfolding force_order_terminal_after_pipeline_error_def
proof (intro step.andThen_keeps alert_step step.state_keeps)
  fix k :: "'a kernel"
  note go = step.at_state[OF step.andThen_keeps[OF order_transition_step prune_act_step]]
  show "kernel_step k (snd (let oid = or_order_id o'; cid = ev_correlation o'; trigger = ctxt @ ''_pipeline_abort:'' @ e;
          go = (\<lambda>t. andThen (order_transition oid t trigger cid) (\<lambda>_. modify prune_terminal_orders) k)
          in case order_machine_state k oid of
               None \<Rightarrow> (Inr (), k)
             | Some s \<Rightarrow>
                 if s \<in> terminal_order_states then (Inr (), prune_terminal_orders k)
                 else if order_can k oid REJECTED then go REJECTED
                 else if order_can k oid CANCELLED then go CANCELLED
                 else if order_can k oid EXPIRED then go EXPIRED
                 else (Inr (), k)))"
    by (simp add: Let_def go prune_step step.stay split: option.split)
qed

lemma draw_step: "keeps kernel_step draw_seq"
  by (rule step.state_keeps) (simp add: draw_seq_def next_seq_def)

lemma fallback_step: "keeps kernel_step (submit_working_exit_fallback cfg rt s sd qty parent cid)"
  unfolding submit_working_exit_fallback_def
proof (intro step.andThen_keeps draw_step step.state_keeps)
  fix seq and k :: "'a kernel"
  show "kernel_step k (snd (let oid = kc_derive_order_id cfg (parent @ '':working_fallback'');
           o' = kernel_order (k_now k) cid seq oid s sd qty ''__working_exit_fallback__'' ''WORKING_EXIT_FALLBACK''
       in andThen (track_order oid sd o' ''EXIT'')
            (\<lambda>_. andThen (submit_tracked_order rt o' ''submitted'')
               (\<lambda>err. if err \<noteq> None then ok ()
                      else andThen (publish_event (OutOrder o'))
                             (\<lambda>_. alert alert_severity.INFO ''working_exit_market_fallback'' cid))) k))"
    unfolding Let_def
    by (intro step.at_state step.keeps step.if_keeps track_order_step submit_tracked_step publish_event_step alert_step)
qed

lemma escalate_exit_step: "keeps kernel_step (escalate_working_exit cfg rt cid a)"
  by (rule step.state_keeps)
    (simp add: escalate_working_exit_def Let_def step.stay step.after[OF step_fields(5) fallback_step]
      split: option.split prod.split)

lemma drain_step: "keeps kernel_step (drain_async_fills cfg rt cid)"
proof -
  have "keeps kernel_step (escalate_unfilled_working_exits cfg rt acks cid)" for acks
    by (rule step.state_keeps)
      (simp add: escalate_unfilled_working_exits_def step.stay step.at_state[OF step.each_keeps[OF escalate_exit_step]])
  then show ?thesis unfolding drain_async_fills_def by (intro step.keeps step.if_keeps settle_step)
qed

lemma flatten_body_step: "keeps kernel_step (flatten_body cfg rt cid o')"
proof -
  have report: "keeps kernel_step (case err of Some e \<Rightarrow> ok (f e) | None \<Rightarrow> g)" if "keeps kernel_step g" for err f g
    using that by (simp add: step.keeps split: option.split)
  show ?thesis unfolding flatten_body_def Let_def
    by (intro step.andThen_keeps track_order_step submit_tracked_step report publish_event_step settle_step step.ok_keeps)
qed

lemma flatten_failed_step: "keeps kernel_step (flatten_failed o' e)"
  unfolding flatten_failed_def
  by (rule step.state_keeps, rule step.at_state) (intro step.keeps step.if_keeps force_terminal_step)

lemma try_flatten_step: "keeps kernel_step (try_flatten cfg rt cid o')"
  unfolding try_flatten_def by (intro step.catch_keeps flatten_body_step flatten_failed_step)

lemma flatten_symbol_step: "keeps kernel_step (flatten_symbol cfg rt cid s)"
proof (rule step.state_keeps)
  fix k :: "'a kernel"
  have "keeps kernel_step (\<lambda>k. try_flatten cfg rt cid (f k) k)" for f :: "'a kernel \<Rightarrow> order_request"
    by (rule step.state_keeps) (rule step.at_state[OF try_flatten_step])
  then show "kernel_step k (snd (flatten_symbol cfg rt cid s k))"
    unfolding flatten_symbol_def Let_def
    by (simp add: step.stay step.at_state step.andThen_keeps[OF draw_step])
qed

lemma flatten_loop_step: "keeps kernel_step (flatten_loop cfg rt cid ss fs)"
  by (induction ss arbitrary: fs) (simp_all add: step.keeps flatten_symbol_step)

lemma flatten_all_step: "keeps kernel_step (emergency_flatten_all cfg rt cid)"
proof (rule step.state_keeps)
  fix k :: "'a kernel"
  have "keeps kernel_step (\<lambda>k. let residual = residual_positions k in
          andThen (if residual \<noteq> [] \<or> failures \<noteq> [] then alert CRITICAL ''emergency_flatten_incomplete'' cid else ok ())
            (\<lambda>_. ok (failures, residual)) k)" for failures
    by (rule step.state_keeps) (simp add: Let_def step.at_state[OF step.andThen_keeps[OF alert_step step.ok_keeps]] step.stay ok_def)
  then show "kernel_step k (snd (emergency_flatten_all cfg rt cid k))"
    unfolding emergency_flatten_all_def by (intro step.at_state step.andThen_keeps flatten_loop_step)
qed

subsection \<open>Escalation always ends in lockdown\<close>

lemma order_can_go:
  assumes "active_ok k" "order_can k oid t"
  shows "order_transition oid t trigger cid k = (Inr (), moved oid t trigger cid k)"
proof -
  obtain s where s: "order_machine_state k oid = Some s"
    using assms(2) by (cases "order_machine_state k oid") (auto simp: order_can_def order_machine_state_def)
  show ?thesis using order_transition_run[OF assms(1) s] order_can_run[OF assms(1) s] assms(2) by simp
qed

lemma force_terminal_returns:
  assumes "active_ok k"
  shows "fst (force_order_terminal_after_pipeline_error o' e ctxt k) = Inr ()"
proof -
  define k1 where "k1 = k\<lparr>k_log := publish_numbered (OutAlert alert_severity.WARNING ''order_pipeline_exception'' (ev_correlation o')) (k_log k)\<rparr>"
  have "active_ok k1" using assms by (simp add: k1_def active_ok_def)
  note go = order_can_go[OF this]
  have "andThen (alert alert_severity.WARNING ''order_pipeline_exception'' (ev_correlation o')) f k = f () k1"
    for f :: "unit \<Rightarrow> ('a, unit) kact" by (simp add: alert_def k1_def)
  then show ?thesis
    by (auto simp: force_order_terminal_after_pipeline_error_def Let_def go andThen_run modify_def split: option.split)
qed

lemma try_flatten_returns:
  assumes "kernel_ok k"
  shows "\<exists>f. fst (try_flatten cfg rt cid o' k) = Inr f"
proof -
  obtain r k1 where run: "flatten_body cfg rt cid o' k = (r, k1)" by (cases "flatten_body cfg rt cid o' k")
  have "active_ok k1" using keepsD[OF flatten_body_step run] assms by (simp add: kernel_step_def kernel_ok_def)
  then have "\<exists>f. fst (flatten_failed o' e k1) = Inr f" for e
    using force_terminal_returns[of k1 o' "exn_name e" "''emergency_flatten''"]
    by (auto simp: flatten_failed_def andThen_parts ok_def split: sum.split)
  then show ?thesis by (cases r) (simp_all add: try_flatten_def catch_def run)
qed

lemma flatten_symbol_returns: "kernel_ok k \<Longrightarrow> \<exists>f. fst (flatten_symbol cfg rt cid s k) = Inr f"
proof -
  assume k: "kernel_ok k"
  have "kernel_ok (snd (draw_seq k))" using step.at_state[OF draw_step, of k] k by (simp add: kernel_step_def)
  from try_flatten_returns[OF this] show ?thesis
    by (simp add: flatten_symbol_def Let_def andThen_parts draw_seq_def next_seq_def)
qed

lemma flatten_loop_returns: "kernel_ok k \<Longrightarrow> \<exists>fs'. fst (flatten_loop cfg rt cid ss fs k) = Inr fs'"
proof (induction ss arbitrary: k fs)
  case (Cons s ss)
  obtain f k1 where run: "flatten_symbol cfg rt cid s k = (Inr f, k1)"
    using flatten_symbol_returns[OF Cons.prems, of cfg rt cid s] by (cases "flatten_symbol cfg rt cid s k") auto
  have "kernel_ok k1" using keepsD[OF flatten_symbol_step run] Cons.prems by (simp add: kernel_step_def)
  then show ?case using Cons.IH by (simp add: andThen_def run)
qed (simp add: ok_def)

lemma flatten_all_returns:
  assumes "kernel_ok k"
  obtains fs k' where "emergency_flatten_all cfg rt cid k = (Inr (fs, residual_positions k'), k')" "kernel_step k k'"
    "residual_positions k' = [] \<and> fs = [] \<or> (\<exists>n. OutAlert CRITICAL ''emergency_flatten_incomplete'' cid n \<in> set (kl_out (k_log k')))"
proof -
  let ?ss = "sort (map fst (ps_positions (k_positions k)))"
  obtain fs k1 where run: "flatten_loop cfg rt cid ?ss [] k = (Inr fs, k1)"
    using flatten_loop_returns[OF assms, of cfg rt cid ?ss "[]"] by (cases "flatten_loop cfg rt cid ?ss [] k") auto
  have k1: "kernel_step k k1" by (rule keepsD[OF flatten_loop_step run])
  let ?k2 = "snd (alert CRITICAL ''emergency_flatten_incomplete'' cid k1)"
  have res: "residual_positions (k1\<lparr>k_log := l\<rparr>) = residual_positions k1" for l by (simp add: residual_positions_def)
  show ?thesis
  proof (cases "residual_positions k1 \<noteq> [] \<or> fs \<noteq> []")
    case True
    then have "emergency_flatten_all cfg rt cid k = (Inr (fs, residual_positions ?k2), ?k2)"
      by (simp add: emergency_flatten_all_def andThen_def run alert_run ok_def Let_def res)
    moreover have "kernel_step k ?k2" by (rule step.after[OF k1 alert_step])
    ultimately show ?thesis using that by (force simp: alert_run publish_numbered_def next_seq_def publish_def)
  next
    case False
    then have "emergency_flatten_all cfg rt cid k = (Inr (fs, residual_positions k1), k1)"
      by (simp add: emergency_flatten_all_def andThen_def run ok_def Let_def)
    then show ?thesis using that k1 False by blast
  qed
qed

definition risk_ok :: "(risk_level, kernel_log) machine \<Rightarrow> bool" where
  "risk_ok m \<longleftrightarrow> sm_transitions m = risk_transitions \<and> sm_callbacks m = [emit_state_transition OutRiskTransition]"

definition macro_ok :: "(macro_state, kernel_log) machine \<Rightarrow> bool" where
  "macro_ok m \<longleftrightarrow> sm_transitions m = macro_transitions \<and> sm_callbacks m = [emit_state_transition OutMacroTransition]"

definition logged :: "'r kernel \<Rightarrow> kernel_out set" where
  "logged k = set (kl_out (k_log k))"

lemma logged_numbered [simp]: "set (kl_out (publish_numbered f l)) = insert (f (kl_seq l)) (set (kl_out l))"
  by (auto simp: publish_numbered_def next_seq_def publish_def)

lemma risk_run:
  assumes "risk_ok (k_risk k)" "t \<in> the (risk_transitions (sm_state (k_risk k)))"
  obtains m l where "risk_transition t trigger cid k = (Inr (), k\<lparr>k_risk := m, k_log := l\<rparr>)" "risk_ok m" "sm_state m = t"
    "set (kl_out (k_log k)) \<subseteq> set (kl_out l)"
proof -
  let ?r = "new_record (k_risk k) t trigger cid [] (k_now k)"
  have "can_transition (k_risk k) t"
    using assms by (cases "sm_state (k_risk k)") (auto simp: risk_ok_def can_transition_def)
  then have "risk_transition t trigger cid k
      = (Inr (), k\<lparr>k_risk := commit ?r t (k_risk k), k_log := publish_numbered (OutRiskTransition ?r) (k_log k)\<rparr>)"
    using assms(1) by (simp add: risk_transition_def transition_def announce_def risk_ok_def emit_state_transition_def)
  then show ?thesis using that assms(1) by (force simp: risk_ok_def commit_def)
qed

lemma macro_run:
  assumes "macro_ok (k_macro k)"
  shows "t \<in> the (macro_transitions (sm_state (k_macro k))) \<Longrightarrow>
      \<exists>m l. macro_transition t trigger cid k = (Inr (), k\<lparr>k_macro := m, k_log := l\<rparr>) \<and> macro_ok m \<and> sm_state m = t
        \<and> set (kl_out (k_log k)) \<subseteq> set (kl_out l)"
    and "t \<notin> the (macro_transitions (sm_state (k_macro k))) \<Longrightarrow>
      macro_transition t trigger cid k = (Inl (IllegalTransition (sm_name (k_macro k)) trigger), k)"
proof -
  let ?r = "new_record (k_macro k) t trigger cid [] (k_now k)"
  have can: "can_transition (k_macro k) t \<longleftrightarrow> t \<in> the (macro_transitions (sm_state (k_macro k)))"
    using assms by (cases "sm_state (k_macro k)") (auto simp: macro_ok_def can_transition_def)
  show "macro_transition t trigger cid k = (Inl (IllegalTransition (sm_name (k_macro k)) trigger), k)"
    if "t \<notin> the (macro_transitions (sm_state (k_macro k)))"
    using that can by (simp add: macro_transition_def transition_def)
  show "\<exists>m l. macro_transition t trigger cid k = (Inr (), k\<lparr>k_macro := m, k_log := l\<rparr>) \<and> macro_ok m \<and> sm_state m = t
        \<and> set (kl_out (k_log k)) \<subseteq> set (kl_out l)"
    if "t \<in> the (macro_transitions (sm_state (k_macro k)))"
  proof -
    have "macro_transition t trigger cid k
        = (Inr (), k\<lparr>k_macro := commit ?r t (k_macro k), k_log := publish_numbered (OutMacroTransition ?r) (k_log k)\<rparr>)"
      using that can assms by (simp add: macro_transition_def transition_def announce_def macro_ok_def emit_state_transition_def)
    then show ?thesis using assms by (force simp: macro_ok_def commit_def)
  qed
qed

text \<open>One rung of the ladder.\<close>

lemma raise_level_run:
  assumes "kernel_ok k" "risk_ok (k_risk k)" "next' \<in> the (risk_transitions here)"
  shows "\<exists>k' l. raise_level here next' trigger cid (sm_state (k_risk k)) k = (Inr l, k') \<and> kernel_ok k' \<and> risk_ok (k_risk k')
    \<and> sm_state (k_risk k') = l \<and> k_macro k' = k_macro k \<and> k_kill k' = k_kill k
    \<and> l = (if sm_state (k_risk k) = here then next' else sm_state (k_risk k))"
proof (cases "sm_state (k_risk k) = here")
  case True
  obtain m l where "risk_transition next' trigger cid k = (Inr (), k\<lparr>k_risk := m, k_log := l\<rparr>)" "risk_ok m" "sm_state m = next'"
    using risk_run[OF assms(2), of next' trigger cid] assms(3) True by metis
  then show ?thesis using True assms(1) by (simp add: raise_level_def andThen_def ok_def kernel_ok_def active_ok_def)
qed (use assms in \<open>simp add: raise_level_def ok_def\<close>)

text \<open>The three rungs, then the flatten and the lock.\<close>

lemma climb:
  assumes "kernel_ok k" "risk_ok (k_risk k)"
  obtains k' where "kernel_ok k'" "risk_ok (k_risk k')" "k_macro k' = k_macro k" "k_kill k' = k_kill k"
    "sm_state (k_risk k') = (if sm_state (k_risk k) = LOCKED then LOCKED else FORCED_FLATTEN)"
    "\<And>g. andThen (raise_level NORMAL WARNING t1 cid (sm_state (k_risk k)))
       (\<lambda>l1. andThen (raise_level WARNING BREACH_DETECTED t2 cid l1)
       (\<lambda>l2. andThen (raise_level BREACH_DETECTED FORCED_FLATTEN t3 cid l2) g)) k = g (sm_state (k_risk k')) k'"
proof -
  obtain k1 where k1: "raise_level NORMAL WARNING t1 cid (sm_state (k_risk k)) k = (Inr (sm_state (k_risk k1)), k1)"
    "kernel_ok k1" "risk_ok (k_risk k1)" "k_macro k1 = k_macro k" "k_kill k1 = k_kill k"
    "sm_state (k_risk k1) = (if sm_state (k_risk k) = NORMAL then WARNING else sm_state (k_risk k))"
    using raise_level_run[OF assms, of WARNING NORMAL t1 cid] by auto
  obtain k2 where k2: "raise_level WARNING BREACH_DETECTED t2 cid (sm_state (k_risk k1)) k1 = (Inr (sm_state (k_risk k2)), k2)"
    "kernel_ok k2" "risk_ok (k_risk k2)" "k_macro k2 = k_macro k1" "k_kill k2 = k_kill k1"
    "sm_state (k_risk k2) = (if sm_state (k_risk k1) = WARNING then BREACH_DETECTED else sm_state (k_risk k1))"
    using raise_level_run[OF k1(2,3), of BREACH_DETECTED WARNING t2 cid] by auto
  obtain k3 where k3: "raise_level BREACH_DETECTED FORCED_FLATTEN t3 cid (sm_state (k_risk k2)) k2 = (Inr (sm_state (k_risk k3)), k3)"
    "kernel_ok k3" "risk_ok (k_risk k3)" "k_macro k3 = k_macro k2" "k_kill k3 = k_kill k2"
    "sm_state (k_risk k3) = (if sm_state (k_risk k2) = BREACH_DETECTED then FORCED_FLATTEN else sm_state (k_risk k2))"
    using raise_level_run[OF k2(2,3), of FORCED_FLATTEN BREACH_DETECTED t3 cid] by auto
  have "sm_state (k_risk k3) = (if sm_state (k_risk k) = LOCKED then LOCKED else FORCED_FLATTEN)"
    using k1(6) k2(6) k3(6) by (cases "sm_state (k_risk k)") simp_all
  then show ?thesis using that[of k3] k1 k2 k3 by (simp add: andThen_run)
qed

definition flatten_and_lock :: "kernel_config \<Rightarrow> 'r router \<Rightarrow> string \<Rightarrow> risk_level \<Rightarrow> ('r, unit) kact" where
  "flatten_and_lock cfg rt cid level =
     (if level = FORCED_FLATTEN
      then andThen (emergency_flatten_all cfg rt cid)
             (\<lambda>(failures, residual). risk_transition LOCKED
                (if failures = [] \<and> residual = [] then ''positions_zero_flatten_complete''
                 else ''emergency_flatten_incomplete_residual_exposure'') cid)
      else ok ())"

lemma flatten_and_lock_run:
  assumes "kernel_ok k" "risk_ok (k_risk k)" "sm_state (k_risk k) \<in> {FORCED_FLATTEN, LOCKED}"
  obtains k' where "flatten_and_lock cfg rt cid (sm_state (k_risk k)) k = (Inr (), k')" "sm_state (k_risk k') = LOCKED"
    "k_macro k' = k_macro k" "tightened (k_kill k) (k_kill k')"
    "sm_state (k_risk k) = LOCKED \<or> residual_positions k' = []
       \<or> (\<exists>n. OutAlert CRITICAL ''emergency_flatten_incomplete'' cid n \<in> logged k')"
proof (cases "sm_state (k_risk k) = FORCED_FLATTEN")
  case True
  obtain fs k1 where k1: "emergency_flatten_all cfg rt cid k = (Inr (fs, residual_positions k1), k1)" "kernel_step k k1"
    "residual_positions k1 = [] \<and> fs = [] \<or> (\<exists>n. OutAlert CRITICAL ''emergency_flatten_incomplete'' cid n \<in> set (kl_out (k_log k1)))"
    by (rule flatten_all_returns[OF assms(1)])
  then have st: "k_risk k1 = k_risk k" "k_macro k1 = k_macro k" "tightened (k_kill k) (k_kill k1)"
    using assms(1) by (simp_all add: kernel_step_def)
  let ?t = "if fs = [] \<and> residual_positions k1 = [] then ''positions_zero_flatten_complete'' else ''emergency_flatten_incomplete_residual_exposure''"
  have "risk_ok (k_risk k1)" "LOCKED \<in> the (risk_transitions (sm_state (k_risk k1)))" using assms(2) True st(1) by simp_all
  from risk_run[OF this, of ?t cid] obtain m l where m: "risk_transition LOCKED ?t cid k1 = (Inr (), k1\<lparr>k_risk := m, k_log := l\<rparr>)"
    "sm_state m = LOCKED" "set (kl_out (k_log k1)) \<subseteq> set (kl_out l)" by blast
  let ?k = "k1\<lparr>k_risk := m, k_log := l\<rparr>"
  have "flatten_and_lock cfg rt cid (sm_state (k_risk k)) k = (Inr (), ?k)"
    using True m(1) by (simp add: flatten_and_lock_def andThen_def k1(1))
  moreover have "residual_positions ?k = [] \<or> (\<exists>n. OutAlert CRITICAL ''emergency_flatten_incomplete'' cid n \<in> logged ?k)"
    using k1(3) m(3) by (auto simp: residual_positions_def logged_def)
  ultimately show ?thesis using that[of ?k] st m(2) by simp
next
  case False
  then show ?thesis using that[of k] assms by (simp add: flatten_and_lock_def ok_def)
qed

lemma escalation_ends:
  assumes "kernel_ok k" "risk_ok (k_risk k)" "macro_ok (k_macro k)"
  shows "\<exists>r k'. escalate_risk cfg rt cid k = (r, k') \<and> sm_state (k_risk k') = LOCKED
    \<and> (k_kill k \<noteq> None \<longrightarrow> k_kill k' = Some True)
    \<and> (r = Inr () \<longleftrightarrow> sm_state (k_macro k) = PAPER_TRADING_MODE)
    \<and> (r = Inr () \<longrightarrow> sm_state (k_macro k') = RISK_LOCKDOWN)
    \<and> (sm_state (k_risk k) = LOCKED \<or> residual_positions k' = []
       \<or> (\<exists>n. OutAlert CRITICAL ''emergency_flatten_incomplete'' cid n \<in> logged k'))"
proof -
  define kill :: "'a kernel \<Rightarrow> 'a kernel" where "kill = (\<lambda>k. if k_kill k = None then k
      else k\<lparr>k_kill := Some True, k_log := publish_numbered (OutKill ''risk_escalation_lockdown'' ''orchestrator'') (k_log k)\<rparr>)"
  have kill: "k_risk (kill x) = k_risk x" "k_macro (kill x) = k_macro x" "k_positions (kill x) = k_positions x"
    "logged x \<subseteq> logged (kill x)" "k_kill x \<noteq> None \<Longrightarrow> k_kill (kill x) = Some True" for x
    by (auto simp: kill_def residual_positions_def logged_def)
  obtain k3 where k3: "kernel_ok k3" "risk_ok (k_risk k3)" "k_macro k3 = k_macro k" "k_kill k3 = k_kill k"
    "sm_state (k_risk k3) = (if sm_state (k_risk k) = LOCKED then LOCKED else FORCED_FLATTEN)"
    "\<And>g :: risk_level \<Rightarrow> ('a, unit) kact. andThen (raise_level NORMAL WARNING ''risk_threshold_approaching'' cid (sm_state (k_risk k)))
       (\<lambda>l1. andThen (raise_level WARNING BREACH_DETECTED ''risk_breach_confirmed'' cid l1)
       (\<lambda>l2. andThen (raise_level BREACH_DETECTED FORCED_FLATTEN ''forced_flatten_initiated'' cid l2) g)) k = g (sm_state (k_risk k3)) k3"
    using climb[OF assms(1,2), where cid = cid and ?t1.0 = "''risk_threshold_approaching''" and ?t2.0 = "''risk_breach_confirmed''"
        and ?t3.0 = "''forced_flatten_initiated''"] by metis
  obtain k4 where k4: "flatten_and_lock cfg rt cid (sm_state (k_risk k3)) k3 = (Inr (), k4)" "sm_state (k_risk k4) = LOCKED"
    "k_macro k4 = k_macro k3" "tightened (k_kill k3) (k_kill k4)"
    "sm_state (k_risk k3) = LOCKED \<or> residual_positions k4 = []
       \<or> (\<exists>n. OutAlert CRITICAL ''emergency_flatten_incomplete'' cid n \<in> logged k4)"
    using flatten_and_lock_run[OF k3(1,2), of cfg rt cid] k3(5) by (auto split: if_splits)
  have "escalate_risk cfg rt cid k = andThen (flatten_and_lock cfg rt cid (sm_state (k_risk k3)))
      (\<lambda>_. andThen (modify kill) (\<lambda>_. macro_transition RISK_LOCKDOWN ''RISK_BREACH'' cid)) k3"
    unfolding escalate_risk_def flatten_and_lock_def[symmetric] kill_def by (rule k3(6))
  then have run: "escalate_risk cfg rt cid k = macro_transition RISK_LOCKDOWN ''RISK_BREACH'' cid (kill k4)"
    by (simp add: andThen_def k4(1) modify_def)
  have m: "macro_ok (k_macro (kill k4))" "sm_state (k_macro (kill k4)) = sm_state (k_macro k)"
    using assms(3) k4(3) k3(3) by (simp_all add: kill)
  have res: "sm_state (k_risk k) = LOCKED \<or> residual_positions k4 = []
       \<or> (\<exists>n. OutAlert CRITICAL ''emergency_flatten_incomplete'' cid n \<in> logged k4)"
    using k4(5) k3(5) by (auto split: if_splits)
  have on: "k_kill k \<noteq> None \<longrightarrow> k_kill (kill k4) = Some True" using kill(5) k4(4) k3(4) by (auto simp: tightened_def)
  show ?thesis
  proof (cases "sm_state (k_macro k) = PAPER_TRADING_MODE")
    case True
    then obtain m' l where "macro_transition RISK_LOCKDOWN ''RISK_BREACH'' cid (kill k4) = (Inr (), (kill k4)\<lparr>k_macro := m', k_log := l\<rparr>)"
      "sm_state m' = RISK_LOCKDOWN" "set (kl_out (k_log (kill k4))) \<subseteq> set (kl_out l)"
      using macro_run(1)[OF m(1), of RISK_LOCKDOWN "''RISK_BREACH''" cid] m(2) by auto
    then show ?thesis unfolding run using True k4(2) on res kill(4)[of k4]
      by (auto simp: kill residual_positions_def logged_def)
  next
    case False
    then have "RISK_LOCKDOWN \<notin> the (macro_transitions (sm_state (k_macro (kill k4))))"
      unfolding m(2) by (cases "sm_state (k_macro k)") simp_all
    from macro_run(2)[OF m(1) this] show ?thesis unfolding run using False k4(2) on res kill(4)[of k4]
      by (auto simp: kill residual_positions_def logged_def)
  qed
qed

lemma escalate_when_locked:
  assumes "escalate_risk cfg rt cid k = (r, k')" "sm_state (k_risk k) = LOCKED"
  shows "k_positions k' = k_positions k \<and> k_router k' = k_router k \<and> k_active k' = k_active k"
  using assms by (auto simp: escalate_risk_def raise_level_def andThen_def ok_def modify_def macro_transition_def split: prod.splits if_splits)

text \<open>C9: Escalation always ends in lockdown. From any risk level and whatever the router does
  (rejects, raises, fills, answers late), escalating leaves the risk machine LOCKED and a kill
  switch, where one is wired, active. It raises only where the macro table has no edge to
  RISK_LOCKDOWN, that is outside paper trading, and otherwise the macro machine is in
  RISK_LOCKDOWN. From every level but LOCKED, either no symbol has a position left afterwards or a
  critical alert says that the flatten was incomplete; from LOCKED nothing is flattened again:
  positions, orders and router stay as they are. The machines have the kernel's own tables and
  subscribers.\<close>

theorem escalation_locks_down:
  assumes "kernel_ok k" "risk_ok (k_risk k)" "macro_ok (k_macro k)"
  shows "\<exists>r k'. escalate_risk cfg rt cid k = (r, k') \<and> sm_state (k_risk k') = LOCKED
    \<and> (k_kill k \<noteq> None \<longrightarrow> k_kill k' = Some True)
    \<and> (r = Inr () \<longleftrightarrow> sm_state (k_macro k) = PAPER_TRADING_MODE)
    \<and> (r = Inr () \<longrightarrow> sm_state (k_macro k') = RISK_LOCKDOWN)
    \<and> (if sm_state (k_risk k) = LOCKED
       then k_positions k' = k_positions k \<and> k_router k' = k_router k \<and> k_active k' = k_active k
       else residual_positions k' = [] \<or> (\<exists>n. OutAlert CRITICAL ''emergency_flatten_incomplete'' cid n \<in> logged k'))"
  using escalation_ends[OF assms, of cfg rt cid] escalate_when_locked[of cfg rt cid k] by (elim exE) (intro exI, auto)

end
