(* ===== verification/Backtest_Router.thy ===== *)
theory Backtest_Router
  imports Market_Fill Trading_Calendar Forced_Exit
begin

section \<open>The simulated order router (execution/backtest\_router.py, execution/moc\_fill.py,
  execution/moc\_session.py, the entry gate of execution/trading\_session.py)\<close>

text \<open>
  The router of a backtest: acknowledgement, immediate or deferred market fills, the queue of
  market-on-close orders, the refusal of entries outside regular hours, cancellation, expiry and
  polling, with the queues as the source keeps them. A call reads one clock value and the position
  callback from its environment. Reject reasons keep their constant text; the prices and sizes
  that the source prints into them are left out.
\<close>

subsection \<open>State\<close>

record moc_bounds =
  mb_date :: int
  mb_cutoff :: ns
  mb_close :: ns

definition resolve_moc_session_bounds ::
  "calendar \<Rightarrow> int \<Rightarrow> string \<Rightarrow> string \<Rightarrow> bool \<Rightarrow> string \<Rightarrow> string \<Rightarrow> moc_bounds" where
  "resolve_moc_session_bounds cal d cutoff_et close_et early early_cutoff_et early_close_et =
     (if early then \<lparr>mb_date = d, mb_cutoff = ny_clock cal d early_cutoff_et, mb_close = ny_clock cal d early_close_et\<rparr>
      else \<lparr>mb_date = d, mb_cutoff = ny_clock cal d cutoff_et, mb_close = ny_clock cal d close_et\<rparr>)"

definition moc_covers_ns :: "calendar \<Rightarrow> moc_bounds \<Rightarrow> ns \<Rightarrow> bool" where
  "moc_covers_ns cal b ts \<longleftrightarrow> ny_date cal ts = mb_date b"

record pending_moc =
  pm_request :: order_request
  pm_ack_ts :: ns

record deferred_fill =
  df_request :: order_request
  df_deadline :: ns
  df_ack_ts :: ns
  df_ticks :: int

record router_config =
  rc_fill :: fill_config
  rc_latency :: ns
  rc_max_resting :: int
  rc_moc :: "moc_bounds option"
  rc_moc_penalty :: decimal
  rc_session :: "session_bounds option"
  rc_calendar :: calendar

record router_env =
  re_now :: ns
  re_position :: "(symbol \<Rightarrow> int) option"

record bt_router = order_desk +
  br_quotes :: "symbol \<Rightarrow> nbbo_quote option"
  br_deferred :: "deferred_fill list"
  br_moc :: "pending_moc list"
  br_locked :: int
  br_no_quote :: int
  br_duplicate :: int
  br_zero_depth :: int

definition new_bt_router :: bt_router where
  "new_bt_router = \<lparr>od_pending = [], od_ack_seq = 0, od_submitted = {}, br_quotes = (\<lambda>_. None), br_deferred = [],
     br_moc = [], br_locked = 0, br_no_quote = 0, br_duplicate = 0, br_zero_depth = 0\<rparr>"

definition br_reset :: "bt_router \<Rightarrow> bt_router" where
  "br_reset r = r\<lparr>br_quotes := (\<lambda>_. None), od_pending := [], od_submitted := {}, br_deferred := [], br_locked := 0,
     br_no_quote := 0, br_duplicate := 0, br_zero_depth := 0, od_ack_seq := 0, br_moc := []\<rparr>"

text \<open>What the routers share is stated for every extension of this state.\<close>

type_synonym ('z, 'a) ract = "('z bt_router_scheme, 'a) act"

definition br_reject :: "ns \<Rightarrow> order_request \<Rightarrow> string \<Rightarrow> 'z bt_router_scheme \<Rightarrow> 'z bt_router_scheme" where
  "br_reject ts o' reason = append_reject_ack ts o' reason True"

definition push_status :: "ns \<Rightarrow> order_request \<Rightarrow> order_ack_status \<Rightarrow> string \<Rightarrow> 'z bt_router_scheme \<Rightarrow> 'z bt_router_scheme" where
  "push_status ts o' st reason = push_ack (\<lambda>n. router_ack ts n o' st 0 None 0 0 reason)"

subsection \<open>The entry gate\<close>

definition order_opens_or_increases :: "int \<Rightarrow> side \<Rightarrow> int \<Rightarrow> bool" where
  "order_opens_or_increases current sd qty =
     opens_or_increases_signed current (current + (if sd = BUY then qty else - qty))"

definition rth_should_suppress :: "router_config \<Rightarrow> router_env \<Rightarrow> order_request \<Rightarrow> ns \<Rightarrow> string option" where
  "rth_should_suppress cfg env o' ts =
     (case rc_session cfg of
        None \<Rightarrow> None
      | Some b \<Rightarrow>
          let current = (case re_position env of None \<Rightarrow> 0 | Some f \<Rightarrow> f (or_symbol o'))
          in if \<not> order_opens_or_increases current (or_side o') (or_quantity o') then None
             else should_suppress_entry (rc_calendar cfg) ts b True)"

subsection \<open>Market-on-close orders\<close>

type_synonym 'z reject_fn = "ns \<Rightarrow> order_request \<Rightarrow> string \<Rightarrow> 'z bt_router_scheme \<Rightarrow> 'z bt_router_scheme"

definition moc_submit ::
  "'z reject_fn \<Rightarrow> router_config \<Rightarrow> router_env \<Rightarrow> order_request \<Rightarrow> ns \<Rightarrow> 'z bt_router_scheme \<Rightarrow> bool \<times> 'z bt_router_scheme" where
  \<comment> \<open>whether the controller took the order\<close>
  "moc_submit reject cfg env o' exch r =
     (case rc_moc cfg of
        None \<Rightarrow> (False, r)
      | Some b \<Rightarrow>
          if \<not> or_is_moc o' then (False, r)
          else if \<not> moc_covers_ns (rc_calendar cfg) b exch
          then (True, reject (max (re_now env) exch) o' ''MOC_SESSION_DATE_MISMATCH'' r)
          else if mb_cutoff b \<le> exch
          then (True, reject (max (re_now env) exch) o' ''MOC_CUTOFF_MISSED'' r)
          else let r1 = push_status (re_now env) o' ACK_ACKNOWLEDGED '''' r
               in (True, r1\<lparr>br_moc := br_moc r1 @ [\<lparr>pm_request = o', pm_ack_ts = re_now env\<rparr>]\<rparr>))"

definition moc_penalised :: "decimal \<Rightarrow> cost_breakdown \<Rightarrow> (decimal \<times> decimal) result" where
  \<comment> \<open>total fees and cost in basis points of a closing print\<close>
  "moc_penalised bps c =
     (if 0 < bps \<and> 0 < cb_notional c
      then bind_result (cents (dec_add (cb_total_fees c) (dec_div (dec_mul (cb_notional c) bps) 10000))) (\<lambda>fees.
           bind_result (cents (dec_mul (dec_div fees (cb_notional c)) 10000)) (\<lambda>b. Inr (fees, b)))
      else Inr (cb_total_fees c, cb_cost_bps c))"

definition fill_at_close :: "router_config \<Rightarrow> order_request \<Rightarrow> nbbo_quote \<Rightarrow> ns \<Rightarrow> ('z, unit) ract" where
  "fill_at_close cfg o' q ts =
     (let mid = dec_div (dec_add (nq_bid q) (nq_ask q)) 2 in
      andThen (lift_result (fc_cost (rc_fill cfg) (or_symbol o') (or_side o') (or_quantity o') mid 0 True (or_is_short o') None None False))
        (\<lambda>c. andThen (lift_result (moc_penalised (rc_moc_penalty cfg) c))
          (\<lambda>(fees, bps). modify (push_ack (\<lambda>n. router_ack ts n o' ACK_FILLED (or_quantity o') (Some mid) fees bps '''')))))"

definition moc_ripe :: "router_config \<Rightarrow> nbbo_quote \<Rightarrow> pending_moc \<Rightarrow> bool" where
  "moc_ripe cfg q m \<longleftrightarrow>
     (case rc_moc cfg of
        None \<Rightarrow> False
      | Some b \<Rightarrow> or_symbol (pm_request m) = nq_symbol q \<and> mb_close b \<le> nq_exchange_timestamp q \<and> nq_bid q < nq_ask q)"

fun moc_loop :: "router_config \<Rightarrow> nbbo_quote \<Rightarrow> pending_moc list \<Rightarrow> ('z, pending_moc list) ract" where
  \<comment> \<open>the loop of \<open>on_quote\<close>; its result is \<open>remaining\<close>\<close>
  "moc_loop cfg q [] = ok []"
| "moc_loop cfg q (m # ms) =
     (if moc_ripe cfg q m
      then andThen (fill_at_close cfg (pm_request m) q (max (pm_ack_ts m) (nq_exchange_timestamp q))) (\<lambda>_. moc_loop cfg q ms)
      else andThen (moc_loop cfg q ms) (\<lambda>rest. ok (m # rest)))"

definition moc_on_quote :: "router_config \<Rightarrow> nbbo_quote \<Rightarrow> ('z, unit) ract" where
  "moc_on_quote cfg q r =
     (case rc_moc cfg of
        None \<Rightarrow> (Inr (), r)
      | Some b \<Rightarrow>
          if br_moc r = [] \<or> \<not> moc_covers_ns (rc_calendar cfg) b (nq_exchange_timestamp q) then (Inr (), r)
          else andThen (moc_loop cfg q (br_moc r)) (\<lambda>rest. modify (\<lambda>r. r\<lparr>br_moc := rest\<rparr>)) r)"

fun take_pending :: "string \<Rightarrow> pending_moc list \<Rightarrow> (pending_moc \<times> pending_moc list) option" where
  \<comment> \<open>the first entry of an order and the list without it\<close>
  "take_pending oid [] = None"
| "take_pending oid (m # ms) =
     (if or_order_id (pm_request m) = oid then Some (m, ms)
      else map_option (\<lambda>(x, rest). (x, m # rest)) (take_pending oid ms))"

definition moc_cancel_pending :: "router_env \<Rightarrow> string \<Rightarrow> string \<Rightarrow> 'z bt_router_scheme \<Rightarrow> bool \<times> 'z bt_router_scheme" where
  "moc_cancel_pending env oid reason r =
     (case take_pending oid (br_moc r) of
        None \<Rightarrow> (False, r)
      | Some (m, rest) \<Rightarrow>
          (True, (push_status (max (re_now env) (pm_ack_ts m)) (pm_request m) ACK_CANCELLED reason r)\<lparr>br_moc := rest\<rparr>))"

definition moc_expire_unfilled :: "'z reject_fn \<Rightarrow> router_env \<Rightarrow> string \<Rightarrow> 'z bt_router_scheme \<Rightarrow> 'z bt_router_scheme" where
  "moc_expire_unfilled reject env reason r =
     fold (\<lambda>m. reject (max (re_now env) (pm_ack_ts m)) (pm_request m) reason) (br_moc r) (r\<lparr>br_moc := []\<rparr>)"

subsection \<open>Submission and deferred fills\<close>

definition zero_depth_reason :: string where
  "zero_depth_reason = ''zero depth''"

definition acknowledge :: "router_config \<Rightarrow> router_env \<Rightarrow> order_request \<Rightarrow> nbbo_quote \<Rightarrow> (unit, unit) ract" where
  \<comment> \<open>the accepted branch of \<open>submit\<close>: acknowledge, then fill at once or queue\<close>
  "acknowledge cfg env o' q r =
     (let ack_ts = re_now env + rc_latency cfg; r1 = push_status ack_ts o' ACK_ACKNOWLEDGED '''' r in
      if rc_latency cfg \<le> 0
      then if touch_size (or_side o') q \<le> 0
           then (Inr (), br_reject (re_now env) o' zero_depth_reason (r1\<lparr>br_zero_depth := br_zero_depth r1 + 1\<rparr>))
           else append_market_fill_acks (rc_fill cfg) o' q ack_ts r1
      else (Inr (), r1\<lparr>br_deferred := br_deferred r1 @
             [\<lparr>df_request = o', df_deadline = max (re_now env) (nq_exchange_timestamp q) + rc_latency cfg,
               df_ack_ts = ack_ts, df_ticks = 0\<rparr>]\<rparr>))"

definition br_submit :: "router_config \<Rightarrow> router_env \<Rightarrow> order_request \<Rightarrow> nbbo_quote option \<Rightarrow> (unit, unit) ract" where
  "br_submit cfg env o' triggering r =
     (let now = re_now env in
      if or_order_id o' \<in> od_submitted r
      then (Inr (), append_reject_ack now o' (''duplicate order_id: '' @ or_order_id o') False (r\<lparr>br_duplicate := br_duplicate r + 1\<rparr>))
      else
        let r1 = r\<lparr>od_submitted := insert (or_order_id o') (od_submitted r)\<rparr> in
        case (case triggering of Some q \<Rightarrow> Some q | None \<Rightarrow> br_quotes r1 (or_symbol o')) of
          None \<Rightarrow> (Inr (), br_reject now o' ''no quote available for symbol'' (r1\<lparr>br_no_quote := br_no_quote r1 + 1\<rparr>))
        | Some q \<Rightarrow>
            if nq_ask q \<le> nq_bid q
            then (Inr (), br_reject now o' ''crossed or locked quote'' (r1\<lparr>br_locked := br_locked r1 + 1\<rparr>))
            else case rth_should_suppress cfg env o' (nq_exchange_timestamp q) of
                   Some reason \<Rightarrow> (Inr (), br_reject now o' reason r1)
                 | None \<Rightarrow>
                     (case moc_submit br_reject cfg env o' (nq_exchange_timestamp q) r1 of
                        (True, r2) \<Rightarrow> (Inr (), r2)
                      | (False, r2) \<Rightarrow> acknowledge cfg env o' q r2))"

definition flush_one :: "router_config \<Rightarrow> router_env \<Rightarrow> nbbo_quote \<Rightarrow> deferred_fill \<Rightarrow> (unit, deferred_fill list) ract" where
  \<comment> \<open>the loop body of \<open>_flush_deferred_market_fills\<close>: what is left of one entry\<close>
  "flush_one cfg env q dm r =
     (let o' = df_request dm; ticks = df_ticks dm + 1; late = max (re_now env) (df_ack_ts dm) in
      if or_symbol o' \<noteq> nq_symbol q then (Inr [dm], r)
      else if nq_exchange_timestamp q < df_deadline dm
      then if rc_max_resting cfg \<le> ticks then (Inr [], br_reject late o' ''deferred market timeout'' r)
           else (Inr [dm\<lparr>df_ticks := ticks\<rparr>], r)
      else if nq_ask q \<le> nq_bid q then (Inr [], br_reject late o' ''crossed or locked quote'' r)
      else if touch_size (or_side o') q \<le> 0
      then (Inr [], br_reject late o' zero_depth_reason (r\<lparr>br_zero_depth := br_zero_depth r + 1\<rparr>))
      else case rth_should_suppress cfg env o' (nq_exchange_timestamp q) of
             Some reason \<Rightarrow> (Inr [], br_reject (re_now env) o' reason r)
           | None \<Rightarrow> andThen (append_market_fill_acks (rc_fill cfg) o' q late) (\<lambda>_. ok []) r)"

fun flush_loop :: "router_config \<Rightarrow> router_env \<Rightarrow> nbbo_quote \<Rightarrow> deferred_fill list \<Rightarrow> (unit, deferred_fill list) ract" where
  "flush_loop cfg env q [] = ok []"
| "flush_loop cfg env q (dm # dms) =
     andThen (flush_one cfg env q dm) (\<lambda>left. andThen (flush_loop cfg env q dms) (\<lambda>rest. ok (left @ rest)))"

definition flush_deferred_market_fills :: "router_config \<Rightarrow> router_env \<Rightarrow> nbbo_quote \<Rightarrow> (unit, unit) ract" where
  "flush_deferred_market_fills cfg env q r =
     (if br_deferred r = [] then (Inr (), r)
      else andThen (flush_loop cfg env q (br_deferred r)) (\<lambda>rest. modify (\<lambda>r. r\<lparr>br_deferred := rest\<rparr>)) r)"

definition br_on_quote :: "router_config \<Rightarrow> router_env \<Rightarrow> nbbo_quote \<Rightarrow> (unit, unit) ract" where
  "br_on_quote cfg env q =
     andThen (modify (\<lambda>r. r\<lparr>br_quotes := (br_quotes r)(nq_symbol q := Some q)\<rparr>))
       (\<lambda>_. andThen (moc_on_quote cfg q) (\<lambda>_. flush_deferred_market_fills cfg env q))"

definition br_poll :: "bt_router \<Rightarrow> order_ack list \<times> bt_router" where
  "br_poll r = (od_pending r, r\<lparr>od_pending := []\<rparr>)"

definition br_cancel :: "router_config \<Rightarrow> router_env \<Rightarrow> string \<Rightarrow> bt_router \<Rightarrow> bool \<times> bt_router" where
  "br_cancel cfg env oid r = (if rc_moc cfg = None then (False, r) else moc_cancel_pending env oid ''client_cancel'' r)"

definition br_expire :: "router_config \<Rightarrow> router_env \<Rightarrow> string \<Rightarrow> bt_router \<Rightarrow> bt_router" where
  "br_expire cfg env reason r = (if rc_moc cfg = None then r else moc_expire_unfilled br_reject env reason r)"

definition backtest_router :: "router_config \<Rightarrow> router_env \<Rightarrow> bt_router router" where
  \<comment> \<open>the router as the kernel calls it within one clock reading\<close>
  "backtest_router cfg env =
     \<lparr>rt_submit = (\<lambda>o' r. case br_submit cfg env o' None r of (Inl e, r') \<Rightarrow> (Some e, r') | (Inr _, r') \<Rightarrow> (None, r')),
      rt_poll = (\<lambda>r. case br_poll r of (as, r') \<Rightarrow> (Inr as, r')),
      rt_cancel = Some (\<lambda>oid r. case br_cancel cfg env oid r of (b, r') \<Rightarrow> (Inr b, r')),
      rt_expire_moc = Some (br_expire cfg env ''MOC_NO_CLOSE_PRINT'')\<rparr>"

subsection \<open>What a call appends\<close>

definition acks_for :: "string \<Rightarrow> order_ack list \<Rightarrow> order_ack list" where
  "acks_for oid as = filter (\<lambda>a. oa_order_id a = oid) as"

definition shared_filled :: "order_ack list \<Rightarrow> int" where
  "shared_filled as = sum_list (map oa_filled_quantity as)"

definition closing :: "order_request \<times> ns \<Rightarrow> order_ack list \<Rightarrow> bool" where
  \<comment> \<open>the acknowledgements that end an order acknowledged at an instant\<close>
  "closing w xs \<longleftrightarrow> (case w of (o', t) \<Rightarrow>
     (\<forall>a \<in> set xs. oa_order_id a = or_order_id o')
     \<and> map oa_status xs \<in> {[ACK_REJECTED], [ACK_CANCELLED], [ACK_FILLED], [ACK_PARTIALLY_FILLED, ACK_FILLED]}
     \<and> shared_filled xs = (if oa_status (last xs) = ACK_FILLED then or_quantity o' else 0)
     \<and> sorted (t # map ev_timestamp xs))"

inductive settles :: "('e \<Rightarrow> order_request \<times> ns) \<Rightarrow> 'e list \<Rightarrow> 'e list \<Rightarrow> order_ack list \<Rightarrow> bool" for view where
  \<comment> \<open>a queue, what is left of it, and the acknowledgements of the entries that ended\<close>
  Nil: "settles view [] [] []"
| Keep: "settles view es es' xs \<Longrightarrow> view e' = view e \<Longrightarrow> settles view (e # es) (e' # es') xs"
| Close: "settles view es es' ys \<Longrightarrow> closing (view e) xs \<Longrightarrow> settles view (e # es) es' (xs @ ys)"

definition deferred_view :: "deferred_fill \<Rightarrow> order_request \<times> ns" where
  "deferred_view d = (df_request d, df_ack_ts d)"

definition moc_view :: "pending_moc \<Rightarrow> order_request \<times> ns" where
  "moc_view m = (pm_request m, pm_ack_ts m)"

lemma acks_for_append [simp]: "acks_for oid (as @ bs) = acks_for oid as @ acks_for oid bs"
  by (simp add: acks_for_def)

lemma acks_for_other: "(\<And>a. a \<in> set as \<Longrightarrow> oa_order_id a = x) \<Longrightarrow> x \<noteq> oid \<Longrightarrow> acks_for oid as = []"
  by (auto simp: acks_for_def filter_empty_conv)

lemma acks_for_own: "(\<And>a. a \<in> set as \<Longrightarrow> oa_order_id a = oid) \<Longrightarrow> acks_for oid as = as"
  by (simp add: acks_for_def filter_id_conv)

definition queued :: "('e \<Rightarrow> order_request \<times> ns) \<Rightarrow> string \<Rightarrow> 'e list \<Rightarrow> (order_request \<times> ns) list" where
  "queued view oid es = filter (\<lambda>w. or_order_id (fst w) = oid) (map view es)"

lemma queued_simps [simp]:
  "queued view oid [] = []"
  "queued view oid (e # es) = (if or_order_id (fst (view e)) = oid then view e # queued view oid es else queued view oid es)"
  "queued view oid (es @ fs) = queued view oid es @ queued view oid fs"
  by (simp_all add: queued_def)

lemma settles_per_order:
  assumes "settles view es es' xs"
  shows "length (queued view oid es) \<le> 1 \<Longrightarrow> (queued view oid es' = queued view oid es \<and> acks_for oid xs = [])
    \<or> (\<exists>w. queued view oid es = [w] \<and> queued view oid es' = [] \<and> closing w (acks_for oid xs))"
  using assms
proof (induction rule: settles.induct)
  case Nil
  then show ?case by (simp add: acks_for_def)
next
  case (Keep es es' xs e' e)
  then show ?case by (cases "or_order_id (fst (view e)) = oid") auto
next
  case (Close es es' ys e xs)
  have own: "\<And>a. a \<in> set xs \<Longrightarrow> oa_order_id a = or_order_id (fst (view e))"
    using Close.hyps(2) by (auto simp: closing_def split: prod.splits)
  show ?case
  proof (cases "or_order_id (fst (view e)) = oid")
    case True
    then have "queued view oid es = []" using Close.prems by simp
    then have "queued view oid es' = []" "acks_for oid ys = []" using Close.IH by auto
    then show ?thesis using True \<open>queued view oid es = []\<close> Close.hyps(2) acks_for_own[of xs oid] own by simp
  next
    case False
    then show ?thesis using Close.IH Close.prems acks_for_other[OF own] by simp
  qed
qed

definition emits :: "order_ack list \<Rightarrow> 'z bt_router_scheme \<Rightarrow> 'z bt_router_scheme \<Rightarrow> bool" where
  \<comment> \<open>acknowledgements are appended, the queues stay, submitted ids are at most released\<close>
  "emits xs r r' \<longleftrightarrow> od_pending r' = od_pending r @ xs \<and> br_deferred r' = br_deferred r \<and> br_moc r' = br_moc r
     \<and> od_submitted r' \<subseteq> od_submitted r"

lemma emits_refl: "emits [] r r"
  by (simp add: emits_def)

lemma emits_trans: "emits xs r s \<Longrightarrow> emits ys s t \<Longrightarrow> emits (xs @ ys) r t"
  by (auto simp: emits_def)

lemma emits_acks: "emits xs r (append_acks xs r)"
  by (simp add: emits_def append_acks_def)

lemma emits_count:
  "emits xs (r\<lparr>br_zero_depth := n\<rparr>) r' \<Longrightarrow> emits xs r r'" "emits xs (r\<lparr>br_no_quote := n\<rparr>) r' \<Longrightarrow> emits xs r r'"
  "emits xs (r\<lparr>br_locked := n\<rparr>) r' \<Longrightarrow> emits xs r r'"
  by (simp_all add: emits_def)

definition reject_of :: "ns \<Rightarrow> order_request \<Rightarrow> string \<Rightarrow> 'z bt_router_scheme \<Rightarrow> order_ack" where
  "reject_of ts o' reason r = router_ack ts (od_ack_seq r) o' ACK_REJECTED 0 None 0 0 reason"

lemma emits_reject: "emits [reject_of ts o' reason r] r (br_reject ts o' reason r)"
  by (auto simp: emits_def br_reject_def append_reject_ack_def push_ack_def reject_of_def Let_def)

lemma closing_reject: "t \<le> ts \<Longrightarrow> closing (o', t) [reject_of ts o' reason r]"
  by (simp add: closing_def shared_filled_def reject_of_def)

lemma push_status_acks: "push_status ts o' st reason r = append_acks [router_ack ts (od_ack_seq r) o' st 0 None 0 0 reason] r"
  by (simp add: push_status_def push_ack_def append_acks_def)

text \<open>Whatever its prices, a fill that returns ends the order.\<close>

lemma andThen_InrD: "andThen f g s = (Inr y, s') \<Longrightarrow> \<exists>x s1. f s = (Inr x, s1) \<and> g x s1 = (Inr y, s')"
  by (auto simp: andThen_def split: prod.splits sum.splits)

lemma lift_InrD: "andThen (lift_result r) g s = (Inr y, s') \<Longrightarrow> \<exists>x. r = Inr x \<and> g x s = (Inr y, s')"
  by (cases r) (auto simp: andThen_def lift_result_def)

lemma market_fill_closes:
  assumes "append_market_fill_acks cfg o' q ts d = (Inr (), d')" and "t \<le> ts"
  shows "\<exists>xs. d' = append_acks xs d \<and> closing (o', t) xs"
proof -
  let ?depth = "available_depth cfg o' q"
  obtain limit_px where lim: "snapped_limit o' = Inr limit_px"
    using lift_InrD[OF assms(1)[unfolded append_market_fill_acks_def]] by blast
  obtain premium where prem: "within_l1_premium (or_quantity o') ?depth (raw_half_spread q) (fc_within_l1 cfg) (fc_permanent cfg) = Inr premium"
    using within_premium_returns by blast
  note run = assms(1)[unfolded append_market_fill_acks_def Let_def lift_then lim prem]
  obtain px where px: "fill_price_of (or_side o') (touch (or_side o') q) premium limit_px = Inr px"
    using lift_InrD[OF run] by blast
  note run = run[unfolded px lift_then]
  show ?thesis
  proof (cases "?depth < or_quantity o'")
    case False
    obtain c where c: "taker_cost cfg o' q (or_quantity o') px = Inr c"
      using lift_InrD[OF run[unfolded if_not_P[OF False]]] by blast
    let ?as = "[router_ack ts (od_ack_seq d) o' ACK_FILLED (or_quantity o') (Some px) (cb_total_fees c) (cb_cost_bps c) '''']"
    have "d' = append_acks ?as d" using single_fill_run[OF lim False prem px c, of ts d] assms(1) by simp
    moreover have "closing (o', t) ?as" using assms(2) by (simp add: closing_def shared_filled_def)
    ultimately show ?thesis by blast
  next
    case True
    note run = run[unfolded if_P[OF True]]
    obtain c1 where c1: "taker_cost cfg o' q ?depth px = Inr c1" using lift_InrD[OF run] by blast
    note run = run[unfolded c1 lift_then andThen_simps(3) append_excess_fill_def Let_def]
    obtain i where i: "excess_impact cfg (or_quantity o' - ?depth) ?depth (raw_half_spread q) = Inr i" using lift_InrD[OF run] by blast
    note run = run[unfolded i lift_then]
    obtain px2 where p2: "fill_price_of (or_side o') (touch (or_side o') q) (dec_add premium i) limit_px = Inr px2"
      using lift_InrD[OF run] by blast
    note run = run[unfolded p2 lift_then]
    obtain c2 where c2: "taker_cost cfg o' q (or_quantity o' - ?depth) px2 = Inr c2" using lift_InrD[OF run] by blast
    obtain xs where xs: "append_market_fill_acks cfg o' q ts d = (Inr (), append_acks xs d)" "closing (o', t) xs"
      using walked_fill_run[OF lim True prem px c1 i p2 c2, of ts d] assms(2)
      by (elim that) (simp add: closing_def shared_filled_def)
    then show ?thesis using assms(1) by auto
  qed
qed

subsection \<open>What each call does to the queues\<close>

definition timely :: "deferred_fill \<Rightarrow> bool" where
  \<comment> \<open>a deferred order is not eligible before its acknowledgement\<close>
  "timely d \<longleftrightarrow> df_ack_ts d \<le> df_deadline d"

lemma flush_one_settles:
  assumes "flush_one cfg env q dm r = (Inr left, r')" "timely dm" "nq_exchange_timestamp q \<le> re_now env"
  shows "\<exists>xs. emits xs r r' \<and> ((\<exists>dm'. left = [dm'] \<and> xs = [] \<and> deferred_view dm' = deferred_view dm \<and> timely dm')
    \<or> (left = [] \<and> closing (deferred_view dm) xs))"
proof -
  let ?o = "df_request dm" and ?late = "max (re_now env) (df_ack_ts dm)"
  have rej: ?thesis if "(left, r') = ([], br_reject ts ?o reason r2)" "\<And>xs. emits xs r2 r' \<Longrightarrow> emits xs r r'" "df_ack_ts dm \<le> ts" for ts reason r2
    by (rule exI[of _ "[reject_of ts ?o reason r2]"])
      (use that(1,3) that(2)[of "[reject_of ts ?o reason r2]"] emits_reject[of ts ?o reason r2] in
        \<open>simp add: deferred_view_def closing_reject\<close>)
  note run = assms(1)[unfolded flush_one_def Let_def]
  consider (other) "or_symbol ?o \<noteq> nq_symbol q"
    | (old) "or_symbol ?o = nq_symbol q" "nq_exchange_timestamp q < df_deadline dm" "rc_max_resting cfg \<le> df_ticks dm + 1"
    | (waits) "or_symbol ?o = nq_symbol q" "nq_exchange_timestamp q < df_deadline dm" "\<not> rc_max_resting cfg \<le> df_ticks dm + 1"
    | (ripe) "or_symbol ?o = nq_symbol q" "\<not> nq_exchange_timestamp q < df_deadline dm"
    by blast
  then show ?thesis
  proof cases
    case other
    then show ?thesis using run assms(2) emits_refl[of r] by auto
  next
    case old
    then show ?thesis using run by (intro rej[of ?late "''deferred market timeout''" r]) auto
  next
    case waits
    then show ?thesis using run assms(2) emits_refl[of r] by (auto simp: deferred_view_def timely_def)
  next
    case ripe
    then have now: "df_ack_ts dm \<le> re_now env" using assms(2,3) by (simp add: timely_def)
    consider (locked) "nq_ask q \<le> nq_bid q" | (empty) "\<not> nq_ask q \<le> nq_bid q" "touch_size (or_side ?o) q \<le> 0"
      | (gate) reason where "\<not> nq_ask q \<le> nq_bid q" "\<not> touch_size (or_side ?o) q \<le> 0"
          "rth_should_suppress cfg env ?o (nq_exchange_timestamp q) = Some reason"
      | (fill) "\<not> nq_ask q \<le> nq_bid q" "\<not> touch_size (or_side ?o) q \<le> 0"
          "rth_should_suppress cfg env ?o (nq_exchange_timestamp q) = None"
      by fastforce
    then show ?thesis
    proof cases
      case locked
      then show ?thesis using run ripe by (intro rej[of ?late "''crossed or locked quote''" r]) auto
    next
      case empty
      then show ?thesis using run ripe
        by (intro rej[of ?late zero_depth_reason "r\<lparr>br_zero_depth := br_zero_depth r + 1\<rparr>"]) (auto intro: emits_count(1))
    next
      case gate
      then show ?thesis using run ripe now by (intro rej[of "re_now env" reason r]) auto
    next
      case fill
      then have "andThen (append_market_fill_acks (rc_fill cfg) ?o q ?late) (\<lambda>_. ok []) r = (Inr left, r')"
        using run ripe by simp
      from andThen_InrD[OF this] have "append_market_fill_acks (rc_fill cfg) ?o q ?late r = (Inr (), r')" "left = []"
        by (auto simp: ok_def)
      then show ?thesis using market_fill_closes[of "rc_fill cfg" ?o q ?late r r' "df_ack_ts dm"] emits_acks
        by (auto simp: deferred_view_def)
    qed
  qed
qed

lemma flush_loop_settles:
  assumes "flush_loop cfg env q dms r = (Inr rest, r')" "list_all timely dms" "nq_exchange_timestamp q \<le> re_now env"
  shows "\<exists>xs. emits xs r r' \<and> settles deferred_view dms rest xs \<and> list_all timely rest"
  using assms
proof (induction dms arbitrary: r r' rest)
  case Nil
  then show ?case using emits_refl settles.Nil by (auto simp: ok_def)
next
  case (Cons dm dms)
  from andThen_InrD[OF Cons.prems(1)[unfolded flush_loop.simps]] obtain left s where
    one: "flush_one cfg env q dm r = (Inr left, s)"
    and more: "andThen (flush_loop cfg env q dms) (\<lambda>rest. ok (left @ rest)) s = (Inr rest, r')" by blast
  from andThen_InrD[OF more] obtain rest' where
    tail: "flush_loop cfg env q dms s = (Inr rest', r')" "rest = left @ rest'" by (auto simp: ok_def)
  obtain xs where xs: "emits xs r s" "(\<exists>dm'. left = [dm'] \<and> xs = [] \<and> deferred_view dm' = deferred_view dm \<and> timely dm')
    \<or> (left = [] \<and> closing (deferred_view dm) xs)"
    using flush_one_settles[OF one _ Cons.prems(3)] Cons.prems(2) by auto
  obtain ys where ys: "emits ys s r'" "settles deferred_view dms rest' ys" "list_all timely rest'"
    using Cons.IH[OF tail(1) _ Cons.prems(3)] Cons.prems(2) by auto
  have "settles deferred_view (dm # dms) rest (xs @ ys) \<and> list_all timely rest"
    using xs(2) ys(2,3) tail(2) by (auto intro: settles.Keep settles.Close)
  then show ?case using emits_trans[OF xs(1) ys(1)] by blast
qed

lemma settles_same: "settles view es es []"
  by (induction es) (auto intro: settles.intros)

lemma moc_fill_closes:
  assumes "fill_at_close cfg o' q ts r = (Inr (), r')" "t \<le> ts"
  shows "\<exists>xs. r' = append_acks xs r \<and> closing (o', t) xs"
proof -
  obtain c where "andThen (lift_result (moc_penalised (rc_moc_penalty cfg) c))
      (\<lambda>(fees, bps). modify (push_ack (\<lambda>n. router_ack ts n o' ACK_FILLED (or_quantity o') (Some (dec_div (dec_add (nq_bid q) (nq_ask q)) 2)) fees bps ''''))) r = (Inr (), r')"
    using lift_InrD[OF assms(1)[unfolded fill_at_close_def Let_def]] by blast
  from lift_InrD[OF this] obtain fees bps where
    "r' = append_acks [router_ack ts (od_ack_seq r) o' ACK_FILLED (or_quantity o') (Some (dec_div (dec_add (nq_bid q) (nq_ask q)) 2)) fees bps ''''] r"
    by (auto simp: modify_def push_ack_def append_acks_def)
  then show ?thesis using assms(2) by (rule_tac exI, intro conjI) (assumption, simp add: closing_def shared_filled_def)
qed

lemma append_no_acks [simp]: "append_acks [] d = d"
  by (simp add: append_acks_def)

lemma moc_loop_settles:
  assumes "moc_loop cfg q ms r = (Inr rest, r')"
  shows "\<exists>xs. r' = append_acks xs r \<and> settles moc_view ms rest xs"
  using assms
proof (induction ms arbitrary: r r' rest)
  case Nil
  then show ?case by (intro exI[of _ "[]"]) (simp add: settles.Nil ok_def)
next
  case (Cons m ms)
  show ?case
  proof (cases "moc_ripe cfg q m")
    case True
    then obtain s where s: "fill_at_close cfg (pm_request m) q (max (pm_ack_ts m) (nq_exchange_timestamp q)) r = (Inr (), s)"
      "moc_loop cfg q ms s = (Inr rest, r')"
      using andThen_InrD[OF Cons.prems[unfolded moc_loop.simps if_P[OF True]]] by auto
    obtain xs where xs: "s = append_acks xs r" "closing (moc_view m) xs" using moc_fill_closes[OF s(1), of "pm_ack_ts m"] by (auto simp: moc_view_def)
    obtain ys where ys: "r' = append_acks ys s" "settles moc_view ms rest ys" using Cons.IH[OF s(2)] by blast
    show ?thesis using xs(1) ys(1) settles.Close[OF ys(2) xs(2)] by auto
  next
    case False
    from andThen_InrD[OF Cons.prems[unfolded moc_loop.simps if_not_P[OF False]]] obtain rest' where
      "moc_loop cfg q ms r = (Inr rest', r')" "rest = m # rest'" by (auto simp: ok_def)
    then show ?thesis using Cons.IH settles.Keep[of moc_view ms _ _ m m] by blast
  qed
qed

lemma moc_on_quote_effect:
  assumes "moc_on_quote cfg q r = (Inr (), r')"
  shows "\<exists>xs rest. r' = (append_acks xs r)\<lparr>br_moc := rest\<rparr> \<and> settles moc_view (br_moc r) rest xs"
proof (cases "r' = r")
  case True
  then show ?thesis by (intro exI[of _ "[]"] exI[of _ "br_moc r"]) (simp add: settles_same)
next
  case False
  then obtain rest s where s: "moc_loop cfg q (br_moc r) r = (Inr rest, s)" "r' = s\<lparr>br_moc := rest\<rparr>"
    using assms by (auto simp: moc_on_quote_def modify_def split: option.splits if_splits dest!: andThen_InrD)
  then show ?thesis using moc_loop_settles[OF s(1)] by blast
qed

text \<open>The closing-auction queue is handed the rejection routine of its router and relies on nothing but
  that a rejection appends one acknowledgement and leaves the queues alone.\<close>

locale rejecting =
  fixes reject :: "'z reject_fn"
  assumes rejects: "emits [reject_of ts o' reason r] r (reject ts o' reason r)"
begin

lemma expire_settles:
  "\<exists>xs. emits xs r (fold (\<lambda>m. reject (max now (pm_ack_ts m)) (pm_request m) reason) ms r) \<and> settles moc_view ms [] xs"
proof (induction ms arbitrary: r)
  case Nil
  then show ?case using emits_refl settles.Nil by auto
next
  case (Cons m ms)
  let ?s = "reject (max now (pm_ack_ts m)) (pm_request m) reason r"
  obtain ys where ys: "emits ys ?s (fold (\<lambda>m. reject (max now (pm_ack_ts m)) (pm_request m) reason) ms ?s)" "settles moc_view ms [] ys"
    using Cons.IH by blast
  have "closing (moc_view m) [reject_of (max now (pm_ack_ts m)) (pm_request m) reason r]"
    unfolding moc_view_def by (rule closing_reject) simp
  from settles.Close[OF ys(2) this] emits_trans[OF rejects ys(1)] show ?case by auto
qed

lemma moc_submit_effect:
  assumes "moc_submit reject cfg env o' exch r = (True, r')"
  shows "(\<exists>ts reason. r' = reject ts o' reason r)
    \<or> r' = (push_status (re_now env) o' ACK_ACKNOWLEDGED '''' r)\<lparr>br_moc := br_moc r @ [\<lparr>pm_request = o', pm_ack_ts = re_now env\<rparr>]\<rparr>"
  using assms by (auto simp: moc_submit_def Let_def push_status_acks append_acks_def split: option.splits if_splits)

end

interpretation plain: rejecting br_reject
  by unfold_locales (rule emits_reject)

lemma take_pending_settles:
  "take_pending oid ms = Some (m, rest) \<Longrightarrow> or_order_id (pm_request m) = oid \<and> (closing (moc_view m) xs \<longrightarrow> settles moc_view ms rest xs)"
proof (induction ms arbitrary: rest)
  case (Cons m' ms)
  show ?case
  proof (cases "or_order_id (pm_request m') = oid")
    case True
    then show ?thesis using Cons.prems settles.Close[OF settles_same[of moc_view ms], of m' xs] by auto
  next
    case False
    then show ?thesis using Cons by (auto intro: settles.Keep)
  qed
qed simp

subsection \<open>The story of every order\<close>

definition waiting :: "'z bt_router_scheme \<Rightarrow> string \<Rightarrow> (order_request \<times> ns) list" where
  "waiting r oid = queued deferred_view oid (br_deferred r) @ queued moc_view oid (br_moc r)"

definition acked_at :: "order_request \<Rightarrow> ns \<Rightarrow> order_ack \<Rightarrow> bool" where
  "acked_at o' t a \<longleftrightarrow> oa_order_id a = or_order_id o' \<and> oa_status a = ACK_ACKNOWLEDGED \<and> oa_filled_quantity a = 0 \<and> ev_timestamp a = t"

definition refused :: "order_request \<Rightarrow> order_ack list \<Rightarrow> bool" where
  "refused o' as \<longleftrightarrow> (\<exists>a. as = [a] \<and> oa_order_id a = or_order_id o' \<and> oa_status a = ACK_REJECTED \<and> oa_filled_quantity a = 0)"

definition order_story :: "order_request \<Rightarrow> order_ack list \<Rightarrow> (order_request \<times> ns) list \<Rightarrow> bool" where
  \<comment> \<open>refused; or acknowledged and waiting; or acknowledged and then ended exactly once\<close>
  "order_story o' as w \<longleftrightarrow> refused o' as \<and> w = []
     \<or> (\<exists>a t xs. as = a # xs \<and> acked_at o' t a \<and> (if w = [] then closing (o', t) xs else xs = [] \<and> w = [(o', t)]))"

inductive router_reach :: "router_config \<Rightarrow> bt_router \<Rightarrow> order_ack list \<Rightarrow> (string \<Rightarrow> order_request option) \<Rightarrow> bool" for cfg where
  \<comment> \<open>a state of the router, all it has handed out, and the orders it was given\<close>
  Start: "router_reach cfg new_bt_router [] (\<lambda>_. None)"
| Submit: "router_reach cfg r h os \<Longrightarrow> os (or_order_id o') = None \<Longrightarrow> br_submit cfg env o' q r = (Inr (), r')
    \<Longrightarrow> router_reach cfg r' h (os(or_order_id o' := Some o'))"
| Quote: "router_reach cfg r h os \<Longrightarrow> nq_exchange_timestamp q \<le> re_now env \<Longrightarrow> br_on_quote cfg env q r = (Inr (), r')
    \<Longrightarrow> router_reach cfg r' h os"
| Poll: "router_reach cfg r h os \<Longrightarrow> br_poll r = (as, r') \<Longrightarrow> router_reach cfg r' (h @ as) os"
| Cancel: "router_reach cfg r h os \<Longrightarrow> br_cancel cfg env oid r = (b, r') \<Longrightarrow> router_reach cfg r' h os"
| Expire: "router_reach cfg r h os \<Longrightarrow> router_reach cfg (br_expire cfg env reason r) h os"

lemma story_waits_once: "order_story o' as w \<Longrightarrow> length w \<le> 1"
  by (auto simp: order_story_def split: if_splits)

lemma story_closes: "order_story o' as [w] \<Longrightarrow> closing w xs \<Longrightarrow> order_story o' (as @ xs) []"
  by (auto simp: order_story_def)

lemma settle_queue:
  \<comment> \<open>the entries \<open>A\<close> of an order in one queue settle, those \<open>B\<close> in the other stay\<close>
  assumes "(A' = A \<and> ys = []) \<or> (\<exists>w. A = [w] \<and> A' = [] \<and> closing w ys)"
  shows "order_story o' as (A @ B) \<Longrightarrow> order_story o' (as @ ys) (A' @ B)"
    and "order_story o' as (B @ A) \<Longrightarrow> order_story o' (as @ ys) (B @ A')"
proof -
  have only: "length A + length B \<le> 1" if "order_story o' as (A @ B) \<or> order_story o' as (B @ A)"
    using that story_waits_once[of o' as] by fastforce
  show "order_story o' as (A @ B) \<Longrightarrow> order_story o' (as @ ys) (A' @ B)"
    and "order_story o' as (B @ A) \<Longrightarrow> order_story o' (as @ ys) (B @ A')"
    using assms only story_closes[of o' as _ ys] by (fastforce)+
qed

definition tells :: "'z bt_router_scheme \<Rightarrow> order_ack list \<Rightarrow> (string \<Rightarrow> order_request option) \<Rightarrow> string \<Rightarrow> bool" where
  \<comment> \<open>one order's part of the invariant\<close>
  "tells r h os oid \<longleftrightarrow> (case os oid of
      None \<Rightarrow> acks_for oid (h @ od_pending r) = [] \<and> waiting r oid = []
    | Some o' \<Rightarrow> or_order_id o' = oid \<and> order_story o' (acks_for oid (h @ od_pending r)) (waiting r oid))"

definition router_ok :: "bt_router \<Rightarrow> order_ack list \<Rightarrow> (string \<Rightarrow> order_request option) \<Rightarrow> bool" where
  "router_ok r h os \<longleftrightarrow> od_submitted r \<subseteq> dom os \<and> list_all timely (br_deferred r) \<and> (\<forall>oid. tells r h os oid)"

lemma tells_settle:
  assumes "tells r h os oid" "od_pending r' = od_pending r @ xs"
    and part: "settles deferred_view (br_deferred r) (br_deferred r') xs \<and> br_moc r' = br_moc r
      \<or> settles moc_view (br_moc r) (br_moc r') xs \<and> br_deferred r' = br_deferred r"
  shows "tells r' h os oid"
proof -
  let ?D = "queued deferred_view oid" and ?M = "queued moc_view oid"
  have "length (waiting r oid) \<le> 1" using assms(1) by (cases "os oid") (auto simp: tells_def dest: story_waits_once)
  then have len: "length (?D (br_deferred r)) \<le> 1" "length (?M (br_moc r)) \<le> 1" by (simp_all add: waiting_def)
  have moved: "((?D (br_deferred r') = ?D (br_deferred r) \<and> acks_for oid xs = [])
        \<or> (\<exists>w. ?D (br_deferred r) = [w] \<and> ?D (br_deferred r') = [] \<and> closing w (acks_for oid xs))) \<and> br_moc r' = br_moc r
      \<or> ((?M (br_moc r') = ?M (br_moc r) \<and> acks_for oid xs = [])
        \<or> (\<exists>w. ?M (br_moc r) = [w] \<and> ?M (br_moc r') = [] \<and> closing w (acks_for oid xs))) \<and> br_deferred r' = br_deferred r"
    using part settles_per_order[OF _ len(1)] settles_per_order[OF _ len(2)] by blast
  show ?thesis
  proof (cases "os oid")
    case None
    then show ?thesis using assms(1,2) moved by (auto simp: tells_def waiting_def)
  next
    case (Some o')
    then have story: "order_story o' (acks_for oid (h @ od_pending r)) (?D (br_deferred r) @ ?M (br_moc r))" "or_order_id o' = oid"
      using assms(1) by (simp_all add: tells_def waiting_def)
    have "order_story o' (acks_for oid (h @ od_pending r) @ acks_for oid xs) (?D (br_deferred r') @ ?M (br_moc r'))"
      using moved story(1) settle_queue[where o' = o'] by metis
    then show ?thesis using Some story(2) assms(2) by (simp add: tells_def waiting_def)
  qed
qed

lemma router_ok_settle:
  assumes "router_ok r h os" "od_pending r' = od_pending r @ xs" "od_submitted r' \<subseteq> od_submitted r" "list_all timely (br_deferred r')"
    and "settles deferred_view (br_deferred r) (br_deferred r') xs \<and> br_moc r' = br_moc r
      \<or> settles moc_view (br_moc r) (br_moc r') xs \<and> br_deferred r' = br_deferred r"
  shows "router_ok r' h os"
  using assms tells_settle[OF _ assms(2,5)] by (auto simp: router_ok_def)

lemma router_ok_cong:
  assumes "router_ok r h os" "h @ od_pending r = h' @ od_pending r'" "od_submitted r' = od_submitted r"
    "br_deferred r' = br_deferred r" "br_moc r' = br_moc r"
  shows "router_ok r' h' os"
proof -
  have "tells r' h' os oid = tells r h os oid" for oid unfolding tells_def waiting_def assms(2,4,5) ..
  then show ?thesis using assms(1,3,4) by (simp add: router_ok_def)
qed

lemma moc_on_quote_ok:
  assumes "router_ok r h os" "moc_on_quote cfg q r = (Inr (), r')"
  shows "router_ok r' h os"
proof -
  obtain xs rest where x: "r' = (append_acks xs r)\<lparr>br_moc := rest\<rparr>" "settles moc_view (br_moc r) rest xs"
    using moc_on_quote_effect[OF assms(2)] by blast
  then show ?thesis using assms(1) by (intro router_ok_settle[OF assms(1), of _ xs]) (auto simp: append_acks_def router_ok_def)
qed

lemma flush_ok:
  assumes "router_ok r h os" "nq_exchange_timestamp q \<le> re_now env" "flush_deferred_market_fills cfg env q r = (Inr (), r')"
  shows "router_ok r' h os"
proof (cases "r' = r")
  case False
  then obtain rest s where s: "flush_loop cfg env q (br_deferred r) r = (Inr rest, s)" "r' = s\<lparr>br_deferred := rest\<rparr>"
    using assms(3) by (auto simp: flush_deferred_market_fills_def modify_def split: if_splits dest!: andThen_InrD)
  have "list_all timely (br_deferred r)" using assms(1) by (simp add: router_ok_def)
  from flush_loop_settles[OF s(1) this assms(2)]
  obtain xs where "emits xs r s" "settles deferred_view (br_deferred r) rest xs" "list_all timely rest" by blast
  then show ?thesis using s(2) by (intro router_ok_settle[OF assms(1), of _ xs]) (auto simp: emits_def)
qed (use assms in simp)

lemma on_quote_ok:
  assumes "router_ok r h os" "nq_exchange_timestamp q \<le> re_now env" "br_on_quote cfg env q r = (Inr (), r')"
  shows "router_ok r' h os"
proof -
  let ?r = "r\<lparr>br_quotes := (br_quotes r)(nq_symbol q := Some q)\<rparr>"
  obtain s where s: "moc_on_quote cfg q ?r = (Inr (), s)" "flush_deferred_market_fills cfg env q s = (Inr (), r')"
    using assms(3) by (auto simp: br_on_quote_def dest!: andThen_InrD)
  have "router_ok ?r h os" by (rule router_ok_cong[OF assms(1)]) simp_all
  then show ?thesis using flush_ok[OF moc_on_quote_ok[OF _ s(1)] assms(2) s(2)] by blast
qed

lemma cancel_ok:
  assumes "router_ok r h os" "br_cancel cfg env oid r = (b, r')"
  shows "router_ok r' h os"
proof (cases "rc_moc cfg = None \<or> take_pending oid (br_moc r) = None")
  case True
  then have "r' = r" using assms(2) by (auto simp: br_cancel_def moc_cancel_pending_def split: if_splits)
  then show ?thesis using assms(1) by simp
next
  case False
  then obtain m rest where m: "take_pending oid (br_moc r) = Some (m, rest)" by auto
  let ?a = "router_ack (max (re_now env) (pm_ack_ts m)) (od_ack_seq r) (pm_request m) ACK_CANCELLED 0 None 0 0 ''client_cancel''"
  have r': "r' = (append_acks [?a] r)\<lparr>br_moc := rest\<rparr>"
    using assms(2) False m by (auto simp: br_cancel_def moc_cancel_pending_def push_status_acks)
  have "closing (moc_view m) [?a]" by (simp add: closing_def moc_view_def shared_filled_def)
  then have "settles moc_view (br_moc r) rest [?a]" using take_pending_settles[OF m] by blast
  then show ?thesis using assms(1) r'
    by (intro router_ok_settle[OF assms(1), of _ "[?a]"]) (auto simp: append_acks_def router_ok_def)
qed

lemma expire_ok: "router_ok r h os \<Longrightarrow> router_ok (br_expire cfg env reason r) h os"
proof -
  assume ok: "router_ok r h os"
  let ?s = "r\<lparr>br_moc := []\<rparr>" and ?r' = "moc_expire_unfilled br_reject env reason r"
  from plain.expire_settles[of ?s "re_now env" reason "br_moc r"]
  obtain xs where "emits xs ?s ?r'" "settles moc_view (br_moc r) [] xs" by (auto simp: moc_expire_unfilled_def)
  then have "router_ok ?r' h os" using ok by (intro router_ok_settle[OF ok, of _ xs]) (auto simp: emits_def router_ok_def)
  then show ?thesis using ok by (simp add: br_expire_def)
qed

definition first_step :: "order_request \<Rightarrow> bt_router \<Rightarrow> bt_router \<Rightarrow> bool" where
  \<comment> \<open>a fresh order enters: its acknowledgements and at most one waiting entry\<close>
  "first_step o' r r' \<longleftrightarrow> (\<exists>xs D M. od_pending r' = od_pending r @ xs \<and> (\<forall>a \<in> set xs. oa_order_id a = or_order_id o')
     \<and> br_deferred r' = br_deferred r @ D \<and> br_moc r' = br_moc r @ M \<and> list_all timely D
     \<and> (\<forall>w \<in> set (map deferred_view D @ map moc_view M). fst w = o')
     \<and> od_submitted r' \<subseteq> insert (or_order_id o') (od_submitted r)
     \<and> order_story o' xs (map deferred_view D @ map moc_view M))"

lemma first_step_reject:
  assumes "emits xs s r'" "xs = [reject_of ts o' reason s']" "br_deferred s = br_deferred r" "br_moc s = br_moc r"
    "od_pending s = od_pending r" "od_submitted s = insert (or_order_id o') (od_submitted r)"
  shows "first_step o' r r'"
  using assms unfolding first_step_def
  by (intro exI[of _ xs] exI[of _ "[]"]) (auto simp: emits_def order_story_def refused_def reject_of_def)

lemma first_step_waits:
  assumes "od_pending r' = od_pending r @ [a]" "acked_at o' t a" "br_deferred r' = br_deferred r @ D" "br_moc r' = br_moc r @ M"
    "map deferred_view D @ map moc_view M = [(o', t)]" "list_all timely D" "od_submitted r' = insert (or_order_id o') (od_submitted r)"
  shows "first_step o' r r'"
  unfolding first_step_def assms(5)
  by (intro exI[of _ "[a]"] exI[of _ D] exI[of _ M])
    (use assms in \<open>auto simp: order_story_def acked_at_def\<close>)

lemma first_step_fills:
  assumes "od_pending r' = od_pending r @ a # xs" "acked_at o' t a" "closing (o', t) xs" "br_deferred r' = br_deferred r" "br_moc r' = br_moc r"
    "od_submitted r' \<subseteq> insert (or_order_id o') (od_submitted r)"
  shows "first_step o' r r'"
  unfolding first_step_def
  by (intro exI[of _ "a # xs"] exI[of _ "[]"])
    (use assms in \<open>auto simp: order_story_def acked_at_def closing_def\<close>)

lemma acked_status: "acked_at o' t (router_ack t n o' ACK_ACKNOWLEDGED 0 None 0 0 '''')"
  by (simp add: acked_at_def)

lemma acknowledge_first_step:
  assumes "acknowledge cfg env o' q s = (Inr (), r')" "s = r\<lparr>od_submitted := insert (or_order_id o') (od_submitted r)\<rparr>"
  shows "first_step o' r r'"
proof -
  let ?t = "re_now env + rc_latency cfg"
  let ?a = "router_ack ?t (od_ack_seq s) o' ACK_ACKNOWLEDGED 0 None 0 0 ''''"
  let ?s = "append_acks [?a] s"
  note run = assms(1)[unfolded acknowledge_def Let_def push_status_acks]
  consider (latent) "\<not> rc_latency cfg \<le> 0" | (empty) "rc_latency cfg \<le> 0" "touch_size (or_side o') q \<le> 0"
    | (fill) "rc_latency cfg \<le> 0" "\<not> touch_size (or_side o') q \<le> 0" by blast
  then show ?thesis
  proof cases
    case latent
    then show ?thesis using run assms(2)
      by (intro first_step_waits[where t = ?t and a = ?a and M = "[]", OF _ acked_status])
        (auto simp: append_acks_def deferred_view_def timely_def)
  next
    case empty
    let ?z = "?s\<lparr>br_zero_depth := br_zero_depth ?s + 1\<rparr>"
    have "emits [reject_of (re_now env) o' zero_depth_reason ?z] ?z r'" using run empty emits_reject by auto
    then show ?thesis using assms(2) empty
      by (intro first_step_fills[where t = ?t and a = ?a, OF _ acked_status closing_reject])
        (auto simp: emits_def append_acks_def)
  next
    case fill
    then obtain xs where "r' = append_acks xs ?s" "closing (o', ?t) xs"
      using run market_fill_closes[of "rc_fill cfg" o' q ?t ?s r' ?t] by auto
    then show ?thesis using assms(2)
      by (intro first_step_fills[where t = ?t and a = ?a, OF _ acked_status]) (auto simp: append_acks_def)
  qed
qed

lemma moc_first_step:
  assumes "moc_submit br_reject cfg env o' exch s = (True, r')" "s = r\<lparr>od_submitted := insert (or_order_id o') (od_submitted r)\<rparr>"
  shows "first_step o' r r'"
proof -
  from plain.moc_submit_effect[OF assms(1)] show ?thesis
  proof
    assume "\<exists>ts reason. r' = br_reject ts o' reason s"
    then show ?thesis using assms(2) first_step_reject[OF emits_reject refl, of s] by auto
  next
    assume "r' = (push_status (re_now env) o' ACK_ACKNOWLEDGED '''' s)\<lparr>br_moc := br_moc s @ [\<lparr>pm_request = o', pm_ack_ts = re_now env\<rparr>]\<rparr>"
    then show ?thesis using assms(2)
      by (intro first_step_waits[where t = "re_now env" and D = "[]", OF _ acked_status])
        (auto simp: append_acks_def moc_view_def push_status_acks)
  qed
qed

lemma submit_first_step:
  assumes "br_submit cfg env o' trig r = (Inr (), r')" "or_order_id o' \<notin> od_submitted r"
  shows "first_step o' r r'"
proof -
  let ?r = "r\<lparr>od_submitted := insert (or_order_id o') (od_submitted r)\<rparr>"
  note run = assms(1)[unfolded br_submit_def Let_def if_not_P[OF assms(2)]]
  have rej: "first_step o' r (br_reject ts o' reason s)"
    if "s = ?r \<or> s = ?r\<lparr>br_no_quote := br_no_quote ?r + 1\<rparr> \<or> s = ?r\<lparr>br_locked := br_locked ?r + 1\<rparr>" for ts reason s
    using that by (intro first_step_reject[OF emits_reject refl]) auto
  consider (some) q where "(case trig of Some q \<Rightarrow> Some q | None \<Rightarrow> br_quotes ?r (or_symbol o')) = Some q" | (none)
    "(case trig of Some q \<Rightarrow> Some q | None \<Rightarrow> br_quotes ?r (or_symbol o')) = None" by (metis option.exhaust)
  then show ?thesis
  proof cases
    case none
    then show ?thesis using run rej by auto
  next
    case some
    note run = run[unfolded some option.case]
    consider (locked) "nq_ask q \<le> nq_bid q" | (gate) reason where "\<not> nq_ask q \<le> nq_bid q" "rth_should_suppress cfg env o' (nq_exchange_timestamp q) = Some reason"
      | (moc) s where "\<not> nq_ask q \<le> nq_bid q" "rth_should_suppress cfg env o' (nq_exchange_timestamp q) = None"
          "moc_submit br_reject cfg env o' (nq_exchange_timestamp q) ?r = (True, s)"
      | (market) s where "\<not> nq_ask q \<le> nq_bid q" "rth_should_suppress cfg env o' (nq_exchange_timestamp q) = None"
          "moc_submit br_reject cfg env o' (nq_exchange_timestamp q) ?r = (False, s)"
      by (metis (full_types) option.exhaust surj_pair)
    then show ?thesis
    proof cases
      case moc
      then show ?thesis using run moc_first_step[OF moc(3) refl] by simp
    next
      case market
      then have "s = ?r" by (auto simp: moc_submit_def Let_def split: option.splits if_splits)
      then show ?thesis using run market acknowledge_first_step[of cfg env o' q ?r r' r] by simp
    qed (use run rej in auto)
  qed
qed

lemma submit_ok:
  assumes ok: "router_ok r h os" and fresh: "os (or_order_id o') = None" and step: "first_step o' r r'"
  shows "router_ok r' h (os(or_order_id o' := Some o'))"
proof -
  obtain xs D M where s: "od_pending r' = od_pending r @ xs" "\<forall>a \<in> set xs. oa_order_id a = or_order_id o'"
    "br_deferred r' = br_deferred r @ D" "br_moc r' = br_moc r @ M" "list_all timely D"
    "\<forall>w \<in> set (map deferred_view D @ map moc_view M). fst w = o'"
    "od_submitted r' \<subseteq> insert (or_order_id o') (od_submitted r)" "order_story o' xs (map deferred_view D @ map moc_view M)"
    using step by (auto simp: first_step_def)
  have own: "queued deferred_view (or_order_id o') D = map deferred_view D" "queued moc_view (or_order_id o') M = map moc_view M"
    using s(6) by (auto simp: queued_def filter_id_conv)
  have other: "queued deferred_view oid D = []" "queued moc_view oid M = []" "acks_for oid xs = []" if "oid \<noteq> or_order_id o'" for oid
    using that s(2,6) by (auto simp: queued_def filter_empty_conv acks_for_def)
  have "tells r' h (os(or_order_id o' := Some o')) oid" for oid
  proof (cases "oid = or_order_id o'")
    case True
    have "tells r h os (or_order_id o')" using ok by (simp add: router_ok_def)
    then have "acks_for (or_order_id o') (h @ od_pending r) = []" "waiting r (or_order_id o') = []"
      using fresh by (simp_all add: tells_def)
    then show ?thesis using True s(1-4,8) own by (simp add: tells_def waiting_def acks_for_own)
  next
    case False
    have "tells r h os oid" using ok by (simp add: router_ok_def)
    then show ?thesis using False s(1,3,4) other[OF False] by (simp add: tells_def waiting_def split: option.splits)
  qed
  then show ?thesis using ok s(3,5,7) by (auto simp: router_ok_def)
qed

lemma router_reach_ok: "router_reach cfg r h os \<Longrightarrow> router_ok r h os"
proof (induction rule: router_reach.induct)
  case Start
  show ?case by (simp add: router_ok_def new_bt_router_def tells_def waiting_def acks_for_def)
next
  case (Submit r h os o' env q r')
  then have "or_order_id o' \<notin> od_submitted r" by (auto simp: router_ok_def)
  then show ?case using Submit submit_first_step submit_ok by blast
next
  case (Quote r h os q env r')
  then show ?case using on_quote_ok by blast
next
  case (Poll r h os as r')
  then show ?case by (intro router_ok_cong[OF Poll.IH]) (auto simp: br_poll_def)
next
  case (Cancel r h os env oid b r')
  then show ?case using cancel_ok by blast
next
  case (Expire r h os env reason)
  then show ?case by (simp add: expire_ok)
qed

lemma story_terminal:
  assumes "order_story o' as w"
  shows "fold ack_result (map oa_status as) SUBMITTED \<in> terminal_order_states \<longleftrightarrow> w = []"
proof -
  have ends: "fold ack_result (map oa_status xs) ACKNOWLEDGED \<in> terminal_order_states" if "closing (o', t) xs" for xs t
    using that by (auto simp: closing_def ack_result_def terminal_order_states_def)
  have "ack_result ACK_ACKNOWLEDGED SUBMITTED = ACKNOWLEDGED" "ack_result ACK_REJECTED SUBMITTED \<in> terminal_order_states"
    by (simp_all add: ack_result_def terminal_order_states_def)
  moreover have "ACKNOWLEDGED \<notin> terminal_order_states" by (simp add: terminal_order_states_def)
  ultimately show ?thesis using assms ends by (auto simp: order_story_def refused_def acked_at_def split: if_splits)
qed

text \<open>C24: The simulated router tells the story of every order exactly once. Whatever calls are made in whatever
  order (fresh submissions, quotes, polls, cancellations, expiries), an order it was given was
  refused with one rejection, or acknowledged and still waits in one queue, or acknowledged and
  then ended once: rejected, cancelled, or filled for exactly its quantity, in time order. Following
  these acknowledgements, the kernel's order table reaches a terminal state exactly when the
  router no longer holds the order.\<close>

theorem router_tells_each_order_once:
  assumes "router_reach cfg r h os" and "os oid = Some o'"
  shows "order_story o' (acks_for oid (h @ od_pending r)) (waiting r oid)
    \<and> (fold ack_result (map oa_status (acks_for oid (h @ od_pending r))) SUBMITTED \<in> terminal_order_states \<longleftrightarrow> waiting r oid = [])"
proof -
  have "tells r h os oid" using router_reach_ok[OF assms(1)] by (simp add: router_ok_def)
  then have "order_story o' (acks_for oid (h @ od_pending r)) (waiting r oid)" using assms(2) by (simp add: tells_def)
  then show ?thesis using story_terminal by blast
qed

subsection \<open>Calls return\<close>

definition fillable :: "router_config \<Rightarrow> order_request \<Rightarrow> nbbo_quote \<Rightarrow> bool" where
  \<comment> \<open>every fill of the order on the quote that the router may attempt is priced\<close>
  "fillable cfg o' q \<longleftrightarrow> 0 < or_quantity o' \<and> priceable (rc_fill cfg) o' q \<and> cost_returns (rc_fill cfg) o' q"

lemma fillable_returns:
  assumes "fillable cfg o' q" "\<not> touch_size (or_side o') q \<le> 0"
  shows "\<exists>d'. append_market_fill_acks (rc_fill cfg) o' q ts d = (Inr (), d')"
  using market_fill_completes[of "rc_fill cfg" o' q ts d] assms by (auto simp: fillable_def)

lemma submit_returns:
  assumes "\<And>q'. (case trig of Some q \<Rightarrow> Some q | None \<Rightarrow> br_quotes r (or_symbol o')) = Some q' \<Longrightarrow> nq_bid q' < nq_ask q' \<Longrightarrow> fillable cfg o' q'"
  shows "\<exists>r'. br_submit cfg env o' trig r = (Inr (), r')"
proof -
  have "\<exists>r'. acknowledge cfg env o' q s = (Inr (), r')" if "fillable cfg o' q" for q s
    using fillable_returns[OF that] by (auto simp: acknowledge_def Let_def)
  moreover have "\<exists>b s'. moc_submit br_reject cfg env o' t s = (b, s')" for t s by (cases "moc_submit br_reject cfg env o' t s") auto
  ultimately show ?thesis using assms
    by (auto simp: br_submit_def Let_def split: option.splits prod.splits bool.splits)
qed

lemma flush_returns:
  assumes "\<And>dm. dm \<in> set dms \<Longrightarrow> nq_bid q < nq_ask q \<Longrightarrow> fillable cfg (df_request dm) q"
  shows "\<exists>rest r'. flush_loop cfg env q dms r = (Inr rest, r')"
  using assms
proof (induction dms arbitrary: r)
  case (Cons dm dms)
  have "\<exists>left s. flush_one cfg env q dm r = (Inr left, s)"
    using fillable_returns[OF Cons.prems[of dm], of "max (re_now env) (df_ack_ts dm)" r]
    by (auto simp: flush_one_def Let_def andThen_def ok_def split: option.splits)
  then obtain left s where "flush_one cfg env q dm r = (Inr left, s)" by blast
  moreover obtain rest r' where "flush_loop cfg env q dms s = (Inr rest, r')" using Cons by (meson list.set_intros(2))
  ultimately show ?case by (simp add: andThen_def ok_def)
qed (simp add: ok_def)

text \<open>Without a closing-auction queue a quote never raises while the deferred orders are priced.\<close>

lemma on_quote_returns:
  assumes "rc_moc cfg = None" "\<And>dm. dm \<in> set (br_deferred r) \<Longrightarrow> nq_bid q < nq_ask q \<Longrightarrow> fillable cfg (df_request dm) q"
  shows "\<exists>r'. br_on_quote cfg env q r = (Inr (), r')"
  using flush_returns[of "br_deferred r" q cfg env "r\<lparr>br_quotes := (br_quotes r)(nq_symbol q := Some q)\<rparr>"] assms
  by (auto simp: br_on_quote_def moc_on_quote_def flush_deferred_market_fills_def modify_def andThen_def)

subsection \<open>A deferred order, filled by the first eligible quote\<close>

definition sample_router_config :: router_config where
  "sample_router_config = \<lparr>rc_fill = sample_fill_config, rc_latency = 100, rc_max_resting = 50, rc_moc = None,
     rc_moc_penalty = 0, rc_session = None, rc_calendar = \<lparr>ny_date = (\<lambda>_. 0), ny_clock = (\<lambda>_ _. 0)\<rparr>\<rparr>"

definition later_quote :: nbbo_quote where
  "later_quote = sample_market_quote\<lparr>nq_exchange_timestamp := 200\<rparr>"

lemma later_fillable: "fillable sample_router_config sample_buy later_quote"
proof -
  have "sane_quote later_quote" "raw_half_spread later_quote = raw_half_spread sample_market_quote"
    using sample_quote_sane by (simp_all add: later_quote_def sane_quote_def raw_half_spread_def)
  moreover have "available_depth sample_fill_config sample_buy later_quote = available_depth sample_fill_config sample_buy sample_market_quote"
    by (simp add: available_depth_def touch_size_def later_quote_def)
  moreover have "cost_returns sample_fill_config sample_buy later_quote"
    by (simp add: cost_returns_def taker_cost_def sample_fill_config_def zero_cost_def)
  moreover have "0 < or_quantity sample_buy" by (simp add: sample_buy_def)
  ultimately show ?thesis using sample_priceable by (simp add: fillable_def sample_router_config_def priceable_def)
qed

lemma router_tells_witness:
  "\<exists>r. router_reach sample_router_config r [] [''o1'' \<mapsto> sample_buy] \<and> waiting r ''o1'' = []
    \<and> fold ack_result (map oa_status (acks_for ''o1'' (od_pending r))) SUBMITTED \<in> terminal_order_states"
proof -
  let ?env = "\<lparr>re_now = 10, re_position = None\<rparr>" and ?later = "\<lparr>re_now = 200, re_position = None\<rparr>"
  define r1 where "r1 = snd (br_submit sample_router_config ?env sample_buy (Some sample_market_quote) new_bt_router)"
  have id: "or_order_id sample_buy = ''o1''" by (simp add: sample_buy_def)
  have one: "br_submit sample_router_config ?env sample_buy (Some sample_market_quote) new_bt_router = (Inr (), r1)"
    "br_deferred r1 = [\<lparr>df_request = sample_buy, df_deadline = 110, df_ack_ts = 110, df_ticks = 0\<rparr>]" "br_moc r1 = []"
    unfolding r1_def
    by (simp_all add: br_submit_def new_bt_router_def sample_market_quote_def rth_should_suppress_def sample_router_config_def
        moc_submit_def acknowledge_def push_status_acks append_acks_def Let_def)
  have reach: "router_reach sample_router_config r1 [] [''o1'' \<mapsto> sample_buy]"
    using router_reach.Submit[OF router_reach.Start _ one(1)] by (simp add: id)
  let ?r1 = "r1\<lparr>br_quotes := (br_quotes r1)(nq_symbol later_quote := Some later_quote)\<rparr>"
  have facts: "or_symbol sample_buy = nq_symbol later_quote" "nq_exchange_timestamp later_quote = 200" "\<not> nq_ask later_quote \<le> nq_bid later_quote"
    "\<not> touch_size (or_side sample_buy) later_quote \<le> 0" "rth_should_suppress sample_router_config ?later sample_buy 200 = None"
    "rc_moc sample_router_config = None"
    by (simp_all add: sample_buy_def later_quote_def sample_market_quote_def touch_size_def rth_should_suppress_def sample_router_config_def)
  obtain r2 where r2: "append_market_fill_acks (rc_fill sample_router_config) sample_buy later_quote 200 ?r1 = (Inr (), r2)"
    using fillable_returns[OF later_fillable facts(4)] by blast
  then have "br_moc r2 = []" using market_fill_closes[OF r2 order_refl] one(3) by (auto simp: append_acks_def)
  then have done': "waiting (r2\<lparr>br_deferred := []\<rparr>) ''o1'' = []" by (simp add: waiting_def)
  have "br_on_quote sample_router_config ?later later_quote r1 = (Inr (), r2\<lparr>br_deferred := []\<rparr>)"
    using r2 one(2) facts
    by (simp add: br_on_quote_def moc_on_quote_def flush_deferred_market_fills_def flush_one_def modify_def andThen_def ok_def Let_def)
  from router_reach.Quote[OF reach _ this] facts(2)
  have reach2: "router_reach sample_router_config (r2\<lparr>br_deferred := []\<rparr>) [] [''o1'' \<mapsto> sample_buy]" by simp
  show ?thesis using router_tells_each_order_once[OF reach2, of "''o1''" sample_buy] reach2 done' by auto
qed

end
