(* ===== verification/Event_Store.thy ===== *)
theory Event_Store
  imports Fill_Reconciliation Cost_Model "HOL-Library.Product_Lexorder" "HOL-Library.Countable" "HOL-Library.Multiset"
begin

section \<open>The tape: identifiers, serialization, event log, replay and cache\<close>

text \<open>
  How market events are stored and come back: the JSON form of an event
  (core/serialization.py), the canonical merge order and the renumbering of a merged tape
  (storage/event\_resequence.py), the append-only log with its order guard
  (storage/memory\_event\_log.py), the replay feed and its clock (ingestion/replay\_feed.py) and the
  disk cache with its two files (storage/disk\_event\_cache.py). What the standard library does
  (text of decimals, JSON, gzip, SHA-256) is a parameter, a record of functions whose documented
  round trips are hypotheses. Locks and log messages are left out.
\<close>

subsection \<open>Identifiers (core/identifiers.py)\<close>

definition make_correlation_id :: "symbol \<Rightarrow> ns \<Rightarrow> int \<Rightarrow> string" where
  "make_correlation_id sy ts n = sy @ '':'' @ show_int ts @ '':'' @ show_int n"

record sequence_generator =
  sg_start :: int
  sg_counter :: int

definition new_sequence :: "int \<Rightarrow> sequence_generator" where
  "new_sequence start = \<lparr>sg_start = start, sg_counter = start\<rparr>"

definition next_sequence :: "sequence_generator \<Rightarrow> int \<times> sequence_generator" where
  "next_sequence g = (sg_counter g, g\<lparr>sg_counter := sg_counter g + 1\<rparr>)"

definition reset_sequence :: "sequence_generator \<Rightarrow> sequence_generator" where
  "reset_sequence g = g\<lparr>sg_counter := sg_start g\<rparr>"

subsection \<open>Serialization (core/serialization.py)\<close>

datatype json =
    JNull | JBool bool | JInt int | JFloat rat | JStr string | JList "json list" | JObj "(string \<times> json) list"

instance json :: countable
  by countable_datatype

type_synonym json_dict = "(string \<times> json) list"

record codec =
  cd_show :: "decimal \<Rightarrow> string"              \<comment> \<open>\<open>str\<close> of a decimal\<close>
  cd_parse :: "string \<Rightarrow> decimal option"       \<comment> \<open>\<open>Decimal\<close> of a string\<close>
  cd_dumps :: "json \<Rightarrow> string"
  cd_dumps_indented :: "json \<Rightarrow> string"
  cd_loads :: "string \<Rightarrow> json option"
  cd_gzip :: "string \<Rightarrow> string"
  cd_gunzip :: "string \<Rightarrow> string option"
  cd_sha :: "string \<Rightarrow> string"

fun opt_int :: "int option \<Rightarrow> json" where
  "opt_int None = JNull"
| "opt_int (Some n) = JInt n"

definition ints :: "int list \<Rightarrow> json" where
  "ints ns = JList (map JInt ns)"

definition event_fields :: "('a event_scheme) \<Rightarrow> json_dict" where
  "event_fields e = [(''timestamp_ns'', JInt (ev_timestamp e)), (''correlation_id'', JStr (ev_correlation e)),
     (''sequence'', JInt (ev_sequence e)), (''source_layer'', JStr (ev_source_layer e)), (''schema_version'', JInt (ev_schema_version e))]"

definition quote_fields :: "codec \<Rightarrow> nbbo_quote \<Rightarrow> json_dict" where
  "quote_fields c q = event_fields q @
     [(''symbol'', JStr (nq_symbol q)), (''bid'', JStr (cd_show c (nq_bid q))), (''ask'', JStr (cd_show c (nq_ask q))),
      (''bid_size'', JInt (nq_bid_size q)), (''ask_size'', JInt (nq_ask_size q)), (''bid_exchange'', JInt (nq_bid_exchange q)),
      (''ask_exchange'', JInt (nq_ask_exchange q)), (''exchange_timestamp_ns'', JInt (nq_exchange_timestamp q)),
      (''conditions'', ints (nq_conditions q)), (''indicators'', ints (nq_indicators q)), (''sequence_number'', JInt (nq_sequence_number q)),
      (''tape'', JInt (nq_tape q)), (''participant_timestamp_ns'', opt_int (nq_participant_timestamp q)),
      (''trf_timestamp_ns'', opt_int (nq_trf_timestamp q)), (''received_ns'', opt_int (nq_received q))]"

definition trade_fields :: "codec \<Rightarrow> trade \<Rightarrow> json_dict" where
  "trade_fields c t = event_fields t @
     [(''symbol'', JStr (td_symbol t)), (''price'', JStr (cd_show c (td_price t))), (''size'', JInt (td_size t)),
      (''exchange'', JInt (td_exchange t)), (''trade_id'', JStr (td_trade_id t)), (''exchange_timestamp_ns'', JInt (td_exchange_timestamp t)),
      (''conditions'', ints (td_conditions t)), (''decimal_size'', (case td_decimal_size t of None \<Rightarrow> JNull | Some s \<Rightarrow> JStr s)),
      (''sequence_number'', JInt (td_sequence_number t)), (''tape'', JInt (td_tape t)), (''trf_id'', opt_int (td_trf_id t)),
      (''trf_timestamp_ns'', opt_int (td_trf_timestamp t)), (''participant_timestamp_ns'', opt_int (td_participant_timestamp t)),
      (''correction'', opt_int (td_correction t)), (''received_ns'', opt_int (td_received t))]"

definition event_to_dict :: "codec \<Rightarrow> market_event \<Rightarrow> json_dict" where
  "event_to_dict c e = (case e of
     Quote_Event q \<Rightarrow> [(''__type__'', JStr ''NBBOQuote''), (''__schema_version__'', JInt 1)] @ quote_fields c q
   | Trade_Event t \<Rightarrow> [(''__type__'', JStr ''Trade''), (''__schema_version__'', JInt 1)] @ trade_fields c t)"

text \<open>Reading a field: an absent one takes its default or makes the record incomplete. A value of the
  wrong JSON type, which Python would store as it is, has no counterpart in the typed records.\<close>

definition ill_typed :: "'a result" where
  "ill_typed = Inl (OtherException ''ill-typed field'')"

definition read_field :: "(json \<Rightarrow> 'a result) \<Rightarrow> 'a option \<Rightarrow> json_dict \<Rightarrow> string \<Rightarrow> 'a result" where
  "read_field f dflt d name = (case map_of d name of
     Some v \<Rightarrow> f v
   | None \<Rightarrow> (case dflt of Some x \<Rightarrow> Inr x | None \<Rightarrow> Inl (ValueError ''cannot reconstruct'')))"

fun read_int :: "json \<Rightarrow> int result" where
  "read_int (JInt n) = Inr n" | "read_int _ = ill_typed"

fun read_str :: "json \<Rightarrow> string result" where
  "read_str (JStr s) = Inr s" | "read_str _ = ill_typed"

fun read_opt_int :: "json \<Rightarrow> int option result" where
  "read_opt_int JNull = Inr None" | "read_opt_int (JInt n) = Inr (Some n)" | "read_opt_int _ = ill_typed"

fun read_opt_str :: "json \<Rightarrow> string option result" where
  "read_opt_str JNull = Inr None" | "read_opt_str (JStr s) = Inr (Some s)" | "read_opt_str _ = ill_typed"

fun read_all :: "(json \<Rightarrow> 'a result) \<Rightarrow> json list \<Rightarrow> 'a list result" where
  "read_all f [] = Inr []"
| "read_all f (v # vs) = bind_result (f v) (\<lambda>x. bind_result (read_all f vs) (\<lambda>xs. Inr (x # xs)))"

fun read_ints :: "json \<Rightarrow> int list result" where
  "read_ints (JList vs) = read_all read_int vs" | "read_ints _ = ill_typed"

definition parse_decimal :: "codec \<Rightarrow> string \<Rightarrow> decimal result" where
  "parse_decimal c s = (case cd_parse c s of None \<Rightarrow> Inl InvalidOperation | Some x \<Rightarrow> Inr x)"

fun read_decimal :: "codec \<Rightarrow> json \<Rightarrow> decimal result" where
  "read_decimal c (JStr s) = parse_decimal c s"
| "read_decimal c (JInt n) = parse_decimal c (show_int n)"
| "read_decimal c (JFloat x) = Inr (decimal_of_repr x)"
| "read_decimal c (JBool b) = Inl InvalidOperation"
| "read_decimal c (JList vs) = Inl InvalidOperation"
| "read_decimal c (JObj d) = Inl InvalidOperation"
| "read_decimal c JNull = ill_typed"

definition decimal_first :: "codec \<Rightarrow> json_dict \<Rightarrow> string \<Rightarrow> unit result" where
  \<comment> \<open>the loop over the fields converts decimals before anything is built\<close>
  "decimal_first c d name = (case map_of d name of
     None \<Rightarrow> Inr () | Some JNull \<Rightarrow> Inr () | Some v \<Rightarrow> bind_result (read_decimal c v) (\<lambda>_. Inr ()))"

definition read_quote :: "codec \<Rightarrow> json_dict \<Rightarrow> nbbo_quote result" where
  "read_quote c d =
     bind_result (decimal_first c d ''bid'') (\<lambda>_. bind_result (decimal_first c d ''ask'') (\<lambda>_.
     bind_result (read_field read_int None d ''timestamp_ns'') (\<lambda>ts.
     bind_result (read_field read_str None d ''correlation_id'') (\<lambda>cid.
     bind_result (read_field read_int None d ''sequence'') (\<lambda>n.
     bind_result (read_field read_str (Some ''UNKNOWN'') d ''source_layer'') (\<lambda>layer.
     bind_result (read_field read_int (Some schema_version) d ''schema_version'') (\<lambda>ver.
     bind_result (read_field read_str None d ''symbol'') (\<lambda>sy.
     bind_result (read_field (read_decimal c) None d ''bid'') (\<lambda>bid.
     bind_result (read_field (read_decimal c) None d ''ask'') (\<lambda>ask.
     bind_result (read_field read_int None d ''bid_size'') (\<lambda>bs.
     bind_result (read_field read_int None d ''ask_size'') (\<lambda>as.
     bind_result (read_field read_int (Some 0) d ''bid_exchange'') (\<lambda>bx.
     bind_result (read_field read_int (Some 0) d ''ask_exchange'') (\<lambda>ax.
     bind_result (read_field read_int None d ''exchange_timestamp_ns'') (\<lambda>ets.
     bind_result (read_field read_ints (Some []) d ''conditions'') (\<lambda>cs.
     bind_result (read_field read_ints (Some []) d ''indicators'') (\<lambda>is.
     bind_result (read_field read_int (Some 0) d ''sequence_number'') (\<lambda>sn.
     bind_result (read_field read_int (Some 0) d ''tape'') (\<lambda>tp.
     bind_result (read_field read_opt_int (Some None) d ''participant_timestamp_ns'') (\<lambda>pts.
     bind_result (read_field read_opt_int (Some None) d ''trf_timestamp_ns'') (\<lambda>tts.
     bind_result (read_field read_opt_int (Some None) d ''received_ns'') (\<lambda>rns.
       Inr \<lparr>ev_timestamp = ts, ev_correlation = cid, ev_sequence = n, ev_source_layer = layer, ev_schema_version = ver,
         nq_symbol = sy, nq_bid = bid, nq_ask = ask, nq_bid_size = bs, nq_ask_size = as, nq_bid_exchange = bx, nq_ask_exchange = ax,
         nq_exchange_timestamp = ets, nq_conditions = cs, nq_indicators = is, nq_sequence_number = sn, nq_tape = tp,
         nq_participant_timestamp = pts, nq_trf_timestamp = tts, nq_received = rns\<rparr>))))))))))))))))))))))"

definition read_trade :: "codec \<Rightarrow> json_dict \<Rightarrow> trade result" where
  "read_trade c d =
     bind_result (decimal_first c d ''price'') (\<lambda>_.
     bind_result (read_field read_int None d ''timestamp_ns'') (\<lambda>ts.
     bind_result (read_field read_str None d ''correlation_id'') (\<lambda>cid.
     bind_result (read_field read_int None d ''sequence'') (\<lambda>n.
     bind_result (read_field read_str (Some ''UNKNOWN'') d ''source_layer'') (\<lambda>layer.
     bind_result (read_field read_int (Some schema_version) d ''schema_version'') (\<lambda>ver.
     bind_result (read_field read_str None d ''symbol'') (\<lambda>sy.
     bind_result (read_field (read_decimal c) None d ''price'') (\<lambda>price.
     bind_result (read_field read_int None d ''size'') (\<lambda>sz.
     bind_result (read_field read_int (Some 0) d ''exchange'') (\<lambda>ex.
     bind_result (read_field read_str (Some '''') d ''trade_id'') (\<lambda>tid.
     bind_result (read_field read_int None d ''exchange_timestamp_ns'') (\<lambda>ets.
     bind_result (read_field read_ints (Some []) d ''conditions'') (\<lambda>cs.
     bind_result (read_field read_opt_str (Some None) d ''decimal_size'') (\<lambda>ds.
     bind_result (read_field read_int (Some 0) d ''sequence_number'') (\<lambda>sn.
     bind_result (read_field read_int (Some 0) d ''tape'') (\<lambda>tp.
     bind_result (read_field read_opt_int (Some None) d ''trf_id'') (\<lambda>trf.
     bind_result (read_field read_opt_int (Some None) d ''trf_timestamp_ns'') (\<lambda>tts.
     bind_result (read_field read_opt_int (Some None) d ''participant_timestamp_ns'') (\<lambda>pts.
     bind_result (read_field read_opt_int (Some None) d ''correction'') (\<lambda>cor.
     bind_result (read_field read_opt_int (Some None) d ''received_ns'') (\<lambda>rns.
       Inr \<lparr>ev_timestamp = ts, ev_correlation = cid, ev_sequence = n, ev_source_layer = layer, ev_schema_version = ver,
         td_symbol = sy, td_price = price, td_size = sz, td_exchange = ex, td_trade_id = tid, td_exchange_timestamp = ets,
         td_conditions = cs, td_decimal_size = ds, td_sequence_number = sn, td_tape = tp, td_trf_id = trf, td_trf_timestamp = tts,
         td_participant_timestamp = pts, td_correction = cor, td_received = rns\<rparr>)))))))))))))))))))))"

definition dict_to_event :: "codec \<Rightarrow> json_dict \<Rightarrow> market_event result" where
  "dict_to_event c d =
     (if map_of d ''__schema_version__'' \<notin> {Some (JInt 1), Some (JFloat 1), Some (JBool True)} then Inl (ValueError ''schema version'')
      else if map_of d ''__type__'' = Some (JStr ''NBBOQuote'') then bind_result (read_quote c d) (\<lambda>q. Inr (Quote_Event q))
      else if map_of d ''__type__'' = Some (JStr ''Trade'') then bind_result (read_trade c d) (\<lambda>t. Inr (Trade_Event t))
      else Inl (ValueError ''event type''))"

definition serialize :: "codec \<Rightarrow> market_event \<Rightarrow> string" where
  "serialize c e = cd_dumps c (JObj (event_to_dict c e))"

definition deserialize :: "codec \<Rightarrow> string \<Rightarrow> market_event result" where
  "deserialize c s = (case cd_loads c s of
     None \<Rightarrow> Inl (ValueError ''corrupt event bytes'')
   | Some (JObj d) \<Rightarrow> dict_to_event c d
   | Some _ \<Rightarrow> Inl (ValueError ''expected a JSON object''))"

subsection \<open>Merge order (storage/event\_resequence.py)\<close>

type_synonym merge_key = "ns \<times> symbol \<times> int \<times> int"

fun event_merge_sort_key :: "market_event \<Rightarrow> merge_key" where
  "event_merge_sort_key (Quote_Event q) = (nq_exchange_timestamp q, nq_symbol q, 0, ev_sequence q)"
| "event_merge_sort_key (Trade_Event t) = (td_exchange_timestamp t, td_symbol t, 1, ev_sequence t)"

fun restamp :: "int \<Rightarrow> market_event \<Rightarrow> market_event" where
  "restamp n (Quote_Event q) = Quote_Event (q\<lparr>ev_sequence := n, ev_correlation := make_correlation_id (nq_symbol q) (nq_exchange_timestamp q) n\<rparr>)"
| "restamp n (Trade_Event t) = Trade_Event (t\<lparr>ev_sequence := n, ev_correlation := make_correlation_id (td_symbol t) (td_exchange_timestamp t) n\<rparr>)"

definition renumber :: "market_event list \<Rightarrow> market_event list" where
  "renumber es = map (\<lambda>(n, e). restamp (int n) e) (enumerate 0 es)"

definition resequence_event_list :: "market_event list \<Rightarrow> market_event list" where
  "resequence_event_list es = renumber (sort_key event_merge_sort_key es)"

subsection \<open>The event log (storage/memory\_event\_log.py)\<close>

datatype 'x row = Market market_event | Other_Row int 'x  \<comment> \<open>any other event, with its sequence number\<close>

fun row_sequence :: "'x row \<Rightarrow> int" where
  "row_sequence (Market (Quote_Event q)) = ev_sequence q"
| "row_sequence (Market (Trade_Event t)) = ev_sequence t"
| "row_sequence (Other_Row n x) = n"

record 'x event_log =
  el_events :: "'x row list"
  el_last_key :: "merge_key option"
  el_enforce :: bool

definition new_log :: "bool \<Rightarrow> 'x event_log" where
  "new_log enforce = \<lparr>el_events = [], el_last_key = None, el_enforce = enforce\<rparr>"

definition reset_log :: "'x event_log \<Rightarrow> 'x event_log" where
  "reset_log l = l\<lparr>el_last_key := None\<rparr>"

definition enforce_market_order :: "'x row \<Rightarrow> 'x event_log \<Rightarrow> unit result \<times> 'x event_log" where
  "enforce_market_order row l = (case row of
     Other_Row _ _ \<Rightarrow> (Inr (), l)
   | Market e \<Rightarrow> (let key = event_merge_sort_key e in
       if el_enforce l \<and> (case el_last_key l of None \<Rightarrow> False | Some k \<Rightarrow> key < k) then (Inl (OtherException ''CausalityViolation''), l)
       else (Inr (), l\<lparr>el_last_key := Some key\<rparr>)))"

definition append_row :: "'x row \<Rightarrow> 'x event_log \<Rightarrow> unit result \<times> 'x event_log" where
  "append_row row l = (case enforce_market_order row l of
     (Inl e, l') \<Rightarrow> (Inl e, l') | (Inr _, l') \<Rightarrow> (Inr (), l'\<lparr>el_events := el_events l' @ [row]\<rparr>))"

fun fill_market :: "'x row list \<Rightarrow> market_event list \<Rightarrow> 'x row list" where
  \<comment> \<open>put the sorted market events back at the market indices\<close>
  "fill_market (Market e # rows) (m # ms) = Market m # fill_market rows ms"
| "fill_market (Other_Row n x # rows) ms = Other_Row n x # fill_market rows ms"
| "fill_market rows ms = rows"

definition market_rows :: "'x row list \<Rightarrow> market_event list" where
  "market_rows rows = concat (map (\<lambda>r. case r of Market e \<Rightarrow> [e] | _ \<Rightarrow> []) rows)"

definition stabilize_market_slice :: "'x row list \<Rightarrow> 'x row list" where
  "stabilize_market_slice rows = fill_market rows (sort_key event_merge_sort_key (market_rows rows))"

fun enforce_all :: "'x row list \<Rightarrow> 'x event_log \<Rightarrow> unit result \<times> 'x event_log" where
  "enforce_all [] l = (Inr (), l)"
| "enforce_all (r # rs) l = (case enforce_market_order r l of (Inl e, l') \<Rightarrow> (Inl e, l') | (Inr _, l') \<Rightarrow> enforce_all rs l')"

definition append_batch :: "'x row list \<Rightarrow> 'x event_log \<Rightarrow> unit result \<times> 'x event_log" where
  "append_batch rows l = (let rs = stabilize_market_slice rows in
     case enforce_all rs l of (Inl e, l') \<Rightarrow> (Inl e, l') | (Inr _, l') \<Rightarrow> (Inr (), l'\<lparr>el_events := el_events l' @ rs\<rparr>))"

definition replace_events :: "'x row list \<Rightarrow> 'x event_log \<Rightarrow> unit result \<times> 'x event_log" where
  "replace_events rows l = (let rs = stabilize_market_slice rows in
     case enforce_all rs (l\<lparr>el_last_key := None\<rparr>) of (Inl e, l') \<Rightarrow> (Inl e, l') | (Inr _, l') \<Rightarrow> (Inr (), l'\<lparr>el_events := rs\<rparr>))"

text \<open>The loops of \<open>bisect\<close>: the part left of the answer is left of the probe or not.\<close>

function bisect :: "(nat \<Rightarrow> bool) \<Rightarrow> nat \<Rightarrow> nat \<Rightarrow> nat" where
  "bisect goes_right lo hi =
     (if lo < hi then (let mid = (lo + hi) div 2 in if goes_right mid then bisect goes_right (mid + 1) hi else bisect goes_right lo mid) else lo)"
  by pat_completeness auto

termination bisect
  by (relation "measure (\<lambda>(_, lo, hi). hi - lo)") auto

declare bisect.simps [simp del]

definition bisect_left :: "int list \<Rightarrow> int \<Rightarrow> nat" where
  "bisect_left xs x = bisect (\<lambda>i. xs ! i < x) 0 (length xs)"

definition bisect_right :: "int list \<Rightarrow> int \<Rightarrow> nat" where
  "bisect_right xs x = bisect (\<lambda>i. \<not> x < xs ! i) 0 (length xs)"

definition replay :: "int \<Rightarrow> int option \<Rightarrow> 'x event_log \<Rightarrow> 'x row list" where
  "replay start stop l =
     (let seqs = map row_sequence (el_events l); i = bisect_left seqs start in
      case stop of None \<Rightarrow> drop i (el_events l) | Some n \<Rightarrow> drop i (take (bisect_right seqs n) (el_events l)))"

definition last_sequence :: "'x event_log \<Rightarrow> int" where
  "last_sequence l = (if el_events l = [] then -1 else row_sequence (last (el_events l)))"

subsection \<open>The replay feed (ingestion/replay\_feed.py)\<close>

fun exchange_time :: "market_event \<Rightarrow> ns" where
  "exchange_time (Quote_Event q) = nq_exchange_timestamp q"
| "exchange_time (Trade_Event t) = td_exchange_timestamp t"

definition market_data_visible_at_ns :: "ns \<Rightarrow> ns \<Rightarrow> ns" where
  "market_data_visible_at_ns ts latency = ts + latency"

fun feed_events :: "ns \<Rightarrow> merge_key option \<Rightarrow> ns \<Rightarrow> 'x row list \<Rightarrow> (market_event \<times> ns) list \<times> exn option" where
  \<comment> \<open>what is yielded, with the time of the simulated clock at that moment, and what ends the feed\<close>
  "feed_events latency last_key now [] = ([], None)"
| "feed_events latency last_key now (Other_Row n x # rows) = feed_events latency last_key now rows"
| "feed_events latency last_key now (Market e # rows) =
     (let key = event_merge_sort_key e in
      if (case last_key of None \<Rightarrow> False | Some k \<Rightarrow> key < k) then ([], Some (OtherException ''CausalityViolation''))
      else let visible = market_data_visible_at_ns (exchange_time e) latency; now' = (if now < visible then visible else now)
           in apfst (Cons (e, now')) (feed_events latency (Some key) now' rows))"

definition replay_feed :: "ns \<Rightarrow> ns \<Rightarrow> int \<Rightarrow> int option \<Rightarrow> 'x event_log \<Rightarrow> (market_event \<times> ns) list \<times> exn option" where
  "replay_feed latency now start stop l = feed_events latency None now (replay start stop l)"

subsection \<open>The disk cache (storage/disk\_event\_cache.py)\<close>

text \<open>The files of one symbol and day. A save is four file operations. A crash stops it between two of
  them or inside a write; a rename is atomic. Nothing is synced, so a power loss may cut any file.\<close>

record cache_files =
  cf_data :: "string option"
  cf_manifest :: "string option"
  cf_data_tmp :: "string option"
  cf_manifest_tmp :: "string option"

datatype file_op = Write_Data_Tmp string | Rename_Data | Write_Manifest_Tmp string | Rename_Manifest

fun file_step :: "file_op \<Rightarrow> cache_files \<Rightarrow> cache_files" where
  "file_step (Write_Data_Tmp s) f = f\<lparr>cf_data_tmp := Some s\<rparr>"
| "file_step Rename_Data f = f\<lparr>cf_data := cf_data_tmp f, cf_data_tmp := None\<rparr>"
| "file_step (Write_Manifest_Tmp s) f = f\<lparr>cf_manifest_tmp := Some s\<rparr>"
| "file_step Rename_Manifest f = f\<lparr>cf_manifest := cf_manifest_tmp f, cf_manifest_tmp := None\<rparr>"

definition empty_cache :: cache_files where
  "empty_cache = \<lparr>cf_data = None, cf_manifest = None, cf_data_tmp = None, cf_manifest_tmp = None\<rparr>"

record cache_meta =
  cm_symbol :: symbol
  cm_date :: string
  cm_schema :: string
  cm_normalizer :: string
  cm_created :: string
  cm_health :: "string option"

definition is_quote_event :: "market_event \<Rightarrow> bool" where
  "is_quote_event e \<longleftrightarrow> (case e of Quote_Event _ \<Rightarrow> True | Trade_Event _ \<Rightarrow> False)"

definition sha256_prefixed :: "codec \<Rightarrow> string \<Rightarrow> string" where
  "sha256_prefixed c s = ''sha256:'' @ cd_sha c s"

fun join_lines :: "string list \<Rightarrow> string" where
  "join_lines [] = ''''"
| "join_lines [l] = l"
| "join_lines (l # ls) = l @ CHR 0x0A # join_lines ls"

definition data_file :: "codec \<Rightarrow> market_event list \<Rightarrow> string" where
  "data_file c es = cd_gzip c (join_lines (map (serialize c) es))"

definition manifest_of :: "codec \<Rightarrow> cache_meta \<Rightarrow> market_event list \<Rightarrow> json_dict" where
  "manifest_of c m es =
     [(''symbol'', JStr (cm_symbol m)), (''date'', JStr (cm_date m)), (''event_count'', JInt (int (length es))),
      (''quotes_count'', JInt (int (length (filter is_quote_event es)))),
      (''trades_count'', JInt (int (length (filter (\<lambda>e. \<not> is_quote_event e) es)))),
      (''checksum'', JStr (sha256_prefixed c (data_file c es))), (''event_schema_hash'', JStr (cm_schema m)),
      (''normalizer_version'', JStr (cm_normalizer m)), (''created_at'', JStr (cm_created m))]
     @ (case cm_health m of None \<Rightarrow> [] | Some h \<Rightarrow> [(''ingestion_health'', JStr h)])"

definition save_ops :: "codec \<Rightarrow> cache_meta \<Rightarrow> market_event list \<Rightarrow> file_op list" where
  "save_ops c m es = [Write_Data_Tmp (data_file c es), Rename_Data,
     Write_Manifest_Tmp (cd_dumps_indented c (JObj (manifest_of c m es))), Rename_Manifest]"

fun torn_write :: "nat \<Rightarrow> file_op \<Rightarrow> file_op list" where
  \<comment> \<open>a crash inside a write leaves a part of the file; a rename happens or does not\<close>
  "torn_write k (Write_Data_Tmp s) = [Write_Data_Tmp (take k s)]"
| "torn_write k (Write_Manifest_Tmp s) = [Write_Manifest_Tmp (take k s)]"
| "torn_write k _ = []"

definition interrupted_save :: "codec \<Rightarrow> cache_meta \<Rightarrow> market_event list \<Rightarrow> nat \<Rightarrow> nat \<Rightarrow> cache_files \<Rightarrow> cache_files" where
  \<comment> \<open>the first \<open>n\<close> operations of a save, and \<open>k\<close> characters of the next one\<close>
  "interrupted_save c m es n k = fold file_step
     (let ops = save_ops c m es in take n ops @ (if n < length ops then torn_write k (ops ! n) else []))"

datatype cache_incident =
    Save cache_meta "market_event list" nat nat  \<comment> \<open>a save that ends inside one of its operations\<close>
  | Power_Loss nat nat nat nat                    \<comment> \<open>what remains of each file: no write is synced\<close>

fun incident_step :: "codec \<Rightarrow> cache_incident \<Rightarrow> cache_files \<Rightarrow> cache_files" where
  "incident_step c (Save m es n k) f = interrupted_save c m es n k f"
| "incident_step c (Power_Loss d t m u) f =
     \<lparr>cf_data = map_option (take d) (cf_data f), cf_manifest = map_option (take m) (cf_manifest f),
      cf_data_tmp = map_option (take t) (cf_data_tmp f), cf_manifest_tmp = map_option (take u) (cf_manifest_tmp f)\<rparr>"

definition save_events :: "codec \<Rightarrow> cache_meta \<Rightarrow> market_event list \<Rightarrow> cache_files \<Rightarrow> cache_files" where
  "save_events c m es = fold file_step (save_ops c m es)"

definition line_break :: "char \<Rightarrow> bool" where
  "line_break ch \<longleftrightarrow> (of_char ch :: nat) \<in> {10, 11, 12, 13, 28, 29, 30, 133}"

fun splitlines :: "string \<Rightarrow> string \<Rightarrow> string list" where
  \<comment> \<open>the first argument is the line read so far\<close>
  "splitlines l [] = (if l = '''' then [] else [l])"
| "splitlines l (ch # s) =
     (if \<not> line_break ch then splitlines (l @ [ch]) s
      else l # splitlines '''' (if ch = CHR 0x0D \<and> s \<noteq> [] \<and> hd s = CHR 0x0A then tl s else s))"

definition blank :: "string \<Rightarrow> bool" where
  "blank s \<longleftrightarrow> list_all (\<lambda>ch. (of_char ch :: nat) \<in> {9, 10, 11, 12, 13, 28, 29, 30, 31, 32, 133, 160}) s"

definition decode_data :: "codec \<Rightarrow> string \<Rightarrow> market_event list option" where
  "decode_data c raw = (case cd_gunzip c raw of
     None \<Rightarrow> None
   | Some text \<Rightarrow> (let rs = map (deserialize c) (filter (\<lambda>l. \<not> blank l) (splitlines '''' text))
       in if list_all (\<lambda>r. \<not> isl r) rs then Some (map projr rs) else None))"

fun count_matches :: "json option \<Rightarrow> nat \<Rightarrow> bool result" where
  "count_matches None n = Inr True"
| "count_matches (Some (JInt i)) n = Inr (i < 0 \<or> int n = i)"
| "count_matches (Some (JFloat x)) n = Inr (x < 0 \<or> of_nat n = x)"
| "count_matches (Some (JBool b)) n = Inr (int n = (if b then 1 else 0))"
| "count_matches (Some _) n = Inl (TypeError ''event_count'')"

definition load_events :: "codec \<Rightarrow> string \<Rightarrow> cache_files \<Rightarrow> market_event list option result" where
  "load_events c schema f = (case cf_manifest f of
     None \<Rightarrow> Inr None
   | Some text \<Rightarrow> (case cd_loads c text of
       None \<Rightarrow> Inr None
     | Some (JObj m) \<Rightarrow>
         if map_of m ''event_schema_hash'' \<noteq> Some (JStr schema) then Inr None
         else (case cf_data f of
             None \<Rightarrow> Inr None
           | Some raw \<Rightarrow>
               if (case map_of m ''checksum'' of None \<Rightarrow> JStr '''' | Some v \<Rightarrow> v) \<noteq> JStr (sha256_prefixed c raw) then Inr None
               else (case decode_data c raw of
                   None \<Rightarrow> Inr None
                 | Some es \<Rightarrow> bind_result (count_matches (map_of m ''event_count'') (length es))
                     (\<lambda>fits. Inr (if fits then Some es else None))))
     | Some _ \<Rightarrow> Inl (OtherException ''AttributeError'')))"

definition unusable_reason :: "codec \<Rightarrow> string \<Rightarrow> cache_files \<Rightarrow> string option result" where
  "unusable_reason c schema f =
     (if cf_data f = None then Inr (Some ''no data file'')
      else case cf_manifest f of
          None \<Rightarrow> Inr (Some ''manifest missing or unreadable'')
        | Some text \<Rightarrow> (case cd_loads c text of
            None \<Rightarrow> Inr (Some ''manifest missing or unreadable'')
          | Some JNull \<Rightarrow> Inr (Some ''manifest missing or unreadable'')
          | Some (JObj m) \<Rightarrow> Inr (if map_of m ''event_schema_hash'' = Some (JStr schema) then None else Some ''event_schema_hash mismatch'')
          | Some _ \<Rightarrow> Inl (OtherException ''AttributeError'')))"

definition cache_exists :: "codec \<Rightarrow> string \<Rightarrow> cache_files \<Rightarrow> bool result" where
  "cache_exists c schema f = bind_result (unusable_reason c schema f) (\<lambda>r. Inr (r = None))"

subsection \<open>Round trips\<close>

definition codec_ok :: "codec \<Rightarrow> bool" where
  \<comment> \<open>documented behaviour of \<open>decimal\<close>, \<open>json\<close> and \<open>gzip\<close>; a dumped object is one non-blank line\<close>
  "codec_ok c \<longleftrightarrow> (\<forall>x. cd_parse c (cd_show c x) = Some x) \<and> (\<forall>j. cd_loads c (cd_dumps c j) = Some j)
     \<and> (\<forall>j. cd_loads c (cd_dumps_indented c j) = Some j) \<and> (\<forall>s. cd_gunzip c (cd_gzip c s) = Some s)
     \<and> (\<forall>d. (\<forall>ch \<in> set (cd_dumps c (JObj d)). \<not> line_break ch) \<and> \<not> blank (cd_dumps c (JObj d)))"

lemma read_all_ints [simp]: "read_all read_int (map JInt ns) = Inr ns"
  by (induction ns) simp_all

lemma read_written [simp]:
  "read_opt_int (opt_int n) = Inr n" "read_ints (ints ns) = Inr ns" "read_opt_str (case s of None \<Rightarrow> JNull | Some t \<Rightarrow> JStr t) = Inr s"
  by (cases n; simp) (simp_all add: ints_def split: option.split)

lemma quote_back: "codec_ok c \<Longrightarrow> read_quote c (event_to_dict c (Quote_Event q)) = Inr q"
  by (simp add: read_quote_def event_to_dict_def quote_fields_def event_fields_def read_field_def decimal_first_def parse_decimal_def codec_ok_def)

lemma trade_back: "codec_ok c \<Longrightarrow> read_trade c (event_to_dict c (Trade_Event t)) = Inr t"
  by (simp add: read_trade_def event_to_dict_def trade_fields_def event_fields_def read_field_def decimal_first_def parse_decimal_def codec_ok_def)

lemma dict_back: "codec_ok c \<Longrightarrow> dict_to_event c (event_to_dict c e) = Inr e"
proof (cases e)
  case (Quote_Event q)
  assume "codec_ok c"
  then show ?thesis using quote_back[of c q] by (simp add: Quote_Event dict_to_event_def event_to_dict_def)
next
  case (Trade_Event t)
  assume "codec_ok c"
  then show ?thesis using trade_back[of c t] by (simp add: Trade_Event dict_to_event_def event_to_dict_def)
qed

lemma serialized_back: "codec_ok c \<Longrightarrow> deserialize c (serialize c e) = Inr e"
  using dict_back[of c e] by (simp add: deserialize_def serialize_def codec_ok_def)

subsection \<open>Lines and files\<close>

lemma splitlines_line:
  "\<forall>ch \<in> set l. \<not> line_break ch \<Longrightarrow> splitlines a (l @ CHR 0x0A # s) = (a @ l) # splitlines '''' s"
  by (induction l arbitrary: a) (simp_all add: line_break_def)

lemma splitlines_end: "\<forall>ch \<in> set l. \<not> line_break ch \<Longrightarrow> splitlines a l = (if a @ l = '''' then [] else [a @ l])"
  by (induction l arbitrary: a) simp_all

lemma splitlines_join:
  "\<forall>l \<in> set ls. l \<noteq> '''' \<and> (\<forall>ch \<in> set l. \<not> line_break ch) \<Longrightarrow> splitlines '''' (join_lines ls) = ls"
  by (induction ls rule: join_lines.induct) (simp_all add: splitlines_line splitlines_end)

lemma data_back:
  assumes "codec_ok c"
  shows "decode_data c (data_file c es) = Some es"
proof -
  have line: "l \<noteq> '''' \<and> \<not> blank l \<and> (\<forall>ch \<in> set l. \<not> line_break ch)" if "l \<in> set (map (serialize c) es)" for l
  proof -
    have "\<not> blank l \<and> (\<forall>ch \<in> set l. \<not> line_break ch)" using assms that by (auto simp: codec_ok_def serialize_def)
    then show ?thesis by (auto simp: blank_def)
  qed
  have "splitlines '''' (join_lines (map (serialize c) es)) = map (serialize c) es"
    using line by (intro splitlines_join) blast
  moreover have "filter (\<lambda>l. \<not> blank l) (map (serialize c) es) = map (serialize c) es"
    using line by (intro filter_True) blast
  ultimately show ?thesis using assms
    by (simp add: decode_data_def data_file_def codec_ok_def list_all_iff comp_def serialized_back[OF assms])
qed

lemma finished_save_loads:
  assumes "codec_ok c"
  shows "load_events c (cm_schema m) (save_events c m es f) = Inr (Some es)"
proof -
  let ?man = "manifest_of c m es"
  have "map_of ?man ''event_schema_hash'' = Some (JStr (cm_schema m))" "map_of ?man ''event_count'' = Some (JInt (int (length es)))"
    "map_of ?man ''checksum'' = Some (JStr (sha256_prefixed c (data_file c es)))"
    by (simp_all add: manifest_of_def)
  then show ?thesis using assms data_back[OF assms] by (simp add: load_events_def save_events_def save_ops_def codec_ok_def)
qed

text \<open>C21: Serialization loses nothing: every quote and trade comes back from its bytes, whatever its
  prices, optional fields and condition lists, and a day of events comes back from a finished save.\<close>

theorem tape_roundtrip:
  assumes "codec_ok c"
  shows "deserialize c (serialize c e) = Inr e \<and> load_events c (cm_schema m) (save_events c m es f) = Inr (Some es)"
  using serialized_back[OF assms] finished_save_loads[OF assms] by simp

definition braced :: "json \<Rightarrow> string" where
  "braced j = CHR ''{'' # replicate (to_nat j) CHR ''x'' @ ''}''"

definition sample_codec :: codec where
  "sample_codec = \<lparr>cd_show = (\<lambda>x. replicate (to_nat x) CHR ''x''), cd_parse = (\<lambda>s. Some (from_nat (length s))),
     cd_dumps = braced, cd_dumps_indented = braced,
     cd_loads = (\<lambda>s. if s \<noteq> [] \<and> last s = CHR ''}'' then Some (from_nat (length s - 2)) else None), cd_gzip = id, cd_gunzip = Some, cd_sha = id\<rparr>"

lemma sample_codec_ok: "codec_ok sample_codec"
  by (simp add: codec_ok_def sample_codec_def braced_def line_break_def blank_def)

lemma braced_cut: "k < length (braced j) \<Longrightarrow> take k (braced j) = [] \<or> last (take k (braced j)) \<noteq> CHR ''}''"
  by (cases k) (auto simp: braced_def take_Cons' last_replicate min_def)

definition sample_meta :: cache_meta where
  "sample_meta = \<lparr>cm_symbol = ''X'', cm_date = ''2026-01-05'', cm_schema = ''s'', cm_normalizer = ''1'', cm_created = ''now'', cm_health = None\<rparr>"

lemma tape_roundtrip_witness:
  "\<forall>e es. deserialize sample_codec (serialize sample_codec e) = Inr e
    \<and> load_events sample_codec ''s'' (save_events sample_codec sample_meta es empty_cache) = Inr (Some es)"
  using tape_roundtrip[OF sample_codec_ok, of _ sample_meta] by (simp add: sample_meta_def)

subsection \<open>Crashes and power losses\<close>

definition saves :: "cache_incident list \<Rightarrow> (cache_meta \<times> market_event list) set" where
  "saves hs = {(m, es). \<exists>n k. Save m es n k \<in> set hs}"

definition json_cut_fails :: "codec \<Rightarrow> bool" where
  \<comment> \<open>documented behaviour of \<open>json\<close>: the text of an object without its end is no JSON\<close>
  "json_cut_fails c \<longleftrightarrow> (\<forall>d k. k < length (cd_dumps_indented c (JObj d)) \<longrightarrow> cd_loads c (take k (cd_dumps_indented c (JObj d))) = None)"

definition sha_separates :: "codec \<Rightarrow> market_event list set \<Rightarrow> bool" where
  \<comment> \<open>what SHA-256 is used for: no part of a file of \<open>E\<close> collides with another file of \<open>E\<close>\<close>
  "sha_separates c E \<longleftrightarrow> (\<forall>es \<in> E. \<forall>es' \<in> E. \<forall>k. cd_sha c (take k (data_file c es)) = cd_sha c (data_file c es')
     \<longrightarrow> take k (data_file c es) = data_file c es')"

definition manifest_text :: "codec \<Rightarrow> cache_meta \<Rightarrow> market_event list \<Rightarrow> string" where
  "manifest_text c m es = cd_dumps_indented c (JObj (manifest_of c m es))"

definition cuts :: "string set \<Rightarrow> string option \<Rightarrow> bool" where
  \<comment> \<open>the file, if it is there, is a part of one of these\<close>
  "cuts S x \<longleftrightarrow> (\<forall>t. x = Some t \<longrightarrow> (\<exists>s \<in> S. \<exists>k. t = take k s))"

definition cache_holds :: "codec \<Rightarrow> (cache_meta \<times> market_event list) set \<Rightarrow> cache_files \<Rightarrow> bool" where
  \<comment> \<open>every file is a part of one that some save of \<open>H\<close> wrote, and no manifest comes before its data\<close>
  "cache_holds c H f \<longleftrightarrow> cuts (data_file c ` snd ` H) (cf_data f) \<and> cuts (data_file c ` snd ` H) (cf_data_tmp f)
     \<and> cuts ((\<lambda>(m, es). manifest_text c m es) ` H) (cf_manifest f) \<and> cuts ((\<lambda>(m, es). manifest_text c m es) ` H) (cf_manifest_tmp f)
     \<and> (cf_manifest f \<noteq> None \<or> cf_manifest_tmp f \<noteq> None \<longrightarrow> cf_data f \<noteq> None)"

lemma cuts_simps [simp]: "cuts S None" "s \<in> S \<Longrightarrow> cuts S (Some s)" "s \<in> S \<Longrightarrow> cuts S (Some (take k s))"
  "cuts S x \<Longrightarrow> cuts S (map_option (take k) x)"
proof -
  show "s \<in> S \<Longrightarrow> cuts S (Some s)" using take_all[of s "length s"] unfolding cuts_def by (metis option.inject order_refl)
  show "cuts S x \<Longrightarrow> cuts S (map_option (take k) x)" by (cases x) (auto simp: cuts_def, metis take_take)
qed (auto simp: cuts_def)

lemma interrupted_cases:
  "interrupted_save c m es n k f = (let d = data_file c es; t = manifest_text c m es in
     if n = 0 then f\<lparr>cf_data_tmp := Some (take k d)\<rparr>
     else if n = 1 then f\<lparr>cf_data_tmp := Some d\<rparr>
     else if n = 2 then f\<lparr>cf_data := Some d, cf_data_tmp := None, cf_manifest_tmp := Some (take k t)\<rparr>
     else if n = 3 then f\<lparr>cf_data := Some d, cf_data_tmp := None, cf_manifest_tmp := Some t\<rparr>
     else f\<lparr>cf_data := Some d, cf_data_tmp := None, cf_manifest := Some t, cf_manifest_tmp := None\<rparr>)"
proof -
  consider "n = 0" | "n = 1" | "n = 2" | "n = 3" | p where "n = Suc (Suc (Suc (Suc p)))"
    by (metis One_nat_def Suc_1 numeral_3_eq_3 old.nat.exhaust)
  then show ?thesis
    by cases (simp_all add: interrupted_save_def save_ops_def manifest_text_def Let_def numeral_2_eq_2 numeral_3_eq_3)
qed

lemma incident_holds:
  assumes "cache_holds c H f" "\<And>m es n k. i = Save m es n k \<Longrightarrow> (m, es) \<in> H"
  shows "cache_holds c H (incident_step c i f)"
proof (cases i)
  case (Save m es n k)
  then have h: "data_file c es \<in> data_file c ` snd ` H" "manifest_text c m es \<in> (\<lambda>(m, es). manifest_text c m es) ` H"
    using assms(2) by force+
  show ?thesis using assms(1) h unfolding Save incident_step.simps interrupted_cases Let_def
    by (auto simp: cache_holds_def)
next
  case (Power_Loss d t m u)
  then show ?thesis using assms(1) by (simp add: cache_holds_def)
qed

lemma incidents_hold: "saves hs \<subseteq> H \<Longrightarrow> cache_holds c H f \<Longrightarrow> cache_holds c H (fold (incident_step c) hs f)"
proof (induction hs arbitrary: f)
  case (Cons i hs)
  have "cache_holds c H (incident_step c i f)" using Cons.prems by (intro incident_holds) (auto simp: saves_def)
  moreover have "saves hs \<subseteq> H" using Cons.prems(1) by (auto simp: saves_def)
  ultimately show ?case using Cons.IH by simp
qed simp

text \<open>A manifest that parses is whole, and its checksum admits only the data it was written for.\<close>

lemma load_held:
  assumes "codec_ok c" "json_cut_fails c" "sha_separates c (snd ` H)" "cache_holds c H f"
  shows "load_events c schema f = Inr None \<or> (\<exists>(m, es) \<in> H. load_events c schema f = Inr (Some es)
    \<and> cm_schema m = schema \<and> cf_manifest f = Some (manifest_text c m es) \<and> cf_data f = Some (data_file c es))"
proof (cases "cf_manifest f")
  case None
  then show ?thesis by (simp add: load_events_def)
next
  case (Some t)
  then obtain m es k where t: "(m, es) \<in> H" "t = take k (manifest_text c m es)" using assms(4) by (force simp: cache_holds_def cuts_def)
  obtain raw where raw: "cf_data f = Some raw" using assms(4) Some by (auto simp: cache_holds_def)
  then obtain m' es' j where r: "(m', es') \<in> H" "raw = take j (data_file c es')" using assms(4) by (force simp: cache_holds_def cuts_def)
  show ?thesis
  proof (cases "k < length (manifest_text c m es)")
    case True
    then have "cd_loads c t = None" using assms(2) by (simp add: t(2) json_cut_fails_def manifest_text_def)
    then show ?thesis using Some by (simp add: load_events_def)
  next
    case False
    then have whole: "t = manifest_text c m es" by (simp add: t(2))
    have fields: "map_of (manifest_of c m es) ''event_schema_hash'' = Some (JStr (cm_schema m))"
      "map_of (manifest_of c m es) ''event_count'' = Some (JInt (int (length es)))"
      "map_of (manifest_of c m es) ''checksum'' = Some (JStr (sha256_prefixed c (data_file c es)))" by (simp_all add: manifest_of_def)
    have parsed: "cd_loads c t = Some (JObj (manifest_of c m es))" using assms(1) by (simp add: whole manifest_text_def codec_ok_def)
    show ?thesis
    proof (cases "cm_schema m = schema \<and> cd_sha c raw = cd_sha c (data_file c es)")
      case False
      then show ?thesis by (auto simp: load_events_def Some raw parsed fields sha256_prefixed_def)
    next
      case True
      then have same: "raw = data_file c es" using assms(3) t(1) r by (force simp: sha_separates_def)
      then have "load_events c schema f = Inr (Some es)"
        using True by (simp add: load_events_def Some raw parsed fields data_back[OF assms(1)])
      then show ?thesis using True t(1) same whole raw Some by (intro disjI2 bexI[of _ "(m, es)"]) auto
    qed
  qed
qed

text \<open>C22: The cache survives crashes and power losses. After any history of saves, each stopped after any number
  of its operations and any part of a write, and of power losses that cut any of the unsynced files,
  loading returns nothing or exactly the events of one save, whose own whole manifest and data
  are then in place; there is never a manifest without data; and a save that finished last is what
  loads. JSON cut short does not parse, and SHA-256 does not collide on parts of the saved files.\<close>

theorem cache_crash_safe:
  assumes "codec_ok c" "json_cut_fails c" "sha_separates c (snd ` saves hs)"
  shows "let f = fold (incident_step c) hs empty_cache in
    (load_events c schema f = Inr None \<or> (\<exists>(m, es) \<in> saves hs. load_events c schema f = Inr (Some es)
       \<and> cm_schema m = schema \<and> cf_manifest f = Some (manifest_text c m es) \<and> cf_data f = Some (data_file c es)))
    \<and> (cf_manifest f \<noteq> None \<longrightarrow> cf_data f \<noteq> None)
    \<and> (\<forall>gs m es n k. hs = gs @ [Save m es n k] \<and> 4 \<le> n \<longrightarrow> load_events c (cm_schema m) f = Inr (Some es))"
proof -
  define f where "f = fold (incident_step c) hs empty_cache"
  have h: "cache_holds c (saves hs) f" unfolding f_def by (rule incidents_hold) (simp_all add: cache_holds_def empty_cache_def)
  have "load_events c (cm_schema m) f = Inr (Some es)" if "hs = gs @ [Save m es n k]" "4 \<le> n" for gs m es n k
  proof -
    have "fold file_step (save_ops c m es) = save_events c m es" by (simp add: save_events_def)
    moreover have "interrupted_save c m es n k = fold file_step (save_ops c m es)"
      using that(2) by (simp add: interrupted_save_def Let_def save_ops_def)
    ultimately show ?thesis using that(1) finished_save_loads[OF assms(1)] by (simp add: f_def)
  qed
  then show ?thesis unfolding f_def[symmetric] Let_def
    using load_held[OF assms h, of schema] h by (auto simp: cache_holds_def)
qed

text \<open>A save cut inside its manifest, a power loss that cuts the data of the next one, and a save that finishes.\<close>

lemma cache_crash_safe_witness:
  "\<forall>es es'. let hs = [Save sample_meta es 2 5, Save sample_meta es 4 0, Power_Loss 3 0 9 0, Save sample_meta es' 4 0]
    in load_events sample_codec ''s'' (fold (incident_step sample_codec) hs empty_cache) = Inr (Some es')"
proof -
  have cut: "json_cut_fails sample_codec" "sha_separates sample_codec E" for E 
    using braced_cut by (auto simp: json_cut_fails_def sha_separates_def sample_codec_def)
  have "load_events sample_codec ''s'' (fold (incident_step sample_codec) ([Save sample_meta es 2 5, Save sample_meta es 4 0, Power_Loss 3 0 9 0] @ [Save sample_meta es' 4 0]) empty_cache)
    = Inr (Some es')" for es es'
    using cache_crash_safe[OF sample_codec_ok cut, of "[Save sample_meta es 2 5, Save sample_meta es 4 0, Power_Loss 3 0 9 0] @ [Save sample_meta es' 4 0]" "''s''"]
    unfolding Let_def by (simp add: sample_meta_def del: fold_append incident_step.simps)
  then show ?thesis by (simp add: Let_def)
qed

subsection \<open>The canonical tape\<close>

lemma prefix_key:
  "event_merge_sort_key (restamp n e) = (let (t, s, r, _) = event_merge_sort_key e in (t, s, r, n))"
  by (cases e) simp_all

lemma restamp_twice [simp]: "restamp n (restamp n e) = restamp n e"
  by (cases e) simp_all

lemma renumber_nth: "i < length es \<Longrightarrow> renumber es ! i = restamp (int i) (es ! i)"
  by (simp add: renumber_def nth_enumerate_eq)

lemma renumber_length [simp]: "length (renumber es) = length es"
  by (simp add: renumber_def)

lemma renumber_sorted:
  assumes "sorted (map event_merge_sort_key es)"
  shows "sorted (map event_merge_sort_key (renumber es))"
  unfolding sorted_iff_nth_mono
proof (intro allI impI)
  fix i j
  assume ij: "i \<le> j" "j < length (map event_merge_sort_key (renumber es))"
  then have "event_merge_sort_key (es ! i) \<le> event_merge_sort_key (es ! j)"
    using sorted_nth_mono[OF assms, of i j] by simp
  then show "map event_merge_sort_key (renumber es) ! i \<le> map event_merge_sort_key (renumber es) ! j"
    using ij by (auto simp: renumber_nth prefix_key less_eq_prod_def less_prod_def split: prod.splits)
qed

lemma resequenced_sorted: "sorted (map event_merge_sort_key (resequence_event_list es))"
  unfolding resequence_event_list_def by (intro renumber_sorted sorted_sort_key)

lemma renumber_again: "renumber (renumber es) = renumber es"
  by (rule nth_equalityI) (simp_all add: renumber_nth)

text \<open>The merged tape is canonical: it does not depend on the order in which the batches of the symbols
  were concatenated, provided the merge keys tell the events apart, it is in merge order with
  sequence numbers counting from zero, and merging it again changes nothing.\<close>

theorem resequence_canonical:
  assumes "mset es = mset es'" and "inj_on event_merge_sort_key (set es)"
  shows "resequence_event_list es = resequence_event_list es'
    \<and> resequence_event_list (resequence_event_list es) = resequence_event_list es
    \<and> sorted (map event_merge_sort_key (resequence_event_list es))
    \<and> map (row_sequence \<circ> Market) (resequence_event_list es) = map int [0..<length es]"
proof (intro conjI)
  have "sort_key event_merge_sort_key es = sort_key event_merge_sort_key es'"
    by (rule sort_key_eq_sort_key[OF assms])
  then show "resequence_event_list es = resequence_event_list es'" by (simp add: resequence_event_list_def)
  have "sort_key event_merge_sort_key (resequence_event_list es) = resequence_event_list es"
    by (rule sort_key_id_if_sorted[OF resequenced_sorted])
  then show "resequence_event_list (resequence_event_list es) = resequence_event_list es"
    by (simp add: resequence_event_list_def renumber_again)
  show "sorted (map event_merge_sort_key (resequence_event_list es))" by (rule resequenced_sorted)
  have "row_sequence (Market (restamp n e)) = n" for n e by (cases e) simp_all
  then show "map (row_sequence \<circ> Market) (resequence_event_list es) = map int [0..<length es]"
    by (intro nth_equalityI) (simp_all add: resequence_event_list_def renumber_nth)
qed

lemma resequence_canonical_witness:
  "\<forall>t q. resequence_event_list [Trade_Event t, Quote_Event q] = resequence_event_list [Quote_Event q, Trade_Event t]"
proof (intro allI)
  fix t q
  have "mset [Trade_Event t, Quote_Event q] = mset [Quote_Event q, Trade_Event t]" "inj_on event_merge_sort_key (set [Trade_Event t, Quote_Event q])"
    by simp_all
  from resequence_canonical[OF this] show "resequence_event_list [Trade_Event t, Quote_Event q] = resequence_event_list [Quote_Event q, Trade_Event t]"
    by blast
qed

subsection \<open>Searching and replaying the log\<close>

lemma bisect_finds:
  "\<lbrakk>lo \<le> p; p \<le> hi; \<And>i. lo \<le> i \<Longrightarrow> i < hi \<Longrightarrow> g i \<longleftrightarrow> i < p\<rbrakk> \<Longrightarrow> bisect g lo hi = p"
proof (induction g lo hi rule: bisect.induct)
  case (1 g lo hi)
  show ?case
  proof (cases "lo < hi")
    case True
    define mid where "mid = (lo + hi) div 2"
    have mid: "lo \<le> mid" "mid < hi" using True by (simp_all add: mid_def)
    show ?thesis
    proof (cases "g mid")
      case True
      then have "mid < p" using 1(5)[OF mid] by simp
      then have "bisect g (mid + 1) hi = p"
        using 1(1)[OF \<open>lo < hi\<close> mid_def True] 1(4,5) mid by simp
      then show ?thesis using True \<open>lo < hi\<close> by (simp add: bisect.simps[of g lo hi] mid_def[symmetric] Let_def)
    next
      case False
      then have "p \<le> mid" using 1(5)[OF mid] by simp
      then have "bisect g lo mid = p"
        using 1(2)[OF \<open>lo < hi\<close> mid_def False] 1(3,5) mid by simp
      then show ?thesis using False \<open>lo < hi\<close> by (simp add: bisect.simps[of g lo hi] mid_def[symmetric] Let_def)
    qed
  next
    case False
    then show ?thesis using 1(3,4) by (simp add: bisect.simps[of g lo hi])
  qed
qed

text \<open>In a sorted list the answer is the length of the part below the bound.\<close>

lemma below_takeWhile:
  assumes "sorted xs" "\<And>x y. x \<le> y \<Longrightarrow> P y \<Longrightarrow> P x" "i < length xs"
  shows "P (xs ! i) \<longleftrightarrow> i < length (takeWhile P xs)"
proof
  assume "P (xs ! i)"
  show "i < length (takeWhile P xs)"
  proof (rule ccontr)
    let ?n = "length (takeWhile P xs)"
    assume "\<not> i < ?n"
    then have n: "?n \<le> i" "?n < length xs" using assms(3) by simp_all
    then have "\<not> P (xs ! ?n)" by (simp add: nth_length_takeWhile)
    moreover have "xs ! ?n \<le> xs ! i" using sorted_nth_mono[OF assms(1) n(1) assms(3)] .
    ultimately show False using assms(2) \<open>P (xs ! i)\<close> by blast
  qed
qed (metis nth_mem set_takeWhileD takeWhile_nth)

lemma bisect_sorted:
  assumes "sorted xs"
  shows "bisect_left xs x = length (takeWhile (\<lambda>y. y < x) xs)" "bisect_right xs x = length (takeWhile (\<lambda>y. y \<le> x) xs)"
  unfolding bisect_left_def bisect_right_def
  by (rule bisect_finds, simp, rule length_takeWhile_le, rule below_takeWhile[OF assms], auto simp: not_less)+

lemma filter_window:
  assumes "sorted (map f rows)"
  shows "drop (length (takeWhile (\<lambda>y. y < a) (map f rows))) rows = filter (\<lambda>r. a \<le> f r) rows"
    "take (length (takeWhile (\<lambda>y. y \<le> b) (map f rows))) rows = filter (\<lambda>r. f r \<le> b) rows"
proof -
  show "drop (length (takeWhile (\<lambda>y. y < a) (map f rows))) rows = filter (\<lambda>r. a \<le> f r) rows"
    using assms
  proof (induction rows)
    case (Cons r rows)
    then show ?case
    proof (cases "f r < a")
      case False
      then have "\<forall>x \<in> set (r # rows). a \<le> f x" using Cons.prems by auto
      then show ?thesis using False by (simp add: filter_id_conv)
    qed simp
  qed simp
  show "take (length (takeWhile (\<lambda>y. y \<le> b) (map f rows))) rows = filter (\<lambda>r. f r \<le> b) rows"
    using assms
  proof (induction rows)
    case (Cons r rows)
    then show ?case
    proof (cases "f r \<le> b")
      case False
      then have "\<forall>x \<in> set (r # rows). \<not> f x \<le> b" using Cons.prems by fastforce
      then show ?thesis using False by (simp add: filter_empty_conv)
    qed simp
  qed simp
qed

lemma replay_filter:
  assumes "sorted (map row_sequence (el_events l))"
  shows "replay start None l = filter (\<lambda>r. start \<le> row_sequence r) (el_events l)"
  unfolding replay_def Let_def option.case bisect_sorted[OF assms] by (rule filter_window[OF assms])

subsection \<open>A merged tape comes back from the log\<close>

lemma market_rows_market [simp]: "market_rows (map Market es) = es"
  by (induction es) (simp_all add: market_rows_def)

lemma fill_market_all: "length ms = length es \<Longrightarrow> fill_market (map Market es) ms = map Market ms"
  by (induction es ms rule: list_induct2') simp_all

lemma enforce_all_sorted:
  "sorted (map event_merge_sort_key es) \<Longrightarrow> (\<forall>k. el_last_key l = Some k \<longrightarrow> (\<forall>e \<in> set es. k \<le> event_merge_sort_key e))
    \<Longrightarrow> \<exists>k. enforce_all (map Market es) l = (Inr (), l\<lparr>el_last_key := k\<rparr>)"
proof (induction es arbitrary: l)
  case (Cons e es)
  have "enforce_market_order (Market e) l = (Inr (), l\<lparr>el_last_key := Some (event_merge_sort_key e)\<rparr>)"
    using Cons.prems(2) by (auto simp: enforce_market_order_def Let_def not_less split: option.split)
  moreover obtain k where "enforce_all (map Market es) (l\<lparr>el_last_key := Some (event_merge_sort_key e)\<rparr>) = (Inr (), l\<lparr>el_last_key := k\<rparr>)"
    using Cons.IH[of "l\<lparr>el_last_key := Some (event_merge_sort_key e)\<rparr>"] Cons.prems(1) by auto
  ultimately show ?case by auto
next
  case Nil
  then show ?case by (intro exI[of _ "el_last_key l"]) simp
qed

lemma append_sorted:
  assumes "sorted (map event_merge_sort_key es)"
  shows "\<exists>l :: 'x event_log. append_batch (map Market es) (new_log True) = (Inr (), l) \<and> el_events l = map Market es"
proof -
  have s: "stabilize_market_slice (map Market es) = (map Market es :: 'x row list)"
    unfolding stabilize_market_slice_def market_rows_market by (simp add: sort_key_id_if_sorted[OF assms] fill_market_all)
  obtain k where "enforce_all (map Market es :: 'x row list) (new_log True) = (Inr (), (new_log True)\<lparr>el_last_key := k\<rparr>)"
    using enforce_all_sorted[OF assms, of "new_log True"] by (auto simp: new_log_def)
  then show ?thesis by (simp add: append_batch_def Let_def s new_log_def)
qed

lemma feed_sorted:
  "sorted (map event_merge_sort_key es) \<Longrightarrow> (\<forall>k. last_key = Some k \<longrightarrow> (\<forall>e \<in> set es. k \<le> event_merge_sort_key e)) \<Longrightarrow>
   (case feed_events latency last_key now (map Market es :: 'x row list) of (ys, err) \<Rightarrow> err = None \<and> map fst ys = es
      \<and> sorted (now # map snd ys) \<and> (\<forall>(e, t) \<in> set ys. market_data_visible_at_ns (exchange_time e) latency \<le> t))"
proof (induction es arbitrary: last_key now)
  case (Cons e es)
  define visible where "visible = market_data_visible_at_ns (exchange_time e) latency"
  define now' where "now' = (if now < visible then visible else now)"
  obtain ys err where rest: "feed_events latency (Some (event_merge_sort_key e)) now' (map Market es :: 'x row list) = (ys, err)"
    by (cases "feed_events latency (Some (event_merge_sort_key e)) now' (map Market es :: 'x row list)")
  have ok: "\<not> (case last_key of None \<Rightarrow> False | Some k \<Rightarrow> event_merge_sort_key e < k)"
    using Cons.prems(2) by (auto simp: not_less split: option.split)
  have "feed_events latency last_key now (map Market (e # es) :: 'x row list) = ((e, now') # ys, err)"
    using ok by (simp add: Let_def visible_def[symmetric] now'_def[symmetric] rest)
  moreover have "err = None \<and> map fst ys = es \<and> sorted (now' # map snd ys)
      \<and> (\<forall>(e, t) \<in> set ys. market_data_visible_at_ns (exchange_time e) latency \<le> t)"
    using Cons.IH[of "Some (event_merge_sort_key e)" now'] Cons.prems(1) by (simp add: rest)
  moreover have "now \<le> now'" "visible \<le> now'" by (simp_all add: now'_def)
  ultimately show ?case by (auto simp: visible_def)
qed simp

text \<open>A merged tape is replayed as it is. A batch of events merged by \<open>resequence_event_list\<close> is accepted by a
  fresh log, and its replay yields exactly that tape with no causality violation, the simulated
  clock never going back and never showing an event before its visibility time.\<close>

theorem tape_replays:
  "\<exists>(log :: 'x event_log) ys. append_batch (map Market (resequence_event_list es)) (new_log True) = (Inr (), log)
    \<and> replay_feed latency now 0 None log = (ys, None) \<and> map fst ys = resequence_event_list es
    \<and> sorted (now # map snd ys) \<and> list_all (\<lambda>(e, t). market_data_visible_at_ns (exchange_time e) latency \<le> t) ys"
proof -
  let ?es = "resequence_event_list es"
  obtain log :: "'x event_log" where log: "append_batch (map Market ?es) (new_log True) = (Inr (), log)" "el_events log = map Market ?es"
    using append_sorted[OF resequenced_sorted] by blast
  have "row_sequence (Market (restamp n e)) = n" for n e by (cases e) simp_all
  then have seqs: "map row_sequence (el_events log) = map int [0..<length ?es]"
    by (intro nth_equalityI) (simp_all add: log(2) resequence_event_list_def renumber_nth)
  have "sorted (map row_sequence (el_events log))" unfolding seqs by (simp add: sorted_iff_nth_mono)
  moreover have "\<forall>r \<in> set (el_events log). 0 \<le> row_sequence r"
  proof -
    have "row_sequence ` set (el_events log) = set (map int [0..<length ?es])" using seqs by (metis set_map)
    then have "row_sequence r \<in> set (map int [0..<length ?es])" if "r \<in> set (el_events log)" for r using that by blast
    then show ?thesis by fastforce
  qed
  ultimately have "replay 0 None log = map Market ?es" by (simp add: replay_filter filter_id_conv log(2))
  then show ?thesis
    using feed_sorted[where 'x = 'x, OF resequenced_sorted[of es], where last_key = None and latency = latency and now = now] log(1)
    by (cases "feed_events latency None now (map Market ?es :: 'x row list)") (simp add: replay_feed_def list_all_iff)
qed

end
