(* ===== verification/Order_Journal.thy ===== *)
theory Order_Journal
  imports Event_Store Forced_Exit
begin

section \<open>The durable journal of submitted orders (storage/submitted\_order\_journal.py)\<close>

text \<open>
  The append-only file of submission attempts and rejections, what a restart recovers from it, and
  the wrapper it puts around a router: an attempt is on disk before the order is sent, and an
  order whose outcome is unknown is refused. The file is a string; a crash may leave any prefix of
  the line being written. JSON, SHA-256 and Python's conversions are the fields of a codec. The
  wall-clock time of an append is an argument.
\<close>

subsection \<open>Records on disk\<close>

datatype submission_state = ABSENT | UNKNOWN | REFUSED

record journal_codec =
  jc_dumps :: "json \<Rightarrow> string"            \<comment> \<open>compact separators\<close>
  jc_loads :: "string \<Rightarrow> json option"
  jc_sha :: "string \<Rightarrow> string"
  jc_str :: "json \<Rightarrow> string"
  jc_int :: "json \<Rightarrow> int result"

record order_journal =
  oj_states :: "(string \<times> submission_state) list"
  oj_ib_next :: "int option"
  oj_window :: "int list"
  oj_breaches :: "(int \<times> int) list"
  oj_file :: string

definition newline_char :: char where
  "newline_char = CHR 0x0A"

definition sort_dict :: "json_dict \<Rightarrow> json_dict" where
  \<comment> \<open>\<open>sort_keys=True\<close>\<close>
  "sort_dict d = sort_key fst d"

definition canonical :: "journal_codec \<Rightarrow> json_dict \<Rightarrow> string" where
  "canonical c d = jc_dumps c (JObj (sort_dict d))"

definition journal_line :: "journal_codec \<Rightarrow> json_dict \<Rightarrow> string" where
  "journal_line c payload =
     canonical c (payload @ [(''hash'', JStr (jc_sha c (canonical c payload)))]) @ [newline_char]"

definition attempt_payload :: "string \<Rightarrow> json_dict" where
  "attempt_payload oid = [(''kind'', JStr ''attempt''), (''order_id'', JStr oid)]"

definition reject_payload :: "string \<Rightarrow> json_dict" where
  "reject_payload oid = [(''kind'', JStr ''reject''), (''order_id'', JStr oid)]"

definition ib_payload :: "int \<Rightarrow> json_dict" where
  "ib_payload n = [(''kind'', JStr ''ib_next_valid_id''), (''value'', JInt n)]"

definition parse_line :: "journal_codec \<Rightarrow> string \<Rightarrow> json_dict option" where
  "parse_line c line =
     (case jc_loads c line of
        Some (JObj rec) \<Rightarrow>
          (case map_of rec ''hash'' of
             None \<Rightarrow> None
           | Some digest \<Rightarrow>
               if digest \<noteq> JStr (jc_sha c (canonical c (filter (\<lambda>(k, _). k \<noteq> ''hash'') rec))) then None else Some rec)
      | _ \<Rightarrow> None)"

subsection \<open>Recovery\<close>

definition raise_high_water :: "int \<Rightarrow> order_journal \<Rightarrow> order_journal" where
  "raise_high_water v j = j\<lparr>oj_ib_next := Some (case oj_ib_next j of None \<Rightarrow> v | Some n \<Rightarrow> max n v)\<rparr>"

definition set_state :: "string \<Rightarrow> submission_state \<Rightarrow> order_journal \<Rightarrow> order_journal" where
  "set_state oid s j = j\<lparr>oj_states := dict_set oid s (oj_states j)\<rparr>"

definition replay_record :: "journal_codec \<Rightarrow> json_dict \<Rightarrow> order_journal \<Rightarrow> order_journal result" where
  "replay_record c rec j =
     (let order_id = (case map_of rec ''order_id'' of None \<Rightarrow> Inl (KeyError ''order_id'') | Some v \<Rightarrow> Inr (jc_str c v))
      in case map_of rec ''kind'' of
           Some (JStr kind) \<Rightarrow>
             if kind = ''attempt'' then bind_result order_id (\<lambda>oid. Inr (set_state oid UNKNOWN j))
             else if kind = ''reject'' then bind_result order_id (\<lambda>oid. Inr (set_state oid REFUSED j))
             else if kind = ''ib_next_valid_id''
             then (case map_of rec ''value'' of
                     None \<Rightarrow> Inl (KeyError ''value'')
                   | Some v \<Rightarrow> bind_result (jc_int c v) (\<lambda>n. Inr (raise_high_water n j)))
             else Inr j
         | _ \<Rightarrow> Inr j)"

fun split_newlines :: "string \<Rightarrow> string list" where
  \<comment> \<open>\<open>text.split\<close> on the line break\<close>
  "split_newlines [] = [[]]"
| "split_newlines (x # xs) =
     (if x = newline_char then [] # split_newlines xs
      else case split_newlines xs of [] \<Rightarrow> [[x]] | w # ws \<Rightarrow> (x # w) # ws)"

fun replay_lines :: "journal_codec \<Rightarrow> string list \<Rightarrow> order_journal \<Rightarrow> order_journal result" where
  "replay_lines c [] j = Inr j"
| "replay_lines c (line # ls) j =
     (if line = [] then replay_lines c ls j
      else case parse_line c line of
             None \<Rightarrow> replay_lines c ls j
           | Some rec \<Rightarrow> bind_result (replay_record c rec j) (replay_lines c ls))"

definition replay_journal :: "journal_codec \<Rightarrow> string \<Rightarrow> order_journal \<Rightarrow> order_journal result" where
  "replay_journal c raw j =
     (if raw = [] then Inr j
      else let chunks = split_newlines raw
           in replay_lines c (if last raw \<noteq> newline_char then butlast chunks else chunks) j)"

definition open_journal :: "journal_codec \<Rightarrow> string \<Rightarrow> order_journal result" where
  \<comment> \<open>the file is opened for appending and left as it is\<close>
  "open_journal c file =
     replay_journal c file \<lparr>oj_states = [], oj_ib_next = None, oj_window = [], oj_breaches = [], oj_file = file\<rparr>"

subsection \<open>Appending\<close>

definition p99 :: "int list \<Rightarrow> int" where
  \<comment> \<open>of a window that is not empty\<close>
  "p99 samples = sort samples ! (nat (max 1 \<lceil>fl_mul (fl_round (99/100)) (of_nat (length samples))\<rceil>) - 1)"

definition observe_latency :: "nat \<Rightarrow> int \<Rightarrow> int \<Rightarrow> order_journal \<Rightarrow> order_journal" where
  \<comment> \<open>window size and budget, then the elapsed time\<close>
  "observe_latency window budget elapsed j =
     (let w = push_bounded (Some window) (max 0 elapsed) (oj_window j); j1 = j\<lparr>oj_window := w\<rparr>
      in if length w < window then j1
         else if budget < p99 w then j1\<lparr>oj_breaches := oj_breaches j1 @ [(p99 w, budget)]\<rparr> else j1)"

definition latency_window :: nat where "latency_window = 100"
definition fsync_budget_ns :: int where "fsync_budget_ns = 15000000"

definition append_payload :: "journal_codec \<Rightarrow> int \<Rightarrow> json_dict \<Rightarrow> order_journal \<Rightarrow> order_journal" where
  "append_payload c elapsed payload j =
     observe_latency latency_window fsync_budget_ns elapsed (j\<lparr>oj_file := oj_file j @ journal_line c payload\<rparr>)"

definition record_attempt :: "journal_codec \<Rightarrow> int \<Rightarrow> string \<Rightarrow> order_journal \<Rightarrow> order_journal" where
  "record_attempt c elapsed oid j = set_state oid UNKNOWN (append_payload c elapsed (attempt_payload oid) j)"

definition record_reject :: "journal_codec \<Rightarrow> int \<Rightarrow> string \<Rightarrow> order_journal \<Rightarrow> order_journal" where
  "record_reject c elapsed oid j = set_state oid REFUSED (append_payload c elapsed (reject_payload oid) j)"

definition record_ib_next_valid_id :: "journal_codec \<Rightarrow> int \<Rightarrow> int \<Rightarrow> order_journal \<Rightarrow> order_journal" where
  "record_ib_next_valid_id c elapsed v j = raise_high_water v (append_payload c elapsed (ib_payload v) j)"

definition decision :: "order_journal \<Rightarrow> string \<Rightarrow> submission_state" where
  "decision j oid = (case map_of (oj_states j) oid of None \<Rightarrow> ABSENT | Some s \<Rightarrow> s)"

definition must_refuse :: "order_journal \<Rightarrow> string \<Rightarrow> bool" where
  "must_refuse j oid \<longleftrightarrow> map_of (oj_states j) oid = Some UNKNOWN"

definition unknown_order_ids :: "order_journal \<Rightarrow> string set" where
  "unknown_order_ids j = {oid. map_of (oj_states j) oid = Some UNKNOWN}"

subsection \<open>The wrapper around a router\<close>

definition duplicate_reason :: "order_request \<Rightarrow> string" where
  "duplicate_reason o' = ''duplicate order_id: '' @ or_order_id o'"

definition starts_with :: "string \<Rightarrow> string \<Rightarrow> bool" where
  "starts_with p s \<longleftrightarrow> take (length p) s = p"

definition outcome_of_ack :: "journal_codec \<Rightarrow> int \<Rightarrow> order_ack \<Rightarrow> order_journal \<Rightarrow> order_journal" where
  "outcome_of_ack c elapsed a j =
     (if oa_status a = ACK_REJECTED \<and> \<not> starts_with ''duplicate order_id:'' (oa_reason a)
      then record_reject c elapsed (oa_order_id a) j else j)"

definition journaled ::
  "journal_codec \<Rightarrow> int \<Rightarrow> (order_request \<Rightarrow> string \<Rightarrow> 'r \<Rightarrow> 'r) \<Rightarrow> 'r router \<Rightarrow> ('r \<times> order_journal) router" where
  \<comment> \<open>\<open>install_on\<close> for a router without a binding of its own; the second argument appends a rejection
      to the router's pending acknowledgements, when it has any\<close>
  "journaled c elapsed push_reject rt =
     \<lparr>rt_submit = (\<lambda>o' (r, j).
        if must_refuse j (or_order_id o') then (None, (push_reject o' (duplicate_reason o') r, j))
        else let j1 = record_attempt c elapsed (or_order_id o') j
             in case rt_submit rt o' r of (e, r1) \<Rightarrow> (e, (r1, j1))),
      rt_poll = (\<lambda>(r, j). case rt_poll rt r of
          (Inl e, r1) \<Rightarrow> (Inl e, (r1, j))
        | (Inr as, r1) \<Rightarrow> (Inr as, (r1, fold (outcome_of_ack c elapsed) as j))),
      rt_cancel = map_option (\<lambda>cancel oid (r, j). case cancel oid r of (x, r1) \<Rightarrow> (x, (r1, j))) (rt_cancel rt),
      rt_expire_moc = map_option (\<lambda>expire (r, j). (expire r, j)) (rt_expire_moc rt)\<rparr>"

subsection \<open>Recovery of what was appended\<close>

datatype journal_op = Attempt string | Reject string | High_Water int

fun payload_of :: "journal_op \<Rightarrow> json_dict" where
  "payload_of (Attempt oid) = attempt_payload oid"
| "payload_of (Reject oid) = reject_payload oid"
| "payload_of (High_Water n) = ib_payload n"

fun apply_op :: "journal_op \<Rightarrow> order_journal \<Rightarrow> order_journal" where
  "apply_op (Attempt oid) = set_state oid UNKNOWN"
| "apply_op (Reject oid) = set_state oid REFUSED"
| "apply_op (High_Water n) = raise_high_water n"

fun record_op :: "journal_codec \<Rightarrow> int \<Rightarrow> journal_op \<Rightarrow> order_journal \<Rightarrow> order_journal" where
  "record_op c elapsed (Attempt oid) = record_attempt c elapsed oid"
| "record_op c elapsed (Reject oid) = record_reject c elapsed oid"
| "record_op c elapsed (High_Water n) = record_ib_next_valid_id c elapsed n"

definition journal_codec_ok :: "journal_codec \<Rightarrow> bool" where
  \<comment> \<open>documented behaviour of \<open>json\<close>: a dumped dictionary is one line and loads as itself\<close>
  "journal_codec_ok c \<longleftrightarrow>
     (\<forall>d. sorted (map fst d) \<and> distinct (map fst d) \<longrightarrow> jc_loads c (jc_dumps c (JObj d)) = Some (JObj d))
     \<and> (\<forall>x. newline_char \<notin> set (jc_dumps c x) \<and> jc_dumps c x \<noteq> [])
     \<and> (\<forall>s. jc_str c (JStr s) = s) \<and> (\<forall>n. jc_int c (JInt n) = Inr n)"

definition file_of :: "journal_codec \<Rightarrow> journal_op list \<Rightarrow> string" where
  "file_of c ops = concat (map (\<lambda>op. journal_line c (payload_of op)) ops)"

definition text_of :: "journal_codec \<Rightarrow> journal_op \<Rightarrow> string" where
  "text_of c op = canonical c (payload_of op @ [(''hash'', JStr (jc_sha c (canonical c (payload_of op))))])"

lemma key_order: "''hash'' < (''kind'' :: string)" "''kind'' < (''order_id'' :: string)" "''kind'' < (''value'' :: string)"
  by code_simp+

lemma sorted_payload:
  "sort_dict (payload_of op) = payload_of op"
  "sort_dict (payload_of op @ [(''hash'', d)]) = (''hash'', d) # payload_of op"
proof -
  have lt: "\<not> ''kind'' \<le> (''hash'' :: string)" "\<not> ''order_id'' \<le> (''hash'' :: string)" "\<not> ''value'' \<le> (''hash'' :: string)"
    "''kind'' \<le> (''order_id'' :: string)" "''kind'' \<le> (''value'' :: string)"
    using key_order by (auto simp: not_le intro: less_trans)
  show "sort_dict (payload_of op) = payload_of op"
    using lt by (cases op) (simp_all add: sort_dict_def attempt_payload_def reject_payload_def ib_payload_def del: less_eq_list_code)
  show "sort_dict (payload_of op @ [(''hash'', d)]) = (''hash'', d) # payload_of op"
    using lt by (cases op) (simp_all add: sort_dict_def attempt_payload_def reject_payload_def ib_payload_def del: less_eq_list_code)
qed

lemma payload_keys: "sorted (map fst (payload_of op))" "distinct (map fst (payload_of op))" "''hash'' \<notin> fst ` set (payload_of op)"
  "\<forall>k \<in> fst ` set (payload_of op). ''hash'' \<le> k"
  using key_order by (cases op; force simp: attempt_payload_def reject_payload_def ib_payload_def intro: less_imp_le less_trans)+

lemma parse_own_line:
  assumes "journal_codec_ok c"
  shows "\<exists>rec. parse_line c (text_of c op) = Some rec \<and> replay_record c rec j = Inr (apply_op op j)"
proof -
  let ?p = "payload_of op" and ?h = "JStr (jc_sha c (canonical c (payload_of op)))"
  have "jc_loads c (text_of c op) = Some (JObj ((''hash'', ?h) # ?p))"
    using assms payload_keys[of op] by (auto simp: text_of_def canonical_def sorted_payload journal_codec_ok_def)
  moreover have "filter (\<lambda>(k, _). k \<noteq> ''hash'') ((''hash'', ?h) # ?p) = ?p"
    using payload_keys(3)[of op] by (auto simp: filter_id_conv rev_image_eqI)
  ultimately have "parse_line c (text_of c op) = Some ((''hash'', ?h) # ?p)" by (simp add: parse_line_def)
  moreover have "replay_record c ((''hash'', ?h) # ?p) j = Inr (apply_op op j)"
    using assms by (cases op) (simp_all add: replay_record_def attempt_payload_def reject_payload_def ib_payload_def journal_codec_ok_def)
  ultimately show ?thesis by blast
qed

lemma text_is_line:
  assumes "journal_codec_ok c"
  shows "journal_line c (payload_of op) = text_of c op @ [newline_char]" "newline_char \<notin> set (text_of c op)" "text_of c op \<noteq> []"
  using assms by (simp_all add: journal_line_def text_of_def canonical_def journal_codec_ok_def)

lemma split_line: "newline_char \<notin> set l \<Longrightarrow> split_newlines (l @ newline_char # s) = l # split_newlines s"
  by (induction l) auto

lemma split_rest: "newline_char \<notin> set s \<Longrightarrow> split_newlines s = [s]"
  by (induction s) auto

lemma split_file:
  assumes "journal_codec_ok c" "newline_char \<notin> set torn"
  shows "split_newlines (file_of c ops @ torn) = map (text_of c) ops @ [torn]"
  using assms by (induction ops) (simp_all add: file_of_def text_is_line split_line split_rest)

lemma replay_own_lines:
  assumes "journal_codec_ok c"
  shows "replay_lines c (map (text_of c) ops @ ls) j = replay_lines c ls (fold apply_op ops j)"
proof (induction ops arbitrary: j)
  case (Cons op ops)
  obtain rec where "parse_line c (text_of c op) = Some rec" "replay_record c rec j = Inr (apply_op op j)"
    using parse_own_line[OF assms] by blast
  then show ?case using Cons text_is_line(3)[OF assms] by simp
qed simp

lemma file_end: "journal_codec_ok c \<Longrightarrow> ops \<noteq> [] \<Longrightarrow> last (file_of c ops) = newline_char \<and> file_of c ops \<noteq> []"
  by (induction ops rule: rev_induct) (simp_all add: file_of_def text_is_line)

lemma no_file: "file_of c [] = []"
  by (simp add: file_of_def)

lemma replay_file:
  assumes "journal_codec_ok c" "newline_char \<notin> set torn"
  shows "replay_journal c (file_of c ops @ torn) j = Inr (fold apply_op ops j)"
proof (cases "torn = []")
  case False
  then have "last (file_of c ops @ torn) \<noteq> newline_char" using assms(2) by (metis last_appendR last_in_set)
  then show ?thesis using False split_file[OF assms, of ops] replay_own_lines[OF assms(1), of ops "[]" j]
    by (simp add: replay_journal_def)
next
  case True
  then show ?thesis using split_file[OF assms, of ops] replay_own_lines[OF assms(1), of ops "[[]]" j] file_end[OF assms(1), of ops]
    by (cases "ops = []") (simp_all add: replay_journal_def no_file)
qed

definition recovered :: "journal_codec \<Rightarrow> journal_op list \<Rightarrow> string \<Rightarrow> order_journal" where
  "recovered c ops torn = fold apply_op ops
     \<lparr>oj_states = [], oj_ib_next = None, oj_window = [], oj_breaches = [], oj_file = file_of c ops @ torn\<rparr>"

lemma open_recovers:
  assumes "journal_codec_ok c" "newline_char \<notin> set torn"
  shows "open_journal c (file_of c ops @ torn) = Inr (recovered c ops torn)"
  using replay_file[OF assms] by (simp add: open_journal_def recovered_def)

lemma observe_fields [simp]:
  "oj_states (observe_latency w b t j) = oj_states j" "oj_ib_next (observe_latency w b t j) = oj_ib_next j"
  "oj_file (observe_latency w b t j) = oj_file j"
  by (simp_all add: observe_latency_def Let_def)

lemma append_fields [simp]:
  "oj_states (append_payload c t d j) = oj_states j" "oj_ib_next (append_payload c t d j) = oj_ib_next j"
  "oj_file (append_payload c t d j) = oj_file j @ journal_line c d"
  by (simp_all add: append_payload_def)

lemma apply_fields:
  "oj_file (apply_op op j) = oj_file j"
  "oj_states (apply_op op j) = (case op of Attempt oid \<Rightarrow> dict_set oid UNKNOWN (oj_states j) | Reject oid \<Rightarrow> dict_set oid REFUSED (oj_states j) | _ \<Rightarrow> oj_states j)"
  by (cases op; simp add: set_state_def raise_high_water_def)+

lemma record_fields:
  "oj_file (record_op c t op j) = oj_file j @ journal_line c (payload_of op)"
  "oj_states (record_op c t op j) = oj_states (apply_op op j)"
  by (cases op; simp add: record_attempt_def record_reject_def record_ib_next_valid_id_def set_state_def raise_high_water_def)+

text \<open>A journal of this life: its file is the lines of the operations applied to it.\<close>

definition holds_ops :: "journal_codec \<Rightarrow> journal_op list \<Rightarrow> order_journal \<Rightarrow> bool" where
  "holds_ops c ops j \<longleftrightarrow> oj_file j = file_of c ops \<and> oj_states j = oj_states (recovered c ops [])"

lemma recovered_file: "oj_file (recovered c ops torn) = file_of c ops @ torn"
proof -
  have "oj_file (fold apply_op ops j) = oj_file j" for j by (induction ops arbitrary: j) (simp_all add: apply_fields)
  then show ?thesis by (simp add: recovered_def)
qed

lemma recovered_states: "oj_states (recovered c ops torn) = oj_states (recovered c ops torn')"
proof -
  have "oj_states (fold apply_op ops j) = oj_states (fold apply_op ops k)" if "oj_states j = oj_states k" for j k
    using that by (induction ops arbitrary: j k) (auto simp: apply_fields split: journal_op.splits)
  then show ?thesis by (simp add: recovered_def)
qed

lemma holds_op:
  assumes "holds_ops c ops j"
  shows "holds_ops c (ops @ [op]) (record_op c t op j)"
  using assms recovered_states[of c _ "[]"]
  by (auto simp: holds_ops_def record_fields apply_fields file_of_def recovered_def split: journal_op.splits)

lemma holds_more: "holds_ops c ops j \<Longrightarrow> holds_ops c (ops @ more') (fold (record_op c t) more' j)"
  using holds_op by (induction more' arbitrary: ops j) fastforce+

lemma attempt_stands:
  assumes "Reject oid \<notin> set ops" "map_of (oj_states j) oid = Some UNKNOWN"
  shows "map_of (oj_states (fold apply_op ops j)) oid = Some UNKNOWN"
  using assms by (induction ops arbitrary: j) (auto simp: apply_fields split: journal_op.splits)

subsection \<open>Crashes\<close>

lemma fold_states: "oj_states j = oj_states k \<Longrightarrow> oj_states (fold apply_op ops j) = oj_states (fold apply_op ops k)"
  by (induction ops arbitrary: j k) (auto simp: apply_fields split: journal_op.splits)

lemma recovered_grow: "oj_states (recovered c (ops @ ops') torn) = oj_states (fold apply_op ops' (recovered c ops torn))"
  unfolding recovered_def fold_append comp_apply by (intro fold_states) simp

text \<open>A strict prefix of the line being written never holds the line break that ends it.\<close>

lemma torn_prefix:
  assumes "journal_codec_ok c" "journal_line c (payload_of op) = torn @ rest" "rest \<noteq> []"
  shows "newline_char \<notin> set torn"
proof -
  have "torn @ rest = text_of c op @ [newline_char]" using assms(2) text_is_line(1)[OF assms(1)] by simp
  then have "torn @ butlast rest = text_of c op" using assms(3) by (metis butlast_append butlast_snoc)
  then show ?thesis using text_is_line(2)[OF assms(1), of op] by (metis Un_iff set_append)
qed

lemma crash_refuses:
  assumes c: "journal_codec_ok c" and j: "holds_ops c ops j"
    and submit: "rt_submit (journaled c elapsed push rt) o' (r, j) = (e, (r1, j1))"
    and later: "j2 = fold (record_op c elapsed) ops' j1" "Reject (or_order_id o') \<notin> set ops'" and torn: "newline_char \<notin> set torn"
  shows "\<exists>j3. open_journal c (oj_file j2 @ torn) = Inr j3 \<and> must_refuse j3 (or_order_id o')"
proof -
  let ?oid = "or_order_id o'"
  obtain ops1 where j1: "holds_ops c ops1 j1" "map_of (oj_states j1) ?oid = Some UNKNOWN"
  proof (cases "must_refuse j ?oid")
    case True
    then show ?thesis using submit j that[of ops] by (simp add: journaled_def must_refuse_def)
  next
    case False
    then have "j1 = record_op c elapsed (Attempt ?oid) j"
      using submit by (auto simp: journaled_def Let_def split: prod.splits)
    then show ?thesis using holds_op[OF j, of "Attempt ?oid" elapsed] that[of "ops @ [Attempt ?oid]"]
      by (simp add: record_attempt_def set_state_def)
  qed
  have disk: "oj_file j2 = file_of c (ops1 @ ops')" using holds_more[OF j1(1), of ops' elapsed] later(1) by (simp add: holds_ops_def)
  have "map_of (oj_states (recovered c ops1 [])) ?oid = Some UNKNOWN" using j1 by (simp add: holds_ops_def)
  then have "map_of (oj_states (recovered c (ops1 @ ops') [])) ?oid = Some UNKNOWN"
    using attempt_stands[OF later(2)] by (simp add: recovered_grow)
  then have "must_refuse (recovered c (ops1 @ ops') torn) ?oid"
    using recovered_states[of c "ops1 @ ops'" torn "[]"] by (simp add: must_refuse_def)
  then show ?thesis using open_recovers[OF c torn] disk by auto
qed

text \<open>C25: No order is sent twice across a crash. Once a journaled router has been handed an order, whatever is
  recorded afterwards short of its rejection, and whatever part of a further line a crash leaves in
  the file, the journal reopens and the wrapper refuses the order without calling the router.\<close>

theorem crash_never_resubmits:
  assumes "journal_codec_ok c" "holds_ops c ops j"
    and "rt_submit (journaled c elapsed push rt) o' (r, j) = (e, (r1, j1))"
    and "j2 = fold (record_op c elapsed) ops' j1" "Reject (or_order_id o') \<notin> set ops'" "newline_char \<notin> set torn"
  shows "\<exists>j3. open_journal c (oj_file j2 @ torn) = Inr j3
    \<and> rt_submit (journaled c elapsed push rt) o' (r2, j3) = (None, (push o' (duplicate_reason o') r2, j3))"
  using crash_refuses[OF assms] by (auto simp: journaled_def)

text \<open>A torn line costs the next attempt. The file is reopened for appending with the torn tail in place, so
  the next attempt is written onto it; the attempt is refused in this life, but the line does not
  parse, and after a second restart the journal decides as if it had never been made.\<close>

theorem torn_tail_loses_attempt:
  assumes c: "journal_codec_ok c" and torn: "torn \<noteq> []" "newline_char \<notin> set torn"
    and glued: "\<forall>d. jc_loads c (torn @ jc_dumps c (JObj d)) = None"
    and j: "open_journal c (file_of c ops @ torn) = Inr j"
  shows "\<exists>j'. must_refuse (record_attempt c elapsed oid j) oid
    \<and> open_journal c (oj_file (record_attempt c elapsed oid j)) = Inr j' \<and> decision j' oid = decision j oid"
proof -
  let ?j = "record_attempt c elapsed oid j" and ?op = "Attempt oid"
  have j': "j = recovered c ops torn" using open_recovers[OF c torn(2)] j by simp
  have "must_refuse ?j oid" by (simp add: record_attempt_def must_refuse_def set_state_def)
  have disk: "oj_file ?j = file_of c ops @ (torn @ text_of c ?op) @ [newline_char]"
    using record_fields(1)[of c elapsed ?op j] text_is_line(1)[OF c, of ?op] by (simp add: j' recovered_file)
  have "split_newlines (oj_file ?j) = map (text_of c) ops @ [torn @ text_of c ?op, []]"
  proof -
    have "newline_char \<notin> set (torn @ text_of c ?op)" using torn(2) text_is_line(2)[OF c, of ?op] by auto
    from split_line[OF this, of "[]"]
    have "split_newlines ((torn @ text_of c ?op) @ [newline_char]) = [torn @ text_of c ?op, []]"
      unfolding split_newlines.simps(1) .
    moreover have "split_newlines (file_of c ops @ s) = map (text_of c) ops @ split_newlines s" for s
      using c by (induction ops) (simp_all add: file_of_def text_is_line split_line)
    ultimately show ?thesis unfolding disk by simp
  qed
  moreover have "parse_line c (torn @ text_of c ?op) = None"
    using glued by (simp add: parse_line_def text_of_def canonical_def)
  ultimately have "open_journal c (oj_file ?j) = Inr (recovered c ops (torn @ text_of c ?op @ [newline_char]))"
    using torn(1) replay_own_lines[OF c, of ops "[torn @ text_of c ?op, []]"]
    by (simp add: open_journal_def replay_journal_def recovered_def disk)
  moreover have "decision (recovered c ops (torn @ text_of c ?op @ [newline_char])) oid = decision j oid"
    using recovered_states[of c ops "torn @ text_of c ?op @ [newline_char]" torn] by (simp add: decision_def j')
  ultimately show ?thesis using \<open>must_refuse ?j oid\<close> by blast
qed

subsection \<open>A sample codec\<close>

definition sample_journal_codec :: journal_codec where
  \<comment> \<open>a dictionary is its number in unary between braces\<close>
  "sample_journal_codec =
     \<lparr>jc_dumps = (\<lambda>x. CHR ''{'' # replicate (to_nat x) CHR ''1'' @ [CHR ''}'']),
      jc_loads = (\<lambda>s. if s \<noteq> [] \<and> hd s = CHR ''{'' \<and> (\<forall>ch \<in> set (butlast (tl s)). ch = CHR ''1'')
                      then Some (from_nat (length s - 2)) else None),
      jc_sha = (\<lambda>s. s), jc_str = (\<lambda>x. case x of JStr s \<Rightarrow> s | _ \<Rightarrow> []),
      jc_int = (\<lambda>x. case x of JInt n \<Rightarrow> Inr n | _ \<Rightarrow> Inl (TypeError ''int''))\<rparr>"

lemma sample_journal_codec_ok: "journal_codec_ok sample_journal_codec"
  by (simp add: journal_codec_ok_def sample_journal_codec_def newline_char_def)

definition sample_journal :: order_journal where
  "sample_journal = \<lparr>oj_states = [], oj_ib_next = None, oj_window = [], oj_breaches = [], oj_file = []\<rparr>"

definition sample_router :: "nat router" where
  \<comment> \<open>counts the orders it was handed\<close>
  "sample_router = \<lparr>rt_submit = (\<lambda>_ n. (None, Suc n)), rt_poll = (\<lambda>n. (Inr [], n)), rt_cancel = None, rt_expire_moc = None\<rparr>"

lemma crash_never_resubmits_witness:
  "\<exists>j1 j3. rt_submit (journaled sample_journal_codec 0 (\<lambda>_ _ n. n) sample_router) sample_order (0, sample_journal) = (None, (1, j1))
    \<and> open_journal sample_journal_codec (oj_file j1 @ ''{'') = Inr j3
    \<and> rt_submit (journaled sample_journal_codec 0 (\<lambda>_ _ n. n) sample_router) sample_order (1, j3) = (None, (1, j3))"
proof -
  define j1 where "j1 = record_attempt sample_journal_codec 0 (or_order_id sample_order) sample_journal"
  have s: "rt_submit (journaled sample_journal_codec 0 (\<lambda>_ _ n. n) sample_router) sample_order (0, sample_journal) = (None, (1, j1))"
    by (simp add: journaled_def must_refuse_def sample_journal_def sample_router_def j1_def)
  have "holds_ops sample_journal_codec [] sample_journal" by (simp add: holds_ops_def sample_journal_def recovered_def file_of_def)
  from crash_never_resubmits[OF sample_journal_codec_ok this s, of j1 "[]" "''{''" 1] s show ?thesis
    by (auto simp: newline_char_def)
qed

lemma torn_tail_witness:
  "\<exists>j j'. open_journal sample_journal_codec ''{'' = Inr j \<and> must_refuse (record_attempt sample_journal_codec 0 ''o1'' j) ''o1''
    \<and> open_journal sample_journal_codec (oj_file (record_attempt sample_journal_codec 0 ''o1'' j)) = Inr j' \<and> decision j' ''o1'' = ABSENT"
proof -
  have t: "newline_char \<notin> set ''{''" by (simp add: newline_char_def)
  have g: "\<forall>d. jc_loads sample_journal_codec (''{'' @ jc_dumps sample_journal_codec (JObj d)) = None"
    by (simp add: sample_journal_codec_def)
  have o: "open_journal sample_journal_codec (file_of sample_journal_codec [] @ ''{'') = Inr (recovered sample_journal_codec [] ''{'')"
    by (rule open_recovers[OF sample_journal_codec_ok t])
  have "decision (recovered sample_journal_codec [] ''{'') ''o1'' = ABSENT" by (simp add: decision_def recovered_def)
  with torn_tail_loses_attempt[OF sample_journal_codec_ok _ t g o, of 0 "''o1''"] o show ?thesis
    by (auto simp: file_of_def)
qed

end
