(* ===== verification/Passive_Router.thy ===== *)
theory Passive_Router
  imports Backtest_Router Order_Journal
begin

section \<open>The passive limit router (execution/passive\_limit\_router.py)\<close>

text \<open>
  The simulated router whose limit orders rest at the near touch. A resting order fills when the
  opposite touch crosses its level, or when a draw derived from a hash of the quote and the order
  falls below a hazard; it is cancelled after a number of quotes. Market orders and marketable
  limits share the aggressive fill model and the deferral of \<open>Backtest_Router\<close>, whose state this
  router extends. The first eight bytes of the SHA-256 digest are a parameter, a function of the
  seed's fields. The index of resting orders by symbol is the sublist of that symbol's
  entries, in the same insertion order.
\<close>

subsection \<open>State\<close>

datatype passive_outcome =
  FILLED_BY_THROUGH | FILLED_BY_DRAIN | CANCELLED_MAX_RESTING_TICKS | CANCELLED_LEVEL_LEFT_BBO

fun outcome_name :: "passive_outcome \<Rightarrow> string" where
  "outcome_name FILLED_BY_THROUGH = ''FILLED_BY_THROUGH''"
| "outcome_name FILLED_BY_DRAIN = ''FILLED_BY_DRAIN''"
| "outcome_name CANCELLED_MAX_RESTING_TICKS = ''CANCELLED_MAX_RESTING_TICKS''"
| "outcome_name CANCELLED_LEVEL_LEFT_BBO = ''CANCELLED_LEVEL_LEFT_BBO''"

record resting_order =
  ro_request :: order_request
  ro_side :: side
  ro_limit :: decimal
  ro_ack_ts :: ns
  ro_queue_ahead :: int
  ro_ticks_at_level :: int
  ro_total_ticks :: int
  ro_traded :: int
  ro_filled :: int
  ro_at_bbo :: bool

type_synonym draw_seed = "symbol \<times> int \<times> ns \<times> int \<times> side \<times> decimal \<times> string"

record passive_config =
  pc_router :: router_config
  pc_base_hazard :: decimal
  pc_hazard_max :: decimal
  pc_queue_shares :: int
  pc_cancel_fee :: decimal
  pc_size_cap :: bool
  pc_require_trade :: bool
  pc_digest :: "draw_seed \<Rightarrow> int"
  pc_codec :: journal_codec

definition base_hazard :: "int \<Rightarrow> decimal \<Rightarrow> decimal" where
  "base_hazard fill_delay_ticks hazard_max = (if 0 < fill_delay_ticks then dec_div 1 (of_int fill_delay_ticks) else hazard_max)"

record passive_router = bt_router +
  pr_resting :: "(string \<times> resting_order) list"
  pr_journal :: "order_journal option"
  pr_through :: int
  pr_drain :: int
  pr_max_resting :: int
  pr_left_level :: int
  pr_sum_ticks :: int

type_synonym 'a pact = "(passive_router, 'a) act"

definition journal_ids :: "order_journal option \<Rightarrow> string set" where
  "journal_ids journal = (case journal of None \<Rightarrow> {} | Some j \<Rightarrow> unknown_order_ids j)"

definition new_passive_router :: "order_journal option \<Rightarrow> passive_router" where
  "new_passive_router journal =
     \<lparr>od_pending = [], od_ack_seq = 0, od_submitted = journal_ids journal, br_quotes = (\<lambda>_. None), br_deferred = [],
      br_moc = [], br_locked = 0, br_no_quote = 0, br_duplicate = 0, br_zero_depth = 0, pr_resting = [], pr_journal = journal,
      pr_through = 0, pr_drain = 0, pr_max_resting = 0, pr_left_level = 0, pr_sum_ticks = 0\<rparr>"

definition passive_reset :: "passive_router \<Rightarrow> passive_router" where
  "passive_reset r = r\<lparr>pr_through := 0, pr_drain := 0, pr_max_resting := 0, pr_left_level := 0, pr_sum_ticks := 0,
     br_quotes := (\<lambda>_. None), od_pending := [], pr_resting := [], od_submitted := journal_ids (pr_journal r), br_locked := 0,
     br_no_quote := 0, br_duplicate := 0, br_zero_depth := 0, br_deferred := [], od_ack_seq := 0, br_moc := []\<rparr>"

definition bind_submitted_order_journal :: "order_journal \<Rightarrow> passive_router \<Rightarrow> passive_router" where
  "bind_submitted_order_journal j r = r\<lparr>pr_journal := Some j, od_submitted := od_submitted r \<union> unknown_order_ids j\<rparr>"

definition journal_reject :: "passive_config \<Rightarrow> string \<Rightarrow> passive_router \<Rightarrow> passive_router" where
  "journal_reject pc oid r = r\<lparr>pr_journal := map_option (record_reject (pc_codec pc) 0 oid) (pr_journal r)\<rparr>"

definition passive_reject :: "passive_config \<Rightarrow> ns \<Rightarrow> order_request \<Rightarrow> string \<Rightarrow> passive_router \<Rightarrow> passive_router" where
  \<comment> \<open>\<open>_reject\<close> with \<open>release_submitted_id\<close>; within one clock reading a journal append takes no time\<close>
  "passive_reject pc ts o' reason r = journal_reject pc (or_order_id o') (append_reject_ack ts o' reason True r)"

subsection \<open>Aggressive orders\<close>

definition passive_market_fill :: "passive_config \<Rightarrow> router_env \<Rightarrow> order_request \<Rightarrow> nbbo_quote \<Rightarrow> ns \<Rightarrow> unit pact" where
  \<comment> \<open>\<open>_execute_market_fill\<close>\<close>
  "passive_market_fill pc env o' q ts r =
     (case rth_should_suppress (pc_router pc) env o' (nq_exchange_timestamp q) of
        Some reason \<Rightarrow> (Inr (), passive_reject pc (re_now env) o' reason r)
      | None \<Rightarrow> append_market_fill_acks (rc_fill (pc_router pc)) o' q ts r)"

definition submit_aggressive_market :: "passive_config \<Rightarrow> router_env \<Rightarrow> order_request \<Rightarrow> nbbo_quote \<Rightarrow> unit pact" where
  "submit_aggressive_market pc env o' q r =
     (let latency = rc_latency (pc_router pc); ack_ts = re_now env + latency;
          r1 = push_status ack_ts o' ACK_ACKNOWLEDGED '''' r in
      if latency \<le> 0
      then if touch_size (or_side o') q \<le> 0
           then (Inr (), passive_reject pc (re_now env) o' zero_depth_reason (r1\<lparr>br_zero_depth := br_zero_depth r1 + 1\<rparr>))
           else passive_market_fill pc env o' q ack_ts r1
      else (Inr (), r1\<lparr>br_deferred := br_deferred r1 @
             [\<lparr>df_request = o', df_deadline = max (re_now env) (nq_exchange_timestamp q) + latency,
               df_ack_ts = ack_ts, df_ticks = 0\<rparr>]\<rparr>))"

definition mid_violates_limit :: "order_request \<Rightarrow> nbbo_quote \<Rightarrow> bool" where
  "mid_violates_limit o' q =
     (case or_limit_price o' of
        None \<Rightarrow> False
      | Some l \<Rightarrow> let mid = dec_div (dec_add (nq_bid q) (nq_ask q)) 2
                  in if or_side o' = BUY then l < mid else mid < l)"

definition flush_aggressive_one :: "passive_config \<Rightarrow> router_env \<Rightarrow> nbbo_quote \<Rightarrow> deferred_fill \<Rightarrow> deferred_fill list pact" where
  \<comment> \<open>the loop body of \<open>_flush_deferred_aggressive\<close>: what is left of one entry\<close>
  "flush_aggressive_one pc env q dm r =
     (let o' = df_request dm; ticks = df_ticks dm + 1; late = max (re_now env) (df_ack_ts dm) in
      if or_symbol o' \<noteq> nq_symbol q then (Inr [dm], r)
      else if nq_exchange_timestamp q < df_deadline dm
      then if rc_max_resting (pc_router pc) \<le> ticks then (Inr [], passive_reject pc late o' ''deferred aggressive timeout'' r)
           else (Inr [dm\<lparr>df_ticks := ticks\<rparr>], r)
      else if nq_ask q \<le> nq_bid q then (Inr [], passive_reject pc late o' ''crossed or locked quote'' r)
      else if touch_size (or_side o') q \<le> 0 then (Inr [], passive_reject pc late o' zero_depth_reason r)
      else if mid_violates_limit o' q then (Inr [], passive_reject pc late o' ''deferred fill mid violates limit'' r)
      else case rth_should_suppress (pc_router pc) env o' (nq_exchange_timestamp q) of
             Some reason \<Rightarrow> (Inr [], passive_reject pc (re_now env) o' reason r)
           | None \<Rightarrow> andThen (passive_market_fill pc env o' q late) (\<lambda>_. ok []) r)"

fun flush_aggressive_loop :: "passive_config \<Rightarrow> router_env \<Rightarrow> nbbo_quote \<Rightarrow> deferred_fill list \<Rightarrow> deferred_fill list pact" where
  "flush_aggressive_loop pc env q [] = ok []"
| "flush_aggressive_loop pc env q (dm # dms) =
     andThen (flush_aggressive_one pc env q dm)
       (\<lambda>left. andThen (flush_aggressive_loop pc env q dms) (\<lambda>rest. ok (left @ rest)))"

definition flush_deferred_aggressive :: "passive_config \<Rightarrow> router_env \<Rightarrow> nbbo_quote \<Rightarrow> unit pact" where
  "flush_deferred_aggressive pc env q r =
     (if br_deferred r = [] then (Inr (), r)
      else andThen (flush_aggressive_loop pc env q (br_deferred r)) (\<lambda>rest. modify (\<lambda>r. r\<lparr>br_deferred := rest\<rparr>)) r)"

subsection \<open>Posting and submission\<close>

definition post_passive :: "passive_config \<Rightarrow> router_env \<Rightarrow> order_request \<Rightarrow> nbbo_quote \<Rightarrow> unit pact" where
  "post_passive pc env o' q r =
     (let sd = or_side o';
          l = (case or_limit_price o' of Some l \<Rightarrow> l | None \<Rightarrow> if sd = BUY then nq_bid q else nq_ask q) in
      if sd = BUY \<and> nq_ask q \<le> l \<or> sd = SELL \<and> l \<le> nq_bid q then submit_aggressive_market pc env o' q r
      else andThen (lift_result (snap_limit_price sd l)) (\<lambda>snapped r.
        let ack_ts = max (re_now env) (nq_exchange_timestamp q) + rc_latency (pc_router pc);
            p = \<lparr>ro_request = o', ro_side = sd, ro_limit = snapped, ro_ack_ts = ack_ts, ro_queue_ahead = pc_queue_shares pc,
                 ro_ticks_at_level = 0, ro_total_ticks = 0, ro_traded = 0, ro_filled = 0, ro_at_bbo = False\<rparr>
        in (Inr (), push_status ack_ts o' ACK_ACKNOWLEDGED '''' (r\<lparr>pr_resting := dict_set (or_order_id o') p (pr_resting r)\<rparr>))) r)"

definition refuse_duplicate :: "router_env \<Rightarrow> order_request \<Rightarrow> passive_router \<Rightarrow> passive_router" where
  "refuse_duplicate env o' r =
     append_reject_ack (re_now env) o' (''duplicate order_id: '' @ or_order_id o') False (r\<lparr>br_duplicate := br_duplicate r + 1\<rparr>)"

definition passive_submit :: "passive_config \<Rightarrow> router_env \<Rightarrow> order_request \<Rightarrow> nbbo_quote option \<Rightarrow> unit pact" where
  "passive_submit pc env o' triggering r =
     (let oid = or_order_id o'; now = re_now env in
      if oid \<in> od_submitted r then (Inr (), refuse_duplicate env o' r)
      else if (case pr_journal r of None \<Rightarrow> False | Some j \<Rightarrow> must_refuse j oid) then (Inr (), refuse_duplicate env o' r)
      else
        let r1 = r\<lparr>pr_journal := map_option (record_attempt (pc_codec pc) 0 oid) (pr_journal r), od_submitted := insert oid (od_submitted r)\<rparr> in
        case (case triggering of Some q \<Rightarrow> Some q | None \<Rightarrow> br_quotes r1 (or_symbol o')) of
          None \<Rightarrow> (Inr (), passive_reject pc now o' ''no quote available for symbol'' (r1\<lparr>br_no_quote := br_no_quote r1 + 1\<rparr>))
        | Some q \<Rightarrow>
            if nq_ask q \<le> nq_bid q
            then (Inr (), passive_reject pc now o' ''crossed or locked quote'' (r1\<lparr>br_locked := br_locked r1 + 1\<rparr>))
            else case rth_should_suppress (pc_router pc) env o' (nq_exchange_timestamp q) of
                   Some reason \<Rightarrow> (Inr (), passive_reject pc now o' reason r1)
                 | None \<Rightarrow>
                     (case moc_submit (passive_reject pc) (pc_router pc) env o' (nq_exchange_timestamp q) r1 of
                        (True, r2) \<Rightarrow> (Inr (), r2)
                      | (False, r2) \<Rightarrow>
                          (case or_order_type o' of
                             MARKET \<Rightarrow> submit_aggressive_market pc env o' q r2
                           | LIMIT \<Rightarrow> post_passive pc env o' q r2)))"

subsection \<open>Resting orders\<close>

definition resting_at :: "symbol \<Rightarrow> passive_router \<Rightarrow> string list" where
  \<comment> \<open>the index by symbol, in insertion order\<close>
  "resting_at s r = map fst (filter (\<lambda>(_, p). or_symbol (ro_request p) = s) (pr_resting r))"

definition trade_drains :: "passive_config \<Rightarrow> trade \<Rightarrow> resting_order \<Rightarrow> resting_order" where
  "trade_drains pc t p =
     (if ro_queue_ahead p \<le> 0 \<and> \<not> pc_require_trade pc then p
      else if td_exchange_timestamp t < ro_ack_ts p then p
      else if (if ro_side p = BUY then td_price t \<le> ro_limit p else ro_limit p \<le> td_price t)
      then p\<lparr>ro_traded := ro_traded p + td_size t\<rparr> else p)"

definition passive_on_trade :: "passive_config \<Rightarrow> trade \<Rightarrow> passive_router \<Rightarrow> passive_router" where
  "passive_on_trade pc t r =
     r\<lparr>pr_resting := map (\<lambda>(oid, p). (oid, if or_symbol (ro_request p) = td_symbol t then trade_drains pc t p else p)) (pr_resting r)\<rparr>"

definition fill_hazard :: "passive_config \<Rightarrow> resting_order \<Rightarrow> nbbo_quote \<Rightarrow> decimal" where
  "fill_hazard pc p q =
     (if 0 < ro_queue_ahead p then (if ro_queue_ahead p \<le> ro_traded p then pc_hazard_max pc else 0)
      else if pc_require_trade pc \<and> ro_traded p \<le> 0 then 0
      else let ours = (if ro_side p = BUY then nq_bid_size q else nq_ask_size q);
               theirs = (if ro_side p = BUY then nq_ask_size q else nq_bid_size q);
               imbalance = (if 0 < ours + theirs then dec_div (of_int theirs) (of_int (ours + theirs)) else 1/2);
               hazard = dec_mul (pc_base_hazard pc) (dec_mul 2 imbalance)
           in if hazard < 0 then 0 else if pc_hazard_max pc < hazard then pc_hazard_max pc else hazard)"

definition seeded_uniform :: "passive_config \<Rightarrow> resting_order \<Rightarrow> nbbo_quote \<Rightarrow> decimal" where
  "seeded_uniform pc p q =
     dec_div (of_int (pc_digest pc (nq_symbol q, nq_sequence_number q, nq_exchange_timestamp q, ro_ticks_at_level p,
       ro_side p, ro_limit p, or_order_id (ro_request p)))) (2 ^ 64)"

datatype fill_action = Through | Drain | Time_Out | Wait

definition evaluate_fill :: "passive_config \<Rightarrow> resting_order \<Rightarrow> nbbo_quote \<Rightarrow> fill_action \<times> resting_order" where
  "evaluate_fill pc p q =
     (let crossed = (if ro_side p = BUY then nq_ask q \<le> ro_limit p else ro_limit p \<le> nq_bid q);
          at_level = (if ro_side p = BUY then nq_bid q \<le> ro_limit p else ro_limit p \<le> nq_ask q)
      in if crossed then (Through, p\<lparr>ro_at_bbo := True\<rparr>)
         else let p1 = (if at_level then p else p\<lparr>ro_ticks_at_level := 0, ro_traded := 0\<rparr>);
                  p2 = p1\<lparr>ro_at_bbo := at_level\<rparr>;
                  p3 = (if at_level then p2\<lparr>ro_ticks_at_level := ro_ticks_at_level p2 + 1\<rparr> else p2);
                  hazard = fill_hazard pc p3 q
              in if at_level \<and> 0 < hazard \<and> seeded_uniform pc p3 q < hazard then (Drain, p3)
                 else if rc_max_resting (pc_router pc) \<le> ro_total_ticks p3 then (Time_Out, p3)
                 else (Wait, p3))"

definition emit_passive_fill ::
  "passive_config \<Rightarrow> router_env \<Rightarrow> resting_order \<Rightarrow> decimal \<Rightarrow> fill_type \<Rightarrow> decimal \<Rightarrow> passive_outcome \<Rightarrow> int
     \<Rightarrow> order_ack_status \<Rightarrow> unit pact" where
  "emit_passive_fill pc env p price kind adverse outcome qty st =
     (let o' = ro_request p in
      andThen (lift_result (snap_limit_price (ro_side p) price)) (\<lambda>px.
      andThen (lift_result (fc_cost (rc_fill (pc_router pc)) (or_symbol o') (ro_side p) qty px 0 False (or_is_short o')
                 (Some kind) (Some adverse) (kind = THROUGH))) (\<lambda>c.
      modify (push_ack (\<lambda>n. router_ack (max (re_now env) (ro_ack_ts p)) n o' st qty (Some px)
                 (cb_total_fees c) (cb_cost_bps c) (outcome_name outcome))))))"

definition append_cancel_ack ::
  "passive_config \<Rightarrow> router_env \<Rightarrow> resting_order \<Rightarrow> string \<Rightarrow> order_ack_status \<Rightarrow> unit pact" where
  "append_cancel_ack pc env p reason st =
     andThen (lift_result (cents (dec_mul (pc_cancel_fee pc) (of_int (or_quantity (ro_request p)))))) (\<lambda>fees.
       modify (push_ack (\<lambda>n. router_ack (max (re_now env) (ro_ack_ts p)) n (ro_request p) st 0 None
                 (if 0 < fees then fees else 0) 0 reason)))"

definition record_passive_fill :: "resting_order \<Rightarrow> passive_outcome \<Rightarrow> passive_router \<Rightarrow> passive_router" where
  "record_passive_fill p outcome r =
     (let r1 = (if outcome = FILLED_BY_THROUGH then r\<lparr>pr_through := pr_through r + 1\<rparr> else r\<lparr>pr_drain := pr_drain r + 1\<rparr>)
      in r1\<lparr>pr_sum_ticks := pr_sum_ticks r1 + ro_total_ticks p\<rparr>)"

definition record_passive_cancel :: "passive_outcome \<Rightarrow> passive_router \<Rightarrow> passive_router" where
  "record_passive_cancel outcome r =
     (if outcome = CANCELLED_MAX_RESTING_TICKS then r\<lparr>pr_max_resting := pr_max_resting r + 1\<rparr>
      else r\<lparr>pr_left_level := pr_left_level r + 1\<rparr>)"

definition put_resting :: "string \<Rightarrow> resting_order \<Rightarrow> passive_router \<Rightarrow> passive_router" where
  "put_resting oid p r = r\<lparr>pr_resting := dict_set oid p (pr_resting r)\<rparr>"

definition fill_through :: "passive_config \<Rightarrow> router_env \<Rightarrow> nbbo_quote \<Rightarrow> string \<Rightarrow> resting_order \<Rightarrow> bool pact" where
  \<comment> \<open>whether the order is to be removed\<close>
  "fill_through pc env q oid p =
     (let sd = ro_side p; other = touch sd q; remaining = or_quantity (ro_request p) - ro_filled p;
          price = (if sd = BUY \<and> other < ro_limit p \<or> sd = SELL \<and> ro_limit p < other then other else ro_limit p);
          qty = (if pc_size_cap pc \<and> 0 < touch_size sd q then min remaining (touch_size sd q) else remaining)
      in if remaining \<le> qty
         then andThen (emit_passive_fill pc env p price THROUGH other FILLED_BY_THROUGH qty ACK_FILLED) (\<lambda>_.
              andThen (modify (record_passive_fill p FILLED_BY_THROUGH)) (\<lambda>_. ok True))
         else andThen (emit_passive_fill pc env p price THROUGH other FILLED_BY_THROUGH qty ACK_PARTIALLY_FILLED) (\<lambda>_.
              andThen (modify (put_resting oid (p\<lparr>ro_filled := ro_filled p + qty\<rparr>))) (\<lambda>_. ok False)))"

definition act_on_resting :: "passive_config \<Rightarrow> router_env \<Rightarrow> nbbo_quote \<Rightarrow> string \<Rightarrow> fill_action \<Rightarrow> resting_order \<Rightarrow> bool pact" where
  "act_on_resting pc env q oid action p =
     (let gate = (if action = Through \<or> action = Drain
                  then rth_should_suppress (pc_router pc) env (ro_request p) (nq_exchange_timestamp q) else None)
      in case gate of
           Some reason \<Rightarrow>
             andThen (modify (passive_reject pc (max (re_now env) (ro_ack_ts p)) (ro_request p) reason)) (\<lambda>_. ok True)
         | None \<Rightarrow>
             (case action of
                Through \<Rightarrow> fill_through pc env q oid p
              | Drain \<Rightarrow>
                  andThen (emit_passive_fill pc env p (ro_limit p) LEVEL (touch (ro_side p) q) FILLED_BY_DRAIN
                      (or_quantity (ro_request p) - ro_filled p) ACK_FILLED) (\<lambda>_.
                  andThen (modify (record_passive_fill p FILLED_BY_DRAIN)) (\<lambda>_. ok True))
              | Time_Out \<Rightarrow>
                  let outcome = (if ro_at_bbo p then CANCELLED_MAX_RESTING_TICKS else CANCELLED_LEVEL_LEFT_BBO) in
                  andThen (append_cancel_ack pc env p (outcome_name outcome) ACK_EXPIRED) (\<lambda>_.
                  andThen (modify (record_passive_cancel outcome)) (\<lambda>_. ok True))
              | Wait \<Rightarrow> ok False))"

definition check_one :: "passive_config \<Rightarrow> router_env \<Rightarrow> nbbo_quote \<Rightarrow> string \<Rightarrow> bool pact" where
  "check_one pc env q oid r =
     (case map_of (pr_resting r) oid of
        None \<Rightarrow> (Inl (KeyError oid), r)
      | Some p \<Rightarrow>
          if nq_exchange_timestamp q < ro_ack_ts p then (Inr False, r)
          else case evaluate_fill pc (p\<lparr>ro_total_ticks := ro_total_ticks p + 1\<rparr>) q of
                 (action, p') \<Rightarrow> act_on_resting pc env q oid action p' (put_resting oid p' r))"

fun check_loop :: "passive_config \<Rightarrow> router_env \<Rightarrow> nbbo_quote \<Rightarrow> string list \<Rightarrow> string list pact" where
  \<comment> \<open>its result is \<open>to_remove\<close>\<close>
  "check_loop pc env q [] = ok []"
| "check_loop pc env q (oid # ids) =
     andThen (check_one pc env q oid)
       (\<lambda>gone. andThen (check_loop pc env q ids) (\<lambda>rest. ok (if gone then oid # rest else rest)))"

definition remove_resting :: "string \<Rightarrow> passive_router \<Rightarrow> passive_router" where
  "remove_resting oid r = r\<lparr>pr_resting := dict_pop oid (pr_resting r)\<rparr>"

definition check_resting_orders :: "passive_config \<Rightarrow> router_env \<Rightarrow> nbbo_quote \<Rightarrow> unit pact" where
  "check_resting_orders pc env q r =
     andThen (check_loop pc env q (resting_at (nq_symbol q) r)) (\<lambda>gone. modify (fold remove_resting gone)) r"

subsection \<open>The router's operations\<close>

definition passive_on_quote :: "passive_config \<Rightarrow> router_env \<Rightarrow> nbbo_quote \<Rightarrow> unit pact" where
  "passive_on_quote pc env q =
     andThen (modify (\<lambda>r. r\<lparr>br_quotes := (br_quotes r)(nq_symbol q := Some q)\<rparr>)) (\<lambda>_.
     andThen (moc_on_quote (pc_router pc) q) (\<lambda>_.
     andThen (flush_deferred_aggressive pc env q) (\<lambda>_. check_resting_orders pc env q)))"

definition passive_cancel :: "passive_config \<Rightarrow> router_env \<Rightarrow> string \<Rightarrow> bool pact" where
  "passive_cancel pc env oid r =
     (case map_of (pr_resting r) oid of
        None \<Rightarrow>
          if rc_moc (pc_router pc) = None then (Inr False, r)
          else (case moc_cancel_pending env oid ''client_cancel'' r of (b, r') \<Rightarrow> (Inr b, r'))
      | Some p \<Rightarrow>
          andThen (append_cancel_ack pc env p ''client_cancel'' ACK_CANCELLED)
            (\<lambda>_. andThen (modify (remove_resting oid)) (\<lambda>_. ok True)) r)"

definition passive_poll :: "passive_router \<Rightarrow> order_ack list \<times> passive_router" where
  "passive_poll r = (od_pending r, r\<lparr>od_pending := []\<rparr>)"

definition passive_expire :: "passive_config \<Rightarrow> router_env \<Rightarrow> string \<Rightarrow> passive_router \<Rightarrow> passive_router" where
  "passive_expire pc env reason r =
     (if rc_moc (pc_router pc) = None then r else moc_expire_unfilled (passive_reject pc) env reason r)"

definition passive_fill_stats :: "passive_router \<Rightarrow> int \<times> int \<times> float64 \<times> float64" where
  \<comment> \<open>filled, cancelled, the fill rate and the mean number of ticks to a fill\<close>
  "passive_fill_stats r =
     (let filled = pr_through r + pr_drain r; cancelled = pr_max_resting r + pr_left_level r
      in (filled, cancelled, if 0 < filled + cancelled then fl_div (of_int filled) (of_int (filled + cancelled)) else 0,
          if 0 < filled then fl_div (of_int (pr_sum_ticks r)) (of_int filled) else 0))"

definition passive_limit_router :: "passive_config \<Rightarrow> router_env \<Rightarrow> passive_router router" where
  \<comment> \<open>the router as the kernel calls it within one clock reading\<close>
  "passive_limit_router pc env =
     \<lparr>rt_submit = (\<lambda>o' r. case passive_submit pc env o' None r of (Inl e, r') \<Rightarrow> (Some e, r') | (Inr _, r') \<Rightarrow> (None, r')),
      rt_poll = (\<lambda>r. case passive_poll r of (as, r') \<Rightarrow> (Inr as, r')),
      rt_cancel = Some (passive_cancel pc env),
      rt_expire_moc = Some (passive_expire pc env ''MOC_NO_CLOSE_PRINT'')\<rparr>"

subsection \<open>Rejections\<close>

lemma journal_reject_fields [simp]:
  "od_pending (journal_reject pc oid r) = od_pending r" "br_deferred (journal_reject pc oid r) = br_deferred r"
  "br_moc (journal_reject pc oid r) = br_moc r" "od_submitted (journal_reject pc oid r) = od_submitted r"
  "pr_resting (journal_reject pc oid r) = pr_resting r"
  by (simp_all add: journal_reject_def)

lemma passive_reject_emits: "emits [reject_of ts o' reason r] r (passive_reject pc ts o' reason r)"
  using emits_reject[of ts o' reason r] by (simp add: emits_def passive_reject_def br_reject_def)

lemma append_reject_resting [simp]: "pr_resting (append_reject_ack ts o' reason b r) = pr_resting r"
  by (simp add: append_reject_ack_def push_ack_def Let_def)

lemma passive_reject_resting [simp]: "pr_resting (passive_reject pc ts o' reason r) = pr_resting r"
  by (simp add: passive_reject_def)

interpretation journaled_reject: rejecting "passive_reject pc"
  by unfold_locales (rule passive_reject_emits)

lemma append_acks_resting [simp]: "pr_resting (append_acks xs r) = pr_resting r"
  by (simp add: append_acks_def)

definition pemits :: "order_ack list \<Rightarrow> passive_router \<Rightarrow> passive_router \<Rightarrow> bool" where
  "pemits xs r r' \<longleftrightarrow> emits xs r r' \<and> pr_resting r' = pr_resting r"

lemma pemits_refl: "pemits [] r r"
  by (simp add: pemits_def emits_refl)

lemma pemits_trans: "pemits xs r s \<Longrightarrow> pemits ys s t \<Longrightarrow> pemits (xs @ ys) r t"
  by (auto simp: pemits_def intro: emits_trans)

lemma pemits_acks: "pemits xs r (append_acks xs r)"
  by (simp add: pemits_def emits_acks)

lemma pemits_reject: "pemits [reject_of ts o' reason r] r (passive_reject pc ts o' reason r)"
  by (simp add: pemits_def passive_reject_emits)

lemma pemits_count: "pemits xs (r\<lparr>br_zero_depth := n\<rparr>) r' \<Longrightarrow> pemits xs r r'"
  by (simp add: pemits_def emits_def)

lemma expire_resting:
  "pr_resting (fold (\<lambda>m. passive_reject pc (max now (pm_ack_ts m)) (pm_request m) reason) ms r) = pr_resting r"
  by (induction ms arbitrary: r) simp_all

subsection \<open>The deferred queue\<close>

lemma flush_aggressive_one_settles:
  assumes "flush_aggressive_one pc env q dm r = (Inr left, r')" "timely dm" "nq_exchange_timestamp q \<le> re_now env"
  shows "\<exists>xs. pemits xs r r' \<and> ((\<exists>dm'. left = [dm'] \<and> xs = [] \<and> deferred_view dm' = deferred_view dm \<and> timely dm')
    \<or> (left = [] \<and> closing (deferred_view dm) xs))"
proof -
  let ?o = "df_request dm" and ?late = "max (re_now env) (df_ack_ts dm)"
  have rej: ?thesis if "(left, r') = ([], passive_reject pc ts ?o reason r)" "df_ack_ts dm \<le> ts" for ts reason
    by (rule exI[of _ "[reject_of ts ?o reason r]"])
      (use that pemits_reject[of ts ?o reason r pc] in \<open>simp add: deferred_view_def closing_reject\<close>)
  note run = assms(1)[unfolded flush_aggressive_one_def Let_def]
  consider (other) "or_symbol ?o \<noteq> nq_symbol q"
    | (old) "or_symbol ?o = nq_symbol q" "nq_exchange_timestamp q < df_deadline dm" "rc_max_resting (pc_router pc) \<le> df_ticks dm + 1"
    | (waits) "or_symbol ?o = nq_symbol q" "nq_exchange_timestamp q < df_deadline dm" "\<not> rc_max_resting (pc_router pc) \<le> df_ticks dm + 1"
    | (ripe) "or_symbol ?o = nq_symbol q" "\<not> nq_exchange_timestamp q < df_deadline dm"
    by blast
  then show ?thesis
  proof cases
    case other
    then show ?thesis using run assms(2) pemits_refl[of r] by auto
  next
    case old
    then show ?thesis using run by (intro rej[of ?late "''deferred aggressive timeout''"]) auto
  next
    case waits
    then show ?thesis using run assms(2) pemits_refl[of r] by (auto simp: deferred_view_def timely_def)
  next
    case ripe
    then have now: "df_ack_ts dm \<le> re_now env" using assms(2,3) by (simp add: timely_def)
    show ?thesis
    proof (cases "nq_ask q \<le> nq_bid q \<or> touch_size (or_side ?o) q \<le> 0 \<or> mid_violates_limit ?o q
        \<or> rth_should_suppress (pc_router pc) env ?o (nq_exchange_timestamp q) \<noteq> None")
      case True
      then obtain ts reason where "(left, r') = ([], passive_reject pc ts ?o reason r)" "df_ack_ts dm \<le> ts"
        using run ripe now by (auto split: if_splits)
      then show ?thesis by (rule rej)
    next
      case False
      then have "andThen (append_market_fill_acks (rc_fill (pc_router pc)) ?o q ?late) (\<lambda>_. ok []) r = (Inr left, r')"
        using run ripe by (simp add: andThen_def passive_market_fill_def)
      from andThen_InrD[OF this] have "append_market_fill_acks (rc_fill (pc_router pc)) ?o q ?late r = (Inr (), r')" "left = []"
        by (auto simp: ok_def)
      then show ?thesis using market_fill_closes[of "rc_fill (pc_router pc)" ?o q ?late r r' "df_ack_ts dm"] pemits_acks
        by (auto simp: deferred_view_def)
    qed
  qed
qed

lemma flush_aggressive_loop_settles:
  assumes "flush_aggressive_loop pc env q dms r = (Inr rest, r')" "list_all timely dms" "nq_exchange_timestamp q \<le> re_now env"
  shows "\<exists>xs. pemits xs r r' \<and> settles deferred_view dms rest xs \<and> list_all timely rest"
  using assms
proof (induction dms arbitrary: r r' rest)
  case Nil
  then show ?case using pemits_refl settles.Nil by (auto simp: ok_def)
next
  case (Cons dm dms)
  from andThen_InrD[OF Cons.prems(1)[unfolded flush_aggressive_loop.simps]] obtain left s where
    one: "flush_aggressive_one pc env q dm r = (Inr left, s)"
    and more: "andThen (flush_aggressive_loop pc env q dms) (\<lambda>rest. ok (left @ rest)) s = (Inr rest, r')" by blast
  from andThen_InrD[OF more] obtain rest' where
    tail: "flush_aggressive_loop pc env q dms s = (Inr rest', r')" "rest = left @ rest'" by (auto simp: ok_def)
  obtain xs where xs: "pemits xs r s" "(\<exists>dm'. left = [dm'] \<and> xs = [] \<and> deferred_view dm' = deferred_view dm \<and> timely dm')
    \<or> (left = [] \<and> closing (deferred_view dm) xs)"
    using flush_aggressive_one_settles[OF one _ Cons.prems(3)] Cons.prems(2) by auto
  obtain ys where ys: "pemits ys s r'" "settles deferred_view dms rest' ys" "list_all timely rest'"
    using Cons.IH[OF tail(1) _ Cons.prems(3)] Cons.prems(2) by auto
  have "settles deferred_view (dm # dms) rest (xs @ ys) \<and> list_all timely rest"
    using xs(2) ys(2,3) tail(2) by (auto intro: settles.Keep settles.Close)
  then show ?case using pemits_trans[OF xs(1) ys(1)] by blast
qed

subsection \<open>The story of a resting order\<close>

definition within_limit :: "order_request \<Rightarrow> decimal \<Rightarrow> bool" where
  "within_limit o' p = (case or_limit_price o' of None \<Rightarrow> True | Some l \<Rightarrow> if or_side o' = BUY then p \<le> l else l \<le> p)"

definition passive_ack :: "order_request \<Rightarrow> ns \<Rightarrow> order_ack \<Rightarrow> bool" where
  \<comment> \<open>of this order, not before it was acknowledged, and never filled beyond its limit\<close>
  "passive_ack o' t a \<longleftrightarrow> oa_order_id a = or_order_id o' \<and> t \<le> ev_timestamp a
     \<and> (case oa_fill_price a of None \<Rightarrow> True | Some p \<Rightarrow> within_limit o' p)"

definition rest_story :: "order_request \<Rightarrow> ns \<Rightarrow> order_ack list \<Rightarrow> resting_order option \<Rightarrow> bool" where
  \<comment> \<open>what an order acknowledged at an instant was told since, and its entry while it rests\<close>
  "rest_story o' t xs ro \<longleftrightarrow> list_all (passive_ack o' t) xs \<and>
     (case ro of
        Some p \<Rightarrow> ro_request p = o' \<and> ro_side p = or_side o' \<and> ro_ack_ts p = t \<and> within_limit o' (ro_limit p)
          \<and> list_all (\<lambda>a. oa_status a = ACK_PARTIALLY_FILLED) xs
          \<and> shared_filled xs = ro_filled p \<and> ro_filled p < or_quantity o'
      | None \<Rightarrow> xs \<noteq> [] \<and> list_all (\<lambda>a. oa_status a = ACK_PARTIALLY_FILLED) (butlast xs)
          \<and> (if oa_status (last xs) = ACK_FILLED then shared_filled xs = or_quantity o'
             else oa_status (last xs) \<in> {ACK_EXPIRED, ACK_CANCELLED, ACK_REJECTED} \<and> shared_filled xs < or_quantity o'))"

definition advances :: "resting_order \<Rightarrow> resting_order option \<Rightarrow> order_ack list \<Rightarrow> bool" where
  "advances p ro xs \<longleftrightarrow> (\<forall>a \<in> set xs. oa_order_id a = or_order_id (ro_request p))
     \<and> (\<forall>o' t ys. rest_story o' t ys (Some p) \<longrightarrow> rest_story o' t (ys @ xs) ro)"

lemma shared_filled_append [simp]: "shared_filled (xs @ ys) = shared_filled xs + shared_filled ys"
  by (simp add: shared_filled_def)

lemma shared_filled_single [simp]: "shared_filled [a] = oa_filled_quantity a" "shared_filled [] = 0"
  by (simp_all add: shared_filled_def)

text \<open>One step of a resting order on the desk: acknowledgements are appended, its entry is replaced.\<close>

definition moves :: "string \<Rightarrow> resting_order option \<Rightarrow> order_ack list \<Rightarrow> passive_router \<Rightarrow> passive_router \<Rightarrow> bool" where
  "moves oid p xs r r' \<longleftrightarrow> od_pending r' = od_pending r @ xs \<and> br_deferred r' = br_deferred r \<and> br_moc r' = br_moc r
     \<and> map_of (pr_resting r') = (case p of None \<Rightarrow> map_of (pr_resting r) | Some p \<Rightarrow> (map_of (pr_resting r))(oid \<mapsto> p))
     \<and> (distinct (map fst (pr_resting r)) \<longrightarrow> distinct (map fst (pr_resting r')))"

lemma same_entry:
  "ro_request p' = ro_request p \<Longrightarrow> ro_side p' = ro_side p \<Longrightarrow> ro_limit p' = ro_limit p \<Longrightarrow> ro_ack_ts p' = ro_ack_ts p
    \<Longrightarrow> ro_filled p' = ro_filled p \<Longrightarrow> rest_story o' t ys (Some p) = rest_story o' t ys (Some p')"
  by (simp add: rest_story_def)

lemma evaluate_same:
  assumes "evaluate_fill pc p q = (action, p')"
  shows "ro_request p' = ro_request p \<and> ro_side p' = ro_side p \<and> ro_limit p' = ro_limit p \<and> ro_ack_ts p' = ro_ack_ts p \<and> ro_filled p' = ro_filled p"
  using assms by (auto simp: evaluate_fill_def Let_def split: if_splits)

lemma evaluate_through:
  assumes "evaluate_fill pc p q = (Through, p')"
  shows "if ro_side p = BUY then nq_ask q \<le> ro_limit p else ro_limit p \<le> nq_bid q"
  using assms by (auto simp: evaluate_fill_def Let_def split: if_splits)

lemma snap_limit_keeps:
  "snap_limit_price BUY x = Inr y \<Longrightarrow> y \<le> x" "snap_limit_price SELL x = Inr y \<Longrightarrow> x \<le> y"
  using of_int_floor_le[of "x * 10 ^ tick_places x"] le_of_int_ceiling[of "x * 10 ^ tick_places x"]
  by (auto simp: snap_limit_price_def field_simps dest!: quantize_InrD)

lemma snap_within:
  assumes "snap_limit_price (or_side o') x = Inr y" "within_limit o' x"
  shows "within_limit o' y"
  using assms snap_limit_keeps by (cases "or_side o'") (fastforce simp: within_limit_def split: option.splits)+

lemma emit_fill_effect:
  assumes "emit_passive_fill pc env p price kind adverse outcome qty st r = (Inr (), r')"
  shows "\<exists>a px. r' = append_acks [a] r \<and> oa_order_id a = or_order_id (ro_request p) \<and> oa_status a = st \<and> oa_filled_quantity a = qty
    \<and> ro_ack_ts p \<le> ev_timestamp a \<and> oa_fill_price a = Some px \<and> snap_limit_price (ro_side p) price = Inr px"
proof -
  obtain px where px: "snap_limit_price (ro_side p) price = Inr px"
    using lift_InrD[OF assms[unfolded emit_passive_fill_def Let_def]] by blast
  note run = assms[unfolded emit_passive_fill_def Let_def px lift_then]
  from lift_InrD[OF run] obtain c :: cost_breakdown where
    "modify (push_ack (\<lambda>n. router_ack (max (re_now env) (ro_ack_ts p)) n (ro_request p) st qty (Some px)
       (cb_total_fees c) (cb_cost_bps c) (outcome_name outcome))) r = (Inr (), r')"
    by (elim exE conjE) (rule that)
  moreover define a where "a = router_ack (max (re_now env) (ro_ack_ts p)) (od_ack_seq r) (ro_request p) st qty (Some px)
       (cb_total_fees c) (cb_cost_bps c) (outcome_name outcome)"
  ultimately have "r' = append_acks [a] r" by (auto simp: modify_def push_ack_def append_acks_def)
  then show ?thesis using px by (intro exI[of _ a] exI[of _ px]) (simp add: a_def)
qed

lemma cancel_ack_effect:
  assumes "append_cancel_ack pc env p reason st r = (Inr (), r')"
  shows "\<exists>a. r' = append_acks [a] r \<and> oa_order_id a = or_order_id (ro_request p) \<and> oa_status a = st \<and> oa_filled_quantity a = 0
    \<and> ro_ack_ts p \<le> ev_timestamp a \<and> oa_fill_price a = None"
proof -
  from lift_InrD[OF assms[unfolded append_cancel_ack_def]] obtain fees where
    "modify (push_ack (\<lambda>n. router_ack (max (re_now env) (ro_ack_ts p)) n (ro_request p) st 0 None (if 0 < fees then fees else 0) 0 reason)) r
       = (Inr (), r')"
    by (elim exE conjE) (rule that)
  moreover define a where "a = router_ack (max (re_now env) (ro_ack_ts p)) (od_ack_seq r) (ro_request p) st 0 None
      (if 0 < fees then fees else 0) 0 reason"
  ultimately have "r' = append_acks [a] r" by (auto simp: modify_def push_ack_def append_acks_def)
  then show ?thesis by (intro exI[of _ a]) (simp add: a_def)
qed

lemma advances_fill:
  assumes a: "oa_order_id a = or_order_id (ro_request p)" "ro_ack_ts p \<le> ev_timestamp a" "oa_fill_price a = Some px"
    and px: "snap_limit_price (ro_side p) price = Inr px" and price: "price = ro_limit p \<or> (if ro_side p = BUY then price \<le> ro_limit p else ro_limit p \<le> price)"
    and n: "oa_status a = ACK_FILLED \<and> ro = None \<and> oa_filled_quantity a = or_quantity (ro_request p) - ro_filled p
      \<or> oa_status a = ACK_PARTIALLY_FILLED \<and> ro = Some (p\<lparr>ro_filled := ro_filled p + oa_filled_quantity a\<rparr>)
        \<and> oa_filled_quantity a < or_quantity (ro_request p) - ro_filled p"
  shows "advances p ro [a]"
proof -
  have "passive_ack o' t a" if "rest_story o' t ys (Some p)" for o' t ys
  proof -
    have o: "ro_request p = o'" "ro_side p = or_side o'" "ro_ack_ts p = t" "within_limit o' (ro_limit p)"
      using that by (simp_all add: rest_story_def)
    then have "within_limit o' price" using price by (auto simp: within_limit_def split: option.splits if_splits)
    then show ?thesis using snap_within[of o' price px] px a o by (simp add: passive_ack_def)
  qed
  then show ?thesis using a(1) n
    by (auto simp: advances_def rest_story_def)
qed

lemma advances_end:
  assumes "oa_order_id a = or_order_id (ro_request p)" "ro_ack_ts p \<le> ev_timestamp a" "oa_fill_price a = None"
    "oa_status a \<in> {ACK_EXPIRED, ACK_CANCELLED, ACK_REJECTED}" "oa_filled_quantity a = 0"
  shows "advances p None [a]"
  using assms by (auto simp: advances_def rest_story_def passive_ack_def)

lemma record_fields' [simp]:
  "od_pending (record_passive_fill p x r) = od_pending r" "br_deferred (record_passive_fill p x r) = br_deferred r"
  "br_moc (record_passive_fill p x r) = br_moc r" "pr_resting (record_passive_fill p x r) = pr_resting r"
  "od_pending (record_passive_cancel x r) = od_pending r" "br_deferred (record_passive_cancel x r) = br_deferred r"
  "br_moc (record_passive_cancel x r) = br_moc r" "pr_resting (record_passive_cancel x r) = pr_resting r"
  by (simp_all add: record_passive_fill_def record_passive_cancel_def Let_def)

lemma moves_put:
  assumes "od_pending r' = od_pending r @ xs" "br_deferred r' = br_deferred r" "br_moc r' = br_moc r"
    "pr_resting r' = pr_resting (put_resting oid p r)"
  shows "moves oid (Some p) xs r r'"
  using assms by (simp add: moves_def put_resting_def)

lemma put_fields [simp]:
  "od_pending (put_resting oid p r) = od_pending r" "br_deferred (put_resting oid p r) = br_deferred r" "br_moc (put_resting oid p r) = br_moc r"
  by (simp_all add: put_resting_def)

lemma put_twice: "map_of (dict_set oid p (dict_set oid p' d)) = (map_of d)(oid \<mapsto> p)"
  by simp

lemma fill_through_step:
  assumes run: "fill_through pc env q oid p (put_resting oid p r) = (Inr gone, r')"
    and cross: "if ro_side p = BUY then nq_ask q \<le> ro_limit p else ro_limit p \<le> nq_bid q"
  shows "\<exists>p' xs. moves oid (Some p') xs r r' \<and> ro_request p' = ro_request p \<and> advances p (if gone then None else Some p') xs"
proof -
  define remaining where "remaining = or_quantity (ro_request p) - ro_filled p"
  define qty where "qty = (if pc_size_cap pc \<and> 0 < touch_size (ro_side p) q then min remaining (touch_size (ro_side p) q) else remaining)"
  define price where "price = (if ro_side p = BUY \<and> touch (ro_side p) q < ro_limit p \<or> ro_side p = SELL \<and> ro_limit p < touch (ro_side p) q
    then touch (ro_side p) q else ro_limit p)"
  have price: "price = ro_limit p \<or> (if ro_side p = BUY then price \<le> ro_limit p else ro_limit p \<le> price)"
    by (auto simp: price_def)
  note run = run[unfolded fill_through_def Let_def remaining_def[symmetric] qty_def[symmetric] price_def[symmetric]]
  show ?thesis
  proof (cases "remaining \<le> qty")
    case True
    then have all: "qty = remaining" by (auto simp: qty_def)
    from andThen_InrD[OF run[unfolded if_P[OF True]]] obtain s where
      s: "emit_passive_fill pc env p price THROUGH (touch (ro_side p) q) FILLED_BY_THROUGH qty ACK_FILLED (put_resting oid p r) = (Inr (), s)"
      "r' = record_passive_fill p FILLED_BY_THROUGH s" "gone" by (auto simp: ok_def)
    from emit_fill_effect[OF s(1)] obtain a px where a: "s = append_acks [a] (put_resting oid p r)"
      "oa_order_id a = or_order_id (ro_request p)" "oa_status a = ACK_FILLED" "oa_filled_quantity a = qty"
      "ro_ack_ts p \<le> ev_timestamp a" "oa_fill_price a = Some px" "snap_limit_price (ro_side p) price = Inr px" by blast
    have "advances p None [a]" using a(3,4) all by (intro advances_fill[OF a(2,5,6,7) price]) (simp add: remaining_def)
    moreover have "moves oid (Some p) [a] r r'" using s(2) a(1) by (intro moves_put) (simp_all add: append_acks_def)
    ultimately show ?thesis using s(3) by (intro exI[of _ p] exI[of _ "[a]"]) simp
  next
    case False
    from andThen_InrD[OF run[unfolded if_not_P[OF False]]] obtain s where
      s: "emit_passive_fill pc env p price THROUGH (touch (ro_side p) q) FILLED_BY_THROUGH qty ACK_PARTIALLY_FILLED (put_resting oid p r) = (Inr (), s)"
      "r' = put_resting oid (p\<lparr>ro_filled := ro_filled p + qty\<rparr>) s" "\<not> gone" by (auto simp: ok_def)
    from emit_fill_effect[OF s(1)] obtain a px where a: "s = append_acks [a] (put_resting oid p r)"
      "oa_order_id a = or_order_id (ro_request p)" "oa_status a = ACK_PARTIALLY_FILLED" "oa_filled_quantity a = qty"
      "ro_ack_ts p \<le> ev_timestamp a" "oa_fill_price a = Some px" "snap_limit_price (ro_side p) price = Inr px" by blast
    let ?p = "p\<lparr>ro_filled := ro_filled p + qty\<rparr>"
    have "advances p (Some ?p) [a]" using a(3,4) False by (intro advances_fill[OF a(2,5,6,7) price]) (simp add: remaining_def)
    moreover have "moves oid (Some ?p) [a] r r'" using s(2) a(1) by (simp add: moves_def put_resting_def append_acks_def)
    ultimately show ?thesis using s(3) by (intro exI[of _ ?p] exI[of _ "[a]"]) simp
  qed
qed

lemma act_step:
  assumes run: "act_on_resting pc env q oid action p (put_resting oid p r) = (Inr gone, r')"
    and cross: "action = Through \<Longrightarrow> if ro_side p = BUY then nq_ask q \<le> ro_limit p else ro_limit p \<le> nq_bid q"
  shows "\<exists>p' xs. moves oid (Some p') xs r r' \<and> ro_request p' = ro_request p \<and> advances p (if gone then None else Some p') xs"
proof -
  let ?gate = "if action = Through \<or> action = Drain then rth_should_suppress (pc_router pc) env (ro_request p) (nq_exchange_timestamp q) else None"
  have stay: ?thesis if "r' = put_resting oid p r" "\<not> gone"
    using that by (intro exI[of _ p] exI[of _ "[]"]) (simp add: moves_def put_resting_def advances_def)
  show ?thesis
  proof (cases ?gate)
    case (Some reason)
    let ?a = "reject_of (max (re_now env) (ro_ack_ts p)) (ro_request p) reason (put_resting oid p r)"
    have r': "r' = passive_reject pc (max (re_now env) (ro_ack_ts p)) (ro_request p) reason (put_resting oid p r)" "gone"
      using run unfolding act_on_resting_def Let_def Some by (auto simp: modify_def ok_def andThen_def)
    have "moves oid (Some p) [?a] r r'"
      using passive_reject_emits[of "max (re_now env) (ro_ack_ts p)" "ro_request p" reason "put_resting oid p r" pc] r'(1)
      by (intro moves_put) (simp_all add: emits_def)
    moreover have "advances p None [?a]" by (rule advances_end) (simp_all add: reject_of_def)
    ultimately show ?thesis using r'(2) by (intro exI[of _ p] exI[of _ "[?a]"]) simp
  next
    case None
    note run = run[unfolded act_on_resting_def Let_def None option.case]
    show ?thesis
    proof (cases action)
      case Through
      then show ?thesis using fill_through_step[of pc env q oid p r gone r'] run cross by simp
    next
      case Drain
      from andThen_InrD[OF run[unfolded Drain fill_action.case]] obtain s where
        s: "emit_passive_fill pc env p (ro_limit p) LEVEL (touch (ro_side p) q) FILLED_BY_DRAIN (or_quantity (ro_request p) - ro_filled p)
            ACK_FILLED (put_resting oid p r) = (Inr (), s)"
        "r' = record_passive_fill p FILLED_BY_DRAIN s" "gone" by (auto simp: ok_def)
      from emit_fill_effect[OF s(1)] obtain a px where a: "s = append_acks [a] (put_resting oid p r)"
        "oa_order_id a = or_order_id (ro_request p)" "oa_status a = ACK_FILLED" "oa_filled_quantity a = or_quantity (ro_request p) - ro_filled p"
        "ro_ack_ts p \<le> ev_timestamp a" "oa_fill_price a = Some px" "snap_limit_price (ro_side p) (ro_limit p) = Inr px" by blast
      have "advances p None [a]" using a(3,4) by (intro advances_fill[OF a(2,5,6,7)]) simp_all
      moreover have "moves oid (Some p) [a] r r'" using s(2) a(1) by (intro moves_put) (simp_all add: append_acks_def)
      ultimately show ?thesis using s(3) by (intro exI[of _ p] exI[of _ "[a]"]) simp
    next
      case Time_Out
      define outcome where "outcome = (if ro_at_bbo p then CANCELLED_MAX_RESTING_TICKS else CANCELLED_LEVEL_LEFT_BBO)"
      from andThen_InrD[OF run[unfolded Time_Out fill_action.case Let_def outcome_def[symmetric]]] obtain s where
        s: "append_cancel_ack pc env p (outcome_name outcome) ACK_EXPIRED (put_resting oid p r) = (Inr (), s)"
        "r' = record_passive_cancel outcome s" "gone" by (auto simp: ok_def)
      from cancel_ack_effect[OF s(1)] obtain a where a: "s = append_acks [a] (put_resting oid p r)"
        "oa_order_id a = or_order_id (ro_request p)" "oa_status a = ACK_EXPIRED" "oa_filled_quantity a = 0"
        "ro_ack_ts p \<le> ev_timestamp a" "oa_fill_price a = None" by blast
      have "advances p None [a]" using a by (intro advances_end) simp_all
      moreover have "moves oid (Some p) [a] r r'" using s(2) a(1) by (intro moves_put) (simp_all add: append_acks_def)
      ultimately show ?thesis using s(3) by (intro exI[of _ p] exI[of _ "[a]"]) simp
    next
      case Wait
      then show ?thesis using run by (intro stay) (auto simp: ok_def)
    qed
  qed
qed

lemma advances_same:
  assumes "advances p' ro xs" "ro_request p' = ro_request p" "ro_side p' = ro_side p" "ro_limit p' = ro_limit p"
    "ro_ack_ts p' = ro_ack_ts p" "ro_filled p' = ro_filled p"
  shows "advances p ro xs"
  using assms same_entry[of p' p] by (simp add: advances_def)

lemma check_one_step:
  assumes "check_one pc env q oid r = (Inr gone, r')" "map_of (pr_resting r) oid = Some p"
  shows "\<exists>p' xs. moves oid (Some p') xs r r' \<and> ro_request p' = ro_request p \<and> advances p (if gone then None else Some p') xs"
proof (cases "nq_exchange_timestamp q < ro_ack_ts p")
  case True
  then have "r' = r" "\<not> gone" using assms by (simp_all add: check_one_def)
  then show ?thesis using assms(2)
    by (intro exI[of _ p] exI[of _ "[]"]) (simp add: moves_def advances_def map_upd_triv)
next
  case False
  obtain action p1 where ev: "evaluate_fill pc (p\<lparr>ro_total_ticks := ro_total_ticks p + 1\<rparr>) q = (action, p1)" by fastforce
  have same: "ro_request p1 = ro_request p" "ro_side p1 = ro_side p" "ro_limit p1 = ro_limit p" "ro_ack_ts p1 = ro_ack_ts p" "ro_filled p1 = ro_filled p"
    using evaluate_same[OF ev] by simp_all
  have "act_on_resting pc env q oid action p1 (put_resting oid p1 r) = (Inr gone, r')"
    using assms False ev by (simp add: check_one_def)
  moreover have "if ro_side p1 = BUY then nq_ask q \<le> ro_limit p1 else ro_limit p1 \<le> nq_bid q" if "action = Through"
    using evaluate_through[OF ev[unfolded that]] unfolding same by (simp split: if_splits)
  ultimately obtain p' xs where "moves oid (Some p') xs r r'" "ro_request p' = ro_request p1" "advances p1 (if gone then None else Some p') xs"
    using act_step by blast
  then show ?thesis using advances_same[OF _ same] same(1) by (intro exI[of _ p'] exI[of _ xs]) simp
qed

definition well_keyed :: "passive_router \<Rightarrow> bool" where
  "well_keyed r \<longleftrightarrow> distinct (map fst (pr_resting r)) \<and> (\<forall>oid p. map_of (pr_resting r) oid = Some p \<longrightarrow> or_order_id (ro_request p) = oid)"

lemma moves_keyed:
  assumes "moves oid (Some p') xs r r'" "well_keyed r" "or_order_id (ro_request p') = oid"
  shows "well_keyed r'"
  using assms by (auto simp: moves_def well_keyed_def split: if_splits)

definition visits :: "string list \<Rightarrow> string list \<Rightarrow> order_ack list \<Rightarrow> passive_router \<Rightarrow> passive_router \<Rightarrow> string \<Rightarrow> bool" where
  "visits ids gone xs r r' oid \<longleftrightarrow> (if oid \<in> set ids
          then (\<exists>p p'. map_of (pr_resting r) oid = Some p \<and> map_of (pr_resting r') oid = Some p'
                 \<and> advances p (if oid \<in> set gone then None else Some p') (acks_for oid xs))
          else map_of (pr_resting r') oid = map_of (pr_resting r) oid \<and> acks_for oid xs = [])"

definition loop_effect :: "string list \<Rightarrow> string list \<Rightarrow> order_ack list \<Rightarrow> passive_router \<Rightarrow> passive_router \<Rightarrow> bool" where
  "loop_effect ids gone xs r r' \<longleftrightarrow> od_pending r' = od_pending r @ xs \<and> br_deferred r' = br_deferred r \<and> br_moc r' = br_moc r
     \<and> well_keyed r' \<and> set gone \<subseteq> set ids
     \<and> (\<forall>oid. visits ids gone xs r r' oid)"

lemma check_loop_effect:
  assumes "check_loop pc env q ids r = (Inr gone, r')" "distinct ids" "set ids \<subseteq> fst ` set (pr_resting r)" "well_keyed r"
  shows "\<exists>xs. loop_effect ids gone xs r r'"
  using assms
proof (induction ids arbitrary: r r' gone)
  case Nil
  then show ?case by (intro exI[of _ "[]"]) (simp add: loop_effect_def visits_def ok_def acks_for_def)
next
  case (Cons oid ids)
  from andThen_InrD[OF Cons.prems(1)[unfolded check_loop.simps]] obtain g s where
    one: "check_one pc env q oid r = (Inr g, s)"
    and tail': "andThen (check_loop pc env q ids) (\<lambda>rest. ok (if g then oid # rest else rest)) s = (Inr gone, r')" by blast
  from andThen_InrD[OF tail'] obtain rest where
    tail: "check_loop pc env q ids s = (Inr rest, r')" "gone = (if g then oid # rest else rest)" by (auto simp: ok_def)
  have "oid \<in> fst ` set (pr_resting r)" using Cons.prems(3) by simp
  then obtain p where p: "map_of (pr_resting r) oid = Some p" by (metis map_of_eq_None_iff not_None_eq)
  then have key: "or_order_id (ro_request p) = oid" using Cons.prems(4) by (simp add: well_keyed_def)
  obtain p' xs where step: "moves oid (Some p') xs r s" "ro_request p' = ro_request p" "advances p (if g then None else Some p') xs"
    using check_one_step[OF one p] by blast
  have keyed: "well_keyed s" using moves_keyed[OF step(1) Cons.prems(4)] step(2) key by simp
  have map: "map_of (pr_resting s) = (map_of (pr_resting r))(oid \<mapsto> p')" using step(1) by (simp add: moves_def)
  then have "set ids \<subseteq> fst ` set (pr_resting s)" using Cons.prems(3)
    by (metis (no_types, lifting) dom_map_of_conv_image_fst dom_fun_upd insert_subset list.simps(15) option.distinct(1) subset_insertI2)
  from Cons.IH[OF tail(1) _ this keyed] Cons.prems(2) obtain ys where ys: "loop_effect ids rest ys s r'" by auto
  have own: "acks_for oid xs = xs" "\<And>x. x \<noteq> oid \<Longrightarrow> acks_for x xs = []"
    using step(3) key acks_for_own[of xs oid] acks_for_other[of xs oid] by (auto simp: advances_def)
  have fresh: "oid \<notin> set ids" "oid \<notin> set rest" using Cons.prems(2) ys by (auto simp: loop_effect_def)
  have "loop_effect (oid # ids) gone (xs @ ys) r r'"
    unfolding loop_effect_def
  proof (intro conjI allI)
    fix x
    have y: "visits ids rest ys s r' x" using ys by (simp add: loop_effect_def)
    show "visits (oid # ids) gone (xs @ ys) r r' x"
    proof (cases "x = oid")
      case True
      then show ?thesis using y fresh p map step(3) own(1) tail(2) by (auto simp: visits_def)
    next
      case False
      then have "x \<in> set gone \<longleftrightarrow> x \<in> set rest" using tail(2) by auto
      then show ?thesis using y False map own(2)[OF False] by (cases "x \<in> set ids"; cases "x \<in> set rest") (auto simp: visits_def)
    qed
  qed (use ys step(1) tail(2) in \<open>auto simp: loop_effect_def moves_def\<close>)
  then show ?case by blast
qed

lemma removed_resting:
  "pr_resting (fold remove_resting gone r) = fold dict_pop gone (pr_resting r)"
  "od_pending (fold remove_resting gone r) = od_pending r" "br_deferred (fold remove_resting gone r) = br_deferred r"
  "br_moc (fold remove_resting gone r) = br_moc r"
  by (induction gone arbitrary: r) (simp_all add: remove_resting_def)

lemma map_of_pops: "map_of (fold dict_pop gone d) oid = (if oid \<in> set gone then None else map_of d oid)"
  by (induction gone arbitrary: d) auto

lemma distinct_pops: "distinct (map fst d) \<Longrightarrow> distinct (map fst (fold dict_pop gone d))"
  by (induction gone arbitrary: d) auto

definition rest_effect :: "order_ack list \<Rightarrow> passive_router \<Rightarrow> passive_router \<Rightarrow> bool" where
  \<comment> \<open>every order at rest stays as it is or advances\<close>
  "rest_effect xs r r' \<longleftrightarrow> od_pending r' = od_pending r @ xs \<and> br_deferred r' = br_deferred r \<and> br_moc r' = br_moc r \<and> well_keyed r'
     \<and> (\<forall>oid. map_of (pr_resting r') oid = map_of (pr_resting r) oid \<and> acks_for oid xs = []
        \<or> (\<exists>p. map_of (pr_resting r) oid = Some p \<and> advances p (map_of (pr_resting r') oid) (acks_for oid xs)))"

lemma check_resting_effect:
  assumes "check_resting_orders pc env q r = (Inr (), r')" "well_keyed r"
  shows "\<exists>xs. rest_effect xs r r'"
proof -
  let ?ids = "resting_at (nq_symbol q) r"
  from andThen_InrD[OF assms(1)[unfolded check_resting_orders_def]] obtain gone s where
    s: "check_loop pc env q ?ids r = (Inr gone, s)" "r' = fold remove_resting gone s" by (auto simp: modify_def)
  have "distinct ?ids" "set ?ids \<subseteq> fst ` set (pr_resting r)"
    using assms(2) by (auto simp: resting_at_def well_keyed_def intro: distinct_map_filter)
  from check_loop_effect[OF s(1) this assms(2)] obtain xs where xs: "loop_effect ?ids gone xs r s" by blast
  have r': "map_of (pr_resting r') oid = (if oid \<in> set gone then None else map_of (pr_resting s) oid)" for oid
    using s(2) by (simp add: removed_resting map_of_pops)
  have "map_of (pr_resting r') oid = map_of (pr_resting r) oid \<and> acks_for oid xs = []
      \<or> (\<exists>p. map_of (pr_resting r) oid = Some p \<and> advances p (map_of (pr_resting r') oid) (acks_for oid xs))" for oid
  proof -
    have y: "visits ?ids gone xs r s oid" and "set gone \<subseteq> set ?ids" using xs by (simp_all add: loop_effect_def)
    then show ?thesis using y r'[of oid] by (cases "oid \<in> set ?ids") (auto simp: visits_def split: if_splits)
  qed
  moreover have "well_keyed r'"
    using xs s(2) by (auto simp: loop_effect_def well_keyed_def removed_resting map_of_pops distinct_pops split: if_splits)
  ultimately show ?thesis using xs s(2) by (intro exI[of _ xs]) (simp add: rest_effect_def loop_effect_def removed_resting)
qed

subsection \<open>The story of every order\<close>

definition rested :: "order_request \<Rightarrow> order_ack list \<Rightarrow> resting_order option \<Rightarrow> bool" where
  \<comment> \<open>acknowledged when it was posted, and what it was told since\<close>
  "rested o' as ro \<longleftrightarrow> (\<exists>a t xs. as = a # xs \<and> acked_at o' t a \<and> rest_story o' t xs ro)"

definition passive_story :: "order_request \<Rightarrow> order_ack list \<Rightarrow> (order_request \<times> ns) list \<Rightarrow> resting_order option \<Rightarrow> bool" where
  "passive_story o' as w ro \<longleftrightarrow> ro = None \<and> order_story o' as w \<or> w = [] \<and> rested o' as ro"

definition ptells :: "passive_router \<Rightarrow> order_ack list \<Rightarrow> (string \<Rightarrow> order_request option) \<Rightarrow> string \<Rightarrow> bool" where
  "ptells r h os oid \<longleftrightarrow> map_of (pr_resting r) oid = None \<and> tells r h os oid
     \<or> (\<exists>o'. os oid = Some o' \<and> or_order_id o' = oid \<and> waiting r oid = []
          \<and> rested o' (acks_for oid (h @ od_pending r)) (map_of (pr_resting r) oid))"

definition passive_ok :: "passive_router \<Rightarrow> order_ack list \<Rightarrow> (string \<Rightarrow> order_request option) \<Rightarrow> bool" where
  "passive_ok r h os \<longleftrightarrow> list_all timely (br_deferred r) \<and> well_keyed r \<and> (\<forall>oid. ptells r h os oid)"

lemma ptells_settle:
  assumes "ptells r h os oid" "od_pending r' = od_pending r @ xs" "pr_resting r' = pr_resting r"
    and part: "settles deferred_view (br_deferred r) (br_deferred r') xs \<and> br_moc r' = br_moc r
      \<or> settles moc_view (br_moc r) (br_moc r') xs \<and> br_deferred r' = br_deferred r"
  shows "ptells r' h os oid"
  using assms(1) unfolding ptells_def
proof (elim disjE exE conjE)
  assume "map_of (pr_resting r) oid = None" "tells r h os oid"
  then show "map_of (pr_resting r') oid = None \<and> tells r' h os oid
     \<or> (\<exists>o'. os oid = Some o' \<and> or_order_id o' = oid \<and> waiting r' oid = []
          \<and> rested o' (acks_for oid (h @ od_pending r')) (map_of (pr_resting r') oid))"
    using tells_settle[OF _ assms(2) part] assms(3) by simp
next
  fix o'
  assume o: "os oid = Some o'" "or_order_id o' = oid" "waiting r oid = []"
    "rested o' (acks_for oid (h @ od_pending r)) (map_of (pr_resting r) oid)"
  then have none: "queued deferred_view oid (br_deferred r) = []" "queued moc_view oid (br_moc r) = []" by (simp_all add: waiting_def)
  have "waiting r' oid = [] \<and> acks_for oid xs = []"
    using part settles_per_order[where oid = oid and view = deferred_view] settles_per_order[where oid = oid and view = moc_view] none
    by (fastforce simp: waiting_def)
  then show "map_of (pr_resting r') oid = None \<and> tells r' h os oid
     \<or> (\<exists>o'. os oid = Some o' \<and> or_order_id o' = oid \<and> waiting r' oid = []
          \<and> rested o' (acks_for oid (h @ od_pending r')) (map_of (pr_resting r') oid))"
    using o assms(2,3) by auto
qed

lemma passive_ok_settle:
  assumes "passive_ok r h os" "od_pending r' = od_pending r @ xs" "pr_resting r' = pr_resting r" "list_all timely (br_deferred r')"
    and "settles deferred_view (br_deferred r) (br_deferred r') xs \<and> br_moc r' = br_moc r
      \<or> settles moc_view (br_moc r) (br_moc r') xs \<and> br_deferred r' = br_deferred r"
  shows "passive_ok r' h os"
  using assms ptells_settle[OF _ assms(2,3,5)] by (auto simp: passive_ok_def well_keyed_def)

lemma passive_ok_cong:
  assumes "passive_ok r h os" "h @ od_pending r = h' @ od_pending r'" "br_deferred r' = br_deferred r" "br_moc r' = br_moc r"
    "pr_resting r' = pr_resting r"
  shows "passive_ok r' h' os"
proof -
  have "ptells r' h' os oid = ptells r h os oid" for oid unfolding ptells_def tells_def waiting_def assms(2-5) ..
  then show ?thesis using assms(1,3,5) by (simp add: passive_ok_def well_keyed_def)
qed

lemma rested_advances:
  assumes "rested o' as (Some p)" "advances p ro xs"
  shows "rested o' (as @ xs) ro"
  using assms unfolding rested_def advances_def by fastforce

lemma ptells_rest:
  assumes ok: "ptells r h os oid" and rest: "rest_effect xs r r'"
  shows "ptells r' h os oid"
proof -
  have same: "od_pending r' = od_pending r @ xs" "waiting r' oid = waiting r oid"
    using rest by (simp_all add: rest_effect_def waiting_def)
  consider (stays) "map_of (pr_resting r') oid = map_of (pr_resting r) oid" "acks_for oid xs = []"
    | (steps) p where "map_of (pr_resting r) oid = Some p" "advances p (map_of (pr_resting r') oid) (acks_for oid xs)"
    using rest unfolding rest_effect_def by blast
  then show ?thesis
  proof cases
    case stays
    then have "tells r' h os oid = tells r h os oid" by (cases "os oid") (simp_all add: tells_def same)
    then show ?thesis using ok stays by (simp add: ptells_def same)
  next
    case steps
    then obtain o' where o: "os oid = Some o'" "or_order_id o' = oid" "waiting r oid = []" "rested o' (acks_for oid (h @ od_pending r)) (Some p)"
      using ok by (auto simp: ptells_def)
    have "rested o' (acks_for oid (h @ od_pending r')) (map_of (pr_resting r') oid)"
      using rested_advances[OF o(4) steps(2)] by (simp add: same)
    then show ?thesis using o(1-3) unfolding ptells_def same by blast
  qed
qed

lemma passive_ok_rest: "passive_ok r h os \<Longrightarrow> rest_effect xs r r' \<Longrightarrow> passive_ok r' h os"
  using ptells_rest[of r h os _ xs r'] by (auto simp: passive_ok_def rest_effect_def)

lemma passive_flush_ok:
  assumes "passive_ok r h os" "nq_exchange_timestamp q \<le> re_now env" "flush_deferred_aggressive pc env q r = (Inr (), r')"
  shows "passive_ok r' h os"
proof (cases "r' = r")
  case False
  then obtain rest s where s: "flush_aggressive_loop pc env q (br_deferred r) r = (Inr rest, s)" "r' = s\<lparr>br_deferred := rest\<rparr>"
    using assms(3) by (auto simp: flush_deferred_aggressive_def modify_def split: if_splits dest!: andThen_InrD)
  have "list_all timely (br_deferred r)" using assms(1) by (simp add: passive_ok_def)
  from flush_aggressive_loop_settles[OF s(1) this assms(2)]
  obtain xs where "pemits xs r s" "settles deferred_view (br_deferred r) rest xs" "list_all timely rest" by blast
  then show ?thesis using s(2) by (intro passive_ok_settle[OF assms(1), of _ xs]) (auto simp: emits_def pemits_def)
qed (use assms in simp)

lemma passive_moc_quote_ok:
  assumes "passive_ok r h os" "moc_on_quote cfg q r = (Inr (), r')"
  shows "passive_ok r' h os"
proof -
  obtain xs rest where x: "r' = (append_acks xs r)\<lparr>br_moc := rest\<rparr>" "settles moc_view (br_moc r) rest xs"
    using moc_on_quote_effect[OF assms(2)] by blast
  then show ?thesis using assms(1) by (intro passive_ok_settle[OF assms(1), of _ xs]) (auto simp: append_acks_def passive_ok_def)
qed

lemma passive_on_quote_ok:
  assumes "passive_ok r h os" "nq_exchange_timestamp q \<le> re_now env" "passive_on_quote pc env q r = (Inr (), r')"
  shows "passive_ok r' h os"
proof -
  let ?r = "r\<lparr>br_quotes := (br_quotes r)(nq_symbol q := Some q)\<rparr>"
  obtain s1 s2 where s: "moc_on_quote (pc_router pc) q ?r = (Inr (), s1)" "flush_deferred_aggressive pc env q s1 = (Inr (), s2)"
    "check_resting_orders pc env q s2 = (Inr (), r')"
    using assms(3) by (auto simp: passive_on_quote_def dest!: andThen_InrD)
  have "passive_ok ?r h os" by (rule passive_ok_cong[OF assms(1)]) simp_all
  then have ok: "passive_ok s2 h os" using passive_flush_ok[OF passive_moc_quote_ok[OF _ s(1)] assms(2) s(2)] by blast
  then have "well_keyed s2" by (simp add: passive_ok_def)
  from check_resting_effect[OF s(3) this] show ?thesis using passive_ok_rest[OF ok] by blast
qed

lemma passive_on_trade_effect: "well_keyed r \<Longrightarrow> rest_effect [] r (passive_on_trade pc t r)"
proof -
  assume keyed: "well_keyed r"
  let ?f = "\<lambda>p. if or_symbol (ro_request p) = td_symbol t then trade_drains pc t p else p"
  have map: "map_of (pr_resting (passive_on_trade pc t r)) oid = map_option ?f (map_of (pr_resting r) oid)" for oid
    unfolding passive_on_trade_def by (simp add: map_of_map)
  have same: "ro_request (?f p) = ro_request p" "ro_side (?f p) = ro_side p" "ro_limit (?f p) = ro_limit p"
    "ro_ack_ts (?f p) = ro_ack_ts p" "ro_filled (?f p) = ro_filled p" for p by (simp_all add: trade_drains_def)
  have "advances p (Some (?f p)) []" for p using same_entry[OF same] by (simp add: advances_def)
  then have step: "map_of (pr_resting (passive_on_trade pc t r)) oid = map_of (pr_resting r) oid
      \<or> (\<exists>p. map_of (pr_resting r) oid = Some p \<and> advances p (map_of (pr_resting (passive_on_trade pc t r)) oid) [])" for oid
    unfolding map by (cases "map_of (pr_resting r) oid") simp_all
  have "map fst (pr_resting (passive_on_trade pc t r)) = map fst (pr_resting r)" by (auto simp: passive_on_trade_def)
  then have "well_keyed (passive_on_trade pc t r)" using keyed same(1) unfolding well_keyed_def map
    by (fastforce simp: map_option_case split: option.splits)
  then show ?thesis using step by (simp add: rest_effect_def acks_for_def) (simp add: passive_on_trade_def)
qed

subsection \<open>Submission, cancellation and expiry\<close>

definition pfirst_step :: "order_request \<Rightarrow> passive_router \<Rightarrow> passive_router \<Rightarrow> bool" where
  \<comment> \<open>a fresh order enters: its acknowledgements, and at most one entry in a queue or at rest\<close>
  "pfirst_step o' r r' \<longleftrightarrow> (\<exists>xs D M ro. od_pending r' = od_pending r @ xs \<and> (\<forall>a \<in> set xs. oa_order_id a = or_order_id o')
     \<and> br_deferred r' = br_deferred r @ D \<and> br_moc r' = br_moc r @ M \<and> list_all timely D
     \<and> (\<forall>w \<in> set (map deferred_view D @ map moc_view M). fst w = o')
     \<and> pr_resting r' = (case ro of None \<Rightarrow> pr_resting r | Some p \<Rightarrow> dict_set (or_order_id o') p (pr_resting r))
     \<and> passive_story o' xs (map deferred_view D @ map moc_view M) ro)"

lemma pfirst_story:
  assumes "od_pending r' = od_pending r @ xs" "br_deferred r' = br_deferred r @ D" "br_moc r' = br_moc r @ M" "pr_resting r' = pr_resting r"
    "\<forall>a \<in> set xs. oa_order_id a = or_order_id o'" "list_all timely D" "\<forall>w \<in> set (map deferred_view D @ map moc_view M). fst w = o'"
    "order_story o' xs (map deferred_view D @ map moc_view M)"
  shows "pfirst_step o' r r'"
  unfolding pfirst_step_def
  by (rule exI[of _ xs], rule exI[of _ D], rule exI[of _ M], rule exI[of _ None]) (use assms in \<open>simp add: passive_story_def\<close>)

lemma pfirst_reject:
  assumes "br_deferred s = br_deferred r" "br_moc s = br_moc r" "od_pending s = od_pending r" "pr_resting s = pr_resting r"
    "pemits [reject_of ts o' reason s] s r'"
  shows "pfirst_step o' r r'"
  by (rule pfirst_story[of _ _ "[reject_of ts o' reason s]" "[]" "[]"])
    (use assms in \<open>simp_all add: pemits_def emits_def order_story_def refused_def reject_of_def\<close>)

lemma pfirst_fills:
  assumes "pemits (a # xs) s r'" "acked_at o' t a" "closing (o', t) xs"
    "br_deferred s = br_deferred r" "br_moc s = br_moc r" "od_pending s = od_pending r" "pr_resting s = pr_resting r"
  shows "pfirst_step o' r r'"
  by (rule pfirst_story[of _ _ "a # xs" "[]" "[]"])
    (use assms in \<open>auto simp: pemits_def emits_def order_story_def acked_at_def closing_def\<close>)

lemma submit_aggressive_first:
  assumes "submit_aggressive_market pc env o' q s = (Inr (), r')"
    and same: "br_deferred s = br_deferred r" "br_moc s = br_moc r" "od_pending s = od_pending r" "pr_resting s = pr_resting r"
  shows "pfirst_step o' r r'"
proof -
  let ?t = "re_now env + rc_latency (pc_router pc)"
  let ?a = "router_ack ?t (od_ack_seq s) o' ACK_ACKNOWLEDGED 0 None 0 0 ''''"
  let ?s = "append_acks [?a] s"
  note run = assms(1)[unfolded submit_aggressive_market_def Let_def push_status_acks]
  have rej: ?thesis if "r' = passive_reject pc (re_now env) o' reason s'" "pemits [?a] s s'" "rc_latency (pc_router pc) \<le> 0" for s' reason
    using pemits_trans[OF that(2) pemits_reject[of "re_now env" o' reason s' pc]] that(1,3)
    by (intro pfirst_fills[where t = ?t and a = ?a, OF _ acked_status closing_reject same]) auto
  consider (latent) "\<not> rc_latency (pc_router pc) \<le> 0" | (empty) "rc_latency (pc_router pc) \<le> 0" "touch_size (or_side o') q \<le> 0"
    | (fill) "rc_latency (pc_router pc) \<le> 0" "\<not> touch_size (or_side o') q \<le> 0" by blast
  then show ?thesis
  proof cases
    case latent
    define dm where "dm = \<lparr>df_request = o', df_deadline = max (re_now env) (nq_exchange_timestamp q) + rc_latency (pc_router pc),
      df_ack_ts = ?t, df_ticks = 0\<rparr>"
    have "r' = ?s\<lparr>br_deferred := br_deferred s @ [dm]\<rparr>" using run latent by (simp add: dm_def append_acks_def)
    then show ?thesis using acked_status[of o' ?t "od_ack_seq s"] latent same
      by (intro pfirst_story[of _ _ "[?a]" "[dm]" "[]"]) (auto simp: append_acks_def dm_def deferred_view_def timely_def order_story_def)
  next
    case empty
    have "pemits [?a] s (?s\<lparr>br_zero_depth := br_zero_depth ?s + 1\<rparr>)" by (simp add: pemits_def emits_def append_acks_def)
    then show ?thesis using run[unfolded if_P[OF empty(1)] if_P[OF empty(2)]] by (intro rej[OF _ _ empty(1)]) auto
  next
    case fill
    note run = run[unfolded if_P[OF fill(1)] if_not_P[OF fill(2)] passive_market_fill_def]
    show ?thesis
    proof (cases "rth_should_suppress (pc_router pc) env o' (nq_exchange_timestamp q)")
      case None
      then obtain xs where "r' = append_acks xs ?s" "closing (o', ?t) xs"
        using run market_fill_closes[of "rc_fill (pc_router pc)" o' q ?t ?s r' ?t] by auto
      then show ?thesis using pemits_trans[OF pemits_acks[of "[?a]" s] pemits_acks[of xs ?s]]
        by (intro pfirst_fills[where t = ?t and a = ?a, OF _ acked_status _ same]) simp_all
    next
      case (Some reason)
      then show ?thesis using run pemits_acks[of "[?a]" s] fill(1) by (intro rej[of reason ?s]) simp_all
    qed
  qed
qed

lemma post_passive_first:
  assumes "post_passive pc env o' q s = (Inr (), r')" "0 < or_quantity o'"
    and same: "br_deferred s = br_deferred r" "br_moc s = br_moc r" "od_pending s = od_pending r" "pr_resting s = pr_resting r"
  shows "pfirst_step o' r r'"
proof -
  define l where "l = (case or_limit_price o' of Some l \<Rightarrow> l | None \<Rightarrow> if or_side o' = BUY then nq_bid q else nq_ask q)"
  have wl: "within_limit o' l" by (simp add: within_limit_def l_def split: option.splits)
  note run = assms(1)[unfolded post_passive_def Let_def l_def[symmetric]]
  show ?thesis
  proof (cases "or_side o' = BUY \<and> nq_ask q \<le> l \<or> or_side o' = SELL \<and> l \<le> nq_bid q")
    case True
    then show ?thesis using run submit_aggressive_first[OF _ same] by simp
  next
    case False
    from lift_InrD[OF run[unfolded if_not_P[OF False]]] obtain snapped where snap: "snap_limit_price (or_side o') l = Inr snapped"
      and r': "(let ack_ts = max (re_now env) (nq_exchange_timestamp q) + rc_latency (pc_router pc);
            p = \<lparr>ro_request = o', ro_side = or_side o', ro_limit = snapped, ro_ack_ts = ack_ts, ro_queue_ahead = pc_queue_shares pc,
                 ro_ticks_at_level = 0, ro_total_ticks = 0, ro_traded = 0, ro_filled = 0, ro_at_bbo = False\<rparr>
        in (Inr (), push_status ack_ts o' ACK_ACKNOWLEDGED '''' (s\<lparr>pr_resting := dict_set (or_order_id o') p (pr_resting s)\<rparr>))) = (Inr () :: _ + unit, r')"
      by (auto simp: Let_def)
    define t where "t = max (re_now env) (nq_exchange_timestamp q) + rc_latency (pc_router pc)"
    define p where "p = \<lparr>ro_request = o', ro_side = or_side o', ro_limit = snapped, ro_ack_ts = t, ro_queue_ahead = pc_queue_shares pc,
                 ro_ticks_at_level = 0, ro_total_ticks = 0, ro_traded = 0, ro_filled = 0, ro_at_bbo = False\<rparr>"
    define a where "a = router_ack t (od_ack_seq s) o' ACK_ACKNOWLEDGED 0 None 0 0 ''''"
    have r'': "r' = append_acks [a] (s\<lparr>pr_resting := dict_set (or_order_id o') p (pr_resting s)\<rparr>)"
      using r' by (simp add: Let_def push_status_acks a_def p_def t_def)
    have "rest_story o' t [] (Some p)" using snap_within[OF snap wl] assms(2) by (simp add: rest_story_def p_def)
    then have story: "passive_story o' [a] [] (Some p)" using acked_status[of o' t "od_ack_seq s"]
      by (auto simp: passive_story_def rested_def a_def)
    show ?thesis unfolding pfirst_step_def
      by (rule exI[of _ "[a]"], rule exI[of _ "[]"], rule exI[of _ "[]"], rule exI[of _ "Some p"])
        (use story r'' same in \<open>simp add: append_acks_def a_def\<close>)
  qed
qed

lemma moc_first:
  assumes "moc_submit (passive_reject pc) cfg env o' exch s = (True, r')"
    and same: "br_deferred s = br_deferred r" "br_moc s = br_moc r" "od_pending s = od_pending r" "pr_resting s = pr_resting r"
  shows "pfirst_step o' r r'"
  using journaled_reject.moc_submit_effect[OF assms(1)]
proof
  assume "\<exists>ts reason. r' = passive_reject pc ts o' reason s"
  then show ?thesis using pfirst_reject[OF same pemits_reject] by blast
next
  let ?a = "router_ack (re_now env) (od_ack_seq s) o' ACK_ACKNOWLEDGED 0 None 0 0 ''''"
  define m where "m = \<lparr>pm_request = o', pm_ack_ts = re_now env\<rparr>"
  assume "r' = (push_status (re_now env) o' ACK_ACKNOWLEDGED '''' s)\<lparr>br_moc := br_moc s @ [\<lparr>pm_request = o', pm_ack_ts = re_now env\<rparr>]\<rparr>"
  then have "r' = (append_acks [?a] s)\<lparr>br_moc := br_moc s @ [m]\<rparr>" by (simp add: push_status_acks m_def)
  then show ?thesis using acked_status[of o' "re_now env" "od_ack_seq s"] same
    by (intro pfirst_story[of _ _ "[?a]" "[]" "[m]"]) (auto simp: append_acks_def m_def moc_view_def order_story_def)
qed

lemma passive_submit_first:
  assumes "passive_submit pc env o' trig r = (Inr (), r')" "0 < or_quantity o'"
  shows "pfirst_step o' r r'"
proof -
  have again: "pfirst_step o' r (refuse_duplicate env o' r)"
    unfolding refuse_duplicate_def
    by (rule pfirst_story[of _ _ "[router_ack (re_now env) (od_ack_seq r) o' ACK_REJECTED 0 None 0 0 (''duplicate order_id: '' @ or_order_id o')]" "[]" "[]"])
      (simp_all add: append_reject_ack_def push_ack_def order_story_def refused_def)
  show ?thesis
  proof (cases "or_order_id o' \<in> od_submitted r \<or> (case pr_journal r of None \<Rightarrow> False | Some j \<Rightarrow> must_refuse j (or_order_id o'))")
    case True
    then show ?thesis using assms(1) again by (auto simp: passive_submit_def Let_def split: if_splits)
  next
    case False
    define r1 where "r1 = r\<lparr>pr_journal := map_option (record_attempt (pc_codec pc) 0 (or_order_id o')) (pr_journal r),
      od_submitted := insert (or_order_id o') (od_submitted r)\<rparr>"
    have same: "br_deferred r1 = br_deferred r" "br_moc r1 = br_moc r" "od_pending r1 = od_pending r" "pr_resting r1 = pr_resting r"
      by (simp_all add: r1_def)
    note run = assms(1)[unfolded passive_submit_def Let_def r1_def[symmetric]]
    have rej: "pfirst_step o' r (passive_reject pc ts o' reason s)"
      if "s = r1 \<or> s = r1\<lparr>br_no_quote := n\<rparr> \<or> s = r1\<lparr>br_locked := n\<rparr>" for ts reason s n
      using that same by (intro pfirst_reject[OF _ _ _ _ pemits_reject]) auto
    consider (some) q where "(case trig of Some q \<Rightarrow> Some q | None \<Rightarrow> br_quotes r1 (or_symbol o')) = Some q"
      | (none) "(case trig of Some q \<Rightarrow> Some q | None \<Rightarrow> br_quotes r1 (or_symbol o')) = None" by (metis option.exhaust)
    then show ?thesis
    proof cases
      case none
      then have "r' = passive_reject pc (re_now env) o' ''no quote available for symbol'' (r1\<lparr>br_no_quote := br_no_quote r1 + 1\<rparr>)"
        using run False by simp
      then show ?thesis using rej by blast
    next
      case some
      show ?thesis
      proof (cases "nq_ask q \<le> nq_bid q \<or> rth_should_suppress (pc_router pc) env o' (nq_exchange_timestamp q) \<noteq> None")
        case True
        show ?thesis
        proof (cases "nq_ask q \<le> nq_bid q")
          case True
          then have "r' = passive_reject pc (re_now env) o' ''crossed or locked quote'' (r1\<lparr>br_locked := br_locked r1 + 1\<rparr>)"
            using run False some by simp
          then show ?thesis using rej by blast
        next
          case fair: False
          then obtain reason where "rth_should_suppress (pc_router pc) env o' (nq_exchange_timestamp q) = Some reason"
            using True by auto
          then have "r' = passive_reject pc (re_now env) o' reason r1" using run False some fair by simp
          then show ?thesis using rej by blast
        qed
      next
        case free: False
        then have gates: "\<not> nq_ask q \<le> nq_bid q" "rth_should_suppress (pc_router pc) env o' (nq_exchange_timestamp q) = None" by simp_all
        obtain b s where m: "moc_submit (passive_reject pc) (pc_router pc) env o' (nq_exchange_timestamp q) r1 = (b, s)" by fastforce
        show ?thesis
        proof (cases b)
          case True
          then have "r' = s" using run False some gates m by simp
          then show ?thesis using moc_first[OF _ same] m True by simp
        next
          case not_moc: False
          then have "s = r1" using m by (auto simp: moc_submit_def Let_def split: option.splits if_splits)
          then have "(case or_order_type o' of MARKET \<Rightarrow> submit_aggressive_market pc env o' q r1 | LIMIT \<Rightarrow> post_passive pc env o' q r1) = (Inr (), r')"
            using run False some gates m not_moc by simp
          then show ?thesis using submit_aggressive_first[OF _ same] post_passive_first[OF _ assms(2) same]
            by (cases "or_order_type o'") simp_all
        qed
      qed
    qed
  qed
qed

lemma passive_submit_ok:
  assumes ok: "passive_ok r h os" and fresh: "os (or_order_id o') = None" and step: "pfirst_step o' r r'"
  shows "passive_ok r' h (os(or_order_id o' := Some o'))"
proof -
  let ?id = "or_order_id o'"
  obtain xs D M ro where s: "od_pending r' = od_pending r @ xs" "\<forall>a \<in> set xs. oa_order_id a = ?id"
    "br_deferred r' = br_deferred r @ D" "br_moc r' = br_moc r @ M" "list_all timely D"
    "\<forall>w \<in> set (map deferred_view D @ map moc_view M). fst w = o'"
    "pr_resting r' = (case ro of None \<Rightarrow> pr_resting r | Some p \<Rightarrow> dict_set ?id p (pr_resting r))"
    "passive_story o' xs (map deferred_view D @ map moc_view M) ro"
    using step by (auto simp: pfirst_step_def)
  have own: "queued deferred_view ?id D = map deferred_view D" "queued moc_view ?id M = map moc_view M"
    using s(6) by (auto simp: queued_def filter_id_conv)
  have other: "queued deferred_view oid D = []" "queued moc_view oid M = []" "acks_for oid xs = []" if "oid \<noteq> ?id" for oid
    using that s(2,6) by (auto simp: queued_def filter_empty_conv acks_for_def)
  have "ptells r h os ?id" using ok by (simp add: passive_ok_def)
  then have none: "acks_for ?id (h @ od_pending r) = []" "waiting r ?id = []" "map_of (pr_resting r) ?id = None"
    using fresh by (auto simp: ptells_def tells_def)
  have rest: "map_of (pr_resting r') oid = (if oid = ?id then ro else map_of (pr_resting r) oid)" for oid
    using s(7) none(3) by (cases ro) simp_all
  have "ptells r' h (os(?id := Some o')) oid" for oid
  proof (cases "oid = ?id")
    case True
    have "waiting r' ?id = map deferred_view D @ map moc_view M" "acks_for ?id (h @ od_pending r') = xs"
      using none s(1-4) own by (simp_all add: waiting_def acks_for_own)
    then show ?thesis using True s(8) rest[of oid] by (auto simp: ptells_def tells_def passive_story_def)
  next
    case False
    have "ptells r h os oid" using ok by (simp add: passive_ok_def)
    moreover have "waiting r' oid = waiting r oid" "acks_for oid (h @ od_pending r') = acks_for oid (h @ od_pending r)"
      using s(1,3,4) other[OF False] by (simp_all add: waiting_def)
    ultimately show ?thesis using False rest[of oid] by (cases "os oid") (simp_all add: ptells_def tells_def)
  qed
  moreover have "well_keyed r'"
  proof -
    have "well_keyed r" using ok by (simp add: passive_ok_def)
    moreover have "ro_request p = o'" if "ro = Some p" for p
      using s(8) that by (auto simp: passive_story_def rested_def rest_story_def)
    moreover have "distinct (map fst (pr_resting r'))" if "distinct (map fst (pr_resting r))"
      using that s(7) by (cases ro) (simp_all add: distinct_dict_set)
    ultimately show ?thesis unfolding well_keyed_def rest by (metis option.inject)
  qed
  ultimately show ?thesis using ok s(3,5) by (auto simp: passive_ok_def)
qed

lemma passive_cancel_ok:
  assumes ok: "passive_ok r h os" and run: "passive_cancel pc env oid r = (Inr b, r')"
  shows "passive_ok r' h os"
proof (cases "map_of (pr_resting r) oid")
  case None
  show ?thesis
  proof (cases "rc_moc (pc_router pc) = None \<or> take_pending oid (br_moc r) = None")
    case True
    then have "r' = r" using run None by (auto simp: passive_cancel_def moc_cancel_pending_def split: if_splits)
    then show ?thesis using ok by simp
  next
    case False
    then obtain m rest where m: "take_pending oid (br_moc r) = Some (m, rest)" by auto
    let ?a = "router_ack (max (re_now env) (pm_ack_ts m)) (od_ack_seq r) (pm_request m) ACK_CANCELLED 0 None 0 0 ''client_cancel''"
    have r': "r' = (append_acks [?a] r)\<lparr>br_moc := rest\<rparr>"
      using run None False m by (auto simp: passive_cancel_def moc_cancel_pending_def push_status_acks)
    have "closing (moc_view m) [?a]" by (simp add: closing_def moc_view_def shared_filled_def)
    then have "settles moc_view (br_moc r) rest [?a]" using take_pending_settles[OF m] by blast
    then show ?thesis using ok r' by (intro passive_ok_settle[OF ok, of _ "[?a]"]) (auto simp: append_acks_def passive_ok_def)
  qed
next
  case (Some p)
  have keyed: "well_keyed r" using ok by (simp add: passive_ok_def)
  then have key: "or_order_id (ro_request p) = oid" using Some by (simp add: well_keyed_def)
  obtain s where s: "append_cancel_ack pc env p ''client_cancel'' ACK_CANCELLED r = (Inr (), s)" "r' = remove_resting oid s"
    using run Some by (auto simp: passive_cancel_def modify_def ok_def dest!: andThen_InrD)
  from cancel_ack_effect[OF s(1)] obtain a where a: "s = append_acks [a] r" "oa_order_id a = or_order_id (ro_request p)"
    "oa_status a = ACK_CANCELLED" "oa_filled_quantity a = 0" "ro_ack_ts p \<le> ev_timestamp a" "oa_fill_price a = None" by blast
  have adv: "advances p None [a]" using a by (intro advances_end) simp_all
  have pop: "map_of (pr_resting r') x = (if x = oid then None else map_of (pr_resting r) x)" for x
    using s(2) a(1) by (simp add: remove_resting_def)
  have "well_keyed r'" using keyed s(2) a(1) by (auto simp: well_keyed_def remove_resting_def split: if_splits)
  then have "rest_effect [a] r r'" using s(2) a(1,2) key pop Some adv
    by (auto simp: rest_effect_def remove_resting_def append_acks_def acks_for_def)
  then show ?thesis by (rule passive_ok_rest[OF ok])
qed

lemma passive_expire_ok:
  assumes ok: "passive_ok r h os"
  shows "passive_ok (passive_expire pc env reason r) h os"
proof -
  let ?s = "r\<lparr>br_moc := []\<rparr>" and ?r' = "moc_expire_unfilled (passive_reject pc) env reason r"
  from journaled_reject.expire_settles[of ?s pc "re_now env" reason "br_moc r"]
  obtain xs where xs: "emits xs ?s ?r'" "settles moc_view (br_moc r) [] xs" by (auto simp: moc_expire_unfilled_def)
  have "pr_resting ?r' = pr_resting r" by (simp add: moc_expire_unfilled_def expire_resting)
  then have "passive_ok ?r' h os" using ok xs
    by (intro passive_ok_settle[OF ok, of _ xs]) (auto simp: emits_def passive_ok_def)
  then show ?thesis using ok by (simp add: passive_expire_def)
qed

subsection \<open>Reachable states of the passive router\<close>

inductive passive_reach :: "passive_config \<Rightarrow> passive_router \<Rightarrow> order_ack list \<Rightarrow> (string \<Rightarrow> order_request option) \<Rightarrow> bool" for pc where
  Start: "passive_reach pc (new_passive_router journal) [] (\<lambda>_. None)"
| Submit: "passive_reach pc r h os \<Longrightarrow> os (or_order_id o') = None \<Longrightarrow> 0 < or_quantity o' \<Longrightarrow> passive_submit pc env o' q r = (Inr (), r')
    \<Longrightarrow> passive_reach pc r' h (os(or_order_id o' := Some o'))"
| Quote: "passive_reach pc r h os \<Longrightarrow> nq_exchange_timestamp q \<le> re_now env \<Longrightarrow> passive_on_quote pc env q r = (Inr (), r')
    \<Longrightarrow> passive_reach pc r' h os"
| Trade: "passive_reach pc r h os \<Longrightarrow> passive_reach pc (passive_on_trade pc t r) h os"
| Poll: "passive_reach pc r h os \<Longrightarrow> passive_poll r = (as, r') \<Longrightarrow> passive_reach pc r' (h @ as) os"
| Cancel: "passive_reach pc r h os \<Longrightarrow> passive_cancel pc env oid r = (Inr b, r') \<Longrightarrow> passive_reach pc r' h os"
| Expire: "passive_reach pc r h os \<Longrightarrow> passive_reach pc (passive_expire pc env reason r) h os"
| Bind: "passive_reach pc r h os \<Longrightarrow> passive_reach pc (bind_submitted_order_journal j r) h os"

lemma passive_reach_ok: "passive_reach pc r h os \<Longrightarrow> passive_ok r h os"
proof (induction rule: passive_reach.induct)
  case (Start journal)
  show ?case by (simp add: passive_ok_def new_passive_router_def ptells_def tells_def waiting_def acks_for_def well_keyed_def)
next
  case (Submit r h os o' env q r')
  show ?case by (rule passive_submit_ok[OF Submit.IH Submit.hyps(2) passive_submit_first[OF Submit.hyps(4,3)]])
next
  case (Quote r h os q env r')
  show ?case by (rule passive_on_quote_ok[OF Quote.IH Quote.hyps(2,3)])
next
  case (Trade r h os t)
  have "well_keyed r" using Trade.IH by (simp add: passive_ok_def)
  then show ?case by (rule passive_ok_rest[OF Trade.IH passive_on_trade_effect])
next
  case (Poll r h os as r')
  then show ?case by (intro passive_ok_cong[OF Poll.IH]) (auto simp: passive_poll_def)
next
  case (Cancel r h os env oid b r')
  show ?case by (rule passive_cancel_ok[OF Cancel.IH Cancel.hyps(2)])
next
  case (Expire r h os env reason)
  then show ?case by (simp add: passive_expire_ok)
next
  case (Bind r h os j)
  then show ?case by (intro passive_ok_cong[OF Bind.IH]) (auto simp: bind_submitted_order_journal_def)
qed

definition cut_short :: "order_ack list \<Rightarrow> bool" where
  \<comment> \<open>partly filled, and rejected afterwards\<close>
  "cut_short as \<longleftrightarrow> ACK_PARTIALLY_FILLED \<in> oa_status ` set as \<and> oa_status (last as) = ACK_REJECTED"

lemma partial_fills_stay: "list_all (\<lambda>a. oa_status a = ACK_PARTIALLY_FILLED) xs
  \<Longrightarrow> fold ack_result (map oa_status xs) ACKNOWLEDGED = (if xs = [] then ACKNOWLEDGED else PARTIALLY_FILLED)"
proof (induction xs rule: rev_induct)
  case (snoc a xs)
  then show ?case by (auto simp: ack_result_def)
qed simp

lemma rested_terminal:
  assumes "rested o' as ro"
  shows "fold ack_result (map oa_status as) SUBMITTED \<in> terminal_order_states \<longleftrightarrow> ro = None \<and> \<not> cut_short as"
proof -
  obtain a t xs where a: "as = a # xs" "acked_at o' t a" "rest_story o' t xs ro" using assms by (auto simp: rested_def)
  have first: "fold ack_result (map oa_status as) SUBMITTED = fold ack_result (map oa_status xs) ACKNOWLEDGED"
    "oa_status a = ACK_ACKNOWLEDGED" using a(1,2) by (simp_all add: acked_at_def ack_result_def)
  show ?thesis
  proof (cases ro)
    case (Some p)
    then have "list_all (\<lambda>a. oa_status a = ACK_PARTIALLY_FILLED) xs" using a(3) by (simp add: rest_story_def)
    then show ?thesis using Some by (simp add: first(1) partial_fills_stay terminal_order_states_def)
  next
    case None
    then have x: "xs \<noteq> []" "list_all (\<lambda>a. oa_status a = ACK_PARTIALLY_FILLED) (butlast xs)"
      "oa_status (last xs) \<in> {ACK_FILLED, ACK_EXPIRED, ACK_CANCELLED, ACK_REJECTED}"
      using a(3) by (auto simp: rest_story_def split: if_splits)
    then have xs: "xs = butlast xs @ [last xs]" by simp
    define s where "s = (if butlast xs = [] then ACKNOWLEDGED else PARTIALLY_FILLED)"
    have "fold ack_result (map oa_status xs) ACKNOWLEDGED = ack_result (oa_status (last xs)) s"
      using partial_fills_stay[OF x(2)] by (subst xs) (simp add: s_def)
    moreover have "cut_short as \<longleftrightarrow> butlast xs \<noteq> [] \<and> oa_status (last xs) = ACK_REJECTED"
    proof -
      have "oa_status ` set as = insert ACK_ACKNOWLEDGED (insert (oa_status (last xs)) (oa_status ` set (butlast xs)))"
        unfolding a(1) using first(2) by (subst xs) auto
      then show ?thesis using x a(1) by (cases "butlast xs") (auto simp: cut_short_def list_all_iff)
    qed
    ultimately show ?thesis using None x(3) first(1) by (auto simp: s_def ack_result_def terminal_order_states_def)
  qed
qed

lemma rested_filled:
  assumes "rested o' as ro"
  shows "shared_filled as \<le> or_quantity o'"
  using assms by (auto simp: rested_def rest_story_def acked_at_def shared_filled_def split: option.splits if_splits)

lemma order_story_filled:
  assumes "order_story o' as w" "0 \<le> or_quantity o'"
  shows "shared_filled as \<le> or_quantity o'"
  using assms by (auto simp: order_story_def refused_def acked_at_def closing_def shared_filled_def split: if_splits)

lemma order_story_not_cut: "order_story o' as w \<Longrightarrow> \<not> cut_short as"
  by (auto simp: order_story_def refused_def acked_at_def closing_def cut_short_def split: if_splits)

lemma reach_positive: "passive_reach pc r h os \<Longrightarrow> os oid = Some o' \<Longrightarrow> 0 < or_quantity o'"
  by (induction rule: passive_reach.induct) (auto split: if_splits)

lemma story_of_all:
  assumes "passive_reach pc r h os" "os oid = Some o'"
  defines "as \<equiv> acks_for oid (h @ od_pending r)"
  shows "passive_story o' as (waiting r oid) (map_of (pr_resting r) oid) \<and> shared_filled as \<le> or_quantity o'
    \<and> (fold ack_result (map oa_status as) SUBMITTED \<in> terminal_order_states
        \<longleftrightarrow> waiting r oid = [] \<and> map_of (pr_resting r) oid = None \<and> \<not> cut_short as)"
proof -
  have "ptells r h os oid" using passive_reach_ok[OF assms(1)] by (simp add: passive_ok_def)
  then have "map_of (pr_resting r) oid = None \<and> order_story o' as (waiting r oid)
      \<or> waiting r oid = [] \<and> rested o' as (map_of (pr_resting r) oid)"
    using assms(2) by (auto simp: ptells_def tells_def as_def)
  then show ?thesis
  proof (elim disjE conjE)
    assume o: "map_of (pr_resting r) oid = None" "order_story o' as (waiting r oid)"
    then show ?thesis
      using story_terminal[OF o(2)] order_story_filled[OF o(2)] order_story_not_cut[OF o(2)] reach_positive[OF assms(1,2)]
      by (auto simp: passive_story_def)
  next
    assume o: "waiting r oid = []" "rested o' as (map_of (pr_resting r) oid)"
    then show ?thesis using rested_terminal[OF o(2)] rested_filled[OF o(2)] by (auto simp: passive_story_def)
  qed
qed

text \<open>C26: The passive router tells the story of every order once. Whatever calls are made in whatever order
  (fresh submissions of a positive quantity, quotes, trades, polls, cancellations, expiries, binding of
  a journal), an order it was given was refused; or went the way of a market order; or was
  acknowledged, rests or was partly filled while its entry counts exactly those shares, and then
  ended once: filled to its quantity, expired, cancelled or rejected. Its fills never exceed its quantity, no fill at
  rest is beyond its limit, and no acknowledgement is earlier than the first. The kernel's order table
  reaches a terminal state exactly when the router no longer holds the order, except for an order
  rejected after a partial fill, whose rejection the table does not accept.\<close>

theorem passive_orders_one_story:
  assumes "passive_reach pc r h os" and "os oid = Some o'"
  shows "passive_story o' (acks_for oid (h @ od_pending r)) (waiting r oid) (map_of (pr_resting r) oid)
    \<and> shared_filled (acks_for oid (h @ od_pending r)) \<le> or_quantity o'
    \<and> (fold ack_result (map oa_status (acks_for oid (h @ od_pending r))) SUBMITTED \<in> terminal_order_states
        \<longleftrightarrow> waiting r oid = [] \<and> map_of (pr_resting r) oid = None \<and> \<not> cut_short (acks_for oid (h @ od_pending r)))"
  by (rule story_of_all[OF assms])

subsection \<open>A resting order that is partly filled, then rejected at the close\<close>

definition sample_session :: session_bounds where
  "sample_session = \<lparr>sb_date = 0, sb_open = 0, sb_close = 1000, sb_holiday = False, sb_early_close = False,
     sb_no_entry_seconds = 0, sb_open_et = ''09:30'', sb_close_et = ''16:00'',
     sb_early_close_et = ''13:00'', sb_holiday_dates = [], sb_early_dates = []\<rparr>"

definition sample_passive_config :: passive_config where
  "sample_passive_config = \<lparr>pc_router = sample_router_config\<lparr>rc_latency := 0, rc_session := Some sample_session\<rparr>, pc_base_hazard = 1/2,
     pc_hazard_max = 1/2, pc_queue_shares = 0, pc_cancel_fee = 0, pc_size_cap = True, pc_require_trade = False, pc_digest = (\<lambda>_. 0),
     pc_codec = sample_journal_codec\<rparr>"

definition resting_buy :: order_request where
  "resting_buy = sample_buy\<lparr>or_order_type := LIMIT, or_limit_price := Some (9998/100)\<rparr>"

definition crossing_quote :: "ns \<Rightarrow> nbbo_quote" where
  "crossing_quote t = sample_market_quote\<lparr>nq_bid := 9996/100, nq_ask := 9998/100, nq_exchange_timestamp := t\<rparr>"

definition sample_env :: "ns \<Rightarrow> router_env" where
  "sample_env t = \<lparr>re_now = t, re_position = None\<rparr>"

definition at_rest :: "int \<Rightarrow> int \<Rightarrow> resting_order" where
  "at_rest ticks n = \<lparr>ro_request = resting_buy, ro_side = BUY, ro_limit = 9998/100, ro_ack_ts = 10, ro_queue_ahead = 0,
     ro_ticks_at_level = 0, ro_total_ticks = ticks, ro_traded = 0, ro_filled = n, ro_at_bbo = 0 < ticks\<rparr>"

lemma sample_gate:
  "rth_should_suppress (pc_router sample_passive_config) (sample_env t) resting_buy ts
     = (if ts < 0 \<or> 1000 \<le> ts then Some ''RTH_ENTRY_SUPPRESSED'' else None)"
  by (simp add: rth_should_suppress_def sample_passive_config_def sample_router_config_def sample_session_def sample_env_def
      resting_buy_def sample_buy_def order_opens_or_increases_def opens_or_increases_signed_def should_suppress_entry_def
      covers_ns_def resolve_for_timestamp_def no_entry_before_ns_def Let_def)

lemma sample_snap: "snap_limit_price BUY (4999/50) = Inr (4999/50)"
  by (simp add: snap_limit_price_def tick_places_def quantize_def)

lemma sample_posted:
  "passive_submit sample_passive_config (sample_env 10) resting_buy (Some sample_market_quote) (new_passive_router None)
     = (Inr (), (append_acks [router_ack 10 0 resting_buy ACK_ACKNOWLEDGED 0 None 0 0 ''''] (new_passive_router None))
         \<lparr>pr_resting := [(''o1'', at_rest 0 0)], od_submitted := {''o1''}\<rparr>)"
  unfolding passive_submit_def Let_def option.case sample_gate
  by (simp add: post_passive_def resting_buy_def sample_buy_def sample_market_quote_def sample_snap lift_then moc_submit_def
      push_status_acks append_acks_def new_passive_router_def journal_ids_def at_rest_def sample_env_def sample_passive_config_def sample_router_config_def Let_def)

lemma sample_partial:
  assumes "pr_resting r = [(''o1'', at_rest 0 0)]" "br_deferred r = []"
  shows "passive_on_quote sample_passive_config (sample_env 20) (crossing_quote 20) r
    = (Inr (), (append_acks [router_ack 20 (od_ack_seq r) resting_buy ACK_PARTIALLY_FILLED 300 (Some (9998/100)) 0 0 ''FILLED_BY_THROUGH'']
         (r\<lparr>br_quotes := (br_quotes r)(''A'' := Some (crossing_quote 20))\<rparr>))\<lparr>pr_resting := [(''o1'', at_rest 1 300)]\<rparr>)"
proof -
  have gate: "rth_should_suppress (pc_router sample_passive_config) (sample_env 20) resting_buy 20 = None" by (simp add: sample_gate)
  have ev: "evaluate_fill sample_passive_config ((at_rest 0 0)\<lparr>ro_total_ticks := 1\<rparr>) (crossing_quote 20) = (Through, at_rest 1 0)"
    by (simp add: evaluate_fill_def at_rest_def crossing_quote_def Let_def)
  have fields: "nq_exchange_timestamp (crossing_quote t) = t" "nq_symbol (crossing_quote t) = ''A''" "rc_moc (pc_router sample_passive_config) = None"
    "ro_request (at_rest x y) = resting_buy" "ro_ack_ts (at_rest x y) = 10" "ro_total_ticks (at_rest x y) = x"
    "or_symbol resting_buy = ''A''" for t x y
    by (simp_all add: crossing_quote_def sample_market_quote_def sample_passive_config_def sample_router_config_def at_rest_def
        resting_buy_def sample_buy_def)
  have "fill_through sample_passive_config (sample_env 20) (crossing_quote 20) ''o1'' (at_rest 1 0) s
      = (Inr False, put_resting ''o1'' (at_rest 1 300)
          (append_acks [router_ack 20 (od_ack_seq s) resting_buy ACK_PARTIALLY_FILLED 300 (Some (9998/100)) 0 0 ''FILLED_BY_THROUGH''] s))" for s
    by (simp add: fill_through_def at_rest_def touch_def touch_size_def crossing_quote_def sample_market_quote_def resting_buy_def sample_buy_def
        sample_passive_config_def emit_passive_fill_def sample_snap lift_result_def sample_router_config_def sample_fill_config_def zero_cost_def
        modify_def andThen_def ok_def push_ack_def append_acks_def record_passive_fill_def sample_env_def Let_def)
  then show ?thesis using assms
    by (simp add: passive_on_quote_def modify_def andThen_def moc_on_quote_def fields flush_deferred_aggressive_def check_resting_orders_def
        resting_at_def check_one_def ev act_on_resting_def gate ok_def put_resting_def append_acks_def)
qed

lemma sample_rejected:
  assumes "pr_resting r = [(''o1'', at_rest 1 300)]" "br_deferred r = []" "pr_journal r = None"
  shows "\<exists>r'. passive_on_quote sample_passive_config (sample_env 1000) (crossing_quote 1000) r = (Inr (), r') \<and> pr_resting r' = []
    \<and> (\<exists>a. od_pending r' = od_pending r @ [a] \<and> oa_status a = ACK_REJECTED \<and> oa_order_id a = ''o1'')"
proof -
  have gate: "rth_should_suppress (pc_router sample_passive_config) (sample_env 1000) resting_buy 1000 = Some ''RTH_ENTRY_SUPPRESSED''" by (simp add: sample_gate)
  have ev: "evaluate_fill sample_passive_config ((at_rest 1 300)\<lparr>ro_total_ticks := 2\<rparr>) (crossing_quote 1000) = (Through, at_rest 2 300)"
    by (simp add: evaluate_fill_def at_rest_def crossing_quote_def Let_def)
  have fields: "nq_exchange_timestamp (crossing_quote t) = t" "nq_symbol (crossing_quote t) = ''A''" "rc_moc (pc_router sample_passive_config) = None"
    "ro_request (at_rest x y) = resting_buy" "ro_ack_ts (at_rest x y) = 10" "ro_total_ticks (at_rest x y) = x"
    "or_symbol resting_buy = ''A''" "or_order_id resting_buy = ''o1''" for t x y
    by (simp_all add: crossing_quote_def sample_market_quote_def sample_passive_config_def sample_router_config_def at_rest_def
        resting_buy_def sample_buy_def)
  show ?thesis using assms
    by (simp add: passive_on_quote_def modify_def andThen_def moc_on_quote_def fields flush_deferred_aggressive_def check_resting_orders_def
        resting_at_def check_one_def ev act_on_resting_def gate ok_def put_resting_def remove_resting_def passive_reject_def
        journal_reject_def append_reject_ack_def push_ack_def Let_def dict_pop_def)
qed

lemma passive_story_witness:
  "\<exists>r. passive_reach sample_passive_config r [] [''o1'' \<mapsto> resting_buy] \<and> map_of (pr_resting r) ''o1'' = None
    \<and> fold ack_result (map oa_status (acks_for ''o1'' (od_pending r))) SUBMITTED \<notin> terminal_order_states"
proof -
  have id: "or_order_id resting_buy = ''o1''" "0 < or_quantity resting_buy" by (simp_all add: resting_buy_def sample_buy_def)
  define r1 where "r1 = snd (passive_submit sample_passive_config (sample_env 10) resting_buy (Some sample_market_quote) (new_passive_router None))"
  have r1: "passive_submit sample_passive_config (sample_env 10) resting_buy (Some sample_market_quote) (new_passive_router None) = (Inr (), r1)"
    "pr_resting r1 = [(''o1'', at_rest 0 0)]" "br_deferred r1 = []" "pr_journal r1 = None"
    "od_pending r1 = [router_ack 10 0 resting_buy ACK_ACKNOWLEDGED 0 None 0 0 '''']"
    unfolding r1_def sample_posted by (simp_all add: append_acks_def new_passive_router_def)
  have reach1: "passive_reach sample_passive_config r1 [] [''o1'' \<mapsto> resting_buy]"
    using passive_reach.Submit[OF passive_reach.Start _ id(2) r1(1)] id(1) by simp
  define r2 where "r2 = snd (passive_on_quote sample_passive_config (sample_env 20) (crossing_quote 20) r1)"
  have r2: "passive_on_quote sample_passive_config (sample_env 20) (crossing_quote 20) r1 = (Inr (), r2)"
    "pr_resting r2 = [(''o1'', at_rest 1 300)]" "br_deferred r2 = []" "pr_journal r2 = None"
    "od_pending r2 = od_pending r1 @ [router_ack 20 (od_ack_seq r1) resting_buy ACK_PARTIALLY_FILLED 300 (Some (9998/100)) 0 0 ''FILLED_BY_THROUGH'']"
    unfolding r2_def sample_partial[OF r1(2,3)] using r1 by (simp_all add: append_acks_def)
  have time: "nq_exchange_timestamp (crossing_quote t) \<le> re_now (sample_env t)" for t by (simp add: crossing_quote_def sample_env_def)
  have reach2: "passive_reach sample_passive_config r2 [] [''o1'' \<mapsto> resting_buy]" by (rule passive_reach.Quote[OF reach1 time r2(1)])
  obtain r3 a where r3: "passive_on_quote sample_passive_config (sample_env 1000) (crossing_quote 1000) r2 = (Inr (), r3)" "pr_resting r3 = []"
    "od_pending r3 = od_pending r2 @ [a]" "oa_status a = ACK_REJECTED" "oa_order_id a = ''o1''"
    using sample_rejected[OF r2(2-4)] by blast
  have reach3: "passive_reach sample_passive_config r3 [] [''o1'' \<mapsto> resting_buy]" by (rule passive_reach.Quote[OF reach2 time r3(1)])
  have "cut_short (acks_for ''o1'' (od_pending r3))"
    using r3(3-5) r2(5) r1(5) id(1) by (simp add: acks_for_def cut_short_def)
  then show ?thesis using passive_orders_one_story[OF reach3, of "''o1''" resting_buy] reach3 r3(2) by auto
qed

end
