(* ===== verification/Forced_Orders.thy ===== *)
theory Forced_Orders
  imports Forced_Exit
begin

section \<open>What the forced paths send to the router\<close>

text \<open>
  Theorems on the orders that the forced-exit paths submit: a router that also writes down
  every submitted order shows which orders leave the kernel, of which size, and how often.
\<close>

subsection \<open>Operations that never talk to the router\<close>

definition same_router :: "'r kernel \<Rightarrow> 'r kernel \<Rightarrow> bool" where
  "same_router k k' \<longleftrightarrow> k_router k' = k_router k \<and> k_fallback k' = k_fallback k \<and> k_hazard_ids k' = k_hazard_ids k"

interpretation quiet: framed "same_router :: 'r kernel \<Rightarrow> 'r kernel \<Rightarrow> bool"
  by unfold_locales (auto simp: same_router_def)

lemma alert_quiet: "keeps same_router (alert sev name cid)"
  by (simp add: keeps_def alert_run same_router_def)

lemma publish_event_quiet: "keeps same_router (publish_event e)"
  by (simp add: keeps_def publish_event_run same_router_def)

lemma order_transition_quiet: "keeps same_router (order_transition oid t trigger cid)"
  by (simp add: keeps_def order_transition_def same_router_def split: option.split prod.split)

lemma order_if_quiet: "keeps same_router alt \<Longrightarrow> keeps same_router (order_if oid t trigger cid alt)"
  by (rule quiet.state_keeps) (simp add: order_if_def quiet.at_state quiet.at_state[OF order_transition_quiet])

lemma track_order_quiet: "keeps same_router (track_order oid sd o' intent)"
  by (simp add: keeps_def track_order_def same_router_def Let_def record_fill_attribution_def split: sum.split option.split)

lemma prune_quiet: "keeps same_router (modify prune_terminal_orders)"
  by (simp add: keeps_def modify_def same_router_def prune_terminal_orders_def Let_def prune_loop)

lemma apply_ack_quiet: "keeps same_router (apply_ack_to_order a)"
proof (rule quiet.state_keeps)
  fix k :: "'a kernel"
  have drop: "keeps same_router (order_if oid t trigger cid (emit_ack_drop_alert a))" for oid t trigger cid
    unfolding emit_ack_drop_alert_def by (rule order_if_quiet[OF alert_quiet])
  have choose: "same_router s (snd x) \<Longrightarrow> same_router s (snd y) \<Longrightarrow> same_router s (snd (if b then x else y))"
    for s :: "'a kernel" and b and x y :: "unit result \<times> 'a kernel" by simp
  note steps = quiet.at_state[OF alert_quiet] quiet.at_state[OF order_transition_quiet] quiet.at_state[OF drop]
  have first: "keeps same_router (if b then order_transition oid t trigger cid else ok ())" for b oid t trigger cid
    by (intro quiet.if_keeps quiet.ok_keeps order_transition_quiet)
  show "same_router k (snd (apply_ack_to_order a k))"
    unfolding apply_ack_to_order_def Let_def
    by (cases "map_of (k_active k) (oa_order_id a)")
      (auto simp only: option.simps snd_conv quiet.stay split: prod.split
        intro!: choose steps quiet.at_state[OF quiet.andThen_keeps[OF first quiet.state_keeps]])
qed

lemma apply_acks_quiet: "keeps same_router (publish_and_apply_order_acks acks)"
  unfolding publish_and_apply_order_acks_def by (intro quiet.keeps publish_event_quiet apply_ack_quiet)

lemma reconcile_ack_quiet: "keeps same_router (reconcile_ack cfg cid a)"
proof (rule quiet.state_keeps)
  fix k :: "'a kernel"
  have att: "keeps same_router (attribute_fill a o' q price)" for o' q price
    by (simp add: keeps_def attribute_fill_def same_router_def Let_def split: option.splits sum.splits prod.splits)
  have over: "keeps same_router (cost_overrun cfg cid a o')" for o'
    by (simp add: keeps_def cost_overrun_def Let_def andThen_def alert_run modify_def same_router_def)
  have report: "keeps same_router (report_fill cfg cid a price sd o' prev p legs)" for price sd o' prev p legs
    unfolding report_fill_def
    by (intro quiet.andThen_keeps quiet.modify_keeps over)
      (auto simp: same_router_def journal_fill_def Let_def split: option.split)
  have move: "same_router k (move_books cfg a price q o' k)" for price q o' k
    by (simp add: same_router_def move_books_def Let_def)
  have book: "keeps same_router (book_ack cfg cid a price sd o')" for price sd o'
    unfolding book_ack_def Let_def
    by (rule quiet.state_keeps) (rule quiet.after[OF move quiet.andThen_keeps[OF att report]])
  have debit: "same_router k (debit_terminal_fees cid a k)"
    by (simp add: same_router_def debit_terminal_fees_def Let_def)
  note run = quiet.after[OF debit]
  show "same_router k (snd (reconcile_ack cfg cid a k))"
    by (simp add: reconcile_ack_def Let_def run[OF alert_quiet] run[OF book] debit split: option.split)
qed

lemma reconcile_fills_quiet: "keeps same_router (reconcile_fills cfg acks cid)"
  unfolding reconcile_fills_def by (intro quiet.keeps reconcile_ack_quiet prune_quiet)

lemma reject_quiet: "keeps same_router (reject_order_after_submit_failure o' e)"
  unfolding reject_order_after_submit_failure_def
  by (intro quiet.andThen_keeps alert_quiet quiet.state_keeps)
    (simp add: quiet.stay quiet.at_state[OF quiet.andThen_keeps[OF order_if_quiet[OF quiet.ok_keeps] prune_quiet]])

subsection \<open>A router that records what it is sent\<close>

definition recording :: "'r router \<Rightarrow> ('r \<times> order_request list) router" where
  "recording rt =
     \<lparr>rt_submit = (\<lambda>o' (r, sent). case rt_submit rt o' r of (e, r') \<Rightarrow> (e, (r', sent @ [o']))),
      rt_poll = (\<lambda>(r, sent). case rt_poll rt r of (x, r') \<Rightarrow> (x, (r', sent))),
      rt_cancel = map_option (\<lambda>cancel oid (r, sent). case cancel oid r of (x, r') \<Rightarrow> (x, (r', sent))) (rt_cancel rt),
      rt_expire_moc = map_option (\<lambda>expire (r, sent). (expire r, sent)) (rt_expire_moc rt)\<rparr>"

type_synonym 'r recorded = "('r \<times> order_request list) kernel"

definition sent :: "'r recorded \<Rightarrow> order_request list" where
  "sent k = snd (k_router k)"

definition same_sent :: "'r recorded \<Rightarrow> 'r recorded \<Rightarrow> bool" where
  "same_sent k k' \<longleftrightarrow> sent k' = sent k \<and> k_hazard_ids k' = k_hazard_ids k \<and> k_fallback k' = k_fallback k"

interpretation unsent: framed "same_sent :: 'r recorded \<Rightarrow> 'r recorded \<Rightarrow> bool"
  by unfold_locales (auto simp: same_sent_def)

lemma quiet_unsent: "keeps same_router f \<Longrightarrow> keeps same_sent f"
  by (auto simp: keeps_def same_router_def same_sent_def sent_def)

lemma poll_unsent: "keeps same_sent (poll_order_router_acks (recording rt) expected)"
  by (auto simp: keeps_def poll_order_router_acks_def recording_def same_sent_def sent_def Let_def
      split: prod.splits sum.splits option.splits)

lemma settle_unsent: "keeps same_sent (settle_router_acks cfg (recording rt) cid expected)"
  unfolding settle_router_acks_def
  by (intro unsent.keeps poll_unsent quiet_unsent[OF apply_acks_quiet] quiet_unsent[OF reconcile_fills_quiet])

lemma cancel_resting_unsent: "keeps same_sent (cancel_resting_for_symbol cfg (recording rt) s cid)"
proof (cases "rt_cancel rt")
  case None
  then show ?thesis by (simp add: cancel_resting_for_symbol_def recording_def keeps_def unsent.stay)
next
  case (Some c)
  have one: "keeps same_sent (router_cancel (\<lambda>oid (r, sent). case c oid r of (x, r') \<Rightarrow> (x, r', sent)) oid)" for oid
    by (auto simp: keeps_def router_cancel_def same_sent_def sent_def split: prod.splits)
  have settle: "keeps same_sent (\<lambda>k. andThen (settle_router_acks cfg (recording rt) cid (Some (resting_ids s k))) (\<lambda>_. ok ()) k)"
    by (rule unsent.state_keeps, rule unsent.at_state) (intro unsent.keeps settle_unsent)
  show ?thesis
    by (rule unsent.state_keeps)
      (simp add: cancel_resting_for_symbol_def recording_def Some
        unsent.at_state[OF unsent.andThen_keeps[OF unsent.each_keeps[OF unsent.andThen_keeps[OF one unsent.ok_keeps]] settle], unfolded recording_def Some option.map])
qed

lemma submit_router_sent:
  "sent (snd (submit_to_router (recording rt) o' k)) = sent k @ [o']"
  "k_hazard_ids (snd (submit_to_router (recording rt) o' k)) = k_hazard_ids k"
  "k_fallback (snd (submit_to_router (recording rt) o' k)) = k_fallback k"
  by (auto simp: submit_to_router_def recording_def sent_def split: prod.splits option.splits)

text \<open>A freshly tracked order is submitted exactly once, whatever the router answers.\<close>

lemma track_and_submit:
  fixes k :: "'r recorded" and o' :: order_request and g :: "exn option \<Rightarrow> ('r \<times> order_request list, 'b) kact"
    and sd intent rt trigger
  assumes k: "kernel_ok k" and g: "\<And>x. keeps same_sent (g x)"
  defines "k' \<equiv> snd (andThen (track_order (or_order_id o') sd o' intent)
            (\<lambda>_. andThen (submit_tracked_order (recording rt) o' trigger) g) k)"
  shows "sent k' = sent k @ [o']" "k_hazard_ids k' = k_hazard_ids k" "k_fallback k' = k_fallback k"
proof -
  have a: "active_ok k" using k by (simp add: kernel_ok_def)
  obtain k1 sm where k1: "track_order (or_order_id o') sd o' intent k = (Inr (), k1)" "active_ok k1" "sm_state sm = CREATED"
    "k_active k1 = dict_set (or_order_id o') (sm, sd, o') (k_active k)"
    using track_order_run[OF a, of "or_order_id o'" sd o' intent] by metis
  have s1: "same_sent k k1" by (rule keepsD[OF quiet_unsent[OF track_order_quiet] k1(1)])
  have st: "order_machine_state k1 (or_order_id o') = Some CREATED" using k1(3,4) by (simp add: order_machine_state_def)
  let ?k2 = "moved (or_order_id o') SUBMITTED trigger (ev_correlation o') k1"
  have k2: "transition_order (or_order_id o') SUBMITTED trigger (ev_correlation o') k1 = (Inr (), ?k2)"
    using order_transition_run[OF k1(2) st] by (simp add: transition_order_def)
  have s2: "same_sent k ?k2"
    by (rule unsent.onward[OF s1 keepsD[OF quiet_unsent[OF order_transition_quiet] k2[unfolded transition_order_def]]])
  obtain r k3 where k3: "submit_to_router (recording rt) o' ?k2 = (r, k3)" by (cases "submit_to_router (recording rt) o' ?k2")
  have s3: "sent k3 = sent k @ [o'] \<and> k_hazard_ids k3 = k_hazard_ids k \<and> k_fallback k3 = k_fallback k"
    using submit_router_sent[of rt o' ?k2] s2 by (simp add: k3 same_sent_def)
  have "sent (snd (submit_tracked_order (recording rt) o' trigger k1)) = sent k @ [o']
      \<and> k_hazard_ids (snd (submit_tracked_order (recording rt) o' trigger k1)) = k_hazard_ids k
      \<and> k_fallback (snd (submit_tracked_order (recording rt) o' trigger k1)) = k_fallback k"
    using s3 unsent.at_state[OF quiet_unsent[OF reject_quiet], of k3 o']
    by (cases r) (auto simp: submit_tracked_order_def andThen_parts catch_def k2 k3 ok_def same_sent_def split: sum.split)
  then show "sent k' = sent k @ [o']" "k_hazard_ids k' = k_hazard_ids k" "k_fallback k' = k_fallback k"
    using unsent.at_state[OF g] by (auto simp: k'_def andThen_parts k1(1) same_sent_def split: sum.split)
qed

subsection \<open>The clamp of a forced exit\<close>

lemma submit_clamped_sent:
  fixes k :: "'r recorded" and o' :: order_request and cfg rt
  assumes "kernel_ok k"
  defines "c \<equiv> forced_exit_closable_quantity k o'" and "k' \<equiv> snd (submit_clamped cfg (recording rt) o' k)"
  shows "sent k' = sent k @ (if 0 < c then [o'\<lparr>or_quantity := c\<rparr>] else [])" "k_hazard_ids k' = k_hazard_ids k"
proof -
  have le: "c \<le> or_quantity o'" by (simp add: c_def forced_exit_closable_quantity_def Let_def)
  let ?resize = "if c < or_quantity o'
              then andThen (alert alert_severity.WARNING ''forced_exit_resized_after_cancel'' (ev_correlation o'))
                     (\<lambda>_. modify (\<lambda>k. k\<lparr>k_announced := dict_set (or_order_id o') (or_quantity o') (k_announced k)\<rparr>))
              else ok ()"
  let ?o = "o'\<lparr>or_quantity := c\<rparr>"
  have o1: "(if c < or_quantity o' then ?o else o') = ?o" using le by simp
  have ids: "or_order_id ?o = or_order_id o'" "or_side ?o = or_side o'" "ev_correlation ?o = ev_correlation o'" by simp_all
  define kr where "kr = (if c < or_quantity o'
      then k\<lparr>k_log := publish_numbered (OutAlert alert_severity.WARNING ''forced_exit_resized_after_cancel'' (ev_correlation o')) (k_log k),
             k_announced := dict_set (or_order_id o') (or_quantity o') (k_announced k)\<rparr> else k)"
  have kr: "?resize k = (Inr (), kr)" "same_sent k kr" "kernel_step k kr"
    by (simp_all add: kr_def andThen_def alert_run modify_def ok_def same_sent_def sent_def kernel_step_def kernel_ok_def active_ok_def)
  have okr: "kernel_ok kr" using kr(3) assms(1) by (simp add: kernel_step_def)
  let ?g = "\<lambda>err. if err \<noteq> None then ok ()
        else andThen (settle_router_acks cfg (recording rt) (ev_correlation o') (Some [or_order_id o'])) (\<lambda>_. ok ())"
  have g: "keeps same_sent (?g x)" for x by (intro unsent.if_keeps unsent.keeps settle_unsent)
  note run = track_and_submit[OF okr g, of ?o "or_side o'" "''''" rt "or_reason ?o", unfolded ids]
  show "sent k' = sent k @ (if 0 < c then [?o] else [])" "k_hazard_ids k' = k_hazard_ids k"
    using run kr(2)
    by (auto simp: k'_def submit_clamped_def c_def[symmetric] Let_def o1 andThen_run(1)[of ?resize, OF kr(1)] alert_run same_sent_def sent_def
        cong: if_cong)
qed

definition shrinks :: "int \<Rightarrow> side \<Rightarrow> int \<Rightarrow> bool" where
  \<comment> \<open>filling so many shares on that side takes the quantity towards zero, never through it\<close>
  "shrinks q sd f \<longleftrightarrow>
     (let q' = (if sd = SELL then q - f else q + f) in \<bar>q'\<bar> = \<bar>q\<bar> - f \<and> (q' = 0 \<or> sgn q' = sgn q))"

lemma closable_shrinks: "0 \<le> f \<Longrightarrow> f \<le> closable_quantity q sd \<Longrightarrow> shrinks q sd f"
  by (cases "f = 0"; cases "q = f"; cases "q = - f") (auto simp: shrinks_def closable_quantity_def sgn_if split: if_splits)

text \<open>A forced exit is clamped to what can be closed. From any state, and whatever the router
  answers, the handler submits nothing when nothing is closable, and otherwise exactly one
  order: the requested one with the closable quantity, which is at most the requested one.
  However much of it fills, either the symbol-net position or, for a slice-scoped author,
  the author's own slice moves towards zero by that much and is not taken through it.\<close>

theorem forced_exit_clamped:
  assumes "kernel_ok k"
  shows "let c = forced_exit_closable_quantity k o';
             net = pos_quantity (ps_get (k_positions k) (or_symbol o'))
         in sent (snd (submit_clamped cfg (recording rt) o' k)) = sent k @ (if 0 < c then [o'\<lparr>or_quantity := c\<rparr>] else [])
            \<and> c \<le> or_quantity o'
            \<and> (\<forall>f \<in> {0..c}. shrinks net (or_side o') f
                 \<or> (or_reason o' \<in> slice_scoped_reasons
                    \<and> (\<exists>S. k_slices k = Some S \<and> shrinks (slice_q S (or_symbol o') (or_strategy o')) (or_side o') f)))"
proof -
  let ?c = "forced_exit_closable_quantity k o'" and ?net = "pos_quantity (ps_get (k_positions k) (or_symbol o'))"
  have "?c \<le> or_quantity o'" by (simp add: forced_exit_closable_quantity_def Let_def)
  moreover have "?c \<le> closable_quantity ?net (or_side o') \<or> (or_reason o' \<in> slice_scoped_reasons
      \<and> (\<exists>S. k_slices k = Some S \<and> ?c \<le> closable_quantity (slice_q S (or_symbol o') (or_strategy o')) (or_side o')))"
    by (auto simp: forced_exit_closable_quantity_def Let_def split: option.splits)
  ultimately show ?thesis
    using submit_clamped_sent(1)[OF assms, of cfg rt o'] closable_shrinks by (auto simp: Let_def)
qed

subsection \<open>One requirement, at most one order\<close>

definition at_most_one :: "order_request \<Rightarrow> 'r recorded \<Rightarrow> 'r recorded \<Rightarrow> bool" where
  "at_most_one o' k k' \<longleftrightarrow> k_hazard_ids k' = k_hazard_ids k
     \<and> (sent k' = sent k \<or> (\<exists>q. 0 < q \<and> q \<le> or_quantity o' \<and> sent k' = sent k @ [o'\<lparr>or_quantity := q\<rparr>]))"

lemma at_most_one_same: "same_sent k k' \<Longrightarrow> at_most_one o' k k'"
  by (simp add: at_most_one_def same_sent_def)

lemma at_most_one_after:
  assumes "kernel_ok k" "keeps same_sent f" "keeps kernel_step f" "\<And>x k. kernel_ok k \<Longrightarrow> at_most_one o' k (snd (g x k))"
  shows "at_most_one o' k (snd (andThen f g k))"
proof -
  obtain r k1 where run: "f k = (r, k1)" by (cases "f k")
  have k1: "same_sent k k1" "kernel_ok k1"
    using keepsD[OF assms(2) run] keepsD[OF assms(3) run] assms(1) by (simp_all add: kernel_step_def)
  then show ?thesis using assms(4)[OF k1(2)] by (cases r) (auto simp: andThen_def run at_most_one_def same_sent_def)
qed

lemma cancel_resting_step: "keeps kernel_step (cancel_resting_for_symbol cfg rt s cid)"
proof (cases "rt_cancel rt")
  case None
  then show ?thesis by (simp add: cancel_resting_for_symbol_def keeps_def step.stay)
next
  case (Some c)
  have one: "keeps kernel_step (router_cancel c oid)" for oid
    by (simp add: keeps_def router_cancel_def split: prod.split)
  have settle: "keeps kernel_step (\<lambda>k. andThen (settle_router_acks cfg rt cid (Some (resting_ids s k))) (\<lambda>_. ok ()) k)"
    by (rule step.state_keeps, rule step.at_state) (intro step.keeps settle_step)
  show ?thesis
    by (rule step.state_keeps)
      (simp add: cancel_resting_for_symbol_def Some step.at_state[OF step.andThen_keeps[OF step.each_keeps[OF step.andThen_keeps[OF one step.ok_keeps]] settle]])
qed

lemma closable_le: "forced_exit_closable_quantity k o' \<le> or_quantity o'"
  by (simp add: forced_exit_closable_quantity_def Let_def)

lemma submit_clamped_one: "kernel_ok k \<Longrightarrow> at_most_one o' k (snd (submit_clamped cfg (recording rt) o' k))"
  using submit_clamped_sent[of k cfg rt o'] closable_le by (auto simp: at_most_one_def)

lemma derisk_tail_one: "kernel_ok k \<Longrightarrow> at_most_one o' k (snd (derisk_tail cfg (recording rt) o' k))"
  unfolding derisk_tail_def
  by (simp add: submit_clamped_one at_most_one_same unsent.stay)
    (intro impI at_most_one_after quiet_unsent[OF alert_quiet] alert_step cancel_resting_unsent cancel_resting_step submit_clamped_one)

text \<open>Handling one requirement: the id is remembered, a known id is ignored.\<close>

definition handled :: "order_request \<Rightarrow> 'r recorded \<Rightarrow> 'r recorded \<Rightarrow> bool" where
  "handled o' k k' \<longleftrightarrow> set (k_hazard_ids k') = insert (or_order_id o') (set (k_hazard_ids k))
     \<and> (sent k' = sent k \<or> or_order_id o' \<notin> set (k_hazard_ids k)
          \<and> (\<exists>q. 0 < q \<and> q \<le> or_quantity o' \<and> sent k' = sent k @ [o'\<lparr>or_quantity := q\<rparr>]))"

lemma derisk_checked_cases:
  assumes new: "or_order_id o' \<notin> set (k_hazard_ids k)"
  obtains k2 b l where "k2 = k\<lparr>k_hazard_ids := or_order_id o' # k_hazard_ids k, k_log := l\<rparr>"
    "derisk_checked cfg rt check_order o' k = alert CRITICAL ''hazard_exit_nonreducing_reject_blocked'' (ev_correlation o') k2
     \<or> derisk_checked cfg rt check_order o' k = andThen
        (if b then alert alert_severity.WARNING ''hazard_exit_defensive_check_order_reject'' (ev_correlation o') else ok ())
        (\<lambda>_. derisk_tail cfg rt o') k2"
proof -
  define k1 where "k1 = k\<lparr>k_hazard_ids := List.insert (or_order_id o') (k_hazard_ids k)\<rparr>"
  obtain action why where v: "check_order o' (k_positions k1) = (action, why)" by (cases "check_order o' (k_positions k1)")
  define k2 where "k2 = (if action \<noteq> FORCE_FLATTEN then k1\<lparr>k_log := publish (OutVerdict action why) (k_log k1)\<rparr> else k1)"
  have "derisk_checked cfg rt check_order o' k =
      (if action = REJECT \<and> \<not> forced_exit_reduces k1 o'
       then alert CRITICAL ''hazard_exit_nonreducing_reject_blocked'' (ev_correlation o') k2
       else andThen (if action = REJECT then alert alert_severity.WARNING ''hazard_exit_defensive_check_order_reject'' (ev_correlation o') else ok ())
        (\<lambda>_. derisk_tail cfg rt o') k2)"
    unfolding derisk_checked_def Let_def k1_def[symmetric] v prod.case k2_def[symmetric] using new by (simp only: if_False)
  moreover have "k2 = k\<lparr>k_hazard_ids := or_order_id o' # k_hazard_ids k, k_log := k_log k2\<rparr>"
    using new by (simp add: k2_def k1_def)
  ultimately show ?thesis using that[of k2 "k_log k2" "action = REJECT"] by (cases "action = REJECT \<and> \<not> forced_exit_reduces k1 o'") auto
qed

lemma derisk_checked_handled:
  assumes "kernel_ok k"
  shows "handled o' k (snd (derisk_checked cfg (recording rt) check_order o' k))"
proof (cases "or_order_id o' \<in> set (k_hazard_ids k)")
  case True
  then show ?thesis by (auto simp: derisk_checked_def handled_def)
next
  case False
  have guard: "keeps same_sent (if b then alert sev name cid else ok ())" "keeps kernel_step (if b then alert sev name cid else ok ())"
    for b sev name cid
    by (intro unsent.if_keeps unsent.ok_keeps quiet_unsent[OF alert_quiet], intro step.if_keeps step.ok_keeps alert_step)
  obtain k2 b l where k2: "k2 = k\<lparr>k_hazard_ids := or_order_id o' # k_hazard_ids k, k_log := l\<rparr>"
    and run: "derisk_checked cfg (recording rt) check_order o' k = alert CRITICAL ''hazard_exit_nonreducing_reject_blocked'' (ev_correlation o') k2
     \<or> derisk_checked cfg (recording rt) check_order o' k = andThen
        (if b then alert alert_severity.WARNING ''hazard_exit_defensive_check_order_reject'' (ev_correlation o') else ok ())
        (\<lambda>_. derisk_tail cfg (recording rt) o') k2"
    by (rule derisk_checked_cases[OF False])
  have ok2: "kernel_ok k2" using assms by (simp add: k2 kernel_ok_def active_ok_def)
  have "at_most_one o' k2 (snd (derisk_checked cfg (recording rt) check_order o' k))"
    using run at_most_one_same[OF unsent.at_state[OF quiet_unsent[OF alert_quiet]]] at_most_one_after[OF ok2 guard derisk_tail_one]
    by (elim disjE) (simp_all only:)
  then show ?thesis using False by (auto simp: k2 handled_def at_most_one_def sent_def)
qed

lemma submit_clamped_step: "keeps kernel_step (submit_clamped cfg rt o')"
proof (rule step.state_keeps)
  fix k :: "'a kernel"
  have resize: "keeps kernel_step (if b then andThen (alert sev name cid)
                     (\<lambda>_. modify (\<lambda>k. k\<lparr>k_announced := dict_set oid q (k_announced k)\<rparr>)) else ok ())" for b sev name cid oid q
    by (intro step.if_keeps step.keeps alert_step step.modify_keeps) simp
  have tail: "keeps kernel_step (andThen (track_order (or_order_id o1) (or_side o1) o1 '''')
                (\<lambda>_. andThen (submit_tracked_order rt o1 (or_reason o1))
                   (\<lambda>err. if err \<noteq> None then ok ()
                          else andThen (settle_router_acks cfg rt (ev_correlation o1) (Some [or_order_id o1])) (\<lambda>_. ok ()))))" for o1
    by (intro step.keeps step.if_keeps track_order_step submit_tracked_step settle_step)
  show "kernel_step k (snd (submit_clamped cfg rt o' k))"
    unfolding submit_clamped_def Let_def
    by (intro step.branch step.at_state[OF alert_step] step.at_state[OF step.andThen_keeps[OF resize tail]])
qed

lemma derisk_tail_step: "keeps kernel_step (derisk_tail cfg rt o')"
proof (rule step.state_keeps)
  fix k :: "'a kernel"
  have "keeps kernel_step (andThen (alert sev name cid) (\<lambda>_. andThen (cancel_resting_for_symbol cfg rt s cid) (\<lambda>_. submit_clamped cfg rt o')))"
    for sev name cid s by (intro step.keeps alert_step cancel_resting_step submit_clamped_step)
  then show "kernel_step k (snd (derisk_tail cfg rt o' k))"
    by (simp add: derisk_tail_def step.stay step.at_state[OF submit_clamped_step] step.at_state)
qed

lemma derisk_checked_step: "keeps kernel_step (derisk_checked cfg rt check_order o')"
proof (rule step.state_keeps)
  fix k :: "'a kernel"
  have tail: "keeps kernel_step (andThen (if b then alert sev name cid else ok ()) (\<lambda>_. derisk_tail cfg rt o'))" for b sev name cid
    by (intro step.keeps step.if_keeps alert_step derisk_tail_step)
  show "kernel_step k (snd (derisk_checked cfg rt check_order o' k))"
  proof (cases "or_order_id o' \<in> set (k_hazard_ids k)")
    case False
    obtain k2 b l where k2: "k2 = k\<lparr>k_hazard_ids := or_order_id o' # k_hazard_ids k, k_log := l\<rparr>"
      and run: "derisk_checked cfg rt check_order o' k = alert CRITICAL ''hazard_exit_nonreducing_reject_blocked'' (ev_correlation o') k2
       \<or> derisk_checked cfg rt check_order o' k = andThen
          (if b then alert alert_severity.WARNING ''hazard_exit_defensive_check_order_reject'' (ev_correlation o') else ok ())
          (\<lambda>_. derisk_tail cfg rt o') k2"
      by (rule derisk_checked_cases[OF False])
    have "kernel_step k k2" by (simp add: k2 kernel_step_def kernel_ok_def active_ok_def)
    then show ?thesis using run step.after[OF _ alert_step] step.after[OF _ tail] by (elim disjE) (simp_all only:)
  qed (simp add: derisk_checked_def step.stay)
qed

lemma derisk_step: "keeps kernel_step (on_bus_derisk_requirement cfg rt check_order d)"
  unfolding on_bus_derisk_requirement_def
  by (intro step.if_keeps step.keeps publish_event_step derisk_checked_step)

definition deliver ::
  "kernel_config \<Rightarrow> 'r router \<Rightarrow> (de_risk_requirement \<times> (order_request \<Rightarrow> position_store \<Rightarrow> risk_action \<times> string)) list \<Rightarrow> 'r kernel \<Rightarrow> 'r kernel" where
  \<comment> \<open>the bus hands over requirements one after the other, each with the risk engine's answer at that time\<close>
  "deliver cfg rt ds k = fold (\<lambda>(d, check_order) k. snd (on_bus_derisk_requirement cfg rt check_order d k)) ds k"

definition from_requirement :: "de_risk_requirement \<Rightarrow> order_request \<Rightarrow> bool" where
  "from_requirement d o' \<longleftrightarrow> ev_source_layer d = ''RISK'' \<and> 0 < or_quantity o' \<and> or_quantity o' \<le> dr_quantity d
     \<and> o' = (order_request_from_derisk d)\<lparr>or_quantity := or_quantity o'\<rparr>"

lemma derisk_handled:
  assumes k: "kernel_ok k" and risk: "ev_source_layer d = ''RISK''"
  shows "handled (order_request_from_derisk d) k (snd (on_bus_derisk_requirement cfg (recording rt) check_order d k))"
proof -
  let ?k = "k\<lparr>k_log := publish (OutOrder (order_request_from_derisk d)) (k_log k)\<rparr>"
  have "kernel_ok ?k" using k by (simp add: kernel_ok_def active_ok_def)
  from derisk_checked_handled[OF this, of "order_request_from_derisk d" cfg rt check_order] show ?thesis
    using risk by (simp add: on_bus_derisk_requirement_def andThen_def publish_event_run handled_def sent_def)
qed

lemma requirement_fields [simp]:
  "or_order_id (order_request_from_derisk d) = dr_order_id d" "or_quantity (order_request_from_derisk d) = dr_quantity d"
  by (simp_all add: order_request_from_derisk_def)

text \<open>C10: A de-risk requirement reaches the router at most once. Whatever requirements the bus
  delivers, repeated or not, and whatever the risk engine and the router answer, the orders
  submitted on the way all have different ids, none of an id handled before, and each is a
  delivered RISK-layer requirement turned into a market order of at most its quantity.\<close>

theorem derisk_submits_once:
  assumes "kernel_ok k"
  shows "\<exists>new. sent (deliver cfg (recording rt) ds k) = sent k @ new
    \<and> distinct (map or_order_id new)
    \<and> (\<forall>o' \<in> set new. or_order_id o' \<notin> set (k_hazard_ids k) \<and> (\<exists>d \<in> fst ` set ds. from_requirement d o'))"
  using assms
proof (induction ds arbitrary: k)
  case Nil
  show ?case by (simp add: deliver_def)
next
  case (Cons p ds)
  obtain d check_order where p: "p = (d, check_order)" by (cases p)
  let ?o = "order_request_from_derisk d"
  define k1 where "k1 = snd (on_bus_derisk_requirement cfg (recording rt) check_order d k)"
  have run: "deliver cfg (recording rt) (p # ds) k = deliver cfg (recording rt) ds k1" by (simp add: deliver_def p k1_def)
  have "kernel_ok k1" using step.at_state[OF derisk_step, of k cfg "recording rt" check_order d] Cons.prems
    by (simp add: k1_def kernel_step_def)
  from Cons.IH[OF this] obtain new where new: "sent (deliver cfg (recording rt) ds k1) = sent k1 @ new" "distinct (map or_order_id new)"
    "\<forall>o' \<in> set new. or_order_id o' \<notin> set (k_hazard_ids k1) \<and> (\<exists>d \<in> fst ` set ds. from_requirement d o')"
    by blast
  show ?case
  proof (cases "ev_source_layer d = ''RISK''")
    case False
    then have "k1 = k" by (simp add: k1_def on_bus_derisk_requirement_def ok_def)
    then show ?thesis using new unfolding run by (auto simp: p)
  next
    case True
    have h: "handled ?o k k1" unfolding k1_def by (rule derisk_handled[OF Cons.prems True])
    then consider "sent k1 = sent k"
      | q where "sent k1 = sent k @ [?o\<lparr>or_quantity := q\<rparr>]" "dr_order_id d \<notin> set (k_hazard_ids k)" "0 < q" "q \<le> dr_quantity d"
      by (auto simp: handled_def)
    then show ?thesis
    proof cases
      case 1
      then show ?thesis using new h unfolding run by (intro exI[of _ new]) (auto simp: handled_def p)
    next
      case 2
      then have "from_requirement d (?o\<lparr>or_quantity := q\<rparr>)" using True by (simp add: from_requirement_def)
      then show ?thesis using new h 2 unfolding run
        by (intro exI[of _ "?o\<lparr>or_quantity := q\<rparr> # new"]) (auto simp: handled_def p)
    qed
  qed
qed

subsection \<open>The market fallback of a working exit\<close>

lemma kernel_order_fields [simp]:
  "or_order_id (kernel_order now cid seq oid s sd q strat why) = oid" "or_symbol (kernel_order now cid seq oid s sd q strat why) = s"
  "or_side (kernel_order now cid seq oid s sd q strat why) = sd" "or_quantity (kernel_order now cid seq oid s sd q strat why) = q"
  "or_order_type (kernel_order now cid seq oid s sd q strat why) = MARKET"
  by (simp_all add: kernel_order_def)

text \<open>A working exit that ends without filling is finished at market, once and only for what is
  left. When the broker cancels or expires it, the kernel submits one market order on the
  exit's own side for the original quantity less what its fills booked; when it was filled,
  or nothing is left, it submits nothing. In every terminal case the entry is gone, so the
  same acknowledgement delivered again submits nothing.\<close>

theorem working_exit_residual:
  assumes k: "kernel_ok k" and e: "map_of (k_fallback k) (oa_order_id a) = Some (s, sd, original)"
    and d: "distinct (map fst (k_fallback k))" and t: "oa_status a \<in> {ACK_FILLED, ACK_CANCELLED, ACK_EXPIRED}"
  shows "let k' = snd (escalate_working_exit cfg (recording rt) cid a k);
             residual = original - (case map_of (k_filled k) (oa_order_id a) of Some n \<Rightarrow> n | None \<Rightarrow> 0)
         in (if oa_status a \<noteq> ACK_FILLED \<and> 1 \<le> residual
             then \<exists>o'. sent k' = sent k @ [o'] \<and> or_symbol o' = s \<and> or_side o' = sd \<and> or_quantity o' = residual \<and> or_order_type o' = MARKET
             else sent k' = sent k)
            \<and> map_of (k_fallback k') (oa_order_id a) = None
            \<and> sent (snd (escalate_working_exit cfg (recording rt) cid a k')) = sent k'"
proof -
  let ?oid = "oa_order_id a"
  define filled where "filled = (case map_of (k_filled k) ?oid of Some n \<Rightarrow> n | None \<Rightarrow> 0)"
  define k1 where "k1 = k\<lparr>k_fallback := dict_pop ?oid (k_fallback k), k_filled := dict_pop ?oid (k_filled k)\<rparr>"
  define k' where "k' = snd (escalate_working_exit cfg (recording rt) cid a k)"
  have k1: "kernel_ok k1" "sent k1 = sent k" "map_of (k_fallback k1) ?oid = None"
    using k by (simp_all add: k1_def kernel_ok_def active_ok_def sent_def)
  have run: "escalate_working_exit cfg (recording rt) cid a k =
      (if oa_status a = ACK_FILLED \<or> original - filled < 1 then (Inr (), k1)
       else submit_working_exit_fallback cfg (recording rt) s sd (original - filled) ?oid cid k1)"
    using e t by (auto simp: escalate_working_exit_def Let_def filled_def k1_def)
  have again: "sent (snd (escalate_working_exit cfg (recording rt) cid a k2)) = sent k2" if "map_of (k_fallback k2) ?oid = None" for k2
    using that by (simp add: escalate_working_exit_def)
  show ?thesis
  proof (cases "oa_status a = ACK_FILLED \<or> original - filled < 1")
    case True
    then show ?thesis using k1 again[OF k1(3)] run by (auto simp: Let_def filled_def[symmetric])
  next
    case False
    let ?k2 = "snd (draw_seq k1)" and ?n = "kl_seq (k_log k1)"
    let ?o = "kernel_order (k_now ?k2) cid ?n (kc_derive_order_id cfg (?oid @ '':working_fallback'')) s sd (original - filled)
        ''__working_exit_fallback__'' ''WORKING_EXIT_FALLBACK''"
    let ?g = "\<lambda>err. if err \<noteq> None then ok () else andThen (publish_event (OutOrder ?o))
        (\<lambda>_. alert alert_severity.INFO ''working_exit_market_fallback'' cid)"
    have k2: "kernel_ok ?k2" "sent ?k2 = sent k" "map_of (k_fallback ?k2) ?oid = None"
      using k1 by (simp_all add: draw_seq_def next_seq_def kernel_ok_def active_ok_def sent_def)
    have g: "keeps same_sent (?g x)" for x
      by (intro unsent.if_keeps unsent.keeps quiet_unsent[OF publish_event_quiet] quiet_unsent[OF alert_quiet])
    have dr: "draw_seq k1 = (Inr ?n, ?k2)" by (simp add: draw_seq_def next_seq_def)
    have "submit_working_exit_fallback cfg (recording rt) s sd (original - filled) ?oid cid k1
        = andThen (track_order (or_order_id ?o) sd ?o ''EXIT'') (\<lambda>_. andThen (submit_tracked_order (recording rt) ?o ''submitted'') ?g) ?k2"
      unfolding submit_working_exit_fallback_def Let_def andThen_run(1)[of draw_seq, OF dr] kernel_order_fields by (rule refl)
    then have "k' = snd (andThen (track_order (or_order_id ?o) sd ?o ''EXIT'') (\<lambda>_. andThen (submit_tracked_order (recording rt) ?o ''submitted'') ?g) ?k2)"
      using False unfolding k'_def run by simp
    with track_and_submit(1,3)[where k = ?k2 and g = ?g and o' = ?o and sd = sd and intent = "''EXIT''" and rt = rt
        and trigger = "''submitted''", OF k2(1) g]
    have sub: "sent k' = sent ?k2 @ [?o]" "k_fallback k' = k_fallback ?k2" by simp_all
    have "or_symbol ?o = s \<and> or_side ?o = sd \<and> or_quantity ?o = original - filled \<and> or_order_type ?o = MARKET"
      by simp
    then show ?thesis using sub k2 False again[of k'] by (auto simp: Let_def filled_def[symmetric] k'_def[symmetric])
  qed
qed

subsection \<open>Unlocking\<close>

lemma exposure_positive:
  assumes "\<forall>(s, p) \<in> set ps. pos_quantity p \<noteq> 0 \<longrightarrow> 0 < (case map_of M (pos_symbol p) of Some m \<Rightarrow> m | None \<Rightarrow> pos_avg p)"
    and "0 \<le> acc"
  shows "0 \<le> fold (\<lambda>(_, p) total. if pos_quantity p = 0 then total
        else dec_add total (dec_mul (of_int \<bar>pos_quantity p\<bar>)
               (case map_of M (pos_symbol p) of Some m \<Rightarrow> m | None \<Rightarrow> pos_avg p))) ps acc
    \<and> (fold (\<lambda>(_, p) total. if pos_quantity p = 0 then total
        else dec_add total (dec_mul (of_int \<bar>pos_quantity p\<bar>)
               (case map_of M (pos_symbol p) of Some m \<Rightarrow> m | None \<Rightarrow> pos_avg p))) ps acc = 0
       \<longleftrightarrow> acc = 0 \<and> (\<forall>(s, p) \<in> set ps. pos_quantity p = 0))"
  using assms
proof (induction ps arbitrary: acc)
  case (Cons sp ps)
  obtain s p where sp: "sp = (s, p)" by (cases sp)
  let ?m = "case map_of M (pos_symbol p) of Some m \<Rightarrow> m | None \<Rightarrow> pos_avg p"
  let ?x = "dec_add acc (dec_mul (of_int \<bar>pos_quantity p\<bar>) ?m)"
  show ?case
  proof (cases "pos_quantity p = 0")
    case True
    then show ?thesis using Cons by (simp add: sp)
  next
    case False
    have "0 < ?m" using Cons.prems(1) False by (auto simp: sp)
    then have "0 < of_int \<bar>pos_quantity p\<bar> * ?m" using False by simp
    then have "0 < dec_mul (of_int \<bar>pos_quantity p\<bar>) ?m" by (simp add: dec_mul_def round_sig_pos)
    then have x: "0 < ?x" using Cons.prems(2) by (simp add: dec_add_def round_sig_pos)
    have "\<forall>(s, p) \<in> set ps. pos_quantity p \<noteq> 0 \<longrightarrow> 0 < (case map_of M (pos_symbol p) of Some m \<Rightarrow> m | None \<Rightarrow> pos_avg p)"
      using Cons.prems(1) by auto
    from Cons.IH[OF this less_imp_le[OF x]] show ?thesis using False x by (simp add: sp)
  qed
qed simp

definition priced :: "position_store \<Rightarrow> bool" where
  \<comment> \<open>every open position has a positive mark, or none and a positive average price\<close>
  "priced st \<longleftrightarrow> (\<forall>(s, p) \<in> set (ps_positions st). pos_quantity p \<noteq> 0 \<longrightarrow>
     0 < (case map_of (ps_marks st) (pos_symbol p) of Some m \<Rightarrow> m | None \<Rightarrow> pos_avg p))"

lemma exposure_zero_iff_flat: "priced (k_positions k) \<Longrightarrow> ps_total_exposure (k_positions k) = 0 \<longleftrightarrow> residual_positions k = []"
  using exposure_positive[of "ps_positions (k_positions k)" "ps_marks (k_positions k)" 0]
  by (auto simp: priced_def ps_total_exposure_def residual_positions_def filter_empty_conv)

lemma unlock_tail:
  assumes "macro_ok (k_macro k)" "risk_ok (k_risk k)" "sm_state (k_macro k) = RISK_LOCKDOWN"
  shows "case andThen (macro_transition READY t c) (\<lambda>_. andThen (risk_transition NORMAL t' c')
          (\<lambda>_. modify (\<lambda>k. if k_kill k = Some True then k\<lparr>k_kill := Some False\<rparr> else k))) k of (r, k') \<Rightarrow>
      (r = Inr () \<longleftrightarrow> sm_state (k_risk k) = LOCKED)
      \<and> (r = Inr () \<longrightarrow> sm_state (k_macro k') = READY \<and> sm_state (k_risk k') = NORMAL \<and> k_kill k' \<noteq> Some True
           \<and> k_positions k' = k_positions k)"
proof -
  obtain m l where m: "macro_transition READY t c k = (Inr (), k\<lparr>k_macro := m, k_log := l\<rparr>)" "sm_state m = READY"
    using macro_run(1)[OF assms(1), of READY t c] assms(3) by auto
  let ?k = "k\<lparr>k_macro := m, k_log := l\<rparr>"
  show ?thesis
  proof (cases "sm_state (k_risk k) = LOCKED")
    case True
    obtain m' l' where m': "risk_transition NORMAL t' c' ?k = (Inr (), ?k\<lparr>k_risk := m', k_log := l'\<rparr>)" "sm_state m' = NORMAL"
      using assms(2) True by (auto intro: risk_run[of ?k NORMAL t' c'])
    then show ?thesis using True m by (simp add: andThen_parts modify_def)
  next
    case False
    then have "\<not> can_transition (k_risk k) NORMAL"
      using assms(2) by (cases "sm_state (k_risk k)") (auto simp: risk_ok_def can_transition_def)
    then have "risk_transition NORMAL t' c' ?k = (Inl (IllegalTransition (sm_name (k_risk k)) t'), ?k)"
      by (simp add: risk_transition_def transition_def)
    then show ?thesis using False m by (simp add: andThen_parts)
  qed
qed

text \<open>Lockdown is left by a flat book only. With positive prices, unlocking succeeds exactly
  when the macro machine is in RISK_LOCKDOWN, the risk machine is LOCKED and no symbol has a
  position; then the platform is READY, the risk level NORMAL and no kill switch active.
  Outside lockdown, or with a position left, it raises and changes nothing at all.\<close>

theorem unlock_needs_flat_book:
  assumes "macro_ok (k_macro k)" "risk_ok (k_risk k)" "priced (k_positions k)"
  shows "case unlock_from_lockdown token k of (r, k') \<Rightarrow>
      (r = Inr () \<longleftrightarrow> sm_state (k_macro k) = RISK_LOCKDOWN \<and> sm_state (k_risk k) = LOCKED \<and> residual_positions k = [])
      \<and> (r = Inr () \<longrightarrow> sm_state (k_macro k') = READY \<and> sm_state (k_risk k') = NORMAL \<and> k_kill k' \<noteq> Some True
           \<and> k_positions k' = k_positions k)
      \<and> (sm_state (k_macro k) \<noteq> RISK_LOCKDOWN \<or> residual_positions k \<noteq> [] \<longrightarrow> k' = k)"
proof -
  consider "sm_state (k_macro k) \<noteq> RISK_LOCKDOWN" | "sm_state (k_macro k) = RISK_LOCKDOWN" "residual_positions k \<noteq> []"
    | (flat) "sm_state (k_macro k) = RISK_LOCKDOWN" "residual_positions k = []" by blast
  then show ?thesis
  proof cases
    case flat
    have "ps_total_exposure (k_positions k) = 0" using exposure_zero_iff_flat[OF assms(3)] flat(2) by simp
    then have "\<exists>t t'. unlock_from_lockdown token k = andThen (macro_transition READY t '''') (\<lambda>_. andThen (risk_transition NORMAL t' '''')
          (\<lambda>_. modify (\<lambda>k. if k_kill k = Some True then k\<lparr>k_kill := Some False\<rparr> else k))) k"
      unfolding unlock_from_lockdown_def assert_state_def flat(1) by auto
    then obtain t t' where run: "unlock_from_lockdown token k = andThen (macro_transition READY t '''') (\<lambda>_. andThen (risk_transition NORMAL t' '''')
          (\<lambda>_. modify (\<lambda>k. if k_kill k = Some True then k\<lparr>k_kill := Some False\<rparr> else k))) k" by blast
    show ?thesis unfolding run using unlock_tail[OF assms(1,2) flat(1), of t "''''" t' "''''"] flat by auto
  qed (use exposure_zero_iff_flat[OF assms(3)] in \<open>simp_all add: unlock_from_lockdown_def assert_state_def\<close>)
qed

subsection \<open>Examples\<close>

definition idle_router :: "unit router" where
  \<comment> \<open>takes every order and never answers\<close>
  "idle_router = \<lparr>rt_submit = (\<lambda>_ r. (None, r)), rt_poll = (\<lambda>r. (Inr [], r)), rt_cancel = None, rt_expire_moc = None\<rparr>"

definition long_ten :: position where
  "long_ten = flat_position ''X''\<lparr>pos_quantity := 10, pos_avg := 5\<rparr>"

definition sample_requirement :: de_risk_requirement where
  "sample_requirement = \<lparr>ev_timestamp = 1, ev_correlation = ''c'', ev_sequence = 0, ev_source_layer = ''RISK'',
      ev_schema_version = schema_version, dr_order_id = ''h1'', dr_symbol = ''X'', dr_side = SELL, dr_quantity = 15,
      dr_strategy = ''a'', dr_reason = ''STOP_EXIT''\<rparr>"

lemma sample_session:
  obtains k :: "'r kernel" where "kernel_ok k" "risk_ok (k_risk k)" "macro_ok (k_macro k)" "k_router k = r" "k_kill k = Some False"
    "sm_state (k_risk k) = level" "sm_state (k_macro k) = mode" "k_positions k = ps_new\<lparr>ps_positions := ps\<rparr>"
    "k_slices k = None" "k_hazard_ids k = []" "k_fallback k = fb" "k_filled k = fl" "k_active k = []"
proof -
  obtain k :: "'r kernel" where k: "k_active k = []" "k_kill k = Some False" "k_slices k = None" "k_hazard_ids k = []" "k_router k = r"
    "k_risk k = on_transition (emit_state_transition OutRiskTransition) (projr create_risk_escalation_machine)"
    "k_macro k = on_transition (emit_state_transition OutMacroTransition) (projr create_macro_state_machine)"
    using new_kernel_exists[of 0 r ps_new None None "Some False" None] by (elim exE conjE) (rule that; assumption)
  obtain m :: "(macro_state, kernel_log) machine" where m: "create_macro_state_machine = Inr m"
    using macro_table.builds_limited[of 64] by (auto simp: create_macro_state_machine_def)
  obtain n :: "(risk_level, kernel_log) machine" where n: "create_risk_escalation_machine = Inr n"
    using risk_table.builds by (auto simp: create_risk_escalation_machine_def)
  have "sm_transitions m = macro_transitions" "sm_callbacks m = []"
    using m by (simp_all add: create_macro_state_machine_def new_machine_Inr_iff)
  moreover have "sm_transitions n = risk_transitions" "sm_callbacks n = []"
    using n by (simp_all add: create_risk_escalation_machine_def new_machine_Inr_iff)
  ultimately have "risk_ok (k_risk k)" "macro_ok (k_macro k)"
    by (simp_all add: k m n risk_ok_def macro_ok_def on_transition_def)
  then show ?thesis
    using that[of "k\<lparr>k_risk := k_risk k\<lparr>sm_state := level\<rparr>, k_macro := k_macro k\<lparr>sm_state := mode\<rparr>,
        k_positions := ps_new\<lparr>ps_positions := ps\<rparr>, k_fallback := fb, k_filled := fl\<rparr>"]
    by (simp add: k kernel_ok_def active_ok_def risk_ok_def macro_ok_def)
qed

lemma escalation_witness:
  "\<exists>(k :: unit kernel) k'. residual_positions k = [(''X'', 10)] \<and> sm_state (k_risk k) = WARNING
    \<and> escalate_risk sample_config idle_router ''c'' k = (Inr (), k') \<and> sm_state (k_risk k') = LOCKED
    \<and> k_kill k' = Some True \<and> sm_state (k_macro k') = RISK_LOCKDOWN"
proof -
  obtain k :: "unit kernel" where k: "kernel_ok k" "risk_ok (k_risk k)" "macro_ok (k_macro k)" "k_kill k = Some False"
    "sm_state (k_risk k) = WARNING" "sm_state (k_macro k) = PAPER_TRADING_MODE" "k_positions k = ps_new\<lparr>ps_positions := [(''X'', long_ten)]\<rparr>"
    by (rule sample_session)
  have "residual_positions k = [(''X'', 10)]" by (simp add: residual_positions_def k long_ten_def)
  then show ?thesis using escalation_locks_down[OF k(1-3), of sample_config idle_router "''c''"] k(4-6) by auto
qed

lemma forced_exit_witness:
  "\<exists>k :: unit recorded. let o' = order_request_from_derisk sample_requirement in
     sent k = [] \<and> sent (snd (submit_clamped sample_config (recording idle_router) o' k)) = [o'\<lparr>or_quantity := 10\<rparr>]"
proof -
  obtain k :: "unit recorded" where k: "kernel_ok k" "k_router k = ((), [])" "k_slices k = None"
    "k_positions k = ps_new\<lparr>ps_positions := [(''X'', long_ten)]\<rparr>"
    by (rule sample_session)
  have "forced_exit_closable_quantity k (order_request_from_derisk sample_requirement) = 10"
    by (simp add: forced_exit_closable_quantity_def k Let_def order_request_from_derisk_def sample_requirement_def
        ps_get_def long_ten_def closable_quantity_def)
  then show ?thesis
    using forced_exit_clamped[OF k(1), of "order_request_from_derisk sample_requirement" sample_config idle_router]
    by (auto simp: Let_def sent_def k(2) intro!: exI[of _ k])
qed

lemma derisk_submits_once_witness:
  "\<exists>k :: unit recorded. let o' = order_request_from_derisk sample_requirement; chk = (\<lambda>_ _. (ALLOW, ''''));
     ds = [(sample_requirement, chk), (sample_requirement, chk)] in
     kernel_ok k \<and> sent k = [] \<and> sent (deliver sample_config (recording idle_router) ds k) = [o'\<lparr>or_quantity := 10\<rparr>]"
proof -
  let ?o = "order_request_from_derisk sample_requirement"
  obtain k :: "unit recorded" where k: "kernel_ok k" "k_router k = ((), [])" "k_slices k = None" "k_active k = []" "k_hazard_ids k = []"
    "k_positions k = ps_new\<lparr>ps_positions := [(''X'', long_ten)]\<rparr>"
    by (rule sample_session)
  define chk where "chk = (\<lambda>(_ :: order_request) (_ :: position_store). (ALLOW, '''' :: string))"
  let ?p = "(sample_requirement, chk)"
  define k1 where "k1 = deliver sample_config (recording idle_router) [?p] k"
  define k2 where "k2 = k\<lparr>k_hazard_ids := [or_order_id ?o], k_log := publish (OutVerdict ALLOW '''') (publish (OutOrder ?o) (k_log k))\<rparr>"
  have risk: "ev_source_layer sample_requirement = ''RISK''" by (simp add: sample_requirement_def)
  have idle: "\<not> has_pending_order_for_symbol k2 (or_symbol ?o)" by (simp add: k2_def has_pending_order_for_symbol_def k(4))
  have "k1 = snd (submit_clamped sample_config (recording idle_router) ?o k2)"
    using idle by (simp add: k1_def deliver_def on_bus_derisk_requirement_def risk andThen_def publish_event_run derisk_checked_def
        chk_def k(5) Let_def ok_def derisk_tail_def k2_def)
  moreover have "kernel_ok k2" using k(1) by (simp add: k2_def kernel_ok_def active_ok_def)
  moreover have "forced_exit_closable_quantity k2 ?o = 10"
    by (simp add: forced_exit_closable_quantity_def k2_def k Let_def order_request_from_derisk_def sample_requirement_def
        ps_get_def long_ten_def closable_quantity_def)
  moreover have "sent k2 = []" by (simp add: k2_def sent_def k(2))
  ultimately have one: "sent k1 = [?o\<lparr>or_quantity := 10\<rparr>]" by (simp add: submit_clamped_sent(1))
  have ok1: "kernel_ok k1" using step.at_state[OF derisk_step, of k sample_config "recording idle_router" chk sample_requirement] k(1)
    by (simp add: k1_def deliver_def kernel_step_def)
  have two: "deliver sample_config (recording idle_router) [?p, ?p] k = deliver sample_config (recording idle_router) [?p] k1"
    by (simp add: k1_def deliver_def)
  obtain new where new: "sent (deliver sample_config (recording idle_router) [?p] k1) = sent k1 @ new"
    using derisk_submits_once[OF ok1, of sample_config idle_router "[?p]"] by blast
  obtain all where all: "sent (deliver sample_config (recording idle_router) [?p, ?p] k) = all" "distinct (map or_order_id all)"
    "\<forall>o' \<in> set all. from_requirement sample_requirement o'"
    using derisk_submits_once[OF k(1), of sample_config idle_router "[?p, ?p]"] by (auto simp: sent_def k(2))
  have ids: "o' \<in> set all \<Longrightarrow> or_order_id o' = ''h1''" for o'
    using all(3) by (auto simp: from_requirement_def order_request_from_derisk_def sample_requirement_def dest!: bspec)
      (metis order_request.select_convs(1) order_request.simps)
  have "all = [?o\<lparr>or_quantity := 10\<rparr>]"
    using all(1,2) new two one ids by (cases new) auto
  then show ?thesis using all(1) k(1) unfolding Let_def chk_def by (intro exI[of _ k]) (simp add: sent_def k(2))
qed

lemma working_exit_residual_witness:
  "\<exists>k :: unit recorded. \<exists>o'. sent k = [] \<and> map_of (k_fallback k) ''o1'' = Some (''X'', SELL, 10)
    \<and> sent (snd (escalate_working_exit sample_config (recording idle_router) ''c'' (sample_ack ACK_EXPIRED 0) k)) = [o']
    \<and> or_quantity o' = 7 \<and> or_side o' = SELL"
proof -
  obtain k :: "unit recorded" where k: "kernel_ok k" "k_router k = ((), [])" "k_fallback k = [(''o1'', (''X'', SELL, 10))]"
    "k_filled k = [(''o1'', 3)]"
    by (rule sample_session)
  have a: "oa_order_id (sample_ack ACK_EXPIRED 0) = ''o1''" "oa_status (sample_ack ACK_EXPIRED 0) = ACK_EXPIRED"
    by (simp_all add: sample_ack_def)
  have e: "map_of (k_fallback k) (oa_order_id (sample_ack ACK_EXPIRED 0)) = Some (''X'', SELL, 10)" by (simp add: k a)
  have d: "distinct (map fst (k_fallback k))" by (simp add: k)
  have t: "oa_status (sample_ack ACK_EXPIRED 0) \<in> {ACK_FILLED, ACK_CANCELLED, ACK_EXPIRED}" by (simp add: a)
  show ?thesis using working_exit_residual[OF k(1) e d t, of sample_config idle_router "''c''"]
    by (auto simp: Let_def sent_def k a intro!: exI[of _ k])
qed

lemma unlock_needs_flat_book_witness:
  "\<exists>(k :: unit kernel) k'. unlock_from_lockdown ''t'' k = (Inr (), k') \<and> sm_state (k_macro k') = READY"
proof -
  obtain k :: "unit kernel" where k: "risk_ok (k_risk k)" "macro_ok (k_macro k)" "sm_state (k_risk k) = LOCKED"
    "sm_state (k_macro k) = RISK_LOCKDOWN" "k_positions k = ps_new\<lparr>ps_positions := [(''X'', flat_position ''X'')]\<rparr>"
    by (rule sample_session)
  have p: "priced (k_positions k)" by (simp add: priced_def k flat_position_def)
  have "residual_positions k = []" by (simp add: residual_positions_def k flat_position_def)
  then show ?thesis using unlock_needs_flat_book[OF k(2,1) p, of "''t''"] k(3,4)
    by (cases "unlock_from_lockdown ''t'' k") auto
qed

end
