(* ===== verification/Risk_Exits.thy ===== *)
theory Risk_Exits
  imports Forced_Orders Trading_Calendar
begin

section \<open>The authors of risk exits (risk/stop\_exit.py, risk/hazard\_exit.py, risk/deferral\_cap.py,
  risk/exit\_composer.py)\<close>

text \<open>
  Four controllers on the bus ask the kernel to close a position: stops and the session flatten,
  regime hazards and the age limit, the cap on a deferred exit, and the composer of safety
  permissions. Each reads a book, decides, guards against a second close of the same stale book,
  and publishes a \<open>DeRiskRequirement\<close> on the synchronous bus. A decision is a function of the event, the
  book as read and the controller's own state; a handler reads the book from its port, decides and
  sends. \<open>derive_order_id\<close> is a parameter.
\<close>

subsection \<open>Books, guards and ports\<close>

record open_book =
  ob_quantity :: int
  ob_avg :: decimal
  ob_opened :: "ns option"

type_synonym 'k guard = "'k \<Rightarrow> (ns option \<times> int) option"

definition mark_of :: "open_book \<Rightarrow> ns option \<times> int" where
  "mark_of b = (ob_opened b, ob_quantity b)"

definition guard_check :: "'k \<Rightarrow> open_book \<Rightarrow> 'k guard \<Rightarrow> bool \<times> 'k guard" where
  \<comment> \<open>the duplicate-close guard: silent against the book already closed, released by any other\<close>
  "guard_check key b g = (if g key = Some (mark_of b) then (True, g) else (False, g(key := None)))"

definition exit_requirement ::
  "(string \<Rightarrow> string) \<Rightarrow> string \<Rightarrow> ns \<Rightarrow> string \<Rightarrow> int \<Rightarrow> symbol \<Rightarrow> int \<Rightarrow> strategy \<Rightarrow> string \<Rightarrow> de_risk_requirement" where
  \<comment> \<open>the requirement that closes a quantity\<close>
  "exit_requirement derive seed ts cid n s q sid reason =
     \<lparr>ev_timestamp = ts, ev_correlation = cid, ev_sequence = n, ev_source_layer = ''RISK'', ev_schema_version = schema_version,
      dr_order_id = derive seed, dr_symbol = s, dr_side = (if 0 < q then SELL else BUY), dr_quantity = \<bar>q\<bar>,
      dr_strategy = sid, dr_reason = reason\<rparr>"

record 'w exit_port =
  xp_net :: "'w \<Rightarrow> symbol \<Rightarrow> open_book"
  xp_slice :: "strategy \<Rightarrow> symbol \<Rightarrow> 'w \<Rightarrow> open_book \<times> 'w"
  xp_slice_opened :: "'w \<Rightarrow> strategy \<Rightarrow> symbol \<Rightarrow> ns option"
  xp_open_slices :: "'w \<Rightarrow> strategy \<Rightarrow> (symbol \<times> position) list"
  xp_send :: "de_risk_requirement \<Rightarrow> ('w, unit) act"

type_synonym ('c, 'w, 'a) xact = "('c \<times> 'w, 'a) act"

definition send_exit :: "'w exit_port \<Rightarrow> de_risk_requirement option \<Rightarrow> ('c, 'w, unit) xact" where
  "send_exit port r cw =
     (case r of None \<Rightarrow> (Inr (), cw) | Some d \<Rightarrow> (case xp_send port d (snd cw) of (res, w) \<Rightarrow> (res, (fst cw, w))))"

definition slice_get :: "strategy_store \<Rightarrow> strategy \<Rightarrow> symbol \<Rightarrow> open_book \<times> strategy_store" where
  "slice_get S sid s =
     (case ss_get S sid s of (p, S') \<Rightarrow>
        (\<lparr>ob_quantity = pos_quantity p, ob_avg = pos_avg p, ob_opened = ss_opened_at_ns S' sid s\<rparr>, S'))"

definition kernel_port ::
  "kernel_config \<Rightarrow> 'r router \<Rightarrow> (order_request \<Rightarrow> position_store \<Rightarrow> risk_action \<times> string) \<Rightarrow> strategy_store \<Rightarrow> 'r kernel exit_port" where
  \<comment> \<open>the kernel's books and its handler of requirements; the last argument stands for the slices of a
    kernel that keeps none\<close>
  "kernel_port cfg rt check_order S0 =
     \<lparr>xp_net = (\<lambda>k s. let p = ps_get (k_positions k) s in
          \<lparr>ob_quantity = pos_quantity p, ob_avg = pos_avg p, ob_opened = ps_opened_at_ns (k_positions k) s\<rparr>),
      xp_slice = (\<lambda>sid s k. case k_slices k of
          None \<Rightarrow> (fst (slice_get S0 sid s), k)
        | Some S \<Rightarrow> (case slice_get S sid s of (b, S') \<Rightarrow> (b, k\<lparr>k_slices := Some S'\<rparr>))),
      xp_slice_opened = (\<lambda>k sid s. ss_opened_at_ns (case k_slices k of None \<Rightarrow> S0 | Some S \<Rightarrow> S) sid s),
      xp_open_slices = (\<lambda>k sid. ss_open_positions (case k_slices k of None \<Rightarrow> S0 | Some S \<Rightarrow> S) sid),
      xp_send = on_bus_derisk_requirement cfg rt check_order\<rparr>"

subsection \<open>Stops and the session flatten\<close>

record stop_policy =
  sp_loss_share :: float64
  sp_activate_share :: float64
  sp_loss_pct :: float64
  sp_activate_pct :: float64
  sp_trail_pct :: float64
  sp_flatten :: bool
  sp_flatten_before :: int

definition default_stop_policy :: stop_policy where
  "default_stop_policy = \<lparr>sp_loss_share = 0, sp_activate_share = 0, sp_loss_pct = 0, sp_activate_pct = 0, sp_trail_pct = 1/2,
     sp_flatten = False, sp_flatten_before = 0\<rparr>"

definition stop_enabled :: "stop_policy \<Rightarrow> bool" where
  "stop_enabled pol \<longleftrightarrow> 0 < sp_loss_share pol \<or> 0 < sp_activate_share pol \<or> 0 < sp_loss_pct pol \<or> 0 < sp_activate_pct pol"

definition any_enabled :: "stop_policy \<Rightarrow> bool" where
  "any_enabled pol \<longleftrightarrow> stop_enabled pol \<or> sp_flatten pol"

record stop_controller =
  sx_seq :: int
  sx_attached :: bool
  sx_peak :: "symbol \<Rightarrow> (ns option \<times> float64) option"
  sx_pending :: "symbol guard"

definition new_stop_controller :: stop_controller where
  "new_stop_controller = \<lparr>sx_seq = 0, sx_attached = False, sx_peak = (\<lambda>_. None), sx_pending = (\<lambda>_. None)\<rparr>"

definition stop_reset :: "stop_controller \<Rightarrow> stop_controller" where
  "stop_reset c = c\<lparr>sx_peak := (\<lambda>_. None), sx_pending := (\<lambda>_. None), sx_seq := 0\<rparr>"

definition stop_attach :: "stop_policy \<Rightarrow> stop_controller \<Rightarrow> bool \<times> stop_controller" where
  \<comment> \<open>whether the bus is subscribed to\<close>
  "stop_attach pol c = (if sx_attached c \<or> \<not> any_enabled pol then (False, c) else (True, c\<lparr>sx_attached := True\<rparr>))"

definition stop_session_flatten :: "calendar \<Rightarrow> session_bounds option \<Rightarrow> stop_policy \<Rightarrow> ns \<Rightarrow> bool" where
  "stop_session_flatten cal bounds pol at_ns =
     (if \<not> sp_flatten pol then False
      else case bounds of None \<Rightarrow> False
        | Some bs \<Rightarrow> sb_close (resolve_for_timestamp cal bs at_ns) - sp_flatten_before pol * 1000000000 \<le> at_ns)"

definition unrealized_per_share :: "nbbo_quote \<Rightarrow> open_book \<Rightarrow> float64" where
  "unrealized_per_share q b =
     fl_mul (fl_sub (fl_round (dec_div (dec_add (nq_bid q) (nq_ask q)) 2)) (fl_round (ob_avg b)))
       (if 0 < ob_quantity b then 1 else - 1)"

definition stop_fires :: "stop_policy \<Rightarrow> float64 \<Rightarrow> float64 \<Rightarrow> float64 \<Rightarrow> bool" where
  \<comment> \<open>the loss and trailing tests, from the entry, the peak and the present gain per share\<close>
  "stop_fires pol entry peak u =
     (let loss = (if 0 < sp_loss_pct pol then fl_mul entry (sp_loss_pct pol) else sp_loss_share pol);
          activate = (if 0 < sp_activate_pct pol then fl_mul entry (sp_activate_pct pol) else sp_activate_share pol)
      in if 0 < loss \<and> u < - loss then True
         else 0 < activate \<and> activate \<le> peak \<and> u < fl_mul peak (sp_trail_pct pol))"

definition stop_triggered :: "stop_policy \<Rightarrow> nbbo_quote \<Rightarrow> open_book \<Rightarrow> stop_controller \<Rightarrow> bool \<times> stop_controller" where
  "stop_triggered pol q b c =
     (if \<not> stop_enabled pol then (False, c)
      else if fl_round (ob_avg b) \<le> 0 then (False, c)
      else
        let u = unrealized_per_share q b;
            peak = (case sx_peak c (nq_symbol q) of
                None \<Rightarrow> u
              | Some (opened, p) \<Rightarrow> if opened \<noteq> ob_opened b then u else max p u)
        in (stop_fires pol (fl_round (ob_avg b)) peak u, c\<lparr>sx_peak := (sx_peak c)(nq_symbol q := Some (ob_opened b, peak))\<rparr>))"

definition stop_emit ::
  "(string \<Rightarrow> string) \<Rightarrow> nbbo_quote \<Rightarrow> open_book \<Rightarrow> string \<Rightarrow> stop_controller \<Rightarrow> de_risk_requirement option \<times> stop_controller" where
  "stop_emit derive q b reason c =
     (case guard_check (nq_symbol q) b (sx_pending c) of
        (True, _) \<Rightarrow> (None, c)
      | (False, g) \<Rightarrow>
          (Some (exit_requirement derive (ev_correlation q @ '':'' @ show_int (ev_timestamp q) @ '':'' @ nq_symbol q @ '':'' @ reason)
              (ev_timestamp q) (ev_correlation q) (sx_seq c) (nq_symbol q) (ob_quantity b) '''' reason),
           c\<lparr>sx_seq := sx_seq c + 1, sx_pending := g(nq_symbol q := Some (mark_of b))\<rparr>))"

definition stop_visit ::
  "(string \<Rightarrow> string) \<Rightarrow> calendar \<Rightarrow> session_bounds option \<Rightarrow> stop_policy \<Rightarrow> nbbo_quote \<Rightarrow> open_book \<Rightarrow> stop_controller
     \<Rightarrow> de_risk_requirement option \<times> stop_controller" where
  "stop_visit derive cal bounds pol q b c =
     (if ob_quantity b = 0
      then (None, c\<lparr>sx_peak := (sx_peak c)(nq_symbol q := None), sx_pending := (sx_pending c)(nq_symbol q := None)\<rparr>)
      else case stop_triggered pol q b c of
          (True, c1) \<Rightarrow> stop_emit derive q b ''STOP_EXIT'' c1
        | (False, c1) \<Rightarrow>
            if stop_session_flatten cal bounds pol (nq_exchange_timestamp q) then stop_emit derive q b ''SESSION_FLAT'' c1
            else (None, c1))"

definition stop_on_quote ::
  "'w exit_port \<Rightarrow> (string \<Rightarrow> string) \<Rightarrow> calendar \<Rightarrow> session_bounds option \<Rightarrow> stop_policy \<Rightarrow> nbbo_quote
     \<Rightarrow> (stop_controller, 'w, unit) xact" where
  "stop_on_quote port derive cal bounds pol q cw =
     (case stop_visit derive cal bounds pol q (xp_net port (snd cw) (nq_symbol q)) (fst cw) of
        (r, c') \<Rightarrow> send_exit port r (c', snd cw))"

subsection \<open>Regime hazards and the age limit\<close>

record hazard_policy =
  hp_threshold :: float64
  hp_min_age :: int
  hp_hard_age :: "int option"
  hp_universe :: "symbol list"
  hp_regimes :: "string list"

record hazard_controller =
  hx_seq :: int
  hx_attached :: bool
  hx_policies :: "(strategy \<times> hazard_policy) list"
  hx_emitted :: "(strategy \<times> symbol \<times> string) set"
  hx_pending :: "symbol guard"

definition new_hazard_controller :: "(strategy \<times> hazard_policy) list \<Rightarrow> hazard_controller" where
  "new_hazard_controller pols = \<lparr>hx_seq = 0, hx_attached = False, hx_policies = pols, hx_emitted = {}, hx_pending = (\<lambda>_. None)\<rparr>"

definition hazard_reset :: "hazard_controller \<Rightarrow> hazard_controller" where
  "hazard_reset c = c\<lparr>hx_emitted := {}, hx_pending := (\<lambda>_. None), hx_seq := 0\<rparr>"

definition hazard_register :: "strategy \<Rightarrow> hazard_policy \<Rightarrow> hazard_controller \<Rightarrow> hazard_controller" where
  "hazard_register sid pol c = c\<lparr>hx_policies := dict_set sid pol (hx_policies c)\<rparr>"

definition hazard_attach :: "hazard_controller \<Rightarrow> bool \<times> hazard_controller" where
  "hazard_attach c = (if hx_attached c \<or> hx_policies c = [] then (False, c) else (True, c\<lparr>hx_attached := True\<rparr>))"

definition spike_matches_regimes :: "string \<Rightarrow> string option \<Rightarrow> string list \<Rightarrow> bool" where
  "spike_matches_regimes departing incoming regimes \<longleftrightarrow>
     regimes = [] \<or> list_ex (\<lambda>e. e = departing \<or> (case incoming of None \<Rightarrow> False | Some i \<Rightarrow> e = departing @ '' -> '' @ i)) regimes"

definition in_universe :: "symbol list \<Rightarrow> symbol \<Rightarrow> bool" where
  "in_universe u s \<longleftrightarrow> u = [] \<or> s \<in> set u"

definition clear_hazard_episode :: "strategy \<Rightarrow> symbol \<Rightarrow> string \<Rightarrow> open_book \<Rightarrow> hazard_controller \<Rightarrow> hazard_controller" where
  "clear_hazard_episode sid s reason b c =
     (if ob_quantity b = 0 then c\<lparr>hx_emitted := hx_emitted c - {(sid, s, reason)}, hx_pending := (hx_pending c)(s := None)\<rparr> else c)"

definition hazard_maybe_emit ::
  "(string \<Rightarrow> string) \<Rightarrow> strategy \<Rightarrow> symbol \<Rightarrow> ns \<Rightarrow> string \<Rightarrow> hazard_policy \<Rightarrow> string \<Rightarrow> open_book \<Rightarrow> hazard_controller
     \<Rightarrow> de_risk_requirement option \<times> hazard_controller" where
  "hazard_maybe_emit derive sid s ts cid pol reason b c =
     (let c0 = clear_hazard_episode sid s reason b c in
      if (sid, s, reason) \<in> hx_emitted c0 then (None, c0)
      else if ob_quantity b = 0 then (None, c0)
      else case guard_check s b (hx_pending c0) of
          (True, _) \<Rightarrow> (None, c0)
        | (False, g) \<Rightarrow>
            let c1 = c0\<lparr>hx_pending := g\<rparr> in
            if reason = ''HAZARD_SPIKE'' \<and> (case ob_opened b of None \<Rightarrow> False | Some t \<Rightarrow> ts - t < hp_min_age pol * 1000000000)
            then (None, c1)
            else (Some (exit_requirement derive (cid @ '':'' @ show_int ts @ '':'' @ s @ '':'' @ reason) ts cid (hx_seq c1) s
                    (ob_quantity b) sid reason),
                  c1\<lparr>hx_seq := hx_seq c1 + 1, hx_emitted := insert (sid, s, reason) (hx_emitted c1), hx_pending := g(s := Some (mark_of b))\<rparr>))"

definition hazard_spike_visit ::
  "(string \<Rightarrow> string) \<Rightarrow> regime_hazard_spike \<Rightarrow> strategy \<Rightarrow> hazard_policy \<Rightarrow> open_book \<Rightarrow> hazard_controller
     \<Rightarrow> de_risk_requirement option \<times> hazard_controller" where
  \<comment> \<open>the loop body of \<open>_on_spike\<close>\<close>
  "hazard_spike_visit derive e sid pol b c =
     (if \<not> in_universe (hp_universe pol) (hz_symbol e) then (None, c)
      else if hz_score e < hp_threshold pol then (None, c)
      else if \<not> spike_matches_regimes (hz_departing_state e) (hz_incoming_state e) (hp_regimes pol) then (None, c)
      else hazard_maybe_emit derive sid (hz_symbol e) (ev_timestamp e) (ev_correlation e) pol ''HAZARD_SPIKE'' b c)"

definition hazard_trade_visit ::
  "(string \<Rightarrow> string) \<Rightarrow> trade \<Rightarrow> strategy \<Rightarrow> hazard_policy \<Rightarrow> open_book \<Rightarrow> hazard_controller
     \<Rightarrow> de_risk_requirement option \<times> hazard_controller" where
  \<comment> \<open>the loop body of \<open>_on_trade\<close>\<close>
  "hazard_trade_visit derive t sid pol b c =
     (case hp_hard_age pol of
        None \<Rightarrow> (None, c)
      | Some age \<Rightarrow>
          if \<not> in_universe (hp_universe pol) (td_symbol t) then (None, c)
          else case ob_opened b of
              None \<Rightarrow> (None, c)
            | Some opened \<Rightarrow>
                if ev_timestamp t - opened < age * 1000000000 then (None, c)
                else hazard_maybe_emit derive sid (td_symbol t) (ev_timestamp t) (ev_correlation t) pol ''HARD_EXIT_AGE'' b c)"

definition each_policy ::
  "('c \<Rightarrow> (strategy \<times> 'p) list) \<Rightarrow> (strategy \<Rightarrow> 'p \<Rightarrow> ('c, 'w, unit) xact) \<Rightarrow> ('c, 'w, unit) xact" where
  \<comment> \<open>the loop over the policies in the order of their strategies\<close>
  "each_policy pols body cw =
     each (\<lambda>sid cw'. case map_of (pols (fst cw')) sid of None \<Rightarrow> (Inl (KeyError sid), cw') | Some pol \<Rightarrow> body sid pol cw')
       (sort (map fst (pols (fst cw)))) cw"

definition hazard_on_spike ::
  "'w exit_port \<Rightarrow> (string \<Rightarrow> string) \<Rightarrow> regime_hazard_spike \<Rightarrow> (hazard_controller, 'w, unit) xact" where
  "hazard_on_spike port derive e =
     each_policy hx_policies (\<lambda>sid pol cw. case hazard_spike_visit derive e sid pol (xp_net port (snd cw) (hz_symbol e)) (fst cw) of
       (r, c') \<Rightarrow> send_exit port r (c', snd cw))"

definition hazard_on_trade :: "'w exit_port \<Rightarrow> (string \<Rightarrow> string) \<Rightarrow> trade \<Rightarrow> (hazard_controller, 'w, unit) xact" where
  "hazard_on_trade port derive t =
     each_policy hx_policies (\<lambda>sid pol cw. case hazard_trade_visit derive t sid pol (xp_net port (snd cw) (td_symbol t)) (fst cw) of
       (r, c') \<Rightarrow> send_exit port r (c', snd cw))"

subsection \<open>The cap on a deferred exit\<close>

record deferral_policy =
  dp_max_hold :: int
  dp_hard_age :: int
  dp_universe :: "symbol list"

definition new_deferral_policy :: "int \<Rightarrow> int \<Rightarrow> symbol list \<Rightarrow> deferral_policy result" where
  "new_deferral_policy max_hold hard_age u =
     (if max_hold \<le> 0 then Inl (ValueError ''max_hold_after_safe_off_seconds'')
      else if hard_age \<le> 0 then Inl (ValueError ''hard_exit_age_seconds'')
      else Inr \<lparr>dp_max_hold = max_hold, dp_hard_age = hard_age, dp_universe = u\<rparr>)"

record deferral_controller =
  dx_seq :: int
  dx_attached :: bool
  dx_policies :: "(strategy \<times> deferral_policy) list"
  dx_flatten :: bool
  dx_buffer :: ns
  dx_anchor :: "strategy \<times> symbol \<Rightarrow> (ns \<times> ns) option"
  dx_pending :: "(strategy \<times> symbol) guard"

definition new_deferral_controller :: "(strategy \<times> deferral_policy) list \<Rightarrow> bool \<Rightarrow> int \<Rightarrow> deferral_controller" where
  "new_deferral_controller pols flatten before =
     \<lparr>dx_seq = 0, dx_attached = False, dx_policies = pols, dx_flatten = flatten, dx_buffer = before * 1000000000,
      dx_anchor = (\<lambda>_. None), dx_pending = (\<lambda>_. None)\<rparr>"

definition deferral_reset :: "deferral_controller \<Rightarrow> deferral_controller" where
  "deferral_reset c = c\<lparr>dx_anchor := (\<lambda>_. None), dx_pending := (\<lambda>_. None), dx_seq := 0\<rparr>"

definition deferral_register :: "strategy \<Rightarrow> deferral_policy \<Rightarrow> deferral_controller \<Rightarrow> deferral_controller" where
  "deferral_register sid pol c = c\<lparr>dx_policies := dict_set sid pol (dx_policies c)\<rparr>"

definition deferral_revoke :: "strategy \<Rightarrow> deferral_controller \<Rightarrow> deferral_controller" where
  "deferral_revoke sid c = c\<lparr>dx_policies := dict_pop sid (dx_policies c),
     dx_anchor := (\<lambda>k. if fst k = sid then None else dx_anchor c k), dx_pending := (\<lambda>k. if fst k = sid then None else dx_pending c k)\<rparr>"

definition deferral_attach :: "deferral_controller \<Rightarrow> bool \<times> deferral_controller" where
  "deferral_attach c = (if dx_attached c \<or> dx_policies c = [] then (False, c) else (True, c\<lparr>dx_attached := True\<rparr>))"

definition deferral_safety_visit :: "safety_state_change \<Rightarrow> ns option \<Rightarrow> deferral_controller \<Rightarrow> deferral_controller" where
  \<comment> \<open>\<open>_on_safety_state_change\<close>, given the start of the slice's episode\<close>
  "deferral_safety_visit e opened c =
     (let key = (sc_strategy e, sc_symbol e) in
      case map_of (dx_policies c) (sc_strategy e) of
        None \<Rightarrow> c
      | Some pol \<Rightarrow>
          if \<not> in_universe (dp_universe pol) (sc_symbol e) then c
          else if sc_safe e then c
          else case opened of
              None \<Rightarrow> c\<lparr>dx_anchor := (dx_anchor c)(key := None)\<rparr>
            | Some t \<Rightarrow>
                if map_option fst (dx_anchor c key) = Some t then c
                else c\<lparr>dx_anchor := (dx_anchor c)(key := Some (t, ev_timestamp e))\<rparr>)"

definition deferral_on_safety :: "'w exit_port \<Rightarrow> safety_state_change \<Rightarrow> (deferral_controller, 'w, unit) xact" where
  "deferral_on_safety port e cw =
     (Inr (), (deferral_safety_visit e (xp_slice_opened port (snd cw) (sc_strategy e) (sc_symbol e)) (fst cw), snd cw))"

definition rth_close_ns :: "calendar \<Rightarrow> ns \<Rightarrow> ns" where
  "rth_close_ns cal ts = ny_clock cal (ny_date cal ts) ''16:00''"

definition reason_tie_break :: "string \<Rightarrow> int" where
  "reason_tie_break r = (if r = ''HARD_EXIT_AGE'' then 0 else if r = ''MAX_HOLD_AFTER_SAFE_OFF'' then 1 else 2)"

definition earlier :: "ns \<times> string \<Rightarrow> ns \<times> string \<Rightarrow> ns \<times> string" where
  \<comment> \<open>the smaller key of \<open>min\<close>; the first of two equals\<close>
  "earlier a b = (if fst b < fst a \<or> fst b = fst a \<and> reason_tie_break (snd b) < reason_tie_break (snd a) then b else a)"

definition episode_deadline ::
  "calendar \<Rightarrow> deferral_controller \<Rightarrow> deferral_policy \<Rightarrow> strategy \<times> symbol \<Rightarrow> ns option \<Rightarrow> (ns \<times> string) option" where
  "episode_deadline cal c pol key opened =
     (case (dx_anchor c key, opened) of
        (Some (t, first_off), Some t') \<Rightarrow>
          if t \<noteq> t' then None
          else
            let hold = (first_off + dp_max_hold pol * 1000000000, ''MAX_HOLD_AFTER_SAFE_OFF'');
                age = (t' + dp_hard_age pol * 1000000000, ''HARD_EXIT_AGE'');
                flat = (rth_close_ns cal first_off - dx_buffer c, ''SESSION_FLATTEN'')
            in Some (if dx_flatten c then earlier (earlier hold age) flat else earlier hold age)
      | _ \<Rightarrow> None)"

definition deferral_trade_visit ::
  "(string \<Rightarrow> string) \<Rightarrow> calendar \<Rightarrow> trade \<Rightarrow> strategy \<Rightarrow> deferral_policy \<Rightarrow> open_book \<Rightarrow> deferral_controller
     \<Rightarrow> de_risk_requirement option \<times> deferral_controller" where
  \<comment> \<open>\<open>_maybe_emit_exit\<close>\<close>
  "deferral_trade_visit derive cal t sid pol b c =
     (let s = td_symbol t; key = (sid, s); now = ev_timestamp t in
      if ob_quantity b = 0
      then (None, c\<lparr>dx_anchor := (dx_anchor c)(key := None), dx_pending := (dx_pending c)(key := None)\<rparr>)
      else
        let c1 = (case (dx_anchor c key, ob_opened b) of
              (Some (t0, off), Some opened) \<Rightarrow>
                if t0 \<noteq> opened then c\<lparr>dx_anchor := (dx_anchor c)(key := Some (opened, off))\<rparr> else c
            | _ \<Rightarrow> c)
        in case guard_check key b (dx_pending c1) of
            (True, _) \<Rightarrow> (None, c1)
          | (False, g) \<Rightarrow>
              let c2 = c1\<lparr>dx_pending := g\<rparr> in
              (case episode_deadline cal c2 pol key (ob_opened b) of
                 None \<Rightarrow> (None, c2)
               | Some (deadline, reason) \<Rightarrow>
                   if now < deadline then (None, c2)
                   else (Some (exit_requirement derive
                             (ev_correlation t @ '':'' @ show_int now @ '':'' @ s @ '':'' @ sid @ '':'' @ reason)
                             now (ev_correlation t) (dx_seq c2) s (ob_quantity b) sid reason),
                         c2\<lparr>dx_seq := dx_seq c2 + 1, dx_pending := g(key := Some (mark_of b))\<rparr>)))"

definition deferral_on_trade :: "'w exit_port \<Rightarrow> (string \<Rightarrow> string) \<Rightarrow> calendar \<Rightarrow> trade \<Rightarrow> (deferral_controller, 'w, unit) xact" where
  "deferral_on_trade port derive cal t =
     each_policy dx_policies (\<lambda>sid pol cw.
       if \<not> in_universe (dp_universe pol) (td_symbol t) then (Inr (), cw)
       else case xp_slice port sid (td_symbol t) (snd cw) of
           (b, w) \<Rightarrow> (case deferral_trade_visit derive cal t sid pol b (fst cw) of (r, c') \<Rightarrow> send_exit port r (c', w)))"

subsection \<open>The composer of safety permissions\<close>

datatype book_state = FLAT_BOOK | LONG_BOOK | SHORT_BOOK
datatype safety_permission = SAFE_ON | SAFE_OFF
datatype story_permission = STORY_ON | STORY_OFF | STORY_UNKNOWN
datatype exit_decision = HOLD | EXIT

definition compose_exit ::
  "book_state \<Rightarrow> safety_permission \<Rightarrow> story_permission \<Rightarrow> bool \<Rightarrow> bool \<Rightarrow> bool \<Rightarrow> exit_decision" where
  "compose_exit book p_safe p_story caps_hit story_configured fail_closed =
     (if book = FLAT_BOOK then HOLD
      else if caps_hit then EXIT
      else if p_safe = SAFE_OFF \<and> fail_closed then EXIT
      else if p_safe = SAFE_ON then (if p_story = STORY_OFF then EXIT else HOLD)
      else if p_story = STORY_ON then HOLD
      else if p_story = STORY_OFF then EXIT
      else if story_configured then EXIT else HOLD)"

definition fail_closed_safety_reasons :: "string set" where
  "fail_closed_safety_reasons = {''missing_binding'', ''gate_error'', ''arithmetic_error''}"

record composer_policy =
  cp_universe :: "symbol list"
  cp_story_configured :: bool

record exit_composer =
  ec_seq :: int
  ec_attached :: bool
  ec_policies :: "(strategy \<times> composer_policy) list"
  ec_pending :: "(strategy \<times> symbol) guard"

definition new_exit_composer :: "(strategy \<times> composer_policy) list \<Rightarrow> exit_composer" where
  "new_exit_composer pols = \<lparr>ec_seq = 0, ec_attached = False, ec_policies = pols, ec_pending = (\<lambda>_. None)\<rparr>"

definition composer_reset :: "exit_composer \<Rightarrow> exit_composer" where
  "composer_reset c = c\<lparr>ec_pending := (\<lambda>_. None), ec_seq := 0\<rparr>"

definition composer_register :: "strategy \<Rightarrow> composer_policy \<Rightarrow> exit_composer \<Rightarrow> exit_composer" where
  "composer_register sid pol c = c\<lparr>ec_policies := dict_set sid pol (ec_policies c)\<rparr>"

definition composer_attach :: "exit_composer \<Rightarrow> bool \<times> exit_composer" where
  "composer_attach c = (if ec_attached c \<or> ec_policies c = [] then (False, c) else (True, c\<lparr>ec_attached := True\<rparr>))"

definition emit_flatten_order ::
  "(string \<Rightarrow> string) \<Rightarrow> strategy \<Rightarrow> symbol \<Rightarrow> open_book \<Rightarrow> ns \<Rightarrow> string \<Rightarrow> string \<Rightarrow> string \<Rightarrow> exit_composer
     \<Rightarrow> de_risk_requirement option \<times> exit_composer" where
  "emit_flatten_order derive sid s b ts cid reason seed c =
     (case guard_check (sid, s) b (ec_pending c) of
        (True, _) \<Rightarrow> (None, c)
      | (False, g) \<Rightarrow>
          (Some (exit_requirement derive seed ts cid (ec_seq c) s (ob_quantity b) sid reason),
           c\<lparr>ec_seq := ec_seq c + 1, ec_pending := g((sid, s) := Some (mark_of b))\<rparr>))"

definition composer_concerned :: "exit_composer \<Rightarrow> safety_state_change \<Rightarrow> composer_policy option" where
  \<comment> \<open>the early returns of \<open>_on_safety_state_change\<close>\<close>
  "composer_concerned c e =
     (case map_of (ec_policies c) (sc_strategy e) of
        None \<Rightarrow> None
      | Some pol \<Rightarrow> if in_universe (cp_universe pol) (sc_symbol e) \<and> \<not> sc_safe e then Some pol else None)"

definition composer_safety_visit ::
  "(string \<Rightarrow> string) \<Rightarrow> safety_state_change \<Rightarrow> composer_policy \<Rightarrow> open_book \<Rightarrow> exit_composer
     \<Rightarrow> de_risk_requirement option \<times> exit_composer" where
  "composer_safety_visit derive e pol b c =
     (let sid = sc_strategy e; s = sc_symbol e; reason = ''SAFETY_FAIL_CLOSED'' in
      if ob_quantity b = 0 then (None, c\<lparr>ec_pending := (ec_pending c)((sid, s) := None)\<rparr>)
      else if compose_exit (if 0 < ob_quantity b then LONG_BOOK else SHORT_BOOK) SAFE_OFF STORY_UNKNOWN False
                (cp_story_configured pol) (sc_reason e \<in> fail_closed_safety_reasons) = HOLD
      then (None, c)
      else emit_flatten_order derive sid s b (ev_timestamp e) (ev_correlation e) reason
             (ev_correlation e @ '':'' @ show_int (ev_timestamp e) @ '':'' @ s @ '':'' @ sid @ '':'' @ reason @ '':'' @ sc_reason e) c)"

definition composer_on_safety ::
  "'w exit_port \<Rightarrow> (string \<Rightarrow> string) \<Rightarrow> safety_state_change \<Rightarrow> (exit_composer, 'w, unit) xact" where
  "composer_on_safety port derive e cw =
     (case composer_concerned (fst cw) e of
        None \<Rightarrow> (Inr (), cw)
      | Some pol \<Rightarrow>
          (case xp_slice port (sc_strategy e) (sc_symbol e) (snd cw) of
             (b, w) \<Rightarrow> (case composer_safety_visit derive e pol b (fst cw) of (r, c') \<Rightarrow> send_exit port r (c', w))))"

definition revoke_visit ::
  "(string \<Rightarrow> string) \<Rightarrow> strategy \<Rightarrow> ns \<Rightarrow> string \<Rightarrow> symbol \<Rightarrow> open_book \<Rightarrow> exit_composer \<Rightarrow> de_risk_requirement option \<times> exit_composer" where
  "revoke_visit derive sid now cid s b c =
     emit_flatten_order derive sid s b now cid ''DECOUPLING_REVOKED''
       (cid @ '':'' @ show_int now @ '':'' @ s @ '':'' @ sid @ '':DECOUPLING_REVOKED'') c"

fun revoke_loop ::
  "'w exit_port \<Rightarrow> (string \<Rightarrow> string) \<Rightarrow> strategy \<Rightarrow> ns \<Rightarrow> string \<Rightarrow> symbol list
     \<Rightarrow> (exit_composer, 'w, de_risk_requirement list) xact" where
  \<comment> \<open>the positions are live objects: each is read when its turn comes\<close>
  "revoke_loop port derive sid now cid [] = ok []"
| "revoke_loop port derive sid now cid (s # ss) = (\<lambda>cw.
     case xp_slice port sid s (snd cw) of
       (b, w) \<Rightarrow> (case revoke_visit derive sid now cid s b (fst cw) of
         (r, c') \<Rightarrow> andThen (send_exit port r)
           (\<lambda>_. andThen (revoke_loop port derive sid now cid ss) (\<lambda>rs. ok (case r of None \<Rightarrow> rs | Some d \<Rightarrow> d # rs))) (c', w)))"

definition revoke_and_flatten ::
  "'w exit_port \<Rightarrow> (string \<Rightarrow> string) \<Rightarrow> strategy \<Rightarrow> ns \<Rightarrow> string \<Rightarrow> (exit_composer, 'w, de_risk_requirement list) xact" where
  "revoke_and_flatten port derive sid now cid cw =
     (case map_of (ec_policies (fst cw)) sid of
        None \<Rightarrow> (Inr [], cw)
      | Some pol \<Rightarrow>
          revoke_loop port derive sid now cid
            (filter (in_universe (cp_universe pol)) (sort (map fst (xp_open_slices port (snd cw) sid)))) cw)"

subsection \<open>No author closes the same book twice\<close>

fun exits :: "('e \<Rightarrow> 'c \<Rightarrow> de_risk_requirement option \<times> 'c) \<Rightarrow> 'e list \<Rightarrow> 'c \<Rightarrow> ('e \<times> de_risk_requirement) list" where
  \<comment> \<open>the requirements of a sequence of visits, whatever happens to the books in between\<close>
  "exits visit [] c = []"
| "exits visit (e # es) c =
     (case visit e c of (None, c') \<Rightarrow> exits visit es c' | (Some r, c') \<Rightarrow> (e, r) # exits visit es c')"

definition about :: "('e \<Rightarrow> 'k option) \<Rightarrow> 'k \<Rightarrow> ('e \<times> de_risk_requirement) list \<Rightarrow> de_risk_requirement list" where
  "about subject x outs = map snd (filter (\<lambda>o'. subject (fst o') = Some x) outs)"

definition closes_once :: "('e \<Rightarrow> 'c \<Rightarrow> de_risk_requirement option \<times> 'c) \<Rightarrow> ('e \<Rightarrow> 'k option) \<Rightarrow> ('e \<Rightarrow> open_book) \<Rightarrow> bool" where
  \<comment> \<open>as long as the visits find the same open book, at most one requirement closes it\<close>
  "closes_once visit subject book \<longleftrightarrow>
     (\<forall>es c x m. snd m \<noteq> 0 \<and> (\<forall>e\<in>set es. subject e = Some x \<longrightarrow> mark_of (book e) = m)
        \<longrightarrow> length (about subject x (exits visit es c)) \<le> 1)"

locale exit_author =
  fixes visit :: "'e \<Rightarrow> 'c \<Rightarrow> de_risk_requirement option \<times> 'c"
    and subject :: "'e \<Rightarrow> 'k option"
    and book :: "'e \<Rightarrow> open_book"
    and guard :: "'c \<Rightarrow> 'k guard"
  assumes emits: "visit e c = (Some r, c') \<Longrightarrow>
      \<exists>x. subject e = Some x \<and> guard c x \<noteq> Some (mark_of (book e)) \<and> guard c' = (guard c)(x \<mapsto> mark_of (book e))"
    and silent: "visit e c = (None, c') \<Longrightarrow> subject e \<noteq> Some x \<or> ob_quantity (book e) \<noteq> 0 \<and> guard c x = Some (mark_of (book e))
      \<Longrightarrow> guard c' x = guard c x"
begin

lemma guarded_is_silent:
  assumes "guard c x = Some m" "snd m \<noteq> 0" "\<forall>e\<in>set es. subject e = Some x \<longrightarrow> mark_of (book e) = m"
  shows "about subject x (exits visit es c) = []"
  using assms
proof (induction es arbitrary: c)
  case Nil
  then show ?case by (simp add: about_def)
next
  case (Cons e es)
  obtain r c' where v: "visit e c = (r, c')" by fastforce
  have own: "mark_of (book e) = m" if "subject e = Some x" using Cons.prems(3) that by simp
  show ?case
  proof (cases r)
    case None
    have "subject e \<noteq> Some x \<or> ob_quantity (book e) \<noteq> 0 \<and> guard c x = Some (mark_of (book e))"
      using own Cons.prems(1,2) by (auto simp: mark_of_def)
    then have "guard c' x = Some m" using silent[OF v[unfolded None]] Cons.prems(1) by simp
    then show ?thesis using Cons.IH[of c'] Cons.prems(2,3) v None by simp
  next
    case (Some d)
    from emits[OF v[unfolded Some]] obtain y where y: "subject e = Some y" "guard c y \<noteq> Some (mark_of (book e))"
      "guard c' = (guard c)(y \<mapsto> mark_of (book e))" by blast
    then have "y \<noteq> x" using own Cons.prems(1) by auto
    then have "guard c' x = Some m" using y(3) Cons.prems(1) by simp
    then show ?thesis using Cons.IH[of c'] Cons.prems(2,3) v Some y(1) \<open>y \<noteq> x\<close> by (simp add: about_def)
  qed
qed

lemma once: "closes_once visit subject book"
  unfolding closes_once_def
proof (intro allI impI)
  fix es c x and m :: "ns option \<times> int"
  assume "snd m \<noteq> 0 \<and> (\<forall>e\<in>set es. subject e = Some x \<longrightarrow> mark_of (book e) = m)"
  then show "length (about subject x (exits visit es c)) \<le> 1"
  proof (induction es arbitrary: c)
    case Nil
    then show ?case by (simp add: about_def)
  next
    case (Cons e es)
    obtain r c' where v: "visit e c = (r, c')" by fastforce
    show ?case
    proof (cases r)
      case None
      then show ?thesis using Cons v by simp
    next
      case (Some d)
      from emits[OF v[unfolded Some]] obtain y where y: "subject e = Some y" "guard c' = (guard c)(y \<mapsto> mark_of (book e))" by blast
      show ?thesis
      proof (cases "y = x")
        case True
        then have "guard c' x = Some m" using y Cons.prems by simp
        then have "about subject x (exits visit es c') = []" using Cons.prems by (intro guarded_is_silent) auto
        then show ?thesis using v Some y(1) True by (simp add: about_def)
      next
        case False
        then show ?thesis using Cons v Some y(1) by (simp add: about_def)
      qed
    qed
  qed
qed

end

text \<open>The visits of the four authors: an event, the policy it is judged by and the book as read.\<close>

definition stop_visits ::
  "(string \<Rightarrow> string) \<Rightarrow> calendar \<Rightarrow> session_bounds option \<Rightarrow> stop_policy \<Rightarrow> nbbo_quote \<times> open_book \<Rightarrow> stop_controller
     \<Rightarrow> de_risk_requirement option \<times> stop_controller" where
  "stop_visits derive cal bounds pol e = stop_visit derive cal bounds pol (fst e) (snd e)"

datatype hazard_event = Spike_Visit regime_hazard_spike strategy hazard_policy open_book | Age_Visit trade strategy hazard_policy open_book

fun hazard_visits :: "(string \<Rightarrow> string) \<Rightarrow> hazard_event \<Rightarrow> hazard_controller \<Rightarrow> de_risk_requirement option \<times> hazard_controller" where
  "hazard_visits derive (Spike_Visit e sid pol b) = hazard_spike_visit derive e sid pol b"
| "hazard_visits derive (Age_Visit t sid pol b) = hazard_trade_visit derive t sid pol b"

fun hazard_subject :: "hazard_event \<Rightarrow> symbol option" where
  "hazard_subject (Spike_Visit e _ _ _) = Some (hz_symbol e)"
| "hazard_subject (Age_Visit t _ _ _) = Some (td_symbol t)"

fun hazard_book :: "hazard_event \<Rightarrow> open_book" where
  "hazard_book (Spike_Visit _ _ _ b) = b"
| "hazard_book (Age_Visit _ _ _ b) = b"

datatype deferral_event = Safe_Visit safety_state_change "ns option" | Cap_Visit trade strategy deferral_policy open_book

fun deferral_visits ::
  "(string \<Rightarrow> string) \<Rightarrow> calendar \<Rightarrow> deferral_event \<Rightarrow> deferral_controller \<Rightarrow> de_risk_requirement option \<times> deferral_controller" where
  "deferral_visits derive cal (Safe_Visit e opened) c = (None, deferral_safety_visit e opened c)"
| "deferral_visits derive cal (Cap_Visit t sid pol b) c = deferral_trade_visit derive cal t sid pol b c"

fun deferral_subject :: "deferral_event \<Rightarrow> (strategy \<times> symbol) option" where
  "deferral_subject (Safe_Visit _ _) = None"
| "deferral_subject (Cap_Visit t sid _ _) = Some (sid, td_symbol t)"

fun deferral_book :: "deferral_event \<Rightarrow> open_book" where
  "deferral_book (Safe_Visit _ opened) = \<lparr>ob_quantity = 0, ob_avg = 0, ob_opened = opened\<rparr>"
| "deferral_book (Cap_Visit _ _ _ b) = b"

datatype composer_event = Composer_Safety safety_state_change composer_policy open_book | Revoke_Visit strategy ns string symbol open_book

fun composer_visits :: "(string \<Rightarrow> string) \<Rightarrow> composer_event \<Rightarrow> exit_composer \<Rightarrow> de_risk_requirement option \<times> exit_composer" where
  "composer_visits derive (Composer_Safety e pol b) = composer_safety_visit derive e pol b"
| "composer_visits derive (Revoke_Visit sid now cid s b) = revoke_visit derive sid now cid s b"

fun composer_subject :: "composer_event \<Rightarrow> (strategy \<times> symbol) option" where
  "composer_subject (Composer_Safety e _ _) = Some (sc_strategy e, sc_symbol e)"
| "composer_subject (Revoke_Visit sid _ _ s _) = Some (sid, s)"

fun composer_book :: "composer_event \<Rightarrow> open_book" where
  "composer_book (Composer_Safety _ _ b) = b"
| "composer_book (Revoke_Visit _ _ _ _ b) = b"

lemma guard_check_simps:
  "g x = Some (mark_of b) \<Longrightarrow> guard_check x b g = (True, g)"
  "g x \<noteq> Some (mark_of b) \<Longrightarrow> guard_check x b g = (False, g(x := None))"
  by (simp_all add: guard_check_def)

lemma stop_emit_laws:
  "stop_emit derive q b reason c = (Some r, c') \<Longrightarrow> sx_pending c (nq_symbol q) \<noteq> Some (mark_of b)
     \<and> sx_pending c' = (sx_pending c)(nq_symbol q \<mapsto> mark_of b)"
  "stop_emit derive q b reason c = (None, c') \<Longrightarrow> c' = c"
  by (auto simp: stop_emit_def guard_check_def split: if_splits)

lemma stop_triggered_pending: "sx_pending (snd (stop_triggered pol q b c)) = sx_pending c"
  by (simp add: stop_triggered_def Let_def)

interpretation stop_author: exit_author "stop_visits derive cal bounds pol" "\<lambda>e. Some (nq_symbol (fst e))" snd sx_pending
proof unfold_locales
  fix e :: "nbbo_quote \<times> open_book" and c r c'
  obtain hit c1 where t: "stop_triggered pol (fst e) (snd e) c = (hit, c1)" by fastforce
  have p: "sx_pending c1 = sx_pending c" using stop_triggered_pending[of pol "fst e" "snd e" c] t by simp
  show "\<exists>x. Some (nq_symbol (fst e)) = Some x \<and> sx_pending c x \<noteq> Some (mark_of (snd e)) \<and> sx_pending c' = (sx_pending c)(x \<mapsto> mark_of (snd e))"
    if "stop_visits derive cal bounds pol e c = (Some r, c')"
    using that t p stop_emit_laws(1)[of derive "fst e" "snd e" _ c1 r c'] by (auto simp: stop_visits_def stop_visit_def split: if_splits bool.splits)
  show "sx_pending c' x = sx_pending c x" if "stop_visits derive cal bounds pol e c = (None, c')"
      "Some (nq_symbol (fst e)) \<noteq> Some x \<or> ob_quantity (snd e) \<noteq> 0 \<and> sx_pending c x = Some (mark_of (snd e))" for x
    using that t p by (auto simp: stop_visits_def stop_visit_def split: if_splits bool.splits dest!: stop_emit_laws(2))
qed

lemma hazard_maybe_emit_laws:
  "hazard_maybe_emit derive sid s ts cid pol reason b c = (Some r, c') \<Longrightarrow> ob_quantity b \<noteq> 0 \<and> hx_pending c s \<noteq> Some (mark_of b)
     \<and> hx_pending c' = (hx_pending c)(s \<mapsto> mark_of b) \<and> (sid, s, reason) \<notin> hx_emitted c \<and> hx_emitted c' = insert (sid, s, reason) (hx_emitted c)
     \<and> dr_reason r = reason \<and> dr_strategy r = sid \<and> dr_symbol r = s"
  "hazard_maybe_emit derive sid s ts cid pol reason b c = (None, c') \<Longrightarrow> x \<noteq> s \<or> ob_quantity b \<noteq> 0 \<and> hx_pending c x = Some (mark_of b)
     \<Longrightarrow> hx_pending c' x = hx_pending c x"
  by (auto simp: hazard_maybe_emit_def clear_hazard_episode_def guard_check_def exit_requirement_def Let_def split: if_splits)

lemma hazard_visits_cases:
  "hazard_visits derive e c = (None, c)
   \<or> (\<exists>sid s ts cid pol reason. hazard_visits derive e c = hazard_maybe_emit derive sid s ts cid pol reason (hazard_book e) c
        \<and> hazard_subject e = Some s)"
proof (cases e)
  case (Spike_Visit h sid pol b)
  then show ?thesis by (simp add: hazard_spike_visit_def) blast
next
  case (Age_Visit t sid pol b)
  then show ?thesis by (simp add: hazard_trade_visit_def split: option.splits) blast
qed

interpretation hazard_author: exit_author "hazard_visits derive" hazard_subject hazard_book hx_pending
proof unfold_locales
  fix e c r c'
  show "\<exists>x. hazard_subject e = Some x \<and> hx_pending c x \<noteq> Some (mark_of (hazard_book e)) \<and> hx_pending c' = (hx_pending c)(x \<mapsto> mark_of (hazard_book e))"
    if run: "hazard_visits derive e c = (Some r, c')"
  proof -
    obtain sid s ts cid pol reason where "hazard_maybe_emit derive sid s ts cid pol reason (hazard_book e) c = (Some r, c')" "hazard_subject e = Some s"
      using hazard_visits_cases[of derive e c] run by auto
    then show ?thesis using hazard_maybe_emit_laws(1) by blast
  qed
  show "hx_pending c' x = hx_pending c x" if run: "hazard_visits derive e c = (None, c')"
      "hazard_subject e \<noteq> Some x \<or> ob_quantity (hazard_book e) \<noteq> 0 \<and> hx_pending c x = Some (mark_of (hazard_book e))" for x
    using hazard_visits_cases[of derive e c]
  proof (elim disjE exE conjE)
    fix sid s ts cid pol reason
    assume v: "hazard_visits derive e c = hazard_maybe_emit derive sid s ts cid pol reason (hazard_book e) c" "hazard_subject e = Some s"
    have "x \<noteq> s \<or> ob_quantity (hazard_book e) \<noteq> 0 \<and> hx_pending c x = Some (mark_of (hazard_book e))" using run(2) v(2) by auto
    then show ?thesis using hazard_maybe_emit_laws(2)[OF v(1)[unfolded run(1), symmetric], of x] by blast
  qed (use run in simp)
qed

lemma deferral_safety_pending [simp]: "dx_pending (deferral_safety_visit e opened c) = dx_pending c"
  by (simp add: deferral_safety_visit_def Let_def split: option.splits)

lemma deferral_trade_laws:
  "deferral_trade_visit derive cal t sid pol b c = (Some r, c') \<Longrightarrow> dx_pending c (sid, td_symbol t) \<noteq> Some (mark_of b)
     \<and> dx_pending c' = (dx_pending c)((sid, td_symbol t) \<mapsto> mark_of b)"
  "deferral_trade_visit derive cal t sid pol b c = (None, c') \<Longrightarrow> x \<noteq> (sid, td_symbol t) \<or> ob_quantity b \<noteq> 0 \<and> dx_pending c x = Some (mark_of b)
     \<Longrightarrow> dx_pending c' x = dx_pending c x"
  by (auto simp: deferral_trade_visit_def guard_check_def Let_def split: if_splits option.splits prod.splits)

interpretation deferral_author: exit_author "deferral_visits derive cal" deferral_subject deferral_book dx_pending
proof unfold_locales
  fix e c r c'
  show "\<exists>x. deferral_subject e = Some x \<and> dx_pending c x \<noteq> Some (mark_of (deferral_book e)) \<and> dx_pending c' = (dx_pending c)(x \<mapsto> mark_of (deferral_book e))"
    if "deferral_visits derive cal e c = (Some r, c')"
    using that deferral_trade_laws(1) by (cases e) auto
  show "dx_pending c' x = dx_pending c x" if "deferral_visits derive cal e c = (None, c')"
      "deferral_subject e \<noteq> Some x \<or> ob_quantity (deferral_book e) \<noteq> 0 \<and> dx_pending c x = Some (mark_of (deferral_book e))" for x
  proof (cases e)
    case (Cap_Visit t sid pol b)
    show ?thesis by (rule deferral_trade_laws(2)[of derive cal t sid pol b c c' x]) (use that Cap_Visit in auto)
  qed (use that in auto)
qed

lemma emit_flatten_laws:
  "emit_flatten_order derive sid s b ts cid reason seed c = (Some r, c') \<Longrightarrow> ec_pending c (sid, s) \<noteq> Some (mark_of b)
     \<and> ec_pending c' = (ec_pending c)((sid, s) \<mapsto> mark_of b)"
  "emit_flatten_order derive sid s b ts cid reason seed c = (None, c') \<Longrightarrow> c' = c"
  by (auto simp: emit_flatten_order_def guard_check_def split: if_splits)

interpretation composer_author: exit_author "composer_visits derive" composer_subject composer_book ec_pending
proof unfold_locales
  fix e c r c'
  show "\<exists>x. composer_subject e = Some x \<and> ec_pending c x \<noteq> Some (mark_of (composer_book e)) \<and> ec_pending c' = (ec_pending c)(x \<mapsto> mark_of (composer_book e))"
    if "composer_visits derive e c = (Some r, c')"
    using that emit_flatten_laws(1) by (cases e) (auto simp: composer_safety_visit_def revoke_visit_def Let_def split: if_splits)
  show "ec_pending c' x = ec_pending c x" if "composer_visits derive e c = (None, c')"
      "composer_subject e \<noteq> Some x \<or> ob_quantity (composer_book e) \<noteq> 0 \<and> ec_pending c x = Some (mark_of (composer_book e))" for x
    using that by (cases e) (auto simp: composer_safety_visit_def revoke_visit_def Let_def split: if_splits dest!: emit_flatten_laws(2))
qed

subsection \<open>The age limit fires once per strategy and symbol\<close>

definition timed_book :: "open_book \<Rightarrow> bool" where
  \<comment> \<open>a position store reports no episode for a flat symbol\<close>
  "timed_book b \<longleftrightarrow> \<not> (ob_quantity b = 0 \<and> ob_opened b \<noteq> None)"

definition aged_exit :: "strategy \<Rightarrow> symbol \<Rightarrow> de_risk_requirement \<Rightarrow> bool" where
  "aged_exit sid s r \<longleftrightarrow> dr_strategy r = sid \<and> dr_symbol r = s \<and> dr_reason r = ''HARD_EXIT_AGE''"

lemma maybe_emit_keeps:
  assumes "hazard_maybe_emit derive sid' s' ts cid pol reason b c = (ro, c')" "(sid, s, ''HARD_EXIT_AGE'') \<in> hx_emitted c"
    "reason = ''HAZARD_SPIKE'' \<or> ob_quantity b \<noteq> 0"
  shows "(sid, s, ''HARD_EXIT_AGE'') \<in> hx_emitted c' \<and> (\<forall>r. ro = Some r \<longrightarrow> \<not> aged_exit sid s r)"
  using assms
  by (auto simp: hazard_maybe_emit_def clear_hazard_episode_def exit_requirement_def guard_check_def aged_exit_def Let_def split: if_splits)

lemma hazard_visit_keeps:
  assumes "hazard_visits derive e c = (ro, c')" "timed_book (hazard_book e)" "(sid, s, ''HARD_EXIT_AGE'') \<in> hx_emitted c"
  shows "(sid, s, ''HARD_EXIT_AGE'') \<in> hx_emitted c' \<and> (\<forall>r. ro = Some r \<longrightarrow> \<not> aged_exit sid s r)"
proof -
  have "(ro, c') = (None, c) \<or> (\<exists>sid' s' ts cid pol reason b. hazard_maybe_emit derive sid' s' ts cid pol reason b c = (ro, c')
      \<and> (reason = ''HAZARD_SPIKE'' \<or> ob_quantity b \<noteq> 0))"
  proof (cases e)
    case (Spike_Visit h sid' pol b)
    then have "(ro, c') = (None, c) \<or> hazard_maybe_emit derive sid' (hz_symbol h) (ev_timestamp h) (ev_correlation h) pol ''HAZARD_SPIKE'' b c = (ro, c')"
      using assms(1) by (auto simp: hazard_spike_visit_def split: if_splits)
    then show ?thesis by blast
  next
    case (Age_Visit t sid' pol b)
    then have "(ro, c') = (None, c) \<or> ob_quantity b \<noteq> 0
        \<and> hazard_maybe_emit derive sid' (td_symbol t) (ev_timestamp t) (ev_correlation t) pol ''HARD_EXIT_AGE'' b c = (ro, c')"
      using assms(1,2) by (auto simp: hazard_trade_visit_def timed_book_def split: if_splits option.splits)
    then show ?thesis by blast
  qed
  then show ?thesis
  proof (elim disjE exE conjE)
    assume "(ro, c') = (None, c)"
    then show ?thesis using assms(3) by simp
  next
    fix sid' s' ts cid pol reason b
    assume "hazard_maybe_emit derive sid' s' ts cid pol reason b c = (ro, c')"
    then show "reason = ''HAZARD_SPIKE'' \<Longrightarrow> ?thesis" and "ob_quantity b \<noteq> 0 \<Longrightarrow> ?thesis"
      using maybe_emit_keeps[OF _ assms(3)] by simp_all
  qed
qed

lemma hazard_visit_marks:
  assumes "hazard_visits derive e c = (Some r, c')"
  shows "(dr_strategy r, dr_symbol r, dr_reason r) \<in> hx_emitted c'"
proof -
  obtain sid s ts cid pol reason where "hazard_maybe_emit derive sid s ts cid pol reason (hazard_book e) c = (Some r, c')"
    using hazard_visits_cases[of derive e c] assms by auto
  then show ?thesis using hazard_maybe_emit_laws(1) by fastforce
qed

lemma aged_never_again:
  assumes "list_all (\<lambda>e. timed_book (hazard_book e)) es" "(sid, s, ''HARD_EXIT_AGE'') \<in> hx_emitted c"
  shows "filter (aged_exit sid s) (map snd (exits (hazard_visits derive) es c)) = []"
  using assms
proof (induction es arbitrary: c)
  case (Cons e es)
  obtain ro c' where v: "hazard_visits derive e c = (ro, c')" by fastforce
  have "timed_book (hazard_book e)" using Cons.prems(1) by simp
  from hazard_visit_keeps[OF v this Cons.prems(2)] have k: "(sid, s, ''HARD_EXIT_AGE'') \<in> hx_emitted c'" "\<And>r. ro = Some r \<Longrightarrow> \<not> aged_exit sid s r"
    by simp_all
  show ?case using Cons.IH[OF _ k(1)] Cons.prems(1) k(2) v by (cases ro) simp_all
qed simp

lemma aged_at_most_once:
  assumes "list_all (\<lambda>e. timed_book (hazard_book e)) es"
  shows "length (filter (aged_exit sid s) (map snd (exits (hazard_visits derive) es c))) \<le> 1"
  using assms
proof (induction es arbitrary: c)
  case (Cons e es)
  obtain ro c' where v: "hazard_visits derive e c = (ro, c')" by fastforce
  have es: "list_all (\<lambda>e. timed_book (hazard_book e)) es" using Cons.prems by simp
  show ?case
  proof (cases ro)
    case None
    then show ?thesis using Cons.IH[OF es, of c'] v by simp
  next
    case (Some r)
    show ?thesis
    proof (cases "aged_exit sid s r")
      case True
      then have "(sid, s, ''HARD_EXIT_AGE'') \<in> hx_emitted c'" using hazard_visit_marks[OF v[unfolded Some]] by (simp add: aged_exit_def)
      from aged_never_again[OF es this, of derive] show ?thesis using v Some True by simp
    next
      case False
      then show ?thesis using Cons.IH[OF es, of c'] v Some by simp
    qed
  qed
qed simp

subsection \<open>A deferred exit is bounded\<close>

definition trade_times :: "strategy \<times> symbol \<Rightarrow> deferral_event list \<Rightarrow> ns list" where
  "trade_times key es = concat (map (\<lambda>e. case e of Safe_Visit _ _ \<Rightarrow> []
     | Cap_Visit t sid _ _ \<Rightarrow> if (sid, td_symbol t) = key then [ev_timestamp t] else []) es)"

definition same_episode :: "strategy \<times> symbol \<Rightarrow> deferral_policy \<Rightarrow> ns \<Rightarrow> int \<Rightarrow> deferral_event \<Rightarrow> bool" where
  \<comment> \<open>as far as this slice is concerned, the event finds the same open book under the same policy\<close>
  "same_episode key pol o' q e = (case e of
      Safe_Visit sc opened \<Rightarrow> (sc_strategy sc, sc_symbol sc) \<noteq> key \<or> opened = Some o'
    | Cap_Visit t sid p b \<Rightarrow> (sid, td_symbol t) \<noteq> key \<or> p = pol \<and> ob_quantity b = q \<and> ob_opened b = Some o')"

lemma safety_keeps_anchor:
  assumes "same_episode key pol o' q (Safe_Visit e opened)" "dx_anchor c key = Some (o', t0)"
  shows "dx_anchor (deferral_safety_visit e opened c) key = Some (o', t0)"
  using assms by (auto simp: deferral_safety_visit_def same_episode_def Let_def split: option.splits)

lemma safety_keeps_config [simp]:
  "dx_flatten (deferral_safety_visit e opened c) = dx_flatten c" "dx_buffer (deferral_safety_visit e opened c) = dx_buffer c"
  by (simp_all add: deferral_safety_visit_def Let_def split: option.splits)

lemma deferral_trade_keeps:
  assumes "deferral_trade_visit derive cal t sid pol b c = (ro, c')"
  shows "dx_flatten c' = dx_flatten c" and "dx_buffer c' = dx_buffer c"
    and "(sid, td_symbol t) \<noteq> key \<Longrightarrow> dx_anchor c' key = dx_anchor c key \<and> dx_pending c' key = dx_pending c key"
  using assms by (auto simp: deferral_trade_visit_def guard_check_def Let_def split: if_splits option.splits prod.splits)

lemma deadline_cong:
  assumes "dx_anchor c' key = dx_anchor c key" "dx_flatten c' = dx_flatten c" "dx_buffer c' = dx_buffer c"
  shows "episode_deadline cal c' pol key opened = episode_deadline cal c pol key opened"
  unfolding episode_deadline_def assms ..

lemma deferral_trade_own:
  assumes "ob_quantity b \<noteq> 0" "ob_opened b = Some o'" "dx_anchor c (sid, td_symbol t) = Some (o', t0)"
    "dx_pending c (sid, td_symbol t) \<noteq> Some (mark_of b)" "episode_deadline cal c pol (sid, td_symbol t) (Some o') = Some (deadline, reason)"
  shows "ev_timestamp t < deadline \<Longrightarrow> deferral_trade_visit derive cal t sid pol b c = (None, c\<lparr>dx_pending := (dx_pending c)((sid, td_symbol t) := None)\<rparr>)"
    and "deadline \<le> ev_timestamp t \<Longrightarrow> \<exists>r c'. deferral_trade_visit derive cal t sid pol b c = (Some r, c') \<and> ev_timestamp r = ev_timestamp t
      \<and> dr_quantity r = \<bar>ob_quantity b\<bar> \<and> dr_reason r = reason"
proof -
  let ?c = "c\<lparr>dx_pending := (dx_pending c)((sid, td_symbol t) := None)\<rparr>"
  have d: "episode_deadline cal ?c pol (sid, td_symbol t) (Some o') = Some (deadline, reason)"
    using assms(5) deadline_cong[of ?c "(sid, td_symbol t)" c] by simp
  show "ev_timestamp t < deadline \<Longrightarrow> deferral_trade_visit derive cal t sid pol b c = (None, ?c)"
    using assms(1-4) d by (simp add: deferral_trade_visit_def guard_check_def Let_def)
  show "deadline \<le> ev_timestamp t \<Longrightarrow> \<exists>r c'. deferral_trade_visit derive cal t sid pol b c = (Some r, c') \<and> ev_timestamp r = ev_timestamp t
      \<and> dr_quantity r = \<bar>ob_quantity b\<bar> \<and> dr_reason r = reason"
    using assms(1-4) d by (simp add: deferral_trade_visit_def guard_check_def exit_requirement_def Let_def)
qed

lemma same_episode_mark:
  assumes "same_episode key pol o' q e" "deferral_subject e = Some key"
  shows "mark_of (deferral_book e) = (Some o', q)"
  using assms by (cases e) (simp_all add: same_episode_def mark_of_def)

lemma deferral_exact:
  assumes "list_all (same_episode key pol o' q) es" "q \<noteq> 0" "dx_anchor c key = Some (o', t0)" "dx_pending c key \<noteq> Some (Some o', q)"
    "episode_deadline cal c pol key (Some o') = Some (deadline, reason)"
  shows "map (\<lambda>r. (ev_timestamp r, dr_quantity r, dr_reason r)) (about deferral_subject key (exits (deferral_visits derive cal) es c))
    = map (\<lambda>now. (now, \<bar>q\<bar>, reason)) (take 1 (filter (\<lambda>now. deadline \<le> now) (trade_times key es)))"
  using assms
proof (induction es arbitrary: c)
  case Nil
  then show ?case by (simp add: about_def trade_times_def)
next
  case (Cons e es)
  have es: "list_all (same_episode key pol o' q) es" and e: "same_episode key pol o' q e" using Cons.prems(1) by simp_all
  have skip: ?case if v: "deferral_visits derive cal e c = (ro, c')" and other: "deferral_subject e \<noteq> Some key" "trade_times key [e] = []"
      and keep: "dx_anchor c' key = dx_anchor c key" "dx_pending c' key = dx_pending c key" "dx_flatten c' = dx_flatten c" "dx_buffer c' = dx_buffer c" for ro c'
  proof -
    have tt: "trade_times key (e # es) = trade_times key es" using other(2) by (simp add: trade_times_def)
    have "episode_deadline cal c' pol key (Some o') = Some (deadline, reason)" using deadline_cong[OF keep(1,3,4)] Cons.prems(5) by simp
    from Cons.IH[OF es Cons.prems(2) _ _ this] show ?thesis
      using v other(1) keep(1,2) Cons.prems(3,4) tt by (cases ro) (simp_all add: about_def)
  qed
  show ?case
  proof (cases e)
    case (Safe_Visit sc opened)
    then show ?thesis using e safety_keeps_anchor[of key pol o' q sc opened c t0] Cons.prems(3)
      by (intro skip[of None "deferral_safety_visit sc opened c"]) (simp_all add: trade_times_def)
  next
    case (Cap_Visit t sid p b)
    obtain ro c' where v: "deferral_trade_visit derive cal t sid p b c = (ro, c')" by fastforce
    show ?thesis
    proof (cases "(sid, td_symbol t) = key")
      case False
      then show ?thesis using Cap_Visit v deferral_trade_keeps[OF v] by (intro skip[of ro c']) (auto simp: trade_times_def)
    next
      case True
      then have b: "p = pol" "ob_quantity b = q" "ob_opened b = Some o'" using e Cap_Visit by (simp_all add: same_episode_def)
      have tt: "trade_times key (e # es) = ev_timestamp t # trade_times key es" using True Cap_Visit by (simp add: trade_times_def)
      have own: "ob_quantity b \<noteq> 0" "dx_anchor c (sid, td_symbol t) = Some (o', t0)" "dx_pending c (sid, td_symbol t) \<noteq> Some (mark_of b)"
        "episode_deadline cal c pol (sid, td_symbol t) (Some o') = Some (deadline, reason)"
        using Cons.prems(2-5) b True by (simp_all add: mark_of_def)
      note steps = deferral_trade_own[OF own(1) b(3) own(2-4), of derive]
      show ?thesis
      proof (cases "deadline \<le> ev_timestamp t")
        case False
        let ?c = "c\<lparr>dx_pending := (dx_pending c)(key := None)\<rparr>"
        have "deferral_visits derive cal e c = (None, ?c)" using steps(1) False Cap_Visit b(1) True by simp
        moreover have "episode_deadline cal ?c pol key (Some o') = Some (deadline, reason)" using Cons.prems(5) deadline_cong[of ?c key c] by simp
        ultimately show ?thesis using Cons.IH[OF es Cons.prems(2), of ?c] Cons.prems(3) False tt by simp
      next
        case due: True
        from steps(2)[OF due] obtain r c1 where r: "deferral_trade_visit derive cal t sid pol b c = (Some r, c1)" "ev_timestamp r = ev_timestamp t"
          "dr_quantity r = \<bar>q\<bar>" "dr_reason r = reason" using b(2) by blast
        have "dx_pending c1 key = Some (Some o', q)" using deferral_trade_laws(1)[OF r(1)] True b by (simp add: mark_of_def)
        moreover have "\<forall>e\<in>set es. deferral_subject e = Some key \<longrightarrow> mark_of (deferral_book e) = (Some o', q)"
          using same_episode_mark[of key pol o' q] es unfolding list_all_iff by blast
        ultimately have "about deferral_subject key (exits (deferral_visits derive cal) es c1) = []"
          using deferral_author.guarded_is_silent[of c1 key "(Some o', q)" es derive cal] Cons.prems(2) by simp
        then show ?thesis using r due tt Cap_Visit b(1) True by (simp add: about_def)
      qed
    qed
  qed
qed

subsection \<open>The trailing stop follows the best gain of the episode\<close>

definition stop_due ::
  "calendar \<Rightarrow> session_bounds option \<Rightarrow> stop_policy \<Rightarrow> open_book \<Rightarrow> float64 set \<Rightarrow> nbbo_quote \<Rightarrow> bool" where
  \<comment> \<open>the reference: the tests against the best gain of all quotes of the episode so far\<close>
  "stop_due cal bounds pol b gains q \<longleftrightarrow>
     stop_fires pol (fl_round (ob_avg b)) (Max gains) (unrealized_per_share q b) \<or> stop_session_flatten cal bounds pol (nq_exchange_timestamp q)"

fun due_quotes :: "calendar \<Rightarrow> session_bounds option \<Rightarrow> stop_policy \<Rightarrow> open_book \<Rightarrow> float64 set \<Rightarrow> nbbo_quote list \<Rightarrow> nbbo_quote list" where
  "due_quotes cal bounds pol b gains [] = []"
| "due_quotes cal bounds pol b gains (q # qs) =
     (let gains' = insert (unrealized_per_share q b) gains
      in (if stop_due cal bounds pol b gains' q then [q] else []) @ due_quotes cal bounds pol b gains' qs)"

lemma stop_visit_exact:
  assumes "ob_quantity b \<noteq> 0" "stop_enabled pol" "0 < fl_round (ob_avg b)" "finite gains"
    and peak: "if gains = {} then map_option fst (sx_peak c (nq_symbol q)) \<noteq> Some (ob_opened b)
      else sx_peak c (nq_symbol q) = Some (ob_opened b, Max gains)"
    and free: "sx_pending c (nq_symbol q) \<noteq> Some (mark_of b)"
  defines "gains' \<equiv> insert (unrealized_per_share q b) gains"
  shows "\<not> stop_due cal bounds pol b gains' q \<Longrightarrow> \<exists>c'. stop_visit derive cal bounds pol q b c = (None, c')
      \<and> sx_peak c' (nq_symbol q) = Some (ob_opened b, Max gains') \<and> sx_pending c' = sx_pending c"
    and "stop_due cal bounds pol b gains' q \<Longrightarrow> \<exists>r c'. stop_visit derive cal bounds pol q b c = (Some r, c')
      \<and> ev_timestamp r = ev_timestamp q \<and> dr_quantity r = \<bar>ob_quantity b\<bar> \<and> sx_pending c' (nq_symbol q) = Some (mark_of b)"
proof -
  let ?u = "unrealized_per_share q b"
  have m: "(case sx_peak c (nq_symbol q) of None \<Rightarrow> ?u | Some (opened, p) \<Rightarrow> if opened \<noteq> ob_opened b then ?u else max p ?u) = Max gains'"
  proof (cases "gains = {}")
    case True
    then show ?thesis using peak by (auto simp: gains'_def split: option.splits)
  next
    case False
    then show ?thesis using peak assms(4) by (simp add: gains'_def max.commute)
  qed
  have t: "stop_triggered pol q b c = (stop_fires pol (fl_round (ob_avg b)) (Max gains') ?u, c\<lparr>sx_peak := (sx_peak c)(nq_symbol q := Some (ob_opened b, Max gains'))\<rparr>)"
    unfolding stop_triggered_def Let_def m using assms(2,3) by simp
  show "\<not> stop_due cal bounds pol b gains' q \<Longrightarrow> \<exists>c'. stop_visit derive cal bounds pol q b c = (None, c')
      \<and> sx_peak c' (nq_symbol q) = Some (ob_opened b, Max gains') \<and> sx_pending c' = sx_pending c"
    using assms(1) by (simp add: stop_visit_def t stop_due_def)
  show "stop_due cal bounds pol b gains' q \<Longrightarrow> \<exists>r c'. stop_visit derive cal bounds pol q b c = (Some r, c')
      \<and> ev_timestamp r = ev_timestamp q \<and> dr_quantity r = \<bar>ob_quantity b\<bar> \<and> sx_pending c' (nq_symbol q) = Some (mark_of b)"
    using assms(1) free
    by (cases "stop_fires pol (fl_round (ob_avg b)) (Max gains') ?u") (simp_all add: stop_visit_def t stop_due_def stop_emit_def guard_check_def exit_requirement_def)
qed

lemma stop_exact:
  assumes "list_all (\<lambda>q. nq_symbol q = s) qs" "ob_quantity b \<noteq> 0" "stop_enabled pol" "0 < fl_round (ob_avg b)" "finite gains"
    and "if gains = {} then map_option fst (sx_peak c s) \<noteq> Some (ob_opened b) else sx_peak c s = Some (ob_opened b, Max gains)"
    and "sx_pending c s \<noteq> Some (mark_of b)"
  shows "map (\<lambda>r. (ev_timestamp r, dr_quantity r)) (about (\<lambda>e. Some (nq_symbol (fst e))) s (exits (stop_visits derive cal bounds pol) (map (\<lambda>q. (q, b)) qs) c))
    = map (\<lambda>q. (ev_timestamp q, \<bar>ob_quantity b\<bar>)) (take 1 (due_quotes cal bounds pol b gains qs))"
  using assms
proof (induction qs arbitrary: c gains)
  case Nil
  then show ?case by (simp add: about_def)
next
  case (Cons q qs)
  have q: "nq_symbol q = s" and qs: "list_all (\<lambda>q. nq_symbol q = s) qs" using Cons.prems(1) by simp_all
  let ?gains = "insert (unrealized_per_share q b) gains"
  note steps = stop_visit_exact[OF Cons.prems(2-5), of c q cal bounds derive, unfolded q, OF Cons.prems(6,7)]
  show ?case
  proof (cases "stop_due cal bounds pol b ?gains q")
    case False
    from steps(1)[OF this] obtain c' where c': "stop_visit derive cal bounds pol q b c = (None, c')"
      "sx_peak c' s = Some (ob_opened b, Max ?gains)" "sx_pending c' = sx_pending c" by blast
    then show ?thesis using Cons.IH[OF qs Cons.prems(2-4), of ?gains c'] Cons.prems(5,7) False by (simp add: stop_visits_def)
  next
    case True
    from steps(2)[OF this] obtain r c' where r: "stop_visit derive cal bounds pol q b c = (Some r, c')" "ev_timestamp r = ev_timestamp q"
      "dr_quantity r = \<bar>ob_quantity b\<bar>" "sx_pending c' s = Some (mark_of b)" by blast
    have "about (\<lambda>e. Some (nq_symbol (fst e))) s (exits (stop_visits derive cal bounds pol) (map (\<lambda>q. (q, b)) qs) c') = []"
      by (rule stop_author.guarded_is_silent[OF r(4)]) (use Cons.prems(2) in \<open>auto simp: mark_of_def\<close>)
    moreover have "stop_visits derive cal bounds pol (q, b) c = (Some r, c')" using r(1) by (simp add: stop_visits_def)
    ultimately show ?thesis using r(2,3) q True by (simp add: about_def)
  qed
qed

subsection \<open>What the authors ask for, the kernel accepts\<close>

definition full_close :: "'r kernel \<Rightarrow> int \<Rightarrow> de_risk_requirement \<Rightarrow> bool" where
  \<comment> \<open>as the kernel judges it, the requirement is a forced exit that closes a quantity in full\<close>
  "full_close k q d \<longleftrightarrow> is_forced_market_exit (order_request_from_derisk d) \<and> 0 < \<bar>q\<bar> \<and> dr_quantity d = \<bar>q\<bar>
     \<and> forced_exit_closable_quantity k (order_request_from_derisk d) = \<bar>q\<bar>"

lemma net_full_close:
  assumes "q = pos_quantity (ps_get (k_positions k) s)" "q \<noteq> 0" "reason \<in> risk_forced_reasons"
  shows "full_close k q (exit_requirement derive seed ts cid n s q sid reason)"
  using assms by (auto simp: full_close_def order_request_from_derisk_def exit_requirement_def is_forced_market_exit_def
      forced_exit_closable_quantity_def closable_quantity_def Let_def split: option.splits)

lemma slice_full_close:
  assumes "k_slices k = Some S" "q = slice_q S s sid" "q \<noteq> 0" "reason \<in> slice_scoped_reasons"
  shows "full_close k q (exit_requirement derive seed ts cid n s q sid reason)"
proof -
  have "reason \<in> risk_forced_reasons" using assms(4) by (auto simp: slice_scoped_reasons_def risk_forced_reasons_def)
  then show ?thesis using assms by (auto simp: full_close_def order_request_from_derisk_def exit_requirement_def is_forced_market_exit_def
      forced_exit_closable_quantity_def closable_quantity_def Let_def)
qed

lemma port_net: "ob_quantity (xp_net (kernel_port cfg rt chk S0) k s) = pos_quantity (ps_get (k_positions k) s)"
  by (simp add: kernel_port_def Let_def)

lemma port_slice:
  assumes "xp_slice (kernel_port cfg rt chk S0) sid s k = (b, k')" "k_slices k = Some S"
  shows "\<exists>S'. k_slices k' = Some S' \<and> slice_q S' s sid = ob_quantity b"
proof -
  obtain p S' where p: "ss_get S sid s = (p, S')" by fastforce
  have "fst (ss_get S' sid s) = p" using p by (auto simp: ss_get_def ss_get_store_def split: option.splits)
  then show ?thesis using assms p by (auto simp: kernel_port_def slice_get_def slice_q_def)
qed

lemma stop_visit_requirement:
  assumes "stop_visit derive cal bounds pol q b c = (Some d, c')"
  shows "ob_quantity b \<noteq> 0 \<and> (\<exists>seed n reason. reason \<in> {''STOP_EXIT'', ''SESSION_FLAT''}
    \<and> d = exit_requirement derive seed (ev_timestamp q) (ev_correlation q) n (nq_symbol q) (ob_quantity b) '''' reason)"
  using assms by (auto simp: stop_visit_def stop_emit_def guard_check_def split: if_splits prod.splits bool.splits)

lemma hazard_maybe_requirement:
  assumes "hazard_maybe_emit derive sid s ts cid pol reason b c = (Some d, c')"
  shows "ob_quantity b \<noteq> 0 \<and> (\<exists>seed n. d = exit_requirement derive seed ts cid n s (ob_quantity b) sid reason)"
proof -
  define seed where "seed = cid @ '':'' @ show_int ts @ '':'' @ s @ '':'' @ reason"
  define c0 where "c0 = clear_hazard_episode sid s reason b c"
  have "d = exit_requirement derive seed ts cid (hx_seq c0) s (ob_quantity b) sid reason \<and> ob_quantity b \<noteq> 0"
    using assms unfolding hazard_maybe_emit_def Let_def c0_def[symmetric] seed_def[symmetric]
    by (auto simp: guard_check_def split: if_splits)
  then show ?thesis by blast
qed

lemma hazard_visit_requirement:
  assumes "hazard_visits derive e c = (Some d, c')"
  shows "ob_quantity (hazard_book e) \<noteq> 0 \<and> (\<exists>seed ts cid n s sid reason. hazard_subject e = Some s \<and> reason \<in> {''HAZARD_SPIKE'', ''HARD_EXIT_AGE''}
    \<and> d = exit_requirement derive seed ts cid n s (ob_quantity (hazard_book e)) sid reason)"
proof (cases e)
  case (Spike_Visit h sid pol b)
  then have "hazard_maybe_emit derive sid (hz_symbol h) (ev_timestamp h) (ev_correlation h) pol ''HAZARD_SPIKE'' b c = (Some d, c')"
    using assms by (auto simp: hazard_spike_visit_def split: if_splits)
  from hazard_maybe_requirement[OF this] show ?thesis unfolding Spike_Visit hazard_subject.simps hazard_book.simps by blast
next
  case (Age_Visit t sid pol b)
  then have "hazard_maybe_emit derive sid (td_symbol t) (ev_timestamp t) (ev_correlation t) pol ''HARD_EXIT_AGE'' b c = (Some d, c')"
    using assms by (auto simp: hazard_trade_visit_def split: if_splits option.splits)
  from hazard_maybe_requirement[OF this] show ?thesis unfolding Age_Visit hazard_subject.simps hazard_book.simps by blast
qed

lemma deadline_reason:
  "episode_deadline cal c pol key opened = Some (d, reason) \<Longrightarrow> reason \<in> {''MAX_HOLD_AFTER_SAFE_OFF'', ''HARD_EXIT_AGE'', ''SESSION_FLATTEN''}"
  by (auto simp: episode_deadline_def earlier_def Let_def split: option.splits if_splits prod.splits)

lemma deferral_visit_requirement:
  assumes "deferral_trade_visit derive cal t sid pol b c = (Some d, c')"
  shows "ob_quantity b \<noteq> 0 \<and> (\<exists>seed ts cid n reason. reason \<in> {''MAX_HOLD_AFTER_SAFE_OFF'', ''HARD_EXIT_AGE'', ''SESSION_FLATTEN''}
    \<and> d = exit_requirement derive seed ts cid n (td_symbol t) (ob_quantity b) sid reason)"
proof -
  define c1 where "c1 = (case (dx_anchor c (sid, td_symbol t), ob_opened b) of
              (Some (t0, off), Some opened) \<Rightarrow>
                if t0 \<noteq> opened then c\<lparr>dx_anchor := (dx_anchor c)((sid, td_symbol t) := Some (opened, off))\<rparr> else c
            | _ \<Rightarrow> c)"
  note run = assms[unfolded deferral_trade_visit_def Let_def c1_def[symmetric]]
  have q: "ob_quantity b \<noteq> 0" using run by (auto split: if_splits)
  obtain g where g: "guard_check (sid, td_symbol t) b (dx_pending c1) = (False, g)" using run q by (auto split: prod.splits bool.splits)
  obtain deadline reason where dl: "episode_deadline cal (c1\<lparr>dx_pending := g\<rparr>) pol (sid, td_symbol t) (ob_opened b) = Some (deadline, reason)"
    using run q g by (auto split: option.splits)
  define seed where "seed = ev_correlation t @ '':'' @ show_int (ev_timestamp t) @ '':'' @ td_symbol t @ '':'' @ sid @ '':'' @ reason"
  have "d = exit_requirement derive seed (ev_timestamp t) (ev_correlation t) (dx_seq (c1\<lparr>dx_pending := g\<rparr>)) (td_symbol t) (ob_quantity b) sid reason"
    using run unfolding if_not_P[OF q] g dl prod.case bool.case option.case seed_def[symmetric] by (simp split: if_splits)
  then show ?thesis using q deadline_reason[OF dl] by blast
qed

lemma composer_visit_requirement:
  assumes "composer_safety_visit derive e pol b c = (Some d, c')"
  shows "ob_quantity b \<noteq> 0 \<and> (\<exists>seed ts cid n. d = exit_requirement derive seed ts cid n (sc_symbol e) (ob_quantity b) (sc_strategy e) ''SAFETY_FAIL_CLOSED'')"
  using assms by (auto simp: composer_safety_visit_def emit_flatten_order_def guard_check_def Let_def split: if_splits)

inductive author_asks :: "'w exit_port \<Rightarrow> (string \<Rightarrow> string) \<Rightarrow> calendar \<Rightarrow> 'w \<Rightarrow> 'w \<Rightarrow> int \<Rightarrow> de_risk_requirement \<Rightarrow> bool"
  for port derive cal where
  \<comment> \<open>an author reads a book from the port, which may leave the world changed, and answers with a requirement\<close>
  Stop: "stop_visit derive cal bounds pol qu (xp_net port w (nq_symbol qu)) c = (Some d, c')
    \<Longrightarrow> author_asks port derive cal w w (ob_quantity (xp_net port w (nq_symbol qu))) d"
| Hazard: "hazard_visits derive e c = (Some d, c') \<Longrightarrow> hazard_subject e = Some s \<Longrightarrow> hazard_book e = xp_net port w s
    \<Longrightarrow> author_asks port derive cal w w (ob_quantity (xp_net port w s)) d"
| Deferral: "xp_slice port sid (td_symbol t) w = (b, w') \<Longrightarrow> deferral_trade_visit derive cal t sid pol b c = (Some d, c')
    \<Longrightarrow> author_asks port derive cal w w' (ob_quantity b) d"
| Composer: "xp_slice port (sc_strategy e) (sc_symbol e) w = (b, w') \<Longrightarrow> composer_safety_visit derive e pol b c = (Some d, c')
    \<Longrightarrow> author_asks port derive cal w w' (ob_quantity b) d"
| Revoke: "xp_slice port sid s w = (b, w') \<Longrightarrow> ob_quantity b \<noteq> 0 \<Longrightarrow> revoke_visit derive sid now cid s b c = (Some d, c')
    \<Longrightarrow> author_asks port derive cal w w' (ob_quantity b) d"

lemma asked_full_close:
  assumes "author_asks (kernel_port cfg rt chk S0) derive cal k k' q d" "k_slices k = Some S"
  shows "full_close k' q d"
  using assms
proof (cases rule: author_asks.cases)
  case (Stop bounds pol qu c c')
  then show ?thesis using stop_visit_requirement[OF Stop(3)]
    by (auto simp: port_net risk_forced_reasons_def intro!: net_full_close)
next
  case (Hazard e c c' s)
  then show ?thesis using hazard_visit_requirement[OF Hazard(3)]
    by (auto simp: port_net risk_forced_reasons_def intro!: net_full_close)
next
  case (Deferral sid t b pol c c')
  obtain S' where S': "k_slices k' = Some S'" "slice_q S' (td_symbol t) sid = ob_quantity b" using port_slice[OF Deferral(2) assms(2)] by blast
  obtain seed ts cid n reason where d: "ob_quantity b \<noteq> 0" "reason \<in> {''MAX_HOLD_AFTER_SAFE_OFF'', ''HARD_EXIT_AGE'', ''SESSION_FLATTEN''}"
    "d = exit_requirement derive seed ts cid n (td_symbol t) (ob_quantity b) sid reason" using deferral_visit_requirement[OF Deferral(3)] by blast
  have "reason \<in> slice_scoped_reasons" using d(2) by (auto simp: slice_scoped_reasons_def)
  then show ?thesis unfolding Deferral(1) d(3) by (rule slice_full_close[OF S'(1) S'(2)[symmetric] d(1)])
next
  case (Composer e b pol c c')
  obtain S' where S': "k_slices k' = Some S'" "slice_q S' (sc_symbol e) (sc_strategy e) = ob_quantity b" using port_slice[OF Composer(2) assms(2)] by blast
  obtain seed ts cid n where d: "ob_quantity b \<noteq> 0"
    "d = exit_requirement derive seed ts cid n (sc_symbol e) (ob_quantity b) (sc_strategy e) ''SAFETY_FAIL_CLOSED''"
    using composer_visit_requirement[OF Composer(3)] by blast
  show ?thesis unfolding Composer(1) d(2) by (rule slice_full_close[OF S'(1) S'(2)[symmetric] d(1)]) (simp add: slice_scoped_reasons_def)
next
  case (Revoke sid s b now cid c c')
  obtain S' where S': "k_slices k' = Some S'" "slice_q S' s sid = ob_quantity b" using port_slice[OF Revoke(2) assms(2)] by blast
  obtain seed n where d: "d = exit_requirement derive seed now cid n s (ob_quantity b) sid ''DECOUPLING_REVOKED''"
    using Revoke(4) by (auto simp: revoke_visit_def emit_flatten_order_def guard_check_def split: if_splits)
  show ?thesis unfolding Revoke(1) d by (rule slice_full_close[OF S'(1) S'(2)[symmetric] Revoke(3)]) (simp add: slice_scoped_reasons_def)
qed

subsection \<open>The properties\<close>

text \<open>C27: No author of risk exits closes the same book twice. Whatever happens to the books between the
  visits of a controller, as long as it finds a position with the same episode and quantity, it publishes at most one
  requirement for it: the stop controller and the hazard controller per symbol, the deferral
  cap and the composer per strategy and symbol, across all their triggers.\<close>

theorem no_duplicate_close:
  "closes_once (stop_visits derive cal bounds pol) (\<lambda>e. Some (nq_symbol (fst e))) snd
    \<and> closes_once (hazard_visits derive) hazard_subject hazard_book
    \<and> closes_once (deferral_visits derive cal) deferral_subject deferral_book
    \<and> closes_once (composer_visits derive) composer_subject composer_book"
  by (intro conjI stop_author.once hazard_author.once deferral_author.once composer_author.once)

text \<open>C28: A requirement that an author of risk exits publishes against the kernel's own books is, to
  the kernel, a forced exit that closes exactly the position the author read: the clamp leaves its whole quantity,
  so the handler neither shrinks it nor blocks it as non-reducing. For the deferral cap and the
  composer this is the strategy's slice, whatever the net position is.\<close>

theorem exits_accepted_in_full:
  assumes "author_asks (kernel_port cfg rt chk S0) derive cal k k' q d" and "k_slices k = Some S"
  shows "full_close k' q d"
  by (rule asked_full_close[OF assms])

text \<open>C29: A deferred exit is bounded. While a slice stays in one episode with one quantity, whatever safety
  events arrive (a gate that flickers included) and whatever happens to other slices, the cap publishes
  exactly one requirement, at the first trade at or after the deadline, for the whole quantity; and the
  deadline is at most the hold after the first loss of safety, at most the age limit, and at most
  the session close less the buffer.\<close>

theorem deferred_exit_bounded:
  assumes "list_all (same_episode key pol o' q) es" "q \<noteq> 0" "dx_anchor c key = Some (o', t0)" "dx_pending c key \<noteq> Some (Some o', q)"
    and "episode_deadline cal c pol key (Some o') = Some (deadline, reason)"
  shows "map (\<lambda>r. (ev_timestamp r, dr_quantity r, dr_reason r)) (about deferral_subject key (exits (deferral_visits derive cal) es c))
      = map (\<lambda>now. (now, \<bar>q\<bar>, reason)) (take 1 (filter (\<lambda>now. deadline \<le> now) (trade_times key es)))
    \<and> deadline \<le> min (t0 + dp_max_hold pol * 1000000000) (o' + dp_hard_age pol * 1000000000)
    \<and> (if dx_flatten c then deadline \<le> rth_close_ns cal t0 - dx_buffer c else True)"
  using deferral_exact[OF assms] assms(3,5) by (auto simp: episode_deadline_def earlier_def Let_def split: if_splits)

text \<open>The age limit of the hazard controller fires at most once per strategy and symbol for the
  whole session: the mark that suppresses it is cleared only by a visit that finds the symbol flat, and
  the trade handler never makes that visit, because a flat symbol has no episode. A position reopened
  after an aged exit is therefore never closed for its age.\<close>

theorem age_limit_fires_once:
  assumes "list_all (\<lambda>e. timed_book (hazard_book e)) es"
  shows "length (filter (aged_exit sid s) (map snd (exits (hazard_visits derive) es c))) \<le> 1"
  by (rule aged_at_most_once[OF assms])

text \<open>C30: The stop controller equals its reference. Over the quotes of one episode it publishes exactly one
  requirement, at the first quote at which the loss test, the trailing test against the best gain of all
  the episode's quotes so far, or the session flatten holds.\<close>

theorem stop_follows_best_gain:
  assumes "list_all (\<lambda>q. nq_symbol q = s) qs" "ob_quantity b \<noteq> 0" "stop_enabled pol" "0 < fl_round (ob_avg b)"
    and "map_option fst (sx_peak c s) \<noteq> Some (ob_opened b)" "sx_pending c s \<noteq> Some (mark_of b)"
  shows "map (\<lambda>r. (ev_timestamp r, dr_quantity r))
      (about (\<lambda>e. Some (nq_symbol (fst e))) s (exits (stop_visits derive cal bounds pol) (map (\<lambda>q. (q, b)) qs) c))
    = map (\<lambda>q. (ev_timestamp q, \<bar>ob_quantity b\<bar>)) (take 1 (due_quotes cal bounds pol b {} qs))"
  using assms by (intro stop_exact) simp_all

subsection \<open>Concrete histories\<close>

definition sample_print :: "ns \<Rightarrow> trade" where
  "sample_print t = \<lparr>ev_timestamp = t, ev_correlation = ''c'', ev_sequence = 1, ev_source_layer = ''INGESTION'', ev_schema_version = 1,
     td_symbol = ''X'', td_price = 100, td_size = 10, td_exchange = 1, td_trade_id = ''t'', td_exchange_timestamp = t, td_conditions = [],
     td_decimal_size = None, td_sequence_number = 1, td_tape = 0, td_trf_id = None, td_trf_timestamp = None,
     td_participant_timestamp = None, td_correction = None, td_received = None\<rparr>"

definition sample_spike :: regime_hazard_spike where
  "sample_spike = \<lparr>ev_timestamp = 5, ev_correlation = ''c'', ev_sequence = 1, ev_source_layer = ''SERVICES'', ev_schema_version = 1,
     hz_symbol = ''X'', hz_engine = ''hmm'', hz_departing_state = ''calm'', hz_posterior_prev = 1, hz_posterior_now = 0,
     hz_incoming_state = None, hz_score = 1\<rparr>"

definition sample_hazard_policy :: hazard_policy where
  "sample_hazard_policy = \<lparr>hp_threshold = 1/2, hp_min_age = 0, hp_hard_age = Some 60, hp_universe = [], hp_regimes = []\<rparr>"

definition fixed_calendar :: calendar where
  "fixed_calendar = \<lparr>ny_date = (\<lambda>_. 0), ny_clock = (\<lambda>_ _. 0)\<rparr>"

lemma exits_accepted_witness:
  "\<exists>(k :: unit kernel) k' d. author_asks (kernel_port sample_config idle_router (\<lambda>_ _. (ALLOW, '''')) ss_new) (\<lambda>_. ''id'') fixed_calendar k k' 10 d
    \<and> full_close k' 10 d"
proof -
  obtain k0 :: "unit kernel" where k0: "k_positions k0 = ps_new\<lparr>ps_positions := [(''X'', long_ten)]\<rparr>" by (rule sample_session)
  define k where "k = k0\<lparr>k_slices := Some ss_new\<rparr>"
  let ?port = "kernel_port sample_config idle_router (\<lambda>_ _. (ALLOW, '''')) ss_new"
  have k: "k_positions k = ps_new\<lparr>ps_positions := [(''X'', long_ten)]\<rparr>" "k_slices k = Some ss_new" by (simp_all add: k_def k0)
  have b: "ob_quantity (xp_net ?port k ''X'') = 10" "ob_opened (xp_net ?port k ''X'') = None"
    by (simp_all add: kernel_port_def k ps_get_def long_ten_def ps_opened_at_ns_def ps_new_def Let_def)
  define c where "c = new_hazard_controller []"
  obtain d c' where "hazard_visits (\<lambda>_. ''id'') (Spike_Visit sample_spike ''s'' sample_hazard_policy (xp_net ?port k ''X'')) c = (Some d, c')"
    using b by (auto simp: c_def new_hazard_controller_def hazard_spike_visit_def sample_spike_def sample_hazard_policy_def in_universe_def spike_matches_regimes_def
        hazard_maybe_emit_def clear_hazard_episode_def guard_check_def Let_def)
  from author_asks.Hazard[OF this, of "''X''" ?port k fixed_calendar] b(1)
  have "author_asks ?port (\<lambda>_. ''id'') fixed_calendar k k 10 d" by (simp add: sample_spike_def)
  moreover from exits_accepted_in_full[OF this k(2)] have "full_close k 10 d" .
  ultimately show ?thesis by blast
qed

lemma deferred_exit_witness:
  "let key = (''s'', ''X''); b = \<lparr>ob_quantity = 5, ob_avg = 100, ob_opened = Some 0\<rparr>;
       pol = \<lparr>dp_max_hold = 60, dp_hard_age = 600, dp_universe = []\<rparr>;
       c = (new_deferral_controller [] False 0)\<lparr>dx_anchor := [key \<mapsto> (0, 5000000000)]\<rparr>;
       es = map (\<lambda>t. Cap_Visit (sample_print t) ''s'' pol b) [10000000000, 70000000000, 80000000000]
   in map (\<lambda>r. (ev_timestamp r, dr_quantity r, dr_reason r)) (about deferral_subject key (exits (deferral_visits (\<lambda>_. ''id'') fixed_calendar) es c))
     = [(70000000000, 5, ''MAX_HOLD_AFTER_SAFE_OFF'')]"
proof -
  define key where "key = (''s'', ''X'')"
  define b where "b = \<lparr>ob_quantity = 5, ob_avg = 100, ob_opened = Some 0\<rparr>"
  define pol where "pol = \<lparr>dp_max_hold = 60, dp_hard_age = 600, dp_universe = []\<rparr>"
  define c where "c = (new_deferral_controller [] False 0)\<lparr>dx_anchor := [key \<mapsto> (0, 5000000000)]\<rparr>"
  define es where "es = map (\<lambda>t. Cap_Visit (sample_print t) ''s'' pol b) [10000000000, 70000000000, 80000000000]"
  have "list_all (same_episode key pol 0 5) es" by (simp add: es_def same_episode_def key_def b_def sample_print_def)
  moreover have "episode_deadline fixed_calendar c pol key (Some 0) = Some (65000000000, ''MAX_HOLD_AFTER_SAFE_OFF'')"
    by (simp add: episode_deadline_def c_def new_deferral_controller_def pol_def earlier_def Let_def)
  moreover have "dx_anchor c key = Some (0, 5000000000)" "dx_pending c key \<noteq> Some (Some 0, 5)" by (simp_all add: c_def new_deferral_controller_def)
  moreover have "trade_times key es = [10000000000, 70000000000, 80000000000]" by (simp add: trade_times_def es_def key_def sample_print_def)
  ultimately have "map (\<lambda>r. (ev_timestamp r, dr_quantity r, dr_reason r)) (about deferral_subject key (exits (deferral_visits (\<lambda>_. ''id'') fixed_calendar) es c))
     = [(70000000000, 5, ''MAX_HOLD_AFTER_SAFE_OFF'')]"
    using deferred_exit_bounded[of key pol 0 5 es c 5000000000 fixed_calendar 65000000000 "''MAX_HOLD_AFTER_SAFE_OFF''" "\<lambda>_. ''id''"] by simp
  then show ?thesis unfolding Let_def key_def[symmetric] b_def[symmetric] pol_def[symmetric] c_def[symmetric] es_def[symmetric] .
qed

lemma age_limit_witness:
  \<comment> \<open>two episodes, each past its age limit: one exit\<close>
  "let b1 = \<lparr>ob_quantity = 5, ob_avg = 100, ob_opened = Some 0\<rparr>; flat = \<lparr>ob_quantity = 0, ob_avg = 0, ob_opened = None\<rparr>;
       b2 = \<lparr>ob_quantity = 7, ob_avg = 100, ob_opened = Some 100000000000\<rparr>;
       es = map (\<lambda>(t, b). Age_Visit (sample_print t) ''s'' sample_hazard_policy b)
              [(70000000000, b1), (80000000000, flat), (170000000000, b2), (180000000000, b2)]
   in length (filter (aged_exit ''s'' ''X'') (map snd (exits (hazard_visits (\<lambda>_. ''id'')) es (new_hazard_controller [])))) = 1"
proof -
  define b1 where "b1 = \<lparr>ob_quantity = 5, ob_avg = 100, ob_opened = Some 0\<rparr>"
  define flat where "flat = \<lparr>ob_quantity = 0, ob_avg = 0, ob_opened = None\<rparr>"
  define b2 where "b2 = \<lparr>ob_quantity = 7, ob_avg = 100, ob_opened = Some 100000000000\<rparr>"
  define es where "es = map (\<lambda>(t, b). Age_Visit (sample_print t) ''s'' sample_hazard_policy b)
      [(70000000000, b1), (80000000000, flat), (170000000000, b2), (180000000000, b2)]"
  have "list_all (\<lambda>e. timed_book (hazard_book e)) es" by (simp add: es_def timed_book_def b1_def b2_def flat_def)
  from age_limit_fires_once[OF this, of "''s''" "''X''" "\<lambda>_. ''id''" "new_hazard_controller []"]
  have "length (filter (aged_exit ''s'' ''X'') (map snd (exits (hazard_visits (\<lambda>_. ''id'')) es (new_hazard_controller [])))) \<le> 1" .
  moreover obtain d c' where "hazard_visits (\<lambda>_. ''id'') (Age_Visit (sample_print 70000000000) ''s'' sample_hazard_policy b1) (new_hazard_controller []) = (Some d, c')"
      "aged_exit ''s'' ''X'' d"
    by (simp add: hazard_trade_visit_def sample_hazard_policy_def in_universe_def b1_def sample_print_def hazard_maybe_emit_def clear_hazard_episode_def
        guard_check_def new_hazard_controller_def aged_exit_def exit_requirement_def Let_def)
  ultimately have "length (filter (aged_exit ''s'' ''X'') (map snd (exits (hazard_visits (\<lambda>_. ''id'')) es (new_hazard_controller [])))) = 1"
    by (simp add: es_def)
  then show ?thesis unfolding Let_def b1_def[symmetric] b2_def[symmetric] flat_def[symmetric] es_def[symmetric] .
qed

definition falling_quote :: "ns \<Rightarrow> int \<Rightarrow> nbbo_quote" where
  "falling_quote t p = \<lparr>ev_timestamp = t, ev_correlation = ''c'', ev_sequence = 1, ev_source_layer = ''INGESTION'',
     ev_schema_version = 1, nq_symbol = ''X'', nq_bid = of_int (p - 1), nq_ask = of_int (p + 1), nq_bid_size = 400, nq_ask_size = 300,
     nq_bid_exchange = 0, nq_ask_exchange = 0, nq_exchange_timestamp = t, nq_conditions = [], nq_indicators = [],
     nq_sequence_number = 1, nq_tape = 0, nq_participant_timestamp = None, nq_trf_timestamp = None, nq_received = None\<rparr>"

lemma stop_follows_witness:
  "let b = \<lparr>ob_quantity = 10, ob_avg = 100, ob_opened = Some 0\<rparr>; pol = default_stop_policy\<lparr>sp_loss_share := 5\<rparr> in
   map (\<lambda>r. (ev_timestamp r, dr_quantity r))
      (about (\<lambda>e. Some (nq_symbol (fst e))) ''X'' (exits (stop_visits (\<lambda>_. ''id'') fixed_calendar None pol)
         (map (\<lambda>q. (q, b)) [falling_quote 1 98, falling_quote 2 90, falling_quote 3 89]) new_stop_controller))
    = [(2, 10)]"
proof -
  define b where "b = \<lparr>ob_quantity = 10, ob_avg = 100, ob_opened = Some 0\<rparr>"
  define pol where "pol = default_stop_policy\<lparr>sp_loss_share := 5\<rparr>"
  have exact: "fl_round (of_int m) = of_int m" if "\<bar>m\<bar> < 2 ^ 53" for m using fl_of_int_exact[OF that] .
  have e: "fl_round 100 = 100" using exact[of 100] by simp
  have u: "unrealized_per_share (falling_quote t p) b = of_int (p - 100)" if "p \<in> {89, 90, 98}" for t p
  proof -
    have dec: "dec_round (of_int m) = of_int m" if "\<bar>m\<bar> < 10 ^ 28" for m
      by (rule dec_round_exact[of 0], rule dec_exact_intI[of _ _ m]) (use that in simp_all)
    have "(of_int (p - 1) + of_int (p + 1) :: rat) = of_int (2 * p)" "(of_int (2 * p) / 2 :: rat) = of_int p" by simp_all
    moreover have "\<bar>2 * p\<bar> < 10 ^ 28" "\<bar>p\<bar> < 10 ^ 28" using that by auto
    note this[THEN dec]
    ultimately have "dec_div (dec_add (of_int (p - 1)) (of_int (p + 1))) 2 = (of_int p :: rat)" by (simp only: dec_add_def dec_div_def)
    moreover have "\<bar>p\<bar> < 2 ^ 53" "\<bar>p - 100\<bar> < 2 ^ 53" using that by auto
    note this[THEN exact]
    ultimately show ?thesis by (simp add: unrealized_per_share_def falling_quote_def b_def e fl_sub_def fl_mul_def)
  qed
  have nosess: "stop_session_flatten fixed_calendar None pol t = False" for t by (simp add: stop_session_flatten_def)
  have fires: "stop_fires pol (fl_round (ob_avg b)) g u' \<longleftrightarrow> u' < - 5" for g u'
    by (simp add: stop_fires_def pol_def default_stop_policy_def)
  have due: "due_quotes fixed_calendar None pol b {} [falling_quote 1 98, falling_quote 2 90, falling_quote 3 89] = [falling_quote 2 90, falling_quote 3 89]"
    by (simp add: stop_due_def nosess fires u Let_def)
  have "map (\<lambda>r. (ev_timestamp r, dr_quantity r))
      (about (\<lambda>e. Some (nq_symbol (fst e))) ''X'' (exits (stop_visits (\<lambda>_. ''id'') fixed_calendar None pol)
         (map (\<lambda>q. (q, b)) [falling_quote 1 98, falling_quote 2 90, falling_quote 3 89]) new_stop_controller)) = [(2, 10)]"
    (is "map ?f (about ?subject _ (exits _ (map _ ?qs) _)) = _")
  proof -
    have "list_all (\<lambda>q. nq_symbol q = ''X'') ?qs" by (simp add: falling_quote_def)
    moreover have "ob_quantity b \<noteq> 0" "0 < fl_round (ob_avg b)" by (simp_all add: b_def e)
    moreover have "stop_enabled pol" by (simp add: pol_def default_stop_policy_def stop_enabled_def)
    moreover have "map_option fst (sx_peak new_stop_controller ''X'') \<noteq> Some (ob_opened b)" "sx_pending new_stop_controller ''X'' \<noteq> Some (mark_of b)"
      by (simp_all add: new_stop_controller_def)
    ultimately have "map ?f (about ?subject ''X'' (exits (stop_visits (\<lambda>_. ''id'') fixed_calendar None pol) (map (\<lambda>q. (q, b)) ?qs) new_stop_controller))
      = map (\<lambda>q. (ev_timestamp q, \<bar>ob_quantity b\<bar>)) (take 1 (due_quotes fixed_calendar None pol b {} ?qs))"
      by (intro stop_follows_best_gain)
    then show ?thesis unfolding due by (simp add: falling_quote_def b_def)
  qed
  then show ?thesis unfolding Let_def b_def[symmetric] pol_def[symmetric] .
qed

end
