(* ===== verification/Horizons.thy ===== *)
theory Horizons
  imports Event_Store
begin

section \<open>Horizon ticks and the barrier over the universe (sensors/horizon\_scheduler.py,
  composition/synchronizer.py)\<close>

text \<open>
  The scheduler turns event time into ticks: for every horizon, symbol and the universe as a whole, one
  tick when a new window of the session is entered. The synchronizer collects signals and
  feature snapshots and, at the first universe tick of a boundary, publishes one context over the
  whole universe. Metrics and log lines are left out; the universe is the sorted set of
  symbols it was given.
\<close>

subsection \<open>The grid\<close>

definition horizon_grid :: "int list \<Rightarrow> int list result" where
  \<comment> \<open>\<open>HorizonGrid\<close>, as its sorted members\<close>
  "horizon_grid hs = (if list_ex (\<lambda>h. h \<le> 0) hs then Inl (ValueError ''HorizonGrid horizons must be positive'') else Inr (sort (remdups hs)))"

definition publish_horizon_grid :: "int list \<Rightarrow> int list option \<Rightarrow> int list result" where
  "publish_horizon_grid hs peer = bind_result (horizon_grid hs) (\<lambda>grid.
     case peer of None \<Rightarrow> Inr grid
     | Some ps \<Rightarrow> if set ps \<subseteq> set grid then Inr grid else Inl (KernelFault ''HORIZON_GRID''))"

subsection \<open>The scheduler\<close>

record scheduler =
  sch_grid :: "int list"
  sch_session :: string
  sch_symbols :: "symbol list"
  sch_open :: "ns option"
  sch_locked :: bool
  sch_open_init :: "ns option"
  sch_locked_init :: bool
  sch_seq :: int
  sch_last_symbol :: "int \<times> symbol \<Rightarrow> int option"
  sch_last_universe :: "int \<Rightarrow> int option"

definition new_scheduler :: "int list \<Rightarrow> string \<Rightarrow> symbol list \<Rightarrow> ns option \<Rightarrow> scheduler" where
  "new_scheduler grid session symbols opened =
     \<lparr>sch_grid = grid, sch_session = session, sch_symbols = sort (remdups symbols), sch_open = opened, sch_locked = (opened \<noteq> None),
      sch_open_init = opened, sch_locked_init = (opened \<noteq> None), sch_seq = 0, sch_last_symbol = (\<lambda>_. None), sch_last_universe = (\<lambda>_. None)\<rparr>"

definition sch_reset :: "scheduler \<Rightarrow> scheduler" where
  "sch_reset s = s\<lparr>sch_open := sch_open_init s, sch_locked := sch_locked_init s, sch_last_symbol := (\<lambda>_. None),
     sch_last_universe := (\<lambda>_. None), sch_seq := 0\<rparr>"

definition bind_session_open :: "ns \<Rightarrow> scheduler \<Rightarrow> scheduler result" where
  "bind_session_open ts s =
     (if sch_locked s then Inl (RuntimeError ''session_open_ns already bound'') else Inr (s\<lparr>sch_open := Some ts, sch_locked := True\<rparr>))"

definition ns_per_second :: int where
  "ns_per_second = 1000000000"

definition make_tick :: "int \<Rightarrow> int \<Rightarrow> ns \<Rightarrow> symbol option \<Rightarrow> scheduler \<Rightarrow> horizon_tick \<times> scheduler" where
  \<comment> \<open>the scope is the universe when no symbol is given\<close>
  "make_tick h index ts sy s =
     (let boundary = (case sch_open s of None \<Rightarrow> 0 | Some t \<Rightarrow> t) + index * h * ns_per_second;
          scope = (if sy = None then ''UNIVERSE'' else ''SYMBOL'');
          pre = ''htick-'' @ show_int h @ ''-'' @ scope;
          full = (case sy of None \<Rightarrow> pre | Some x \<Rightarrow> pre @ ''-'' @ x)
      in (\<lparr>ev_timestamp = ts, ev_correlation = make_correlation_id full boundary index, ev_sequence = sch_seq s,
           ev_source_layer = ''SCHEDULER'', ev_schema_version = schema_version, ht_horizon_seconds = h, ht_boundary_index = index,
           ht_session_id = sch_session s, ht_scope = scope, ht_boundary_timestamp = boundary, ht_symbol = sy, ht_boundary_ts = boundary\<rparr>,
          s\<lparr>sch_seq := sch_seq s + 1\<rparr>))"

definition crossed :: "int option \<Rightarrow> int \<Rightarrow> bool" where
  "crossed prev current \<longleftrightarrow> (case prev of None \<Rightarrow> True | Some l \<Rightarrow> l < current)"

fun emit_for_symbols :: "int \<Rightarrow> int \<Rightarrow> ns \<Rightarrow> symbol list \<Rightarrow> scheduler \<Rightarrow> horizon_tick list \<times> scheduler" where
  "emit_for_symbols h current ts [] s = ([], s)"
| "emit_for_symbols h current ts (x # xs) s =
     (if crossed (sch_last_symbol s (h, x)) current
      then case make_tick h current ts (Some x) (s\<lparr>sch_last_symbol := (sch_last_symbol s)((h, x) := Some current)\<rparr>) of
             (t, s1) \<Rightarrow> (case emit_for_symbols h current ts xs s1 of (tl', s2) \<Rightarrow> (t # tl', s2))
      else emit_for_symbols h current ts xs s)"

definition emit_for_universe :: "int \<Rightarrow> int \<Rightarrow> ns \<Rightarrow> scheduler \<Rightarrow> horizon_tick list \<times> scheduler" where
  "emit_for_universe h current ts s =
     (if crossed (sch_last_universe s h) current
      then case make_tick h current ts None (s\<lparr>sch_last_universe := (sch_last_universe s)(h := Some current)\<rparr>) of (t, s1) \<Rightarrow> ([t], s1)
      else ([], s))"

fun emit_for_horizons :: "ns \<Rightarrow> ns \<Rightarrow> int list \<Rightarrow> scheduler \<Rightarrow> horizon_tick list \<times> scheduler" where
  "emit_for_horizons opened ts [] s = ([], s)"
| "emit_for_horizons opened ts (h # hs) s =
     (if ts - opened < 0 then emit_for_horizons opened ts hs s
      else let current = (ts - opened) div (h * ns_per_second) in
        case emit_for_symbols h current ts (sch_symbols s) s of
          (a, s1) \<Rightarrow> (case emit_for_universe h current ts s1 of
            (b, s2) \<Rightarrow> (case emit_for_horizons opened ts hs s2 of (c, s3) \<Rightarrow> (a @ b @ c, s3))))"

definition bind_anchor :: "(ns \<Rightarrow> ns) option \<Rightarrow> ns \<Rightarrow> scheduler \<Rightarrow> scheduler" where
  \<comment> \<open>the lazy binding of the session open\<close>
  "bind_anchor anchor ts s =
     (if sch_locked s then s
      else s\<lparr>sch_open := Some (case anchor of None \<Rightarrow> ts | Some f \<Rightarrow> f ts), sch_locked := True\<rparr>)"

definition scheduler_on_event :: "(ns \<Rightarrow> ns) option \<Rightarrow> ns \<Rightarrow> scheduler \<Rightarrow> horizon_tick list \<times> scheduler" where
  "scheduler_on_event anchor ts s =
     (if sch_grid s = [] then ([], s)
      else let s1 = bind_anchor anchor ts s in
        case sch_open s1 of None \<Rightarrow> ([], s1) | Some opened \<Rightarrow> emit_for_horizons opened ts (sch_grid s1) s1)"

fun scheduler_run :: "(ns \<Rightarrow> ns) option \<Rightarrow> ns list \<Rightarrow> scheduler \<Rightarrow> horizon_tick list \<times> scheduler" where
  "scheduler_run anchor [] s = ([], s)"
| "scheduler_run anchor (ts # tss) s =
     (case scheduler_on_event anchor ts s of
        (a, s1) \<Rightarrow> (case scheduler_run anchor tss s1 of (b, s2) \<Rightarrow> (a @ b, s2)))"

subsection \<open>One tick per window\<close>

definition last_boundary :: "scheduler \<Rightarrow> int \<Rightarrow> symbol option \<Rightarrow> int option" where
  "last_boundary s h sy = (case sy of None \<Rightarrow> sch_last_universe s h | Some x \<Rightarrow> sch_last_symbol s (h, x))"

definition ticks_of :: "int \<Rightarrow> symbol option \<Rightarrow> horizon_tick list \<Rightarrow> horizon_tick list" where
  "ticks_of h sy ts = filter (\<lambda>t. ht_horizon_seconds t = h \<and> ht_symbol t = sy) ts"

definition window :: "ns \<Rightarrow> ns \<Rightarrow> int \<Rightarrow> int" where
  "window opened ts h = (ts - opened) div (h * ns_per_second)"

definition on_grid :: "ns \<Rightarrow> horizon_tick \<Rightarrow> bool" where
  \<comment> \<open>the tick names the window its trigger falls in, and that window's start; it has the
    universe scope exactly when it names no symbol\<close>
  "on_grid opened t \<longleftrightarrow> ht_boundary_index t = window opened (ev_timestamp t) (ht_horizon_seconds t)
     \<and> ht_boundary_ts t = opened + ht_boundary_index t * (ht_horizon_seconds t * ns_per_second) \<and> ht_boundary_timestamp t = ht_boundary_ts t
     \<and> (ht_scope t = ''UNIVERSE'' \<longleftrightarrow> ht_symbol t = None)"

definition same_config :: "scheduler \<Rightarrow> scheduler \<Rightarrow> bool" where
  "same_config s s' \<longleftrightarrow> sch_open s' = sch_open s \<and> sch_grid s' = sch_grid s \<and> sch_symbols s' = sch_symbols s \<and> sch_locked s' = sch_locked s"

definition fires :: "ns \<Rightarrow> ns \<Rightarrow> (int \<times> symbol option) set \<Rightarrow> scheduler \<Rightarrow> int \<Rightarrow> symbol option \<Rightarrow> bool" where
  "fires opened ts K s h sy \<longleftrightarrow> (h, sy) \<in> K \<and> crossed (last_boundary s h sy) (window opened ts h)"

definition emits_on :: "ns \<Rightarrow> ns \<Rightarrow> (int \<times> symbol option) set \<Rightarrow> horizon_tick list \<Rightarrow> scheduler \<Rightarrow> scheduler \<Rightarrow> bool" where
  \<comment> \<open>one event's ticks for a set of keys\<close>
  "emits_on opened ts K as s s' \<longleftrightarrow> same_config s s' \<and> list_all (on_grid opened) as
     \<and> (\<forall>h sy. last_boundary s' h sy = (if fires opened ts K s h sy then Some (window opened ts h) else last_boundary s h sy)
          \<and> map ht_boundary_index (ticks_of h sy as) = (if fires opened ts K s h sy then [window opened ts h] else []))"

lemma ticks_of_simps [simp]:
  "ticks_of h sy [] = []" "ticks_of h sy (as @ bs) = ticks_of h sy as @ ticks_of h sy bs"
  by (simp_all add: ticks_of_def)

lemma emits_on_none: "emits_on opened ts {} [] s s"
  by (simp add: emits_on_def fires_def same_config_def)

lemma emits_on_quiet: "emits_on opened ts K as s s' \<Longrightarrow> \<not> fires opened ts {k} s (fst k) (snd k) \<Longrightarrow> emits_on opened ts (insert k K) as s s'"
  by (auto simp: emits_on_def fires_def)

lemma emits_on_trans:
  assumes "emits_on opened ts K as s s1" "emits_on opened ts L bs s1 s2" "K \<inter> L = {}"
  shows "emits_on opened ts (K \<union> L) (as @ bs) s s2"
proof -
  have k: "fires opened ts (K \<union> L) s h sy \<longleftrightarrow> fires opened ts K s h sy \<or> fires opened ts L s1 h sy" for h sy
    using assms by (auto simp: emits_on_def fires_def)
  have kl: "fires opened ts K s h sy \<Longrightarrow> \<not> fires opened ts L s1 h sy" for h sy
    using assms by (auto simp: emits_on_def fires_def)
  show ?thesis using assms(1,2) kl unfolding emits_on_def k same_config_def by auto
qed

lemma make_tick_emits:
  assumes "crossed (last_boundary s h sy) (window opened ts h)" "sch_open s = Some opened"
    "s' = (case sy of None \<Rightarrow> s\<lparr>sch_last_universe := (sch_last_universe s)(h := Some (window opened ts h))\<rparr>
        | Some x \<Rightarrow> s\<lparr>sch_last_symbol := (sch_last_symbol s)((h, x) := Some (window opened ts h))\<rparr>)"
    "make_tick h (window opened ts h) ts sy s' = (t, s1)"
  shows "emits_on opened ts {(h, sy)} [t] s s1"
proof -
  have o: "sch_open s' = Some opened" using assms(2,3) by (simp split: option.splits)
  have t: "ht_horizon_seconds t = h" "ht_symbol t = sy" "ht_boundary_index t = window opened ts h" "ev_timestamp t = ts"
    "ht_boundary_ts t = opened + window opened ts h * (h * ns_per_second)" "ht_boundary_timestamp t = ht_boundary_ts t"
    "ht_scope t = ''UNIVERSE'' \<longleftrightarrow> ht_symbol t = None"
    and s1: "s1 = s'\<lparr>sch_seq := sch_seq s' + 1\<rparr>" using assms(4) o by (auto simp: make_tick_def Let_def split: if_splits)
  have last: "last_boundary s1 h' sy' = (if (h', sy') = (h, sy) then Some (window opened ts h) else last_boundary s h' sy')" for h' sy'
    using assms(3) s1 by (auto simp: last_boundary_def split: option.splits)
  have "same_config s s1" using assms(3) s1 by (simp add: same_config_def split: option.splits)
  then show ?thesis using t assms(1) last by (auto simp: emits_on_def fires_def on_grid_def ticks_of_def)
qed

lemma emit_for_symbols_emits:
  assumes "emit_for_symbols h (window opened ts h) ts xs s = (as, s')" "distinct xs" "sch_open s = Some opened"
  shows "emits_on opened ts ({h} \<times> Some ` set xs) as s s'"
  using assms
proof (induction xs arbitrary: s as)
  case Nil
  then show ?case using emits_on_none by simp
next
  case (Cons x xs)
  have set: "{h} \<times> Some ` set (x # xs) = {(h, Some x)} \<union> {h} \<times> Some ` set xs" by auto
  show ?case
  proof (cases "crossed (sch_last_symbol s (h, x)) (window opened ts h)")
    case True
    let ?s = "s\<lparr>sch_last_symbol := (sch_last_symbol s)((h, x) := Some (window opened ts h))\<rparr>"
    obtain t s1 where t: "make_tick h (window opened ts h) ts (Some x) ?s = (t, s1)" by fastforce
    have one: "emits_on opened ts {(h, Some x)} [t] s s1"
      by (rule make_tick_emits[OF _ Cons.prems(3) _ t]) (use True in \<open>simp_all add: last_boundary_def\<close>)
    obtain bs where bs: "emit_for_symbols h (window opened ts h) ts xs s1 = (bs, s')" "as = [t] @ bs"
      using Cons.prems(1) True t by (auto split: prod.splits)
    have "sch_open s1 = Some opened" using one Cons.prems(3) by (simp add: emits_on_def same_config_def)
    then have "emits_on opened ts ({h} \<times> Some ` set xs) bs s1 s'" using Cons.IH[OF bs(1)] Cons.prems(2) by simp
    from emits_on_trans[OF one this] Cons.prems(2) show ?thesis unfolding set bs(2) by auto
  next
    case False
    then have "emits_on opened ts ({h} \<times> Some ` set xs) as s s'" using Cons.IH[of s as] Cons.prems by simp
    then show ?thesis using False emits_on_quiet[of opened ts "{h} \<times> Some ` set xs" as s s' "(h, Some x)"]
      unfolding set by (simp add: fires_def last_boundary_def)
  qed
qed

lemma emit_for_universe_emits:
  assumes "emit_for_universe h (window opened ts h) ts s = (as, s')" "sch_open s = Some opened"
  shows "emits_on opened ts {(h, None)} as s s'"
proof (cases "crossed (sch_last_universe s h) (window opened ts h)")
  case True
  let ?s = "s\<lparr>sch_last_universe := (sch_last_universe s)(h := Some (window opened ts h))\<rparr>"
  obtain t s1 where t: "make_tick h (window opened ts h) ts None ?s = (t, s1)" by fastforce
  have "emits_on opened ts {(h, None)} [t] s s1"
    by (rule make_tick_emits[OF _ assms(2) _ t]) (use True in \<open>simp_all add: last_boundary_def\<close>)
  then show ?thesis using assms(1) True t by (simp add: emit_for_universe_def)
next
  case False
  then have "as = []" "s' = s" using assms(1) by (simp_all add: emit_for_universe_def)
  then show ?thesis using False emits_on_quiet[OF emits_on_none, of opened ts "(h, None)" s] by (simp add: fires_def last_boundary_def)
qed

definition keys :: "int set \<Rightarrow> symbol list \<Rightarrow> (int \<times> symbol option) set" where
  "keys hs symbols = hs \<times> insert None (Some ` set symbols)"

lemma emit_for_horizons_emits:
  assumes "emit_for_horizons opened ts hs s = (as, s')" "distinct hs" "distinct (sch_symbols s)" "sch_open s = Some opened"
  shows "emits_on opened ts (if opened \<le> ts then keys (set hs) (sch_symbols s) else {}) as s s'"
  using assms
proof (induction hs arbitrary: s as)
  case Nil
  then show ?case using emits_on_none by (simp add: keys_def)
next
  case (Cons h hs)
  show ?case
  proof (cases "opened \<le> ts")
    case False
    then show ?thesis using Cons by simp
  next
    case True
    obtain a s1 where a: "emit_for_symbols h (window opened ts h) ts (sch_symbols s) s = (a, s1)" by fastforce
    obtain b s2 where b: "emit_for_universe h (window opened ts h) ts s1 = (b, s2)" by fastforce
    obtain c where c: "emit_for_horizons opened ts hs s2 = (c, s')" "as = (a @ b) @ c"
      using Cons.prems(1) True a b by (auto simp: window_def Let_def split: prod.splits)
    have ea: "emits_on opened ts ({h} \<times> Some ` set (sch_symbols s)) a s s1" by (rule emit_for_symbols_emits[OF a Cons.prems(3,4)])
    then have o1: "sch_open s1 = Some opened" using Cons.prems(4) by (simp add: emits_on_def same_config_def)
    have eb: "emits_on opened ts {(h, None)} b s1 s2" by (rule emit_for_universe_emits[OF b o1])
    have cfg: "sch_open s2 = Some opened" "sch_symbols s2 = sch_symbols s" using ea eb o1 by (auto simp: emits_on_def same_config_def)
    have ec: "emits_on opened ts (keys (set hs) (sch_symbols s)) c s2 s'"
      using Cons.IH[OF c(1)] Cons.prems(2,3) cfg True by simp
    have "emits_on opened ts ({h} \<times> Some ` set (sch_symbols s) \<union> {(h, None)}) (a @ b) s s2" by (rule emits_on_trans[OF ea eb]) auto
    from emits_on_trans[OF this ec] have "emits_on opened ts ({h} \<times> Some ` set (sch_symbols s) \<union> {(h, None)} \<union> keys (set hs) (sch_symbols s)) as s s'"
      using Cons.prems(2) unfolding c(2) by (auto simp: keys_def)
    moreover have "{h} \<times> Some ` set (sch_symbols s) \<union> {(h, None)} \<union> keys (set hs) (sch_symbols s) = keys (set (h # hs)) (sch_symbols s)"
      by (auto simp: keys_def)
    ultimately show ?thesis using True by simp
  qed
qed

fun records :: "int option \<Rightarrow> int list \<Rightarrow> int list" where
  \<comment> \<open>the strict records of a sequence\<close>
  "records prev [] = []"
| "records prev (i # is) = (if crossed prev i then i # records (Some i) is else records prev is)"

definition ready :: "ns \<Rightarrow> scheduler \<Rightarrow> bool" where
  "ready opened s \<longleftrightarrow> sch_open s = Some opened \<and> sch_locked s \<and> distinct (sch_grid s) \<and> distinct (sch_symbols s)"

lemma scheduler_run_emits:
  assumes "scheduler_run anchor tss s = (as, s')" "ready opened s"
  shows "list_all (on_grid opened) as"
    and "(h, sy) \<in> keys (set (sch_grid s)) (sch_symbols s) \<Longrightarrow>
      map ht_boundary_index (ticks_of h sy as) = records (last_boundary s h sy) (map (\<lambda>ts. window opened ts h) (filter (\<lambda>ts. opened \<le> ts) tss))"
proof -
  have "list_all (on_grid opened) as \<and> ((h, sy) \<in> keys (set (sch_grid s)) (sch_symbols s) \<longrightarrow>
      map ht_boundary_index (ticks_of h sy as) = records (last_boundary s h sy) (map (\<lambda>ts. window opened ts h) (filter (\<lambda>ts. opened \<le> ts) tss)))"
    using assms
  proof (induction tss arbitrary: s as)
    case Nil
    then show ?case by simp
  next
    case (Cons ts tss)
    obtain a s1 where a: "scheduler_on_event anchor ts s = (a, s1)" by fastforce
    obtain b where b: "scheduler_run anchor tss s1 = (b, s')" "as = a @ b" using Cons.prems(1) a by (auto split: prod.splits)
    let ?K = "if opened \<le> ts then keys (set (sch_grid s)) (sch_symbols s) else {}"
    have e: "emits_on opened ts ?K a s s1"
    proof (cases "sch_grid s = []")
      case True
      then show ?thesis using a emits_on_none by (simp add: scheduler_on_event_def keys_def)
    next
      case False
      then have "emit_for_horizons opened ts (sch_grid s) s = (a, s1)"
        using a Cons.prems(2) by (simp add: scheduler_on_event_def bind_anchor_def ready_def)
      then show ?thesis using emit_for_horizons_emits Cons.prems(2) by (auto simp: ready_def)
    qed
    then have cfg: "ready opened s1" "sch_grid s1 = sch_grid s" "sch_symbols s1 = sch_symbols s"
      using Cons.prems(2) by (simp_all add: emits_on_def same_config_def ready_def)
    have step: "last_boundary s1 h sy = (if fires opened ts ?K s h sy then Some (window opened ts h) else last_boundary s h sy)"
      "map ht_boundary_index (ticks_of h sy a) = (if fires opened ts ?K s h sy then [window opened ts h] else [])"
      using e by (simp_all add: emits_on_def)
    have ih: "list_all (on_grid opened) b" "(h, sy) \<in> keys (set (sch_grid s)) (sch_symbols s) \<Longrightarrow>
        map ht_boundary_index (ticks_of h sy b) = records (last_boundary s1 h sy) (map (\<lambda>ts. window opened ts h) (filter (\<lambda>ts. opened \<le> ts) tss))"
      using Cons.IH[OF b(1) cfg(1)] cfg(2,3) by simp_all
    have "list_all (on_grid opened) as" using e ih(1) by (simp add: b(2) emits_on_def)
    moreover have "map ht_boundary_index (ticks_of h sy as)
        = records (last_boundary s h sy) (map (\<lambda>ts. window opened ts h) (filter (\<lambda>ts. opened \<le> ts) (ts # tss)))"
      if k: "(h, sy) \<in> keys (set (sch_grid s)) (sch_symbols s)"
    proof (cases "opened \<le> ts")
      case True
      then show ?thesis using step ih(2)[OF k] k by (cases "crossed (last_boundary s h sy) (window opened ts h)") (simp_all add: b(2) fires_def)
    next
      case False
      then show ?thesis using step ih(2)[OF k] by (simp add: b(2) fires_def)
    qed
    ultimately show ?case by blast
  qed
  then show "list_all (on_grid opened) as" and "(h, sy) \<in> keys (set (sch_grid s)) (sch_symbols s) \<Longrightarrow>
      map ht_boundary_index (ticks_of h sy as) = records (last_boundary s h sy) (map (\<lambda>ts. window opened ts h) (filter (\<lambda>ts. opened \<le> ts) tss))"
    by simp_all
qed

lemma records_sorted: "sorted (p # is) \<Longrightarrow> p # records (Some p) is = remdups_adj (p # is)"
proof (induction "is" arbitrary: p)
  case (Cons i js)
  have i: "i # records (Some i) js = remdups_adj (i # js)" using Cons by simp
  show ?case
  proof (cases "p = i")
    case True
    then show ?thesis using i by (simp add: crossed_def)
  next
    case False
    then have "p < i" using Cons.prems by simp
    then show ?thesis using i False by (simp add: crossed_def)
  qed
qed simp

lemma records_none: "sorted is \<Longrightarrow> records None is = remdups_adj is"
  using records_sorted by (cases "is") (simp_all add: crossed_def)

lemma window_mono: "0 < h \<Longrightarrow> t \<le> t' \<Longrightarrow> window opened t h \<le> window opened t' h"
  unfolding window_def ns_per_second_def by (rule zdiv_mono1) simp_all

lemma windows_sorted:
  assumes "sorted tss" "0 < h"
  shows "sorted (map (\<lambda>ts. window opened ts h) (filter (\<lambda>ts. opened \<le> ts) tss))"
proof -
  have "sorted (filter (\<lambda>ts. opened \<le> ts) tss)" using assms(1) by (simp add: sorted_wrt_filter)
  then show ?thesis unfolding sorted_map by (rule sorted_wrt_mono_rel[rotated]) (simp add: window_mono assms(2))
qed

lemma on_grid_interval:
  assumes "on_grid opened t" "0 < ht_horizon_seconds t"
  shows "ht_boundary_ts t \<le> ev_timestamp t" "ev_timestamp t < ht_boundary_ts t + ht_horizon_seconds t * ns_per_second"
proof -
  define w where "w = ht_horizon_seconds t * ns_per_second"
  have "0 < w" using assms(2) by (simp add: w_def ns_per_second_def)
  moreover have "ht_boundary_ts t = opened + (ev_timestamp t - opened) div w * w" using assms(1) by (simp add: on_grid_def window_def w_def)
  moreover have "(ev_timestamp t - opened) div w * w = ev_timestamp t - opened - (ev_timestamp t - opened) mod w"
    by (simp add: minus_mod_eq_div_mult)
  ultimately show "ht_boundary_ts t \<le> ev_timestamp t" "ev_timestamp t < ht_boundary_ts t + w" by simp_all
qed

definition session_anchor :: "(ns \<Rightarrow> ns) option \<Rightarrow> ns option \<Rightarrow> ns list \<Rightarrow> ns" where
  \<comment> \<open>the session open a run works with\<close>
  "session_anchor anchor opened tss = (case opened of Some t \<Rightarrow> t
     | None \<Rightarrow> (case anchor of None \<Rightarrow> hd tss | Some f \<Rightarrow> f (hd tss)))"

lemma horizon_grid_ok:
  assumes "horizon_grid hs = Inr grid"
  shows "set grid = set hs" "distinct grid" "sorted grid" "h \<in> set hs \<Longrightarrow> 0 < h"
  using assms by (auto simp: horizon_grid_def list_ex_iff split: if_splits)

lemma scheduler_run_bound:
  assumes "grid \<noteq> []" "tss \<noteq> []"
  shows "scheduler_run anchor tss (new_scheduler grid session symbols opened)
    = scheduler_run anchor tss ((new_scheduler grid session symbols opened)\<lparr>sch_open := Some (session_anchor anchor opened tss), sch_locked := True\<rparr>)"
proof (cases tss)
  case (Cons t ts)
  have "bind_anchor anchor t (new_scheduler grid session symbols opened)
    = (new_scheduler grid session symbols opened)\<lparr>sch_open := Some (session_anchor anchor opened tss), sch_locked := True\<rparr>"
    using Cons by (simp add: bind_anchor_def new_scheduler_def session_anchor_def split: option.splits)
  moreover have "bind_anchor anchor t (x\<lparr>sch_open := a, sch_locked := True\<rparr>) = x\<lparr>sch_open := a, sch_locked := True\<rparr>" for x a
    by (simp add: bind_anchor_def)
  ultimately have "scheduler_on_event anchor t (new_scheduler grid session symbols opened)
      = scheduler_on_event anchor t ((new_scheduler grid session symbols opened)\<lparr>sch_open := Some (session_anchor anchor opened tss), sch_locked := True\<rparr>)"
    using assms(1) by (simp add: scheduler_on_event_def Let_def) (simp add: new_scheduler_def)
  then show ?thesis unfolding Cons by simp
qed (use assms in simp)

lemma scheduler_ticks:
  assumes "horizon_grid hs = Inr grid" "sorted tss" "h \<in> set hs" "k \<in> insert None (Some ` set symbols)"
    "scheduler_run anchor tss (new_scheduler grid session symbols opened) = (as, s')" "o' = session_anchor anchor opened tss"
  shows "list_all (on_grid o') as"
    "map ht_boundary_index (ticks_of h k as) = remdups_adj (map (\<lambda>ts. window o' ts h) (filter (\<lambda>ts. o' \<le> ts) tss))"
proof -
  have "list_all (on_grid o') as \<and> map ht_boundary_index (ticks_of h k as) = remdups_adj (map (\<lambda>ts. window o' ts h) (filter (\<lambda>ts. o' \<le> ts) tss))"
  proof (cases "tss = []")
    case True
    then show ?thesis using assms(5) by simp
  next
    case False
    define s where "s = (new_scheduler grid session symbols opened)\<lparr>sch_open := Some o', sch_locked := True\<rparr>"
    have "grid \<noteq> []" using assms(1,3) horizon_grid_ok(1) by fastforce
    then have run: "scheduler_run anchor tss s = (as, s')"
      using scheduler_run_bound[OF _ False] assms(5,6) by (simp add: s_def)
    have r: "ready o' s" using horizon_grid_ok(2)[OF assms(1)] by (simp add: ready_def s_def new_scheduler_def)
    have k: "(h, k) \<in> keys (set (sch_grid s)) (sch_symbols s)" "last_boundary s h k = None"
      using assms(3,4) horizon_grid_ok(1)[OF assms(1)] by (auto simp: keys_def s_def new_scheduler_def last_boundary_def split: option.splits)
    have "sorted (map (\<lambda>ts. window o' ts h) (filter (\<lambda>ts. o' \<le> ts) tss))"
      using windows_sorted[OF assms(2)] horizon_grid_ok(4)[OF assms(1,3)] by simp
    then show ?thesis using scheduler_run_emits[OF run r] k records_none by simp
  qed
  then show "list_all (on_grid o') as"
    "map ht_boundary_index (ticks_of h k as) = remdups_adj (map (\<lambda>ts. window o' ts h) (filter (\<lambda>ts. o' \<le> ts) tss))" by simp_all
qed

subsection \<open>The universe synchronizer\<close>

record feature_snapshot = event +
  fs_symbol :: symbol
  fs_horizon_seconds :: int
  fs_boundary_index :: int
  fs_boundary_ts :: ns
  fs_values :: "(string \<times> float64) list"
  fs_warm :: "(string \<times> bool) list"
  fs_stale :: "(string \<times> bool) list"

record cross_context = event +
  xc_horizon_seconds :: int
  xc_boundary_index :: int
  xc_universe :: "symbol list"
  xc_signals :: "(symbol \<times> signal option) list"
  xc_signals_by_strategy :: "(symbol \<times> (strategy \<times> signal option) list) list"
  xc_snapshots :: "(symbol \<times> feature_snapshot option) list"
  xc_completeness :: float64

record synchronizer =
  sy_universe :: "symbol list"
  sy_context_horizons :: "int list"
  sy_signal_horizons :: "int list"
  sy_upstream :: "strategy list"
  sy_max_age_seconds :: "int option"
  sy_seq :: int
  sy_snapshots :: "int \<times> symbol \<Rightarrow> feature_snapshot option"
  sy_signals :: "((int \<times> symbol \<times> strategy) \<times> signal) list"
  sy_emitted :: "(int \<times> int) set"
  sy_attached :: bool

definition new_synchronizer :: "symbol list \<Rightarrow> int list \<Rightarrow> int list option \<Rightarrow> strategy list \<Rightarrow> int option \<Rightarrow> synchronizer result" where
  "new_synchronizer universe horizons signal_horizons upstream max_age =
     (let feeders = (case signal_horizons of None \<Rightarrow> horizons | Some hs \<Rightarrow> hs) in
      if list_ex (\<lambda>h. h \<le> 0) horizons then Inl (ValueError ''horizons must be positive'')
      else if list_ex (\<lambda>h. h \<le> 0) feeders then Inl (ValueError ''signal_horizons must be positive'')
      else if (case max_age of None \<Rightarrow> False | Some a \<Rightarrow> a \<le> 0) then Inl (ValueError ''signal_max_age_seconds must be positive'')
      else Inr \<lparr>sy_universe = sort (remdups universe), sy_context_horizons = horizons, sy_signal_horizons = sort (remdups feeders),
        sy_upstream = sort (remdups upstream), sy_max_age_seconds = max_age, sy_seq = 0, sy_snapshots = (\<lambda>_. None), sy_signals = [],
        sy_emitted = {}, sy_attached = False\<rparr>)"

definition sync_reset :: "synchronizer \<Rightarrow> synchronizer" where
  "sync_reset y = y\<lparr>sy_snapshots := (\<lambda>_. None), sy_signals := [], sy_emitted := {}, sy_seq := 0\<rparr>"

definition sync_is_empty :: "synchronizer \<Rightarrow> bool" where
  "sync_is_empty y \<longleftrightarrow> sy_universe y = [] \<or> sy_context_horizons y = []"

definition attach :: "synchronizer \<Rightarrow> synchronizer" where
  "attach y = (if sy_attached y then y else if sync_is_empty y then y else y\<lparr>sy_attached := True\<rparr>)"

definition on_snapshot :: "feature_snapshot \<Rightarrow> synchronizer \<Rightarrow> synchronizer" where
  "on_snapshot snap y =
     (if fs_horizon_seconds snap \<notin> set (sy_context_horizons y) then y
      else if fs_symbol snap \<notin> set (sy_universe y) then y
      else let key = (fs_horizon_seconds snap, fs_symbol snap) in
        if (case sy_snapshots y key of None \<Rightarrow> False | Some prev \<Rightarrow> fs_boundary_index snap < fs_boundary_index prev) then y
        else y\<lparr>sy_snapshots := (sy_snapshots y)(key := Some snap)\<rparr>)"

definition on_signal :: "signal \<Rightarrow> synchronizer \<Rightarrow> synchronizer" where
  "on_signal sig y =
     (if sg_layer sig \<noteq> ''SIGNAL'' then y
      else if sg_horizon_seconds sig \<notin> set (sy_signal_horizons y) then y
      else if sg_symbol sig \<notin> set (sy_universe y) then y
      else let key = (sg_horizon_seconds sig, sg_symbol sig, sg_strategy sig) in
        if (case map_of (sy_signals y) key of None \<Rightarrow> False | Some prev \<Rightarrow> ev_timestamp sig < ev_timestamp prev) then y
        else y\<lparr>sy_signals := dict_set key sig (sy_signals y)\<rparr>)"

definition max_age_ns :: "int \<Rightarrow> synchronizer \<Rightarrow> ns" where
  "max_age_ns portfolio_h y = (case sy_max_age_seconds y of None \<Rightarrow> portfolio_h | Some a \<Rightarrow> a) * 1000000000"

definition admissible :: "int \<Rightarrow> ns \<Rightarrow> synchronizer \<Rightarrow> signal \<Rightarrow> bool" where
  \<comment> \<open>causal and not stale at the barrier\<close>
  "admissible portfolio_h ts y s \<longleftrightarrow> ev_timestamp s \<le> ts \<and> ts - ev_timestamp s \<le> max_age_ns portfolio_h y"

definition latest :: "signal list \<Rightarrow> signal option" where
  \<comment> \<open>\<open>max(..., key=timestamp)\<close>: the first of the newest; a caller passes a non-empty list\<close>
  "latest ss = (case ss of [] \<Rightarrow> None
     | s # rest \<Rightarrow> Some (foldl (\<lambda>best s. if ev_timestamp best < ev_timestamp s then s else best) s rest))"

definition feeder_candidates :: "symbol \<Rightarrow> strategy \<Rightarrow> synchronizer \<Rightarrow> (int \<times> signal) list" where
  "feeder_candidates sy sid y =
     List.map_filter (\<lambda>kh. map_option (\<lambda>s. (kh, s)) (map_of (sy_signals y) (kh, sy, sid))) (sy_signal_horizons y)"

definition pick_feeder_signal :: "symbol \<Rightarrow> strategy \<Rightarrow> int \<Rightarrow> ns \<Rightarrow> feature_snapshot option \<Rightarrow> int \<Rightarrow> synchronizer \<Rightarrow> signal option" where
  "pick_feeder_signal sy sid portfolio_h ts snap index y =
     (let candidates = filter (\<lambda>(kh, s). admissible portfolio_h ts y s) (feeder_candidates sy sid y);
          same_h = filter (\<lambda>(kh, s). kh = portfolio_h) candidates;
          aligned = (case snap of None \<Rightarrow> []
            | Some f \<Rightarrow> if index \<le> fs_boundary_index f then filter (\<lambda>s. ev_timestamp f \<le> ev_timestamp s) (map snd same_h) else [])
      in if aligned \<noteq> [] then latest aligned else latest (map snd candidates))"

definition barrier_snapshot :: "int \<Rightarrow> int \<Rightarrow> synchronizer \<Rightarrow> symbol \<Rightarrow> feature_snapshot option" where
  "barrier_snapshot h index y sy = (case sy_snapshots y (h, sy) of None \<Rightarrow> None
     | Some snap \<Rightarrow> if fs_boundary_index snap < index then None else Some snap)"

definition feeder_row :: "horizon_tick \<Rightarrow> synchronizer \<Rightarrow> symbol \<Rightarrow> (strategy \<times> signal option) list" where
  "feeder_row tick y sy = map (\<lambda>sid. (sid, pick_feeder_signal sy sid (ht_horizon_seconds tick) (ev_timestamp tick)
     (barrier_snapshot (ht_horizon_seconds tick) (ht_boundary_index tick) y sy) (ht_boundary_index tick) y)) (sy_upstream y)"

fun first_present :: "(strategy \<times> signal option) list \<Rightarrow> signal option" where
  "first_present [] = None"
| "first_present ((sid, None) # row) = first_present row"
| "first_present ((sid, Some s) # row) = Some s"

definition single_slot :: "horizon_tick \<Rightarrow> synchronizer \<Rightarrow> symbol \<Rightarrow> signal option" where
  \<comment> \<open>the slot of a symbol when no upstream strategies are named\<close>
  "single_slot tick y sy = map_option snd (List.find (\<lambda>((kh, ksym, sid), s).
       kh = ht_horizon_seconds tick \<and> ksym = sy \<and> \<not> ev_timestamp tick < ev_timestamp s
       \<and> \<not> max_age_ns (ht_horizon_seconds tick) y < ev_timestamp tick - ev_timestamp s
       \<and> \<not> (case barrier_snapshot (ht_horizon_seconds tick) (ht_boundary_index tick) y sy of None \<Rightarrow> False
              | Some f \<Rightarrow> ev_timestamp s < ev_timestamp f))
     (sort_key fst (sy_signals y)))"

definition chosen_signal :: "horizon_tick \<Rightarrow> synchronizer \<Rightarrow> symbol \<Rightarrow> signal option" where
  "chosen_signal tick y sy = (if sy_upstream y \<noteq> [] then first_present (feeder_row tick y sy) else single_slot tick y sy)"

definition counted :: "horizon_tick \<Rightarrow> synchronizer \<Rightarrow> symbol \<Rightarrow> bool" where
  \<comment> \<open>whether the symbol adds to \<open>non_none\<close>\<close>
  "counted tick y sy \<longleftrightarrow> (if sy_upstream y \<noteq> [] then list_ex (\<lambda>(sid, s). s \<noteq> None) (feeder_row tick y sy)
     else single_slot tick y sy \<noteq> None)"

definition emit_context :: "horizon_tick \<Rightarrow> synchronizer \<Rightarrow> cross_context \<times> synchronizer" where
  "emit_context tick y =
     (let h = ht_horizon_seconds tick; index = ht_boundary_index tick;
          non_none = length (filter (counted tick y) (sy_universe y))
      in (\<lparr>ev_timestamp = ev_timestamp tick, ev_correlation = ''xsect:'' @ show_int h @ '':'' @ show_int index, ev_sequence = sy_seq y,
           ev_source_layer = ''UNKNOWN'', ev_schema_version = schema_version, xc_horizon_seconds = h, xc_boundary_index = index,
           xc_universe = sy_universe y,
           xc_signals = map (\<lambda>sy. (sy, chosen_signal tick y sy)) (sy_universe y),
           xc_signals_by_strategy = (if sy_upstream y \<noteq> [] then map (\<lambda>sy. (sy, feeder_row tick y sy)) (sy_universe y) else []),
           xc_snapshots = map (\<lambda>sy. (sy, barrier_snapshot h index y sy)) (sy_universe y),
           xc_completeness = (if sy_universe y = [] then 0 else fl_div (of_nat non_none) (of_nat (length (sy_universe y))))\<rparr>,
          y\<lparr>sy_seq := sy_seq y + 1\<rparr>))"

definition on_tick :: "horizon_tick \<Rightarrow> synchronizer \<Rightarrow> cross_context list \<times> synchronizer" where
  "on_tick tick y =
     (if ht_scope tick \<noteq> ''UNIVERSE'' then ([], y)
      else if ht_horizon_seconds tick \<notin> set (sy_context_horizons y) then ([], y)
      else let key = (ht_horizon_seconds tick, ht_boundary_index tick) in
        if key \<in> sy_emitted y then ([], y)
        else case emit_context tick (y\<lparr>sy_emitted := insert key (sy_emitted y)\<rparr>) of (c, y1) \<Rightarrow> ([c], y1))"

datatype sync_event = Snapshot_Event feature_snapshot | Signal_Event signal | Tick_Event horizon_tick

fun sync_handle :: "sync_event \<Rightarrow> synchronizer \<Rightarrow> cross_context list \<times> synchronizer" where
  "sync_handle (Snapshot_Event snap) y = ([], on_snapshot snap y)"
| "sync_handle (Signal_Event sig) y = ([], on_signal sig y)"
| "sync_handle (Tick_Event tick) y = on_tick tick y"

definition sync_deliver :: "sync_event \<Rightarrow> synchronizer \<Rightarrow> cross_context list \<times> synchronizer" where
  \<comment> \<open>the bus delivers only once the subscriptions are installed\<close>
  "sync_deliver e y = (if sy_attached y then sync_handle e y else ([], y))"

fun sync_run :: "sync_event list \<Rightarrow> synchronizer \<Rightarrow> cross_context list \<times> synchronizer" where
  "sync_run [] y = ([], y)"
| "sync_run (e # es) y = (case sync_deliver e y of (a, y1) \<Rightarrow> (case sync_run es y1 of (b, y2) \<Rightarrow> (a @ b, y2)))"

subsection \<open>What a context holds\<close>

definition sync_ok :: "signal set \<Rightarrow> synchronizer \<Rightarrow> bool" where
  "sync_ok seen y \<longleftrightarrow>
     (\<forall>(key, s) \<in> set (sy_signals y). s \<in> seen \<and> key = (sg_horizon_seconds s, sg_symbol s, sg_strategy s) \<and> sg_layer s = ''SIGNAL'')
     \<and> (\<forall>h x f. sy_snapshots y (h, x) = Some f \<longrightarrow> fs_horizon_seconds f = h \<and> fs_symbol f = x)"

definition usable :: "signal set \<Rightarrow> int option \<Rightarrow> int \<Rightarrow> ns \<Rightarrow> symbol \<Rightarrow> signal \<Rightarrow> bool" where
  \<comment> \<open>a received signal of the symbol, not after the barrier and not older than the age limit\<close>
  "usable seen age h ts sy s \<longleftrightarrow> s \<in> seen \<and> sg_layer s = ''SIGNAL'' \<and> sg_symbol s = sy \<and> ev_timestamp s \<le> ts
     \<and> ts - ev_timestamp s \<le> (case age of None \<Rightarrow> h | Some a \<Rightarrow> a) * ns_per_second"

definition slot_ok :: "signal set \<Rightarrow> int option \<Rightarrow> int \<Rightarrow> ns \<Rightarrow> symbol \<times> signal option \<Rightarrow> bool" where
  "slot_ok seen age h ts slot \<longleftrightarrow> (case snd slot of None \<Rightarrow> True | Some s \<Rightarrow> usable seen age h ts (fst slot) s)"

definition row_ok :: "signal set \<Rightarrow> int option \<Rightarrow> int \<Rightarrow> ns \<Rightarrow> symbol \<times> (strategy \<times> signal option) list \<Rightarrow> bool" where
  "row_ok seen age h ts row \<longleftrightarrow> list_all (\<lambda>(sid, s). slot_ok seen age h ts (fst row, s) \<and> (case s of None \<Rightarrow> True | Some x \<Rightarrow> sg_strategy x = sid)) (snd row)"

definition snapshot_ok :: "int \<Rightarrow> int \<Rightarrow> symbol \<times> feature_snapshot option \<Rightarrow> bool" where
  "snapshot_ok h index slot \<longleftrightarrow> (case snd slot of None \<Rightarrow> True
     | Some f \<Rightarrow> fs_horizon_seconds f = h \<and> fs_symbol f = fst slot \<and> index \<le> fs_boundary_index f)"

definition context_ok :: "signal set \<Rightarrow> symbol list \<Rightarrow> int option \<Rightarrow> cross_context \<Rightarrow> bool" where
  "context_ok seen universe age c \<longleftrightarrow> xc_universe c = universe
     \<and> map fst (xc_signals c) = universe \<and> map fst (xc_snapshots c) = universe
     \<and> list_all (slot_ok seen age (xc_horizon_seconds c) (ev_timestamp c)) (xc_signals c)
     \<and> list_all (row_ok seen age (xc_horizon_seconds c) (ev_timestamp c)) (xc_signals_by_strategy c)
     \<and> list_all (snapshot_ok (xc_horizon_seconds c) (xc_boundary_index c)) (xc_snapshots c)
     \<and> xc_completeness c = fl_div (of_nat (length (filter (\<lambda>slot. snd slot \<noteq> None) (xc_signals c)))) (of_nat (length universe))"

fun first_seen :: "'a set \<Rightarrow> 'a list \<Rightarrow> 'a list" where
  "first_seen seen [] = []"
| "first_seen seen (x # xs) = (if x \<in> seen then first_seen seen xs else x # first_seen (insert x seen) xs)"

definition context_key :: "cross_context \<Rightarrow> int \<times> int" where
  "context_key c = (xc_horizon_seconds c, xc_boundary_index c)"

fun barrier_keys :: "int list \<Rightarrow> sync_event list \<Rightarrow> (int \<times> int) list" where
  \<comment> \<open>the boundaries of the universe ticks at portfolio horizons\<close>
  "barrier_keys hs [] = []"
| "barrier_keys hs (Tick_Event t # es) = (if ht_scope t = ''UNIVERSE'' \<and> ht_horizon_seconds t \<in> set hs
     then (ht_horizon_seconds t, ht_boundary_index t) # barrier_keys hs es else barrier_keys hs es)"
| "barrier_keys hs (e # es) = barrier_keys hs es"

lemma latest_in: "latest ss = Some s \<Longrightarrow> s \<in> set ss"
proof (cases ss)
  case (Cons a rest)
  have "foldl (\<lambda>best s. if ev_timestamp best < ev_timestamp s then s else best) b xs \<in> insert b (set xs)" for b and xs :: "signal list"
  proof (induction xs arbitrary: b)
    case (Cons x xs)
    show ?case using Cons[of "if ev_timestamp b < ev_timestamp x then x else b"] by (auto split: if_splits)
  qed simp
  from this[of a rest] show "latest ss = Some s \<Longrightarrow> s \<in> set ss" using Cons by (auto simp: latest_def)
qed (simp add: latest_def)

lemma map_filter_in: "p \<in> set (List.map_filter f xs) \<Longrightarrow> \<exists>x. f x = Some p"
  by (induction xs) (auto simp: List.map_filter_simps split: option.splits)

lemma feeder_candidates_in: "(kh, s) \<in> set (feeder_candidates sy sid y) \<Longrightarrow> ((kh, sy, sid), s) \<in> set (sy_signals y)"
  unfolding feeder_candidates_def by (drule map_filter_in) (auto dest: map_of_SomeD)

lemma pick_feeder_signal_in:
  assumes "pick_feeder_signal sy sid h ts snap index y = Some s"
  obtains kh where "((kh, sy, sid), s) \<in> set (sy_signals y)" "admissible h ts y s"
proof -
  have "s \<in> snd ` set (filter (\<lambda>(kh, s). admissible h ts y s) (feeder_candidates sy sid y))"
    using assms by (auto simp: pick_feeder_signal_def Let_def dest!: latest_in split: if_splits option.splits)
  then show thesis using that feeder_candidates_in by fastforce
qed

lemma usableI:
  assumes "sync_ok seen y" "((kh, sy, sid), s) \<in> set (sy_signals y)" "admissible h ts y s"
  shows "usable seen (sy_max_age_seconds y) h ts sy s" "sg_strategy s = sid"
proof -
  have "s \<in> seen \<and> (kh, sy, sid) = (sg_horizon_seconds s, sg_symbol s, sg_strategy s) \<and> sg_layer s = ''SIGNAL''"
    using assms(1,2) unfolding sync_ok_def by blast
  then show "usable seen (sy_max_age_seconds y) h ts sy s" "sg_strategy s = sid"
    using assms(3) by (simp_all add: usable_def admissible_def max_age_ns_def ns_per_second_def)
qed

lemma feeder_row_ok:
  assumes "sync_ok seen y"
  shows "row_ok seen (sy_max_age_seconds y) (ht_horizon_seconds tick) (ev_timestamp tick) (sy, feeder_row tick y sy)"
proof -
  have "slot_ok seen (sy_max_age_seconds y) h ts (sy, s) \<and> (case s of None \<Rightarrow> True | Some x \<Rightarrow> sg_strategy x = sid)"
    if "s = pick_feeder_signal sy sid h ts snap index y" for sid s h ts snap index
  proof (cases s)
    case (Some x)
    then have "pick_feeder_signal sy sid h ts snap index y = Some x" using that by simp
    then obtain kh where "((kh, sy, sid), x) \<in> set (sy_signals y)" "admissible h ts y x" by (rule pick_feeder_signal_in)
    from usableI[OF assms this] show ?thesis using Some by (simp add: slot_ok_def)
  qed (simp add: slot_ok_def)
  then show ?thesis by (simp add: row_ok_def feeder_row_def list_all_iff)
qed

lemma first_present_in: "first_present row = Some s \<Longrightarrow> \<exists>sid. (sid, Some s) \<in> set row"
  by (induction row rule: first_present.induct) auto

lemma first_present_none: "list_ex (\<lambda>(sid, s). s \<noteq> None) row \<longleftrightarrow> first_present row \<noteq> None"
  by (induction row rule: first_present.induct) auto

lemma single_slot_in:
  assumes "single_slot tick y sy = Some s"
  obtains sid where "((ht_horizon_seconds tick, sy, sid), s) \<in> set (sy_signals y)" "admissible (ht_horizon_seconds tick) (ev_timestamp tick) y s"
proof -
  obtain p where p: "List.find (\<lambda>((kh, ksym, sid), s). kh = ht_horizon_seconds tick \<and> ksym = sy \<and> \<not> ev_timestamp tick < ev_timestamp s
       \<and> \<not> max_age_ns (ht_horizon_seconds tick) y < ev_timestamp tick - ev_timestamp s
       \<and> \<not> (case barrier_snapshot (ht_horizon_seconds tick) (ht_boundary_index tick) y sy of None \<Rightarrow> False
              | Some f \<Rightarrow> ev_timestamp s < ev_timestamp f)) (sort_key fst (sy_signals y)) = Some p" "snd p = s"
    using assms by (auto simp: single_slot_def)
  from p(1) obtain i where "i < length (sort_key fst (sy_signals y))" "p = sort_key fst (sy_signals y) ! i"
    "case p of ((kh, ksym, sid), s) \<Rightarrow> kh = ht_horizon_seconds tick \<and> ksym = sy \<and> \<not> ev_timestamp tick < ev_timestamp s
       \<and> \<not> max_age_ns (ht_horizon_seconds tick) y < ev_timestamp tick - ev_timestamp s"
    unfolding find_Some_iff by auto
  moreover then have "p \<in> set (sy_signals y)" using nth_mem[of i "sort_key fst (sy_signals y)"] by simp
  ultimately show thesis using that p(2) by (cases p) (auto simp: admissible_def)
qed

lemma chosen_signal_ok:
  assumes "sync_ok seen y"
  shows "slot_ok seen (sy_max_age_seconds y) (ht_horizon_seconds tick) (ev_timestamp tick) (sy, chosen_signal tick y sy)"
proof (cases "chosen_signal tick y sy")
  case (Some s)
  show ?thesis
  proof (cases "sy_upstream y = []")
    case True
    then have "single_slot tick y sy = Some s" using Some by (simp add: chosen_signal_def)
    then obtain sid where "((ht_horizon_seconds tick, sy, sid), s) \<in> set (sy_signals y)"
      "admissible (ht_horizon_seconds tick) (ev_timestamp tick) y s" by (rule single_slot_in)
    from usableI(1)[OF assms this] show ?thesis using Some by (simp add: slot_ok_def)
  next
    case False
    then obtain sid where "(sid, Some s) \<in> set (feeder_row tick y sy)" using Some first_present_in by (fastforce simp: chosen_signal_def)
    then show ?thesis using feeder_row_ok[OF assms, of tick sy] unfolding Some by (auto simp: row_ok_def list_all_iff)
  qed
qed (simp add: slot_ok_def)

lemma counted_iff: "counted tick y sy \<longleftrightarrow> chosen_signal tick y sy \<noteq> None"
  unfolding counted_def chosen_signal_def first_present_none by simp

lemma emit_context_ok:
  assumes "sync_ok seen y" "emit_context tick y = (c, y1)" "sy_universe y \<noteq> []"
  shows "context_ok seen (sy_universe y) (sy_max_age_seconds y) c"
proof -
  have "snapshot_ok h index (x, barrier_snapshot h index y x)" for h index x
    using assms(1) by (simp add: snapshot_ok_def barrier_snapshot_def sync_ok_def split: option.split)
  moreover have "length (filter (\<lambda>slot. snd slot \<noteq> None) (map (\<lambda>x. (x, chosen_signal tick y x)) xs)) = length (filter (counted tick y) xs)" for xs
    by (induction xs) (simp_all add: counted_iff)
  ultimately show ?thesis
    using assms chosen_signal_ok[OF assms(1)] feeder_row_ok[OF assms(1)]
    by (auto simp: emit_context_def Let_def context_ok_def list_all_iff comp_def)
qed

subsection \<open>One context per boundary\<close>

definition sync_config :: "synchronizer \<Rightarrow> symbol list \<times> int list \<times> int option \<times> bool" where
  "sync_config y = (sy_universe y, sy_context_horizons y, sy_max_age_seconds y, sy_attached y)"

definition syncs_to :: "signal set \<Rightarrow> sync_event list \<Rightarrow> synchronizer \<Rightarrow> cross_context list \<Rightarrow> synchronizer \<Rightarrow> bool" where
  \<comment> \<open>what delivering the events does to an attached synchronizer\<close>
  "syncs_to seen es y cs y1 \<longleftrightarrow> sync_ok seen y1 \<and> sync_config y1 = sync_config y
     \<and> list_all (context_ok seen (sy_universe y) (sy_max_age_seconds y)) cs
     \<and> map context_key cs = first_seen (sy_emitted y) (barrier_keys (sy_context_horizons y) es)
     \<and> sy_emitted y1 = sy_emitted y \<union> set (barrier_keys (sy_context_horizons y) es)"

lemma barrier_keys_append: "barrier_keys hs (es @ fs) = barrier_keys hs es @ barrier_keys hs fs"
  by (induction hs es rule: barrier_keys.induct) simp_all

lemma first_seen_append: "first_seen seen (xs @ ys) = first_seen seen xs @ first_seen (seen \<union> set xs) ys"
  by (induction seen xs rule: first_seen.induct) (simp_all add: insert_absorb)

lemma syncs_to_trans:
  assumes "syncs_to seen es y cs y1" "syncs_to seen fs y1 ds y2"
  shows "syncs_to seen (es @ fs) y (cs @ ds) y2"
  using assms by (auto simp: syncs_to_def sync_config_def barrier_keys_append first_seen_append)

lemma on_snapshot_ok: "sync_ok seen y \<Longrightarrow> syncs_to seen [Snapshot_Event snap] y [] (on_snapshot snap y)"
  by (auto simp: syncs_to_def on_snapshot_def sync_ok_def sync_config_def Let_def split: option.splits)

lemma on_signal_ok:
  assumes "sync_ok seen y" "sig \<in> seen"
  shows "syncs_to seen [Signal_Event sig] y [] (on_signal sig y)"
proof -
  define key where "key = (sg_horizon_seconds sig, sg_symbol sig, sg_strategy sig)"
  have "p = (key, sig) \<or> p \<in> set (sy_signals y)" if "p \<in> set (dict_set key sig (sy_signals y))" for p
    using set_dict_set_cases[OF that] .
  then have "sync_ok seen (y\<lparr>sy_signals := dict_set key sig (sy_signals y)\<rparr>)" if "sg_layer sig = ''SIGNAL''"
    using assms that unfolding sync_ok_def key_def by fastforce
  then have "sync_ok seen (on_signal sig y)" using assms(1) by (auto simp: on_signal_def key_def Let_def split: if_split)
  moreover have "sync_config (on_signal sig y) = sync_config y" "sy_emitted (on_signal sig y) = sy_emitted y"
    by (simp_all add: on_signal_def Let_def sync_config_def)
  ultimately show ?thesis by (simp add: syncs_to_def)
qed

lemma on_tick_ok:
  assumes "sync_ok seen y" "on_tick tick y = (cs, y1)" "sy_universe y \<noteq> []"
  shows "syncs_to seen [Tick_Event tick] y cs y1"
proof (cases "ht_scope tick = ''UNIVERSE'' \<and> ht_horizon_seconds tick \<in> set (sy_context_horizons y)
    \<and> (ht_horizon_seconds tick, ht_boundary_index tick) \<notin> sy_emitted y")
  case True
  define y' where "y' = y\<lparr>sy_emitted := insert (ht_horizon_seconds tick, ht_boundary_index tick) (sy_emitted y)\<rparr>"
  obtain c where c: "emit_context tick y' = (c, y1)" "cs = [c]" using assms(2) True by (auto simp: on_tick_def Let_def y'_def split: prod.splits)
  have "context_ok seen (sy_universe y) (sy_max_age_seconds y) c"
    using emit_context_ok[OF _ c(1), of seen] assms(1,3) by (simp add: y'_def sync_ok_def)
  moreover have "context_key c = (ht_horizon_seconds tick, ht_boundary_index tick)" "y1 = y'\<lparr>sy_seq := sy_seq y' + 1\<rparr>"
    using c(1) by (auto simp: emit_context_def Let_def context_key_def)
  ultimately show ?thesis using True assms(1) by (simp add: syncs_to_def c(2) y'_def sync_ok_def sync_config_def)
next
  case False
  then have "cs = [] \<and> y1 = y" using assms(2) by (auto simp: on_tick_def Let_def split: if_splits)
  then show ?thesis using False assms(1) by (auto simp: syncs_to_def)
qed

fun signals_of :: "sync_event list \<Rightarrow> signal list" where
  "signals_of [] = []"
| "signals_of (Signal_Event s # es) = s # signals_of es"
| "signals_of (e # es) = signals_of es"

lemma sync_deliver_ok:
  assumes "sync_ok seen y" "sync_deliver e y = (cs, y1)" "sy_universe y \<noteq> []" "sy_attached y" "set (signals_of [e]) \<subseteq> seen"
  shows "syncs_to seen [e] y cs y1"
  using assms on_snapshot_ok on_signal_ok on_tick_ok by (cases e) (auto simp: sync_deliver_def)

lemma sync_run_ok:
  assumes "sync_ok seen y" "sync_run es y = (cs, y2)" "sy_universe y \<noteq> []" "sy_attached y" "set (signals_of es) \<subseteq> seen"
  shows "syncs_to seen es y cs y2"
  using assms
proof (induction es arbitrary: y cs)
  case Nil
  then show ?case by (simp add: syncs_to_def)
next
  case (Cons e es)
  obtain a y1 b where r: "sync_deliver e y = (a, y1)" "sync_run es y1 = (b, y2)" "cs = a @ b"
    using Cons.prems(2) by (auto split: prod.splits)
  have seen: "set (signals_of [e]) \<subseteq> seen" "set (signals_of es) \<subseteq> seen" using Cons.prems(5) by (cases e; simp)+
  have one: "syncs_to seen [e] y a y1" by (rule sync_deliver_ok[OF Cons.prems(1) r(1) Cons.prems(3,4) seen(1)])
  then have "sync_ok seen y1" "sy_universe y1 \<noteq> []" "sy_attached y1" using Cons.prems(3,4) by (simp_all add: syncs_to_def sync_config_def)
  from syncs_to_trans[OF one Cons.IH[OF this(1) r(2) this(2,3) seen(2)]] show ?case by (simp add: r(3))
qed

lemma sync_run_quiet: "\<not> sy_attached y \<Longrightarrow> sync_run es y = ([], y)"
  by (induction es) (simp_all add: sync_deliver_def)

lemma sync_contexts:
  assumes "new_synchronizer universe horizons feeders upstream age = Inr y" "universe \<noteq> []" "sync_run es (attach y) = (cs, y')"
  shows "list_all (context_ok (set (signals_of es)) (sort (remdups universe)) age) cs"
    "map context_key cs = first_seen {} (barrier_keys horizons es)"
proof -
  have y: "sy_universe y = sort (remdups universe)" "sy_context_horizons y = horizons" "sy_max_age_seconds y = age"
    "sy_signals y = []" "sy_snapshots y = (\<lambda>_. None)" "sy_emitted y = {}" "\<not> sy_attached y"
    using assms(1) by (auto simp: new_synchronizer_def Let_def split: if_splits)
  have u: "sort (remdups universe) \<noteq> []" using assms(2) by (metis remdups_eq_nil_iff set_empty set_sort)
  have "list_all (context_ok (set (signals_of es)) (sort (remdups universe)) age) cs \<and> map context_key cs = first_seen {} (barrier_keys horizons es)"
  proof (cases "horizons = []")
    case True
    have "barrier_keys [] es = []" by (induction "[] :: int list" es rule: barrier_keys.induct) simp_all
    then show ?thesis using True y assms(3) sync_run_quiet[of y es] by (simp add: attach_def sync_is_empty_def)
  next
    case False
    then have "attach y = y\<lparr>sy_attached := True\<rparr>" using u y by (simp add: attach_def sync_is_empty_def)
    then have "syncs_to (set (signals_of es)) es (y\<lparr>sy_attached := True\<rparr>) cs y'"
      using sync_run_ok[of "set (signals_of es)" "attach y" es cs y'] assms(3) u y by (simp add: sync_ok_def)
    then show ?thesis using y by (simp add: syncs_to_def)
  qed
  then show "list_all (context_ok (set (signals_of es)) (sort (remdups universe)) age) cs"
    "map context_key cs = first_seen {} (barrier_keys horizons es)" by simp_all
qed

lemma sync_reset_new: "new_synchronizer universe horizons feeders upstream age = Inr y \<Longrightarrow> sync_reset y = y"
  by (auto simp: new_synchronizer_def sync_reset_def Let_def split: if_splits)

subsection \<open>From market events to contexts\<close>

fun ticks_among :: "sync_event list \<Rightarrow> horizon_tick list" where
  "ticks_among [] = []"
| "ticks_among (Tick_Event t # es) = t # ticks_among es"
| "ticks_among (e # es) = ticks_among es"

lemma sorted_distinct_adj: "sorted xs \<Longrightarrow> distinct_adj xs \<Longrightarrow> distinct xs" for xs :: "int list"
proof (induction xs)
  case (Cons x xs)
  then show ?case by (cases xs) auto
qed simp

lemma first_seen_insert: "x \<notin> set ys \<Longrightarrow> first_seen (insert x seen) ys = first_seen seen ys"
proof (induction ys arbitrary: seen)
  case (Cons a ys)
  then show ?case using Cons.IH[of seen] Cons.IH[of "insert a seen"] insert_commute[of a x seen] by auto
qed simp

lemma filter_first_seen: "filter P (first_seen seen xs) = first_seen seen (filter P xs)"
proof (induction seen xs rule: first_seen.induct)
  case (2 seen x xs)
  have "first_seen (insert x seen) (filter P xs) = first_seen seen (filter P xs)" if "\<not> P x" using that by (intro first_seen_insert) simp
  then show ?case using 2 by (cases "P x") simp_all
qed simp

lemma first_seen_distinct: "distinct xs \<Longrightarrow> set xs \<inter> seen = {} \<Longrightarrow> first_seen seen xs = xs"
  by (induction xs arbitrary: seen) simp_all

lemma barrier_keys_of_ticks:
  assumes "h \<in> set hs" "list_all (on_grid opened) (ticks_among es)"
  shows "filter (\<lambda>key. fst key = h) (barrier_keys hs es) = map (Pair h) (map ht_boundary_index (ticks_of h None (ticks_among es)))"
  using assms by (induction hs es rule: barrier_keys.induct) (auto simp: ticks_of_def on_grid_def)

lemma context_boundaries:
  assumes "horizon_grid hs = Inr grid" "sorted tss" "h \<in> set hs" "h \<in> set horizons" "universe \<noteq> []"
    "fst (scheduler_run anchor tss (new_scheduler grid session universe opened)) = ticks_among es"
    "new_synchronizer universe horizons feeders upstream age = Inr y" "fst (sync_run es (attach y)) = cs" "o' = session_anchor anchor opened tss"
  shows "map xc_boundary_index (filter (\<lambda>c. xc_horizon_seconds c = h) cs)
    = remdups_adj (map (\<lambda>ts. window o' ts h) (filter (\<lambda>ts. o' \<le> ts) tss))" (is "_ = ?windows")
proof -
  obtain s' where run: "scheduler_run anchor tss (new_scheduler grid session universe opened) = (ticks_among es, s')"
    using assms(6) by (metis prod.collapse)
  note ticks = scheduler_ticks[OF assms(1,2,3) _ run assms(9), of None]
  have "sorted (map (\<lambda>ts. window o' ts h) (filter (\<lambda>ts. o' \<le> ts) tss))"
    using windows_sorted[OF assms(2)] horizon_grid_ok(4)[OF assms(1,3)] by simp
  then have "distinct ?windows" by (intro sorted_distinct_adj) simp_all
  then have d: "distinct (map (Pair h) ?windows)" by (simp add: distinct_map inj_on_def)
  obtain y' where "sync_run es (attach y) = (cs, y')" using assms(8) by (metis prod.collapse)
  note keys = sync_contexts(2)[OF assms(7,5) this]
  have "map context_key (filter (\<lambda>c. xc_horizon_seconds c = h) cs) = filter (\<lambda>key. fst key = h) (map context_key cs)"
    by (simp add: filter_map comp_def context_key_def)
  also have "\<dots> = first_seen {} (map (Pair h) ?windows)"
    using barrier_keys_of_ticks[OF assms(4), of o' es] ticks unfolding keys filter_first_seen by simp
  also have "\<dots> = map (Pair h) ?windows" using first_seen_distinct[OF d] by simp
  finally have "map snd (map context_key (filter (\<lambda>c. xc_horizon_seconds c = h) cs)) = map snd (map (Pair h) ?windows)" by simp
  then show ?thesis by (simp add: comp_def context_key_def)
qed

text \<open>For any sorted stream of event times and any grid the scheduler accepts, whether the session open
  was given or is bound lazily, each horizon and scope gets one tick per window that the
  events at or after the open visit, in order and never twice; every tick names the window of its trigger and
  that window's start, which its trigger follows within the window.\<close>
theorem ticks_once_per_window:
  assumes "horizon_grid hs = Inr grid" "sorted tss" "h \<in> set hs" "k \<in> insert None (Some ` set symbols)"
    "scheduler_run anchor tss (new_scheduler grid session symbols opened) = (as, s')" "o' = session_anchor anchor opened tss"
  shows "list_all (on_grid o') as
    \<and> list_all (\<lambda>t. ht_boundary_ts t \<le> ev_timestamp t \<and> ev_timestamp t < ht_boundary_ts t + h * ns_per_second) (ticks_of h k as)
    \<and> map ht_boundary_index (ticks_of h k as) = remdups_adj (map (\<lambda>ts. window o' ts h) (filter (\<lambda>ts. o' \<le> ts) tss))"
proof -
  note ticks = scheduler_ticks[OF assms]
  then show ?thesis using on_grid_interval[of o'] horizon_grid_ok(4)[OF assms(1,3)] by (auto simp: list_all_iff ticks_of_def)
qed

text \<open>C31: a context is built for the whole sorted universe, one slot per symbol; every signal in it is one
  the synchronizer received, of that symbol, not stamped after the barrier and not older than the age limit,
  every snapshot is of that symbol and not of an earlier boundary, and the completeness is the share of
  symbols that have a signal; there is one context for each universe tick at a portfolio horizon whose
  boundary is new, in the order of the ticks.\<close>
theorem contexts_hold_fresh_signals:
  assumes "new_synchronizer universe horizons feeders upstream age = Inr y" "universe \<noteq> []" "sync_run es (attach y) = (cs, y')"
  shows "list_all (context_ok (set (signals_of es)) (sort (remdups universe)) age) cs
    \<and> map context_key cs = first_seen {} (barrier_keys horizons es)"
  using sync_contexts[OF assms] by simp

text \<open>C32: scheduler and synchronizer together: when the synchronizer receives the scheduler's ticks, in their
  order and with any signals and snapshots between them, then at every portfolio horizon of the grid it
  publishes exactly one context per window that the market events visit, complete universe or not.\<close>
theorem one_context_per_window:
  assumes "horizon_grid hs = Inr grid" "sorted tss" "h \<in> set hs" "h \<in> set horizons" "universe \<noteq> []"
    "fst (scheduler_run anchor tss (new_scheduler grid session universe opened)) = ticks_among es"
    "new_synchronizer universe horizons feeders upstream age = Inr y" "fst (sync_run es (attach y)) = cs"
  shows "map xc_boundary_index (filter (\<lambda>c. xc_horizon_seconds c = h) cs)
    = remdups_adj (map (\<lambda>ts. window (session_anchor anchor opened tss) ts h) (filter (\<lambda>ts. session_anchor anchor opened tss \<le> ts) tss))"
  using context_boundaries[OF assms refl] .

subsection \<open>Concrete runs\<close>

definition sample_times :: "ns list" where
  "sample_times = [5000000000, 6000000000, 7000000000, 12000000000]"


definition sample_sync :: synchronizer where
  "sample_sync = \<lparr>sy_universe = [''A'', ''B''], sy_context_horizons = [2], sy_signal_horizons = [2], sy_upstream = [],
     sy_max_age_seconds = None, sy_seq = 0, sy_snapshots = (\<lambda>_. None), sy_signals = [], sy_emitted = {}, sy_attached = False\<rparr>"

definition sample_signal :: "ns \<Rightarrow> symbol \<Rightarrow> signal" where
  "sample_signal ts x = \<lparr>ev_timestamp = ts, ev_correlation = ''c'', ev_sequence = 0, ev_source_layer = ''SIGNAL'', ev_schema_version = schema_version,
     sg_symbol = x, sg_strategy = ''s'', sg_direction = LONG, sg_strength = 1, sg_edge_bps = 2, sg_disclosed_cost_bps = 1, sg_disclosed_margin = 0,
     sg_metadata = [], sg_layer = ''SIGNAL'', sg_horizon_seconds = 2, sg_gate_state = ''ON'', sg_consumed_features = [], sg_mechanism = None,
     sg_half_life_seconds = 0\<rparr>"

definition sample_tick :: "ns \<Rightarrow> int \<Rightarrow> horizon_tick" where
  "sample_tick ts index = \<lparr>ev_timestamp = ts, ev_correlation = ''c'', ev_sequence = 0, ev_source_layer = ''SCHEDULER'', ev_schema_version = schema_version,
     ht_horizon_seconds = 2, ht_boundary_index = index, ht_session_id = ''2026-01-05'', ht_scope = ''UNIVERSE'', ht_boundary_timestamp = index * 2000000000,
     ht_symbol = None, ht_boundary_ts = index * 2000000000\<rparr>"

definition sample_events :: "sync_event list" where
  \<comment> \<open>a boundary told twice, and signals too old for the last one\<close>
  "sample_events = [Signal_Event (sample_signal 5 ''A''), Tick_Event (sample_tick 6 0), Signal_Event (sample_signal 1000000000 ''A''),
     Signal_Event (sample_signal 2000000000 ''B''), Tick_Event (sample_tick 2000000000 1), Tick_Event (sample_tick 2000000001 1),
     Tick_Event (sample_tick 9000000000 4)]"

lemma sample_slots: "map (\<lambda>c. (xc_boundary_index c, map (\<lambda>slot. map_option ev_timestamp (snd slot)) (xc_signals c))) (fst (sync_run sample_events (attach sample_sync)))
    = [(0, [Some 5, None]), (1, [Some 1000000000, Some 2000000000]), (4, [None, None])]"
  by code_simp

lemma sample_grid: "horizon_grid [2, 2] = Inr [2]" by (simp add: horizon_grid_def)

lemma sample_sync_new: "new_synchronizer [''B'', ''A''] [2] None [] None = Inr sample_sync"
  by (simp add: new_synchronizer_def sample_sync_def Let_def)

lemma ticks_among_map: "ticks_among (map Tick_Event ts) = ts"
  by (induction ts) simp_all

lemma sample_windows: "remdups_adj (map (\<lambda>ts. window 5000000000 ts 2) (filter (\<lambda>ts. 5000000000 \<le> ts) sample_times)) = [0, 1, 3]"
  by (simp add: sample_times_def window_def ns_per_second_def)

text \<open>A late-started session with three windows visited, one of them twice and one skipped.\<close>
theorem ticks_once_witness:
  "map ht_boundary_index (ticks_of 2 (Some ''A'') (fst (scheduler_run None sample_times (new_scheduler [2] ''2026-01-05'' [''A'', ''B''] None)))) = [0, 1, 3]"
proof -
  have "(5000000000 :: int) = session_anchor None None sample_times" "sorted sample_times"
    by (simp_all add: session_anchor_def sample_times_def)
  from ticks_once_per_window[OF sample_grid this(2) _ _ prod.collapse[symmetric] this(1), of 2 "Some ''A''" "[''A'', ''B'']"]
  show ?thesis unfolding sample_windows by simp
qed

theorem fresh_signals_witness:
  "map context_key (fst (sync_run sample_events (attach sample_sync))) = [(2, 0), (2, 1), (2, 4)]
    \<and> list_all (context_ok (set (signals_of sample_events)) [''A'', ''B''] None) (fst (sync_run sample_events (attach sample_sync)))
    \<and> map (\<lambda>c. map (\<lambda>slot. map_option ev_timestamp (snd slot)) (xc_signals c)) (fst (sync_run sample_events (attach sample_sync)))
      = [[Some 5, None], [Some 1000000000, Some 2000000000], [None, None]]"
proof -
  note run = contexts_hold_fresh_signals[OF sample_sync_new _ prod.collapse[symmetric], of sample_events]
  have "first_seen {} (barrier_keys [2] sample_events) = [(2, 0), (2, 1), (2, 4)]"
    by (simp add: sample_events_def sample_tick_def)
  moreover have "sort (remdups [''B'', ''A'']) = [''A'', ''B'']" by simp
  moreover have "map (map (\<lambda>slot. map_option ev_timestamp (snd slot)) \<circ> xc_signals) (fst (sync_run sample_events (attach sample_sync)))
      = [[Some 5, None], [Some 1000000000, Some 2000000000], [None, None]]"
    using arg_cong[OF sample_slots, of "map snd"] by (simp add: comp_def)
  ultimately show ?thesis using run by (simp add: comp_def)
qed

theorem one_context_witness:
  "map xc_boundary_index (filter (\<lambda>c. xc_horizon_seconds c = 2)
     (fst (sync_run (Signal_Event (sample_signal 5 ''A'') # map Tick_Event (fst (scheduler_run None sample_times
       (new_scheduler [2] ''2026-01-05'' [''B'', ''A''] None)))) (attach sample_sync)))) = [0, 1, 3]"
proof -
  define run where "run = fst (scheduler_run None sample_times (new_scheduler [2] ''2026-01-05'' [''B'', ''A''] None))"
  define es where "es = Signal_Event (sample_signal 5 ''A'') # map Tick_Event run"
  have "session_anchor None None sample_times = 5000000000" "sorted sample_times"
    by (simp_all add: session_anchor_def sample_times_def)
  moreover have "run = ticks_among es" by (simp add: es_def ticks_among_map)
  ultimately show ?thesis unfolding run_def[symmetric] es_def[symmetric]
    using one_context_per_window[where tss = sample_times and h = 2 and anchor = None and opened = None and es = es, OF sample_grid _ _ _ _ _ sample_sync_new refl]
      sample_windows run_def by simp
qed

end
