(* ===== verification/Evidence.thy ===== *)
theory Evidence
  imports Numerics
begin

section \<open>Promotion evidence and its gates (promotion/evidence.py)\<close>

text \<open>
  The evidence packages of the promotion gates, their validators, the gate matrix, and the
  thresholds with their overrides and floors, together with the two functions of the alpha registry
  that apply them (alpha/registry.py). Figures are \<open>pyfloat\<close>: a finite binary64 value, an
  infinity or NaN, since the validators are about them; finite arithmetic rounds as in
  \<open>Numerics\<close> and does not overflow. Error messages are reduced to a short string.
\<close>

subsection \<open>Floats with NaN and the infinities\<close>

fun fless :: "pyfloat \<Rightarrow> pyfloat \<Rightarrow> bool" where
  "fless (Fin a) (Fin b) = (a < b)"
| "fless (Fin a) PosInf = True"
| "fless NegInf (Fin b) = True"
| "fless NegInf PosInf = True"
| "fless _ _ = False"

definition feq :: "pyfloat \<Rightarrow> pyfloat \<Rightarrow> bool" where
  "feq x y \<longleftrightarrow> x \<noteq> NaN \<and> x = y"

definition fleq :: "pyfloat \<Rightarrow> pyfloat \<Rightarrow> bool" where
  "fleq x y \<longleftrightarrow> fless x y \<or> feq x y"

fun is_finite :: "pyfloat \<Rightarrow> bool" where
  "is_finite (Fin a) = True"
| "is_finite _ = False"

definition float_lit :: "rat \<Rightarrow> pyfloat" where
  \<comment> \<open>a literal of the source: the nearest binary64 value\<close>
  "float_lit q = Fin (fl_round q)"

definition float_of_int :: "int \<Rightarrow> float64" where
  "float_of_int i = fl_round (of_int i)"

fun fneg :: "pyfloat \<Rightarrow> pyfloat" where
  "fneg (Fin a) = Fin (- a)"
| "fneg PosInf = NegInf"
| "fneg NegInf = PosInf"
| "fneg NaN = NaN"

fun fabs :: "pyfloat \<Rightarrow> pyfloat" where
  "fabs (Fin a) = Fin \<bar>a\<bar>"
| "fabs NaN = NaN"
| "fabs _ = PosInf"

fun fsub :: "pyfloat \<Rightarrow> pyfloat \<Rightarrow> pyfloat" where
  "fsub (Fin a) (Fin b) = Fin (fl_sub a b)"
| "fsub NaN y = NaN"
| "fsub x NaN = NaN"
| "fsub PosInf PosInf = NaN"
| "fsub NegInf NegInf = NaN"
| "fsub PosInf y = PosInf"
| "fsub NegInf y = NegInf"
| "fsub x PosInf = NegInf"
| "fsub x NegInf = PosInf"

definition is_close :: "pyfloat \<Rightarrow> pyfloat \<Rightarrow> rat \<Rightarrow> rat \<Rightarrow> bool" where
  \<comment> \<open>\<open>math.isclose\<close>\<close>
  "is_close x y rel_tol abs_tol \<longleftrightarrow> feq x y \<or> (case (x, y) of
       (Fin a, Fin b) \<Rightarrow> (let diff = \<bar>fl_sub b a\<bar> in
          diff \<le> \<bar>fl_mul (fl_round rel_tol) b\<bar> \<or> diff \<le> \<bar>fl_mul (fl_round rel_tol) a\<bar> \<or> diff \<le> fl_round abs_tol)
     | _ \<Rightarrow> False)"

fun finite_part :: "pyfloat \<Rightarrow> rat" where
  "finite_part (Fin a) = a"
| "finite_part _ = 0"

definition fmean :: "pyfloat list \<Rightarrow> pyfloat" where
  \<comment> \<open>\<open>statistics.fmean\<close> of a non-empty list of finite floats: the exact sum rounded, over the length\<close>
  "fmean xs = Fin (fl_div (fl_round (sum_list (map finite_part xs))) (of_nat (length xs)))"

definition fmedian :: "pyfloat list \<Rightarrow> pyfloat" where
  \<comment> \<open>\<open>statistics.median\<close> of a non-empty list of finite floats\<close>
  "fmedian xs = (let ys = sort (map finite_part xs); n = length ys in
     if odd n then Fin (ys ! (n div 2)) else Fin (fl_div (fl_add (ys ! (n div 2 - 1)) (ys ! (n div 2))) 2))"

definition py_space :: "char \<Rightarrow> bool" where
  "py_space c \<longleftrightarrow> of_char c \<in> {9..13 :: nat} \<or> of_char c \<in> {28..32 :: nat} \<or> of_char c = (133 :: nat) \<or> of_char c = (160 :: nat)"

definition blank :: "string \<Rightarrow> bool" where
  \<comment> \<open>\<open>not s.strip()\<close>\<close>
  "blank s \<longleftrightarrow> list_all py_space s"

subsection \<open>Tiers, gates and evidence packages\<close>

datatype capital_tier = SMALL_CAPITAL | SCALED

datatype gate_id =
    RESEARCH_TO_PAPER | PAPER_TO_LIVE | LIVE_PROMOTE_CAPITAL_TIER | LIVE_TO_QUARANTINED | QUARANTINED_TO_PAPER
  | QUARANTINED_TO_DECOMMISSIONED | DECOUPLE_CAPS_ONLY

record research_acceptance_evidence =
  rae_schema_valid :: bool
  rae_determinism_replay_passed :: bool
  rae_branch_coverage_pct :: pyfloat
  rae_line_coverage_pct :: pyfloat
  rae_lookahead_bias_check_passed :: bool
  rae_fault_injection_pass_count :: int
  rae_fault_injection_total :: int
  rae_cost_sensitivity_passed :: bool
  rae_latency_sensitivity_passed :: bool

record cpcv_evidence =
  cpe_fold_count :: int
  cpe_embargo_bars :: int
  cpe_fold_sharpes :: "pyfloat list"
  cpe_mean_sharpe :: pyfloat
  cpe_median_sharpe :: pyfloat
  cpe_mean_pnl :: pyfloat
  cpe_p_value :: pyfloat
  cpe_fold_pnl_curves_hash :: string

record dsr_evidence =
  dse_observed_sharpe :: pyfloat
  dse_trials_count :: int
  dse_skewness :: pyfloat
  dse_kurtosis :: pyfloat
  dse_dsr :: pyfloat
  dse_dsr_p_value :: pyfloat

record paper_window_evidence =
  pwe_trading_days :: int
  pwe_sample_size :: int
  pwe_slippage_residual_bps :: pyfloat
  pwe_fill_rate_drift_pct :: pyfloat
  pwe_latency_ks_p :: pyfloat
  pwe_pnl_compression_ratio :: pyfloat
  pwe_anomalous_event_count :: int

record capital_stage_evidence =
  cse_tier :: capital_tier
  cse_allocation_fraction :: pyfloat
  cse_deployment_days :: int
  cse_pnl_compression_ratio_realised :: pyfloat
  cse_slippage_residual_bps :: pyfloat
  cse_hit_rate_residual_pp :: pyfloat
  cse_fill_rate_drift_pct :: pyfloat

record quarantine_trigger_evidence =
  qte_net_alpha_negative_days :: int
  qte_hit_rate_residual_pp :: pyfloat
  qte_microstructure_metrics_breached :: "string list"
  qte_crowding_symptoms :: "string list"
  qte_pnl_compression_ratio_5d :: pyfloat

record revalidation_evidence =
  rve_hypothesis_re_derived :: bool
  rve_oos_walkforward_sharpe :: pyfloat
  rve_parameter_drift_resolved :: bool
  rve_human_signoff :: string
  rve_revalidation_notes :: string

record conditional_cvar_evidence =
  cve_cvar_level :: pyfloat
  cve_horizon_bars :: int
  cve_subpopulation_size :: int
  cve_effective_tail_sample :: int
  cve_hold_cvar :: pyfloat
  cve_flatten_cvar :: pyfloat
  cve_cvar_delta :: pyfloat
  cve_cpcv_fold_count :: int
  cve_cpcv_embargo_bars :: int
  cve_inv12_cost_multiplier :: pyfloat
  cve_inv12_latency_multiplier :: pyfloat
  cve_modeled_fills :: bool
  cve_path_cvar_deltas :: "pyfloat list"

record turnover_bound_evidence =
  tbe_baseline_round_trips :: int
  tbe_deferral_round_trips :: int
  tbe_declared_max_ratio :: pyfloat
  tbe_observed_ratio :: pyfloat
  tbe_subpopulation_size :: int

record quote_freeze_backstop_evidence =
  qfe_quote_freeze_episodes :: int
  qfe_exited_by_session_flatten :: int
  qfe_breached_session_backstop :: int
  qfe_session_flatten_bound_seconds :: pyfloat
  qfe_max_hold_seconds_observed :: pyfloat


subsection \<open>Thresholds\<close>

datatype 'r threshold_field =
    Int_Field "'r \<Rightarrow> int" "int \<Rightarrow> 'r \<Rightarrow> 'r"
  | Float_Field "'r \<Rightarrow> pyfloat" "pyfloat \<Rightarrow> 'r \<Rightarrow> 'r"

datatype floor_direction = Min_Direction | Max_Direction | Free_Direction

record gate_thresholds =
  gt_research_min_branch_coverage_pct :: pyfloat
  gt_research_min_line_coverage_pct :: pyfloat
  gt_research_min_fault_injection_pass_pct :: pyfloat
  gt_paper_min_trading_days :: int
  gt_paper_min_sample_size :: int
  gt_paper_max_slippage_residual_bps :: pyfloat
  gt_paper_max_fill_rate_drift_pct :: pyfloat
  gt_paper_min_latency_ks_p :: pyfloat
  gt_paper_min_pnl_compression_ratio :: pyfloat
  gt_paper_max_pnl_compression_ratio :: pyfloat
  gt_paper_max_anomalous_events :: int
  gt_cpcv_min_folds :: int
  gt_cpcv_min_mean_sharpe :: pyfloat
  gt_cpcv_max_p_value :: pyfloat
  gt_cpcv_min_embargo_bars :: int
  gt_dsr_min :: pyfloat
  gt_dsr_max_p_value :: pyfloat
  gt_small_min_deployment_days :: int
  gt_small_min_pnl_compression_ratio :: pyfloat
  gt_small_max_pnl_compression_ratio :: pyfloat
  gt_small_max_slippage_residual_bps :: pyfloat
  gt_small_max_hit_rate_residual_pp :: pyfloat
  gt_small_max_fill_rate_drift_pct :: pyfloat
  gt_quarantine_max_net_alpha_negative_days :: int
  gt_quarantine_max_hit_rate_residual_pp :: pyfloat
  gt_quarantine_max_pnl_compression_ratio_5d :: pyfloat
  gt_quarantine_min_microstructure_breaches :: int
  gt_quarantine_min_crowding_symptoms :: int
  gt_revalidation_min_oos_sharpe :: pyfloat
  gt_decouple_cvar_max_level :: pyfloat
  gt_decouple_cvar_min_tail_sample :: int
  gt_decouple_cvar_tolerance :: pyfloat
  gt_decouple_cvar_min_folds :: int
  gt_decouple_cvar_min_embargo_bars :: int
  gt_decouple_turnover_ceiling_ratio :: pyfloat
  gt_decouple_turnover_min_sample :: int
  gt_decouple_quote_freeze_min_episodes :: int

definition default_thresholds :: gate_thresholds where
  "default_thresholds = \<lparr>gt_research_min_branch_coverage_pct = (float_lit 90),
     gt_research_min_line_coverage_pct = (float_lit 80),
     gt_research_min_fault_injection_pass_pct = (float_lit 100),
     gt_paper_min_trading_days = 5,
     gt_paper_min_sample_size = 0,
     gt_paper_max_slippage_residual_bps = (float_lit (3 / 2)),
     gt_paper_max_fill_rate_drift_pct = (float_lit 10),
     gt_paper_min_latency_ks_p = (float_lit (1 / 10)),
     gt_paper_min_pnl_compression_ratio = (float_lit (3 / 5)),
     gt_paper_max_pnl_compression_ratio = (float_lit (6 / 5)),
     gt_paper_max_anomalous_events = 0,
     gt_cpcv_min_folds = 8,
     gt_cpcv_min_mean_sharpe = (float_lit 1),
     gt_cpcv_max_p_value = (float_lit (1 / 20)),
     gt_cpcv_min_embargo_bars = 1,
     gt_dsr_min = (float_lit 1),
     gt_dsr_max_p_value = (float_lit (1 / 20)),
     gt_small_min_deployment_days = 10,
     gt_small_min_pnl_compression_ratio = (float_lit (1 / 2)),
     gt_small_max_pnl_compression_ratio = (float_lit 1),
     gt_small_max_slippage_residual_bps = (float_lit (5 / 2)),
     gt_small_max_hit_rate_residual_pp = (float_lit (- 5)),
     gt_small_max_fill_rate_drift_pct = (float_lit 10),
     gt_quarantine_max_net_alpha_negative_days = 10,
     gt_quarantine_max_hit_rate_residual_pp = (float_lit (- 15)),
     gt_quarantine_max_pnl_compression_ratio_5d = (float_lit (3 / 10)),
     gt_quarantine_min_microstructure_breaches = 2,
     gt_quarantine_min_crowding_symptoms = 3,
     gt_revalidation_min_oos_sharpe = (float_lit 1),
     gt_decouple_cvar_max_level = (float_lit (1 / 10)),
     gt_decouple_cvar_min_tail_sample = 20,
     gt_decouple_cvar_tolerance = (float_lit 0),
     gt_decouple_cvar_min_folds = 8,
     gt_decouple_cvar_min_embargo_bars = 1,
     gt_decouple_turnover_ceiling_ratio = (float_lit (3 / 2)),
     gt_decouple_turnover_min_sample = 20,
     gt_decouple_quote_freeze_min_episodes = 1\<rparr>"

definition threshold_fields :: "(string \<times> gate_thresholds threshold_field) list" where
  \<comment> \<open>the fields of \<open>GateThresholds\<close> with their type, accessor and update\<close>
  "threshold_fields =
    [(''research_min_branch_coverage_pct'', Float_Field gt_research_min_branch_coverage_pct (\<lambda>v. gt_research_min_branch_coverage_pct_update (\<lambda>_. v))),
     (''research_min_line_coverage_pct'', Float_Field gt_research_min_line_coverage_pct (\<lambda>v. gt_research_min_line_coverage_pct_update (\<lambda>_. v))),
     (''research_min_fault_injection_pass_pct'', Float_Field gt_research_min_fault_injection_pass_pct (\<lambda>v. gt_research_min_fault_injection_pass_pct_update (\<lambda>_. v))),
     (''paper_min_trading_days'', Int_Field gt_paper_min_trading_days (\<lambda>v. gt_paper_min_trading_days_update (\<lambda>_. v))),
     (''paper_min_sample_size'', Int_Field gt_paper_min_sample_size (\<lambda>v. gt_paper_min_sample_size_update (\<lambda>_. v))),
     (''paper_max_slippage_residual_bps'', Float_Field gt_paper_max_slippage_residual_bps (\<lambda>v. gt_paper_max_slippage_residual_bps_update (\<lambda>_. v))),
     (''paper_max_fill_rate_drift_pct'', Float_Field gt_paper_max_fill_rate_drift_pct (\<lambda>v. gt_paper_max_fill_rate_drift_pct_update (\<lambda>_. v))),
     (''paper_min_latency_ks_p'', Float_Field gt_paper_min_latency_ks_p (\<lambda>v. gt_paper_min_latency_ks_p_update (\<lambda>_. v))),
     (''paper_min_pnl_compression_ratio'', Float_Field gt_paper_min_pnl_compression_ratio (\<lambda>v. gt_paper_min_pnl_compression_ratio_update (\<lambda>_. v))),
     (''paper_max_pnl_compression_ratio'', Float_Field gt_paper_max_pnl_compression_ratio (\<lambda>v. gt_paper_max_pnl_compression_ratio_update (\<lambda>_. v))),
     (''paper_max_anomalous_events'', Int_Field gt_paper_max_anomalous_events (\<lambda>v. gt_paper_max_anomalous_events_update (\<lambda>_. v))),
     (''cpcv_min_folds'', Int_Field gt_cpcv_min_folds (\<lambda>v. gt_cpcv_min_folds_update (\<lambda>_. v))),
     (''cpcv_min_mean_sharpe'', Float_Field gt_cpcv_min_mean_sharpe (\<lambda>v. gt_cpcv_min_mean_sharpe_update (\<lambda>_. v))),
     (''cpcv_max_p_value'', Float_Field gt_cpcv_max_p_value (\<lambda>v. gt_cpcv_max_p_value_update (\<lambda>_. v))),
     (''cpcv_min_embargo_bars'', Int_Field gt_cpcv_min_embargo_bars (\<lambda>v. gt_cpcv_min_embargo_bars_update (\<lambda>_. v))),
     (''dsr_min'', Float_Field gt_dsr_min (\<lambda>v. gt_dsr_min_update (\<lambda>_. v))),
     (''dsr_max_p_value'', Float_Field gt_dsr_max_p_value (\<lambda>v. gt_dsr_max_p_value_update (\<lambda>_. v))),
     (''small_min_deployment_days'', Int_Field gt_small_min_deployment_days (\<lambda>v. gt_small_min_deployment_days_update (\<lambda>_. v))),
     (''small_min_pnl_compression_ratio'', Float_Field gt_small_min_pnl_compression_ratio (\<lambda>v. gt_small_min_pnl_compression_ratio_update (\<lambda>_. v))),
     (''small_max_pnl_compression_ratio'', Float_Field gt_small_max_pnl_compression_ratio (\<lambda>v. gt_small_max_pnl_compression_ratio_update (\<lambda>_. v))),
     (''small_max_slippage_residual_bps'', Float_Field gt_small_max_slippage_residual_bps (\<lambda>v. gt_small_max_slippage_residual_bps_update (\<lambda>_. v))),
     (''small_max_hit_rate_residual_pp'', Float_Field gt_small_max_hit_rate_residual_pp (\<lambda>v. gt_small_max_hit_rate_residual_pp_update (\<lambda>_. v))),
     (''small_max_fill_rate_drift_pct'', Float_Field gt_small_max_fill_rate_drift_pct (\<lambda>v. gt_small_max_fill_rate_drift_pct_update (\<lambda>_. v))),
     (''quarantine_max_net_alpha_negative_days'', Int_Field gt_quarantine_max_net_alpha_negative_days (\<lambda>v. gt_quarantine_max_net_alpha_negative_days_update (\<lambda>_. v))),
     (''quarantine_max_hit_rate_residual_pp'', Float_Field gt_quarantine_max_hit_rate_residual_pp (\<lambda>v. gt_quarantine_max_hit_rate_residual_pp_update (\<lambda>_. v))),
     (''quarantine_max_pnl_compression_ratio_5d'', Float_Field gt_quarantine_max_pnl_compression_ratio_5d (\<lambda>v. gt_quarantine_max_pnl_compression_ratio_5d_update (\<lambda>_. v))),
     (''quarantine_min_microstructure_breaches'', Int_Field gt_quarantine_min_microstructure_breaches (\<lambda>v. gt_quarantine_min_microstructure_breaches_update (\<lambda>_. v))),
     (''quarantine_min_crowding_symptoms'', Int_Field gt_quarantine_min_crowding_symptoms (\<lambda>v. gt_quarantine_min_crowding_symptoms_update (\<lambda>_. v))),
     (''revalidation_min_oos_sharpe'', Float_Field gt_revalidation_min_oos_sharpe (\<lambda>v. gt_revalidation_min_oos_sharpe_update (\<lambda>_. v))),
     (''decouple_cvar_max_level'', Float_Field gt_decouple_cvar_max_level (\<lambda>v. gt_decouple_cvar_max_level_update (\<lambda>_. v))),
     (''decouple_cvar_min_tail_sample'', Int_Field gt_decouple_cvar_min_tail_sample (\<lambda>v. gt_decouple_cvar_min_tail_sample_update (\<lambda>_. v))),
     (''decouple_cvar_tolerance'', Float_Field gt_decouple_cvar_tolerance (\<lambda>v. gt_decouple_cvar_tolerance_update (\<lambda>_. v))),
     (''decouple_cvar_min_folds'', Int_Field gt_decouple_cvar_min_folds (\<lambda>v. gt_decouple_cvar_min_folds_update (\<lambda>_. v))),
     (''decouple_cvar_min_embargo_bars'', Int_Field gt_decouple_cvar_min_embargo_bars (\<lambda>v. gt_decouple_cvar_min_embargo_bars_update (\<lambda>_. v))),
     (''decouple_turnover_ceiling_ratio'', Float_Field gt_decouple_turnover_ceiling_ratio (\<lambda>v. gt_decouple_turnover_ceiling_ratio_update (\<lambda>_. v))),
     (''decouple_turnover_min_sample'', Int_Field gt_decouple_turnover_min_sample (\<lambda>v. gt_decouple_turnover_min_sample_update (\<lambda>_. v))),
     (''decouple_quote_freeze_min_episodes'', Int_Field gt_decouple_quote_freeze_min_episodes (\<lambda>v. gt_decouple_quote_freeze_min_episodes_update (\<lambda>_. v)))]"

definition threshold_directions :: "(string \<times> floor_direction) list" where
  "threshold_directions =
    [(''research_min_branch_coverage_pct'', Min_Direction),
     (''research_min_line_coverage_pct'', Min_Direction),
     (''research_min_fault_injection_pass_pct'', Min_Direction),
     (''paper_min_trading_days'', Min_Direction),
     (''paper_min_sample_size'', Min_Direction),
     (''paper_max_slippage_residual_bps'', Max_Direction),
     (''paper_max_fill_rate_drift_pct'', Max_Direction),
     (''paper_min_latency_ks_p'', Min_Direction),
     (''paper_min_pnl_compression_ratio'', Min_Direction),
     (''paper_max_pnl_compression_ratio'', Max_Direction),
     (''paper_max_anomalous_events'', Max_Direction),
     (''cpcv_min_folds'', Min_Direction),
     (''cpcv_min_mean_sharpe'', Min_Direction),
     (''cpcv_max_p_value'', Max_Direction),
     (''cpcv_min_embargo_bars'', Min_Direction),
     (''dsr_min'', Min_Direction),
     (''dsr_max_p_value'', Max_Direction),
     (''small_min_deployment_days'', Min_Direction),
     (''small_min_pnl_compression_ratio'', Min_Direction),
     (''small_max_pnl_compression_ratio'', Max_Direction),
     (''small_max_slippage_residual_bps'', Max_Direction),
     (''small_max_hit_rate_residual_pp'', Min_Direction),
     (''small_max_fill_rate_drift_pct'', Max_Direction),
     (''quarantine_max_net_alpha_negative_days'', Free_Direction),
     (''quarantine_max_hit_rate_residual_pp'', Free_Direction),
     (''quarantine_max_pnl_compression_ratio_5d'', Free_Direction),
     (''quarantine_min_microstructure_breaches'', Free_Direction),
     (''quarantine_min_crowding_symptoms'', Free_Direction),
     (''revalidation_min_oos_sharpe'', Min_Direction),
     (''decouple_cvar_max_level'', Max_Direction),
     (''decouple_cvar_min_tail_sample'', Min_Direction),
     (''decouple_cvar_tolerance'', Max_Direction),
     (''decouple_cvar_min_folds'', Min_Direction),
     (''decouple_cvar_min_embargo_bars'', Min_Direction),
     (''decouple_turnover_ceiling_ratio'', Max_Direction),
     (''decouple_turnover_min_sample'', Min_Direction),
     (''decouple_quote_freeze_min_episodes'', Min_Direction)]"

subsection \<open>Validators\<close>

definition complain :: "bool \<Rightarrow> string \<Rightarrow> string list" where
  \<comment> \<open>append an error under a condition\<close>
  "complain bad msg = (if bad then [msg] else [])"

definition validate_research_acceptance :: "research_acceptance_evidence \<Rightarrow> gate_thresholds \<Rightarrow> string list" where
  "validate_research_acceptance e t =
     complain (\<not> rae_schema_valid e) ''schema validation has not passed''
     @ complain (\<not> rae_determinism_replay_passed e) ''determinism replay has not passed''
     @ complain (fless (rae_branch_coverage_pct e) (gt_research_min_branch_coverage_pct t)) ''branch coverage''
     @ complain (fless (rae_line_coverage_pct e) (gt_research_min_line_coverage_pct t)) ''line coverage''
     @ complain (\<not> rae_lookahead_bias_check_passed e) ''lookahead-bias check has not passed''
     @ (if rae_fault_injection_total e \<le> 0 then [''no fault-injection cases run'']
        else let pass_pct = Fin (fl_div (fl_mul 100 (float_of_int (rae_fault_injection_pass_count e))) (float_of_int (rae_fault_injection_total e)))
             in complain (fless pass_pct (gt_research_min_fault_injection_pass_pct t)) ''fault-injection pass rate'')
     @ complain (\<not> rae_cost_sensitivity_passed e) ''cost-sensitivity gate has not passed''
     @ complain (\<not> rae_latency_sensitivity_passed e) ''latency-sensitivity gate has not passed''"

definition is_well_formed_curve_hash :: "string \<Rightarrow> bool" where
  "is_well_formed_curve_hash s \<longleftrightarrow> take 7 s = ''sha256:'' \<and> length (drop 7 s) = 64
     \<and> list_all (\<lambda>c. c \<in> set ''0123456789abcdef'') (drop 7 s)"

definition validate_cpcv :: "cpcv_evidence \<Rightarrow> gate_thresholds \<Rightarrow> string list" where
  "validate_cpcv e t =
     complain (cpe_fold_count e < gt_cpcv_min_folds t) ''fold_count below minimum''
     @ complain (0 < cpe_fold_count e \<and> int (length (cpe_fold_sharpes e)) \<noteq> cpe_fold_count e) ''fold_count inconsistent''
     @ (if list_ex (\<lambda>x. \<not> is_finite x) (cpe_fold_sharpes e) then [''fold_sharpes contains non-finite values'']
        else if cpe_fold_sharpes e \<noteq> [] then
          complain (\<not> is_close (cpe_mean_sharpe e) (fmean (cpe_fold_sharpes e)) (1 / 10 ^ 6) (1 / 10 ^ 9)) ''mean_sharpe does not match''
          @ complain (\<not> is_close (cpe_median_sharpe e) (fmedian (cpe_fold_sharpes e)) (1 / 10 ^ 6) (1 / 10 ^ 9)) ''median_sharpe does not match''
        else [])
     @ complain (fless (cpe_mean_sharpe e) (gt_cpcv_min_mean_sharpe t)) ''mean Sharpe below minimum''
     @ (if \<not> (fless (Fin 0) (cpe_p_value e) \<and> fleq (cpe_p_value e) (Fin 1)) then [''p_value is outside (0, 1]'']
        else complain (fless (gt_cpcv_max_p_value t) (cpe_p_value e)) ''p-value above threshold'')
     @ complain (cpe_embargo_bars e < gt_cpcv_min_embargo_bars t) ''embargo_bars below minimum''
     @ complain (cpe_fold_pnl_curves_hash e \<noteq> '''' \<and> \<not> is_well_formed_curve_hash (cpe_fold_pnl_curves_hash e)) ''curves hash malformed''"

definition validate_dsr :: "dsr_evidence \<Rightarrow> gate_thresholds \<Rightarrow> string list" where
  "validate_dsr e t =
     concat (map (\<lambda>(name, x). complain (\<not> is_finite x) (name @ '' is non-finite''))
       [(''observed_sharpe'', dse_observed_sharpe e), (''skewness'', dse_skewness e), (''kurtosis'', dse_kurtosis e),
        (''dsr'', dse_dsr e), (''dsr_p_value'', dse_dsr_p_value e)])
     @ complain (\<not> (fleq (Fin 0) (dse_dsr_p_value e) \<and> fleq (dse_dsr_p_value e) (Fin 1))) ''dsr_p_value is outside [0, 1]''
     @ complain (fless (dse_dsr e) (gt_dsr_min t)) ''DSR below minimum''
     @ complain (fless (gt_dsr_max_p_value t) (dse_dsr_p_value e)) ''DSR p-value above threshold''
     @ complain (dse_trials_count e \<le> 0) ''trials_count must be > 0''"

definition validate_paper_window :: "paper_window_evidence \<Rightarrow> gate_thresholds \<Rightarrow> string list" where
  "validate_paper_window e t =
     complain (pwe_trading_days e < gt_paper_min_trading_days t) ''trading_days below minimum''
     @ complain (pwe_sample_size e < gt_paper_min_sample_size t) ''sample_size below minimum''
     @ complain (fless (gt_paper_max_slippage_residual_bps t) (pwe_slippage_residual_bps e)) ''slippage residual above limit''
     @ complain (fless (gt_paper_max_fill_rate_drift_pct t) (fabs (pwe_fill_rate_drift_pct e))) ''fill-rate drift exceeds band''
     @ complain (fless (pwe_latency_ks_p e) (gt_paper_min_latency_ks_p t)) ''latency KS p-value below threshold''
     @ complain (fless (pwe_pnl_compression_ratio e) (gt_paper_min_pnl_compression_ratio t)) ''PnL compression below minimum''
     @ complain (fless (gt_paper_max_pnl_compression_ratio t) (pwe_pnl_compression_ratio e)) ''PnL compression above alert''
     @ complain (gt_paper_max_anomalous_events t < pwe_anomalous_event_count e) ''anomalous events''"

definition validate_capital_stage :: "capital_stage_evidence \<Rightarrow> gate_thresholds \<Rightarrow> string list" where
  "validate_capital_stage e t =
     complain (cse_deployment_days e < gt_small_min_deployment_days t) ''deployment_days below minimum''
     @ complain (fless (cse_pnl_compression_ratio_realised e) (gt_small_min_pnl_compression_ratio t)) ''PnL compression below minimum''
     @ complain (fless (gt_small_max_pnl_compression_ratio t) (cse_pnl_compression_ratio_realised e)) ''PnL compression above alert''
     @ complain (fless (gt_small_max_slippage_residual_bps t) (cse_slippage_residual_bps e)) ''slippage residual above limit''
     @ complain (fless (cse_hit_rate_residual_pp e) (gt_small_max_hit_rate_residual_pp t)) ''hit-rate residual below floor''
     @ complain (fless (gt_small_max_fill_rate_drift_pct t) (fabs (cse_fill_rate_drift_pct e))) ''fill-rate drift exceeds band''
     @ complain (cse_tier e \<noteq> SMALL_CAPITAL) ''tier must be SMALL_CAPITAL''"

definition validate_quarantine_trigger :: "quarantine_trigger_evidence \<Rightarrow> gate_thresholds \<Rightarrow> string list" where
  "validate_quarantine_trigger e t =
     (let triggered = gt_quarantine_max_net_alpha_negative_days t \<le> qte_net_alpha_negative_days e
            \<or> fleq (qte_hit_rate_residual_pp e) (gt_quarantine_max_hit_rate_residual_pp t)
            \<or> fleq (qte_pnl_compression_ratio_5d e) (gt_quarantine_max_pnl_compression_ratio_5d t)
            \<or> gt_quarantine_min_microstructure_breaches t \<le> int (length (qte_microstructure_metrics_breached e))
            \<or> gt_quarantine_min_crowding_symptoms t \<le> int (length (qte_crowding_symptoms e))
      in if triggered then [] else [''quarantine trigger evidence is below every documented threshold''])"

definition validate_revalidation :: "revalidation_evidence \<Rightarrow> gate_thresholds \<Rightarrow> string list" where
  "validate_revalidation e t =
     complain (\<not> rve_hypothesis_re_derived e) ''hypothesis has not been re-derived''
     @ complain (fless (rve_oos_walkforward_sharpe e) (gt_revalidation_min_oos_sharpe t)) ''OOS walk-forward Sharpe below minimum''
     @ complain (\<not> rve_parameter_drift_resolved e) ''parameter drift has not been resolved''
     @ complain (blank (rve_human_signoff e)) ''revalidation requires a non-empty human_signoff''"

text \<open>The locked stress floors of core/inv12\_stress.py, less the tolerance of \<open>1e-9\<close>.\<close>

definition inv12_cost_floor :: pyfloat where
  "inv12_cost_floor = Fin (fl_sub (fl_round (3 / 2)) (fl_round (1 / 10 ^ 9)))"

definition inv12_latency_floor :: pyfloat where
  "inv12_latency_floor = Fin (fl_sub 2 (fl_round (1 / 10 ^ 9)))"

definition expected_tail :: "pyfloat \<Rightarrow> int \<Rightarrow> int" where
  \<comment> \<open>\<open>int(level * n)\<close> for a finite product that is not negative\<close>
  "expected_tail level n = \<lfloor>fl_mul (finite_part level) (float_of_int n)\<rfloor>"

definition cvar_integrity :: "conditional_cvar_evidence \<Rightarrow> gate_thresholds \<Rightarrow> string list" where
  "cvar_integrity e t =
     complain (\<not> (fless (Fin 0) (cve_cvar_level e) \<and> fleq (cve_cvar_level e) (gt_decouple_cvar_max_level t))) ''CVaR level outside range''
     @ complain (cve_horizon_bars e \<le> 0) ''horizon_bars must be > 0''
     @ complain (cve_subpopulation_size e < 0) ''subpopulation_size must be >= 0''
     @ complain (cve_effective_tail_sample e < 0) ''effective_tail_sample must be >= 0''
     @ complain (cve_subpopulation_size e < cve_effective_tail_sample e) ''effective_tail_sample above subpopulation_size''
     @ (if fless (Fin 0) (cve_cvar_level e) \<and> fleq (cve_cvar_level e) (Fin 1) \<and> 0 \<le> cve_subpopulation_size e
        then complain (cve_effective_tail_sample e \<noteq> expected_tail (cve_cvar_level e) (cve_subpopulation_size e)) ''spoofed tail power'' else [])
     @ concat (map (\<lambda>(name, x). complain (\<not> is_finite x) (name @ '' is non-finite''))
         [(''hold_cvar'', cve_hold_cvar e), (''flatten_cvar'', cve_flatten_cvar e), (''cvar_delta'', cve_cvar_delta e)])
     @ (if list_ex (\<lambda>x. \<not> is_finite x) (cve_path_cvar_deltas e) then [''path_cvar_deltas contains non-finite values'']
        else complain (\<not> is_close (cve_cvar_delta e) (fsub (cve_hold_cvar e) (cve_flatten_cvar e)) (1 / 10 ^ 6) (1 / 10 ^ 12)) ''cvar_delta does not match''
          @ (if cve_path_cvar_deltas e \<noteq> []
             then complain (\<not> is_close (cve_cvar_delta e) (fmean (cve_path_cvar_deltas e)) (1 / 10 ^ 6) (1 / 10 ^ 12)) ''cvar_delta does not match paths''
             else []))
     @ complain (0 < cve_cpcv_fold_count e \<and> int (length (cve_path_cvar_deltas e)) \<noteq> cve_cpcv_fold_count e) ''cpcv_fold_count inconsistent''"

definition validate_conditional_cvar :: "conditional_cvar_evidence \<Rightarrow> gate_thresholds \<Rightarrow> string list" where
  "validate_conditional_cvar e t =
     cvar_integrity e t
     @ complain (\<not> cve_modeled_fills e) ''CVaR must be estimated on modeled fills''
     @ complain (fless (cve_inv12_cost_multiplier e) inv12_cost_floor) ''cost multiplier below the stress floor''
     @ complain (fless (cve_inv12_latency_multiplier e) inv12_latency_floor) ''latency multiplier below the stress floor''
     @ complain (cve_effective_tail_sample e < gt_decouple_cvar_min_tail_sample t) ''tail under-powered''
     @ complain (cve_cpcv_fold_count e < gt_decouple_cvar_min_folds t) ''cpcv_fold_count below minimum''
     @ complain (cve_cpcv_embargo_bars e < gt_decouple_cvar_min_embargo_bars t) ''cpcv_embargo_bars below minimum''
     @ complain (fless (cve_cvar_delta e) (fneg (gt_decouple_cvar_tolerance t))) ''hold tail worse than flatten''"

definition validate_turnover_bound :: "turnover_bound_evidence \<Rightarrow> gate_thresholds \<Rightarrow> string list" where
  "validate_turnover_bound e t =
     complain (tbe_baseline_round_trips e \<le> 0) ''baseline_round_trips must be > 0''
     @ complain (tbe_deferral_round_trips e < 0) ''deferral_round_trips must be >= 0''
     @ complain (tbe_subpopulation_size e < gt_decouple_turnover_min_sample t) ''turnover under-powered''
     @ (if fleq (tbe_declared_max_ratio e) (Fin 0) then [''declared_max_ratio must be > 0'']
        else complain (fless (gt_decouple_turnover_ceiling_ratio t) (tbe_declared_max_ratio e)) ''declared_max_ratio above platform ceiling'')
     @ (if 0 < tbe_baseline_round_trips e
        then complain (\<not> is_close (tbe_observed_ratio e)
               (Fin (fl_div (of_int (tbe_deferral_round_trips e)) (of_int (tbe_baseline_round_trips e)))) (1 / 10 ^ 6) (1 / 10 ^ 12)) ''observed_ratio does not match''
        else [])
     @ complain (fless (tbe_declared_max_ratio e) (tbe_observed_ratio e)) ''observed_ratio above declared bound''"

definition validate_quote_freeze_backstop :: "quote_freeze_backstop_evidence \<Rightarrow> gate_thresholds \<Rightarrow> string list" where
  "validate_quote_freeze_backstop e t =
     complain (qfe_quote_freeze_episodes e < gt_decouple_quote_freeze_min_episodes t) ''session backstop was not exercised''
     @ complain (fleq (qfe_session_flatten_bound_seconds e) (Fin 0)) ''session_flatten_bound_seconds must be > 0''
     @ complain (0 < qfe_breached_session_backstop e) ''episodes past session_flatten''
     @ complain (qfe_exited_by_session_flatten e \<noteq> qfe_quote_freeze_episodes e) ''not every episode exited''
     @ complain (fless (qfe_session_flatten_bound_seconds e) (qfe_max_hold_seconds_observed e)) ''max hold exceeds bound''"

subsection \<open>The gate matrix\<close>

datatype evidence =
    Research_Acceptance research_acceptance_evidence
  | CPCV cpcv_evidence
  | DSR dsr_evidence
  | Paper_Window paper_window_evidence
  | Capital_Stage capital_stage_evidence
  | Quarantine_Trigger quarantine_trigger_evidence
  | Revalidation revalidation_evidence
  | Conditional_CVaR conditional_cvar_evidence
  | Turnover_Bound turnover_bound_evidence
  | Quote_Freeze_Backstop quote_freeze_backstop_evidence
  | Unregistered string   \<comment> \<open>any other object, by the name of its type\<close>

text \<open>The type of a package is its kind in the registry; nothing else is registered.\<close>

fun evidence_kind :: "evidence \<Rightarrow> string option" where
  "evidence_kind (Research_Acceptance e) = Some ''research_acceptance''"
| "evidence_kind (CPCV e) = Some ''cpcv''"
| "evidence_kind (DSR e) = Some ''dsr''"
| "evidence_kind (Paper_Window e) = Some ''paper_window''"
| "evidence_kind (Capital_Stage e) = Some ''capital_stage''"
| "evidence_kind (Quarantine_Trigger e) = Some ''quarantine_trigger''"
| "evidence_kind (Revalidation e) = Some ''revalidation''"
| "evidence_kind (Conditional_CVaR e) = Some ''conditional_cvar''"
| "evidence_kind (Turnover_Bound e) = Some ''turnover_bound''"
| "evidence_kind (Quote_Freeze_Backstop e) = Some ''quote_freeze_backstop''"
| "evidence_kind (Unregistered ty) = None"

definition registered_kinds :: "string list" where
  "registered_kinds = [''research_acceptance'', ''cpcv'', ''dsr'', ''paper_window'', ''capital_stage'', ''quarantine_trigger'',
     ''revalidation'', ''conditional_cvar'', ''turnover_bound'', ''quote_freeze_backstop'']"

fun run_validator :: "evidence \<Rightarrow> gate_thresholds \<Rightarrow> string list" where
  "run_validator (Research_Acceptance e) t = validate_research_acceptance e t"
| "run_validator (CPCV e) t = validate_cpcv e t"
| "run_validator (DSR e) t = validate_dsr e t"
| "run_validator (Paper_Window e) t = validate_paper_window e t"
| "run_validator (Capital_Stage e) t = validate_capital_stage e t"
| "run_validator (Quarantine_Trigger e) t = validate_quarantine_trigger e t"
| "run_validator (Revalidation e) t = validate_revalidation e t"
| "run_validator (Conditional_CVaR e) t = validate_conditional_cvar e t"
| "run_validator (Turnover_Bound e) t = validate_turnover_bound e t"
| "run_validator (Quote_Freeze_Backstop e) t = validate_quote_freeze_backstop e t"
| "run_validator (Unregistered ty) t = []"

fun required_evidence :: "gate_id \<Rightarrow> string list" where
  "required_evidence RESEARCH_TO_PAPER = [''research_acceptance'']"
| "required_evidence PAPER_TO_LIVE = [''paper_window'', ''cpcv'', ''dsr'']"
| "required_evidence LIVE_PROMOTE_CAPITAL_TIER = [''capital_stage'']"
| "required_evidence LIVE_TO_QUARANTINED = [''quarantine_trigger'']"
| "required_evidence QUARANTINED_TO_PAPER = [''revalidation'']"
| "required_evidence QUARANTINED_TO_DECOMMISSIONED = []"
| "required_evidence DECOUPLE_CAPS_ONLY = [''conditional_cvar'', ''turnover_bound'', ''quote_freeze_backstop'']"

fun index_evidence :: "evidence list \<Rightarrow> (string \<times> evidence) list \<Rightarrow> string list \<times> (string \<times> evidence) list" where
  \<comment> \<open>the packages by type, and the complaints about the others\<close>
  "index_evidence [] by_type = ([], by_type)"
| "index_evidence (e # es) by_type = (case evidence_kind e of
     None \<Rightarrow> (case index_evidence es by_type of (errors, b) \<Rightarrow> (''unsupported evidence type'' # errors, b))
   | Some k \<Rightarrow> (if map_of by_type k \<noteq> None
       then case index_evidence es by_type of (errors, b) \<Rightarrow> (''duplicate evidence type'' # errors, b)
       else index_evidence es (by_type @ [(k, e)])))"

definition validate_gate :: "gate_id \<Rightarrow> evidence list \<Rightarrow> gate_thresholds \<Rightarrow> string list" where
  "validate_gate g es t =
     (case index_evidence es [] of (errors, by_type) \<Rightarrow>
        errors
        @ concat (map (\<lambda>k. complain (map_of by_type k = None) (''gate requires evidence of type '' @ k)) (required_evidence g))
        @ concat (map (\<lambda>k. case map_of by_type k of None \<Rightarrow> [] | Some e \<Rightarrow> run_validator e t) (required_evidence g)))"

subsection \<open>Threshold overrides and floors\<close>

datatype threshold_value = Int_Value int | Float_Value pyfloat

fun coerce_threshold :: "gate_thresholds threshold_field \<Rightarrow> meta \<Rightarrow> threshold_value result" where
  "coerce_threshold (Int_Field get upd) (MInt i) = Inr (Int_Value i)"
| "coerce_threshold (Int_Field get upd) _ = Inl (ValueError ''expects int'')"
| "coerce_threshold (Float_Field get upd) (MInt i) = Inr (Float_Value (Fin (float_of_int i)))"
| "coerce_threshold (Float_Field get upd) (MFloat x) = Inr (Float_Value x)"
| "coerce_threshold (Float_Field get upd) _ = Inl (ValueError ''expects float'')"

fun coerce_all :: "(string \<times> meta) list \<Rightarrow> (string \<times> threshold_value) list result" where
  "coerce_all [] = Inr []"
| "coerce_all ((name, v) # raw) = (case map_of threshold_fields name of
     None \<Rightarrow> Inl (KeyError name)
   | Some f \<Rightarrow> bind_result (coerce_threshold f v) (\<lambda>c. bind_result (coerce_all raw) (\<lambda>rest. Inr ((name, c) # rest))))"

definition parse_overrides :: "meta \<Rightarrow> (string \<times> threshold_value) list result" where
  "parse_overrides raw = (case raw of
     MNone \<Rightarrow> Inr []
   | MDict d \<Rightarrow> if list_ex (\<lambda>(name, v). map_of threshold_fields name = None) d then Inl (ValueError ''unknown field'') else coerce_all d
   | _ \<Rightarrow> Inl (ValueError ''overrides must be a mapping''))"

fun field_set :: "'r threshold_field \<Rightarrow> threshold_value \<Rightarrow> 'r \<Rightarrow> 'r" where
  "field_set (Int_Field get upd) (Int_Value i) t = upd i t"
| "field_set (Float_Field get upd) (Float_Value x) t = upd x t"
| "field_set _ _ t = t"

fun field_get :: "'r threshold_field \<Rightarrow> 'r \<Rightarrow> threshold_value" where
  "field_get (Int_Field get upd) t = Int_Value (get t)"
| "field_get (Float_Field get upd) t = Float_Value (get t)"

fun set_threshold :: "string \<times> threshold_value \<Rightarrow> gate_thresholds \<Rightarrow> gate_thresholds" where
  \<comment> \<open>one keyword of \<open>dataclasses.replace\<close>\<close>
  "set_threshold (name, v) t = (case map_of threshold_fields name of None \<Rightarrow> t | Some f \<Rightarrow> field_set f v t)"

definition apply_overrides :: "gate_thresholds \<Rightarrow> meta \<Rightarrow> gate_thresholds result" where
  "apply_overrides t raw = bind_result (parse_overrides raw) (\<lambda>parsed. Inr (if parsed = [] then t else fold set_threshold parsed t))"

definition threshold_of :: "string \<Rightarrow> gate_thresholds \<Rightarrow> threshold_value option" where
  \<comment> \<open>\<open>getattr\<close>\<close>
  "threshold_of name t = map_option (\<lambda>f. field_get f t) (map_of threshold_fields name)"

fun value_less :: "threshold_value \<Rightarrow> threshold_value \<Rightarrow> bool" where
  "value_less (Int_Value i) (Int_Value j) = (i < j)"
| "value_less (Float_Value x) (Float_Value y) = fless x y"
| "value_less (Int_Value i) (Float_Value y) = fless (Fin (of_int i)) y"
| "value_less (Float_Value x) (Int_Value j) = fless x (Fin (of_int j))"

definition loosens :: "gate_thresholds \<Rightarrow> string list \<Rightarrow> string \<times> threshold_value \<Rightarrow> bool" where
  \<comment> \<open>an override of a pinned field on the wrong side of the platform's value\<close>
  "loosens platform pinned override = (case override of (name, proposed) \<Rightarrow>
     name \<in> set pinned \<and> (case (map_of threshold_directions name, threshold_of name platform) of
       (Some Min_Direction, Some v) \<Rightarrow> value_less proposed v
     | (Some Max_Direction, Some v) \<Rightarrow> value_less v proposed
     | _ \<Rightarrow> False))"

definition assert_respects_floor :: "gate_thresholds \<Rightarrow> string list \<Rightarrow> (string \<times> threshold_value) list \<Rightarrow> unit result" where
  "assert_respects_floor platform pinned overrides =
     (if list_ex (loosens platform pinned) overrides then Inl (ValueError ''GateThresholdFloorError'') else Inr ())"

subsection \<open>Thresholds of a registered alpha (alpha/registry.py)\<close>

fun as_meta :: "threshold_value \<Rightarrow> meta" where
  "as_meta (Int_Value i) = MInt i"
| "as_meta (Float_Value x) = MFloat x"

definition overrides_meta :: "(string \<times> threshold_value) list \<Rightarrow> meta" where
  \<comment> \<open>a parsed override mapping, given to the parser again\<close>
  "overrides_meta overrides = MDict (map (\<lambda>(name, v). (name, as_meta v)) overrides)"

definition base_thresholds :: "gate_thresholds option \<Rightarrow> gate_thresholds" where
  "base_thresholds platform = (case platform of None \<Rightarrow> default_thresholds | Some t \<Rightarrow> t)"

definition enforce_threshold_floor :: "gate_thresholds option \<Rightarrow> string list \<Rightarrow> (string \<times> threshold_value) list \<Rightarrow> unit result" where
  "enforce_threshold_floor platform pinned overrides =
     (if overrides = [] \<or> pinned = [] then Inr ()
      else case assert_respects_floor (base_thresholds platform) pinned overrides of
        Inl e \<Rightarrow> Inl (OtherException ''AlphaRegistryError'') | Inr u \<Rightarrow> Inr u)"

definition resolve_gate_thresholds :: "gate_thresholds option \<Rightarrow> (string \<times> threshold_value) list \<Rightarrow> gate_thresholds option result" where
  "resolve_gate_thresholds platform overrides =
     (if overrides = [] then Inr platform
      else bind_result (apply_overrides (base_thresholds platform) (overrides_meta overrides)) (\<lambda>t. Inr (Some t)))"

definition register_thresholds :: "gate_thresholds option \<Rightarrow> string list \<Rightarrow> (string \<times> threshold_value) list \<Rightarrow> gate_thresholds result" where
  \<comment> \<open>what \<open>register\<close> does with the thresholds; the lifecycle replaces an absent object by the defaults\<close>
  "register_thresholds platform pinned overrides =
     bind_result (enforce_threshold_floor platform pinned overrides) (\<lambda>_.
       bind_result (resolve_gate_thresholds platform overrides) (\<lambda>t. Inr (base_thresholds t)))"

subsection \<open>Tighter thresholds accept less\<close>

fun value_leq :: "threshold_value \<Rightarrow> threshold_value \<Rightarrow> bool" where
  "value_leq (Int_Value i) (Int_Value j) = (i \<le> j)"
| "value_leq (Float_Value x) (Float_Value y) = fleq x y"
| "value_leq _ _ = False"

fun tighter :: "floor_direction \<Rightarrow> threshold_value \<Rightarrow> threshold_value \<Rightarrow> bool" where
  "tighter Min_Direction old new = value_leq old new"
| "tighter Max_Direction old new = value_leq new old"
| "tighter Free_Direction old new = True"

definition field_tightened :: "gate_thresholds \<Rightarrow> gate_thresholds \<Rightarrow> string \<times> floor_direction \<Rightarrow> bool" where
  "field_tightened t t' field = (case (threshold_of (fst field) t, threshold_of (fst field) t') of
     (Some v, Some v') \<Rightarrow> tighter (snd field) v v' | _ \<Rightarrow> False)"

definition tightens :: "gate_thresholds \<Rightarrow> gate_thresholds \<Rightarrow> bool" where
  "tightens t t' \<longleftrightarrow> list_all (field_tightened t t') threshold_directions"

lemma fless_irrefl [simp]: "\<not> fless x x"
  by (cases x) simp_all

lemma fless_fleq_trans: "fless x a \<Longrightarrow> fleq a b \<Longrightarrow> fless x b"
  by (cases x; cases a; cases b) (auto simp: fleq_def feq_def)

lemma fleq_fless_trans: "fleq b a \<Longrightarrow> fless a x \<Longrightarrow> fless b x"
  by (cases x; cases a; cases b) (auto simp: fleq_def feq_def)

lemma fleq_trans: "fleq x a \<Longrightarrow> fleq a b \<Longrightarrow> fleq x b"
  by (cases x; cases a; cases b) (auto simp: fleq_def feq_def)

lemma fleq_fneg: "fleq a b \<Longrightarrow> fleq (fneg b) (fneg a)"
  by (cases a; cases b) (auto simp: fleq_def feq_def)

lemma fleq_iff_not_fless: "x \<noteq> NaN \<Longrightarrow> y \<noteq> NaN \<Longrightarrow> fleq x y \<longleftrightarrow> \<not> fless y x"
  by (cases x; cases y) (auto simp: fleq_def feq_def)

lemma complain_Nil [simp]: "complain bad msg = [] \<longleftrightarrow> \<not> bad"
  by (simp add: complain_def)

lemma threshold_names: "map fst threshold_directions = map fst threshold_fields" "distinct (map fst threshold_fields)"
  by (simp add: threshold_directions_def threshold_fields_def, code_simp)

lemma lookup_by_position:
  assumes "distinct (map fst fs)" "map fst ds = map fst fs"
  shows "list_all (\<lambda>d. P (map_of fs (fst d)) (snd d)) ds \<longleftrightarrow> list_all2 (\<lambda>d f. P (Some (snd f)) (snd d)) ds fs"
proof -
  have n: "length ds = length fs" using assms(2) by (metis length_map)
  have "map_of fs (fst (ds ! i)) = Some (snd (fs ! i))" if "i < length fs" for i
  proof -
    have "fst (ds ! i) = fst (fs ! i)" using assms(2) that n by (metis nth_map)
    moreover have "(fst (fs ! i), snd (fs ! i)) \<in> set fs" using that by simp
    ultimately show ?thesis using map_of_is_SomeI[OF assms(1)] by simp
  qed
  then show ?thesis using n by (simp add: list_all_length list_all2_conv_all_nth)
qed

lemma tightens_by_position: "tightens t t' \<longleftrightarrow> list_all2 (\<lambda>d f. tighter (snd d) (field_get (snd f) t) (field_get (snd f) t')) threshold_directions threshold_fields"
proof -
  define P where "P = (\<lambda>f d. case f of None \<Rightarrow> False | Some f \<Rightarrow> tighter d (field_get f t) (field_get f t'))"
  have "field_tightened t t' = (\<lambda>d. P (map_of threshold_fields (fst d)) (snd d))"
    by (simp add: fun_eq_iff field_tightened_def threshold_of_def P_def split: option.split)
  then show ?thesis using lookup_by_position[OF threshold_names(2,1), of P] by (simp add: tightens_def P_def)
qed

lemma tightens_fields:
  assumes "tightens t t'"
  shows    "fleq (gt_research_min_branch_coverage_pct t) (gt_research_min_branch_coverage_pct t')"
    "fleq (gt_research_min_line_coverage_pct t) (gt_research_min_line_coverage_pct t')"
    "fleq (gt_research_min_fault_injection_pass_pct t) (gt_research_min_fault_injection_pass_pct t')"
    "gt_paper_min_trading_days t \<le> gt_paper_min_trading_days t'"
    "gt_paper_min_sample_size t \<le> gt_paper_min_sample_size t'"
    "fleq (gt_paper_max_slippage_residual_bps t') (gt_paper_max_slippage_residual_bps t)"
    "fleq (gt_paper_max_fill_rate_drift_pct t') (gt_paper_max_fill_rate_drift_pct t)"
    "fleq (gt_paper_min_latency_ks_p t) (gt_paper_min_latency_ks_p t')"
    "fleq (gt_paper_min_pnl_compression_ratio t) (gt_paper_min_pnl_compression_ratio t')"
    "fleq (gt_paper_max_pnl_compression_ratio t') (gt_paper_max_pnl_compression_ratio t)"
    "gt_paper_max_anomalous_events t' \<le> gt_paper_max_anomalous_events t"
    "gt_cpcv_min_folds t \<le> gt_cpcv_min_folds t'"
    "fleq (gt_cpcv_min_mean_sharpe t) (gt_cpcv_min_mean_sharpe t')"
    "fleq (gt_cpcv_max_p_value t') (gt_cpcv_max_p_value t)"
    "gt_cpcv_min_embargo_bars t \<le> gt_cpcv_min_embargo_bars t'"
    "fleq (gt_dsr_min t) (gt_dsr_min t')"
    "fleq (gt_dsr_max_p_value t') (gt_dsr_max_p_value t)"
    "gt_small_min_deployment_days t \<le> gt_small_min_deployment_days t'"
    "fleq (gt_small_min_pnl_compression_ratio t) (gt_small_min_pnl_compression_ratio t')"
    "fleq (gt_small_max_pnl_compression_ratio t') (gt_small_max_pnl_compression_ratio t)"
    "fleq (gt_small_max_slippage_residual_bps t') (gt_small_max_slippage_residual_bps t)"
    "fleq (gt_small_max_hit_rate_residual_pp t) (gt_small_max_hit_rate_residual_pp t')"
    "fleq (gt_small_max_fill_rate_drift_pct t') (gt_small_max_fill_rate_drift_pct t)"
    "fleq (gt_revalidation_min_oos_sharpe t) (gt_revalidation_min_oos_sharpe t')"
    "fleq (gt_decouple_cvar_max_level t') (gt_decouple_cvar_max_level t)"
    "gt_decouple_cvar_min_tail_sample t \<le> gt_decouple_cvar_min_tail_sample t'"
    "fleq (gt_decouple_cvar_tolerance t') (gt_decouple_cvar_tolerance t)"
    "gt_decouple_cvar_min_folds t \<le> gt_decouple_cvar_min_folds t'"
    "gt_decouple_cvar_min_embargo_bars t \<le> gt_decouple_cvar_min_embargo_bars t'"
    "fleq (gt_decouple_turnover_ceiling_ratio t') (gt_decouple_turnover_ceiling_ratio t)"
    "gt_decouple_turnover_min_sample t \<le> gt_decouple_turnover_min_sample t'"
    "gt_decouple_quote_freeze_min_episodes t \<le> gt_decouple_quote_freeze_min_episodes t'"
  using assms by (simp_all add: tightens_by_position threshold_directions_def threshold_fields_def)

lemmas validators = validate_research_acceptance_def validate_cpcv_def validate_dsr_def validate_paper_window_def
  validate_capital_stage_def validate_revalidation_def validate_turnover_bound_def validate_quote_freeze_backstop_def

lemma research_tightened: "tightens t t' \<Longrightarrow> validate_research_acceptance e t' = [] \<Longrightarrow> validate_research_acceptance e t = []"
  using tightens_fields(1-3)[of t t'] by (auto simp: validate_research_acceptance_def Let_def split: if_splits dest: fless_fleq_trans)

lemma paper_window_tightened: "tightens t t' \<Longrightarrow> validate_paper_window e t' = [] \<Longrightarrow> validate_paper_window e t = []"
  using tightens_fields(4-11)[of t t'] by (auto simp: validate_paper_window_def dest: fless_fleq_trans fleq_fless_trans)

lemma cpcv_tightened: "tightens t t' \<Longrightarrow> validate_cpcv e t' = [] \<Longrightarrow> validate_cpcv e t = []"
  using tightens_fields(12-15)[of t t'] by (auto simp: validate_cpcv_def split: if_splits dest: fless_fleq_trans fleq_fless_trans)

lemma dsr_tightened: "tightens t t' \<Longrightarrow> validate_dsr e t' = [] \<Longrightarrow> validate_dsr e t = []"
  using tightens_fields(16-17)[of t t'] by (auto simp: validate_dsr_def dest: fless_fleq_trans fleq_fless_trans)

lemma capital_stage_tightened: "tightens t t' \<Longrightarrow> validate_capital_stage e t' = [] \<Longrightarrow> validate_capital_stage e t = []"
  using tightens_fields(18-23)[of t t'] by (auto simp: validate_capital_stage_def dest: fless_fleq_trans fleq_fless_trans)

lemma revalidation_tightened: "tightens t t' \<Longrightarrow> validate_revalidation e t' = [] \<Longrightarrow> validate_revalidation e t = []"
  using tightens_fields(24)[of t t'] by (auto simp: validate_revalidation_def dest: fless_fleq_trans)

lemma cvar_tightened: "tightens t t' \<Longrightarrow> validate_conditional_cvar e t' = [] \<Longrightarrow> validate_conditional_cvar e t = []"
  using tightens_fields(25-29)[of t t'] fleq_fneg[OF tightens_fields(27)[of t t']]
  by (auto simp: validate_conditional_cvar_def cvar_integrity_def dest: fless_fleq_trans fleq_trans)

lemma turnover_tightened: "tightens t t' \<Longrightarrow> validate_turnover_bound e t' = [] \<Longrightarrow> validate_turnover_bound e t = []"
  using tightens_fields(30-31)[of t t'] by (auto simp: validate_turnover_bound_def split: if_splits dest: fleq_fless_trans)

lemma quote_freeze_tightened: "tightens t t' \<Longrightarrow> validate_quote_freeze_backstop e t' = [] \<Longrightarrow> validate_quote_freeze_backstop e t = []"
  using tightens_fields(32)[of t t'] by (auto simp: validate_quote_freeze_backstop_def)

lemma index_evidence_kinds:
  "index_evidence es by_type = (errors, b) \<Longrightarrow> list_all (\<lambda>(k, e). evidence_kind e = Some k) by_type
    \<Longrightarrow> list_all (\<lambda>(k, e). evidence_kind e = Some k) b"
  by (induction es arbitrary: by_type errors) (auto split: option.splits prod.splits if_splits)

lemma run_validator_tightened:
  assumes "tightens t t'" "run_validator e t' = []" "evidence_kind e \<noteq> Some ''quarantine_trigger''"
  shows "run_validator e t = []"
  using assms research_tightened cpcv_tightened dsr_tightened paper_window_tightened capital_stage_tightened revalidation_tightened
    cvar_tightened turnover_tightened quote_freeze_tightened
  by (cases e) auto

lemma required_not_quarantine: "g \<noteq> LIVE_TO_QUARANTINED \<Longrightarrow> ''quarantine_trigger'' \<notin> set (required_evidence g)"
  by (cases g) simp_all

lemma gate_tightened:
  assumes "tightens t t'" "validate_gate g es t' = []" "g \<noteq> LIVE_TO_QUARANTINED"
  shows "validate_gate g es t = []"
proof -
  obtain errors b where b: "index_evidence es [] = (errors, b)" by fastforce
  have kinds: "evidence_kind e = Some k" if "map_of b k = Some e" for k e
    using index_evidence_kinds[OF b] map_of_SomeD[OF that] by (auto simp: list_all_iff)
  have "(case map_of b k of None \<Rightarrow> [] | Some e \<Rightarrow> run_validator e t) = []" if k: "k \<in> set (required_evidence g)" for k
  proof (cases "map_of b k")
    case (Some e)
    have "run_validator e t' = []" using assms(2) k Some by (auto simp: validate_gate_def b)
    moreover have "evidence_kind e \<noteq> Some ''quarantine_trigger''" using kinds[OF Some] required_not_quarantine[OF assms(3)] k by auto
    ultimately show ?thesis using run_validator_tightened[OF assms(1)] Some by simp
  qed simp
  then show ?thesis using assms(2) by (auto simp: validate_gate_def b)
qed

subsection \<open>Overrides one field at a time\<close>

fun field_takes :: "'r threshold_field \<Rightarrow> threshold_value \<Rightarrow> bool" where
  "field_takes (Int_Field get upd) (Int_Value i) = True"
| "field_takes (Float_Field get upd) (Float_Value x) = True"
| "field_takes _ _ = False"

definition field_lens :: "'r threshold_field \<Rightarrow> bool" where
  "field_lens f \<longleftrightarrow> (\<forall>v t. field_takes f v \<longrightarrow> field_get f (field_set f v t) = v)"

definition field_independent :: "'r threshold_field \<Rightarrow> 'r threshold_field \<Rightarrow> bool" where
  "field_independent f g \<longleftrightarrow> (\<forall>v t. field_get f (field_set g v t) = field_get f t)"

lemma all_values: "(\<forall>v. P v) \<longleftrightarrow> (\<forall>i. P (Int_Value i)) \<and> (\<forall>x. P (Float_Value x))"
  by (metis threshold_value.exhaust)

lemma field_lens_simps:
  "field_lens (Int_Field get upd) \<longleftrightarrow> (\<forall>i t. get (upd i t) = i)"
  "field_lens (Float_Field get' upd') \<longleftrightarrow> (\<forall>x t. get' (upd' x t) = x)"
  by (simp_all add: field_lens_def all_values)

lemma field_independent_simps:
  "field_independent (Int_Field g1 u1) (Int_Field g2 u2) \<longleftrightarrow> (\<forall>i t. g1 (u2 i t) = g1 t)"
  "field_independent (Int_Field g1 u1) (Float_Field h2 w2) \<longleftrightarrow> (\<forall>x t. g1 (w2 x t) = g1 t)"
  "field_independent (Float_Field h1 w1) (Int_Field g2 u2) \<longleftrightarrow> (\<forall>i t. h1 (u2 i t) = h1 t)"
  "field_independent (Float_Field h1 w1) (Float_Field h2 w2) \<longleftrightarrow> (\<forall>x t. h1 (w2 x t) = h1 t)"
  by (simp_all add: field_independent_def all_values)

lemma threshold_lenses: "list_all (\<lambda>p. field_lens (snd p)) threshold_fields"
  by (simp add: threshold_fields_def field_lens_simps)

lemma threshold_independent: "sorted_wrt (\<lambda>p q. field_independent (snd p) (snd q) \<and> field_independent (snd q) (snd p)) threshold_fields"
  unfolding threshold_fields_def
  by (simp only: sorted_wrt.simps field_independent_simps snd_conv simp_thms list.set insert_iff ball_simps bex_simps)
    (intro conjI allI; simp)

lemma threshold_of_set:
  "threshold_of n (set_threshold (m, v) t)
    = (if n = m \<and> (case map_of threshold_fields m of None \<Rightarrow> False | Some f \<Rightarrow> field_takes f v) then Some v else threshold_of n t)"
proof (cases "map_of threshold_fields m")
  case (Some g)
  show ?thesis
  proof (cases "map_of threshold_fields n")
    case f: (Some f)
    show ?thesis
    proof (cases "n = m")
      case True
      have "field_lens f" using threshold_lenses map_of_SomeD[OF f] by (auto simp: list_all_iff)
      moreover have "field_get f (field_set f v t) = field_get f t" if "\<not> field_takes f v" using that by (cases f; cases v) simp_all
      ultimately show ?thesis using f True by (auto simp: threshold_of_def field_lens_def)
    next
      case False
      have "(n, f) \<in> set threshold_fields" "(m, g) \<in> set threshold_fields" using f Some map_of_SomeD by fast+
      then obtain i j where "i < length threshold_fields" "threshold_fields ! i = (n, f)" "j < length threshold_fields" "threshold_fields ! j = (m, g)"
        unfolding in_set_conv_nth by blast
      note ij = this
      then have "i < j \<or> j < i" using False by (metis nat_neq_iff prod.inject)
      then have "field_independent f g" using sorted_wrt_nth_less[OF threshold_independent, of i j] sorted_wrt_nth_less[OF threshold_independent, of j i] ij by auto
      then show ?thesis using f Some False by (simp add: threshold_of_def field_independent_def)
    qed
  qed (use Some in \<open>auto simp: threshold_of_def\<close>)
qed simp

definition well_typed_override :: "string \<times> threshold_value \<Rightarrow> bool" where
  "well_typed_override override = (case map_of threshold_fields (fst override) of None \<Rightarrow> False | Some f \<Rightarrow> field_takes f (snd override))"

lemma coerce_threshold_takes: "coerce_threshold f v = Inr c \<Longrightarrow> field_takes f c"
  by (cases f; cases v) auto

lemma coerce_all_ok:
  assumes "coerce_all raw = Inr parsed"
  shows "map fst parsed = map fst raw" "list_all well_typed_override parsed"
    "list_all (\<lambda>(name, v). v \<noteq> MFloat NaN) raw \<Longrightarrow> list_all (\<lambda>(name, v). v \<noteq> Float_Value NaN) parsed"
proof -
  have "map fst parsed = map fst raw \<and> list_all well_typed_override parsed
    \<and> (list_all (\<lambda>(name, v). v \<noteq> MFloat NaN) raw \<longrightarrow> list_all (\<lambda>(name, v). v \<noteq> Float_Value NaN) parsed)"
    using assms
  proof (induction raw arbitrary: parsed rule: coerce_all.induct)
    case (2 name v raw)
    then obtain f where f: "map_of threshold_fields name = Some f" by (auto split: option.splits)
    then obtain c rest where c: "coerce_threshold f v = Inr c" "coerce_all raw = Inr rest" "parsed = (name, c) # rest"
      using 2(2) by (auto simp: bind_result_Inr_iff)
    have "c \<noteq> Float_Value NaN" if "v \<noteq> MFloat NaN" using c(1) that by (cases f; cases v) auto
    then show ?case using 2(1)[OF f c(2)] c coerce_threshold_takes[OF c(1)] f by (simp add: well_typed_override_def)
  qed simp
  then show "map fst parsed = map fst raw" "list_all well_typed_override parsed"
    "list_all (\<lambda>(name, v). v \<noteq> MFloat NaN) raw \<Longrightarrow> list_all (\<lambda>(name, v). v \<noteq> Float_Value NaN) parsed" by simp_all
qed

lemma parse_overrides_dict: "parse_overrides (MDict d) = Inr parsed \<Longrightarrow> coerce_all d = Inr parsed"
  by (auto simp: parse_overrides_def split: if_splits)

lemma well_typed_known: "well_typed_override (name, v) \<Longrightarrow> map_of threshold_fields name \<noteq> None"
  by (auto simp: well_typed_override_def split: option.splits)

lemma coerce_as_meta: "field_takes f v \<Longrightarrow> coerce_threshold f (as_meta v) = Inr v"
  by (cases f; cases v) simp_all

lemma coerce_all_again:
  "list_all well_typed_override parsed \<Longrightarrow> coerce_all (map (\<lambda>(name, v). (name, as_meta v)) parsed) = Inr parsed"
  by (induction parsed) (auto simp: well_typed_override_def coerce_as_meta split: option.splits)

lemma reparse: "list_all well_typed_override parsed \<Longrightarrow> parse_overrides (overrides_meta parsed) = Inr parsed"
  using well_typed_known by (fastforce simp: parse_overrides_def overrides_meta_def coerce_all_again list_ex_iff list_all_iff)

lemma threshold_of_fold:
  assumes "list_all well_typed_override overrides" "distinct (map fst overrides)"
  shows "threshold_of name (fold set_threshold overrides t) = (case map_of overrides name of Some v \<Rightarrow> Some v | None \<Rightarrow> threshold_of name t)"
  using assms
proof (induction overrides arbitrary: t)
  case (Cons o' os)
  obtain m v where o: "o' = (m, v)" by fastforce
  have "map_of os m = None" using Cons.prems(2) by (simp add: o map_of_eq_None_iff)
  then show ?case using Cons by (auto simp: o threshold_of_set well_typed_override_def simp del: set_threshold.simps split: option.splits)
qed simp

lemma registered_thresholds:
  assumes "parse_overrides (MDict d) = Inr overrides" "distinct (map fst d)" "register_thresholds platform pinned overrides = Inr t'"
  shows "threshold_of name t' = (case map_of overrides name of Some v \<Rightarrow> Some v | None \<Rightarrow> threshold_of name (base_thresholds platform))"
    "name \<in> set pinned \<Longrightarrow> map_of overrides name = Some v \<Longrightarrow> \<not> loosens (base_thresholds platform) pinned (name, v)"
proof -
  note parsed = coerce_all_ok[OF parse_overrides_dict[OF assms(1)]]
  have ov: "list_all well_typed_override overrides" "distinct (map fst overrides)" using parsed assms(2) by simp_all
  have t': "t' = fold set_threshold overrides (base_thresholds platform)"
    using assms(3) reparse[OF ov(1)]
    by (auto simp: register_thresholds_def resolve_gate_thresholds_def apply_overrides_def base_thresholds_def bind_result_Inr_iff split: if_splits)
  then show "threshold_of name t' = (case map_of overrides name of Some v \<Rightarrow> Some v | None \<Rightarrow> threshold_of name (base_thresholds platform))"
    using threshold_of_fold[OF ov] by simp
  show "\<not> loosens (base_thresholds platform) pinned (name, v)" if "name \<in> set pinned" "map_of overrides name = Some v"
  proof -
    have "overrides \<noteq> []" "pinned \<noteq> []" using that by auto
    then have "assert_respects_floor (base_thresholds platform) pinned overrides = Inr ()"
      using assms(3) by (auto simp: register_thresholds_def enforce_threshold_floor_def bind_result_Inr_iff split: sum.splits)
    then show ?thesis using map_of_SomeD[OF that(2)] by (auto simp: assert_respects_floor_def list_ex_iff split: if_splits)
  qed
qed

definition pin :: "string list \<Rightarrow> gate_thresholds \<Rightarrow> gate_thresholds \<Rightarrow> gate_thresholds" where
  \<comment> \<open>the pinned fields set back to the operator's values\<close>
  "pin pinned platform t = fold (\<lambda>name t. case threshold_of name platform of None \<Rightarrow> t | Some v \<Rightarrow> set_threshold (name, v) t) pinned t"

lemma threshold_of_pin: "threshold_of name (pin pinned platform t) = (if name \<in> set pinned then threshold_of name platform else threshold_of name t)"
proof (induction pinned arbitrary: t)
  case (Cons m ms)
  have "field_takes f (field_get f platform)" for f :: "gate_thresholds threshold_field" by (cases f) simp_all
  then have "well_typed_override (m, v)" if "threshold_of m platform = Some v" for v
    using that by (auto simp: threshold_of_def well_typed_override_def)
  then have "threshold_of name (case threshold_of m platform of None \<Rightarrow> t | Some v \<Rightarrow> set_threshold (m, v) t)
    = (if name = m then threshold_of m platform else threshold_of name t)"
  proof (cases "threshold_of m platform")
    case None
    then have "threshold_of m t = None" by (simp add: threshold_of_def)
    then show ?thesis using None by simp
  next
    case (Some v)
    then have "well_typed_override (m, v)" using \<open>\<And>v. threshold_of m platform = Some v \<Longrightarrow> well_typed_override (m, v)\<close> by blast
    then show ?thesis using Some by (auto simp: threshold_of_set well_typed_override_def simp del: set_threshold.simps split: option.splits)
  qed
  then show ?case using Cons by (auto simp: pin_def)
qed (simp add: pin_def)

definition no_nan :: "gate_thresholds \<Rightarrow> bool" where
  "no_nan t \<longleftrightarrow> list_all (\<lambda>(name, f). field_get f t \<noteq> Float_Value NaN) threshold_fields"

lemma no_nan_of: "no_nan t \<Longrightarrow> threshold_of name t \<noteq> Some (Float_Value NaN)"
  by (auto simp: no_nan_def threshold_of_def list_all_iff dest: map_of_SomeD)

lemma value_leq_refl: "v \<noteq> Float_Value NaN \<Longrightarrow> value_leq v v"
  by (cases v) (auto simp: fleq_def feq_def)

lemma tighter_refl: "v \<noteq> Float_Value NaN \<Longrightarrow> tighter d v v"
  by (cases d) (simp_all add: value_leq_refl)

lemma tighter_unless_loosened:
  assumes "field_takes f v" "v \<noteq> Float_Value NaN" "field_get f t \<noteq> Float_Value NaN"
    "\<not> (case d of Min_Direction \<Rightarrow> value_less v (field_get f t) | Max_Direction \<Rightarrow> value_less (field_get f t) v | Free_Direction \<Rightarrow> False)"
  shows "tighter d (field_get f t) v"
  using assms by (cases d; cases f; cases v) (auto simp: fleq_iff_not_fless)

lemma registered_tightens:
  assumes "parse_overrides (MDict d) = Inr overrides" "distinct (map fst d)" "register_thresholds platform pinned overrides = Inr t'"
    "no_nan (base_thresholds platform)" "list_all (\<lambda>(name, v). v \<noteq> MFloat NaN) d"
  shows "tightens (pin pinned (base_thresholds platform) t') t'"
proof -
  let ?p = "base_thresholds platform"
  note parsed = coerce_all_ok[OF parse_overrides_dict[OF assms(1)]]
  have "field_tightened (pin pinned ?p t') t' (name, dir)" if dir: "(name, dir) \<in> set threshold_directions" for name dir
  proof -
    have "name \<in> set (map fst threshold_fields)" using that threshold_names(1) by (metis fst_conv image_eqI set_map)
    then obtain f where f: "map_of threshold_fields name = Some f" by (metis map_of_eq_None_iff not_None_eq set_map)
    have d: "map_of threshold_directions name = Some dir" using that threshold_names by (simp add: map_of_is_SomeI)
    have nan: "threshold_of name t' \<noteq> Some (Float_Value NaN)" "threshold_of name ?p \<noteq> Some (Float_Value NaN)"
      using registered_thresholds(1)[OF assms(1-3), of name] no_nan_of[OF assms(4)] parsed(3)[OF assms(5)]
      by (auto simp: list_all_iff split: option.splits dest!: map_of_SomeD)
    have t': "threshold_of name t' = Some (field_get f t')" and p: "threshold_of name ?p = Some (field_get f ?p)" by (simp_all add: threshold_of_def f)
    have "tighter dir (field_get f ?p) (field_get f t')" if "name \<in> set pinned"
    proof (cases "map_of overrides name")
      case None
      then show ?thesis using registered_thresholds(1)[OF assms(1-3), of name] nan by (simp add: t' p tighter_refl)
    next
      case (Some v)
      have "\<not> loosens ?p pinned (name, v)" by (rule registered_thresholds(2)[OF assms(1-3) that Some])
      moreover have "field_takes f v" using parsed(2) map_of_SomeD[OF Some] f by (auto simp: list_all_iff well_typed_override_def)
      moreover have "field_get f t' = v" using registered_thresholds(1)[OF assms(1-3), of name] Some by (simp add: t')
      ultimately show ?thesis using nan that by (intro tighter_unless_loosened) (auto simp: loosens_def d t' p split: floor_direction.splits)
    qed
    then show ?thesis using nan by (simp add: field_tightened_def threshold_of_pin t' p tighter_refl)
  qed
  then show ?thesis by (auto simp: tightens_def list_all_iff)
qed

text \<open>C33: an alpha's own thresholds never let through what the operator's pinned thresholds would refuse. Whatever
  overrides the loader parses and the registry accepts, and whatever package of evidence is submitted to a
  gate other than the quarantine's: accepted under the alpha's thresholds, it is accepted with every
  pinned field set back to the operator's value. This checks the table of directions against
  all validators; NaN thresholds are excluded.\<close>
theorem pinned_floor_holds:
  assumes "parse_overrides (MDict d) = Inr overrides" "distinct (map fst d)" "register_thresholds platform pinned overrides = Inr t'"
    "no_nan (base_thresholds platform)" "list_all (\<lambda>(name, v). v \<noteq> MFloat NaN) d"
    "validate_gate g es t' = []" "g \<noteq> LIVE_TO_QUARANTINED"
  shows "validate_gate g es (pin pinned (base_thresholds platform) t') = []"
  using gate_tightened[OF registered_tightens[OF assms(1-5)] assms(6,7)] .

text \<open>C35: the exclusion matters. A NaN override of a field the operator pinned passes the parser and the floor, and then
  the gate that read the field is open: every Sharpe evidence the operator's thresholds refuse only for its
  value is accepted.\<close>
theorem nan_override_opens_gate:
  "\<exists>overrides t'. parse_overrides (MDict [(''dsr_min'', MFloat NaN)]) = Inr overrides
     \<and> register_thresholds platform [''dsr_min''] overrides = Inr t'
     \<and> validate_dsr e t' = filter (\<lambda>msg. msg \<noteq> ''DSR below minimum'') (validate_dsr e (base_thresholds platform))"
proof -
  define b where "b = base_thresholds platform"
  have f: "map_of threshold_fields ''dsr_min'' = Some (Float_Field gt_dsr_min (\<lambda>v. gt_dsr_min_update (\<lambda>_. v)))"
    by (simp add: threshold_fields_def)
  have d: "map_of threshold_directions ''dsr_min'' = Some Min_Direction" by (simp add: threshold_directions_def)
  have nan: "\<not> fless x NaN" "\<not> fless NaN x" for x by (cases x; simp)+
  define t' where "t' = b\<lparr>gt_dsr_min := NaN\<rparr>"
  have "parse_overrides (MDict [(''dsr_min'', MFloat NaN)]) = Inr [(''dsr_min'', Float_Value NaN)]"
    by (simp add: parse_overrides_def f)
  moreover have "register_thresholds platform [''dsr_min''] [(''dsr_min'', Float_Value NaN)] = Inr t'"
    by (simp add: register_thresholds_def enforce_threshold_floor_def resolve_gate_thresholds_def assert_respects_floor_def loosens_def
        threshold_of_def f d nan apply_overrides_def overrides_meta_def parse_overrides_def t'_def base_thresholds_def b_def)
  moreover have "validate_dsr e t' = filter (\<lambda>msg. msg \<noteq> ''DSR below minimum'') (validate_dsr e b)"
    by (simp add: validate_dsr_def t'_def complain_def nan)
  ultimately show ?thesis by (auto simp: b_def)
qed

subsection \<open>A concrete registration\<close>

definition sample_thresholds :: gate_thresholds where
  \<comment> \<open>the defaults with exact figures\<close>
  "sample_thresholds = \<lparr>gt_research_min_branch_coverage_pct = Fin 90,
     gt_research_min_line_coverage_pct = Fin 80,
     gt_research_min_fault_injection_pass_pct = Fin 100,
     gt_paper_min_trading_days = 5,
     gt_paper_min_sample_size = 0,
     gt_paper_max_slippage_residual_bps = Fin (3 / 2),
     gt_paper_max_fill_rate_drift_pct = Fin 10,
     gt_paper_min_latency_ks_p = Fin (1 / 10),
     gt_paper_min_pnl_compression_ratio = Fin (3 / 5),
     gt_paper_max_pnl_compression_ratio = Fin (6 / 5),
     gt_paper_max_anomalous_events = 0,
     gt_cpcv_min_folds = 8,
     gt_cpcv_min_mean_sharpe = Fin 1,
     gt_cpcv_max_p_value = Fin (1 / 20),
     gt_cpcv_min_embargo_bars = 1,
     gt_dsr_min = Fin 1,
     gt_dsr_max_p_value = Fin (1 / 20),
     gt_small_min_deployment_days = 10,
     gt_small_min_pnl_compression_ratio = Fin (1 / 2),
     gt_small_max_pnl_compression_ratio = Fin 1,
     gt_small_max_slippage_residual_bps = Fin (5 / 2),
     gt_small_max_hit_rate_residual_pp = Fin (- 5),
     gt_small_max_fill_rate_drift_pct = Fin 10,
     gt_quarantine_max_net_alpha_negative_days = 10,
     gt_quarantine_max_hit_rate_residual_pp = Fin (- 15),
     gt_quarantine_max_pnl_compression_ratio_5d = Fin (3 / 10),
     gt_quarantine_min_microstructure_breaches = 2,
     gt_quarantine_min_crowding_symptoms = 3,
     gt_revalidation_min_oos_sharpe = Fin 1,
     gt_decouple_cvar_max_level = Fin (1 / 10),
     gt_decouple_cvar_min_tail_sample = 20,
     gt_decouple_cvar_tolerance = Fin 0,
     gt_decouple_cvar_min_folds = 8,
     gt_decouple_cvar_min_embargo_bars = 1,
     gt_decouple_turnover_ceiling_ratio = Fin (3 / 2),
     gt_decouple_turnover_min_sample = 20,
     gt_decouple_quote_freeze_min_episodes = 1\<rparr>"

definition sample_capital :: capital_stage_evidence where
  "sample_capital = \<lparr>cse_tier = SMALL_CAPITAL, cse_allocation_fraction = Fin (1 / 128), cse_deployment_days = 12,
     cse_pnl_compression_ratio_realised = Fin (3 / 4), cse_slippage_residual_bps = Fin 1, cse_hit_rate_residual_pp = Fin (- 2), cse_fill_rate_drift_pct = Fin 3\<rparr>"

text \<open>The operator pins the length of the small-capital window; the alpha asks for a longer one.\<close>
theorem pinned_floor_witness:
  "validate_gate LIVE_PROMOTE_CAPITAL_TIER [Capital_Stage sample_capital]
     (pin [''small_min_deployment_days''] sample_thresholds (sample_thresholds\<lparr>gt_small_min_deployment_days := 12\<rparr>)) = []"
proof -
  define name where "name = ''small_min_deployment_days''"
  have f: "map_of threshold_fields name = Some (Int_Field gt_small_min_deployment_days (\<lambda>v. gt_small_min_deployment_days_update (\<lambda>_. v)))"
    by (simp add: threshold_fields_def name_def)
  have d: "map_of threshold_directions name = Some Min_Direction" by (simp add: threshold_directions_def name_def)
  have parsed: "parse_overrides (MDict [(name, MInt 12)]) = Inr [(name, Int_Value 12)]" by (simp add: parse_overrides_def f)
  have registered: "register_thresholds (Some sample_thresholds) [name] [(name, Int_Value 12)] = Inr (sample_thresholds\<lparr>gt_small_min_deployment_days := 12\<rparr>)"
    by (simp add: register_thresholds_def enforce_threshold_floor_def resolve_gate_thresholds_def assert_respects_floor_def loosens_def
        threshold_of_def f d apply_overrides_def overrides_meta_def parse_overrides_def base_thresholds_def sample_thresholds_def)
  have "no_nan sample_thresholds" by (simp add: no_nan_def threshold_fields_def sample_thresholds_def)
  moreover have "validate_gate LIVE_PROMOTE_CAPITAL_TIER [Capital_Stage sample_capital] (sample_thresholds\<lparr>gt_small_min_deployment_days := 12\<rparr>) = []"
    by (simp add: validate_gate_def validate_capital_stage_def sample_capital_def sample_thresholds_def complain_def)
  ultimately show ?thesis using pinned_floor_holds[OF parsed _ registered] by (simp add: base_thresholds_def name_def)
qed

lemma nan_window_passes:
  assumes "gt_paper_min_trading_days t \<le> pwe_trading_days e" "gt_paper_min_sample_size t \<le> pwe_sample_size e"
    "pwe_anomalous_event_count e \<le> gt_paper_max_anomalous_events t"
    "pwe_slippage_residual_bps e = NaN" "pwe_fill_rate_drift_pct e = NaN" "pwe_latency_ks_p e = NaN" "pwe_pnl_compression_ratio e = NaN"
  shows "validate_paper_window e t = []"
proof -
  have "\<not> fless x NaN" "\<not> fless NaN x" for x by (cases x; simp)+
  then show ?thesis using assms by (simp add: validate_paper_window_def)
qed

end
