(* ===== verification/Evidence_Metadata.thy ===== *)
theory Evidence_Metadata
  imports Evidence "HOL-Library.Multiset"
begin

section \<open>Evidence in the promotion ledger (promotion/evidence.py)\<close>

text \<open>
  The projection of evidence packages into the metadata of a ledger entry and its inverse.
  Python stores whatever value a payload holds in a field; the typed records have no such packages,
  so a value of another type than the field's reads as an error here. Enum values and
  sequences are restored as the code does.
\<close>

subsection \<open>Reading a field\<close>

definition ill_typed_field :: "'a result" where
  "ill_typed_field = Inl (TypeError ''field of another type'')"

definition read_field :: "(meta \<Rightarrow> 'a result) \<Rightarrow> metadata \<Rightarrow> string \<Rightarrow> 'a \<Rightarrow> 'a result" where
  \<comment> \<open>the payload's value, or the dataclass default\<close>
  "read_field f d name dflt = (case map_of d name of None \<Rightarrow> Inr dflt | Some v \<Rightarrow> f v)"

fun as_bool :: "meta \<Rightarrow> bool result" where
  "as_bool (MBool b) = Inr b" | "as_bool _ = ill_typed_field"

fun as_int :: "meta \<Rightarrow> int result" where
  "as_int (MInt i) = Inr i" | "as_int _ = ill_typed_field"

fun as_float :: "meta \<Rightarrow> pyfloat result" where
  "as_float (MFloat x) = Inr x" | "as_float _ = ill_typed_field"

fun as_string :: "meta \<Rightarrow> string result" where
  "as_string (MStr s) = Inr s" | "as_string _ = ill_typed_field"

fun as_list :: "(meta \<Rightarrow> 'a result) \<Rightarrow> meta list \<Rightarrow> 'a list result" where
  "as_list f [] = Inr []"
| "as_list f (v # vs) = bind_result (f v) (\<lambda>x. bind_result (as_list f vs) (\<lambda>xs. Inr (x # xs)))"

fun as_sequence :: "(meta \<Rightarrow> 'a result) \<Rightarrow> meta \<Rightarrow> 'a list result" where
  "as_sequence f (MList vs) = as_list f vs" | "as_sequence f _ = ill_typed_field"

fun tier_value :: "capital_tier \<Rightarrow> string" where
  "tier_value SMALL_CAPITAL = ''SMALL_CAPITAL''"
| "tier_value SCALED = ''SCALED''"

fun as_tier :: "meta \<Rightarrow> capital_tier result" where
  "as_tier (MStr s) = (if s = ''SMALL_CAPITAL'' then Inr SMALL_CAPITAL else if s = ''SCALED'' then Inr SCALED
     else Inl (ValueError ''CapitalStageTier''))"
| "as_tier _ = Inl (ValueError ''CapitalStageTier'')"

abbreviation "read_bool \<equiv> read_field as_bool"
abbreviation "read_integer \<equiv> read_field as_int"
abbreviation "read_float \<equiv> read_field as_float"
abbreviation "read_string \<equiv> read_field as_string"
abbreviation "read_floats \<equiv> read_field (as_sequence as_float)"
abbreviation "read_strings \<equiv> read_field (as_sequence as_string)"
abbreviation "read_tier \<equiv> read_field as_tier"

definition known_fields :: "string list \<Rightarrow> metadata \<Rightarrow> 'a result \<Rightarrow> 'a result" where
  \<comment> \<open>the constructor refuses a keyword that is no field\<close>
  "known_fields names d r = bind_result r (\<lambda>e.
     if list_all (\<lambda>(name, v). name \<in> set names) d then Inr e else Inl (TypeError ''unexpected keyword''))"

subsection \<open>One package\<close>

definition research_acceptance_fields :: "research_acceptance_evidence \<Rightarrow> metadata" where
  "research_acceptance_fields e = [(''schema_valid'', MBool (rae_schema_valid e)),
     (''determinism_replay_passed'', MBool (rae_determinism_replay_passed e)),
     (''branch_coverage_pct'', MFloat (rae_branch_coverage_pct e)),
     (''line_coverage_pct'', MFloat (rae_line_coverage_pct e)),
     (''lookahead_bias_check_passed'', MBool (rae_lookahead_bias_check_passed e)),
     (''fault_injection_pass_count'', MInt (rae_fault_injection_pass_count e)),
     (''fault_injection_total'', MInt (rae_fault_injection_total e)),
     (''cost_sensitivity_passed'', MBool (rae_cost_sensitivity_passed e)),
     (''latency_sensitivity_passed'', MBool (rae_latency_sensitivity_passed e))]"

definition read_research_acceptance :: "metadata \<Rightarrow> research_acceptance_evidence result" where
  "read_research_acceptance d = known_fields [''schema_valid'', ''determinism_replay_passed'', ''branch_coverage_pct'', ''line_coverage_pct'', ''lookahead_bias_check_passed'', ''fault_injection_pass_count'', ''fault_injection_total'', ''cost_sensitivity_passed'', ''latency_sensitivity_passed''] d (
     bind_result (read_bool d ''schema_valid'' False) (\<lambda>x0.
     bind_result (read_bool d ''determinism_replay_passed'' False) (\<lambda>x1.
     bind_result (read_float d ''branch_coverage_pct'' (float_lit 0)) (\<lambda>x2.
     bind_result (read_float d ''line_coverage_pct'' (float_lit 0)) (\<lambda>x3.
     bind_result (read_bool d ''lookahead_bias_check_passed'' False) (\<lambda>x4.
     bind_result (read_integer d ''fault_injection_pass_count'' 0) (\<lambda>x5.
     bind_result (read_integer d ''fault_injection_total'' 0) (\<lambda>x6.
     bind_result (read_bool d ''cost_sensitivity_passed'' False) (\<lambda>x7.
     bind_result (read_bool d ''latency_sensitivity_passed'' False) (\<lambda>x8.
     Inr \<lparr>rae_schema_valid = x0, rae_determinism_replay_passed = x1, rae_branch_coverage_pct = x2, rae_line_coverage_pct = x3, rae_lookahead_bias_check_passed = x4, rae_fault_injection_pass_count = x5, rae_fault_injection_total = x6, rae_cost_sensitivity_passed = x7, rae_latency_sensitivity_passed = x8\<rparr>))))))))))"

definition cpcv_fields :: "cpcv_evidence \<Rightarrow> metadata" where
  "cpcv_fields e = [(''fold_count'', MInt (cpe_fold_count e)),
     (''embargo_bars'', MInt (cpe_embargo_bars e)),
     (''fold_sharpes'', MList (map MFloat (cpe_fold_sharpes e))),
     (''mean_sharpe'', MFloat (cpe_mean_sharpe e)),
     (''median_sharpe'', MFloat (cpe_median_sharpe e)),
     (''mean_pnl'', MFloat (cpe_mean_pnl e)),
     (''p_value'', MFloat (cpe_p_value e)),
     (''fold_pnl_curves_hash'', MStr (cpe_fold_pnl_curves_hash e))]"

definition read_cpcv :: "metadata \<Rightarrow> cpcv_evidence result" where
  "read_cpcv d = known_fields [''fold_count'', ''embargo_bars'', ''fold_sharpes'', ''mean_sharpe'', ''median_sharpe'', ''mean_pnl'', ''p_value'', ''fold_pnl_curves_hash''] d (
     bind_result (read_integer d ''fold_count'' 0) (\<lambda>x0.
     bind_result (read_integer d ''embargo_bars'' 0) (\<lambda>x1.
     bind_result (read_floats d ''fold_sharpes'' []) (\<lambda>x2.
     bind_result (read_float d ''mean_sharpe'' (float_lit 0)) (\<lambda>x3.
     bind_result (read_float d ''median_sharpe'' (float_lit 0)) (\<lambda>x4.
     bind_result (read_float d ''mean_pnl'' (float_lit 0)) (\<lambda>x5.
     bind_result (read_float d ''p_value'' (float_lit 1)) (\<lambda>x6.
     bind_result (read_string d ''fold_pnl_curves_hash'' '''') (\<lambda>x7.
     Inr \<lparr>cpe_fold_count = x0, cpe_embargo_bars = x1, cpe_fold_sharpes = x2, cpe_mean_sharpe = x3, cpe_median_sharpe = x4, cpe_mean_pnl = x5, cpe_p_value = x6, cpe_fold_pnl_curves_hash = x7\<rparr>)))))))))"

definition dsr_fields :: "dsr_evidence \<Rightarrow> metadata" where
  "dsr_fields e = [(''observed_sharpe'', MFloat (dse_observed_sharpe e)),
     (''trials_count'', MInt (dse_trials_count e)),
     (''skewness'', MFloat (dse_skewness e)),
     (''kurtosis'', MFloat (dse_kurtosis e)),
     (''dsr'', MFloat (dse_dsr e)),
     (''dsr_p_value'', MFloat (dse_dsr_p_value e))]"

definition read_dsr :: "metadata \<Rightarrow> dsr_evidence result" where
  "read_dsr d = known_fields [''observed_sharpe'', ''trials_count'', ''skewness'', ''kurtosis'', ''dsr'', ''dsr_p_value''] d (
     bind_result (read_float d ''observed_sharpe'' (float_lit 0)) (\<lambda>x0.
     bind_result (read_integer d ''trials_count'' 0) (\<lambda>x1.
     bind_result (read_float d ''skewness'' (float_lit 0)) (\<lambda>x2.
     bind_result (read_float d ''kurtosis'' (float_lit 3)) (\<lambda>x3.
     bind_result (read_float d ''dsr'' (float_lit 0)) (\<lambda>x4.
     bind_result (read_float d ''dsr_p_value'' (float_lit 1)) (\<lambda>x5.
     Inr \<lparr>dse_observed_sharpe = x0, dse_trials_count = x1, dse_skewness = x2, dse_kurtosis = x3, dse_dsr = x4, dse_dsr_p_value = x5\<rparr>)))))))"

definition paper_window_fields :: "paper_window_evidence \<Rightarrow> metadata" where
  "paper_window_fields e = [(''trading_days'', MInt (pwe_trading_days e)),
     (''sample_size'', MInt (pwe_sample_size e)),
     (''slippage_residual_bps'', MFloat (pwe_slippage_residual_bps e)),
     (''fill_rate_drift_pct'', MFloat (pwe_fill_rate_drift_pct e)),
     (''latency_ks_p'', MFloat (pwe_latency_ks_p e)),
     (''pnl_compression_ratio'', MFloat (pwe_pnl_compression_ratio e)),
     (''anomalous_event_count'', MInt (pwe_anomalous_event_count e))]"

definition read_paper_window :: "metadata \<Rightarrow> paper_window_evidence result" where
  "read_paper_window d = known_fields [''trading_days'', ''sample_size'', ''slippage_residual_bps'', ''fill_rate_drift_pct'', ''latency_ks_p'', ''pnl_compression_ratio'', ''anomalous_event_count''] d (
     bind_result (read_integer d ''trading_days'' 0) (\<lambda>x0.
     bind_result (read_integer d ''sample_size'' 0) (\<lambda>x1.
     bind_result (read_float d ''slippage_residual_bps'' (float_lit 0)) (\<lambda>x2.
     bind_result (read_float d ''fill_rate_drift_pct'' (float_lit 0)) (\<lambda>x3.
     bind_result (read_float d ''latency_ks_p'' (float_lit 1)) (\<lambda>x4.
     bind_result (read_float d ''pnl_compression_ratio'' (float_lit 1)) (\<lambda>x5.
     bind_result (read_integer d ''anomalous_event_count'' 0) (\<lambda>x6.
     Inr \<lparr>pwe_trading_days = x0, pwe_sample_size = x1, pwe_slippage_residual_bps = x2, pwe_fill_rate_drift_pct = x3, pwe_latency_ks_p = x4, pwe_pnl_compression_ratio = x5, pwe_anomalous_event_count = x6\<rparr>))))))))"

definition capital_stage_fields :: "capital_stage_evidence \<Rightarrow> metadata" where
  "capital_stage_fields e = [(''tier'', MStr (tier_value (cse_tier e))),
     (''allocation_fraction'', MFloat (cse_allocation_fraction e)),
     (''deployment_days'', MInt (cse_deployment_days e)),
     (''pnl_compression_ratio_realised'', MFloat (cse_pnl_compression_ratio_realised e)),
     (''slippage_residual_bps'', MFloat (cse_slippage_residual_bps e)),
     (''hit_rate_residual_pp'', MFloat (cse_hit_rate_residual_pp e)),
     (''fill_rate_drift_pct'', MFloat (cse_fill_rate_drift_pct e))]"

definition read_capital_stage :: "metadata \<Rightarrow> capital_stage_evidence result" where
  "read_capital_stage d = known_fields [''tier'', ''allocation_fraction'', ''deployment_days'', ''pnl_compression_ratio_realised'', ''slippage_residual_bps'', ''hit_rate_residual_pp'', ''fill_rate_drift_pct''] d (
     bind_result (read_tier d ''tier'' SMALL_CAPITAL) (\<lambda>x0.
     bind_result (read_float d ''allocation_fraction'' (float_lit 0)) (\<lambda>x1.
     bind_result (read_integer d ''deployment_days'' 0) (\<lambda>x2.
     bind_result (read_float d ''pnl_compression_ratio_realised'' (float_lit 1)) (\<lambda>x3.
     bind_result (read_float d ''slippage_residual_bps'' (float_lit 0)) (\<lambda>x4.
     bind_result (read_float d ''hit_rate_residual_pp'' (float_lit 0)) (\<lambda>x5.
     bind_result (read_float d ''fill_rate_drift_pct'' (float_lit 0)) (\<lambda>x6.
     Inr \<lparr>cse_tier = x0, cse_allocation_fraction = x1, cse_deployment_days = x2, cse_pnl_compression_ratio_realised = x3, cse_slippage_residual_bps = x4, cse_hit_rate_residual_pp = x5, cse_fill_rate_drift_pct = x6\<rparr>))))))))"

definition quarantine_trigger_fields :: "quarantine_trigger_evidence \<Rightarrow> metadata" where
  "quarantine_trigger_fields e = [(''net_alpha_negative_days'', MInt (qte_net_alpha_negative_days e)),
     (''hit_rate_residual_pp'', MFloat (qte_hit_rate_residual_pp e)),
     (''microstructure_metrics_breached'', MList (map MStr (qte_microstructure_metrics_breached e))),
     (''crowding_symptoms'', MList (map MStr (qte_crowding_symptoms e))),
     (''pnl_compression_ratio_5d'', MFloat (qte_pnl_compression_ratio_5d e))]"

definition read_quarantine_trigger :: "metadata \<Rightarrow> quarantine_trigger_evidence result" where
  "read_quarantine_trigger d = known_fields [''net_alpha_negative_days'', ''hit_rate_residual_pp'', ''microstructure_metrics_breached'', ''crowding_symptoms'', ''pnl_compression_ratio_5d''] d (
     bind_result (read_integer d ''net_alpha_negative_days'' 0) (\<lambda>x0.
     bind_result (read_float d ''hit_rate_residual_pp'' (float_lit 0)) (\<lambda>x1.
     bind_result (read_strings d ''microstructure_metrics_breached'' []) (\<lambda>x2.
     bind_result (read_strings d ''crowding_symptoms'' []) (\<lambda>x3.
     bind_result (read_float d ''pnl_compression_ratio_5d'' (float_lit 1)) (\<lambda>x4.
     Inr \<lparr>qte_net_alpha_negative_days = x0, qte_hit_rate_residual_pp = x1, qte_microstructure_metrics_breached = x2, qte_crowding_symptoms = x3, qte_pnl_compression_ratio_5d = x4\<rparr>))))))"

definition revalidation_fields :: "revalidation_evidence \<Rightarrow> metadata" where
  "revalidation_fields e = [(''hypothesis_re_derived'', MBool (rve_hypothesis_re_derived e)),
     (''oos_walkforward_sharpe'', MFloat (rve_oos_walkforward_sharpe e)),
     (''parameter_drift_resolved'', MBool (rve_parameter_drift_resolved e)),
     (''human_signoff'', MStr (rve_human_signoff e)),
     (''revalidation_notes'', MStr (rve_revalidation_notes e))]"

definition read_revalidation :: "metadata \<Rightarrow> revalidation_evidence result" where
  "read_revalidation d = known_fields [''hypothesis_re_derived'', ''oos_walkforward_sharpe'', ''parameter_drift_resolved'', ''human_signoff'', ''revalidation_notes''] d (
     bind_result (read_bool d ''hypothesis_re_derived'' False) (\<lambda>x0.
     bind_result (read_float d ''oos_walkforward_sharpe'' (float_lit 0)) (\<lambda>x1.
     bind_result (read_bool d ''parameter_drift_resolved'' False) (\<lambda>x2.
     bind_result (read_string d ''human_signoff'' '''') (\<lambda>x3.
     bind_result (read_string d ''revalidation_notes'' '''') (\<lambda>x4.
     Inr \<lparr>rve_hypothesis_re_derived = x0, rve_oos_walkforward_sharpe = x1, rve_parameter_drift_resolved = x2, rve_human_signoff = x3, rve_revalidation_notes = x4\<rparr>))))))"

definition conditional_cvar_fields :: "conditional_cvar_evidence \<Rightarrow> metadata" where
  "conditional_cvar_fields e = [(''cvar_level'', MFloat (cve_cvar_level e)),
     (''horizon_bars'', MInt (cve_horizon_bars e)),
     (''subpopulation_size'', MInt (cve_subpopulation_size e)),
     (''effective_tail_sample'', MInt (cve_effective_tail_sample e)),
     (''hold_cvar'', MFloat (cve_hold_cvar e)),
     (''flatten_cvar'', MFloat (cve_flatten_cvar e)),
     (''cvar_delta'', MFloat (cve_cvar_delta e)),
     (''cpcv_fold_count'', MInt (cve_cpcv_fold_count e)),
     (''cpcv_embargo_bars'', MInt (cve_cpcv_embargo_bars e)),
     (''inv12_cost_multiplier'', MFloat (cve_inv12_cost_multiplier e)),
     (''inv12_latency_multiplier'', MFloat (cve_inv12_latency_multiplier e)),
     (''modeled_fills'', MBool (cve_modeled_fills e)),
     (''path_cvar_deltas'', MList (map MFloat (cve_path_cvar_deltas e)))]"

definition read_conditional_cvar :: "metadata \<Rightarrow> conditional_cvar_evidence result" where
  "read_conditional_cvar d = known_fields [''cvar_level'', ''horizon_bars'', ''subpopulation_size'', ''effective_tail_sample'', ''hold_cvar'', ''flatten_cvar'', ''cvar_delta'', ''cpcv_fold_count'', ''cpcv_embargo_bars'', ''inv12_cost_multiplier'', ''inv12_latency_multiplier'', ''modeled_fills'', ''path_cvar_deltas''] d (
     bind_result (read_float d ''cvar_level'' (float_lit (1 / 20))) (\<lambda>x0.
     bind_result (read_integer d ''horizon_bars'' 0) (\<lambda>x1.
     bind_result (read_integer d ''subpopulation_size'' 0) (\<lambda>x2.
     bind_result (read_integer d ''effective_tail_sample'' 0) (\<lambda>x3.
     bind_result (read_float d ''hold_cvar'' (float_lit 0)) (\<lambda>x4.
     bind_result (read_float d ''flatten_cvar'' (float_lit 0)) (\<lambda>x5.
     bind_result (read_float d ''cvar_delta'' (float_lit 0)) (\<lambda>x6.
     bind_result (read_integer d ''cpcv_fold_count'' 0) (\<lambda>x7.
     bind_result (read_integer d ''cpcv_embargo_bars'' 0) (\<lambda>x8.
     bind_result (read_float d ''inv12_cost_multiplier'' (float_lit 1)) (\<lambda>x9.
     bind_result (read_float d ''inv12_latency_multiplier'' (float_lit 1)) (\<lambda>x10.
     bind_result (read_bool d ''modeled_fills'' False) (\<lambda>x11.
     bind_result (read_floats d ''path_cvar_deltas'' []) (\<lambda>x12.
     Inr \<lparr>cve_cvar_level = x0, cve_horizon_bars = x1, cve_subpopulation_size = x2, cve_effective_tail_sample = x3, cve_hold_cvar = x4, cve_flatten_cvar = x5, cve_cvar_delta = x6, cve_cpcv_fold_count = x7, cve_cpcv_embargo_bars = x8, cve_inv12_cost_multiplier = x9, cve_inv12_latency_multiplier = x10, cve_modeled_fills = x11, cve_path_cvar_deltas = x12\<rparr>))))))))))))))"

definition turnover_bound_fields :: "turnover_bound_evidence \<Rightarrow> metadata" where
  "turnover_bound_fields e = [(''baseline_round_trips'', MInt (tbe_baseline_round_trips e)),
     (''deferral_round_trips'', MInt (tbe_deferral_round_trips e)),
     (''declared_max_ratio'', MFloat (tbe_declared_max_ratio e)),
     (''observed_ratio'', MFloat (tbe_observed_ratio e)),
     (''subpopulation_size'', MInt (tbe_subpopulation_size e))]"

definition read_turnover_bound :: "metadata \<Rightarrow> turnover_bound_evidence result" where
  "read_turnover_bound d = known_fields [''baseline_round_trips'', ''deferral_round_trips'', ''declared_max_ratio'', ''observed_ratio'', ''subpopulation_size''] d (
     bind_result (read_integer d ''baseline_round_trips'' 0) (\<lambda>x0.
     bind_result (read_integer d ''deferral_round_trips'' 0) (\<lambda>x1.
     bind_result (read_float d ''declared_max_ratio'' (float_lit 1)) (\<lambda>x2.
     bind_result (read_float d ''observed_ratio'' (float_lit 1)) (\<lambda>x3.
     bind_result (read_integer d ''subpopulation_size'' 0) (\<lambda>x4.
     Inr \<lparr>tbe_baseline_round_trips = x0, tbe_deferral_round_trips = x1, tbe_declared_max_ratio = x2, tbe_observed_ratio = x3, tbe_subpopulation_size = x4\<rparr>))))))"

definition quote_freeze_backstop_fields :: "quote_freeze_backstop_evidence \<Rightarrow> metadata" where
  "quote_freeze_backstop_fields e = [(''quote_freeze_episodes'', MInt (qfe_quote_freeze_episodes e)),
     (''exited_by_session_flatten'', MInt (qfe_exited_by_session_flatten e)),
     (''breached_session_backstop'', MInt (qfe_breached_session_backstop e)),
     (''session_flatten_bound_seconds'', MFloat (qfe_session_flatten_bound_seconds e)),
     (''max_hold_seconds_observed'', MFloat (qfe_max_hold_seconds_observed e))]"

definition read_quote_freeze_backstop :: "metadata \<Rightarrow> quote_freeze_backstop_evidence result" where
  "read_quote_freeze_backstop d = known_fields [''quote_freeze_episodes'', ''exited_by_session_flatten'', ''breached_session_backstop'', ''session_flatten_bound_seconds'', ''max_hold_seconds_observed''] d (
     bind_result (read_integer d ''quote_freeze_episodes'' 0) (\<lambda>x0.
     bind_result (read_integer d ''exited_by_session_flatten'' 0) (\<lambda>x1.
     bind_result (read_integer d ''breached_session_backstop'' 0) (\<lambda>x2.
     bind_result (read_float d ''session_flatten_bound_seconds'' (float_lit 0)) (\<lambda>x3.
     bind_result (read_float d ''max_hold_seconds_observed'' (float_lit 0)) (\<lambda>x4.
     Inr \<lparr>qfe_quote_freeze_episodes = x0, qfe_exited_by_session_flatten = x1, qfe_breached_session_backstop = x2, qfe_session_flatten_bound_seconds = x3, qfe_max_hold_seconds_observed = x4\<rparr>))))))"


fun evidence_fields :: "evidence \<Rightarrow> metadata" where
  \<comment> \<open>the fields of a package as JSON values, tuples as lists and enums by value\<close>
  "evidence_fields (Research_Acceptance e) = research_acceptance_fields e"
| "evidence_fields (CPCV e) = cpcv_fields e"
| "evidence_fields (DSR e) = dsr_fields e"
| "evidence_fields (Paper_Window e) = paper_window_fields e"
| "evidence_fields (Capital_Stage e) = capital_stage_fields e"
| "evidence_fields (Quarantine_Trigger e) = quarantine_trigger_fields e"
| "evidence_fields (Revalidation e) = revalidation_fields e"
| "evidence_fields (Conditional_CVaR e) = conditional_cvar_fields e"
| "evidence_fields (Turnover_Bound e) = turnover_bound_fields e"
| "evidence_fields (Quote_Freeze_Backstop e) = quote_freeze_backstop_fields e"
| "evidence_fields (Unregistered ty) = []"

definition map_result :: "('a \<Rightarrow> 'b) \<Rightarrow> 'a result \<Rightarrow> 'b result" where
  "map_result f r = bind_result r (\<lambda>x. Inr (f x))"

definition reconstruct_evidence :: "string \<Rightarrow> metadata \<Rightarrow> evidence result" where
  "reconstruct_evidence kind d =
     (if kind = ''research_acceptance'' then map_result Research_Acceptance (read_research_acceptance d)
      else if kind = ''cpcv'' then map_result CPCV (read_cpcv d)
      else if kind = ''dsr'' then map_result DSR (read_dsr d)
      else if kind = ''paper_window'' then map_result Paper_Window (read_paper_window d)
      else if kind = ''capital_stage'' then map_result Capital_Stage (read_capital_stage d)
      else if kind = ''quarantine_trigger'' then map_result Quarantine_Trigger (read_quarantine_trigger d)
      else if kind = ''revalidation'' then map_result Revalidation (read_revalidation d)
      else if kind = ''conditional_cvar'' then map_result Conditional_CVaR (read_conditional_cvar d)
      else if kind = ''turnover_bound'' then map_result Turnover_Bound (read_turnover_bound d)
      else if kind = ''quote_freeze_backstop'' then map_result Quote_Freeze_Backstop (read_quote_freeze_backstop d)
      else Inl (KeyError kind))"

subsection \<open>The metadata of an entry\<close>

definition evidence_schema_version :: string where
  "evidence_schema_version = ''1.0.0''"

fun project_evidence :: "evidence list \<Rightarrow> string list \<Rightarrow> metadata \<Rightarrow> metadata result" where
  "project_evidence [] seen payload = Inr payload"
| "project_evidence (e # es) seen payload = (case evidence_kind e of
     None \<Rightarrow> Inl (TypeError ''unsupported evidence type'')
   | Some k \<Rightarrow> (if k \<in> set seen then Inl (ValueError ''duplicate evidence kind'')
       else project_evidence es (k # seen) (dict_set k (MDict (evidence_fields e)) payload)))"

definition evidence_to_metadata :: "evidence list \<Rightarrow> metadata result" where
  "evidence_to_metadata es = project_evidence es [] [(''schema_version'', MStr evidence_schema_version)]"

definition reserved_metadata_keys :: "string list" where
  "reserved_metadata_keys = [''schema_version'', ''reason'', ''config_version'', ''authorized_by'']"

fun read_kinds :: "string list \<Rightarrow> metadata \<Rightarrow> evidence list result" where
  "read_kinds [] d = Inr []"
| "read_kinds (k # ks) d = (case map_of d k of
     None \<Rightarrow> read_kinds ks d
   | Some (MDict payload) \<Rightarrow> bind_result (reconstruct_evidence k payload) (\<lambda>e. bind_result (read_kinds ks d) (\<lambda>es. Inr (e # es)))
   | Some _ \<Rightarrow> Inl (ValueError ''section must be an object''))"

definition metadata_to_evidence :: "meta \<Rightarrow> evidence list result" where
  "metadata_to_evidence m = (case m of
     MDict d \<Rightarrow> (case map_of d ''schema_version'' of
         None \<Rightarrow> Inr []
       | Some v \<Rightarrow> if v = MNone then Inr []
           else if v \<noteq> MStr evidence_schema_version then Inl (ValueError ''schema_version'')
           else bind_result (read_kinds registered_kinds d) (\<lambda>es.
             if list_ex (\<lambda>(k, v). k \<notin> set reserved_metadata_keys \<and> k \<notin> set registered_kinds) d
             then Inl (ValueError ''unknown kind'') else Inr es))
   | _ \<Rightarrow> Inl (ValueError ''expected a mapping''))"

subsection \<open>Round trip\<close>

lemma as_list_map: "(\<And>x. f (g x) = Inr x) \<Longrightarrow> as_list f (map g xs) = Inr xs"
  by (induction xs) simp_all

lemma as_tier_value [simp]: "as_tier (MStr (tier_value t)) = Inr t"
  by (cases t) simp_all

lemma known_fields_ok: "list_all (\<lambda>(name, v). name \<in> set names) d \<Longrightarrow> known_fields names d (Inr e) = Inr e"
  by (simp add: known_fields_def)

lemmas read_simps = known_fields_def read_field_def as_list_map

lemma research_acceptance_roundtrip: "read_research_acceptance (research_acceptance_fields e) = Inr e"
  by (simp add: read_research_acceptance_def research_acceptance_fields_def read_simps)

lemma cpcv_roundtrip: "read_cpcv (cpcv_fields e) = Inr e"
  by (simp add: read_cpcv_def cpcv_fields_def read_simps)

lemma dsr_roundtrip: "read_dsr (dsr_fields e) = Inr e"
  by (simp add: read_dsr_def dsr_fields_def read_simps)

lemma paper_window_roundtrip: "read_paper_window (paper_window_fields e) = Inr e"
  by (simp add: read_paper_window_def paper_window_fields_def read_simps)

lemma capital_stage_roundtrip: "read_capital_stage (capital_stage_fields e) = Inr e"
  by (cases "cse_tier e") (simp_all add: read_capital_stage_def capital_stage_fields_def read_simps)

lemma quarantine_trigger_roundtrip: "read_quarantine_trigger (quarantine_trigger_fields e) = Inr e"
  by (simp add: read_quarantine_trigger_def quarantine_trigger_fields_def read_simps)

lemma revalidation_roundtrip: "read_revalidation (revalidation_fields e) = Inr e"
  by (simp add: read_revalidation_def revalidation_fields_def read_simps)

lemma conditional_cvar_roundtrip: "read_conditional_cvar (conditional_cvar_fields e) = Inr e"
  by (simp add: read_conditional_cvar_def conditional_cvar_fields_def read_simps)

lemma turnover_bound_roundtrip: "read_turnover_bound (turnover_bound_fields e) = Inr e"
  by (simp add: read_turnover_bound_def turnover_bound_fields_def read_simps)

lemma quote_freeze_backstop_roundtrip: "read_quote_freeze_backstop (quote_freeze_backstop_fields e) = Inr e"
  by (simp add: read_quote_freeze_backstop_def quote_freeze_backstop_fields_def read_simps)

lemma reconstruct_fields:
  assumes "evidence_kind e = Some k"
  shows "reconstruct_evidence k (evidence_fields e) = Inr e"
proof -
  have "Some k = evidence_kind e" using assms by simp
  then show ?thesis
    by (cases e) (simp_all add: reconstruct_evidence_def map_result_def research_acceptance_roundtrip cpcv_roundtrip dsr_roundtrip
      paper_window_roundtrip capital_stage_roundtrip quarantine_trigger_roundtrip revalidation_roundtrip conditional_cvar_roundtrip
      turnover_bound_roundtrip quote_freeze_backstop_roundtrip)
qed

lemma evidence_kind_registered: "evidence_kind e = Some k \<Longrightarrow> k \<in> set registered_kinds"
  by (cases e) (auto simp: registered_kinds_def)

definition of_kind :: "evidence list \<Rightarrow> string \<Rightarrow> evidence list" where
  "of_kind es k = filter (\<lambda>e. evidence_kind e = Some k) es"

definition registry_order :: "evidence list \<Rightarrow> evidence list" where
  "registry_order es = concat (map (of_kind es) registered_kinds)"

lemma project_evidence_ok:
  assumes "project_evidence es seen payload = Inr m"
  shows "map_of m k = (if of_kind es k = [] then map_of payload k else Some (MDict (evidence_fields (hd (of_kind es k)))))"
    "fst ` set m = fst ` set payload \<union> {k. of_kind es k \<noteq> []}"
    "length (of_kind es k) \<le> 1" "k \<in> set seen \<Longrightarrow> of_kind es k = []"
proof -
  have "(\<forall>k. map_of m k = (if of_kind es k = [] then map_of payload k else Some (MDict (evidence_fields (hd (of_kind es k)))))
      \<and> length (of_kind es k) \<le> 1 \<and> (k \<in> set seen \<longrightarrow> of_kind es k = []))
    \<and> fst ` set m = fst ` set payload \<union> {k. of_kind es k \<noteq> []}"
    using assms
  proof (induction es arbitrary: seen payload)
    case Nil
    then show ?case by (simp add: of_kind_def)
  next
    case (Cons e es)
    obtain k where k: "evidence_kind e = Some k" "k \<notin> set seen"
      "project_evidence es (k # seen) (dict_set k (MDict (evidence_fields e)) payload) = Inr m"
      using Cons.prems by (auto split: option.splits if_splits)
    note ih = Cons.IH[OF k(3)]
    have e: "of_kind (e # es) k' = (if k' = k then e # of_kind es k else of_kind es k')" for k' by (simp add: of_kind_def k(1))
    have none: "of_kind es k = []" using ih by (meson list.set_intros(1))
    show ?case using ih none k(2) unfolding e by (auto split: if_splits)
  qed
  then show "map_of m k = (if of_kind es k = [] then map_of payload k else Some (MDict (evidence_fields (hd (of_kind es k)))))"
    "fst ` set m = fst ` set payload \<union> {k. of_kind es k \<noteq> []}"
    "length (of_kind es k) \<le> 1" "k \<in> set seen \<Longrightarrow> of_kind es k = []" by blast+
qed

lemma read_kinds_ok:
  assumes "\<And>k. k \<in> set ks \<Longrightarrow> map_of d k = (if of_kind es k = [] then None else Some (MDict (evidence_fields (hd (of_kind es k)))))"
    "\<And>k. length (of_kind es k) \<le> 1"
  shows "read_kinds ks d = Inr (concat (map (of_kind es) ks))"
  using assms(1)
proof (induction ks)
  case (Cons k ks)
  have rest: "read_kinds ks d = Inr (concat (map (of_kind es) ks))" using Cons by simp
  show ?case
  proof (cases "of_kind es k")
    case Nil
    then show ?thesis using Cons.prems[of k] rest by simp
  next
    case (Cons e es')
    then have "es' = []" "evidence_kind e = Some k" using assms(2)[of k] by (auto simp: of_kind_def filter_eq_Cons_iff)
    then show ?thesis using Cons.prems[of k] Cons rest by (simp add: reconstruct_fields)
  qed
qed simp

lemma evidence_roundtrip_lemma:
  assumes "evidence_to_metadata es = Inr m" "\<And>k. k \<notin> set (tl reserved_metadata_keys) \<Longrightarrow> map_of d k = map_of m k"
  shows "metadata_to_evidence (MDict d) = Inr (registry_order es)"
proof -
  note p = project_evidence_ok[OF assms(1)[unfolded evidence_to_metadata_def]]
  have reserved: "k \<notin> set reserved_metadata_keys" if "k \<in> set registered_kinds" for k
    using that by (auto simp: registered_kinds_def reserved_metadata_keys_def)
  have none: "of_kind es k = []" if "k \<notin> set registered_kinds" for k
    using that evidence_kind_registered by (auto simp: of_kind_def filter_empty_conv)
  have d: "map_of d k = (if of_kind es k = [] then None else Some (MDict (evidence_fields (hd (of_kind es k)))))" if "k \<in> set registered_kinds" for k
  proof -
    have "k \<notin> set (tl reserved_metadata_keys)" "k \<noteq> ''schema_version''" using reserved[OF that] by (auto simp: reserved_metadata_keys_def)
    then show ?thesis using assms(2) p(1)[of k] by simp
  qed
  have "map_of d ''schema_version'' = Some (MStr evidence_schema_version)"
    using assms(2)[of "''schema_version''"] p(1)[of "''schema_version''"] none[of "''schema_version''"] reserved[of "''schema_version''"]
    by (auto simp: reserved_metadata_keys_def)
  moreover have "k \<in> set reserved_metadata_keys \<or> k \<in> set registered_kinds" if "(k, v) \<in> set d" for k v
  proof (rule ccontr)
    assume k: "\<not> ?thesis"
    then have "map_of d k = None" using assms(2)[of k] p(1)[of k] none[of k] by (auto simp: reserved_metadata_keys_def)
    then show False using that by (auto simp: map_of_eq_None_iff image_iff)
  qed
  ultimately show ?thesis using read_kinds_ok[of registered_kinds d es] d p(3)
    by (auto simp: metadata_to_evidence_def registry_order_def list_ex_iff)
qed

lemma concat_of_kind_Cons:
  "evidence_kind e = Some k \<Longrightarrow> distinct ks \<Longrightarrow>
    mset (concat (map (of_kind (e # es)) ks)) = (if k \<in> set ks then {#e#} else {#}) + mset (concat (map (of_kind es) ks))"
  by (induction ks) (auto simp: of_kind_def)

lemma registered_kinds_distinct: "distinct registered_kinds"
  by (simp add: registered_kinds_def)

lemma mset_registry_order: "list_all (\<lambda>e. evidence_kind e \<noteq> None) es \<Longrightarrow> mset (registry_order es) = mset es"
proof (induction es)
  case Nil
  then show ?case by (simp add: registry_order_def of_kind_def)
next
  case (Cons e es)
  then obtain k where k: "evidence_kind e = Some k" by auto
  then show ?case using Cons concat_of_kind_Cons[OF k registered_kinds_distinct, of es] evidence_kind_registered[OF k]
    by (simp add: registry_order_def)
qed

lemma project_evidence_registered: "project_evidence es seen payload = Inr m \<Longrightarrow> list_all (\<lambda>e. evidence_kind e \<noteq> None) es"
  by (induction es arbitrary: seen payload) (auto split: option.splits if_splits)

text \<open>C34: evidence survives the ledger. Whatever packages are projected into the metadata of an entry, a dictionary that
  agrees with it outside the reserved co-keys reads back as exactly these packages, each with all its
  fields, in the order of the registry and none lost.\<close>
theorem evidence_survives_ledger:
  assumes "evidence_to_metadata es = Inr m" "\<forall>k. k \<notin> set (tl reserved_metadata_keys) \<longrightarrow> map_of d k = map_of m k"
  shows "metadata_to_evidence (MDict d) = Inr (registry_order es) \<and> mset (registry_order es) = mset es"
  using evidence_roundtrip_lemma[OF assms(1)] assms(2)
    mset_registry_order[OF project_evidence_registered[OF assms(1)[unfolded evidence_to_metadata_def]]] by blast

theorem evidence_survives_witness:
  "\<exists>es'. metadata_to_evidence (MDict [(''reason'', MStr ''drift''), (''schema_version'', MStr ''1.0.0''),
       (''capital_stage'', MDict (capital_stage_fields sample_capital))]) = Inr es' \<and> mset es' = {#Capital_Stage sample_capital#}"
proof -
  have "evidence_to_metadata [Capital_Stage sample_capital]
      = Inr [(''schema_version'', MStr ''1.0.0''), (''capital_stage'', MDict (capital_stage_fields sample_capital))]"
    by (simp add: evidence_to_metadata_def evidence_schema_version_def)
  from evidence_survives_ledger[OF this, of "[(''reason'', MStr ''drift''), (''schema_version'', MStr ''1.0.0''),
       (''capital_stage'', MDict (capital_stage_fields sample_capital))]"]
  show ?thesis by (auto simp: reserved_metadata_keys_def)
qed

end
