(* ===== verification/Lifecycle.thy ===== *)
theory Lifecycle
  imports State_Machine Evidence_Metadata "HOL-Library.Countable"
begin

section \<open>The promotion lifecycle of an alpha and its ledger (promotion/lifecycle.py, promotion/ledger.py)\<close>

text \<open>
  The ledger is a file of JSON lines; an append may be refused by the operating system before
  anything is written. The lifecycle is the state machine of \<open>State_Machine\<close> with two
  callbacks, the ledger's and the revocation hook's, around which its operations check evidence.
  JSON is a codec, whose documented behaviour is a hypothesis. Locks and log messages are left
  out. The alpha registry contributes its dispatch over the current state.
\<close>

subsection \<open>The ledger\<close>

record line_codec =
  jl_dumps :: "meta \<Rightarrow> string"              \<comment> \<open>\<open>json.dumps(..., sort_keys=True)\<close>\<close>
  jl_dumps_plain :: "meta \<Rightarrow> string"        \<comment> \<open>\<open>json.dumps(...)\<close>\<close>
  jl_loads :: "string \<Rightarrow> meta option"       \<comment> \<open>\<open>json.loads\<close>\<close>
  jl_str :: "meta \<Rightarrow> string"                \<comment> \<open>\<open>str\<close> of a JSON value\<close>
  jl_int :: "meta \<Rightarrow> int result"            \<comment> \<open>\<open>int\<close> of a JSON value\<close>

record ledger_entry =
  le_schema_version :: string
  le_alpha_id :: string
  le_from_state :: string
  le_to_state :: string
  le_trigger :: string
  le_timestamp :: ns
  le_correlation_id :: string
  le_metadata :: metadata

definition ledger_schema_version :: string where
  "ledger_schema_version = ''1.0.0''"

definition entry_payload :: "ledger_entry \<Rightarrow> metadata" where
  "entry_payload e = [(''schema_version'', MStr (le_schema_version e)), (''alpha_id'', MStr (le_alpha_id e)),
     (''from_state'', MStr (le_from_state e)), (''to_state'', MStr (le_to_state e)), (''trigger'', MStr (le_trigger e)),
     (''timestamp_ns'', MInt (le_timestamp e)), (''correlation_id'', MStr (le_correlation_id e)), (''metadata'', MDict (le_metadata e))]"

definition to_json_line :: "line_codec \<Rightarrow> ledger_entry \<Rightarrow> string" where
  "to_json_line c e = jl_dumps c (MDict (entry_payload e))"

definition required_fields :: "string list" where
  "required_fields = [''schema_version'', ''alpha_id'', ''from_state'', ''to_state'', ''trigger'', ''timestamp_ns'']"

fun as_dict :: "meta \<Rightarrow> metadata result" where
  \<comment> \<open>\<open>dict(...)\<close> of a JSON value; a sequence of pairs, which it would also take, is not written by the code\<close>
  "as_dict (MDict d) = Inr d"
| "as_dict _ = Inl (TypeError ''dict'')"

definition from_json_line :: "line_codec \<Rightarrow> string \<Rightarrow> ledger_entry result" where
  "from_json_line c line = (case jl_loads c line of
     None \<Rightarrow> Inl (ValueError ''not valid JSON'')
   | Some (MDict d) \<Rightarrow>
       if list_ex (\<lambda>k. map_of d k = None) required_fields then Inl (ValueError ''missing required field(s)'')
       else (let str = (\<lambda>k. jl_str c (the (map_of d k))) in
         bind_result (jl_int c (the (map_of d ''timestamp_ns''))) (\<lambda>ts.
         bind_result (as_dict (case map_of d ''metadata'' of None \<Rightarrow> MDict [] | Some v \<Rightarrow> v)) (\<lambda>meta.
         Inr \<lparr>le_schema_version = str ''schema_version'', le_alpha_id = str ''alpha_id'', le_from_state = str ''from_state'',
           le_to_state = str ''to_state'', le_trigger = str ''trigger'', le_timestamp = ts,
           le_correlation_id = (case map_of d ''correlation_id'' of None \<Rightarrow> '''' | Some v \<Rightarrow> jl_str c v), le_metadata = meta\<rparr>)))
   | Some _ \<Rightarrow> Inl (ValueError ''must decode to an object''))"

record ledger_file =
  pl_lines :: "string list"    \<comment> \<open>the terminated lines of the file\<close>
  pl_refusals :: "bool list"   \<comment> \<open>which of the next appends the system refuses\<close>

definition ledger_append :: "line_codec \<Rightarrow> ledger_entry \<Rightarrow> 'x ledger_file_scheme \<Rightarrow> 'x ledger_file_scheme \<times> exn option" where
  "ledger_append c e w = (case pl_refusals w of
     True # rs \<Rightarrow> (w\<lparr>pl_refusals := rs\<rparr>, Some (OtherException ''OSError''))
   | rs \<Rightarrow> (w\<lparr>pl_refusals := tl rs, pl_lines := pl_lines w @ [to_json_line c e]\<rparr>, None))"

fun read_entries :: "line_codec \<Rightarrow> string list \<Rightarrow> ledger_entry list result" where
  "read_entries c [] = Inr []"
| "read_entries c (line # ls) =
     (if line = [] then read_entries c ls
      else case from_json_line c line of
        Inl (ValueError msg) \<Rightarrow> Inl (ValueError ''Corrupt promotion-ledger entry'')
      | Inl e \<Rightarrow> Inl e
      | Inr entry \<Rightarrow> bind_result (read_entries c ls) (\<lambda>es. Inr (entry # es)))"

definition ledger_entries :: "line_codec \<Rightarrow> 'x ledger_file_scheme \<Rightarrow> ledger_entry list result" where
  "ledger_entries c w = read_entries c (pl_lines w)"

definition entries_for :: "line_codec \<Rightarrow> string \<Rightarrow> 'x ledger_file_scheme \<Rightarrow> ledger_entry list result" where
  "entries_for c alpha w = bind_result (ledger_entries c w) (\<lambda>es. Inr (filter (\<lambda>e. le_alpha_id e = alpha) es))"

definition latest_for :: "line_codec \<Rightarrow> string \<Rightarrow> 'x ledger_file_scheme \<Rightarrow> ledger_entry option result" where
  "latest_for c alpha w = bind_result (entries_for c alpha w) (\<lambda>es. Inr (if es = [] then None else Some (last es)))"

definition ledger_length :: "line_codec \<Rightarrow> 'x ledger_file_scheme \<Rightarrow> nat result" where
  "ledger_length c w = bind_result (ledger_entries c w) (\<lambda>es. Inr (length es))"

subsection \<open>States, requirements and compatibility evidence\<close>

datatype alpha_state = RESEARCH | PAPER | LIVE | QUARANTINED | DECOMMISSIONED

instantiation alpha_state :: enum
begin
definition "enum_class.enum = [RESEARCH, PAPER, LIVE, QUARANTINED, DECOMMISSIONED]"
definition "enum_class.enum_all P \<longleftrightarrow> list_all P [RESEARCH, PAPER, LIVE, QUARANTINED, DECOMMISSIONED]"
definition "enum_class.enum_ex P \<longleftrightarrow> list_ex P [RESEARCH, PAPER, LIVE, QUARANTINED, DECOMMISSIONED]"
instance proof
  show univ: "UNIV = set (enum_class.enum :: alpha_state list)"
    unfolding enum_alpha_state_def using alpha_state.exhaust by auto
  show "distinct (enum_class.enum :: alpha_state list)" unfolding enum_alpha_state_def by simp
  show "enum_class.enum_all P \<longleftrightarrow> Ball UNIV P" for P :: "alpha_state \<Rightarrow> bool"
    unfolding enum_all_alpha_state_def univ enum_alpha_state_def by simp
  show "enum_class.enum_ex P \<longleftrightarrow> Bex UNIV P" for P :: "alpha_state \<Rightarrow> bool"
    unfolding enum_ex_alpha_state_def univ enum_alpha_state_def by simp
qed
end

fun alpha_state_name :: "alpha_state \<Rightarrow> string" where
  "alpha_state_name RESEARCH = ''RESEARCH''"
| "alpha_state_name PAPER = ''PAPER''"
| "alpha_state_name LIVE = ''LIVE''"
| "alpha_state_name QUARANTINED = ''QUARANTINED''"
| "alpha_state_name DECOMMISSIONED = ''DECOMMISSIONED''"

fun lifecycle_transitions :: "alpha_state \<Rightarrow> alpha_state set option" where
  "lifecycle_transitions RESEARCH = Some {PAPER}"
| "lifecycle_transitions PAPER = Some {LIVE}"
| "lifecycle_transitions LIVE = Some {LIVE, QUARANTINED}"
| "lifecycle_transitions QUARANTINED = Some {PAPER, DECOMMISSIONED}"
| "lifecycle_transitions DECOMMISSIONED = Some {}"

definition revocation_states :: "alpha_state set" where
  "revocation_states = {QUARANTINED, DECOMMISSIONED}"

record revocation =
  rn_alpha_id :: string
  rn_from_state :: string
  rn_to_state :: string
  rn_trigger :: string
  rn_timestamp :: ns
  rn_correlation_id :: string

record promotion_evidence =
  pe_paper_days :: int
  pe_paper_sharpe :: pyfloat
  pe_paper_hit_rate :: pyfloat
  pe_paper_max_drawdown_pct :: pyfloat
  pe_determinism_test_passed :: bool
  pe_schema_valid :: bool
  pe_feature_values_finite :: bool
  pe_cost_model_validated :: bool
  pe_quarantine_triggers :: int
  pe_revalidation_notes :: string
  pe_extra :: metadata

record gate_requirements =
  gr_paper_min_days :: int
  gr_paper_min_sharpe :: pyfloat
  gr_paper_min_hit_rate :: pyfloat
  gr_paper_max_drawdown_pct :: pyfloat

definition default_requirements :: gate_requirements where
  "default_requirements = \<lparr>gr_paper_min_days = 30, gr_paper_min_sharpe = float_lit 1, gr_paper_min_hit_rate = float_lit (1 / 2),
     gr_paper_max_drawdown_pct = float_lit 5\<rparr>"

definition check_paper_gate :: "promotion_evidence \<Rightarrow> string list" where
  "check_paper_gate e =
     complain (\<not> pe_schema_valid e) ''schema validation has not passed''
     @ complain (\<not> pe_determinism_test_passed e) ''determinism smoke test has not passed''
     @ complain (\<not> pe_feature_values_finite e) ''feature values not confirmed finite''"

definition check_live_gate :: "gate_requirements \<Rightarrow> promotion_evidence \<Rightarrow> string list" where
  "check_live_gate req e =
     complain (pe_paper_days e < gr_paper_min_days req) ''insufficient paper trading days''
     @ complain (fless (pe_paper_sharpe e) (gr_paper_min_sharpe req)) ''paper Sharpe''
     @ complain (fless (pe_paper_hit_rate e) (gr_paper_min_hit_rate req)) ''paper hit rate''
     @ complain (fless (gr_paper_max_drawdown_pct req) (pe_paper_max_drawdown_pct e)) ''paper max drawdown''
     @ complain (0 < pe_quarantine_triggers e) ''quarantine triggers during paper period''
     @ complain (\<not> pe_cost_model_validated e) ''cost model has not been validated''"

definition check_revalidation_gate :: "promotion_evidence \<Rightarrow> string list" where
  "check_revalidation_gate e =
     complain (\<not> pe_determinism_test_passed e) ''determinism re-test has not passed''
     @ complain (blank (pe_revalidation_notes e)) ''revalidation notes required (human review)''"

definition promotion_evidence_fields :: "promotion_evidence \<Rightarrow> metadata" where
  "promotion_evidence_fields e = [(''paper_days'', MInt (pe_paper_days e)), (''paper_sharpe'', MFloat (pe_paper_sharpe e)),
     (''paper_hit_rate'', MFloat (pe_paper_hit_rate e)), (''paper_max_drawdown_pct'', MFloat (pe_paper_max_drawdown_pct e)),
     (''determinism_test_passed'', MBool (pe_determinism_test_passed e)), (''schema_valid'', MBool (pe_schema_valid e)),
     (''feature_values_finite'', MBool (pe_feature_values_finite e)), (''cost_model_validated'', MBool (pe_cost_model_validated e)),
     (''quarantine_triggers'', MInt (pe_quarantine_triggers e)), (''revalidation_notes'', MStr (pe_revalidation_notes e))]"

subsection \<open>The lifecycle\<close>

record 'w lifecycle =
  lc_alpha :: string
  lc_requirements :: gate_requirements
  lc_thresholds :: gate_thresholds
  lc_ledger :: "(ledger_entry \<Rightarrow> 'w \<Rightarrow> 'w \<times> exn option) option"
  lc_cap :: "string option"
  lc_hook :: "(revocation \<Rightarrow> 'w \<Rightarrow> 'w \<times> exn option) option"
  lc_tier :: "capital_tier option"
  lc_sm :: "(alpha_state, 'w) machine"

definition entry_of :: "string \<Rightarrow> alpha_state transition_record \<Rightarrow> ledger_entry" where
  "entry_of alpha r = \<lparr>le_schema_version = ledger_schema_version, le_alpha_id = alpha, le_from_state = alpha_state_name (tr_from r),
     le_to_state = alpha_state_name (tr_to r), le_trigger = tr_trigger r, le_timestamp = tr_timestamp r,
     le_correlation_id = tr_correlation r, le_metadata = tr_metadata r\<rparr>"

definition record_to_ledger :: "string \<Rightarrow> (ledger_entry \<Rightarrow> 'w \<Rightarrow> 'w \<times> exn option) \<Rightarrow> (alpha_state, 'w) callback" where
  "record_to_ledger alpha app r w = app (entry_of alpha r) w"

definition fire_revocation_hook :: "string \<Rightarrow> (revocation \<Rightarrow> 'w \<Rightarrow> 'w \<times> exn option) option \<Rightarrow> (alpha_state, 'w) callback" where
  \<comment> \<open>what the hook raises is swallowed\<close>
  "fire_revocation_hook alpha hook r w = (case hook of
     None \<Rightarrow> (w, None)
   | Some h \<Rightarrow>
       if tr_to r \<notin> revocation_states then (w, None)
       else (fst (h \<lparr>rn_alpha_id = alpha, rn_from_state = alpha_state_name (tr_from r), rn_to_state = alpha_state_name (tr_to r),
               rn_trigger = tr_trigger r, rn_timestamp = tr_timestamp r, rn_correlation_id = tr_correlation r\<rparr> w), None))"

definition lifecycle_callbacks :: "'w lifecycle \<Rightarrow> (alpha_state, 'w) callback list" where
  \<comment> \<open>bound methods: the hook is the one in force when they run\<close>
  "lifecycle_callbacks l = (case lc_ledger l of None \<Rightarrow> [] | Some app \<Rightarrow> [record_to_ledger (lc_alpha l) app])
     @ [fire_revocation_hook (lc_alpha l) (lc_hook l)]"

definition new_lifecycle ::
  "string \<Rightarrow> gate_requirements option \<Rightarrow> gate_thresholds option \<Rightarrow> (ledger_entry \<Rightarrow> 'w \<Rightarrow> 'w \<times> exn option) option \<Rightarrow> string option
   \<Rightarrow> (revocation \<Rightarrow> 'w \<Rightarrow> 'w \<times> exn option) option \<Rightarrow> 'w lifecycle result" where
  "new_lifecycle alpha requirements thresholds ledger cap hook =
     bind_result (new_machine (''alpha_lifecycle:'' @ alpha) RESEARCH lifecycle_transitions None) (\<lambda>m.
       Inr \<lparr>lc_alpha = alpha, lc_requirements = (case requirements of None \<Rightarrow> default_requirements | Some q \<Rightarrow> q),
         lc_thresholds = base_thresholds thresholds, lc_ledger = ledger, lc_cap = cap, lc_hook = hook, lc_tier = None, lc_sm = m\<rparr>)"

definition set_revocation_hook :: "(revocation \<Rightarrow> 'w \<Rightarrow> 'w \<times> exn option) option \<Rightarrow> 'w lifecycle \<Rightarrow> 'w lifecycle" where
  "set_revocation_hook hook l = l\<lparr>lc_hook := hook\<rparr>"

abbreviation lc_state :: "'w lifecycle \<Rightarrow> alpha_state" where
  "lc_state l \<equiv> sm_state (lc_sm l)"

definition is_active :: "'w lifecycle \<Rightarrow> bool" where
  "is_active l \<longleftrightarrow> lc_state l = PAPER \<or> lc_state l = LIVE"

definition is_live :: "'w lifecycle \<Rightarrow> bool" where
  "is_live l \<longleftrightarrow> lc_state l = LIVE"

definition lc_transition ::
  "alpha_state \<Rightarrow> string \<Rightarrow> string \<Rightarrow> metadata \<Rightarrow> ns \<Rightarrow> 'w lifecycle \<times> 'w \<Rightarrow> unit result \<times> 'w lifecycle \<times> 'w" where
  "lc_transition target trigger cid meta now lw = (case lw of (l, w) \<Rightarrow>
     (case transition ((lc_sm l)\<lparr>sm_callbacks := lifecycle_callbacks l\<rparr>) target trigger cid (Some meta) now w of
        (r, m, w') \<Rightarrow> (map_result (\<lambda>_. ()) r, l\<lparr>lc_sm := m\<lparr>sm_callbacks := sm_callbacks (lc_sm l)\<rparr>\<rparr>, w')))"

subsection \<open>Promotion\<close>

definition lifecycle_promotion_errors :: "alpha_state \<Rightarrow> 'w lifecycle \<Rightarrow> string list" where
  "lifecycle_promotion_errors target l =
     complain (lc_cap l = Some ''RESEARCH'' \<and> (target = PAPER \<or> target = LIVE)) ''promotion is disabled (research-only reference alpha)''"

definition select_evidence ::
  "promotion_evidence option \<Rightarrow> evidence list option \<Rightarrow> gate_id \<Rightarrow> (promotion_evidence \<Rightarrow> string list) \<Rightarrow> gate_thresholds \<Rightarrow> string list result" where
  "select_evidence legacy structured gate validator t = (case (legacy, structured) of
     (Some e, Some es) \<Rightarrow> Inl (ValueError ''supply either, not both'')
   | (None, None) \<Rightarrow> Inl (ValueError ''must supply either'')
   | (None, Some es) \<Rightarrow> Inr (validate_gate gate es t)
   | (Some e, None) \<Rightarrow> Inr (validator e))"

definition build_metadata :: "promotion_evidence option \<Rightarrow> evidence list option \<Rightarrow> metadata result" where
  "build_metadata legacy structured = (case structured of
     Some es \<Rightarrow> evidence_to_metadata es
   | None \<Rightarrow> (case legacy of None \<Rightarrow> Inl (AssertionError ''legacy_evidence'') | Some e \<Rightarrow> Inr [(''evidence'', MDict (promotion_evidence_fields e))]))"

definition promote_with_evidence ::
  "gate_id \<Rightarrow> alpha_state \<Rightarrow> string \<Rightarrow> (promotion_evidence \<Rightarrow> string list) \<Rightarrow> promotion_evidence option \<Rightarrow> evidence list option \<Rightarrow> string \<Rightarrow> ns
   \<Rightarrow> 'w lifecycle \<times> 'w \<Rightarrow> string list result \<times> 'w lifecycle \<times> 'w" where
  "promote_with_evidence gate target trigger validator legacy structured cid now lw =
     (let l = fst lw; capped = lifecycle_promotion_errors target l in
      if capped \<noteq> [] then (Inr capped, lw)
      else case select_evidence legacy structured gate validator (lc_thresholds l) of
        Inl x \<Rightarrow> (Inl x, lw)
      | Inr errors \<Rightarrow> (if errors \<noteq> [] then (Inr errors, lw)
          else case build_metadata legacy structured of
            Inl x \<Rightarrow> (Inl x, lw)
          | Inr meta \<Rightarrow> (case lc_transition target trigger cid meta now lw of (r, lw') \<Rightarrow> (map_result (\<lambda>_. []) r, lw'))))"

definition promote_to_paper where
  "promote_to_paper = promote_with_evidence RESEARCH_TO_PAPER PAPER ''pass_paper_gate'' check_paper_gate"

definition promote_to_live ::
  "promotion_evidence option \<Rightarrow> evidence list option \<Rightarrow> string \<Rightarrow> ns \<Rightarrow> 'w lifecycle \<times> 'w \<Rightarrow> string list result \<times> 'w lifecycle \<times> 'w" where
  "promote_to_live legacy structured cid now lw =
     promote_with_evidence PAPER_TO_LIVE LIVE ''pass_live_gate'' (check_live_gate (lc_requirements (fst lw))) legacy structured cid now lw"

definition revalidate_to_paper where
  "revalidate_to_paper = promote_with_evidence QUARANTINED_TO_PAPER PAPER ''revalidation_passed'' check_revalidation_gate"

fun current_tier_of :: "alpha_state transition_record list \<Rightarrow> capital_tier option \<Rightarrow> capital_tier" where
  \<comment> \<open>the scan of the history from its newest record\<close>
  "current_tier_of [] persisted = (case persisted of None \<Rightarrow> SMALL_CAPITAL | Some t \<Rightarrow> t)"
| "current_tier_of (r # rs) persisted =
     (if tr_trigger r = ''promote_capital_tier'' then SCALED
      else if tr_to r = LIVE \<and> tr_from r \<noteq> LIVE then SMALL_CAPITAL
      else current_tier_of rs persisted)"

definition current_capital_tier :: "'w lifecycle \<Rightarrow> capital_tier option" where
  "current_capital_tier l = (if lc_state l \<noteq> LIVE then None else Some (current_tier_of (rev (sm_history (lc_sm l))) (lc_tier l)))"

definition promote_capital_tier :: "capital_stage_evidence \<Rightarrow> string \<Rightarrow> ns \<Rightarrow> 'w lifecycle \<times> 'w \<Rightarrow> string list result \<times> 'w lifecycle \<times> 'w" where
  "promote_capital_tier e cid now lw =
     (let l = fst lw in
      if lc_state l \<noteq> LIVE then (Inr [''capital-tier promotion requires state=LIVE''], lw)
      else if current_capital_tier l = Some SCALED then (Inr [''capital-tier promotion already complete''], lw)
      else let errors = validate_gate LIVE_PROMOTE_CAPITAL_TIER [Capital_Stage e] (lc_thresholds l) in
        if errors \<noteq> [] then (Inr errors, lw)
        else case evidence_to_metadata [Capital_Stage e] of
          Inl x \<Rightarrow> (Inl x, lw)
        | Inr meta \<Rightarrow> (case lc_transition LIVE ''promote_capital_tier'' cid meta now lw of (r, lw') \<Rightarrow> (map_result (\<lambda>_. []) r, lw')))"

definition authorize_decouple :: "evidence list \<Rightarrow> string \<Rightarrow> string \<Rightarrow> string \<Rightarrow> ns \<Rightarrow> 'w lifecycle \<times> 'w \<Rightarrow> string list result \<times> 'w lifecycle \<times> 'w" where
  "authorize_decouple es config_version authorized_by cid now lw =
     (let l = fst lw; missing = complain (blank config_version) ''non-empty config_version'' @ complain (blank authorized_by) ''non-empty authorized_by'' in
      if lc_state l \<noteq> LIVE then (Inr [''decouple authorization requires state=LIVE''], lw)
      else if missing \<noteq> [] then (Inr missing, lw)
      else let errors = validate_gate DECOUPLE_CAPS_ONLY es (lc_thresholds l) in
        if errors \<noteq> [] then (Inr errors, lw)
        else case evidence_to_metadata es of
          Inl x \<Rightarrow> (Inl x, lw)
        | Inr meta \<Rightarrow> (case lc_transition LIVE ''authorize_decouple_caps_only'' cid
              (dict_set ''authorized_by'' (MStr authorized_by) (dict_set ''config_version'' (MStr config_version) meta)) now lw of
            (r, lw') \<Rightarrow> (map_result (\<lambda>_. []) r, lw')))"

subsection \<open>Demotion\<close>

definition quarantine_metadata :: "string \<Rightarrow> evidence list option \<Rightarrow> metadata result" where
  "quarantine_metadata reason structured = (case structured of
     None \<Rightarrow> Inr [(''reason'', MStr reason)]
   | Some es \<Rightarrow> bind_result (evidence_to_metadata es) (\<lambda>m. Inr (fold (\<lambda>(k, v). dict_set k v) m [(''reason'', MStr reason)])))"

definition quarantine :: "string \<Rightarrow> evidence list option \<Rightarrow> string \<Rightarrow> ns \<Rightarrow> 'w lifecycle \<times> 'w \<Rightarrow> unit result \<times> 'w lifecycle \<times> 'w" where
  \<comment> \<open>the validator's complaints are only logged\<close>
  "quarantine reason structured cid now lw = (case quarantine_metadata reason structured of
     Inl x \<Rightarrow> (Inl x, lw)
   | Inr meta \<Rightarrow> lc_transition QUARANTINED ''edge_decay_detected'' cid meta now lw)"

definition recommendation_evidence :: "pyfloat \<Rightarrow> pyfloat \<Rightarrow> pyfloat \<Rightarrow> pyfloat option \<Rightarrow> quarantine_trigger_evidence" where
  "recommendation_evidence net mean_cost_bps margin decay_z =
     \<lparr>qte_net_alpha_negative_days = 0, qte_hit_rate_residual_pp = float_lit 0, qte_microstructure_metrics_breached = [],
      qte_crowding_symptoms = complain (fleq net (Fin 0)) ''net_negative_over_window''
        @ complain (fless (Fin 0) mean_cost_bps \<and> fless margin (Fin 1)) ''realized_edge_below_cost''
        @ complain (case decay_z of None \<Rightarrow> False | Some z \<Rightarrow> fless (Fin 2) z) ''edge_decay_zscore'',
      qte_pnl_compression_ratio_5d = (case margin of Fin m \<Rightarrow> Fin (max 0 m) | _ \<Rightarrow> Fin 1)\<rparr>"

definition apply_recommendation ::
  "string \<Rightarrow> pyfloat \<Rightarrow> pyfloat \<Rightarrow> pyfloat \<Rightarrow> pyfloat option \<Rightarrow> string \<Rightarrow> string \<Rightarrow> ns \<Rightarrow> 'w lifecycle \<times> 'w \<Rightarrow> bool result \<times> 'w lifecycle \<times> 'w" where
  "apply_recommendation reason net cost margin decay_z actor cid now lw =
     (if \<not> is_live (fst lw) then (Inr False, lw)
      else case quarantine (actor @ '': '' @ reason) (Some [Quarantine_Trigger (recommendation_evidence net cost margin decay_z)]) cid now lw of
        (r, lw') \<Rightarrow> (map_result (\<lambda>_. True) r, lw'))"

definition decommission :: "string \<Rightarrow> string \<Rightarrow> ns \<Rightarrow> 'w lifecycle \<times> 'w \<Rightarrow> unit result \<times> 'w lifecycle \<times> 'w" where
  "decommission reason cid now lw = lc_transition DECOMMISSIONED ''decommissioned'' cid [(''reason'', MStr reason)] now lw"

subsection \<open>Checkpoints\<close>

definition checkpoint :: "line_codec \<Rightarrow> 'w lifecycle \<Rightarrow> string" where
  "checkpoint c l = jl_dumps_plain c (MDict ([(''alpha_id'', MStr (lc_alpha l)), (''state'', MStr (alpha_state_name (lc_state l)))]
     @ (case current_capital_tier l of None \<Rightarrow> [] | Some t \<Rightarrow> [(''capital_tier'', MStr (tier_value t))])))"

definition state_named :: "meta \<Rightarrow> alpha_state result" where
  \<comment> \<open>\<open>AlphaLifecycleState[name]\<close>, with the \<open>KeyError\<close> turned into \<open>ValueError\<close>\<close>
  "state_named v = (case v of
     MStr s \<Rightarrow> (case List.find (\<lambda>a. alpha_state_name a = s) [RESEARCH, PAPER, LIVE, QUARANTINED, DECOMMISSIONED] of
       None \<Rightarrow> Inl (ValueError ''Unknown lifecycle state'') | Some a \<Rightarrow> Inr a)
   | MList vs \<Rightarrow> Inl (TypeError ''unhashable'')
   | MDict d \<Rightarrow> Inl (TypeError ''unhashable'')
   | _ \<Rightarrow> Inl (ValueError ''Unknown lifecycle state''))"

definition tier_named :: "meta \<Rightarrow> capital_tier result" where
  "tier_named v = (case v of
     MStr s \<Rightarrow> (case List.find (\<lambda>t. tier_value t = s) [SMALL_CAPITAL, SCALED] of
       None \<Rightarrow> Inl (ValueError ''Unknown capital_tier'') | Some t \<Rightarrow> Inr t)
   | MList vs \<Rightarrow> Inl (TypeError ''unhashable'')
   | MDict d \<Rightarrow> Inl (TypeError ''unhashable'')
   | _ \<Rightarrow> Inl (ValueError ''Unknown capital_tier''))"

fun present :: "meta option \<Rightarrow> meta option" where
  \<comment> \<open>\<open>dict.get\<close>, where a null is as good as nothing\<close>
  "present (Some MNone) = None"
| "present v = v"

definition restore :: "line_codec \<Rightarrow> string \<Rightarrow> 'w lifecycle \<Rightarrow> 'w lifecycle result" where
  "restore c text_data l = (case jl_loads c text_data of
     None \<Rightarrow> Inl (ValueError ''Corrupt lifecycle checkpoint'')
   | Some (MDict d) \<Rightarrow> (case present (map_of d ''state'') of
         None \<Rightarrow> Inl (ValueError ''Missing state'')
       | Some v \<Rightarrow> bind_result (state_named v) (\<lambda>target.
           if lifecycle_promotion_errors target l \<noteq> [] then Inl (ValueError ''Cannot restore'')
           else case present (map_of d ''capital_tier'') of
             None \<Rightarrow> Inr (l\<lparr>lc_tier := None, lc_sm := (lc_sm l)\<lparr>sm_state := target\<rparr>\<rparr>)
           | Some tv \<Rightarrow> if target \<noteq> LIVE then Inl (ValueError ''capital tier is only meaningful in LIVE'')
               else bind_result (tier_named tv) (\<lambda>t. Inr (l\<lparr>lc_tier := Some t, lc_sm := (lc_sm l)\<lparr>sm_state := target\<rparr>\<rparr>))))
   | Some _ \<Rightarrow> Inl (OtherException ''AttributeError''))"

definition registry_promote :: "promotion_evidence option \<Rightarrow> evidence list option \<Rightarrow> string \<Rightarrow> ns \<Rightarrow> 'w lifecycle \<times> 'w \<Rightarrow> string list result \<times> 'w lifecycle \<times> 'w" where
  "registry_promote legacy structured cid now lw = (case lc_state (fst lw) of
     RESEARCH \<Rightarrow> promote_to_paper legacy structured cid now lw
   | PAPER \<Rightarrow> promote_to_live legacy structured cid now lw
   | QUARANTINED \<Rightarrow> revalidate_to_paper legacy structured cid now lw
   | _ \<Rightarrow> (Inr [''cannot be promoted''], lw))"

subsection \<open>One transition\<close>

definition next_record :: "'w lifecycle \<Rightarrow> alpha_state \<Rightarrow> string \<Rightarrow> string \<Rightarrow> metadata \<Rightarrow> ns \<Rightarrow> alpha_state transition_record" where
  "next_record l target trigger cid meta now = new_record (lc_sm l) target trigger cid meta now"

lemma next_record_simps [simp]:
  "tr_from (next_record l target trigger cid meta now) = lc_state l" "tr_to (next_record l target trigger cid meta now) = target"
  "tr_trigger (next_record l target trigger cid meta now) = trigger" "tr_metadata (next_record l target trigger cid meta now) = meta"
  by (simp_all add: next_record_def)

definition advanced :: "'w lifecycle \<Rightarrow> alpha_state transition_record \<Rightarrow> 'w lifecycle" where
  "advanced l r = l\<lparr>lc_sm := (lc_sm l)\<lparr>sm_history := push_bounded (sm_limit (lc_sm l)) r (sm_history (lc_sm l)), sm_state := tr_to r\<rparr>\<rparr>"

definition after_hook :: "'w lifecycle \<Rightarrow> alpha_state transition_record \<Rightarrow> 'w \<Rightarrow> 'w" where
  "after_hook l r w = fst (fire_revocation_hook (lc_alpha l) (lc_hook l) r w)"

lemma fire_never_raises: "fire_revocation_hook (lc_alpha l) (lc_hook l) r w = (after_hook l r w, None)"
  by (simp add: after_hook_def fire_revocation_hook_def split: option.split)

lemma lc_transition_eq:
  "lc_transition target trigger cid meta now (l, w) =
     (if \<not> edge (sm_transitions (lc_sm l)) (lc_state l) target then (Inl (IllegalTransition (sm_name (lc_sm l)) trigger), l, w)
      else let r = next_record l target trigger cid meta now in
        case (case lc_ledger l of None \<Rightarrow> (w, None) | Some app \<Rightarrow> app (entry_of (lc_alpha l) r) w) of
          (w1, Some x) \<Rightarrow> (Inl x, l, w1)
        | (w1, None) \<Rightarrow> (Inr (), advanced l r, after_hook l r w1))"
proof -
  define m where "m = (lc_sm l)\<lparr>sm_callbacks := lifecycle_callbacks l\<rparr>"
  define r where "r = next_record l target trigger cid meta now"
  have m: "can_transition m target = edge (sm_transitions (lc_sm l)) (lc_state l) target" "new_record m target trigger cid meta now = r"
    "m\<lparr>sm_callbacks := sm_callbacks (lc_sm l)\<rparr> = lc_sm l" "sm_name m = sm_name (lc_sm l)"
    by (simp_all add: m_def r_def can_transition_edge next_record_def new_record_def)
  have c: "l\<lparr>lc_sm := (commit r (tr_to r) m)\<lparr>sm_callbacks := sm_callbacks (lc_sm l)\<rparr>\<rparr> = advanced l r"
    by (simp add: advanced_def commit_def m_def)
  have run: "run_callbacks (sm_callbacks m) r w
      = (case (case lc_ledger l of None \<Rightarrow> (w, None) | Some app \<Rightarrow> app (entry_of (lc_alpha l) r) w) of
          (w1, Some x) \<Rightarrow> (w1, Some x) | (w1, None) \<Rightarrow> (after_hook l r w1, None))"
    by (cases "lc_ledger l") (auto simp: m_def lifecycle_callbacks_def record_to_ledger_def fire_never_raises split: option.split prod.split)
  show ?thesis
  proof (cases "can_transition m target")
    case False
    then have "transition m target trigger cid (Some meta) now w = (Inl (IllegalTransition (sm_name m) trigger), m, w)" by (simp add: transition_def)
    then have "lc_transition target trigger cid meta now (l, w) = (Inl (IllegalTransition (sm_name m) trigger), l\<lparr>lc_sm := lc_sm l\<rparr>, w)"
      unfolding lc_transition_def prod.case m_def[symmetric] by (simp add: map_result_def m(3))
    then show ?thesis using False by (simp add: m(1,4))
  next
    case True
    obtain w1 x where a: "(case lc_ledger l of None \<Rightarrow> (w, None) | Some app \<Rightarrow> app (entry_of (lc_alpha l) r) w) = (w1, x)" by fastforce
    have "lc_transition target trigger cid meta now (l, w) = (case x of None \<Rightarrow> (Inr (), advanced l r, after_hook l r w1) | Some e \<Rightarrow> (Inl e, l, w1))"
    proof -
      have "transition m target trigger cid (Some meta) now w = (case x of None \<Rightarrow> (Inr r, commit r (tr_to r) m, after_hook l r w1) | Some e \<Rightarrow> (Inl e, m, w1))"
        using True run unfolding a by (cases x) (simp_all add: transition_def announce_def m(2))
      then show ?thesis unfolding lc_transition_def prod.case m_def[symmetric] by (cases x) (simp_all add: map_result_def m(3) c)
    qed
    then show ?thesis using True unfolding m(1) r_def[symmetric] Let_def a by (simp split: option.split)
  qed
qed

lemma lc_transition_cases:
  assumes "lc_transition target trigger cid meta now (l, w) = (res, l', w')"
  obtains x where "res = Inl x" "l' = l"
  | r where "res = Inr ()" "r = next_record l target trigger cid meta now" "edge (sm_transitions (lc_sm l)) (lc_state l) target" "l' = advanced l r"
proof (cases "edge (sm_transitions (lc_sm l)) (lc_state l) target")
  case False
  then have "res = Inl (IllegalTransition (sm_name (lc_sm l)) trigger)" "l' = l" using assms by (auto simp: lc_transition_eq)
  then show thesis by (rule that(1))
next
  case True
  define r where "r = next_record l target trigger cid meta now"
  obtain w1 x where a: "(case lc_ledger l of None \<Rightarrow> (w, None) | Some app \<Rightarrow> app (entry_of (lc_alpha l) r) w) = (w1, x)" by fastforce
  have "lc_transition target trigger cid meta now (l, w) = (case x of None \<Rightarrow> (Inr (), advanced l r, after_hook l r w1) | Some e \<Rightarrow> (Inl e, l, w1))"
    unfolding lc_transition_eq r_def[symmetric] Let_def a using True by (simp split: option.split)
  then have x: "case x of None \<Rightarrow> res = Inr () \<and> l' = advanced l r | Some e \<Rightarrow> res = Inl e \<and> l' = l" using assms by (simp split: option.splits)
  show thesis
  proof (cases x)
    case None
    then show thesis using x that(2)[OF _ r_def True] by simp
  next
    case (Some e)
    then show thesis using x that(1)[of e] by simp
  qed
qed

subsection \<open>A log kept in step\<close>

text \<open>What the lifecycle relies on: an append either adds its line, or raises and adds nothing.\<close>

locale promotion_log =
  fixes app :: "ledger_entry \<Rightarrow> 'w \<Rightarrow> 'w \<times> exn option" and written :: "'w \<Rightarrow> 'l list" and line_of :: "ledger_entry \<Rightarrow> 'l"
  assumes appended: "app e w = (w', None) \<Longrightarrow> written w' = written w @ [line_of e]"
    and refused: "app e w = (w', Some x) \<Longrightarrow> written w' = written w"
begin

definition quiet :: "(revocation \<Rightarrow> 'w \<Rightarrow> 'w \<times> exn option) option \<Rightarrow> bool" where
  \<comment> \<open>the hook does not write to the log\<close>
  "quiet hook \<longleftrightarrow> (case hook of None \<Rightarrow> True | Some h \<Rightarrow> \<forall>n w. written (fst (h n w)) = written w)"

definition in_step :: "'l list \<Rightarrow> 'w lifecycle \<Rightarrow> 'w \<Rightarrow> bool" where
  "in_step before l w \<longleftrightarrow> lc_ledger l = Some app \<and> quiet (lc_hook l) \<and> sm_limit (lc_sm l) = None
     \<and> written w = before @ map (\<lambda>r. line_of (entry_of (lc_alpha l) r)) (sm_history (lc_sm l))"

lemma after_hook_written: "quiet (lc_hook l) \<Longrightarrow> written (after_hook l r w) = written w"
  by (auto simp: after_hook_def fire_revocation_hook_def quiet_def split: option.splits)

lemma transition_in_step:
  assumes "in_step before l w" "lc_transition target trigger cid meta now (l, w) = (res, l', w')"
  shows "in_step before l' w'"
proof -
  define r where "r = next_record l target trigger cid meta now"
  obtain w1 x where a: "app (entry_of (lc_alpha l) r) w = (w1, x)" by fastforce
  show ?thesis
  proof (cases "edge (sm_transitions (lc_sm l)) (lc_state l) target")
    case False
    then show ?thesis using assms by (simp add: lc_transition_eq)
  next
    case True
    show ?thesis
    proof (cases x)
      case None
      then have "l' = advanced l r" "w' = after_hook l r w1" using assms True a by (simp_all add: lc_transition_eq Let_def r_def[symmetric] in_step_def)
      moreover have "written w1 = written w @ [line_of (entry_of (lc_alpha l) r)]" using appended a None by simp
      ultimately show ?thesis using assms(1) by (simp add: in_step_def advanced_def push_bounded_def after_hook_written)
    next
      case (Some e)
      then have "l' = l" "w' = w1" using assms True a by (simp_all add: lc_transition_eq Let_def r_def[symmetric] in_step_def)
      moreover have "written w1 = written w" using refused a Some by simp
      ultimately show ?thesis using assms(1) by (simp add: in_step_def)
    qed
  qed
qed

end

interpretation ledger_file: promotion_log "ledger_append c" pl_lines "to_json_line c" for c
  by unfold_locales (auto simp: ledger_append_def split: list.splits bool.splits)

subsection \<open>Histories of operations\<close>

datatype 'w life_op =
    Promote "promotion_evidence option" "evidence list option" string ns
  | Promote_To_Paper "promotion_evidence option" "evidence list option" string ns
  | Promote_To_Live "promotion_evidence option" "evidence list option" string ns
  | Revalidate "promotion_evidence option" "evidence list option" string ns
  | Promote_Tier capital_stage_evidence string ns
  | Authorize_Decouple "evidence list" string string string ns
  | Quarantine string "evidence list option" string ns
  | Recommend string pyfloat pyfloat pyfloat "pyfloat option" string string ns
  | Decommission string string ns
  | Restore string
  | Set_Hook "(revocation \<Rightarrow> 'w \<Rightarrow> 'w \<times> exn option) option"

fun life_step :: "line_codec \<Rightarrow> 'w life_op \<Rightarrow> 'w lifecycle \<times> 'w \<Rightarrow> 'w lifecycle \<times> 'w" where
  \<comment> \<open>the operations as the registry, the cost breaker and the operator call them, and the promotions called directly;
    an exception reaches the caller, who goes on\<close>
  "life_step c (Promote legacy structured cid now) lw = snd (registry_promote legacy structured cid now lw)"
| "life_step c (Promote_To_Paper legacy structured cid now) lw = snd (promote_to_paper legacy structured cid now lw)"
| "life_step c (Promote_To_Live legacy structured cid now) lw = snd (promote_to_live legacy structured cid now lw)"
| "life_step c (Revalidate legacy structured cid now) lw = snd (revalidate_to_paper legacy structured cid now lw)"
| "life_step c (Promote_Tier e cid now) lw = snd (promote_capital_tier e cid now lw)"
| "life_step c (Authorize_Decouple es cfg auth cid now) lw = snd (authorize_decouple es cfg auth cid now lw)"
| "life_step c (Quarantine reason es cid now) lw = snd (quarantine reason es cid now lw)"
| "life_step c (Recommend reason net cost margin z actor cid now) lw = snd (apply_recommendation reason net cost margin z actor cid now lw)"
| "life_step c (Decommission reason cid now) lw = snd (decommission reason cid now lw)"
| "life_step c (Restore data) lw = ((case restore c data (fst lw) of Inl x \<Rightarrow> fst lw | Inr l \<Rightarrow> l), snd lw)"
| "life_step c (Set_Hook hook) lw = (set_revocation_hook hook (fst lw), snd lw)"

definition life_run :: "line_codec \<Rightarrow> 'w life_op list \<Rightarrow> 'w lifecycle \<times> 'w \<Rightarrow> 'w lifecycle \<times> 'w" where
  "life_run c ops lw = fold (life_step c) ops lw"

definition accepted :: "gate_thresholds \<Rightarrow> gate_id \<Rightarrow> (promotion_evidence \<Rightarrow> string list) \<Rightarrow> metadata \<Rightarrow> bool" where
  \<comment> \<open>the metadata records evidence that the gate, or the compatibility check, accepted\<close>
  "accepted t gate validator meta \<longleftrightarrow> (\<exists>es. validate_gate gate es t = [] \<and> evidence_to_metadata es = Inr meta)
     \<or> (\<exists>e. validator e = [] \<and> meta = [(''evidence'', MDict (promotion_evidence_fields e))])"

definition decouple_authorized :: "gate_thresholds \<Rightarrow> metadata \<Rightarrow> bool" where
  "decouple_authorized t meta \<longleftrightarrow> (\<exists>es m cfg auth. validate_gate DECOUPLE_CAPS_ONLY es t = [] \<and> evidence_to_metadata es = Inr m
     \<and> \<not> blank cfg \<and> \<not> blank auth \<and> meta = dict_set ''authorized_by'' (MStr auth) (dict_set ''config_version'' (MStr cfg) m))"

definition backed :: "gate_thresholds \<Rightarrow> gate_requirements \<Rightarrow> alpha_state \<Rightarrow> alpha_state \<Rightarrow> string \<Rightarrow> metadata \<Rightarrow> bool" where
  \<comment> \<open>what a transition must carry, by its trigger\<close>
  "backed t q from to trigger meta \<longleftrightarrow>
     (trigger = ''pass_paper_gate'' \<and> from \<in> {RESEARCH, QUARANTINED} \<and> to = PAPER \<and> accepted t RESEARCH_TO_PAPER check_paper_gate meta)
     \<or> (trigger = ''revalidation_passed'' \<and> from \<in> {RESEARCH, QUARANTINED} \<and> to = PAPER
        \<and> accepted t QUARANTINED_TO_PAPER check_revalidation_gate meta)
     \<or> (trigger = ''pass_live_gate'' \<and> from \<in> {PAPER, LIVE} \<and> to = LIVE \<and> accepted t PAPER_TO_LIVE (check_live_gate q) meta)
     \<or> (trigger = ''promote_capital_tier'' \<and> from = LIVE \<and> to = LIVE
        \<and> (\<exists>e. validate_gate LIVE_PROMOTE_CAPITAL_TIER [Capital_Stage e] t = [] \<and> evidence_to_metadata [Capital_Stage e] = Inr meta))
     \<or> (trigger = ''authorize_decouple_caps_only'' \<and> from = LIVE \<and> to = LIVE \<and> decouple_authorized t meta)
     \<or> (trigger = ''edge_decay_detected'' \<and> from = LIVE \<and> to = QUARANTINED)
     \<or> (trigger = ''decommissioned'' \<and> from = QUARANTINED \<and> to = DECOMMISSIONED)"

definition own_edge :: "alpha_state \<Rightarrow> string \<Rightarrow> bool" where
  \<comment> \<open>a promotion left the state its gate is for\<close>
  "own_edge from trigger \<longleftrightarrow> (trigger = ''pass_paper_gate'' \<longrightarrow> from = RESEARCH) \<and> (trigger = ''pass_live_gate'' \<longrightarrow> from = PAPER)
     \<and> (trigger = ''revalidation_passed'' \<longrightarrow> from = QUARANTINED)"

fun dispatched :: "'w life_op \<Rightarrow> bool" where
  \<comment> \<open>promotions are asked of the registry\<close>
  "dispatched (Promote_To_Paper _ _ _ _) = False"
| "dispatched (Promote_To_Live _ _ _ _) = False"
| "dispatched (Revalidate _ _ _ _) = False"
| "dispatched _ = True"

definition warranted :: "bool \<Rightarrow> gate_thresholds \<Rightarrow> gate_requirements \<Rightarrow> alpha_state \<Rightarrow> alpha_state \<Rightarrow> string \<Rightarrow> metadata \<Rightarrow> bool" where
  \<comment> \<open>the first argument: promotions are also called directly\<close>
  "warranted d t q from to trigger meta \<longleftrightarrow> backed t q from to trigger meta \<and> (d \<or> own_edge from trigger)"

definition record_warranted :: "bool \<Rightarrow> 'w lifecycle \<Rightarrow> alpha_state transition_record \<Rightarrow> bool" where
  "record_warranted d l r \<longleftrightarrow> warranted d (lc_thresholds l) (lc_requirements l) (tr_from r) (tr_to r) (tr_trigger r) (tr_metadata r)"

definition capped :: "'w lifecycle \<Rightarrow> bool" where
  "capped l \<longleftrightarrow> lc_cap l = Some ''RESEARCH''"

definition life_ok :: "bool \<Rightarrow> 'w lifecycle \<Rightarrow> bool" where
  "life_ok d l \<longleftrightarrow> sm_transitions (lc_sm l) = lifecycle_transitions \<and> sm_limit (lc_sm l) = None
     \<and> list_all (record_warranted d l) (sm_history (lc_sm l)) \<and> \<not> (capped l \<and> is_active l)"

definition same_settings :: "'w lifecycle \<Rightarrow> 'w lifecycle \<Rightarrow> bool" where
  "same_settings l l' \<longleftrightarrow> lc_alpha l' = lc_alpha l \<and> lc_thresholds l' = lc_thresholds l \<and> lc_requirements l' = lc_requirements l
     \<and> lc_ledger l' = lc_ledger l \<and> lc_cap l' = lc_cap l"

definition may_transition :: "bool \<Rightarrow> 'w lifecycle \<Rightarrow> alpha_state \<Rightarrow> string \<Rightarrow> metadata \<Rightarrow> bool" where
  \<comment> \<open>what an operation has checked when it asks the machine\<close>
  "may_transition d l target trigger meta \<longleftrightarrow>
     (edge lifecycle_transitions (lc_state l) target \<longrightarrow> warranted d (lc_thresholds l) (lc_requirements l) (lc_state l) target trigger meta)
     \<and> \<not> (capped l \<and> (target = PAPER \<or> (target = LIVE \<and> lc_state l \<noteq> LIVE)))"

lemma edge_lifecycle: "edge lifecycle_transitions s t \<longleftrightarrow> t \<in> the (lifecycle_transitions s)"
  by (cases s) (simp_all add: edge_def)

lemma map_result_Inr [simp]: "map_result f r = Inr y \<longleftrightarrow> (\<exists>x. r = Inr x \<and> f x = y)"
  by (cases r) (simp_all add: map_result_def)

lemma promote_with_evidence_cases:
  assumes "promote_with_evidence gate target trigger validator legacy structured cid now (l, w) = (res, lw')"
  shows "lw' = (l, w) \<or> (\<exists>meta r. lc_transition target trigger cid meta now (l, w) = (r, lw') \<and> accepted (lc_thresholds l) gate validator meta
    \<and> \<not> (capped l \<and> (target = PAPER \<or> target = LIVE)))"
proof (cases "lifecycle_promotion_errors target l = []")
  case False
  then show ?thesis using assms by (simp add: promote_with_evidence_def Let_def)
next
  case True
  then have cap: "\<not> (capped l \<and> (target = PAPER \<or> target = LIVE))" by (auto simp: lifecycle_promotion_errors_def capped_def)
  show ?thesis
  proof (cases "select_evidence legacy structured gate validator (lc_thresholds l) = Inr []")
    case False
    then have "lw' = (l, w)" using assms True by (auto simp: promote_with_evidence_def Let_def split: sum.splits if_splits)
    then show ?thesis by simp
  next
    case sel: True
    show ?thesis
    proof (cases "build_metadata legacy structured")
      case (Inl x)
      then show ?thesis using assms True sel by (simp add: promote_with_evidence_def)
    next
      case (Inr meta)
      then have "accepted (lc_thresholds l) gate validator meta"
        using sel by (auto simp: accepted_def select_evidence_def build_metadata_def split: option.splits)
      moreover obtain r where "lc_transition target trigger cid meta now (l, w) = (r, lw')"
        using assms True sel Inr by (auto simp: promote_with_evidence_def split: prod.splits)
      ultimately show ?thesis using cap by blast
    qed
  qed
qed

definition unmoved :: "'w lifecycle \<Rightarrow> 'w lifecycle \<Rightarrow> bool" where
  "unmoved l l' \<longleftrightarrow> same_settings l l' \<and> sm_history (lc_sm l') = sm_history (lc_sm l) \<and> sm_transitions (lc_sm l') = sm_transitions (lc_sm l)
     \<and> sm_limit (lc_sm l') = sm_limit (lc_sm l) \<and> (capped l \<and> is_active l' \<longrightarrow> is_active l)"

definition asks :: "bool \<Rightarrow> 'w lifecycle \<times> 'w \<Rightarrow> 'w lifecycle \<times> 'w \<Rightarrow> bool" where
  \<comment> \<open>the operation is one request to the machine, with what it needs checked\<close>
  "asks d lw lw' \<longleftrightarrow> (\<exists>target trigger cid meta now r. may_transition d (fst lw) target trigger meta \<and> lc_transition target trigger cid meta now lw = (r, lw'))"

definition stays :: "'w life_op \<Rightarrow> 'w lifecycle \<times> 'w \<Rightarrow> 'w lifecycle \<times> 'w \<Rightarrow> bool" where
  "stays op lw lw' \<longleftrightarrow> snd lw' = snd lw \<and> unmoved (fst lw) (fst lw') \<and> (lc_hook (fst lw') = lc_hook (fst lw) \<or> op = Set_Hook (lc_hook (fst lw')))"

lemma stays_refl: "stays op lw lw"
  by (simp add: stays_def unmoved_def same_settings_def)

lemma asksI: "may_transition d l target trigger meta \<Longrightarrow> lc_transition target trigger cid meta now (l, w) = (r, lw') \<Longrightarrow> asks d (l, w) lw'"
  unfolding asks_def fst_conv by blast

lemma promote_asks:
  assumes "promote_with_evidence gate target trigger validator legacy structured cid now (l, w) = (res, lw')"
    "\<And>meta. accepted (lc_thresholds l) gate validator meta \<Longrightarrow> edge lifecycle_transitions (lc_state l) target \<Longrightarrow> warranted d (lc_thresholds l) (lc_requirements l) (lc_state l) target trigger meta"
  shows "asks d (l, w) lw' \<or> stays op (l, w) lw'"
  using promote_with_evidence_cases[OF assms(1)]
proof (elim disjE exE conjE)
  fix meta r
  assume "lc_transition target trigger cid meta now (l, w) = (r, lw')" "accepted (lc_thresholds l) gate validator meta"
    "\<not> (capped l \<and> (target = PAPER \<or> target = LIVE))"
  then show ?thesis using assms(2) asksI[of d l target trigger meta] by (auto simp: may_transition_def)
qed (simp add: stays_refl)

lemma edges_into:
  "edge lifecycle_transitions s PAPER \<longleftrightarrow> s \<in> {RESEARCH, QUARANTINED}" "edge lifecycle_transitions s LIVE \<longleftrightarrow> s \<in> {PAPER, LIVE}"
  by (cases s; simp add: edge_lifecycle)+

lemmas warranted_defs = warranted_def backed_def own_edge_def

lemma registry_promote_shape:
  assumes "registry_promote legacy structured cid now (l, w) = (res, lw')"
  shows "asks d (l, w) lw' \<or> stays op (l, w) lw'"
proof (cases "lc_state l")
  case RESEARCH
  then have "promote_with_evidence RESEARCH_TO_PAPER PAPER ''pass_paper_gate'' check_paper_gate legacy structured cid now (l, w) = (res, lw')"
    using assms by (simp add: registry_promote_def promote_to_paper_def)
  then show ?thesis by (rule promote_asks) (simp add: RESEARCH warranted_defs)
next
  case PAPER
  then have "promote_with_evidence PAPER_TO_LIVE LIVE ''pass_live_gate'' (check_live_gate (lc_requirements l)) legacy structured cid now (l, w) = (res, lw')"
    using assms by (simp add: registry_promote_def promote_to_live_def)
  then show ?thesis by (rule promote_asks) (simp add: PAPER warranted_defs)
next
  case QUARANTINED
  then have "promote_with_evidence QUARANTINED_TO_PAPER PAPER ''revalidation_passed'' check_revalidation_gate legacy structured cid now (l, w) = (res, lw')"
    using assms by (simp add: registry_promote_def revalidate_to_paper_def)
  then show ?thesis by (rule promote_asks) (simp add: QUARANTINED warranted_defs)
qed (use assms in \<open>auto simp: registry_promote_def stays_refl\<close>)

text \<open>Called directly, a promotion is checked by its own gate, whatever the state it is called in.\<close>

lemma direct_shape:
  "asks True (l, w) (snd (promote_to_paper legacy structured cid now (l, w))) \<or> stays op (l, w) (snd (promote_to_paper legacy structured cid now (l, w)))"
  "asks True (l, w) (snd (promote_to_live legacy structured cid now (l, w))) \<or> stays op (l, w) (snd (promote_to_live legacy structured cid now (l, w)))"
  "asks True (l, w) (snd (revalidate_to_paper legacy structured cid now (l, w))) \<or> stays op (l, w) (snd (revalidate_to_paper legacy structured cid now (l, w)))"
  unfolding promote_to_paper_def promote_to_live_def revalidate_to_paper_def fst_conv
  by (rule promote_asks[OF surjective_pairing], simp add: edges_into warranted_defs)+

lemma promote_capital_tier_shape:
  assumes "promote_capital_tier e cid now (l, w) = (res, lw')"
  shows "asks d (l, w) lw' \<or> stays op (l, w) lw'"
proof (cases "lc_state l = LIVE \<and> current_capital_tier l \<noteq> Some SCALED \<and> validate_gate LIVE_PROMOTE_CAPITAL_TIER [Capital_Stage e] (lc_thresholds l) = []")
  case True
  then have may: "may_transition d l LIVE ''promote_capital_tier'' meta" if "evidence_to_metadata [Capital_Stage e] = Inr meta" for meta
    using that by (auto simp: may_transition_def warranted_defs)
  show ?thesis
  proof (cases "evidence_to_metadata [Capital_Stage e]")
    case (Inl x)
    then show ?thesis using assms True by (simp add: promote_capital_tier_def Let_def stays_refl)
  next
    case (Inr meta)
    then show ?thesis using assms True asksI[OF may[OF Inr]] by (auto simp: promote_capital_tier_def Let_def split: prod.splits)
  qed
qed (use assms in \<open>auto simp: promote_capital_tier_def Let_def stays_refl split: if_splits\<close>)

lemma authorize_decouple_shape:
  assumes "authorize_decouple es cfg auth cid now (l, w) = (res, lw')"
  shows "asks d (l, w) lw' \<or> stays op (l, w) lw'"
proof (cases "lc_state l = LIVE \<and> \<not> blank cfg \<and> \<not> blank auth \<and> validate_gate DECOUPLE_CAPS_ONLY es (lc_thresholds l) = []")
  case True
  show ?thesis
  proof (cases "evidence_to_metadata es")
    case (Inl x)
    then show ?thesis using assms True by (simp add: authorize_decouple_def Let_def complain_def stays_refl)
  next
    case (Inr m)
    define meta where "meta = dict_set ''authorized_by'' (MStr auth) (dict_set ''config_version'' (MStr cfg) m)"
    have "decouple_authorized (lc_thresholds l) meta" using True Inr unfolding decouple_authorized_def meta_def by blast
    then have a: "may_transition d l LIVE ''authorize_decouple_caps_only'' meta" using True by (simp add: may_transition_def warranted_defs)
    obtain r where t: "lc_transition LIVE ''authorize_decouple_caps_only'' cid meta now (l, w) = (r, lw')"
      using assms True Inr by (auto simp: authorize_decouple_def Let_def complain_def meta_def split: prod.splits)
    show ?thesis using asksI[OF a t] by simp
  qed
qed (use assms in \<open>auto simp: authorize_decouple_def Let_def complain_def stays_refl split: if_splits\<close>)

lemma demotion_may:
  "may_transition d l QUARANTINED ''edge_decay_detected'' meta" "may_transition d l DECOMMISSIONED ''decommissioned'' meta"
  by (cases "lc_state l"; simp add: may_transition_def edge_lifecycle warranted_defs)+

lemma quarantine_shape:
  assumes "quarantine reason es cid now (l, w) = (res, lw')"
  shows "asks d (l, w) lw' \<or> stays op (l, w) lw'"
proof (cases "quarantine_metadata reason es")
  case (Inl x)
  then show ?thesis using assms by (simp add: quarantine_def stays_refl)
next
  case (Inr meta)
  then show ?thesis using assms by (auto simp: quarantine_def intro: asksI[OF demotion_may(1)])
qed

lemma apply_recommendation_shape:
  assumes "apply_recommendation reason net cost margin z actor cid now (l, w) = (res, lw')"
  shows "asks d (l, w) lw' \<or> stays op (l, w) lw'"
proof (cases "is_live l")
  case False
  then show ?thesis using assms by (simp add: apply_recommendation_def stays_refl)
next
  case True
  then obtain r where "quarantine (actor @ '': '' @ reason) (Some [Quarantine_Trigger (recommendation_evidence net cost margin z)]) cid now (l, w) = (r, lw')"
    using assms by (auto simp: apply_recommendation_def split: prod.splits)
  then show ?thesis by (rule quarantine_shape)
qed

lemma restore_unmoved:
  assumes "restore c data l = Inr l'"
  shows "unmoved l l'" "lc_hook l' = lc_hook l"
proof -
  obtain target tier where l': "l' = l\<lparr>lc_tier := tier, lc_sm := (lc_sm l)\<lparr>sm_state := target\<rparr>\<rparr>" "lifecycle_promotion_errors target l = []"
    using assms by (auto simp: restore_def bind_result_Inr_iff split: option.splits meta.splits if_splits)
  then show "unmoved l l'" "lc_hook l' = lc_hook l"
    by (auto simp: unmoved_def same_settings_def lifecycle_promotion_errors_def capped_def is_active_def)
qed

lemma life_step_shape: "asks (\<not> dispatched op) (l, w) (life_step c op (l, w)) \<or> stays op (l, w) (life_step c op (l, w))"
proof (cases op)
  case (Restore data)
  then show ?thesis using restore_unmoved[of c data l] stays_refl[of op "(l, w)"] by (auto simp: stays_def split: sum.split)
next
  case (Set_Hook hook)
  then show ?thesis by (simp add: stays_def unmoved_def same_settings_def set_revocation_hook_def is_active_def)
qed (simp_all add: direct_shape registry_promote_shape[OF surjective_pairing] promote_capital_tier_shape[OF surjective_pairing]
    authorize_decouple_shape[OF surjective_pairing] quarantine_shape[OF surjective_pairing] apply_recommendation_shape[OF surjective_pairing]
    asksI[OF demotion_may(2) surjective_pairing] decommission_def)

subsection \<open>What every history keeps\<close>

lemma asks_ok:
  assumes "life_ok d l" "asks d' (l, w) (l', w')" "d' \<longrightarrow> d"
  shows "life_ok d l' \<and> same_settings l l' \<and> lc_hook l' = lc_hook l"
proof -
  obtain target trigger cid meta now r where may: "may_transition d' l target trigger meta"
    and t: "lc_transition target trigger cid meta now (l, w) = (r, l', w')" using assms(2) by (auto simp: asks_def)
  from t show ?thesis
  proof (cases rule: lc_transition_cases)
    case 1
    then show ?thesis using assms(1) by (simp add: same_settings_def)
  next
    case (2 rec)
    have tab: "sm_transitions (lc_sm l) = lifecycle_transitions" using assms(1) by (simp add: life_ok_def)
    then have "warranted d (lc_thresholds l) (lc_requirements l) (lc_state l) target trigger meta"
      using may 2(3) assms(3) by (auto simp: may_transition_def warranted_def)
    then have new: "record_warranted d l rec" using 2(2) by (simp add: record_warranted_def)
    have "record_warranted d l' = record_warranted d l" using 2(4) by (simp add: record_warranted_def fun_eq_iff advanced_def)
    moreover have "\<not> (capped l' \<and> is_active l')"
      using may assms(1) 2(2,4) by (auto simp: may_transition_def capped_def is_active_def advanced_def life_ok_def)
    ultimately show ?thesis using assms(1) new 2(2,4) by (simp add: life_ok_def advanced_def same_settings_def push_bounded_def)
  qed
qed

lemma stays_ok:
  assumes "life_ok d l" "stays op (l, w) (l', w')"
  shows "life_ok d l' \<and> same_settings l l'"
proof -
  have "record_warranted d l' = record_warranted d l" "capped l' = capped l"
    using assms(2) by (simp_all add: stays_def unmoved_def same_settings_def record_warranted_def capped_def fun_eq_iff)
  then show ?thesis using assms by (auto simp: life_ok_def stays_def unmoved_def)
qed

lemma life_step_ok:
  assumes "life_ok d l" "life_step c op (l, w) = (l', w')" "\<not> dispatched op \<longrightarrow> d"
  shows "life_ok d l' \<and> same_settings l l'"
  using life_step_shape[of op l w c] asks_ok[OF assms(1), of "\<not> dispatched op" w l' w'] stays_ok[OF assms(1), of op w l' w'] assms(3)
  unfolding assms(2) by blast

lemma same_settings_trans: "same_settings l l1 \<Longrightarrow> same_settings l1 l2 \<Longrightarrow> same_settings l l2"
  by (simp add: same_settings_def)

lemma life_run_Cons: "life_run c (op # ops) lw = life_run c ops (life_step c op lw)"
  by (simp add: life_run_def)

lemma life_run_ok:
  "life_ok d l \<Longrightarrow> list_all (\<lambda>op. d \<or> dispatched op) ops \<Longrightarrow> life_run c ops (l, w) = (l', w') \<Longrightarrow> life_ok d l' \<and> same_settings l l'"
proof (induction ops arbitrary: l w)
  case Nil
  then show ?case by (simp add: life_run_def same_settings_def)
next
  case (Cons op ops)
  obtain l1 w1 where s: "life_step c op (l, w) = (l1, w1)" by fastforce
  have "life_ok d l1 \<and> same_settings l l1" by (rule life_step_ok[OF Cons.prems(1) s]) (use Cons.prems(2) in auto)
  moreover from this have "life_ok d l' \<and> same_settings l1 l'" using Cons.IH[of l1 w1] Cons.prems(2,3) by (simp add: life_run_Cons s)
  ultimately show ?case using same_settings_trans by blast
qed

lemma new_lifecycle_ok:
  assumes "new_lifecycle alpha q t ledger cap hook = Inr l"
  shows "life_ok d l" "sm_history (lc_sm l) = []" "lc_alpha l = alpha" "lc_cap l = cap" "lc_thresholds l = base_thresholds t"
    "lc_requirements l = (case q of None \<Rightarrow> default_requirements | Some q' \<Rightarrow> q')" "lc_ledger l = ledger" "lc_hook l = hook" "lc_state l = RESEARCH" "lc_tier l = None"
  using assms by (auto simp: new_lifecycle_def bind_result_Inr_iff new_machine_Inr_iff life_ok_def is_active_def)

context promotion_log
begin

fun quiet_op :: "'w life_op \<Rightarrow> bool" where
  "quiet_op (Set_Hook hook) = quiet hook"
| "quiet_op _ = True"

lemma step_in_step:
  assumes "in_step before l w" "quiet_op op" "life_step c op (l, w) = (l', w')"
  shows "in_step before l' w'"
  using life_step_shape[of op l w c]
proof
  assume "asks (\<not> dispatched op) (l, w) (life_step c op (l, w))"
  then obtain target trigger cid meta now r where "lc_transition target trigger cid meta now (l, w) = (r, l', w')"
    unfolding asks_def assms(3) by blast
  then show ?thesis by (rule transition_in_step[OF assms(1)])
next
  assume "stays op (l, w) (life_step c op (l, w))"
  then show ?thesis using assms by (auto simp: stays_def unmoved_def same_settings_def in_step_def)
qed

lemma run_in_step: "in_step before l w \<Longrightarrow> list_all quiet_op ops \<Longrightarrow> life_run c ops (l, w) = (l', w') \<Longrightarrow> in_step before l' w'"
proof (induction ops arbitrary: l w)
  case Nil
  then show ?case by (simp add: life_run_def)
next
  case (Cons op ops)
  obtain l1 w1 where s: "life_step c op (l, w) = (l1, w1)" by fastforce
  have "in_step before l1 w1" using step_in_step[OF Cons.prems(1) _ s] Cons.prems(2) by simp
  then show ?case using Cons.IH[of l1 w1] Cons.prems(2,3) by (simp add: life_run_Cons s)
qed

end

subsection \<open>Reading the ledger back\<close>

primrec canonical :: "meta \<Rightarrow> meta" where
  \<comment> \<open>a value with the keys of its dictionaries sorted\<close>
  "canonical MNone = MNone"
| "canonical (MBool b) = MBool b"
| "canonical (MInt i) = MInt i"
| "canonical (MFloat x) = MFloat x"
| "canonical (MStr s) = MStr s"
| "canonical (MList vs) = MList (map canonical vs)"
| "canonical (MDict d) = MDict (sort_key fst (map (map_prod (\<lambda>k. k) canonical) d))"

definition canonical_dict :: "metadata \<Rightarrow> metadata" where
  "canonical_dict d = sort_key fst (map (map_prod (\<lambda>k. k) canonical) d)"

definition line_codec_ok :: "line_codec \<Rightarrow> bool" where
  \<comment> \<open>documented behaviour of \<open>json\<close>, \<open>str\<close> and \<open>int\<close>\<close>
  "line_codec_ok c \<longleftrightarrow> (\<forall>m. jl_loads c (jl_dumps c m) = Some (canonical m)) \<and> (\<forall>m. jl_loads c (jl_dumps_plain c m) = Some m) \<and> (\<forall>m. jl_dumps c m \<noteq> '''')
     \<and> (\<forall>s. jl_str c (MStr s) = s) \<and> (\<forall>i. jl_int c (MInt i) = Inr i)"

lemma canonical_MDict: "canonical (MDict d) = MDict (canonical_dict d)"
  by (simp add: canonical_dict_def)

lemma set_canonical_dict: "fst ` set (canonical_dict d) = fst ` set d"
  by (force simp: canonical_dict_def)

lemma map_of_canonical_dict:
  assumes "distinct (map fst d)"
  shows "map_of (canonical_dict d) k = map_option canonical (map_of d k)"
proof -
  let ?e = "map (map_prod (\<lambda>k. k) canonical) d"
  have e: "map fst ?e = map fst d" by simp
  have "mset (map fst (sort_key fst ?e)) = mset (map fst ?e)" by (metis mset_map mset_sort)
  then have "distinct (map fst (sort_key fst ?e))" using assms e mset_eq_imp_distinct_iff by metis
  moreover have "distinct (map fst ?e)" using assms by (simp only: e)
  ultimately have "map_of (sort_key fst ?e) = map_of ?e" by (intro iffD2[OF map_of_inject_set]) simp_all
  moreover have "map_of ?e k = map_option canonical (map_of d k)" by (induction d) auto
  ultimately show ?thesis by (simp add: canonical_dict_def)
qed

definition canonical_entry :: "ledger_entry \<Rightarrow> ledger_entry" where
  "canonical_entry e = e\<lparr>le_metadata := canonical_dict (le_metadata e)\<rparr>"

lemma read_own_line:
  assumes "line_codec_ok c"
  shows "from_json_line c (to_json_line c e) = Inr (canonical_entry e)"
proof -
  have "distinct (map fst (entry_payload e))" by (simp add: entry_payload_def)
  note look = map_of_canonical_dict[OF this]
  have v: "map_of (entry_payload e) ''schema_version'' = Some (MStr (le_schema_version e))" "map_of (entry_payload e) ''alpha_id'' = Some (MStr (le_alpha_id e))"
    "map_of (entry_payload e) ''from_state'' = Some (MStr (le_from_state e))" "map_of (entry_payload e) ''to_state'' = Some (MStr (le_to_state e))"
    "map_of (entry_payload e) ''trigger'' = Some (MStr (le_trigger e))" "map_of (entry_payload e) ''timestamp_ns'' = Some (MInt (le_timestamp e))"
    "map_of (entry_payload e) ''correlation_id'' = Some (MStr (le_correlation_id e))" "map_of (entry_payload e) ''metadata'' = Some (MDict (le_metadata e))"
    by (simp_all add: entry_payload_def)
  have "jl_loads c (to_json_line c e) = Some (MDict (canonical_dict (entry_payload e)))"
    using assms by (simp add: line_codec_ok_def to_json_line_def canonical_MDict del: canonical.simps)
  then show ?thesis using assms
    by (simp add: from_json_line_def required_fields_def look v line_codec_ok_def canonical_MDict canonical_entry_def Let_def del: canonical.simps(7))
qed

lemma read_own_entries:
  assumes "line_codec_ok c"
  shows "read_entries c (map (to_json_line c) es) = Inr (map canonical_entry es)"
proof (induction es)
  case (Cons e es)
  have "to_json_line c e \<noteq> ''''" using assms by (simp add: to_json_line_def line_codec_ok_def)
  then show ?case using Cons by (simp add: read_own_line[OF assms])
qed simp

text \<open>A dictionary with sorted keys holds the same packages.\<close>

lemma as_list_canonical: "(\<And>v. f (canonical v) = f v) \<Longrightarrow> as_list f (map canonical vs) = as_list f vs"
  by (induction vs) simp_all

lemma readers_canonical [simp]:
  "as_bool (canonical v) = as_bool v" "as_int (canonical v) = as_int v" "as_float (canonical v) = as_float v"
  "as_string (canonical v) = as_string v" "as_tier (canonical v) = as_tier v"
  by (cases v; simp)+

lemma sequences_canonical [simp]:
  "as_sequence as_float (canonical v) = as_sequence as_float v" "as_sequence as_string (canonical v) = as_sequence as_string v"
  by (cases v; simp add: as_list_canonical)+

lemma read_field_canonical:
  "distinct (map fst d) \<Longrightarrow> (\<And>v. f (canonical v) = f v) \<Longrightarrow> read_field f (canonical_dict d) name dflt = read_field f d name dflt"
  by (cases "map_of d name") (simp_all add: read_field_def map_of_canonical_dict)

lemma known_fields_canonical: "known_fields names (canonical_dict d) r = known_fields names d r"
proof -
  have "list_all (\<lambda>(name, v). name \<in> set names) e \<longleftrightarrow> fst ` set e \<subseteq> set names" for e :: metadata
    by (auto simp: list_all_iff)
  then show ?thesis by (simp add: known_fields_def set_canonical_dict)
qed

lemma evidence_fields_distinct: "distinct (map fst (evidence_fields e))"
  by (cases e) (simp_all add: research_acceptance_fields_def cpcv_fields_def dsr_fields_def paper_window_fields_def capital_stage_fields_def
    quarantine_trigger_fields_def revalidation_fields_def conditional_cvar_fields_def turnover_bound_fields_def quote_freeze_backstop_fields_def)

lemma readers_of_canonical:
  assumes "distinct (map fst d)"
  shows
    "read_research_acceptance (canonical_dict d) = read_research_acceptance d"
    "read_cpcv (canonical_dict d) = read_cpcv d"
    "read_dsr (canonical_dict d) = read_dsr d"
    "read_paper_window (canonical_dict d) = read_paper_window d"
    "read_capital_stage (canonical_dict d) = read_capital_stage d"
    "read_quarantine_trigger (canonical_dict d) = read_quarantine_trigger d"
    "read_revalidation (canonical_dict d) = read_revalidation d"
    "read_conditional_cvar (canonical_dict d) = read_conditional_cvar d"
    "read_turnover_bound (canonical_dict d) = read_turnover_bound d"
    "read_quote_freeze_backstop (canonical_dict d) = read_quote_freeze_backstop d"
  by (simp_all add: read_research_acceptance_def read_cpcv_def read_dsr_def read_paper_window_def read_capital_stage_def read_quarantine_trigger_def read_revalidation_def read_conditional_cvar_def read_turnover_bound_def read_quote_freeze_backstop_def known_fields_canonical read_field_canonical[OF assms])

lemma reconstruct_canonical: "distinct (map fst d) \<Longrightarrow> reconstruct_evidence k (canonical_dict d) = reconstruct_evidence k d"
  by (simp add: reconstruct_evidence_def readers_of_canonical)

lemma project_evidence_distinct:
  "project_evidence es seen payload = Inr m \<Longrightarrow> distinct (map fst payload) \<Longrightarrow> distinct (map fst m)"
  by (induction es arbitrary: seen payload) (auto split: option.splits if_splits)

lemma read_kinds_canonical:
  assumes "distinct (map fst d)" "\<And>k p. k \<in> set ks \<Longrightarrow> map_of d k = Some (MDict p) \<Longrightarrow> distinct (map fst p)"
  shows "read_kinds ks (canonical_dict d) = read_kinds ks d"
  using assms(2)
proof (induction ks)
  case (Cons k ks)
  have rest: "read_kinds ks (canonical_dict d) = read_kinds ks d" by (rule Cons.IH) (use Cons.prems in auto)
  show ?case
  proof (cases "map_of d k")
    case (Some v)
    then have look: "map_of (canonical_dict d) k = Some (canonical v)" by (simp add: map_of_canonical_dict[OF assms(1)])
    show ?thesis
    proof (cases v)
      case (MDict p)
      have "distinct (map fst p)" by (rule Cons.prems[of k]) (use Some MDict in simp_all)
      from reconstruct_canonical[OF this] show ?thesis
        unfolding read_kinds.simps look Some rest unfolding MDict canonical_MDict by simp
    qed (simp_all add: look Some rest)
  qed (use rest in \<open>simp add: map_of_canonical_dict[OF assms(1)]\<close>)
qed simp

lemma metadata_canonical:
  assumes "distinct (map fst d)" "\<And>k p. k \<in> set registered_kinds \<Longrightarrow> map_of d k = Some (MDict p) \<Longrightarrow> distinct (map fst p)"
  shows "metadata_to_evidence (MDict (canonical_dict d)) = metadata_to_evidence (MDict d)"
proof -
  have "list_ex (\<lambda>(k, v). k \<notin> R \<and> k \<notin> K) e \<longleftrightarrow> \<not> fst ` set e \<subseteq> R \<union> K" for e :: metadata and R K
    by (force simp: list_ex_iff)
  then have "list_ex (\<lambda>(k, v). k \<notin> R \<and> k \<notin> K) (canonical_dict d) \<longleftrightarrow> list_ex (\<lambda>(k, v). k \<notin> R \<and> k \<notin> K) d" for R K
    by (simp only: set_canonical_dict)
  note unknown = this
  have v: "(canonical v = MNone) = (v = MNone)" "(canonical v = MStr s) = (v = MStr s)" for v s by (cases v; simp)+
  have kinds: "read_kinds registered_kinds (canonical_dict d) = read_kinds registered_kinds d" by (rule read_kinds_canonical[OF assms])
  show ?thesis
    unfolding metadata_to_evidence_def meta.case map_of_canonical_dict[OF assms(1)] kinds unknown
    by (cases "map_of d ''schema_version''") (simp_all only: option.map option.case v)
qed

text \<open>What a promotion with packages of evidence wrote is read back as these packages.\<close>

lemma evidence_replays:
  assumes "evidence_to_metadata es = Inr m"
  shows "metadata_to_evidence (MDict (canonical_dict m)) = Inr (registry_order es)"
proof -
  note p = project_evidence_ok[OF assms[unfolded evidence_to_metadata_def]]
  have m: "distinct (map fst m)" using project_evidence_distinct[OF assms[unfolded evidence_to_metadata_def]] by simp
  have "distinct (map fst q)" if "map_of m k = Some (MDict q)" for k q
    using that p(1)[of k] evidence_fields_distinct by (auto split: if_splits)
  then have "metadata_to_evidence (MDict (canonical_dict m)) = metadata_to_evidence (MDict m)" by (intro metadata_canonical m)
  also have "\<dots> = Inr (registry_order es)" by (rule evidence_roundtrip_lemma[OF assms refl])
  finally show ?thesis .
qed

subsection \<open>What a hook and a ledger may do\<close>

definition leaves_ledger :: "(revocation \<Rightarrow> 'x ledger_file_scheme \<Rightarrow> 'x ledger_file_scheme \<times> exn option) option \<Rightarrow> bool" where
  \<comment> \<open>the hook does not write to the ledger file\<close>
  "leaves_ledger hook \<longleftrightarrow> (case hook of None \<Rightarrow> True | Some h \<Rightarrow> \<forall>n w. pl_lines (fst (h n w)) = pl_lines w)"

fun op_leaves_ledger :: "'x ledger_file_scheme life_op \<Rightarrow> bool" where
  "op_leaves_ledger (Set_Hook hook) = leaves_ledger hook"
| "op_leaves_ledger _ = True"

definition ledger_accepts :: "'w lifecycle \<Rightarrow> 'w \<Rightarrow> bool" where
  "ledger_accepts l w \<longleftrightarrow> (case lc_ledger l of None \<Rightarrow> True | Some app \<Rightarrow> \<forall>e. snd (app e w) = None)"

lemma quiet_leaves: "ledger_file.quiet hook = leaves_ledger hook"
  by (simp add: ledger_file.quiet_def leaves_ledger_def)

lemma quiet_op_leaves: "ledger_file.quiet_op op = op_leaves_ledger op"
  by (cases op) (simp_all add: quiet_leaves)

lemma quiet_ops_leave: "list_all ledger_file.quiet_op ops = list_all op_leaves_ledger ops"
  by (induction ops) (simp_all add: quiet_op_leaves)

lemma transition_accepted:
  assumes "edge (sm_transitions (lc_sm l)) (lc_state l) target" "ledger_accepts l w"
  shows "\<exists>l' w'. lc_transition target trigger cid meta now (l, w) = (Inr (), l', w') \<and> lc_state l' = target"
proof -
  define r where "r = next_record l target trigger cid meta now"
  obtain w1 where a: "(case lc_ledger l of None \<Rightarrow> (w, None) | Some app \<Rightarrow> app (entry_of (lc_alpha l) r) w) = (w1, None)"
  proof (cases "lc_ledger l")
    case (Some app)
    then have "snd (app (entry_of (lc_alpha l) r) w) = None" using assms(2) by (simp add: ledger_accepts_def)
    then show thesis using that Some by (metis option.simps(5) prod.collapse)
  qed simp
  have "lc_transition target trigger cid meta now (l, w) = (Inr (), advanced l r, after_hook l r w1)"
    unfolding lc_transition_eq r_def[symmetric] Let_def a using assms(1) by simp
  moreover have "lc_state (advanced l r) = target" by (simp add: advanced_def r_def)
  ultimately show ?thesis by blast
qed

lemma history_kept:
  assumes "new_lifecycle alpha q t ledger cap hook = Inr l0" "life_run c ops (l0, w0) = (l, w)"
  shows "life_ok True l" "same_settings l0 l" "list_all dispatched ops \<Longrightarrow> life_ok False l"
proof -
  note run = life_run_ok[OF new_lifecycle_ok(1)[OF assms(1)] _ assms(2)]
  show "life_ok True l" "same_settings l0 l" using run[of True] by (simp_all add: list.pred_True)
  show "life_ok False l" if "list_all dispatched ops" using run[of False] that by simp
qed

subsection \<open>A concrete life\<close>

instance pyfloat :: countable by countable_datatype
instance meta :: countable by countable_datatype

definition unary_codec :: line_codec where
  \<comment> \<open>a value written as a numeral in base one\<close>
  "unary_codec = \<lparr>jl_dumps = (\<lambda>m. replicate (Suc (to_nat (canonical m))) CHR ''1''), jl_dumps_plain = (\<lambda>m. replicate (Suc (to_nat m)) CHR ''1''),
     jl_loads = (\<lambda>s. if s = [] then None else Some (from_nat (length s - 1))),
     jl_str = (\<lambda>v. case v of MStr s \<Rightarrow> s | _ \<Rightarrow> ''?''), jl_int = (\<lambda>v. case v of MInt i \<Rightarrow> Inr i | _ \<Rightarrow> Inl (ValueError ''int''))\<rparr>"

lemma unary_codec_ok: "line_codec_ok unary_codec"
  by (simp add: line_codec_ok_def unary_codec_def)

definition sound_evidence :: promotion_evidence where
  "sound_evidence = \<lparr>pe_paper_days = 40, pe_paper_sharpe = float_lit 1, pe_paper_hit_rate = float_lit (1 / 2), pe_paper_max_drawdown_pct = float_lit 5,
     pe_determinism_test_passed = True, pe_schema_valid = True, pe_feature_values_finite = True, pe_cost_model_validated = True,
     pe_quarantine_triggers = 0, pe_revalidation_notes = '''', pe_extra = []\<rparr>"

definition climb :: "'w life_op list" where
  "climb = [Promote (Some sound_evidence) None '''' 1, Promote (Some sound_evidence) None '''' 2, Promote (Some sound_evidence) None '''' 3]"

definition fall :: "'w life_op list" where
  "fall = climb @ [Quarantine ''drift'' None '''' 4]"

definition shaky_file :: ledger_file where
  \<comment> \<open>the second append is refused\<close>
  "shaky_file = \<lparr>pl_lines = [], pl_refusals = [False, True]\<rparr>"

lemma sound_gates: "check_paper_gate sound_evidence = []" "check_live_gate default_requirements sound_evidence = []"
  by (simp_all add: check_paper_gate_def check_live_gate_def default_requirements_def sound_evidence_def complain_def float_lit_def)

definition newborn :: "(ledger_entry \<Rightarrow> 'w \<Rightarrow> 'w \<times> exn option) \<Rightarrow> 'w lifecycle" where
  "newborn app = \<lparr>lc_alpha = ''a'', lc_requirements = default_requirements, lc_thresholds = base_thresholds None, lc_ledger = Some app,
     lc_cap = None, lc_hook = None, lc_tier = None, lc_sm = \<lparr>sm_name = ''alpha_lifecycle:a'', sm_initial = RESEARCH, sm_state = RESEARCH,
       sm_transitions = lifecycle_transitions, sm_limit = None, sm_history = [], sm_callbacks = []\<rparr>\<rparr>"

lemma newborn_new: "new_lifecycle ''a'' None None (Some app) None None = Inr (newborn app)"
proof -
  have "lifecycle_transitions s \<noteq> None" for s by (cases s) simp_all
  then have "new_machine ''alpha_lifecycle:a'' RESEARCH lifecycle_transitions None = Inr (lc_sm (newborn app))"
    by (simp add: new_machine_Inr_iff newborn_def)
  then show ?thesis by (simp add: new_lifecycle_def newborn_def)
qed

definition plain :: "(ledger_entry \<Rightarrow> 'w \<Rightarrow> 'w \<times> exn option) \<Rightarrow> 'w lifecycle \<Rightarrow> bool" where
  "plain app l \<longleftrightarrow> life_ok True l \<and> lc_cap l = None \<and> lc_hook l = None \<and> lc_requirements l = default_requirements \<and> lc_ledger l = Some app"

lemma newborn_plain: "plain app (newborn app)" "lc_state (newborn app) = RESEARCH"
  using new_lifecycle_ok[OF newborn_new[of app]] by (simp_all add: plain_def)

lemma promoted_by_compatibility:
  assumes "plain app l" "(lc_state l, target) \<in> {(RESEARCH, PAPER), (PAPER, LIVE)}" "\<And>e. app e w = (f e, x)"
  shows "\<exists>l' e. life_step c (Promote (Some sound_evidence) None cid now) (l, w) = (l', f e) \<and> plain app l'
    \<and> lc_state l' = (if x = None then target else lc_state l)"
proof -
  define trigger where "trigger = (if target = PAPER then ''pass_paper_gate'' else ''pass_live_gate'')"
  define meta where "meta = [(''evidence'', MDict (promotion_evidence_fields sound_evidence))]"
  define r where "r = next_record l target trigger cid meta now"
  define l' where "l' = (if x = None then advanced l r else l)"
  note p = assms(1)[unfolded plain_def]
  have e: "edge (sm_transitions (lc_sm l)) (lc_state l) target" using assms(2) p by (auto simp: life_ok_def edge_lifecycle)
  obtain y where t: "lc_transition target trigger cid meta now (l, w) = (y, l', f (entry_of (lc_alpha l) r))"
    using e p by (cases x) (simp_all add: lc_transition_eq Let_def assms(3) r_def[symmetric] l'_def after_hook_def fire_revocation_hook_def)
  from assms(2) have s: "life_step c (Promote (Some sound_evidence) None cid now) (l, w) = (l', f (entry_of (lc_alpha l) r))"
  proof (elim insertE emptyE)
    assume "(lc_state l, target) = (RESEARCH, PAPER)"
    then show ?thesis using t p by (simp add: registry_promote_def promote_to_paper_def promote_with_evidence_def lifecycle_promotion_errors_def
      complain_def select_evidence_def build_metadata_def sound_gates trigger_def meta_def)
  next
    assume "(lc_state l, target) = (PAPER, LIVE)"
    then show ?thesis using t p by (simp add: registry_promote_def promote_to_live_def promote_with_evidence_def lifecycle_promotion_errors_def
      complain_def select_evidence_def build_metadata_def sound_gates trigger_def meta_def)
  qed
  have "plain app l'" using life_step_ok[where d = True, OF _ s] p by (simp add: plain_def same_settings_def l'_def advanced_def)
  then show ?thesis using s by (auto simp: l'_def advanced_def r_def)
qed

lemma climbed:
  obtains l ls where "life_run c climb (newborn (ledger_append c'), shaky_file) = (l, \<lparr>pl_lines = ls, pl_refusals = []\<rparr>)"
    "plain (ledger_append c') l" "lc_state l = LIVE"
proof -
  let ?p = "Promote (Some sound_evidence) None ''''"
  have app: "ledger_append c' e \<lparr>pl_lines = ls, pl_refusals = [False, True]\<rparr> = (\<lparr>pl_lines = ls @ [to_json_line c' e], pl_refusals = [True]\<rparr>, None)"
    "ledger_append c' e \<lparr>pl_lines = ls, pl_refusals = [True]\<rparr> = (\<lparr>pl_lines = ls, pl_refusals = []\<rparr>, Some (OtherException ''OSError''))"
    "ledger_append c' e \<lparr>pl_lines = ls, pl_refusals = []\<rparr> = (\<lparr>pl_lines = ls @ [to_json_line c' e], pl_refusals = []\<rparr>, None)" for e ls
    by (simp_all add: ledger_append_def)
  have 0: "lc_state (newborn (ledger_append c' :: ledger_entry \<Rightarrow> ledger_file \<Rightarrow> _)) = RESEARCH" by (rule newborn_plain(2))
  obtain l1 ls1 where 1: "life_step c (?p 1) (newborn (ledger_append c'), shaky_file) = (l1, \<lparr>pl_lines = ls1, pl_refusals = [True]\<rparr>)"
    "plain (ledger_append c') l1" "lc_state l1 = PAPER"
    using promoted_by_compatibility[where c = c and cid = "''''" and now = 1 and app = "ledger_append c'" and w = "\<lparr>pl_lines = [], pl_refusals = [False, True]\<rparr>" and x = None and target = PAPER and f = "\<lambda>e. \<lparr>pl_lines = [] @ [to_json_line c' e], pl_refusals = [True]\<rparr>", OF newborn_plain(1) _ app(1)] 0
    unfolding shaky_file_def by (auto simp del: life_step.simps)
  obtain l2 where 2: "life_step c (?p 2) (l1, \<lparr>pl_lines = ls1, pl_refusals = [True]\<rparr>) = (l2, \<lparr>pl_lines = ls1, pl_refusals = []\<rparr>)"
    "plain (ledger_append c') l2" "lc_state l2 = PAPER"
    using promoted_by_compatibility[where c = c and cid = "''''" and now = 2 and app = "ledger_append c'" and w = "\<lparr>pl_lines = ls1, pl_refusals = [True]\<rparr>" and x = "Some (OtherException ''OSError'')" and target = LIVE and f = "\<lambda>e. \<lparr>pl_lines = ls1, pl_refusals = []\<rparr>", OF 1(2) _ app(2)] 1(3) by (auto simp del: life_step.simps)
  obtain l3 ls3 where 3: "life_step c (?p 3) (l2, \<lparr>pl_lines = ls1, pl_refusals = []\<rparr>) = (l3, \<lparr>pl_lines = ls3, pl_refusals = []\<rparr>)"
    "plain (ledger_append c') l3" "lc_state l3 = LIVE"
    using promoted_by_compatibility[where c = c and cid = "''''" and now = 3 and app = "ledger_append c'" and w = "\<lparr>pl_lines = ls1, pl_refusals = []\<rparr>" and x = None and target = LIVE and f = "\<lambda>e. \<lparr>pl_lines = ls1 @ [to_json_line c' e], pl_refusals = []\<rparr>", OF 2(2) _ app(3)] 2(3) by (auto simp del: life_step.simps)
  have "life_run c climb (newborn (ledger_append c'), shaky_file) = (l3, \<lparr>pl_lines = ls3, pl_refusals = []\<rparr>)"
    unfolding climb_def life_run_Cons 1(1) 2(1) 3(1) by (simp add: life_run_def)
  then show thesis using that 3 by blast
qed

lemma appends_accepted: "pl_refusals w = [] \<Longrightarrow> lc_ledger l = Some (ledger_append c) \<Longrightarrow> ledger_accepts l w"
  by (simp add: ledger_accepts_def ledger_append_def)

lemma fallen:
  obtains l ls where "life_run c fall (newborn (ledger_append c'), shaky_file) = (l, \<lparr>pl_lines = ls, pl_refusals = []\<rparr>)"
    "plain (ledger_append c') l" "lc_state l = QUARANTINED"
proof -
  obtain l ls where l: "life_run c climb (newborn (ledger_append c'), shaky_file) = (l, \<lparr>pl_lines = ls, pl_refusals = []\<rparr>)"
    "plain (ledger_append c') l" "lc_state l = LIVE" using climbed by blast
  note p = l(2)[unfolded plain_def]
  define r where "r = next_record l QUARANTINED ''edge_decay_detected'' '''' [(''reason'', MStr ''drift'')] 4"
  have s: "life_step c (Quarantine ''drift'' None '''' 4) (l, \<lparr>pl_lines = ls, pl_refusals = []\<rparr>)
     = (advanced l r, \<lparr>pl_lines = ls @ [to_json_line c' (entry_of (lc_alpha l) r)], pl_refusals = []\<rparr>)"
    using p l(3) by (simp add: quarantine_def quarantine_metadata_def lc_transition_eq life_ok_def edge_lifecycle Let_def ledger_append_def r_def[symmetric]
      after_hook_def fire_revocation_hook_def)
  have "plain (ledger_append c') (advanced l r)" using life_step_ok[where d = True, OF _ s] p by (simp add: plain_def same_settings_def advanced_def)
  moreover have "lc_state (advanced l r) = QUARANTINED" by (simp add: advanced_def r_def)
  moreover have "life_run c fall (newborn (ledger_append c'), shaky_file) = (advanced l r, \<lparr>pl_lines = ls @ [to_json_line c' (entry_of (lc_alpha l) r)], pl_refusals = []\<rparr>)"
    using l(1) s by (simp add: fall_def life_run_def)
  ultimately show thesis using that by blast
qed

subsection \<open>Properties\<close>



text \<open>C37: the ledger file is the history. After any operations, with appends the system refuses at
  any moment and hooks that raise, reading the file gives exactly the transitions that were committed,
  in order and field by field, with dictionary keys sorted.\<close>
theorem ledger_mirrors_history:
  assumes "new_lifecycle alpha q t (Some (ledger_append c)) cap hook = Inr l0" "life_run c' ops (l0, w0) = (l, w)"
    "line_codec_ok c" "leaves_ledger hook" "list_all op_leaves_ledger ops" "pl_lines w0 = []"
  shows "ledger_entries c w = Inr (map (\<lambda>r. canonical_entry (entry_of alpha r)) (sm_history (lc_sm l)))"
proof -
  note new = new_lifecycle_ok[OF assms(1)]
  have "ledger_file.in_step c [] l0 w0" using new assms(4,6) by (simp add: ledger_file.in_step_def quiet_leaves life_ok_def)
  then have "ledger_file.in_step c [] l w" using ledger_file.run_in_step[OF _ _ assms(2)] assms(5) by (simp add: quiet_ops_leave)
  moreover have "lc_alpha l = alpha" using history_kept(2)[OF assms(1,2)] new(3) by (simp add: same_settings_def)
  ultimately have "pl_lines w = map (to_json_line c) (map (entry_of alpha) (sm_history (lc_sm l)))"
    by (simp add: ledger_file.in_step_def)
  then show ?thesis using read_own_entries[OF assms(3), of "map (entry_of alpha) (sm_history (lc_sm l))"]
    by (simp add: ledger_entries_def comp_def)
qed

lemma ledger_mirrors_history_witness:
  "\<exists>l0 l w. new_lifecycle ''a'' None None (Some (ledger_append unary_codec)) None None = Inr l0 \<and> life_run unary_codec fall (l0, shaky_file) = (l, w)
     \<and> lc_state l = QUARANTINED
     \<and> ledger_entries unary_codec w = Inr (map (\<lambda>r. canonical_entry (entry_of ''a'' r)) (sm_history (lc_sm l)))"
proof -
  obtain l ls where l: "life_run unary_codec fall (newborn (ledger_append unary_codec), shaky_file) = (l, \<lparr>pl_lines = ls, pl_refusals = []\<rparr>)"
    "lc_state l = QUARANTINED" using fallen by blast
  have "ledger_entries unary_codec \<lparr>pl_lines = ls, pl_refusals = []\<rparr> = Inr (map (\<lambda>r. canonical_entry (entry_of ''a'' r)) (sm_history (lc_sm l)))"
    by (rule ledger_mirrors_history[OF newborn_new l(1) unary_codec_ok]) (simp_all add: leaves_ledger_def fall_def climb_def shaky_file_def)
  then show ?thesis using l newborn_new by blast
qed

text \<open>C38: a demotion commits. Whatever has happened before, whatever the recommendation says and whatever the
  revocation hook does or raises, applying it to a live alpha whose ledger takes the entry quarantines it.\<close>
theorem demotion_commits:
  assumes "new_lifecycle alpha q t ledger cap hook = Inr l0" "life_run c ops (l0, w0) = (l, w)" "is_live l" "ledger_accepts l w"
  shows "\<exists>l' w'. apply_recommendation reason net cost margin z actor cid now (l, w) = (Inr True, l', w') \<and> lc_state l' = QUARANTINED"
proof -
  have "edge (sm_transitions (lc_sm l)) (lc_state l) QUARANTINED"
    using history_kept(1)[OF assms(1,2)] assms(3) by (simp add: life_ok_def is_live_def edge_lifecycle)
  note t = transition_accepted[OF this assms(4)]
  obtain meta where "quarantine_metadata (actor @ '': '' @ reason) (Some [Quarantine_Trigger (recommendation_evidence net cost margin z)]) = Inr meta"
    by (simp add: quarantine_metadata_def evidence_to_metadata_def)
  then show ?thesis using t[of "''edge_decay_detected''" cid meta now] assms(3)
    by (auto simp: apply_recommendation_def quarantine_def map_result_def)
qed

lemma demotion_commits_witness:
  "\<exists>l w l' w'. life_run unary_codec climb (newborn (ledger_append unary_codec), shaky_file) = (l, w) \<and> lc_state l = LIVE
     \<and> apply_recommendation ''bleeding'' (Fin (- 1)) (Fin 2) NaN None ''breaker'' '''' 9 (l, w) = (Inr True, l', w') \<and> lc_state l' = QUARANTINED"
proof -
  obtain l ls where l: "life_run unary_codec climb (newborn (ledger_append unary_codec), shaky_file) = (l, \<lparr>pl_lines = ls, pl_refusals = []\<rparr>)"
    "plain (ledger_append unary_codec) l" "lc_state l = LIVE" using climbed by blast
  have "ledger_accepts l \<lparr>pl_lines = ls, pl_refusals = []\<rparr>" using l(2) by (intro appends_accepted) (simp_all add: plain_def)
  then show ?thesis
    using l(1,3) demotion_commits[OF newborn_new l(1), of "''bleeding''" "Fin (- 1)" "Fin 2" NaN None "''breaker''" "''''" 9]
    unfolding is_live_def by blast
qed

lemma state_named_name: "state_named (MStr (alpha_state_name s)) = Inr s"
  by (cases s) (simp_all add: state_named_def)

lemma tier_named_value: "tier_named (MStr (tier_value t)) = Inr t"
  by (cases t) (simp_all add: tier_named_def)

text \<open>C39: a checkpoint restores what it saved. After any history, the checkpoint restored into a fresh lifecycle of
  the same alpha gives back the state and, for a live alpha, its capital tier.\<close>
theorem checkpoint_restores:
  assumes "new_lifecycle alpha q t ledger cap hook = Inr l0" "life_run c' ops (l0, w0) = (l, w)"
    "new_lifecycle alpha q' t' ledger' cap hook' = Inr fresh" "line_codec_ok c"
  shows "\<exists>l'. restore c (checkpoint c l) fresh = Inr l' \<and> lc_state l' = lc_state l \<and> current_capital_tier l' = current_capital_tier l"
proof -
  define d where "d = [(''alpha_id'', MStr (lc_alpha l)), (''state'', MStr (alpha_state_name (lc_state l)))]
     @ (case current_capital_tier l of None \<Rightarrow> [] | Some t \<Rightarrow> [(''capital_tier'', MStr (tier_value t))])"
  have v: "map_of d ''state'' = Some (MStr (alpha_state_name (lc_state l)))"
    "map_of d ''capital_tier'' = map_option (\<lambda>t. MStr (tier_value t)) (current_capital_tier l)"
    by (simp_all add: d_def split: option.split)
  have load: "jl_loads c (checkpoint c l) = Some (MDict d)"
    using assms(4) by (simp add: line_codec_ok_def checkpoint_def d_def)
  have "\<not> (cap = Some ''RESEARCH'' \<and> is_active l)"
    using history_kept[OF assms(1,2)] new_lifecycle_ok(4)[OF assms(1)] by (simp add: life_ok_def capped_def same_settings_def)
  then have cap: "lifecycle_promotion_errors (lc_state l) fresh = []"
    using new_lifecycle_ok(4)[OF assms(3)] by (simp add: lifecycle_promotion_errors_def is_active_def)
  define l' where "l' = fresh\<lparr>lc_tier := current_capital_tier l, lc_sm := (lc_sm fresh)\<lparr>sm_state := lc_state l\<rparr>\<rparr>"
  have "restore c (checkpoint c l) fresh = Inr l'"
  proof (cases "current_capital_tier l")
    case None
    then show ?thesis by (simp add: restore_def load v state_named_name cap l'_def)
  next
    case (Some tier)
    then have "lc_state l = LIVE" by (simp add: current_capital_tier_def split: if_splits)
    then show ?thesis using Some cap state_named_name[of LIVE] by (simp add: restore_def load v tier_named_value l'_def)
  qed
  moreover have "current_capital_tier l' = current_capital_tier l"
    using new_lifecycle_ok(2)[OF assms(3)] by (simp add: current_capital_tier_def l'_def)
  ultimately show ?thesis by (simp add: l'_def)
qed

lemma checkpoint_restores_witness:
  "\<exists>l w l'. life_run unary_codec climb (newborn (ledger_append unary_codec), shaky_file) = (l, w) \<and> lc_state l = LIVE
     \<and> restore unary_codec (checkpoint unary_codec l) (newborn (ledger_append unary_codec)) = Inr l' \<and> lc_state l' = LIVE
     \<and> current_capital_tier l' = current_capital_tier l"
proof -
  obtain l ls where l: "life_run unary_codec climb (newborn (ledger_append unary_codec), shaky_file) = (l, \<lparr>pl_lines = ls, pl_refusals = []\<rparr>)"
    "lc_state l = LIVE" using climbed by blast
  then show ?thesis using checkpoint_restores[OF newborn_new l(1) newborn_new unary_codec_ok, of "ledger_append unary_codec"] by fastforce
qed

text \<open>C40: the method for the first promotion does not look at the state. Called on a quarantined alpha it
  needs no revalidation: the compatibility evidence of the first promotion, with empty revalidation
  notes, returns the alpha to paper trading.\<close>
theorem quarantine_left_without_review:
  assumes "new_lifecycle alpha q t ledger cap hook = Inr l0" "life_run c ops (l0, w0) = (l, w)" "lc_state l = QUARANTINED"
    "cap \<noteq> Some ''RESEARCH''" "ledger_accepts l w" "check_paper_gate e = []" "pe_revalidation_notes e = ''''"
  shows "check_revalidation_gate e \<noteq> [] \<and> (\<exists>l' w'. promote_to_paper (Some e) None cid now (l, w) = (Inr [], l', w') \<and> lc_state l' = PAPER)"
proof -
  have e: "edge (sm_transitions (lc_sm l)) (lc_state l) PAPER" "lc_cap l = cap"
    using history_kept[OF assms(1,2)] assms(3) new_lifecycle_ok(4)[OF assms(1)] by (simp_all add: life_ok_def edge_lifecycle same_settings_def)
  obtain l' w' where "lc_transition PAPER ''pass_paper_gate'' cid [(''evidence'', MDict (promotion_evidence_fields e))] now (l, w) = (Inr (), l', w')"
    "lc_state l' = PAPER" using transition_accepted[OF e(1) assms(5)] by blast
  then have "promote_to_paper (Some e) None cid now (l, w) = (Inr [], l', w') \<and> lc_state l' = PAPER"
    using e(2) assms(4,6) by (simp add: promote_to_paper_def promote_with_evidence_def lifecycle_promotion_errors_def complain_def
      select_evidence_def build_metadata_def map_result_def)
  moreover have "check_revalidation_gate e \<noteq> []" using assms(7) by (simp add: check_revalidation_gate_def complain_def blank_def)
  ultimately show ?thesis by blast
qed

lemma quarantine_left_without_review_witness:
  "\<exists>l w l' w'. life_run unary_codec fall (newborn (ledger_append unary_codec), shaky_file) = (l, w) \<and> lc_state l = QUARANTINED
     \<and> check_revalidation_gate sound_evidence \<noteq> []
     \<and> promote_to_paper (Some sound_evidence) None '''' 9 (l, w) = (Inr [], l', w') \<and> lc_state l' = PAPER"
proof -
  obtain l ls where l: "life_run unary_codec fall (newborn (ledger_append unary_codec), shaky_file) = (l, \<lparr>pl_lines = ls, pl_refusals = []\<rparr>)"
    "plain (ledger_append unary_codec) l" "lc_state l = QUARANTINED" using fallen by blast
  have "ledger_accepts l \<lparr>pl_lines = ls, pl_refusals = []\<rparr>" using l(2) by (intro appends_accepted) (simp_all add: plain_def)
  moreover have "pe_revalidation_notes sound_evidence = ''''" by (simp add: sound_evidence_def)
  ultimately show ?thesis using l(1,3) quarantine_left_without_review[OF newborn_new l(1,3) _ _ sound_gates(1), of "''''" 9] by blast
qed

end
