(* ===== verification/Planning.thy ===== *)
theory Planning
  imports Cost_Model Position_Store
begin

section \<open>From a signal to a plan (core/intent.py, core/position\_manager.py, execution/position\_manager.py)\<close>

text \<open>
  A signal is turned into a trading intent twice: by the translator's signal-by-position
  matrix, and by diffing a desired position against the book into child orders, which are then
  projected back onto an intent. Both ways are modelled, with the trimming planner on top, the
  comparison that watches for a divergence, and the theorem that there is none.
\<close>

subsection \<open>Trading intents\<close>

datatype trading_intent = ENTRY_LONG | ENTRY_SHORT | EXIT | REVERSE_LONG_TO_SHORT | REVERSE_SHORT_TO_LONG | SCALE_UP | NO_ACTION

record order_intent =
  oi_intent :: trading_intent
  oi_symbol :: symbol
  oi_strategy :: strategy
  oi_target_quantity :: int
  oi_current_quantity :: int
  oi_signal :: signal

definition intent_of :: "signal \<Rightarrow> int \<Rightarrow> trading_intent \<Rightarrow> int \<Rightarrow> order_intent" where
  "intent_of sig qty kind target = \<lparr>oi_intent = kind, oi_symbol = sg_symbol sig, oi_strategy = sg_strategy sig,
     oi_target_quantity = target, oi_current_quantity = qty, oi_signal = sig\<rparr>"

definition handle_flat :: "signal \<Rightarrow> int \<Rightarrow> order_intent" where
  "handle_flat sig qty = (if qty = 0 then intent_of sig qty NO_ACTION 0 else intent_of sig qty EXIT \<bar>qty\<bar>)"

definition handle_long :: "signal \<Rightarrow> int \<Rightarrow> int \<Rightarrow> order_intent" where
  "handle_long sig qty tgt =
     (if qty < 0 then intent_of sig qty REVERSE_SHORT_TO_LONG (\<bar>qty\<bar> + tgt)
      else if tgt \<le> qty then intent_of sig qty NO_ACTION 0
      else if 0 < qty then intent_of sig qty SCALE_UP (tgt - qty)
      else intent_of sig qty ENTRY_LONG tgt)"

definition handle_short :: "signal \<Rightarrow> int \<Rightarrow> int \<Rightarrow> order_intent" where
  "handle_short sig qty tgt =
     (if 0 < qty then intent_of sig qty REVERSE_LONG_TO_SHORT (qty + tgt)
      else if qty \<le> - tgt then intent_of sig qty NO_ACTION 0
      else if qty < 0 then intent_of sig qty SCALE_UP (tgt - \<bar>qty\<bar>)
      else intent_of sig qty ENTRY_SHORT tgt)"

definition translate :: "int \<Rightarrow> signal \<Rightarrow> position \<Rightarrow> int option \<Rightarrow> order_intent result" where
  \<comment> \<open>\<open>SignalPositionTranslator.translate\<close>; the first argument is the default target\<close>
  "translate dflt sig p target =
     (let tgt = (case target of Some t \<Rightarrow> t | None \<Rightarrow> dflt); qty = pos_quantity p
      in if tgt < 0 then Inl (ValueError ''target_quantity'')
         else case sg_direction sig of
             FLAT \<Rightarrow> Inr (handle_flat sig qty)
           | LONG \<Rightarrow> Inr (handle_long sig qty tgt)
           | SHORT \<Rightarrow> Inr (handle_short sig qty tgt))"

subsection \<open>Plans\<close>

datatype plan_leg = LegNoAction | LegEntry | LegScaleUp | LegTrim | LegExit | LegReverseExit | LegReverseEntry
datatype exec_style = PASSIVE | STYLE_MARKET

record desired_position =
  dp_symbol :: symbol
  dp_target :: int
  dp_direction :: int
  dp_edge_bps :: float64
  dp_urgency :: float64
  dp_source :: string
  dp_reason :: string

record market_context =
  mc_quote :: "nbbo_quote option"
  mc_cost_model :: "cost_fn option"
  mc_market_impact :: "decimal option"
  mc_max_half_spreads :: "decimal option"
  mc_within_l1 :: decimal
  mc_permanent :: decimal

record planned_order =
  pl_symbol :: symbol
  pl_side :: side
  pl_quantity :: int
  pl_style :: exec_style
  pl_leg :: plan_leg
  pl_is_short :: bool
  pl_rationale :: "(string \<times> float64) list"

record suppressed_leg =
  sl_leg :: plan_leg
  sl_reason :: string
  sl_constraints :: "(string \<times> float64) list"

record position_plan =
  pp_orders :: "planned_order list"
  pp_suppressed :: "suppressed_leg list"

record planner_config =
  pc_enable_trim :: bool
  pc_trim_edge_gate :: float64
  pc_urgency_exec :: bool

definition primary_leg :: "position_plan \<Rightarrow> plan_leg" where
  "primary_leg plan = (case pp_orders plan of [] \<Rightarrow> LegNoAction | x # _ \<Rightarrow> pl_leg x)"

definition total_quantity :: "position_plan \<Rightarrow> int" where
  "total_quantity plan = sum_list (map pl_quantity (pp_orders plan))"

definition desired_from_signal :: "signal \<Rightarrow> int option \<Rightarrow> int \<Rightarrow> desired_position result" where
  "desired_from_signal sig target dflt =
     (let tgt = (case target of Some t \<Rightarrow> t | None \<Rightarrow> dflt)
      in if tgt < 0 then Inl (ValueError ''target_quantity'')
         else let (signed, direction) = (case sg_direction sig of LONG \<Rightarrow> (tgt, 1) | SHORT \<Rightarrow> (- tgt, - 1) | FLAT \<Rightarrow> (0, 0))
              in Inr \<lparr>dp_symbol = sg_symbol sig, dp_target = signed, dp_direction = direction, dp_edge_bps = sg_edge_bps sig,
                      dp_urgency = 1 / 2, dp_source = sg_strategy sig, dp_reason = ''signal''\<rparr>)"

definition order_intent_from_plan :: "position_plan \<Rightarrow> signal \<Rightarrow> position \<Rightarrow> order_intent" where
  "order_intent_from_plan plan sig current =
     (let cur = pos_quantity current; oi = intent_of sig cur; n = total_quantity plan;
          reverse = (if 0 < cur then REVERSE_LONG_TO_SHORT else REVERSE_SHORT_TO_LONG)
      in case pp_orders plan of
           [] \<Rightarrow> oi NO_ACTION 0
         | x # _ \<Rightarrow> (case primary_leg plan of
               LegReverseExit \<Rightarrow> oi reverse n
             | LegReverseEntry \<Rightarrow> oi reverse n
             | LegExit \<Rightarrow> if sg_direction sig = FLAT then oi EXIT n else oi reverse n
             | LegScaleUp \<Rightarrow> oi SCALE_UP n
             | LegEntry \<Rightarrow> oi (if pl_side x = BUY then ENTRY_LONG else ENTRY_SHORT) n
             | LegTrim \<Rightarrow> oi EXIT n
             | LegNoAction \<Rightarrow> oi NO_ACTION 0))"

definition planned :: "symbol \<Rightarrow> side \<Rightarrow> int \<Rightarrow> exec_style \<Rightarrow> plan_leg \<Rightarrow> bool \<Rightarrow> planned_order" where
  \<comment> \<open>a planned order without a rationale\<close>
  "planned s sd q style leg short = \<lparr>pl_symbol = s, pl_side = sd, pl_quantity = q, pl_style = style, pl_leg = leg,
     pl_is_short = short, pl_rationale = []\<rparr>"

abbreviation plan_of :: "planned_order list \<Rightarrow> position_plan" where
  "plan_of xs \<equiv> \<lparr>pp_orders = xs, pp_suppressed = []\<rparr>"

definition reverse_plan :: "symbol \<Rightarrow> int \<Rightarrow> int \<Rightarrow> side \<Rightarrow> bool \<Rightarrow> position_plan" where
  "reverse_plan s exit_qty entry_qty entry_side short =
     (let exit_side = (if entry_side = BUY then BUY else SELL)
      in plan_of [planned s exit_side exit_qty STYLE_MARKET LegReverseExit False,
                  planned s entry_side entry_qty PASSIVE LegReverseEntry short])"

definition effective_direction :: "desired_position \<Rightarrow> int" where
  "effective_direction d = (if dp_direction d \<noteq> 0 then dp_direction d else sgn (dp_target d))"

definition legacy_target :: "desired_position \<Rightarrow> int \<Rightarrow> int" where
  \<comment> \<open>a directional target cannot reduce a position of the same direction\<close>
  "legacy_target d cur =
     (if 0 < effective_direction d then max cur \<bar>dp_target d\<bar>
      else if effective_direction d < 0 then min cur (- \<bar>dp_target d\<bar>) else 0)"

definition legacy_plan :: "desired_position \<Rightarrow> position \<Rightarrow> position_plan" where
  "legacy_plan d current =
     (let cur = pos_quantity current; eff = legacy_target d cur; delta = eff - cur in
      if delta = 0 then plan_of []
      else if cur \<noteq> 0 \<and> eff \<noteq> 0 \<and> (0 < cur) \<noteq> (0 < eff)
      then reverse_plan (dp_symbol d) \<bar>cur\<bar> \<bar>eff\<bar> (if 0 < eff then BUY else SELL) (eff < 0)
      else if eff = 0
      then plan_of [planned (dp_symbol d) (if 0 < cur then SELL else BUY) \<bar>cur\<bar> STYLE_MARKET LegExit False]
      else plan_of [planned (dp_symbol d) (if 0 < delta then BUY else SELL) \<bar>delta\<bar> PASSIVE
             (if cur = 0 then LegEntry else LegScaleUp) (eff < 0)])"

subsection \<open>Edge against cost\<close>

definition round_trip_cost_bps ::
  "cost_fn \<Rightarrow> symbol \<Rightarrow> side \<Rightarrow> int \<Rightarrow> nbbo_quote \<Rightarrow> bool \<Rightarrow> bool \<Rightarrow> market_context \<Rightarrow> float64 option result" where
  \<comment> \<open>entry plus aggressive exit, priced on the quote; depth-aware when both impact settings are there\<close>
  "round_trip_cost_bps model s entry_side quantity q is_taker_entry is_short_entry mc =
     estimate_round_trip_cost_bps model s entry_side quantity
       (dec_div (dec_add (nq_bid q) (nq_ask q)) 2) (dec_div (dec_sub (nq_ask q) (nq_bid q)) 2)
       is_taker_entry is_short_entry (Some True)
       (case (mc_market_impact mc, mc_max_half_spreads mc) of
          (Some i, Some m) \<Rightarrow> Some (nq_bid_size q, nq_ask_size q,
             \<lparr>ic_market_impact = i, ic_max_half_spreads = m, ic_within_l1 = mc_within_l1 mc, ic_permanent = mc_permanent mc\<rparr>)
        | _ \<Rightarrow> None)
       False False"

definition entry_edge_clears_cost :: "float64 \<Rightarrow> float64 option \<Rightarrow> float64 \<Rightarrow> bool \<Rightarrow> bool" where
  \<comment> \<open>the last argument is \<open>basis == "round_trip"\<close>; an infinite cost times a ratio is an infinity, or NaN\<close>
  "entry_edge_clears_cost edge_bps cost min_ratio round_trip =
     (let basis = (if round_trip then fl_mul edge_bps 2 else edge_bps)
      in case cost of Some c \<Rightarrow> fl_mul min_ratio c \<le> basis | None \<Rightarrow> min_ratio < 0)"

definition reversal_edge_gate :: "float64 \<Rightarrow> float64 option \<Rightarrow> float64 option \<Rightarrow> float64 \<Rightarrow> float64 option \<times> float64 option \<times> bool" where
  \<comment> \<open>\<open>None\<close> in the result is a value that is not a finite number\<close>
  "reversal_edge_gate edge_bps exit_cost entry_cost multiplier =
     (case bps_add exit_cost entry_cost of
        Some c \<Rightarrow> (Some c, Some (fl_mul c multiplier), fl_mul c multiplier < edge_bps)
      | None \<Rightarrow> (None, None, multiplier < 0))"

subsection \<open>Trimming\<close>

definition trim_threshold :: "float64 \<Rightarrow> int \<Rightarrow> int" where
  "trim_threshold fraction cur = max 1 \<lceil>fl_mul fraction (fl_round (of_int \<bar>cur\<bar>))\<rceil>"

definition trim_cost :: "market_context \<Rightarrow> desired_position \<Rightarrow> side \<Rightarrow> int \<Rightarrow> float64 option option result" where
  \<comment> \<open>the outer option is Python's \<open>rt_cost_bps is not None\<close>\<close>
  "trim_cost mc d sd q =
     (case (mc_cost_model mc, mc_quote mc) of
        (Some model, Some quote) \<Rightarrow> bind_result (round_trip_cost_bps model (dp_symbol d) sd q quote True False mc) (\<lambda>c. Inr (Some c))
      | _ \<Rightarrow> Inr None)"

definition hold_trim :: "string \<Rightarrow> (string \<times> float64) list \<Rightarrow> position_plan" where
  "hold_trim reason constraints = \<lparr>pp_orders = [],
     pp_suppressed = [\<lparr>sl_leg = LegTrim, sl_reason = reason, sl_constraints = constraints\<rparr>]\<rparr>"

definition num :: "int \<Rightarrow> float64" where "num k = fl_round (of_int k)"

definition trim_plan ::
  "market_context option \<Rightarrow> planner_config \<Rightarrow> desired_position \<Rightarrow> int \<Rightarrow> int \<Rightarrow> position_plan result" where
  \<comment> \<open>the trim of a position \<open>cur\<close> by \<open>trim_qty\<close> shares, past the churn threshold; the
     constraints and the rationale keep the entries whose value is a finite float\<close>
  "trim_plan market cfg d cur trim_qty =
     (let sd = (if 0 < cur then SELL else BUY); k = pc_trim_edge_gate cfg in
      bind_result (case market of None \<Rightarrow> Inr None | Some mc \<Rightarrow> trim_cost mc d sd trim_qty) (\<lambda>cost.
        if 0 < k \<and> cost \<noteq> None \<and> entry_edge_clears_cost (dp_edge_bps d) (the cost) k False
        then Inr (hold_trim ''trim_edge_above_gate''
               ([(''edge_bps'', dp_edge_bps d)]
                @ (case cost of Some (Some c) \<Rightarrow> [(''required_bps'', fl_mul k c), (''round_trip_cost_bps'', c)] | _ \<Rightarrow> [])
                @ [(''trim_qty'', num trim_qty)]))
        else Inr (plan_of [\<lparr>pl_symbol = dp_symbol d, pl_side = sd, pl_quantity = trim_qty,
               pl_style = (if pc_urgency_exec cfg then PASSIVE else STYLE_MARKET), pl_leg = LegTrim, pl_is_short = False,
               pl_rationale = [(''trim_qty'', num trim_qty), (''current_qty'', num cur),
                   (''target_qty'', num (effective_direction d * \<bar>dp_target d\<bar>)),
                   (''trim_fraction'', fl_div (num trim_qty) (num \<bar>cur\<bar>))]
                 @ (case cost of Some (Some c) \<Rightarrow> [(''round_trip_cost_bps'', c)] | _ \<Rightarrow> [])\<rparr>])))"

definition target_plan ::
  "float64 \<Rightarrow> desired_position \<Rightarrow> position \<Rightarrow> market_context option \<Rightarrow> planner_config option \<Rightarrow> position_plan result" where
  \<comment> \<open>\<open>TargetPositionManager.plan\<close>; the first argument is \<open>trim_min_fraction\<close>\<close>
  "target_plan fraction d current market config =
     (case config of
        None \<Rightarrow> Inr (legacy_plan d current)
      | Some cfg \<Rightarrow>
          let cur = pos_quantity current; dir = effective_direction d; m = \<bar>dp_target d\<bar>; trim_qty = \<bar>cur\<bar> - m in
          if \<not> pc_enable_trim cfg \<or> dir = 0 \<or> sgn cur \<noteq> dir \<or> \<bar>cur\<bar> \<le> m then Inr (legacy_plan d current)
          else if trim_qty < trim_threshold fraction cur
          then Inr (hold_trim ''trim_below_churn_threshold''
                 [(''trim_qty'', num trim_qty), (''threshold'', num (trim_threshold fraction cur)), (''current_qty'', num cur)])
          else trim_plan market cfg d cur trim_qty)"

subsection \<open>Comparing a plan with the translator's intent\<close>

definition legacy_orders :: "trading_intent \<Rightarrow> int \<Rightarrow> int \<Rightarrow> (side \<times> int) list" where
  "legacy_orders kind target cur =
     (case kind of
        NO_ACTION \<Rightarrow> []
      | ENTRY_LONG \<Rightarrow> [(BUY, target)]
      | ENTRY_SHORT \<Rightarrow> [(SELL, target)]
      | EXIT \<Rightarrow> [(if 0 < cur then SELL else BUY, target)]
      | SCALE_UP \<Rightarrow> [(if 0 < cur then BUY else SELL, target)]
      | REVERSE_LONG_TO_SHORT \<Rightarrow> [(SELL, \<bar>cur\<bar>), (SELL, target - \<bar>cur\<bar>)]
      | REVERSE_SHORT_TO_LONG \<Rightarrow> [(BUY, \<bar>cur\<bar>), (BUY, target - \<bar>cur\<bar>)])"

fun side_name :: "side \<Rightarrow> string" where
  "side_name BUY = ''BUY''"
| "side_name SELL = ''SELL''"

definition norm_orders :: "(side \<times> int) list \<Rightarrow> (string \<times> int) list" where
  \<comment> \<open>sorted by name, then quantity, as Python sorts the tuples\<close>
  "norm_orders orders =
     (let kept = filter (\<lambda>p. 0 < snd p) orders
      in map (\<lambda>q. (''BUY'', q)) (sort (map snd (filter (\<lambda>p. fst p = BUY) kept)))
       @ map (\<lambda>q. (''SELL'', q)) (sort (map snd (filter (\<lambda>p. fst p = SELL) kept))))"

record plan_divergence =
  pd_symbol :: symbol
  pd_signal_sequence :: int
  pd_legacy_intent :: trading_intent
  pd_legacy_quantity :: int
  pd_planner_leg :: plan_leg
  pd_planner_quantity :: int

definition compare_plan_to_intent :: "trading_intent \<Rightarrow> int \<Rightarrow> int \<Rightarrow> position_plan \<Rightarrow> symbol \<Rightarrow> int \<Rightarrow> plan_divergence option" where
  "compare_plan_to_intent kind target cur plan s seq =
     (if norm_orders (legacy_orders kind target cur) = norm_orders (map (\<lambda>x. (pl_side x, pl_quantity x)) (pp_orders plan)) then None
      else Some \<lparr>pd_symbol = s, pd_signal_sequence = seq, pd_legacy_intent = kind, pd_legacy_quantity = target,
                 pd_planner_leg = primary_leg plan, pd_planner_quantity = total_quantity plan\<rparr>)"

subsection \<open>The planner repeats the translator\<close>

text \<open>The planner's three cases, one per signal direction, side by side with the translator's.\<close>

lemma legacy_long:
  assumes "dp_direction d = 1" "0 \<le> dp_target d"
  shows "legacy_plan d p = (let q = pos_quantity p; t = dp_target d; s = dp_symbol d in
    if q < 0 then (if t = 0 then plan_of [planned s BUY (- q) STYLE_MARKET LegExit False] else reverse_plan s (- q) t BUY False)
    else if t \<le> q then plan_of []
    else plan_of [planned s BUY (t - q) PASSIVE (if q = 0 then LegEntry else LegScaleUp) False])"
  using assms by (auto simp: legacy_plan_def legacy_target_def effective_direction_def Let_def max_def)

lemma legacy_short:
  assumes "dp_direction d = - 1" "dp_target d \<le> 0"
  shows "legacy_plan d p = (let q = pos_quantity p; t = - dp_target d; s = dp_symbol d in
    if 0 < q then (if t = 0 then plan_of [planned s SELL q STYLE_MARKET LegExit False] else reverse_plan s q t SELL True)
    else if q \<le> - t then plan_of []
    else plan_of [planned s SELL (q + t) PASSIVE (if q = 0 then LegEntry else LegScaleUp) True])"
  using assms by (auto simp: legacy_plan_def legacy_target_def effective_direction_def Let_def min_def)

lemma legacy_flat:
  assumes "dp_direction d = 0" "dp_target d = 0"
  shows "legacy_plan d p = (if pos_quantity p = 0 then plan_of []
    else plan_of [planned (dp_symbol d) (if 0 < pos_quantity p then SELL else BUY) \<bar>pos_quantity p\<bar> STYLE_MARKET LegExit False])"
  using assms by (auto simp: legacy_plan_def legacy_target_def effective_direction_def Let_def)

lemmas projection_defs = order_intent_from_plan_def primary_leg_def total_quantity_def reverse_plan_def planned_def intent_of_def

lemma desired_fields:
  assumes "desired_from_signal sig target dflt = Inr d"
  obtains t where "0 \<le> t" "t = (case target of Some t \<Rightarrow> t | None \<Rightarrow> dflt)"
    "sg_direction sig = LONG \<Longrightarrow> dp_direction d = 1 \<and> dp_target d = t"
    "sg_direction sig = SHORT \<Longrightarrow> dp_direction d = - 1 \<and> dp_target d = - t"
    "sg_direction sig = FLAT \<Longrightarrow> dp_direction d = 0 \<and> dp_target d = 0"
proof -
  let ?t = "case target of Some t \<Rightarrow> t | None \<Rightarrow> dflt"
  have "0 \<le> ?t" using assms by (simp add: desired_from_signal_def Let_def split: if_splits)
  then show thesis using assms that[of ?t]
    by (cases "sg_direction sig") (auto simp: desired_from_signal_def Let_def split: if_splits)
qed

lemma norm_orders_cong:
  assumes "filter (\<lambda>p. 0 < snd p) xs = filter (\<lambda>p. 0 < snd p) ys"
  shows "norm_orders xs = norm_orders ys"
  using assms by (simp add: norm_orders_def Let_def)

definition child_orders :: "position_plan \<Rightarrow> (side \<times> int) list" where
  "child_orders plan = map (\<lambda>x. (pl_side x, pl_quantity x)) (pp_orders plan)"

lemma translate_run:
  assumes "0 \<le> t" "t = (case target of Some t \<Rightarrow> t | None \<Rightarrow> dflt)"
  shows "translate dflt sig p target = Inr (case sg_direction sig of FLAT \<Rightarrow> handle_flat sig (pos_quantity p)
    | LONG \<Rightarrow> handle_long sig (pos_quantity p) t | SHORT \<Rightarrow> handle_short sig (pos_quantity p) t)"
  using assms by (simp add: translate_def Let_def split: signal_direction.split)

lemma plan_projects:
  assumes "desired_from_signal sig target dflt = Inr d"
  obtains i where "translate dflt sig p target = Inr i" "order_intent_from_plan (legacy_plan d p) sig p = i"
    "filter (\<lambda>p. 0 < snd p) (legacy_orders (oi_intent i) (oi_target_quantity i) (pos_quantity p))
      = filter (\<lambda>p. 0 < snd p) (child_orders (legacy_plan d p))"
proof -
  obtain t where t: "0 \<le> t" "t = (case target of Some t \<Rightarrow> t | None \<Rightarrow> dflt)"
    and dir: "sg_direction sig = LONG \<Longrightarrow> dp_direction d = 1 \<and> dp_target d = t"
      "sg_direction sig = SHORT \<Longrightarrow> dp_direction d = - 1 \<and> dp_target d = - t"
      "sg_direction sig = FLAT \<Longrightarrow> dp_direction d = 0 \<and> dp_target d = 0"
    using assms by (rule desired_fields) blast
  let ?i = "case sg_direction sig of FLAT \<Rightarrow> handle_flat sig (pos_quantity p)
    | LONG \<Rightarrow> handle_long sig (pos_quantity p) t | SHORT \<Rightarrow> handle_short sig (pos_quantity p) t"
  have long: "order_intent_from_plan (legacy_plan d p) sig p = ?i
      \<and> filter (\<lambda>p. 0 < snd p) (legacy_orders (oi_intent ?i) (oi_target_quantity ?i) (pos_quantity p))
        = filter (\<lambda>p. 0 < snd p) (child_orders (legacy_plan d p))" if "sg_direction sig = LONG"
    using t(1) dir(1)[OF that] that
    by (auto simp: legacy_long Let_def handle_long_def projection_defs child_orders_def legacy_orders_def)
  have short: "order_intent_from_plan (legacy_plan d p) sig p = ?i
      \<and> filter (\<lambda>p. 0 < snd p) (legacy_orders (oi_intent ?i) (oi_target_quantity ?i) (pos_quantity p))
        = filter (\<lambda>p. 0 < snd p) (child_orders (legacy_plan d p))" if "sg_direction sig = SHORT"
    using t(1) dir(2)[OF that] that
    by (auto simp: legacy_short Let_def handle_short_def projection_defs child_orders_def legacy_orders_def)
  have flat: "order_intent_from_plan (legacy_plan d p) sig p = ?i
      \<and> filter (\<lambda>p. 0 < snd p) (legacy_orders (oi_intent ?i) (oi_target_quantity ?i) (pos_quantity p))
        = filter (\<lambda>p. 0 < snd p) (child_orders (legacy_plan d p))" if "sg_direction sig = FLAT"
    using t(1) dir(3)[OF that] that
    by (auto simp: legacy_flat Let_def handle_flat_def projection_defs child_orders_def legacy_orders_def)
  show thesis using that[OF translate_run[OF t]] long short flat by (cases "sg_direction sig") blast+
qed

lemma planner_errors:
  "desired_from_signal sig target dflt = Inl e \<Longrightarrow> translate dflt sig p target = Inl e"
  by (auto simp: desired_from_signal_def translate_def Let_def split: if_splits signal_direction.splits)

text \<open>C11: The planner and the translator agree. For every signal, position, target (or none) and
  default, planning towards the desired position and projecting the plan onto an intent gives
  the translator's intent, with the same error for a negative target; and the comparison of the
  plan's child orders with the intent's never reports a divergence.\<close>

theorem planner_equals_translator:
  "bind_result (desired_from_signal sig target dflt) (\<lambda>d. Inr (order_intent_from_plan (legacy_plan d p) sig p))
      = translate dflt sig p target
   \<and> (case (translate dflt sig p target, desired_from_signal sig target dflt) of
        (Inr i, Inr d) \<Rightarrow> compare_plan_to_intent (oi_intent i) (oi_target_quantity i) (pos_quantity p) (legacy_plan d p) s seq = None
      | (Inl e, Inl e') \<Rightarrow> e = e'
      | _ \<Rightarrow> False)"
proof (cases "desired_from_signal sig target dflt")
  case (Inl e)
  then show ?thesis using planner_errors[OF Inl, of p] by simp
next
  case (Inr d)
  obtain i where i: "translate dflt sig p target = Inr i" "order_intent_from_plan (legacy_plan d p) sig p = i"
    "filter (\<lambda>p. 0 < snd p) (legacy_orders (oi_intent i) (oi_target_quantity i) (pos_quantity p))
      = filter (\<lambda>p. 0 < snd p) (child_orders (legacy_plan d p))"
    by (rule plan_projects[OF Inr])
  from norm_orders_cong[OF i(3)] show ?thesis
    by (simp add: Inr i(1,2) compare_plan_to_intent_def child_orders_def)
qed

subsection \<open>Where a plan leaves the position\<close>

definition signed_quantity :: "side \<Rightarrow> int \<Rightarrow> int" where
  "signed_quantity sd q = (if sd = BUY then q else - q)"

definition plan_effect :: "position_plan \<Rightarrow> int" where
  \<comment> \<open>what the plan's orders add to the position when all of them fill\<close>
  "plan_effect plan = sum_list (map (\<lambda>x. signed_quantity (pl_side x) (pl_quantity x)) (pp_orders plan))"

definition well_sized :: "position_plan \<Rightarrow> bool" where
  "well_sized plan \<longleftrightarrow> (\<forall>x \<in> set (pp_orders plan). 0 < pl_quantity x)"

lemma legacy_effect:
  "pos_quantity p + plan_effect (legacy_plan d p) = legacy_target d (pos_quantity p)" "well_sized (legacy_plan d p)"
  "pp_suppressed (legacy_plan d p) = []"
  by (auto simp: legacy_plan_def Let_def plan_effect_def signed_quantity_def reverse_plan_def planned_def well_sized_def)

definition goal :: "desired_position \<Rightarrow> int" where
  "goal d = effective_direction d * \<bar>dp_target d\<bar>"

lemma legacy_target_between:
  "\<bar>effective_direction d\<bar> \<le> 1 \<Longrightarrow> min cur (goal d) \<le> legacy_target d cur \<and> legacy_target d cur \<le> max cur (goal d)"
proof -
  assume "\<bar>effective_direction d\<bar> \<le> 1"
  then consider "effective_direction d = - 1" | "effective_direction d = 0" | "effective_direction d = 1" by linarith
  then show ?thesis by cases (auto simp: legacy_target_def goal_def)
qed

lemma trim_plan_effect:
  assumes "trim_plan market cfg d cur q = Inr plan" and "cur \<noteq> 0" and "0 < q"
  shows "well_sized plan \<and> (plan_effect plan = - sgn cur * q \<and> pp_suppressed plan = []
    \<or> pp_orders plan = [] \<and> pp_suppressed plan \<noteq> [])"
  using assms
  by (auto simp: trim_plan_def bind_result_Inr_iff Let_def hold_trim_def plan_effect_def signed_quantity_def well_sized_def
      split: if_splits)

lemma target_plan_cases:
  assumes "target_plan fraction d p market config = Inr plan"
  obtains "plan = legacy_plan d p" "config = None \<or> \<not> pc_enable_trim (the config) \<or> effective_direction d = 0
      \<or> sgn (pos_quantity p) \<noteq> effective_direction d \<or> \<bar>pos_quantity p\<bar> \<le> \<bar>dp_target d\<bar>"
  | "effective_direction d = sgn (pos_quantity p)" "pos_quantity p \<noteq> 0" "\<bar>dp_target d\<bar> < \<bar>pos_quantity p\<bar>"
    "well_sized plan" "pos_quantity p + plan_effect plan = goal d \<and> pp_suppressed plan = [] \<or> pp_orders plan = [] \<and> pp_suppressed plan \<noteq> []"
proof (cases "config = None \<or> \<not> pc_enable_trim (the config) \<or> effective_direction d = 0
      \<or> sgn (pos_quantity p) \<noteq> effective_direction d \<or> \<bar>pos_quantity p\<bar> \<le> \<bar>dp_target d\<bar>")
  case True
  then have "plan = legacy_plan d p" using assms by (auto simp: target_plan_def Let_def split: option.splits)
  then show thesis using that(1) True by blast
next
  case False
  then obtain cfg where c: "config = Some cfg" "pc_enable_trim cfg" by auto
  have cur: "pos_quantity p \<noteq> 0" "effective_direction d = sgn (pos_quantity p)" "\<bar>dp_target d\<bar> < \<bar>pos_quantity p\<bar>" using False by auto
  have full: "pos_quantity p + - sgn (pos_quantity p) * (\<bar>pos_quantity p\<bar> - \<bar>dp_target d\<bar>) = goal d"
    by (simp add: goal_def cur(2) right_diff_distrib sgn_mult_abs)
  have q: "0 < \<bar>pos_quantity p\<bar> - \<bar>dp_target d\<bar>" using cur(3) by simp
  show thesis
  proof (cases "\<bar>pos_quantity p\<bar> - \<bar>dp_target d\<bar> < trim_threshold fraction (pos_quantity p)")
    case True
    then have "pp_orders plan = []" "pp_suppressed plan \<noteq> []"
      using assms False c by (auto simp: target_plan_def Let_def hold_trim_def)
    then show thesis using that(2) cur by (simp add: well_sized_def)
  next
    case small: False
    then have "trim_plan market cfg d (pos_quantity p) (\<bar>pos_quantity p\<bar> - \<bar>dp_target d\<bar>) = Inr plan"
      using assms False c by (simp add: target_plan_def Let_def)
    from trim_plan_effect[OF this cur(1) q] show thesis using that(2) cur full by auto
  qed
qed

text \<open>A plan goes to the target and never past it. Whatever the market, costs and settings, a
  plan's orders have positive sizes and, when all of them fill, leave the position between
  where it was and the desired one. A desired position without a direction (every exit) is
  always reached: the plan flattens, nothing is suppressed. A plan that suppressed a leg has no
  order at all, and it does so for a shrink of a position on the desired side only.\<close>

theorem plan_never_overshoots:
  assumes "target_plan fraction d p market config = Inr plan" and "\<bar>dp_direction d\<bar> \<le> 1"
  shows "well_sized plan
    \<and> (let post = pos_quantity p + plan_effect plan in
        min (pos_quantity p) (goal d) \<le> post \<and> post \<le> max (pos_quantity p) (goal d)
        \<and> (effective_direction d = 0 \<longrightarrow> post = 0 \<and> pp_suppressed plan = [])
        \<and> (pp_suppressed plan \<noteq> [] \<longrightarrow> pp_orders plan = [] \<and> sgn (pos_quantity p) = effective_direction d
             \<and> \<bar>dp_target d\<bar> < \<bar>pos_quantity p\<bar>))"
proof -
  have d: "\<bar>effective_direction d\<bar> \<le> 1" using assms(2) by (simp add: effective_direction_def)
  from assms(1) show ?thesis
  proof (cases rule: target_plan_cases)
    case 1
    then show ?thesis using legacy_effect[where p = p and d = d] legacy_target_between[OF d, of "pos_quantity p"]
      by (simp add: Let_def legacy_target_def)
  next
    case 2
    then have "effective_direction d \<noteq> 0" by (simp add: sgn_0_0)
    then show ?thesis using 2 by (auto simp: plan_effect_def Let_def)
  qed
qed

lemma plan_never_overshoots_witness:
  "\<exists>plan. target_plan (1/2) \<lparr>dp_symbol = ''X'', dp_target = 40, dp_direction = 1, dp_edge_bps = 5, dp_urgency = 1/2,
        dp_source = ''a'', dp_reason = ''signal''\<rparr> (flat_position ''X''\<lparr>pos_quantity := 100\<rparr>) None
        (Some \<lparr>pc_enable_trim = True, pc_trim_edge_gate = 0, pc_urgency_exec = False\<rparr>) = Inr plan
     \<and> 100 + plan_effect plan = 40 \<and> well_sized plan"
proof -
  let ?d = "\<lparr>dp_symbol = ''X'', dp_target = 40, dp_direction = 1, dp_edge_bps = 5, dp_urgency = 1/2, dp_source = ''a'', dp_reason = ''signal''\<rparr>"
  let ?p = "flat_position ''X''\<lparr>pos_quantity := 100\<rparr>"
  let ?cfg = "\<lparr>pc_enable_trim = True, pc_trim_edge_gate = 0, pc_urgency_exec = False\<rparr>"
  have "trim_threshold (1/2) 100 = 50"
    using fl_of_int_exact[of 100] fl_of_int_exact[of 50] by (simp add: trim_threshold_def fl_mul_def)
  then obtain plan where plan: "target_plan (1/2) ?d ?p None (Some ?cfg) = Inr plan" "plan_effect plan = - 60"
    by (simp add: target_plan_def trim_plan_def effective_direction_def flat_position_def plan_effect_def signed_quantity_def)
  then show ?thesis using plan_never_overshoots[OF plan(1)] by (auto simp: Let_def)
qed

end
