(* ===== verification/Admission.thy ===== *)
theory Admission
  imports Planning
begin

section \<open>Admission of orders (core/order\_admission.py)\<close>

text \<open>
  The gates that decide whether an order may be submitted at all, and the two questions they
  ask: does the order add exposure, does it add short exposure. Both are answered from the
  book, and the theorems relate them to the intents of the translator. The notification that
  \<open>record_verdict\<close> appends for every verdict is left out.
\<close>

record exposure_delta =
  xd_current :: int
  xd_signed :: int

definition post_quantity :: "exposure_delta \<Rightarrow> int" where
  "post_quantity x = xd_current x + xd_signed x"

definition opens_or_increases_exposure :: "exposure_delta \<Rightarrow> bool" where
  "opens_or_increases_exposure x \<longleftrightarrow>
     (if xd_current x * post_quantity x < 0 then True else \<bar>xd_current x\<bar> < \<bar>post_quantity x\<bar>)"

definition opens_or_increases_short :: "exposure_delta \<Rightarrow> bool" where
  "opens_or_increases_short x \<longleftrightarrow> post_quantity x < min (xd_current x) 0"

definition side_for_intent :: "order_intent \<Rightarrow> side result" where
  "side_for_intent i =
     (let kind = oi_intent i in
      if kind = ENTRY_LONG \<or> kind = REVERSE_SHORT_TO_LONG then Inr BUY
      else if kind = ENTRY_SHORT \<or> kind = REVERSE_LONG_TO_SHORT then Inr SELL
      else if kind = EXIT then Inr (if 0 < oi_current_quantity i then SELL else BUY)
      else if kind = SCALE_UP then Inr (if 0 \<le> oi_current_quantity i then BUY else SELL)
      else Inl (ValueError ''side''))"

definition exposure_delta_from_intent :: "order_intent \<Rightarrow> exposure_delta result" where
  "exposure_delta_from_intent i =
     bind_result (side_for_intent i) (\<lambda>sd.
       Inr \<lparr>xd_current = oi_current_quantity i,
            xd_signed = (if sd = BUY then oi_target_quantity i else - oi_target_quantity i)\<rparr>)"

definition blocks_for_min_size :: "int \<Rightarrow> int \<Rightarrow> bool \<Rightarrow> bool" where
  "blocks_for_min_size quantity min_shares exempt \<longleftrightarrow> (if exempt then False else quantity < min_shares)"

datatype block_reason = HALT_BLACKOUT | SESSION_FLATTEN_WINDOW | SSR | LOCATE_UNAVAILABLE | BELOW_MIN_ORDER_SHARES
  | EDGE_BELOW_COST | EDGE_UNPRICEABLE

record admission_env =
  ae_halt_blackout :: bool
  ae_session_flatten :: bool
  ae_ssr_active :: bool
  ae_locate_unavailable :: bool

definition admission_block_reason ::
  "bool \<Rightarrow> bool \<Rightarrow> admission_env \<Rightarrow> int option \<Rightarrow> int \<Rightarrow> bool \<Rightarrow> block_reason option" where
  "admission_block_reason opens_exposure opens_short env quantity min_shares exempt =
     (if opens_exposure \<and> ae_halt_blackout env then Some HALT_BLACKOUT
      else if opens_exposure \<and> ae_session_flatten env then Some SESSION_FLATTEN_WINDOW
      else if opens_short \<and> ae_ssr_active env then Some SSR
      else if opens_short \<and> ae_locate_unavailable env then Some LOCATE_UNAVAILABLE
      else case quantity of
          Some q \<Rightarrow> if blocks_for_min_size q min_shares exempt then Some BELOW_MIN_ORDER_SHARES else None
        | None \<Rightarrow> None)"

subsection \<open>A reduction is always admitted\<close>

definition reduces :: "int \<Rightarrow> int \<Rightarrow> bool" where
  \<comment> \<open>from one position to another without crossing zero or growing\<close>
  "reduces a b \<longleftrightarrow> min a 0 \<le> b \<and> b \<le> max a 0"

lemma opens_iff: "opens_or_increases_exposure x \<longleftrightarrow> \<not> reduces (xd_current x) (post_quantity x)"
  by (auto simp: opens_or_increases_exposure_def reduces_def mult_less_0_iff)

lemma short_opens: "opens_or_increases_short x \<Longrightarrow> opens_or_increases_exposure x"
  by (auto simp: opens_iff opens_or_increases_short_def reduces_def)

definition wanted_position :: "int \<Rightarrow> signal \<Rightarrow> int option \<Rightarrow> int" where
  \<comment> \<open>the signed position a signal asks for\<close>
  "wanted_position dflt sig target =
     (let tgt = (case target of Some t \<Rightarrow> t | None \<Rightarrow> dflt)
      in case sg_direction sig of LONG \<Rightarrow> tgt | SHORT \<Rightarrow> - tgt | FLAT \<Rightarrow> 0)"

lemma translated_delta:
  assumes "translate dflt sig p target = Inr i" and "oi_intent i \<noteq> NO_ACTION"
  obtains x where "exposure_delta_from_intent i = Inr x" "xd_current x = pos_quantity p"
    "post_quantity x = wanted_position dflt sig target"
    "\<not> reduces (pos_quantity p) (wanted_position dflt sig target) \<or> wanted_position dflt sig target = 0"
    "wanted_position dflt sig target < min (pos_quantity p) 0 \<or> 0 \<le> wanted_position dflt sig target"
proof (cases "sg_direction sig")
  case LONG
  then show thesis using assms that[of "\<lparr>xd_current = pos_quantity p, xd_signed = oi_target_quantity i\<rparr>"]
    by (auto simp: translate_def wanted_position_def handle_long_def intent_of_def exposure_delta_from_intent_def
        side_for_intent_def post_quantity_def reduces_def Let_def split: if_splits)
next
  case SHORT
  then show thesis using assms that[of "\<lparr>xd_current = pos_quantity p, xd_signed = - oi_target_quantity i\<rparr>"]
      linorder_less_linear[of "case target of Some t \<Rightarrow> t | None \<Rightarrow> dflt" 0]
    by (auto simp: translate_def wanted_position_def handle_short_def intent_of_def exposure_delta_from_intent_def
        side_for_intent_def post_quantity_def reduces_def Let_def split: if_splits)
next
  case FLAT
  then show thesis using assms that[of "\<lparr>xd_current = pos_quantity p, xd_signed = - pos_quantity p\<rparr>"]
    by (auto simp: translate_def wanted_position_def handle_flat_def intent_of_def exposure_delta_from_intent_def
        side_for_intent_def post_quantity_def reduces_def Let_def split: if_splits)
qed

text \<open>The admission gates read an intent's effect off the book. For every intent the translator
  produces except NO_ACTION, the exposure delta is defined and ends at the signed target the
  signal asked for (its direction times the target quantity, or zero for FLAT). It counts as
  adding exposure unless it only reduces, so that an exit, and a reversal whose target is zero,
  passes every gate whatever the environment; and it counts as adding short exposure exactly
  when the signal is SHORT and its target is beyond the position.\<close>

theorem translated_intent_admission:
  assumes "translate dflt sig p target = Inr i" and "oi_intent i \<noteq> NO_ACTION"
  shows "\<exists>x. exposure_delta_from_intent i = Inr x \<and> xd_current x = pos_quantity p
    \<and> post_quantity x = wanted_position dflt sig target
    \<and> opens_or_increases_exposure x = (wanted_position dflt sig target \<noteq> 0)
    \<and> opens_or_increases_short x = (wanted_position dflt sig target < 0)
    \<and> (wanted_position dflt sig target = 0 \<longrightarrow>
        (\<forall>env q min_shares. admission_block_reason (opens_or_increases_exposure x) (opens_or_increases_short x) env q min_shares True = None))"
proof -
  obtain x where x: "exposure_delta_from_intent i = Inr x" "xd_current x = pos_quantity p"
    "post_quantity x = wanted_position dflt sig target"
    "\<not> reduces (pos_quantity p) (wanted_position dflt sig target) \<or> wanted_position dflt sig target = 0"
    "wanted_position dflt sig target < min (pos_quantity p) 0 \<or> 0 \<le> wanted_position dflt sig target"
    by (rule translated_delta[OF assms])
  have "opens_or_increases_exposure x = (wanted_position dflt sig target \<noteq> 0)"
    using x(2-4) by (auto simp: opens_iff) (auto simp: reduces_def)
  moreover have "opens_or_increases_short x = (wanted_position dflt sig target < 0)"
    using x(2,3,5) by (auto simp: opens_or_increases_short_def)
  ultimately show ?thesis using x(1-3)
    by (auto simp: admission_block_reason_def blocks_for_min_size_def split: option.split)
qed

definition sample_signal :: "signal_direction \<Rightarrow> signal" where
  "sample_signal dir = \<lparr>ev_timestamp = 1, ev_correlation = ''c'', ev_sequence = 1, ev_source_layer = ''SIGNAL'',
     ev_schema_version = schema_version, sg_symbol = ''X'', sg_strategy = ''a'', sg_direction = dir, sg_strength = 1,
     sg_edge_bps = 5, sg_disclosed_cost_bps = 1, sg_disclosed_margin = 2, sg_metadata = [], sg_layer = ''SIGNAL'',
     sg_horizon_seconds = 120, sg_gate_state = ''ON'', sg_consumed_features = [], sg_mechanism = None, sg_half_life_seconds = 0\<rparr>"

lemma translated_intent_witness:
  "\<exists>i x. translate 100 (sample_signal SHORT) (flat_position ''X''\<lparr>pos_quantity := 30\<rparr>) (Some 0) = Inr i
    \<and> oi_intent i = REVERSE_LONG_TO_SHORT \<and> exposure_delta_from_intent i = Inr x \<and> \<not> opens_or_increases_exposure x"
proof -
  let ?p = "flat_position ''X''\<lparr>pos_quantity := 30\<rparr>"
  have run: "translate 100 (sample_signal SHORT) ?p (Some 0) = Inr (intent_of (sample_signal SHORT) 30 REVERSE_LONG_TO_SHORT 30)"
    by (simp add: translate_def sample_signal_def handle_short_def flat_position_def)
  have "wanted_position 100 (sample_signal SHORT) (Some 0) = 0" by (simp add: wanted_position_def sample_signal_def)
  then show ?thesis using run translated_intent_admission[OF run] by (simp add: intent_of_def) blast
qed

end
