(* ===== verification/Sizing.thy ===== *)
theory Sizing
  imports Admission "HOL-Library.Multiset"
begin

section \<open>Sizing and netting (core/position\_sizer.py, risk/edge\_weighted\_sizer.py, core/portfolio\_netter.py)\<close>

text \<open>
  The share target of a signal: the risk budget scaled by conviction and regime, optionally
  tilted by edge, volatility and inventory, and the netting of the standing targets of several
  strategies into one desired position. The published regime states come from a cache
  (services/regime\_state\_cache.py). Posteriors are finite floats, so the guard against a
  non-finite expected scale never fires in the model.
\<close>

subsection \<open>Python's \<open>sum\<close> over floats\<close>

fun compensated :: "float64 list \<Rightarrow> float64 \<Rightarrow> float64 \<Rightarrow> float64" where
  \<comment> \<open>Neumaier's summation, as CPython's \<open>sum\<close> adds floats since 3.12\<close>
  "compensated [] acc c = (if c \<noteq> 0 then fl_add acc c else acc)"
| "compensated (x # xs) acc c =
     (let t = fl_add acc x
      in compensated xs t (if \<bar>x\<bar> \<le> \<bar>acc\<bar> then fl_add c (fl_add (fl_sub acc t) x)
                           else fl_add c (fl_add (fl_sub x t) acc)))"

fun py_sum :: "float64 list \<Rightarrow> float64" where
  "py_sum [] = 0"
| "py_sum (x # xs) = compensated xs (fl_round x) 0"

definition trunc :: "rat \<Rightarrow> int" where
  \<comment> \<open>\<open>int(x)\<close>\<close>
  "trunc x = (if 0 \<le> x then \<lfloor>x\<rfloor> else \<lceil>x\<rceil>)"

definition py_clamp :: "rat \<Rightarrow> rat \<Rightarrow> rat \<Rightarrow> rat" where
  "py_clamp x lo hi = max lo (min hi x)"

subsection \<open>Published regime states\<close>

type_synonym regime_cache = "((symbol \<times> string) \<times> regime_state) list"

definition rc_record :: "regime_state \<Rightarrow> regime_cache \<Rightarrow> regime_cache" where
  "rc_record e c = dict_set (rs_symbol e, rs_engine e) e c"

definition rc_for_engine :: "symbol \<Rightarrow> string \<Rightarrow> regime_cache \<Rightarrow> regime_state option" where
  "rc_for_engine s engine c = map_of c (s, engine)"

definition newer :: "regime_state option \<Rightarrow> regime_state \<Rightarrow> regime_state option" where
  "newer best st = (case best of None \<Rightarrow> Some st | Some b \<Rightarrow> if ev_timestamp b < ev_timestamp st then Some st else best)"

definition rc_latest :: "symbol \<Rightarrow> regime_cache \<Rightarrow> regime_state option" where
  "rc_latest s c = fold (\<lambda>((sym, _), st) best. if sym \<noteq> s then best else newer best st) c None"

definition rc_forget :: "symbol \<Rightarrow> regime_cache \<Rightarrow> regime_cache" where
  "rc_forget s c = filter (\<lambda>(k, _). fst k \<noteq> s) c"

subsection \<open>The budget-based sizer\<close>

record risk_budget =
  rb_max_position :: int
  rb_max_gross_exposure_pct :: float64
  rb_max_drawdown_pct :: float64
  rb_capital_allocation_pct :: float64

record budget_sizer =
  bz_regimes :: "regime_cache option"
  bz_factors :: "(string \<times> float64) list"

definition default_regime_factors :: "(string \<times> float64) list" where
  "default_regime_factors = [(''vol_breakout'', 1/2), (''compression_clustering'', 3/4), (''normal'', 1)]"

definition budget_sizer_new :: "regime_cache option \<Rightarrow> (string \<times> float64) list \<Rightarrow> budget_sizer" where
  "budget_sizer_new regimes factors =
     \<lparr>bz_regimes = regimes, bz_factors = (if factors = [] then default_regime_factors else factors)\<rparr>"

definition regime_factor_default :: "budget_sizer \<Rightarrow> float64" where
  "regime_factor_default z = (case map snd (bz_factors z) of [] \<Rightarrow> 1 | x # xs \<Rightarrow> fold min xs x)"

definition regime_factor :: "budget_sizer \<Rightarrow> symbol \<Rightarrow> float64 result" where
  "regime_factor z s =
     (case bz_regimes z of
        None \<Rightarrow> Inr 1
      | Some c \<Rightarrow> (case rc_latest s c of
            None \<Rightarrow> Inr (regime_factor_default z)
          | Some st \<Rightarrow>
              if rs_posteriors st = [] then Inr (regime_factor_default z)
              else if length (rs_state_names st) < length (rs_posteriors st) then Inl IndexError
              else let scale = (\<lambda>name. case map_of (bz_factors z) name of Some f \<Rightarrow> f | None \<Rightarrow> regime_factor_default z)
                   in Inr (min 1 (py_sum (map (\<lambda>(p, name). fl_mul p (scale name)) (zip (rs_posteriors st) (rs_state_names st)))))))"

definition allocated_capital :: "risk_budget \<Rightarrow> decimal \<Rightarrow> decimal" where
  "allocated_capital rb equity = dec_div (dec_mul equity (decimal_of_repr (rb_capital_allocation_pct rb))) 100"

definition budget_target :: "budget_sizer \<Rightarrow> signal \<Rightarrow> risk_budget \<Rightarrow> decimal \<Rightarrow> decimal \<Rightarrow> int result" where
  "budget_target z sig rb price equity =
     (if price \<le> 0 \<or> equity \<le> 0 then Inr 0
      else let strength = min 1 (max 0 (sg_strength sig));
               conviction = dec_mul (allocated_capital rb equity) (decimal_of_repr strength)
           in bind_result (regime_factor z (sg_symbol sig)) (\<lambda>factor.
                let sized = dec_mul conviction (decimal_of_repr factor);
                    shares = trunc (dec_div sized price)
                in Inr (max 0 (min shares (rb_max_position rb)))))"

subsection \<open>Tilts\<close>

record tilt_config =
  tl_edge_enabled :: bool
  tl_edge_ref :: float64
  tl_edge_floor :: float64
  tl_edge_cap :: float64
  tl_vol_enabled :: bool
  tl_vol_target :: float64
  tl_vol_floor :: float64
  tl_vol_cap :: float64
  tl_inventory_enabled :: bool
  tl_inventory_floor :: float64
  tl_floor :: float64
  tl_cap :: float64

record tilt_breakdown =
  tb_edge :: float64
  tb_vol :: float64
  tb_inventory :: float64
  tb_combined :: float64
  tb_inventory_qty :: int
  tb_realized_vol :: "float64 option"

definition any_tilt :: "tilt_config \<Rightarrow> bool" where
  "any_tilt c \<longleftrightarrow> tl_edge_enabled c \<or> tl_vol_enabled c \<or> tl_inventory_enabled c"

definition edge_factor :: "float64 \<Rightarrow> float64 \<Rightarrow> float64 \<Rightarrow> float64 \<Rightarrow> float64" where
  "edge_factor edge ref lo hi = (if ref \<le> 0 then 1 else py_clamp (fl_div edge ref) lo hi)"

definition vol_factor :: "float64 option \<Rightarrow> float64 \<Rightarrow> float64 \<Rightarrow> float64 \<Rightarrow> float64" where
  "vol_factor vol target lo hi =
     (case vol of None \<Rightarrow> 1 | Some v \<Rightarrow> if v \<le> 0 \<or> target \<le> 0 then 1 else py_clamp (fl_div target v) lo hi)"

definition inventory_factor :: "int \<Rightarrow> int \<Rightarrow> float64 \<Rightarrow> float64" where
  "inventory_factor current max_position lo =
     (if max_position \<le> 0 then 1
      else py_clamp (fl_sub 1 (fl_round (of_int \<bar>current\<bar> / of_int max_position))) lo 1)"

record tilt_sizer =
  tz_base :: budget_sizer
  tz_config :: tilt_config
  tz_vol :: "(symbol \<Rightarrow> float64 option) option"
  tz_inventory :: "(symbol \<Rightarrow> int) option"

definition tilt_breakdown_of :: "tilt_sizer \<Rightarrow> signal \<Rightarrow> risk_budget \<Rightarrow> tilt_breakdown" where
  "tilt_breakdown_of z sig rb =
     (let c = tz_config z in
      if \<not> any_tilt c \<or> sg_direction sig = FLAT
      then \<lparr>tb_edge = 1, tb_vol = 1, tb_inventory = 1, tb_combined = 1, tb_inventory_qty = 0, tb_realized_vol = None\<rparr>
      else let ef = (if tl_edge_enabled c \<and> 0 < sg_edge_bps sig
                     then edge_factor (sg_edge_bps sig) (tl_edge_ref c) (tl_edge_floor c) (tl_edge_cap c) else 1);
               rv = (if tl_vol_enabled c then (case tz_vol z of Some f \<Rightarrow> f (sg_symbol sig) | None \<Rightarrow> None) else None);
               vf = (if tl_vol_enabled c then vol_factor rv (tl_vol_target c) (tl_vol_floor c) (tl_vol_cap c) else 1);
               inv = (if tl_inventory_enabled c then (case tz_inventory z of Some f \<Rightarrow> f (sg_symbol sig) | None \<Rightarrow> 0) else 0);
               invf = (if tl_inventory_enabled c then inventory_factor inv (rb_max_position rb) (tl_inventory_floor c) else 1)
           in \<lparr>tb_edge = ef, tb_vol = vf, tb_inventory = invf,
               tb_combined = py_clamp (fl_mul (fl_mul ef vf) invf) (tl_floor c) (tl_cap c),
               tb_inventory_qty = inv, tb_realized_vol = rv\<rparr>)"

definition apply_tilt :: "int \<Rightarrow> float64 \<Rightarrow> int \<Rightarrow> int" where
  "apply_tilt base tilt max_position = max 0 (min (trunc (dec_mul (of_int base) (decimal_of_repr tilt))) max_position)"

definition tilted_target :: "tilt_sizer \<Rightarrow> signal \<Rightarrow> risk_budget \<Rightarrow> decimal \<Rightarrow> decimal \<Rightarrow> int result" where
  "tilted_target z sig rb price equity =
     bind_result (budget_target (tz_base z) sig rb price equity) (\<lambda>base.
       if base \<le> 0 \<or> \<not> any_tilt (tz_config z) then Inr base
       else Inr (apply_tilt base (tb_combined (tilt_breakdown_of z sig rb)) (rb_max_position rb)))"

definition compute_target_quantity ::
  "(strategy \<Rightarrow> risk_budget option) option \<Rightarrow> (signal \<Rightarrow> risk_budget \<Rightarrow> decimal \<Rightarrow> decimal \<Rightarrow> int result) \<Rightarrow> decimal
    \<Rightarrow> signal \<Rightarrow> nbbo_quote \<Rightarrow> int option result" where
  \<comment> \<open>the first argument is the alpha registry, the second the configured sizer, the third the account equity\<close>
  "compute_target_quantity registry sizer equity sig q =
     (case registry of
        None \<Rightarrow> Inr None
      | Some budget_of \<Rightarrow> (case budget_of (sg_strategy sig) of
            None \<Rightarrow> Inr None
          | Some rb \<Rightarrow>
              let mid = dec_div (dec_add (nq_bid q) (nq_ask q)) 2
              in if mid \<le> 0 then Inr (Some 0) else bind_result (sizer sig rb mid equity) (\<lambda>n. Inr (Some n))))"

definition compose_scaled_quantity :: "int \<Rightarrow> float64 list \<Rightarrow> int" where
  \<comment> \<open>the factors are not empty\<close>
  "compose_scaled_quantity base factors =
     (case map (\<lambda>f. max 0 (min 1 f)) factors of
        [] \<Rightarrow> base
      | x # xs \<Rightarrow> half_even (fl_mul (num base) (fold min xs x)))"

subsection \<open>Standing targets and their net\<close>

record standing_target =
  tg_strategy :: strategy
  tg_symbol :: symbol
  tg_target :: int
  tg_edge_bps :: float64
  tg_urgency :: float64
  tg_max_abs :: "int option"
  tg_expiry :: "ns option"

definition standing_target_from_desired :: "desired_position \<Rightarrow> strategy \<Rightarrow> ns \<Rightarrow> int \<Rightarrow> float64 \<Rightarrow> int option \<Rightarrow> standing_target" where
  "standing_target_from_desired d strat ts horizon k max_abs =
     \<lparr>tg_strategy = strat, tg_symbol = dp_symbol d, tg_target = dp_target d, tg_edge_bps = dp_edge_bps d,
      tg_urgency = dp_urgency d, tg_max_abs = max_abs,
      tg_expiry = (if 0 < horizon \<and> 0 < k then Some (ts + trunc (fl_mul (fl_mul k (num horizon)) (num 1000000000))) else None)\<rparr>"

definition int_clamp :: "int \<Rightarrow> int \<Rightarrow> int" where
  "int_clamp x limit = max (- limit) (min limit x)"

definition is_stale :: "standing_target \<Rightarrow> ns \<Rightarrow> bool" where
  "is_stale t now \<longleftrightarrow> (case tg_expiry t of None \<Rightarrow> False | Some e \<Rightarrow> e < now)"

type_synonym target_book = "((strategy \<times> symbol) \<times> standing_target) list"

definition tbk_put :: "standing_target \<Rightarrow> target_book \<Rightarrow> target_book" where
  "tbk_put t b = dict_set (tg_strategy t, tg_symbol t) t b"

definition tbk_clear :: "strategy \<Rightarrow> symbol \<Rightarrow> target_book \<Rightarrow> target_book" where
  "tbk_clear strat s b = dict_pop (strat, s) b"

definition tbk_get :: "strategy \<Rightarrow> symbol \<Rightarrow> target_book \<Rightarrow> standing_target option" where
  "tbk_get strat s b = map_of b (strat, s)"

definition live_targets :: "symbol \<Rightarrow> ns \<Rightarrow> target_book \<Rightarrow> standing_target list" where
  "live_targets s now b =
     sort_key tg_strategy (map snd (filter (\<lambda>((_, sym), t). sym = s \<and> \<not> is_stale t now) b))"

definition clamped_target :: "standing_target \<Rightarrow> int" where
  "clamped_target t = (case tg_max_abs t of Some m \<Rightarrow> int_clamp (tg_target t) m | None \<Rightarrow> tg_target t)"

definition net_quantity_of :: "int option \<Rightarrow> standing_target list \<Rightarrow> int" where
  "net_quantity_of cap live =
     (let s = sum_list (map clamped_target live) in case cap of Some m \<Rightarrow> int_clamp s m | None \<Rightarrow> s)"

definition net_target :: "int option \<Rightarrow> target_book \<Rightarrow> symbol \<Rightarrow> ns \<Rightarrow> desired_position" where
  "net_target cap b s now =
     (let live = live_targets s now b;
          net = net_quantity_of cap live;
          aligned = filter (\<lambda>t. clamped_target t \<noteq> 0 \<and> (0 < clamped_target t) = (0 < net) \<and> net \<noteq> 0) live;
          weight = sum_list (map (\<lambda>t. \<bar>clamped_target t\<bar>) aligned);
          edge = (if 0 < weight
                  then fl_div (py_sum (map (\<lambda>t. fl_mul (tg_edge_bps t) (num \<bar>clamped_target t\<bar>)) aligned)) (num weight) else 0)
      in \<lparr>dp_symbol = s, dp_target = net, dp_direction = sgn net, dp_edge_bps = edge,
          dp_urgency = (case map tg_urgency aligned of [] \<Rightarrow> 1/2 | u # us \<Rightarrow> fold max us u),
          dp_source = ''portfolio_net'', dp_reason = ''netted''\<rparr>)"

subsection \<open>The net does not depend on the order of the book\<close>

definition book_keyed :: "target_book \<Rightarrow> bool" where
  "book_keyed b \<longleftrightarrow> distinct (map fst b) \<and> (\<forall>(k, t) \<in> set b. k = (tg_strategy t, tg_symbol t))"

datatype book_op = Put standing_target | Clear strategy symbol

definition book_step :: "book_op \<Rightarrow> target_book \<Rightarrow> target_book" where
  "book_step x b = (case x of Put t \<Rightarrow> tbk_put t b | Clear a s \<Rightarrow> tbk_clear a s b)"

lemma book_keyed_run: "book_keyed (fold book_step xs [])"
proof (induction xs rule: rev_induct)
  case (snoc x xs)
  then show ?case
    by (cases x) (auto simp: book_keyed_def book_step_def tbk_put_def tbk_clear_def set_dict_pop dest!: set_dict_set_cases)
qed (simp add: book_keyed_def)

lemma live_targets_order:
  assumes "map_of b = map_of b'" "book_keyed b" "book_keyed b'"
  shows "live_targets s now b = live_targets s now b'"
proof -
  let ?P = "\<lambda>((_, sym), t). sym = s \<and> \<not> is_stale t now"
  have d: "distinct (map fst b)" "distinct (map fst b')" using assms(2,3) by (simp_all add: book_keyed_def)
  then have "set b = set b'" using map_of_inject_set[OF d] assms(1) by blast
  moreover have "distinct b" "distinct b'" using d by (simp_all add: distinct_map)
  ultimately have "mset b = mset b'" using set_eq_iff_mset_eq_distinct by blast
  then have m: "mset (map snd (filter ?P b)) = mset (map snd (filter ?P b'))" by simp
  have "t = u" if "((a, s), t) \<in> set b" "((a', s), u) \<in> set b" "tg_strategy t = tg_strategy u" for a a' t u
  proof -
    have key: "k = (tg_strategy x, tg_symbol x)" if "(k, x) \<in> set b" for k x
      using assms(2) that unfolding book_keyed_def by blast
    have "a = a'" using key[OF that(1)] key[OF that(2)] that(3) by simp
    then show ?thesis using d(1) that(1,2) by (meson eq_key_imp_eq_value)
  qed
  then have "inj_on tg_strategy (set (map snd (filter ?P b)))" by (auto simp: inj_on_def)
  from sort_key_inj_key_eq[OF _ this, of "sort_key tg_strategy (map snd (filter ?P b'))"] m show ?thesis
    unfolding live_targets_def by simp
qed

lemma int_clamp_bound: "0 \<le> m \<Longrightarrow> \<bar>int_clamp x m\<bar> \<le> m"
  by (auto simp: int_clamp_def)

text \<open>Netting is a function of the standing targets, not of the order they came in. Two
  histories of puts and clears that leave the same targets give the same net desired position
  for every symbol, time and cap: quantity, direction, edge and urgency. The net stays within
  the portfolio cap, and a strategy whose target went stale has no part in it.\<close>

theorem net_order_independent:
  assumes "map_of (fold book_step xs []) = map_of (fold book_step ys [])"
  shows "net_target cap (fold book_step xs []) s now = net_target cap (fold book_step ys []) s now
    \<and> (\<forall>m. cap = Some m \<and> 0 \<le> m \<longrightarrow> \<bar>dp_target (net_target cap (fold book_step xs []) s now)\<bar> \<le> m)
    \<and> net_target cap (fold book_step xs []) s now
      = net_target cap (filter (\<lambda>(_, t). tg_symbol t = s \<and> \<not> is_stale t now) (fold book_step xs [])) s now"
proof -
  have "live_targets s now (fold book_step xs []) = live_targets s now (fold book_step ys [])"
    by (rule live_targets_order[OF assms book_keyed_run book_keyed_run])
  moreover have "live_targets s now (filter (\<lambda>(_, t). tg_symbol t = s \<and> \<not> is_stale t now) (fold book_step xs []))
      = live_targets s now (fold book_step xs [])"
    using book_keyed_run[of xs] unfolding live_targets_def filter_filter
    by (intro arg_cong[where f = "\<lambda>b. sort_key tg_strategy (map snd b)"] filter_cong)
      (auto simp: book_keyed_def)
  ultimately show ?thesis by (auto simp: net_target_def Let_def net_quantity_of_def int_clamp_bound)
qed

lemma net_order_independent_witness:
  "let t = (\<lambda>a q. \<lparr>tg_strategy = a, tg_symbol = ''X'', tg_target = q, tg_edge_bps = 0, tg_urgency = 1/2, tg_max_abs = None, tg_expiry = None\<rparr>);
       xs = [Put (t ''a'' 5), Put (t ''b'' 7)]; ys = [Put (t ''b'' 7), Clear ''c'' ''X'', Put (t ''a'' 5)]
   in fold book_step xs [] \<noteq> fold book_step ys []
      \<and> net_target (Some 10) (fold book_step xs []) ''X'' 3 = net_target (Some 10) (fold book_step ys []) ''X'' 3"
proof -
  define t where "t = (\<lambda>a q. \<lparr>tg_strategy = a, tg_symbol = ''X'', tg_target = q, tg_edge_bps = 0, tg_urgency = 1/2, tg_max_abs = None, tg_expiry = None\<rparr>)"
  let ?xs = "[Put (t ''a'' 5), Put (t ''b'' 7)]" and ?ys = "[Put (t ''b'' 7), Clear ''c'' ''X'', Put (t ''a'' 5)]"
  have "map_of (fold book_step ?xs []) = map_of (fold book_step ?ys [])" "fold book_step ?xs [] \<noteq> fold book_step ?ys []"
    by (auto simp: book_step_def tbk_put_def tbk_clear_def dict_pop_def t_def)
  then show ?thesis using net_order_independent[of ?xs ?ys "Some 10" "''X''" 3] by (simp add: t_def Let_def)
qed

subsection \<open>A size never exceeds the budget\<close>

lemma decimal_of_repr_cases: "decimal_of_repr x = x \<or> fl_round (decimal_of_repr x) = x"
proof -
  have pick: "fold (\<lambda>d best. if \<bar>d - x\<bar> < \<bar>best - x\<bar> then d else best) ds c \<in> set (c # ds)" for ds c
    by (induction ds arbitrary: c) auto
  have "cs \<in> set (map (repr_candidates x) ps) \<Longrightarrow> \<forall>c \<in> set cs. fl_round c = x" for cs ps
    by (auto simp: repr_candidates_def Let_def split: if_splits)
  then have first: "filter (\<lambda>cs. cs \<noteq> []) (map (repr_candidates x) ps) = cs # more \<Longrightarrow> \<forall>c \<in> set cs. fl_round c = x" for cs more ps
    by (metis filter_eq_ConsD in_set_conv_decomp)
  define L where "L = filter (\<lambda>cs. cs \<noteq> []) (map (repr_candidates x) [1..<18])"
  have run: "decimal_of_repr x = (if x = 0 then 0 else case L of [] \<Rightarrow> x | cs # _ \<Rightarrow> (case cs of [] \<Rightarrow> x | c # rest \<Rightarrow>
            fold (\<lambda>d best. if \<bar>d - x\<bar> < \<bar>best - x\<bar> then d else best) rest c))"
    by (simp only: decimal_of_repr_def L_def)
  show ?thesis
  proof (cases L)
    case L: (Cons cs rest)
    show ?thesis
    proof (cases cs)
      case (Cons c ds)
      then have "\<forall>d \<in> set (c # ds). fl_round d = x" using first[OF L[unfolded L_def]] by blast
      with pick[of ds c] have "fl_round (fold (\<lambda>d best. if \<bar>d - x\<bar> < \<bar>best - x\<bar> then d else best) ds c) = x" by blast
      then show ?thesis using run by (simp add: L Cons)
    qed (simp add: run L)
  qed (simp add: run)
qed

lemma decimal_of_repr_nonneg: "0 \<le> x \<Longrightarrow> 0 \<le> decimal_of_repr x"
  using decimal_of_repr_cases[of x] round_sig_sign(2)[of 2 53 "decimal_of_repr x"] by force

lemma decimal_of_repr_one: "decimal_of_repr 1 = 1"
proof -
  have e: "mag_exp 10 1 = 1" by (simp add: mag_exp_def floorlog_def)
  have "repr_candidates 1 1 = [1, 1]"
    using fl_of_int_exact[of 1] by (simp add: repr_candidates_def e)
  moreover have "[1..<18::nat] = 1 # [2..<18]" by (simp add: upt_conv_Cons)
  ultimately show ?thesis by (simp add: decimal_of_repr_def)
qed

lemma decimal_of_repr_le_one: "x \<le> 1 \<Longrightarrow> decimal_of_repr x \<le> 1"
proof (rule ccontr)
  assume x: "x \<le> 1" and "\<not> decimal_of_repr x \<le> 1"
  then have big: "1 < decimal_of_repr x" by simp
  then have "1 \<le> fl_round (decimal_of_repr x)"
    using round_sig_mono[of 2 53 1 "decimal_of_repr x"] fl_of_int_exact[of 1] by simp
  then have "x = 1" using decimal_of_repr_cases[of x] x big by auto
  then show False using big decimal_of_repr_one by simp
qed

lemma dec_round_idem: "dec_round (dec_round x) = dec_round x"
  by (rule round_sig_idem) simp_all

lemma dec_mul_le:
  assumes "dec_round a = a" "0 \<le> a" "b \<le> 1"
  shows "dec_mul a b \<le> a"
  using dec_mono[of "a * b" a] mult_left_mono[OF assms(3,2)] assms(1) by (simp add: dec_mul_def)

lemma trunc_le: "0 < trunc x \<Longrightarrow> of_int (trunc x) \<le> x"
  by (auto simp: trunc_def split: if_splits)

lemma fold_min_le: "y \<in> set (x # xs) \<Longrightarrow> fold min xs x \<le> (y :: 'a::linorder)"
proof (induction xs arbitrary: x y)
  case (Cons a xs)
  then consider "y = x" | "y = a" | "y \<in> set xs" by auto
  then show ?case
  proof cases
    case 3
    then show ?thesis using Cons.IH[of y "min a x"] by simp
  qed (use Cons.IH[of "min a x" "min a x"] in \<open>auto intro: order_trans\<close>)
qed simp

lemma regime_factor_le_one:
  assumes "regime_factor z s = Inr f" and "\<exists>(name, f) \<in> set (bz_factors z). f \<le> 1"
  shows "f \<le> 1"
proof -
  obtain name g where g: "(name, g) \<in> set (bz_factors z)" "g \<le> 1" using assms(2) by blast
  then have "g \<in> set (map snd (bz_factors z))" by force
  then have "regime_factor_default z \<le> g"
    using fold_min_le[of g] by (cases "map snd (bz_factors z)") (auto simp: regime_factor_default_def)
  then show ?thesis using assms(1) g(2) by (auto simp: regime_factor_def Let_def split: option.splits if_splits)
qed

text \<open>The factor of a symbol without a published regime is not capped at one.\<close>

lemma cold_regime_unclamped: "regime_factor (budget_sizer_new (Some []) [(''normal'', 2)]) s = Inr 2"
  by (simp add: regime_factor_def budget_sizer_new_def rc_latest_def regime_factor_default_def)

text \<open>Two engines that publish at the same time are told apart by insertion order.\<close>

lemma regime_tie_by_insertion:
  assumes "ev_timestamp a = ev_timestamp b" "rs_symbol a = s" "rs_symbol b = s" "rs_engine a \<noteq> rs_engine b"
  shows "rc_latest s (rc_record b (rc_record a [])) = Some a" "rc_latest s (rc_record a (rc_record b [])) = Some b"
  using assms by (simp_all add: rc_latest_def rc_record_def newer_def)

text \<open>A position is never sized beyond its budget. For any conviction, any regime posteriors and
  any regime factors, the sizer's target is between zero and the alpha's position limit, and
  its value at the current price does not exceed the capital allocated to the alpha: conviction
  and regime can only reduce it. Tilting respects the position limit too, and leaves a target of
  zero at zero.\<close>

theorem size_within_budget:
  assumes "budget_target (tz_base z) sig rb price equity = Inr q" and "0 \<le> rb_capital_allocation_pct rb"
    and "\<exists>(name, f) \<in> set (bz_factors (tz_base z)). f \<le> 1"
  shows "0 \<le> q \<and> q \<le> max 0 (rb_max_position rb)
    \<and> (0 < q \<longrightarrow> 0 < price \<and> of_int q \<le> dec_div (allocated_capital rb equity) price)
    \<and> (\<exists>t. tilted_target z sig rb price equity = Inr t \<and> 0 \<le> t \<and> t \<le> max 0 (rb_max_position rb) \<and> (q = 0 \<longrightarrow> t = 0))"
proof -
  have bounds: "0 \<le> q" "q \<le> max 0 (rb_max_position rb)"
    using assms(1) by (auto simp: budget_target_def Let_def bind_result_Inr_iff min_le_iff_disj le_max_iff_disj split: if_splits)
  have worth: "0 < price \<and> of_int q \<le> dec_div (allocated_capital rb equity) price" if "0 < q"
  proof -
    let ?a = "allocated_capital rb equity" and ?s = "decimal_of_repr (min 1 (max 0 (sg_strength sig)))"
    have pos: "0 < price" "0 < equity" using assms(1) that by (auto simp: budget_target_def split: if_splits)
    obtain f where f: "regime_factor (tz_base z) (sg_symbol sig) = Inr f"
      "q = max 0 (min (trunc (dec_div (dec_mul (dec_mul ?a ?s) (decimal_of_repr f)) price)) (rb_max_position rb))"
      using assms(1) pos by (auto simp: budget_target_def Let_def bind_result_Inr_iff)
    have "0 \<le> dec_mul equity (decimal_of_repr (rb_capital_allocation_pct rb))"
      by (intro dec_mul_nonneg decimal_of_repr_nonneg assms(2) less_imp_le pos)
    then have a: "0 \<le> ?a" "dec_round ?a = ?a" unfolding allocated_capital_def
      by (simp_all add: dec_div_nonneg) (simp add: dec_div_def dec_round_idem)
    have s: "?s \<le> 1" "0 \<le> ?s" by (intro decimal_of_repr_le_one decimal_of_repr_nonneg; simp)+
    have "f \<le> 1" by (rule regime_factor_le_one[OF f(1) assms(3)])
    then have fd: "decimal_of_repr f \<le> 1" by (rule decimal_of_repr_le_one)
    have c: "dec_mul ?a ?s \<le> ?a" "0 \<le> dec_mul ?a ?s" by (rule dec_mul_le[OF a(2,1) s(1)], rule dec_mul_nonneg[OF a(1) s(2)])
    have r: "dec_round (dec_mul ?a ?s) = dec_mul ?a ?s" unfolding dec_mul_def by (rule dec_round_idem)
    have "dec_mul (dec_mul ?a ?s) (decimal_of_repr f) \<le> ?a"
      using dec_mul_le[OF r c(2) fd] c(1) by (rule order_trans)
    then have "dec_div (dec_mul (dec_mul ?a ?s) (decimal_of_repr f)) price \<le> dec_div ?a price"
      using pos by (intro dec_div_mono) simp_all
    moreover have "of_int q \<le> dec_div (dec_mul (dec_mul ?a ?s) (decimal_of_repr f)) price"
    proof -
      let ?n = "trunc (dec_div (dec_mul (dec_mul ?a ?s) (decimal_of_repr f)) price)"
      have "q = max 0 (min n m) \<Longrightarrow> 0 < q \<Longrightarrow> 0 < n \<and> q \<le> n" for n m by auto
      from this[OF f(2) that] have "0 < ?n" "q \<le> ?n" by simp_all
      then show ?thesis using trunc_le[of "dec_div (dec_mul (dec_mul ?a ?s) (decimal_of_repr f)) price"]
        by (meson of_int_le_iff order_trans)
    qed
    ultimately show ?thesis using pos by simp
  qed
  have "\<exists>t. tilted_target z sig rb price equity = Inr t \<and> 0 \<le> t \<and> t \<le> max 0 (rb_max_position rb) \<and> (q = 0 \<longrightarrow> t = 0)"
    using bounds assms(1) by (auto simp: tilted_target_def apply_tilt_def min_le_iff_disj le_max_iff_disj)
  then show ?thesis using bounds worth by blast
qed

definition sample_tilt_sizer :: tilt_sizer where
  "sample_tilt_sizer = \<lparr>tz_base = budget_sizer_new None [],
     tz_config = \<lparr>tl_edge_enabled = True, tl_edge_ref = 20, tl_edge_floor = 1/4, tl_edge_cap = 2, tl_vol_enabled = False,
        tl_vol_target = 100, tl_vol_floor = 1/4, tl_vol_cap = 2, tl_inventory_enabled = False, tl_inventory_floor = 0,
        tl_floor = 1/8, tl_cap = 3\<rparr>, tz_vol = None, tz_inventory = None\<rparr>"

lemma size_within_budget_witness:
  "\<exists>q t. let rb = \<lparr>rb_max_position = 500, rb_max_gross_exposure_pct = 50, rb_max_drawdown_pct = 5, rb_capital_allocation_pct = 25\<rparr> in
     budget_target (tz_base sample_tilt_sizer) (sample_signal LONG) rb 50 100000 = Inr q \<and> 0 \<le> q \<and> q \<le> 500
     \<and> tilted_target sample_tilt_sizer (sample_signal LONG) rb 50 100000 = Inr t \<and> 0 \<le> t \<and> t \<le> 500"
proof -
  let ?rb = "\<lparr>rb_max_position = 500, rb_max_gross_exposure_pct = 50, rb_max_drawdown_pct = 5, rb_capital_allocation_pct = 25\<rparr>"
  have f: "\<exists>(name, f) \<in> set (bz_factors (tz_base sample_tilt_sizer)). f \<le> 1"
    by (simp add: sample_tilt_sizer_def budget_sizer_new_def default_regime_factors_def)
  obtain q where "budget_target (tz_base sample_tilt_sizer) (sample_signal LONG) ?rb 50 100000 = Inr q"
    by (simp add: budget_target_def regime_factor_def sample_tilt_sizer_def budget_sizer_new_def)
  then show ?thesis using size_within_budget[OF _ _ f, of "sample_signal LONG" ?rb 50 100000 q] by (auto simp: Let_def)
qed

end
