(* ===== verification/Order_Building.thy ===== *)
theory Order_Building
  imports Forced_Orders Sizing
begin

section \<open>Building orders (kernel/orchestrator.py)\<close>

text \<open>
  From an intent to an order request: the edge-against-cost gates, the route, the size after
  risk scaling, and the admission of the legs of a portfolio. The risk engine reads positions
  through a view, which for the entry leg of a reversal shows the book after its exit leg.
  Bounds of the trading session, tracing and the text of alerts are left out; the borrow table
  and the short-sale restrictions are settings of the trading configuration.
\<close>

subsection \<open>Position views\<close>

record position_view =
  pv_get :: "symbol \<Rightarrow> position"
  pv_all :: "(symbol \<times> position) list"
  pv_exposure :: decimal
  pv_mark :: "symbol \<Rightarrow> decimal option"
  pv_opened :: "symbol \<Rightarrow> ns option"

definition store_view :: "position_store \<Rightarrow> position_view" where
  "store_view st = \<lparr>pv_get = ps_get st, pv_all = ps_positions st, pv_exposure = ps_total_exposure st,
     pv_mark = ps_latest_mark st, pv_opened = ps_opened_at_ns st\<rparr>"

definition adjusted_position :: "(symbol \<Rightarrow> decimal option) \<Rightarrow> int \<Rightarrow> position \<Rightarrow> position" where
  "adjusted_position mark_of adjustment p =
     (let q = pos_quantity p + adjustment;
          unrealized = (if q = 0 then 0
            else case mark_of (pos_symbol p) of
                Some m \<Rightarrow> if 0 < m then dec_mul (dec_sub m (pos_avg p)) (of_int q) else pos_unrealized p
              | None \<Rightarrow> pos_unrealized p)
      in p\<lparr>pos_quantity := q, pos_unrealized := unrealized\<rparr>)"

definition post_exit_view :: "position_view \<Rightarrow> symbol \<Rightarrow> int \<Rightarrow> position_view" where
  "post_exit_view v s adjustment =
     (let adjust = adjusted_position (pv_mark v) adjustment;
          p = pv_get v s;
          mark = (case pv_mark v s of Some m \<Rightarrow> if 0 < m then m else pos_avg p | None \<Rightarrow> pos_avg p)
      in \<lparr>pv_get = (\<lambda>x. if x = s then adjust (pv_get v x) else pv_get v x),
          pv_all = map (\<lambda>(x, q). (x, if x = s then adjust q else q)) (pv_all v),
          pv_exposure = dec_add (dec_sub (pv_exposure v) (dec_mul (of_int \<bar>pos_quantity p\<bar>) mark))
                          (dec_mul (of_int \<bar>pos_quantity p + adjustment\<bar>) mark),
          pv_mark = pv_mark v, pv_opened = pv_opened v\<rparr>)"

subsection \<open>Configuration\<close>

datatype borrow_tier = AVAILABLE | HARD | UNAVAILABLE

definition htb_fee_applies :: "borrow_tier \<Rightarrow> bool \<Rightarrow> bool" where
  "htb_fee_applies tier short_sale \<longleftrightarrow> short_sale \<and> tier = HARD"

definition upper_char :: "char \<Rightarrow> char" where
  \<comment> \<open>\<open>str.upper\<close> on ASCII text\<close>
  "upper_char c = (let n = of_char c :: nat in if 97 \<le> n \<and> n \<le> 122 then char_of (n - 32) else c)"

definition py_upper :: "string \<Rightarrow> string" where
  "py_upper s = map upper_char s"

record trading_config =
  tr_min_shares :: int
  tr_edge_ratio :: float64
  tr_round_trip_basis :: bool
  tr_reversal_multiplier :: float64
  tr_edge_factors :: "(strategy \<times> float64) list"
  tr_cost_model :: "cost_fn option"
  tr_use_passive :: bool
  tr_min_cost :: "(cost_fn \<times> min_cost_config) option"
  tr_sessions :: "(strategy \<times> string) list"
  tr_moc_configured :: bool
  tr_market :: market_context
  tr_borrow :: "(symbol \<times> borrow_tier) list"
  tr_default_tier :: borrow_tier
  tr_ssr_active :: "symbol list"
  tr_halt_blackout :: "symbol \<Rightarrow> ns \<Rightarrow> bool"
  tr_session_flatten :: "ns \<Rightarrow> bool"
  tr_check_order :: "order_request \<Rightarrow> position_view \<Rightarrow> risk_verdict"
  tr_check_signal :: "signal \<Rightarrow> position_view \<Rightarrow> risk_verdict"

definition borrow_tier_for :: "trading_config \<Rightarrow> symbol \<Rightarrow> borrow_tier" where
  "borrow_tier_for tr s = (case map_of (tr_borrow tr) (py_upper s) of Some t \<Rightarrow> t | None \<Rightarrow> tr_default_tier tr)"

definition edge_calibration :: "trading_config \<Rightarrow> strategy \<Rightarrow> float64" where
  "edge_calibration tr strat = (case map_of (tr_edge_factors tr) strat of Some f \<Rightarrow> f | None \<Rightarrow> 1)"

subsection \<open>Edge gates\<close>

definition order_round_trip_cost ::
  "trading_config \<Rightarrow> symbol \<Rightarrow> side \<Rightarrow> int \<Rightarrow> nbbo_quote \<Rightarrow> bool \<Rightarrow> bool \<Rightarrow> float64 option result" where
  \<comment> \<open>\<open>_round_trip_cost_bps\<close> of the kernel\<close>
  "order_round_trip_cost tr s entry_side quantity q is_taker_entry is_short_entry =
     (case tr_cost_model tr of
        None \<Rightarrow> Inl (AssertionError ''cost_model'')
      | Some model \<Rightarrow> round_trip_cost_bps model s entry_side quantity q is_taker_entry is_short_entry (tr_market tr))"

definition edge_clears_round_trip_cost ::
  "trading_config \<Rightarrow> strategy \<Rightarrow> float64 \<Rightarrow> symbol \<Rightarrow> side \<Rightarrow> int \<Rightarrow> nbbo_quote \<Rightarrow> bool \<Rightarrow> bool
    \<Rightarrow> (bool \<times> float64 \<times> float64) result" where
  "edge_clears_round_trip_cost tr strat ebps s entry_side quantity q is_taker_entry is_short_entry =
     (if tr_edge_ratio tr \<le> 0 \<or> tr_cost_model tr = None then Inr (True, ebps, 1)
      else bind_result (order_round_trip_cost tr s entry_side quantity q is_taker_entry is_short_entry) (\<lambda>cost.
        let factor = edge_calibration tr strat; effective = fl_mul ebps factor
        in Inr (entry_edge_clears_cost effective cost (tr_edge_ratio tr) (tr_round_trip_basis tr), effective, factor)))"

definition lift_result :: "'a result \<Rightarrow> ('r, 'a) kact" where
  "lift_result x k = (x, k)"

definition signal_passes_edge_cost_gate ::
  "trading_config \<Rightarrow> signal \<Rightarrow> symbol \<Rightarrow> side \<Rightarrow> int \<Rightarrow> nbbo_quote \<Rightarrow> bool \<Rightarrow> bool \<Rightarrow> string \<Rightarrow> ('r, bool) kact" where
  "signal_passes_edge_cost_gate tr sig s entry_side quantity q is_taker_entry is_short_entry cid =
     andThen (lift_result (edge_clears_round_trip_cost tr (sg_strategy sig) (sg_edge_bps sig) s entry_side quantity q
                is_taker_entry is_short_entry))
       (\<lambda>(passes, _, _). if passes then ok True
          else andThen (alert alert_severity.WARNING ''signal_edge_below_min_edge_cost_ratio_gate'' cid) (\<lambda>_. ok False))"

definition reversal_passes_combined_edge_gate ::
  "trading_config \<Rightarrow> float64 \<Rightarrow> symbol \<Rightarrow> side \<Rightarrow> int \<Rightarrow> side \<Rightarrow> int \<Rightarrow> nbbo_quote \<Rightarrow> bool
    \<Rightarrow> (float64 option \<times> float64 option \<times> bool) result" where
  "reversal_passes_combined_edge_gate tr ebps s exit_side exit_qty entry_side entry_qty q is_short_entry =
     (if tr_reversal_multiplier tr \<le> 0 \<or> tr_cost_model tr = None then Inr (Some 0, Some 0, True)
      else bind_result (order_round_trip_cost tr s exit_side exit_qty q True False) (\<lambda>exit_cost.
           bind_result (order_round_trip_cost tr s entry_side entry_qty q
                          (\<not> tr_use_passive tr \<or> tr_min_cost tr \<noteq> None) is_short_entry) (\<lambda>entry_cost.
             Inr (reversal_edge_gate ebps exit_cost entry_cost (tr_reversal_multiplier tr)))))"

subsection \<open>Route and size\<close>

definition near_side :: "side \<Rightarrow> nbbo_quote \<Rightarrow> decimal" where
  "near_side sd q = (if sd = BUY then nq_bid q else nq_ask q)"

definition quote_mid :: "nbbo_quote \<Rightarrow> decimal" where
  "quote_mid q = dec_div (dec_add (nq_bid q) (nq_ask q)) 2"

definition quote_half_spread :: "nbbo_quote \<Rightarrow> decimal" where
  "quote_half_spread q = dec_div (dec_sub (nq_ask q) (nq_bid q)) 2"

definition resolve_order_route ::
  "trading_config \<Rightarrow> strategy \<Rightarrow> symbol \<Rightarrow> side \<Rightarrow> int \<Rightarrow> nbbo_quote option \<Rightarrow> bool \<Rightarrow> bool \<Rightarrow> float64 \<Rightarrow> exec_style option
    \<Rightarrow> (order_type \<times> decimal option \<times> bool) result" where
  "resolve_order_route tr strat s sd quantity quote is_short is_exit ebps style =
     (if map_of (tr_sessions tr) strat = Some ''closing_auction'' \<and> tr_moc_configured tr \<and> \<not> is_exit
      then Inr (MARKET, None, True)
      else case quote of
        None \<Rightarrow> Inr (MARKET, None, False)
      | Some q \<Rightarrow>
          if style = Some PASSIVE then Inr (LIMIT, Some (near_side sd q), False)
          else if \<not> tr_use_passive tr then Inr (MARKET, None, False)
          else bind_result
            (case tr_min_cost tr of
               None \<Rightarrow> Inr True
             | Some (model, policy) \<Rightarrow> min_cost_decide model policy s sd quantity (quote_mid q) (quote_half_spread q)
                 is_short is_exit (Some (nq_bid_size q, nq_ask_size q)) ebps)
            (\<lambda>passive. Inr (if passive then (LIMIT, Some (near_side sd q), False) else (MARKET, None, False))))"

definition is_exit_or_stop :: "order_intent \<Rightarrow> bool" where
  "is_exit_or_stop i \<longleftrightarrow> oi_intent i = EXIT \<or> sg_strategy (oi_signal i) = ''__stop_exit__''"

definition intent_quantity :: "order_intent \<Rightarrow> float64 \<Rightarrow> int" where
  "intent_quantity i scaling =
     (if is_exit_or_stop i then oi_target_quantity i else half_even (fl_mul (num (oi_target_quantity i)) scaling))"

definition order_from_intent ::
  "order_intent \<Rightarrow> ns \<Rightarrow> string \<Rightarrow> int \<Rightarrow> string \<Rightarrow> side \<Rightarrow> int \<Rightarrow> bool \<Rightarrow> order_type \<times> decimal option \<times> bool \<Rightarrow> order_request" where
  "order_from_intent i now cid seq oid sd quantity is_short route =
     \<lparr>ev_timestamp = now, ev_correlation = cid, ev_sequence = seq, ev_source_layer = ''UNKNOWN'',
      ev_schema_version = schema_version, or_order_id = oid, or_symbol = oi_symbol i, or_side = sd,
      or_order_type = fst route, or_quantity = quantity, or_limit_price = fst (snd route), or_strategy = oi_strategy i,
      or_is_short = is_short, or_is_moc = snd (snd route), or_g12_cost_bps = sg_disclosed_cost_bps (oi_signal i),
      or_reason = ''''\<rparr>"

datatype build_failure = ROUNDED_TO_ZERO | BELOW_MINIMUM | EDGE_BELOW_COST_GATE

definition intent_is_short :: "trading_config \<Rightarrow> order_intent \<Rightarrow> bool result" where
  "intent_is_short tr i = bind_result (exposure_delta_from_intent i)
     (\<lambda>x. Inr (htb_fee_applies (borrow_tier_for tr (oi_symbol i)) (opens_or_increases_short x)))"

definition try_build_order_from_intent ::
  "kernel_config \<Rightarrow> trading_config \<Rightarrow> order_intent \<Rightarrow> risk_verdict \<Rightarrow> string \<Rightarrow> nbbo_quote option \<Rightarrow> exec_style option
    \<Rightarrow> ('r, build_failure + order_request) kact" where
  "try_build_order_from_intent cfg tr i verdict cid quote style =
     andThen (lift_result (side_for_intent i)) (\<lambda>sd.
     andThen draw_seq (\<lambda>seq.
       let oid = kc_derive_order_id cfg (cid @ '':'' @ show_int seq);
           is_exit = is_exit_or_stop i;
           quantity = intent_quantity i (rv_scaling_factor verdict)
       in if quantity \<le> 0 then ok (Inl ROUNDED_TO_ZERO)
          else if blocks_for_min_size quantity (tr_min_shares tr) is_exit then ok (Inl BELOW_MINIMUM)
          else andThen (lift_result (intent_is_short tr i)) (\<lambda>is_short.
               andThen
                 (case quote of
                    Some q \<Rightarrow> if is_exit then ok True
                      else signal_passes_edge_cost_gate tr (oi_signal i) (oi_symbol i) sd quantity q
                             (\<not> tr_use_passive tr \<or> tr_min_cost tr \<noteq> None) is_short cid
                  | None \<Rightarrow> ok True)
                 (\<lambda>passes. if \<not> passes then ok (Inl EDGE_BELOW_COST_GATE)
                    else andThen (lift_result (resolve_order_route tr (oi_strategy i) (oi_symbol i) sd quantity quote is_short
                                    is_exit (sg_edge_bps (oi_signal i)) style))
                      (\<lambda>route k. (Inr (Inr (order_from_intent i (k_now k) cid seq oid sd quantity is_short route)), k))))))"

subsection \<open>Legs of a portfolio\<close>

record target_position =
  tp_symbol :: symbol
  tp_target_usd :: float64
  tp_urgency :: float64
  tp_expected_edge_bps :: float64

record sized_intent = event +
  si_strategy :: strategy
  si_targets :: "(symbol \<times> target_position) list"
  si_horizon_seconds :: int
  si_disclosed_cost_bps :: "(symbol \<times> float64) list"

definition leg_delta :: "'r kernel \<Rightarrow> order_request \<Rightarrow> exposure_delta" where
  "leg_delta k o' = \<lparr>xd_current = pos_quantity (ps_get (k_positions k) (or_symbol o')),
     xd_signed = signed_quantity (or_side o') (or_quantity o')\<rparr>"

definition portfolio_leg_edge_block ::
  "trading_config \<Rightarrow> sized_intent \<Rightarrow> nbbo_quote option \<Rightarrow> exposure_delta \<Rightarrow> order_request \<Rightarrow> block_reason option result" where
  "portfolio_leg_edge_block tr si quote x o' =
     (if \<not> opens_or_increases_exposure x then Inr None
      else if tr_edge_ratio tr \<le> 0 \<or> tr_cost_model tr = None then Inr None
      else case quote of
        None \<Rightarrow> Inr (Some EDGE_UNPRICEABLE)
      | Some q \<Rightarrow>
          if nq_symbol q \<noteq> or_symbol o' then Inr (Some EDGE_UNPRICEABLE)
          else let ebps = (case map_of (si_targets si) (or_symbol o') of Some t \<Rightarrow> tp_expected_edge_bps t | None \<Rightarrow> 0)
               in bind_result (edge_clears_round_trip_cost tr (si_strategy si) ebps (or_symbol o') (or_side o') (or_quantity o') q
                      (or_order_type o' = MARKET) (opens_or_increases_short x))
                    (\<lambda>(passes, _, _). Inr (if passes then None else Some EDGE_BELOW_COST)))"

definition leg_admission :: "trading_config \<Rightarrow> sized_intent \<Rightarrow> exposure_delta \<Rightarrow> order_request \<Rightarrow> block_reason option" where
  "leg_admission tr si x o' =
     admission_block_reason (opens_or_increases_exposure x) (opens_or_increases_short x)
       \<lparr>ae_halt_blackout = tr_halt_blackout tr (or_symbol o') (ev_timestamp si),
        ae_session_flatten = tr_session_flatten tr (ev_timestamp si),
        ae_ssr_active = py_upper (or_symbol o') \<in> set (tr_ssr_active tr),
        ae_locate_unavailable = borrow_tier_for tr (or_symbol o') = UNAVAILABLE\<rparr>
       (Some (or_quantity o')) (tr_min_shares tr) (\<not> opens_or_increases_exposure x)"

definition leg_block :: "trading_config \<Rightarrow> sized_intent \<Rightarrow> nbbo_quote option \<Rightarrow> order_request \<Rightarrow> ('r, block_reason option) kact" where
  "leg_block tr si quote o' k =
     (let x = leg_delta k o' in
      case leg_admission tr si x o' of
        Some b \<Rightarrow> (Inr (Some b), k)
      | None \<Rightarrow> (portfolio_leg_edge_block tr si quote x o', k))"

fun filter_legs :: "(order_request \<Rightarrow> ('r, bool) kact) \<Rightarrow> order_request list \<Rightarrow> ('r, order_request list) kact" where
  \<comment> \<open>the loop that both leg filters are: keep what the test admits\<close>
  "filter_legs admit [] = ok []"
| "filter_legs admit (o' # os) =
     andThen (admit o') (\<lambda>keep. andThen (filter_legs admit os) (\<lambda>rest. ok (if keep then o' # rest else rest)))"

definition filter_portfolio_orders_for_admission ::
  "trading_config \<Rightarrow> sized_intent \<Rightarrow> nbbo_quote option \<Rightarrow> string \<Rightarrow> order_request list \<Rightarrow> ('r, order_request list) kact" where
  "filter_portfolio_orders_for_admission tr si quote cid =
     filter_legs (\<lambda>o'. andThen (leg_block tr si quote o')
       (\<lambda>b. if b = None then ok True
             else andThen (alert alert_severity.WARNING ''portfolio_leg_admission_blocked'' cid) (\<lambda>_. ok False)))"

definition filter_portfolio_orders_for_pending_conflicts :: "string \<Rightarrow> order_request list \<Rightarrow> ('r, order_request list) kact" where
  "filter_portfolio_orders_for_pending_conflicts cid =
     filter_legs (\<lambda>o' k. if has_pending_order_for_symbol k (or_symbol o')
       then andThen (alert alert_severity.WARNING ''portfolio_leg_skipped_pending_order'' cid) (\<lambda>_. ok False) k
       else (Inr True, k))"

subsection \<open>Exits are always built\<close>

lemma exit_route:
  "\<exists>route. resolve_order_route tr strat s sd quantity quote is_short True ebps style = Inr route \<and> \<not> snd (snd route)"
  by (auto simp: resolve_order_route_def min_cost_decide_def forced_aggressive_def split: option.split)

lemma exit_side: "oi_intent i = EXIT \<Longrightarrow> side_for_intent i = Inr (if 0 < oi_current_quantity i then SELL else BUY)"
  by (simp add: side_for_intent_def)

text \<open>An exit is always built, at full size. Whatever the risk engine's scaling, the minimum
  order size, the costs, the edge and the execution policy say, an EXIT intent with a positive
  quantity gives an order on the closing side for exactly that quantity, never a
  market-on-close order, and nothing else in the kernel changes but one sequence number.\<close>

theorem exit_always_built:
  assumes "oi_intent i = EXIT" and "0 < oi_target_quantity i"
  shows "\<exists>o'. try_build_order_from_intent cfg tr i verdict cid quote style k = (Inr (Inr o'), snd (draw_seq k))
    \<and> or_side o' = (if 0 < oi_current_quantity i then SELL else BUY) \<and> or_quantity o' = oi_target_quantity i
    \<and> or_symbol o' = oi_symbol i \<and> \<not> or_is_moc o'"
proof -
  have e: "is_exit_or_stop i" using assms(1) by (simp add: is_exit_or_stop_def)
  obtain x where "exposure_delta_from_intent i = Inr x" using exit_side[OF assms(1)] by (simp add: exposure_delta_from_intent_def)
  then obtain short where short: "intent_is_short tr i = Inr short" by (simp add: intent_is_short_def)
  have q: "intent_quantity i f = oi_target_quantity i" for f using e by (simp add: intent_quantity_def)
  define sd where "sd = (if 0 < oi_current_quantity i then SELL else BUY)"
  have sd: "side_for_intent i = Inr sd" using exit_side[OF assms(1)] by (simp add: sd_def)
  have pass: "(case quote of None \<Rightarrow> ok True | Some q \<Rightarrow> if True then ok True else X q) = ok True" for X
    by (cases quote) simp_all
  obtain route where r: "resolve_order_route tr (oi_strategy i) (oi_symbol i) sd
      (oi_target_quantity i) quote short True (sg_edge_bps (oi_signal i)) style = Inr route" "\<not> snd (snd route)"
    using exit_route by blast
  obtain n k1 where d: "draw_seq k = (Inr n, k1)" by (simp add: draw_seq_def next_seq_def)
  show ?thesis unfolding sd_def[symmetric] using assms(2)
    by (simp add: try_build_order_from_intent_def andThen_parts lift_result_def sd d Let_def e q pass)
      (simp add: andThen_parts lift_result_def ok_def blocks_for_min_size_def short r order_from_intent_def)
qed

subsection \<open>Legs that only reduce are always admitted\<close>

lemma filter_legs_run:
  assumes step: "\<And>o' k r k'. Q k \<Longrightarrow> admit o' k = (Inr r, k') \<Longrightarrow> Q k' \<and> r = P o'"
    and "Q k" and "filter_legs admit os k = (Inr kept, k')"
  shows "kept = filter P os \<and> Q k'"
  using assms(2,3)
proof (induction os arbitrary: k kept)
  case (Cons o' os)
  obtain r k1 where one: "admit o' k = (Inr r, k1)"
    using Cons.prems(2) by (cases "admit o' k"; cases "fst (admit o' k)") (auto simp: andThen_def)
  obtain rest where rest: "filter_legs admit os k1 = (Inr rest, k')" "kept = (if r then o' # rest else rest)"
    using Cons.prems(2) one by (cases "filter_legs admit os k1"; cases "fst (filter_legs admit os k1)") (auto simp: andThen_def ok_def)
  show ?case using Cons.IH[OF _ rest(1)] step[OF Cons.prems(1) one] rest(2) by simp
qed (simp add: ok_def)

definition leg_ok :: "trading_config \<Rightarrow> sized_intent \<Rightarrow> nbbo_quote option \<Rightarrow> position_store \<Rightarrow> order_request \<Rightarrow> bool" where
  \<comment> \<open>the verdict on one leg against a book\<close>
  "leg_ok tr si quote ps o' =
     (let x = \<lparr>xd_current = pos_quantity (ps_get ps (or_symbol o')), xd_signed = signed_quantity (or_side o') (or_quantity o')\<rparr>
      in leg_admission tr si x o' = None \<and> portfolio_leg_edge_block tr si quote x o' = Inr None)"

lemma admission_filter:
  assumes "filter_portfolio_orders_for_admission tr si quote cid os k = (Inr kept, k')"
  shows "kept = filter (leg_ok tr si quote (k_positions k)) os"
proof -
  let ?admit = "\<lambda>o'. andThen (leg_block tr si quote o')
       (\<lambda>b. if b = None then ok True
             else andThen (alert alert_severity.WARNING ''portfolio_leg_admission_blocked'' cid) (\<lambda>_. ok False))"
  have step: "k_positions k2 = k_positions k \<and> r = leg_ok tr si quote (k_positions k) o'"
    if "k_positions k1 = k_positions k" "?admit o' k1 = (Inr r, k2)" for o' k1 r and k2 :: "'a kernel"
    using that
    by (auto simp: leg_ok_def leg_block_def leg_delta_def andThen_parts alert_run ok_def Let_def
        split: option.splits sum.splits if_splits)
  show ?thesis
    using filter_legs_run[of "\<lambda>k1. k_positions k1 = k_positions k" ?admit "leg_ok tr si quote (k_positions k)" k os kept k'] step assms
    unfolding filter_portfolio_orders_for_admission_def by blast
qed

lemma leg_ok_reducing:
  assumes "reduces (pos_quantity (ps_get ps (or_symbol o')))
      (pos_quantity (ps_get ps (or_symbol o')) + signed_quantity (or_side o') (or_quantity o'))"
  shows "leg_ok tr si quote ps o'"
proof -
  let ?x = "\<lparr>xd_current = pos_quantity (ps_get ps (or_symbol o')), xd_signed = signed_quantity (or_side o') (or_quantity o')\<rparr>"
  have "\<not> opens_or_increases_exposure ?x" using assms by (simp add: opens_iff post_quantity_def)
  then show ?thesis using short_opens[of ?x]
    by (auto simp: leg_ok_def leg_admission_def admission_block_reason_def portfolio_leg_edge_block_def blocks_for_min_size_def Let_def)
qed

text \<open>The admission of portfolio legs only ever drops legs that add exposure. The filter keeps the
  legs in order; every leg that just reduces the position is kept, in a halt, after the session
  flatten, under a short-sale restriction, below the minimum size and without a quote alike. A
  kept leg that adds exposure passed every gate: no halt blackout or flatten window, at least
  the minimum size, a borrow and no restriction when it adds short exposure, and, when the edge
  gate is armed, a quote of its own symbol.\<close>

theorem reducing_legs_admitted:
  assumes "filter_portfolio_orders_for_admission tr si quote cid os k = (Inr kept, k')"
  defines "current \<equiv> \<lambda>o'. pos_quantity (ps_get (k_positions k) (or_symbol o'))"
    and "post \<equiv> \<lambda>o'. pos_quantity (ps_get (k_positions k) (or_symbol o')) + signed_quantity (or_side o') (or_quantity o')"
  shows "(\<exists>P. kept = filter P os)
    \<and> (\<forall>o' \<in> set os. reduces (current o') (post o') \<longrightarrow> o' \<in> set kept)
    \<and> (\<forall>o' \<in> set kept. \<not> reduces (current o') (post o') \<longrightarrow>
        \<not> tr_halt_blackout tr (or_symbol o') (ev_timestamp si) \<and> \<not> tr_session_flatten tr (ev_timestamp si)
        \<and> tr_min_shares tr \<le> or_quantity o'
        \<and> (post o' < min (current o') 0 \<longrightarrow>
             py_upper (or_symbol o') \<notin> set (tr_ssr_active tr) \<and> borrow_tier_for tr (or_symbol o') \<noteq> UNAVAILABLE)
        \<and> (0 < tr_edge_ratio tr \<and> tr_cost_model tr \<noteq> None \<longrightarrow> (\<exists>q. quote = Some q \<and> nq_symbol q = or_symbol o')))"
proof -
  have kept: "kept = filter (leg_ok tr si quote (k_positions k)) os" by (rule admission_filter[OF assms(1)])
  have gates: "\<not> tr_halt_blackout tr (or_symbol o') (ev_timestamp si) \<and> \<not> tr_session_flatten tr (ev_timestamp si)
        \<and> tr_min_shares tr \<le> or_quantity o'
        \<and> (post o' < min (current o') 0 \<longrightarrow>
             py_upper (or_symbol o') \<notin> set (tr_ssr_active tr) \<and> borrow_tier_for tr (or_symbol o') \<noteq> UNAVAILABLE)
        \<and> (0 < tr_edge_ratio tr \<and> tr_cost_model tr \<noteq> None \<longrightarrow> (\<exists>q. quote = Some q \<and> nq_symbol q = or_symbol o'))"
    if "leg_ok tr si quote (k_positions k) o'" "\<not> reduces (current o') (post o')" for o'
  proof -
    let ?x = "\<lparr>xd_current = current o', xd_signed = signed_quantity (or_side o') (or_quantity o')\<rparr>"
    have x: "opens_or_increases_exposure ?x" "opens_or_increases_short ?x = (post o' < min (current o') 0)"
      using that(2) by (simp_all add: opens_iff post_quantity_def opens_or_increases_short_def current_def post_def)
    have a: "leg_admission tr si ?x o' = None" "portfolio_leg_edge_block tr si quote ?x o' = Inr None"
      using that(1) by (simp_all add: leg_ok_def current_def Let_def)
    then show ?thesis using x
      by (auto simp: leg_admission_def admission_block_reason_def blocks_for_min_size_def portfolio_leg_edge_block_def
          split: if_splits option.splits)
  qed
  show ?thesis using gates leg_ok_reducing unfolding kept by (auto simp: current_def post_def)
qed

subsection \<open>Examples\<close>

definition sample_trading :: trading_config where
  \<comment> \<open>every gate closed: a halt, the flatten window, no borrow, a large minimum size\<close>
  "sample_trading = \<lparr>tr_min_shares = 1000, tr_edge_ratio = 2, tr_round_trip_basis = False, tr_reversal_multiplier = 0,
     tr_edge_factors = [], tr_cost_model = Some zero_cost, tr_use_passive = True, tr_min_cost = None, tr_sessions = [],
     tr_moc_configured = False,
     tr_market = \<lparr>mc_quote = None, mc_cost_model = None, mc_market_impact = None, mc_max_half_spreads = None, mc_within_l1 = 0, mc_permanent = 0\<rparr>,
     tr_borrow = [], tr_default_tier = UNAVAILABLE, tr_ssr_active = [''X''], tr_halt_blackout = (\<lambda>_ _. True),
     tr_session_flatten = (\<lambda>_. True),
     tr_check_order = (\<lambda>o' _. \<lparr>ev_timestamp = 1, ev_correlation = ''c'', ev_sequence = 1, ev_source_layer = ''RISK'',
        ev_schema_version = schema_version, rv_symbol = or_symbol o', rv_action = ALLOW, rv_reason = '''', rv_scaling_factor = 1\<rparr>),
     tr_check_signal = (\<lambda>sig _. \<lparr>ev_timestamp = 1, ev_correlation = ''c'', ev_sequence = 1, ev_source_layer = ''RISK'',
        ev_schema_version = schema_version, rv_symbol = sg_symbol sig, rv_action = ALLOW, rv_reason = '''', rv_scaling_factor = 1\<rparr>)\<rparr>"

lemma exit_always_built_witness:
  "\<exists>(k :: unit kernel) o'. fst (try_build_order_from_intent sample_config sample_trading (intent_of (sample_signal FLAT) 30 EXIT 30)
      (tr_check_signal sample_trading (sample_signal FLAT) (store_view ps_new)) ''c'' None None k) = Inr (Inr o')
    \<and> or_quantity o' = 30 \<and> or_side o' = SELL"
proof -
  obtain k :: "unit kernel" where True by blast
  show ?thesis
    using exit_always_built[of "intent_of (sample_signal FLAT) 30 EXIT 30" sample_config sample_trading
        "tr_check_signal sample_trading (sample_signal FLAT) (store_view ps_new)" "''c''" None None k]
    by (auto simp: intent_of_def intro!: exI[of _ k])
qed

definition sample_sized_intent :: sized_intent where
  "sample_sized_intent = \<lparr>ev_timestamp = 1, ev_correlation = ''c'', ev_sequence = 1, ev_source_layer = ''COMPOSITION'',
     ev_schema_version = schema_version, si_strategy = ''p'', si_targets = [], si_horizon_seconds = 0, si_disclosed_cost_bps = []\<rparr>"

lemma reducing_legs_witness:
  "\<exists>(k :: unit kernel) kept k'. filter_portfolio_orders_for_admission sample_trading sample_sized_intent None ''c'' [sample_order] k = (Inr kept, k')
    \<and> kept = [sample_order]"
proof -
  obtain k :: "unit kernel" where k: "k_positions k = ps_new\<lparr>ps_positions := [(''X'', flat_position ''X''\<lparr>pos_quantity := - 20\<rparr>)]\<rparr>"
    by (rule sample_session)
  have q: "pos_quantity (ps_get (k_positions k) (or_symbol sample_order)) = - 20"
    by (simp add: k ps_get_def flat_position_def sample_order_def)
  have s: "signed_quantity (or_side sample_order) (or_quantity sample_order) = 10" by (simp add: signed_quantity_def sample_order_def)
  have "\<exists>kept k'. filter_portfolio_orders_for_admission sample_trading sample_sized_intent None ''c'' [sample_order] k = (Inr kept, k')"
    using q s by (simp add: filter_portfolio_orders_for_admission_def leg_block_def leg_delta_def leg_admission_def Let_def
        admission_block_reason_def opens_or_increases_exposure_def opens_or_increases_short_def post_quantity_def
        blocks_for_min_size_def portfolio_leg_edge_block_def andThen_def ok_def)
  then obtain kept k' where run: "filter_portfolio_orders_for_admission sample_trading sample_sized_intent None ''c'' [sample_order] k = (Inr kept, k')"
    by blast
  from reducing_legs_admitted[OF run] q s obtain P where "kept = filter P [sample_order]" "sample_order \<in> set kept"
    by (auto simp: reduces_def)
  then have "kept = [sample_order]" by (auto split: if_splits)
  then show ?thesis using run by blast
qed

end
