(* ===== verification/Trading.thy ===== *)
theory Trading
  imports Order_Building
begin

section \<open>From a signal to an order (kernel/orchestrator.py)\<close>

text \<open>
  The part of a tick that follows the choice of a signal: sizing, the decision what to do with
  the position, the risk engine's check of the signal, the admission gates, the building of the
  order, the check of the order, its submission and the settlement of what the router answers.
  A reversal takes its own branch: an aggressive exit, then an entry. Every branch ends in the
  micro state machine's walk to the next tick. Wall-clock timings, metrics (except for the
  sequence numbers they draw), the forensic trace and the shadow measurements are left out. The
  quotes, the verdicts of the risk engine and the sizer are inputs.
\<close>

subsection \<open>Settings\<close>

type_synonym planner =
  "desired_position \<Rightarrow> position \<Rightarrow> market_context option \<Rightarrow> planner_config option \<Rightarrow> position_plan result"

record decision_config =
  dc_registry :: "(strategy \<Rightarrow> risk_budget option) option"
  dc_sizer :: "signal \<Rightarrow> risk_budget \<Rightarrow> decimal \<Rightarrow> decimal \<Rightarrow> int result"
  dc_equity :: decimal
  dc_default_target :: int
  dc_planner :: "planner option"
  dc_planner_config :: planner_config
  dc_netting :: bool
  dc_net_cap :: "int option"

subsection \<open>The micro machine\<close>

definition micro_transition :: "micro_state \<Rightarrow> string \<Rightarrow> string \<Rightarrow> ('r, unit) kact" where
  "micro_transition target trigger cid k =
     (case transition (k_micro k) target trigger cid None (k_now k) (k_log k) of
        (r, m, l) \<Rightarrow> (map_sum id (\<lambda>_. ()) r, k\<lparr>k_micro := m, k_log := l\<rparr>))"

definition micro_reset :: "string \<Rightarrow> string \<Rightarrow> ('r, unit) kact" where
  "micro_reset trigger cid k =
     (case sm_reset (k_micro k) trigger cid (k_now k) (k_log k) of
        (r, m, l) \<Rightarrow> (map_sum id (\<lambda>_. ()) r, k\<lparr>k_micro := m, k_log := l\<rparr>))"

definition finalize_tick :: "string list \<Rightarrow> string \<Rightarrow> string \<Rightarrow> ('r, unit) kact" where
  \<comment> \<open>the first argument names the timings published as numbered metrics, beside the tick latency\<close>
  "finalize_tick timings cid trigger =
     andThen (micro_transition LOG_AND_METRICS trigger cid)
       (\<lambda>_. andThen (each (\<lambda>_. andThen draw_seq (\<lambda>_. ok ())) (''tick_to_decision_latency_ns'' # timings))
          (\<lambda>_. micro_transition WAITING_FOR_MARKET_EVENT ''tick_complete'' cid))"

definition add_timing :: "string \<Rightarrow> string list \<Rightarrow> string list" where
  "add_timing name timings = (if name \<in> set timings then timings else timings @ [name])"

definition settle_and_update ::
  "kernel_config \<Rightarrow> 'r router \<Rightarrow> string \<Rightarrow> string list \<Rightarrow> string \<Rightarrow> ('r, unit) kact" where
  \<comment> \<open>\<open>_settle_router_acks\<close> with a \<open>position_update_trigger\<close>\<close>
  "settle_and_update cfg rt cid expected trigger =
     andThen (poll_order_router_acks rt (Some expected))
       (\<lambda>acks. andThen (publish_and_apply_order_acks acks)
          (\<lambda>_. andThen (micro_transition POSITION_UPDATE trigger cid)
             (\<lambda>_. andThen (reconcile_fills cfg acks cid) (\<lambda>_. ok ()))))"

subsection \<open>The decision\<close>

definition int_to_direction :: "int \<Rightarrow> signal_direction" where
  "int_to_direction n = (if 0 < n then LONG else if n < 0 then SHORT else FLAT)"

definition plan_for_signal ::
  "decision_config \<Rightarrow> trading_config \<Rightarrow> planner \<Rightarrow> signal \<Rightarrow> position \<Rightarrow> int option \<Rightarrow> nbbo_quote \<Rightarrow> desired_position option
    \<Rightarrow> position_plan result" where
  "plan_for_signal dc tr plan sig p target q desired =
     bind_result (case desired of Some d \<Rightarrow> Inr d | None \<Rightarrow> desired_from_signal sig target (dc_default_target dc))
       (\<lambda>d. plan d p (Some ((tr_market tr)\<lparr>mc_quote := Some q, mc_cost_model := tr_cost_model tr\<rparr>))
              (Some (dc_planner_config dc)))"

definition trim_style :: "position_plan \<Rightarrow> exec_style option" where
  \<comment> \<open>only a discretionary trim overrides the execution style of the builder\<close>
  "trim_style plan = (case pp_orders plan of x # _ \<Rightarrow> if pl_leg x = LegTrim then Some (pl_style x) else None | [] \<Rightarrow> None)"

definition decide_intent ::
  "decision_config \<Rightarrow> trading_config \<Rightarrow> target_book \<Rightarrow> signal \<Rightarrow> position \<Rightarrow> int option \<Rightarrow> nbbo_quote
    \<Rightarrow> (order_intent \<times> exec_style option) result" where
  "decide_intent dc tr targets sig p target q =
     (case dc_planner dc of
        None \<Rightarrow> bind_result (translate (dc_default_target dc) sig p target) (\<lambda>i. Inr (i, None))
      | Some plan \<Rightarrow>
          let net = (if dc_netting dc then Some (net_target (dc_net_cap dc) targets (sg_symbol sig) (ev_timestamp q)) else None);
              decision_signal = (case net of Some d \<Rightarrow> sig\<lparr>sg_direction := int_to_direction (dp_direction d)\<rparr> | None \<Rightarrow> sig)
          in bind_result (plan_for_signal dc tr plan sig p target q net)
               (\<lambda>pl. Inr (order_intent_from_plan pl decision_signal p, trim_style pl)))"

subsection \<open>Verdicts\<close>

definition can_lock_down :: "'r kernel \<Rightarrow> bool" where
  "can_lock_down k \<longleftrightarrow> can_transition (k_macro k) RISK_LOCKDOWN"

definition allowed_verdict :: "risk_verdict \<Rightarrow> risk_verdict" where
  "allowed_verdict v = v\<lparr>rv_action := ALLOW, rv_scaling_factor := 1\<rparr>"

definition relaxed_verdict :: "'r kernel \<Rightarrow> order_intent \<Rightarrow> risk_verdict \<Rightarrow> risk_verdict" where
  \<comment> \<open>an exit cannot be blocked or resized, but a reachable lockdown flattens everything anyway\<close>
  "relaxed_verdict k i v =
     (if oi_intent i = EXIT \<and> rv_action v \<noteq> ALLOW \<and> \<not> (rv_action v = FORCE_FLATTEN \<and> can_lock_down k)
      then allowed_verdict v else v)"

definition publish_verdict :: "risk_verdict \<Rightarrow> ('r, unit) kact" where
  "publish_verdict v = publish_event (OutVerdict (rv_action v) (rv_reason v))"

definition lock_down :: "kernel_config \<Rightarrow> 'r router \<Rightarrow> string \<Rightarrow> string \<Rightarrow> ('r, unit) kact" where
  \<comment> \<open>escalation aborts the tick\<close>
  "lock_down cfg rt cid trigger = andThen (escalate_risk cfg rt cid) (\<lambda>_. micro_reset trigger cid)"

fun intent_name :: "trading_intent \<Rightarrow> string" where
  "intent_name ENTRY_LONG = ''ENTRY_LONG''"
| "intent_name ENTRY_SHORT = ''ENTRY_SHORT''"
| "intent_name EXIT = ''EXIT''"
| "intent_name REVERSE_LONG_TO_SHORT = ''REVERSE_LONG_TO_SHORT''"
| "intent_name REVERSE_SHORT_TO_LONG = ''REVERSE_SHORT_TO_LONG''"
| "intent_name SCALE_UP = ''SCALE_UP''"
| "intent_name NO_ACTION = ''NO_ACTION''"

subsection \<open>Submission\<close>

definition remember_working_exit :: "exec_style option \<Rightarrow> order_request \<Rightarrow> ('r, unit) kact" where
  "remember_working_exit style o' =
     modify (\<lambda>k. if style = Some PASSIVE \<and> or_order_type o' = LIMIT
       then k\<lparr>k_fallback := dict_set (or_order_id o') (or_symbol o', or_side o', or_quantity o') (k_fallback k)\<rparr> else k)"

definition submit_failed_walk :: "string list \<Rightarrow> string \<Rightarrow> ('r, unit) kact" where
  "submit_failed_walk timings cid =
     andThen (micro_transition ORDER_ACK ''order_submit_failed_no_router_ack'' cid)
       (\<lambda>_. andThen (micro_transition POSITION_UPDATE ''order_submit_failed_no_fills'' cid)
          (\<lambda>_. finalize_tick timings cid ''order_submit_failed''))"

definition submit_order ::
  "kernel_config \<Rightarrow> 'r router \<Rightarrow> string list \<Rightarrow> order_intent \<Rightarrow> exec_style option \<Rightarrow> string \<Rightarrow> order_request \<Rightarrow> ('r, unit) kact" where
  "submit_order cfg rt timings i style cid o' =
     andThen (track_order (or_order_id o') (or_side o') o' (intent_name (oi_intent i)))
       (\<lambda>_. andThen (remember_working_exit style o')
       (\<lambda>_. andThen (micro_transition ORDER_SUBMIT ''order_constructed'' cid)
       (\<lambda>_. andThen (submit_tracked_order rt o' ''submitted'')
       (\<lambda>err. if err \<noteq> None then submit_failed_walk timings cid
              else andThen (publish_event (OutOrder o'))
                (\<lambda>_. andThen (micro_transition ORDER_ACK ''order_submitted'' cid)
                (\<lambda>_. andThen (settle_and_update cfg rt cid [or_order_id o'] ''order_acknowledged'')
                (\<lambda>_. finalize_tick timings cid ''position_updated'')))))))"

definition guard_and_submit ::
  "kernel_config \<Rightarrow> 'r router \<Rightarrow> string list \<Rightarrow> order_intent \<Rightarrow> exec_style option \<Rightarrow> string \<Rightarrow> order_request \<Rightarrow> ('r, unit) kact" where
  \<comment> \<open>no second order beside a pending one, unless it is an exit and no exit is pending\<close>
  "guard_and_submit cfg rt timings i style cid o' k =
     (if has_pending_order_for_symbol k (or_symbol o')
         \<and> (oi_intent i \<noteq> EXIT \<or> has_pending_exit_for_symbol k (or_symbol o'))
      then finalize_tick timings cid ''resting_order_pending'' k
      else submit_order cfg rt timings i style cid o' k)"

definition check_built_order ::
  "kernel_config \<Rightarrow> 'r router \<Rightarrow> trading_config \<Rightarrow> string list \<Rightarrow> order_intent \<Rightarrow> risk_verdict \<Rightarrow> exec_style option \<Rightarrow> string
    \<Rightarrow> order_request \<Rightarrow> ('r, unit) kact" where
  \<comment> \<open>the pre-submission check of the concrete order; both scalings apply to the original target\<close>
  "check_built_order cfg rt tr timings i v style cid o' k =
     (let raw = tr_check_order tr o' (store_view (k_positions k)); ov = relaxed_verdict k i raw in
      andThen (publish_verdict raw) (\<lambda>_ k.
        case rv_action ov of
          FORCE_FLATTEN \<Rightarrow>
            if can_lock_down k then lock_down cfg rt cid ''pipeline_abort:check_order_lockdown'' k
            else finalize_tick timings cid ''check_order_force_flatten_simulated'' k
        | REJECT \<Rightarrow> finalize_tick timings cid (''check_order_rejected:'' @ rv_reason ov) k
        | SCALE_DOWN \<Rightarrow>
            let scaled = compose_scaled_quantity (oi_target_quantity i) [rv_scaling_factor v, rv_scaling_factor ov]
            in if scaled \<le> 0 then finalize_tick timings cid ''check_order_scale_down_to_zero'' k
               else guard_and_submit cfg rt timings i style cid (o'\<lparr>or_quantity := scaled\<rparr>) k
        | ALLOW \<Rightarrow> guard_and_submit cfg rt timings i style cid o' k) k)"

subsection \<open>Reversals\<close>

definition reverse_exit_order :: "kernel_config \<Rightarrow> order_intent \<Rightarrow> string \<Rightarrow> ('r, order_request) kact" where
  "reverse_exit_order cfg i cid =
     andThen draw_seq (\<lambda>seq k.
       (Inr (kernel_order (k_now k) cid seq (kc_derive_order_id cfg (cid @ '':'' @ show_int seq @ '':exit'')) (oi_symbol i)
               (close_side (oi_current_quantity i)) \<bar>oi_current_quantity i\<bar> (oi_strategy i) ''''), k))"

definition reverse_entry_order ::
  "kernel_config \<Rightarrow> trading_config \<Rightarrow> order_intent \<Rightarrow> string \<Rightarrow> nbbo_quote \<Rightarrow> int \<Rightarrow> bool \<Rightarrow> ('r, order_request) kact" where
  "reverse_entry_order cfg tr i cid q entry_qty is_short =
     andThen draw_seq (\<lambda>seq.
       let sd = close_side (oi_current_quantity i) in
       andThen (lift_result (resolve_order_route tr (oi_strategy i) (oi_symbol i) sd entry_qty (Some q) is_short False
                  (sg_edge_bps (oi_signal i)) None))
         (\<lambda>route k. (Inr (order_from_intent i (k_now k) cid seq (kc_derive_order_id cfg (cid @ '':'' @ show_int seq @ '':entry''))
             sd entry_qty is_short route), k)))"

definition reverse_edge_gates ::
  "trading_config \<Rightarrow> order_intent \<Rightarrow> string \<Rightarrow> nbbo_quote \<Rightarrow> int \<Rightarrow> bool \<Rightarrow> ('r, bool) kact" where
  \<comment> \<open>the combined gate over both legs, then the ordinary entry gate\<close>
  "reverse_edge_gates tr i cid q entry_qty is_short =
     (let sd = close_side (oi_current_quantity i); sig = oi_signal i;
          effective = fl_mul (sg_edge_bps sig) (edge_calibration tr (sg_strategy sig))
      in andThen (lift_result (reversal_passes_combined_edge_gate tr effective (oi_symbol i) sd \<bar>oi_current_quantity i\<bar>
                    sd entry_qty q is_short))
           (\<lambda>(_, _, passes). if \<not> passes
              then andThen (alert alert_severity.WARNING ''reversal_edge_insufficient'' cid) (\<lambda>_. ok False)
              else signal_passes_edge_cost_gate tr sig (oi_symbol i) sd entry_qty q
                     (\<not> tr_use_passive tr \<or> tr_min_cost tr \<noteq> None) is_short cid))"

definition check_reverse_entry ::
  "trading_config \<Rightarrow> order_intent \<Rightarrow> risk_verdict \<Rightarrow> position_view \<Rightarrow> int \<Rightarrow> order_request \<Rightarrow> ('r, order_request option) kact" where
  "check_reverse_entry tr i v view raw entry =
     (let rv = tr_check_order tr entry view in
      andThen (publish_verdict rv) (\<lambda>_. ok (case rv_action rv of
          REJECT \<Rightarrow> None
        | FORCE_FLATTEN \<Rightarrow> None
        | SCALE_DOWN \<Rightarrow>
            (let scaled = compose_scaled_quantity raw [rv_scaling_factor v, rv_scaling_factor rv]
             in if scaled < tr_min_shares tr then None else Some (entry\<lparr>or_quantity := scaled\<rparr>))
        | ALLOW \<Rightarrow> Some entry)))"

definition reverse_entry ::
  "kernel_config \<Rightarrow> trading_config \<Rightarrow> order_intent \<Rightarrow> risk_verdict \<Rightarrow> string \<Rightarrow> nbbo_quote \<Rightarrow> ('r, order_request option) kact" where
  "reverse_entry cfg tr i v cid q k =
     (let close_qty = \<bar>oi_current_quantity i\<bar>;
          raw = oi_target_quantity i - close_qty;
          entry_qty = half_even (fl_mul (num raw) (rv_scaling_factor v));
          is_short = htb_fee_applies (borrow_tier_for tr (oi_symbol i)) (oi_intent i = REVERSE_LONG_TO_SHORT);
          view = post_exit_view (store_view (k_positions k)) (oi_symbol i)
                   (if close_side (oi_current_quantity i) = SELL then - close_qty else close_qty)
      in if entry_qty < tr_min_shares tr then (Inr None, k)
         else andThen (reverse_edge_gates tr i cid q entry_qty is_short)
           (\<lambda>passes. if \<not> passes then ok None
              else andThen (reverse_entry_order cfg tr i cid q entry_qty is_short)
                     (check_reverse_entry tr i v view raw)) k)"

definition submit_reverse_entry :: "'r router \<Rightarrow> order_intent \<Rightarrow> order_request option \<Rightarrow> ('r, string list) kact" where
  \<comment> \<open>the value is the order id to expect an answer for\<close>
  "submit_reverse_entry rt i entry =
     (case entry of None \<Rightarrow> ok []
      | Some o' \<Rightarrow>
          andThen (track_order (or_order_id o') (or_side o') o'
              (if oi_intent i = REVERSE_LONG_TO_SHORT then ''ENTRY_SHORT'' else ''ENTRY_LONG''))
            (\<lambda>_. andThen (submit_tracked_order rt o' ''submitted'')
               (\<lambda>err. if err = None then andThen (publish_event (OutOrder o')) (\<lambda>_. ok [or_order_id o']) else ok [])))"

definition submit_reverse ::
  "kernel_config \<Rightarrow> 'r router \<Rightarrow> string list \<Rightarrow> order_intent \<Rightarrow> string \<Rightarrow> order_request \<Rightarrow> order_request option \<Rightarrow> ('r, unit) kact" where
  \<comment> \<open>the entry is submitted only behind an exit the router took\<close>
  "submit_reverse cfg rt timings i cid exit_order entry =
     andThen (micro_transition ORDER_SUBMIT ''reverse_orders_constructed'' cid)
       (\<lambda>_. andThen (track_order (or_order_id exit_order) (or_side exit_order) exit_order (intent_name (oi_intent i)))
       (\<lambda>_. andThen (submit_tracked_order rt exit_order ''submitted'')
       (\<lambda>err. if err \<noteq> None
          then andThen (micro_transition ORDER_ACK ''reverse_exit_submit_failed'' cid)
                 (\<lambda>_. andThen (settle_and_update cfg rt cid [or_order_id exit_order] ''reverse_acks_after_failed_exit_submit'')
                 (\<lambda>_. finalize_tick timings cid ''reverse_aborted_exit_submit_failed''))
          else andThen (publish_event (OutOrder exit_order))
                 (\<lambda>_. andThen (submit_reverse_entry rt i entry)
                 (\<lambda>ids. andThen (micro_transition ORDER_ACK ''reverse_orders_submitted'' cid)
                 (\<lambda>_. andThen (settle_and_update cfg rt cid (or_order_id exit_order # ids) ''reverse_acks_received'')
                 (\<lambda>_. finalize_tick timings cid ''reverse_position_updated'')))))))"

definition execute_reverse ::
  "kernel_config \<Rightarrow> 'r router \<Rightarrow> trading_config \<Rightarrow> string list \<Rightarrow> order_intent \<Rightarrow> risk_verdict \<Rightarrow> string \<Rightarrow> nbbo_quote \<Rightarrow> ('r, unit) kact" where
  "execute_reverse cfg rt tr timings i v cid q =
     andThen (cancel_resting_for_symbol cfg rt (oi_symbol i) cid)
       (\<lambda>_. andThen (reverse_exit_order cfg i cid)
       (\<lambda>exit_order k.
          let xv = tr_check_order tr exit_order (store_view (k_positions k)) in
          andThen (publish_verdict xv) (\<lambda>_ k.
            if rv_action xv = FORCE_FLATTEN \<and> can_lock_down k
            then andThen (escalate_risk cfg rt cid) (\<lambda>_. finalize_tick timings cid ''reverse_exit_force_flatten_escalation'') k
            else andThen (reverse_entry cfg tr i v cid q) (submit_reverse cfg rt timings i cid exit_order) k) k))"

subsection \<open>The signal's walk\<close>

definition is_reverse :: "order_intent \<Rightarrow> bool" where
  "is_reverse i \<longleftrightarrow> oi_intent i = REVERSE_LONG_TO_SHORT \<or> oi_intent i = REVERSE_SHORT_TO_LONG"

definition block_name :: "block_reason \<Rightarrow> string" where
  "block_name b = (case b of HALT_BLACKOUT \<Rightarrow> ''halt_resolution_blackout'' | SESSION_FLATTEN_WINDOW \<Rightarrow> ''session_flatten_window''
     | SSR \<Rightarrow> ''ssr_suppressed'' | LOCATE_UNAVAILABLE \<Rightarrow> ''locate_unavailable''
     | BELOW_MIN_ORDER_SHARES \<Rightarrow> ''quantity_below_platform_min_order_shares''
     | EDGE_BELOW_COST \<Rightarrow> ''portfolio_leg_edge_below_min_edge_cost_ratio''
     | EDGE_UNPRICEABLE \<Rightarrow> ''portfolio_leg_edge_unpriceable_no_quote'')"

definition intent_block :: "trading_config \<Rightarrow> order_intent \<Rightarrow> nbbo_quote \<Rightarrow> block_reason option result" where
  \<comment> \<open>the quantity is withheld: the minimum size is checked when the order is built\<close>
  "intent_block tr i q =
     bind_result (exposure_delta_from_intent i) (\<lambda>x.
       Inr (admission_block_reason (opens_or_increases_exposure x) (opens_or_increases_short x)
         \<lparr>ae_halt_blackout = tr_halt_blackout tr (oi_symbol i) (ev_timestamp q),
          ae_session_flatten = tr_session_flatten tr (nq_exchange_timestamp q),
          ae_ssr_active = py_upper (oi_symbol i) \<in> set (tr_ssr_active tr),
          ae_locate_unavailable = borrow_tier_for tr (oi_symbol i) = UNAVAILABLE\<rparr> None 1 False))"

definition block_alert :: "block_reason \<Rightarrow> string \<Rightarrow> ('r, unit) kact" where
  "block_alert b cid =
     (if b = SSR then alert alert_severity.WARNING ''ssr_short_suppressed'' cid
      else if b = LOCATE_UNAVAILABLE then alert alert_severity.WARNING ''locate_unavailable'' cid
      else ok ())"

definition build_and_submit ::
  "kernel_config \<Rightarrow> 'r router \<Rightarrow> trading_config \<Rightarrow> string list \<Rightarrow> order_intent \<Rightarrow> risk_verdict \<Rightarrow> exec_style option \<Rightarrow> string
    \<Rightarrow> nbbo_quote \<Rightarrow> ('r, unit) kact" where
  "build_and_submit cfg rt tr timings i v style cid q =
     andThen (try_build_order_from_intent cfg tr i v cid (Some q) style)
       (\<lambda>built. case built of
            Inl _ \<Rightarrow> finalize_tick timings cid ''risk_scale_down_to_zero''
          | Inr o' \<Rightarrow> check_built_order cfg rt tr timings i v style cid o')"

definition order_decision ::
  "kernel_config \<Rightarrow> 'r router \<Rightarrow> trading_config \<Rightarrow> string list \<Rightarrow> order_intent \<Rightarrow> risk_verdict \<Rightarrow> exec_style option \<Rightarrow> string
    \<Rightarrow> nbbo_quote \<Rightarrow> ('r, unit) kact" where
  "order_decision cfg rt tr timings i v style cid q =
     andThen (micro_transition ORDER_DECISION ''risk_pass_order_warranted'' cid)
       (\<lambda>_. andThen (lift_result (intent_block tr i q))
       (\<lambda>block. case block of
            Some b \<Rightarrow> andThen (block_alert b cid) (\<lambda>_. finalize_tick timings cid (block_name b))
          | None \<Rightarrow> if is_reverse i then execute_reverse cfg rt tr timings i v cid q
                    else build_and_submit cfg rt tr timings i v style cid q))"

definition check_intent ::
  "kernel_config \<Rightarrow> 'r router \<Rightarrow> trading_config \<Rightarrow> string list \<Rightarrow> signal \<Rightarrow> order_intent \<Rightarrow> exec_style option \<Rightarrow> string
    \<Rightarrow> nbbo_quote \<Rightarrow> ('r, unit) kact" where
  "check_intent cfg rt tr timings sig i style cid q =
     andThen (micro_transition RISK_CHECK ''signal_evaluated'' cid)
       (\<lambda>_ k.
          let raw = tr_check_signal tr sig (store_view (k_positions k)); v = relaxed_verdict k i raw in
          andThen (publish_verdict raw) (\<lambda>_ k.
            case rv_action v of
              FORCE_FLATTEN \<Rightarrow>
                if can_lock_down k then lock_down cfg rt cid ''pipeline_abort:risk_lockdown'' k
                else finalize_tick timings cid ''risk_force_flatten_simulated'' k
            | REJECT \<Rightarrow> finalize_tick timings cid ''risk_reject_no_order'' k
            | _ \<Rightarrow> order_decision cfg rt tr timings i v style cid q k) k)"

definition evaluate_signal ::
  "kernel_config \<Rightarrow> 'r router \<Rightarrow> trading_config \<Rightarrow> decision_config \<Rightarrow> target_book \<Rightarrow> string list \<Rightarrow> signal \<Rightarrow> string \<Rightarrow> nbbo_quote
    \<Rightarrow> ('r, unit) kact" where
  "evaluate_signal cfg rt tr dc targets timings sig cid q =
     andThen (lift_result (compute_target_quantity (dc_registry dc) (dc_sizer dc) (dc_equity dc) sig q)) (\<lambda>target k.
       andThen (lift_result (decide_intent dc tr targets sig (ps_get (k_positions k) (sg_symbol sig)) target q))
         (\<lambda>(i, style). if oi_intent i = NO_ACTION then finalize_tick timings cid ''intent_no_action''
            else check_intent cfg rt tr (add_timing ''risk_check_ns'' timings) sig i style cid q) k)"

definition evaluate_selected ::
  "kernel_config \<Rightarrow> 'r router \<Rightarrow> trading_config \<Rightarrow> decision_config \<Rightarrow> target_book \<Rightarrow> string list \<Rightarrow> signal option \<Rightarrow> string
    \<Rightarrow> nbbo_quote \<Rightarrow> ('r, unit) kact" where
  "evaluate_selected cfg rt tr dc targets timings selected cid q =
     (case selected of
        None \<Rightarrow> finalize_tick timings cid ''no_signal_this_tick''
      | Some sig \<Rightarrow> evaluate_signal cfg rt tr dc targets timings sig cid q)"

end
