(* ===== verification/Tick_Walk.thy ===== *)
theory Tick_Walk
  imports Trading
begin

section \<open>The walk of the micro machine through a tick\<close>

text \<open>
  Where an action leaves the state when it returns, and what still holds when it raises. The
  triple \<open>leads\<close> composes along the actions; with the micro machine's table it follows the
  kernel through a decision. A kernel step (everything that books, tracks or submits) leaves
  the micro machine alone, so only the explicit transitions matter.
\<close>

subsection \<open>Where an action leads\<close>

definition landed :: "('s \<Rightarrow> bool) \<Rightarrow> ('s \<Rightarrow> bool) \<Rightarrow> 'a result \<times> 's \<Rightarrow> bool" where
  "landed Q E rs \<longleftrightarrow> (case fst rs of Inr _ \<Rightarrow> Q (snd rs) | Inl _ \<Rightarrow> E (snd rs))"

definition leads :: "('s \<Rightarrow> bool) \<Rightarrow> ('s, 'a) act \<Rightarrow> ('s \<Rightarrow> bool) \<Rightarrow> ('s \<Rightarrow> bool) \<Rightarrow> bool" where
  "leads P f Q E \<longleftrightarrow> (\<forall>s. P s \<longrightarrow> landed Q E (f s))"

lemma leadsI: "(\<And>s. P s \<Longrightarrow> landed Q E (f s)) \<Longrightarrow> leads P f Q E"
  by (simp add: leads_def)

lemma leadsD: "leads P f Q E \<Longrightarrow> P s \<Longrightarrow> landed Q E (f s)"
  by (simp add: leads_def)

lemma landed_simps [simp]: "landed Q E (Inr x, s) = Q s" "landed Q E (Inl e, s) = E s"
  by (simp_all add: landed_def)

lemma leads_ok: "leads P (ok x) P E"
  by (simp add: leads_def ok_def)

lemma landed_then: "landed R E (f s) \<Longrightarrow> (\<And>x. leads R (g x) Q E) \<Longrightarrow> landed Q E (andThen f g s)"
  by (cases "f s"; cases "fst (f s)") (auto simp: andThen_def dest: leadsD)

lemma leads_then: "leads P f R E \<Longrightarrow> (\<And>x. leads R (g x) Q E) \<Longrightarrow> leads P (andThen f g) Q E"
  by (rule leadsI) (rule landed_then[OF leadsD])

lemma leads_if: "leads P f Q E \<Longrightarrow> leads P g Q E \<Longrightarrow> leads P (if b then f else g) Q E"
  by simp

lemma leads_each: "(\<And>x. leads P (f x) P E) \<Longrightarrow> leads P (each f xs) P E"
  by (induction xs) (auto intro: leads_ok leads_then)

lemma leads_catch:
  assumes "leads P f Q F" "\<And>e. leads F (h e) Q E"
  shows "leads P (catch f h) Q E"
proof (rule leadsI)
  fix s
  assume "P s"
  then have "landed Q F (f s)" using assms(1) by (simp add: leadsD)
  then show "landed Q E (catch f h s)"
    by (cases "f s"; cases "fst (f s)") (auto simp: catch_def dest: leadsD[OF assms(2)])
qed

lemma landed_mono: "landed Q E rs \<Longrightarrow> (\<And>s. Q s \<Longrightarrow> Q' s) \<Longrightarrow> (\<And>s. E s \<Longrightarrow> E' s) \<Longrightarrow> landed Q' E' rs"
  by (cases rs; cases "fst rs") auto

lemma leads_mono:
  "leads P f Q E \<Longrightarrow> (\<And>s. P' s \<Longrightarrow> P s) \<Longrightarrow> (\<And>s. Q s \<Longrightarrow> Q' s) \<Longrightarrow> (\<And>s. E s \<Longrightarrow> E' s) \<Longrightarrow> leads P' f Q' E'"
  by (rule leadsI) (blast intro: landed_mono leadsD)

lemmas leads_rules = leads_ok leads_then leads_if

subsection \<open>A well-formed kernel at a micro state\<close>

text \<open>Besides the kernel, others may subscribe to the transitions of its machines
  (\<open>on_transition\<close>), and what they raise vetoes the transition.\<close>

record platform =
  pf_modes :: "macro_state set"
  pf_micro :: "(micro_state, kernel_log) callback list"
  pf_macro :: "(macro_state, kernel_log) callback list"

definition registered :: "macro_state set \<Rightarrow> platform" where
  \<comment> \<open>the subscribers the constructor registers\<close>
  "registered M = \<lparr>pf_modes = M, pf_micro = [emit_state_transition OutMicroTransition], pf_macro = [emit_state_transition OutMacroTransition]\<rparr>"

definition silent :: "('s, 'w) callback list \<Rightarrow> bool" where
  \<comment> \<open>no subscriber raises\<close>
  "silent cbs \<longleftrightarrow> (\<forall>cb \<in> set cbs. \<forall>r w. snd (cb r w) = None)"

definition micro_wired :: "platform \<Rightarrow> (micro_state, kernel_log) machine \<Rightarrow> bool" where
  "micro_wired A m \<longleftrightarrow> sm_transitions m = micro_transitions \<and> sm_callbacks m = pf_micro A \<and> sm_initial m = WAITING_FOR_MARKET_EVENT"

definition macro_wired :: "platform \<Rightarrow> (macro_state, kernel_log) machine \<Rightarrow> bool" where
  "macro_wired A m \<longleftrightarrow> sm_transitions m = macro_transitions \<and> sm_callbacks m = pf_macro A"

definition kernel_ready :: "platform \<Rightarrow> 'r kernel \<Rightarrow> bool" where
  \<comment> \<open>the macro machine is in a mode of \<open>A\<close> or has stopped trading\<close>
  "kernel_ready A k \<longleftrightarrow> kernel_ok k \<and> micro_wired A (k_micro k) \<and> macro_wired A (k_macro k)
     \<and> sm_state (k_macro k) \<in> pf_modes A \<union> {DEGRADED, RISK_LOCKDOWN}"

definition micro_ok :: "(micro_state, kernel_log) machine \<Rightarrow> bool" where
  "micro_ok m \<longleftrightarrow> sm_transitions m = micro_transitions \<and> sm_callbacks m = [emit_state_transition OutMicroTransition]
     \<and> sm_initial m = WAITING_FOR_MARKET_EVENT"

lemma registered_wired:
  "micro_wired (registered M) n = micro_ok n" "macro_wired (registered M) m = macro_ok m" "pf_modes (registered M) = M" "silent (pf_micro (registered M))" "silent (pf_macro (registered M))"
  by (simp_all add: registered_def micro_wired_def micro_ok_def macro_wired_def macro_ok_def silent_def emit_state_transition_def)

lemma run_callbacks_silent: "silent cbs \<Longrightarrow> snd (run_callbacks cbs r w) = None"
proof (induction cbs arbitrary: w)
  case (Cons cb cbs)
  then have "snd (cb r w) = None" "\<And>w'. snd (run_callbacks cbs r w') = None" by (simp_all add: silent_def)
  then show ?case by (cases "cb r w") simp
qed simp

definition micro_at :: "platform \<Rightarrow> micro_state \<Rightarrow> 'r kernel \<Rightarrow> bool" where
  "micro_at A s k \<longleftrightarrow> kernel_ready A k \<and> sm_state (k_micro k) = s"

abbreviation walks :: "platform \<Rightarrow> micro_state \<Rightarrow> ('r, 'a) kact \<Rightarrow> micro_state \<Rightarrow> bool" where
  "walks A s f t \<equiv> leads (micro_at A s) f (micro_at A t) (kernel_ready A)"

lemma micro_at_ready: "micro_at A s k \<Longrightarrow> kernel_ready A k"
  by (simp add: micro_at_def)

definition micro_kept :: "platform \<Rightarrow> 'r kernel \<Rightarrow> 'r kernel \<Rightarrow> bool" where
  "micro_kept A k k' \<longleftrightarrow> (kernel_ready A k \<longrightarrow> kernel_ready A k' \<and> k_micro k' = k_micro k)"

interpretation kept: framed "micro_kept A :: 'r kernel \<Rightarrow> 'r kernel \<Rightarrow> bool"
  by unfold_locales (auto simp: micro_kept_def)

lemma step_kept: "keeps kernel_step f \<Longrightarrow> keeps (micro_kept A) f"
  by (auto simp: keeps_def kernel_step_def micro_kept_def kernel_ready_def)

lemma walks_kept: "keeps (micro_kept A) f \<Longrightarrow> walks A s f s"
  by (rule leadsI) (auto simp: keeps_def micro_kept_def micro_at_def landed_def split: sum.split)

lemmas walks_step = walks_kept[OF step_kept]

lemma ready_update [simp]:
  "kernel_ready A (k\<lparr>k_micro := m, k_log := l\<rparr>) \<longleftrightarrow> kernel_ok k \<and> micro_wired A m \<and> macro_wired A (k_macro k)
     \<and> sm_state (k_macro k) \<in> pf_modes A \<union> {DEGRADED, RISK_LOCKDOWN}"
  "kernel_ready A (k\<lparr>k_log := l\<rparr>) = kernel_ready A k"
  by (simp_all add: kernel_ready_def kernel_ok_def active_ok_def)

lemma transition_table:
  assumes "transition m t trigger cid meta now w = (r, m', w')"
  shows "sm_transitions m' = sm_transitions m" "sm_callbacks m' = sm_callbacks m" "sm_initial m' = sm_initial m" "sm_state m' = sm_state m \<or> sm_state m' = t"
  using assms announce_cases[of m "new_record m t trigger cid (case meta of Some d \<Rightarrow> d | None \<Rightarrow> []) now" w]
  by (auto simp: transition_def split: if_splits)

lemma transition_result:
  assumes "transition m t trigger cid meta now w = (r, m', w')" "can_transition m t"
  shows "isl r \<and> m' = m \<and> \<not> silent (sm_callbacks m) \<or> \<not> isl r \<and> sm_state m' = t"
  using assms run_callbacks_silent[of "sm_callbacks m" "new_record m t trigger cid (case meta of Some d \<Rightarrow> d | None \<Rightarrow> []) now" w]
  by (auto simp: transition_def announce_def split: prod.splits option.splits)

lemma walks_micro: "t \<in> the (micro_transitions s) \<Longrightarrow> walks A s (micro_transition t trigger cid) t"
proof (rule leadsI)
  fix k :: "'a kernel"
  assume t: "t \<in> the (micro_transitions s)" and k: "micro_at A s k"
  then have can: "can_transition (k_micro k) t"
    by (cases s) (auto simp: micro_at_def kernel_ready_def micro_wired_def can_transition_def)
  obtain r m l where run: "transition (k_micro k) t trigger cid None (k_now k) (k_log k) = (r, m, l)"
    by (cases "transition (k_micro k) t trigger cid None (k_now k) (k_log k)")
  note res = transition_result[OF run can] transition_table[OF run]
  show "landed (micro_at A t) (kernel_ready A) (micro_transition t trigger cid k)"
    using k res by (cases r) (auto simp: micro_transition_def run landed_def micro_at_def kernel_ready_def micro_wired_def kernel_ok_def active_ok_def)
qed

lemma reset_walks:
  "leads (kernel_ready A) (micro_reset trigger cid) (micro_at A WAITING_FOR_MARKET_EVENT) (\<lambda>k. kernel_ready A k \<and> \<not> silent (pf_micro A))"
proof (rule leadsI)
  fix k :: "'a kernel"
  assume k: "kernel_ready A k"
  let ?r = "new_record (k_micro k) (sm_initial (k_micro k)) trigger cid [(''type'', MStr ''reset'')] (k_now k)"
  obtain l x where run: "run_callbacks (sm_callbacks (k_micro k)) ?r (k_log k) = (l, x)" by fastforce
  have "x \<noteq> None \<Longrightarrow> \<not> silent (pf_micro A)"
    using run_callbacks_silent[of "pf_micro A" ?r "k_log k"] run k by (auto simp: kernel_ready_def micro_wired_def)
  then show "landed (micro_at A WAITING_FOR_MARKET_EVENT) (\<lambda>k. kernel_ready A k \<and> \<not> silent (pf_micro A)) (micro_reset trigger cid k)"
    using k run by (cases x) (auto simp: micro_reset_def sm_reset_def announce_def landed_def micro_at_def kernel_ready_def micro_wired_def
      kernel_ok_def active_ok_def)
qed

subsection \<open>Escalation keeps the micro machine\<close>

lemma risk_transition_kept: "keeps (micro_kept A) (risk_transition t trigger cid)"
  by (rule kept.state_keeps)
    (simp add: risk_transition_def micro_kept_def kernel_ready_def kernel_ok_def active_ok_def split: prod.split)

lemma macro_transition_kept:
  assumes t: "t \<in> pf_modes A \<union> {DEGRADED, RISK_LOCKDOWN}"
  shows "keeps (micro_kept A) (macro_transition t trigger cid)"
proof (rule kept.state_keeps)
  fix k :: "'a kernel"
  obtain r m l where run: "transition (k_macro k) t trigger cid None (k_now k) (k_log k) = (r, m, l)"
    by (cases "transition (k_macro k) t trigger cid None (k_now k) (k_log k)")
  show "micro_kept A k (snd (macro_transition t trigger cid k))"
    using transition_table[OF run] t
    by (auto simp: macro_transition_def run micro_kept_def kernel_ready_def kernel_ok_def active_ok_def macro_wired_def)
qed

lemma raise_level_kept: "keeps (micro_kept A) (raise_level here next' trigger cid l)"
  unfolding raise_level_def by (intro kept.if_keeps kept.keeps risk_transition_kept)

lemma escalate_kept: "keeps (micro_kept A) (escalate_risk cfg rt cid)"
proof -
  have kill: "keeps (micro_kept A) (modify (\<lambda>k. if k_kill k = None then k
      else k\<lparr>k_kill := Some True, k_log := publish_numbered (OutKill a b) (k_log k)\<rparr>))" for a b
    by (rule kept.modify_keeps) (simp add: micro_kept_def kernel_ready_def kernel_ok_def active_ok_def)
  have flat: "keeps (micro_kept A) (andThen (emergency_flatten_all cfg rt cid) (\<lambda>(f, residual). risk_transition LOCKED (g f residual) cid))" for g
    by (rule kept.andThen_keeps[OF step_kept[OF flatten_all_step]]) (simp add: risk_transition_kept split: prod.split)
  show ?thesis unfolding escalate_risk_def
    by (rule kept.state_keeps, rule kept.at_state)
      (intro kept.keeps kept.if_keeps raise_level_kept kill flat macro_transition_kept, simp)
qed

subsection \<open>Every branch of a decision walks to the next tick\<close>

lemma draws_step: "keeps kernel_step (each (\<lambda>_. andThen draw_seq (\<lambda>_. ok ())) xs)"
  by (intro step.keeps draw_step)

lemma finalize_walks:
  assumes "LOG_AND_METRICS \<in> the (micro_transitions s)"
  shows "walks A s (finalize_tick timings cid trigger) WAITING_FOR_MARKET_EVENT"
  unfolding finalize_tick_def
  by (intro leads_then[OF walks_micro[OF assms]] leads_then[OF walks_step[OF draws_step]] walks_micro) simp

lemmas decision_finalizes = finalize_walks[of ORDER_DECISION, simplified] finalize_walks[of RISK_CHECK, simplified]

lemma lock_down_walks: "walks A s (lock_down cfg rt cid trigger) WAITING_FOR_MARKET_EVENT"
  unfolding lock_down_def
  by (intro leads_then[OF walks_kept[OF escalate_kept]] leads_mono[OF reset_walks]) (auto simp: micro_at_def)

lemma settle_and_update_walks: "walks A ORDER_ACK (settle_and_update cfg rt cid expected trigger) POSITION_UPDATE"
  unfolding settle_and_update_def
  by (intro leads_then[OF walks_step[OF poll_step]] leads_then[OF walks_step[OF apply_acks_step]]
      leads_then[OF walks_micro] leads_then[OF walks_step[OF reconcile_fills_step]] leads_ok) simp

lemma submit_order_walks: "walks A ORDER_DECISION (submit_order cfg rt timings i style cid o') WAITING_FOR_MARKET_EVENT"
proof -
  have remember: "keeps kernel_step (remember_working_exit style o')"
    unfolding remember_working_exit_def
    by (rule step.modify_keeps) (simp add: step.stay kernel_step_def kernel_ok_def active_ok_def)
  have failed: "walks A ORDER_SUBMIT (submit_failed_walk timings cid) WAITING_FOR_MARKET_EVENT"
    unfolding submit_failed_walk_def
    by (rule leads_then[OF walks_micro leads_then[OF walks_micro finalize_walks]]) simp_all
  have sent: "walks A ORDER_SUBMIT (andThen (publish_event (OutOrder o')) (\<lambda>_. andThen (micro_transition ORDER_ACK a cid)
      (\<lambda>_. andThen (settle_and_update cfg rt cid ids b) (\<lambda>_. finalize_tick timings cid c)))) WAITING_FOR_MARKET_EVENT" for a b c ids
    by (rule leads_then[OF walks_step[OF publish_event_step] leads_then[OF walks_micro leads_then[OF settle_and_update_walks finalize_walks]]])
      simp_all
  show ?thesis unfolding submit_order_def
    by (rule leads_then[OF walks_step[OF track_order_step] leads_then[OF walks_step[OF remember] leads_then[OF walks_micro
        leads_then[OF walks_step[OF submit_tracked_step] leads_if[OF failed sent]]]]]) simp
qed

lemma guard_walks: "walks A ORDER_DECISION (guard_and_submit cfg rt timings i style cid o') WAITING_FOR_MARKET_EVENT"
  by (rule leadsI) (simp add: guard_and_submit_def leadsD[OF submit_order_walks] leadsD[OF decision_finalizes(1)])

lemma check_built_walks: "walks A ORDER_DECISION (check_built_order cfg rt tr timings i v style cid o') WAITING_FOR_MARKET_EVENT"
proof (rule leadsI)
  fix k :: "'a kernel"
  assume k: "micro_at A ORDER_DECISION k"
  define raw where "raw = tr_check_order tr o' (store_view (k_positions k))"
  show "landed (micro_at A WAITING_FOR_MARKET_EVENT) (kernel_ready A) (check_built_order cfg rt tr timings i v style cid o' k)"
    unfolding check_built_order_def raw_def[symmetric] Let_def publish_verdict_def
    by (rule landed_then, rule leadsD[OF walks_step[OF publish_event_step] k], rule leadsI)
      (auto simp: leadsD[OF decision_finalizes(1)] leadsD[OF lock_down_walks] leadsD[OF guard_walks] split: risk_action.split)
qed

lemma lift_step: "keeps kernel_step (lift_result x)"
  by (simp add: keeps_def lift_result_def step.stay)

lemma edge_gate_step: "keeps kernel_step (signal_passes_edge_cost_gate tr sig s sd n q a b cid)"
  unfolding signal_passes_edge_cost_gate_def
  by (rule step.andThen_keeps[OF lift_step])
    (auto intro!: step.if_keeps step.keeps alert_step split: prod.split)

lemma build_step: "keeps kernel_step (try_build_order_from_intent cfg tr i v cid quote style)"
  unfolding try_build_order_from_intent_def Let_def
  by (rule step.andThen_keeps[OF lift_step], rule step.andThen_keeps[OF draw_step],
      (rule step.if_keeps[OF step.ok_keeps])+, rule step.andThen_keeps[OF lift_step], rule step.andThen_keeps)
    (auto intro!: step.if_keeps step.keeps edge_gate_step lift_step split: option.split)

lemma build_walks: "walks A ORDER_DECISION (build_and_submit cfg rt tr timings i v style cid q) WAITING_FOR_MARKET_EVENT"
  unfolding build_and_submit_def
  by (rule leads_then[OF walks_step[OF build_step]]) (simp add: finalize_walks check_built_walks split: sum.split)

lemma publish_verdict_step: "keeps kernel_step (publish_verdict v)"
  unfolding publish_verdict_def by (rule publish_event_step)

subsection \<open>Reversals walk too\<close>

lemma reverse_order_steps:
  "keeps kernel_step (reverse_exit_order cfg i cid)"
  "keeps kernel_step (reverse_entry_order cfg tr i cid q n short)"
  unfolding reverse_exit_order_def reverse_entry_order_def Let_def
  by (intro step.andThen_keeps draw_step lift_step step.return_keeps)+

lemma reverse_gates_step: "keeps kernel_step (reverse_edge_gates tr i cid q n short)"
  unfolding reverse_edge_gates_def Let_def
  by (rule step.andThen_keeps[OF lift_step]) (auto intro!: step.keeps alert_step edge_gate_step split: prod.split)

lemma check_entry_step: "keeps kernel_step (check_reverse_entry tr i v view raw entry)"
  unfolding check_reverse_entry_def Let_def publish_verdict_def by (intro step.keeps publish_event_step)

lemma reverse_entry_step: "keeps kernel_step (reverse_entry cfg tr i v cid q)"
proof -
  have go: "keeps kernel_step (andThen (reverse_edge_gates tr i cid q n short)
      (\<lambda>passes. if \<not> passes then ok None
         else andThen (reverse_entry_order cfg tr i cid q n short) (check_reverse_entry tr i v view raw)))" for n short view raw
    by (intro step.andThen_keeps step.if_keeps step.ok_keeps reverse_gates_step reverse_order_steps check_entry_step)
  show ?thesis
    by (rule step.state_keeps) (simp add: reverse_entry_def Let_def step.stay step.at_state[OF go])
qed

lemma submit_entry_step: "keeps kernel_step (submit_reverse_entry rt i entry)"
  unfolding submit_reverse_entry_def
  by (auto intro!: step.keeps step.if_keeps track_order_step submit_tracked_step publish_event_step split: option.split)

lemma submit_reverse_walks: "walks A ORDER_DECISION (submit_reverse cfg rt timings i cid xo entry) WAITING_FOR_MARKET_EVENT"
proof -
  have tail: "walks A ORDER_SUBMIT (andThen (micro_transition ORDER_ACK a cid)
      (\<lambda>_. andThen (settle_and_update cfg rt cid ids b) (\<lambda>_. finalize_tick timings cid c))) WAITING_FOR_MARKET_EVENT" for a b c ids
    by (rule leads_then[OF walks_micro leads_then[OF settle_and_update_walks finalize_walks]]) simp_all
  show ?thesis unfolding submit_reverse_def
    by (rule leads_then[OF walks_micro leads_then[OF walks_step[OF track_order_step] leads_then[OF walks_step[OF submit_tracked_step]
        leads_if[OF tail leads_then[OF walks_step[OF publish_event_step] leads_then[OF walks_step[OF submit_entry_step] tail]]]]]]) simp
qed

lemma reverse_walks: "walks A ORDER_DECISION (execute_reverse cfg rt tr timings i v cid q) WAITING_FOR_MARKET_EVENT"
proof -
  define go where "go xo xv k = (if rv_action xv = FORCE_FLATTEN \<and> can_lock_down k
      then andThen (escalate_risk cfg rt cid) (\<lambda>_. finalize_tick timings cid ''reverse_exit_force_flatten_escalation'') k
      else andThen (reverse_entry cfg tr i v cid q) (submit_reverse cfg rt timings i cid xo) k)" for xo and xv :: risk_verdict and k :: "'a kernel"
  have escalated: "walks A ORDER_DECISION (andThen (escalate_risk cfg rt cid)
      (\<lambda>_. finalize_tick timings cid ''reverse_exit_force_flatten_escalation'')) WAITING_FOR_MARKET_EVENT"
    by (rule leads_then[OF walks_kept[OF escalate_kept] decision_finalizes(1)])
  have entered: "walks A ORDER_DECISION (andThen (reverse_entry cfg tr i v cid q) (submit_reverse cfg rt timings i cid xo))
      WAITING_FOR_MARKET_EVENT" for xo
    by (rule leads_then[OF walks_step[OF reverse_entry_step] submit_reverse_walks])
  have go: "walks A ORDER_DECISION (go xo xv) WAITING_FOR_MARKET_EVENT" for xo xv
    by (rule leadsI) (simp add: go_def leadsD[OF escalated] leadsD[OF entered])
  have checked: "walks A ORDER_DECISION (\<lambda>k. andThen (publish_verdict (f k)) (\<lambda>_. go xo (f k)) k) WAITING_FOR_MARKET_EVENT" for f xo
    by (rule leadsI, rule leadsD[OF leads_then[OF walks_step[OF publish_verdict_step] go]])
  show ?thesis unfolding execute_reverse_def Let_def go_def[symmetric]
    by (rule leads_then[OF walks_step[OF cancel_resting_step] leads_then[OF walks_step[OF reverse_order_steps(1)] checked]])
qed

subsection \<open>The whole walk\<close>

lemma decision_walks: "walks A RISK_CHECK (order_decision cfg rt tr timings i v style cid q) WAITING_FOR_MARKET_EVENT"
proof -
  have blocked: "walks A ORDER_DECISION (andThen (block_alert b cid) (\<lambda>_. finalize_tick timings cid c)) WAITING_FOR_MARKET_EVENT" for b c
    unfolding block_alert_def
    by (rule leads_then[OF walks_step decision_finalizes(1)]) (intro step.if_keeps alert_step step.ok_keeps)
  show ?thesis unfolding order_decision_def
    by (rule leads_then[OF walks_micro leads_then[OF walks_step[OF lift_step]]])
      (auto simp: blocked reverse_walks build_walks split: option.split)
qed

lemma check_intent_walks: "walks A SIGNAL_EVALUATE (check_intent cfg rt tr timings sig i style cid q) WAITING_FOR_MARKET_EVENT"
proof -
  define go where "go v k = (case rv_action v of
      FORCE_FLATTEN \<Rightarrow>
        if can_lock_down k then lock_down cfg rt cid ''pipeline_abort:risk_lockdown'' k
        else finalize_tick timings cid ''risk_force_flatten_simulated'' k
    | REJECT \<Rightarrow> finalize_tick timings cid ''risk_reject_no_order'' k
    | _ \<Rightarrow> order_decision cfg rt tr timings i v style cid q k)" for v :: risk_verdict and k :: "'a kernel"
  have go: "walks A RISK_CHECK (go v) WAITING_FOR_MARKET_EVENT" for v
    by (rule leadsI) (auto simp: go_def leadsD[OF decision_finalizes(2)] leadsD[OF lock_down_walks] leadsD[OF decision_walks]
        split: risk_action.split)
  have "walks A RISK_CHECK (\<lambda>k. andThen (publish_verdict (f k)) (\<lambda>_. go (g k)) k) WAITING_FOR_MARKET_EVENT" for f g
    by (rule leadsI, rule leadsD[OF leads_then[OF walks_step[OF publish_verdict_step] go]])
  then show ?thesis unfolding check_intent_def Let_def go_def[symmetric]
    by (rule leads_then[OF walks_micro, rotated]) simp
qed

lemma evaluate_walks: "walks A SIGNAL_EVALUATE (evaluate_selected cfg rt tr dc targets timings selected cid q) WAITING_FOR_MARKET_EVENT"
proof (cases selected)
  case None
  then show ?thesis by (simp add: evaluate_selected_def finalize_walks)
next
  case (Some sig)
  have decided: "walks A SIGNAL_EVALUATE (\<lambda>k. andThen (lift_result (f k)) (\<lambda>(i, style). if oi_intent i = NO_ACTION
      then finalize_tick timings cid ''intent_no_action'' else check_intent cfg rt tr ts sig i style cid q) k) WAITING_FOR_MARKET_EVENT"
    for f :: "'a kernel \<Rightarrow> (order_intent \<times> exec_style option) result" and ts
    by (rule leadsI, rule leadsD[OF leads_then[OF walks_step[OF lift_step]]])
      (auto simp: finalize_walks check_intent_walks split: prod.split)
  show ?thesis unfolding evaluate_selected_def Some option.case evaluate_signal_def
    by (rule leads_then[OF walks_step[OF lift_step] decided])
qed

end
