(* ===== verification/Arbitration.thy ===== *)
theory Arbitration
  imports Numerics Events "HOL-Library.Multiset"
begin

section \<open>Choosing one signal (core/composition\_protocol.py, composition/selection\_policy.py)\<close>

text \<open>
  Which standalone signals of a tick may take part in arbitration, and the default policy that
  reduces them to at most one: an exit before anything else, then the highest score above a
  dead zone. The result accounts for every input with a reason.
\<close>

subsection \<open>Taking part\<close>

definition signal_reduces_book :: "int \<Rightarrow> signal_direction \<Rightarrow> bool" where
  "signal_reduces_book q d \<longleftrightarrow>
     (if q = 0 then False else if d = FLAT then True else if 0 < q \<and> d = SHORT then True else q < 0 \<and> d = LONG)"

definition standalone_signal_actionable_for_strategy :: "signal \<Rightarrow> int \<Rightarrow> int \<Rightarrow> bool \<Rightarrow> bool" where
  "standalone_signal_actionable_for_strategy sig strategy_qty aggregate_qty prior_fill \<longleftrightarrow>
     (if sg_direction sig = FLAT \<and> sg_gate_state sig = ''OFF'' \<and> strategy_qty = 0 \<and> aggregate_qty \<noteq> 0 \<and> \<not> prior_fill
      then False
      else if sg_direction sig = FLAT then True
      else if signal_reduces_book aggregate_qty (sg_direction sig) then signal_reduces_book strategy_qty (sg_direction sig)
      else True)"

definition is_redundant_gate_close_flat :: "signal \<Rightarrow> int \<Rightarrow> bool \<Rightarrow> bool" where
  "is_redundant_gate_close_flat sig aggregate_qty prior_fill \<longleftrightarrow>
     sg_direction sig = FLAT \<and> sg_gate_state sig = ''OFF'' \<and> aggregate_qty = 0 \<and> \<not> prior_fill"

definition collision_is_harmless_flat_gate_close :: "signal list \<Rightarrow> int \<Rightarrow> bool" where
  "collision_is_harmless_flat_gate_close cands aggregate_qty \<longleftrightarrow>
     (if aggregate_qty \<noteq> 0 then False
      else list_all (\<lambda>s. sg_direction s = FLAT \<and> sg_gate_state s = ''OFF'') cands)"

subsection \<open>The policy\<close>

record exclusion =
  ex_signal :: signal
  ex_reason :: string

record selection =
  se_in_scope :: "signal list"
  se_contributors :: "signal list"
  se_exclusions :: "exclusion list"

definition winner :: "selection \<Rightarrow> signal option" where
  "winner r = (case se_contributors r of [] \<Rightarrow> None | s # _ \<Rightarrow> Some s)"

definition key_less :: "(rat \<times> string) \<Rightarrow> (rat \<times> string) \<Rightarrow> bool" where
  \<comment> \<open>tuples compare by their first difference\<close>
  "key_less a b \<longleftrightarrow> fst a < fst b \<or> (fst a = fst b \<and> snd a < snd b)"

definition first_least :: "(signal \<Rightarrow> rat \<times> string) \<Rightarrow> nat \<times> signal \<Rightarrow> (nat \<times> signal) list \<Rightarrow> nat \<times> signal" where
  \<comment> \<open>\<open>min(signals, key=...)\<close>: the first of the least ones, with its position\<close>
  "first_least key p ps = fold (\<lambda>q best. if key_less (key (snd q)) (key (snd best)) then q else best) ps p"

definition flat_key :: "signal \<Rightarrow> rat \<times> string" where
  "flat_key s = (- sg_strength s, sg_strategy s)"

definition score :: "signal \<Rightarrow> rat" where
  "score s = fl_mul (sg_edge_bps s) (sg_strength s)"

definition score_key :: "signal \<Rightarrow> rat \<times> string" where
  "score_key s = (- score s, sg_strategy s)"

definition indexed :: "signal list \<Rightarrow> (nat \<times> signal) list" where
  "indexed ss = zip [0..<length ss] ss"

definition selected_over :: "signal list \<Rightarrow> nat \<Rightarrow> signal \<Rightarrow> selection" where
  \<comment> \<open>\<open>s is not winner\<close> is identity: the position tells the objects of the buffer apart\<close>
  "selected_over signals i best =
     \<lparr>se_in_scope = signals, se_contributors = [best],
      se_exclusions = map (\<lambda>(_, s). \<lparr>ex_signal = s, ex_reason = ''not_selected_in_arbitration_winner_is:'' @ sg_strategy best\<rparr>)
        (filter (\<lambda>(j, _). j \<noteq> i) (indexed signals))\<rparr>"

definition select_top1 :: "float64 \<Rightarrow> signal list \<Rightarrow> selection" where
  "select_top1 dead_zone signals =
     (case indexed signals of
        [] \<Rightarrow> \<lparr>se_in_scope = [], se_contributors = [], se_exclusions = []\<rparr>
      | [(_, s)] \<Rightarrow> \<lparr>se_in_scope = [s], se_contributors = [s], se_exclusions = []\<rparr>
      | p # ps \<Rightarrow>
          (case filter (\<lambda>(_, s). sg_direction s = FLAT) (p # ps) of
             f # fs \<Rightarrow> (case first_least flat_key f fs of (i, s) \<Rightarrow> selected_over signals i s)
           | [] \<Rightarrow>
               (case first_least score_key p ps of (i, s) \<Rightarrow>
                  if score s < dead_zone
                  then \<lparr>se_in_scope = signals, se_contributors = [],
                        se_exclusions = map (\<lambda>s. \<lparr>ex_signal = s, ex_reason = ''arbitration_returned_none_dead_zone_or_conflict''\<rparr>) signals\<rparr>
                  else selected_over signals i s)))"

subsection \<open>The least key\<close>

lemma key_less_trans: "\<not> key_less b a \<Longrightarrow> \<not> key_less c b \<Longrightarrow> \<not> key_less c a"
  by (auto simp: key_less_def not_less)

lemma key_antisym: "\<not> key_less a b \<Longrightarrow> \<not> key_less b a \<Longrightarrow> a = b"
  by (cases a; cases b) (auto simp: key_less_def not_less dest: order.antisym)

lemma first_least_in: "first_least key p ps \<in> insert p (set ps)"
  unfolding first_least_def by (induction ps arbitrary: p) auto

lemma first_least_le: "q \<in> insert p (set ps) \<Longrightarrow> \<not> key_less (key (snd q)) (key (snd (first_least key p ps)))"
proof (induction ps arbitrary: p q)
  case Nil
  then show ?case by (simp add: first_least_def key_less_def)
next
  case (Cons x ps)
  let ?p = "if key_less (key (snd x)) (key (snd p)) then x else p"
  have step: "first_least key p (x # ps) = first_least key ?p ps" by (simp add: first_least_def)
  have best: "\<not> key_less (key (snd ?p)) (key (snd (first_least key ?p ps)))" by (rule Cons.IH) simp
  show ?case
  proof (cases "q \<in> set ps")
    case True
    then show ?thesis using Cons.IH unfolding step by simp
  next
    case False
    then have "q = p \<or> q = x" using Cons.prems by auto
    then have "\<not> key_less (key (snd q)) (key (snd ?p))" by (auto simp: key_less_def not_less)
    then show ?thesis unfolding step using key_less_trans[OF best] by blast
  qed
qed

lemma indexed_simps [simp]:
  "set (indexed ss) = {(i, ss ! i) |i. i < length ss}" "map snd (indexed ss) = ss" "indexed ss = [] \<longleftrightarrow> ss = []"
  by (auto simp: indexed_def set_zip intro!: exI)

lemma all_but_one:
  "n \<le> i \<Longrightarrow> i < n + length ss \<Longrightarrow>
   add_mset (ss ! (i - n)) (mset (map snd (filter (\<lambda>(j, _). j \<noteq> i) (zip [n..<n + length ss] ss)))) = mset ss"
proof (induction ss arbitrary: n)
  case (Cons s ss)
  have later: "filter (\<lambda>(j, _). j \<noteq> i) (zip [Suc i..<Suc i + length ss] ss) = zip [Suc i..<Suc i + length ss] ss"
    by (rule filter_True) (auto dest: set_zip_leftD)
  have split: "zip [n..<n + length (s # ss)] (s # ss) = (n, s) # zip [Suc n..<Suc n + length ss] ss"
    by (simp add: upt_conv_Cons del: upt_Suc)
  show ?case
  proof (cases "i = n")
    case True
    then show ?thesis using later unfolding split by (simp del: upt_Suc)
  next
    case False
    then show ?thesis using Cons.IH[of "Suc n"] Cons.prems unfolding split
      by (simp del: upt_Suc add: nth_Cons' add_mset_commute)
  qed
qed simp

lemma selected_over_accounts:
  assumes "i < length ss" "s = ss ! i"
  shows "mset (se_contributors (selected_over ss i s)) + mset (map ex_signal (se_exclusions (selected_over ss i s))) = mset ss"
proof -
  have ex: "map ex_signal (se_exclusions (selected_over ss i s)) = map snd (filter (\<lambda>(j, _). j \<noteq> i) (indexed ss))"
    by (simp add: selected_over_def case_prod_beta comp_def)
  have co: "se_contributors (selected_over ss i s) = [ss ! i]" by (simp add: selected_over_def assms(2))
  show ?thesis unfolding ex co using all_but_one[of 0 i ss] assms(1) by (simp add: indexed_def)
qed

subsection \<open>What the policy selects\<close>

lemma select_cases:
  obtains (few) "length signals \<le> 1" "se_contributors (select_top1 dz signals) = signals" "se_exclusions (select_top1 dz signals) = []"
  | (flat) i where "i < length signals" "2 \<le> length signals" "sg_direction (signals ! i) = FLAT"
      "\<And>s. s \<in> set signals \<Longrightarrow> sg_direction s = FLAT \<Longrightarrow> \<not> key_less (flat_key s) (flat_key (signals ! i))"
      "select_top1 dz signals = selected_over signals i (signals ! i)"
  | (top) i where "i < length signals" "2 \<le> length signals" "\<And>s. s \<in> set signals \<Longrightarrow> sg_direction s \<noteq> FLAT"
      "\<And>s. s \<in> set signals \<Longrightarrow> \<not> key_less (score_key s) (score_key (signals ! i))" "dz \<le> score (signals ! i)"
      "select_top1 dz signals = selected_over signals i (signals ! i)"
  | (dead) "2 \<le> length signals" "\<And>s. s \<in> set signals \<Longrightarrow> sg_direction s \<noteq> FLAT \<and> score s < dz"
      "se_contributors (select_top1 dz signals) = []" "map ex_signal (se_exclusions (select_top1 dz signals)) = signals"
proof (cases "length signals \<le> 1")
  case True
  then show ?thesis
    by (cases signals) (auto intro!: few simp: select_top1_def indexed_def)
next
  case False
  then obtain p ps where ps: "indexed signals = p # ps" "ps \<noteq> []" and len: "2 \<le> length signals"
    by (cases "indexed signals"; cases "tl (indexed signals)") (auto simp: indexed_def dest: arg_cong[of _ _ length])
  have at_index: "fst x < length signals \<and> snd x = signals ! fst x" if "x \<in> set (indexed signals)" for x
    using that by auto
  have there: "\<exists>x \<in> set (indexed signals). snd x = s" if "s \<in> set signals" for s
    using that by (auto simp: in_set_conv_nth)
  show ?thesis
  proof (cases "filter (\<lambda>(_, s). sg_direction s = FLAT) (p # ps)")
    case (Cons f fs)
    define b where "b = first_least flat_key f fs"
    have mem: "x \<in> insert f (set fs) \<longleftrightarrow> x \<in> set (indexed signals) \<and> sg_direction (snd x) = FLAT" for x
    proof -
      have "x \<in> set (f # fs) \<longleftrightarrow> x \<in> set (p # ps) \<and> sg_direction (snd x) = FLAT"
        unfolding Cons[symmetric] by (auto simp: case_prod_beta simp del: filter.simps)
      then show ?thesis by (simp only: ps(1) list.set)
    qed
    have b: "b \<in> set (indexed signals)" "sg_direction (snd b) = FLAT" using mem first_least_in[of flat_key f fs] by (auto simp: b_def)
    have least: "\<not> key_less (flat_key s) (flat_key (snd b))" if s: "s \<in> set signals" "sg_direction s = FLAT" for s
      using there[OF s(1)] s(2) mem first_least_le[of _ f fs flat_key] unfolding b_def by blast
    obtain n s0 x ps' where shape: "p = (n, s0)" "ps = x # ps'" using ps(2) by (cases p; cases ps) auto
    have "select_top1 dz signals = selected_over signals (fst b) (snd b)"
      using Cons unfolding shape by (simp add: select_top1_def ps(1) shape b_def case_prod_beta del: filter.simps)
    then show ?thesis using flat[of "fst b"] at_index[OF b(1)] b(2) least len by simp
  next
    case Nil
    define b where "b = first_least score_key p ps"
    have dir: "sg_direction s \<noteq> FLAT" if "s \<in> set signals" for s
      using there[OF that] Nil unfolding ps(1)[symmetric] filter_empty_conv by auto
    have b: "b \<in> set (indexed signals)" using first_least_in[of score_key p ps] by (simp add: b_def ps(1))
    have least: "\<not> key_less (score_key s) (score_key (snd b))" if s: "s \<in> set signals" for s
    proof -
      obtain x where "x \<in> set (p # ps)" "snd x = s" using there[OF s] unfolding ps(1) by blast
      then show ?thesis using first_least_le[of x p ps score_key] unfolding b_def list.set by blast
    qed
    have sel: "select_top1 dz signals = (if score (snd b) < dz
        then \<lparr>se_in_scope = signals, se_contributors = [],
              se_exclusions = map (\<lambda>s. \<lparr>ex_signal = s, ex_reason = ''arbitration_returned_none_dead_zone_or_conflict''\<rparr>) signals\<rparr>
        else selected_over signals (fst b) (snd b))"
    proof -
      obtain n s0 x ps' where shape: "p = (n, s0)" "ps = x # ps'" using ps(2) by (cases p; cases ps) auto
      show ?thesis
        using Nil unfolding shape by (simp add: select_top1_def ps(1) shape b_def case_prod_beta del: filter.simps)
    qed
    show ?thesis
    proof (cases "score (snd b) < dz")
      case True
      have "score s < dz" if "s \<in> set signals" for s
        using least[OF that] True by (auto simp: key_less_def score_key_def)
      then show ?thesis using dead len dir sel True by (simp add: comp_def)
    next
      case False
      then show ?thesis using top[of "fst b"] at_index[OF b] dir least len sel by auto
    qed
  qed
qed

definition wins :: "float64 \<Rightarrow> signal list \<Rightarrow> signal \<Rightarrow> bool" where
  "wins dz signals s \<longleftrightarrow> s \<in> set signals
     \<and> (if \<exists>x \<in> set signals. sg_direction x = FLAT
        then sg_direction s = FLAT \<and> (\<forall>x \<in> set signals. sg_direction x = FLAT \<longrightarrow> \<not> key_less (flat_key x) (flat_key s))
        else dz \<le> score s \<and> (\<forall>x \<in> set signals. \<not> key_less (score_key x) (score_key s)))"

lemma winner_wins:
  assumes "2 \<le> length signals"
  shows "case winner (select_top1 dz signals) of Some s \<Rightarrow> wins dz signals s
    | None \<Rightarrow> \<forall>x \<in> set signals. sg_direction x \<noteq> FLAT \<and> score x < dz"
  by (rule select_cases[of signals dz]) (use assms in \<open>force simp: winner_def wins_def selected_over_def\<close>)+

lemma wins_unique:
  assumes "wins dz xs a" "wins dz ys b" "set xs = set ys" "distinct (map sg_strategy xs)"
  shows "a = b"
proof -
  have "sg_strategy a = sg_strategy b"
  proof (cases "\<exists>x \<in> set ys. sg_direction x = FLAT")
    case True
    then have "flat_key a = flat_key b" using assms(1-3) by (auto simp: wins_def intro!: key_antisym)
    then show ?thesis by (simp add: flat_key_def)
  next
    case False
    then have "score_key a = score_key b" using assms(1-3) by (auto simp: wins_def intro!: key_antisym)
    then show ?thesis by (simp add: score_key_def)
  qed
  then show ?thesis using assms by (auto simp: wins_def distinct_map dest: inj_onD)
qed

lemma selection_accounts:
  "length (se_contributors (select_top1 dz signals)) \<le> 1
   \<and> mset (se_contributors (select_top1 dz signals)) + mset (map ex_signal (se_exclusions (select_top1 dz signals))) = mset signals"
proof (rule select_cases[of signals dz])
  fix i
  assume "i < length signals" "select_top1 dz signals = selected_over signals i (signals ! i)"
  then show ?thesis using selected_over_accounts[of i signals] by (simp add: selected_over_def)
  then show ?thesis .
qed (simp_all del: mset_map)

lemma winner_any_order:
  assumes "mset others = mset signals" "distinct (map sg_strategy signals)"
  shows "winner (select_top1 dz others) = winner (select_top1 dz signals)"
proof (cases "length signals \<le> 1")
  case True
  then have "others = signals" using assms(1) by (cases signals; cases "tl signals") auto
  then show ?thesis by simp
next
  case False
  have len: "length others = length signals" and set: "set others = set signals"
    using assms(1) by (auto dest: mset_eq_length mset_eq_setD)
  have here: "2 \<le> length signals" "2 \<le> length others" using False len by simp_all
  show ?thesis
    using winner_wins[OF here(1), of dz] winner_wins[OF here(2), of dz] wins_unique[OF _ _ set[symmetric] assms(2)] set
    by (auto simp: wins_def split: option.splits if_splits)
qed

text \<open>Arbitration of the standalone signals accounts for every one of them and lets exits
  through. At most one signal is selected, and the selected and excluded ones are together the
  buffered ones. With several candidates: if one of them is FLAT then a FLAT one of greatest
  strength is selected, however strong the others; otherwise the selected one has the highest
  score and reaches the dead zone, and none is selected only when every score is below it. When
  the candidates come from different strategies their order does not matter.\<close>

theorem selection_sound:
  shows "let r = select_top1 dz signals in
      length (se_contributors r) \<le> 1 \<and> mset (se_contributors r) + mset (map ex_signal (se_exclusions r)) = mset signals
      \<and> (2 \<le> length signals \<longrightarrow>
           (case winner r of
              Some s \<Rightarrow> s \<in> set signals
                \<and> (if \<exists>x \<in> set signals. sg_direction x = FLAT
                   then sg_direction s = FLAT \<and> (\<forall>x \<in> set signals. sg_direction x = FLAT \<longrightarrow> sg_strength x \<le> sg_strength s)
                   else dz \<le> score s \<and> (\<forall>x \<in> set signals. score x \<le> score s))
            | None \<Rightarrow> \<forall>x \<in> set signals. sg_direction x \<noteq> FLAT \<and> score x < dz))
      \<and> (\<forall>others. mset others = mset signals \<and> distinct (map sg_strategy signals)
           \<longrightarrow> winner (select_top1 dz others) = winner r)"
proof -
  have key: "\<not> key_less (flat_key x) (flat_key s) \<Longrightarrow> sg_strength x \<le> sg_strength s"
    "\<not> key_less (score_key x) (score_key s) \<Longrightarrow> score x \<le> score s" for x s
    by (auto simp: key_less_def flat_key_def score_key_def)
  have some: "if \<exists>x \<in> set signals. sg_direction x = FLAT
      then sg_direction s = FLAT \<and> (\<forall>x \<in> set signals. sg_direction x = FLAT \<longrightarrow> sg_strength x \<le> sg_strength s)
      else dz \<le> score s \<and> (\<forall>x \<in> set signals. score x \<le> score s)" "s \<in> set signals" if "wins dz signals s" for s
    using that key by (cases "\<exists>x \<in> set signals. sg_direction x = FLAT"; force simp: wins_def)+
  have selected: "case winner (select_top1 dz signals) of
      Some s \<Rightarrow> s \<in> set signals
        \<and> (if \<exists>x \<in> set signals. sg_direction x = FLAT
           then sg_direction s = FLAT \<and> (\<forall>x \<in> set signals. sg_direction x = FLAT \<longrightarrow> sg_strength x \<le> sg_strength s)
           else dz \<le> score s \<and> (\<forall>x \<in> set signals. score x \<le> score s))
    | None \<Rightarrow> \<forall>x \<in> set signals. sg_direction x \<noteq> FLAT \<and> score x < dz" if "2 \<le> length signals"
    using winner_wins[OF that, of dz] some by (cases "winner (select_top1 dz signals)") simp_all
  show ?thesis unfolding Let_def
    by (intro conjI impI allI selection_accounts[THEN conjunct1] selection_accounts[THEN conjunct2] selected)
      (blast intro: winner_any_order)+
qed

definition sample_candidate :: "strategy \<Rightarrow> signal_direction \<Rightarrow> rat \<Rightarrow> signal" where
  "sample_candidate strat d strength = \<lparr>ev_timestamp = 1, ev_correlation = ''c'', ev_sequence = 1, ev_source_layer = ''SIGNAL'',
     ev_schema_version = schema_version, sg_symbol = ''X'', sg_strategy = strat, sg_direction = d, sg_strength = strength, sg_edge_bps = 1,
     sg_disclosed_cost_bps = 0, sg_disclosed_margin = 0, sg_metadata = [], sg_layer = ''SIGNAL'', sg_horizon_seconds = 0,
     sg_gate_state = ''ON'', sg_consumed_features = [], sg_mechanism = None, sg_half_life_seconds = 0\<rparr>"

lemma selection_sound_witness:
  "winner (select_top1 (1/2) [sample_candidate ''a'' LONG 1, sample_candidate ''b'' FLAT (1/2)]) = Some (sample_candidate ''b'' FLAT (1/2))
   \<and> winner (select_top1 (1/2) [sample_candidate ''b'' FLAT (1/2), sample_candidate ''a'' LONG 1]) = Some (sample_candidate ''b'' FLAT (1/2))"
proof -
  let ?a = "sample_candidate ''a'' LONG 1" and ?b = "sample_candidate ''b'' FLAT (1/2)"
  note sound = selection_sound[of "1/2" "[?a, ?b]", unfolded Let_def]
  have len: "2 \<le> length [?a, ?b]" and flat: "\<exists>x \<in> set [?a, ?b]. sg_direction x = FLAT" and dir: "sg_direction ?a \<noteq> FLAT"
    by (simp_all add: sample_candidate_def)
  have "case winner (select_top1 (1/2) [?a, ?b]) of None \<Rightarrow> False | Some s \<Rightarrow> s \<in> set [?a, ?b] \<and> sg_direction s = FLAT"
    using sound[THEN conjunct2, THEN conjunct2, THEN conjunct1, rule_format, OF len] flat
    by (cases "winner (select_top1 (1/2) [?a, ?b])") auto
  then have w: "winner (select_top1 (1/2) [?a, ?b]) = Some ?b"
    using dir by (cases "winner (select_top1 (1/2) [?a, ?b])") auto
  have "winner (select_top1 (1/2) [?b, ?a]) = winner (select_top1 (1/2) [?a, ?b])"
    using sound[THEN conjunct2, THEN conjunct2, THEN conjunct2, rule_format, of "[?b, ?a]"] by (simp add: sample_candidate_def)
  then show ?thesis using w by simp
qed

end
