(* ===== verification/Feed_Health.thy ===== *)
theory Feed_Health
  imports Machines
begin

section \<open>Feed health and trading halts (core/data\_health.py, ingestion/massive\_normalizer.py)\<close>

text \<open>
  The normalizer keeps one health machine per symbol and feed, driven by the continuity of the
  vendor's sequence numbers, by halt prints on the trade tape and by corrupt messages; the
  store of halted symbols and their entry blackouts is shared with the kernel. What the code
  relies on is that a symbol is in the store exactly when its trade machine is halted. The
  parsing of wire messages is not modelled: an accepted message is its symbol, feed, sequence
  number, exchange time and fingerprint.
\<close>

subsection \<open>The halt store\<close>

datatype halt_signal = HALT_ON | HALT_OFF

definition classify_halt_status :: "int list \<Rightarrow> int list \<Rightarrow> int list \<Rightarrow> halt_signal option" where
  "classify_halt_status conditions on_codes off_codes =
     (if on_codes = [] \<and> off_codes = [] then None
      else if list_ex (\<lambda>c. c \<in> set on_codes) conditions then Some HALT_ON
      else if list_ex (\<lambda>c. c \<in> set off_codes) conditions then Some HALT_OFF
      else None)"

record halt_store =
  hs_halted :: "symbol list"
  hs_blackout :: "(symbol \<times> ns) list"
  hs_on_codes :: "int list"
  hs_off_codes :: "int list"
  hs_blackout_ns :: int
  hs_forensic_open :: "symbol list"

definition halt_store_new :: halt_store where
  "halt_store_new = \<lparr>hs_halted = [], hs_blackout = [], hs_on_codes = [], hs_off_codes = [], hs_blackout_ns = 0, hs_forensic_open = []\<rparr>"

definition hs_configure :: "int list \<Rightarrow> int list \<Rightarrow> int \<Rightarrow> (int list \<times> int list) option \<Rightarrow> halt_store \<Rightarrow> halt_store result" where
  \<comment> \<open>the codebooks are sets; the last argument is a peer's\<close>
  "hs_configure on_codes off_codes blackout peer s =
     (if (case peer of Some (p_on, p_off) \<Rightarrow> set p_on \<noteq> set on_codes \<or> set p_off \<noteq> set off_codes | None \<Rightarrow> False)
      then Inl (KernelFault ''SESSION_HALT'')
      else Inr (s\<lparr>hs_on_codes := on_codes, hs_off_codes := off_codes, hs_blackout_ns := blackout\<rparr>))"

definition hs_reset :: "halt_store \<Rightarrow> halt_store" where
  "hs_reset s = s\<lparr>hs_halted := [], hs_blackout := [], hs_forensic_open := []\<rparr>"

definition hs_in_blackout :: "halt_store \<Rightarrow> symbol \<Rightarrow> ns \<Rightarrow> bool" where
  "hs_in_blackout h s now = (case map_of (hs_blackout h) s of None \<Rightarrow> False | Some deadline \<Rightarrow> now < deadline)"

subsection \<open>The normalizer's health machines\<close>

datatype feed = QUOTE_FEED | TRADE_FEED

fun feed_name :: "feed \<Rightarrow> string" where
  "feed_name QUOTE_FEED = ''quote''"
| "feed_name TRADE_FEED = ''trade''"

type_synonym health_log = "data_health transition_record list"
type_synonym health_machine = "(data_health, health_log) machine"

record normalizer =
  nz_now :: ns
  nz_machines :: "((symbol \<times> feed) \<times> health_machine) list"
  nz_last_seen :: "((symbol \<times> feed) \<times> (int \<times> ns \<times> string)) list"
  nz_duplicates :: int
  nz_anonymous :: int
  nz_registered :: "symbol list"
  nz_halts :: halt_store
  nz_log :: health_log

definition dispatch_transition :: "data_health transition_record \<Rightarrow> health_log \<Rightarrow> health_log \<times> exn option" where
  \<comment> \<open>what the bound subscriber receives\<close>
  "dispatch_transition r l = (l @ [r], None)"

definition new_health_machine :: "symbol \<Rightarrow> feed \<Rightarrow> health_machine result" where
  "new_health_machine s f = bind_result (create_data_integrity_machine s (Some (feed_name f))) (\<lambda>m. Inr (on_transition dispatch_transition m))"

definition ensure_health_machine :: "symbol \<Rightarrow> feed \<Rightarrow> normalizer \<Rightarrow> normalizer" where
  \<comment> \<open>the constructor accepts the table (\<open>machine_builds\<close> below)\<close>
  "ensure_health_machine s f n =
     (case map_of (nz_machines n) (s, f) of
        Some _ \<Rightarrow> n
      | None \<Rightarrow> (case new_health_machine s f of
            Inr m \<Rightarrow> n\<lparr>nz_machines := dict_set (s, f) m (nz_machines n)\<rparr>
          | Inl _ \<Rightarrow> n))"

definition feed_state :: "normalizer \<Rightarrow> symbol \<Rightarrow> feed \<Rightarrow> data_health option" where
  "feed_state n s f = map_option sm_state (map_of (nz_machines n) (s, f))"

definition feed_transition :: "symbol \<Rightarrow> feed \<Rightarrow> data_health \<Rightarrow> string \<Rightarrow> normalizer \<Rightarrow> normalizer" where
  \<comment> \<open>\<open>sm.transition(target, trigger=...)\<close>; the callers ask for legal targets only\<close>
  "feed_transition s f target trigger n =
     (case map_of (nz_machines n) (s, f) of
        None \<Rightarrow> n
      | Some m \<Rightarrow> (case transition m target trigger '''' None (nz_now n) (nz_log n) of
            (_, m', l) \<Rightarrow> n\<lparr>nz_machines := dict_set (s, f) m' (nz_machines n), nz_log := l\<rparr>))"

definition feed_can :: "normalizer \<Rightarrow> symbol \<Rightarrow> feed \<Rightarrow> data_health \<Rightarrow> bool" where
  "feed_can n s f target = (case map_of (nz_machines n) (s, f) of None \<Rightarrow> False | Some m \<Rightarrow> can_transition m target)"

fun health_rank :: "data_health \<Rightarrow> nat" where
  "health_rank HEALTHY = 0"
| "health_rank GAP_DETECTED = 1"
| "health_rank HALTED = 2"
| "health_rank CORRUPTED = 3"

definition merge_worst_health :: "data_health \<Rightarrow> data_health \<Rightarrow> data_health" where
  "merge_worst_health a b = (if health_rank a < health_rank b then b else a)"

definition health :: "normalizer \<Rightarrow> symbol \<Rightarrow> data_health" where
  "health n s =
     (case (feed_state n s QUOTE_FEED, feed_state n s TRADE_FEED) of
        (None, None) \<Rightarrow> HEALTHY
      | (Some q, None) \<Rightarrow> q
      | (None, Some t) \<Rightarrow> t
      | (Some q, Some t) \<Rightarrow> merge_worst_health q t)"

definition all_health :: "normalizer \<Rightarrow> (symbol \<times> data_health) list" where
  "all_health n = map (\<lambda>s. (s, health n s)) (sort (remdups (map (fst \<circ> fst) (nz_machines n) @ nz_registered n)))"

definition nz_reset :: "normalizer \<Rightarrow> normalizer" where
  \<comment> \<open>every machine is reset in turn, telling the subscriber\<close>
  "nz_reset n =
     fold (\<lambda>k n. case map_of (nz_machines n) k of
             None \<Rightarrow> n
           | Some m \<Rightarrow> (case sm_reset m ''reset'' '''' (nz_now n) (nz_log n) of
                 (_, m', l) \<Rightarrow> n\<lparr>nz_machines := dict_set k m' (nz_machines n), nz_log := l\<rparr>))
       (map fst (nz_machines n)) (n\<lparr>nz_last_seen := [], nz_duplicates := 0, nz_anonymous := 0\<rparr>)"

subsection \<open>Continuity of a feed\<close>

definition check_gap :: "symbol \<Rightarrow> feed \<Rightarrow> int \<Rightarrow> int \<Rightarrow> normalizer \<Rightarrow> normalizer" where
  "check_gap s f seq prev n =
     (if seq = 0 \<or> prev = 0 then n
      else let n1 = ensure_health_machine s f n; st = feed_state n1 s f in
        if prev + 1 < seq then (if st = Some HEALTHY then feed_transition s f GAP_DETECTED ''seq_gap'' n1 else n1)
        else if seq = prev + 1 \<and> st = Some GAP_DETECTED then feed_transition s f HEALTHY ''seq_continuity_resumed'' n1
        else n1)"

definition update_last_seen :: "symbol \<Rightarrow> feed \<Rightarrow> int \<Rightarrow> ns \<Rightarrow> string \<Rightarrow> normalizer \<Rightarrow> normalizer" where
  "update_last_seen s f seq ts fp n =
     ensure_health_machine s f (n\<lparr>nz_last_seen := dict_set (s, f) (seq, ts, fp) (nz_last_seen n)\<rparr>)"

definition corrupt_feed :: "symbol \<Rightarrow> string \<Rightarrow> feed \<Rightarrow> normalizer \<Rightarrow> normalizer" where
  "corrupt_feed s trigger f n =
     (let n1 = ensure_health_machine s f n
      in if feed_can n1 s f CORRUPTED then feed_transition s f CORRUPTED trigger n1 else n1)"

definition mark_corrupted :: "symbol \<Rightarrow> string \<Rightarrow> normalizer \<Rightarrow> normalizer" where
  "mark_corrupted s trigger n =
     (if s = '''' \<or> s = ''UNKNOWN'' then n\<lparr>nz_anonymous := nz_anonymous n + 1\<rparr>
      else corrupt_feed s trigger TRADE_FEED (corrupt_feed s trigger QUOTE_FEED n))"

definition reject_sequence_reuse :: "symbol \<Rightarrow> feed \<Rightarrow> int \<Rightarrow> string \<Rightarrow> normalizer \<Rightarrow> bool \<times> normalizer" where
  "reject_sequence_reuse s f seq fp n =
     (if seq = 0 then (False, n)
      else case map_of (nz_last_seen n) (s, f) of
          None \<Rightarrow> (False, n)
        | Some (prev, _, prev_fp) \<Rightarrow>
            if prev = 0 \<or> prev \<noteq> seq then (False, n)
            else if prev_fp = fp then (True, n\<lparr>nz_duplicates := nz_duplicates n + 1\<rparr>)
            else (True, mark_corrupted s ''sequence_reuse_payload_mismatch'' n))"

definition accept_message :: "symbol \<Rightarrow> feed \<Rightarrow> int \<Rightarrow> ns \<Rightarrow> string \<Rightarrow> normalizer \<Rightarrow> bool \<times> normalizer" where
  \<comment> \<open>what \<open>_ws_quote\<close> and \<open>_ws_trade\<close> do around the parsing; the flag tells whether an event is emitted\<close>
  "accept_message s f seq ts fp n =
     (case reject_sequence_reuse s f seq fp n of
        (True, n1) \<Rightarrow> (False, n1)
      | (False, n1) \<Rightarrow>
          let prev = (case map_of (nz_last_seen n1) (s, f) of Some (p, _, _) \<Rightarrow> p | None \<Rightarrow> 0)
          in (True, check_gap s f seq prev (update_last_seen s f seq ts fp n1)))"

definition interrupt_feed :: "symbol \<Rightarrow> feed \<Rightarrow> normalizer \<Rightarrow> normalizer" where
  "interrupt_feed s f n =
     (let n1 = ensure_health_machine s f n
      in if feed_state n1 s f = Some HEALTHY then feed_transition s f GAP_DETECTED ''feed_connection_lost'' n1 else n1)"

definition notify_feed_interrupted :: "symbol list \<Rightarrow> normalizer \<Rightarrow> normalizer" where
  "notify_feed_interrupted syms = fold (\<lambda>s n. interrupt_feed s TRADE_FEED (interrupt_feed s QUOTE_FEED n)) syms"

subsection \<open>Halts\<close>

definition halt_on :: "symbol \<Rightarrow> halt_store \<Rightarrow> halt_store" where
  "halt_on s h = (if s \<in> set (hs_halted h) then h
     else h\<lparr>hs_halted := List.insert s (hs_halted h), hs_blackout := dict_pop s (hs_blackout h)\<rparr>)"

definition halt_off :: "symbol \<Rightarrow> bool \<Rightarrow> ns option \<Rightarrow> halt_store \<Rightarrow> halt_store" where
  \<comment> \<open>the flag tells whether the trade feed was halted\<close>
  "halt_off s health_was_halted ts h =
     (let was_in = s \<in> set (hs_halted h); h1 = h\<lparr>hs_halted := remove1 s (hs_halted h)\<rparr>
      in case ts of
           Some t \<Rightarrow> if was_in \<or> health_was_halted then h1\<lparr>hs_blackout := dict_set s (t + hs_blackout_ns h) (hs_blackout h1)\<rparr> else h1
         | None \<Rightarrow> h1)"

definition sync_halt_store_and_health :: "symbol \<Rightarrow> int list \<Rightarrow> ns option \<Rightarrow> normalizer \<Rightarrow> halt_signal option \<times> normalizer" where
  "sync_halt_store_and_health s conditions ts n =
     (case classify_halt_status conditions (hs_on_codes (nz_halts n)) (hs_off_codes (nz_halts n)) of
        None \<Rightarrow> (None, n)
      | Some HALT_ON \<Rightarrow>
          let n1 = ensure_health_machine s TRADE_FEED n;
              n2 = n1\<lparr>nz_halts := halt_on s (nz_halts n1)\<rparr>
          in (Some HALT_ON,
              if feed_state n2 s TRADE_FEED \<noteq> Some HALTED \<and> feed_can n2 s TRADE_FEED HALTED
              then feed_transition s TRADE_FEED HALTED ''luld_halt_on'' n2 else n2)
      | Some HALT_OFF \<Rightarrow>
          let n1 = ensure_health_machine s TRADE_FEED n;
              was_halted = feed_state n1 s TRADE_FEED = Some HALTED;
              n2 = n1\<lparr>nz_halts := halt_off s was_halted ts (nz_halts n1)\<rparr>
          in (Some HALT_OFF,
              if was_halted \<and> feed_can n2 s TRADE_FEED HEALTHY
              then feed_transition s TRADE_FEED HEALTHY ''luld_halt_off'' n2 else n2))"

definition halt_health_xor_store :: "normalizer \<Rightarrow> symbol \<Rightarrow> bool" where
  "halt_health_xor_store n s =
     (case feed_state n s TRADE_FEED of
        None \<Rightarrow> False
      | Some st \<Rightarrow> (st = HALTED) \<noteq> (s \<in> set (hs_halted (nz_halts n))))"

definition accept_trade :: "symbol \<Rightarrow> int \<Rightarrow> ns \<Rightarrow> string \<Rightarrow> int list \<Rightarrow> normalizer \<Rightarrow> bool \<times> normalizer" where
  \<comment> \<open>a trade print may carry a halt marker\<close>
  "accept_trade s seq ts fp conditions n =
     (case accept_message s TRADE_FEED seq ts fp n of
        (False, n1) \<Rightarrow> (False, n1)
      | (True, n1) \<Rightarrow> (True, snd (sync_halt_store_and_health s conditions (Some ts) n1)))"

subsection \<open>Runs of the normalizer\<close>

definition normalizer_new :: "ns \<Rightarrow> halt_store \<Rightarrow> symbol list \<Rightarrow> normalizer" where
  "normalizer_new now halts registered = \<lparr>nz_now = now, nz_machines = [], nz_last_seen = [], nz_duplicates = 0, nz_anonymous = 0,
     nz_registered = registered, nz_halts = halts, nz_log = []\<rparr>"

datatype feed_op =
    Quote_Message symbol int ns string
  | Trade_Message symbol int ns string "int list"
  | Malformed symbol
  | Interrupted "symbol list"

fun feed_step :: "feed_op \<Rightarrow> normalizer \<Rightarrow> normalizer" where
  "feed_step (Quote_Message s seq ts fp) n = snd (accept_message s QUOTE_FEED seq ts fp n)"
| "feed_step (Trade_Message s seq ts fp conditions) n = snd (accept_trade s seq ts fp conditions n)"
| "feed_step (Malformed s) n = mark_corrupted s ''parse_error'' n"
| "feed_step (Interrupted syms) n = notify_feed_interrupted syms n"

definition machines_ok :: "normalizer \<Rightarrow> bool" where
  "machines_ok n \<longleftrightarrow> (\<forall>k m. map_of (nz_machines n) k = Some m \<longrightarrow>
     sm_transitions m = data_transitions \<and> sm_callbacks m = [dispatch_transition])"

lemma machine_builds: "\<exists>m. new_health_machine s f = Inr m \<and> sm_transitions m = data_transitions
    \<and> sm_callbacks m = [dispatch_transition] \<and> sm_state m = HEALTHY"
proof -
  have "\<exists>m. (create_data_integrity_machine s (Some (feed_name f)) :: health_machine result) = Inr m
      \<and> sm_transitions m = data_transitions \<and> sm_callbacks m = [] \<and> sm_state m = HEALTHY"
  proof -
    have "data_transitions x \<noteq> None" for x by (cases x) auto
    then show ?thesis by (simp add: create_data_integrity_machine_def new_machine_Inr_iff Let_def)
  qed
  then show ?thesis by (auto simp: new_health_machine_def on_transition_def)
qed

lemma ensure_state:
  assumes "machines_ok n"
  shows "machines_ok (ensure_health_machine s f n)" "nz_halts (ensure_health_machine s f n) = nz_halts n"
    "feed_state (ensure_health_machine s f n) s' f'
      = (if (s', f') = (s, f) \<and> feed_state n s f = None then Some HEALTHY else feed_state n s' f')"
  using assms machine_builds[of s f]
  by (auto simp: ensure_health_machine_def machines_ok_def feed_state_def split: option.split if_splits)

lemma transition_state:
  assumes "machines_ok n" "feed_can n s f target"
  shows "machines_ok (feed_transition s f target trigger n)" "nz_halts (feed_transition s f target trigger n) = nz_halts n"
    "feed_state (feed_transition s f target trigger n) s' f' = (if (s', f') = (s, f) then Some target else feed_state n s' f')"
proof -
  obtain m where m: "map_of (nz_machines n) (s, f) = Some m" "can_transition m target"
    using assms(2) by (auto simp: feed_can_def split: option.splits)
  have ok: "sm_transitions m = data_transitions" "sm_callbacks m = [dispatch_transition]" using assms(1) m(1) by (auto simp: machines_ok_def)
  let ?r = "new_record m target trigger '''' [] (nz_now n)"
  have run: "transition m target trigger '''' None (nz_now n) (nz_log n) = (Inr ?r, commit ?r target m, nz_log n @ [?r])"
    using m(2) ok by (simp add: transition_def announce_def dispatch_transition_def)
  show "machines_ok (feed_transition s f target trigger n)" "nz_halts (feed_transition s f target trigger n) = nz_halts n"
    "feed_state (feed_transition s f target trigger n) s' f' = (if (s', f') = (s, f) then Some target else feed_state n s' f')"
    using assms(1) ok by (auto simp: feed_transition_def m(1) run machines_ok_def feed_state_def)
qed

lemma can_state: "machines_ok n \<Longrightarrow> feed_can n s f t \<longleftrightarrow> (\<exists>st. feed_state n s f = Some st \<and> t \<in> the (data_transitions st))"
proof -
  assume ok: "machines_ok n"
  show ?thesis
  proof (cases "map_of (nz_machines n) (s, f)")
    case (Some m)
    then have "sm_transitions m = data_transitions" using ok by (auto simp: machines_ok_def)
    then show ?thesis using Some by (cases "sm_state m") (auto simp: feed_can_def feed_state_def can_transition_def)
  qed (simp add: feed_can_def feed_state_def)
qed

subsection \<open>The store follows the trade feed\<close>

definition store_agrees :: "normalizer \<Rightarrow> bool" where
  "store_agrees n \<longleftrightarrow> machines_ok n \<and> distinct (hs_halted (nz_halts n))
     \<and> (\<forall>s. (s \<in> set (hs_halted (nz_halts n)) \<longrightarrow> feed_state n s TRADE_FEED \<in> {Some HALTED, Some CORRUPTED})
          \<and> (feed_state n s TRADE_FEED = Some HALTED \<longrightarrow> s \<in> set (hs_halted (nz_halts n))))"

lemma agrees_fields [simp]:
  "store_agrees (n\<lparr>nz_last_seen := x\<rparr>) = store_agrees n" "store_agrees (n\<lparr>nz_duplicates := d\<rparr>) = store_agrees n"
  "store_agrees (n\<lparr>nz_anonymous := d\<rparr>) = store_agrees n"
  by (simp_all add: store_agrees_def machines_ok_def feed_state_def)

lemma ensure_agrees: "store_agrees n \<Longrightarrow> store_agrees (ensure_health_machine s f n)"
  unfolding store_agrees_def by (auto simp: ensure_state)

lemma transition_agrees:
  assumes "store_agrees n" "feed_can n s f t" "f = TRADE_FEED \<Longrightarrow> (t = HALTED \<longleftrightarrow> s \<in> set (hs_halted (nz_halts n))) \<or> t = CORRUPTED"
  shows "store_agrees (feed_transition s f t trigger n)"
  using assms transition_state[OF _ assms(2)] unfolding store_agrees_def by (cases f) auto

lemma check_gap_agrees: "store_agrees n \<Longrightarrow> store_agrees (check_gap s f seq prev n)"
proof -
  assume n: "store_agrees n"
  define n1 where "n1 = ensure_health_machine s f n"
  have n1: "store_agrees n1" unfolding n1_def by (rule ensure_agrees[OF n])
  have ok: "machines_ok n1" using n1 by (simp add: store_agrees_def)
  have out: "f = TRADE_FEED \<Longrightarrow> s \<notin> set (hs_halted (nz_halts n1))" if "feed_state n1 s f \<in> {Some HEALTHY, Some GAP_DETECTED}"
    using that n1 by (auto simp: store_agrees_def)
  have "store_agrees (feed_transition s f GAP_DETECTED trigger n1)" if "feed_state n1 s f = Some HEALTHY" for trigger
    by (rule transition_agrees[OF n1]) (use that out in \<open>auto simp: can_state[OF ok]\<close>)
  moreover have "store_agrees (feed_transition s f HEALTHY trigger n1)" if "feed_state n1 s f = Some GAP_DETECTED" for trigger
    by (rule transition_agrees[OF n1]) (use that out in \<open>auto simp: can_state[OF ok]\<close>)
  ultimately show ?thesis using n n1 by (simp add: check_gap_def n1_def[symmetric] Let_def)
qed

lemma corrupt_feed_agrees: "store_agrees n \<Longrightarrow> store_agrees (corrupt_feed s trigger f n)"
  unfolding corrupt_feed_def Let_def by (simp add: ensure_agrees transition_agrees)

lemma mark_corrupted_agrees: "store_agrees n \<Longrightarrow> store_agrees (mark_corrupted s trigger n)"
  unfolding mark_corrupted_def by (simp add: corrupt_feed_agrees)

lemma accept_agrees: "store_agrees n \<Longrightarrow> store_agrees (snd (accept_message s f seq ts fp n))"
  unfolding accept_message_def reject_sequence_reuse_def update_last_seen_def Let_def
  by (simp add: mark_corrupted_agrees check_gap_agrees ensure_agrees split: option.split prod.split)

lemma interrupt_agrees: "store_agrees n \<Longrightarrow> store_agrees (interrupt_feed s f n)"
proof -
  assume n: "store_agrees n"
  define n1 where "n1 = ensure_health_machine s f n"
  have n1: "store_agrees n1" unfolding n1_def by (rule ensure_agrees[OF n])
  have "store_agrees (feed_transition s f GAP_DETECTED trigger n1)" if "feed_state n1 s f = Some HEALTHY" for trigger
    by (rule transition_agrees[OF n1]) (use that n1 in \<open>auto simp: can_state store_agrees_def\<close>)
  then show ?thesis using n1 by (simp add: interrupt_feed_def n1_def[symmetric] Let_def)
qed

lemma notify_agrees: "store_agrees n \<Longrightarrow> store_agrees (notify_feed_interrupted syms n)"
  unfolding notify_feed_interrupted_def by (induction syms arbitrary: n) (simp_all add: interrupt_agrees)

text \<open>A halt print, first on the store, then on the machine.\<close>

lemma halt_on_store: "set (hs_halted (halt_on s h)) = insert s (set (hs_halted h))"
    "distinct (hs_halted h) \<Longrightarrow> distinct (hs_halted (halt_on s h))"
  by (auto simp: halt_on_def)

lemma halt_off_store: "distinct (hs_halted h) \<Longrightarrow> set (hs_halted (halt_off s w ts h)) = set (hs_halted h) - {s}"
    "distinct (hs_halted h) \<Longrightarrow> distinct (hs_halted (halt_off s w ts h))"
  by (auto simp: halt_off_def Let_def split: option.split)

lemma sync_agrees:
  assumes n: "store_agrees n"
  shows "store_agrees (snd (sync_halt_store_and_health s conditions ts n))"
proof -
  define n1 where "n1 = ensure_health_machine s TRADE_FEED n"
  have n1: "store_agrees n1" unfolding n1_def by (rule ensure_agrees[OF n])
  have here: "feed_state n1 s TRADE_FEED \<noteq> None"
    using n by (simp add: n1_def ensure_state store_agrees_def)
  have with_store: "machines_ok (n1\<lparr>nz_halts := h\<rparr>)" "feed_state (n1\<lparr>nz_halts := h\<rparr>) s' f' = feed_state n1 s' f'"
    "feed_can (n1\<lparr>nz_halts := h\<rparr>) s' f' t' = feed_can n1 s' f' t'" for h s' f' t'
    using n1 by (simp_all add: store_agrees_def machines_ok_def feed_state_def feed_can_def)
  have on: "store_agrees (let n2 = n1\<lparr>nz_halts := halt_on s (nz_halts n1)\<rparr> in
      if feed_state n2 s TRADE_FEED \<noteq> Some HALTED \<and> feed_can n2 s TRADE_FEED HALTED
      then feed_transition s TRADE_FEED HALTED tr n2 else n2)" for tr
  proof -
    define n2 where "n2 = n1\<lparr>nz_halts := halt_on s (nz_halts n1)\<rparr>"
    have n2: "machines_ok n2" "distinct (hs_halted (nz_halts n2))" "set (hs_halted (nz_halts n2)) = insert s (set (hs_halted (nz_halts n1)))"
      "feed_state n2 s' f' = feed_state n1 s' f'" for s' f'
      using with_store[of "halt_on s (nz_halts n1)"] n1 by (simp_all add: n2_def halt_on_store store_agrees_def)
    obtain st where st: "feed_state n1 s TRADE_FEED = Some st" using here by auto
    have rest: "(s' \<in> set (hs_halted (nz_halts n1)) \<longrightarrow> feed_state n1 s' TRADE_FEED \<in> {Some HALTED, Some CORRUPTED})
        \<and> (feed_state n1 s' TRADE_FEED = Some HALTED \<longrightarrow> s' \<in> set (hs_halted (nz_halts n1)))" for s'
      using n1 by (simp add: store_agrees_def)
    show ?thesis
    proof (cases "st \<noteq> HALTED \<and> feed_can n2 s TRADE_FEED HALTED")
      case True
      note t = transition_state[OF n2(1) conjunct2[OF True]]
      have "store_agrees (feed_transition s TRADE_FEED HALTED tr n2)"
        using rest by (simp add: store_agrees_def t n2)
      then show ?thesis using True by (simp add: n2_def[symmetric] n2(4) st)
    next
      case False
      then have "st \<in> {HALTED, CORRUPTED}" by (cases st) (simp_all add: can_state[OF n2(1)] n2(4) st)
      then have "store_agrees n2" using rest by (auto simp: store_agrees_def n2 st)
      then show ?thesis using False by (auto simp: n2_def[symmetric] n2(4) st)
    qed
  qed
  have off: "store_agrees (let n2 = n1\<lparr>nz_halts := halt_off s (feed_state n1 s TRADE_FEED = Some HALTED) ts (nz_halts n1)\<rparr> in
      if feed_state n1 s TRADE_FEED = Some HALTED \<and> feed_can n2 s TRADE_FEED HEALTHY
      then feed_transition s TRADE_FEED HEALTHY tr n2 else n2)" for tr
  proof -
    define n2 where "n2 = n1\<lparr>nz_halts := halt_off s (feed_state n1 s TRADE_FEED = Some HALTED) ts (nz_halts n1)\<rparr>"
    have n2: "machines_ok n2" "distinct (hs_halted (nz_halts n2))" "set (hs_halted (nz_halts n2)) = set (hs_halted (nz_halts n1)) - {s}"
      "feed_state n2 s' f' = feed_state n1 s' f'" for s' f'
      using with_store[of "halt_off s (feed_state n1 s TRADE_FEED = Some HALTED) ts (nz_halts n1)"] n1
      by (simp_all add: n2_def halt_off_store store_agrees_def)
    have rest: "(s' \<in> set (hs_halted (nz_halts n1)) \<longrightarrow> feed_state n1 s' TRADE_FEED \<in> {Some HALTED, Some CORRUPTED})
        \<and> (feed_state n1 s' TRADE_FEED = Some HALTED \<longrightarrow> s' \<in> set (hs_halted (nz_halts n1)))" for s'
      using n1 by (simp add: store_agrees_def)
    show ?thesis
    proof (cases "feed_state n1 s TRADE_FEED = Some HALTED")
      case True
      then have can: "feed_can n2 s TRADE_FEED HEALTHY" by (simp add: can_state[OF n2(1)] n2(4))
      have "store_agrees (feed_transition s TRADE_FEED HEALTHY tr n2)"
        using rest by (simp add: store_agrees_def transition_state[OF n2(1) can] n2)
      moreover have "n1\<lparr>nz_halts := halt_off s True ts (nz_halts n1)\<rparr> = n2" using True by (simp add: n2_def)
      ultimately show ?thesis using True can by simp
    next
      case False
      then have "store_agrees n2" using rest by (auto simp: store_agrees_def n2)
      then show ?thesis using False by (simp add: n2_def)
    qed
  qed
  show ?thesis
    using n on off by (simp add: sync_halt_store_and_health_def n1_def[symmetric] Let_def split: option.split halt_signal.split)
qed

subsection \<open>Corruption is terminal\<close>

definition corruption_kept :: "normalizer \<Rightarrow> normalizer \<Rightarrow> bool" where
  "corruption_kept n n' \<longleftrightarrow> (machines_ok n \<longrightarrow> machines_ok n' \<and>
     (\<forall>s f. feed_state n s f = Some CORRUPTED \<longrightarrow> feed_state n' s f = Some CORRUPTED))"

lemma corruption_kept_refl [simp]: "corruption_kept n n"
  by (simp add: corruption_kept_def)

lemma corruption_kept_trans [trans]: "corruption_kept a b \<Longrightarrow> corruption_kept b c \<Longrightarrow> corruption_kept a c"
  by (simp add: corruption_kept_def)

lemma corruption_kept_fields [simp]:
  "corruption_kept n (m\<lparr>nz_last_seen := x\<rparr>) = corruption_kept n m" "corruption_kept n (m\<lparr>nz_duplicates := d\<rparr>) = corruption_kept n m"
  "corruption_kept n (m\<lparr>nz_anonymous := d\<rparr>) = corruption_kept n m" "corruption_kept n (m\<lparr>nz_halts := h\<rparr>) = corruption_kept n m"
  by (simp_all add: corruption_kept_def machines_ok_def feed_state_def)

lemma feed_of_halts [simp]: "feed_state (n\<lparr>nz_halts := h\<rparr>) = feed_state n" "feed_can (n\<lparr>nz_halts := h\<rparr>) = feed_can n"
  by (simp_all add: fun_eq_iff feed_state_def feed_can_def)

lemma ensure_keeps: "corruption_kept n m \<Longrightarrow> corruption_kept n (ensure_health_machine s f m)"
  by (auto simp: corruption_kept_def ensure_state)

lemma transition_keeps:
  assumes "corruption_kept n m" "feed_can m s f t"
  shows "corruption_kept n (feed_transition s f t trigger m)"
proof -
  have "feed_state m s f \<noteq> Some CORRUPTED" if "machines_ok m"
    using assms(2) by (auto simp: can_state[OF that])
  then show ?thesis using assms(1) transition_state[OF _ assms(2)] by (auto simp: corruption_kept_def)
qed

lemma step_from:
  "corruption_kept n m \<Longrightarrow> feed_state m s f = Some st \<Longrightarrow> t \<in> the (data_transitions st) \<Longrightarrow>
   corruption_kept n (feed_transition s f t trigger m)"
proof -
  assume a: "corruption_kept n m" "feed_state m s f = Some st" "t \<in> the (data_transitions st)"
  show ?thesis
  proof (cases "machines_ok n")
    case True
    then have "machines_ok m" using a(1) by (simp add: corruption_kept_def)
    then have "feed_can m s f t" using a(2,3) by (simp add: can_state)
    then show ?thesis by (rule transition_keeps[OF a(1)])
  qed (simp add: corruption_kept_def)
qed

lemma check_gap_keeps: "corruption_kept n m \<Longrightarrow> corruption_kept n (check_gap s f seq prev m)"
  unfolding check_gap_def Let_def by (simp add: ensure_keeps step_from[of n _ s f HEALTHY] step_from[of n _ s f GAP_DETECTED])

lemma mark_corrupted_keeps: "corruption_kept n m \<Longrightarrow> corruption_kept n (mark_corrupted s trigger m)"
  unfolding mark_corrupted_def corrupt_feed_def Let_def by (simp add: ensure_keeps transition_keeps)

lemma accept_keeps: "corruption_kept n m \<Longrightarrow> corruption_kept n (snd (accept_message s f seq ts fp m))"
  unfolding accept_message_def reject_sequence_reuse_def update_last_seen_def Let_def
  by (simp add: mark_corrupted_keeps check_gap_keeps ensure_keeps split: option.split prod.split)

lemma interrupted_keeps: "corruption_kept n m \<Longrightarrow> corruption_kept n (notify_feed_interrupted syms m)"
  unfolding notify_feed_interrupted_def
  by (induction syms arbitrary: m) (simp_all add: interrupt_feed_def Let_def ensure_keeps step_from[of n _ _ _ HEALTHY])

lemma sync_keeps: "corruption_kept n m \<Longrightarrow> corruption_kept n (snd (sync_halt_store_and_health s conditions ts m))"
  unfolding sync_halt_store_and_health_def Let_def
  by (simp add: ensure_keeps transition_keeps split: option.split halt_signal.split)

lemma accept_trade_snd:
  "snd (accept_trade s seq ts fp conditions n) =
     (let m = snd (accept_message s TRADE_FEED seq ts fp n)
      in if fst (accept_message s TRADE_FEED seq ts fp n) then snd (sync_halt_store_and_health s conditions (Some ts) m) else m)"
  by (simp add: accept_trade_def Let_def split: prod.split bool.split)

lemma feed_step_keeps: "corruption_kept n (feed_step x n)"
  by (cases x) (simp_all add: accept_keeps mark_corrupted_keeps interrupted_keeps accept_trade_snd sync_keeps Let_def)

lemma feed_run_keeps: "corruption_kept n (fold feed_step ops n)"
  by (induction ops arbitrary: n) (auto intro: corruption_kept_trans feed_step_keeps)

lemma feed_step_agrees: "store_agrees n \<Longrightarrow> store_agrees (feed_step x n)"
  by (cases x) (simp_all add: accept_agrees mark_corrupted_agrees notify_agrees accept_trade_snd sync_agrees Let_def)

lemma feed_run_agrees: "store_agrees n \<Longrightarrow> store_agrees (fold feed_step ops n)"
  by (induction ops arbitrary: n) (simp_all add: feed_step_agrees)

lemma normalizer_new_agrees: "hs_halted h = [] \<Longrightarrow> store_agrees (normalizer_new now h reg)"
  by (simp add: store_agrees_def normalizer_new_def machines_ok_def feed_state_def)

subsection \<open>Properties\<close>

text \<open>C12: Start the normalizer with no halted symbol and let it take any run of quotes, trades
  (with or without halt prints), malformed messages and connection losses. Then the check the
  kernel makes before trading, that the trade machine is halted exactly when the symbol is in
  the halt store, fails exactly for a symbol that is in the store while its trade machine is
  corrupted; and a machine that is corrupted stays so, whatever messages follow.\<close>

theorem halts_agree_unless_corrupted:
  assumes "hs_halted h = []"
    and "n = fold feed_step ops (normalizer_new now h registered)"
  shows "(halt_health_xor_store n s \<longleftrightarrow>
      feed_state n s TRADE_FEED = Some CORRUPTED \<and> s \<in> set (hs_halted (nz_halts n)))
    \<and> (feed_state n s f = Some CORRUPTED \<longrightarrow> feed_state (fold feed_step later n) s f = Some CORRUPTED)"
proof (intro conjI impI)
  have n: "store_agrees n" unfolding assms(2) by (rule feed_run_agrees[OF normalizer_new_agrees[OF assms(1)]])
  show "halt_health_xor_store n s \<longleftrightarrow>
      feed_state n s TRADE_FEED = Some CORRUPTED \<and> s \<in> set (hs_halted (nz_halts n))"
    using n by (auto simp: halt_health_xor_store_def store_agrees_def split: option.split)
  show "feed_state (fold feed_step later n) s f = Some CORRUPTED" if "feed_state n s f = Some CORRUPTED"
    using feed_run_keeps[of n later] n that by (simp add: corruption_kept_def store_agrees_def)
qed

definition halted_then_corrupted :: normalizer where
  "halted_then_corrupted = fold feed_step [Trade_Message ''X'' 1 5 ''a'' [7], Trade_Message ''X'' 1 6 ''b'' []]
     (normalizer_new 0 (halt_store_new\<lparr>hs_on_codes := [7]\<rparr>) [])"

theorem halts_agree_unless_corrupted_witness:
  "halt_health_xor_store halted_then_corrupted ''X''
   \<and> feed_state (fold feed_step [Quote_Message ''X'' 3 7 ''c''] halted_then_corrupted) ''X'' TRADE_FEED = Some CORRUPTED"
proof -
  note t = halts_agree_unless_corrupted[OF _ halted_then_corrupted_def, of "''X''" TRADE_FEED "[Quote_Message ''X'' 3 7 ''c'']"]
  have h: "hs_halted (halt_store_new\<lparr>hs_on_codes := [7]\<rparr>) = []" by (simp add: halt_store_new_def)
  have c: "feed_state halted_then_corrupted ''X'' TRADE_FEED = Some CORRUPTED" by code_simp
  have i: "''X'' \<in> set (hs_halted (nz_halts halted_then_corrupted))" by code_simp
  show ?thesis using t[OF h] c i by blast
qed

end
