(* ===== verification/Risk_Engine.thy ===== *)
theory Risk_Engine
  imports Trading_Calendar Order_Building
begin

section \<open>The risk engine (risk/basic\_risk.py, risk/buying\_power.py)\<close>

text \<open>
  The two gates of the platform's risk engine, with its high-water mark and its buying-power
  phase as state. The reasons of verdicts are f-strings for humans and are reduced to a
  tag, apart from the tokens the code names. Logging and the record of gate verdicts for
  tracing are left out.
\<close>

subsection \<open>Configuration and state\<close>

record risk_config =
  rcf_max_position :: int
  rcf_max_gross_pct :: float64
  rcf_max_drawdown_pct :: float64
  rcf_equity :: decimal
  rcf_vol_breakout_scale :: float64
  rcf_compression_scale :: float64
  rcf_normal_scale :: float64
  rcf_scale_down_threshold :: float64

datatype buying_power_phase = INTRADAY | OVERNIGHT

record buying_power_config =
  bpc_intraday :: decimal
  bpc_overnight :: decimal

definition buying_power_config_new :: "string \<Rightarrow> decimal \<Rightarrow> decimal \<Rightarrow> buying_power_config result" where
  "buying_power_config_new account_type intraday overnight =
     (if account_type \<noteq> ''margin_25k'' then Inl (OtherException ''NotImplementedError'')
      else if intraday \<le> 0 \<or> overnight \<le> 0 then Inl (ValueError ''multipliers'')
      else Inr \<lparr>bpc_intraday = intraday, bpc_overnight = overnight\<rparr>)"

definition buying_power_limit :: "decimal \<Rightarrow> buying_power_phase \<Rightarrow> buying_power_config \<Rightarrow> decimal" where
  "buying_power_limit equity phase c =
     (if equity \<le> 0 then 0 else dec_mul equity (if phase = INTRADAY then bpc_intraday c else bpc_overnight c))"

record risk_settings =
  re_config :: risk_config
  re_buying_power :: "buying_power_config option"
  re_session :: "session_bounds option"
  re_calendar :: calendar
  re_account :: string
  re_alerts_bound :: bool

record risk_state =
  rk_hwm :: decimal
  rk_phase :: buying_power_phase
  rk_regimes :: "regime_cache option"
  rk_pdt :: "pdt option"
  rk_alert_seq :: int
  rk_alerts :: "(int \<times> string) list"

definition regime_scale_map :: "risk_config \<Rightarrow> (string \<times> float64) list" where
  "regime_scale_map c = [(''vol_breakout'', rcf_vol_breakout_scale c),
     (''compression_clustering'', rcf_compression_scale c), (''normal'', rcf_normal_scale c)]"

definition regime_scale_default :: "risk_config \<Rightarrow> float64" where
  "regime_scale_default c = min (min (rcf_vol_breakout_scale c) (rcf_compression_scale c)) (rcf_normal_scale c)"

definition risk_engine_new :: "risk_settings \<Rightarrow> regime_cache option \<Rightarrow> pdt option \<Rightarrow> risk_state" where
  "risk_engine_new z regimes p = \<lparr>rk_hwm = rcf_equity (re_config z), rk_phase = INTRADAY, rk_regimes = regimes,
     rk_pdt = p, rk_alert_seq = 0, rk_alerts = []\<rparr>"

definition risk_reset :: "risk_settings \<Rightarrow> risk_state \<Rightarrow> risk_state" where
  "risk_reset z rk = rk\<lparr>rk_hwm := rcf_equity (re_config z), rk_phase := INTRADAY,
     rk_regimes := map_option (\<lambda>_. []) (rk_regimes rk), rk_alert_seq := 0\<rparr>"

definition set_buying_power_phase :: "buying_power_phase \<Rightarrow> risk_state \<Rightarrow> risk_state" where
  "set_buying_power_phase phase rk = rk\<lparr>rk_phase := phase\<rparr>"

definition risk_record_fill :: "risk_settings \<Rightarrow> symbol \<Rightarrow> int \<Rightarrow> int \<Rightarrow> ns \<Rightarrow> risk_state \<Rightarrow> risk_state" where
  "risk_record_fill z s prev new ts rk =
     rk\<lparr>rk_pdt := map_option (pdt_record_fill (re_calendar z) (re_account z) s prev new ts) (rk_pdt rk)\<rparr>"

definition risk_alert :: "risk_settings \<Rightarrow> string \<Rightarrow> risk_state \<Rightarrow> risk_state" where
  \<comment> \<open>published when the engine has a bus and a sequence generator\<close>
  "risk_alert z name rk = (if re_alerts_bound z
     then rk\<lparr>rk_alerts := rk_alerts rk @ [(rk_alert_seq rk, name)], rk_alert_seq := rk_alert_seq rk + 1\<rparr> else rk)"

subsection \<open>Readings of the book\<close>

definition resolve_mark :: "symbol \<Rightarrow> position \<Rightarrow> position_view \<Rightarrow> decimal" where
  "resolve_mark s p v =
     (case pv_mark v s of
        Some m \<Rightarrow> if 0 < m then m else if 0 < pos_avg p then pos_avg p else 0
      | None \<Rightarrow> if 0 < pos_avg p then pos_avg p else 0)"

definition current_equity :: "risk_config \<Rightarrow> position_view \<Rightarrow> decimal" where
  "current_equity c v =
     (let add = (\<lambda>field. fold (\<lambda>(_, p) total. dec_add total (field p)) (pv_all v) 0)
      in dec_add (dec_sub (dec_add (rcf_equity c) (add pos_realized)) (add pos_fees)) (add pos_unrealized))"

definition order_signed :: "order_request \<Rightarrow> int" where
  "order_signed o' = (if or_side o' = BUY then or_quantity o' else - or_quantity o')"

definition prospective_total_exposure :: "order_request \<Rightarrow> position_view \<Rightarrow> position \<Rightarrow> decimal" where
  "prospective_total_exposure o' v p =
     (let mark0 = resolve_mark (or_symbol o') p v;
          mark = (case or_limit_price o' of Some l \<Rightarrow> if mark0 \<le> 0 \<and> 0 < l then l else mark0 | None \<Rightarrow> mark0)
      in if mark \<le> 0 then pv_exposure v
         else dec_add (dec_sub (pv_exposure v) (dec_mul (of_int \<bar>pos_quantity p\<bar>) mark))
                (dec_mul (of_int \<bar>pos_quantity p + order_signed o'\<bar>) mark))"

definition regime_scaling :: "risk_config \<Rightarrow> symbol \<Rightarrow> risk_state \<Rightarrow> float64 result" where
  "regime_scaling c s rk =
     (case rk_regimes rk of
        None \<Rightarrow> Inr 1
      | Some cache \<Rightarrow> (case rc_latest s cache of
            None \<Rightarrow> Inr (regime_scale_default c)
          | Some st \<Rightarrow>
              if rs_posteriors st = [] then Inr (regime_scale_default c)
              else if length (rs_state_names st) < length (rs_posteriors st) then Inl IndexError
              else let scale = (\<lambda>name. case map_of (regime_scale_map c) name of Some f \<Rightarrow> f | None \<Rightarrow> regime_scale_default c)
                   in Inr (min 1 (py_sum (map (\<lambda>(p, name). fl_mul p (scale name)) (zip (rs_posteriors st) (rs_state_names st)))))))"

definition adjusted_max :: "risk_config \<Rightarrow> symbol \<Rightarrow> risk_state \<Rightarrow> int result" where
  "adjusted_max c s rk = bind_result (regime_scaling c s rk) (\<lambda>scale. Inr (trunc (fl_mul (num (rcf_max_position c)) scale)))"

subsection \<open>Exposure and drawdown\<close>

definition verdict :: "'a event_scheme \<Rightarrow> symbol \<Rightarrow> risk_action \<Rightarrow> string \<Rightarrow> risk_verdict" where
  "verdict e s action reason =
     \<lparr>ev_timestamp = ev_timestamp e, ev_correlation = ev_correlation e, ev_sequence = ev_sequence e,
      ev_source_layer = ''UNKNOWN'', ev_schema_version = schema_version, rv_symbol = s, rv_action = action,
      rv_reason = reason, rv_scaling_factor = 1\<rparr>"

definition update_high_water_mark :: "decimal \<Rightarrow> risk_state \<Rightarrow> risk_state" where
  "update_high_water_mark equity rk = (if rk_hwm rk < equity then rk\<lparr>rk_hwm := equity\<rparr> else rk)"

definition refresh_high_water_mark :: "risk_settings \<Rightarrow> position_view \<Rightarrow> risk_state \<Rightarrow> risk_state" where
  "refresh_high_water_mark z v = update_high_water_mark (current_equity (re_config z) v)"

definition drawdown_breached :: "risk_config \<Rightarrow> decimal \<Rightarrow> risk_state \<Rightarrow> bool" where
  "drawdown_breached c equity rk \<longleftrightarrow> rk_hwm rk \<le> 0 \<or>
     rcf_max_drawdown_pct c \<le> fl_round (dec_mul (dec_div (dec_sub (rk_hwm rk) equity) (rk_hwm rk)) 100)"

definition max_exposure :: "risk_config \<Rightarrow> decimal \<Rightarrow> decimal" where
  "max_exposure c equity = dec_div (dec_mul equity (decimal_of_repr (rcf_max_gross_pct c))) 100"

definition scale_down_factor :: "decimal \<Rightarrow> decimal \<Rightarrow> decimal \<Rightarrow> float64 result" where
  "scale_down_factor limit exposure threshold =
     (let room = dec_sub limit exposure; band = dec_mul limit (dec_sub 1 threshold)
      in if band = 0 then Inl (if room = 0 then InvalidOperation else ZeroDivision)
         else Inr (max (fl_round (1/10)) (min 1 (fl_round (dec_div room band)))))"

definition check_exposure_and_drawdown ::
  "risk_config \<Rightarrow> 'a event_scheme \<Rightarrow> symbol \<Rightarrow> position_view \<Rightarrow> string \<Rightarrow> decimal \<Rightarrow> bool \<Rightarrow> risk_state
    \<Rightarrow> risk_verdict option result \<times> risk_state" where
  "check_exposure_and_drawdown c e s v reason exposure not_increasing rk =
     (let equity = current_equity c v in
      if equity \<le> 0 then (Inr (Some (verdict e s FORCE_FLATTEN ''non_positive_equity'')), rk)
      else
        let rk = update_high_water_mark equity rk; limit = max_exposure c equity;
            threshold = decimal_of_repr (rcf_scale_down_threshold c) in
        if drawdown_breached c equity rk then (Inr (Some (verdict e s FORCE_FLATTEN ''drawdown_limit_breached'')), rk)
        else if limit \<le> exposure \<and> \<not> not_increasing then (Inr (Some (verdict e s REJECT ''gross_exposure_limit'')), rk)
        else if 1 \<le> threshold then (Inr (Some (verdict e s REJECT ''scale_down_threshold_invalid'')), rk)
        else if dec_mul limit threshold \<le> exposure \<and> \<not> not_increasing
        then (map_sum id (\<lambda>f. Some ((verdict e s SCALE_DOWN reason)\<lparr>rv_scaling_factor := f\<rparr>)) (scale_down_factor limit exposure threshold), rk)
        else (Inr None, rk))"

subsection \<open>The gate of a signal\<close>

definition signal_reduces :: "int \<Rightarrow> signal_direction \<Rightarrow> bool" where
  "signal_reduces q d \<longleftrightarrow> (0 < q \<and> (d = SHORT \<or> d = FLAT)) \<or> (q < 0 \<and> (d = LONG \<or> d = FLAT))"

definition check_signal :: "risk_settings \<Rightarrow> signal \<Rightarrow> position_view \<Rightarrow> risk_state \<Rightarrow> risk_verdict result \<times> risk_state" where
  "check_signal z sig v rk =
     (let c = re_config z; p = pv_get v (sg_symbol sig) in
      case adjusted_max c (sg_symbol sig) rk of
        Inl x \<Rightarrow> (Inl x, rk)
      | Inr limit \<Rightarrow>
          let reduces = signal_reduces (pos_quantity p) (sg_direction sig) in
          if limit \<le> \<bar>pos_quantity p\<bar> \<and> \<not> reduces then (Inr (verdict sig (sg_symbol sig) REJECT ''position_limit_reached''), rk)
          else case check_exposure_and_drawdown c sig (sg_symbol sig) v ''approaching exposure limit'' (pv_exposure v) reduces rk of
              (Inl x, rk) \<Rightarrow> (Inl x, rk)
            | (Inr (Some r), rk) \<Rightarrow> (Inr r, rk)
            | (Inr None, rk) \<Rightarrow> (Inr (verdict sig (sg_symbol sig) ALLOW ''within limits''), rk))"

subsection \<open>The gate of an order\<close>

definition check_pdt_min_equity :: "risk_settings \<Rightarrow> order_request \<Rightarrow> int \<Rightarrow> int \<Rightarrow> position_view \<Rightarrow> risk_state \<Rightarrow> risk_verdict option \<times> risk_state" where
  "check_pdt_min_equity z o' current post v rk =
     (case rk_pdt rk of
        None \<Rightarrow> (None, rk)
      | Some p \<Rightarrow>
          if \<not> opens_or_increases_signed current post then (None, rk)
          else if \<not> pdt_should_suppress_entry (re_calendar z) (re_account z) (current_equity (re_config z) v) (ev_timestamp o') p
          then (None, rk)
          else (Some (verdict o' (or_symbol o') REJECT ''PDT_MIN_EQUITY''), risk_alert z ''pdt_min_equity_suppressed'' rk))"

definition check_buying_power :: "risk_settings \<Rightarrow> order_request \<Rightarrow> int \<Rightarrow> int \<Rightarrow> position_view \<Rightarrow> decimal \<Rightarrow> risk_state \<Rightarrow> risk_verdict option" where
  "check_buying_power z o' current post v extra rk =
     (case re_buying_power z of
        None \<Rightarrow> None
      | Some b \<Rightarrow>
          if \<not> opens_or_increases_signed current post then None
          else if buying_power_limit (current_equity (re_config z) v) (rk_phase rk) b
                  < dec_add (prospective_total_exposure o' v (pv_get v (or_symbol o'))) extra
          then Some (verdict o' (or_symbol o') REJECT ''INSUFFICIENT_BUYING_POWER'') else None)"

definition check_rth_session :: "risk_settings \<Rightarrow> order_request \<Rightarrow> int \<Rightarrow> int \<Rightarrow> risk_verdict option" where
  "check_rth_session z o' current post =
     (case re_session z of
        None \<Rightarrow> None
      | Some b \<Rightarrow>
          if \<not> opens_or_increases_signed current post then None
          else map_option (\<lambda>reason. verdict o' (or_symbol o') REJECT reason)
                 (should_suppress_entry (re_calendar z) (ev_timestamp o') b True))"

definition check_order_limits ::
  "risk_settings \<Rightarrow> order_request \<Rightarrow> position_view \<Rightarrow> decimal \<Rightarrow> int \<Rightarrow> risk_state \<Rightarrow> risk_verdict result \<times> risk_state" where
  \<comment> \<open>the position limit, then exposure and drawdown\<close>
  "check_order_limits z o' v extra limit rk =
     (let p = pv_get v (or_symbol o'); post = pos_quantity p + order_signed o';
          prospective = dec_add (prospective_total_exposure o' v p) extra in
      if limit < \<bar>post\<bar> then (Inr (verdict o' (or_symbol o') REJECT ''position_limit_exceeded''), rk)
      else case check_exposure_and_drawdown (re_config z) o' (or_symbol o') v ''approaching exposure limit at order gate''
                  prospective (prospective \<le> pv_exposure v) rk of
          (Inl x, rk) \<Rightarrow> (Inl x, rk)
        | (Inr (Some r), rk) \<Rightarrow> (Inr r, rk)
        | (Inr None, rk) \<Rightarrow> (Inr (verdict o' (or_symbol o') ALLOW ''order within limits''), rk))"

definition check_order ::
  "risk_settings \<Rightarrow> order_request \<Rightarrow> position_view \<Rightarrow> decimal \<Rightarrow> risk_state \<Rightarrow> risk_verdict result \<times> risk_state" where
  "check_order z o' v extra rk =
     (if current_equity (re_config z) v \<le> 0
      then (Inr (verdict o' (or_symbol o') FORCE_FLATTEN ''non_positive_equity''), rk)
      else case adjusted_max (re_config z) (or_symbol o') rk of
        Inl x \<Rightarrow> (Inl x, rk)
      | Inr limit \<Rightarrow>
          let current = pos_quantity (pv_get v (or_symbol o')); post = current + order_signed o' in
          case check_pdt_min_equity z o' current post v rk of
            (Some r, rk) \<Rightarrow> (Inr r, rk)
          | (None, rk) \<Rightarrow> (case check_buying_power z o' current post v extra rk of
                Some r \<Rightarrow> (Inr r, rk)
              | None \<Rightarrow> (case check_rth_session z o' current post of
                    Some r \<Rightarrow> (Inr r, rk)
                  | None \<Rightarrow> check_order_limits z o' v extra limit rk)))"

subsection \<open>What the checks promise\<close>

lemma tenth_bounds: "0 < fl_round (1/10)" "fl_round (1/10) \<le> 1"
  using round_sig_pos[of 2 53 "1/10"] round_sig_mono[of 2 53 "1/10" 1] fl_of_int_exact[of 1] by simp_all

lemma scale_down_factor_bounds: "scale_down_factor l x t = Inr f \<Longrightarrow> fl_round (1/10) \<le> f \<and> f \<le> 1"
  using tenth_bounds(2) by (auto simp: scale_down_factor_def Let_def split: if_splits)

lemma verdict_simps [simp]: "rv_action (verdict e s a r) = a" "rv_symbol (verdict e s a r) = s" "rv_reason (verdict e s a r) = r"
  by (simp_all add: verdict_def)

definition lets_through :: "risk_verdict \<Rightarrow> bool" where
  "lets_through r \<longleftrightarrow> rv_action r = ALLOW \<or> rv_action r = SCALE_DOWN"

lemma exposure_gate:
  assumes "check_exposure_and_drawdown c e s v reason x still rk = (Inr r, rk')"
    and "\<forall>w. r = Some w \<longrightarrow> lets_through w"
  shows "0 < current_equity c v" "rk' = update_high_water_mark (current_equity c v) rk"
    "\<not> drawdown_breached c (current_equity c v) rk'" "x < max_exposure c (current_equity c v) \<or> still"
    "r = Some w \<Longrightarrow> rv_action w = SCALE_DOWN \<and> rv_symbol w = s \<and> 0 < rv_scaling_factor w \<and> rv_scaling_factor w \<le> 1"
proof -
  note b = scale_down_factor_bounds tenth_bounds(1)
  show "0 < current_equity c v" "rk' = update_high_water_mark (current_equity c v) rk"
    "\<not> drawdown_breached c (current_equity c v) rk'" "x < max_exposure c (current_equity c v) \<or> still"
    using assms by (auto simp: check_exposure_and_drawdown_def Let_def lets_through_def split: if_splits)
  show "rv_action w = SCALE_DOWN \<and> rv_symbol w = s \<and> 0 < rv_scaling_factor w \<and> rv_scaling_factor w \<le> 1" if "r = Some w"
    using assms that b by (cases "scale_down_factor (max_exposure c (current_equity c v)) x (decimal_of_repr (rcf_scale_down_threshold c))")
      (fastforce simp: check_exposure_and_drawdown_def Let_def lets_through_def split: if_splits)+
qed

lemma regime_scaling_le_one:
  assumes "regime_scaling c s rk = Inr f" "regime_scale_default c \<le> 1"
  shows "f \<le> 1"
  using assms by (auto simp: regime_scaling_def Let_def split: option.splits if_splits)

lemma adjusted_max_le:
  assumes "adjusted_max c s rk = Inr limit" "0 \<le> rcf_max_position c" "rcf_max_position c < 2 ^ 53" "regime_scale_default c \<le> 1"
  shows "limit \<le> rcf_max_position c"
proof -
  obtain f where f: "regime_scaling c s rk = Inr f" "limit = trunc (fl_mul (num (rcf_max_position c)) f)"
    using assms(1) by (auto simp: adjusted_max_def bind_result_Inr_iff)
  have "num (rcf_max_position c) * f \<le> num (rcf_max_position c)"
    using regime_scaling_le_one[OF f(1) assms(4)] mult_left_mono[of f 1 "num (rcf_max_position c)"] assms(2,3)
    by (simp add: num_def fl_of_int_exact)
  then have "fl_mul (num (rcf_max_position c)) f \<le> of_int (rcf_max_position c)"
    using round_sig_mono[of 2 53 "num (rcf_max_position c) * f" "num (rcf_max_position c)"] assms(2,3)
    by (simp add: fl_mul_def num_def fl_of_int_exact)
  then show ?thesis using trunc_le[of "fl_mul (num (rcf_max_position c)) f"] assms(2)
    by (cases "0 < limit") (auto simp: f(2) dest: order_trans)
qed

lemma gates_keep_risk:
  "check_pdt_min_equity z o' c p v rk = (r, rk') \<Longrightarrow> rk_hwm rk' = rk_hwm rk \<and> rk_phase rk' = rk_phase rk
     \<and> rk_pdt rk' = rk_pdt rk \<and> rk_regimes rk' = rk_regimes rk"
  by (auto simp: check_pdt_min_equity_def risk_alert_def split: option.splits if_splits)

definition prospective_gross :: "order_request \<Rightarrow> position_view \<Rightarrow> decimal \<Rightarrow> decimal" where
  "prospective_gross o' v extra = dec_add (prospective_total_exposure o' v (pv_get v (or_symbol o'))) extra"

definition order_opens :: "order_request \<Rightarrow> position_view \<Rightarrow> bool" where
  "order_opens o' v \<longleftrightarrow> opens_or_increases_signed (pos_quantity (pv_get v (or_symbol o'))) (pos_quantity (pv_get v (or_symbol o')) + order_signed o')"

definition entry_permitted :: "risk_settings \<Rightarrow> order_request \<Rightarrow> position_view \<Rightarrow> decimal \<Rightarrow> risk_state \<Rightarrow> bool" where
  \<comment> \<open>the gates that only an entry has to pass\<close>
  "entry_permitted z o' v extra rk \<longleftrightarrow>
     (\<forall>p. rk_pdt rk = Some p \<longrightarrow>
        \<not> pdt_should_suppress_entry (re_calendar z) (re_account z) (current_equity (re_config z) v) (ev_timestamp o') p)
     \<and> (\<forall>b. re_buying_power z = Some b \<longrightarrow>
        dec_add (prospective_total_exposure o' v (pv_get v (or_symbol o'))) extra
          \<le> buying_power_limit (current_equity (re_config z) v) (rk_phase rk) b)
     \<and> (\<forall>b. re_session z = Some b \<longrightarrow> should_suppress_entry (re_calendar z) (ev_timestamp o') b True = None)"

lemma order_gate_stages:
  assumes "check_order z o' v extra rk = (Inr r, rk')" "lets_through r"
  obtains limit where "adjusted_max (re_config z) (or_symbol o') rk = Inr limit"
    "check_order_limits z o' v extra limit rk = (Inr r, rk')"
    "opens_or_increases_signed (pos_quantity (pv_get v (or_symbol o'))) (pos_quantity (pv_get v (or_symbol o')) + order_signed o')
       \<longrightarrow> entry_permitted z o' v extra rk"
proof -
  let ?q = "pos_quantity (pv_get v (or_symbol o'))"
  obtain limit where limit: "adjusted_max (re_config z) (or_symbol o') rk = Inr limit"
    using assms by (cases "adjusted_max (re_config z) (or_symbol o') rk") (auto simp: check_order_def lets_through_def split: if_splits)
  obtain g rk1 where g: "check_pdt_min_equity z o' ?q (?q + order_signed o') v rk = (g, rk1)" by (cases "check_pdt_min_equity z o' ?q (?q + order_signed o') v rk")
  have g1: "g = None" "rk1 = rk"
    "opens_or_increases_signed ?q (?q + order_signed o') \<Longrightarrow> rk_pdt rk = Some p \<Longrightarrow>
        \<not> pdt_should_suppress_entry (re_calendar z) (re_account z) (current_equity (re_config z) v) (ev_timestamp o') p" for p
    using assms g limit by (auto simp: check_order_def Let_def check_pdt_min_equity_def lets_through_def split: option.splits if_splits)
  have bp: "check_buying_power z o' ?q (?q + order_signed o') v extra rk = None"
    using assms g limit g1 by (auto simp: check_order_def Let_def check_buying_power_def lets_through_def split: option.splits if_splits)
  have rth: "check_rth_session z o' ?q (?q + order_signed o') = None"
    using assms g limit g1 bp by (auto simp: check_order_def Let_def check_rth_session_def lets_through_def split: option.splits if_splits)
  show thesis
  proof (rule that[OF limit])
    show "check_order_limits z o' v extra limit rk = (Inr r, rk')"
      using assms g limit g1 bp rth by (auto simp: check_order_def Let_def lets_through_def split: if_splits)
    show "opens_or_increases_signed ?q (?q + order_signed o') \<longrightarrow> entry_permitted z o' v extra rk"
      using g1(3) bp rth by (auto simp: entry_permitted_def check_buying_power_def check_rth_session_def not_less split: if_splits)
  qed
qed

lemma order_gate_facts:
  assumes "check_order z o' v extra rk = (Inr r, rk')" "lets_through r"
  obtains limit where "adjusted_max (re_config z) (or_symbol o') rk = Inr limit"
    "\<bar>pos_quantity (pv_get v (or_symbol o')) + order_signed o'\<bar> \<le> limit"
    "0 < current_equity (re_config z) v" "rk' = update_high_water_mark (current_equity (re_config z) v) rk"
    "\<not> drawdown_breached (re_config z) (current_equity (re_config z) v) rk'"
    "prospective_gross o' v extra < max_exposure (re_config z) (current_equity (re_config z) v) \<or> prospective_gross o' v extra \<le> pv_exposure v"
    "order_opens o' v \<longrightarrow> entry_permitted z o' v extra rk"
    "rv_action r = SCALE_DOWN \<longrightarrow> 0 < rv_scaling_factor r \<and> rv_scaling_factor r \<le> 1"
proof -
  let ?p = "pv_get v (or_symbol o')"
  let ?x = "prospective_gross o' v extra"
  obtain limit where stages: "adjusted_max (re_config z) (or_symbol o') rk = Inr limit"
    "check_order_limits z o' v extra limit rk = (Inr r, rk')"
    "opens_or_increases_signed (pos_quantity ?p) (pos_quantity ?p + order_signed o') \<longrightarrow> entry_permitted z o' v extra rk"
    by (rule order_gate_stages[OF assms(1,2)])
  have post: "\<bar>pos_quantity ?p + order_signed o'\<bar> \<le> limit"
    using stages(2) assms(2) by (auto simp: check_order_limits_def Let_def lets_through_def split: if_splits)
  then obtain w where w: "check_exposure_and_drawdown (re_config z) o' (or_symbol o') v ''approaching exposure limit at order gate'' ?x
      (?x \<le> pv_exposure v) rk = (Inr w, rk')" "\<forall>u. w = Some u \<longrightarrow> u = r \<and> lets_through u" "w = None \<longrightarrow> rv_action r = ALLOW"
    using stages(2) assms(2) by (auto simp: check_order_limits_def prospective_gross_def Let_def split: prod.splits sum.splits option.splits)
  note gate = exposure_gate[OF w(1)] w(2,3)
  have scale: "rv_action r = SCALE_DOWN \<longrightarrow> 0 < rv_scaling_factor r \<and> rv_scaling_factor r \<le> 1"
    using gate(5)[of r] gate(6,7) by (cases w) auto
  show thesis
    by (rule that[OF stages(1) post]) (use gate stages(3) scale in \<open>auto simp: order_opens_def\<close>)
qed

text \<open>C13: An order that the order gate allows or scales down has passed every limit: the position after
  the fill is within the regime-adjusted limit, hence within the configured one; equity is positive
  and the drawdown from the high-water mark, which now covers this equity, is below its limit; the
  gross exposure with the order and with what earlier legs committed is below its cap unless it does
  not grow; and if the order opens or increases a position, no day-trading suppression applies,
  buying power covers it and the session admits it. The scaling factor of a scale-down is positive
  and at most one.\<close>

theorem allowed_order_within_limits:
  assumes "check_order z o' v extra rk = (Inr r, rk')" "lets_through r"
    and "0 \<le> rcf_max_position (re_config z)" "rcf_max_position (re_config z) < 2 ^ 53" "regime_scale_default (re_config z) \<le> 1"
  shows "let c = re_config z; p = pv_get v (or_symbol o'); post = pos_quantity p + order_signed o';
             equity = current_equity c v; prospective = dec_add (prospective_total_exposure o' v p) extra
    in (\<exists>limit. adjusted_max c (or_symbol o') rk = Inr limit \<and> \<bar>post\<bar> \<le> limit) \<and> \<bar>post\<bar> \<le> rcf_max_position c
     \<and> 0 < equity \<and> rk_hwm rk' = max (rk_hwm rk) equity \<and> \<not> drawdown_breached c equity rk'
     \<and> (prospective < max_exposure c equity \<or> prospective \<le> pv_exposure v)
     \<and> (opens_or_increases_signed (pos_quantity p) post \<longrightarrow> entry_permitted z o' v extra rk)
     \<and> (rv_action r = SCALE_DOWN \<longrightarrow> 0 < rv_scaling_factor r \<and> rv_scaling_factor r \<le> 1)"
proof -
  obtain limit where gate: "adjusted_max (re_config z) (or_symbol o') rk = Inr limit"
    "\<bar>pos_quantity (pv_get v (or_symbol o')) + order_signed o'\<bar> \<le> limit"
    "0 < current_equity (re_config z) v" "rk' = update_high_water_mark (current_equity (re_config z) v) rk"
    "\<not> drawdown_breached (re_config z) (current_equity (re_config z) v) rk'"
    "prospective_gross o' v extra < max_exposure (re_config z) (current_equity (re_config z) v) \<or> prospective_gross o' v extra \<le> pv_exposure v"
    "order_opens o' v \<longrightarrow> entry_permitted z o' v extra rk"
    "rv_action r = SCALE_DOWN \<longrightarrow> 0 < rv_scaling_factor r \<and> rv_scaling_factor r \<le> 1"
    by (rule order_gate_facts[OF assms(1,2)])
  have "rk_hwm rk' = max (rk_hwm rk) (current_equity (re_config z) v)"
    unfolding gate(4) by (simp add: update_high_water_mark_def)
  then show ?thesis unfolding Let_def
    using gate adjusted_max_le[OF gate(1) assms(3-5)] by (auto simp: order_opens_def prospective_gross_def)
qed

subsection \<open>Reductions\<close>

lemma update_hwm_idem: "update_high_water_mark x (update_high_water_mark x rk) = update_high_water_mark x rk"
  by (simp add: update_high_water_mark_def)

text \<open>An order that neither grows nor flips a position, whose exposure does not grow, is never
  scaled down and never stopped by the day-trading, buying-power or session gates. With positive
  equity the gate's answer is exactly this: rejection when what is left of the position is above the
  regime-adjusted limit, otherwise the forced flatten when the drawdown limit is breached, otherwise
  permission. So a partial reduction of a position above its limit is rejected, a full exit is not.\<close>

theorem reduction_verdict:
  assumes "\<not> opens_or_increases_signed (pos_quantity (pv_get v (or_symbol o'))) (pos_quantity (pv_get v (or_symbol o')) + order_signed o')"
    and "dec_add (prospective_total_exposure o' v (pv_get v (or_symbol o'))) extra \<le> pv_exposure v"
    and "0 < current_equity (re_config z) v" and "adjusted_max (re_config z) (or_symbol o') rk = Inr limit"
    and "decimal_of_repr (rcf_scale_down_threshold (re_config z)) < 1"
  shows "\<exists>r rk'. check_order z o' v extra rk = (Inr r, rk') \<and> rv_action r =
     (if limit < \<bar>pos_quantity (pv_get v (or_symbol o')) + order_signed o'\<bar> then REJECT
      else if drawdown_breached (re_config z) (current_equity (re_config z) v)
                (update_high_water_mark (current_equity (re_config z) v) rk) then FORCE_FLATTEN
      else ALLOW)"
proof -
  have pdt: "check_pdt_min_equity z o' (pos_quantity (pv_get v (or_symbol o'))) (pos_quantity (pv_get v (or_symbol o')) + order_signed o') v rk = (None, rk)"
    using assms(1) by (simp add: check_pdt_min_equity_def split: option.split)
  have bp: "check_buying_power z o' (pos_quantity (pv_get v (or_symbol o'))) (pos_quantity (pv_get v (or_symbol o')) + order_signed o') v extra rk = None"
    using assms(1) by (simp add: check_buying_power_def split: option.split)
  have rth: "check_rth_session z o' (pos_quantity (pv_get v (or_symbol o'))) (pos_quantity (pv_get v (or_symbol o')) + order_signed o') = None"
    using assms(1) by (simp add: check_rth_session_def split: option.split)
  have "check_order z o' v extra rk = check_order_limits z o' v extra limit rk"
    using assms(3,4) by (simp add: check_order_def Let_def pdt bp rth)
  then show ?thesis using assms(2,3,5)
    by (auto simp: check_order_limits_def check_exposure_and_drawdown_def Let_def)
qed

subsection \<open>Examples\<close>

definition sample_limits :: "int \<Rightarrow> risk_settings" where
  \<comment> \<open>an engine with this position limit and no entry gates\<close>
  "sample_limits limit = \<lparr>re_config = \<lparr>rcf_max_position = limit, rcf_max_gross_pct = 1, rcf_max_drawdown_pct = 5, rcf_equity = 1,
     rcf_vol_breakout_scale = 1/2, rcf_compression_scale = 3/4, rcf_normal_scale = 1, rcf_scale_down_threshold = 0\<rparr>,
     re_buying_power = None, re_session = None, re_calendar = sample_calendar, re_account = ''m'', re_alerts_bound = False\<rparr>"

definition sample_view :: position_view where
  \<comment> \<open>five shares of one symbol, marked at one\<close>
  "sample_view = \<lparr>pv_get = (\<lambda>s. (flat_position s)\<lparr>pos_quantity := if s = ''X'' then 5 else 0\<rparr>),
     pv_all = [(''X'', (flat_position ''X'')\<lparr>pos_quantity := 5\<rparr>)], pv_exposure = 5, pv_mark = (\<lambda>_. Some 1), pv_opened = (\<lambda>_. None)\<rparr>"

definition sample_sale :: "int \<Rightarrow> order_request" where
  "sample_sale n = sample_order\<lparr>or_side := SELL, or_quantity := n\<rparr>"

lemma dec_round_int: "\<bar>n\<bar> < 10 ^ 28 \<Longrightarrow> dec_round (of_int n) = of_int n"
  by (intro dec_round_exact[of 0] dec_exact_intI[of _ 0 n]) simp_all

lemma sample_fields:
  "or_symbol (sample_sale n) = ''X''" "order_signed (sample_sale n) = - n" "or_limit_price (sample_sale n) = None"
  "pos_quantity (pv_get sample_view ''X'') = 5" "pv_exposure sample_view = 5"
  "resolve_mark ''X'' (pv_get sample_view ''X'') sample_view = 1"
  by (simp_all add: sample_sale_def sample_order_def order_signed_def sample_view_def resolve_mark_def)

lemma sample_equity: "current_equity (re_config (sample_limits limit)) sample_view = 1"
  using dec_round_int[of 1] by (simp add: current_equity_def sample_view_def sample_limits_def flat_position_def dec_add_def dec_sub_def)

lemma sample_limit: "\<bar>n\<bar> < 2 ^ 53 \<Longrightarrow> adjusted_max (re_config (sample_limits n)) s (risk_engine_new z None p) = Inr n"
  using fl_of_int_exact[of n]
  by (simp add: adjusted_max_def regime_scaling_def risk_engine_new_def sample_limits_def num_def fl_mul_def trunc_def)

lemma sample_prospective:
  assumes "0 \<le> n" "n \<le> 5"
  shows "dec_add (prospective_total_exposure (sample_sale n) sample_view (pv_get sample_view ''X'')) 0 = of_int (5 - n)"
proof -
  have "dec_round (of_int (5 - n)) = of_int (5 - n)" using assms by (intro dec_round_int) simp
  moreover from this have "dec_round (5 - of_int n) = 5 - of_int n" by simp
  ultimately show ?thesis
    using assms dec_round_int[of 5] by (simp add: prospective_total_exposure_def sample_fields dec_add_def dec_sub_def dec_mul_def)
qed

lemma sample_drawdown: "\<not> drawdown_breached (re_config (sample_limits limit)) 1 (update_high_water_mark 1 (risk_engine_new (sample_limits limit) None None))"
  by (simp add: drawdown_breached_def update_high_water_mark_def risk_engine_new_def sample_limits_def dec_sub_def dec_div_def dec_mul_def)

theorem reduction_verdict_witness:
  "\<exists>r rk'. check_order (sample_limits 3) (sample_sale 1) sample_view 0 (risk_engine_new (sample_limits 3) None None) = (Inr r, rk')
     \<and> rv_action r = REJECT"
proof -
  have "\<not> opens_or_increases_signed 5 (5 - 1)" by (simp add: opens_or_increases_signed_def)
  moreover have "decimal_of_repr (rcf_scale_down_threshold (re_config (sample_limits 3))) < 1" by (simp add: sample_limits_def decimal_of_repr_def)
  ultimately show ?thesis
    using reduction_verdict[of sample_view "sample_sale 1" 0 "sample_limits 3" "risk_engine_new (sample_limits 3) None None" 3]
      sample_prospective[of 1]
    by (simp add: sample_fields sample_equity sample_limit)
qed

theorem allowed_order_within_limits_witness:
  "\<exists>r rk'. check_order (sample_limits 10) (sample_sale 5) sample_view 0 (risk_engine_new (sample_limits 10) None None) = (Inr r, rk')
     \<and> lets_through r \<and> rk_hwm rk' = 1 \<and> \<not> drawdown_breached (re_config (sample_limits 10)) 1 rk'"
proof -
  let ?rk = "risk_engine_new (sample_limits 10) None None"
  have "check_order (sample_limits 10) (sample_sale 5) sample_view 0 ?rk = check_order_limits (sample_limits 10) (sample_sale 5) sample_view 0 10 ?rk"
    by (simp add: check_order_def Let_def sample_equity sample_fields sample_limit check_pdt_min_equity_def
        check_buying_power_def check_rth_session_def sample_limits_def[of 10, THEN arg_cong[of _ _ re_buying_power]]
        sample_limits_def[of 10, THEN arg_cong[of _ _ re_session]] risk_engine_new_def[THEN arg_cong[of _ _ rk_pdt]])
  then obtain r rk' where run: "check_order (sample_limits 10) (sample_sale 5) sample_view 0 ?rk = (Inr r, rk')" "lets_through r"
    using sample_prospective[of 5] sample_drawdown[of 10]
    by (auto simp: check_order_limits_def check_exposure_and_drawdown_def Let_def sample_fields sample_equity
        sample_limits_def[of 10, THEN arg_cong[of _ _ "\<lambda>z. rcf_scale_down_threshold (re_config z)"]] decimal_of_repr_def lets_through_def)
  have limits: "0 \<le> rcf_max_position (re_config (sample_limits 10))" "rcf_max_position (re_config (sample_limits 10)) < 2 ^ 53"
    "regime_scale_default (re_config (sample_limits 10)) \<le> 1" by (simp_all add: sample_limits_def regime_scale_default_def)
  have hwm: "rk_hwm ?rk = 1" by (simp add: risk_engine_new_def sample_limits_def)
  show ?thesis
    using allowed_order_within_limits[OF run limits] run unfolding Let_def sample_fields sample_equity hwm by auto
qed

end
