(* ===== verification/Sized_Intents.thy ===== *)
theory Sized_Intents
  imports Risk_Engine "HOL-Library.Sublist"
begin

section \<open>Portfolio intents and strategy budgets (risk/sized\_intent\_orders.py, risk/risk\_wrapper.py)\<close>

text \<open>
  The decomposition of a portfolio intent into legs that are checked one by one against the
  exposure the earlier ones committed, and the wrapper that puts the budget of each strategy in
  front of the risk engine. What the decomposition needs of an order check is an interface, which
  both the engine and the wrapper provide.
\<close>

subsection \<open>The legs of a portfolio intent\<close>

type_synonym 'k order_check = "order_request \<Rightarrow> position_view \<Rightarrow> decimal \<Rightarrow> 'k \<Rightarrow> risk_verdict result \<times> 'k"

record planned_leg =
  lg_order :: order_request
  lg_mark :: decimal
  lg_current :: int

record sized_result =
  sr_orders :: "order_request list"
  sr_escalate :: bool

definition half_up :: "rat \<Rightarrow> int" where
  \<comment> \<open>\<open>ROUND_HALF_UP\<close>: ties go away from zero\<close>
  "half_up x = (if 0 \<le> x then \<lfloor>x + 1/2\<rfloor> else - \<lfloor>1/2 - x\<rfloor>)"

definition mint ::
  "(string \<Rightarrow> string) \<Rightarrow> 'a event_scheme \<Rightarrow> strategy \<Rightarrow> float64 \<Rightarrow> symbol \<Rightarrow> side \<Rightarrow> int \<Rightarrow> order_request" where
  "mint derive e strat disclosed s sd qty =
     \<lparr>ev_timestamp = ev_timestamp e, ev_correlation = ev_correlation e, ev_sequence = ev_sequence e,
      ev_source_layer = ''PORTFOLIO'', ev_schema_version = schema_version,
      or_order_id = derive (ev_correlation e @ '':'' @ show_int (ev_sequence e) @ '':'' @ s), or_symbol = s, or_side = sd,
      or_order_type = MARKET, or_quantity = qty, or_limit_price = None, or_strategy = strat,
      or_is_short = False, or_is_moc = False, or_g12_cost_bps = disclosed, or_reason = ''PORTFOLIO''\<rparr>"

definition target_shares :: "target_position \<Rightarrow> decimal \<Rightarrow> int" where
  "target_shares t mark = half_up (dec_div (decimal_of_repr (tp_target_usd t)) mark)"

definition plan_intent_leg :: "(string \<Rightarrow> string) \<Rightarrow> sized_intent \<Rightarrow> symbol \<Rightarrow> position_view \<Rightarrow> planned_leg option" where
  "plan_intent_leg derive si s v =
     (let p = pv_get v s; mark = resolve_mark s p v in
      if mark \<le> 0 then None
      else let delta = target_shares (the (map_of (si_targets si) s)) mark - pos_quantity p in
        if delta = 0 then None
        else Some \<lparr>lg_order = mint derive si (si_strategy si)
                     (case map_of (si_disclosed_cost_bps si) s of Some x \<Rightarrow> x | None \<Rightarrow> 0) s (if 0 < delta then BUY else SELL) \<bar>delta\<bar>,
                   lg_mark = mark, lg_current = pos_quantity p\<rparr>)"

definition rescale_leg :: "(string \<Rightarrow> string) \<Rightarrow> planned_leg \<Rightarrow> float64 \<Rightarrow> planned_leg option" where
  "rescale_leg derive l factor =
     (let o' = lg_order l; scaled = half_up (dec_mul (of_int (or_quantity o')) (decimal_of_repr factor)) in
      if scaled \<le> 0 then None
      else if scaled = or_quantity o' then Some l
      else Some (l\<lparr>lg_order := mint derive o' (or_strategy o') (or_g12_cost_bps o') (or_symbol o') (or_side o') scaled\<rparr>))"

definition commit_leg :: "planned_leg \<Rightarrow> decimal \<Rightarrow> decimal" where
  \<comment> \<open>the exposure an admitted leg adds for the checks of the later ones\<close>
  "commit_leg l extra =
     dec_add extra (dec_mul (of_int (\<bar>lg_current l + order_signed (lg_order l)\<bar> - \<bar>lg_current l\<bar>)) (lg_mark l))"

datatype leg_outcome = Skipped | Dropped | Admitted planned_leg | Escalates

definition check_leg ::
  "(string \<Rightarrow> string) \<Rightarrow> 'k order_check \<Rightarrow> sized_intent \<Rightarrow> position_view \<Rightarrow> symbol \<Rightarrow> decimal \<Rightarrow> 'k \<Rightarrow> leg_outcome \<times> 'k" where
  "check_leg derive check si v s extra rk =
     (case plan_intent_leg derive si s v of
        None \<Rightarrow> (Skipped, rk)
      | Some l \<Rightarrow> (case check (lg_order l) v extra rk of
            (Inl _, rk) \<Rightarrow> (Dropped, rk)
          | (Inr r, rk) \<Rightarrow> ((case rv_action r of
                FORCE_FLATTEN \<Rightarrow> Escalates
              | REJECT \<Rightarrow> Dropped
              | SCALE_DOWN \<Rightarrow> (case rescale_leg derive l (rv_scaling_factor r) of None \<Rightarrow> Dropped | Some l' \<Rightarrow> Admitted l')
              | ALLOW \<Rightarrow> Admitted l), rk)))"

fun check_legs ::
  "(string \<Rightarrow> string) \<Rightarrow> 'k order_check \<Rightarrow> sized_intent \<Rightarrow> position_view \<Rightarrow> symbol list \<Rightarrow> decimal \<Rightarrow> 'k
    \<Rightarrow> (planned_leg list \<times> symbol list) option \<times> 'k" where
  \<comment> \<open>the admitted legs and the dropped symbols; \<open>None\<close> when a leg asks for escalation\<close>
  "check_legs derive check si v [] extra rk = (Some ([], []), rk)"
| "check_legs derive check si v (s # ss) extra rk =
     (case check_leg derive check si v s extra rk of
        (Escalates, rk) \<Rightarrow> (None, rk)
      | (Skipped, rk) \<Rightarrow> check_legs derive check si v ss extra rk
      | (Dropped, rk) \<Rightarrow> (case check_legs derive check si v ss extra rk of
            (r, rk) \<Rightarrow> (map_option (\<lambda>(ls, ds). (ls, s # ds)) r, rk))
      | (Admitted l, rk) \<Rightarrow> (case check_legs derive check si v ss (commit_leg l extra) rk of
            (r, rk) \<Rightarrow> (map_option (\<lambda>(ls, ds). (l # ls, ds)) r, rk)))"

definition build_sized_intent_orders ::
  "(string \<Rightarrow> string) \<Rightarrow> 'k order_check \<Rightarrow> (symbol list \<Rightarrow> 'k \<Rightarrow> 'k) \<Rightarrow> sized_intent \<Rightarrow> position_view \<Rightarrow> 'k \<Rightarrow> sized_result \<times> 'k" where
  \<comment> \<open>the third argument is told the dropped legs\<close>
  "build_sized_intent_orders derive check on_dropped si v rk =
     (case check_legs derive check si v (sort (map fst (si_targets si))) 0 rk of
        (None, rk) \<Rightarrow> (\<lparr>sr_orders = [], sr_escalate = True\<rparr>, rk)
      | (Some (ls, ds), rk) \<Rightarrow> (\<lparr>sr_orders = map lg_order ls, sr_escalate = False\<rparr>, if ds = [] then rk else on_dropped ds rk))"

definition check_sized_intent :: "(string \<Rightarrow> string) \<Rightarrow> risk_settings \<Rightarrow> sized_intent \<Rightarrow> position_view \<Rightarrow> risk_state \<Rightarrow> sized_result \<times> risk_state" where
  "check_sized_intent derive z = build_sized_intent_orders derive (check_order z) (\<lambda>_. risk_alert z ''portfolio_intent_partial_execution'')"

subsection \<open>Budgets of the strategies\<close>

record budget_settings =
  bw_inner :: risk_settings
  bw_registry :: "strategy \<Rightarrow> risk_budget option"
  bw_platform :: risk_config
  bw_equity :: decimal

record budget_state =
  bw_risk :: risk_state
  bw_books :: strategy_store
  bw_hwm :: "(strategy \<times> decimal) list"

definition budget_reset :: "budget_settings \<Rightarrow> budget_state \<Rightarrow> budget_state" where
  "budget_reset w b = b\<lparr>bw_hwm := [], bw_risk := risk_reset (bw_inner w) (bw_risk b)\<rparr>"

definition alpha_equity :: "budget_settings \<Rightarrow> risk_budget \<Rightarrow> decimal" where
  "alpha_equity w rb = dec_div (dec_mul (bw_equity w) (decimal_of_repr (rb_capital_allocation_pct rb))) 100"

definition alpha_max_exposure :: "budget_settings \<Rightarrow> risk_budget \<Rightarrow> decimal" where
  "alpha_max_exposure w rb = dec_div (dec_mul (alpha_equity w rb) (decimal_of_repr (rb_max_gross_exposure_pct rb))) 100"

definition effective_max :: "budget_settings \<Rightarrow> risk_budget \<Rightarrow> int" where
  "effective_max w rb = min (rb_max_position rb) (rcf_max_position (bw_platform w))"

definition check_alpha_drawdown :: "budget_settings \<Rightarrow> risk_budget \<Rightarrow> signal \<Rightarrow> budget_state \<Rightarrow> risk_verdict option \<times> budget_state" where
  "check_alpha_drawdown w rb sig b =
     (let sid = sg_strategy sig; base = alpha_equity w rb;
          equity = dec_add (dec_sub (dec_add base (ss_get_strategy_realized_pnl (bw_books b) sid))
                     (ss_get_strategy_cumulative_fees (bw_books b) sid)) (ss_get_strategy_unrealized_pnl (bw_books b) sid);
          old = (case map_of (bw_hwm b) sid of Some h \<Rightarrow> h | None \<Rightarrow> base);
          hwm = max old equity;
          b' = (if old < equity then b\<lparr>bw_hwm := dict_set sid equity (bw_hwm b)\<rparr> else b)
      in if hwm \<le> 0 then (None, b')
         else if rb_max_drawdown_pct rb \<le> fl_round (dec_mul (dec_div (dec_sub hwm equity) hwm) 100)
         then (Some (verdict sig (sg_symbol sig) REJECT ''per_alpha_drawdown''), b') else (None, b'))"

definition inner_check :: "(risk_state \<Rightarrow> 'a \<times> risk_state) \<Rightarrow> budget_state \<Rightarrow> 'a \<times> budget_state" where
  "inner_check f b = (case f (bw_risk b) of (r, rk) \<Rightarrow> (r, b\<lparr>bw_risk := rk\<rparr>))"

definition budget_check_signal :: "budget_settings \<Rightarrow> signal \<Rightarrow> position_view \<Rightarrow> budget_state \<Rightarrow> risk_verdict result \<times> budget_state" where
  "budget_check_signal w sig v b =
     (case bw_registry w (sg_strategy sig) of
        None \<Rightarrow> inner_check (check_signal (bw_inner w) sig v) b
      | Some rb \<Rightarrow> (case ss_get (bw_books b) (sg_strategy sig) (sg_symbol sig) of (p, S) \<Rightarrow>
          let b = b\<lparr>bw_books := S\<rparr>; reduces = signal_reduces (pos_quantity p) (sg_direction sig) in
          if effective_max w rb \<le> \<bar>pos_quantity p\<bar> \<and> \<not> reduces
          then (Inr (verdict sig (sg_symbol sig) REJECT ''per_alpha_position_limit''), b)
          else if alpha_max_exposure w rb \<le> ss_get_strategy_exposure S (sg_strategy sig) \<and> \<not> reduces
          then (Inr (verdict sig (sg_symbol sig) REJECT ''per_alpha_exposure_limit''), b)
          else case check_alpha_drawdown w rb sig b of
              (Some r, b) \<Rightarrow> (Inr r, b)
            | (None, b) \<Rightarrow> inner_check (check_signal (bw_inner w) sig v) b))"

definition synthetic_strategy :: "strategy \<Rightarrow> bool" where
  \<comment> \<open>the empty identifier and the \<open>__\<close> sentinels of the kernel\<close>
  "synthetic_strategy s \<longleftrightarrow> s = '''' \<or> take 2 s = ''__''"

definition budget_check_order :: "budget_settings \<Rightarrow> budget_state order_check" where
  "budget_check_order w o' v extra b =
     (if synthetic_strategy (or_strategy o') then inner_check (check_order (bw_inner w) o' v extra) b
      else case bw_registry w (or_strategy o') of
        None \<Rightarrow> (Inr (verdict o' (or_symbol o') REJECT ''unregistered_strategy_id''), b)
      | Some rb \<Rightarrow> (case ss_get (bw_books b) (or_strategy o') (or_symbol o') of (p, S) \<Rightarrow>
          let b = b\<lparr>bw_books := S\<rparr>; post = \<bar>pos_quantity p + order_signed o'\<bar> in
          if effective_max w rb < post then (Inr (verdict o' (or_symbol o') REJECT ''per_alpha_position_limit''), b)
          else if alpha_max_exposure w rb \<le> ss_get_strategy_exposure S (or_strategy o') \<and> \<not> post < \<bar>pos_quantity p\<bar>
          then (Inr (verdict o' (or_symbol o') REJECT ''per_alpha_exposure_limit''), b)
          else inner_check (check_order (bw_inner w) o' v extra) b))"

definition budget_check_sized_intent :: "(string \<Rightarrow> string) \<Rightarrow> budget_settings \<Rightarrow> sized_intent \<Rightarrow> position_view \<Rightarrow> budget_state \<Rightarrow> sized_result \<times> budget_state" where
  "budget_check_sized_intent derive w =
     build_sized_intent_orders derive (budget_check_order w)
       (\<lambda>_ b. b\<lparr>bw_risk := risk_alert (bw_inner w) ''portfolio_intent_partial_execution'' (bw_risk b)\<rparr>)"

definition budget_record_fill :: "budget_settings \<Rightarrow> symbol \<Rightarrow> int \<Rightarrow> int \<Rightarrow> ns \<Rightarrow> budget_state \<Rightarrow> budget_state" where
  "budget_record_fill w s prev new ts b = b\<lparr>bw_risk := risk_record_fill (bw_inner w) s prev new ts (bw_risk b)\<rparr>"

definition budget_set_phase :: "buying_power_phase \<Rightarrow> budget_state \<Rightarrow> budget_state" where
  "budget_set_phase phase b = b\<lparr>bw_risk := set_buying_power_phase phase (bw_risk b)\<rparr>"

definition budget_refresh :: "budget_settings \<Rightarrow> position_view \<Rightarrow> budget_state \<Rightarrow> budget_state" where
  "budget_refresh w v b = b\<lparr>bw_risk := refresh_high_water_mark (bw_inner w) v (bw_risk b)\<rparr>"

subsection \<open>Planned legs\<close>

lemma half_up_of_int [simp]: "half_up (of_int n) = n"
proof -
  have "\<lfloor>(of_int m :: rat) + 1 / 2\<rfloor> = m" for m by linarith
  from this[of n] this[of "- n"] show ?thesis by (simp add: half_up_def)
qed

lemma half_up_mono: "x \<le> y \<Longrightarrow> half_up x \<le> half_up y"
proof -
  assume xy: "x \<le> y"
  consider "0 \<le> x" | "x < 0" "0 \<le> y" | "y < 0" by linarith
  then show ?thesis
  proof cases
    case 2
    have "0 \<le> \<lfloor>1 / 2 - x\<rfloor>" and "0 \<le> \<lfloor>y + 1 / 2\<rfloor>" using 2 by simp_all
    then have "- \<lfloor>1 / 2 - x\<rfloor> \<le> \<lfloor>y + 1 / 2\<rfloor>" by linarith
    then show ?thesis using 2 by (simp add: half_up_def)
  qed (use xy in \<open>simp_all add: half_up_def floor_mono\<close>)
qed

lemma order_signed_simps:
  "order_signed (mint derive e strat disclosed s sd n) = (if sd = BUY then n else - n)"
  "or_symbol (mint derive e strat disclosed s sd n) = s" "or_quantity (mint derive e strat disclosed s sd n) = n"
  "or_side (mint derive e strat disclosed s sd n) = sd" "or_limit_price (mint derive e strat disclosed s sd n) = None"
  "or_strategy (mint derive e strat disclosed s sd n) = strat" "or_order_type (mint derive e strat disclosed s sd n) = MARKET"
  "or_reason (mint derive e strat disclosed s sd n) = ''PORTFOLIO''"
  by (simp_all add: order_signed_def mint_def)

definition leg_mark :: "position_view \<Rightarrow> symbol \<Rightarrow> decimal" where
  "leg_mark v s = resolve_mark s (pv_get v s) v"

definition leg_goal :: "sized_intent \<Rightarrow> position_view \<Rightarrow> symbol \<Rightarrow> int" where
  \<comment> \<open>the signed quantity that would take the position to its target\<close>
  "leg_goal si v s = target_shares (the (map_of (si_targets si) s)) (leg_mark v s) - pos_quantity (pv_get v s)"

definition leg_fits :: "sized_intent \<Rightarrow> position_view \<Rightarrow> symbol \<Rightarrow> planned_leg \<Rightarrow> bool" where
  "leg_fits si v s l \<longleftrightarrow> 0 < leg_mark v s \<and> lg_mark l = leg_mark v s \<and> lg_current l = pos_quantity (pv_get v s)
     \<and> or_symbol (lg_order l) = s \<and> or_limit_price (lg_order l) = None \<and> or_strategy (lg_order l) = si_strategy si
     \<and> or_order_type (lg_order l) = MARKET \<and> or_reason (lg_order l) = ''PORTFOLIO'' \<and> 0 < or_quantity (lg_order l)
     \<and> or_quantity (lg_order l) \<le> \<bar>leg_goal si v s\<bar>
     \<and> order_signed (lg_order l) = (if 0 < leg_goal si v s then or_quantity (lg_order l) else - or_quantity (lg_order l))"

lemma plan_intent_leg_fits:
  "plan_intent_leg derive si s v = Some l \<Longrightarrow> leg_fits si v s l \<and> order_signed (lg_order l) = leg_goal si v s"
  by (auto simp: plan_intent_leg_def Let_def leg_fits_def leg_mark_def leg_goal_def order_signed_simps split: if_splits)

lemma rescale_fits:
  assumes "leg_fits si v s l" "rescale_leg derive l f = Some l'" "0 < f" "f \<le> 1" "\<bar>leg_goal si v s\<bar> < 10 ^ 28"
  shows "leg_fits si v s l'"
proof -
  let ?q = "or_quantity (lg_order l)"
  have q: "0 < ?q" "?q < 10 ^ 28" using assms(1,5) by (simp_all add: leg_fits_def)
  then have "dec_round (of_int ?q) = of_int ?q"
    by (intro dec_round_exact[of 0] dec_exact_intI[of _ 0 ?q]) simp_all
  then have "dec_mul (of_int ?q) (decimal_of_repr f) \<le> of_int ?q"
    using q(1) decimal_of_repr_le_one[OF assms(4)] by (intro dec_mul_le) simp_all
  from half_up_mono[OF this] have "half_up (dec_mul (of_int ?q) (decimal_of_repr f)) \<le> ?q" by simp
  then show ?thesis using assms(1,2)
    by (auto simp: rescale_leg_def Let_def leg_fits_def order_signed_simps order_signed_def split: if_splits)
qed

subsection \<open>The interface of an order check\<close>

definition leg_added :: "planned_leg \<Rightarrow> decimal" where
  "leg_added l = of_int (\<bar>lg_current l + order_signed (lg_order l)\<bar> - \<bar>lg_current l\<bar>) * lg_mark l"

definition added :: "planned_leg list \<Rightarrow> decimal" where
  "added ls = sum_list (map leg_added ls)"

definition leg_weight :: "sized_intent \<Rightarrow> position_view \<Rightarrow> symbol \<Rightarrow> decimal" where
  \<comment> \<open>bounds every amount that occurs while the leg is checked\<close>
  "leg_weight si v s = of_int (2 * \<bar>pos_quantity (pv_get v s)\<bar> + \<bar>leg_goal si v s\<bar>) * leg_mark v s"

definition exactly_priced :: "nat \<Rightarrow> sized_intent \<Rightarrow> position_view \<Rightarrow> symbol list \<Rightarrow> decimal \<Rightarrow> bool" where
  \<comment> \<open>amounts have at most \<open>n\<close> places and stay within 28 digits\<close>
  "exactly_priced n si v ss extra \<longleftrightarrow> on_grid n (pv_exposure v) \<and> 0 \<le> pv_exposure v \<and> on_grid n extra
     \<and> (\<forall>s\<in>set ss. on_grid n (leg_mark v s) \<and> 0 \<le> leg_mark v s)
     \<and> (pv_exposure v + \<bar>extra\<bar> + sum_list (map (leg_weight si v) ss)) * 10 ^ n < 10 ^ 28"

lemma within_digits: "on_grid n x \<Longrightarrow> \<bar>x\<bar> \<le> T \<Longrightarrow> T * 10 ^ n < 10 ^ 28 \<Longrightarrow> dec_round x = x"
proof -
  assume x: "on_grid n x" "\<bar>x\<bar> \<le> T" "T * 10 ^ n < 10 ^ 28"
  have "\<bar>x\<bar> * 10 ^ n \<le> T * 10 ^ n" by (rule mult_right_mono[OF x(2)]) simp
  then show ?thesis by (rule dec_round_grid[OF x(1) order_le_less_trans[OF _ x(3)]])
qed

lemma prospective_exact:
  assumes fits: "leg_fits si v s l" and E: "on_grid n (pv_exposure v)" "0 \<le> pv_exposure v" and x: "on_grid n extra"
    and m: "on_grid n (leg_mark v s)" and digits: "(pv_exposure v + \<bar>extra\<bar> + leg_weight si v s) * 10 ^ n < 10 ^ 28"
  shows "prospective_gross (lg_order l) v extra = pv_exposure v + extra + leg_added l"
    and "commit_leg l extra = extra + leg_added l" and "\<bar>leg_added l\<bar> \<le> leg_weight si v s" and "on_grid n (leg_added l)"
proof -
  let ?c = "lg_current l" and ?s = "order_signed (lg_order l)" and ?m = "lg_mark l" and ?E = "pv_exposure v"
  define T where "T = ?E + \<bar>extra\<bar> + leg_weight si v s"
  note round = within_digits[of n _ T, OF _ _ digits[folded T_def]]
  have m': "?m = leg_mark v s" "0 < ?m" "on_grid n ?m" using fits m by (simp_all add: leg_fits_def)
  have c: "pos_quantity (pv_get v (or_symbol (lg_order l))) = ?c" "resolve_mark (or_symbol (lg_order l)) (pv_get v (or_symbol (lg_order l))) v = ?m"
    "or_limit_price (lg_order l) = None"
    using fits by (simp_all add: leg_fits_def leg_mark_def)
  have s: "\<bar>?s\<bar> \<le> \<bar>leg_goal si v s\<bar>" "?c = pos_quantity (pv_get v s)" using fits by (auto simp: leg_fits_def)
  have weight: "leg_weight si v s = of_int (2 * \<bar>?c\<bar> + \<bar>leg_goal si v s\<bar>) * ?m" by (simp add: leg_weight_def s(2) m'(1))
  have le: "of_int a * ?m \<le> leg_weight si v s" if "a \<le> 2 * \<bar>?c\<bar> + \<bar>leg_goal si v s\<bar>" for a
    unfolding weight using that m'(2) by (intro mult_right_mono) (simp_all only: of_int_le_iff less_imp_le)
  have grid: "on_grid n (of_int a * ?m)" for a using on_grid_mult_int[OF m'(3), of a] by (simp add: mult.commute)
  define A B where "A = of_int \<bar>?c\<bar> * ?m" and "B = of_int \<bar>?c + ?s\<bar> * ?m"
  have ab: "0 \<le> A" "0 \<le> B" "on_grid n A" "on_grid n B" using m'(2) grid by (simp_all only: A_def B_def zero_le_mult_iff) auto
  have sum: "A + B \<le> leg_weight si v s"
    using le[of "\<bar>?c\<bar> + \<bar>?c + ?s\<bar>"] s(1) by (simp only: A_def B_def of_int_add distrib_right)
  have split: "leg_added l = B - A" unfolding leg_added_def A_def B_def of_int_diff left_diff_distrib ..
  show bound: "\<bar>leg_added l\<bar> \<le> leg_weight si v s" unfolding split using ab sum by linarith
  show g: "on_grid n (leg_added l)" unfolding leg_added_def by (rule grid)
  have 1: "dec_mul (of_int \<bar>?c\<bar>) ?m = A" "dec_mul (of_int \<bar>?c + ?s\<bar>) ?m = B"
    unfolding dec_mul_def A_def[symmetric] B_def[symmetric] using ab sum E(2) by (auto intro!: round simp: T_def)
  have 2: "dec_sub ?E A = ?E - A"
    unfolding dec_sub_def using ab sum E(2) by (intro round on_grid_diff ab E(1)) (simp add: T_def)
  have 3: "dec_add (?E - A) B = ?E + leg_added l"
    unfolding dec_add_def split using ab sum E(2) by (subst round) (auto simp: T_def intro!: ab E(1) on_grid_add on_grid_diff)
  have 4: "dec_add (?E + leg_added l) extra = ?E + extra + leg_added l"
    unfolding dec_add_def using bound E(2) by (subst round) (auto simp: T_def intro!: g x E(1))
  show "prospective_gross (lg_order l) v extra = ?E + extra + leg_added l"
    using m'(2) by (simp add: prospective_gross_def prospective_total_exposure_def Let_def c 1[unfolded of_int_abs of_int_add] 1 2 3 4)
  have "dec_mul (of_int (\<bar>?c + ?s\<bar> - \<bar>?c\<bar>)) ?m = leg_added l"
    unfolding dec_mul_def leg_added_def[symmetric] using bound E(2) by (intro round g) (simp add: T_def)
  moreover have "dec_add extra (leg_added l) = extra + leg_added l"
    unfolding dec_add_def using bound E(2) by (intro round on_grid_add x g) (simp add: T_def)
  ultimately show "commit_leg l extra = extra + leg_added l" by (simp add: commit_leg_def)
qed

locale order_gate =
  fixes check :: "'k order_check"
    and keeps :: "'k \<Rightarrow> bool"
    and gross :: "position_view \<Rightarrow> decimal"
    and power :: "position_view \<Rightarrow> decimal option"
  assumes kept: "keeps k \<Longrightarrow> check o' v x k = (r, k') \<Longrightarrow> keeps k'"
    and scaled: "check o' v x k = (Inr r', k') \<Longrightarrow> rv_action r' = SCALE_DOWN \<Longrightarrow> 0 < rv_scaling_factor r' \<and> rv_scaling_factor r' \<le> 1"
    and capped: "check o' v x k = (Inr r', k') \<Longrightarrow> lets_through r' \<Longrightarrow>
        prospective_gross o' v x < gross v \<or> prospective_gross o' v x \<le> pv_exposure v"
    and powered: "keeps k \<Longrightarrow> check o' v x k = (Inr r', k') \<Longrightarrow> lets_through r' \<Longrightarrow> order_opens o' v \<Longrightarrow>
        power v = Some b \<Longrightarrow> prospective_gross o' v x \<le> b"
begin

lemma admitted:
  assumes "check_leg derive check si v s extra k = (Admitted l, k')" "\<bar>leg_goal si v s\<bar> < 10 ^ 28"
  obtains l0 r where "plan_intent_leg derive si s v = Some l0" "check (lg_order l0) v extra k = (Inr r, k')" "lets_through r"
    "leg_fits si v s l0" "order_signed (lg_order l0) = leg_goal si v s" "leg_fits si v s l"
proof -
  obtain l0 where l0: "plan_intent_leg derive si s v = Some l0" using assms(1) by (auto simp: check_leg_def split: option.splits)
  then obtain r where r: "check (lg_order l0) v extra k = (Inr r, k')"
    using assms(1) by (auto simp: check_leg_def split: prod.splits sum.splits)
  have fits: "leg_fits si v s l0" and goal: "order_signed (lg_order l0) = leg_goal si v s" using plan_intent_leg_fits[OF l0] by blast+
  have "lets_through r \<and> leg_fits si v s l"
    using assms(1) l0 r fits rescale_fits[OF fits] assms(2) scaled[OF r]
    by (auto simp: check_leg_def lets_through_def split: risk_action.splits option.splits)
  then show thesis using that[OF l0 r] fits goal by blast
qed

lemma outcome_keeps: "keeps k \<Longrightarrow> check_leg derive check si v s extra k = (out, k') \<Longrightarrow> keeps k'"
  by (auto simp: check_leg_def split: option.splits prod.splits sum.splits intro: kept)

lemma legs_fit:
  "check_legs derive check si v ss extra k = (Some (ls, ds), k') \<Longrightarrow> \<forall>s\<in>set ss. \<bar>leg_goal si v s\<bar> < 10 ^ 28 \<Longrightarrow>
   subseq (map (or_symbol \<circ> lg_order) ls) ss \<and> (\<forall>l\<in>set ls. leg_fits si v (or_symbol (lg_order l)) l)"
proof (induction ss arbitrary: extra k ls ds k')
  case (Cons s ss)
  obtain out k1 where c: "check_leg derive check si v s extra k = (out, k1)" by fastforce
  show ?case
  proof (cases out)
    case (Admitted l)
    then obtain ls' ds' where rest: "check_legs derive check si v ss (commit_leg l extra) k1 = (Some (ls', ds'), k')" "ls = l # ls'"
      using Cons.prems(1) c by (auto split: prod.splits)
    have "leg_fits si v s l"
      by (rule admitted[OF c[unfolded Admitted]]) (use Cons.prems(2) in auto)
    moreover from this have "or_symbol (lg_order l) = s" by (simp add: leg_fits_def)
    ultimately show ?thesis using Cons.IH[OF rest(1)] Cons.prems(2) rest(2) by auto
  next
    case Dropped
    then obtain ds' where "check_legs derive check si v ss extra k1 = (Some (ls, ds'), k')"
      using Cons.prems(1) c by (auto split: prod.splits)
    then show ?thesis using Cons.IH Cons.prems(2) by (meson list.set_intros(2) list_emb_Cons)
  next
    case Skipped
    then show ?thesis using Cons.IH Cons.prems c by (auto intro: list_emb_Cons)
  qed (use Cons.prems(1) c in simp)
qed simp

lemma leg_within:
  assumes leg: "check_leg derive check si v s extra k = (Admitted l, k')" and k: "keeps k"
    and priced: "exactly_priced n si v (s # ss) extra" and goal: "\<bar>leg_goal si v s\<bar> < 10 ^ 28"
    and sofar: "pv_exposure v + extra \<le> max (pv_exposure v) (gross v)"
      "\<forall>b. power v = Some b \<longrightarrow> pv_exposure v + extra \<le> max (pv_exposure v) b"
  shows "commit_leg l extra = extra + leg_added l" and "exactly_priced n si v ss (extra + leg_added l)"
    and "pv_exposure v + extra + leg_added l \<le> max (pv_exposure v) (gross v)"
    and "\<forall>b. power v = Some b \<longrightarrow> pv_exposure v + extra + leg_added l \<le> max (pv_exposure v) b"
proof -
  obtain l0 r where l0: "check (lg_order l0) v extra k = (Inr r, k')" "lets_through r"
    "leg_fits si v s l0" "order_signed (lg_order l0) = leg_goal si v s" "leg_fits si v s l" by (rule admitted[OF leg goal])
  have m: "0 < leg_mark v s" "on_grid n (leg_mark v s)" using l0(3) priced by (simp_all add: leg_fits_def exactly_priced_def)
  have weights: "0 \<le> leg_weight si v t" if "t \<in> set (s # ss)" for t
    using that priced by (auto simp: leg_weight_def exactly_priced_def)
  have rest: "0 \<le> sum_list (map (leg_weight si v) ss)" using weights by (intro sum_list_nonneg) auto
  have digits: "(pv_exposure v + \<bar>extra\<bar> + leg_weight si v s) * 10 ^ n < 10 ^ 28"
  proof (rule order_le_less_trans)
    show "(pv_exposure v + \<bar>extra\<bar> + leg_weight si v s) * 10 ^ n
        \<le> (pv_exposure v + \<bar>extra\<bar> + sum_list (map (leg_weight si v) (s # ss))) * 10 ^ n"
      using rest by (intro mult_right_mono) simp_all
  qed (use priced in \<open>simp only: exactly_priced_def\<close>)
  have E: "on_grid n (pv_exposure v)" "0 \<le> pv_exposure v" "on_grid n extra" using priced by (simp_all add: exactly_priced_def)
  note exact = prospective_exact[OF _ E m(2) digits]
  show "commit_leg l extra = extra + leg_added l" by (rule exact(2)[OF l0(5)])
  have "\<bar>extra + leg_added l\<bar> \<le> \<bar>extra\<bar> + leg_weight si v s" using exact(3)[OF l0(5)] by linarith
  then have "(pv_exposure v + \<bar>extra + leg_added l\<bar> + sum_list (map (leg_weight si v) ss)) * 10 ^ n
      \<le> (pv_exposure v + \<bar>extra\<bar> + sum_list (map (leg_weight si v) (s # ss))) * 10 ^ n"
    by (intro mult_right_mono) simp_all
  from order_le_less_trans[OF this] show "exactly_priced n si v ss (extra + leg_added l)"
    using priced exact(4)[OF l0(5)] by (auto simp: exactly_priced_def)
  have same: "lg_mark l = leg_mark v s" "lg_mark l0 = leg_mark v s" "lg_current l = pos_quantity (pv_get v s)"
    "lg_current l0 = pos_quantity (pv_get v s)" "or_symbol (lg_order l0) = s" using l0(3,5) by (simp_all add: leg_fits_def)
  have gross_order: "prospective_gross (lg_order l0) v extra = pv_exposure v + extra + leg_added l0" by (rule exact(1)[OF l0(3)])
  define c g d where "c = pos_quantity (pv_get v s)" and "g = leg_goal si v s" and "d = order_signed (lg_order l)"
  have "0 \<le> d \<and> d \<le> g \<or> g \<le> d \<and> d \<le> 0"
    using l0(5) by (auto simp: leg_fits_def d_def g_def split: if_splits)
  then have convex: "\<bar>c + d\<bar> - \<bar>c\<bar> \<le> max 0 (\<bar>c + g\<bar> - \<bar>c\<bar>)" by linarith
  have l_added: "leg_added l = of_int (\<bar>c + d\<bar> - \<bar>c\<bar>) * leg_mark v s" "leg_added l0 = of_int (\<bar>c + g\<bar> - \<bar>c\<bar>) * leg_mark v s"
    unfolding leg_added_def same l0(4) c_def d_def g_def by simp_all
  have grows: "leg_added l \<le> leg_added l0" if "\<bar>c\<bar> < \<bar>c + g\<bar>"
  proof -
    have "\<bar>c + d\<bar> - \<bar>c\<bar> \<le> \<bar>c + g\<bar> - \<bar>c\<bar>" using convex that by linarith
    then show ?thesis unfolding l_added using m(1) by (intro mult_right_mono) (simp_all only: of_int_le_iff less_imp_le)
  qed
  have falls: "leg_added l \<le> 0" if "\<not> \<bar>c\<bar> < \<bar>c + g\<bar>"
  proof -
    have "\<bar>c + d\<bar> - \<bar>c\<bar> \<le> 0" using convex that by linarith
    then show ?thesis unfolding l_added using m(1) by (intro mult_nonpos_nonneg) (simp_all only: of_int_le_0_iff less_imp_le)
  qed
  show "pv_exposure v + extra + leg_added l \<le> max (pv_exposure v) (gross v)"
    using capped[OF l0(1,2)] grows falls sofar(1) unfolding gross_order by linarith
  have "pv_exposure v + extra + leg_added l \<le> max (pv_exposure v) b" if b: "power v = Some b" for b
  proof (cases "\<bar>c\<bar> < \<bar>c + g\<bar>")
    case True
    then have "order_opens (lg_order l0) v"
      by (simp add: order_opens_def opens_or_increases_signed_def same(5) l0(4) c_def g_def)
    from powered[OF k l0(1,2) this b] show ?thesis using grows[OF True] unfolding gross_order by linarith
  qed (use falls sofar(2) b in fastforce)
  then show "\<forall>b. power v = Some b \<longrightarrow> pv_exposure v + extra + leg_added l \<le> max (pv_exposure v) b" by blast
qed

lemma legs_within:
  assumes "check_legs derive check si v ss extra k = (Some (ls, ds), k')" "keeps k"
    and "exactly_priced n si v ss extra" "\<forall>s\<in>set ss. \<bar>leg_goal si v s\<bar> < 10 ^ 28"
    and "pv_exposure v + extra \<le> max (pv_exposure v) (gross v)"
    and "\<forall>b. power v = Some b \<longrightarrow> pv_exposure v + extra \<le> max (pv_exposure v) b"
  shows "pv_exposure v + extra + added ls \<le> max (pv_exposure v) (gross v)
    \<and> (\<forall>b. power v = Some b \<longrightarrow> pv_exposure v + extra + added ls \<le> max (pv_exposure v) b)"
  using assms
proof (induction ss arbitrary: extra k ls ds)
  case (Cons s ss)
  have shorter: "exactly_priced n si v ss extra"
  proof -
    have "0 \<le> leg_weight si v s" using Cons.prems(3) by (auto simp: leg_weight_def exactly_priced_def)
    then have "(pv_exposure v + \<bar>extra\<bar> + sum_list (map (leg_weight si v) ss)) * 10 ^ n
        \<le> (pv_exposure v + \<bar>extra\<bar> + sum_list (map (leg_weight si v) (s # ss))) * 10 ^ n"
      by (intro mult_right_mono) simp_all
    from order_le_less_trans[OF this] show ?thesis using Cons.prems(3) by (auto simp: exactly_priced_def)
  qed
  obtain out k1 where c: "check_leg derive check si v s extra k = (out, k1)" by fastforce
  have k1: "keeps k1" by (rule outcome_keeps[OF Cons.prems(2) c])
  have goals: "\<bar>leg_goal si v s\<bar> < 10 ^ 28" "\<forall>s\<in>set ss. \<bar>leg_goal si v s\<bar> < 10 ^ 28" using Cons.prems(4) by auto
  show ?case
  proof (cases out)
    case (Admitted l)
    note leg = leg_within[OF c[unfolded Admitted] Cons.prems(2,3) goals(1) Cons.prems(5,6)]
    obtain ls' ds' where rest: "check_legs derive check si v ss (commit_leg l extra) k1 = (Some (ls', ds'), k')" "ls = l # ls'"
      using Cons.prems(1) c Admitted by (auto split: prod.splits)
    from Cons.IH[OF rest(1)[unfolded leg(1)] k1 leg(2) goals(2)] leg(3,4)
    show ?thesis by (simp add: rest(2) added_def add.assoc)
  next
    case Dropped
    then obtain ds' where "check_legs derive check si v ss extra k1 = (Some (ls, ds'), k')"
      using Cons.prems(1) c by (auto split: prod.splits)
    from Cons.IH[OF this k1 shorter goals(2) Cons.prems(5,6)] show ?thesis by blast
  next
    case Skipped
    then have "check_legs derive check si v ss extra k1 = (Some (ls, ds), k')" using Cons.prems(1) c by simp
    from Cons.IH[OF this k1 shorter goals(2) Cons.prems(5,6)] show ?thesis by blast
  qed (use Cons.prems(1) c in simp)
qed (simp add: added_def)

end

subsection \<open>The engine and the wrapper provide it\<close>

lemma update_hwm_phase [simp]: "rk_phase (update_high_water_mark x rk) = rk_phase rk"
  by (simp add: update_high_water_mark_def)

lemma check_exposure_phase: "check_exposure_and_drawdown c e s v reason x still rk = (r, rk') \<Longrightarrow> rk_phase rk' = rk_phase rk"
  by (auto simp: check_exposure_and_drawdown_def Let_def split: if_splits)

lemma check_order_phase: "check_order z o' v extra rk = (r, rk') \<Longrightarrow> rk_phase rk' = rk_phase rk"
proof -
  assume run: "check_order z o' v extra rk = (r, rk')"
  have limits: "check_order_limits z o' v extra l rk1 = (r, rk') \<Longrightarrow> rk_phase rk' = rk_phase rk1" for l rk1
    by (auto simp: check_order_limits_def Let_def dest: check_exposure_phase split: if_splits prod.splits sum.splits option.splits)
  show ?thesis using run
    by (auto simp: check_order_def Let_def dest: gates_keep_risk split: if_splits prod.splits sum.splits option.splits)
      (metis limits gates_keep_risk)
qed

definition gross_cap :: "risk_config \<Rightarrow> position_view \<Rightarrow> decimal" where
  "gross_cap c v = max_exposure c (current_equity c v)"

definition power_cap :: "risk_settings \<Rightarrow> buying_power_phase \<Rightarrow> position_view \<Rightarrow> decimal option" where
  "power_cap z phase v = map_option (buying_power_limit (current_equity (re_config z) v) phase) (re_buying_power z)"

interpretation engine: order_gate "check_order z" "\<lambda>rk. rk_phase rk = phase" "gross_cap (re_config z)" "power_cap z phase"
  for z phase
proof
  show "rk_phase k' = phase" if "rk_phase k = phase" "check_order z o' v x k = (r, k')" for k o' v x r k'
    using check_order_phase[OF that(2)] that(1) by simp
  show "0 < rv_scaling_factor r \<and> rv_scaling_factor r \<le> 1" if "check_order z o' v x k = (Inr r, k')" "rv_action r = SCALE_DOWN" for o' v x k r k'
    by (rule order_gate_facts[OF that(1)]) (use that(2) in \<open>auto simp: lets_through_def\<close>)
  show "prospective_gross o' v x < gross_cap (re_config z) v \<or> prospective_gross o' v x \<le> pv_exposure v"
    if "check_order z o' v x k = (Inr r, k')" "lets_through r" for o' v x k r k'
    by (rule order_gate_facts[OF that]) (simp add: gross_cap_def)
  show "prospective_gross o' v x \<le> b"
    if "rk_phase k = phase" "check_order z o' v x k = (Inr r, k')" "lets_through r" "order_opens o' v" "power_cap z phase v = Some b" for k o' v x r k' b
    by (rule order_gate_facts[OF that(2,3)]) (use that(1,4,5) in \<open>auto simp: power_cap_def entry_permitted_def prospective_gross_def\<close>)
qed

lemma budget_order_inner:
  assumes "budget_check_order w o' v x b = (r, b')"
  shows "(\<exists>r'. r = Inr r' \<and> rv_action r' = REJECT \<and> bw_risk b' = bw_risk b) \<or> check_order (bw_inner w) o' v x (bw_risk b) = (r, bw_risk b')"
  using assms by (auto simp: budget_check_order_def inner_check_def Let_def split: if_splits option.splits prod.splits)

lemma budget_order_passes:
  "budget_check_order w o' v x b = (Inr r, b') \<Longrightarrow> rv_action r \<noteq> REJECT \<Longrightarrow>
     check_order (bw_inner w) o' v x (bw_risk b) = (Inr r, bw_risk b')"
  using budget_order_inner by fastforce

interpretation budgeted: order_gate "budget_check_order w" "\<lambda>b. rk_phase (bw_risk b) = phase" "gross_cap (re_config (bw_inner w))" "power_cap (bw_inner w) phase"
  for w phase
proof
  show "rk_phase (bw_risk k') = phase" if "rk_phase (bw_risk k) = phase" "budget_check_order w o' v x k = (r, k')" for k o' v x r k'
    using budget_order_inner[OF that(2)] that(1) check_order_phase by metis
  show "0 < rv_scaling_factor r \<and> rv_scaling_factor r \<le> 1" if "budget_check_order w o' v x k = (Inr r, k')" "rv_action r = SCALE_DOWN" for o' v x k r k'
    by (rule engine.scaled[OF budget_order_passes[OF that(1)] that(2)]) (simp add: that(2))
  show "prospective_gross o' v x < gross_cap (re_config (bw_inner w)) v \<or> prospective_gross o' v x \<le> pv_exposure v"
    if "budget_check_order w o' v x k = (Inr r, k')" "lets_through r" for o' v x k r k'
    by (rule engine.capped[OF budget_order_passes[OF that(1)] that(2)]) (use that(2) in \<open>auto simp: lets_through_def\<close>)
  show "prospective_gross o' v x \<le> b"
    if "rk_phase (bw_risk k) = phase" "budget_check_order w o' v x k = (Inr r, k')" "lets_through r" "order_opens o' v"
      "power_cap (bw_inner w) phase v = Some b" for k o' v x r k' b
    by (rule engine.powered[OF that(1) budget_order_passes[OF that(2)] that(3-5)]) (use that(3) in \<open>auto simp: lets_through_def\<close>)
qed

subsection \<open>Properties\<close>

definition orders_toward :: "sized_intent \<Rightarrow> position_view \<Rightarrow> sized_result \<Rightarrow> bool" where
  "orders_toward si v res \<longleftrightarrow>
     subseq (map or_symbol (sr_orders res)) (sort (map fst (si_targets si)))
     \<and> (\<forall>o'\<in>set (sr_orders res). 0 < leg_mark v (or_symbol o') \<and> 0 < or_quantity o'
          \<and> or_quantity o' \<le> \<bar>leg_goal si v (or_symbol o')\<bar>
          \<and> order_signed o' = (if 0 < leg_goal si v (or_symbol o') then or_quantity o' else - or_quantity o')
          \<and> or_order_type o' = MARKET \<and> or_strategy o' = si_strategy si)
     \<and> (sr_escalate res \<longrightarrow> sr_orders res = [])"

definition gross_after :: "position_view \<Rightarrow> order_request list \<Rightarrow> decimal" where
  "gross_after v os = pv_exposure v + sum_list (map (\<lambda>o'.
     of_int (\<bar>pos_quantity (pv_get v (or_symbol o')) + order_signed o'\<bar> - \<bar>pos_quantity (pv_get v (or_symbol o'))\<bar>) * leg_mark v (or_symbol o')) os)"

lemma build_cases:
  assumes "build_sized_intent_orders derive check on_dropped si v k = (res, k')"
  obtains "sr_orders res = []" "sr_escalate res"
  | ls ds k1 where "check_legs derive check si v (sort (map fst (si_targets si))) 0 k = (Some (ls, ds), k1)"
      "sr_orders res = map lg_order ls" "\<not> sr_escalate res"
  using assms by (fastforce simp: build_sized_intent_orders_def split: prod.splits option.splits)

lemma legs_toward:
  assumes "subseq (map (or_symbol \<circ> lg_order) ls) (sort (map fst (si_targets si)))" "\<forall>l\<in>set ls. leg_fits si v (or_symbol (lg_order l)) l"
    and "sr_orders res = map lg_order ls" "\<not> sr_escalate res"
  shows "orders_toward si v res"
  using assms by (auto simp: orders_toward_def leg_fits_def comp_def)

lemma added_gross:
  "\<forall>l\<in>set ls. leg_fits si v (or_symbol (lg_order l)) l \<Longrightarrow> pv_exposure v + added ls = gross_after v (map lg_order ls)"
  unfolding gross_after_def added_def by (induction ls) (auto simp: leg_added_def leg_fits_def)

context order_gate
begin

lemma built_toward:
  assumes "build_sized_intent_orders derive check on_dropped si v k = (res, k')" "\<forall>s\<in>fst ` set (si_targets si). \<bar>leg_goal si v s\<bar> < 10 ^ 28"
  shows "orders_toward si v res"
proof (rule build_cases[OF assms(1)])
  fix ls ds k1
  assume run: "check_legs derive check si v (sort (map fst (si_targets si))) 0 k = (Some (ls, ds), k1)"
    and res: "sr_orders res = map lg_order ls" "\<not> sr_escalate res"
  have "subseq (map (or_symbol \<circ> lg_order) ls) (sort (map fst (si_targets si))) \<and> (\<forall>l\<in>set ls. leg_fits si v (or_symbol (lg_order l)) l)"
    by (rule legs_fit[OF run]) (use assms(2) in auto)
  then show ?thesis using legs_toward[OF _ _ res] by blast
qed (simp add: orders_toward_def)

lemma built_within:
  assumes "build_sized_intent_orders derive check on_dropped si v k = (res, k')" "keeps k"
    and "exactly_priced n si v (sort (map fst (si_targets si))) 0" "\<forall>s\<in>fst ` set (si_targets si). \<bar>leg_goal si v s\<bar> < 10 ^ 28"
  shows "gross_after v (sr_orders res) \<le> max (pv_exposure v) (gross v)
    \<and> (\<forall>b. power v = Some b \<longrightarrow> gross_after v (sr_orders res) \<le> max (pv_exposure v) b)"
proof (rule build_cases[OF assms(1)])
  fix ls ds k1
  assume run: "check_legs derive check si v (sort (map fst (si_targets si))) 0 k = (Some (ls, ds), k1)"
    and res: "sr_orders res = map lg_order ls" "\<not> sr_escalate res"
  have goals: "\<forall>s\<in>set (sort (map fst (si_targets si))). \<bar>leg_goal si v s\<bar> < 10 ^ 28" using assms(4) by auto
  have "\<forall>l\<in>set ls. leg_fits si v (or_symbol (lg_order l)) l" using legs_fit[OF run goals] by blast
  note added_gross[OF this]
  moreover have "pv_exposure v + 0 + added ls \<le> max (pv_exposure v) (gross v)
      \<and> (\<forall>b. power v = Some b \<longrightarrow> pv_exposure v + 0 + added ls \<le> max (pv_exposure v) b)"
    by (rule legs_within[OF run assms(2,3) goals]) simp_all
  ultimately show ?thesis by (simp add: res(1))
qed (simp add: gross_after_def)

end

text \<open>The orders that the engine, or the wrapper with strategy budgets, makes of a portfolio intent
  are market orders of the intent's strategy, at most one per target and in the order of the
  symbols, each of a positive quantity toward the target and never beyond it; an intent that asks
  for escalation gives no order.\<close>

theorem sized_orders_toward_targets:
  assumes "\<forall>s\<in>fst ` set (si_targets si). \<bar>leg_goal si v s\<bar> < 10 ^ 28"
  shows "orders_toward si v (fst (check_sized_intent derive z si v rk)) \<and> orders_toward si v (fst (budget_check_sized_intent derive w si v b))"
proof
  obtain res rk' where "check_sized_intent derive z si v rk = (res, rk')" by fastforce
  then show "orders_toward si v (fst (check_sized_intent derive z si v rk))"
    using engine.built_toward[OF _ assms, of derive z] by (simp add: check_sized_intent_def)
next
  obtain res b' where "budget_check_sized_intent derive w si v b = (res, b')" by fastforce
  then show "orders_toward si v (fst (budget_check_sized_intent derive w si v b))"
    using budgeted.built_toward[OF _ assms, of derive w] by (simp add: budget_check_sized_intent_def)
qed

text \<open>C14: The legs of one portfolio intent bind the caps together: when amounts fit the decimal
  precision, the gross exposure after filling all orders of the intent at the marks of the checks is
  at most the exposure cap, and at most the buying power of the phase when a limit is configured,
  unless it is at most the exposure before. This holds for the engine and for the wrapper.\<close>

theorem portfolio_within_caps:
  assumes "exactly_priced n si v (sort (map fst (si_targets si))) 0" "\<forall>s\<in>fst ` set (si_targets si). \<bar>leg_goal si v s\<bar> < 10 ^ 28"
    and "os = sr_orders (fst (check_sized_intent derive z si v rk)) \<and> phase = rk_phase rk \<or>
         os = sr_orders (fst (budget_check_sized_intent derive w si v b)) \<and> z = bw_inner w \<and> phase = rk_phase (bw_risk b)"
  shows "gross_after v os \<le> max (pv_exposure v) (gross_cap (re_config z) v)
    \<and> (\<forall>limit. power_cap z phase v = Some limit \<longrightarrow> gross_after v os \<le> max (pv_exposure v) limit)"
  using assms(3)
proof (elim disjE conjE)
  assume os: "os = sr_orders (fst (check_sized_intent derive z si v rk))" "phase = rk_phase rk"
  obtain res rk' where run: "check_sized_intent derive z si v rk = (res, rk')" by fastforce
  show ?thesis using engine.built_within[OF run[unfolded check_sized_intent_def] _ assms(1,2)] os by (simp add: run)
next
  assume os: "os = sr_orders (fst (budget_check_sized_intent derive w si v b))" "z = bw_inner w" "phase = rk_phase (bw_risk b)"
  obtain res b' where run: "budget_check_sized_intent derive w si v b = (res, b')" by fastforce
  show ?thesis using budgeted.built_within[OF run[unfolded budget_check_sized_intent_def] _ assms(1,2)] os by (simp add: run)
qed

subsection \<open>Examples\<close>

definition one_share_view :: position_view where
  "one_share_view = \<lparr>pv_get = flat_position, pv_all = [], pv_exposure = 0, pv_mark = (\<lambda>_. Some 1), pv_opened = (\<lambda>_. None)\<rparr>"

definition one_share_intent :: sized_intent where
  "one_share_intent = sample_sized_intent\<lparr>si_targets := [(''X'', \<lparr>tp_symbol = ''X'', tp_target_usd = 1, tp_urgency = 1, tp_expected_edge_bps = 0\<rparr>)]\<rparr>"

definition sample_budgets :: budget_settings where
  "sample_budgets = \<lparr>bw_inner = sample_limits 10, bw_registry = (\<lambda>_. None), bw_platform = re_config (sample_limits 10), bw_equity = 1\<rparr>"

lemma one_share_goal: "leg_goal one_share_intent one_share_view ''X'' = 1" "leg_mark one_share_view s = 1"
proof -
  show mark: "leg_mark one_share_view s = 1" for s by (simp add: leg_mark_def resolve_mark_def one_share_view_def)
  show "leg_goal one_share_intent one_share_view ''X'' = 1"
    using dec_round_int[of 1] half_up_of_int[of 1] decimal_of_repr_one
    by (simp add: leg_goal_def mark target_shares_def one_share_intent_def dec_div_def) (simp add: one_share_view_def flat_position_def)
qed

lemma one_share_targets: "map fst (si_targets one_share_intent) = [''X'']" "fst ` set (si_targets one_share_intent) = {''X''}"
  by (simp_all add: one_share_intent_def)

theorem sized_orders_witness:
  "orders_toward one_share_intent one_share_view (fst (check_sized_intent id (sample_limits 10) one_share_intent one_share_view (risk_engine_new (sample_limits 10) None None)))
   \<and> orders_toward one_share_intent one_share_view (fst (budget_check_sized_intent id sample_budgets one_share_intent one_share_view
        \<lparr>bw_risk = risk_engine_new (sample_limits 10) None None, bw_books = ss_new, bw_hwm = []\<rparr>))"
  by (rule sized_orders_toward_targets) (unfold one_share_targets, simp add: one_share_goal)

theorem portfolio_within_caps_witness:
  "gross_after one_share_view (sr_orders (fst (check_sized_intent id (sample_limits 10) one_share_intent one_share_view
        (risk_engine_new (sample_limits 10) None None))))
     \<le> max (pv_exposure one_share_view) (gross_cap (re_config (sample_limits 10)) one_share_view)"
proof -
  have grid: "on_grid 0 (1 :: rat)" by (rule on_gridI[of _ _ 1]) simp
  have "leg_weight one_share_intent one_share_view ''X'' = 1"
    unfolding leg_weight_def one_share_goal by (simp add: one_share_view_def flat_position_def)
  then have "exactly_priced 0 one_share_intent one_share_view (sort (map fst (si_targets one_share_intent))) 0"
    unfolding one_share_targets exactly_priced_def by (simp add: one_share_goal grid) (simp add: one_share_view_def)
  moreover have "\<forall>s\<in>fst ` set (si_targets one_share_intent). \<bar>leg_goal one_share_intent one_share_view s\<bar> < 10 ^ 28"
    unfolding one_share_targets by (simp add: one_share_goal)
  ultimately show ?thesis
    using portfolio_within_caps[of 0 one_share_intent one_share_view _ id "sample_limits 10" "risk_engine_new (sample_limits 10) None None"] by blast
qed

end
