(* ===== verification/Session.thy ===== *)
theory Session
  imports Tick_Walk Arbitration Feed_Health Sized_Intents
begin

section \<open>Ticks of a session (kernel/orchestrator.py)\<close>

text \<open>
  One quote from its arrival to the next, and one trade: the gates of the kill switch, the data
  health and the halts; the marks; the reaction of the bus subscribers; the portfolio intents;
  the choice of one standalone signal and its walk; and the recovery of a failed tick. What the
  subscribers of the bus (sensors, signal engines, exit controllers, the router) do when a quote,
  a trade, a regime state or a horizon tick is published is an input: the list of what they hand
  back to the kernel, in order. The risk engine's answers, which may depend on the buying-power
  phase, are inputs too. Traces, latency budgets and the warnings logged once are left out.
\<close>

subsection \<open>Environment and state\<close>

datatype 'r delivery =
    Signal_Event signal
  | Intent_Event sized_intent
  | DeRisk_Event de_risk_requirement
  | Router_Event "'r \<Rightarrow> 'r"
  | Handler_Error exn

record 'r tick_env =
  en_config :: kernel_config
  en_router :: "'r router"
  en_trading :: "buying_power_phase \<Rightarrow> trading_config"
  en_decision :: decision_config
  en_dead_zone :: float64
  en_derisk_check :: "order_request \<Rightarrow> position_store \<Rightarrow> risk_action \<times> string"
  en_check_sized :: "buying_power_phase \<Rightarrow> sized_intent \<Rightarrow> position_view \<Rightarrow> sized_result"
  en_consumed :: "strategy \<Rightarrow> bool"
  en_on_event :: "market_event \<Rightarrow> 'r kernel \<Rightarrow> 'r delivery list"
  en_regime :: "(nbbo_quote \<Rightarrow> 'r kernel \<Rightarrow> 'r delivery list) option"
  en_sensors :: bool
  en_horizon :: "(market_event \<Rightarrow> ('r kernel \<Rightarrow> 'r delivery list) list) option"
  en_signal_engine :: bool
  en_composition :: bool
  en_calendar :: calendar
  en_session :: "session_bounds option"
  en_flatten_enabled :: bool
  en_flatten_seconds :: int
  en_symbols :: "symbol list option"
  en_strict_coverage :: bool
  en_degrade_on_gap :: bool
  en_prelogged :: bool
  en_ssr_codes :: "int list"
  en_net_shadow :: bool
  en_staleness :: float64

record collision =
  cl_count :: nat
  cl_strategies :: "strategy list"
  cl_harmless :: bool

record 'r session =
  se_kernel :: "'r kernel"
  se_signals :: "signal list"
  se_carryover :: "int list"
  se_pending :: "sized_intent list"
  se_in_tick :: bool
  se_targets :: target_book
  se_transient :: "(strategy \<times> symbol) list"
  se_normalizer :: "normalizer option"
  se_halts :: halt_store
  se_ssr :: "symbol list"
  se_regime_seen :: "symbol list"
  se_phase :: buying_power_phase
  se_bp_flipped :: bool
  se_bp_date :: "int option"
  se_collisions :: "collision list"
  se_event_log :: "market_event list"
  se_notices :: "symbol_halted list"
  se_abort :: bool

type_synonym ('r, 'a) sact = "('r session, 'a) act"

definition on_kernel :: "('r, 'a) kact \<Rightarrow> ('r, 'a) sact" where
  "on_kernel f s = (case f (se_kernel s) of (r, k) \<Rightarrow> (r, s\<lparr>se_kernel := k\<rparr>))"

definition with_session :: "('r session \<Rightarrow> ('r, 'a) sact) \<Rightarrow> ('r, 'a) sact" where
  "with_session f s = f s s"

definition session_halts :: "'r session \<Rightarrow> halt_store" where
  \<comment> \<open>one store, shared with the normalizer where there is one\<close>
  "session_halts s = (case se_normalizer s of Some n \<Rightarrow> nz_halts n | None \<Rightarrow> se_halts s)"

definition set_session_halts :: "halt_store \<Rightarrow> 'r session \<Rightarrow> 'r session" where
  "set_session_halts h s = (case se_normalizer s of
     Some n \<Rightarrow> s\<lparr>se_normalizer := Some (n\<lparr>nz_halts := h\<rparr>)\<rparr> | None \<Rightarrow> s\<lparr>se_halts := h\<rparr>)"

definition session_trading :: "'r tick_env \<Rightarrow> 'r session \<Rightarrow> trading_config" where
  "session_trading env s = (en_trading env (se_phase s))
     \<lparr>tr_ssr_active := se_ssr s, tr_halt_blackout := hs_in_blackout (session_halts s),
      tr_session_flatten := in_session_flatten_window (en_calendar env) (en_session env) (en_flatten_enabled env) (en_flatten_seconds env)\<rparr>"

subsection \<open>Portfolio intents\<close>

definition submit_portfolio_order :: "'r router \<Rightarrow> order_request \<Rightarrow> ('r, unit) kact" where
  "submit_portfolio_order rt o' =
     andThen (track_order (or_order_id o') (or_side o') o' '''')
       (\<lambda>_. andThen (transition_order (or_order_id o') SUBMITTED ''submitted'' '''')
       (\<lambda>_. andThen (submit_to_router rt o') (\<lambda>_. publish_event (OutOrder o'))))"

definition admit_portfolio_orders ::
  "trading_config \<Rightarrow> sized_intent \<Rightarrow> nbbo_quote option \<Rightarrow> string \<Rightarrow> order_request list \<Rightarrow> ('r, order_request list) kact" where
  "admit_portfolio_orders tr si q cid os =
     andThen (filter_portfolio_orders_for_admission tr si q cid os) (filter_portfolio_orders_for_pending_conflicts cid)"

definition submit_portfolio_leg_without_micro_walk ::
  "'r tick_env \<Rightarrow> trading_config \<Rightarrow> sized_result \<Rightarrow> sized_intent \<Rightarrow> string \<Rightarrow> nbbo_quote option \<Rightarrow> ('r, unit) kact" where
  "submit_portfolio_leg_without_micro_walk env tr sized si cid q =
     (let cfg = en_config env; rt = en_router env in
      if sr_escalate sized then escalate_risk cfg rt cid
      else if sr_orders sized = [] then ok ()
      else andThen (admit_portfolio_orders tr si q cid (sr_orders sized))
        (\<lambda>os. if os = [] then ok ()
           else andThen (each (submit_portfolio_order rt) os)
             (\<lambda>_. andThen (settle_router_acks cfg rt cid (Some (map or_order_id os))) (\<lambda>_. ok ()))))"

definition walk_portfolio_intent ::
  "'r tick_env \<Rightarrow> trading_config \<Rightarrow> sized_result \<Rightarrow> sized_intent \<Rightarrow> string \<Rightarrow> nbbo_quote \<Rightarrow> ('r, unit) kact" where
  \<comment> \<open>one intent from RISK_CHECK to LOG_AND_METRICS\<close>
  "walk_portfolio_intent env tr sized si cid q =
     (let cfg = en_config env; rt = en_router env in
      if sr_escalate sized
      then andThen (escalate_risk cfg rt cid) (\<lambda>_. micro_transition LOG_AND_METRICS ''portfolio_intent_risk_escalation'' cid)
      else if sr_orders sized = [] then micro_transition LOG_AND_METRICS ''portfolio_intent_no_orders'' cid
      else andThen (admit_portfolio_orders tr si (Some q) cid (sr_orders sized))
        (\<lambda>os. if os = [] then micro_transition LOG_AND_METRICS ''portfolio_intent_all_legs_skipped_pending'' cid
           else andThen (micro_transition ORDER_DECISION ''portfolio_orders_ready'' cid)
             (\<lambda>_. andThen (micro_transition ORDER_SUBMIT ''portfolio_batch_submitted'' cid)
             (\<lambda>_. andThen (each (submit_portfolio_order rt) os)
             (\<lambda>_. andThen (micro_transition ORDER_ACK ''portfolio_poll_acks'' cid)
             (\<lambda>_. andThen (settle_and_update cfg rt cid (map or_order_id os) ''portfolio_reconcile'')
             (\<lambda>_. micro_transition LOG_AND_METRICS ''portfolio_leg_complete'' cid)))))))"

definition check_intent_now :: "'r tick_env \<Rightarrow> sized_intent \<Rightarrow> 'r session \<Rightarrow> sized_result" where
  "check_intent_now env si s = en_check_sized env (se_phase s) si (store_view (k_positions (se_kernel s)))"

definition flush_without_walk :: "'r tick_env \<Rightarrow> string \<Rightarrow> nbbo_quote option \<Rightarrow> sized_intent \<Rightarrow> ('r, unit) sact" where
  "flush_without_walk env cid q si =
     with_session (\<lambda>s. on_kernel (submit_portfolio_leg_without_micro_walk env (session_trading env s) (check_intent_now env si s) si cid q))"

definition pop_pending :: "('r, unit) sact" where
  "pop_pending = modify (\<lambda>s. s\<lparr>se_pending := drop 1 (se_pending s)\<rparr>)"

fun flush_walking :: "'r tick_env \<Rightarrow> string \<Rightarrow> nbbo_quote \<Rightarrow> string \<Rightarrow> sized_intent list \<Rightarrow> ('r, unit) sact" where
  \<comment> \<open>the next intent enters RISK_CHECK with the given trigger\<close>
  "flush_walking env cid q trigger [] = ok ()"
| "flush_walking env cid q trigger (si # sis) =
     andThen pop_pending
       (\<lambda>_. andThen (on_kernel (micro_transition RISK_CHECK trigger cid))
       (\<lambda>_. andThen (with_session (\<lambda>s. on_kernel (walk_portfolio_intent env (session_trading env s) (check_intent_now env si s) si cid q)))
       (\<lambda>_. flush_walking env cid q ''portfolio_sized_intent_next'' sis)))"

definition flush_pending_sized_intents :: "'r tick_env \<Rightarrow> string \<Rightarrow> nbbo_quote \<Rightarrow> ('r, unit) sact" where
  "flush_pending_sized_intents env cid q = with_session (\<lambda>s.
     if se_pending s = [] then ok ()
     else if sm_state (k_micro (se_kernel s)) = CROSS_SECTIONAL then flush_walking env cid q ''portfolio_sized_intent'' (se_pending s)
     else if can_transition (k_micro (se_kernel s)) RISK_CHECK then flush_walking env cid q ''portfolio_sized_intent_resume'' (se_pending s)
     else each (\<lambda>si. andThen pop_pending (\<lambda>_. flush_without_walk env cid (Some q) si)) (se_pending s))"

subsection \<open>What the bus hands to the kernel\<close>

definition on_bus_signal :: "'r tick_env \<Rightarrow> signal \<Rightarrow> ('r, unit) sact" where
  "on_bus_signal env sig = modify (\<lambda>s.
     let k = se_kernel s; key = (sg_strategy sig, sg_symbol sig) in
     if sg_layer sig \<noteq> ''SIGNAL'' \<or> sg_strategy sig = ''__stop_exit__'' \<or> en_consumed env (sg_strategy sig) then s
     else if is_redundant_gate_close_flat sig (pos_quantity (ps_get (k_positions k) (sg_symbol sig))) (key \<in> set (k_traded k)) then s
     else s\<lparr>se_signals := se_signals s @ [sig],
        se_kernel := (if sg_mechanism sig \<noteq> None \<or> sg_half_life_seconds sig \<noteq> 0
          then k\<lparr>k_mechanism := dict_set key (sg_mechanism sig, sg_half_life_seconds sig) (k_mechanism k)\<rparr> else k),
        se_carryover := (if se_in_tick s then se_carryover s else List.insert (ev_sequence sig) (se_carryover s))\<rparr>)"

definition on_bus_sized_intent :: "'r tick_env \<Rightarrow> sized_intent \<Rightarrow> ('r, unit) sact" where
  "on_bus_sized_intent env si = with_session (\<lambda>s.
     if se_in_tick s then modify (\<lambda>s. s\<lparr>se_pending := se_pending s @ [si]\<rparr>)
     else flush_without_walk env (ev_correlation si) None si)"

fun bus_deliver :: "'r tick_env \<Rightarrow> 'r delivery \<Rightarrow> ('r, unit) sact" where
  "bus_deliver env (Signal_Event sig) = on_bus_signal env sig"
| "bus_deliver env (Intent_Event si) = on_bus_sized_intent env si"
| "bus_deliver env (DeRisk_Event d) = on_kernel (on_bus_derisk_requirement (en_config env) (en_router env) (en_derisk_check env) d)"
| "bus_deliver env (Router_Event g) = on_kernel (modify (\<lambda>k. k\<lparr>k_router := g (k_router k)\<rparr>))"
| "bus_deliver env (Handler_Error e) = raise e"

definition fan_out :: "'r tick_env \<Rightarrow> ('r kernel \<Rightarrow> 'r delivery list) \<Rightarrow> ('r, unit) sact" where
  "fan_out env subscribers = with_session (\<lambda>s. each (bus_deliver env) (subscribers (se_kernel s)))"

subsection \<open>The gates in front of a tick\<close>

definition expire_signals :: "ns \<Rightarrow> 'r session \<Rightarrow> 'r session" where
  \<comment> \<open>only signals carried over between quotes survive, and only within their horizon\<close>
  "expire_signals now s =
     (let live = (\<lambda>sig. ev_sequence sig \<in> set (se_carryover s) \<and> 0 < sg_horizon_seconds sig
            \<and> now - ev_timestamp sig \<le> sg_horizon_seconds sig * 1000000000);
          stale = filter (\<lambda>sig. \<not> live sig) (se_signals s)
      in s\<lparr>se_signals := filter live (se_signals s),
           se_carryover := filter (\<lambda>n. n \<notin> ev_sequence ` set stale) (se_carryover s)\<rparr>)"

definition degrade_if_possible :: "string \<Rightarrow> string \<Rightarrow> ('r, unit) kact" where
  "degrade_if_possible trigger cid k =
     (if can_transition (k_macro k) DEGRADED then macro_transition DEGRADED trigger cid k else (Inr (), k))"

definition stop_for_kill_switch :: "string \<Rightarrow> ('r, unit) kact" where
  "stop_for_kill_switch cid =
     andThen (\<lambda>k. if sm_state (k_macro k) \<in> trading_modes then degrade_if_possible ''KILL_SWITCH_ACTIVE'' cid k else (Inr (), k))
       (\<lambda>_. andThen draw_seq (\<lambda>_. ok ()))"

fun data_health_name :: "data_health \<Rightarrow> string" where
  "data_health_name HEALTHY = ''HEALTHY''"
| "data_health_name GAP_DETECTED = ''GAP_DETECTED''"
| "data_health_name HALTED = ''HALTED''"
| "data_health_name CORRUPTED = ''CORRUPTED''"

definition untracked :: "'r tick_env \<Rightarrow> normalizer \<Rightarrow> symbol \<Rightarrow> bool" where
  "untracked env n sy = (case en_symbols env of
     None \<Rightarrow> False
   | Some syms \<Rightarrow> en_strict_coverage env \<and> py_upper sy \<in> py_upper ` set syms
       \<and> py_upper sy \<notin> (py_upper \<circ> fst) ` set (all_health n))"

definition flatten_and_degrade :: "'r tick_env \<Rightarrow> symbol \<Rightarrow> string \<Rightarrow> string \<Rightarrow> string \<Rightarrow> ('r, string option) kact" where
  "flatten_and_degrade env sy reason name cid =
     andThen (force_flatten_symbol_on_degrade (en_config env) (en_router env) sy cid reason)
       (\<lambda>_. andThen (degrade_if_possible (reason @ '':'' @ sy) cid) (\<lambda>_. ok (Some name)))"

definition data_health_blocks_trading :: "'r tick_env \<Rightarrow> symbol \<Rightarrow> string \<Rightarrow> ('r, string option) sact" where
  "data_health_blocks_trading env sy cid = with_session (\<lambda>s.
     case se_normalizer s of
       None \<Rightarrow> ok None
     | Some n \<Rightarrow>
         if halt_health_xor_store n sy then raise (KernelFault ''SESSION_HALT'')
         else if untracked env n sy
         then on_kernel (andThen (degrade_if_possible (''DATA_SYMBOL_UNTRACKED:'' @ sy) cid) (\<lambda>_. ok (Some ''SYMBOL_UNTRACKED'')))
         else let h = health n sy in
           if h = CORRUPTED then on_kernel (flatten_and_degrade env sy ''DATA_CORRUPTED'' (data_health_name h) cid)
           else if h = HALTED then ok (Some (data_health_name h))
           else if en_symbols env \<noteq> None \<and> en_degrade_on_gap env \<and> h = GAP_DETECTED
           then on_kernel (flatten_and_degrade env sy ''DATA_GAP_DETECTED'' (data_health_name h) cid)
           else ok None)"

subsection \<open>Marks and stages\<close>

definition log_event :: "'r tick_env \<Rightarrow> market_event \<Rightarrow> ('r, unit) sact" where
  "log_event env e = modify (\<lambda>s. if en_prelogged env then s else s\<lparr>se_event_log := se_event_log s @ [e]\<rparr>)"

definition mark_quote :: "nbbo_quote \<Rightarrow> ('r, unit) kact" where
  "mark_quote q = modify (\<lambda>k.
     let mid = quote_mid q in
     if 0 < mid then k\<lparr>k_positions := ps_update_mark (k_positions k) (nq_symbol q) mid (Some (nq_bid q)) (Some (nq_ask q)),
        k_slices := map_option (\<lambda>S. ss_update_mark S (nq_symbol q) mid (Some (nq_bid q)) (Some (nq_ask q))) (k_slices k)\<rparr>
     else k)"

definition flip_buying_power :: "'r tick_env \<Rightarrow> nbbo_quote \<Rightarrow> 'r session \<Rightarrow> 'r session" where
  "flip_buying_power env q s =
     (case en_session env of
        None \<Rightarrow> s
      | Some b \<Rightarrow>
          let e = resolve_for_timestamp (en_calendar env) b (nq_exchange_timestamp q);
              s1 = (if Some (sb_date e) \<noteq> se_bp_date s
                    then (let s0 = s\<lparr>se_bp_date := Some (sb_date e)\<rparr>
                          in if se_bp_flipped s then s0\<lparr>se_bp_flipped := False, se_phase := INTRADAY\<rparr> else s0)
                    else s)
          in if se_bp_flipped s1 \<or> nq_exchange_timestamp q < sb_close e then s1
             else s1\<lparr>se_phase := OVERNIGHT, se_bp_flipped := True\<rparr>)"

definition update_regime :: "'r tick_env \<Rightarrow> nbbo_quote \<Rightarrow> ('r, unit) sact" where
  "update_regime env q =
     (case en_regime env of
        None \<Rightarrow> ok ()
      | Some subscribers \<Rightarrow>
          andThen (on_kernel draw_seq)
            (\<lambda>_. andThen (fan_out env (subscribers q))
               (\<lambda>_. modify (\<lambda>s. s\<lparr>se_regime_seen := List.insert (nq_symbol q) (se_regime_seen s)\<rparr>))))"

definition dispatch_sensor_layer :: "'r tick_env \<Rightarrow> nbbo_quote \<Rightarrow> string \<Rightarrow> ('r, unit) sact" where
  "dispatch_sensor_layer env q cid =
     (if \<not> en_sensors env \<and> en_horizon env = None then ok ()
      else andThen (on_kernel (micro_transition SENSOR_UPDATE ''state_updated'' cid))
        (\<lambda>_. andThen (on_kernel (micro_transition HORIZON_CHECK ''sensors_dispatched'' cid))
        (\<lambda>_. let ticks = (case en_horizon env of None \<Rightarrow> [] | Some f \<Rightarrow> f (Quote_Event q)) in
           andThen (each (fan_out env) ticks)
             (\<lambda>_. if ticks = [] then ok ()
                else andThen (on_kernel (micro_transition HORIZON_AGGREGATE ''horizon_tick_emitted'' cid))
                  (\<lambda>_. if en_signal_engine env then on_kernel (micro_transition SIGNAL_GATE ''horizon_signal_dispatched'' cid) else ok ())))))"

definition cross_sectional_bookend :: "'r tick_env \<Rightarrow> string \<Rightarrow> ('r, unit) kact" where
  "cross_sectional_bookend env cid k =
     (if en_composition env \<and> can_transition (k_micro k) CROSS_SECTIONAL
      then micro_transition CROSS_SECTIONAL ''composition_pipeline_bookend'' cid k else (Inr (), k))"

subsection \<open>The choice of a signal\<close>

definition signal_actionable :: "signal \<Rightarrow> ('r, bool) kact" where
  "signal_actionable sig k =
     (case k_slices k of
        None \<Rightarrow> (Inr True, k)
      | Some S \<Rightarrow> (case ss_get S (sg_strategy sig) (sg_symbol sig) of (p, S') \<Rightarrow>
          (Inr (standalone_signal_actionable_for_strategy sig (pos_quantity p)
              (pos_quantity (ps_get (k_positions k) (sg_symbol sig))) ((sg_strategy sig, sg_symbol sig) \<in> set (k_traded k))),
           k\<lparr>k_slices := Some S'\<rparr>)))"

fun filter_signals :: "signal list \<Rightarrow> ('r, signal list) kact" where
  "filter_signals [] = ok []"
| "filter_signals (sig # sigs) =
     andThen (signal_actionable sig) (\<lambda>keep. andThen (filter_signals sigs) (\<lambda>rest. ok (if keep then sig # rest else rest)))"

definition note_collision :: "signal list \<Rightarrow> ('r, unit) sact" where
  "note_collision buf = modify (\<lambda>s. case buf of
       sig # _ # _ \<Rightarrow> s\<lparr>se_collisions := se_collisions s @ [\<lparr>cl_count = length buf,
          cl_strategies = sort (remdups (map sg_strategy buf)),
          cl_harmless = collision_is_harmless_flat_gate_close buf (pos_quantity (ps_get (k_positions (se_kernel s)) (sg_symbol sig)))\<rparr>]\<rparr>
     | _ \<Rightarrow> s)"

definition choose_signal :: "'r tick_env \<Rightarrow> signal list \<Rightarrow> ('r, signal option) sact" where
  "choose_signal env buf =
     (if buf = [] then ok None
      else andThen (on_kernel (filter_signals buf))
        (\<lambda>own. andThen (note_collision own) (\<lambda>_. ok (winner (select_top1 (en_dead_zone env) own)))))"

definition standing_of :: "'r tick_env \<Rightarrow> signal \<Rightarrow> nbbo_quote \<Rightarrow> standing_target result" where
  "standing_of env sig q =
     (let dc = en_decision env in
      bind_result (compute_target_quantity (dc_registry dc) (dc_sizer dc) (dc_equity dc) sig q) (\<lambda>target.
      bind_result (desired_from_signal sig target (dc_default_target dc)) (\<lambda>d.
        Inr (standing_target_from_desired d (sg_strategy sig) (ev_timestamp sig) (sg_horizon_seconds sig) (en_staleness env) None))))"

definition put_standing :: "'r tick_env \<Rightarrow> nbbo_quote \<Rightarrow> signal \<Rightarrow> ('r, unit) sact" where
  "put_standing env q sig s =
     (if take 2 (sg_strategy sig) = ''__'' then (Inr (), s)
      else case standing_of env sig q of
          Inl e \<Rightarrow> (Inl e, s)
        | Inr t \<Rightarrow> (Inr (), s\<lparr>se_targets := tbk_put t (se_targets s),
            se_transient := (if sg_horizon_seconds sig \<le> 0 then List.insert (sg_strategy sig, sg_symbol sig) (se_transient s) else se_transient s)\<rparr>))"

definition record_net_targets :: "'r tick_env \<Rightarrow> signal list \<Rightarrow> nbbo_quote \<Rightarrow> ('r, unit) sact" where
  \<comment> \<open>the standing targets kept by \<open>_record_net_shadow\<close>; the divergence it reports is a measurement\<close>
  "record_net_targets env buf q =
     (if \<not> en_net_shadow env \<and> \<not> dc_netting (en_decision env) then ok ()
      else andThen (modify (\<lambda>s. s\<lparr>se_targets := fold (\<lambda>(sid, sy). tbk_clear sid sy) (se_transient s) (se_targets s), se_transient := []\<rparr>))
             (\<lambda>_. each (put_standing env q) buf))"

definition drop_signals :: "signal list \<Rightarrow> ('r, unit) sact" where
  "drop_signals buf = modify (\<lambda>s. if buf = [] then s
     else s\<lparr>se_signals := [], se_carryover := filter (\<lambda>n. n \<notin> ev_sequence ` set buf) (se_carryover s)\<rparr>)"

definition decide_tick :: "'r tick_env \<Rightarrow> string \<Rightarrow> nbbo_quote \<Rightarrow> ('r, unit) sact" where
  "decide_tick env cid q = with_session (\<lambda>s0.
     let buf = se_signals s0; timings = (if buf = [] then [] else [''signal_evaluate_ns'']) in
     andThen (choose_signal env buf)
       (\<lambda>selected. andThen (record_net_targets env buf q)
       (\<lambda>_. andThen (drop_signals buf)
       (\<lambda>_. with_session (\<lambda>s. on_kernel (evaluate_selected (en_config env) (en_router env) (session_trading env s) (en_decision env)
              (se_targets s) timings selected cid q))))))"

subsection \<open>A quote and a trade\<close>

definition pass_stages :: "'r tick_env \<Rightarrow> string \<Rightarrow> nbbo_quote \<Rightarrow> ('r, unit) sact" where
  \<comment> \<open>from the arrival of an admitted quote to the evaluation of signals\<close>
  "pass_stages env cid q =
     andThen (on_kernel (micro_transition MARKET_EVENT_RECEIVED ''tick_arrived'' cid))
       (\<lambda>_. andThen (log_event env (Quote_Event q))
       (\<lambda>_. andThen (on_kernel (mark_quote q))
       (\<lambda>_. andThen (fan_out env (en_on_event env (Quote_Event q)))
       (\<lambda>_. andThen (modify (flip_buying_power env q))
       (\<lambda>_. andThen (on_kernel (drain_async_fills (en_config env) (en_router env) cid))
       (\<lambda>_. andThen (on_kernel (micro_transition STATE_UPDATE ''event_logged'' cid))
       (\<lambda>_. andThen (update_regime env q)
       (\<lambda>_. andThen (dispatch_sensor_layer env q cid)
       (\<lambda>_. andThen (on_kernel (cross_sectional_bookend env cid))
       (\<lambda>_. andThen (flush_pending_sized_intents env cid q)
       (\<lambda>_. andThen (on_kernel (micro_transition FEATURE_COMPUTE ''state_updated'' cid))
       (\<lambda>_. on_kernel (micro_transition SIGNAL_EVALUATE ''features_computed'' cid)))))))))))))"

definition process_tick_inner :: "'r tick_env \<Rightarrow> nbbo_quote \<Rightarrow> ('r, unit) sact" where
  "process_tick_inner env q =
     (let cid = ev_correlation q in
      andThen (modify (expire_signals (ev_timestamp q))) (\<lambda>_. with_session (\<lambda>s.
        if k_kill (se_kernel s) = Some True then on_kernel (stop_for_kill_switch cid)
        else andThen (data_health_blocks_trading env (nq_symbol q) cid)
          (\<lambda>blocked. if blocked \<noteq> None then on_kernel (alert alert_severity.WARNING ''market_event_rejected'' cid)
             else with_session (\<lambda>s. if nq_symbol q \<in> set (hs_halted (session_halts s)) then ok ()
                else andThen (pass_stages env cid q) (\<lambda>_. decide_tick env cid q))))))"

definition handle_tick_failure :: "string \<Rightarrow> exn \<Rightarrow> ('r, unit) sact" where
  \<comment> \<open>both recoveries are attempted, whatever the first one does\<close>
  "handle_tick_failure cid e =
     andThen (catch (andThen (on_kernel (micro_reset (''pipeline_abort:'' @ exn_name e) cid))
                (\<lambda>_. andThen (modify (\<lambda>s. s\<lparr>se_pending := []\<rparr>)) (\<lambda>_. on_kernel (andThen draw_seq (\<lambda>_. ok ())))))
              (\<lambda>_. ok ()))
       (\<lambda>_. catch (on_kernel (\<lambda>k. if sm_state (k_macro k) \<in> trading_modes \<and> can_transition (k_macro k) DEGRADED
                then macro_transition DEGRADED (''EXECUTION_DRIFT_DETECTED:'' @ exn_name e) cid k else (Inr (), k)))
              (\<lambda>_. modify (\<lambda>s. s\<lparr>se_abort := True\<rparr>)))"

definition process_tick :: "'r tick_env \<Rightarrow> nbbo_quote \<Rightarrow> ('r, unit) sact" where
  "process_tick env q =
     andThen (modify (\<lambda>s. s\<lparr>se_in_tick := True\<rparr>))
       (\<lambda>_. andThen (catch (process_tick_inner env q) (handle_tick_failure (ev_correlation q)))
          (\<lambda>_. modify (\<lambda>s. s\<lparr>se_in_tick := False\<rparr>)))"

subsection \<open>Trades\<close>

definition sync_halts :: "symbol \<Rightarrow> int list \<Rightarrow> ns option \<Rightarrow> 'r session \<Rightarrow> halt_signal option \<times> 'r session" where
  \<comment> \<open>without a normalizer only the store is there to be updated\<close>
  "sync_halts sy conditions ts s =
     (case se_normalizer s of
        Some n \<Rightarrow> (case sync_halt_store_and_health sy conditions ts n of (r, n') \<Rightarrow> (r, s\<lparr>se_normalizer := Some n'\<rparr>))
      | None \<Rightarrow> (let h = se_halts s; r = classify_halt_status conditions (hs_on_codes h) (hs_off_codes h) in
          (r, case r of None \<Rightarrow> s
              | Some HALT_ON \<Rightarrow> s\<lparr>se_halts := halt_on sy h\<rparr>
              | Some HALT_OFF \<Rightarrow> s\<lparr>se_halts := halt_off sy False ts h\<rparr>)))"

definition emit_symbol_halted :: "symbol \<Rightarrow> bool \<Rightarrow> string \<Rightarrow> ns \<Rightarrow> string \<Rightarrow> ns \<Rightarrow> ('r, unit) sact" where
  "emit_symbol_halted sy halted reason ts cid until =
     andThen (on_kernel draw_seq)
       (\<lambda>n. modify (\<lambda>s. s\<lparr>se_notices := se_notices s @ [\<lparr>ev_timestamp = ts, ev_correlation = cid, ev_sequence = n,
          ev_source_layer = ''kernel'', ev_schema_version = schema_version, sh_symbol = sy, sh_halted = halted,
          sh_reason = reason, sh_blackout_until = until\<rparr>]\<rparr>))"

definition set_forensic :: "(symbol list \<Rightarrow> symbol list) \<Rightarrow> ('r, unit) sact" where
  "set_forensic f = modify (\<lambda>s. let h = session_halts s in set_session_halts (h\<lparr>hs_forensic_open := f (hs_forensic_open h)\<rparr>) s)"

definition update_halt_state :: "'r tick_env \<Rightarrow> trade \<Rightarrow> ('r, unit) sact" where
  \<comment> \<open>cancellation and notice once per episode, whoever saw the print first\<close>
  "update_halt_state env t s =
     (let h = session_halts s; sy = td_symbol t; ts = ev_timestamp t; cid = ev_correlation t in
      if hs_on_codes h = [] \<and> hs_off_codes h = [] then (Inr (), s)
      else case sync_halts sy (td_conditions t) (Some ts) s of
          (None, s1) \<Rightarrow> (Inr (), s1)
        | (Some HALT_ON, s1) \<Rightarrow>
            (if sy \<in> set (hs_forensic_open (session_halts s1)) then ok ()
             else andThen (on_kernel (cancel_resting_for_symbol (en_config env) (en_router env) sy cid))
               (\<lambda>_. andThen (emit_symbol_halted sy True ''LULD_HALT'' ts cid 0) (\<lambda>_. set_forensic (List.insert sy)))) s1
        | (Some HALT_OFF, s1) \<Rightarrow>
            (if sy \<notin> set (hs_forensic_open (session_halts s1)) then ok ()
             else andThen (emit_symbol_halted sy False ''LULD_RESUME'' ts cid
                  (case map_of (hs_blackout (session_halts s1)) sy of Some d \<Rightarrow> d | None \<Rightarrow> 0))
               (\<lambda>_. set_forensic (removeAll sy))) s1)"

definition update_ssr_state :: "'r tick_env \<Rightarrow> trade \<Rightarrow> ('r, unit) sact" where
  "update_ssr_state env t s =
     (if set (td_conditions t) \<inter> set (en_ssr_codes env) = {} \<or> py_upper (td_symbol t) \<in> set (se_ssr s) then (Inr (), s)
      else on_kernel (alert alert_severity.INFO ''ssr_triggered'' (ev_correlation t)) (s\<lparr>se_ssr := se_ssr s @ [py_upper (td_symbol t)]\<rparr>))"

definition trade_path_may_emit :: "'r tick_env \<Rightarrow> symbol \<Rightarrow> 'r session \<Rightarrow> bool" where
  "trade_path_may_emit env sy s \<longleftrightarrow> en_regime env = None \<or> sy \<in> set (se_regime_seen s)"

definition process_trade :: "'r tick_env \<Rightarrow> trade \<Rightarrow> ('r, unit) sact" where
  \<comment> \<open>the router's own hook for trades is among what the bus hands back\<close>
  "process_trade env t =
     andThen (update_halt_state env t) (\<lambda>_. andThen (update_ssr_state env t)
       (\<lambda>_. andThen (data_health_blocks_trading env (td_symbol t) (ev_correlation t))
       (\<lambda>blocked. if blocked \<noteq> None
          then with_session (\<lambda>s. case se_normalizer s of
              None \<Rightarrow> ok ()
            | Some n \<Rightarrow> if health n (td_symbol t) = HALTED
                then andThen (log_event env (Trade_Event t)) (\<lambda>_. fan_out env (en_on_event env (Trade_Event t)))
                else on_kernel (alert alert_severity.WARNING ''market_event_rejected'' (ev_correlation t)))
          else andThen (log_event env (Trade_Event t))
            (\<lambda>_. andThen (fan_out env (en_on_event env (Trade_Event t)))
            (\<lambda>_. with_session (\<lambda>s. if trade_path_may_emit env (td_symbol t) s
                then each (fan_out env) (case en_horizon env of None \<Rightarrow> [] | Some f \<Rightarrow> f (Trade_Event t)) else ok ()))))))"

subsection \<open>Runs\<close>

datatype feed_event = Feed_Quote nbbo_quote | Feed_Trade trade | Feed_Idle string

definition drain_idle :: "'r tick_env \<Rightarrow> string \<Rightarrow> ('r, unit) sact" where
  "drain_idle env cid = on_kernel (drain_async_fills (en_config env) (en_router env) cid)"

fun dispatch :: "'r tick_env \<Rightarrow> feed_event \<Rightarrow> ('r, unit) sact" where
  "dispatch env (Feed_Quote q) = process_tick env q"
| "dispatch env (Feed_Trade t) = process_trade env t"
| "dispatch env (Feed_Idle cid) = drain_idle env cid"

fun run_pipeline :: "('r tick_env \<times> feed_event) list \<Rightarrow> ('r, unit) sact" where
  \<comment> \<open>every event comes with what the rest of the platform answers while it is processed\<close>
  "run_pipeline [] s = (if se_abort s then Inl (OtherException ''OrchestratorPipelineAbortError'') else Inr (), s)"
| "run_pipeline ((env, e) # es) s =
     (if se_abort s \<or> sm_state (k_macro (se_kernel s)) \<notin> trading_modes then run_pipeline [] s
      else andThen (dispatch env e) (\<lambda>_. run_pipeline es) s)"

definition require_safe_session_entry :: "('r, unit) kact" where
  "require_safe_session_entry k =
     (if k_kill k = Some True then Inl (OtherException ''SessionEntryBlockedError'')
      else if sm_state (k_risk k) \<noteq> NORMAL then Inl (OtherException ''SessionEntryBlockedError'') else Inr (), k)"

definition clear_for_run :: "'r session \<Rightarrow> 'r session" where
  "clear_for_run s = s\<lparr>se_bp_flipped := False, se_bp_date := None, se_phase := INTRADAY, se_pending := [], se_regime_seen := []\<rparr>"

definition run_session :: "macro_state \<Rightarrow> string \<Rightarrow> string \<Rightarrow> string \<Rightarrow> string \<Rightarrow> ('r tick_env \<times> feed_event) list \<Rightarrow> ('r, unit) sact" where
  \<comment> \<open>\<open>run_backtest\<close> and \<open>run_paper\<close>: the mode, the triggers of the entry, the command, a failure and the end\<close>
  "run_session mode entry command failure finished es =
     andThen (on_kernel (\<lambda>k. if sm_state (k_macro k) = READY then (Inr (), k) else (Inl (RuntimeError ''assert_state''), k)))
       (\<lambda>_. andThen (on_kernel require_safe_session_entry)
       (\<lambda>_. andThen (modify (\<lambda>s. s\<lparr>se_abort := False\<rparr>))
       (\<lambda>_. andThen (on_kernel (micro_reset entry ''''))
       (\<lambda>_. andThen (modify clear_for_run)
       (\<lambda>_. andThen (on_kernel (macro_transition mode command ''''))
       (\<lambda>_. andThen (catch (run_pipeline es)
               (\<lambda>e. andThen (on_kernel (\<lambda>k. if sm_state (k_macro k) = mode
                        then macro_transition DEGRADED (failure @ '':'' @ exn_name e) '''' k else (Inr (), k)))
                      (\<lambda>_. raise e)))
       (\<lambda>_. on_kernel (\<lambda>k. if sm_state (k_macro k) = mode then macro_transition READY finished '''' k else (Inr (), k)))))))))"

definition run_backtest :: "('r tick_env \<times> feed_event) list \<Rightarrow> ('r, unit) sact" where
  "run_backtest = run_session BACKTEST_MODE ''session_start:backtest'' ''CMD_BACKTEST'' ''BACKTEST_INTEGRITY_FAIL'' ''BACKTEST_COMPLETE''"

definition run_paper :: "('r tick_env \<times> feed_event) list \<Rightarrow> ('r, unit) sact" where
  "run_paper = run_session PAPER_TRADING_MODE ''session_start:paper'' ''CMD_PAPER_DEPLOY'' ''PAPER_PIPELINE_FAIL'' ''SESSION_FEED_COMPLETE''"

end
