(* ===== verification/Session_Walk.thy ===== *)
theory Session_Walk
  imports Session
begin

section \<open>Every tick ends at the gate of the next\<close>

text \<open>
  The triples of a decision are lifted to sessions. What the subscribers hand back, whatever it
  is, leaves the micro machine where it is; the stages of a quote lead from one waiting state to
  the next; the recovery of a failed tick leads there from any reachable state; and a run of
  either mode, however it ends, leaves no trading mode behind.
\<close>

subsection \<open>Lifting kernel facts to sessions\<close>

text \<open>Stages after the marks and before the evaluation of signals.\<close>

definition staging :: "micro_state set" where
  "staging = {STATE_UPDATE, HORIZON_CHECK, HORIZON_AGGREGATE, SIGNAL_GATE, CROSS_SECTIONAL, LOG_AND_METRICS}"

definition alive :: "platform \<Rightarrow> 'r session \<Rightarrow> bool" where
  "alive A s \<longleftrightarrow> kernel_ready A (se_kernel s)"

definition tick_at :: "platform \<Rightarrow> micro_state set \<Rightarrow> sized_intent list set \<Rightarrow> 'r session \<Rightarrow> bool" where
  "tick_at A S D s \<longleftrightarrow> kernel_ready A (se_kernel s) \<and> sm_state (k_micro (se_kernel s)) \<in> S \<and> se_pending s \<in> D"

abbreviation moves ::
  "platform \<Rightarrow> micro_state set \<Rightarrow> sized_intent list set \<Rightarrow> ('r, 'a) sact \<Rightarrow> micro_state set \<Rightarrow> sized_intent list set \<Rightarrow> bool" where
  "moves A S D f T E \<equiv> leads (tick_at A S D) f (tick_at A T E) (alive A)"

text \<open>What the bus may do between two explicit transitions, and what a quiet step may.\<close>

definition bus_kept :: "platform \<Rightarrow> 'r session \<Rightarrow> 'r session \<Rightarrow> bool" where
  "bus_kept A s t \<longleftrightarrow> micro_kept A (se_kernel s) (se_kernel t) \<and> se_in_tick t = se_in_tick s
     \<and> (\<not> se_in_tick s \<longrightarrow> se_pending t = se_pending s)"

definition quiet :: "platform \<Rightarrow> 'r session \<Rightarrow> 'r session \<Rightarrow> bool" where
  "quiet A s t \<longleftrightarrow> micro_kept A (se_kernel s) (se_kernel t) \<and> se_in_tick t = se_in_tick s \<and> se_pending t = se_pending s"

lemma micro_kept_trans: "micro_kept A k l \<Longrightarrow> micro_kept A l m \<Longrightarrow> micro_kept A k m"
  by (rule kept.onward)

interpretation bus: framed "bus_kept A :: 'r session \<Rightarrow> 'r session \<Rightarrow> bool"
  by unfold_locales (auto simp: bus_kept_def kept.stay intro: micro_kept_trans)

interpretation quiet: framed "quiet A :: 'r session \<Rightarrow> 'r session \<Rightarrow> bool"
  by unfold_locales (auto simp: quiet_def kept.stay intro: micro_kept_trans)

lemma quiet_bus: "keeps (quiet A) f \<Longrightarrow> keeps (bus_kept A) f"
  by (simp add: keeps_def quiet_def bus_kept_def)

lemma on_kernel_quiet: "keeps (micro_kept A) f \<Longrightarrow> keeps (quiet A) (on_kernel f)"
  by (simp add: keeps_def quiet_def on_kernel_def split: prod.split) (metis snd_conv)

lemmas on_kernel_step = on_kernel_quiet[OF step_kept]
lemmas on_kernel_bus = quiet_bus[OF on_kernel_quiet]

lemma with_session_keeps: "(\<And>s. keeps R (f s)) \<Longrightarrow> keeps R (with_session f)"
  by (simp add: keeps_def with_session_def)

lemma moves_quiet: "keeps (quiet A) f \<Longrightarrow> moves A S D f S D"
  by (rule leadsI) (auto simp: keeps_def quiet_def micro_kept_def tick_at_def alive_def landed_def split: sum.split)

lemma moves_bus: "keeps (bus_kept A) f \<Longrightarrow> moves A S D f S UNIV"
  by (rule leadsI) (auto simp: keeps_def bus_kept_def micro_kept_def tick_at_def alive_def landed_def split: sum.split)

lemma moves_walk: "walks A m f n \<Longrightarrow> moves A {m} D (on_kernel f) {n} D"
  by (rule leadsI)
    (auto simp: tick_at_def alive_def on_kernel_def landed_def micro_at_def dest!: leadsD[where s = "se_kernel _"] split: prod.splits sum.splits)

lemma moves_any: "(\<And>m. m \<in> S \<Longrightarrow> moves A {m} D f T E) \<Longrightarrow> moves A S D f T E"
proof (rule leadsI)
  fix s :: "'a session"
  assume f: "\<And>m. m \<in> S \<Longrightarrow> moves A {m} D f T E" and s: "tick_at A S D s"
  then have "sm_state (k_micro (se_kernel s)) \<in> S" "tick_at A {sm_state (k_micro (se_kernel s))} D s" by (auto simp: tick_at_def)
  then show "landed (tick_at A T E) (alive A) (f s)" using f by (blast intro: leadsD)
qed

lemma moves_micro:
  "(\<And>m. m \<in> S \<Longrightarrow> t \<in> the (micro_transitions m)) \<Longrightarrow> moves A S D (on_kernel (micro_transition t trigger cid)) {t} D"
  by (rule moves_any) (simp add: moves_walk walks_micro)

lemma moves_with: "(\<And>s. tick_at A S D s \<Longrightarrow> landed (tick_at A T E) (alive A) (f s s)) \<Longrightarrow> moves A S D (with_session f) T E"
  by (rule leadsI) (simp add: with_session_def)

lemma moves_with_any: "(\<And>s. moves A S D (f s) T E) \<Longrightarrow> moves A S D (with_session f) T E"
  by (rule moves_with) (rule leadsD)

lemma moves_weaken: "moves A S D f T E \<Longrightarrow> T \<subseteq> T' \<Longrightarrow> E \<subseteq> E' \<Longrightarrow> moves A S D f T' E'"
  by (erule leads_mono) (auto simp: tick_at_def)

lemma quiet_modify: "(\<And>s. micro_kept A (se_kernel s) (se_kernel (f s)) \<and> se_in_tick (f s) = se_in_tick s \<and> se_pending (f s) = se_pending s)
    \<Longrightarrow> keeps (quiet A) (modify f)"
  by (rule quiet.modify_keeps) (simp add: quiet_def)

lemma micro_kept_fields [simp]:
  "micro_kept A k (k\<lparr>k_mechanism := m\<rparr>)" "micro_kept A k (k\<lparr>k_slices := S\<rparr>)" "micro_kept A k (k\<lparr>k_positions := p, k_slices := S\<rparr>)"
  "micro_kept A k k"
  by (simp_all add: micro_kept_def kernel_ready_def kernel_ok_def active_ok_def)

subsection \<open>Portfolio orders and deliveries\<close>

lemma filter_legs_step: "(\<And>o'. keeps kernel_step (admit o')) \<Longrightarrow> keeps kernel_step (filter_legs admit os)"
  by (induction os) (simp_all add: step.keeps)

lemma admit_portfolio_step: "keeps kernel_step (admit_portfolio_orders tr si q cid os)"
proof -
  have "keeps kernel_step (leg_block tr si q o' :: ('b, block_reason option) kact)" for o'
    by (rule step.state_keeps) (simp add: leg_block_def Let_def step.stay split: option.split)
  moreover have "keeps kernel_step (\<lambda>k :: 'b kernel. if has_pending_order_for_symbol k sy
      then andThen (alert sev name cid) (\<lambda>_. ok False) k else (Inr True, k))" for sy sev name
    by (rule step.state_keeps) (simp add: step.stay step.at_state[OF step.andThen_keeps[OF alert_step step.ok_keeps]])
  ultimately show ?thesis
    unfolding admit_portfolio_orders_def filter_portfolio_orders_for_admission_def filter_portfolio_orders_for_pending_conflicts_def
    by (intro step.andThen_keeps filter_legs_step step.if_keeps step.ok_keeps alert_step)
qed

lemma submit_portfolio_step: "keeps kernel_step (submit_portfolio_order rt o')"
  unfolding submit_portfolio_order_def transition_order_def
  by (intro step.keeps track_order_step order_transition_step submit_router_step publish_event_step)

lemma portfolio_leg_kept: "keeps (micro_kept A) (submit_portfolio_leg_without_micro_walk env tr sized si cid q)"
proof -
  have send: "keeps kernel_step (if os = [] then ok ()
      else andThen (each (submit_portfolio_order rt) os) (\<lambda>_. andThen (settle_router_acks cfg rt cid ids) (\<lambda>_. ok ())))"
    for os rt cfg ids
    by (intro step.if_keeps step.keeps submit_portfolio_step settle_step)
  show ?thesis unfolding submit_portfolio_leg_without_micro_walk_def Let_def
    by (intro kept.if_keeps escalate_kept kept.ok_keeps step_kept step.andThen_keeps admit_portfolio_step send)
qed

lemma deliver_bus: "keeps (bus_kept A) (bus_deliver env d)"
proof (cases d)
  case (Signal_Event sig)
  have "keeps (quiet A) (on_bus_signal env sig)"
    unfolding on_bus_signal_def by (rule quiet_modify) (simp add: Let_def)
  then show ?thesis by (simp add: Signal_Event quiet_bus)
next
  case (Intent_Event si)
  have "bus_kept A s (snd (on_bus_sized_intent env si s))" for s
    using quiet.at_state[OF on_kernel_quiet[OF portfolio_leg_kept], of A s]
    by (simp add: on_bus_sized_intent_def with_session_def flush_without_walk_def modify_def bus_kept_def quiet_def)
  then show ?thesis by (simp add: Intent_Event keeps_def)
next
  case (DeRisk_Event x)
  then show ?thesis by (simp add: on_kernel_bus[OF step_kept[OF derisk_step]])
next
  case (Router_Event g)
  have "keeps kernel_step (modify (\<lambda>k. k\<lparr>k_router := g (k_router k)\<rparr>))" by (rule step.modify_keeps) simp
  then show ?thesis by (simp add: Router_Event on_kernel_bus[OF step_kept])
next
  case (Handler_Error e)
  then show ?thesis by (simp add: bus.raise_keeps)
qed

lemma fan_out_bus: "keeps (bus_kept A) (fan_out env subscribers)"
  unfolding fan_out_def by (intro with_session_keeps bus.each_keeps deliver_bus)

lemma fan_outs_bus: "keeps (bus_kept A) (each (fan_out env) xs)"
  by (intro bus.each_keeps fan_out_bus)

subsection \<open>Portfolio intents of a tick\<close>

lemma walk_intent: "walks A RISK_CHECK (walk_portfolio_intent env tr sized si cid q) LOG_AND_METRICS"
proof -
  have escalated: "walks A RISK_CHECK (andThen (escalate_risk cfg rt cid) (\<lambda>_. micro_transition LOG_AND_METRICS a cid)) LOG_AND_METRICS"
    for cfg :: kernel_config and rt :: "'a router" and a
    by (rule leads_then[OF walks_kept[OF escalate_kept] walks_micro]) simp
  have each: "walks A ORDER_SUBMIT (each (submit_portfolio_order rt) os) ORDER_SUBMIT" for rt :: "'a router" and os
    by (rule walks_step) (intro step.each_keeps submit_portfolio_step)
  have batch: "walks A RISK_CHECK (andThen (micro_transition ORDER_DECISION a cid)
      (\<lambda>_. andThen (micro_transition ORDER_SUBMIT b cid)
      (\<lambda>_. andThen (each (submit_portfolio_order rt) os)
      (\<lambda>_. andThen (micro_transition ORDER_ACK c cid)
      (\<lambda>_. andThen (settle_and_update cfg rt cid ids d) (\<lambda>_. micro_transition LOG_AND_METRICS e cid)))))) LOG_AND_METRICS"
    for cfg :: kernel_config and rt :: "'a router" and os ids a b c d e
    by (rule leads_then[OF walks_micro leads_then[OF walks_micro leads_then[OF each leads_then[OF walks_micro
          leads_then[OF settle_and_update_walks walks_micro]]]]]) simp_all
  have sent: "walks A RISK_CHECK (\<lambda>k. andThen (admit_portfolio_orders tr si (Some q) cid xs) f k) LOG_AND_METRICS"
    if "\<And>os. walks A RISK_CHECK (f os) LOG_AND_METRICS" for f :: "order_request list \<Rightarrow> ('a, unit) kact" and xs
    by (rule leads_then[OF walks_step[OF admit_portfolio_step] that])
  show ?thesis unfolding walk_portfolio_intent_def Let_def
    by (intro leads_if escalated sent batch walks_micro) simp_all
qed

lemma pop_moves: "moves A S {si # sis} pop_pending S {sis}"
  by (rule leadsI) (simp add: pop_pending_def modify_def tick_at_def)

lemma flush_walking_moves:
  "(\<And>m. m \<in> S \<Longrightarrow> RISK_CHECK \<in> the (micro_transitions m)) \<Longrightarrow>
   moves A S {sis} (flush_walking env cid q trigger sis) (S \<union> {LOG_AND_METRICS}) {[]}"
proof (induction sis arbitrary: S trigger)
  case Nil
  show ?case by simp (rule moves_weaken[OF leads_ok], auto)
next
  case (Cons si sis)
  have walk: "moves A {RISK_CHECK} {sis} (with_session (\<lambda>s. on_kernel (walk_portfolio_intent env (tr s) (c s) si cid q))) {LOG_AND_METRICS} {sis}"
    for tr :: "'a session \<Rightarrow> trading_config" and c
    by (intro moves_with_any moves_walk walk_intent)
  have rest: "moves A {LOG_AND_METRICS} {sis} (flush_walking env cid q t sis) (S \<union> {LOG_AND_METRICS}) {[]}" for t
    by (rule moves_weaken[OF Cons.IH[of "{LOG_AND_METRICS}"]]) auto
  show ?case unfolding flush_walking.simps
    by (rule leads_then[OF pop_moves leads_then[OF moves_micro[OF Cons.prems] leads_then[OF walk rest]]])
qed

lemma flush_plain_moves: "moves A S {sis} (each (\<lambda>si. andThen pop_pending (\<lambda>_. flush_without_walk env cid q si)) sis) S {[]}"
proof (induction sis)
  case Nil
  show ?case by simp (rule leads_ok)
next
  case (Cons si sis)
  have leg: "moves A S {sis} (flush_without_walk env cid q si) S {sis}"
    unfolding flush_without_walk_def by (intro moves_with_any moves_quiet on_kernel_quiet portfolio_leg_kept)
  show ?case unfolding each.simps
    by (rule leads_then[OF leads_then[OF pop_moves leg] Cons.IH])
qed

lemma can_micro: "kernel_ready A k \<Longrightarrow> can_transition (k_micro k) t \<Longrightarrow> t \<in> the (micro_transitions (sm_state (k_micro k)))"
  by (auto simp: kernel_ready_def micro_wired_def can_transition_def split: option.splits)

lemma flush_moves: "moves A staging UNIV (flush_pending_sized_intents env cid q) staging {[]}"
  unfolding flush_pending_sized_intents_def
proof (rule moves_with)
  fix s :: "'a session"
  assume s: "tick_at A staging UNIV s"
  let ?m = "sm_state (k_micro (se_kernel s))"
  have here: "tick_at A {?m} {se_pending s} s" "tick_at A staging {se_pending s} s" using s by (simp_all add: tick_at_def)
  have within: "{?m} \<union> {LOG_AND_METRICS} \<subseteq> staging" using s by (auto simp: tick_at_def staging_def)
  have walk: "landed (tick_at A staging {[]}) (alive A) (flush_walking env cid q t (se_pending s) s)"
    if "RISK_CHECK \<in> the (micro_transitions ?m)" for t
    by (rule leadsD[OF moves_weaken[OF flush_walking_moves within subset_refl] here(1)]) (simp add: that)
  have "can_transition (k_micro (se_kernel s)) RISK_CHECK \<Longrightarrow> RISK_CHECK \<in> the (micro_transitions ?m)"
    using s can_micro[of A "se_kernel s"] by (simp add: tick_at_def)
  with walk leadsD[OF flush_plain_moves here(2), of env cid "Some q"] here(2)
  show "landed (tick_at A staging {[]}) (alive A) ((if se_pending s = [] then ok ()
      else if ?m = CROSS_SECTIONAL then flush_walking env cid q ''portfolio_sized_intent'' (se_pending s)
      else if can_transition (k_micro (se_kernel s)) RISK_CHECK then flush_walking env cid q ''portfolio_sized_intent_resume'' (se_pending s)
      else each (\<lambda>si. andThen pop_pending (\<lambda>_. flush_without_walk env cid (Some q) si)) (se_pending s)) s)"
    by (simp add: ok_def tick_at_def)
qed

subsection \<open>The stages\<close>

lemma mark_kept: "keeps (micro_kept A) (mark_quote q)"
  unfolding mark_quote_def by (rule kept.modify_keeps) (simp add: Let_def)

lemma log_quiet: "keeps (quiet A) (log_event env e)"
  unfolding log_event_def by (rule quiet_modify) simp

lemma flip_quiet: "keeps (quiet A) (modify (flip_buying_power env q))"
  by (rule quiet_modify) (simp add: flip_buying_power_def Let_def split: option.split)

lemma regime_bus: "keeps (bus_kept A) (update_regime env q)"
proof -
  have "keeps (bus_kept A) (modify (\<lambda>s. s\<lparr>se_regime_seen := f s\<rparr>))" for f :: "'a session \<Rightarrow> symbol list"
    by (rule quiet_bus[OF quiet_modify]) simp
  then show ?thesis unfolding update_regime_def
    by (auto split: option.split intro!: bus.keeps on_kernel_bus[OF step_kept[OF draw_step]] fan_out_bus)
qed

lemma sensors_move: "moves A {STATE_UPDATE} UNIV (dispatch_sensor_layer env q cid) staging UNIV"
proof -
  have gate: "moves A {HORIZON_AGGREGATE} UNIV (if b then on_kernel (micro_transition SIGNAL_GATE t cid) else ok ()) staging UNIV" for b t
    by (rule leads_if[OF moves_weaken[OF moves_micro] moves_weaken[OF leads_ok]]) (auto simp: staging_def)
  have stay: "moves A {HORIZON_CHECK} UNIV (ok ()) staging UNIV" by (rule moves_weaken[OF leads_ok]) (auto simp: staging_def)
  have up: "moves A {STATE_UPDATE} UNIV (ok ()) staging UNIV" by (rule moves_weaken[OF leads_ok]) (auto simp: staging_def)
  have horizon: "moves A {HORIZON_CHECK} UNIV (andThen (each (fan_out env) ticks) (\<lambda>_. if ticks = [] then ok ()
      else andThen (on_kernel (micro_transition HORIZON_AGGREGATE a cid)) (\<lambda>_. if b then on_kernel (micro_transition SIGNAL_GATE t cid) else ok ())))
      staging UNIV" for ticks a b t
    by (rule leads_then[OF moves_bus[OF fan_outs_bus] leads_if[OF stay leads_then[OF moves_micro gate]]]) simp
  have staged: "moves A {STATE_UPDATE} UNIV (andThen (on_kernel (micro_transition SENSOR_UPDATE a cid)) (\<lambda>_. andThen (on_kernel (micro_transition HORIZON_CHECK b cid)) f))
      staging UNIV" if "\<And>x. moves A {HORIZON_CHECK} UNIV (f x) staging UNIV" for a b and f :: "unit \<Rightarrow> ('a, unit) sact"
    by (rule leads_then[OF moves_micro leads_then[OF moves_micro that]]) simp_all
  show ?thesis unfolding dispatch_sensor_layer_def Let_def by (rule leads_if[OF up staged[OF horizon]])
qed

lemma bookend_moves: "moves A staging UNIV (on_kernel (cross_sectional_bookend env cid)) staging UNIV"
proof (rule leadsI)
  fix s :: "'a session"
  assume s: "tick_at A staging UNIV s"
  let ?m = "sm_state (k_micro (se_kernel s))"
  have go: "landed (tick_at A staging UNIV) (alive A) (on_kernel (micro_transition CROSS_SECTIONAL t cid) s)"
    if "CROSS_SECTIONAL \<in> the (micro_transitions ?m)" for t
    using that s by (intro leadsD[OF moves_weaken[OF moves_micro[of "{?m}"]]]) (auto simp: tick_at_def staging_def)
  have "can_transition (k_micro (se_kernel s)) CROSS_SECTIONAL \<Longrightarrow> CROSS_SECTIONAL \<in> the (micro_transitions ?m)"
    using s can_micro[of A "se_kernel s"] by (simp add: tick_at_def)
  then show "landed (tick_at A staging UNIV) (alive A) (on_kernel (cross_sectional_bookend env cid) s)"
    using go s by (simp add: on_kernel_def cross_sectional_bookend_def)
qed

lemma stages_move: "moves A {WAITING_FOR_MARKET_EVENT} D (pass_stages env cid q) {SIGNAL_EVALUATE} {[]}"
proof -
  have compute: "moves A staging {[]} (on_kernel (micro_transition FEATURE_COMPUTE t cid)) {FEATURE_COMPUTE} {[]}" for t
    by (rule moves_micro) (auto simp: staging_def)
  have late: "moves A {STATE_UPDATE} UNIV (andThen (update_regime env q) (\<lambda>_. andThen (dispatch_sensor_layer env q cid)
      (\<lambda>_. andThen (on_kernel (cross_sectional_bookend env cid)) (\<lambda>_. andThen (flush_pending_sized_intents env cid q)
      (\<lambda>_. andThen (on_kernel (micro_transition FEATURE_COMPUTE a cid)) (\<lambda>_. on_kernel (micro_transition SIGNAL_EVALUATE b cid)))))))
      {SIGNAL_EVALUATE} {[]}" for a b
    by (rule leads_then[OF moves_bus[OF regime_bus] leads_then[OF sensors_move leads_then[OF bookend_moves leads_then[OF flush_moves
          leads_then[OF compute moves_micro]]]]]) simp
  show ?thesis unfolding pass_stages_def
    by (rule leads_then[OF moves_micro leads_then[OF moves_quiet[OF log_quiet] leads_then[OF moves_quiet[OF on_kernel_quiet[OF mark_kept]]
          leads_then[OF moves_bus[OF fan_out_bus] leads_then[OF moves_quiet[OF flip_quiet]
          leads_then[OF moves_quiet[OF on_kernel_step[OF drain_step]] leads_then[OF moves_micro late]]]]]]]) simp_all
qed

lemma filter_signals_kept: "keeps (micro_kept A) (filter_signals sigs)"
proof (induction sigs)
  case (Cons sig sigs)
  have "keeps (micro_kept A) (signal_actionable sig)"
    by (rule kept.state_keeps) (simp add: signal_actionable_def split: option.split prod.split)
  with Cons show ?case unfolding filter_signals.simps by (intro kept.keeps)
qed (simp add: kept.keeps)

lemma choose_quiet: "keeps (quiet A) (choose_signal env buf)"
proof -
  have "keeps (quiet A) (note_collision own)" for own
    unfolding note_collision_def by (rule quiet_modify) (simp split: list.split)
  then show ?thesis unfolding choose_signal_def
    by (intro quiet.if_keeps quiet.keeps on_kernel_quiet filter_signals_kept)
qed

lemma record_quiet: "keeps (quiet A) (record_net_targets env buf q)"
proof -
  have "keeps (quiet A) (put_standing env q sig)" for sig
    by (rule quiet.state_keeps) (simp add: put_standing_def quiet_def split: sum.split)
  then show ?thesis unfolding record_net_targets_def
    by (intro quiet.if_keeps quiet.keeps quiet_modify) simp_all
qed

lemma drop_quiet: "keeps (quiet A) (drop_signals buf)"
  unfolding drop_signals_def by (rule quiet_modify) simp

lemma decide_moves: "moves A {SIGNAL_EVALUATE} D (decide_tick env cid q) {WAITING_FOR_MARKET_EVENT} D"
  unfolding decide_tick_def Let_def
  by (intro moves_with_any, rule leads_then[OF moves_quiet[OF choose_quiet] leads_then[OF moves_quiet[OF record_quiet]
      leads_then[OF moves_quiet[OF drop_quiet] moves_with_any]]]) (rule moves_walk[OF evaluate_walks])

subsection \<open>A tick\<close>

lemma degrade_flatten_step: "keeps kernel_step (force_flatten_symbol_on_degrade cfg rt sy cid reason)"
proof (rule step.state_keeps)
  fix k :: "'a kernel"
  have send: "keeps kernel_step (\<lambda>k. catch (andThen (track_order (oid k) sd (o' k) '''')
      (\<lambda>_. andThen (order_transition (oid k) SUBMITTED t cid) (\<lambda>_. andThen (submit_to_router rt (o' k))
      (\<lambda>_. andThen (publish_event (OutOrder (o' k))) (\<lambda>_. andThen (settle_router_acks cfg rt cid (Some [oid k])) (\<lambda>_. ok ()))))))
      (\<lambda>e. alert sev name cid) k)" for oid o' t sd sev name
    by (rule step.state_keeps, rule step.at_state)
      (intro step.keeps track_order_step order_transition_step submit_router_step publish_event_step settle_step alert_step)
  show "kernel_step k (snd (force_flatten_symbol_on_degrade cfg rt sy cid reason k))"
    unfolding force_flatten_symbol_on_degrade_def Let_def
    by (intro step.branch step.at_state[OF step.andThen_keeps[OF draw_step send]]) (simp add: step.stay)
qed

lemma degrade_kept: "keeps (micro_kept A) (degrade_if_possible trigger cid)"
  by (rule kept.state_keeps)
    (simp add: degrade_if_possible_def kept.at_state[OF macro_transition_kept])

lemma flatten_degrade_kept: "keeps (micro_kept A) (flatten_and_degrade env sy reason name cid)"
  unfolding flatten_and_degrade_def
  by (intro kept.keeps step_kept[OF degrade_flatten_step] degrade_kept)

lemma health_quiet: "keeps (quiet A) (data_health_blocks_trading env sy cid)"
  unfolding data_health_blocks_trading_def Let_def
  by (rule with_session_keeps)
    (auto split: option.split intro!: quiet.if_keeps quiet.keeps on_kernel_quiet kept.keeps degrade_kept flatten_degrade_kept)

lemma stop_quiet: "keeps (quiet A) (on_kernel (stop_for_kill_switch cid))"
proof -
  have first: "keeps (micro_kept A) (\<lambda>k. if sm_state (k_macro k) \<in> trading_modes then degrade_if_possible t cid k else (Inr (), k))" for t
    by (rule kept.state_keeps) (simp add: kept.at_state[OF degrade_kept])
  show ?thesis unfolding stop_for_kill_switch_def
    by (intro on_kernel_quiet kept.andThen_keeps first kept.ok_keeps step_kept[OF draw_step])
qed

lemma expire_quiet: "keeps (quiet A) (modify (expire_signals now))"
  by (rule quiet_modify) (simp add: expire_signals_def Let_def)

lemma inner_moves: "moves A {WAITING_FOR_MARKET_EVENT} {[]} (process_tick_inner env q) {WAITING_FOR_MARKET_EVENT} {[]}"
proof -
  have tick: "moves A {WAITING_FOR_MARKET_EVENT} {[]} (andThen (pass_stages env cid q) (\<lambda>_. decide_tick env cid q)) {WAITING_FOR_MARKET_EVENT} {[]}" for cid
    by (rule leads_then[OF stages_move decide_moves])
  have warn: "moves A {WAITING_FOR_MARKET_EVENT} {[]} (on_kernel (alert sev name cid)) {WAITING_FOR_MARKET_EVENT} {[]}" for sev name cid
    by (rule moves_quiet[OF on_kernel_step[OF alert_step]])
  show ?thesis unfolding process_tick_inner_def Let_def
    by (rule leads_then[OF moves_quiet[OF expire_quiet] moves_with_any])
      (intro leads_if moves_quiet[OF stop_quiet] leads_then[OF moves_quiet[OF health_quiet]] warn moves_with_any leads_ok tick)
qed

text \<open>A macro machine in a trading mode can always be degraded.\<close>

definition stopped :: "'r session \<Rightarrow> bool" where
  "stopped s \<longleftrightarrow> sm_state (k_macro (se_kernel s)) \<notin> trading_modes"

definition at_rest :: "platform \<Rightarrow> 'r session \<Rightarrow> bool" where
  "at_rest A s \<longleftrightarrow> tick_at A {WAITING_FOR_MARKET_EVENT} {[]} s"

lemma degrades:
  assumes "kernel_ready A k"
  obtains r m l where "(if sm_state (k_macro k) \<in> trading_modes \<and> can_transition (k_macro k) DEGRADED
      then macro_transition DEGRADED t cid k else (Inr (), k)) = (r, k\<lparr>k_macro := m, k_log := l\<rparr>)"
    "kernel_ready A (k\<lparr>k_macro := m, k_log := l\<rparr>)" "if isl r then \<not> silent (pf_macro A) else sm_state m \<notin> trading_modes"
proof (cases "sm_state (k_macro k) \<in> trading_modes")
  case True
  then have can: "can_transition (k_macro k) DEGRADED"
    using assms by (auto simp: kernel_ready_def macro_wired_def can_transition_def trading_modes_def)
  obtain r m l where run: "transition (k_macro k) DEGRADED t cid None (k_now k) (k_log k) = (r, m, l)"
    by (cases "transition (k_macro k) DEGRADED t cid None (k_now k) (k_log k)")
  note res = transition_result[OF run can] transition_table[OF run]
  have "kernel_ready A (k\<lparr>k_macro := m, k_log := l\<rparr>)"
    using assms res by (auto simp: kernel_ready_def macro_wired_def kernel_ok_def active_ok_def)
  moreover have "if isl r then \<not> silent (pf_macro A) else sm_state m \<notin> trading_modes"
    using assms res by (auto simp: kernel_ready_def macro_wired_def trading_modes_def)
  ultimately show ?thesis using that[where r = "map_sum id (\<lambda>_. ()) r" and m = m and l = l] True can by (cases r) (simp_all add: macro_transition_def run)
next
  case False
  then show ?thesis using that[where r = "Inr ()" and m = "k_macro k" and l = "k_log k"] assms by simp
qed

lemma ready_macro:
  "kernel_ready A k \<Longrightarrow> macro_wired A m \<Longrightarrow> sm_state m = DEGRADED \<or> m = k_macro k \<Longrightarrow> kernel_ready A (k\<lparr>k_macro := m, k_log := l\<rparr>)"
  by (auto simp: kernel_ready_def kernel_ok_def active_ok_def)

text \<open>The recovery returns whatever the subscribers of the two machines veto: a veto of the reset
  leaves the micro machine where it was, a veto of the degradation asks for the end of the run.\<close>

definition recovered_tick :: "platform \<Rightarrow> 'r session \<Rightarrow> bool" where
  "recovered_tick A s \<longleftrightarrow> alive A s \<and> (silent (pf_micro A) \<longrightarrow> at_rest A s)"

lemma rest_recovered: "at_rest A s \<Longrightarrow> recovered_tick A s"
  by (simp add: at_rest_def tick_at_def alive_def recovered_tick_def)

lemma failure_recovers:
  "leads (alive A) (handle_tick_failure cid e)
     (\<lambda>s. recovered_tick A s \<and> (stopped s \<or> se_abort s) \<and> (silent (pf_macro A) \<longrightarrow> stopped s)) (\<lambda>_. False)"
proof -
  have reset: "leads (alive A) (andThen (on_kernel (micro_reset t cid)) (\<lambda>_. andThen (modify (\<lambda>s. s\<lparr>se_pending := []\<rparr>))
      (\<lambda>_. on_kernel (andThen draw_seq (\<lambda>_. ok ()))))) (at_rest A) (\<lambda>s. alive A s \<and> \<not> silent (pf_micro A))" for t
  proof (rule leads_then)
    show "leads (alive A) (on_kernel (micro_reset t cid)) (tick_at A {WAITING_FOR_MARKET_EVENT} UNIV) (\<lambda>s. alive A s \<and> \<not> silent (pf_micro A))"
      by (rule leadsI) (auto simp: alive_def on_kernel_def landed_def tick_at_def micro_at_def
        dest!: leadsD[OF reset_walks, of _ _ t cid] split: prod.splits sum.splits)
    show "leads (tick_at A {WAITING_FOR_MARKET_EVENT} UNIV) (andThen (modify (\<lambda>s. s\<lparr>se_pending := []\<rparr>))
        (\<lambda>_. on_kernel (andThen draw_seq (\<lambda>_. ok ())))) (at_rest A) (\<lambda>s. alive A s \<and> \<not> silent (pf_micro A))"
      by (rule leadsI) (simp add: andThen_def modify_def on_kernel_def draw_seq_def next_seq_def ok_def at_rest_def tick_at_def)
  qed
  have first: "leads (alive A) (catch f (\<lambda>_. ok ())) (recovered_tick A) (\<lambda>_. False)"
    if f: "leads (alive A) f (at_rest A) (\<lambda>s. alive A s \<and> \<not> silent (pf_micro A))" for f :: "('a, unit) sact"
    by (rule leads_catch[where F = "\<lambda>s. alive A s \<and> \<not> silent (pf_micro A)", OF leads_mono[OF f] leadsI])
      (auto simp: rest_recovered, simp add: recovered_tick_def ok_def)
  have stop: "leads (recovered_tick A) (catch (on_kernel (\<lambda>k. if sm_state (k_macro k) \<in> trading_modes \<and> can_transition (k_macro k) DEGRADED
      then macro_transition DEGRADED t cid k else (Inr (), k))) (\<lambda>_. modify (\<lambda>s. s\<lparr>se_abort := True\<rparr>)))
      (\<lambda>s :: 'a session. recovered_tick A s \<and> (stopped s \<or> se_abort s) \<and> (silent (pf_macro A) \<longrightarrow> stopped s)) (\<lambda>_. False)" for t
  proof (rule leadsI)
    fix s :: "'a session"
    assume s: "recovered_tick A s"
    then have k: "kernel_ready A (se_kernel s)" by (simp add: recovered_tick_def alive_def)
    obtain r m l where m: "(if sm_state (k_macro (se_kernel s)) \<in> trading_modes \<and> can_transition (k_macro (se_kernel s)) DEGRADED
      then macro_transition DEGRADED t cid (se_kernel s) else (Inr (), se_kernel s)) = (r, (se_kernel s)\<lparr>k_macro := m, k_log := l\<rparr>)"
      "kernel_ready A ((se_kernel s)\<lparr>k_macro := m, k_log := l\<rparr>)" "if isl r then \<not> silent (pf_macro A) else sm_state m \<notin> trading_modes"
      by (rule degrades[OF k, of t cid])
    show "landed (\<lambda>s. recovered_tick A s \<and> (stopped s \<or> se_abort s) \<and> (silent (pf_macro A) \<longrightarrow> stopped s)) (\<lambda>_. False)
      (catch (on_kernel (\<lambda>k. if sm_state (k_macro k) \<in> trading_modes \<and> can_transition (k_macro k) DEGRADED
      then macro_transition DEGRADED t cid k else (Inr (), k))) (\<lambda>_. modify (\<lambda>s. s\<lparr>se_abort := True\<rparr>)) s)"
      using s m(2,3) by (cases r) (simp_all add: catch_def on_kernel_def m(1) modify_def recovered_tick_def alive_def at_rest_def tick_at_def stopped_def)
  qed
  show ?thesis unfolding handle_tick_failure_def
    by (rule leads_then[OF first[OF reset] stop])
qed



subsection \<open>Trades and runs\<close>











lemma micro_reset_run:
  assumes "kernel_ready A k" "silent (pf_micro A)"
  shows "\<exists>m l. micro_reset t cid k = (Inr (), k\<lparr>k_micro := m, k_log := l\<rparr>) \<and> micro_wired A m \<and> sm_state m = WAITING_FOR_MARKET_EVENT"
proof -
  obtain r m l where run: "micro_reset t cid k = (r, k\<lparr>k_micro := m, k_log := l\<rparr>)"
    by (cases "sm_reset (k_micro k) t cid (k_now k) (k_log k)") (simp add: micro_reset_def)
  then show ?thesis using leadsD[OF reset_walks assms(1), of t cid] assms(2) by (cases r) (auto simp: micro_at_def kernel_ready_def intro!: exI[of _ m] exI[of _ l])
qed




lemma degrade_run:
  assumes "macro_ok (k_macro k)" and "sm_state (k_macro k) \<in> trading_modes"
  shows "\<exists>r. degrade_if_possible t cid k
    = (Inr (), k\<lparr>k_macro := commit r DEGRADED (k_macro k), k_log := publish_numbered (OutMacroTransition r) (k_log k)\<rparr>)"
proof -
  have "can_transition (k_macro k) DEGRADED" using assms by (auto simp: macro_ok_def can_transition_def trading_modes_def)
  then show ?thesis using assms(1)
    by (simp add: degrade_if_possible_def macro_transition_def transition_def announce_def macro_ok_def emit_state_transition_def) blast
qed

lemma stop_run:
  assumes "macro_ok (k_macro k)"
  shows "\<exists>m l. stop_for_kill_switch cid k = (Inr (), k\<lparr>k_macro := m, k_log := l\<rparr>) \<and> sm_state m \<notin> trading_modes
    \<and> (\<forall>o'. OutOrder o' \<in> set (kl_out l) \<longrightarrow> OutOrder o' \<in> set (kl_out (k_log k)))"
proof (cases "sm_state (k_macro k) \<in> trading_modes")
  case True
  obtain r where d: "degrade_if_possible ''KILL_SWITCH_ACTIVE'' cid k
      = (Inr (), k\<lparr>k_macro := commit r DEGRADED (k_macro k), k_log := publish_numbered (OutMacroTransition r) (k_log k)\<rparr>)"
    using degrade_run[OF assms True] by blast
  then show ?thesis using True
    by (intro exI[of _ "commit r DEGRADED (k_macro k)"] exI[of _ "snd (next_seq (publish_numbered (OutMacroTransition r) (k_log k)))"])
      (simp add: stop_for_kill_switch_def andThen_def draw_seq_def next_seq_def ok_def commit_def, auto simp: trading_modes_def)
next
  case False
  then show ?thesis
    by (intro exI[of _ "k_macro k"] exI[of _ "snd (next_seq (k_log k))"])
      (simp add: stop_for_kill_switch_def andThen_def draw_seq_def next_seq_def ok_def)
qed

lemma sample_platform:
  obtains s :: "unit session" where "at_rest (registered {mode}) s" "\<not> se_in_tick s" "sm_state (k_macro (se_kernel s)) = mode"
    "k_kill (se_kernel s) = Some kill" "sm_state (k_risk (se_kernel s)) = level"
proof -
  obtain k :: "unit kernel" where k: "kernel_ok k" "macro_ok (k_macro k)" "sm_state (k_macro k) = mode" "sm_state (k_risk k) = level"
    by (rule sample_session)
  obtain m :: "(micro_state, kernel_log) machine" where m: "create_micro_state_machine = Inr m"
    using micro_table.builds_limited[of 256] by (auto simp: create_micro_state_machine_def)
  let ?m = "on_transition (emit_state_transition OutMicroTransition) m"
  have mk: "micro_ok ?m" "sm_state ?m = WAITING_FOR_MARKET_EVENT"
    using m by (simp_all add: create_micro_state_machine_def new_machine_Inr_iff micro_ok_def on_transition_def)
  let ?s = "\<lparr>se_kernel = k\<lparr>k_micro := ?m, k_kill := Some kill\<rparr>, se_signals = [], se_carryover = [], se_pending = [], se_in_tick = False,
      se_targets = [], se_transient = [], se_normalizer = None, se_halts = undefined, se_ssr = [], se_regime_seen = [],
      se_phase = INTRADAY, se_bp_flipped = False, se_bp_date = None, se_collisions = [], se_event_log = [], se_notices = [], se_abort = False\<rparr>"
  have "at_rest (registered {mode}) ?s" using k mk by (simp add: at_rest_def tick_at_def kernel_ready_def kernel_ok_def active_ok_def registered_wired)
  then show ?thesis by (rule that) (simp_all add: k)
qed

subsection \<open>Properties\<close>

text \<open>C15: Every tick ends at the gate of the next. From a session at rest, whatever the bus hands back,
  whichever step of the tick raises and whatever further subscribers of the micro and the macro machine
  raise, \<open>process_tick\<close> returns with the in-tick flag cleared and the tables in order. When the body of the
  tick returned, or no subscriber of the micro machine raises, the micro machine waits for a market
  event and no portfolio intent is left buffered. When the body raised, the platform has left its
  trading mode or, which takes a subscriber that vetoes the degradation, has asked for the
  abort of the run, and whatever is still to come of the feed the run raises.\<close>

theorem tick_returns:
  assumes "at_rest A s"
  shows "let body = fst (process_tick_inner env q (s\<lparr>se_in_tick := True\<rparr>)) in \<exists>s'. process_tick env q s = (Inr (), s') \<and> alive A s' \<and> \<not> se_in_tick s'
    \<and> (\<not> isl body \<or> silent (pf_micro A) \<longrightarrow> at_rest A s')
    \<and> (isl body \<longrightarrow> stopped s' \<or> \<not> silent (pf_macro A)
         \<and> (\<forall>es. run_pipeline es s' = (Inl (OtherException ''OrchestratorPipelineAbortError''), s')))"
proof -
  let ?s = "s\<lparr>se_in_tick := True\<rparr>"
  define body where "body = fst (process_tick_inner env q ?s)"
  have start: "tick_at A {WAITING_FOR_MARKET_EVENT} {[]} ?s" using assms(1) by (simp add: at_rest_def tick_at_def)
  obtain r s1 where inner: "process_tick_inner env q ?s = (r, s1)" by (cases "process_tick_inner env q ?s")
  note after = leadsD[OF inner_moves start, of env q, unfolded inner]
  have "\<exists>s'. process_tick env q s = (Inr (), s') \<and> alive A s' \<and> \<not> se_in_tick s'
    \<and> (\<not> isl body \<or> silent (pf_micro A) \<longrightarrow> at_rest A s')
    \<and> (isl body \<longrightarrow> stopped s' \<or> \<not> silent (pf_macro A)
         \<and> (\<forall>es. run_pipeline es s' = (Inl (OtherException ''OrchestratorPipelineAbortError''), s')))"
  proof (cases r)
    case (Inr u)
    then have "process_tick env q s = (Inr (), s1\<lparr>se_in_tick := False\<rparr>)" "\<not> isl body"
      by (simp_all add: process_tick_def andThen_def modify_def catch_def inner body_def)
    moreover have "at_rest A (s1\<lparr>se_in_tick := False\<rparr>)" using after Inr by (simp add: at_rest_def tick_at_def)
    ultimately show ?thesis using rest_recovered by (fastforce simp: recovered_tick_def)
  next
    case (Inl e)
    then have "alive A s1" using after by simp
    from leadsD[OF failure_recovers this, of "ev_correlation q" e] obtain s2 where
      fail: "handle_tick_failure (ev_correlation q) e s1 = (Inr (), s2)" "recovered_tick A s2" "stopped s2 \<or> se_abort s2"
      "silent (pf_macro A) \<longrightarrow> stopped s2" by (cases "handle_tick_failure (ev_correlation q) e s1") (auto simp: landed_def split: sum.splits)
    let ?e = "s2\<lparr>se_in_tick := False\<rparr>"
    have "process_tick env q s = (Inr (), ?e)" using fail(1) Inl by (simp add: process_tick_def andThen_def modify_def catch_def inner)
    moreover have "run_pipeline es ?e = (Inl (OtherException ''OrchestratorPipelineAbortError''), ?e)" if "se_abort s2" for es
      using that by (cases es) auto
    moreover have "alive A ?e" "silent (pf_micro A) \<longrightarrow> at_rest A ?e" "stopped ?e = stopped s2" "isl body"
      using fail(2) Inl by (simp_all add: recovered_tick_def alive_def at_rest_def tick_at_def stopped_def body_def inner)
    ultimately show ?thesis using fail(3,4) by auto
  qed
  then show ?thesis by (simp only: Let_def body_def)
qed

text \<open>A subscriber of the macro machine that vetoes every transition, while the kill switch asks for one.\<close>

definition veto :: "(macro_state, kernel_log) callback" where
  "veto r l = (l, Some (RuntimeError ''macro transition subscriber boom''))"

lemma tick_returns_witness:
  "(\<exists>s :: unit session. at_rest (registered {BACKTEST_MODE}) s \<and> \<not> stopped s
      \<and> (\<forall>env q. \<exists>s'. process_tick env q s = (Inr (), s') \<and> at_rest (registered {BACKTEST_MODE}) s' \<and> \<not> se_in_tick s'))
   \<and> (\<exists>s :: unit session. at_rest ((registered {PAPER_TRADING_MODE})\<lparr>pf_macro := [veto]\<rparr>) s \<and> \<not> stopped s
      \<and> (\<forall>env q. isl (fst (process_tick_inner env q (s\<lparr>se_in_tick := True\<rparr>))) \<and> (\<exists>s'. process_tick env q s = (Inr (), s')
           \<and> \<not> stopped s' \<and> (\<forall>es. run_pipeline es s' = (Inl (OtherException ''OrchestratorPipelineAbortError''), s')))))"
proof
  obtain s :: "unit session" where s: "at_rest (registered {BACKTEST_MODE}) s" "sm_state (k_macro (se_kernel s)) = BACKTEST_MODE"
    by (rule sample_platform)
  from s(2) have "\<not> stopped s" by (simp add: stopped_def trading_modes_def)
  with tick_returns[OF s(1), unfolded Let_def] registered_wired(4) s(1) show "\<exists>s :: unit session. at_rest (registered {BACKTEST_MODE}) s \<and> \<not> stopped s
      \<and> (\<forall>env q. \<exists>s'. process_tick env q s = (Inr (), s') \<and> at_rest (registered {BACKTEST_MODE}) s' \<and> \<not> se_in_tick s')" by blast
next
  let ?A = "(registered {PAPER_TRADING_MODE})\<lparr>pf_macro := [veto]\<rparr>"
  obtain s0 :: "unit session" where s0: "at_rest (registered {PAPER_TRADING_MODE}) s0" "sm_state (k_macro (se_kernel s0)) = PAPER_TRADING_MODE"
    "k_kill (se_kernel s0) = Some True" by (rule sample_platform)
  define s where "s = s0\<lparr>se_kernel := (se_kernel s0)\<lparr>k_macro := (k_macro (se_kernel s0))\<lparr>sm_callbacks := [veto]\<rparr>\<rparr>\<rparr>"
  have s: "at_rest ?A s" "\<not> stopped s" using s0
    by (auto simp: s_def at_rest_def tick_at_def kernel_ready_def kernel_ok_def active_ok_def micro_wired_def macro_wired_def registered_def
      stopped_def trading_modes_def)
  have k: "k_kill (se_kernel s) = Some True" "sm_state (k_macro (se_kernel s)) = PAPER_TRADING_MODE" "sm_callbacks (k_macro (se_kernel s)) = [veto]"
    "sm_transitions (k_macro (se_kernel s)) = macro_transitions"
    using s0 by (simp_all add: s_def at_rest_def tick_at_def kernel_ready_def macro_wired_def)
  have can: "can_transition (k_macro (se_kernel s)) DEGRADED" using k by (simp add: can_transition_def)
  have vetoed: "macro_transition DEGRADED t cid k' = (Inl (RuntimeError ''macro transition subscriber boom''), k')"
    if "k_macro k' = k_macro (se_kernel s)" for t cid and k' :: "unit kernel"
    using that k can by (simp add: macro_transition_def transition_def announce_def veto_def)
  let ?s = "\<lambda>q. expire_signals (ev_timestamp q) (s\<lparr>se_in_tick := True\<rparr>)"
  have inner: "process_tick_inner env q (s\<lparr>se_in_tick := True\<rparr>) = (Inl (RuntimeError ''macro transition subscriber boom''), ?s q)" for env q
    using k can by (simp add: process_tick_inner_def andThen_def modify_def expire_signals_def Let_def with_session_def on_kernel_def
      stop_for_kill_switch_def degrade_if_possible_def vetoed trading_modes_def)
  have "sm_state (k_macro (se_kernel (snd (process_tick env q s)))) = PAPER_TRADING_MODE" for env q
  proof -
    have ready: "kernel_ready ?A (se_kernel s)" using s(1) by (simp add: at_rest_def tick_at_def)
    have quiet: "silent (pf_micro ?A)" using registered_wired(4) by (simp add: registered_def)
    let ?t = "''pipeline_abort:RuntimeError''"
    obtain m l where reset: "micro_reset ?t (ev_correlation q) (se_kernel s) = (Inr (), (se_kernel s)\<lparr>k_micro := m, k_log := l\<rparr>)"
      using micro_reset_run[OF ready quiet] by blast
    have kernel: "se_kernel (?s q) = se_kernel s" by (simp add: expire_signals_def Let_def)
    show ?thesis using k can
      by (simp add: process_tick_def andThen_def modify_def catch_def inner handle_tick_failure_def on_kernel_def kernel reset
        draw_seq_def next_seq_def ok_def vetoed trading_modes_def)
  qed
  then have "\<not> stopped (snd (process_tick env q s))" for env q by (simp add: stopped_def trading_modes_def)
  moreover have "isl (fst (process_tick_inner env q (s\<lparr>se_in_tick := True\<rparr>)))" for env q by (simp add: inner)
  ultimately show "\<exists>s :: unit session. at_rest ?A s \<and> \<not> stopped s
      \<and> (\<forall>env q. isl (fst (process_tick_inner env q (s\<lparr>se_in_tick := True\<rparr>))) \<and> (\<exists>s'. process_tick env q s = (Inr (), s')
           \<and> \<not> stopped s' \<and> (\<forall>es. run_pipeline es s' = (Inl (OtherException ''OrchestratorPipelineAbortError''), s'))))"
    using s tick_returns[OF s(1), unfolded Let_def] by (metis snd_conv)
qed

text \<open>C16: With the kill switch on, a quote does nothing but stop the platform. Of the session only the
  in-tick flag (cleared), the signals that expire by the quote's time, the macro machine and the log
  change: the macro machine has left its trading mode, no order is published, and books, orders,
  router, intents and marks are those of before the tick. The macro machine has the kernel's own
  subscriber.\<close>

theorem killed_tick_is_inert:
  assumes "k_kill (se_kernel s) = Some True" and "macro_ok (k_macro (se_kernel s))"
  shows "\<exists>m l. process_tick env q s = (Inr (), (expire_signals (ev_timestamp q) s)\<lparr>se_in_tick := False, se_kernel := (se_kernel s)\<lparr>k_macro := m, k_log := l\<rparr>\<rparr>)
    \<and> sm_state m \<notin> trading_modes
    \<and> (\<forall>o'. OutOrder o' \<in> set (kl_out l) \<longrightarrow> OutOrder o' \<in> set (kl_out (k_log (se_kernel s))))
    \<and> set (se_signals (expire_signals (ev_timestamp q) s)) \<subseteq> set (se_signals s)"
proof -
  obtain m l where stop: "stop_for_kill_switch (ev_correlation q) (se_kernel s) = (Inr (), (se_kernel s)\<lparr>k_macro := m, k_log := l\<rparr>)"
    "sm_state m \<notin> trading_modes" "\<forall>o'. OutOrder o' \<in> set (kl_out l) \<longrightarrow> OutOrder o' \<in> set (kl_out (k_log (se_kernel s)))"
    using stop_run[OF assms(2)] by blast
  define s1 where "s1 = expire_signals (ev_timestamp q) (s\<lparr>se_in_tick := True\<rparr>)"
  have s1: "se_kernel s1 = se_kernel s" "s1\<lparr>se_in_tick := False\<rparr> = (expire_signals (ev_timestamp q) s)\<lparr>se_in_tick := False\<rparr>"
    by (simp_all add: s1_def expire_signals_def Let_def)
  have "process_tick env q s = (Inr (), s1\<lparr>se_kernel := (se_kernel s)\<lparr>k_macro := m, k_log := l\<rparr>, se_in_tick := False\<rparr>)"
    by (simp add: process_tick_def process_tick_inner_def catch_def andThen_def modify_def with_session_def on_kernel_def
        s1_def[symmetric] s1(1) assms(1) stop(1) Let_def)
  also have "s1\<lparr>se_kernel := (se_kernel s)\<lparr>k_macro := m, k_log := l\<rparr>, se_in_tick := False\<rparr>
    = (s1\<lparr>se_in_tick := False\<rparr>)\<lparr>se_kernel := (se_kernel s)\<lparr>k_macro := m, k_log := l\<rparr>\<rparr>" by simp
  finally show ?thesis using stop(2,3) unfolding s1(2) by (auto simp: expire_signals_def Let_def)
qed

lemma killed_tick_witness:
  "\<exists>s :: unit session. k_kill (se_kernel s) = Some True \<and> sm_state (k_macro (se_kernel s)) = PAPER_TRADING_MODE
    \<and> (\<forall>env q. \<exists>m l. process_tick env q s = (Inr (), (expire_signals (ev_timestamp q) s)\<lparr>se_in_tick := False,
         se_kernel := (se_kernel s)\<lparr>k_macro := m, k_log := l\<rparr>\<rparr>) \<and> sm_state m \<notin> trading_modes)"
proof -
  obtain s :: "unit session" where s: "at_rest (registered {PAPER_TRADING_MODE}) s" "k_kill (se_kernel s) = Some True"
    "sm_state (k_macro (se_kernel s)) = PAPER_TRADING_MODE" by (rule sample_platform)
  then have "macro_ok (k_macro (se_kernel s))" by (simp add: at_rest_def tick_at_def kernel_ready_def registered_wired)
  from killed_tick_is_inert[OF s(2) this] s(2,3) show ?thesis by blast
qed



end
