(* ===== verification/Regime_Gate.thy ===== *)
theory Regime_Gate
  imports Events
begin

section \<open>Regime gates (core/regime_gate.py)\<close>

text \<open>
  The expression language of the gates: the whitelist that screens a parsed expression, the
  evaluator over the bindings of a snapshot, and the latch with hysteresis built on both.
  Expressions are Python's abstract syntax trees, every node kind included; the parser of the
  standard library is a parameter. Values are dynamically typed, with Python's coercions of
  booleans and integers, exact comparisons and floor division; formatting a string with
  \<open>%\<close> and constants of the remaining types (bytes, complex numbers, \<open>...\<close>) are left out.
\<close>

subsection \<open>Trees\<close>

datatype unary_op = Not_Op | USub | UAdd | Invert
datatype bool_op = And_Op | Or_Op
datatype bin_op = Add_Op | Sub_Op | Mult_Op | Div_Op | Mod_Op | FloorDiv | Pow_Op | Other_Bin string
datatype cmp_op = Eq_Op | NotEq | Lt_Op | LtE | Gt_Op | GtE | Other_Cmp string

datatype py_expr =
    Constant pyval
  | Name string
  | UnaryOp unary_op py_expr
  | BoolOp bool_op "py_expr list"
  | BinOp py_expr bin_op py_expr
  | Compare py_expr "(cmp_op \<times> py_expr) list"
  | Call py_expr "py_expr list" "(string \<times> py_expr) list"
  | Other_Node string "py_expr list"  \<comment> \<open>any other kind of node, with its children\<close>

datatype gate_error =
    Unsafe
  | Unknown_Identifier "string option"  \<comment> \<open>\<open>missing_binding_token\<close>\<close>
  | Unknown_State
  | Runtime exn  \<comment> \<open>an exception of the interpreter\<close>

type_synonym 'a gated = "gate_error + 'a"

definition gbind :: "'a gated \<Rightarrow> ('a \<Rightarrow> 'b gated) \<Rightarrow> 'b gated" where
  "gbind r f = (case r of Inl e \<Rightarrow> Inl e | Inr x \<Rightarrow> f x)"

lemma gbind_simps [simp]: "gbind (Inl e) f = Inl e" "gbind (Inr x) f = f x"
  by (simp_all add: gbind_def)

lemma gbind_cases: "(\<And>e. r = Inl e \<Longrightarrow> P (Inl e)) \<Longrightarrow> (\<And>x. r = Inr x \<Longrightarrow> P (f x)) \<Longrightarrow> P (gbind r f)"
  by (cases r) simp_all

subsection \<open>The whitelist\<close>

definition safe_functions :: "string list" where
  "safe_functions = [''abs'', ''min'', ''max'']"

definition is_name :: "py_expr \<Rightarrow> bool" where
  "is_name e \<longleftrightarrow> (case e of Name _ \<Rightarrow> True | _ \<Rightarrow> False)"

definition call_allowed :: "py_expr \<Rightarrow> py_expr list \<Rightarrow> (string \<times> py_expr) list \<Rightarrow> bool" where
  "call_allowed f args kws \<longleftrightarrow> (case f of
     Name g \<Rightarrow> g \<in> set (''P'' # safe_functions) \<and> kws = []
       \<and> (g = ''P'' \<longrightarrow> length args = 1 \<and> is_name (hd args))
   | _ \<Rightarrow> False)"

fun bin_allowed :: "bin_op \<Rightarrow> bool" where
  "bin_allowed Pow_Op = False"
| "bin_allowed (Other_Bin _) = False"
| "bin_allowed _ = True"

fun cmp_allowed :: "cmp_op \<Rightarrow> bool" where
  "cmp_allowed (Other_Cmp _) = False"
| "cmp_allowed _ = True"

fun allowed :: "py_expr \<Rightarrow> bool" where
  "allowed (Constant v) = True"
| "allowed (Name n) = True"
| "allowed (UnaryOp u e) \<longleftrightarrow> u \<noteq> Invert \<and> allowed e"
| "allowed (BoolOp b es) \<longleftrightarrow> (\<forall>e \<in> set es. allowed e)"
| "allowed (BinOp l b r) \<longleftrightarrow> bin_allowed b \<and> allowed l \<and> allowed r"
| "allowed (Compare l cs) \<longleftrightarrow> allowed l \<and> (\<forall>c \<in> set cs. cmp_allowed (fst c) \<and> allowed (snd c))"
| "allowed (Call f args kws) \<longleftrightarrow> call_allowed f args kws \<and> (\<forall>e \<in> set args. allowed e)"
| "allowed (Other_Node k es) = False"

definition validate :: "py_expr \<Rightarrow> unit gated" where
  "validate e = (if allowed e then Inr () else Inl Unsafe)"

text \<open>The capitalised connectives of the design documents become Python keywords before parsing.\<close>

definition is_space :: "char \<Rightarrow> bool" where
  "is_space c \<longleftrightarrow> (of_char c :: nat) \<in> {9, 10, 11, 12, 13, 28, 29, 30, 31, 32, 133, 160}"

definition strip :: "string \<Rightarrow> string" where
  "strip s = rev (dropWhile is_space (rev (dropWhile is_space s)))"

definition is_word :: "char \<Rightarrow> bool" where
  "is_word c \<longleftrightarrow>
     (let n = of_char c :: nat in 48 \<le> n \<and> n \<le> 57 \<or> 65 \<le> n \<and> n \<le> 90 \<or> n = 95 \<or> 97 \<le> n \<and> n \<le> 122)"

definition lower_connective :: "string \<Rightarrow> string" where
  "lower_connective w = (if w = ''AND'' then ''and'' else if w = ''OR'' then ''or'' else if w = ''NOT'' then ''not'' else w)"

fun normalize_words :: "string \<Rightarrow> string \<Rightarrow> string" where
  \<comment> \<open>the first argument is the word read so far\<close>
  "normalize_words w [] = lower_connective w"
| "normalize_words w (c # s) = (if is_word c then normalize_words (w @ [c]) s else lower_connective w @ c # normalize_words [] s)"

definition normalize_logical_keywords :: "string \<Rightarrow> string" where
  "normalize_logical_keywords s = normalize_words [] s"

definition compile_expression :: "(string \<Rightarrow> py_expr option) \<Rightarrow> string \<Rightarrow> py_expr gated" where
  \<comment> \<open>\<open>parse\<close> is \<open>ast.parse\<close> in mode \<open>eval\<close>, \<open>None\<close> a syntax error\<close>
  "compile_expression parse source =
     (let src = strip source in
      if src = '''' then Inl Unsafe
      else case parse (normalize_logical_keywords src) of
          None \<Rightarrow> Inl Unsafe
        | Some tree \<Rightarrow> gbind (validate tree) (\<lambda>_. Inr tree))"

subsection \<open>Dynamically typed values\<close>

fun truthy :: "pyval \<Rightarrow> bool" where
  "truthy PNone = False"
| "truthy (PBool b) = b"
| "truthy (PInt i) = (i \<noteq> 0)"
| "truthy (PFloat x) = (x \<noteq> 0)"
| "truthy (PStr s) = (s \<noteq> '''')"

datatype number = Int_Num int | Float_Num float64

fun number_of :: "pyval \<Rightarrow> number option" where
  "number_of (PBool b) = Some (Int_Num (if b then 1 else 0))"
| "number_of (PInt i) = Some (Int_Num i)"
| "number_of (PFloat x) = Some (Float_Num x)"
| "number_of _ = None"

fun num_value :: "number \<Rightarrow> rat" where
  "num_value (Int_Num i) = of_int i"
| "num_value (Float_Num x) = x"

fun num_float :: "number \<Rightarrow> float64" where
  "num_float (Int_Num i) = fl_round (of_int i)"
| "num_float (Float_Num x) = x"

definition type_error :: "'a gated" where
  "type_error = Inl (Runtime (TypeError ''unsupported operand''))"

definition trunc_rat :: "rat \<Rightarrow> int" where
  "trunc_rat x = (if 0 \<le> x then \<lfloor>x\<rfloor> else \<lceil>x\<rceil>)"

definition float_fmod :: "float64 \<Rightarrow> float64 \<Rightarrow> rat" where
  "float_fmod x y = x - y * of_int (trunc_rat (x / y))"

definition off_sign :: "rat \<Rightarrow> rat \<Rightarrow> bool" where
  "off_sign m y \<longleftrightarrow> m \<noteq> 0 \<and> (y < 0) \<noteq> (m < 0)"

definition float_mod :: "float64 \<Rightarrow> float64 \<Rightarrow> float64" where
  "float_mod x y = (let m = float_fmod x y in if off_sign m y then fl_add m y else m)"

definition float_floordiv :: "float64 \<Rightarrow> float64 \<Rightarrow> float64" where
  "float_floordiv x y =
     (let m = float_fmod x y; d0 = fl_div (fl_sub x m) y; d = (if off_sign m y then fl_sub d0 1 else d0); f = of_int \<lfloor>d\<rfloor>
      in if d = 0 then 0 else if 1 / 2 < d - f then f + 1 else f)"

fun arith :: "bin_op \<Rightarrow> number \<Rightarrow> number \<Rightarrow> pyval gated" where
  "arith Add_Op (Int_Num a) (Int_Num b) = Inr (PInt (a + b))"
| "arith Sub_Op (Int_Num a) (Int_Num b) = Inr (PInt (a - b))"
| "arith Mult_Op (Int_Num a) (Int_Num b) = Inr (PInt (a * b))"
| "arith Div_Op (Int_Num a) (Int_Num b) = (if b = 0 then Inl (Runtime ZeroDivision) else Inr (PFloat (fl_round (of_int a / of_int b))))"
| "arith Mod_Op (Int_Num a) (Int_Num b) = (if b = 0 then Inl (Runtime ZeroDivision) else Inr (PInt (a mod b)))"
| "arith FloorDiv (Int_Num a) (Int_Num b) = (if b = 0 then Inl (Runtime ZeroDivision) else Inr (PInt (a div b)))"
| "arith Add_Op m n = Inr (PFloat (fl_add (num_float m) (num_float n)))"
| "arith Sub_Op m n = Inr (PFloat (fl_sub (num_float m) (num_float n)))"
| "arith Mult_Op m n = Inr (PFloat (fl_mul (num_float m) (num_float n)))"
| "arith Div_Op m n = (if num_float n = 0 then Inl (Runtime ZeroDivision) else Inr (PFloat (fl_div (num_float m) (num_float n))))"
| "arith Mod_Op m n = (if num_float n = 0 then Inl (Runtime ZeroDivision) else Inr (PFloat (float_mod (num_float m) (num_float n))))"
| "arith FloorDiv m n = (if num_float n = 0 then Inl (Runtime ZeroDivision) else Inr (PFloat (float_floordiv (num_float m) (num_float n))))"
| "arith _ _ _ = Inl Unsafe"

definition repeat_string :: "string \<Rightarrow> int \<Rightarrow> pyval" where
  "repeat_string s n = PStr (concat (replicate (nat n) s))"

definition binary :: "bin_op \<Rightarrow> pyval \<Rightarrow> pyval \<Rightarrow> pyval gated" where
  "binary b v w =
     (if \<not> bin_allowed b then Inl Unsafe
      else case (number_of v, number_of w) of
        (Some m, Some n) \<Rightarrow> arith b m n
      | _ \<Rightarrow> (case (b, v, w) of
          (Add_Op, PStr s, PStr t) \<Rightarrow> Inr (PStr (s @ t))
        | (Mult_Op, PStr s, _) \<Rightarrow> (case number_of w of Some (Int_Num n) \<Rightarrow> Inr (repeat_string s n) | _ \<Rightarrow> type_error)
        | (Mult_Op, _, PStr s) \<Rightarrow> (case number_of v of Some (Int_Num n) \<Rightarrow> Inr (repeat_string s n) | _ \<Rightarrow> type_error)
        | (Mod_Op, PStr _, _) \<Rightarrow> Inl (Runtime (OtherException ''string formatting''))
        | _ \<Rightarrow> type_error))"

fun negated :: "number \<Rightarrow> pyval" where
  "negated (Int_Num i) = PInt (- i)"
| "negated (Float_Num x) = PFloat (- x)"

fun posited :: "number \<Rightarrow> pyval" where
  "posited (Int_Num i) = PInt i"
| "posited (Float_Num x) = PFloat x"

definition unary :: "unary_op \<Rightarrow> pyval \<Rightarrow> pyval gated" where
  "unary u v = (case u of
     Not_Op \<Rightarrow> Inr (PBool (\<not> truthy v))
   | Invert \<Rightarrow> Inl Unsafe
   | _ \<Rightarrow> (case number_of v of None \<Rightarrow> type_error | Some n \<Rightarrow> Inr (if u = USub then negated n else posited n)))"

definition py_equal :: "pyval \<Rightarrow> pyval \<Rightarrow> bool" where
  "py_equal v w = (case (number_of v, number_of w) of (Some m, Some n) \<Rightarrow> num_value m = num_value n | _ \<Rightarrow> v = w)"

definition py_less :: "pyval \<Rightarrow> pyval \<Rightarrow> bool gated" where
  "py_less v w = (case (number_of v, number_of w) of
     (Some m, Some n) \<Rightarrow> Inr (num_value m < num_value n)
   | _ \<Rightarrow> (case (v, w) of (PStr s, PStr t) \<Rightarrow> Inr (s < t) | _ \<Rightarrow> type_error))"

fun compare :: "cmp_op \<Rightarrow> pyval \<Rightarrow> pyval \<Rightarrow> bool gated" where
  "compare Eq_Op v w = Inr (py_equal v w)"
| "compare NotEq v w = Inr (\<not> py_equal v w)"
| "compare Lt_Op v w = py_less v w"
| "compare LtE v w = gbind (py_less v w) (\<lambda>b. Inr (b \<or> py_equal v w))"
| "compare Gt_Op v w = py_less w v"
| "compare GtE v w = gbind (py_less w v) (\<lambda>b. Inr (b \<or> py_equal v w))"
| "compare (Other_Cmp k) v w = Inl Unsafe"

definition py_abs :: "pyval list \<Rightarrow> pyval gated" where
  "py_abs vs = (case vs of
     [v] \<Rightarrow> (case number_of v of
         None \<Rightarrow> type_error | Some (Int_Num i) \<Rightarrow> Inr (PInt \<bar>i\<bar>) | Some (Float_Num x) \<Rightarrow> Inr (PFloat \<bar>x\<bar>))
   | _ \<Rightarrow> type_error)"

fun pick :: "(pyval \<Rightarrow> pyval \<Rightarrow> bool gated) \<Rightarrow> pyval \<Rightarrow> pyval list \<Rightarrow> pyval gated" where
  \<comment> \<open>the first of the best, as the interpreter's loop finds it\<close>
  "pick better v [] = Inr v"
| "pick better v (w # ws) = gbind (better w v) (\<lambda>b. pick better (if b then w else v) ws)"

definition extremum :: "(pyval \<Rightarrow> pyval \<Rightarrow> bool gated) \<Rightarrow> pyval list \<Rightarrow> pyval gated" where
  "extremum better vs = (case vs of
     [] \<Rightarrow> type_error
   | [PStr ''''] \<Rightarrow> Inl (Runtime (ValueError ''empty iterable''))
   | [PStr (c # s)] \<Rightarrow> pick better (PStr [c]) (map (\<lambda>d. PStr [d]) s)
   | [_] \<Rightarrow> type_error
   | v # ws \<Rightarrow> pick better v ws)"

definition apply_function :: "string \<Rightarrow> pyval list \<Rightarrow> pyval gated" where
  "apply_function f vs =
     (if f = ''abs'' then py_abs vs
      else if f = ''min'' then extremum py_less vs
      else if f = ''max'' then extremum (\<lambda>v w. py_less w v) vs
      else Inl Unsafe)"

subsection \<open>Bindings\<close>

record bindings =
  bd_regime :: "regime_state option"
  bd_sensors :: "string \<Rightarrow> float64 option"
  bd_percentiles :: "string \<Rightarrow> float64 option"
  bd_zscores :: "string \<Rightarrow> float64 option"
  bd_min_discriminability :: float64

definition regime_unusable :: "bindings \<Rightarrow> regime_state \<Rightarrow> bool" where
  "regime_unusable b r \<longleftrightarrow> \<not> rs_calibrated r
     \<or> (0 < bd_min_discriminability b \<and> (case rs_discriminability r of None \<Rightarrow> False | Some d \<Rightarrow> d < bd_min_discriminability b))"

definition from_regime :: "bindings \<Rightarrow> (regime_state \<Rightarrow> pyval) \<Rightarrow> pyval gated" where
  "from_regime b f = (case bd_regime b of
     None \<Rightarrow> Inl (Unknown_Identifier None)
   | Some r \<Rightarrow> if regime_unusable b r then Inl (Unknown_Identifier None) else Inr (f r))"

definition is_digit :: "char \<Rightarrow> bool" where
  "is_digit c \<longleftrightarrow> CHR ''0'' \<le> c \<and> c \<le> CHR ''9''"

definition digits_value :: "string \<Rightarrow> int" where
  "digits_value = foldl (\<lambda>n c. 10 * n + (of_char c - 48)) 0"

definition percentile_literal :: "string \<Rightarrow> int option" where
  "percentile_literal name = (case name of
     c # ds \<Rightarrow> if c = CHR ''p'' \<and> 1 \<le> length ds \<and> length ds \<le> 3 \<and> list_all is_digit ds then Some (digits_value ds) else None
   | [] \<Rightarrow> None)"

definition strip_suffix :: "string \<Rightarrow> string \<Rightarrow> string option" where
  "strip_suffix suffix name =
     (if length suffix \<le> length name \<and> drop (length name - length suffix) name = suffix
      then Some (take (length name - length suffix) name) else None)"

definition lookup :: "(string \<Rightarrow> float64 option) \<Rightarrow> string \<Rightarrow> string \<Rightarrow> pyval gated" where
  "lookup table key name = (case table key of None \<Rightarrow> Inl (Unknown_Identifier (Some name)) | Some x \<Rightarrow> Inr (PFloat x))"

definition resolve_name :: "string \<Rightarrow> bindings \<Rightarrow> pyval gated" where
  "resolve_name name b =
     (if name = ''dominant'' then from_regime b (\<lambda>r. PStr (rs_dominant_name r))
      else if name = ''entropy'' then from_regime b (\<lambda>r. PFloat (rs_entropy_nats r))
      else case percentile_literal name of
        Some n \<Rightarrow> if 0 \<le> n \<and> n \<le> 100 then Inr (PFloat (fl_div (of_int n) 100)) else Inl Unsafe
      | None \<Rightarrow> (case strip_suffix ''_percentile'' name of
          Some sensor \<Rightarrow> lookup (bd_percentiles b) sensor name
        | None \<Rightarrow> (case strip_suffix ''_zscore'' name of
            Some sensor \<Rightarrow> lookup (bd_zscores b) sensor name
          | None \<Rightarrow> lookup (bd_sensors b) name name)))"

fun index_of :: "'a \<Rightarrow> 'a list \<Rightarrow> nat option" where
  "index_of x [] = None"
| "index_of x (y # ys) = (if x = y then Some 0 else map_option Suc (index_of x ys))"

definition resolve_posterior :: "string \<Rightarrow> bindings \<Rightarrow> pyval gated" where
  "resolve_posterior state b = (case bd_regime b of
     None \<Rightarrow> Inl (Unknown_Identifier None)
   | Some r \<Rightarrow> (case index_of state (rs_state_names r) of
       None \<Rightarrow> Inl Unknown_State
     | Some i \<Rightarrow>
         if regime_unusable b r then Inl (Unknown_Identifier None)
         else if i < length (rs_posteriors r) then Inr (PFloat (rs_posteriors r ! i))
         else Inl (Runtime IndexError)))"

subsection \<open>Evaluation\<close>

fun eval_node :: "bindings \<Rightarrow> py_expr \<Rightarrow> pyval gated"
  and eval_and :: "bindings \<Rightarrow> py_expr list \<Rightarrow> pyval gated"
  and eval_or :: "bindings \<Rightarrow> py_expr list \<Rightarrow> pyval gated"
  and eval_chain :: "bindings \<Rightarrow> pyval \<Rightarrow> (cmp_op \<times> py_expr) list \<Rightarrow> pyval gated"
  and eval_args :: "bindings \<Rightarrow> py_expr list \<Rightarrow> pyval list gated" where
  "eval_node b (Constant v) = Inr v"
| "eval_node b (Name n) = resolve_name n b"
| "eval_node b (UnaryOp u e) = gbind (eval_node b e) (unary u)"
| "eval_node b (BoolOp bop es) = (if bop = And_Op then eval_and b es else eval_or b es)"
| "eval_node b (BinOp l bop r) = gbind (eval_node b l) (\<lambda>v. gbind (eval_node b r) (\<lambda>w. binary bop v w))"
| "eval_node b (Compare l cs) = gbind (eval_node b l) (\<lambda>v. eval_chain b v cs)"
| "eval_node b (Call f args kws) = (case f of
     Name g \<Rightarrow>
       if g = ''P'' then (case args of [Name s] \<Rightarrow> resolve_posterior s b | _ \<Rightarrow> Inl (Runtime (AssertionError ''P'')))
       else gbind (eval_args b args) (apply_function g)
   | _ \<Rightarrow> Inl (Runtime (AssertionError ''callee'')))"
| "eval_node b (Other_Node k es) = Inl Unsafe"
| "eval_and b [] = Inr (PBool True)"
| "eval_and b (e # es) = gbind (eval_node b e) (\<lambda>v. if truthy v then eval_and b es else Inr (PBool False))"
| "eval_or b [] = Inr (PBool False)"
| "eval_or b (e # es) = gbind (eval_node b e) (\<lambda>v. if truthy v then Inr (PBool True) else eval_or b es)"
| "eval_chain b v [] = Inr (PBool True)"
| "eval_chain b v ((cop, e) # cs) =
     gbind (eval_node b e) (\<lambda>w. gbind (compare cop v w) (\<lambda>t. if t then eval_chain b w cs else Inr (PBool False)))"
| "eval_args b [] = Inr []"
| "eval_args b (e # es) = gbind (eval_node b e) (\<lambda>v. gbind (eval_args b es) (\<lambda>vs. Inr (v # vs)))"


definition evaluate :: "py_expr \<Rightarrow> bindings \<Rightarrow> pyval gated" where
  "evaluate tree b = eval_node b tree"

subsection \<open>The latch\<close>

record regime_gate =
  gt_alpha :: string
  gt_on :: py_expr
  gt_off :: py_expr
  gt_state :: "symbol \<Rightarrow> bool option"
  gt_hysteresis :: "(string \<times> float64) list"
  gt_engine :: "string option"
  gt_params :: "string \<Rightarrow> float64 option"

definition new_gate ::
  "(string \<Rightarrow> py_expr option) \<Rightarrow> string \<Rightarrow> string \<Rightarrow> string \<Rightarrow> (string \<times> float64) list \<Rightarrow> string option \<Rightarrow> (string \<Rightarrow> float64 option)
    \<Rightarrow> regime_gate gated" where
  "new_gate parse alpha on off hysteresis engine params =
     gbind (compile_expression parse on) (\<lambda>on_tree. gbind (compile_expression parse off) (\<lambda>off_tree.
       Inr \<lparr>gt_alpha = alpha, gt_on = on_tree, gt_off = off_tree, gt_state = (\<lambda>_. None), gt_hysteresis = hysteresis,
         gt_engine = engine, gt_params = params\<rparr>))"

fun names_in :: "py_expr \<Rightarrow> string list" where
  \<comment> \<open>every \<open>Name\<close> of the walk, callees included\<close>
  "names_in (Constant v) = []"
| "names_in (Name n) = [n]"
| "names_in (UnaryOp u e) = names_in e"
| "names_in (BoolOp b es) = concat (map names_in es)"
| "names_in (BinOp l b r) = names_in l @ names_in r"
| "names_in (Compare l cs) = names_in l @ concat (map (\<lambda>c. names_in (snd c)) cs)"
| "names_in (Call f args kws) = names_in f @ concat (map names_in args) @ concat (map (\<lambda>c. names_in (snd c)) kws)"
| "names_in (Other_Node k es) = concat (map names_in es)"

fun calls_in :: "py_expr \<Rightarrow> (py_expr \<times> py_expr list) list" where
  "calls_in (Constant v) = []"
| "calls_in (Name n) = []"
| "calls_in (UnaryOp u e) = calls_in e"
| "calls_in (BoolOp b es) = concat (map calls_in es)"
| "calls_in (BinOp l b r) = calls_in l @ calls_in r"
| "calls_in (Compare l cs) = calls_in l @ concat (map (\<lambda>c. calls_in (snd c)) cs)"
| "calls_in (Call f args kws) = (f, args) # calls_in f @ concat (map calls_in args) @ concat (map (\<lambda>c. calls_in (snd c)) kws)"
| "calls_in (Other_Node k es) = concat (map calls_in es)"

definition posterior_argument :: "py_expr \<times> py_expr list \<Rightarrow> string list" where
  "posterior_argument c = (case c of (Name g, [Name s]) \<Rightarrow> if g = ''P'' then [s] else [] | _ \<Rightarrow> [])"

definition posterior_names :: "py_expr \<Rightarrow> string list" where
  "posterior_names e = concat (map posterior_argument (calls_in e))"

definition referenced_posterior_states :: "regime_gate \<Rightarrow> string list" where
  "referenced_posterior_states g = posterior_names (gt_on g) @ posterior_names (gt_off g)"

definition binding_identifier_names :: "regime_gate \<Rightarrow> string list" where
  "binding_identifier_names g = filter (\<lambda>n. n \<notin> set (referenced_posterior_states g) \<and> n \<noteq> ''dominant'' \<and> n \<noteq> ''entropy''
       \<and> n \<notin> fst ` set (gt_hysteresis g) \<and> gt_params g n = None \<and> percentile_literal n = None
       \<and> n \<notin> set (''P'' # safe_functions))
     (names_in (gt_on g) @ names_in (gt_off g))"

definition is_on :: "regime_gate \<Rightarrow> symbol \<Rightarrow> bool" where
  "is_on g sy = (case gt_state g sy of None \<Rightarrow> False | Some b \<Rightarrow> b)"

definition reset_gate :: "symbol option \<Rightarrow> regime_gate \<Rightarrow> regime_gate" where
  "reset_gate sy g = g\<lparr>gt_state := (case sy of None \<Rightarrow> (\<lambda>_. None) | Some s \<Rightarrow> (gt_state g)(s := None))\<rparr>"

definition gate_bindings :: "regime_gate \<Rightarrow> bindings \<Rightarrow> bindings" where
  \<comment> \<open>parameters, then sensors, then hysteresis margins; the last one wins\<close>
  "gate_bindings g b = b\<lparr>bd_sensors := gt_params g ++ bd_sensors b ++ map_of (gt_hysteresis g)\<rparr>"

definition condition_holds :: "py_expr \<Rightarrow> bindings \<Rightarrow> bool gated" where
  "condition_holds tree b = gbind (evaluate tree b) (\<lambda>v. Inr (truthy v))"

definition evaluate_gate :: "symbol \<Rightarrow> bindings \<Rightarrow> bool \<Rightarrow> regime_gate \<Rightarrow> bool gated \<times> regime_gate" where
  "evaluate_gate sy b mutate g =
     (let b' = gate_bindings g b in
      if is_on g sy
      then (case condition_holds (gt_off g) b' of
          Inl e \<Rightarrow> (Inl e, g)
        | Inr True \<Rightarrow> (Inr False, if mutate then g\<lparr>gt_state := (gt_state g)(sy \<mapsto> False)\<rparr> else g)
        | Inr False \<Rightarrow> (Inr True, g))
      else (case condition_holds (gt_on g) b' of
          Inl e \<Rightarrow> (Inl e, g)
        | Inr True \<Rightarrow> (Inr True, if mutate then g\<lparr>gt_state := (gt_state g)(sy \<mapsto> True)\<rparr> else g)
        | Inr False \<Rightarrow> (Inr False, g)))"

subsection \<open>Building a gate\<close>

datatype yaml_param = Plain pyval | Spec "pyval option"  \<comment> \<open>a value, or a block with its \<open>default\<close>\<close>

definition gate_param :: "yaml_param \<Rightarrow> float64 option" where
  "gate_param p = (case p of
     Spec None \<Rightarrow> None
   | Spec (Some v) \<Rightarrow> (case v of PInt i \<Rightarrow> Some (fl_round (of_int i)) | PFloat x \<Rightarrow> Some x | _ \<Rightarrow> None)
   | Plain v \<Rightarrow> (case v of PInt i \<Rightarrow> Some (fl_round (of_int i)) | PFloat x \<Rightarrow> Some x | _ \<Rightarrow> None))"

definition numeric_gate_params :: "(string \<times> yaml_param) list \<Rightarrow> (string \<times> float64) list" where
  "numeric_gate_params ps = concat (map (\<lambda>(n, p). case gate_param p of None \<Rightarrow> [] | Some x \<Rightarrow> [(n, x)]) ps)"

definition non_empty_string :: "pyval option \<Rightarrow> string gated" where
  "non_empty_string v = (case v of Some (PStr s) \<Rightarrow> if strip s = '''' then Inl (Runtime (OtherException ''RegimeGateError'')) else Inr s
     | _ \<Rightarrow> Inl (Runtime (OtherException ''RegimeGateError'')))"

definition from_spec ::
  "(string \<Rightarrow> py_expr option) \<Rightarrow> string \<Rightarrow> pyval option \<Rightarrow> pyval option \<Rightarrow> (string \<times> float64) list \<Rightarrow> string option
    \<Rightarrow> (string \<Rightarrow> float64 option) \<Rightarrow> bool \<Rightarrow> regime_gate gated" where
  \<comment> \<open>the block is given by its fields, the margins already converted to floats\<close>
  "from_spec parse alpha on off hysteresis engine params strict =
     gbind (non_empty_string on) (\<lambda>on. gbind (non_empty_string off) (\<lambda>off.
     gbind (new_gate parse alpha on off hysteresis engine params) (\<lambda>g.
       if strict \<and> (\<exists>m \<in> fst ` set hysteresis. m \<notin> set (names_in (gt_on g) @ names_in (gt_off g)))
       then Inl (Runtime (OtherException ''RegimeGateError'')) else Inr g)))"

subsection \<open>The faults an evaluation may show\<close>

definition confined :: "gate_error set \<Rightarrow> 'a gated \<Rightarrow> bool" where
  "confined F r \<longleftrightarrow> (case r of Inl e \<Rightarrow> e \<in> F | Inr _ \<Rightarrow> True)"

lemma confined_simps [simp]: "confined F (Inr x)" "confined F (Inl e) \<longleftrightarrow> e \<in> F"
  by (simp_all add: confined_def)

lemma confined_bind: "confined F r \<Longrightarrow> (\<And>x. r = Inr x \<Longrightarrow> confined F (f x)) \<Longrightarrow> confined F (gbind r f)"
  by (cases r) simp_all

lemma confined_if: "(b \<Longrightarrow> confined F r) \<Longrightarrow> (\<not> b \<Longrightarrow> confined F q) \<Longrightarrow> confined F (if b then r else q)"
  by simp

abbreviation past_screen :: "gate_error set" where
  "past_screen \<equiv> - {Unsafe}"

lemma type_error_safe [simp]: "confined past_screen type_error"
  by (simp add: type_error_def)

lemma arith_safe: "bin_allowed b \<Longrightarrow> confined past_screen (arith b m n)"
  by (cases b; cases m; cases n) simp_all

lemma binary_safe: "bin_allowed b \<Longrightarrow> confined past_screen (binary b v w)"
  by (auto simp: binary_def arith_safe split: option.split bin_op.split pyval.split number.split)

lemma unary_safe: "u \<noteq> Invert \<Longrightarrow> confined past_screen (unary u v)"
  by (auto simp: unary_def split: unary_op.split option.split)

lemma less_safe: "confined past_screen (py_less v w)"
  by (auto simp: py_less_def split: option.split pyval.split)

lemma compare_safe: "cmp_allowed c \<Longrightarrow> confined past_screen (compare c v w)"
  by (cases c) (auto intro: confined_bind less_safe)

lemma pick_safe: "(\<And>v w. confined F (better v w)) \<Longrightarrow> confined F (pick better v ws)"
  by (induction ws arbitrary: v) (auto intro: confined_bind)

lemma extremum_safe: "(\<And>v w. confined past_screen (better v w)) \<Longrightarrow> confined past_screen (extremum better vs)"
  using pick_safe[of past_screen better] by (auto simp: extremum_def simp del: pick.simps split: list.split pyval.split)

lemma apply_safe: "f \<in> set safe_functions \<Longrightarrow> confined past_screen (apply_function f vs)"
  by (auto simp: apply_function_def safe_functions_def py_abs_def extremum_safe less_safe
      split: list.split option.split number.split)

lemma posterior_safe: "confined past_screen (resolve_posterior s b)"
  by (simp add: resolve_posterior_def split: option.split)

text \<open>The one name that the screen lets through and the evaluator refuses.\<close>

definition literal_ok :: "string \<Rightarrow> bool" where
  "literal_ok n \<longleftrightarrow> (case percentile_literal n of None \<Rightarrow> True | Some i \<Rightarrow> i \<le> 100)"

lemma digit_code: "is_digit c \<Longrightarrow> (48 :: int) \<le> of_char c"
proof -
  assume "is_digit c"
  then have "(48 :: nat) \<le> of_char c" by (simp add: is_digit_def less_eq_char_def del: less_eq_char_simp)
  then have "int 48 \<le> int (of_char c)" by (simp only: of_nat_le_iff)
  then show ?thesis by (simp add: of_nat_of_char)
qed

lemma digits_nonneg: "list_all is_digit ds \<Longrightarrow> 0 \<le> n \<Longrightarrow> 0 \<le> foldl (\<lambda>n c. 10 * n + (of_char c - 48)) n ds" for n :: int
proof (induction ds arbitrary: n)
  case (Cons c ds)
  then have "48 \<le> (of_char c :: int)" using digit_code[of c] by (simp del: less_eq_char_simp)
  with Cons show ?case by simp
qed simp

lemma literal_nonneg: "percentile_literal n = Some i \<Longrightarrow> 0 \<le> i"
  by (auto simp: percentile_literal_def digits_value_def digits_nonneg split: list.splits if_splits)

lemma resolve_safe: "literal_ok n \<Longrightarrow> confined past_screen (resolve_name n b)"
  using literal_nonneg[of n]
  by (auto simp: resolve_name_def literal_ok_def from_regime_def lookup_def split: option.split)

lemma screened:
  "allowed e \<Longrightarrow> (\<forall>n \<in> set (names_in e). literal_ok n) \<Longrightarrow> confined past_screen (eval_node b e)"
  "\<forall>e \<in> set es. allowed e \<Longrightarrow> (\<forall>e \<in> set es. \<forall>n \<in> set (names_in e). literal_ok n) \<Longrightarrow> confined past_screen (eval_and b es)"
  "\<forall>e \<in> set es. allowed e \<Longrightarrow> (\<forall>e \<in> set es. \<forall>n \<in> set (names_in e). literal_ok n) \<Longrightarrow> confined past_screen (eval_or b es)"
  "\<forall>c \<in> set cs. cmp_allowed (fst c) \<and> allowed (snd c) \<Longrightarrow> (\<forall>c \<in> set cs. \<forall>n \<in> set (names_in (snd c)). literal_ok n)
    \<Longrightarrow> confined past_screen (eval_chain b v cs)"
  "\<forall>e \<in> set es. allowed e \<Longrightarrow> (\<forall>e \<in> set es. \<forall>n \<in> set (names_in e). literal_ok n) \<Longrightarrow> confined past_screen (eval_args b es)"
proof (induction b e and b es and b es and b v cs and b es rule: eval_node_eval_and_eval_or_eval_chain_eval_args.induct)
  case (7 b f args kws)
  then obtain g where g: "f = Name g" "g \<in> set (''P'' # safe_functions)" "g = ''P'' \<Longrightarrow> \<exists>s. args = [Name s]"
    by (cases f) (auto simp: call_allowed_def is_name_def length_Suc_conv split: py_expr.splits)
  show ?case
  proof (cases "g = ''P''")
    case True
    then show ?thesis using g by (auto simp: posterior_safe)
  next
    case False
    have "confined past_screen (eval_args b args)" using 7 g(1) False by auto
    then show ?thesis using g False by (auto intro!: confined_bind apply_safe)
  qed
qed (auto intro!: confined_bind simp: resolve_safe unary_safe binary_safe compare_safe)

subsection \<open>Types\<close>

datatype gate_type = Num_T | Str_T

fun value_type :: "pyval \<Rightarrow> gate_type option" where
  "value_type PNone = None"
| "value_type (PStr s) = Some Str_T"
| "value_type _ = Some Num_T"

definition name_type :: "string \<Rightarrow> gate_type" where
  "name_type n = (if n = ''dominant'' then Str_T else Num_T)"

inductive has_type :: "py_expr \<Rightarrow> gate_type \<Rightarrow> bool" where
  T_Constant: "value_type v = Some t \<Longrightarrow> has_type (Constant v) t"
| T_Name: "has_type (Name n) (name_type n)"
| T_Not: "has_type e t \<Longrightarrow> has_type (UnaryOp Not_Op e) Num_T"
| T_Sign: "u = USub \<or> u = UAdd \<Longrightarrow> has_type e Num_T \<Longrightarrow> has_type (UnaryOp u e) Num_T"
| T_Bool: "(\<And>e. e \<in> set es \<Longrightarrow> \<exists>t. has_type e t) \<Longrightarrow> has_type (BoolOp b es) Num_T"
| T_Bin: "bin_allowed b \<Longrightarrow> has_type l Num_T \<Longrightarrow> has_type r Num_T \<Longrightarrow> has_type (BinOp l b r) Num_T"
| T_Compare: "has_type l t \<Longrightarrow> (\<And>c. c \<in> set cs \<Longrightarrow> cmp_allowed (fst c) \<and> has_type (snd c) t) \<Longrightarrow> has_type (Compare l cs) Num_T"
| T_Posterior: "has_type (Call (Name ''P'') [Name s] []) Num_T"
| T_Abs: "has_type e Num_T \<Longrightarrow> has_type (Call (Name ''abs'') [e] []) Num_T"
| T_Pick: "f = ''min'' \<or> f = ''max'' \<Longrightarrow> 2 \<le> length es \<Longrightarrow> (\<And>e. e \<in> set es \<Longrightarrow> has_type e Num_T)
    \<Longrightarrow> has_type (Call (Name f) es []) Num_T"

definition gives :: "gate_error set \<Rightarrow> gate_type \<Rightarrow> pyval gated \<Rightarrow> bool" where
  "gives F t r \<longleftrightarrow> (case r of Inl e \<Rightarrow> e \<in> F | Inr v \<Rightarrow> value_type v = Some t)"

lemma gives_simps [simp]: "gives F t (Inl e) \<longleftrightarrow> e \<in> F" "gives F t (Inr v) \<longleftrightarrow> value_type v = Some t"
  by (simp_all add: gives_def)

lemma gives_bind: "gives F s r \<Longrightarrow> (\<And>v. value_type v = Some s \<Longrightarrow> gives F t (f v)) \<Longrightarrow> gives F t (gbind r f)"
  by (cases r) simp_all

lemma type_number: "value_type v = Some Num_T \<longleftrightarrow> (\<exists>n. number_of v = Some n)"
  by (cases v) auto

lemma type_string: "value_type v = Some Str_T \<longleftrightarrow> (\<exists>s. v = PStr s)"
  by (cases v) auto

fun divides :: "bin_op \<Rightarrow> bool" where
  "divides Div_Op = True"
| "divides Mod_Op = True"
| "divides FloorDiv = True"
| "divides _ = False"

lemma arith_gives: "bin_allowed b \<Longrightarrow> divides b \<Longrightarrow> Runtime ZeroDivision \<in> F \<Longrightarrow> gives F Num_T (arith b m n)"
  "bin_allowed b \<Longrightarrow> \<not> divides b \<Longrightarrow> gives F Num_T (arith b m n)"
  by (cases b; cases m; cases n; simp)+

lemma binary_gives:
  assumes "bin_allowed b" "divides b \<Longrightarrow> Runtime ZeroDivision \<in> F" "value_type v = Some Num_T" "value_type w = Some Num_T"
  shows "gives F Num_T (binary b v w)"
proof -
  obtain m n where "number_of v = Some m" "number_of w = Some n" using assms(3,4) by (auto simp: type_number)
  then show ?thesis using assms(1,2) arith_gives[of b F m n] by (cases "divides b") (auto simp: binary_def)
qed

lemma less_gives: "value_type v = Some t \<Longrightarrow> value_type w = Some t \<Longrightarrow> \<exists>b. py_less v w = Inr b"
  by (cases t) (auto simp: py_less_def type_number type_string)

lemma compare_gives: "cmp_allowed c \<Longrightarrow> value_type v = Some t \<Longrightarrow> value_type w = Some t \<Longrightarrow> \<exists>b. compare c v w = Inr b"
  using less_gives[of v t w] less_gives[of w t v] by (cases c) auto

lemma pick_gives:
  "(\<And>v w. value_type v = Some t \<Longrightarrow> value_type w = Some t \<Longrightarrow> \<exists>b. better v w = Inr b) \<Longrightarrow> value_type v = Some t
    \<Longrightarrow> \<forall>w \<in> set ws. value_type w = Some t \<Longrightarrow> gives F t (pick better v ws)"
proof (induction ws arbitrary: v)
  case (Cons w ws)
  obtain b where "better w v = Inr b" using Cons.prems by fastforce
  then show ?case using Cons by auto
qed simp

lemma extremum_gives:
  assumes better: "\<And>v w. value_type v = Some Num_T \<Longrightarrow> value_type w = Some Num_T \<Longrightarrow> \<exists>b. better v w = Inr b"
    and "2 \<le> length vs" "\<forall>v \<in> set vs. value_type v = Some Num_T"
  shows "gives F Num_T (extremum better vs)"
proof -
  obtain v w ws where vs: "vs = v # w # ws" using assms(2) by (cases vs; cases "tl vs") auto
  have "extremum better vs = pick better v (w # ws)"
    using assms(3) by (simp add: vs extremum_def del: pick.simps split: pyval.split list.split)
  then show ?thesis using pick_gives[of Num_T better v "w # ws" F] better assms(3) by (simp add: vs del: pick.simps)
qed

subsection \<open>Well-typed conditions only fail to find a value\<close>

fun value_names :: "py_expr \<Rightarrow> string list" where
  \<comment> \<open>the names that are looked up as values\<close>
  "value_names (Constant v) = []"
| "value_names (Name n) = [n]"
| "value_names (UnaryOp u e) = value_names e"
| "value_names (BoolOp b es) = concat (map value_names es)"
| "value_names (BinOp l b r) = value_names l @ value_names r"
| "value_names (Compare l cs) = value_names l @ concat (map (\<lambda>c. value_names (snd c)) cs)"
| "value_names (Call f args kws) = (if f = Name ''P'' then [] else concat (map value_names args))"
| "value_names (Other_Node k es) = []"

fun divides_in :: "py_expr \<Rightarrow> bool" where
  "divides_in (UnaryOp u e) = divides_in e"
| "divides_in (BoolOp b es) = (\<exists>e \<in> set es. divides_in e)"
| "divides_in (BinOp l b r) = (divides b \<or> divides_in l \<or> divides_in r)"
| "divides_in (Compare l cs) = (divides_in l \<or> (\<exists>c \<in> set cs. divides_in (snd c)))"
| "divides_in (Call f args kws) = (\<exists>e \<in> set args. divides_in e)"
| "divides_in _ = False"

definition covers :: "gate_error set \<Rightarrow> bindings \<Rightarrow> py_expr \<Rightarrow> bool" where
  \<comment> \<open>the faults of \<open>F\<close> are all that looking up and dividing can show\<close>
  "covers F b e \<longleftrightarrow> (\<forall>n \<in> set (value_names e). confined F (resolve_name n b))
     \<and> (\<forall>s \<in> set (posterior_names e). confined F (resolve_posterior s b)) \<and> (divides_in e \<longrightarrow> Runtime ZeroDivision \<in> F)"

lemma resolve_type: "resolve_name n b = Inr v \<Longrightarrow> value_type v = Some (name_type n)"
  by (auto simp: resolve_name_def name_type_def from_regime_def lookup_def split: option.splits if_splits)

lemma posterior_type: "resolve_posterior s b = Inr v \<Longrightarrow> value_type v = Some Num_T"
  by (auto simp: resolve_posterior_def split: option.splits if_splits)

lemma args_give:
  "(\<And>e. e \<in> set es \<Longrightarrow> gives F Num_T (eval_node b e)) \<Longrightarrow>
   (case eval_args b es of Inl x \<Rightarrow> x \<in> F | Inr vs \<Rightarrow> length vs = length es \<and> (\<forall>v \<in> set vs. value_type v = Some Num_T))"
proof (induction es)
  case (Cons e es)
  have e: "gives F Num_T (eval_node b e)" using Cons.prems by simp
  show ?case using Cons.IH Cons.prems e
    by (cases "eval_node b e"; cases "eval_args b es") auto
qed simp

lemma chain_gives:
  "(\<And>c. c \<in> set cs \<Longrightarrow> cmp_allowed (fst c) \<and> gives F t (eval_node b (snd c))) \<Longrightarrow> value_type v = Some t
    \<Longrightarrow> gives F Num_T (eval_chain b v cs)"
proof (induction cs arbitrary: v)
  case (Cons c cs)
  obtain k e where c: "c = (k, e)" by (cases c)
  have e: "cmp_allowed k" "gives F t (eval_node b e)" using Cons.prems(1)[of c] by (simp_all add: c)
  have rest: "value_type w = Some t \<Longrightarrow> gives F Num_T (eval_chain b w cs)" for w using Cons by simp
  show ?case unfolding c eval_chain.simps
  proof (rule gives_bind[OF e(2)])
    fix w
    assume w: "value_type w = Some t"
    obtain d where "compare k v w = Inr d" using compare_gives[OF e(1) Cons.prems(2) w] by blast
    then show "gives F Num_T (gbind (compare k v w) (\<lambda>t. if t then eval_chain b w cs else Inr (PBool False)))"
      using rest[OF w] by simp
  qed
qed simp

lemma junctions_give:
  "(\<And>e. e \<in> set es \<Longrightarrow> \<exists>t. gives F t (eval_node b e)) \<Longrightarrow> gives F Num_T (eval_and b es) \<and> gives F Num_T (eval_or b es)"
proof (induction es)
  case (Cons e es)
  obtain t where "gives F t (eval_node b e)" using Cons.prems[of e] by auto
  moreover have "gives F Num_T (eval_and b es) \<and> gives F Num_T (eval_or b es)" using Cons by simp
  ultimately show ?case by (cases "eval_node b e") simp_all
qed simp

lemma concat_map_concat: "concat (map f (concat (map g xs))) = concat (map (\<lambda>x. concat (map f (g x))) xs)"
  by (induction xs) simp_all

lemma posterior_names_simps [simp]:
  "posterior_names (Constant v) = []" "posterior_names (Name n) = []"
  "posterior_names (UnaryOp u e) = posterior_names e"
  "posterior_names (BoolOp bop es) = concat (map posterior_names es)"
  "posterior_names (BinOp l aop r) = posterior_names l @ posterior_names r"
  "posterior_names (Compare l cs) = posterior_names l @ concat (map (\<lambda>c. posterior_names (snd c)) cs)"
  by (simp_all add: posterior_names_def[abs_def] concat_map_concat)

lemma posterior_names_call:
  "set (posterior_names (Call (Name f) args [])) \<supseteq> (\<Union>e \<in> set args. set (posterior_names e))"
  "posterior_names (Call (Name ''P'') [Name s] []) = [s]"
  by (auto simp: posterior_names_def posterior_argument_def)

lemma signed_number [simp]: "\<exists>m. number_of (negated n) = Some m" "\<exists>m. number_of (posited n) = Some m"
  by (cases n; simp)+

lemma typed_gives: "has_type e t \<Longrightarrow> covers F b e \<Longrightarrow> gives F t (eval_node b e)"
proof (induction rule: has_type.induct)
  case (T_Name n)
  then show ?case by (cases "resolve_name n b") (auto simp: covers_def resolve_type)
next
  case (T_Not e t)
  then have "gives F t (eval_node b e)" by (simp add: covers_def)
  then show ?case by (cases "eval_node b e") (simp_all add: unary_def)
next
  case (T_Sign u e)
  then have "gives F Num_T (eval_node b e)" by (simp add: covers_def)
  then show ?case using T_Sign.hyps
    by (cases "eval_node b e") (auto simp: unary_def type_number split: number.split)
next
  case (T_Bool es bop)
  then have "\<And>e. e \<in> set es \<Longrightarrow> \<exists>t. gives F t (eval_node b e)" by (fastforce simp: covers_def)
  from junctions_give[OF this] show ?case by simp
next
  case (T_Bin bop l r)
  then have l: "gives F Num_T (eval_node b l)" and r: "gives F Num_T (eval_node b r)" and z: "divides bop \<Longrightarrow> Runtime ZeroDivision \<in> F"
    by (auto simp: covers_def)
  show ?case unfolding eval_node.simps
    by (intro gives_bind[OF l] gives_bind[OF r] binary_gives T_Bin.hyps z)
next
  case (T_Compare l t cs)
  then have l: "gives F t (eval_node b l)" by (simp add: covers_def)
  have cs: "\<And>c. c \<in> set cs \<Longrightarrow> cmp_allowed (fst c) \<and> gives F t (eval_node b (snd c))"
    using T_Compare by (fastforce simp: covers_def)
  show ?case unfolding eval_node.simps by (rule gives_bind[OF l]) (rule chain_gives[OF cs])
next
  case (T_Posterior s)
  then have "confined F (resolve_posterior s b)" by (simp add: covers_def posterior_names_call)
  then show ?case by (cases "resolve_posterior s b") (auto simp: posterior_type)
next
  case (T_Abs e)
  have "covers F b e" using T_Abs.prems posterior_names_call(1)[of "[e]" "''abs''"] by (auto simp: covers_def)
  then have "gives F Num_T (eval_node b e)" by (rule T_Abs.IH)
  then show ?case
    by (cases "eval_node b e") (auto simp: apply_function_def py_abs_def type_number split: number.split)
next
  case (T_Pick f es)
  have "covers F b e" if "e \<in> set es" for e
    using T_Pick.prems that posterior_names_call(1)[of es f] T_Pick.hyps(1) by (auto simp: covers_def)
  then have "\<And>e. e \<in> set es \<Longrightarrow> gives F Num_T (eval_node b e)" using T_Pick.IH by blast
  then have "case eval_args b es of Inl x \<Rightarrow> x \<in> F | Inr vs \<Rightarrow> length vs = length es \<and> (\<forall>v \<in> set vs. value_type v = Some Num_T)"
    by (rule args_give)
  then show ?case
    using T_Pick.hyps(1,2) by (cases "eval_args b es") (auto simp: apply_function_def extremum_gives less_gives)
qed simp

text \<open>The faults of looking up a value and of dividing.\<close>

definition lookup_faults :: "gate_error set" where
  "lookup_faults = {Unsafe, Unknown_State, Runtime ZeroDivision, Runtime IndexError} \<union> range Unknown_Identifier"

lemma lookup_covers: "covers lookup_faults b e"
  by (auto simp: covers_def lookup_faults_def resolve_name_def resolve_posterior_def from_regime_def lookup_def split: option.split)

subsection \<open>Properties\<close>

text \<open>What the screen accepts, the evaluator can run. A compiled expression whose percentile
  literals are at most p100 never reaches a node, an operator or a function that the evaluator
  refuses, on any bindings.\<close>

theorem gate_screen_sound:
  assumes "compile_expression parse source = Inr tree" and "\<forall>n \<in> set (names_in tree). literal_ok n"
  shows "evaluate tree b \<noteq> Inl Unsafe"
proof -
  have "allowed tree" using assms(1)
    by (auto simp: compile_expression_def validate_def Let_def split: if_splits option.splits)
  from screened(1)[OF this assms(2), of b] show ?thesis by (cases "evaluate tree b") (auto simp: evaluate_def)
qed

text \<open>The example of the module's documentation: \<open>P(benign) > 0.5 AND vpin < p40\<close>.\<close>

definition sample_condition :: py_expr where
  "sample_condition = BoolOp And_Op [Compare (Call (Name ''P'') [Name ''benign''] []) [(Gt_Op, Constant (PFloat (1/2)))],
     Compare (Name ''vpin'') [(Lt_Op, Name ''p40'')]]"

lemma gate_screen_sound_witness:
  "compile_expression (\<lambda>_. Some sample_condition) ''x'' = Inr sample_condition
    \<and> (\<forall>b. evaluate sample_condition b \<noteq> Inl Unsafe)"
proof -
  have c: "compile_expression (\<lambda>_. Some sample_condition) ''x'' = Inr sample_condition" by code_simp
  have "\<forall>n \<in> set (names_in sample_condition). literal_ok n" by code_simp
  from gate_screen_sound[OF c this] c show ?thesis by blast
qed

text \<open>C19: Well-typed conditions do not go wrong. Where comparisons relate values of one type and arithmetic
  is on numbers, evaluation never raises a type or value error: it yields a value of the expected
  type, fails to find a name or a state, or divides by zero; and if every name and state it mentions
  resolves and it does not divide, it yields a value.\<close>

theorem gate_types_sound:
  assumes "has_type e t"
  shows "gives lookup_faults t (evaluate e b) \<and> (covers {} b e \<longrightarrow> (\<exists>v. evaluate e b = Inr v \<and> value_type v = Some t))"
proof -
  have "gives {} t (evaluate e b)" if "covers {} b e" using typed_gives[OF assms that] by (simp add: evaluate_def)
  then have "\<exists>v. evaluate e b = Inr v \<and> value_type v = Some t" if "covers {} b e"
    using that by (cases "evaluate e b") auto
  then show ?thesis using typed_gives[OF assms lookup_covers] by (simp add: evaluate_def)
qed

lemma sample_typed: "has_type sample_condition Num_T"
  unfolding sample_condition_def
  by (intro T_Bool) (auto intro!: exI[of _ Num_T] T_Compare[where t = Num_T] T_Posterior T_Constant
    T_Name[of "''vpin''", unfolded name_type_def, simplified] T_Name[of "''p40''", unfolded name_type_def, simplified])

lemma gate_types_sound_witness: "\<forall>b. gives lookup_faults Num_T (evaluate sample_condition b)"
  using gate_types_sound[OF sample_typed] by blast

text \<open>The latch has hysteresis and fails safe. Evaluating a gate reads the off condition when it is on and
  the on condition when it is off; the latch flips exactly when that condition holds, the answer
  is the state it then has, a failing condition leaves it as it was, no other symbol is touched,
  and an evaluation without mutation answers the same and changes nothing.\<close>

theorem gate_latch:
  shows "case evaluate_gate sy b True g of (r, g') \<Rightarrow>
     let condition = condition_holds (if is_on g sy then gt_off g else gt_on g) (gate_bindings g b) in
     evaluate_gate sy b False g = (r, g)
     \<and> (\<forall>s. s \<noteq> sy \<longrightarrow> is_on g' s = is_on g s) \<and> gt_on g' = gt_on g \<and> gt_off g' = gt_off g
     \<and> (case condition of Inl e \<Rightarrow> r = Inl e \<and> g' = g
        | Inr flips \<Rightarrow> r = Inr (is_on g sy \<noteq> flips) \<and> is_on g' sy = (is_on g sy \<noteq> flips))"
proof -
  have latched: "is_on (g\<lparr>gt_state := (gt_state g)(sy \<mapsto> x)\<rparr>) s = (if s = sy then x else is_on g s)" for x s
    by (simp add: is_on_def)
  show ?thesis
  proof (cases "is_on g sy")
    case True
    then show ?thesis
      by (cases "condition_holds (gt_off g) (gate_bindings g b)") (simp_all add: evaluate_gate_def Let_def latched split: bool.split)
  next
    case False
    then show ?thesis
      by (cases "condition_holds (gt_on g) (gate_bindings g b)") (simp_all add: evaluate_gate_def Let_def latched split: bool.split)
  qed
qed

end
