(* ===== verification/Event_Bus.thy ===== *)
theory Event_Bus
  imports Prelude
begin

section \<open>The event bus (bus/event_bus.py)\<close>

text \<open>
  Synchronous dispatch: the handlers of an event's type in registration order, then the global
  handlers; the first exception stops the dispatch and propagates; a publish nested deeper than
  the bound is refused. A handler is a program that acts on the platform's state, publishes
  events, observing whether a nested publish raised, and returns or raises. Nested publishes are
  what may run away, so the model counts its recursion with fuel, and the theorems show that
  the depth guard bounds it.
\<close>

subsection \<open>Handlers and the bus\<close>

datatype ('s, 'e) program =
    Return
  | Throw exn
  | Act "'s \<Rightarrow> 's \<times> ('s, 'e) program"  \<comment> \<open>read and change the state, then go on\<close>
  | Publish 'e "exn option \<Rightarrow> ('s, 'e) program"  \<comment> \<open>go on with what the publish raised\<close>

type_synonym ('s, 'e) handler = "'e \<Rightarrow> ('s, 'e) program"

record ('s, 'e) event_bus =
  eb_handlers :: "(string \<times> ('s, 'e) handler list) list"
  eb_global :: "('s, 'e) handler list"

record 's dispatch_state =
  ds_depth :: nat
  ds_platform :: 's

definition max_cascade_depth :: nat where
  "max_cascade_depth = 16"

definition new_bus :: "('s, 'e) event_bus" where
  "new_bus = \<lparr>eb_handlers = [], eb_global = []\<rparr>"

definition handlers_of :: "('s, 'e) event_bus \<Rightarrow> string \<Rightarrow> ('s, 'e) handler list" where
  "handlers_of bus ty = (case map_of (eb_handlers bus) ty of None \<Rightarrow> [] | Some hs \<Rightarrow> hs)"

definition subscribe :: "string \<Rightarrow> ('s, 'e) handler \<Rightarrow> ('s, 'e) event_bus \<Rightarrow> ('s, 'e) event_bus" where
  "subscribe ty h bus = bus\<lparr>eb_handlers := dict_set ty (handlers_of bus ty @ [h]) (eb_handlers bus)\<rparr>"

definition subscribe_all :: "('s, 'e) handler \<Rightarrow> ('s, 'e) event_bus \<Rightarrow> ('s, 'e) event_bus" where
  "subscribe_all h bus = bus\<lparr>eb_global := eb_global bus @ [h]\<rparr>"

definition reset_depth :: "'s dispatch_state \<Rightarrow> 's dispatch_state" where
  "reset_depth d = d\<lparr>ds_depth := 0\<rparr>"

text \<open>\<open>None\<close> is running out of fuel; a result carries what was raised, if anything.\<close>

type_synonym 's dispatched = "(exn option \<times> 's dispatch_state) option"

primrec run_program :: "('e \<Rightarrow> 's dispatch_state \<Rightarrow> 's dispatched) \<Rightarrow> ('s, 'e) program \<Rightarrow> 's dispatch_state \<Rightarrow> 's dispatched" where
  "run_program pub Return d = Some (None, d)"
| "run_program pub (Throw e) d = Some (Some e, d)"
| "run_program pub (Act f) d =
     (let r = map_prod id (run_program pub) (f (ds_platform d)) in snd r (d\<lparr>ds_platform := fst r\<rparr>))"
| "run_program pub (Publish e k) d =
     (case pub e d of None \<Rightarrow> None | Some (x, d') \<Rightarrow> run_program pub (k x) d')"

fun run_handlers :: "('e \<Rightarrow> 's dispatch_state \<Rightarrow> 's dispatched) \<Rightarrow> ('s, 'e) handler list \<Rightarrow> 'e \<Rightarrow> 's dispatch_state \<Rightarrow> 's dispatched" where
  "run_handlers pub [] e d = Some (None, d)"
| "run_handlers pub (h # hs) e d =
     (case run_program pub (h e) d of
        None \<Rightarrow> None
      | Some (Some x, d') \<Rightarrow> Some (Some x, d')
      | Some (None, d') \<Rightarrow> run_handlers pub hs e d')"

fun publish_event_to :: "nat \<Rightarrow> ('s, 'e) event_bus \<Rightarrow> ('e \<Rightarrow> string) \<Rightarrow> 'e \<Rightarrow> 's dispatch_state \<Rightarrow> 's dispatched" where
  \<comment> \<open>\<open>kind\<close> names the type of an event\<close>
  "publish_event_to 0 bus kind e d = None"
| "publish_event_to (Suc fuel) bus kind e d =
     (if max_cascade_depth \<le> ds_depth d then Some (Some (RuntimeError ''cascade depth''), d)
      else map_option (map_prod id (\<lambda>d'. d'\<lparr>ds_depth := ds_depth d' - 1\<rparr>))
        (run_handlers (publish_event_to fuel bus kind) (handlers_of bus (kind e) @ eb_global bus) e (d\<lparr>ds_depth := ds_depth d + 1\<rparr>)))"

subsection \<open>The depth guard\<close>

text \<open>A publisher that returns from every state of one depth, and leaves that depth as it was.\<close>

definition returns_at :: "nat \<Rightarrow> ('e \<Rightarrow> 's dispatch_state \<Rightarrow> 's dispatched) \<Rightarrow> bool" where
  "returns_at n pub \<longleftrightarrow> (\<forall>e d. ds_depth d = n \<longrightarrow> (\<exists>x d'. pub e d = Some (x, d') \<and> ds_depth d' = n))"

lemma returns_atD: "returns_at n pub \<Longrightarrow> ds_depth d = n \<Longrightarrow> \<exists>x d'. pub e d = Some (x, d') \<and> ds_depth d' = n"
  by (simp add: returns_at_def)

lemma program_returns:
  assumes "returns_at n pub"
  shows "ds_depth d = n \<Longrightarrow> \<exists>x d'. run_program pub p d = Some (x, d') \<and> ds_depth d' = n"
proof (induction p arbitrary: d)
  case (Act f)
  obtain s q where f: "f (ds_platform d) = (s, q)" by (cases "f (ds_platform d)")
  have "(s, q) \<in> range f" using f by (metis rangeI)
  from Act.IH[OF this, of q "d\<lparr>ds_platform := s\<rparr>"] Act.prems show ?case by (simp add: f)
next
  case (Publish e k)
  obtain x d' where pub: "pub e d = Some (x, d')" "ds_depth d' = n" using returns_atD[OF assms Publish.prems] by blast
  then show ?case using Publish.IH[of "k x" d'] by simp
qed simp_all

lemma handlers_return:
  assumes "returns_at n pub"
  shows "ds_depth d = n \<Longrightarrow> \<exists>x d'. run_handlers pub hs e d = Some (x, d') \<and> ds_depth d' = n"
proof (induction hs arbitrary: d)
  case (Cons h hs)
  obtain x d' where "run_program pub (h e) d = Some (x, d')" "ds_depth d' = n" using program_returns[OF assms Cons.prems] by blast
  then show ?case using Cons.IH[of d'] by (cases x) auto
qed simp

lemma publish_returns:
  fixes bus :: "('s, 'e) event_bus"
  shows "max_cascade_depth - n < fuel \<Longrightarrow> returns_at n (publish_event_to fuel bus kind)"
proof (induction fuel arbitrary: n)
  case (Suc fuel)
  show ?case unfolding returns_at_def
  proof (intro allI impI)
    fix e and d :: "'s dispatch_state"
    assume d: "ds_depth d = n"
    show "\<exists>x d'. publish_event_to (Suc fuel) bus kind e d = Some (x, d') \<and> ds_depth d' = n"
    proof (cases "max_cascade_depth \<le> n")
      case False
      then have "returns_at (Suc n) (publish_event_to fuel bus kind)" using Suc.prems by (intro Suc.IH) simp
      from handlers_return[OF this, of "d\<lparr>ds_depth := Suc n\<rparr>" "handlers_of bus (kind e) @ eb_global bus" e]
      show ?thesis using False d by auto
    qed (simp add: d)
  qed
qed simp

text \<open>More fuel never changes an answer.\<close>

definition extends_pub :: "('e \<Rightarrow> 's dispatch_state \<Rightarrow> 's dispatched) \<Rightarrow> ('e \<Rightarrow> 's dispatch_state \<Rightarrow> 's dispatched) \<Rightarrow> bool" where
  "extends_pub p q \<longleftrightarrow> (\<forall>e d r. p e d = Some r \<longrightarrow> q e d = Some r)"

lemma program_extends: "extends_pub p q \<Longrightarrow> run_program p prog d = Some r \<Longrightarrow> run_program q prog d = Some r"
proof (induction prog arbitrary: d)
  case (Act f)
  obtain s g where f: "f (ds_platform d) = (s, g)" by (cases "f (ds_platform d)")
  have "(s, g) \<in> range f" using f by (metis rangeI)
  from Act.IH[OF this, of g "d\<lparr>ds_platform := s\<rparr>"] Act.prems show ?case by (simp add: f)
next
  case (Publish e k)
  then show ?case by (fastforce simp: extends_pub_def split: option.splits prod.splits)
qed simp_all

lemma handlers_extend: "extends_pub p q \<Longrightarrow> run_handlers p hs e d = Some r \<Longrightarrow> run_handlers q hs e d = Some r"
proof (induction hs arbitrary: d)
  case (Cons h hs)
  obtain x d' where h: "run_program p (h e) d = Some (x, d')" using Cons.prems(2) by (auto split: option.splits)
  have "run_program q (h e) d = Some (x, d')" by (rule program_extends[OF Cons.prems(1) h])
  then show ?case using Cons.prems(2) Cons.IH[OF Cons.prems(1)] h by (cases x) auto
qed simp

lemma publish_extends: "fuel \<le> fuel' \<Longrightarrow> extends_pub (publish_event_to fuel bus kind) (publish_event_to fuel' bus kind)"
proof (induction fuel arbitrary: fuel')
  case 0
  show ?case by (simp add: extends_pub_def)
next
  case (Suc fuel)
  then obtain m where m: "fuel' = Suc m" "fuel \<le> m" by (cases fuel') auto
  show ?case using handlers_extend[OF Suc.IH[OF m(2)]] by (fastforce simp: extends_pub_def m(1) split: if_splits)
qed

definition publish :: "('s, 'e) event_bus \<Rightarrow> ('e \<Rightarrow> string) \<Rightarrow> 'e \<Rightarrow> 's dispatch_state \<Rightarrow> exn option \<times> 's dispatch_state" where
  "publish bus kind e d = (case publish_event_to (Suc max_cascade_depth) bus kind e d of Some r \<Rightarrow> r | None \<Rightarrow> (None, d))"

text \<open>C20: A publish always ends. Whatever handlers are subscribed and however they publish in turn, at any
  depth of the cascade seventeen levels of recursion are enough, more change nothing, and the
  depth afterwards is the depth before, also when a handler raised.\<close>

theorem publish_terminates:
  "Suc max_cascade_depth \<le> fuel \<longrightarrow> publish_event_to fuel bus kind e d = Some (publish bus kind e d)
    \<and> ds_depth (snd (publish bus kind e d)) = ds_depth d"
proof
  assume fuel: "Suc max_cascade_depth \<le> fuel"
  have "returns_at (ds_depth d) (publish_event_to (Suc max_cascade_depth) bus kind)" by (rule publish_returns) simp
  from returns_atD[OF this refl, of e] obtain x d' where
    run: "publish_event_to (Suc max_cascade_depth) bus kind e d = Some (x, d')" "ds_depth d' = ds_depth d"
    by (elim exE conjE) (rule that)
  then have "publish_event_to fuel bus kind e d = Some (x, d')"
    using publish_extends[OF fuel, of bus kind] unfolding extends_pub_def by blast
  then show "publish_event_to fuel bus kind e d = Some (publish bus kind e d) \<and> ds_depth (snd (publish bus kind e d)) = ds_depth d"
    using run(2) by (simp add: publish_def run(1) del: publish_event_to.simps)
qed

text \<open>A handler that publishes its own event again: the cascade stops at the bound.\<close>

definition echo :: "(nat, unit) handler" where
  "echo e = Act (\<lambda>n. (Suc n, Publish () (\<lambda>x. case x of None \<Rightarrow> Return | Some y \<Rightarrow> Throw y)))"

definition echo_bus :: "(nat, unit) event_bus" where
  "echo_bus = subscribe ''tick'' echo new_bus"

lemma publish_terminates_witness:
  "publish_event_to 20 echo_bus (\<lambda>_. ''tick'') () \<lparr>ds_depth = 0, ds_platform = 0\<rparr>
     = Some (publish echo_bus (\<lambda>_. ''tick'') () \<lparr>ds_depth = 0, ds_platform = 0\<rparr>)"
  using publish_terminates[of 20 echo_bus "\<lambda>_. ''tick''" "()" "\<lparr>ds_depth = 0, ds_platform = 0\<rparr>"]
  by (simp add: max_cascade_depth_def)

lemma echo_stops:
  "publish echo_bus (\<lambda>_. ''tick'') () \<lparr>ds_depth = 0, ds_platform = 0\<rparr>
     = (Some (RuntimeError ''cascade depth''), \<lparr>ds_depth = 0, ds_platform = 16\<rparr>)"
  by code_simp

subsection \<open>The order of delivery\<close>

lemma subscribe_order:
  "handlers_of (subscribe ty h bus) ty' = (if ty' = ty then handlers_of bus ty @ [h] else handlers_of bus ty')"
  by (simp add: subscribe_def handlers_of_def split: option.split)

end
