(* ===== verification/Spec2Isabelle.thy ===== *)
theory Spec2Isabelle
  imports Passive_Router Risk_Exits Horizons Lifecycle Fill_Books Tick_Walk Arbitration Feed_Health Session_Walk Regime_Gate Event_Bus Event_Store
begin

section \<open>The feelies trading platform\<close>

text \<open>
  A deterministic intraday trading platform in Python (paths below are relative to
  \<open>src/src/feelies\<close>). Market events enter through a normaliser that watches the health of every
  feed, are stored on a tape and replayed; a kernel walks each quote through a fixed pipeline
  (features, signals, risk, order, acknowledgements, positions) under three state machines;
  orders go to a router, which a backtest simulates; fills are booked twice, net per symbol and
  per strategy, and attributed to the strategies that asked for them; forced exits and a kill
  path close positions when risk or an exception demands it.

  \<^bold>\<open>Conventions.\<close> A routine that may raise is an action \<open>('s, 'a) act\<close>: it returns a value or an exception
  and keeps the state it had reached (Kernel\_State). Python's integers are \<open>int\<close>; decimals
  and floats are rational numbers rounded after every operation to 28 decimal or 53 binary
  digits (Numerics), without exponent limits, NaN or infinities. Dictionaries whose order the
  code observes are association lists, sets and look-up tables are functions. Messages of
  exceptions and alerts are short tags. Metrics, log lines, locks and wall-clock timings are
  left out throughout.

  \<^bold>\<open>Shared foundations.\<close>
  \<^item> Prelude: exceptions, results, association lists, bounded histories.
  \<^item> Numerics: \<open>round_sig\<close> and its order and exactness laws; quantisation.
  \<^item> Events: core/events.py.
  \<^item> State\_Machine, Machines: core/state\_machine.py and the five transition tables (order, risk,
    macro, micro, data health). A transition is atomic, the audit trail is legal, chained and
    bounded, and an order submission follows a risk check in every history of the pipeline.

  \<^bold>\<open>Positions and fills.\<close>
  \<^item> Lot\_Ledger, Position\_Store, Quantity\_Book, Whole\_Shares: core/lot\_ledger.py,
    portfolio/memory\_position\_store.py, portfolio/strategy\_position\_store.py. The locale
    \<open>quantity_book\<close> states what the kernel relies on; both stores interpret it. FIFO consumption
    is exact and the two books agree with an abstract quantity.
  \<^item> Fill\_Attribution: core/fill\_attribution.py, portfolio/fill\_attribution.py. Largest-remainder
    splits are exact and cumulative partial fills equal one fill.
  \<^item> Kernel\_State, Fill\_Reconciliation, Fill\_Books, Frames: order tracking, acknowledgements and
    \<open>_reconcile_fills\<close> of kernel/orchestrator.py. Orders refine the order table, fills book once,
    strategy slices follow the net book.

  \<^bold>\<open>From a signal to an order.\<close>
  \<^item> Cost\_Model, Planning, Admission, Sizing, Order\_Building, Trading, Arbitration: the cost model,
    the intent translator and the target planner (equal on every signal and position), admission
    gates, sizing and netting, order construction, and the choice among competing signals.
  \<^item> Risk\_Engine, Sized\_Intents: risk/basic\_risk.py, risk/risk\_wrapper.py and
    risk/sized\_intent\_orders.py. An allowed order and an admitted portfolio respect their limits.
  \<^item> Trading\_Calendar: session bounds, the entry window and the day-trading rule; the time-zone
    database is the parameter \<open>calendar\<close>.
  \<^item> Regime\_Gate: core/regime\_gate.py. Expressions are Python's syntax trees (the parser is a
    parameter); screened, well-typed conditions do not go wrong.

  \<^item> Risk\_Exits: risk/stop\_exit.py, risk/hazard\_exit.py, risk/deferral\_cap.py and
    risk/exit\_composer.py. The locale \<open>exit_author\<close> states what the four controllers share, a guard
    against closing the same book twice; each interprets it. Their requirements are sent to the
    kernel's handler of \<open>Forced_Exit\<close>, which accepts them in full.

  \<^bold>\<open>The kernel.\<close>
  \<^item> Forced\_Exit, Forced\_Orders: router calls, working exits, the de-risk handler with its clamp,
    the emergency flatten, escalation and the operator's commands. The router is a record of
    functions on its own state; \<open>Backtest_Router.backtest_router\<close> is one.
  \<^item> Session, Tick\_Walk, Session\_Walk: \<open>_process_tick\<close> and its failure path, the trade handler and
    the run loops. A \<open>platform\<close> names the subscribers of the micro and macro machines, which may raise
    and so veto a transition; the other publications of the bus are entries of a log and do not raise.
    A tick returns whatever its parts and these subscribers raise; a killed
    session trades nothing; a run leaves no trading mode behind.
  \<^item> Event\_Bus: bus/event\_bus.py. A handler is a program over the published event and its own
    state; nested publication is bounded by 16 levels, and a fuel of the bound plus one always
    suffices (\<open>publish_terminates\<close>).

  \<^bold>\<open>Data.\<close>
  \<^item> Feed\_Health: core/data\_health.py, the health and halt logic of ingestion/massive\_normalizer.py.
  \<^item> Event\_Store: identifiers, serialization, merging, the event log, replay and the disk cache.
    The text forms of decimals, JSON, gzip and SHA-256 are the parameters of a \<open>codec\<close>, whose round
    trips are hypotheses that a sample codec satisfies.
    A save of the cache may stop inside a write, and a power loss may cut any file, as nothing is
    synced (\<open>cache_incident\<close>).

  \<^item> Horizons: sensors/horizon\_scheduler.py and composition/synchronizer.py. Event time becomes
    one tick per window, and each window one context over the universe, whose signals are causal
    and fresh; the two compose (\<open>one_context_per_window\<close>).

  \<^bold>\<open>Simulated execution.\<close>
  \<^item> Market\_Fill: execution/tick\_size.py and execution/market\_fill.py. A taker fill returns, adds up
    and is priced honestly.
  \<^item> Backtest\_Router: execution/backtest\_router.py, execution/moc\_fill.py,
    execution/moc\_session.py. The invariant is that every order has one story. The closing-auction
    queue relies on its router's rejection routine through the locale \<open>rejecting\<close>.
  \<^item> Passive\_Router: execution/passive\_limit\_router.py, which extends that state by the orders at
    rest; it interprets \<open>rejecting\<close> with its journaled rejection. Again every order has one story,
    never beyond its quantity, nor beyond its limit while at rest. The digest behind the seeded
    draw is a parameter.
  \<^item> Order\_Journal: storage/submitted\_order\_journal.py. What a crash leaves on disk reopens, and an
    order without an outcome is never sent again, unless it was recorded behind a torn line.

  \<^bold>\<open>Promotion.\<close>
  \<^item> Evidence, Evidence\_Metadata: promotion/evidence.py with the registry functions that apply
    thresholds (alpha/registry.py). Floats are \<open>pyfloat\<close>, with NaN and the infinities. Pinned
    thresholds hold against every override but NaN; evidence survives its projection into the ledger.
  \<^item> Lifecycle: promotion/lifecycle.py, promotion/ledger.py and the registry's \<open>promote\<close>. Histories are
    lists of operations on the lifecycle and its world, promotions called directly among them. Every
    recorded transition is warranted by evidence the gate of its trigger accepted, and by that of its
    edge when the registry dispatches; the ledger file, reached through the locale \<open>promotion_log\<close>,
    mirrors the history whatever appends are refused; a demotion commits; a checkpoint restores.

  \<^bold>\<open>Fuel.\<close> Only the event bus needs fuel; every other loop is structural recursion over a list.

  \<^bold>\<open>Not modelled.\<close> Sensors, features, the regime filter and the cross-sectional optimiser are
  floating-point estimators over libm functions; they enter as the values they publish. Alpha
  loading, configuration, bootstrap, forensics and research run before or
  after a session. Network clients, the vendor's broker API, the command line, scripts and
  repository tools are I/O.
\<close>

end
